(* ===== verification/Prelude.thy ===== *)
theory Prelude
  imports
    Main
    "HOL-Library.Word"
    "HOL-Library.Char_ord"
    "HOL-Library.List_Lexorder"
    "HOL-Library.Product_Lexorder"
    "HOL-Library.Option_ord"
    "HOL-Library.Sublist"
begin

text \<open>
  Shared vocabulary of the development: the machine integers of the Rust code, its
  \<open>Result\<close> type, the operations of \<open>str\<close> the server uses, and the generic lemmas and
  locales on which the component theories rest.

  A Rust \<open>String\<close> is the list of its UTF-8 bytes (a HOL \<open>string\<close>, whose characters are
  bytes), so \<open>length\<close> is Rust's \<open>len()\<close> and the lexicographic order of
  \<open>List_Lexorder\<close> is Rust's \<open>Ord\<close> on strings.
\<close>

named_theorems res_simps "computing with the result type"
named_theorems view_simps "how an operation acts on the map it maintains"

section \<open>Machine integers\<close>

type_synonym u8 = "8 word"
type_synonym u16 = "16 word"
type_synonym u32 = "32 word"
type_synonym u64 = "64 word"
type_synonym i64 = "64 word" \<comment> \<open>read with \<open>sint\<close>\<close>
type_synonym usize = "64 word" \<comment> \<open>the server is built for 64-bit targets\<close>
type_synonym bytes = "8 word list"

text \<open>Rust's \<open>saturating_add\<close>, \<open>saturating_sub\<close> and \<open>checked_add\<close> on an unsigned type.\<close>

definition sat_add :: "'w::len word \<Rightarrow> 'w word \<Rightarrow> 'w word" where
  "sat_add a b = (if unat a + unat b < 2 ^ LENGTH('w) then a + b else - 1)"

lemma sat_add_code [code]: "sat_add a b = (if a \<le> a + b then a + b else - 1)"
  by (simp add: sat_add_def no_plus_overflow_unat_size word_size)

definition sat_sub :: "'w::len word \<Rightarrow> 'w word \<Rightarrow> 'w word" where
  "sat_sub a b = (if b \<le> a then a - b else 0)"

definition checked_add :: "'w::len word \<Rightarrow> 'w word \<Rightarrow> 'w word option" where
  "checked_add a b = (if unat a + unat b < 2 ^ LENGTH('w) then Some (a + b) else None)"

lemma unat_minus_one: "unat (- 1 :: 'w::len word) = 2 ^ LENGTH('w) - 1"
  by (simp add: unsigned_minus_1_eq_mask mask_eq_exp_minus_1)

lemma unat_add_small:
  "unat a + unat b < 2 ^ LENGTH('w) \<Longrightarrow> unat (a + b) = unat a + unat (b :: 'w::len word)"
  by (simp add: unat_word_ariths)

lemma unat_bound: "unat (a :: 'w::len word) \<le> 2 ^ LENGTH('w) - 1"
proof -
  have "unat a < 2 ^ LENGTH('w)" by (rule unsigned_less)
  then show ?thesis by linarith
qed

lemma unat_sat_sub: "unat (sat_sub a b) = unat a - unat b"
  by (auto simp: sat_sub_def unat_sub word_le_nat_alt)

lemma unat_sat_add:
  "unat (sat_add a (b :: 'w::len word)) = min (unat a + unat b) (2 ^ LENGTH('w) - 1)"
  by (auto simp: sat_add_def unat_add_small unat_minus_one)

lemma sat_add_ge: "a \<le> sat_add a (b :: 'w::len word)"
  using unat_bound [of a] by (simp add: word_le_nat_alt unat_sat_add)

lemma checked_add_Some:
  "checked_add a (b :: 'w::len word) = Some c \<longleftrightarrow> unat c = unat a + unat b"
proof (cases "unat a + unat b < 2 ^ LENGTH('w)")
  case True
  then show ?thesis
    by (auto simp: checked_add_def unat_add_small word_unat_eq_iff)
next
  case False
  then have "unat c \<noteq> unat a + unat b"
    using unsigned_less [of c] by (metis (no_types))
  with False show ?thesis by (simp add: checked_add_def)
qed

section \<open>Results\<close>

text \<open>
  A fallible function returns \<open>'e + 'a\<close>: \<open>Inl\<close> is Rust's \<open>Err\<close>, \<open>Inr\<close> is \<open>Ok\<close>.
  \<open>res_bind\<close> is the \<open>?\<close> operator, \<open>map_res\<close> is
  \<open>iter().map(f).collect::<Result<Vec<_>>>()\<close>, which stops at the first error, and
  \<open>map_res_option\<close> is \<open>Option::map(f).transpose()\<close>.
\<close>

definition res_bind :: "'e + 'a \<Rightarrow> ('a \<Rightarrow> 'e + 'b) \<Rightarrow> 'e + 'b" where
  "res_bind r f = (case r of Inl e \<Rightarrow> Inl e | Inr x \<Rightarrow> f x)"

lemma res_bind_simps [simp, res_simps]:
  "res_bind (Inl e) f = Inl e"
  "res_bind (Inr x) f = f x"
  by (simp_all add: res_bind_def)

lemma res_bind_eq_Inr [simp]:
  "res_bind r f = Inr y \<longleftrightarrow> (\<exists>x. r = Inr x \<and> f x = Inr y)"
  by (cases r) simp_all

lemma res_bind_cong [fundef_cong]:
  "r = r' \<Longrightarrow> (\<And>x. r' = Inr x \<Longrightarrow> f x = f' x) \<Longrightarrow> res_bind r f = res_bind r' f'"
  by (cases r) auto

fun map_res :: "('a \<Rightarrow> 'e + 'b) \<Rightarrow> 'a list \<Rightarrow> 'e + 'b list" where
  "map_res f [] = Inr []"
| "map_res f (x # xs) = res_bind (f x) (\<lambda>y. res_bind (map_res f xs) (\<lambda>ys. Inr (y # ys)))"

lemma map_res_cong [fundef_cong]:
  "xs = ys \<Longrightarrow> (\<And>x. x \<in> set ys \<Longrightarrow> f x = g x) \<Longrightarrow> map_res f xs = map_res g ys"
  by (induction ys arbitrary: xs) (auto intro: res_bind_cong)

definition map_res_option :: "('a \<Rightarrow> 'e + 'b) \<Rightarrow> 'a option \<Rightarrow> 'e + 'b option" where
  "map_res_option f m =
     (case m of None \<Rightarrow> Inr None | Some x \<Rightarrow> res_bind (f x) (\<lambda>y. Inr (Some y)))"

lemma map_res_option_simps [simp]:
  "map_res_option f None = Inr None"
  "map_res_option f (Some x) = res_bind (f x) (\<lambda>y. Inr (Some y))"
  by (simp_all add: map_res_option_def)

lemma map_res_append:
  "map_res f (xs @ ys) =
     res_bind (map_res f xs) (\<lambda>us. res_bind (map_res f ys) (\<lambda>vs. Inr (us @ vs)))"
proof (induction xs)
  case Nil
  then show ?case by (cases "map_res f ys") simp_all
next
  case (Cons x xs)
  then show ?case
    by (cases "f x"; cases "map_res f xs"; cases "map_res f ys") simp_all
qed

lemma map_res_Inr_iff:
  "map_res f xs = Inr ys \<longleftrightarrow> list_all2 (\<lambda>x y. f x = Inr y) xs ys"
  by (induction xs arbitrary: ys) (auto simp: list_all2_Cons1)

lemma length_map_res: "map_res f xs = Inr ys \<Longrightarrow> length ys = length xs"
  by (simp add: map_res_Inr_iff list_all2_lengthD)

text \<open>\<open>for x in xs { check(x)?; }\<close>: every check passes, in order.\<close>

definition check_all :: "('a \<Rightarrow> 'e + unit) \<Rightarrow> 'a list \<Rightarrow> 'e + unit" where
  "check_all f xs = res_bind (map_res f xs) (\<lambda>_. Inr ())"

lemma check_all_simps [simp]:
  "check_all f [] = Inr ()"
  "check_all f (x # xs) = res_bind (f x) (\<lambda>_. check_all f xs)"
  by (cases "f x"; cases "map_res f xs"; simp add: check_all_def)+

lemma check_all_ok [simp]: "check_all f xs = Inr u \<longleftrightarrow> (\<forall>x\<in>set xs. f x = Inr ())"
  by (induction xs) auto

text \<open>\<open>map_err\<close>\<close>

definition map_err :: "('e \<Rightarrow> 'f) \<Rightarrow> 'e + 'a \<Rightarrow> 'f + 'a" where
  "map_err f r = (case r of Inl e \<Rightarrow> Inl (f e) | Inr x \<Rightarrow> Inr x)"

lemma map_err_simps [simp, res_simps]:
  "map_err f (Inl e) = Inl (f e)"
  "map_err f (Inr x) = Inr x"
  by (simp_all add: map_err_def)

lemma map_err_eq_Inr [simp]: "map_err f r = Inr x \<longleftrightarrow> r = Inr x"
  by (cases r) simp_all

section \<open>The interface of a codec\<close>

text \<open>
  An encoder that may fail and its decoder. The law says that a value the server stores can
  be encoded, and that decoding gives it back; the lemmas lift it to vectors and options,
  which is how every wire structure of the write-ahead log is put together.
\<close>

locale codec =
  fixes enc :: "'a \<Rightarrow> 'e + 'b"
    and dec :: "'b \<Rightarrow> 'e + 'a"
    and ok :: "'a \<Rightarrow> bool"
  assumes dec_enc: "ok x \<Longrightarrow> res_bind (enc x) dec = Inr x"
begin

lemma encE:
  assumes "ok x"
  obtains y where "enc x = Inr y" and "dec y = Inr x"
  using dec_enc [OF assms] by auto

lemma list_roundtrip:
  assumes "\<forall>x\<in>set xs. ok x"
  shows "\<exists>ys. map_res enc xs = Inr ys \<and> map_res dec ys = Inr xs"
  using assms
proof (induction xs)
  case (Cons x xs)
  then obtain y ys where "enc x = Inr y" "dec y = Inr x"
    and "map_res enc xs = Inr ys" "map_res dec ys = Inr xs"
    by (metis encE list.set_intros)
  then show ?case by simp
qed simp

lemma option_roundtrip:
  assumes "\<forall>x\<in>set_option m. ok x"
  shows "\<exists>m'. map_res_option enc m = Inr m' \<and> map_res_option dec m' = Inr m"
  using assms by (cases m) (auto elim: encE)

lemma enc_inj:
  assumes "ok x" "ok x'" "enc x = enc x'"
  shows "x = x'"
  by (metis assms encE sum.inject(2))

end

section \<open>Strings\<close>

definition starts_with :: "'a list \<Rightarrow> 'a list \<Rightarrow> bool" where
  "starts_with s p \<longleftrightarrow> take (length p) s = p"

definition strip_prefix :: "'a list \<Rightarrow> 'a list \<Rightarrow> 'a list option" where
  "strip_prefix s p = (if starts_with s p then Some (drop (length p) s) else None)"

definition ends_with :: "'a list \<Rightarrow> 'a list \<Rightarrow> bool" where
  "ends_with s p \<longleftrightarrow> starts_with (rev s) (rev p)"

definition strip_suffix :: "'a list \<Rightarrow> 'a list \<Rightarrow> 'a list option" where
  "strip_suffix s p = (if ends_with s p then Some (take (length s - length p) s) else None)"

lemma starts_with_prefix: "starts_with s p \<longleftrightarrow> prefix p s"
  by (metis append_take_drop_id append_eq_conv_conj prefixE prefixI starts_with_def)

lemma starts_with_append [simp]: "starts_with (p @ s) p"
  by (simp add: starts_with_def)

lemma starts_with_Nil [simp]: "starts_with s []"
  by (simp add: starts_with_def)

lemma ends_with_suffix: "ends_with s p \<longleftrightarrow> suffix p s"
  by (simp add: ends_with_def starts_with_prefix suffix_to_prefix)

lemma strip_prefix_append [simp]: "strip_prefix (p @ s) p = Some s"
  by (simp add: strip_prefix_def)

lemma strip_prefix_Some: "strip_prefix s p = Some r \<longleftrightarrow> s = p @ r"
  by (auto simp: strip_prefix_def starts_with_prefix elim: prefixE)

text \<open>\<open>split_once(c)\<close>: what is before and after the first occurrence of a byte.\<close>

fun split_once :: "'a \<Rightarrow> 'a list \<Rightarrow> ('a list \<times> 'a list) option" where
  "split_once c [] = None"
| "split_once c (x # xs) =
     (if x = c then Some ([], xs)
      else map_option (\<lambda>(l, r). (x # l, r)) (split_once c xs))"

lemma split_once_Some:
  "split_once c s = Some (l, r) \<longleftrightarrow> s = l @ c # r \<and> c \<notin> set l"
proof (induction s arbitrary: l)
  case Nil
  then show ?case by simp
next
  case (Cons x s)
  then show ?case by (cases l) auto
qed

lemma split_once_None: "split_once c s = None \<longleftrightarrow> c \<notin> set s"
  by (induction s) auto

text \<open>
  \<open>str::trim\<close> removes the code points with the Unicode property \<open>White_Space\<close> at both
  ends; \<open>white_space\<close> lists their UTF-8 encodings.
\<close>

definition white_space :: "string list" where
  "white_space =
     map (map char_of)
       [[0x09], [0x0A], [0x0B], [0x0C], [0x0D], [0x20 :: nat], [0xC2, 0x85], [0xC2, 0xA0],
        [0xE1, 0x9A, 0x80], [0xE2, 0x80, 0x80], [0xE2, 0x80, 0x81], [0xE2, 0x80, 0x82],
        [0xE2, 0x80, 0x83], [0xE2, 0x80, 0x84], [0xE2, 0x80, 0x85], [0xE2, 0x80, 0x86],
        [0xE2, 0x80, 0x87], [0xE2, 0x80, 0x88], [0xE2, 0x80, 0x89], [0xE2, 0x80, 0x8A],
        [0xE2, 0x80, 0xA8], [0xE2, 0x80, 0xA9], [0xE2, 0x80, 0xAF], [0xE2, 0x81, 0x9F],
        [0xE3, 0x80, 0x80]]"

lemma white_space_nonempty: "w \<in> set white_space \<Longrightarrow> w \<noteq> []"
  by (auto simp: white_space_def)

text \<open>Strip from the front, as long as some encoding of \<open>ws\<close> is a prefix.\<close>

function strip_front :: "'a list list \<Rightarrow> 'a list \<Rightarrow> 'a list" where
  "strip_front ws s =
     (case find (\<lambda>w. w \<noteq> [] \<and> starts_with s w) ws of
        None \<Rightarrow> s
      | Some w \<Rightarrow> strip_front ws (drop (length w) s))"
  by pat_completeness auto
termination
proof (relation "measure (\<lambda>(ws, s). length s)")
  fix ws s and w :: "'a list"
  assume "find (\<lambda>w. w \<noteq> [] \<and> starts_with s w) ws = Some w"
  then have "w \<noteq> []" and "starts_with s w" by (auto simp: find_Some_iff)
  then have "0 < length w" and "length w \<le> length s"
    by (auto simp: starts_with_prefix prefix_length_le)
  then have "length s - length w < length s" by linarith
  then show "((ws, drop (length w) s), ws, s) \<in> measure (\<lambda>(ws, s). length s)"
    by (simp only: in_measure prod.case length_drop)
qed simp

declare strip_front.simps [simp del]

definition trim_start :: "string \<Rightarrow> string" where
  "trim_start s = strip_front white_space s"

definition trim_end :: "string \<Rightarrow> string" where
  "trim_end s = rev (strip_front (map rev white_space) (rev s))"

definition trim :: "string \<Rightarrow> string" where
  "trim s = trim_end (trim_start s)"

lemma strip_front_none: "(\<forall>w\<in>set ws. w \<noteq> [] \<longrightarrow> \<not> starts_with s w) \<Longrightarrow> strip_front ws s = s"
  by (subst strip_front.simps) (auto split: option.split simp: find_Some_iff)

lemma strip_front_Nil [simp]: "strip_front ws [] = []"
  by (rule strip_front_none) (simp add: starts_with_def)

lemma trim_Nil [simp]: "trim [] = []"
  by (simp add: trim_def trim_end_def trim_start_def)

lemma visible_not_white:
  assumes "32 < (of_char c :: nat)" "of_char c < (128 :: nat)"
  shows "w \<in> set white_space \<Longrightarrow> \<not> starts_with (c # s) w"
    "w \<in> set white_space \<Longrightarrow> \<not> starts_with (c # s) (rev w)"
  using assms by (auto simp: white_space_def starts_with_def)

text \<open>A string that starts and ends with a visible ASCII character is its own trimmed form.\<close>

definition visible :: "char \<Rightarrow> bool" where
  "visible c \<longleftrightarrow> 32 < (of_char c :: nat) \<and> of_char c < (128 :: nat)"

lemma trim_visible:
  assumes "s \<noteq> []" and "visible (hd s)" and "visible (last s)"
  shows "trim s = s"
proof -
  have "trim_start s = s"
    unfolding trim_start_def
    using assms visible_not_white(1) [of "hd s" _ "tl s"]
    by (intro strip_front_none) (auto simp: visible_def)
  moreover have "\<not> starts_with (rev s) (rev w)" if "w \<in> set white_space" for w
    using visible_not_white(2) [OF _ _ that, of "last s" "rev (butlast s)"] assms
    by (cases s rule: rev_cases) (auto simp: visible_def)
  then have "trim_end s = s"
    unfolding trim_end_def by (subst strip_front_none) auto
  ultimately show ?thesis by (simp add: trim_def)
qed

lemma trim_code [code]:
  "trim s = (if s \<noteq> [] \<and> visible (hd s) \<and> visible (last s) then s else trim_end (trim_start s))"
  by (simp add: trim_visible) (simp add: trim_def)

end
