(* ===== verification/Ordered_Map.thy ===== *)
theory Ordered_Map
  imports Prelude
begin

text \<open>
  The standard library's \<open>BTreeMap\<close>: a finite map whose iteration order is the order of
  its keys. A map is the list of its entries, strictly ascending in the key. The type
  carries that invariant, so the laws below hold of every map without a hypothesis, and
  every operation still computes on the list of entries.

  \<open>BTreeSet<K>\<close> is \<open>BTreeMap<K, ()>\<close>, as in the library. A \<open>HashMap\<close> of the source is
  modelled by the same type: its iteration order is unspecified, so the properties stated
  about such a map do not mention the order.
\<close>

section \<open>Ascending association lists\<close>

definition ascending :: "('k::linorder \<times> 'v) list \<Rightarrow> bool" where
  "ascending xs \<longleftrightarrow> sorted_wrt (<) (map fst xs)"

fun al_put :: "'k::linorder \<Rightarrow> 'v \<Rightarrow> ('k \<times> 'v) list \<Rightarrow> ('k \<times> 'v) list" where
  "al_put k v [] = [(k, v)]"
| "al_put k v ((a, b) # xs) =
     (if k < a then (k, v) # (a, b) # xs
      else if k = a then (k, v) # xs
      else (a, b) # al_put k v xs)"

fun al_del :: "'k::linorder \<Rightarrow> ('k \<times> 'v) list \<Rightarrow> ('k \<times> 'v) list" where
  "al_del k [] = []"
| "al_del k ((a, b) # xs) = (if k = a then xs else (a, b) # al_del k xs)"

lemma ascending_Nil [simp]: "ascending []"
  by (simp add: ascending_def)

lemma ascending_Cons [simp]:
  "ascending ((k, v) # xs) \<longleftrightarrow> ascending xs \<and> (\<forall>x\<in>fst ` set xs. k < x)"
  by (auto simp: ascending_def)

lemma ascending_distinct: "ascending xs \<Longrightarrow> distinct (map fst xs)"
  unfolding ascending_def
  by (metis strict_sorted_iff)

lemma keys_al_put: "fst ` set (al_put k v xs) = insert k (fst ` set xs)"
  by (induction k v xs rule: al_put.induct) auto

lemma ascending_al_put: "ascending xs \<Longrightarrow> ascending (al_put k v xs)"
  by (induction k v xs rule: al_put.induct) (auto simp: keys_al_put)

lemma set_al_del: "set (al_del k xs) \<subseteq> set xs"
  by (induction k xs rule: al_del.induct) auto

lemma ascending_al_del: "ascending xs \<Longrightarrow> ascending (al_del k xs)"
proof (induction k xs rule: al_del.induct)
  case (2 k a b xs)
  then show ?case using set_al_del [of k xs] by (auto 0 3)
qed simp

lemma ascending_filter: "ascending xs \<Longrightarrow> ascending (filter P xs)"
  by (induction xs) auto

lemma map_of_al_put: "map_of (al_put k v xs) = (map_of xs)(k \<mapsto> v)"
  by (induction k v xs rule: al_put.induct) (auto simp: fun_eq_iff)

lemma map_of_al_del: "ascending xs \<Longrightarrow> map_of (al_del k xs) = (map_of xs)(k := None)"
proof (induction k xs rule: al_del.induct)
  case (2 k a b xs)
  have "map_of xs k = None" if "k = a"
    using that "2.prems" by (auto simp: map_of_eq_None_iff)
  with "2.IH" "2.prems" show ?case by (auto simp: fun_eq_iff)
qed (simp add: fun_eq_iff)

lemma ascending_map_of:
  "ascending xs \<Longrightarrow> (k, v) \<in> set xs \<longleftrightarrow> map_of xs k = Some v"
  using map_of_eq_Some_iff [OF ascending_distinct] by fastforce

lemma ascending_keys_determine:
  "ascending xs \<Longrightarrow> ascending ys \<Longrightarrow> set xs = set ys \<Longrightarrow> xs = ys"
proof (induction xs arbitrary: ys)
  case Nil
  then show ?case by simp
next
  case (Cons x xs)
  obtain k v where x: "x = (k, v)" by (cases x)
  from Cons.prems(3) obtain k' v' ys' where ys: "ys = (k', v') # ys'"
    by (cases ys) auto
  have lt: "\<forall>e\<in>set xs. k < fst e" and lt': "\<forall>e\<in>set ys'. k' < fst e"
    using Cons.prems(1,2) by (simp_all add: x ys)
  have "(k, v) \<in> set ys" and "(k', v') \<in> set (x # xs)"
    using Cons.prems(3) by (auto simp: x ys)
  then have kv: "k' = k" "v' = v"
    using lt lt' unfolding x ys by fastforce+
  have "set xs = set (x # xs) - {x}" using lt by (auto simp: x)
  also have "\<dots> = set ys'" using lt' Cons.prems(3) by (auto simp: x ys kv)
  finally have "xs = ys'" using Cons.IH Cons.prems(1,2) by (simp add: x ys)
  then show ?case by (simp add: x ys kv)
qed

lemma ascending_eqI:
  assumes "ascending xs" "ascending ys" "map_of xs = map_of ys"
  shows "xs = ys"
proof (rule ascending_keys_determine [OF assms(1,2)])
  have "e \<in> set xs \<longleftrightarrow> e \<in> set ys" for e
    by (cases e) (simp add: ascending_map_of assms)
  then show "set xs = set ys" by blast
qed

section \<open>The type of ordered maps\<close>

typedef (overloaded) ('k::linorder, 'v) btree = "{xs :: ('k \<times> 'v) list. ascending xs}"
  morphisms bt_entries bt_abs
  by (rule exI [of _ "[]"]) simp

type_synonym 'k bset = "('k, unit) btree"

setup_lifting type_definition_btree

lift_definition bt_empty :: "('k::linorder, 'v) btree" is "[]"
  by simp

lift_definition bt_insert ::
  "'k::linorder \<Rightarrow> 'v \<Rightarrow> ('k, 'v) btree \<Rightarrow> ('k, 'v) btree" is al_put
  by (rule ascending_al_put)

lift_definition bt_remove :: "'k::linorder \<Rightarrow> ('k, 'v) btree \<Rightarrow> ('k, 'v) btree" is al_del
  by (rule ascending_al_del)

text \<open>\<open>retain\<close>, and a traversal of \<open>iter_mut()\<close> that may rewrite each value.\<close>

lift_definition bt_retain ::
  "('k::linorder \<Rightarrow> 'v \<Rightarrow> bool) \<Rightarrow> ('k, 'v) btree \<Rightarrow> ('k, 'v) btree"
  is "\<lambda>p xs. filter (\<lambda>(k, v). p k v) xs"
  by (rule ascending_filter)

lift_definition bt_map ::
  "('k::linorder \<Rightarrow> 'v \<Rightarrow> 'w) \<Rightarrow> ('k, 'v) btree \<Rightarrow> ('k, 'w) btree"
  is "\<lambda>f xs. map (\<lambda>(k, v). (k, f k v)) xs"
  by (simp add: ascending_def case_prod_beta comp_def)

definition bt_get :: "('k::linorder, 'v) btree \<Rightarrow> 'k \<Rightarrow> 'v option" where
  "bt_get m k = map_of (bt_entries m) k"

definition bt_keys :: "('k::linorder, 'v) btree \<Rightarrow> 'k list" where
  "bt_keys m = map fst (bt_entries m)"

definition bt_values :: "('k::linorder, 'v) btree \<Rightarrow> 'v list" where
  "bt_values m = map snd (bt_entries m)"

definition bt_len :: "('k::linorder, 'v) btree \<Rightarrow> nat" where
  "bt_len m = length (bt_entries m)"

definition bt_is_empty :: "('k::linorder, 'v) btree \<Rightarrow> bool" where
  "bt_is_empty m \<longleftrightarrow> bt_entries m = []"

definition bt_contains :: "('k::linorder, 'v) btree \<Rightarrow> 'k \<Rightarrow> bool" where
  "bt_contains m k \<longleftrightarrow> bt_get m k \<noteq> None"

text \<open>\<open>range(..=k).next_back()\<close>: the entry with the greatest key not above \<open>k\<close>.\<close>

definition bt_floor :: "('k::linorder, 'v) btree \<Rightarrow> 'k \<Rightarrow> ('k \<times> 'v) option" where
  "bt_floor m k =
     (case rev (filter (\<lambda>e. fst e \<le> k) (bt_entries m)) of [] \<Rightarrow> None | e # _ \<Rightarrow> Some e)"

text \<open>\<open>iter().next_back()\<close> and \<open>iter().next()\<close>.\<close>

definition bt_last :: "('k::linorder, 'v) btree \<Rightarrow> ('k \<times> 'v) option" where
  "bt_last m = (case rev (bt_entries m) of [] \<Rightarrow> None | e # _ \<Rightarrow> Some e)"

definition bt_first :: "('k::linorder, 'v) btree \<Rightarrow> ('k \<times> 'v) option" where
  "bt_first m = (case bt_entries m of [] \<Rightarrow> None | e # _ \<Rightarrow> Some e)"

text \<open>\<open>for (k, v) in xs { m.insert(k, v); }\<close>, \<open>collect()\<close> and \<open>entry(k).or_insert(v)\<close>.\<close>

definition bt_extend :: "('k::linorder \<times> 'v) list \<Rightarrow> ('k, 'v) btree \<Rightarrow> ('k, 'v) btree" where
  "bt_extend xs m = fold (\<lambda>(k, v). bt_insert k v) xs m"

definition bt_collect :: "('k::linorder \<times> 'v) list \<Rightarrow> ('k, 'v) btree" where
  "bt_collect xs = bt_extend xs bt_empty"

definition bt_get_or :: "('k::linorder, 'v) btree \<Rightarrow> 'k \<Rightarrow> 'v \<Rightarrow> 'v" where
  "bt_get_or m k d = (case bt_get m k of None \<Rightarrow> d | Some v \<Rightarrow> v)"

definition bs_insert :: "'k::linorder \<Rightarrow> 'k bset \<Rightarrow> 'k bset" where
  "bs_insert k s = bt_insert k () s"

definition bs_elems :: "'k::linorder bset \<Rightarrow> 'k set" where
  "bs_elems s = {k. bt_contains s k}"

definition bs_collect :: "'k::linorder list \<Rightarrow> 'k bset" where
  "bs_collect xs = fold bs_insert xs bt_empty"

section \<open>Laws\<close>

lemma entries_simps [simp, code]:
  "bt_entries bt_empty = []"
  "bt_entries (bt_insert k v m) = al_put k v (bt_entries m)"
  "bt_entries (bt_remove k m) = al_del k (bt_entries m)"
  "bt_entries (bt_retain p m) = filter (\<lambda>(k, v). p k v) (bt_entries m)"
  "bt_entries (bt_map f m') = map (\<lambda>(k, v). (k, f k v)) (bt_entries m')"
  by (transfer, simp)+

lemma ascending_entries [simp]: "ascending (bt_entries m)"
  using bt_entries [of m] by simp

lemma distinct_bt_keys [simp]: "distinct (bt_keys m)"
  by (simp add: bt_keys_def ascending_distinct)

lemma sorted_bt_keys: "sorted_wrt (<) (bt_keys m)"
  using ascending_entries [of m] by (simp add: bt_keys_def ascending_def)

lemma bt_get_simps [simp, view_simps]:
  "bt_get bt_empty k = None"
  "bt_get (bt_insert a v m) k = (if k = a then Some v else bt_get m k)"
  "bt_get (bt_remove a m) k = (if k = a then None else bt_get m k)"
  by (simp_all add: bt_get_def map_of_al_put map_of_al_del)

lemma in_entries: "(k, v) \<in> set (bt_entries m) \<longleftrightarrow> bt_get m k = Some v"
  unfolding bt_get_def by (rule ascending_map_of) simp

lemma bt_get_filter:
  "map_of (filter (\<lambda>(k, v). p k v) (bt_entries m)) k =
     (case bt_get m k of None \<Rightarrow> None | Some v \<Rightarrow> if p k v then Some v else None)"
proof -
  have asc: "ascending (filter (\<lambda>(k, v). p k v) (bt_entries m))"
    by (simp add: ascending_filter)
  have some: "map_of (filter (\<lambda>(k, v). p k v) (bt_entries m)) k = Some v
      \<longleftrightarrow> bt_get m k = Some v \<and> p k v" for v
    by (simp add: ascending_map_of [OF asc, symmetric] in_entries)
  show ?thesis
  proof (cases "map_of (filter (\<lambda>(k, v). p k v) (bt_entries m)) k")
    case None
    then have "\<not> (bt_get m k = Some v \<and> p k v)" for v using some [of v] by simp
    then show ?thesis using None by (simp split: option.split)
  next
    case (Some v)
    then show ?thesis using some [of v] by simp
  qed
qed

lemma bt_get_retain [simp, view_simps]:
  "bt_get (bt_retain p m) k =
     (case bt_get m k of None \<Rightarrow> None | Some v \<Rightarrow> if p k v then Some v else None)"
  by (subst bt_get_def) (simp add: bt_get_filter)

lemma bt_get_map [simp, view_simps]: "bt_get (bt_map f m) k = map_option (f k) (bt_get m k)"
proof -
  have "map_of (map (\<lambda>(k, v). (k, f k v)) xs) k = map_option (f k) (map_of xs k)" for xs
    by (induction xs) auto
  then show ?thesis by (simp add: bt_get_def)
qed

lemma bt_eqI: "(\<And>k. bt_get m k = bt_get m' k) \<Longrightarrow> m = m'"
  by (metis ascending_entries ascending_eqI bt_entries_inject bt_get_def ext)

lemma bt_eq_iff: "m = m' \<longleftrightarrow> (\<forall>k. bt_get m k = bt_get m' k)"
  by (auto intro: bt_eqI)

lemma set_bt_keys: "set (bt_keys m) = {k. bt_get m k \<noteq> None}"
  by (simp add: bt_keys_def bt_get_def map_of_eq_None_iff)

lemma in_bt_values: "v \<in> set (bt_values m) \<longleftrightarrow> (\<exists>k. bt_get m k = Some v)"
proof -
  have "v \<in> set (bt_values m) \<longleftrightarrow> (\<exists>k. (k, v) \<in> set (bt_entries m))"
    by (force simp: bt_values_def)
  then show ?thesis by (simp add: in_entries)
qed

lemma bt_is_empty_iff [simp]: "bt_is_empty m \<longleftrightarrow> m = bt_empty"
  by (metis bt_entries_inject bt_is_empty_def entries_simps(1))

lemma bt_len_0 [simp]: "bt_len m = 0 \<longleftrightarrow> m = bt_empty"
  by (simp add: bt_len_def flip: bt_is_empty_def)

lemma bt_empty_iff: "m = bt_empty \<longleftrightarrow> (\<forall>k. bt_get m k = None)"
  by (simp add: bt_eq_iff)

lemma bt_contains_simps [simp, view_simps]:
  "\<not> bt_contains bt_empty k"
  "bt_contains (bt_insert a v m) k \<longleftrightarrow> k = a \<or> bt_contains m k"
  "bt_contains (bt_remove a m) k \<longleftrightarrow> k \<noteq> a \<and> bt_contains m k"
  by (auto simp: bt_contains_def)

lemma bt_len_card: "bt_len m = card {k. bt_get m k \<noteq> None}"
  using distinct_card [OF distinct_bt_keys, of m]
  by (simp only: set_bt_keys) (simp add: bt_keys_def bt_len_def)

lemma finite_bt_dom [simp]: "finite {k. bt_get m k \<noteq> None}"
  unfolding set_bt_keys [symmetric] by (rule finite_set)

lemma bt_len_insert:
  "bt_len (bt_insert k v m) = (if bt_get m k = None then Suc (bt_len m) else bt_len m)"
proof -
  have "{a. bt_get (bt_insert k v m) a \<noteq> None} = insert k {a. bt_get m a \<noteq> None}"
    by auto
  then show ?thesis by (simp add: bt_len_card insert_absorb del: not_None_eq)
qed

lemma bt_len_remove:
  "bt_len (bt_remove k m) = (if bt_get m k = None then bt_len m else bt_len m - 1)"
proof -
  have "{a. bt_get (bt_remove k m) a \<noteq> None} = {a. bt_get m a \<noteq> None} - {k}"
    by auto
  then show ?thesis by (simp add: bt_len_card del: not_None_eq)
qed

lemma bs_elems_simps [simp, view_simps]:
  "bs_elems bt_empty = {}"
  "bs_elems (bs_insert k s) = insert k (bs_elems s)"
  "bs_elems (bt_remove k s) = bs_elems s - {k}"
  by (auto simp: bs_elems_def bs_insert_def)

lemma bs_contains_iff: "bt_contains s k \<longleftrightarrow> k \<in> bs_elems s"
  by (simp add: bs_elems_def)

lemma bs_elems_empty_iff [simp]: "bs_elems s = {} \<longleftrightarrow> s = bt_empty"
  by (simp add: bs_elems_def bt_empty_iff bt_contains_def del: not_None_eq)

lemma set_bs_keys: "set (bt_keys s) = bs_elems s"
  by (auto simp: set_bt_keys bs_elems_def bt_contains_def)

lemma bs_elems_collect [simp]: "bs_elems (bs_collect xs) = set xs"
proof -
  have "bs_elems (fold bs_insert xs s) = set xs \<union> bs_elems s" for s
    by (induction xs arbitrary: s) auto
  then show ?thesis by (simp add: bs_collect_def)
qed

text \<open>The greatest entry up to a key, as the first entry of a reversed prefix.\<close>

lemma bt_floor_None: "bt_floor m k = None \<longleftrightarrow> (\<forall>a. bt_get m a \<noteq> None \<longrightarrow> k < a)"
proof -
  have "bt_floor m k = None \<longleftrightarrow> (\<forall>e\<in>set (bt_entries m). k < fst e)"
  proof -
    have "bt_floor m k = None \<longleftrightarrow> filter (\<lambda>e. fst e \<le> k) (bt_entries m) = []"
      by (cases "rev (filter (\<lambda>e. fst e \<le> k) (bt_entries m))") (auto simp: bt_floor_def)
    then show ?thesis by (auto simp: filter_empty_conv not_le)
  qed
  also have "\<dots> \<longleftrightarrow> (\<forall>a\<in>set (bt_keys m). k < a)" by (simp add: bt_keys_def)
  finally show ?thesis by (simp add: set_bt_keys)
qed

lemma last_filter_le:
  "ascending xs \<Longrightarrow> filter (\<lambda>e. fst e \<le> k) xs = ys @ [(a, v)] \<Longrightarrow>
     (a, v) \<in> set xs \<and> a \<le> k \<and> (\<forall>(b, w)\<in>set xs. b \<le> k \<longrightarrow> b \<le> a)"
proof -
  assume asc: "ascending xs" and eq: "filter (\<lambda>e. fst e \<le> k) xs = ys @ [(a, v)]"
  have "ascending (ys @ [(a, v)])" using asc by (metis ascending_filter eq)
  then have below: "\<forall>(b, w)\<in>set ys. b < a"
    by (auto simp: ascending_def sorted_wrt_append)
  have "set (filter (\<lambda>e. fst e \<le> k) xs) = insert (a, v) (set ys)"
    by (simp add: eq)
  then show ?thesis using below by (fastforce simp: set_eq_iff)
qed

lemma bt_floor_Some:
  "bt_floor m k = Some (a, v) \<longleftrightarrow>
     bt_get m a = Some v \<and> a \<le> k \<and> (\<forall>b. bt_get m b \<noteq> None \<and> b \<le> k \<longrightarrow> b \<le> a)"
  (is "?l \<longleftrightarrow> ?r")
proof -
  have fwd: "bt_get m a' = Some v' \<and> a' \<le> k \<and> (\<forall>b. bt_get m b \<noteq> None \<and> b \<le> k \<longrightarrow> b \<le> a')"
    if "bt_floor m k = Some (a', v')" for a' v'
  proof -
    from that obtain ys where "rev (filter (\<lambda>e. fst e \<le> k) (bt_entries m)) = (a', v') # ys"
      by (auto simp: bt_floor_def split: list.splits)
    then have "filter (\<lambda>e. fst e \<le> k) (bt_entries m) = rev ys @ [(a', v')]"
      by (metis rev.simps(2) rev_rev_ident)
    from last_filter_le [OF ascending_entries this] show ?thesis
      by (auto simp: in_entries)
  qed
  show ?thesis
  proof
    assume ?l
    then show ?r by (rule fwd)
  next
    assume r: ?r
    then have "bt_floor m k \<noteq> None" by (auto simp: bt_floor_None not_less)
    then obtain a' v' where f: "bt_floor m k = Some (a', v')" by auto
    from fwd [OF f] r have "a' = a" by (metis antisym option.distinct(1))
    with fwd [OF f] r f show ?l by simp
  qed
qed

section \<open>The interface of a keyed store\<close>

text \<open>
  What the clients rely on: a lookup sees the last write of its key. The lemma proved here
  once is the reading of a log into a map, used wherever the server rebuilds a table by
  inserting facts in order.
\<close>

locale keyed_store =
  fixes get :: "'m \<Rightarrow> 'k \<Rightarrow> 'v option"
    and put :: "'k \<Rightarrow> 'v \<Rightarrow> 'm \<Rightarrow> 'm"
    and del :: "'k \<Rightarrow> 'm \<Rightarrow> 'm"
    and empty :: 'm
  assumes get_empty: "get empty k = None"
    and get_put: "get (put a v m) k = (if k = a then Some v else get m k)"
    and get_del: "get (del a m) k = (if k = a then None else get m k)"
    and extensional: "(\<And>k. get m k = get m' k) \<Longrightarrow> m = m'"
begin

lemma put_put: "put a w (put a v m) = put a w m"
  by (rule extensional) (simp add: get_put)

lemma put_commute: "a \<noteq> b \<Longrightarrow> put a v (put b w m) = put b w (put a v m)"
  by (rule extensional) (auto simp: get_put)

lemma del_put: "del a (put a v m) = del a m"
  by (rule extensional) (simp add: get_put get_del)

lemma del_absent: "get m a = None \<Longrightarrow> del a m = m"
  by (rule extensional) (simp add: get_del)

lemma last_write_wins:
  "get (fold (\<lambda>(k, v). put k v) xs m) k =
     (case map_of (rev xs) k of Some v \<Rightarrow> Some v | None \<Rightarrow> get m k)"
proof (induction xs arbitrary: m)
  case Nil
  then show ?case by simp
next
  case (Cons x xs)
  then show ?case
    by (auto simp: get_put map_add_def split: option.split prod.split)
qed

lemma writes_commute:
  "distinct (map fst xs) \<Longrightarrow> a \<notin> fst ` set xs \<Longrightarrow>
     fold (\<lambda>(k, v). put k v) xs (put a v m) = put a v (fold (\<lambda>(k, v). put k v) xs m)"
proof (induction xs arbitrary: m)
  case (Cons x xs)
  obtain b w where x: "x = (b, w)" by (cases x)
  have "put b w (put a v m) = put a v (put b w m)"
    using Cons.prems(2) x by (intro put_commute) auto
  then show ?case using Cons x by simp
qed simp

end

interpretation bt: keyed_store bt_get bt_insert bt_remove bt_empty
  by unfold_locales (auto intro: bt_eqI)

lemma bt_get_extend:
  "bt_get (bt_extend xs m) k =
     (case map_of (rev xs) k of Some v \<Rightarrow> Some v | None \<Rightarrow> bt_get m k)"
  unfolding bt_extend_def by (rule bt.last_write_wins)

lemma bt_get_collect: "bt_get (bt_collect xs) k = map_of (rev xs) k"
  by (simp add: bt_collect_def bt_get_extend split: option.split)

lemma bt_extend_simps [simp]:
  "bt_extend [] m = m"
  "bt_extend ((k, v) # xs) m = bt_extend xs (bt_insert k v m)"
  by (simp_all add: bt_extend_def)

lemma bt_extend_append: "bt_extend (xs @ ys) m = bt_extend ys (bt_extend xs m)"
  by (simp add: bt_extend_def)

lemma map_of_rev_distinct: "distinct (map fst xs) \<Longrightarrow> map_of (rev xs) = map_of xs"
  by (rule map_of_eqI) (auto simp: rev_map distinct_map map_of_eq_Some_iff)

lemma bt_collect_entries: "bt_collect (bt_entries m) = m"
  unfolding bt_eq_iff bt_get_collect
  by (simp add: map_of_rev_distinct ascending_distinct bt_get_def)

section \<open>Equality and size\<close>

instantiation btree :: (linorder, equal) equal
begin

definition equal_btree :: "('a::linorder, 'b::equal) btree \<Rightarrow> ('a, 'b) btree \<Rightarrow> bool" where
  "equal_btree m m' \<longleftrightarrow> bt_entries m = bt_entries m'"

instance
  by standard (simp add: equal_btree_def bt_entries_inject)

end

instantiation btree :: (linorder, type) size
begin

definition size_btree :: "('a::linorder, 'b) btree \<Rightarrow> nat" where
  "size_btree m = bt_len m"

instance ..

end

end
