(* ===== verification/Json.thy ===== *)
theory Json
  imports Ordered_Map
begin

text \<open>
  JSON values and their binary form, \<open>BinaryJsonValue\<close> of \<open>model.rs\<close>, in which the
  write-ahead log stores every JSON value it carries.

  \<open>serde_json::Value\<close> is the datatype \<open>json\<close>; its \<open>Map\<close> is a \<open>BTreeMap\<close>, so an object
  is an ascending list of entries. \<open>serde_json::Number\<close> is opaque: a type variable, with
  the operations the code calls on it in the record \<open>number_ops\<close> and what serde_json
  documents of them in \<open>number_laws\<close>. An \<open>f64\<close> is its bit pattern.
\<close>

section \<open>Errors of the storage codecs\<close>

datatype codec_error =
    JsonNumberNotFinite
  | NonFiniteF64
  | DuplicateJsonKey string
  | JsonEncode
  | JsonDecode
  | PostcardEncode
  | PostcardDecode
  | FrameTooLarge u64 nat
  | UnsupportedVersion u16
  | UnsupportedEncoding u16 nat
  | CrcMismatch u32 u32
  | TruncatedHeader nat
  | TruncatedPayload nat
  | InvalidMagic nat
  | NotUtf8
  | ChecksumMismatch u64

section \<open>Values\<close>

datatype 'n json =
    JNull
  | JBool bool
  | JNumber 'n
  | JString string
  | JArray "'n json list"
  | JObject "(string \<times> 'n json) list"

datatype binary_json =
    BNull
  | BBool bool
  | BI64 i64
  | BU64 u64
  | BF64 u64
  | BString string
  | BArray "binary_json list"
  | BObject "(string \<times> binary_json) list"

record 'n number_ops =
  as_i64 :: "'n \<Rightarrow> i64 option"
  as_u64 :: "'n \<Rightarrow> u64 option"
  as_f64 :: "'n \<Rightarrow> u64 option"
  of_i64 :: "i64 \<Rightarrow> 'n"
  of_u64 :: "u64 \<Rightarrow> 'n"
  from_f64 :: "u64 \<Rightarrow> 'n option"

text \<open>
  A number that reads as an \<open>i64\<close> is the number built from that integer, likewise for
  \<open>u64\<close>, and any other number is a finite float.
\<close>

definition number_laws :: "('n, 'z) number_ops_scheme \<Rightarrow> bool" where
  "number_laws ops \<longleftrightarrow>
     (\<forall>n. case as_i64 ops n of
            Some i \<Rightarrow> of_i64 ops i = n
          | None \<Rightarrow>
              (case as_u64 ops n of
                 Some u \<Rightarrow> of_u64 ops u = n
               | None \<Rightarrow>
                   (case as_f64 ops n of
                      Some f \<Rightarrow> from_f64 ops f = Some n
                    | None \<Rightarrow> False)))"

definition al_collect :: "('k::linorder \<times> 'v) list \<Rightarrow> ('k \<times> 'v) list" where
  "al_collect xs = fold (\<lambda>(k, v). al_put k v) xs []"

text \<open>Every object inside the value has its keys in strictly ascending order.\<close>

fun json_wf :: "'n json \<Rightarrow> bool" where
  "json_wf (JArray vs) = (\<forall>v\<in>set vs. json_wf v)"
| "json_wf (JObject kvs) = (ascending kvs \<and> (\<forall>kv\<in>set kvs. json_wf (snd kv)))"
| "json_wf _ = True"

section \<open>Conversions\<close>

definition number_from_json :: "('n, 'z) number_ops_scheme \<Rightarrow> 'n \<Rightarrow> codec_error + binary_json" where
  "number_from_json ops n =
     (case as_i64 ops n of
        Some i \<Rightarrow> Inr (BI64 i)
      | None \<Rightarrow>
          (case as_u64 ops n of
             Some u \<Rightarrow> Inr (BU64 u)
           | None \<Rightarrow>
               (case as_f64 ops n of
                  Some f \<Rightarrow> Inr (BF64 f)
                | None \<Rightarrow> Inl JsonNumberNotFinite)))"

lemma entry_size [termination_simp]:
  "kv \<in> set kvs \<Longrightarrow> size (snd kv) < Suc (size_list (size_prod (\<lambda>_. 0) size) kvs)"
proof (induction kvs)
  case (Cons a kvs)
  then show ?case by (cases a) auto
qed simp

fun binary_from_json :: "('n, 'z) number_ops_scheme \<Rightarrow> 'n json \<Rightarrow> codec_error + binary_json"
where
  "binary_from_json ops JNull = Inr BNull"
| "binary_from_json ops (JBool b) = Inr (BBool b)"
| "binary_from_json ops (JNumber n) = number_from_json ops n"
| "binary_from_json ops (JString s) = Inr (BString s)"
| "binary_from_json ops (JArray vs) =
     res_bind (map_res (binary_from_json ops) vs) (\<lambda>ws. Inr (BArray ws))"
| "binary_from_json ops (JObject kvs) =
     res_bind
       (map_res (\<lambda>kv. res_bind (binary_from_json ops (snd kv)) (\<lambda>w. Inr (fst kv, w))) kvs)
       (\<lambda>kws. Inr (BObject (al_collect kws)))"

text \<open>
  One round of the loop of \<open>into_json\<close> over the entries of an object: convert the value,
  insert it, and fail if the key was present.
\<close>

definition object_insert ::
  "string \<Rightarrow> codec_error + 'n json \<Rightarrow> codec_error + (string \<times> 'n json) list \<Rightarrow>
     codec_error + (string \<times> 'n json) list" where
  "object_insert k r acc =
     res_bind acc (\<lambda>object. res_bind r (\<lambda>v.
       if map_of object k \<noteq> None then Inl (DuplicateJsonKey k)
       else Inr (al_put k v object)))"

fun binary_into_json :: "('n, 'z) number_ops_scheme \<Rightarrow> binary_json \<Rightarrow> codec_error + 'n json"
where
  "binary_into_json ops BNull = Inr JNull"
| "binary_into_json ops (BBool b) = Inr (JBool b)"
| "binary_into_json ops (BI64 i) = Inr (JNumber (of_i64 ops i))"
| "binary_into_json ops (BU64 u) = Inr (JNumber (of_u64 ops u))"
| "binary_into_json ops (BF64 f) =
     (case from_f64 ops f of None \<Rightarrow> Inl NonFiniteF64 | Some n \<Rightarrow> Inr (JNumber n))"
| "binary_into_json ops (BString s) = Inr (JString s)"
| "binary_into_json ops (BArray ws) =
     res_bind (map_res (binary_into_json ops) ws) (\<lambda>vs. Inr (JArray vs))"
| "binary_into_json ops (BObject kws) =
     res_bind (fold (\<lambda>kw acc. object_insert (fst kw) (binary_into_json ops (snd kw)) acc) kws (Inr []))
       (\<lambda>object. Inr (JObject object))"

section \<open>Round trip\<close>

lemma al_put_append:
  "(\<forall>x\<in>set xs. fst x < k) \<Longrightarrow> al_put k v xs = xs @ [(k, v)]"
  by (induction xs) (auto simp: not_less_iff_gr_or_eq)

lemma al_collect_ascending: "ascending xs \<Longrightarrow> al_collect xs = xs"
proof -
  have "fold (\<lambda>(k, v). al_put k v) xs ys = ys @ xs" if "ascending (ys @ xs)" for ys
    using that
  proof (induction xs arbitrary: ys)
    case (Cons x xs)
    obtain k v where x: "x = (k, v)" by (cases x)
    have "\<forall>y\<in>set ys. fst y < k"
      using Cons.prems by (auto simp: ascending_def x sorted_wrt_append)
    then show ?case using Cons.IH [of "ys @ [x]"] Cons.prems x by (simp add: al_put_append)
  qed simp
  from this [of "[]"] show "ascending xs \<Longrightarrow> al_collect xs = xs" by (simp add: al_collect_def)
qed

lemma number_roundtrip:
  "number_laws ops \<Longrightarrow>
     \<exists>w. number_from_json ops n = Inr w \<and> binary_into_json ops w = Inr (JNumber n)"
  unfolding number_laws_def number_from_json_def
  by (drule spec [of _ n]) (auto split: option.splits)

lemma object_fold:
  assumes "\<forall>kw\<in>set kws. \<exists>v. binary_into_json ops (snd kw) = Inr v"
    and "ascending (acc @ map (\<lambda>kw. (fst kw, f kw)) kws)"
    and "\<forall>kw\<in>set kws. binary_into_json ops (snd kw) = Inr (f kw)"
  shows "fold (\<lambda>kw acc. object_insert (fst kw) (binary_into_json ops (snd kw)) acc) kws (Inr acc)
    = Inr (acc @ map (\<lambda>kw. (fst kw, f kw)) kws)"
  using assms
proof (induction kws arbitrary: acc)
  case (Cons kw kws)
  have below: "\<forall>x\<in>set acc. fst x < fst kw"
    using Cons.prems(2) by (auto simp: ascending_def sorted_wrt_append)
  then have "map_of acc (fst kw) = None" by (auto simp: map_of_eq_None_iff)
  with below have "object_insert (fst kw) (binary_into_json ops (snd kw)) (Inr acc)
      = Inr (acc @ [(fst kw, f kw)])"
    using Cons.prems(3) by (simp add: object_insert_def al_put_append)
  then show ?case using Cons.IH [of "acc @ [(fst kw, f kw)]"] Cons.prems by simp
qed simp

lemma entries_roundtrip:
  fixes kvs :: "(string \<times> 'n json) list"
  assumes "\<forall>kv\<in>set kvs. \<exists>w. binary_from_json ops (snd kv) = Inr w
      \<and> binary_into_json ops w = Inr (snd kv)"
  shows "\<exists>kws. map_res (\<lambda>kv. res_bind (binary_from_json ops (snd kv)) (\<lambda>w. Inr (fst kv, w))) kvs
      = Inr kws \<and> map fst kws = map fst kvs
      \<and> (\<exists>f. kvs = map (\<lambda>kw. (fst kw, f kw)) kws
           \<and> (\<forall>kw\<in>set kws. binary_into_json ops (snd kw) = Inr (f kw)))"
proof -
  define f :: "string \<times> binary_json \<Rightarrow> 'n json"
    where "f kw = projr (binary_into_json ops (snd kw))" for kw
  have "\<exists>kws. map_res (\<lambda>kv. res_bind (binary_from_json ops (snd kv)) (\<lambda>w. Inr (fst kv, w))) kvs
      = Inr kws \<and> map fst kws = map fst kvs \<and> kvs = map (\<lambda>kw. (fst kw, f kw)) kws
      \<and> (\<forall>kw\<in>set kws. binary_into_json ops (snd kw) = Inr (f kw))"
    using assms
  proof (induction kvs)
    case (Cons kv kvs)
    from Cons.prems obtain w where w: "binary_from_json ops (snd kv) = Inr w"
      "binary_into_json ops w = Inr (snd kv)" by auto
    have "\<forall>kv\<in>set kvs. \<exists>w. binary_from_json ops (snd kv) = Inr w
        \<and> binary_into_json ops w = Inr (snd kv)"
      using Cons.prems by (meson list.set_intros(2))
    from Cons.IH [OF this] obtain kws where kws:
      "map_res (\<lambda>kv. res_bind (binary_from_json ops (snd kv)) (\<lambda>w. Inr (fst kv, w))) kvs = Inr kws"
      "map fst kws = map fst kvs" "kvs = map (\<lambda>kw. (fst kw, f kw)) kws"
      "\<forall>kw\<in>set kws. binary_into_json ops (snd kw) = Inr (f kw)"
      by blast
    have f: "f (fst kv, w) = snd kv" using w by (simp add: f_def)
    show ?case
    proof (intro exI [of _ "(fst kv, w) # kws"] conjI)
      show "kv # kvs = map (\<lambda>kw. (fst kw, f kw)) ((fst kv, w) # kws)"
        using f kws(3) by simp
    qed (use w f kws in \<open>simp_all del: map_eq_conv\<close>)
  qed simp
  then show ?thesis by blast
qed

lemma binary_json_roundtrip:
  "number_laws ops \<Longrightarrow> json_wf v \<Longrightarrow>
     \<exists>w. binary_from_json ops v = Inr w \<and> binary_into_json ops w = Inr v"
proof (induction ops v rule: binary_from_json.induct)
  case (3 ops n)
  then show ?case using number_roundtrip by fastforce
next
  case (5 ops vs)
  then have "\<forall>v\<in>set vs. \<exists>w. binary_from_json ops v = Inr w \<and> binary_into_json ops w = Inr v"
    by simp
  then have "\<exists>ws. map_res (binary_from_json ops) vs = Inr ws
      \<and> map_res (binary_into_json ops) ws = Inr vs"
    by (induction vs) auto
  then show ?case by auto
next
  case (6 ops kvs)
  then have "\<forall>kv\<in>set kvs. \<exists>w. binary_from_json ops (snd kv) = Inr w
      \<and> binary_into_json ops w = Inr (snd kv)"
    by simp
  from entries_roundtrip [OF this] obtain kws f where
    enc: "map_res (\<lambda>kv. res_bind (binary_from_json ops (snd kv)) (\<lambda>w. Inr (fst kv, w))) kvs = Inr kws"
    and keys: "map fst kws = map fst kvs" and kvs: "kvs = map (\<lambda>kw. (fst kw, f kw)) kws"
    and dec: "\<forall>kw\<in>set kws. binary_into_json ops (snd kw) = Inr (f kw)"
    by blast
  have asc: "ascending kvs" using "6.prems" by simp
  then have "ascending kws" by (simp add: ascending_def keys)
  moreover have "fold (\<lambda>kw acc. object_insert (fst kw) (binary_into_json ops (snd kw)) acc) kws (Inr [])
      = Inr kvs"
    using object_fold [of kws ops "[]" f] dec asc kvs by simp
  ultimately show ?case using enc by (simp add: al_collect_ascending)
qed auto

interpretation json_codec: codec "binary_from_json ops" "binary_into_json ops"
    "\<lambda>v. number_laws ops \<and> json_wf v" for ops
  by unfold_locales (use binary_json_roundtrip in fastforce)

end
