(* ===== verification/Util.thy ===== *)
theory Util
  imports Ordered_Map
begin

text \<open>
  The helpers of \<open>util.rs\<close>: page limits, day buckets, hexadecimal digests and the shard
  of a key. A string holds bytes, so \<open>as_bytes\<close> and \<open>as char\<close> are \<open>of_char\<close> and
  \<open>char_of\<close> on the byte's value.
\<close>

unbundle bit_operations_syntax

section \<open>Limits and buckets\<close>

definition normalize_limit :: "nat option \<Rightarrow> nat" where
  "normalize_limit limit = max 1 (min 500 (case limit of None \<Rightarrow> 50 | Some n \<Rightarrow> n))"

definition time_bucket_day :: "u64 \<Rightarrow> u64" where
  "time_bucket_day timestamp_ms = timestamp_ms div 86400000"

lemma time_bucket_day_mono: "a \<le> b \<Longrightarrow> time_bucket_day a \<le> time_bucket_day b"
  by (simp add: time_bucket_day_def word_le_nat_alt unat_div div_le_mono)

section \<open>Hexadecimal\<close>

definition hex_table :: string where
  "hex_table = ''0123456789abcdef''"

fun hex_lower :: "bytes \<Rightarrow> string" where
  "hex_lower [] = []"
| "hex_lower (byte # bytes) =
     hex_table ! unat (drop_bit 4 byte) # hex_table ! unat (byte AND 0x0F) # hex_lower bytes"

datatype hex_error = InvalidHexValue | InvalidHexDigit

definition byte_of :: "char \<Rightarrow> u8" where
  "byte_of c = word_of_nat (of_char c)"

definition hex_nibble :: "u8 \<Rightarrow> hex_error + u8" where
  "hex_nibble byte =
     (if 0x30 \<le> byte \<and> byte \<le> 0x39 then Inr (byte - 0x30)
      else if 0x61 \<le> byte \<and> byte \<le> 0x66 then Inr (byte - 0x61 + 10)
      else if 0x41 \<le> byte \<and> byte \<le> 0x46 then Inr (byte - 0x41 + 10)
      else Inl InvalidHexDigit)"

text \<open>The loop over \<open>chunks_exact(2)\<close>; an odd byte at the end is not visited.\<close>

fun decode_hex_pairs :: "string \<Rightarrow> hex_error + bytes" where
  "decode_hex_pairs (a # b # rest) =
     res_bind (hex_nibble (byte_of a)) (\<lambda>high.
     res_bind (hex_nibble (byte_of b)) (\<lambda>low.
     res_bind (decode_hex_pairs rest) (\<lambda>bytes.
       Inr ((push_bit 4 high OR low) # bytes))))"
| "decode_hex_pairs _ = Inr []"

definition decode_hex :: "string \<Rightarrow> hex_error + bytes" where
  "decode_hex s = (if odd (length s) then Inl InvalidHexValue else decode_hex_pairs s)"

lemma unat_byte_of [simp]: "unat (byte_of c) = of_char c"
proof -
  have "of_char c < (256 :: nat)" by (cases c) (simp add: of_char_def)
  then show ?thesis by (simp add: byte_of_def unsigned_of_nat take_bit_nat_eq_self)
qed

lemma inj_byte_of: "inj byte_of"
  by (rule injI) (metis of_char_eq_iff unat_byte_of)

lemma hex_table_nibble:
  "n < 16 \<Longrightarrow> hex_nibble (byte_of (hex_table ! n)) = Inr (word_of_nat n)"
proof -
  have "\<forall>n\<in>set [0..<16]. hex_nibble (byte_of (hex_table ! n)) = Inr (word_of_nat n)"
    by code_simp
  then show "n < 16 \<Longrightarrow> ?thesis" by simp
qed

lemma high_nibble_less: "unat (drop_bit 4 (b :: u8)) < 16"
proof -
  have "unat b < 256" using unsigned_less [of b] by simp
  moreover have "unat (drop_bit 4 b) = unat b div 16"
    by (simp add: drop_bit_eq_div unat_div)
  ultimately show ?thesis by simp
qed

lemma low_nibble_less: "unat ((b :: u8) AND 0x0F) < 16"
proof -
  have "b AND 0x0F = take_bit 4 b" by (simp add: take_bit_eq_mask mask_eq_exp_minus_1)
  then have "unat (b AND 0x0F) = take_bit 4 (unat b)" by (simp only: unsigned_take_bit_eq)
  also have "\<dots> = unat b mod 2 ^ 4" by (rule take_bit_eq_mod)
  also have "\<dots> < 16" by simp
  finally show ?thesis .
qed

lemma nibbles_join: "push_bit 4 (drop_bit 4 b) OR (b AND 0x0F) = (b :: u8)"
proof -
  have "b AND 0x0F = take_bit 4 b" by (simp add: take_bit_eq_mask mask_eq_exp_minus_1)
  then show ?thesis
    by (simp, intro bit_eqI) (auto simp: bit_simps)
qed

lemma hex_byte:
  "hex_nibble (byte_of (hex_table ! unat (drop_bit 4 b))) = Inr (drop_bit 4 b)"
  "hex_nibble (byte_of (hex_table ! unat (b AND 0x0F))) = Inr (b AND 0x0F)"
  using hex_table_nibble [OF high_nibble_less] hex_table_nibble [OF low_nibble_less]
  by simp_all

lemma length_hex_lower [simp]: "length (hex_lower bs) = 2 * length bs"
  by (induction bs) simp_all

lemma decode_hex_lower: "decode_hex (hex_lower bs) = Inr bs"
proof -
  have "decode_hex_pairs (hex_lower bs) = Inr bs"
    by (induction bs) (simp_all add: hex_byte nibbles_join)
  then show ?thesis by (simp add: decode_hex_def)
qed

text \<open>Decoding accepts exactly even-length strings of hexadecimal digits of either case.\<close>

definition is_hex_digit :: "char \<Rightarrow> bool" where
  "is_hex_digit c \<longleftrightarrow>
     (let n = of_char c :: nat in
       n \<in> {0x30..0x39} \<or> n \<in> {0x61..0x66} \<or> n \<in> {0x41..0x46})"

lemma hex_nibble_digit: "(\<exists>v. hex_nibble (byte_of c) = Inr v) \<longleftrightarrow> is_hex_digit c"
  by (auto simp: hex_nibble_def is_hex_digit_def Let_def word_le_nat_alt)

lemma decode_hex_pairs_ok:
  "even (length s) \<Longrightarrow> (\<exists>bs. decode_hex_pairs s = Inr bs) \<longleftrightarrow> (\<forall>c\<in>set s. is_hex_digit c)"
proof (induction s rule: decode_hex_pairs.induct)
  case (1 a b rest)
  then show ?case
    by (cases "hex_nibble (byte_of a)"; cases "hex_nibble (byte_of b)")
       (auto simp flip: hex_nibble_digit)
qed simp_all

lemma decode_hex_ok:
  "(\<exists>bs. decode_hex s = Inr bs) \<longleftrightarrow> even (length s) \<and> (\<forall>c\<in>set s. is_hex_digit c)"
  by (auto simp: decode_hex_def decode_hex_pairs_ok)

interpretation hex: codec "\<lambda>bs. Inr (hex_lower bs)" decode_hex "\<lambda>_. True"
  by unfold_locales (simp add: decode_hex_lower)

section \<open>Shards\<close>

definition be_value :: "bytes \<Rightarrow> nat" where
  "be_value bs = foldl (\<lambda>acc b. acc * 256 + unat b) 0 bs"

text \<open>\<open>digest\<close> is SHA-256; the first eight bytes are read as a big-endian \<open>u64\<close>.\<close>

definition shard_index :: "(bytes \<Rightarrow> bytes) \<Rightarrow> string \<Rightarrow> nat \<Rightarrow> nat" where
  "shard_index digest key shard_count =
     (if shard_count \<le> 1 then 0
      else be_value (take 8 (digest (map byte_of key))) mod shard_count)"

lemma shard_index_less: "0 < n \<Longrightarrow> shard_index digest key n < n"
  by (simp add: shard_index_def)

end
