(* ===== verification/Model.thy ===== *)
theory Model
  imports Json Util
begin

text \<open>
  The data model of \<open>model.rs\<close>: the committed entities and the drafts the write-ahead log
  carries, the log record with its SHA-256 checksum, and the events delivered to clients.
  Every record and datatype has the fields and constructors of the Rust type, in their
  order; field names carry a prefix, because HOL selectors are global.

  Type variables stand for what this code does not look into: \<open>'n\<close> is
  \<open>serde_json::Number\<close>, \<open>'s\<close> is \<open>DatabaseSchema\<close> and \<open>'g\<close> is \<open>SchemaMigrationPlan\<close>.
\<close>

section \<open>Objects\<close>

record object_metadata =
  om_id :: string
  om_path :: string
  om_content_type :: string
  om_byte_size :: u64
  om_sha256 :: string
  om_created_at_ms :: u64

record object_ref =
  or_id :: string
  or_path :: string
  or_content_type :: string
  or_byte_size :: u64
  or_sha256 :: string

definition object_ref_from :: "object_metadata \<Rightarrow> object_ref" where
  "object_ref_from metadata =
     \<lparr>or_id = om_id metadata, or_path = om_path metadata,
      or_content_type = om_content_type metadata, or_byte_size = om_byte_size metadata,
      or_sha256 = om_sha256 metadata\<rparr>"

section \<open>Entities and drafts\<close>

record message =
  msg_id :: string
  msg_room_id :: string
  msg_sender_id :: string
  msg_body :: string
  msg_attachments :: "object_ref list"
  msg_created_at_ms :: u64
  msg_lsn :: u64
  msg_path :: string

record message_draft =
  md_id :: string
  md_client_mutation_id :: "string option"
  md_room_id :: string
  md_sender_id :: string
  md_body :: string
  md_attachments :: "object_ref list"
  md_created_at_ms :: u64
  md_path :: string

record 'n user_event =
  ue_id :: string
  ue_user_id :: string
  ue_name :: string
  ue_payload :: "'n json"
  ue_created_at_ms :: u64
  ue_lsn :: u64
  ue_path :: string

record 'n user_event_draft =
  ued_id :: string
  ued_client_mutation_id :: "string option"
  ued_user_id :: string
  ued_name :: string
  ued_payload :: "'n json"
  ued_created_at_ms :: u64
  ued_path :: string

record 'n user_profile =
  up_user_id :: string
  up_display_name :: "string option"
  up_metadata :: "'n json"
  up_created_at_ms :: u64
  up_updated_at_ms :: u64
  up_lsn :: u64
  up_path :: string

record 'n user_profile_draft =
  upd_user_id :: string
  upd_client_mutation_id :: "string option"
  upd_display_name :: "string option"
  upd_metadata :: "'n json"
  upd_created_at_ms :: u64
  upd_updated_at_ms :: u64
  upd_path :: string

record 'n db_record =
  rec_table :: string
  rec_key :: string
  rec_value :: "'n json"
  rec_updated_at_ms :: u64
  rec_lsn :: u64
  rec_path :: string

record 'n db_record_draft =
  rd_table :: string
  rd_key :: string
  rd_value :: "'n json"
  rd_updated_at_ms :: u64
  rd_path :: string
  rd_client_mutation_id :: "string option"

record db_record_delete_draft =
  dd_table :: string
  dd_key :: string
  dd_deleted_at_ms :: u64
  dd_path :: string
  dd_client_mutation_id :: "string option"

datatype 'n db_record_mutation_draft =
    MutUpsert "'n db_record_draft"
  | MutDelete db_record_delete_draft

datatype client_mutation_record =
    RecordDeleteNoop (noop_table: string) (noop_key: string) (noop_path: string)
  | RecordTransactionNoop
  | ObjectDeleteNoop (noop_object_id: string) (noop_object_path: string)

definition record_of_draft :: "'n db_record_draft \<Rightarrow> u64 \<Rightarrow> 'n db_record" where
  "record_of_draft d lsn =
     \<lparr>rec_table = rd_table d, rec_key = rd_key d, rec_value = rd_value d,
      rec_updated_at_ms = rd_updated_at_ms d, rec_lsn = lsn, rec_path = rd_path d\<rparr>"

definition message_of_draft :: "message_draft \<Rightarrow> u64 \<Rightarrow> message" where
  "message_of_draft d lsn =
     \<lparr>msg_id = md_id d, msg_room_id = md_room_id d, msg_sender_id = md_sender_id d,
      msg_body = md_body d, msg_attachments = md_attachments d,
      msg_created_at_ms = md_created_at_ms d, msg_lsn = lsn, msg_path = md_path d\<rparr>"

definition event_of_draft :: "'n user_event_draft \<Rightarrow> u64 \<Rightarrow> 'n user_event" where
  "event_of_draft d lsn =
     \<lparr>ue_id = ued_id d, ue_user_id = ued_user_id d, ue_name = ued_name d,
      ue_payload = ued_payload d, ue_created_at_ms = ued_created_at_ms d, ue_lsn = lsn,
      ue_path = ued_path d\<rparr>"

definition profile_of_draft :: "'n user_profile_draft \<Rightarrow> u64 \<Rightarrow> 'n user_profile" where
  "profile_of_draft d lsn =
     \<lparr>up_user_id = upd_user_id d, up_display_name = upd_display_name d,
      up_metadata = upd_metadata d, up_created_at_ms = upd_created_at_ms d,
      up_updated_at_ms = upd_updated_at_ms d, up_lsn = lsn, up_path = upd_path d\<rparr>"

section \<open>The payload of a log record\<close>

datatype durability = Strict | Relaxed | Volatile

record behavior_published_manifest =
  bpm_name :: string
  bpm_version :: string
  bpm_module_path :: string
  bpm_mutations :: "string list"

record behavior_published_draft =
  bp_epoch :: u64
  bp_loaded :: usize
  bp_manifests :: "behavior_published_manifest list"
  bp_published_at_ms :: u64

record 'n host_http_request_draft =
  hh_request_id :: string
  hh_method :: string
  hh_url :: string
  hh_headers :: "(string, string) btree"
  hh_body :: "'n json option"
  hh_body_base64 :: "string option"
  hh_timeout_ms :: u64
  hh_actor_kind :: string
  hh_actor_key :: string
  hh_reminder_id :: string
  hh_continuation :: "'n json"
  hh_requested_at_ms :: u64

record 'n actor_reminder_draft =
  ar_actor_kind :: string
  ar_actor_key :: string
  ar_reminder_id :: string
  ar_due_at_ms :: u64
  ar_payload :: "'n json option"

datatype ('n, 's, 'g) wal_payload =
    MessageCreated message_draft
  | UserEventPublished "'n user_event_draft"
  | UserUpserted "'n user_profile_draft"
  | ObjectCommitted object_metadata "string option"
  | ObjectDeleted string u64 string bool "string option"
  | RecordUpserted "'n db_record_draft"
  | RecordDeleted db_record_delete_draft
  | RecordTransactionCommitted "'n db_record_mutation_draft list" "string option"
  | SchemaApplied 's 'g
  | BehaviorPublished behavior_published_draft
  | ActorReminderScheduled "'n actor_reminder_draft"
  | ActorReminderCancelled string string string u64
  | ActorReminderFired string string string u64 u64
  | HostHttpRequested "'n host_http_request_draft"
  | HostHttpCompleted string u64
  | ClientMutationRecorded string client_mutation_record

section \<open>Log records and their checksum\<close>

record ('n, 's, 'g) wal_record =
  wr_lsn :: u64
  wr_shard :: usize
  wr_shard_epoch :: u64
  wr_owner_node_id :: string
  wr_timestamp_ms :: u64
  wr_schema_version :: u32
  wr_durability :: durability
  wr_payload :: "('n, 's, 'g) wal_payload"
  wr_checksum :: "string option"

definition default_schema_version :: u32 where
  "default_schema_version = 1"

definition default_shard_epoch :: u64 where
  "default_shard_epoch = 1"

text \<open>The fields the checksum covers: all but the checksum itself.\<close>

record ('n, 's, 'g) checksum_material =
  cm_lsn :: u64
  cm_shard :: usize
  cm_shard_epoch :: u64
  cm_owner_node_id :: string
  cm_timestamp_ms :: u64
  cm_schema_version :: u32
  cm_durability :: durability
  cm_payload :: "('n, 's, 'g) wal_payload"

text \<open>\<open>serde_json::to_vec\<close> on the material and \<open>Sha256::digest\<close>.\<close>

record ('n, 's, 'g) digest_ops = "'n number_ops" +
  material_to_vec :: "('n, 's, 'g) checksum_material \<Rightarrow> bytes option"
  sha256 :: "bytes \<Rightarrow> bytes"

definition checksum_material_of ::
  "('n, 's, 'g) wal_record \<Rightarrow> ('n, 's, 'g) checksum_material" where
  "checksum_material_of r =
     \<lparr>cm_lsn = wr_lsn r, cm_shard = wr_shard r, cm_shard_epoch = wr_shard_epoch r,
      cm_owner_node_id = wr_owner_node_id r, cm_timestamp_ms = wr_timestamp_ms r,
      cm_schema_version = wr_schema_version r, cm_durability = wr_durability r,
      cm_payload = wr_payload r\<rparr>"

definition compute_checksum ::
  "('n, 's, 'g, 'z) digest_ops_scheme \<Rightarrow> ('n, 's, 'g) wal_record \<Rightarrow> codec_error + string" where
  "compute_checksum ops r =
     (case material_to_vec ops (checksum_material_of r) of
        None \<Rightarrow> Inl JsonEncode
      | Some bytes \<Rightarrow> Inr (''sha256:'' @ hex_lower (sha256 ops bytes)))"

definition refresh_checksum ::
  "('n, 's, 'g, 'z) digest_ops_scheme \<Rightarrow> ('n, 's, 'g) wal_record \<Rightarrow>
     codec_error + ('n, 's, 'g) wal_record" where
  "refresh_checksum ops r =
     res_bind (compute_checksum ops r) (\<lambda>c. Inr (r\<lparr>wr_checksum := Some c\<rparr>))"

definition ensure_checksum ::
  "('n, 's, 'g, 'z) digest_ops_scheme \<Rightarrow> ('n, 's, 'g) wal_record \<Rightarrow>
     codec_error + ('n, 's, 'g) wal_record" where
  "ensure_checksum ops r = (if wr_checksum r = None then refresh_checksum ops r else Inr r)"

datatype checksum_status = ChecksumMissing | ChecksumValid | ChecksumBad string

definition verify_checksum ::
  "('n, 's, 'g, 'z) digest_ops_scheme \<Rightarrow> ('n, 's, 'g) wal_record \<Rightarrow>
     codec_error + checksum_status" where
  "verify_checksum ops r =
     (case wr_checksum r of
        None \<Rightarrow> Inr ChecksumMissing
      | Some checksum \<Rightarrow>
          res_bind (compute_checksum ops r) (\<lambda>expected.
            if checksum = expected then Inr ChecksumValid else Inr (ChecksumBad expected)))"

lemma material_of_checksum [simp]:
  "checksum_material_of (r\<lparr>wr_checksum := c\<rparr>) = checksum_material_of r"
  by (simp add: checksum_material_of_def)

lemma compute_checksum_update [simp]:
  "compute_checksum ops (r\<lparr>wr_checksum := c\<rparr>) = compute_checksum ops r"
  by (simp add: compute_checksum_def)

lemma refresh_verifies:
  "refresh_checksum ops r = Inr r' \<Longrightarrow> verify_checksum ops r' = Inr ChecksumValid"
  by (auto simp: refresh_checksum_def verify_checksum_def)

lemma ensure_checksum_some:
  "ensure_checksum ops r = Inr r' \<Longrightarrow> wr_checksum r' \<noteq> None"
  by (auto simp: ensure_checksum_def refresh_checksum_def split: if_splits)

text \<open>A change of any covered field is noticed unless the digests or encodings collide.\<close>

lemma verify_valid_iff:
  "verify_checksum ops r = Inr ChecksumValid \<longleftrightarrow>
     (\<exists>bytes. material_to_vec ops (checksum_material_of r) = Some bytes
        \<and> wr_checksum r = Some (''sha256:'' @ hex_lower (sha256 ops bytes)))"
  by (auto simp: verify_checksum_def compute_checksum_def split: option.splits)

section \<open>Delivered events\<close>

datatype 'n delivery_event =
    EvMessageCreated string message
  | EvVolatileRoomEvent string string "'n json"
  | EvVolatileUserEvent string string "'n json" "string bset option"
  | EvUserEvent string "'n user_event"
  | EvUserUpserted string "'n user_profile"
  | EvRecordUpserted string string "'n db_record"
  | EvRecordDeleted string string u64 u64 string "'n db_record option"
  | EvObjectCommitted object_metadata u64
  | EvObjectDeleted string u64 u64 string bool

fun event_room_id :: "'n delivery_event \<Rightarrow> string option" where
  "event_room_id (EvMessageCreated room_id _) = Some room_id"
| "event_room_id (EvVolatileRoomEvent room_id _ _) = Some room_id"
| "event_room_id _ = None"

fun event_user_id :: "'n delivery_event \<Rightarrow> string option" where
  "event_user_id (EvVolatileUserEvent user_id _ _ _) = Some user_id"
| "event_user_id (EvUserEvent user_id _) = Some user_id"
| "event_user_id (EvUserUpserted user_id _) = Some user_id"
| "event_user_id _ = None"

fun event_table :: "'n delivery_event \<Rightarrow> string option" where
  "event_table (EvRecordUpserted table _ _) = Some table"
| "event_table (EvRecordDeleted table _ _ _ _ _) = Some table"
| "event_table _ = None"

fun event_record_key :: "'n delivery_event \<Rightarrow> string option" where
  "event_record_key (EvRecordUpserted _ key _) = Some key"
| "event_record_key (EvRecordDeleted _ key _ _ _ _) = Some key"
| "event_record_key _ = None"

fun is_object_event :: "'n delivery_event \<Rightarrow> bool" where
  "is_object_event (EvObjectCommitted _ _) = True"
| "is_object_event (EvObjectDeleted _ _ _ _ _) = True"
| "is_object_event _ = False"

fun event_target_session_ids :: "'n delivery_event \<Rightarrow> string bset option" where
  "event_target_session_ids (EvVolatileUserEvent _ _ _ targets) = targets"
| "event_target_session_ids _ = None"

end
