(* ===== verification/Wal_Binary.thy ===== *)
theory Wal_Binary
  imports Model
begin

text \<open>
  The binary form of a log record, the structures of \<open>wal.rs\<close> that postcard serialises:
  a copy of each draft in which a JSON value is a \<open>BinaryJsonValue\<close>, and the conversions
  \<open>from_draft\<close>/\<open>into_draft\<close>, \<open>from_payload\<close>/\<open>into_payload\<close> and
  \<open>from_record\<close>/\<open>into_record\<close>. Each pair is shown to be a \<open>codec\<close>, up to the frame.

  A schema and its migration are stored as JSON text, by serde_json: the four functions of
  \<open>schema_ops\<close>.
\<close>

record ('n, 's, 'g) schema_ops = "('n, 's, 'g) digest_ops" +
  schema_to_vec :: "'s \<Rightarrow> bytes option"
  schema_from_slice :: "bytes \<Rightarrow> 's option"
  migration_to_vec :: "'g \<Rightarrow> bytes option"
  migration_from_slice :: "bytes \<Rightarrow> 'g option"

definition schema_laws :: "('n, 's, 'g, 'z) schema_ops_scheme \<Rightarrow> bool" where
  "schema_laws ops \<longleftrightarrow>
     (\<forall>s. case schema_to_vec ops s of None \<Rightarrow> False | Some b \<Rightarrow> schema_from_slice ops b = Some s)
   \<and> (\<forall>g. case migration_to_vec ops g of
            None \<Rightarrow> False | Some b \<Rightarrow> migration_from_slice ops b = Some g)"

section \<open>Structures\<close>

record binary_message =
  bmd_id :: string
  bmd_client_mutation_id :: "string option"
  bmd_room_id :: string
  bmd_sender_id :: string
  bmd_body :: string
  bmd_attachments :: "object_ref list"
  bmd_created_at_ms :: u64
  bmd_path :: string

record binary_user_event =
  bue_id :: string
  bue_client_mutation_id :: "string option"
  bue_user_id :: string
  bue_name :: string
  bue_payload :: binary_json
  bue_created_at_ms :: u64
  bue_path :: string

record binary_user_profile =
  bup_user_id :: string
  bup_client_mutation_id :: "string option"
  bup_display_name :: "string option"
  bup_metadata :: binary_json
  bup_created_at_ms :: u64
  bup_updated_at_ms :: u64
  bup_path :: string

record binary_reminder =
  bar_actor_kind :: string
  bar_actor_key :: string
  bar_reminder_id :: string
  bar_due_at_ms :: u64
  bar_payload :: "binary_json option"

record binary_http_request =
  bhh_request_id :: string
  bhh_method :: string
  bhh_url :: string
  bhh_headers :: "(string, string) btree"
  bhh_body :: "binary_json option"
  bhh_body_base64 :: "string option"
  bhh_timeout_ms :: u64
  bhh_actor_kind :: string
  bhh_actor_key :: string
  bhh_reminder_id :: string
  bhh_continuation :: binary_json
  bhh_requested_at_ms :: u64

record binary_db_record =
  brd_table :: string
  brd_key :: string
  brd_value :: binary_json
  brd_updated_at_ms :: u64
  brd_path :: string
  brd_client_mutation_id :: "string option"

record binary_db_delete =
  bdd_table :: string
  bdd_key :: string
  bdd_deleted_at_ms :: u64
  bdd_path :: string
  bdd_client_mutation_id :: "string option"

datatype binary_mutation =
    BMutUpsert binary_db_record
  | BMutDelete binary_db_delete

datatype binary_client_mutation =
    BRecordDeleteNoop string string string
  | BRecordTransactionNoop
  | BObjectDeleteNoop string string

datatype postcard_payload =
    PMessageCreated binary_message
  | PUserEventPublished binary_user_event
  | PUserUpserted binary_user_profile
  | PObjectCommitted object_metadata "string option"
  | PObjectDeleted string u64 string bool "string option"
  | PRecordUpserted binary_db_record
  | PRecordDeleted binary_db_delete
  | PRecordTransactionCommitted "binary_mutation list" "string option"
  | PSchemaApplied bytes bytes
  | PBehaviorPublished behavior_published_draft
  | PActorReminderScheduled binary_reminder
  | PActorReminderCancelled string string string u64
  | PActorReminderFired string string string u64 u64
  | PHostHttpRequested binary_http_request
  | PHostHttpCompleted string u64
  | PClientMutationRecorded string binary_client_mutation

record postcard_frame =
  pf_lsn :: u64
  pf_shard :: u64
  pf_shard_epoch :: u64
  pf_owner_node_id :: string
  pf_timestamp_ms :: u64
  pf_schema_version :: u32
  pf_durability :: durability
  pf_payload :: postcard_payload
  pf_checksum :: "string option"

section \<open>Drafts\<close>

definition binary_message_from_draft :: "message_draft \<Rightarrow> binary_message" where
  "binary_message_from_draft d =
     \<lparr>bmd_id = md_id d, bmd_client_mutation_id = md_client_mutation_id d,
      bmd_room_id = md_room_id d, bmd_sender_id = md_sender_id d, bmd_body = md_body d,
      bmd_attachments = md_attachments d, bmd_created_at_ms = md_created_at_ms d,
      bmd_path = md_path d\<rparr>"

definition binary_message_into_draft :: "binary_message \<Rightarrow> message_draft" where
  "binary_message_into_draft d =
     \<lparr>md_id = bmd_id d, md_client_mutation_id = bmd_client_mutation_id d,
      md_room_id = bmd_room_id d, md_sender_id = bmd_sender_id d, md_body = bmd_body d,
      md_attachments = bmd_attachments d, md_created_at_ms = bmd_created_at_ms d,
      md_path = bmd_path d\<rparr>"

definition binary_user_event_from_draft ::
  "('n, 'z) number_ops_scheme \<Rightarrow> 'n user_event_draft \<Rightarrow> codec_error + binary_user_event" where
  "binary_user_event_from_draft ops d =
     res_bind (binary_from_json ops (ued_payload d)) (\<lambda>payload.
       Inr \<lparr>bue_id = ued_id d, bue_client_mutation_id = ued_client_mutation_id d,
           bue_user_id = ued_user_id d, bue_name = ued_name d, bue_payload = payload,
           bue_created_at_ms = ued_created_at_ms d, bue_path = ued_path d\<rparr>)"

definition binary_user_event_into_draft ::
  "('n, 'z) number_ops_scheme \<Rightarrow> binary_user_event \<Rightarrow> codec_error + 'n user_event_draft" where
  "binary_user_event_into_draft ops d =
     res_bind (binary_into_json ops (bue_payload d)) (\<lambda>payload.
       Inr \<lparr>ued_id = bue_id d, ued_client_mutation_id = bue_client_mutation_id d,
           ued_user_id = bue_user_id d, ued_name = bue_name d, ued_payload = payload,
           ued_created_at_ms = bue_created_at_ms d, ued_path = bue_path d\<rparr>)"

definition binary_user_profile_from_draft ::
  "('n, 'z) number_ops_scheme \<Rightarrow> 'n user_profile_draft \<Rightarrow> codec_error + binary_user_profile" where
  "binary_user_profile_from_draft ops d =
     res_bind (binary_from_json ops (upd_metadata d)) (\<lambda>metadata.
       Inr \<lparr>bup_user_id = upd_user_id d, bup_client_mutation_id = upd_client_mutation_id d,
           bup_display_name = upd_display_name d, bup_metadata = metadata,
           bup_created_at_ms = upd_created_at_ms d,
           bup_updated_at_ms = upd_updated_at_ms d, bup_path = upd_path d\<rparr>)"

definition binary_user_profile_into_draft ::
  "('n, 'z) number_ops_scheme \<Rightarrow> binary_user_profile \<Rightarrow> codec_error + 'n user_profile_draft" where
  "binary_user_profile_into_draft ops d =
     res_bind (binary_into_json ops (bup_metadata d)) (\<lambda>metadata.
       Inr \<lparr>upd_user_id = bup_user_id d, upd_client_mutation_id = bup_client_mutation_id d,
           upd_display_name = bup_display_name d, upd_metadata = metadata,
           upd_created_at_ms = bup_created_at_ms d,
           upd_updated_at_ms = bup_updated_at_ms d, upd_path = bup_path d\<rparr>)"

definition binary_reminder_from_draft ::
  "('n, 'z) number_ops_scheme \<Rightarrow> 'n actor_reminder_draft \<Rightarrow> codec_error + binary_reminder" where
  "binary_reminder_from_draft ops d =
     res_bind (map_res_option (binary_from_json ops) (ar_payload d)) (\<lambda>payload.
       Inr \<lparr>bar_actor_kind = ar_actor_kind d, bar_actor_key = ar_actor_key d,
           bar_reminder_id = ar_reminder_id d, bar_due_at_ms = ar_due_at_ms d,
           bar_payload = payload\<rparr>)"

definition binary_reminder_into_draft ::
  "('n, 'z) number_ops_scheme \<Rightarrow> binary_reminder \<Rightarrow> codec_error + 'n actor_reminder_draft" where
  "binary_reminder_into_draft ops d =
     res_bind (map_res_option (binary_into_json ops) (bar_payload d)) (\<lambda>payload.
       Inr \<lparr>ar_actor_kind = bar_actor_kind d, ar_actor_key = bar_actor_key d,
           ar_reminder_id = bar_reminder_id d, ar_due_at_ms = bar_due_at_ms d,
           ar_payload = payload\<rparr>)"

definition binary_http_request_from_draft ::
  "('n, 'z) number_ops_scheme \<Rightarrow> 'n host_http_request_draft \<Rightarrow> codec_error + binary_http_request" where
  "binary_http_request_from_draft ops d =
     res_bind (map_res_option (binary_from_json ops) (hh_body d)) (\<lambda>body.
     res_bind (binary_from_json ops (hh_continuation d)) (\<lambda>continuation.
       Inr \<lparr>bhh_request_id = hh_request_id d, bhh_method = hh_method d, bhh_url = hh_url d,
           bhh_headers = hh_headers d, bhh_body = body, bhh_body_base64 = hh_body_base64 d,
           bhh_timeout_ms = hh_timeout_ms d, bhh_actor_kind = hh_actor_kind d,
           bhh_actor_key = hh_actor_key d, bhh_reminder_id = hh_reminder_id d,
           bhh_continuation = continuation, bhh_requested_at_ms = hh_requested_at_ms d\<rparr>))"

definition binary_http_request_into_draft ::
  "('n, 'z) number_ops_scheme \<Rightarrow> binary_http_request \<Rightarrow> codec_error + 'n host_http_request_draft" where
  "binary_http_request_into_draft ops d =
     res_bind (map_res_option (binary_into_json ops) (bhh_body d)) (\<lambda>body.
     res_bind (binary_into_json ops (bhh_continuation d)) (\<lambda>continuation.
       Inr \<lparr>hh_request_id = bhh_request_id d, hh_method = bhh_method d, hh_url = bhh_url d,
           hh_headers = bhh_headers d, hh_body = body, hh_body_base64 = bhh_body_base64 d,
           hh_timeout_ms = bhh_timeout_ms d, hh_actor_kind = bhh_actor_kind d,
           hh_actor_key = bhh_actor_key d, hh_reminder_id = bhh_reminder_id d,
           hh_continuation = continuation, hh_requested_at_ms = bhh_requested_at_ms d\<rparr>))"

definition binary_db_record_from_draft ::
  "('n, 'z) number_ops_scheme \<Rightarrow> 'n db_record_draft \<Rightarrow> codec_error + binary_db_record" where
  "binary_db_record_from_draft ops d =
     res_bind (binary_from_json ops (rd_value d)) (\<lambda>value.
       Inr \<lparr>brd_table = rd_table d, brd_key = rd_key d, brd_value = value,
           brd_updated_at_ms = rd_updated_at_ms d, brd_path = rd_path d,
           brd_client_mutation_id = rd_client_mutation_id d\<rparr>)"

definition binary_db_record_into_draft ::
  "('n, 'z) number_ops_scheme \<Rightarrow> binary_db_record \<Rightarrow> codec_error + 'n db_record_draft" where
  "binary_db_record_into_draft ops d =
     res_bind (binary_into_json ops (brd_value d)) (\<lambda>value.
       Inr \<lparr>rd_table = brd_table d, rd_key = brd_key d, rd_value = value,
           rd_updated_at_ms = brd_updated_at_ms d, rd_path = brd_path d,
           rd_client_mutation_id = brd_client_mutation_id d\<rparr>)"

definition binary_db_delete_from_draft :: "db_record_delete_draft \<Rightarrow> binary_db_delete" where
  "binary_db_delete_from_draft d =
     \<lparr>bdd_table = dd_table d, bdd_key = dd_key d, bdd_deleted_at_ms = dd_deleted_at_ms d,
      bdd_path = dd_path d, bdd_client_mutation_id = dd_client_mutation_id d\<rparr>"

definition binary_db_delete_into_draft :: "binary_db_delete \<Rightarrow> db_record_delete_draft" where
  "binary_db_delete_into_draft d =
     \<lparr>dd_table = bdd_table d, dd_key = bdd_key d, dd_deleted_at_ms = bdd_deleted_at_ms d,
      dd_path = bdd_path d, dd_client_mutation_id = bdd_client_mutation_id d\<rparr>"

fun binary_mutation_from_draft ::
  "('n, 'z) number_ops_scheme \<Rightarrow> 'n db_record_mutation_draft \<Rightarrow> codec_error + binary_mutation"
where
  "binary_mutation_from_draft ops (MutUpsert record) =
     res_bind (binary_db_record_from_draft ops record) (\<lambda>record. Inr (BMutUpsert record))"
| "binary_mutation_from_draft ops (MutDelete record) =
     Inr (BMutDelete (binary_db_delete_from_draft record))"

fun binary_mutation_into_draft ::
  "('n, 'z) number_ops_scheme \<Rightarrow> binary_mutation \<Rightarrow> codec_error + 'n db_record_mutation_draft"
where
  "binary_mutation_into_draft ops (BMutUpsert record) =
     res_bind (binary_db_record_into_draft ops record) (\<lambda>record. Inr (MutUpsert record))"
| "binary_mutation_into_draft ops (BMutDelete record) =
     Inr (MutDelete (binary_db_delete_into_draft record))"

fun binary_client_mutation_from_record :: "client_mutation_record \<Rightarrow> binary_client_mutation" where
  "binary_client_mutation_from_record (RecordDeleteNoop table key path) =
     BRecordDeleteNoop table key path"
| "binary_client_mutation_from_record RecordTransactionNoop = BRecordTransactionNoop"
| "binary_client_mutation_from_record (ObjectDeleteNoop object_id path) =
     BObjectDeleteNoop object_id path"

fun binary_client_mutation_into_record :: "binary_client_mutation \<Rightarrow> client_mutation_record" where
  "binary_client_mutation_into_record (BRecordDeleteNoop table key path) =
     RecordDeleteNoop table key path"
| "binary_client_mutation_into_record BRecordTransactionNoop = RecordTransactionNoop"
| "binary_client_mutation_into_record (BObjectDeleteNoop object_id path) =
     ObjectDeleteNoop object_id path"

section \<open>Payloads and frames\<close>

fun postcard_from_payload ::
  "('n, 's, 'g, 'z) schema_ops_scheme \<Rightarrow> ('n, 's, 'g) wal_payload \<Rightarrow> codec_error + postcard_payload"
where
  "postcard_from_payload ops (MessageCreated message) =
     Inr (PMessageCreated (binary_message_from_draft message))"
| "postcard_from_payload ops (UserEventPublished event) =
     res_bind (binary_user_event_from_draft ops event) (\<lambda>event. Inr (PUserEventPublished event))"
| "postcard_from_payload ops (UserUpserted user) =
     res_bind (binary_user_profile_from_draft ops user) (\<lambda>user. Inr (PUserUpserted user))"
| "postcard_from_payload ops (ObjectCommitted object client_mutation_id) =
     Inr (PObjectCommitted object client_mutation_id)"
| "postcard_from_payload ops (ObjectDeleted object_id deleted_at_ms path force client_mutation_id) =
     Inr (PObjectDeleted object_id deleted_at_ms path force client_mutation_id)"
| "postcard_from_payload ops (RecordUpserted record) =
     res_bind (binary_db_record_from_draft ops record) (\<lambda>record. Inr (PRecordUpserted record))"
| "postcard_from_payload ops (RecordDeleted record) =
     Inr (PRecordDeleted (binary_db_delete_from_draft record))"
| "postcard_from_payload ops (RecordTransactionCommitted operations client_mutation_id) =
     res_bind (map_res (binary_mutation_from_draft ops) operations) (\<lambda>operations.
       Inr (PRecordTransactionCommitted operations client_mutation_id))"
| "postcard_from_payload ops (SchemaApplied schema migration) =
     (case schema_to_vec ops schema of
        None \<Rightarrow> Inl JsonEncode
      | Some schema_json \<Rightarrow>
          (case migration_to_vec ops migration of
             None \<Rightarrow> Inl JsonEncode
           | Some migration_json \<Rightarrow> Inr (PSchemaApplied schema_json migration_json)))"
| "postcard_from_payload ops (BehaviorPublished publish) = Inr (PBehaviorPublished publish)"
| "postcard_from_payload ops (ActorReminderScheduled reminder) =
     res_bind (binary_reminder_from_draft ops reminder) (\<lambda>reminder.
       Inr (PActorReminderScheduled reminder))"
| "postcard_from_payload ops (ActorReminderCancelled actor_kind actor_key reminder_id at) =
     Inr (PActorReminderCancelled actor_kind actor_key reminder_id at)"
| "postcard_from_payload ops (ActorReminderFired actor_kind actor_key reminder_id due_at at) =
     Inr (PActorReminderFired actor_kind actor_key reminder_id due_at at)"
| "postcard_from_payload ops (HostHttpRequested request) =
     res_bind (binary_http_request_from_draft ops request) (\<lambda>request.
       Inr (PHostHttpRequested request))"
| "postcard_from_payload ops (HostHttpCompleted request_id completed_at_ms) =
     Inr (PHostHttpCompleted request_id completed_at_ms)"
| "postcard_from_payload ops (ClientMutationRecorded client_mutation_id record) =
     Inr (PClientMutationRecorded client_mutation_id (binary_client_mutation_from_record record))"

fun postcard_into_payload ::
  "('n, 's, 'g, 'z) schema_ops_scheme \<Rightarrow> postcard_payload \<Rightarrow> codec_error + ('n, 's, 'g) wal_payload"
where
  "postcard_into_payload ops (PMessageCreated message) =
     Inr (MessageCreated (binary_message_into_draft message))"
| "postcard_into_payload ops (PUserEventPublished event) =
     res_bind (binary_user_event_into_draft ops event) (\<lambda>event. Inr (UserEventPublished event))"
| "postcard_into_payload ops (PUserUpserted user) =
     res_bind (binary_user_profile_into_draft ops user) (\<lambda>user. Inr (UserUpserted user))"
| "postcard_into_payload ops (PObjectCommitted object client_mutation_id) =
     Inr (ObjectCommitted object client_mutation_id)"
| "postcard_into_payload ops (PObjectDeleted object_id deleted_at_ms path force client_mutation_id) =
     Inr (ObjectDeleted object_id deleted_at_ms path force client_mutation_id)"
| "postcard_into_payload ops (PRecordUpserted record) =
     res_bind (binary_db_record_into_draft ops record) (\<lambda>record. Inr (RecordUpserted record))"
| "postcard_into_payload ops (PRecordDeleted record) =
     Inr (RecordDeleted (binary_db_delete_into_draft record))"
| "postcard_into_payload ops (PRecordTransactionCommitted operations client_mutation_id) =
     res_bind (map_res (binary_mutation_into_draft ops) operations) (\<lambda>operations.
       Inr (RecordTransactionCommitted operations client_mutation_id))"
| "postcard_into_payload ops (PSchemaApplied schema_json migration_json) =
     (case schema_from_slice ops schema_json of
        None \<Rightarrow> Inl JsonDecode
      | Some schema \<Rightarrow>
          (case migration_from_slice ops migration_json of
             None \<Rightarrow> Inl JsonDecode
           | Some migration \<Rightarrow> Inr (SchemaApplied schema migration)))"
| "postcard_into_payload ops (PBehaviorPublished publish) = Inr (BehaviorPublished publish)"
| "postcard_into_payload ops (PActorReminderScheduled reminder) =
     res_bind (binary_reminder_into_draft ops reminder) (\<lambda>reminder.
       Inr (ActorReminderScheduled reminder))"
| "postcard_into_payload ops (PActorReminderCancelled actor_kind actor_key reminder_id at) =
     Inr (ActorReminderCancelled actor_kind actor_key reminder_id at)"
| "postcard_into_payload ops (PActorReminderFired actor_kind actor_key reminder_id due_at at) =
     Inr (ActorReminderFired actor_kind actor_key reminder_id due_at at)"
| "postcard_into_payload ops (PHostHttpRequested request) =
     res_bind (binary_http_request_into_draft ops request) (\<lambda>request.
       Inr (HostHttpRequested request))"
| "postcard_into_payload ops (PHostHttpCompleted request_id completed_at_ms) =
     Inr (HostHttpCompleted request_id completed_at_ms)"
| "postcard_into_payload ops (PClientMutationRecorded client_mutation_id record) =
     Inr (ClientMutationRecorded client_mutation_id (binary_client_mutation_into_record record))"

definition postcard_from_record ::
  "('n, 's, 'g, 'z) schema_ops_scheme \<Rightarrow> ('n, 's, 'g) wal_record \<Rightarrow> codec_error + postcard_frame"
where
  "postcard_from_record ops r =
     res_bind (postcard_from_payload ops (wr_payload r)) (\<lambda>payload.
       Inr \<lparr>pf_lsn = wr_lsn r, pf_shard = wr_shard r, pf_shard_epoch = wr_shard_epoch r,
            pf_owner_node_id = wr_owner_node_id r, pf_timestamp_ms = wr_timestamp_ms r,
            pf_schema_version = wr_schema_version r, pf_durability = wr_durability r,
            pf_payload = payload, pf_checksum = wr_checksum r\<rparr>)"

text \<open>\<open>usize::try_from\<close> of a \<open>u64\<close> never fails on a 64-bit target.\<close>

definition postcard_into_record ::
  "('n, 's, 'g, 'z) schema_ops_scheme \<Rightarrow> postcard_frame \<Rightarrow> codec_error + ('n, 's, 'g) wal_record"
where
  "postcard_into_record ops f =
     res_bind (postcard_into_payload ops (pf_payload f)) (\<lambda>payload.
       Inr \<lparr>wr_lsn = pf_lsn f, wr_shard = pf_shard f, wr_shard_epoch = pf_shard_epoch f,
            wr_owner_node_id = pf_owner_node_id f, wr_timestamp_ms = pf_timestamp_ms f,
            wr_schema_version = pf_schema_version f, wr_durability = pf_durability f,
            wr_payload = payload, wr_checksum = pf_checksum f\<rparr>)"

section \<open>Round trips\<close>

text \<open>The JSON values a draft carries are well formed.\<close>

fun mutation_json_wf :: "'n db_record_mutation_draft \<Rightarrow> bool" where
  "mutation_json_wf (MutUpsert record) = json_wf (rd_value record)"
| "mutation_json_wf (MutDelete _) = True"

fun payload_json_wf :: "('n, 's, 'g) wal_payload \<Rightarrow> bool" where
  "payload_json_wf (UserEventPublished event) = json_wf (ued_payload event)"
| "payload_json_wf (UserUpserted user) = json_wf (upd_metadata user)"
| "payload_json_wf (RecordUpserted record) = json_wf (rd_value record)"
| "payload_json_wf (RecordTransactionCommitted operations _) =
     (\<forall>operation\<in>set operations. mutation_json_wf operation)"
| "payload_json_wf (ActorReminderScheduled reminder) =
     (\<forall>payload\<in>set_option (ar_payload reminder). json_wf payload)"
| "payload_json_wf (HostHttpRequested request) =
     (json_wf (hh_continuation request) \<and> (\<forall>body\<in>set_option (hh_body request). json_wf body))"
| "payload_json_wf _ = True"

lemma message_roundtrip [simp]:
  "binary_message_into_draft (binary_message_from_draft d) = d"
  by (cases d) (simp add: binary_message_from_draft_def binary_message_into_draft_def)

lemma db_delete_roundtrip [simp]:
  "binary_db_delete_into_draft (binary_db_delete_from_draft d) = d"
  by (cases d) (simp add: binary_db_delete_from_draft_def binary_db_delete_into_draft_def)

lemma client_mutation_roundtrip [simp]:
  "binary_client_mutation_into_record (binary_client_mutation_from_record r) = r"
  by (cases r) simp_all

lemma json_option_roundtrip:
  "number_laws ops \<Longrightarrow> \<forall>v\<in>set_option m. json_wf v \<Longrightarrow>
     \<exists>m'. map_res_option (binary_from_json ops) m = Inr m'
       \<and> map_res_option (binary_into_json ops) m' = Inr m"
  by (rule json_codec.option_roundtrip) simp

interpretation user_event_codec: codec
    "binary_user_event_from_draft ops" "binary_user_event_into_draft ops"
    "\<lambda>d. number_laws ops \<and> json_wf (ued_payload d)" for ops
proof
  fix d :: "'a user_event_draft"
  assume "number_laws ops \<and> json_wf (ued_payload d)"
  then obtain v where "binary_from_json ops (ued_payload d) = Inr v"
    and "binary_into_json ops v = Inr (ued_payload d)"
    using json_codec.encE by blast
  then show "res_bind (binary_user_event_from_draft ops d) (binary_user_event_into_draft ops) = Inr d"
    by (simp add: binary_user_event_from_draft_def binary_user_event_into_draft_def)
qed

interpretation user_profile_codec: codec
    "binary_user_profile_from_draft ops" "binary_user_profile_into_draft ops"
    "\<lambda>d. number_laws ops \<and> json_wf (upd_metadata d)" for ops
proof
  fix d :: "'a user_profile_draft"
  assume "number_laws ops \<and> json_wf (upd_metadata d)"
  then obtain v where "binary_from_json ops (upd_metadata d) = Inr v"
    and "binary_into_json ops v = Inr (upd_metadata d)"
    using json_codec.encE by blast
  then show "res_bind (binary_user_profile_from_draft ops d) (binary_user_profile_into_draft ops) = Inr d"
    by (simp add: binary_user_profile_from_draft_def binary_user_profile_into_draft_def)
qed

interpretation db_record_codec: codec
    "binary_db_record_from_draft ops" "binary_db_record_into_draft ops"
    "\<lambda>d. number_laws ops \<and> json_wf (rd_value d)" for ops
proof
  fix d :: "'a db_record_draft"
  assume "number_laws ops \<and> json_wf (rd_value d)"
  then obtain v where "binary_from_json ops (rd_value d) = Inr v"
    and "binary_into_json ops v = Inr (rd_value d)"
    using json_codec.encE by blast
  then show "res_bind (binary_db_record_from_draft ops d) (binary_db_record_into_draft ops) = Inr d"
    by (simp add: binary_db_record_from_draft_def binary_db_record_into_draft_def)
qed

interpretation reminder_codec: codec
    "binary_reminder_from_draft ops" "binary_reminder_into_draft ops"
    "\<lambda>d. number_laws ops \<and> (\<forall>payload\<in>set_option (ar_payload d). json_wf payload)" for ops
proof
  fix d :: "'a actor_reminder_draft"
  assume "number_laws ops \<and> (\<forall>payload\<in>set_option (ar_payload d). json_wf payload)"
  then obtain v where "map_res_option (binary_from_json ops) (ar_payload d) = Inr v"
    and "map_res_option (binary_into_json ops) v = Inr (ar_payload d)"
    using json_option_roundtrip by blast
  then show "res_bind (binary_reminder_from_draft ops d) (binary_reminder_into_draft ops) = Inr d"
    by (simp add: binary_reminder_from_draft_def binary_reminder_into_draft_def)
qed

interpretation http_request_codec: codec
    "binary_http_request_from_draft ops" "binary_http_request_into_draft ops"
    "\<lambda>d. number_laws ops \<and> json_wf (hh_continuation d)
       \<and> (\<forall>body\<in>set_option (hh_body d). json_wf body)" for ops
proof
  fix d :: "'a host_http_request_draft"
  assume ok: "number_laws ops \<and> json_wf (hh_continuation d)
    \<and> (\<forall>body\<in>set_option (hh_body d). json_wf body)"
  then obtain v where "map_res_option (binary_from_json ops) (hh_body d) = Inr v"
    and "map_res_option (binary_into_json ops) v = Inr (hh_body d)"
    using json_option_roundtrip by blast
  moreover obtain w where "binary_from_json ops (hh_continuation d) = Inr w"
    and "binary_into_json ops w = Inr (hh_continuation d)"
    using ok json_codec.encE by blast
  ultimately show
    "res_bind (binary_http_request_from_draft ops d) (binary_http_request_into_draft ops) = Inr d"
    by (simp add: binary_http_request_from_draft_def binary_http_request_into_draft_def)
qed

interpretation mutation_codec: codec
    "binary_mutation_from_draft ops" "binary_mutation_into_draft ops"
    "\<lambda>d. number_laws ops \<and> mutation_json_wf d" for ops
proof
  fix d :: "'a db_record_mutation_draft"
  assume ok: "number_laws ops \<and> mutation_json_wf d"
  show "res_bind (binary_mutation_from_draft ops d) (binary_mutation_into_draft ops) = Inr d"
  proof (cases d)
    case (MutUpsert rd)
    then show ?thesis using ok db_record_codec.encE [of ops rd] by fastforce
  qed simp
qed

definition payload_ok ::
  "('n, 's, 'g, 'z) schema_ops_scheme \<Rightarrow> ('n, 's, 'g) wal_payload \<Rightarrow> bool" where
  "payload_ok ops p \<longleftrightarrow> number_laws ops \<and> schema_laws ops \<and> payload_json_wf p"

lemma payload_roundtrip:
  assumes "payload_ok ops p"
  shows "\<exists>q. postcard_from_payload ops p = Inr q \<and> postcard_into_payload ops q = Inr p"
proof -
  have laws: "number_laws ops" "schema_laws ops" and wf: "payload_json_wf p"
    using assms by (simp_all add: payload_ok_def)
  show ?thesis
  proof (cases p)
    case (UserEventPublished event)
    then obtain v where "binary_user_event_from_draft ops event = Inr v"
      "binary_user_event_into_draft ops v = Inr event"
      using laws wf user_event_codec.encE by (metis payload_json_wf.simps(1))
    with UserEventPublished show ?thesis by simp
  next
    case (UserUpserted user)
    then obtain v where "binary_user_profile_from_draft ops user = Inr v"
      "binary_user_profile_into_draft ops v = Inr user"
      using laws wf user_profile_codec.encE by (metis payload_json_wf.simps(2))
    with UserUpserted show ?thesis by simp
  next
    case (RecordUpserted rd)
    then obtain v where "binary_db_record_from_draft ops rd = Inr v"
      "binary_db_record_into_draft ops v = Inr rd"
      using laws wf db_record_codec.encE by (metis payload_json_wf.simps(3))
    with RecordUpserted show ?thesis by simp
  next
    case (RecordTransactionCommitted operations client_mutation_id)
    then have "\<forall>operation\<in>set operations. number_laws ops \<and> mutation_json_wf operation"
      using laws wf by simp
    from mutation_codec.list_roundtrip [OF this] RecordTransactionCommitted
    show ?thesis by auto
  next
    case (SchemaApplied schema migration)
    have "case schema_to_vec ops schema of
        None \<Rightarrow> False | Some b \<Rightarrow> schema_from_slice ops b = Some schema"
      and "case migration_to_vec ops migration of
        None \<Rightarrow> False | Some b \<Rightarrow> migration_from_slice ops b = Some migration"
      using laws(2) unfolding schema_laws_def by blast+
    then show ?thesis by (auto simp: SchemaApplied split: option.splits)
  next
    case (ActorReminderScheduled reminder)
    then obtain v where "binary_reminder_from_draft ops reminder = Inr v"
      "binary_reminder_into_draft ops v = Inr reminder"
      using laws wf reminder_codec.encE by (metis payload_json_wf.simps(5))
    with ActorReminderScheduled show ?thesis by simp
  next
    case (HostHttpRequested request)
    then obtain v where "binary_http_request_from_draft ops request = Inr v"
      "binary_http_request_into_draft ops v = Inr request"
      using laws wf http_request_codec.encE by (metis payload_json_wf.simps(6))
    with HostHttpRequested show ?thesis by simp
  qed simp_all
qed

interpretation payload_codec: codec "postcard_from_payload ops" "postcard_into_payload ops"
    "payload_ok ops" for ops
  by unfold_locales (use payload_roundtrip in fastforce)

interpretation frame_codec: codec "postcard_from_record ops" "postcard_into_record ops"
    "\<lambda>r. payload_ok ops (wr_payload r)" for ops
proof
  fix r :: "('a, 'b, 'c) wal_record"
  assume "payload_ok ops (wr_payload r)"
  then obtain q where "postcard_from_payload ops (wr_payload r) = Inr q"
    and "postcard_into_payload ops q = Inr (wr_payload r)"
    using payload_codec.encE by blast
  then show "res_bind (postcard_from_record ops r) (postcard_into_record ops) = Inr r"
    by (simp add: postcard_from_record_def postcard_into_record_def)
qed

end
