(* ===== verification/Wal_Frame.thy ===== *)
theory Wal_Frame
  imports Wal_Binary
begin

text \<open>
  The on-disk format of the write-ahead log (\<open>wal.rs\<close>): framing of records with magic,
  version, encoding, length and CRC32C; the strict decoder, which fails on the first bad
  frame; the recovering decoder, which returns the records before it and a quarantine
  report; and the legacy JSON-lines format.

  The third-party functions the format rests on are in \<open>frame_ops\<close>: postcard on
  \<open>PostcardWalRecordFrame\<close>, serde_json on \<open>WalRecord\<close> and \<open>crc32c\<close>. A report's formatted
  reason is represented by the constructor of the failure and its arguments.
\<close>

unbundle bit_operations_syntax

record ('n, 's, 'g) frame_ops = "('n, 's, 'g) schema_ops" +
  postcard_to_vec :: "postcard_frame \<Rightarrow> bytes option"
  postcard_from_bytes :: "bytes \<Rightarrow> postcard_frame option"
  record_from_slice :: "bytes \<Rightarrow> ('n, 's, 'g) wal_record option"
  record_from_str :: "string \<Rightarrow> ('n, 's, 'g) wal_record option"
  crc32c :: "bytes \<Rightarrow> u32"

text \<open>Postcard reads back what it wrote, and a frame is never written as no bytes.\<close>

definition postcard_laws :: "('n, 's, 'g, 'z) frame_ops_scheme \<Rightarrow> bool" where
  "postcard_laws ops \<longleftrightarrow>
     (\<forall>f b. postcard_to_vec ops f = Some b \<longrightarrow> postcard_from_bytes ops b = Some f \<and> b \<noteq> [])"

datatype wal_error =
    CodecFailed codec_error
  | FrameExceedsMax u64 nat
  | TruncatedHeader nat
  | InvalidMagic nat
  | UnsupportedVersion u16
  | EmptyPayload nat
  | OversizeFrame nat u32
  | TruncatedPayload nat
  | CrcMismatch u32 u32
  | ParseFrame nat
  | UnsupportedEncoding u16 nat
  | ChecksumMismatch nat string string
  | LegacyNotUtf8
  | LegacyParse nat

definition lift_codec :: "codec_error + 'a \<Rightarrow> wal_error + 'a" where
  "lift_codec r = (case r of Inl e \<Rightarrow> Inl (CodecFailed e) | Inr x \<Rightarrow> Inr x)"

lemma lift_codec_simps [simp]:
  "lift_codec (Inl e) = Inl (CodecFailed e)"
  "lift_codec (Inr x) = Inr x"
  "lift_codec r = Inr y \<longleftrightarrow> r = Inr y"
  by (simp_all add: lift_codec_def split: sum.split)

section \<open>Big-endian integers\<close>

definition be16 :: "u16 \<Rightarrow> bytes" where
  "be16 w = [ucast (drop_bit 8 w), ucast w]"

definition be32 :: "u32 \<Rightarrow> bytes" where
  "be32 w = [ucast (drop_bit 24 w), ucast (drop_bit 16 w), ucast (drop_bit 8 w), ucast w]"

definition from_be16 :: "u8 \<Rightarrow> u8 \<Rightarrow> u16" where
  "from_be16 a b = push_bit 8 (ucast a) OR ucast b"

definition from_be32 :: "u8 \<Rightarrow> u8 \<Rightarrow> u8 \<Rightarrow> u8 \<Rightarrow> u32" where
  "from_be32 a b c d =
     push_bit 24 (ucast a) OR push_bit 16 (ucast b) OR push_bit 8 (ucast c) OR ucast d"

lemma from_be16_be16: "from_be16 (ucast (drop_bit 8 w)) (ucast w) = w"
  unfolding from_be16_def by (intro bit_eqI) (auto simp: bit_simps)

lemma from_be32_be32:
  "from_be32 (ucast (drop_bit 24 w)) (ucast (drop_bit 16 w)) (ucast (drop_bit 8 w)) (ucast w) = w"
proof (intro bit_eqI)
  fix n :: nat
  consider "n < 8" | "8 \<le> n" "n < 16" | "16 \<le> n" "n < 24" | "24 \<le> n" by linarith
  then show "bit (from_be32 (ucast (drop_bit 24 w)) (ucast (drop_bit 16 w)) (ucast (drop_bit 8 w))
      (ucast w)) n = bit w n"
    unfolding from_be32_def by cases (auto simp: bit_simps dest: bit_imp_le_length)
qed

lemma length_be [simp]: "length (be16 v) = 2" "length (be32 w) = 4"
  by (simp_all add: be16_def be32_def)

section \<open>Constants\<close>

definition wal_frame_magic :: bytes where
  "wal_frame_magic = [0x4E, 0x44, 0x42, 0x57]" \<comment> \<open>NDBW\<close>

definition wal_frame_version_v1 :: u16 where "wal_frame_version_v1 = 1"
definition wal_frame_version_v2 :: u16 where "wal_frame_version_v2 = 2"
definition wal_frame_encoding_json :: u16 where "wal_frame_encoding_json = 1"
definition wal_frame_encoding_postcard :: u16 where "wal_frame_encoding_postcard = 2"
definition wal_frame_header_len_v1 :: nat where "wal_frame_header_len_v1 = 12"
definition wal_frame_header_len_v2 :: nat where "wal_frame_header_len_v2 = 16"
definition wal_frame_max_bytes :: u32 where "wal_frame_max_bytes = 64 * 1024 * 1024"

lemmas wal_frame_constants =
  wal_frame_magic_def wal_frame_version_v1_def wal_frame_version_v2_def
  wal_frame_encoding_json_def wal_frame_encoding_postcard_def
  wal_frame_header_len_v1_def wal_frame_header_len_v2_def wal_frame_max_bytes_def

section \<open>Encoding\<close>

definition encode_wal_record_frame ::
  "('n, 's, 'g, 'z) frame_ops_scheme \<Rightarrow> ('n, 's, 'g) wal_record \<Rightarrow> bytes \<Rightarrow> wal_error + bytes"
where
  "encode_wal_record_frame ops r encoded =
     res_bind (lift_codec (postcard_from_record ops r)) (\<lambda>frame.
       case postcard_to_vec ops frame of
         None \<Rightarrow> Inl (CodecFailed PostcardEncode)
       | Some payload \<Rightarrow>
           if unat wal_frame_max_bytes < length payload
           then Inl (FrameExceedsMax (wr_lsn r) (length payload))
           else Inr (encoded @ wal_frame_magic @ be16 wal_frame_version_v2
             @ be16 wal_frame_encoding_postcard @ be32 (word_of_nat (length payload))
             @ be32 (crc32c ops payload) @ payload))"

fun encode_wal_records_loop ::
  "('n, 's, 'g, 'z) frame_ops_scheme \<Rightarrow> ('n, 's, 'g) wal_record list \<Rightarrow> bytes \<Rightarrow> wal_error + bytes"
where
  "encode_wal_records_loop ops [] encoded = Inr encoded"
| "encode_wal_records_loop ops (r # rs) encoded =
     res_bind
       (if wr_checksum r \<noteq> None then encode_wal_record_frame ops r encoded
        else res_bind (lift_codec (ensure_checksum ops r)) (\<lambda>signed.
               encode_wal_record_frame ops signed encoded))
       (encode_wal_records_loop ops rs)"

definition encode_wal_records ::
  "('n, 's, 'g, 'z) frame_ops_scheme \<Rightarrow> ('n, 's, 'g) wal_record list \<Rightarrow> wal_error + bytes" where
  "encode_wal_records ops rs = encode_wal_records_loop ops rs []"

section \<open>Decoding\<close>

definition wal_frame_header_len :: "u16 \<Rightarrow> wal_error + nat" where
  "wal_frame_header_len version =
     (if version = wal_frame_version_v1 then Inr wal_frame_header_len_v1
      else if version = wal_frame_version_v2 then Inr wal_frame_header_len_v2
      else Inl (UnsupportedVersion version))"

definition wal_frame_len :: "bytes \<Rightarrow> nat \<Rightarrow> u32" where
  "wal_frame_len bytes offset =
     from_be32 (bytes ! (offset + 8)) (bytes ! (offset + 9)) (bytes ! (offset + 10))
       (bytes ! (offset + 11))"

definition verify_wal_frame_crc32c ::
  "('n, 's, 'g, 'z) frame_ops_scheme \<Rightarrow> bytes \<Rightarrow> nat \<Rightarrow> u16 \<Rightarrow> bytes \<Rightarrow> wal_error + unit" where
  "verify_wal_frame_crc32c ops bytes offset version payload =
     (if version \<noteq> wal_frame_version_v2 then Inr ()
      else
        let expected = from_be32 (bytes ! (offset + 12)) (bytes ! (offset + 13))
              (bytes ! (offset + 14)) (bytes ! (offset + 15));
            actual = crc32c ops payload
        in if actual \<noteq> expected then Inl (CrcMismatch expected actual) else Inr ())"

definition decode_wal_frame_payload ::
  "('n, 's, 'g, 'z) frame_ops_scheme \<Rightarrow> u16 \<Rightarrow> bytes \<Rightarrow> nat \<Rightarrow> wal_error + ('n, 's, 'g) wal_record"
where
  "decode_wal_frame_payload ops encoding payload frame =
     (if encoding = wal_frame_encoding_json then
        (case record_from_slice ops payload of
           None \<Rightarrow> Inl (ParseFrame frame) | Some r \<Rightarrow> Inr r)
      else if encoding = wal_frame_encoding_postcard then
        (case postcard_from_bytes ops payload of
           None \<Rightarrow> Inl (ParseFrame frame)
         | Some f \<Rightarrow> lift_codec (postcard_into_record ops f))
      else Inl (UnsupportedEncoding encoding frame))"

text \<open>The byte_slice \<open>bytes[start..end]\<close>.\<close>

definition byte_slice :: "'a list \<Rightarrow> nat \<Rightarrow> nat \<Rightarrow> 'a list" where
  "byte_slice xs start stop = take (stop - start) (drop start xs)"

function decode_framed_from ::
  "('n, 's, 'g, 'z) frame_ops_scheme \<Rightarrow> bytes \<Rightarrow> (nat \<times> ('n, 's, 'g) wal_record) list \<Rightarrow> nat \<Rightarrow>
     nat \<Rightarrow> wal_error + (nat \<times> ('n, 's, 'g) wal_record) list"
where
  "decode_framed_from ops bytes records offset frame =
     (if length bytes \<le> offset then Inr records
      else if length bytes - offset < wal_frame_header_len_v1 then Inl (TruncatedHeader frame)
      else if byte_slice bytes offset (offset + 4) \<noteq> wal_frame_magic then Inl (InvalidMagic frame)
      else
        let version = from_be16 (bytes ! (offset + 4)) (bytes ! (offset + 5)) in
        res_bind (wal_frame_header_len version) (\<lambda>header_len.
        if length bytes - offset < header_len then Inl (TruncatedHeader frame)
        else
          let encoding = from_be16 (bytes ! (offset + 6)) (bytes ! (offset + 7));
              len = wal_frame_len bytes offset
          in if len = 0 then Inl (EmptyPayload frame)
          else if wal_frame_max_bytes < len then Inl (OversizeFrame frame len)
          else
            let start = offset + header_len; stop = start + unat len in
            if length bytes < stop then Inl (TruncatedPayload frame)
            else
              res_bind (verify_wal_frame_crc32c ops bytes offset version (byte_slice bytes start stop))
                (\<lambda>_.
              res_bind (decode_wal_frame_payload ops encoding (byte_slice bytes start stop) frame)
                (\<lambda>r. decode_framed_from ops bytes (records @ [(frame, r)]) stop (frame + 1)))))"
  by pat_completeness auto
termination
  by (relation "measure (\<lambda>(_, bytes, _, offset, _). length bytes - offset)")
     (auto simp: unat_gt_0 [symmetric] word_neq_0_conv)

declare decode_framed_from.simps [simp del]

definition decode_framed_wal_records ::
  "('n, 's, 'g, 'z) frame_ops_scheme \<Rightarrow> bytes \<Rightarrow> wal_error + (nat \<times> ('n, 's, 'g) wal_record) list"
where
  "decode_framed_wal_records ops bytes = decode_framed_from ops bytes [] 0 1"

section \<open>Recovery\<close>

record wal_quarantine_report =
  wq_path :: string
  wq_frame :: nat
  wq_offset :: nat
  wq_reason :: wal_error

record ('n, 's, 'g) recoverable_wal_records =
  rw_records :: "('n, 's, 'g) wal_record list"
  rw_quarantined :: "wal_quarantine_report option"

definition quarantine_wal_prefix ::
  "string \<Rightarrow> ('n, 's, 'g) wal_record list \<Rightarrow> nat \<Rightarrow> nat \<Rightarrow> wal_error \<Rightarrow>
     ('n, 's, 'g) recoverable_wal_records" where
  "quarantine_wal_prefix path records frame offset reason =
     \<lparr>rw_records = records,
      rw_quarantined = Some \<lparr>wq_path = path, wq_frame = frame, wq_offset = offset,
        wq_reason = reason\<rparr>\<rparr>"

function decode_framed_prefix_from ::
  "('n, 's, 'g, 'z) frame_ops_scheme \<Rightarrow> string \<Rightarrow> bytes \<Rightarrow> ('n, 's, 'g) wal_record list \<Rightarrow> nat \<Rightarrow>
     nat \<Rightarrow> ('n, 's, 'g) recoverable_wal_records"
where
  "decode_framed_prefix_from ops path bytes records offset frame =
     (if length bytes \<le> offset then \<lparr>rw_records = records, rw_quarantined = None\<rparr>
      else if length bytes - offset < wal_frame_header_len_v1 then
        quarantine_wal_prefix path records frame offset (TruncatedHeader frame)
      else if byte_slice bytes offset (offset + 4) \<noteq> wal_frame_magic then
        quarantine_wal_prefix path records frame offset (InvalidMagic frame)
      else
        let version = from_be16 (bytes ! (offset + 4)) (bytes ! (offset + 5)) in
        case wal_frame_header_len version of
          Inl _ \<Rightarrow> quarantine_wal_prefix path records frame offset (UnsupportedVersion version)
        | Inr header_len \<Rightarrow>
        if length bytes - offset < header_len then
          quarantine_wal_prefix path records frame offset (TruncatedHeader frame)
        else
          let encoding = from_be16 (bytes ! (offset + 6)) (bytes ! (offset + 7));
              len = wal_frame_len bytes offset
          in if len = 0 then quarantine_wal_prefix path records frame offset (EmptyPayload frame)
          else if wal_frame_max_bytes < len then
            quarantine_wal_prefix path records frame offset (OversizeFrame frame len)
          else
            let start = offset + header_len; stop = start + unat len in
            if length bytes < stop then
              quarantine_wal_prefix path records frame offset (TruncatedPayload frame)
            else
              (case verify_wal_frame_crc32c ops bytes offset version (byte_slice bytes start stop) of
                 Inl err \<Rightarrow> quarantine_wal_prefix path records frame offset err
               | Inr _ \<Rightarrow>
              (case decode_wal_frame_payload ops encoding (byte_slice bytes start stop) frame of
                 Inl err \<Rightarrow> quarantine_wal_prefix path records frame offset err
               | Inr r \<Rightarrow>
              (case verify_checksum ops r of
                 Inr (ChecksumBad expected) \<Rightarrow>
                   quarantine_wal_prefix path records frame offset
                     (ChecksumMismatch frame expected
                        (case wr_checksum r of None \<Rightarrow> [] | Some c \<Rightarrow> c))
               | Inl err \<Rightarrow> quarantine_wal_prefix path records frame offset (CodecFailed err)
               | Inr _ \<Rightarrow>
                   decode_framed_prefix_from ops path bytes (records @ [r]) stop (frame + 1)))))"
  by pat_completeness auto
termination
  by (relation "measure (\<lambda>(_, _, bytes, _, offset, _). length bytes - offset)")
     (auto simp: unat_gt_0 [symmetric] word_neq_0_conv)

declare decode_framed_prefix_from.simps [simp del]

definition decode_framed_wal_records_prefix ::
  "('n, 's, 'g, 'z) frame_ops_scheme \<Rightarrow> string \<Rightarrow> bytes \<Rightarrow> ('n, 's, 'g) recoverable_wal_records"
where
  "decode_framed_wal_records_prefix ops path bytes =
     decode_framed_prefix_from ops path bytes [] 0 1"

section \<open>The legacy format, and reading a file\<close>

text \<open>\<open>str::from_utf8\<close>: the well-formed byte sequences of the Unicode standard.\<close>

definition continuation_byte :: "u8 \<Rightarrow> bool" where
  "continuation_byte b \<longleftrightarrow> 0x80 \<le> b \<and> b \<le> 0xBF"

fun utf8_valid :: "bytes \<Rightarrow> bool" where
  "utf8_valid [] = True"
| "utf8_valid (a # bs) =
     (if a \<le> 0x7F then utf8_valid bs
      else if 0xC2 \<le> a \<and> a \<le> 0xDF then
        (case bs of b # rest \<Rightarrow> continuation_byte b \<and> utf8_valid rest | _ \<Rightarrow> False)
      else if 0xE0 \<le> a \<and> a \<le> 0xEF then
        (case bs of b # c # rest \<Rightarrow>
            (if a = 0xE0 then 0xA0 \<le> b \<and> b \<le> 0xBF
             else if a = 0xED then 0x80 \<le> b \<and> b \<le> 0x9F
             else continuation_byte b)
            \<and> continuation_byte c \<and> utf8_valid rest
         | _ \<Rightarrow> False)
      else if 0xF0 \<le> a \<and> a \<le> 0xF4 then
        (case bs of b # c # d # rest \<Rightarrow>
            (if a = 0xF0 then 0x90 \<le> b \<and> b \<le> 0xBF
             else if a = 0xF4 then 0x80 \<le> b \<and> b \<le> 0x8F
             else continuation_byte b)
            \<and> continuation_byte c \<and> continuation_byte d \<and> utf8_valid rest
         | _ \<Rightarrow> False)
      else False)"

definition newline :: char where "newline = char_of (10 :: nat)"
definition carriage_return :: char where "carriage_return = char_of (13 :: nat)"

text \<open>\<open>str::lines\<close>; \<open>acc\<close> is the current line, reversed.\<close>

fun lines_from :: "string \<Rightarrow> string \<Rightarrow> string list" where
  "lines_from acc [] = (if acc = [] then [] else [rev acc])"
| "lines_from acc (c # cs) =
     (if c = newline then
        (case acc of
           d # acc' \<Rightarrow> if d = carriage_return then rev acc' else rev acc
         | [] \<Rightarrow> []) # lines_from [] cs
      else lines_from (c # acc) cs)"

fun decode_jsonl_lines ::
  "('n, 's, 'g, 'z) frame_ops_scheme \<Rightarrow> nat \<Rightarrow> string list \<Rightarrow>
     wal_error + (nat \<times> ('n, 's, 'g) wal_record) list" where
  "decode_jsonl_lines ops index [] = Inr []"
| "decode_jsonl_lines ops index (line # rest) =
     (if trim line = [] then decode_jsonl_lines ops (index + 1) rest
      else
        let line_number = index + 1 in
        (case record_from_str ops line of
           None \<Rightarrow> Inl (LegacyParse line_number)
         | Some r \<Rightarrow>
             res_bind (decode_jsonl_lines ops (index + 1) rest) (\<lambda>records.
               Inr ((line_number, r) # records))))"

definition decode_jsonl_wal_records ::
  "('n, 's, 'g, 'z) frame_ops_scheme \<Rightarrow> bytes \<Rightarrow> wal_error + (nat \<times> ('n, 's, 'g) wal_record) list"
where
  "decode_jsonl_wal_records ops bytes =
     (if \<not> utf8_valid bytes then Inl LegacyNotUtf8
      else decode_jsonl_lines ops 0 (lines_from [] (map (\<lambda>b. char_of (unat b)) bytes)))"

definition decode_wal_records ::
  "('n, 's, 'g, 'z) frame_ops_scheme \<Rightarrow> bytes \<Rightarrow> wal_error + (nat \<times> ('n, 's, 'g) wal_record) list"
where
  "decode_wal_records ops bytes =
     (if bytes = [] then Inr []
      else if starts_with bytes wal_frame_magic then decode_framed_wal_records ops bytes
      else decode_jsonl_wal_records ops bytes)"

text \<open>A path is what the file system has there: nothing, or a file's contents.\<close>

fun verify_decoded ::
  "('n, 's, 'g, 'z) frame_ops_scheme \<Rightarrow> (nat \<times> ('n, 's, 'g) wal_record) list \<Rightarrow>
     wal_error + ('n, 's, 'g) wal_record list" where
  "verify_decoded ops [] = Inr []"
| "verify_decoded ops ((index, r) # rest) =
     res_bind (lift_codec (verify_checksum ops r)) (\<lambda>status.
       case status of
         ChecksumBad expected \<Rightarrow>
           Inl (ChecksumMismatch index expected (case wr_checksum r of None \<Rightarrow> [] | Some c \<Rightarrow> c))
       | _ \<Rightarrow> res_bind (verify_decoded ops rest) (\<lambda>records. Inr (r # records)))"

definition read_records_file ::
  "('n, 's, 'g, 'z) frame_ops_scheme \<Rightarrow> bytes option \<Rightarrow> wal_error + ('n, 's, 'g) wal_record list"
where
  "read_records_file ops file =
     (case file of
        None \<Rightarrow> Inr []
      | Some bytes \<Rightarrow> res_bind (decode_wal_records ops bytes) (verify_decoded ops))"

text \<open>The legacy branch of the recovering reader: stop at the first bad checksum.\<close>

fun recover_legacy ::
  "('n, 's, 'g, 'z) frame_ops_scheme \<Rightarrow> string \<Rightarrow> ('n, 's, 'g) wal_record list \<Rightarrow>
     (nat \<times> ('n, 's, 'g) wal_record) list \<Rightarrow> wal_error + ('n, 's, 'g) recoverable_wal_records" where
  "recover_legacy ops path records [] = Inr \<lparr>rw_records = records, rw_quarantined = None\<rparr>"
| "recover_legacy ops path records ((index, r) # rest) =
     res_bind (lift_codec (verify_checksum ops r)) (\<lambda>status.
       case status of
         ChecksumBad expected \<Rightarrow>
           Inr \<lparr>rw_records = records,
                rw_quarantined = Some \<lparr>wq_path = path, wq_frame = index, wq_offset = 0,
                  wq_reason = ChecksumMismatch index expected
                    (case wr_checksum r of None \<Rightarrow> [] | Some c \<Rightarrow> c)\<rparr>\<rparr>
       | _ \<Rightarrow> recover_legacy ops path (records @ [r]) rest)"

definition read_recoverable_records_file ::
  "('n, 's, 'g, 'z) frame_ops_scheme \<Rightarrow> string \<Rightarrow> bytes option \<Rightarrow>
     wal_error + ('n, 's, 'g) recoverable_wal_records" where
  "read_recoverable_records_file ops path file =
     (case file of
        None \<Rightarrow> Inr \<lparr>rw_records = [], rw_quarantined = None\<rparr>
      | Some bytes \<Rightarrow>
          if bytes = [] then Inr \<lparr>rw_records = [], rw_quarantined = None\<rparr>
          else if starts_with bytes wal_frame_magic then
            Inr (decode_framed_wal_records_prefix ops path bytes)
          else
            res_bind (decode_jsonl_wal_records ops bytes) (recover_legacy ops path []))"

section \<open>One frame\<close>

text \<open>
  What both decoders do at an offset, as a function: the record there and the offset after
  it, or the failure. It is the common core of the two loops, and the lemmas about it are
  what the properties of both rest on.
\<close>

definition frame_at ::
  "('n, 's, 'g, 'z) frame_ops_scheme \<Rightarrow> bytes \<Rightarrow> nat \<Rightarrow> nat \<Rightarrow>
     wal_error + (('n, 's, 'g) wal_record \<times> nat)" where
  "frame_at ops bytes offset frame =
     (if length bytes - offset < wal_frame_header_len_v1 then Inl (TruncatedHeader frame)
      else if byte_slice bytes offset (offset + 4) \<noteq> wal_frame_magic then Inl (InvalidMagic frame)
      else
        let version = from_be16 (bytes ! (offset + 4)) (bytes ! (offset + 5)) in
        res_bind (wal_frame_header_len version) (\<lambda>header_len.
        if length bytes - offset < header_len then Inl (TruncatedHeader frame)
        else
          let encoding = from_be16 (bytes ! (offset + 6)) (bytes ! (offset + 7));
              len = wal_frame_len bytes offset
          in if len = 0 then Inl (EmptyPayload frame)
          else if wal_frame_max_bytes < len then Inl (OversizeFrame frame len)
          else
            let start = offset + header_len; stop = start + unat len in
            if length bytes < stop then Inl (TruncatedPayload frame)
            else
              res_bind (verify_wal_frame_crc32c ops bytes offset version (byte_slice bytes start stop))
                (\<lambda>_.
              res_bind (decode_wal_frame_payload ops encoding (byte_slice bytes start stop) frame)
                (\<lambda>r. Inr (r, stop)))))"

lemma decode_framed_from_step:
  "decode_framed_from ops bytes records offset frame =
     (if length bytes \<le> offset then Inr records
      else res_bind (frame_at ops bytes offset frame) (\<lambda>(r, stop).
        decode_framed_from ops bytes (records @ [(frame, r)]) stop (frame + 1)))"
  by (subst decode_framed_from.simps)
     (simp add: frame_at_def Let_def res_bind_def split: sum.split)

lemma wal_frame_header_len_Inl:
  "wal_frame_header_len version = Inl e \<Longrightarrow> e = UnsupportedVersion version"
  by (auto simp: wal_frame_header_len_def split: if_splits)

text \<open>What the recovering decoder makes of the checksum of a decoded record.\<close>

definition checked_record ::
  "('n, 's, 'g, 'z) frame_ops_scheme \<Rightarrow> nat \<Rightarrow> ('n, 's, 'g) wal_record \<Rightarrow> wal_error option" where
  "checked_record ops frame r =
     (case verify_checksum ops r of
        Inr (ChecksumBad expected) \<Rightarrow>
          Some (ChecksumMismatch frame expected (case wr_checksum r of None \<Rightarrow> [] | Some c \<Rightarrow> c))
      | Inl err \<Rightarrow> Some (CodecFailed err)
      | Inr _ \<Rightarrow> None)"

lemma decode_framed_prefix_from_step:
  "decode_framed_prefix_from ops path bytes records offset frame =
     (if length bytes \<le> offset then \<lparr>rw_records = records, rw_quarantined = None\<rparr>
      else case frame_at ops bytes offset frame of
        Inl err \<Rightarrow> quarantine_wal_prefix path records frame offset err
      | Inr (r, stop) \<Rightarrow>
          (case checked_record ops frame r of
             Some err \<Rightarrow> quarantine_wal_prefix path records frame offset err
           | None \<Rightarrow> decode_framed_prefix_from ops path bytes (records @ [r]) stop (frame + 1)))"
proof (cases "wal_frame_header_len (from_be16 (bytes ! (offset + 4)) (bytes ! (offset + 5)))")
  case (Inl e)
  then show ?thesis
    by (subst decode_framed_prefix_from.simps)
       (simp add: frame_at_def Let_def wal_frame_header_len_Inl [OF Inl])
next
  case (Inr h)
  let ?version = "from_be16 (bytes ! (offset + 4)) (bytes ! (offset + 5))"
  let ?encoding = "from_be16 (bytes ! (offset + 6)) (bytes ! (offset + 7))"
  let ?payload = "byte_slice bytes (offset + h) (offset + h + unat (wal_frame_len bytes offset))"
  have tail: "(case verify_checksum ops r of
        Inl err \<Rightarrow> quarantine_wal_prefix path records frame offset (CodecFailed err)
      | Inr ChecksumMissing \<Rightarrow> k | Inr ChecksumValid \<Rightarrow> k
      | Inr (ChecksumBad expected) \<Rightarrow> quarantine_wal_prefix path records frame offset
          (ChecksumMismatch frame expected (case wr_checksum r of None \<Rightarrow> [] | Some c \<Rightarrow> c)))
    = (case checked_record ops frame r of
        Some err \<Rightarrow> quarantine_wal_prefix path records frame offset err | None \<Rightarrow> k)" for r k
    by (simp add: checked_record_def split: sum.split checksum_status.split)
  show ?thesis
    by (subst decode_framed_prefix_from.simps,
        cases "verify_wal_frame_crc32c ops bytes offset ?version ?payload";
        cases "decode_wal_frame_payload ops ?encoding ?payload frame")
       (simp_all add: frame_at_def Let_def Inr tail)
qed

lemma frame_at_stop:
  "frame_at ops bytes offset frame = Inr (r, stop) \<Longrightarrow> offset < stop \<and> stop \<le> length bytes"
  by (auto simp: frame_at_def Let_def unat_gt_0 [symmetric] split: if_splits)

lemma byte_slice_append_left [simp]:
  "stop \<le> length xs \<Longrightarrow> byte_slice (xs @ ys) start stop = byte_slice xs start stop"
  by (cases "start \<le> length xs") (simp_all add: byte_slice_def)

lemma byte_slice_append_right [simp]:
  "byte_slice (xs @ ys) (length xs + start) (length xs + stop) = byte_slice ys start stop"
  by (simp add: byte_slice_def)

text \<open>A frame is read from its own bytes only.\<close>

lemma header_index:
  "wal_frame_header_len version = Inr h \<Longrightarrow> 12 \<le> h \<and> (version = wal_frame_version_v2 \<longrightarrow> h = 16)"
  by (auto simp: wal_frame_header_len_def wal_frame_constants split: if_splits)

lemma frame_at_append:
  assumes "frame_at ops bytes 0 frame = Inr (r, stop)"
  shows "frame_at ops (bytes @ rest) 0 frame = Inr (r, stop)"
proof -
  have "\<not> length bytes < 12" using assms
    by (auto simp: frame_at_def Let_def wal_frame_constants split: if_splits)
  then have nth: "k < 12 \<Longrightarrow> (bytes @ rest) ! k = bytes ! k" for k by (simp add: nth_append)
  have hdr: "from_be16 ((bytes @ rest) ! 4) ((bytes @ rest) ! 5) = from_be16 (bytes ! 4) (bytes ! 5)"
    "from_be16 ((bytes @ rest) ! 6) ((bytes @ rest) ! 7) = from_be16 (bytes ! 6) (bytes ! 7)"
    "wal_frame_len (bytes @ rest) 0 = wal_frame_len bytes 0"
    by (simp_all add: nth wal_frame_len_def)
  have crc: "verify_wal_frame_crc32c ops (bytes @ rest) 0 version payload
      = verify_wal_frame_crc32c ops bytes 0 version payload"
    if "wal_frame_header_len version = Inr h" "\<not> length bytes < h" for version h payload
  proof (cases "version = wal_frame_version_v2")
    case True
    then have "16 \<le> length bytes" using that header_index by fastforce
    then show ?thesis by (simp add: verify_wal_frame_crc32c_def nth_append)
  qed (simp add: verify_wal_frame_crc32c_def)
  obtain h where h: "wal_frame_header_len (from_be16 (bytes ! 4) (bytes ! 5)) = Inr h"
    and len: "\<not> length bytes < h" "\<not> length bytes < h + unat (wal_frame_len bytes 0)"
    using assms by (auto simp: frame_at_def Let_def split: if_splits)
  then have cut: "byte_slice (bytes @ rest) h (h + unat (wal_frame_len bytes 0))
      = byte_slice bytes h (h + unat (wal_frame_len bytes 0))"
    and magic: "byte_slice (bytes @ rest) 0 4 = byte_slice bytes 0 4"
    and long: "\<not> length bytes + length rest < 12" "\<not> length bytes + length rest < h"
      "\<not> length bytes + length rest < h + unat (wal_frame_len bytes 0)"
    using \<open>\<not> length bytes < 12\<close> by simp_all
  have "frame_at ops (bytes @ rest) 0 frame = frame_at ops bytes 0 frame"
    using \<open>\<not> length bytes < 12\<close> len long
    by (simp add: frame_at_def Let_def hdr crc [OF h len(1)] h cut magic
          wal_frame_header_len_v1_def)
  with assms show ?thesis by simp
qed

lemma frame_at_shift:
  "frame_at ops (pre @ bytes) (length pre) frame =
     (case frame_at ops bytes 0 frame of
        Inl e \<Rightarrow> Inl e | Inr (r, stop) \<Rightarrow> Inr (r, length pre + stop))"
proof -
  have nth: "(pre @ bytes) ! (length pre + k) = bytes ! k" for k by (simp add: nth_append)
  have crc: "verify_wal_frame_crc32c ops (pre @ bytes) (length pre) version payload
      = verify_wal_frame_crc32c ops bytes 0 version payload" for version payload
    by (simp add: verify_wal_frame_crc32c_def nth)
  have len: "wal_frame_len (pre @ bytes) (length pre) = wal_frame_len bytes 0"
    by (simp add: wal_frame_len_def nth)
  have cut: "byte_slice (pre @ bytes) (length pre) (length pre + stop) = byte_slice bytes 0 stop" for stop
    using byte_slice_append_right [of pre bytes 0 stop] by simp
  have cut': "byte_slice (pre @ bytes) (length pre + start) (length pre + start + n)
      = byte_slice bytes start (start + n)" for start n
    using byte_slice_append_right [of pre bytes start "start + n"] by (simp add: add.assoc)
  show ?thesis
    by (simp add: frame_at_def Let_def nth crc len cut cut' res_bind_def split: sum.split)
qed

section \<open>Frames written by the encoder\<close>

definition frame_bytes :: "('n, 's, 'g, 'z) frame_ops_scheme \<Rightarrow> bytes \<Rightarrow> bytes" where
  "frame_bytes ops payload =
     wal_frame_magic @ be16 wal_frame_version_v2 @ be16 wal_frame_encoding_postcard
       @ be32 (word_of_nat (length payload)) @ be32 (crc32c ops payload) @ payload"

lemma length_frame_bytes [simp]: "length (frame_bytes ops payload) = 16 + length payload"
  by (simp add: frame_bytes_def wal_frame_magic_def)

lemma frame_bytes_nonempty [simp]: "frame_bytes ops payload \<noteq> []"
  by (simp add: frame_bytes_def wal_frame_magic_def)

lemma frame_bytes_header:
  "frame_bytes ops payload ! 4 = 0" "frame_bytes ops payload ! 5 = 2"
  "frame_bytes ops payload ! 6 = 0" "frame_bytes ops payload ! 7 = 2"
  "wal_frame_len (frame_bytes ops payload) 0 = word_of_nat (length payload)"
  "byte_slice (frame_bytes ops payload) 0 4 = wal_frame_magic"
  "byte_slice (frame_bytes ops payload) 16 (16 + length payload) = payload"
  by (simp_all add: frame_bytes_def wal_frame_constants be16_def be32_def wal_frame_len_def
        from_be32_be32 byte_slice_def)

lemma frame_bytes_crc:
  "verify_wal_frame_crc32c ops (frame_bytes ops payload) 0 wal_frame_version_v2 payload = Inr ()"
  by (simp add: frame_bytes_def wal_frame_constants be16_def be32_def verify_wal_frame_crc32c_def
        from_be32_be32)

lemma frame_at_frame_bytes:
  assumes "payload \<noteq> []" "length payload \<le> unat wal_frame_max_bytes"
  shows "frame_at ops (frame_bytes ops payload) 0 frame =
    res_bind (decode_wal_frame_payload ops wal_frame_encoding_postcard payload frame)
      (\<lambda>r. Inr (r, 16 + length payload))"
proof -
  let ?b = "frame_bytes ops payload"
  have small: "length payload < 2 ^ 32"
    using assms(2) by (simp add: wal_frame_max_bytes_def)
  have unat_len: "unat (word_of_nat (length payload) :: u32) = length payload"
    using small by (simp add: unsigned_of_nat take_bit_nat_eq_self)
  then have "word_of_nat (length payload) \<noteq> (0 :: u32)"
    using assms(1) by (metis length_0_conv unat_0)
  moreover have "\<not> wal_frame_max_bytes < (word_of_nat (length payload) :: u32)"
    using assms(2) unat_len by (simp add: word_less_nat_alt)
  moreover have "from_be16 0 2 = wal_frame_version_v2" "from_be16 0 2 = wal_frame_encoding_postcard"
    by (simp_all add: from_be16_def wal_frame_constants)
  moreover have "wal_frame_header_len wal_frame_version_v2 = Inr 16"
    by (simp add: wal_frame_header_len_def wal_frame_constants)
  moreover have "wal_frame_header_len_v1 = 12" by (simp add: wal_frame_constants)
  ultimately show ?thesis
    using frame_bytes_crc [of ops payload]
    by (simp add: frame_at_def Let_def frame_bytes_header unat_len)
qed

section \<open>A log as a sequence of frames\<close>

text \<open>\<open>r\<close> is written as the signed record \<open>signed\<close>, in a frame with this payload.\<close>

definition written ::
  "('n, 's, 'g, 'z) frame_ops_scheme \<Rightarrow> ('n, 's, 'g) wal_record \<Rightarrow>
     ('n, 's, 'g) wal_record \<times> bytes \<Rightarrow> bool" where
  "written ops r sp \<longleftrightarrow>
     ensure_checksum ops r = Inr (fst sp)
   \<and> (\<exists>f. postcard_from_record ops (fst sp) = Inr f \<and> postcard_to_vec ops f = Some (snd sp))
   \<and> length (snd sp) \<le> unat wal_frame_max_bytes"

definition frames :: "('n, 's, 'g, 'z) frame_ops_scheme \<Rightarrow> (('n, 's, 'g) wal_record \<times> bytes) list \<Rightarrow> bytes"
where
  "frames ops sps = concat (map (\<lambda>sp. frame_bytes ops (snd sp)) sps)"

lemma frames_simps [simp]:
  "frames ops [] = []"
  "frames ops (sp # sps) = frame_bytes ops (snd sp) @ frames ops sps"
  by (simp_all add: frames_def)

lemma encode_frame_iff:
  "encode_wal_record_frame ops s encoded = Inr out \<longleftrightarrow>
     (\<exists>f p. postcard_from_record ops s = Inr f \<and> postcard_to_vec ops f = Some p
        \<and> length p \<le> unat wal_frame_max_bytes \<and> out = encoded @ frame_bytes ops p)"
  by (auto simp: encode_wal_record_frame_def frame_bytes_def split: option.splits if_splits)

lemma encode_loop_iff:
  "encode_wal_records_loop ops rs encoded = Inr out \<longleftrightarrow>
     (\<exists>sps. list_all2 (written ops) rs sps \<and> out = encoded @ frames ops sps)"
proof (induction rs arbitrary: encoded)
  case (Cons r rs)
  have one: "(if wr_checksum r \<noteq> None then encode_wal_record_frame ops r encoded
        else res_bind (lift_codec (ensure_checksum ops r)) (\<lambda>signed.
               encode_wal_record_frame ops signed encoded)) = Inr mid
      \<longleftrightarrow> (\<exists>sp. written ops r sp \<and> mid = encoded @ frame_bytes ops (snd sp))" for mid
    by (auto simp: ensure_checksum_def written_def encode_frame_iff)
  show ?case
    unfolding encode_wal_records_loop.simps res_bind_eq_Inr one Cons.IH list_all2_Cons1
    by (fastforce simp: frames_def)
qed auto

lemma encode_iff:
  "encode_wal_records ops rs = Inr out \<longleftrightarrow>
     (\<exists>sps. list_all2 (written ops) rs sps \<and> out = frames ops sps)"
  by (simp add: encode_wal_records_def encode_loop_iff)

lemma written_signed:
  "list_all2 (written ops) rs sps \<Longrightarrow> map_res (ensure_checksum ops) rs = Inr (map fst sps)"
  by (induction rs sps rule: list_all2_induct) (auto simp: written_def)

text \<open>A payload that reads back as the record it was written for.\<close>

definition reads_back ::
  "('n, 's, 'g, 'z) frame_ops_scheme \<Rightarrow> ('n, 's, 'g) wal_record \<times> bytes \<Rightarrow> bool" where
  "reads_back ops sp \<longleftrightarrow>
     snd sp \<noteq> [] \<and> length (snd sp) \<le> unat wal_frame_max_bytes
   \<and> (\<forall>frame. decode_wal_frame_payload ops wal_frame_encoding_postcard (snd sp) frame = Inr (fst sp))"

definition storable :: "('n, 's, 'g, 'z) frame_ops_scheme \<Rightarrow> ('n, 's, 'g) wal_record \<Rightarrow> bool" where
  "storable ops r \<longleftrightarrow> postcard_laws ops \<and> payload_ok ops (wr_payload r)"

lemma ensure_checksum_payload:
  "ensure_checksum ops r = Inr s \<Longrightarrow> wr_payload s = wr_payload r"
  by (auto simp: ensure_checksum_def refresh_checksum_def split: if_splits)

lemma written_reads_back:
  assumes "written ops r sp" "storable ops r"
  shows "reads_back ops sp"
proof -
  from assms(1) obtain f where f: "postcard_from_record ops (fst sp) = Inr f"
    "postcard_to_vec ops f = Some (snd sp)" and signed: "ensure_checksum ops r = Inr (fst sp)"
    and len: "length (snd sp) \<le> unat wal_frame_max_bytes"
    by (auto simp: written_def)
  from signed assms(2) have "payload_ok ops (wr_payload (fst sp))"
    by (simp add: storable_def ensure_checksum_payload)
  then have "postcard_into_record ops f = Inr (fst sp)"
    using frame_codec.dec_enc [of ops "fst sp"] f(1) by simp
  moreover have "postcard_from_bytes ops (snd sp) = Some f \<and> snd sp \<noteq> []"
    using assms(2) f(2) by (auto simp: storable_def postcard_laws_def)
  ultimately show ?thesis
    using len by (simp add: reads_back_def decode_wal_frame_payload_def wal_frame_constants)
qed

lemma frame_at_reads_back:
  "reads_back ops sp \<Longrightarrow>
     frame_at ops (pre @ frame_bytes ops (snd sp) @ rest) (length pre) frame
       = Inr (fst sp, length pre + 16 + length (snd sp))"
  by (simp add: frame_at_shift frame_at_append reads_back_def frame_at_frame_bytes add.assoc)

lemma frame_at_torn:
  assumes "reads_back ops sp" "n < length (frame_bytes ops (snd sp))"
  shows "\<exists>e. frame_at ops (take n (frame_bytes ops (snd sp))) 0 frame = Inl e"
proof (cases "frame_at ops (take n (frame_bytes ops (snd sp))) 0 frame")
  case (Inr x)
  obtain r stop where x: "x = (r, stop)" by (cases x)
  have "stop \<le> n" using frame_at_stop [OF Inr [unfolded x]] by simp
  have "frame_at ops (frame_bytes ops (snd sp)) 0 frame = Inr (r, stop)"
    using frame_at_append [OF Inr [unfolded x], of "drop n (frame_bytes ops (snd sp))"] by simp
  with frame_at_reads_back [OF assms(1), of "[]" "[]" frame]
  have "stop = 16 + length (snd sp)" by simp
  with \<open>stop \<le> n\<close> assms(2) show ?thesis by simp
qed simp

lemma decode_frames:
  assumes "\<forall>sp\<in>set sps. reads_back ops sp"
  shows "decode_framed_from ops (pre @ frames ops sps @ rest) records (length pre) frame =
    decode_framed_from ops (pre @ frames ops sps @ rest) (records @ enumerate frame (map fst sps))
      (length (pre @ frames ops sps)) (frame + length sps)"
  using assms
proof (induction sps arbitrary: pre records frame)
  case (Cons sp sps)
  have "frame_at ops (pre @ frames ops (sp # sps) @ rest) (length pre) frame
      = Inr (fst sp, length pre + 16 + length (snd sp))"
    using frame_at_reads_back [of ops sp pre "frames ops sps @ rest" frame] Cons.prems by simp
  then show ?case
    using Cons.IH [of "pre @ frame_bytes ops (snd sp)" "records @ [(frame, fst sp)]" "frame + 1"]
      Cons.prems
    by (subst decode_framed_from_step) (simp add: ac_simps)
qed simp

lemma decode_prefix_frames:
  assumes "\<forall>sp\<in>set sps. reads_back ops sp" "\<forall>sp\<in>set sps. \<forall>frame. checked_record ops frame (fst sp) = None"
  shows "decode_framed_prefix_from ops path (pre @ frames ops sps @ rest) records (length pre) frame =
    decode_framed_prefix_from ops path (pre @ frames ops sps @ rest) (records @ map fst sps)
      (length (pre @ frames ops sps)) (frame + length sps)"
  using assms
proof (induction sps arbitrary: pre records frame)
  case (Cons sp sps)
  have "frame_at ops (pre @ frames ops (sp # sps) @ rest) (length pre) frame
      = Inr (fst sp, length pre + 16 + length (snd sp))"
    using frame_at_reads_back [of ops sp pre "frames ops sps @ rest" frame] Cons.prems by simp
  then show ?case
    using Cons.IH [of "pre @ frame_bytes ops (snd sp)" "records @ [fst sp]" "frame + 1"] Cons.prems
    by (subst decode_framed_prefix_from_step) (simp add: ac_simps)
qed simp

text \<open>A record to append is sound if its checksum, when it has one, is the right one.\<close>

definition sound_checksum ::
  "('n, 's, 'g, 'z) frame_ops_scheme \<Rightarrow> ('n, 's, 'g) wal_record \<Rightarrow> bool" where
  "sound_checksum ops r \<longleftrightarrow> wr_checksum r = None \<or> verify_checksum ops r = Inr ChecksumValid"

section \<open>A concrete instance\<close>

text \<open>
  An instance of the parameters on which the hypotheses of the properties hold: integers as
  the numbers of JSON, a schema without content, and a serialiser for the records
  \<open>demo_record lsn\<close> with a small sequence number, one byte each. It serves the examples
  only.
\<close>

definition demo_frame :: "u64 \<Rightarrow> postcard_frame" where
  "demo_frame lsn =
     \<lparr>pf_lsn = lsn, pf_shard = 0, pf_shard_epoch = 1, pf_owner_node_id = ''node'',
      pf_timestamp_ms = 7, pf_schema_version = 1, pf_durability = Strict,
      pf_payload = PHostHttpCompleted ''req'' 5, pf_checksum = Some ''sha256:''\<rparr>"

definition demo_ops :: "(i64, unit, unit) frame_ops" where
  "demo_ops =
     \<lparr>as_i64 = Some, as_u64 = (\<lambda>_. None), as_f64 = (\<lambda>_. None), of_i64 = (\<lambda>i. i),
      of_u64 = (\<lambda>u. u), from_f64 = (\<lambda>_. None),
      material_to_vec = (\<lambda>_. Some []), sha256 = (\<lambda>_. []),
      schema_to_vec = (\<lambda>_. Some []), schema_from_slice = (\<lambda>_. Some ()),
      migration_to_vec = (\<lambda>_. Some []), migration_from_slice = (\<lambda>_. Some ()),
      postcard_to_vec = (\<lambda>f. if f = demo_frame (pf_lsn f) \<and> pf_lsn f < 256
         then Some [ucast (pf_lsn f)] else None),
      postcard_from_bytes = (\<lambda>b. if length b = 1 then Some (demo_frame (ucast (hd b))) else None),
      record_from_slice = (\<lambda>_. None), record_from_str = (\<lambda>_. None), crc32c = (\<lambda>_. 0)\<rparr>"

definition demo_record :: "u64 \<Rightarrow> (i64, unit, unit) wal_record" where
  "demo_record lsn =
     \<lparr>wr_lsn = lsn, wr_shard = 0, wr_shard_epoch = 1, wr_owner_node_id = ''node'',
      wr_timestamp_ms = 7, wr_schema_version = 1, wr_durability = Strict,
      wr_payload = HostHttpCompleted ''req'' 5, wr_checksum = None\<rparr>"

definition demo_log :: bytes where
  "demo_log = frame_bytes demo_ops [1] @ frame_bytes demo_ops [2]"

lemma demo_byte: "n < 256 \<Longrightarrow> ucast (ucast (n :: u64) :: u8) = n"
  by (simp add: word_unat_eq_iff unsigned_ucast_eq take_bit_eq_mod word_less_nat_alt unat_mod)

lemma demo_postcard: "postcard_laws demo_ops"
  by (auto simp: postcard_laws_def demo_ops_def demo_byte split: if_splits)

lemma demo_storable: "storable demo_ops (demo_record lsn)"
  by (simp add: storable_def demo_postcard payload_ok_def number_laws_def schema_laws_def
        demo_record_def) (simp add: demo_ops_def)

lemma demo_sound: "sound_checksum demo_ops (demo_record lsn)"
  by (simp add: sound_checksum_def demo_record_def)

lemma demo_encoded: "encode_wal_records demo_ops [demo_record 1, demo_record 2] = Inr demo_log"
  by (simp add: encode_wal_records_def demo_record_def ensure_checksum_def refresh_checksum_def
        compute_checksum_def encode_wal_record_frame_def postcard_from_record_def demo_log_def
        wal_frame_max_bytes_def frame_bytes_def)
     (simp add: demo_ops_def demo_frame_def wal_frame_max_bytes_def)

section \<open>What a log file gives back\<close>

lemma written_all_read_back:
  "list_all2 (written ops) rs sps \<Longrightarrow> \<forall>r\<in>set rs. storable ops r \<Longrightarrow>
     \<forall>sp\<in>set sps. reads_back ops sp"
  by (induction rs sps rule: list_all2_induct) (auto intro: written_reads_back)

lemma written_checked:
  assumes "list_all2 (written ops) rs sps" "\<forall>r\<in>set rs. sound_checksum ops r"
  shows "\<forall>sp\<in>set sps. \<forall>frame. checked_record ops frame (fst sp) = None"
  using assms
proof (induction rs sps rule: list_all2_induct)
  case (Cons r rs sp sps)
  have "verify_checksum ops (fst sp) = Inr ChecksumValid"
  proof (cases "wr_checksum r = None")
    case True
    then have "refresh_checksum ops r = Inr (fst sp)"
      using Cons.hyps(1) by (simp add: written_def ensure_checksum_def)
    then show ?thesis by (rule refresh_verifies)
  next
    case False
    then show ?thesis
      using Cons by (auto simp: written_def ensure_checksum_def sound_checksum_def)
  qed
  then show ?case using Cons by (simp add: checked_record_def)
qed simp

lemma frames_start: "sps \<noteq> [] \<Longrightarrow> starts_with (frames ops sps @ rest) wal_frame_magic"
  by (cases sps) (simp_all add: frame_bytes_def starts_with_prefix)

lemma decode_framed_empty_tail:
  "decode_framed_from ops bytes records (length bytes) frame = Inr records"
  by (subst decode_framed_from_step) simp

lemma decode_encoded:
  assumes "\<forall>r\<in>set rs. storable ops r"
    and "encode_wal_records ops rs = Inr bytes"
  shows "\<exists>signed. map_res (ensure_checksum ops) rs = Inr signed
    \<and> decode_wal_records ops bytes = Inr (enumerate 1 signed)"
proof -
  from assms(2) obtain sps where sps: "list_all2 (written ops) rs sps" "bytes = frames ops sps"
    by (auto simp: encode_iff)
  have good: "\<forall>sp\<in>set sps. reads_back ops sp"
    using written_all_read_back [OF sps(1)] assms(1) by blast
  have "decode_framed_wal_records ops (frames ops sps) = Inr (enumerate 1 (map fst sps))"
    using decode_frames [OF good, of "[]" "[]" "[]" 1]
    by (simp add: decode_framed_wal_records_def decode_framed_empty_tail)
  moreover have "starts_with (frames ops sps) wal_frame_magic \<and> frames ops sps \<noteq> []"
    if "sps \<noteq> []"
    using frames_start [OF that, of ops "[]"] that by (cases sps) simp_all
  ultimately have "decode_wal_records ops bytes = Inr (enumerate 1 (map fst sps))"
    by (cases "sps = []") (simp_all add: decode_wal_records_def sps(2))
  then show ?thesis using written_signed [OF sps(1)] by blast
qed

lemma decode_torn:
  assumes good: "\<forall>sp\<in>set sps. reads_back ops sp" and sp: "reads_back ops sp"
    and m: "0 < m" "m < length (frame_bytes ops (snd sp))"
  shows "\<exists>e. decode_framed_wal_records ops (frames ops sps @ take m (frame_bytes ops (snd sp))) = Inl e"
proof -
  let ?torn = "take m (frame_bytes ops (snd sp))"
  have run: "decode_framed_wal_records ops (frames ops sps @ ?torn)
      = decode_framed_from ops (frames ops sps @ ?torn) (enumerate 1 (map fst sps))
          (length (frames ops sps)) (1 + length sps)"
    using decode_frames [OF good, of "[]" ?torn "[]" 1] by (simp add: decode_framed_wal_records_def)
  obtain e where "frame_at ops ?torn 0 (1 + length sps) = Inl e"
    using frame_at_torn [OF sp m(2)] by blast
  then have "frame_at ops (frames ops sps @ ?torn) (length (frames ops sps)) (1 + length sps) = Inl e"
    unfolding frame_at_shift by simp
  then show ?thesis
    unfolding run using m by (subst decode_framed_from_step) simp
qed

text \<open>
  C38. What is appended to the log is what is read from it: if a batch of records is encoded,
  the strict decoder returns exactly those records, numbered from 1, each with the checksum
  it was stored with (computed at encoding time where it had none).
\<close>

theorem wal_encode_decode_roundtrip:
  assumes "\<forall>r\<in>set rs. storable ops r"
    and "encode_wal_records ops rs = Inr bytes"
  shows "\<exists>signed. map_res (ensure_checksum ops) rs = Inr signed
    \<and> decode_wal_records ops bytes = Inr (enumerate 1 signed)"
  using assms by (rule decode_encoded)

theorem wal_encode_decode_roundtrip_witness:
  "\<exists>signed. map_res (ensure_checksum demo_ops) [demo_record 1, demo_record 2] = Inr signed
    \<and> decode_wal_records demo_ops demo_log = Inr (enumerate 1 signed)"
  by (rule wal_encode_decode_roundtrip) (simp_all add: demo_storable demo_encoded)

text \<open>Cutting a log at any byte cuts the sequence of its frames inside at most one of them.\<close>

lemma take_frames:
  assumes "n < length (frames ops sps)"
  shows "\<exists>k m. k < length sps \<and> m < length (frame_bytes ops (snd (sps ! k)))
    \<and> n = length (frames ops (take k sps)) + m
    \<and> take n (frames ops sps) = frames ops (take k sps) @ take m (frame_bytes ops (snd (sps ! k)))"
  using assms
proof (induction sps arbitrary: n)
  case (Cons sp sps)
  let ?f = "frame_bytes ops (snd sp)"
  show ?case
  proof (cases "n < length ?f")
    case True
    then show ?thesis by (intro exI [of _ 0] exI [of _ n]) simp
  next
    case False
    then have "n - length ?f < length (frames ops sps)" using Cons.prems by simp
    from Cons.IH [OF this] obtain k m where k: "k < length sps"
      "m < length (frame_bytes ops (snd (sps ! k)))"
      "n - length ?f = length (frames ops (take k sps)) + m"
      "take (n - length ?f) (frames ops sps)
        = frames ops (take k sps) @ take m (frame_bytes ops (snd (sps ! k)))"
      by blast
    then show ?thesis using False
      by (intro exI [of _ "Suc k"] exI [of _ m]) (simp add: algebra_simps)
  qed
qed simp

lemma recover_torn:
  assumes good: "\<forall>sp\<in>set sps. reads_back ops sp"
    and checked: "\<forall>sp\<in>set sps. \<forall>frame. checked_record ops frame (fst sp) = None"
    and n: "n \<le> length (frames ops sps)"
  shows "\<exists>k\<le>length sps. length (frames ops (take k sps)) \<le> n
    \<and> (k < length sps \<longrightarrow> n < length (frames ops (take (Suc k) sps)))
    \<and> rw_records (decode_framed_wal_records_prefix ops path (take n (frames ops sps)))
        = take k (map fst sps)
    \<and> (rw_quarantined (decode_framed_wal_records_prefix ops path (take n (frames ops sps))) = None
        \<longleftrightarrow> n = length (frames ops (take k sps)))"
proof (cases "n < length (frames ops sps)")
  case True
  from take_frames [OF this] obtain k m where k: "k < length sps"
    and m: "m < length (frame_bytes ops (snd (sps ! k)))"
    and n: "n = length (frames ops (take k sps)) + m"
    and cut: "take n (frames ops sps)
      = frames ops (take k sps) @ take m (frame_bytes ops (snd (sps ! k)))"
    by blast
  let ?pre = "frames ops (take k sps)" and ?torn = "take m (frame_bytes ops (snd (sps ! k)))"
  have sub: "\<forall>sp\<in>set (take k sps). reads_back ops sp"
    "\<forall>sp\<in>set (take k sps). \<forall>frame. checked_record ops frame (fst sp) = None"
    using good checked by (meson in_set_takeD)+
  have run: "decode_framed_wal_records_prefix ops path (?pre @ ?torn)
      = decode_framed_prefix_from ops path (?pre @ ?torn) (map fst (take k sps)) (length ?pre)
          (1 + length (take k sps))"
    using decode_prefix_frames [OF sub, of path "[]" ?torn "[]" 1]
    by (simp add: decode_framed_wal_records_prefix_def)
  obtain e where e: "frame_at ops ?torn 0 (1 + length (take k sps)) = Inl e"
    using frame_at_torn [of ops "sps ! k" m] good k m nth_mem by blast
  have "take (Suc k) sps = take k sps @ [sps ! k]" using k by (simp add: take_Suc_conv_app_nth)
  then have above: "n < length (frames ops (take (Suc k) sps))"
    using m n by (simp add: frames_def)
  have "rw_records (decode_framed_wal_records_prefix ops path (?pre @ ?torn))
        = take k (map fst sps)
      \<and> (rw_quarantined (decode_framed_wal_records_prefix ops path (?pre @ ?torn)) = None
          \<longleftrightarrow> m = 0)"
    unfolding run using e m
    by (subst (1 2) decode_framed_prefix_from_step)
       (simp add: frame_at_shift quarantine_wal_prefix_def take_map)
  then show ?thesis
    unfolding cut using k n above by (intro exI [of _ k]) auto
next
  case False
  then have "decode_framed_wal_records_prefix ops path (take n (frames ops sps))
      = decode_framed_prefix_from ops path (frames ops sps) (map fst sps)
          (length (frames ops sps)) (1 + length sps)"
    using decode_prefix_frames [OF good checked, of path "[]" "[]" "[]" 1]
    by (simp add: decode_framed_wal_records_prefix_def)
  then show ?thesis
    using False n
    by (intro exI [of _ "length sps"]) (simp add: decode_framed_prefix_from_step)
qed

lemma list_all2_take: "list_all2 P xs ys \<Longrightarrow> list_all2 P (take k xs) (take k ys)"
  by (simp add: list_all2_conv_all_nth)

text \<open>
  C10. A crash in the middle of an append loses only the records whose frames were not
  completely written: recovering any prefix of an encoded log returns the first \<open>k\<close> records,
  where \<open>k\<close> is the number of frames that fit into the prefix, and reports a quarantine
  exactly when the cut is not at a frame boundary.
\<close>

theorem wal_torn_write_recovery:
  assumes "\<forall>r\<in>set rs. storable ops r \<and> sound_checksum ops r"
    and "encode_wal_records ops rs = Inr bytes"
    and "n \<le> length bytes"
  shows "\<exists>k signed kept. k \<le> length rs \<and> map_res (ensure_checksum ops) rs = Inr signed
    \<and> encode_wal_records ops (take k rs) = Inr kept \<and> length kept \<le> n
    \<and> (\<forall>longer. k < length rs \<and> encode_wal_records ops (take (Suc k) rs) = Inr longer
         \<longrightarrow> n < length longer)
    \<and> rw_records (decode_framed_wal_records_prefix ops path (take n bytes)) = take k signed
    \<and> (rw_quarantined (decode_framed_wal_records_prefix ops path (take n bytes)) = None
         \<longleftrightarrow> n = length kept)"
proof -
  from assms(2) obtain sps where sps: "list_all2 (written ops) rs sps" "bytes = frames ops sps"
    by (auto simp: encode_iff)
  have len: "length rs = length sps" using sps(1) by (rule list_all2_lengthD)
  have good: "\<forall>sp\<in>set sps. reads_back ops sp"
    using written_all_read_back [OF sps(1)] assms(1) by blast
  have checked: "\<forall>sp\<in>set sps. \<forall>frame. checked_record ops frame (fst sp) = None"
    using written_checked [OF sps(1)] assms(1) by blast
  have enc: "encode_wal_records ops (take j rs) = Inr (frames ops (take j sps))" for j
    using list_all2_take [OF sps(1)] by (auto simp: encode_iff)
  from recover_torn [OF good checked, of n path] assms(3) sps(2) obtain k where
    "k \<le> length sps" "length (frames ops (take k sps)) \<le> n"
    "k < length sps \<longrightarrow> n < length (frames ops (take (Suc k) sps))"
    "rw_records (decode_framed_wal_records_prefix ops path (take n bytes)) = take k (map fst sps)"
    "rw_quarantined (decode_framed_wal_records_prefix ops path (take n bytes)) = None
      \<longleftrightarrow> n = length (frames ops (take k sps))"
    by auto
  then show ?thesis
    using enc len written_signed [OF sps(1)]
    by (intro exI [of _ k] exI [of _ "map fst sps"] exI [of _ "frames ops (take k sps)"]) simp
qed

theorem wal_torn_write_recovery_witness:
  "\<exists>k signed kept. k \<le> length [demo_record 1, demo_record 2]
    \<and> map_res (ensure_checksum demo_ops) [demo_record 1, demo_record 2] = Inr signed
    \<and> encode_wal_records demo_ops (take k [demo_record 1, demo_record 2]) = Inr kept
    \<and> length kept \<le> 20
    \<and> (\<forall>longer. k < length [demo_record 1, demo_record 2]
         \<and> encode_wal_records demo_ops (take (Suc k) [demo_record 1, demo_record 2]) = Inr longer
         \<longrightarrow> 20 < length longer)
    \<and> rw_records (decode_framed_wal_records_prefix demo_ops ''wal'' (take 20 demo_log))
        = take k signed
    \<and> (rw_quarantined (decode_framed_wal_records_prefix demo_ops ''wal'' (take 20 demo_log)) = None
         \<longleftrightarrow> 20 = length kept)"
  by (rule wal_torn_write_recovery)
     (simp_all only: demo_encoded, simp_all add: demo_storable demo_sound demo_log_def)

section \<open>The two decoders\<close>

lemma decode_framed_acc:
  "decode_framed_from ops bytes records offset frame =
     (case decode_framed_from ops bytes [] offset frame of
        Inl e \<Rightarrow> Inl e | Inr out \<Rightarrow> Inr (records @ out))"
proof (induction "length bytes - offset" arbitrary: records offset frame rule: less_induct)
  case less
  show ?case
  proof (cases "length bytes \<le> offset")
    case False
    show ?thesis
    proof (cases "frame_at ops bytes offset frame")
      case (Inr x)
      obtain r stop where x: "x = (r, stop)" by (cases x)
      have dec: "length bytes - stop < length bytes - offset"
        using frame_at_stop [OF Inr [unfolded x]] by linarith
      show ?thesis
        using less [OF dec, of "records @ [(frame, r)]" "frame + 1"]
          less [OF dec, of "[(frame, r)]" "frame + 1"] False Inr x
        by (subst (1 2) decode_framed_from_step) (auto split: sum.split)
    qed (use False in \<open>subst (1 2) decode_framed_from_step, simp\<close>)
  qed (subst (1 2) decode_framed_from_step, simp)
qed

lemma decode_prefix_acc:
  "decode_framed_prefix_from ops path bytes records offset frame =
     (let p = decode_framed_prefix_from ops path bytes [] offset frame
      in p\<lparr>rw_records := records @ rw_records p\<rparr>)"
proof (induction "length bytes - offset" arbitrary: records offset frame rule: less_induct)
  case less
  show ?case
  proof (cases "length bytes \<le> offset")
    case False
    show ?thesis
    proof (cases "frame_at ops bytes offset frame")
      case (Inl e)
      then show ?thesis using False
        by (subst (1 2) decode_framed_prefix_from_step) (simp add: quarantine_wal_prefix_def)
    next
      case (Inr x)
      obtain r stop where x: "x = (r, stop)" by (cases x)
      have dec: "length bytes - stop < length bytes - offset"
        using frame_at_stop [OF Inr [unfolded x]] by linarith
      show ?thesis
      proof (cases "checked_record ops frame r")
        case None
        then show ?thesis
          using less [OF dec, of "records @ [r]" "frame + 1"] less [OF dec, of "[r]" "frame + 1"]
            False Inr x
          by (subst (1 2) decode_framed_prefix_from_step) (simp add: Let_def)
      next
        case (Some err)
        then show ?thesis using False Inr x
          by (subst (1 2) decode_framed_prefix_from_step) (simp add: quarantine_wal_prefix_def)
      qed
    qed
  qed (subst (1 2) decode_framed_prefix_from_step, simp)
qed

lemma prefix_strict_agree:
  "rw_quarantined (decode_framed_prefix_from ops path bytes [] offset frame) = None
     \<and> rw_records (decode_framed_prefix_from ops path bytes [] offset frame) = rs
   \<longleftrightarrow> (\<exists>out. decode_framed_from ops bytes [] offset frame = Inr out \<and> map snd out = rs
        \<and> (\<forall>(k, r)\<in>set out. checked_record ops k r = None))"
proof (induction "length bytes - offset" arbitrary: offset frame rs rule: less_induct)
  case less
  show ?case
  proof (cases "length bytes \<le> offset")
    case True
    then show ?thesis
      by (subst (1 2) decode_framed_prefix_from_step, subst decode_framed_from_step) auto
  next
    case False
    show ?thesis
    proof (cases "frame_at ops bytes offset frame")
      case (Inl e)
      with False show ?thesis
        by (subst (1 2) decode_framed_prefix_from_step, subst decode_framed_from_step)
           (simp add: quarantine_wal_prefix_def)
    next
      case (Inr x)
      obtain r stop where x: "x = (r, stop)" by (cases x)
      have dec: "length bytes - stop < length bytes - offset"
        using frame_at_stop [OF Inr [unfolded x]] by linarith
      let ?P = "decode_framed_prefix_from ops path bytes [] stop (frame + 1)"
      let ?D = "decode_framed_from ops bytes [] stop (frame + 1)"
      have strict: "decode_framed_from ops bytes [] offset frame
          = (case ?D of Inl e \<Rightarrow> Inl e | Inr out \<Rightarrow> Inr ((frame, r) # out))"
        using False Inr x decode_framed_acc [of ops bytes "[(frame, r)]" stop "frame + 1"]
        by (subst decode_framed_from_step) (simp split: sum.split)
      have lossy: "decode_framed_prefix_from ops path bytes [] offset frame
          = (case checked_record ops frame r of
               Some err \<Rightarrow> quarantine_wal_prefix path [] frame offset err
             | None \<Rightarrow> ?P\<lparr>rw_records := r # rw_records ?P\<rparr>)"
        using False Inr x decode_prefix_acc [of ops path bytes "[r]" stop "frame + 1"]
        by (subst decode_framed_prefix_from_step) (simp add: Let_def split: option.split)
      show ?thesis
        using less [OF dec, of "frame + 1" "tl rs"]
        by (cases "checked_record ops frame r"; cases ?D; cases rs)
           (auto simp: strict lossy quarantine_wal_prefix_def)
    qed
  qed
qed

text \<open>
  The strict and the recovering decoder, two separate loops of the source, agree: recovery
  ends without a quarantine exactly when the strict decoder accepts the bytes and every
  record's checksum is valid or absent, and then both return the same records.
\<close>

theorem wal_decoders_agree:
  "rw_quarantined (decode_framed_wal_records_prefix ops path bytes) = None
     \<and> rw_records (decode_framed_wal_records_prefix ops path bytes) = rs
   \<longleftrightarrow> (\<exists>out. decode_framed_wal_records ops bytes = Inr out \<and> map snd out = rs
        \<and> list_all (\<lambda>r. verify_checksum ops r \<in> {Inr ChecksumMissing, Inr ChecksumValid}) rs)"
proof -
  have "checked_record ops k r = None \<longleftrightarrow>
      verify_checksum ops r \<in> {Inr ChecksumMissing, Inr ChecksumValid}" for k r
    by (auto simp: checked_record_def split: sum.splits checksum_status.splits)
  then show ?thesis
    unfolding decode_framed_wal_records_prefix_def decode_framed_wal_records_def
      prefix_strict_agree list_all_iff by (auto simp: case_prod_beta)
qed

text \<open>Whatever the bytes, recovery hands out only records that were checked.\<close>

lemma recovered_checked:
  "r \<in> set (rw_records (decode_framed_prefix_from ops path bytes records offset frame)) \<Longrightarrow>
     r \<in> set records \<or> verify_checksum ops r \<in> {Inr ChecksumMissing, Inr ChecksumValid}"
proof (induction "length bytes - offset" arbitrary: records offset frame rule: less_induct)
  case less
  show ?case
  proof (cases "length bytes \<le> offset")
    case True
    then show ?thesis using less.prems by (subst (asm) decode_framed_prefix_from_step) simp
  next
    case False
    show ?thesis
    proof (cases "frame_at ops bytes offset frame")
      case (Inl e)
      then show ?thesis using less.prems False
        by (subst (asm) decode_framed_prefix_from_step) (simp add: quarantine_wal_prefix_def)
    next
      case (Inr x)
      obtain q stop where x: "x = (q, stop)" by (cases x)
      have dec: "length bytes - stop < length bytes - offset"
        using frame_at_stop [OF Inr [unfolded x]] by linarith
      show ?thesis
        using less.prems False Inr x less.hyps [OF dec, of "records @ [q]" "frame + 1"]
        by (subst (asm) decode_framed_prefix_from_step)
           (auto simp: quarantine_wal_prefix_def checked_record_def
              split: sum.splits checksum_status.splits)
    qed
  qed
qed

lemma recover_intact:
  assumes "\<forall>r\<in>set rs. storable ops r \<and> sound_checksum ops r"
    and "encode_wal_records ops rs = Inr bytes"
  shows "\<exists>signed rest. map_res (ensure_checksum ops) rs = Inr signed
    \<and> rw_records (decode_framed_wal_records_prefix ops path (bytes @ junk)) = signed @ rest
    \<and> (\<forall>r\<in>set (signed @ rest).
         verify_checksum ops r \<in> {Inr ChecksumMissing, Inr ChecksumValid})"
proof -
  from assms(2) obtain sps where sps: "list_all2 (written ops) rs sps" "bytes = frames ops sps"
    by (auto simp: encode_iff)
  have good: "\<forall>sp\<in>set sps. reads_back ops sp"
    using written_all_read_back [OF sps(1)] assms(1) by blast
  have checked: "\<forall>sp\<in>set sps. \<forall>frame. checked_record ops frame (fst sp) = None"
    using written_checked [OF sps(1)] assms(1) by blast
  let ?rest = "decode_framed_prefix_from ops path (bytes @ junk) [] (length bytes) (1 + length sps)"
  have run: "rw_records (decode_framed_wal_records_prefix ops path (bytes @ junk))
      = map fst sps @ rw_records ?rest"
    using decode_prefix_frames [OF good checked, of path "[]" junk "[]" 1]
      decode_prefix_acc [of ops path "bytes @ junk" "map fst sps" "length bytes" "1 + length sps"]
    by (simp add: decode_framed_wal_records_prefix_def sps(2) Let_def)
  show ?thesis
  proof (intro exI conjI)
    show "map_res (ensure_checksum ops) rs = Inr (map fst sps)" using sps(1) by (rule written_signed)
    show "\<forall>r\<in>set (map fst sps @ rw_records ?rest).
        verify_checksum ops r \<in> {Inr ChecksumMissing, Inr ChecksumValid}"
      unfolding run [symmetric] decode_framed_wal_records_prefix_def
      using recovered_checked by fastforce
  qed (rule run)
qed

text \<open>
  Damage after an intact log never costs a record of it: whatever bytes follow the frames
  of a batch, recovery returns every record of the batch first, and anything it returns
  beyond them has a valid or absent checksum.
\<close>

theorem wal_recovery_keeps_intact_log:
  assumes "\<forall>r\<in>set rs. storable ops r \<and> sound_checksum ops r"
    and "encode_wal_records ops rs = Inr bytes"
  shows "\<exists>signed rest. map_res (ensure_checksum ops) rs = Inr signed
    \<and> rw_records (decode_framed_wal_records_prefix ops path (bytes @ junk)) = signed @ rest
    \<and> (\<forall>r\<in>set (signed @ rest).
         verify_checksum ops r \<in> {Inr ChecksumMissing, Inr ChecksumValid})"
  using assms by (rule recover_intact)

theorem wal_recovery_keeps_intact_log_witness:
  "\<exists>signed rest. map_res (ensure_checksum demo_ops) [demo_record 1, demo_record 2] = Inr signed
    \<and> rw_records (decode_framed_wal_records_prefix demo_ops ''wal'' (demo_log @ [0x4E, 0x44, 0]))
        = signed @ rest
    \<and> (\<forall>r\<in>set (signed @ rest).
         verify_checksum demo_ops r \<in> {Inr ChecksumMissing, Inr ChecksumValid})"
  by (rule wal_recovery_keeps_intact_log) (simp_all add: demo_storable demo_sound demo_encoded)

end
