(* ===== verification/Wal_Remote.thy ===== *)
theory Wal_Remote
  imports Wal_Frame "HOL-Library.Multiset"
begin

text \<open>
  Remote replication of a log shard (\<open>wal.rs\<close>): the acknowledgement policies, the loop that
  waits for acknowledgements, the per-replica status and the repair of replicas that are
  behind.

  The HTTP exchange is outside the model: the reply of each replica is a parameter, and so
  is the order in which the spawned tasks report. A task that is not waited for still runs
  to its end, so its status update is part of the new status.
\<close>

section \<open>Policies\<close>

datatype ack_policy = AckAll | AckQuorum | AckNone | AckCount nat

fun required_remote_acks :: "ack_policy \<Rightarrow> nat \<Rightarrow> nat" where
  "required_remote_acks AckAll replica_count = replica_count"
| "required_remote_acks AckNone replica_count = 0"
| "required_remote_acks (AckCount n) replica_count = min n replica_count"
| "required_remote_acks AckQuorum replica_count =
     (let total_voters = replica_count + 1;
          quorum = total_voters div 2 + 1
      in min (quorum - 1) replica_count)"

lemma required_remote_acks_le: "required_remote_acks policy n \<le> n"
  by (cases policy) (simp_all add: Let_def)

text \<open>The endpoint of a replica: its URL without trailing slashes, and the path once.\<close>

definition replicate_path :: string where
  "replicate_path = ''/v1/admin/wal/replicate''"

definition trim_end_slashes :: "string \<Rightarrow> string" where
  "trim_end_slashes url = rev (dropWhile (\<lambda>c. c = CHR ''/'') (rev url))"

definition remote_replication_endpoint :: "string \<Rightarrow> string" where
  "remote_replication_endpoint url =
     (let trimmed = trim_end_slashes url
      in if ends_with trimmed replicate_path then trimmed else trimmed @ replicate_path)"

lemma trim_end_slashes_id:
  "s \<noteq> [] \<Longrightarrow> last s \<noteq> CHR ''/'' \<Longrightarrow> trim_end_slashes s = s"
  by (cases s rule: rev_cases) (simp_all add: trim_end_slashes_def)

lemma endpoint_idem:
  "remote_replication_endpoint (remote_replication_endpoint url) = remote_replication_endpoint url"
proof -
  let ?e = "remote_replication_endpoint url"
  have "suffix replicate_path ?e"
    by (simp add: remote_replication_endpoint_def Let_def ends_with_suffix suffix_def)
  then obtain pre where e: "?e = pre @ replicate_path" by (auto elim: suffixE)
  have "trim_end_slashes ?e = ?e"
    by (rule trim_end_slashes_id) (simp_all add: e replicate_path_def)
  then have "remote_replication_endpoint (pre @ replicate_path) = pre @ replicate_path"
    unfolding e by (simp add: remote_replication_endpoint_def Let_def ends_with_suffix suffix_def)
  then show ?thesis by (simp add: e)
qed

section \<open>Status\<close>

record remote_replica =
  rr_url :: string
  rr_token :: "string option"

record remote_replica_status =
  rs_url :: string
  rs_ok :: bool
  rs_highest_acked_lsn :: u64
  rs_last_attempt_ms :: "u64 option"
  rs_last_success_ms :: "u64 option"
  rs_last_error_ms :: "u64 option"
  rs_last_error :: "string option"
  rs_acked_batches :: u64
  rs_failed_batches :: u64

record writer_status =
  ws_shard :: usize
  ws_batch_max :: nat
  ws_batch_wait_ms :: u64
  ws_local_batches :: u64
  ws_local_failed_batches :: u64
  ws_local_records :: u64
  ws_local_bytes :: u64
  ws_local_syncs :: u64
  ws_local_total_write_ms :: u64
  ws_local_total_sync_ms :: u64
  ws_local_last_batch_records :: nat
  ws_local_last_batch_bytes :: nat
  ws_local_last_batch_sync :: bool
  ws_local_last_batch_started_at_ms :: "u64 option"
  ws_local_last_batch_finished_at_ms :: "u64 option"
  ws_local_last_batch_write_ms :: u64
  ws_local_last_batch_sync_ms :: u64
  ws_remote_ack_policy :: ack_policy
  ws_remote_required_acks :: nat
  ws_remote_replica_count :: nat
  ws_remote_replicas :: "remote_replica_status list"

definition fresh_replica_status :: "string \<Rightarrow> remote_replica_status" where
  "fresh_replica_status endpoint =
     \<lparr>rs_url = endpoint, rs_ok = True, rs_highest_acked_lsn = 0, rs_last_attempt_ms = None,
      rs_last_success_ms = None, rs_last_error_ms = None, rs_last_error = None,
      rs_acked_batches = 0, rs_failed_batches = 0\<rparr>"

text \<open>The status with which \<open>WalWriter::spawn\<close> starts a shard.\<close>

definition initial_writer_status ::
  "usize \<Rightarrow> nat \<Rightarrow> u64 \<Rightarrow> remote_replica list \<Rightarrow> ack_policy \<Rightarrow> writer_status" where
  "initial_writer_status shard batch_max batch_wait_ms replicas policy =
     \<lparr>ws_shard = shard, ws_batch_max = batch_max, ws_batch_wait_ms = batch_wait_ms,
      ws_local_batches = 0, ws_local_failed_batches = 0, ws_local_records = 0,
      ws_local_bytes = 0, ws_local_syncs = 0, ws_local_total_write_ms = 0,
      ws_local_total_sync_ms = 0, ws_local_last_batch_records = 0,
      ws_local_last_batch_bytes = 0, ws_local_last_batch_sync = False,
      ws_local_last_batch_started_at_ms = None, ws_local_last_batch_finished_at_ms = None,
      ws_local_last_batch_write_ms = 0, ws_local_last_batch_sync_ms = 0,
      ws_remote_ack_policy = policy,
      ws_remote_required_acks = required_remote_acks policy (length replicas),
      ws_remote_replica_count = length replicas,
      ws_remote_replicas = map (\<lambda>replica.
        fresh_replica_status (remote_replication_endpoint (rr_url replica))) replicas\<rparr>"

text \<open>\<open>get_mut(index)\<close>: an index past the end changes nothing.\<close>

definition update_replica ::
  "nat \<Rightarrow> (remote_replica_status \<Rightarrow> remote_replica_status) \<Rightarrow> writer_status \<Rightarrow> writer_status" where
  "update_replica index f status =
     (if index < length (ws_remote_replicas status)
      then status\<lparr>ws_remote_replicas :=
             (ws_remote_replicas status)[index := f (ws_remote_replicas status ! index)]\<rparr>
      else status)"

definition note_remote_attempt :: "u64 \<Rightarrow> nat \<Rightarrow> string \<Rightarrow> writer_status \<Rightarrow> writer_status" where
  "note_remote_attempt now index endpoint =
     update_replica index (\<lambda>r. r\<lparr>rs_url := endpoint, rs_last_attempt_ms := Some now\<rparr>)"

definition note_remote_success ::
  "u64 \<Rightarrow> nat \<Rightarrow> string \<Rightarrow> u64 \<Rightarrow> writer_status \<Rightarrow> writer_status" where
  "note_remote_success now index endpoint highest_lsn =
     update_replica index (\<lambda>r. r\<lparr>rs_url := endpoint, rs_ok := True,
       rs_highest_acked_lsn := max (rs_highest_acked_lsn r) highest_lsn,
       rs_last_success_ms := Some now, rs_last_error := None,
       rs_acked_batches := rs_acked_batches r + 1\<rparr>)"

definition note_remote_failure ::
  "u64 \<Rightarrow> nat \<Rightarrow> string \<Rightarrow> string \<Rightarrow> writer_status \<Rightarrow> writer_status" where
  "note_remote_failure now index endpoint error =
     update_replica index (\<lambda>r. r\<lparr>rs_url := endpoint, rs_ok := False,
       rs_last_error_ms := Some now, rs_last_error := Some error,
       rs_failed_batches := rs_failed_batches r + 1\<rparr>)"

definition note_local_append_success ::
  "nat \<Rightarrow> nat \<Rightarrow> bool \<Rightarrow> u64 \<Rightarrow> u64 \<Rightarrow> u64 \<Rightarrow> u64 \<Rightarrow> writer_status \<Rightarrow> writer_status" where
  "note_local_append_success records bytes sync started_at_ms write_ms sync_ms now status =
     status\<lparr>ws_local_batches := ws_local_batches status + 1,
       ws_local_records := ws_local_records status + word_of_nat records,
       ws_local_bytes := ws_local_bytes status + word_of_nat bytes,
       ws_local_syncs := ws_local_syncs status + (if sync then 1 else 0),
       ws_local_total_write_ms := sat_add (ws_local_total_write_ms status) write_ms,
       ws_local_total_sync_ms := sat_add (ws_local_total_sync_ms status) sync_ms,
       ws_local_last_batch_records := records,
       ws_local_last_batch_bytes := bytes,
       ws_local_last_batch_sync := sync,
       ws_local_last_batch_started_at_ms := Some started_at_ms,
       ws_local_last_batch_finished_at_ms := Some now,
       ws_local_last_batch_write_ms := write_ms,
       ws_local_last_batch_sync_ms := sync_ms\<rparr>"

definition note_local_append_failure :: "writer_status \<Rightarrow> writer_status" where
  "note_local_append_failure status =
     status\<lparr>ws_local_failed_batches := ws_local_failed_batches status + 1\<rparr>"

definition reset_remote_status ::
  "remote_replica list \<Rightarrow> ack_policy \<Rightarrow> writer_status \<Rightarrow> writer_status" where
  "reset_remote_status replicas policy status =
     (let previous = bt_collect (map (\<lambda>r. (rs_url r, r)) (ws_remote_replicas status));
          remote_replicas = map (\<lambda>replica.
            let endpoint = remote_replication_endpoint (rr_url replica)
            in case bt_get previous endpoint of
                 Some r \<Rightarrow> r | None \<Rightarrow> fresh_replica_status endpoint) replicas
      in status\<lparr>ws_remote_ack_policy := policy,
           ws_remote_required_acks := required_remote_acks policy (length remote_replicas),
           ws_remote_replica_count := length remote_replicas,
           ws_remote_replicas := remote_replicas\<rparr>)"

section \<open>One request\<close>

datatype remote_reply =
    SendFailed string
  | Rejected nat string
  | Undecodable string
  | Accepted nat

datatype remote_error =
    RemoteSend string
  | RemoteRejected nat string
  | RemoteDecode string
  | RemoteBadCount
  | RemoteAcksMissing ack_policy nat nat "(string \<times> string) list"

text \<open>How an error is shown in a status; the text itself does not matter to the model.\<close>

fun remote_error_text :: "remote_error \<Rightarrow> string" where
  "remote_error_text (RemoteSend m) = m"
| "remote_error_text (RemoteRejected _ body) = body"
| "remote_error_text (RemoteDecode m) = m"
| "remote_error_text RemoteBadCount = ''remote WAL replica returned an invalid accepted count''"
| "remote_error_text (RemoteAcksMissing _ _ _ _) = ''remote WAL ack policy''"

fun replicate_one_remote :: "remote_reply \<Rightarrow> nat \<Rightarrow> remote_error + unit" where
  "replicate_one_remote (SendFailed m) record_count = Inl (RemoteSend m)"
| "replicate_one_remote (Rejected code body) record_count = Inl (RemoteRejected code body)"
| "replicate_one_remote (Undecodable m) record_count = Inl (RemoteDecode m)"
| "replicate_one_remote (Accepted accepted) record_count =
     (if record_count < accepted then Inl RemoteBadCount else Inr ())"

section \<open>Waiting for acknowledgements\<close>

text \<open>The loop over the channel on which the tasks report, in the order of arrival.\<close>

fun ack_loop ::
  "ack_policy \<Rightarrow> nat \<Rightarrow> nat \<Rightarrow> nat \<Rightarrow> nat \<Rightarrow> (string \<times> string) list \<Rightarrow>
     (string \<times> (remote_error + unit)) list \<Rightarrow> remote_error + unit" where
  "ack_loop policy required replica_count acked completed errors [] =
     Inl (RemoteAcksMissing policy required acked errors)"
| "ack_loop policy required replica_count acked completed errors ((endpoint, result) # rest) =
     (let completed = completed + 1 in
      case result of
        Inr _ \<Rightarrow>
          if required \<le> acked + 1 then Inr ()
          else if acked + 1 + (replica_count - completed) < required
          then Inl (RemoteAcksMissing policy required (acked + 1) errors)
          else ack_loop policy required replica_count (acked + 1) completed errors rest
      | Inl err \<Rightarrow>
          let errors = errors @ [(endpoint, remote_error_text err)] in
          if acked + (replica_count - completed) < required
          then Inl (RemoteAcksMissing policy required acked errors)
          else ack_loop policy required replica_count acked completed errors rest)"

text \<open>
  \<open>order\<close> lists the replicas in the order in which their tasks report and \<open>reply i\<close> is what
  replica \<open>i\<close> answers.
\<close>

definition replicate_remote_records ::
  "u64 \<Rightarrow> nat list \<Rightarrow> (nat \<Rightarrow> remote_reply) \<Rightarrow> remote_replica list \<Rightarrow> ack_policy \<Rightarrow>
     ('n, 's, 'g) wal_record list \<Rightarrow> writer_status \<Rightarrow> (remote_error + unit) \<times> writer_status" where
  "replicate_remote_records now order reply replicas policy records status =
     (if replicas = [] \<or> records = [] then (Inr (), status)
      else
        let required = required_remote_acks policy (length replicas);
            highest_lsn = wr_lsn (last records);
            record_count = length records;
            endpoint = (\<lambda>i. remote_replication_endpoint (rr_url (replicas ! i)));
            attempted = fold (\<lambda>i. note_remote_attempt now i (endpoint i))
              [0..<length replicas] status;
            result = (\<lambda>i. replicate_one_remote (reply i) record_count);
            noted = fold (\<lambda>i. case result i of
                Inr _ \<Rightarrow> note_remote_success now i (endpoint i) highest_lsn
              | Inl err \<Rightarrow> note_remote_failure now i (endpoint i) (remote_error_text err))
              order attempted
        in (if required = 0 then Inr ()
            else ack_loop policy required (length replicas) 0 0 []
              (map (\<lambda>i. (endpoint i, result i)) order),
            noted))"

section \<open>Acknowledgements\<close>

lemma ack_loop_iff:
  assumes "acked + errs = completed" "completed + length arrivals = replica_count"
    and "acked < required"
  shows "ack_loop policy required replica_count acked completed errors arrivals = Inr () \<longleftrightarrow>
    required \<le> acked + length (filter (\<lambda>a. \<not> isl (snd a)) arrivals)"
  using assms
proof (induction arrivals arbitrary: acked errs completed errors)
  case (Cons a arrivals)
  obtain endpoint result where a: "a = (endpoint, result)" by (cases a)
  have bound: "length (filter (\<lambda>a. \<not> isl (snd a)) arrivals) \<le> replica_count - (completed + 1)"
  proof -
    have "replica_count - (completed + 1) = length arrivals" using Cons.prems(2) by simp
    then show ?thesis by simp
  qed
  show ?case
  proof (cases result)
    case (Inl err)
    then show ?thesis
      using Cons.IH [of acked "errs + 1" "completed + 1"
          "errors @ [(endpoint, remote_error_text err)]"] Cons.prems bound
      by (simp add: a Let_def) linarith
  next
    case (Inr u)
    then show ?thesis
      using Cons.IH [of "acked + 1" errs "completed + 1" errors] Cons.prems bound
      by (simp add: a Let_def) linarith
  qed
qed simp

lemma length_filter_permutation:
  assumes "mset xs = mset ys"
  shows "length (filter P xs) = length (filter P ys)"
  by (metis assms mset_filter size_mset)

text \<open>
  C34. A segment counts as replicated exactly when enough replicas accepted it: whatever the
  order in which the replicas answer, the wait ends in success if and only if the number of
  accepting replicas reaches what the policy requires. In particular the early exit on
  \<open>acked + remaining < required\<close> never gives up a segment that would still be acknowledged.
\<close>

theorem replication_acknowledged_iff:
  assumes "replicas \<noteq> []" "records \<noteq> []"
    and "mset order = mset [0..<length replicas]"
  shows "fst (replicate_remote_records now order reply replicas policy records status) = Inr ()
    \<longleftrightarrow> required_remote_acks policy (length replicas)
          \<le> card {i. i < length replicas
               \<and> replicate_one_remote (reply i) (length records) = Inr ()}"
proof -
  let ?ok = "\<lambda>i. \<not> isl (replicate_one_remote (reply i) (length records))"
  have len: "length order = length replicas"
    using assms(3) by (metis length_upt minus_nat.diff_0 size_mset)
  have ok: "?ok i \<longleftrightarrow> replicate_one_remote (reply i) (length records) = Inr ()" for i
    by (cases "replicate_one_remote (reply i) (length records)") auto
  have "length (filter ?ok order) = length (filter ?ok [0..<length replicas])"
    by (rule length_filter_permutation [OF assms(3)])
  also have "\<dots> = card {i. i < length replicas \<and> ?ok i}"
    by (simp add: length_filter_conv_card cong: conj_cong)
  finally have count: "length (filter ?ok order)
      = card {i. i < length replicas \<and> replicate_one_remote (reply i) (length records) = Inr ()}"
    unfolding ok .
  show ?thesis
  proof (cases "required_remote_acks policy (length replicas) = 0")
    case True
    with assms(1,2) show ?thesis by (simp add: replicate_remote_records_def Let_def)
  next
    case False
    then show ?thesis
      using assms(1,2) ack_loop_iff [of 0 0 0 _ "length replicas"
          "required_remote_acks policy (length replicas)" policy "[]"] count
      by (simp add: replicate_remote_records_def Let_def filter_map comp_def len)
  qed
qed

definition demo_replicas :: "remote_replica list" where
  "demo_replicas =
     [\<lparr>rr_url = ''http://a'', rr_token = None\<rparr>, \<lparr>rr_url = ''http://b/'', rr_token = None\<rparr>]"

theorem replication_acknowledged_iff_witness:
  "fst (replicate_remote_records 0 [1, 0] (\<lambda>i. if i = 0 then Accepted 1 else SendFailed ''x'')
      demo_replicas AckQuorum [demo_record 1]
      (initial_writer_status 0 1 0 demo_replicas AckQuorum)) = Inr ()
    \<longleftrightarrow> required_remote_acks AckQuorum (length demo_replicas)
          \<le> card {i. i < length demo_replicas
               \<and> replicate_one_remote (if i = 0 then Accepted 1 else SendFailed ''x'')
                   (length [demo_record 1]) = Inr ()}"
  by (rule replication_acknowledged_iff) (simp_all add: demo_replicas_def upt_rec)

text \<open>
  The quorum policy makes a majority of the voters (the shard's own log and its
  replicas) hold every acknowledged segment, so any two acknowledged segments share a voter,
  and no more replicas than exist are ever required.
\<close>

theorem quorum_is_majority:
  "2 * (required_remote_acks AckQuorum n + 1) > n + 1
   \<and> (\<forall>policy. required_remote_acks policy n \<le> n)
   \<and> required_remote_acks AckQuorum n \<le> required_remote_acks AckAll n"
  using required_remote_acks_le [of _ n] by (auto simp: Let_def min_def)

section \<open>Repair\<close>

record repair_replica_report =
  rp_url :: string
  rp_ok :: bool
  rp_before_acked_lsn :: u64
  rp_after_acked_lsn :: u64
  rp_sent :: nat
  rp_error :: "string option"

record repair_report =
  rr_shard :: usize
  rr_remote_ack_policy :: ack_policy
  rr_remote_required_acks :: nat
  rr_remote_replica_count :: nat
  rr_repaired_replicas :: nat
  rr_records_sent :: nat
  rr_highest_lsn :: u64
  rr_satisfied :: bool
  rr_replicas :: "repair_replica_report list"

text \<open>From where replica \<open>index\<close> is repaired, and the records it is sent.\<close>

definition repair_before_acked ::
  "remote_replica_status list \<Rightarrow> nat \<Rightarrow> string \<Rightarrow> u64" where
  "repair_before_acked starting index endpoint =
     (if index < length starting \<and> rs_url (starting ! index) = endpoint
      then rs_highest_acked_lsn (starting ! index) else 0)"

definition repair_missing ::
  "u64 option \<Rightarrow> u64 \<Rightarrow> usize \<Rightarrow> ('n, 's, 'g) wal_record list \<Rightarrow> ('n, 's, 'g) wal_record list" where
  "repair_missing after_lsn before_acked_lsn shard records =
     (let start_lsn = (case after_lsn of Some lsn \<Rightarrow> lsn | None \<Rightarrow> before_acked_lsn)
      in filter (\<lambda>r. wr_shard r = shard \<and> start_lsn < wr_lsn r) records)"

definition repair_one ::
  "u64 \<Rightarrow> u64 option \<Rightarrow> usize \<Rightarrow> ('n, 's, 'g) wal_record list \<Rightarrow> remote_replica_status list \<Rightarrow>
     (nat \<Rightarrow> remote_reply) \<Rightarrow> nat \<times> remote_replica \<Rightarrow>
     nat \<times> nat \<times> repair_replica_report list \<times> writer_status \<Rightarrow>
     nat \<times> nat \<times> repair_replica_report list \<times> writer_status" where
  "repair_one now after_lsn shard records starting reply ir acc =
     (case (ir, acc) of ((index, replica), (repaired, sent, reports, status)) \<Rightarrow>
       let endpoint = remote_replication_endpoint (rr_url replica);
           before_acked_lsn = repair_before_acked starting index endpoint;
           missing = repair_missing after_lsn before_acked_lsn shard records
       in if missing = [] then
            (repaired + 1, sent,
             reports @ [\<lparr>rp_url = endpoint, rp_ok = True, rp_before_acked_lsn = before_acked_lsn,
               rp_after_acked_lsn = before_acked_lsn, rp_sent = 0, rp_error = None\<rparr>], status)
          else
            let status = note_remote_attempt now index endpoint status in
            (case replicate_one_remote (reply index) (length missing) of
               Inr _ \<Rightarrow>
                 let after_acked_lsn = wr_lsn (last missing) in
                 (repaired + 1, sent + length missing,
                  reports @ [\<lparr>rp_url = endpoint, rp_ok = True,
                    rp_before_acked_lsn = before_acked_lsn, rp_after_acked_lsn = after_acked_lsn,
                    rp_sent = length missing, rp_error = None\<rparr>],
                  note_remote_success now index endpoint after_acked_lsn status)
             | Inl err \<Rightarrow>
                 let message = remote_error_text err in
                 (repaired, sent,
                  reports @ [\<lparr>rp_url = endpoint, rp_ok = False,
                    rp_before_acked_lsn = before_acked_lsn, rp_after_acked_lsn = before_acked_lsn,
                    rp_sent = 0, rp_error = Some message\<rparr>],
                  note_remote_failure now index endpoint message status)))"

definition repair_remote_records ::
  "u64 \<Rightarrow> u64 option \<Rightarrow> usize \<Rightarrow> ('n, 's, 'g) wal_record list \<Rightarrow> remote_replica list \<Rightarrow> ack_policy \<Rightarrow>
     (nat \<Rightarrow> remote_reply) \<Rightarrow> writer_status \<Rightarrow> repair_report \<times> writer_status" where
  "repair_remote_records now after_lsn shard records replicas policy reply status =
     (let highest_lsn = Max (insert 0 (wr_lsn ` set records));
          required_acks = required_remote_acks policy (length replicas)
      in case fold (repair_one now after_lsn shard records (ws_remote_replicas status) reply)
               (enumerate 0 replicas) (0, 0, [], status) of
           (repaired, sent, reports, status') \<Rightarrow>
             (\<lparr>rr_shard = shard, rr_remote_ack_policy = policy,
               rr_remote_required_acks = required_acks,
               rr_remote_replica_count = length replicas, rr_repaired_replicas = repaired,
               rr_records_sent = sent, rr_highest_lsn = highest_lsn,
               rr_satisfied = (required_acks \<le> repaired), rr_replicas = reports\<rparr>, status'))"

lemma repair_fold:
  assumes "fold (repair_one now after_lsn shard records starting reply) irs
      (repaired, sent, reports, status) = (repaired', sent', reports', status')"
  shows "\<exists>rest. reports' = reports @ rest \<and> length rest = length irs
    \<and> repaired' = repaired + length (filter rp_ok rest)
    \<and> (\<forall>j<length irs. rp_url (rest ! j) = remote_replication_endpoint (rr_url (snd (irs ! j)))
        \<and> (let missing = repair_missing after_lsn
              (repair_before_acked starting (fst (irs ! j)) (rp_url (rest ! j))) shard records
           in rp_ok (rest ! j) \<longleftrightarrow> missing = []
             \<or> replicate_one_remote (reply (fst (irs ! j))) (length missing) = Inr ()))"
  using assms
proof (induction irs arbitrary: repaired sent reports status)
  case Nil
  then show ?case by simp
next
  case (Cons ir irs)
  obtain index replica where ir: "ir = (index, replica)" by (cases ir)
  obtain repaired1 sent1 reports1 status1 where
    one: "repair_one now after_lsn shard records starting reply ir (repaired, sent, reports, status)
      = (repaired1, sent1, reports1, status1)" by (metis prod_cases4)
  let ?endpoint = "remote_replication_endpoint (rr_url replica)"
  let ?missing = "repair_missing after_lsn (repair_before_acked starting index ?endpoint) shard records"
  define r where "r = last reports1"
  have r: "reports1 = reports @ [r]"
    "repaired1 = repaired + (if rp_ok r then 1 else 0)" "rp_url r = ?endpoint"
    "rp_ok r \<longleftrightarrow> ?missing = [] \<or> replicate_one_remote (reply index) (length ?missing) = Inr ()"
    using one by (auto simp: r_def repair_one_def ir Let_def split: if_splits sum.splits)
  from Cons.prems one have "fold (repair_one now after_lsn shard records starting reply) irs
      (repaired1, sent1, reports1, status1) = (repaired', sent', reports', status')" by simp
  from Cons.IH [OF this] obtain rest where rest: "reports' = reports1 @ rest"
    "length rest = length irs" "repaired' = repaired1 + length (filter rp_ok rest)"
    "\<forall>j<length irs. rp_url (rest ! j) = remote_replication_endpoint (rr_url (snd (irs ! j)))
        \<and> (let missing = repair_missing after_lsn
              (repair_before_acked starting (fst (irs ! j)) (rp_url (rest ! j))) shard records
           in rp_ok (rest ! j) \<longleftrightarrow> missing = []
             \<or> replicate_one_remote (reply (fst (irs ! j))) (length missing) = Inr ())"
    by blast
  show ?case
    using r rest by (intro exI [of _ "r # rest"]) (auto simp: ir nth_Cons' less_Suc_eq_0_disj)
qed

text \<open>
  C36. A full repair (from a given LSN) is honest: the report marks a replica as repaired only
  if there was nothing after that LSN to send it, or it accepted every record of the shard
  after that LSN; and \<open>satisfied\<close> says that the repaired replicas reach the policy.
\<close>

theorem repair_report_honest:
  assumes "repair_remote_records now (Some lsn) shard records replicas policy reply status
      = (report, status')"
  shows "length (rr_replicas report) = length replicas
    \<and> (\<forall>i<length replicas. rp_ok (rr_replicas report ! i) \<longleftrightarrow>
         (let missing = filter (\<lambda>r. wr_shard r = shard \<and> lsn < wr_lsn r) records
          in missing = [] \<or> replicate_one_remote (reply i) (length missing) = Inr ()))
    \<and> (rr_satisfied report \<longleftrightarrow>
         required_remote_acks policy (length replicas)
           \<le> length (filter rp_ok (rr_replicas report)))"
proof -
  obtain repaired sent reports status1 where
    run: "fold (repair_one now (Some lsn) shard records (ws_remote_replicas status) reply)
      (enumerate 0 replicas) (0, 0, [], status) = (repaired, sent, reports, status1)"
    by (metis prod_cases4)
  from assms have report: "rr_replicas report = reports"
    "rr_satisfied report \<longleftrightarrow> required_remote_acks policy (length replicas) \<le> repaired"
    by (auto simp: repair_remote_records_def run Let_def)
  from repair_fold [OF run] have all: "length reports = length replicas"
    "repaired = length (filter rp_ok reports)"
    "\<forall>j<length replicas. let missing = filter (\<lambda>r. wr_shard r = shard \<and> lsn < wr_lsn r) records
        in rp_ok (reports ! j) \<longleftrightarrow> missing = []
             \<or> replicate_one_remote (reply j) (length missing) = Inr ()"
    by (auto simp: repair_missing_def nth_enumerate_eq Let_def)
  then show ?thesis by (auto simp: report Let_def)
qed

theorem repair_report_honest_witness:
  "length (rr_replicas (fst (repair_remote_records 0 (Some 1) 0 [demo_record 1, demo_record 2]
      demo_replicas AckAll (\<lambda>i. if i = 0 then Accepted 1 else Accepted 9)
      (initial_writer_status 0 1 0 demo_replicas AckAll)))) = length demo_replicas"
  using repair_report_honest [OF surjective_pairing,
      of 0 1 0 "[demo_record 1, demo_record 2]" demo_replicas AckAll
        "\<lambda>i. if i = 0 then Accepted 1 else Accepted 9"
        "initial_writer_status 0 1 0 demo_replicas AckAll"]
  by blast

text \<open>
  Automatic repair (no explicit LSN) starts after the highest LSN a replica has
  acknowledged, and a later acknowledgement raises that mark past an earlier failed segment:
  if a replica misses one segment and accepts the next, automatic repair sends it nothing,
  and reports it as repaired and the policy as satisfied, although it lacks the first
  segment.
\<close>

theorem automatic_repair_skips_failed_segment:
  assumes "first \<noteq> []" "second \<noteq> []"
    and "\<forall>r\<in>set (first @ second). wr_lsn r \<le> wr_lsn (last second)"
    and "replicate_one_remote (refuse 0) (length first) \<noteq> Inr ()"
    and "replicate_one_remote (accept 0) (length second) = Inr ()"
    and "status1 = snd (replicate_remote_records t1 [0] refuse [replica] policy first
           (initial_writer_status shard batch_max wait [replica] policy))"
    and "status2 = snd (replicate_remote_records t2 [0] accept [replica] policy second status1)"
  shows "rr_records_sent (fst (repair_remote_records t3 None shard (first @ second) [replica]
      policy reply status2)) = 0
    \<and> rr_satisfied (fst (repair_remote_records t3 None shard (first @ second) [replica]
      policy reply status2))"
proof -
  let ?endpoint = "remote_replication_endpoint (rr_url replica)"
  obtain err where err: "replicate_one_remote (refuse 0) (length first) = Inl err"
    using assms(4) by (cases "replicate_one_remote (refuse 0) (length first)") auto
  have one: "length (ws_remote_replicas status1) = 1"
    using assms(1) err
    by (simp add: assms(6) replicate_remote_records_def Let_def initial_writer_status_def
          note_remote_attempt_def note_remote_failure_def update_replica_def)
  then obtain q where q: "ws_remote_replicas status1 = [q]"
    by (metis One_nat_def length_0_conv length_Suc_conv)
  have acked: "ws_remote_replicas status2 \<noteq> []" "rs_url (ws_remote_replicas status2 ! 0) = ?endpoint"
    "wr_lsn (last second) \<le> rs_highest_acked_lsn (ws_remote_replicas status2 ! 0)"
    using assms(2,5) q
    by (simp_all add: assms(7) replicate_remote_records_def Let_def note_remote_attempt_def
          note_remote_success_def update_replica_def)
  have "\<not> rs_highest_acked_lsn (ws_remote_replicas status2 ! 0) < wr_lsn r"
    if "r \<in> set (first @ second)" for r
    using acked(3) assms(3) that by (meson leD order_trans)
  then have "repair_missing None (repair_before_acked (ws_remote_replicas status2) 0 ?endpoint)
      shard (first @ second) = []"
    using acked(1,2) by (auto simp: repair_missing_def repair_before_acked_def filter_empty_conv)
  then have "repair_one t3 None shard (first @ second) (ws_remote_replicas status2) reply
      (0, replica) (0, 0, [], status2) = (1, 0, [\<lparr>rp_url = ?endpoint, rp_ok = True,
        rp_before_acked_lsn = repair_before_acked (ws_remote_replicas status2) 0 ?endpoint,
        rp_after_acked_lsn = repair_before_acked (ws_remote_replicas status2) 0 ?endpoint,
        rp_sent = 0, rp_error = None\<rparr>], status2)"
    by (simp add: repair_one_def Let_def)
  moreover have "required_remote_acks policy 1 \<le> 1" by (rule required_remote_acks_le)
  ultimately show ?thesis by (simp add: repair_remote_records_def Let_def)
qed

theorem automatic_repair_skips_failed_segment_witness:
  "rr_records_sent (fst (repair_remote_records 3 None 0 ([demo_record 1] @ [demo_record 2])
      [hd demo_replicas] AckNone (\<lambda>_. Accepted 0)
      (snd (replicate_remote_records 2 [0] (\<lambda>_. Accepted 1) [hd demo_replicas] AckNone
        [demo_record 2]
        (snd (replicate_remote_records 1 [0] (\<lambda>_. SendFailed ''down'') [hd demo_replicas] AckNone
          [demo_record 1] (initial_writer_status 0 1 0 [hd demo_replicas] AckNone))))))) = 0"
  by (rule automatic_repair_skips_failed_segment
      [of "[demo_record 1]" "[demo_record 2]" "\<lambda>_. SendFailed ''down''" "\<lambda>_. Accepted 1" _ 1
         "hd demo_replicas" AckNone 0 1 0 _ 2, THEN conjunct1])
     (simp_all add: demo_record_def)

end
