(* ===== verification/Wal_Writer.thy ===== *)
theory Wal_Writer
  imports Wal_Remote
begin

text \<open>
  The append path of a log shard (\<open>wal.rs\<close>): admission of a batch, the sorting and signing
  of its records, the split into a synced segment that ends with the last strict record and
  an unsynced rest, the write to the shard's file and its local replicas, and the
  acknowledgements.

  A file is its contents and the length up to which they are known to be on disk. What the
  operating system does is a parameter: \<open>io_write i\<close> is \<open>None\<close> when \<open>write_all\<close> on file \<open>i\<close>
  succeeds and \<open>Some k\<close> when it fails after \<open>k\<close> bytes, \<open>io_sync i\<close> tells whether
  \<open>sync_data\<close> succeeds; file 0 is the shard's own, file \<open>i + 1\<close> is replica \<open>i\<close>. A crash may
  keep any length of the contents that is at least the synced one.
\<close>

section \<open>Requests\<close>

record wal_writer_config =
  wc_batch_max :: nat
  wc_batch_wait_ms :: u64

definition wal_writer_config_new :: "nat \<Rightarrow> u64 \<Rightarrow> wal_writer_config" where
  "wal_writer_config_new batch_max batch_wait_ms =
     \<lparr>wc_batch_max = max batch_max 1, wc_batch_wait_ms = batch_wait_ms\<rparr>"

record ('n, 's, 'g) append_request =
  aq_lsn :: u64
  aq_shard_epoch :: u64
  aq_owner_node_id :: string
  aq_durability :: durability
  aq_schema_version :: u32
  aq_payload :: "('n, 's, 'g) wal_payload"

record ('n, 's, 'g) append_command =
  ac_lsn :: u64
  ac_shard_epoch :: u64
  ac_owner_node_id :: string
  ac_durability :: durability
  ac_schema_version :: u32
  ac_payload :: "('n, 's, 'g) wal_payload"
  ac_ack :: nat \<comment> \<open>the one-shot channel on which the caller waits\<close>

datatype append_error =
    VolatileInWal
  | ChecksumFailed codec_error
  | FileNotOpen
  | ReplicaNotOpen string
  | EncodeFailed wal_error
  | WriteFailed
  | ReplicaWriteFailed string
  | SyncFailed
  | ReplicaSyncFailed string
  | RemoteFailed remote_error

text \<open>\<open>enqueue_many\<close>: channels are numbered from \<open>next\<close>; nothing is sent on an error.\<close>

fun enqueue_many ::
  "nat \<Rightarrow> ('n, 's, 'g) append_request list \<Rightarrow> append_error + ('n, 's, 'g) append_command list"
where
  "enqueue_many ack [] = Inr []"
| "enqueue_many ack (q # qs) =
     (if aq_durability q = Volatile then Inl VolatileInWal
      else res_bind (enqueue_many (ack + 1) qs) (\<lambda>commands.
        Inr (\<lparr>ac_lsn = aq_lsn q, ac_shard_epoch = aq_shard_epoch q,
              ac_owner_node_id = aq_owner_node_id q, ac_durability = aq_durability q,
              ac_schema_version = aq_schema_version q, ac_payload = aq_payload q,
              ac_ack = ack\<rparr> # commands)))"

section \<open>Files\<close>

record open_file =
  of_path :: string
  of_open :: bool
  of_bytes :: bytes
  of_synced :: nat

record io_plan =
  io_write :: "nat \<Rightarrow> nat option"
  io_sync :: "nat \<Rightarrow> bool"
  io_write_ms :: u64
  io_sync_ms :: u64

definition write_all :: "io_plan \<Rightarrow> nat \<Rightarrow> bytes \<Rightarrow> open_file \<Rightarrow> bool \<times> open_file" where
  "write_all plan i encoded f =
     (case io_write plan i of
        None \<Rightarrow> (True, f\<lparr>of_bytes := of_bytes f @ encoded\<rparr>)
      | Some k \<Rightarrow> (False, f\<lparr>of_bytes := of_bytes f @ take k encoded\<rparr>))"

definition sync_data :: "io_plan \<Rightarrow> nat \<Rightarrow> open_file \<Rightarrow> bool \<times> open_file" where
  "sync_data plan i f =
     (if io_sync plan i then (True, f\<lparr>of_synced := length (of_bytes f)\<rparr>) else (False, f))"

fun write_replicas ::
  "io_plan \<Rightarrow> nat \<Rightarrow> bytes \<Rightarrow> open_file list \<Rightarrow> (append_error + unit) \<times> open_file list" where
  "write_replicas plan i encoded [] = (Inr (), [])"
| "write_replicas plan i encoded (f # fs) =
     (if \<not> of_open f then (Inl (ReplicaNotOpen (of_path f)), f # fs)
      else case write_all plan i encoded f of
        (False, f') \<Rightarrow> (Inl (ReplicaWriteFailed (of_path f)), f' # fs)
      | (True, f') \<Rightarrow>
          (case write_replicas plan (i + 1) encoded fs of (r, fs') \<Rightarrow> (r, f' # fs')))"

fun sync_replicas ::
  "io_plan \<Rightarrow> nat \<Rightarrow> open_file list \<Rightarrow> (append_error + unit) \<times> open_file list" where
  "sync_replicas plan i [] = (Inr (), [])"
| "sync_replicas plan i (f # fs) =
     (if \<not> of_open f then (Inl (ReplicaNotOpen (of_path f)), f # fs)
      else case sync_data plan i f of
        (False, f') \<Rightarrow> (Inl (ReplicaSyncFailed (of_path f)), f' # fs)
      | (True, f') \<Rightarrow>
          (case sync_replicas plan (i + 1) fs of (r, fs') \<Rightarrow> (r, f' # fs')))"

record local_write_report =
  lw_bytes :: nat
  lw_write_ms :: u64
  lw_sync_ms :: u64

definition write_records_to_open_files ::
  "('n, 's, 'g, 'z) frame_ops_scheme \<Rightarrow> io_plan \<Rightarrow> ('n, 's, 'g) wal_record list \<Rightarrow> bool \<Rightarrow>
     open_file \<Rightarrow> open_file list \<Rightarrow>
     (append_error + local_write_report) \<times> open_file \<times> open_file list" where
  "write_records_to_open_files ops plan records sync file replicas =
     (if \<not> of_open file then (Inl FileNotOpen, file, replicas)
      else case encode_wal_records ops records of
        Inl err \<Rightarrow> (Inl (EncodeFailed err), file, replicas)
      | Inr encoded \<Rightarrow>
      (case write_all plan 0 encoded file of
        (False, file) \<Rightarrow> (Inl WriteFailed, file, replicas)
      | (True, file) \<Rightarrow>
      (case write_replicas plan 1 encoded replicas of
        (Inl err, replicas) \<Rightarrow> (Inl err, file, replicas)
      | (Inr _, replicas) \<Rightarrow>
          if \<not> sync then
            (Inr \<lparr>lw_bytes = length encoded, lw_write_ms = io_write_ms plan, lw_sync_ms = 0\<rparr>,
             file, replicas)
          else case sync_data plan 0 file of
            (False, file) \<Rightarrow> (Inl SyncFailed, file, replicas)
          | (True, file) \<Rightarrow>
          (case sync_replicas plan 1 replicas of
            (Inl err, replicas) \<Rightarrow> (Inl err, file, replicas)
          | (Inr _, replicas) \<Rightarrow>
              (Inr \<lparr>lw_bytes = length encoded, lw_write_ms = io_write_ms plan,
                 lw_sync_ms = io_sync_ms plan\<rparr>, file, replicas)))))"

section \<open>A segment\<close>

record wal_state =
  st_file :: open_file
  st_replicas :: "open_file list"
  st_status :: writer_status
  st_remote_replicas :: "remote_replica list"
  st_policy :: ack_policy

text \<open>What the outside does during a segment: file I/O, remote replies, and the clock.\<close>

record segment_env =
  se_plan :: io_plan
  se_order :: "nat list"
  se_reply :: "nat \<Rightarrow> remote_reply"
  se_started_at :: u64
  se_now :: u64

definition append_wal_segment ::
  "('n, 's, 'g, 'z) frame_ops_scheme \<Rightarrow> segment_env \<Rightarrow> ('n, 's, 'g) wal_record list \<Rightarrow> bool \<Rightarrow>
     wal_state \<Rightarrow> (append_error + unit) \<times> wal_state" where
  "append_wal_segment ops env records sync st =
     (if records = [] then (Inr (), st)
      else case write_records_to_open_files ops (se_plan env) records sync (st_file st)
             (st_replicas st) of
        (Inl err, file, replicas) \<Rightarrow>
          (Inl err, st\<lparr>st_file := file, st_replicas := replicas,
             st_status := note_local_append_failure (st_status st)\<rparr>)
      | (Inr report, file, replicas) \<Rightarrow>
          let status = note_local_append_success (length records) (lw_bytes report) sync
                (se_started_at env) (lw_write_ms report) (lw_sync_ms report) (se_now env)
                (st_status st)
          in (case replicate_remote_records (se_now env) (se_order env) (se_reply env)
                     (st_remote_replicas st) (st_policy st) records status of
                (result, status') \<Rightarrow>
                  (case result of Inl e \<Rightarrow> Inl (RemoteFailed e) | Inr _ \<Rightarrow> Inr (),
                   st\<lparr>st_file := file, st_replicas := replicas, st_status := status'\<rparr>)))"

section \<open>A batch\<close>

definition strict_prefix_end :: "('n, 's, 'g) wal_record list \<Rightarrow> nat option" where
  "strict_prefix_end records =
     (case rev (filter (\<lambda>i. wr_durability (records ! i) = Strict) [0..<length records]) of
        [] \<Rightarrow> None
      | i # _ \<Rightarrow> Some (i + 1))"

definition commands_sorted_by_lsn :: "('n, 's, 'g) append_command list \<Rightarrow> bool" where
  "commands_sorted_by_lsn commands \<longleftrightarrow>
     list_all (\<lambda>i. ac_lsn (commands ! i) \<le> ac_lsn (commands ! (i + 1)))
       [0..<length commands - 1]"

text \<open>The record made of a command; \<open>clock i\<close> is \<open>now_ms()\<close> in round \<open>i\<close> of the loop.\<close>

definition record_of_command ::
  "usize \<Rightarrow> u64 \<Rightarrow> ('n, 's, 'g) append_command \<Rightarrow> ('n, 's, 'g) wal_record" where
  "record_of_command shard now c =
     \<lparr>wr_lsn = ac_lsn c, wr_shard = shard, wr_shard_epoch = ac_shard_epoch c,
      wr_owner_node_id = ac_owner_node_id c, wr_timestamp_ms = now,
      wr_schema_version = ac_schema_version c, wr_durability = ac_durability c,
      wr_payload = ac_payload c, wr_checksum = None\<rparr>"

type_synonym ('n, 's, 'g) ack_result = "nat \<times> (append_error + ('n, 's, 'g) wal_record)"

definition fail_wal_acks :: "nat list \<Rightarrow> append_error \<Rightarrow> ('n, 's, 'g) ack_result list" where
  "fail_wal_acks acks err = map (\<lambda>ack. (ack, Inl err)) acks"

definition succeed_wal_acks ::
  "nat list \<Rightarrow> ('n, 's, 'g) wal_record list \<Rightarrow> ('n, 's, 'g) ack_result list" where
  "succeed_wal_acks acks records = map (\<lambda>(ack, r). (ack, Inr r)) (zip acks records)"

fun build_records ::
  "('n, 's, 'g, 'z) frame_ops_scheme \<Rightarrow> usize \<Rightarrow> (nat \<Rightarrow> u64) \<Rightarrow> nat \<Rightarrow>
     ('n, 's, 'g) wal_record list \<Rightarrow> nat list \<Rightarrow> bool \<Rightarrow> ('n, 's, 'g) append_command list \<Rightarrow>
     ('n, 's, 'g) ack_result list + ('n, 's, 'g) wal_record list \<times> nat list \<times> bool" where
  "build_records ops shard clock i records acks strict [] = Inr (records, acks, strict)"
| "build_records ops shard clock i records acks strict (c # commands) =
     (let strict = (strict \<or> ac_durability c = Strict) in
      case refresh_checksum ops (record_of_command shard (clock i) c) of
        Inl err \<Rightarrow>
          Inl (fail_wal_acks (ac_ack c # acks @ map ac_ack commands) (ChecksumFailed err))
      | Inr r \<Rightarrow>
          build_records ops shard clock (i + 1) (records @ [r]) (acks @ [ac_ack c]) strict commands)"

definition handle_appends ::
  "('n, 's, 'g, 'z) frame_ops_scheme \<Rightarrow> usize \<Rightarrow> (nat \<Rightarrow> u64) \<Rightarrow> segment_env \<Rightarrow> segment_env \<Rightarrow>
     ('n, 's, 'g) append_command list \<Rightarrow> wal_state \<Rightarrow> ('n, 's, 'g) ack_result list \<times> wal_state"
where
  "handle_appends ops shard clock env1 env2 commands st =
     (let commands = (if commands_sorted_by_lsn commands then commands
                      else sort_key ac_lsn commands) in
      case build_records ops shard clock 0 [] [] False commands of
        Inl failed \<Rightarrow> (failed, st)
      | Inr (records, acks, strict) \<Rightarrow>
      (case strict_prefix_end records of
         Some stop \<Rightarrow>
           (case append_wal_segment ops env1 (take stop records) True st of
              (Inl err, st) \<Rightarrow> (fail_wal_acks acks err, st)
            | (Inr _, st) \<Rightarrow>
                let acknowledged = succeed_wal_acks (take stop acks) (take stop records);
                    records = drop stop records; acks = drop stop acks
                in if records = [] then (acknowledged, st)
                   else (case append_wal_segment ops env2 records False st of
                           (Inr _, st) \<Rightarrow> (acknowledged @ succeed_wal_acks acks records, st)
                         | (Inl err, st) \<Rightarrow> (acknowledged @ fail_wal_acks acks err, st)))
       | None \<Rightarrow>
           if records = [] then ([], st)
           else (case append_wal_segment ops env2 records strict st of
                   (Inr _, st) \<Rightarrow> (succeed_wal_acks acks records, st)
                 | (Inl err, st) \<Rightarrow> (fail_wal_acks acks err, st))))"

section \<open>Facts about the parts\<close>

lemma write_all_bytes:
  "write_all plan i data f = (ok, f') \<Longrightarrow>
     \<exists>t. of_bytes f' = of_bytes f @ t \<and> (ok \<longrightarrow> t = data) \<and> of_synced f' = of_synced f"
  by (auto simp: write_all_def split: option.splits)

lemma write_records_result:
  assumes "write_records_to_open_files ops plan records sync file replicas = (result, file', replicas')"
  shows "\<exists>t. of_bytes file' = of_bytes file @ t
    \<and> (of_synced file' = of_synced file \<or> of_synced file' = length (of_bytes file'))
    \<and> (\<forall>report. result = Inr report \<longrightarrow> encode_wal_records ops records = Inr t
         \<and> (sync \<longrightarrow> of_synced file' = length (of_bytes file')))"
  using assms unfolding write_records_to_open_files_def
  by (auto simp: sync_data_def dest!: write_all_bytes
      split: if_splits sum.splits prod.splits bool.splits)

lemma append_wal_segment_result:
  assumes "append_wal_segment ops env records sync st = (result, st')"
    and "of_synced (st_file st) \<le> length (of_bytes (st_file st))"
  shows "\<exists>t. of_bytes (st_file st') = of_bytes (st_file st) @ t
    \<and> of_synced (st_file st) \<le> of_synced (st_file st')
    \<and> of_synced (st_file st') \<le> length (of_bytes (st_file st'))
    \<and> (result = Inr () \<longrightarrow> encode_wal_records ops records = Inr t
         \<and> (sync \<and> records \<noteq> [] \<longrightarrow> of_synced (st_file st') = length (of_bytes (st_file st'))))"
proof (cases "records = []")
  case True
  then show ?thesis using assms by (auto simp: append_wal_segment_def encode_wal_records_def)
next
  case False
  obtain r f fs where w: "write_records_to_open_files ops (se_plan env) records sync
      (st_file st) (st_replicas st) = (r, f, fs)" by (metis prod_cases3)
  from write_records_result [OF w] obtain t where t: "of_bytes f = of_bytes (st_file st) @ t"
    "of_synced f = of_synced (st_file st) \<or> of_synced f = length (of_bytes f)"
    "\<forall>report. r = Inr report \<longrightarrow> encode_wal_records ops records = Inr t
         \<and> (sync \<longrightarrow> of_synced f = length (of_bytes f))" by blast
  show ?thesis
    using assms False t
    by (cases r) (auto simp: append_wal_segment_def w Let_def split: prod.splits sum.splits)
qed

lemma build_records_Inr:
  "build_records ops shard clock i records acks strict commands = Inr (rs, as, s) \<Longrightarrow>
     \<exists>new. rs = records @ new \<and> as = acks @ map ac_ack commands
       \<and> list_all2 (\<lambda>c r. \<exists>t. refresh_checksum ops (record_of_command shard t c) = Inr r) commands new
       \<and> (s \<longleftrightarrow> strict \<or> (\<exists>c\<in>set commands. ac_durability c = Strict))"
proof (induction commands arbitrary: i records acks strict)
  case (Cons c commands)
  from Cons.prems obtain r where r: "refresh_checksum ops (record_of_command shard (clock i) c) = Inr r"
    and run: "build_records ops shard clock (i + 1) (records @ [r]) (acks @ [ac_ack c])
      (strict \<or> ac_durability c = Strict) commands = Inr (rs, as, s)"
    by (auto simp: Let_def split: sum.splits)
  from Cons.IH [OF run] obtain new where "rs = (records @ [r]) @ new"
    "as = (acks @ [ac_ack c]) @ map ac_ack commands"
    "list_all2 (\<lambda>c r. \<exists>t. refresh_checksum ops (record_of_command shard t c) = Inr r) commands new"
    "s \<longleftrightarrow> (strict \<or> ac_durability c = Strict) \<or> (\<exists>c\<in>set commands. ac_durability c = Strict)"
    by blast
  with r show ?case by (intro exI [of _ "r # new"]) auto
qed simp

lemma build_records_Inl:
  "build_records ops shard clock i records acks strict commands = Inl failed \<Longrightarrow>
     mset (map fst failed) = mset acks + mset (map ac_ack commands) \<and> (\<forall>x\<in>set failed. isl (snd x))"
proof (induction commands arbitrary: i records acks strict)
  case (Cons c commands)
  then show ?case
    by (cases "refresh_checksum ops (record_of_command shard (clock i) c)")
       (auto simp: fail_wal_acks_def Let_def multiset.map_comp comp_def)
qed simp

lemma strict_prefix_end_Some:
  assumes "strict_prefix_end records = Some stop"
  shows "stop \<le> length records" "0 < stop" "\<forall>r\<in>set (drop stop records). wr_durability r \<noteq> Strict"
proof -
  let ?P = "\<lambda>i. wr_durability (records ! i) = Strict"
  from assms obtain i xs where rev: "rev (filter ?P [0..<length records]) = i # xs"
    and stop: "stop = i + 1"
    by (auto simp: strict_prefix_end_def split: list.splits)
  then have f: "filter ?P [0..<length records] = rev xs @ [i]"
    by (metis rev.simps(2) rev_rev_ident)
  have "i \<in> set (filter ?P [0..<length records])" by (simp add: f)
  then have "i < length records" by simp
  then show "stop \<le> length records" "0 < stop" using stop by simp_all
  have "sorted (filter ?P [0..<length records])" by (simp add: sorted_wrt_filter)
  then have max: "\<forall>j\<in>set (filter ?P [0..<length records]). j \<le> i"
    by (auto simp: f sorted_append)
  show "\<forall>r\<in>set (drop stop records). wr_durability r \<noteq> Strict"
  proof
    fix r assume "r \<in> set (drop stop records)"
    then obtain j where "r = records ! (stop + j)" "stop + j < length records"
      by (auto simp: in_set_conv_nth)
    then show "wr_durability r \<noteq> Strict" using max stop by fastforce
  qed
qed

lemma strict_prefix_end_None:
  "strict_prefix_end records = None \<Longrightarrow> \<forall>r\<in>set records. wr_durability r \<noteq> Strict"
  by (auto simp: strict_prefix_end_def filter_empty_conv in_set_conv_nth split: list.splits)

lemma encode_append:
  "encode_wal_records ops xs = Inr a \<Longrightarrow> encode_wal_records ops ys = Inr b \<Longrightarrow>
     encode_wal_records ops (xs @ ys) = Inr (a @ b)"
  unfolding encode_iff by (metis list_all2_appendI map_append concat_append frames_def)

lemma fst_succeed_acks:
  "length acks = length records \<Longrightarrow> map fst (succeed_wal_acks acks records) = acks"
  by (simp add: succeed_wal_acks_def comp_def case_prod_beta)

lemma fst_fail_acks [simp]: "map fst (fail_wal_acks acks err) = acks"
  by (simp add: fail_wal_acks_def comp_def)

lemma fst_outcome_acks:
  "length acks = length records \<Longrightarrow>
     map fst (case r of Inl err \<Rightarrow> fail_wal_acks acks err
              | Inr u \<Rightarrow> succeed_wal_acks acks records) = acks"
  by (simp add: fst_succeed_acks split: sum.split)

lemma in_succeed_acks: "(a, Inr r) \<in> set (succeed_wal_acks acks records) \<Longrightarrow> r \<in> set records"
  by (auto simp: succeed_wal_acks_def dest: set_zip_rightD)

lemma in_fail_acks [simp]: "(a, Inr r) \<notin> set (fail_wal_acks acks err)"
  by (auto simp: fail_wal_acks_def)

lemma in_outcome_acks:
  "(a, Inr r) \<in> set (case x of Inl err \<Rightarrow> fail_wal_acks acks err
      | Inr u \<Rightarrow> succeed_wal_acks acks records) \<Longrightarrow> r \<in> set records"
  by (cases x) (auto dest: in_succeed_acks)

section \<open>Acknowledgements\<close>

text \<open>The batch in the order in which it is handled.\<close>

definition batch_order ::
  "('n, 's, 'g) append_command list \<Rightarrow> ('n, 's, 'g) append_command list" where
  "batch_order commands =
     (if commands_sorted_by_lsn commands then commands else sort_key ac_lsn commands)"

lemma mset_batch_order [simp]: "mset (batch_order commands) = mset commands"
  by (simp add: batch_order_def)

lemma set_batch_order [simp]: "set (batch_order commands) = set commands"
  by (simp add: batch_order_def)

text \<open>How a batch ends: which case of the source applies, and what was written by then.\<close>

lemma handle_appends_cases:
  assumes "handle_appends ops shard clock env1 env2 commands st = (results, st')"
  obtains
    (unsigned) "build_records ops shard clock 0 [] [] False (batch_order commands) = Inl results"
      "st' = st"
  | (strict) records acks strict stop r1 st1 where
      "build_records ops shard clock 0 [] [] False (batch_order commands) = Inr (records, acks, strict)"
      "strict_prefix_end records = Some stop"
      "append_wal_segment ops env1 (take stop records) True st = (r1, st1)"
      "(\<exists>err. r1 = Inl err \<and> st' = st1 \<and> results = fail_wal_acks acks err)
       \<or> r1 = Inr () \<and> drop stop records = [] \<and> st' = st1
           \<and> results = succeed_wal_acks (take stop acks) (take stop records)
       \<or> r1 = Inr () \<and> (\<exists>r2. append_wal_segment ops env2 (drop stop records) False st1 = (r2, st')
           \<and> results = succeed_wal_acks (take stop acks) (take stop records)
               @ (case r2 of Inl err \<Rightarrow> fail_wal_acks (drop stop acks) err
                  | Inr _ \<Rightarrow> succeed_wal_acks (drop stop acks) (drop stop records)))"
  | (relaxed) records acks strict where
      "build_records ops shard clock 0 [] [] False (batch_order commands) = Inr (records, acks, strict)"
      "strict_prefix_end records = None"
      "records = [] \<and> results = [] \<and> st' = st
       \<or> (\<exists>r2. append_wal_segment ops env2 records strict st = (r2, st')
           \<and> results = (case r2 of Inl err \<Rightarrow> fail_wal_acks acks err
                        | Inr _ \<Rightarrow> succeed_wal_acks acks records))"
proof (cases "build_records ops shard clock 0 [] [] False (batch_order commands)")
  case (Inl failed)
  then show thesis using assms unsigned
    by (simp add: handle_appends_def batch_order_def Let_def)
next
  case (Inr x)
  obtain records acks b where x: "x = (records, acks, b)" by (cases x)
  note run = assms [unfolded handle_appends_def, folded batch_order_def, unfolded Let_def Inr x,
      simplified]
  show thesis
  proof (cases "strict_prefix_end records")
    case None
    show thesis
      by (rule relaxed [OF Inr [unfolded x] None])
         (use run None in \<open>auto split: if_splits prod.splits sum.splits\<close>)
  next
    case (Some stop)
    obtain r1 st1 where seg: "append_wal_segment ops env1 (take stop records) True st = (r1, st1)"
      by fastforce
    show thesis
      by (rule strict [OF Inr [unfolded x] Some seg])
         (use run Some seg in \<open>auto split: if_splits prod.splits sum.splits\<close>)
  qed
qed

lemma built_lengths:
  "build_records ops shard clock 0 [] [] False commands = Inr (records, acks, strict) \<Longrightarrow>
     acks = map ac_ack commands \<and> length records = length commands"
  by (auto dest!: build_records_Inr list_all2_lengthD)

text \<open>
  C39. Every caller of a batch is answered exactly once, whatever fails: the channels on which
  an acknowledgement or an error is sent are the channels of the batch's commands, each as
  often as it occurs there.
\<close>

theorem every_append_is_answered_once:
  "mset (map fst (fst (handle_appends ops shard clock env1 env2 commands st)))
     = mset (map ac_ack commands)"
proof -
  obtain results st' where run: "handle_appends ops shard clock env1 env2 commands st = (results, st')"
    by fastforce
  have order: "mset (map ac_ack (batch_order commands)) = mset (map ac_ack commands)"
    by (simp add: mset_map)
  from run have "mset (map fst results) = mset (map ac_ack (batch_order commands))"
  proof (cases rule: handle_appends_cases)
    case unsigned
    then show ?thesis using build_records_Inl by fastforce
  next
    case (strict records acks s stop r1 st1)
    then have acks: "acks = map ac_ack (batch_order commands)" and len: "length acks = length records"
      using built_lengths by (metis length_map)+
    have "map fst results = acks"
      using strict(4) len by (auto simp: fst_succeed_acks fst_outcome_acks)
    then show ?thesis by (simp add: acks)
  next
    case (relaxed records acks s)
    then have acks: "acks = map ac_ack (batch_order commands)" and len: "length acks = length records"
      using built_lengths by (metis length_map)+
    have "map fst results = acks"
      using relaxed(3) len by (auto simp: fst_outcome_acks)
    then show ?thesis by (simp add: acks)
  qed
  with order run show ?thesis by simp
qed

section \<open>Durability\<close>

lemma signed_record:
  assumes "refresh_checksum ops (record_of_command shard t c) = Inr r"
  shows "ensure_checksum ops r = Inr r" "sound_checksum ops r" "wr_payload r = ac_payload c"
    "wr_durability r = ac_durability c" "wr_lsn r = ac_lsn c"
proof -
  have "verify_checksum ops r = Inr ChecksumValid" using assms by (rule refresh_verifies)
  then show "sound_checksum ops r" by (simp add: sound_checksum_def)
  show "ensure_checksum ops r = Inr r" "wr_payload r = ac_payload c"
    "wr_durability r = ac_durability c" "wr_lsn r = ac_lsn c"
    using assms by (auto simp: ensure_checksum_def refresh_checksum_def record_of_command_def)
qed

lemma built_records_signed:
  assumes "build_records ops shard clock 0 [] [] False commands = Inr (records, acks, strict)"
    and "\<forall>c\<in>set commands. postcard_laws ops \<and> payload_ok ops (ac_payload c)"
  shows "\<forall>r\<in>set records. ensure_checksum ops r = Inr r \<and> storable ops r \<and> sound_checksum ops r"
proof -
  from build_records_Inr [OF assms(1)] have
    "list_all2 (\<lambda>c r. \<exists>t. refresh_checksum ops (record_of_command shard t c) = Inr r) commands records"
    by simp
  then show ?thesis
    using assms(2)
  proof (induction commands records rule: list_all2_induct)
    case (Cons c cs r rs)
    then obtain t where "refresh_checksum ops (record_of_command shard t c) = Inr r" by blast
    from signed_record [OF this] Cons show ?case by (simp add: storable_def)
  qed simp
qed

lemma map_res_ensure_fixed:
  "\<forall>r\<in>set rs. ensure_checksum ops r = Inr r \<Longrightarrow> map_res (ensure_checksum ops) rs = Inr rs"
  by (induction rs) auto


text \<open>A concrete shard, for the examples.\<close>

definition demo_command :: "u64 \<Rightarrow> (i64, unit, unit) append_command" where
  "demo_command lsn =
     \<lparr>ac_lsn = lsn, ac_shard_epoch = 1, ac_owner_node_id = ''node'', ac_durability = Strict,
      ac_schema_version = 1, ac_payload = HostHttpCompleted ''req'' 5, ac_ack = unat lsn\<rparr>"

definition demo_state :: "bytes \<Rightarrow> wal_state" where
  "demo_state bytes =
     \<lparr>st_file = \<lparr>of_path = ''wal'', of_open = True, of_bytes = bytes, of_synced = length bytes\<rparr>,
      st_replicas = [], st_status = initial_writer_status 0 1 0 [] AckAll,
      st_remote_replicas = [], st_policy = AckAll\<rparr>"

definition demo_env :: "nat option \<Rightarrow> segment_env" where
  "demo_env write =
     \<lparr>se_plan = \<lparr>io_write = (\<lambda>_. write), io_sync = (\<lambda>_. True), io_write_ms = 0, io_sync_ms = 0\<rparr>,
      se_order = [], se_reply = (\<lambda>_. Accepted 0), se_started_at = 0, se_now = 0\<rparr>"

lemma demo_payload_ok: "postcard_laws demo_ops \<and> payload_ok demo_ops (ac_payload (demo_command lsn))"
  using demo_storable [of lsn] by (simp add: storable_def demo_record_def demo_command_def)


section \<open>Appending after a failed write\<close>

lemma encode_head: "encode_wal_records ops records = Inr e \<Longrightarrow> e = [] \<or> hd e = 0x4E"
proof -
  assume "encode_wal_records ops records = Inr e"
  then obtain sps where "e = frames ops sps" by (auto simp: encode_iff)
  then show ?thesis
    by (cases sps) (simp_all add: frame_bytes_def wal_frame_magic_def)
qed

text \<open>What reaches a file starts like a frame, however much of it.\<close>

definition frame_like :: "bytes \<Rightarrow> bool" where
  "frame_like t \<longleftrightarrow> t = [] \<or> hd t = 0x4E"

lemma frame_like_append: "frame_like s \<Longrightarrow> frame_like t \<Longrightarrow> frame_like (s @ t)"
  by (cases s) (simp_all add: frame_like_def)

lemma frame_like_take: "frame_like e \<Longrightarrow> frame_like (take k e)"
  by (cases k; cases e) (simp_all add: frame_like_def)

lemma write_all_frame_like:
  "write_all plan i e f = (ok, f') \<Longrightarrow> frame_like e \<Longrightarrow>
     \<exists>t. of_bytes f' = of_bytes f @ t \<and> frame_like t"
  by (auto simp: write_all_def frame_like_take split: option.splits)

lemma sync_data_bytes: "sync_data plan i f = (ok, f') \<Longrightarrow> of_bytes f' = of_bytes f"
  by (auto simp: sync_data_def split: if_splits)

lemma write_records_frame_like:
  assumes "write_records_to_open_files ops plan records sync file replicas = (result, file', replicas')"
  shows "\<exists>t. of_bytes file' = of_bytes file @ t \<and> frame_like t"
proof (cases "of_open file \<and> \<not> isl (encode_wal_records ops records)")
  case False
  then have "file' = file"
    using assms by (cases "encode_wal_records ops records")
      (auto simp: write_records_to_open_files_def split: if_splits)
  then show ?thesis by (simp add: frame_like_def)
next
  case True
  then obtain e where e: "encode_wal_records ops records = Inr e"
    by (cases "encode_wal_records ops records") auto
  obtain ok f where w: "write_all plan 0 e file = (ok, f)" by fastforce
  have "of_bytes file' = of_bytes f"
    using assms True w by (cases ok)
      (auto simp: write_records_to_open_files_def e dest!: sync_data_bytes
         split: if_splits prod.splits sum.splits bool.splits)
  moreover have "frame_like e" using encode_head [OF e] by (simp add: frame_like_def)
  ultimately show ?thesis using write_all_frame_like [OF w] by simp
qed

lemma append_segment_frame_like:
  assumes "append_wal_segment ops env records sync st = (result, st')"
  shows "\<exists>t. of_bytes (st_file st') = of_bytes (st_file st) @ t \<and> frame_like t"
proof (cases "records = []")
  case True
  then show ?thesis using assms by (simp add: append_wal_segment_def frame_like_def)
next
  case False
  obtain r f fs where w: "write_records_to_open_files ops (se_plan env) records sync
      (st_file st) (st_replicas st) = (r, f, fs)" by (metis prod_cases3)
  from write_records_frame_like [OF w] assms False show ?thesis
    by (cases r) (auto simp: append_wal_segment_def w Let_def split: prod.splits)
qed

lemma handle_appends_frame_like:
  assumes "handle_appends ops shard clock env1 env2 commands st = (results, st')"
  shows "\<exists>t. of_bytes (st_file st') = of_bytes (st_file st) @ t \<and> frame_like t"
  using assms
proof (cases rule: handle_appends_cases)
  case unsigned
  then show ?thesis by (simp add: frame_like_def)
next
  case (strict records acks s stop r1 st1)
  from append_segment_frame_like [OF strict(3)] obtain t1 where
    t1: "of_bytes (st_file st1) = of_bytes (st_file st) @ t1" "frame_like t1" by blast
  from strict(4) have "st' = st1 \<or>
      (\<exists>r2. append_wal_segment ops env2 (drop stop records) False st1 = (r2, st'))" by blast
  then obtain t2 where "of_bytes (st_file st') = of_bytes (st_file st1) @ t2" "frame_like t2"
    using append_segment_frame_like by (fastforce simp: frame_like_def)
  with t1 show ?thesis by (auto intro: frame_like_append)
next
  case (relaxed records acks s)
  from relaxed(3) have "st' = st \<or> (\<exists>r2. append_wal_segment ops env2 records s st = (r2, st'))"
    by blast
  then show ?thesis using append_segment_frame_like by (fastforce simp: frame_like_def)
qed

lemma torn_magic_rejected:
  assumes "0 < k" "k < 4" "frame_like t"
  shows "\<exists>e. frame_at ops (take k wal_frame_magic @ t) 0 frame = Inl e"
proof (cases "length (take k wal_frame_magic @ t) < 12")
  case True
  then show ?thesis by (simp add: frame_at_def wal_frame_header_len_v1_def)
next
  case False
  then obtain b bs where t: "t = b # bs" "b = 0x4E"
    using assms by (cases t) (auto simp: wal_frame_magic_def frame_like_def)
  consider "k = 1" | "k = 2" | "k = 3" using assms by linarith
  then have "byte_slice (take k wal_frame_magic @ t) 0 (0 + 4) \<noteq> wal_frame_magic"
    by cases (simp_all add: t wal_frame_magic_def byte_slice_def)
  then show ?thesis using False
    by (simp add: frame_at_def wal_frame_header_len_v1_def)
qed



end
