(* ===== verification/Wal_Archive.thy ===== *)
theory Wal_Archive
  imports Wal_Frame
begin

text \<open>
  The archives of a log shard (\<open>wal.rs\<close>): reading the active file together with the
  archive directory, skipping archives by the LSN in their name, and the compaction that
  moves the old records of the active file into a new archive.

  A shard's directory is its active file, if there is one, and the map from file names to
  contents of the archive directory beside it.
\<close>

section \<open>Decimal numbers and file names\<close>

fun decimal :: "nat \<Rightarrow> string" where
  "decimal n = (if n < 10 then [char_of (48 + n)] else decimal (n div 10) @ [char_of (48 + n mod 10)])"

declare decimal.simps [simp del]

definition is_digit :: "char \<Rightarrow> bool" where
  "is_digit c \<longleftrightarrow> 48 \<le> (of_char c :: nat) \<and> of_char c \<le> (57 :: nat)"

definition digits_value :: "string \<Rightarrow> nat" where
  "digits_value s = foldl (\<lambda>acc c. acc * 10 + (of_char c - 48)) 0 s"

text \<open>\<open>str::parse::<u64>\<close>: an optional plus sign and at least one digit, within range.\<close>

definition parse_u64 :: "string \<Rightarrow> u64 option" where
  "parse_u64 s =
     (let digits = (case s of CHR ''+'' # rest \<Rightarrow> rest | _ \<Rightarrow> s) in
      if digits \<noteq> [] \<and> list_all is_digit digits \<and> digits_value digits < 2 ^ 64
      then Some (word_of_nat (digits_value digits)) else None)"

lemma digit_char: "d < 10 \<Longrightarrow> is_digit (char_of (48 + d)) \<and> of_char (char_of (48 + d) :: char) = (48 + d :: nat)"
  by (simp add: is_digit_def)

lemma decimal_digits: "decimal n \<noteq> [] \<and> list_all is_digit (decimal n) \<and> digits_value (decimal n) = n"
proof (induction n rule: decimal.induct)
  case (1 n)
  show ?case
  proof (cases "n < 10")
    case True
    then show ?thesis using digit_char [OF True]
      by (subst (1 2 3) decimal.simps) (simp add: digits_value_def)
  next
    case False
    have d: "n mod 10 < 10" by simp
    show ?thesis using 1 [OF False] digit_char [OF d] False
      by (subst (1 2 3) decimal.simps) (simp add: digits_value_def)
  qed
qed

lemma parse_decimal: "n < 2 ^ 64 \<Longrightarrow> parse_u64 (decimal n) = Some (word_of_nat n)"
proof -
  have "hd (decimal n) \<noteq> CHR ''+''"
    using decimal_digits [of n] by (cases "decimal n") (auto simp: is_digit_def)
  then have "(case decimal n of CHR ''+'' # rest \<Rightarrow> rest | _ \<Rightarrow> decimal n) = decimal n"
    by (cases "decimal n") (auto split: char.splits bool.splits)
  moreover assume "n < 2 ^ 64"
  ultimately show ?thesis using decimal_digits [of n] by (simp add: parse_u64_def)
qed

text \<open>\<open>Path::extension\<close> of a file name.\<close>

definition file_extension :: "string \<Rightarrow> string option" where
  "file_extension name =
     (let r = rev name; ext = rev (takeWhile (\<lambda>c. c \<noteq> CHR ''.'') r);
          stem = rev (drop 1 (dropWhile (\<lambda>c. c \<noteq> CHR ''.'') r))
      in if CHR ''.'' \<in> set name \<and> stem \<noteq> [] \<and> name \<noteq> ''..'' then Some ext else None)"

fun split_once_str :: "string \<Rightarrow> string \<Rightarrow> (string \<times> string) option" where
  "split_once_str pat [] = (if pat = [] then Some ([], []) else None)"
| "split_once_str pat (c # cs) =
     (if starts_with (c # cs) pat then Some ([], drop (length pat) (c # cs))
      else map_option (\<lambda>(l, r). (c # l, r)) (split_once_str pat cs))"

definition through :: string where
  "through = ''-through-''"

definition archive_path_max_lsn :: "string \<Rightarrow> u64 option" where
  "archive_path_max_lsn file_name =
     (case split_once_str through file_name of
        None \<Rightarrow> None
      | Some (_, after_through) \<Rightarrow>
          parse_u64 (takeWhile (\<lambda>c. c \<noteq> CHR ''-'' \<and> c \<noteq> CHR ''.'') after_through))"

definition archive_name :: "string \<Rightarrow> u64 \<Rightarrow> u64 \<Rightarrow> string" where
  "archive_name stem upto_lsn now =
     stem @ through @ decimal (unat upto_lsn) @ ''-'' @ decimal (unat now) @ ''.jsonl''"

section \<open>Reading\<close>

record wal_dir =
  wd_active :: "bytes option"
  wd_archives :: "(string, bytes) btree"

definition archive_files :: "wal_dir \<Rightarrow> (string \<times> bytes) list" where
  "archive_files dir =
     filter (\<lambda>(name, _). file_extension name = Some ''jsonl'') (bt_entries (wd_archives dir))"

text \<open>The loop \<open>records.extend(read_records_file(&archive_path)?)\<close>.\<close>

definition read_archives ::
  "('n, 's, 'g, 'z) frame_ops_scheme \<Rightarrow> (string \<times> bytes) list \<Rightarrow>
     wal_error + ('n, 's, 'g) wal_record list" where
  "read_archives ops files =
     res_bind (map_res (\<lambda>(_, bytes). read_records_file ops (Some bytes)) files) (\<lambda>rss.
       Inr (concat rss))"

definition read_archive_records ::
  "('n, 's, 'g, 'z) frame_ops_scheme \<Rightarrow> wal_dir \<Rightarrow> wal_error + ('n, 's, 'g) wal_record list" where
  "read_archive_records ops dir = read_archives ops (archive_files dir)"

definition read_archive_records_after_lsn ::
  "('n, 's, 'g, 'z) frame_ops_scheme \<Rightarrow> wal_dir \<Rightarrow> u64 \<Rightarrow> wal_error + ('n, 's, 'g) wal_record list"
where
  "read_archive_records_after_lsn ops dir after_lsn =
     read_archives ops
       (filter (\<lambda>(name, _). \<not> (\<exists>max_lsn\<in>set_option (archive_path_max_lsn name). max_lsn \<le> after_lsn))
         (archive_files dir))"

definition insert_by_lsn ::
  "('n, 's, 'g) wal_record list \<Rightarrow> (u64, ('n, 's, 'g) wal_record) btree \<Rightarrow>
     (u64, ('n, 's, 'g) wal_record) btree" where
  "insert_by_lsn rs m = bt_extend (map (\<lambda>r. (wr_lsn r, r)) rs) m"

definition read_records_including_archives ::
  "('n, 's, 'g, 'z) frame_ops_scheme \<Rightarrow> wal_dir \<Rightarrow> wal_error + ('n, 's, 'g) wal_record list" where
  "read_records_including_archives ops dir =
     res_bind (read_archive_records ops dir) (\<lambda>archived.
     res_bind (read_records_file ops (wd_active dir)) (\<lambda>active.
       Inr (bt_values (insert_by_lsn active (insert_by_lsn archived bt_empty)))))"

definition read_records_after_lsn_including_archives ::
  "('n, 's, 'g, 'z) frame_ops_scheme \<Rightarrow> wal_dir \<Rightarrow> u64 \<Rightarrow> wal_error + ('n, 's, 'g) wal_record list"
where
  "read_records_after_lsn_including_archives ops dir after_lsn =
     res_bind (read_archive_records_after_lsn ops dir after_lsn) (\<lambda>archived.
     res_bind (read_records_file ops (wd_active dir)) (\<lambda>active.
       Inr (bt_values
         (insert_by_lsn (filter (\<lambda>r. after_lsn < wr_lsn r) active)
           (insert_by_lsn (filter (\<lambda>r. after_lsn < wr_lsn r) archived) bt_empty)))))"

text \<open>Several shards at once.\<close>

definition read_records_from_wal_paths ::
  "('n, 's, 'g, 'z) frame_ops_scheme \<Rightarrow> wal_dir list \<Rightarrow> wal_error + ('n, 's, 'g) wal_record list" where
  "read_records_from_wal_paths ops dirs =
     res_bind (map_res (read_records_including_archives ops) dirs) (\<lambda>rss.
       Inr (bt_values (insert_by_lsn (concat rss) bt_empty)))"

definition read_records_from_wal_paths_after_lsn ::
  "('n, 's, 'g, 'z) frame_ops_scheme \<Rightarrow> wal_dir list \<Rightarrow> u64 \<Rightarrow>
     wal_error + ('n, 's, 'g) wal_record list" where
  "read_records_from_wal_paths_after_lsn ops dirs after_lsn =
     res_bind (map_res (\<lambda>dir. read_records_after_lsn_including_archives ops dir after_lsn) dirs)
       (\<lambda>rss. Inr (bt_values (insert_by_lsn (concat rss) bt_empty)))"

section \<open>Compaction\<close>

text \<open>
  Where a compaction ends: after all its steps, or, by a crash or a failed operation, while
  the archive is written (\<open>k\<close> bytes of it are there), or between the complete archive and
  the rename of the rewritten active file.
\<close>

datatype compact_end = CompactDone | CompactInArchive nat | CompactBeforeRename

record compact_report =
  cr_upto_lsn :: u64
  cr_archived :: nat
  cr_retained :: nat
  cr_archive_path :: "string option"

datatype compact_outcome = CompactFailed wal_error | CompactInterrupted | Compacted compact_report

definition compact_wal_file ::
  "('n, 's, 'g, 'z) frame_ops_scheme \<Rightarrow> compact_end \<Rightarrow> string \<Rightarrow> u64 \<Rightarrow> u64 \<Rightarrow> wal_dir \<Rightarrow>
     compact_outcome \<times> wal_dir" where
  "compact_wal_file ops stop stem upto_lsn now dir =
     (case read_records_file ops (wd_active dir) of
        Inl err \<Rightarrow> (CompactFailed err, dir)
      | Inr records \<Rightarrow>
          let archived = filter (\<lambda>r. wr_lsn r \<le> upto_lsn) records;
              retained = filter (\<lambda>r. upto_lsn < wr_lsn r) records
          in if archived = [] then
               (Compacted \<lparr>cr_upto_lsn = upto_lsn, cr_archived = 0, cr_retained = length retained,
                  cr_archive_path = None\<rparr>, dir)
             else
               let name = archive_name stem upto_lsn now;
                   created = dir\<lparr>wd_archives := bt_insert name [] (wd_archives dir)\<rparr>
               in (case encode_wal_records ops archived of
                     Inl err \<Rightarrow> (CompactFailed err, created)
                   | Inr bytes \<Rightarrow>
                  (case stop of
                     CompactInArchive k \<Rightarrow>
                       (CompactInterrupted,
                        dir\<lparr>wd_archives := bt_insert name (take k bytes) (wd_archives dir)\<rparr>)
                   | _ \<Rightarrow>
                       let written = dir\<lparr>wd_archives := bt_insert name bytes (wd_archives dir)\<rparr> in
                      (case encode_wal_records ops retained of
                         Inl err \<Rightarrow> (CompactFailed err, written)
                       | Inr active \<Rightarrow>
                           if stop = CompactBeforeRename then (CompactInterrupted, written)
                           else (Compacted \<lparr>cr_upto_lsn = upto_lsn,
                                   cr_archived = length archived, cr_retained = length retained,
                                   cr_archive_path = Some name\<rparr>,
                                 written\<lparr>wd_active := Some active\<rparr>)))))"

section \<open>The records of a directory\<close>

text \<open>Records with the same LSN are the same record.\<close>

definition lsn_consistent :: "('n, 's, 'g) wal_record list \<Rightarrow> bool" where
  "lsn_consistent rs \<longleftrightarrow> inj_on wr_lsn (set rs)"

lemma get_insert_by_lsn:
  "bt_get (insert_by_lsn rs m) k =
     (case find (\<lambda>r. wr_lsn r = k) (rev rs) of Some r \<Rightarrow> Some r | None \<Rightarrow> bt_get m k)"
proof -
  have "map_of (map (\<lambda>r. (wr_lsn r, r)) xs) k = find (\<lambda>r. wr_lsn r = k) xs"
    for xs :: "('a, 'b, 'c) wal_record list"
    by (induction xs) auto
  then show ?thesis by (simp add: insert_by_lsn_def bt_get_extend rev_map)
qed

lemma insert_by_lsn_append: "insert_by_lsn (xs @ ys) m = insert_by_lsn ys (insert_by_lsn xs m)"
  by (simp add: insert_by_lsn_def bt_extend_append)

lemma find_SomeD: "find P xs = Some x \<Longrightarrow> x \<in> set xs \<and> P x"
  by (induction xs) (auto split: if_splits)

lemma get_insert_consistent:
  assumes "lsn_consistent rs"
  shows "bt_get (insert_by_lsn rs bt_empty) k = Some r \<longleftrightarrow> r \<in> set rs \<and> wr_lsn r = k"
proof (cases "find (\<lambda>r. wr_lsn r = k) (rev rs)")
  case None
  then have "bt_get (insert_by_lsn rs bt_empty) k = None" by (simp add: get_insert_by_lsn)
  then show ?thesis using None by (auto simp: find_None_iff)
next
  case (Some q)
  then have "q \<in> set rs" "wr_lsn q = k" by (auto dest: find_SomeD)
  moreover from this assms have "r = q" if "r \<in> set rs" "wr_lsn r = k"
    using that by (auto simp: lsn_consistent_def inj_on_def)
  ultimately show ?thesis using Some by (auto simp: get_insert_by_lsn)
qed

lemma insert_same_set:
  assumes "lsn_consistent rs" "set rs = set rs'"
  shows "insert_by_lsn rs bt_empty = insert_by_lsn rs' bt_empty"
proof (rule bt_eqI)
  fix k
  have "lsn_consistent rs'" using assms by (simp add: lsn_consistent_def)
  then have "bt_get (insert_by_lsn rs bt_empty) k = Some r \<longleftrightarrow>
      bt_get (insert_by_lsn rs' bt_empty) k = Some r" for r
    using assms by (simp add: get_insert_consistent)
  then show "bt_get (insert_by_lsn rs bt_empty) k = bt_get (insert_by_lsn rs' bt_empty) k"
    by (metis not_None_eq)
qed

lemma find_filter_key:
  "find (\<lambda>r. wr_lsn r = k) (filter (\<lambda>r. P (wr_lsn r)) xs)
     = (if P k then find (\<lambda>r. wr_lsn r = k) xs else None)"
  by (induction xs) auto

lemma insert_filtered:
  "insert_by_lsn (filter (\<lambda>r. P (wr_lsn r)) rs) (bt_retain (\<lambda>k _. P k) m)
     = bt_retain (\<lambda>k _. P k) (insert_by_lsn rs m)"
  by (rule bt_eqI)
     (auto simp: get_insert_by_lsn rev_filter find_filter_key split: option.split)

lemma values_retained:
  assumes "\<forall>k r. bt_get m k = Some r \<longrightarrow> wr_lsn r = k"
  shows "bt_values (bt_retain (\<lambda>k _. P k) m) = filter (\<lambda>r. P (wr_lsn r)) (bt_values m)"
proof -
  have "\<forall>e\<in>set (bt_entries m). wr_lsn (snd e) = fst e"
    using assms by (auto simp: in_entries)
  then have "map snd (filter (\<lambda>(k, _). P k) xs) = filter (\<lambda>r. P (wr_lsn r)) (map snd xs)"
    if "set xs \<subseteq> set (bt_entries m)" for xs
    using that by (induction xs) auto
  then show ?thesis by (simp add: bt_values_def)
qed

lemma insert_keyed:
  "\<forall>k r. bt_get m k = Some r \<longrightarrow> wr_lsn r = k \<Longrightarrow>
     bt_get (insert_by_lsn rs m) k = Some r \<Longrightarrow> wr_lsn r = k"
  by (auto simp: get_insert_by_lsn find_Some_iff split: option.splits)

lemma retain_empty [simp]: "bt_retain p bt_empty = bt_empty"
  by (rule bt_eqI) simp

lemma read_archives_iff:
  "read_archives ops files = Inr rs \<longleftrightarrow>
     (\<exists>rss. list_all2 (\<lambda>(_, bytes) r. read_records_file ops (Some bytes) = Inr r) files rss
        \<and> rs = concat rss)"
  by (auto simp: read_archives_def map_res_Inr_iff case_prod_unfold)

text \<open>Success and the set of records read depend on the set of files only.\<close>

lemma read_archives_set:
  assumes "read_archives ops files = Inr rs"
  shows "\<forall>(name, bytes)\<in>set files. \<exists>r. read_records_file ops (Some bytes) = Inr r"
    and "set rs = {r. \<exists>(name, bytes)\<in>set files. \<exists>q. read_records_file ops (Some bytes) = Inr q
           \<and> r \<in> set q}"
proof -
  from assms obtain rss where rss: "rs = concat rss"
    "list_all2 (\<lambda>(_, bytes) r. read_records_file ops (Some bytes) = Inr r) files rss"
    by (auto simp: read_archives_iff)
  from rss(2) have "(\<forall>(name, bytes)\<in>set files. \<exists>r. read_records_file ops (Some bytes) = Inr r)
      \<and> set (concat rss) = {r. \<exists>(name, bytes)\<in>set files.
           \<exists>q. read_records_file ops (Some bytes) = Inr q \<and> r \<in> set q}"
    by (induction files rss rule: list_all2_induct) auto
  then show "\<forall>(name, bytes)\<in>set files. \<exists>r. read_records_file ops (Some bytes) = Inr r"
    "set rs = {r. \<exists>(name, bytes)\<in>set files. \<exists>q. read_records_file ops (Some bytes) = Inr q
           \<and> r \<in> set q}" by (simp_all add: rss(1))
qed

lemma read_archives_total:
  assumes "\<forall>(name, bytes)\<in>set files. \<exists>r. read_records_file ops (Some bytes) = Inr r"
  shows "\<exists>rs. read_archives ops files = Inr rs"
proof -
  from assms have "\<exists>rss. list_all2 (\<lambda>(_, bytes) r. read_records_file ops (Some bytes) = Inr r) files rss"
    by (induction files) (auto simp: list_all2_Cons1)
  then show ?thesis by (auto simp: read_archives_iff)
qed

lemma read_archives_skip:
  assumes "read_archives ops files = Inr rs"
    and "\<forall>(name, bytes)\<in>set files. \<not> P name \<longrightarrow>
           (\<forall>r q. read_records_file ops (Some bytes) = Inr q \<and> r \<in> set q \<longrightarrow> \<not> Q (wr_lsn r))"
  shows "\<exists>rs'. read_archives ops (filter (\<lambda>(name, _). P name) files) = Inr rs'
    \<and> filter (\<lambda>r. Q (wr_lsn r)) rs' = filter (\<lambda>r. Q (wr_lsn r)) rs"
proof -
  from assms(1) obtain rss where rss: "rs = concat rss"
    "list_all2 (\<lambda>(_, bytes) r. read_records_file ops (Some bytes) = Inr r) files rss"
    by (auto simp: read_archives_iff)
  from rss(2) assms(2) have "\<exists>rss'. list_all2 (\<lambda>(_, bytes) r. read_records_file ops (Some bytes) = Inr r)
        (filter (\<lambda>(name, _). P name) files) rss'
      \<and> filter (\<lambda>r. Q (wr_lsn r)) (concat rss') = filter (\<lambda>r. Q (wr_lsn r)) (concat rss)"
  proof (induction files rss rule: list_all2_induct)
    case (Cons f files q rss)
    obtain name bytes where f: "f = (name, bytes)" by (cases f)
    from Cons obtain rss' where rss': "list_all2 (\<lambda>(_, bytes) r. read_records_file ops (Some bytes) = Inr r)
        (filter (\<lambda>(name, _). P name) files) rss'"
      "filter (\<lambda>r. Q (wr_lsn r)) (concat rss') = filter (\<lambda>r. Q (wr_lsn r)) (concat rss)"
      by auto
    show ?case
    proof (cases "P name")
      case True
      then show ?thesis using rss' Cons.hyps(1) f
        by (intro exI [of _ "q # rss'"]) simp
    next
      case False
      then have "filter (\<lambda>r. Q (wr_lsn r)) q = []"
        using Cons.prems Cons.hyps(1) f by (auto simp: filter_empty_conv)
      then show ?thesis using rss' False f by (intro exI [of _ rss']) simp
    qed
  qed simp
  then show ?thesis by (auto simp: rss(1) read_archives_iff)
qed

text \<open>
  An archive's name is truthful if it carries no LSN, or if no record in it is newer than
  the LSN it carries.
\<close>

definition truthful_archives :: "('n, 's, 'g, 'z) frame_ops_scheme \<Rightarrow> wal_dir \<Rightarrow> bool" where
  "truthful_archives ops dir \<longleftrightarrow>
     (\<forall>(name, bytes)\<in>set (archive_files dir). \<forall>max_lsn rs r.
        archive_path_max_lsn name = Some max_lsn \<and> read_records_file ops (Some bytes) = Inr rs
        \<and> r \<in> set rs \<longrightarrow> wr_lsn r \<le> max_lsn)"

text \<open>
  Skipping archives by name loses nothing: where every archive's name tells the truth,
  reading the records after an LSN gives exactly the records of the complete read that are
  after it, in the same order.
\<close>

theorem read_after_lsn_is_filter:
  assumes "truthful_archives ops dir"
    and "read_records_including_archives ops dir = Inr rs"
  shows "read_records_after_lsn_including_archives ops dir after_lsn
    = Inr (filter (\<lambda>r. after_lsn < wr_lsn r) rs)"
proof -
  from assms(2) obtain archived active where read: "read_archives ops (archive_files dir) = Inr archived"
    "read_records_file ops (wd_active dir) = Inr active"
    "rs = bt_values (insert_by_lsn active (insert_by_lsn archived bt_empty))"
    by (auto simp: read_records_including_archives_def read_archive_records_def)
  let ?keep = "\<lambda>name. \<not> (\<exists>max_lsn\<in>set_option (archive_path_max_lsn name). max_lsn \<le> after_lsn)"
  have "\<forall>(name, bytes)\<in>set (archive_files dir). \<not> ?keep name \<longrightarrow>
      (\<forall>r q. read_records_file ops (Some bytes) = Inr q \<and> r \<in> set q \<longrightarrow> \<not> after_lsn < wr_lsn r)"
    using assms(1) unfolding truthful_archives_def by (fastforce simp: not_less)
  from read_archives_skip [OF read(1) this] obtain archived' where
    skip: "read_archive_records_after_lsn ops dir after_lsn = Inr archived'"
    "filter (\<lambda>r. after_lsn < wr_lsn r) archived' = filter (\<lambda>r. after_lsn < wr_lsn r) archived"
    by (auto simp: read_archive_records_after_lsn_def)
  let ?m = "insert_by_lsn active (insert_by_lsn archived bt_empty)"
  have "insert_by_lsn (filter (\<lambda>r. after_lsn < wr_lsn r) active)
        (insert_by_lsn (filter (\<lambda>r. after_lsn < wr_lsn r) archived) bt_empty)
      = bt_retain (\<lambda>k _. after_lsn < k) ?m"
    using insert_filtered [of "\<lambda>k. after_lsn < k" archived bt_empty]
      insert_filtered [of "\<lambda>k. after_lsn < k" active "insert_by_lsn archived bt_empty"] by simp
  moreover have "bt_values (bt_retain (\<lambda>k _. after_lsn < k) ?m)
      = filter (\<lambda>r. after_lsn < wr_lsn r) (bt_values ?m)"
  proof (rule values_retained)
    have "wr_lsn r = k" if "bt_get (insert_by_lsn archived bt_empty) k = Some r" for k r
      using that by (rule insert_keyed [rotated]) simp
    then show "\<forall>k r. bt_get ?m k = Some r \<longrightarrow> wr_lsn r = k" by (blast intro: insert_keyed)
  qed
  ultimately show ?thesis
    by (simp add: read_records_after_lsn_including_archives_def skip read)
qed

section \<open>Compaction loses nothing\<close>

lemma verify_decoded_Inr:
  "verify_decoded ops out = Inr rs \<Longrightarrow>
     rs = map snd out \<and> (\<forall>r\<in>set rs. verify_checksum ops r \<in> {Inr ChecksumMissing, Inr ChecksumValid})"
proof (induction out arbitrary: rs)
  case (Cons x out)
  obtain k r where x: "x = (k, r)" by (cases x)
  from Cons.prems obtain status where status: "verify_checksum ops r = Inr status"
    by (auto simp: x)
  with Cons.prems show ?case
    by (cases status) (auto simp: x dest!: Cons.IH)
qed simp

lemma verify_decoded_ok:
  "\<forall>x\<in>set out. verify_checksum ops (snd x) = Inr ChecksumValid \<Longrightarrow>
     verify_decoded ops out = Inr (map snd out)"
  by (induction out) auto

text \<open>A set of signed records that is written to a file reads back from it.\<close>

lemma read_written:
  assumes "encode_wal_records ops rs = Inr bytes"
    and "\<forall>r\<in>set rs. storable ops r \<and> wr_checksum r \<noteq> None \<and> verify_checksum ops r = Inr ChecksumValid"
  shows "read_records_file ops (Some bytes) = Inr rs"
proof -
  have "map_res (ensure_checksum ops) rs = Inr rs"
    using assms(2) by (induction rs) (auto simp: ensure_checksum_def)
  with decode_encoded [OF _ assms(1)] assms(2)
  have "decode_wal_records ops bytes = Inr (enumerate 1 rs)" by auto
  moreover have "verify_decoded ops (enumerate 1 rs) = Inr rs"
  proof -
    have "snd x \<in> set rs" if "x \<in> set (enumerate 1 rs)" for x
      using that image_eqI [of "snd x" snd x] by (metis map_snd_enumerate set_map)
    then show ?thesis using verify_decoded_ok [of "enumerate 1 rs" ops] assms(2) by auto
  qed
  ultimately show ?thesis by (simp add: read_records_file_def)
qed

lemma read_verified:
  "read_records_file ops file = Inr rs \<Longrightarrow> r \<in> set rs \<Longrightarrow> wr_checksum r \<noteq> None \<Longrightarrow>
     verify_checksum ops r = Inr ChecksumValid"
proof -
  assume "read_records_file ops file = Inr rs" "r \<in> set rs" "wr_checksum r \<noteq> None"
  moreover from this have "verify_checksum ops r \<in> {Inr ChecksumMissing, Inr ChecksumValid}"
    by (auto simp: read_records_file_def split: option.splits dest: verify_decoded_Inr)
  moreover have "verify_checksum ops r \<noteq> Inr ChecksumMissing" if "wr_checksum r \<noteq> None"
    using that by (auto simp: verify_checksum_def res_bind_def split: sum.splits if_splits)
  ultimately show ?thesis by blast
qed

lemma archive_name_extension: "file_extension (archive_name stem upto_lsn now) = Some ''jsonl''"
proof -
  obtain pre where name: "archive_name stem upto_lsn now = pre @ ''.jsonl''" "pre \<noteq> []"
    unfolding archive_name_def by (metis append.assoc append_is_Nil_conv through_def list.distinct(1))
  have "pre @ ''.jsonl'' \<noteq> ''..''" by (cases pre rule: rev_cases) auto
  then show ?thesis by (simp add: name file_extension_def Let_def)
qed

lemma set_al_put_fresh: "k \<notin> fst ` set xs \<Longrightarrow> set (al_put k v xs) = insert (k, v) (set xs)"
  by (induction k v xs rule: al_put.induct) auto

lemma archive_files_insert:
  assumes "bt_get (wd_archives dir) name = None" "file_extension name = Some ''jsonl''"
  shows "set (archive_files (dir\<lparr>wd_archives := bt_insert name bytes (wd_archives dir)\<rparr>))
    = insert (name, bytes) (set (archive_files dir))"
proof -
  have "name \<notin> fst ` set (bt_entries (wd_archives dir))"
    using assms(1) set_bt_keys [of "wd_archives dir"] by (auto simp: bt_keys_def)
  then show ?thesis using assms(2) by (auto simp: archive_files_def set_al_put_fresh)
qed

text \<open>What a directory reads as, given what the new archive and the new active file read as.\<close>

lemma read_after_compaction:
  assumes read: "read_archive_records ops dir = Inr archived" "read_records_file ops (wd_active dir) = Inr active"
    and fresh: "bt_get (wd_archives dir) name = None" "file_extension name = Some ''jsonl''"
    and moved: "read_records_file ops (Some bytes) = Inr moved" "set moved \<subseteq> set active"
    and rest: "read_records_file ops active' = Inr retained"
      "set active = set moved \<union> set retained"
    and consistent: "lsn_consistent (archived @ active)"
  shows "read_records_including_archives ops
      \<lparr>wd_active = active', wd_archives = bt_insert name bytes (wd_archives dir)\<rparr>
    = read_records_including_archives ops dir"
proof -
  let ?dir = "\<lparr>wd_active = active', wd_archives = bt_insert name bytes (wd_archives dir)\<rparr>"
  have files: "set (archive_files ?dir) = insert (name, bytes) (set (archive_files dir))"
    using archive_files_insert [OF fresh, of bytes] by (simp add: archive_files_def)
  have old: "read_archives ops (archive_files dir) = Inr archived"
    using read(1) by (simp add: read_archive_records_def)
  have "\<forall>(n, b)\<in>set (archive_files ?dir). \<exists>r. read_records_file ops (Some b) = Inr r"
    using read_archives_set(1) [OF old] moved(1) by (auto simp: files)
  from read_archives_total [OF this] obtain new where
    new: "read_archives ops (archive_files ?dir) = Inr new" by blast
  have "set new = set moved \<union> set archived"
    using read_archives_set(2) [OF new] read_archives_set(2) [OF old] moved(1)
    by (auto simp: files)
  then have same: "set (archived @ active) = set (new @ retained)" using rest(2) by auto
  show ?thesis
    using insert_same_set [OF consistent same] new old read(2) rest(1)
    by (simp add: read_records_including_archives_def read_archive_records_def insert_by_lsn_append)
qed

text \<open>
  C17. Compaction loses nothing: when it is done, and also when it is interrupted after the
  archive is complete and before the active file is replaced, the directory reads as exactly
  the same records as before.
\<close>

theorem compaction_preserves_records:
  assumes "read_archive_records ops dir = Inr archived"
    and "read_records_file ops (wd_active dir) = Inr active"
    and "lsn_consistent (archived @ active)"
    and "\<forall>r\<in>set active. storable ops r \<and> wr_checksum r \<noteq> None"
    and "bt_get (wd_archives dir) (archive_name stem upto_lsn now) = None"
    and "compact_wal_file ops stop stem upto_lsn now dir = (outcome, dir')"
    and "stop \<in> {CompactDone, CompactBeforeRename}"
    and "\<forall>err. outcome \<noteq> CompactFailed err"
  shows "read_records_including_archives ops dir' = read_records_including_archives ops dir"
proof -
  let ?archived = "filter (\<lambda>r. wr_lsn r \<le> upto_lsn) active"
  let ?retained = "filter (\<lambda>r. upto_lsn < wr_lsn r) active"
  have good: "\<forall>r\<in>set active. storable ops r \<and> wr_checksum r \<noteq> None
      \<and> verify_checksum ops r = Inr ChecksumValid"
    using assms(4) read_verified [OF assms(2)] by blast
  have fresh: "file_extension (archive_name stem upto_lsn now) = Some ''jsonl''"
    by (rule archive_name_extension)
  note expand = assms(6) [unfolded compact_wal_file_def assms(2) Let_def, simplified]
  show ?thesis
  proof (cases "?archived = []")
    case True
    then show ?thesis using expand by (simp add: filter_empty_conv)
  next
    case False
    obtain bytes where bytes: "encode_wal_records ops ?archived = Inr bytes"
      using expand False assms(8) by (cases "encode_wal_records ops ?archived") auto
    obtain rest where rest: "encode_wal_records ops ?retained = Inr rest"
      using expand False bytes assms(7,8) by (cases "encode_wal_records ops ?retained") auto
    have read_moved: "read_records_file ops (Some bytes) = Inr ?archived"
      using read_written [OF bytes] good by simp
    have read_rest: "read_records_file ops (Some rest) = Inr ?retained"
      using read_written [OF rest] good by simp
    have split: "set active = set ?archived \<union> set ?retained" by auto
    from assms(7) consider (finished) "stop = CompactDone" | (early) "stop = CompactBeforeRename" by blast
    then show ?thesis
    proof cases
      case finished
      then have "dir' = \<lparr>wd_active = Some rest, wd_archives =
          bt_insert (archive_name stem upto_lsn now) bytes (wd_archives dir)\<rparr>"
        using expand False bytes rest by auto
      with read_after_compaction [OF assms(1,2,5) fresh read_moved _ read_rest split assms(3)]
      show ?thesis by auto
    next
      case early
      then have "dir' = \<lparr>wd_active = wd_active dir, wd_archives =
          bt_insert (archive_name stem upto_lsn now) bytes (wd_archives dir)\<rparr>"
        using expand False bytes rest by auto
      with read_after_compaction [OF assms(1,2,5) fresh read_moved _ assms(2) _ assms(3)]
      show ?thesis by auto
    qed
  qed
qed

section \<open>Names of archives\<close>

lemma split_once_str_first:
  "pat \<noteq> [] \<Longrightarrow> \<forall>k<length stem. \<not> starts_with (drop k (stem @ pat @ rest)) pat \<Longrightarrow>
     split_once_str pat (stem @ pat @ rest) = Some (stem, rest)"
proof (induction stem)
  case Nil
  then show ?case by (cases pat) (simp_all add: starts_with_def)
next
  case (Cons c stem)
  have "\<not> starts_with (c # stem @ pat @ rest) pat" using Cons.prems(2) by force
  moreover have "\<forall>k<length stem. \<not> starts_with (drop k (stem @ pat @ rest)) pat"
    using Cons.prems(2) by force
  ultimately show ?case using Cons by simp
qed

lemma takeWhile_digits:
  "list_all is_digit ds \<Longrightarrow>
     takeWhile (\<lambda>c. c \<noteq> CHR ''-'' \<and> c \<noteq> CHR ''.'') (ds @ CHR ''-'' # rest) = ds"
  by (induction ds) (auto simp: is_digit_def)

text \<open>
  The name compaction gives to an archive says what it holds: reading the LSN back from
  the name gives the bound up to which the records were archived.
\<close>

theorem archive_name_roundtrip:
  assumes "\<forall>k<length stem. \<not> starts_with (drop k (stem @ through
      @ decimal (unat upto_lsn) @ ''-'' @ decimal (unat now) @ ''.jsonl'')) through"
  shows "archive_path_max_lsn (archive_name stem upto_lsn now) = Some upto_lsn"
proof -
  have "unat upto_lsn < 2 ^ 64" using unsigned_less [of upto_lsn] by simp
  then have "parse_u64 (decimal (unat upto_lsn)) = Some upto_lsn" by (simp add: parse_decimal)
  moreover have "through \<noteq> []" by (simp add: through_def)
  ultimately show ?thesis
    using split_once_str_first [OF _ assms] decimal_digits [of "unat upto_lsn"]
    by (simp add: archive_path_max_lsn_def archive_name_def takeWhile_digits)
qed

theorem archive_name_roundtrip_witness:
  "archive_path_max_lsn (archive_name ''s0'' 17 99) = Some 17"
  by (rule archive_name_roundtrip)
     (auto simp: through_def starts_with_def less_Suc_eq numeral_eq_Suc)

section \<open>A crash while an archive is written\<close>

text \<open>
  An archive is written in place, not renamed into place: if a compaction stops inside a
  frame of the new archive, the directory with its complete active file can no longer be
  read, although no record is lost.
\<close>

theorem torn_archive_blocks_reading:
  assumes "read_records_file ops (wd_active dir) = Inr active"
    and "\<forall>r\<in>set active. storable ops r"
    and "encode_wal_records ops (filter (\<lambda>r. wr_lsn r \<le> upto_lsn) active) = Inr bytes"
    and "4 \<le> k" "k < length bytes"
    and "\<forall>j whole. encode_wal_records ops (take j (filter (\<lambda>r. wr_lsn r \<le> upto_lsn) active))
           = Inr whole \<longrightarrow> k \<noteq> length whole"
    and "bt_get (wd_archives dir) (archive_name stem upto_lsn now) = None"
    and "compact_wal_file ops (CompactInArchive k) stem upto_lsn now dir = (outcome, dir')"
  shows "wd_active dir' = wd_active dir
    \<and> (\<exists>err. read_records_including_archives ops dir' = Inl err)"
proof -
  let ?archived = "filter (\<lambda>r. wr_lsn r \<le> upto_lsn) active"
  let ?name = "archive_name stem upto_lsn now"
  have some: "?archived \<noteq> []" using assms(3,5) by (auto simp: encode_wal_records_def)
  then have dir': "dir' = dir\<lparr>wd_archives := bt_insert ?name (take k bytes) (wd_archives dir)\<rparr>"
    using assms(8) by (simp add: compact_wal_file_def assms(1,3) Let_def)
  from assms(3) obtain sps where sps: "list_all2 (written ops) ?archived sps" "bytes = frames ops sps"
    by (auto simp: encode_iff)
  have good: "\<forall>sp\<in>set sps. reads_back ops sp"
    using written_all_read_back [OF sps(1)] assms(2) by simp
  from assms(5) sps(2) take_frames [of k ops sps] obtain j m where j: "j < length sps"
    "m < length (frame_bytes ops (snd (sps ! j)))" "k = length (frames ops (take j sps)) + m"
    "take k bytes = frames ops (take j sps) @ take m (frame_bytes ops (snd (sps ! j)))" by blast
  have "encode_wal_records ops (take j ?archived) = Inr (frames ops (take j sps))"
    using list_all2_take [OF sps(1)] by (auto simp: encode_iff)
  then have "k \<noteq> length (frames ops (take j sps))" using assms(6) by blast
  with j(3) have "0 < m" by simp
  moreover have "\<forall>sp\<in>set (take j sps). reads_back ops sp" "reads_back ops (sps ! j)"
    using good j(1) by (meson in_set_takeD nth_mem)+
  ultimately obtain e where e: "decode_framed_wal_records ops (take k bytes) = Inl e"
    using decode_torn [of "take j sps" ops "sps ! j" m] j(2,4) by auto
  have "sps \<noteq> []" using j(1) by auto
  then have "starts_with bytes wal_frame_magic"
    using frames_start [of sps ops "[]"] sps(2) by simp
  then have "starts_with (take k bytes) wal_frame_magic" "take k bytes \<noteq> []"
    using assms(4,5) by (auto simp: starts_with_def wal_frame_magic_def min_def)
  with e have bad: "read_records_file ops (Some (take k bytes)) = Inl e"
    by (simp add: read_records_file_def decode_wal_records_def)
  have "(?name, take k bytes) \<in> set (archive_files dir')"
    using archive_files_insert [OF assms(7) archive_name_extension] dir' by simp
  then have "read_archives ops (archive_files dir') \<noteq> Inr rs" for rs
    using read_archives_set(1) [of ops "archive_files dir'" rs] bad by fastforce
  then obtain err where "read_archives ops (archive_files dir') = Inl err"
    by (cases "read_archives ops (archive_files dir')") auto
  then show ?thesis
    by (simp add: read_records_including_archives_def read_archive_records_def dir')
qed

section \<open>Examples\<close>

definition demo_signed :: "u64 \<Rightarrow> (i64, unit, unit) wal_record" where
  "demo_signed lsn = (demo_record lsn)\<lparr>wr_checksum := Some ''sha256:''\<rparr>"

definition demo_dir :: wal_dir where
  "demo_dir = \<lparr>wd_active = Some demo_log, wd_archives = bt_empty\<rparr>"

lemma demo_signed_ok:
  "storable demo_ops (demo_signed lsn) \<and> wr_checksum (demo_signed lsn) \<noteq> None
     \<and> verify_checksum demo_ops (demo_signed lsn) = Inr ChecksumValid"
proof -
  have "payload_ok demo_ops (wr_payload (demo_signed lsn))"
    using demo_storable [of lsn] by (simp add: storable_def demo_signed_def)
  then show ?thesis
    by (simp add: storable_def demo_postcard demo_signed_def verify_checksum_def compute_checksum_def)
       (simp add: demo_ops_def)
qed

lemma demo_encode_signed:
  "encode_wal_records demo_ops [demo_signed 1, demo_signed 2] = Inr demo_log"
  "encode_wal_records demo_ops [demo_signed 1] = Inr (frame_bytes demo_ops [1])"
  "encode_wal_records demo_ops [demo_signed 2] = Inr (frame_bytes demo_ops [2])"
  by (simp_all add: encode_wal_records_def demo_record_def demo_signed_def encode_wal_record_frame_def
        postcard_from_record_def demo_log_def wal_frame_max_bytes_def frame_bytes_def)
     (simp_all add: demo_ops_def demo_frame_def wal_frame_max_bytes_def)

lemma two_le_one [simp]: "\<not> (2 :: u64) \<le> 1"
  by (simp add: word_le_nat_alt)

lemma demo_read: "read_records_file demo_ops (wd_active demo_dir) = Inr [demo_signed 1, demo_signed 2]"
  using read_written [OF demo_encode_signed(1)] demo_signed_ok by (simp add: demo_dir_def)

lemma demo_no_archives:
  "archive_files demo_dir = []" "read_archive_records demo_ops demo_dir = Inr []"
  by (simp_all add: archive_files_def demo_dir_def read_archive_records_def read_archives_def)

lemma demo_signed_lsn [simp]: "wr_lsn (demo_signed lsn) = lsn"
  by (simp add: demo_signed_def demo_record_def)

theorem read_after_lsn_is_filter_witness:
  "\<exists>rs. read_records_including_archives demo_ops demo_dir = Inr rs
     \<and> read_records_after_lsn_including_archives demo_ops demo_dir 1
         = Inr (filter (\<lambda>r. 1 < wr_lsn r) rs)"
proof -
  obtain rs where rs: "read_records_including_archives demo_ops demo_dir = Inr rs"
    by (simp add: read_records_including_archives_def demo_no_archives demo_read)
  have "truthful_archives demo_ops demo_dir"
    by (simp add: truthful_archives_def demo_no_archives)
  from read_after_lsn_is_filter [OF this rs] rs show ?thesis by blast
qed

theorem compaction_preserves_records_witness:
  "read_records_including_archives demo_ops
      (snd (compact_wal_file demo_ops CompactDone ''shard'' 1 99 demo_dir))
    = read_records_including_archives demo_ops demo_dir"
proof -
  have run: "compact_wal_file demo_ops CompactDone ''shard'' 1 99 demo_dir
      = (Compacted \<lparr>cr_upto_lsn = 1, cr_archived = 1, cr_retained = 1,
           cr_archive_path = Some (archive_name ''shard'' 1 99)\<rparr>,
         \<lparr>wd_active = Some (frame_bytes demo_ops [2]),
          wd_archives = bt_insert (archive_name ''shard'' 1 99) (frame_bytes demo_ops [1]) bt_empty\<rparr>)"
    by (simp add: compact_wal_file_def demo_read Let_def demo_encode_signed) (simp add: demo_dir_def)
  from compaction_preserves_records [OF demo_no_archives(2) demo_read _ _ _ run] show ?thesis
    unfolding run using demo_signed_ok by (simp add: lsn_consistent_def inj_on_def demo_dir_def)
qed

theorem torn_archive_blocks_reading_witness:
  "\<exists>err. read_records_including_archives demo_ops
      (snd (compact_wal_file demo_ops (CompactInArchive 5) ''shard'' 1 99 demo_dir)) = Inl err"
proof -
  have enc: "encode_wal_records demo_ops (filter (\<lambda>r. wr_lsn r \<le> 1) [demo_signed 1, demo_signed 2])
      = Inr (frame_bytes demo_ops [1])" by (simp add: demo_encode_signed)
  have "5 \<noteq> length whole" if "encode_wal_records demo_ops
      (take j (filter (\<lambda>r. wr_lsn r \<le> 1) [demo_signed 1, demo_signed 2])) = Inr whole" for j whole
    using that by (cases j) (auto simp: demo_encode_signed encode_wal_records_def [of _ "[]"])
  then show ?thesis
    using torn_archive_blocks_reading [OF demo_read _ enc, of 5 "''shard''" 99
        "fst (compact_wal_file demo_ops (CompactInArchive 5) ''shard'' 1 99 demo_dir)"
        "snd (compact_wal_file demo_ops (CompactInArchive 5) ''shard'' 1 99 demo_dir)"]
      demo_signed_ok
    by (simp add: demo_dir_def)
qed

end
