(* ===== verification/Subscription_Router.thy ===== *)
theory Subscription_Router
  imports Ordered_Map
begin

text \<open>
  Routing record events to a connection's table subscriptions (\<open>live_query.rs\<close> and
  \<open>api/frames.rs\<close>): subscriptions to key ranges of a table and to the children of a parent
  record, the naive filter that asks every subscription, and the router that answers from
  two indexes, per table the set of key pfxs and the cached best upper bounds of the
  key ranges.
\<close>

section \<open>Subscriptions\<close>

record nested_table_subscription =
  ns_table :: string
  ns_parent_key :: string
  ns_nested :: string

record table_subscription =
  ts_table :: string
  ts_lower_key :: "string option"
  ts_upper_key :: "string option"
  ts_index_name :: "string option"
  ts_index_values :: "string option"

text \<open>The derived orders: lexicographic in the order of the fields.\<close>

definition nested_subscription_tuple where
  "nested_subscription_tuple s =
     (ns_table s, ns_parent_key s, ns_nested s, nested_table_subscription.more s)"

definition table_subscription_tuple where
  "table_subscription_tuple s =
     (ts_table s, ts_lower_key s, ts_upper_key s, ts_index_name s, ts_index_values s,
      table_subscription.more s)"

lemma tuple_inject:
  "nested_subscription_tuple s = nested_subscription_tuple s' \<longleftrightarrow> s = s'"
  "table_subscription_tuple t = table_subscription_tuple t' \<longleftrightarrow> t = t'"
  by (cases s; cases s'; simp add: nested_subscription_tuple_def)
     (cases t; cases t'; simp add: table_subscription_tuple_def)

instantiation nested_table_subscription_ext :: (linorder) linorder
begin

definition less_eq_nested_table_subscription_ext ::
  "'a nested_table_subscription_scheme \<Rightarrow> 'a nested_table_subscription_scheme \<Rightarrow> bool" where
  "less_eq_nested_table_subscription_ext s t \<longleftrightarrow>
     nested_subscription_tuple s \<le> nested_subscription_tuple t"

definition less_nested_table_subscription_ext ::
  "'a nested_table_subscription_scheme \<Rightarrow> 'a nested_table_subscription_scheme \<Rightarrow> bool" where
  "less_nested_table_subscription_ext s t \<longleftrightarrow>
     nested_subscription_tuple s < nested_subscription_tuple t"

instance
  by standard
     (auto simp: less_eq_nested_table_subscription_ext_def less_nested_table_subscription_ext_def
        less_le_not_le simp flip: tuple_inject(1) intro: order_trans antisym)

end

instantiation table_subscription_ext :: (linorder) linorder
begin

definition less_eq_table_subscription_ext ::
  "'a table_subscription_scheme \<Rightarrow> 'a table_subscription_scheme \<Rightarrow> bool" where
  "less_eq_table_subscription_ext s t \<longleftrightarrow>
     table_subscription_tuple s \<le> table_subscription_tuple t"

definition less_table_subscription_ext ::
  "'a table_subscription_scheme \<Rightarrow> 'a table_subscription_scheme \<Rightarrow> bool" where
  "less_table_subscription_ext s t \<longleftrightarrow> table_subscription_tuple s < table_subscription_tuple t"

instance
  by standard
     (auto simp: less_eq_table_subscription_ext_def less_table_subscription_ext_def
        less_le_not_le simp flip: tuple_inject(2) intro: order_trans antisym)

end

definition nested_record_table :: "string \<Rightarrow> string \<Rightarrow> string" where
  "nested_record_table table nested = table @ ''.'' @ nested"

definition nested_record_key :: "string \<Rightarrow> string \<Rightarrow> string" where
  "nested_record_key parent_key nested_key = parent_key @ '':'' @ nested_key"

definition nested_record_prefix :: "string \<Rightarrow> string" where
  "nested_record_prefix parent_key = parent_key @ '':''"

definition logical_table :: "nested_table_subscription \<Rightarrow> string" where
  "logical_table s = nested_record_table (ns_table s) (ns_nested s)"

definition key_prefix :: "nested_table_subscription \<Rightarrow> string" where
  "key_prefix s = nested_record_prefix (ns_parent_key s)"

definition is_full_table :: "table_subscription \<Rightarrow> bool" where
  "is_full_table s \<longleftrightarrow> ts_lower_key s = None \<and> ts_upper_key s = None \<and> ts_index_name s = None"

definition has_index_prefix :: "table_subscription \<Rightarrow> bool" where
  "has_index_prefix s \<longleftrightarrow> ts_index_name s \<noteq> None"

definition in_range :: "string option \<Rightarrow> string option \<Rightarrow> string \<Rightarrow> bool" where
  "in_range lower upper key \<longleftrightarrow>
     (case lower of None \<Rightarrow> True | Some l \<Rightarrow> l \<le> key)
   \<and> (case upper of None \<Rightarrow> True | Some u \<Rightarrow> key < u)"

definition subscription_matches :: "table_subscription \<Rightarrow> string \<Rightarrow> string \<Rightarrow> bool" where
  "subscription_matches s table key \<longleftrightarrow>
     ts_table s = table \<and> \<not> has_index_prefix s \<and> in_range (ts_lower_key s) (ts_upper_key s) key"

definition record_matches_table_filters ::
  "string \<Rightarrow> string \<Rightarrow> string bset \<Rightarrow> table_subscription bset \<Rightarrow> nested_table_subscription bset \<Rightarrow>
     bool" where
  "record_matches_table_filters table key table_filter table_range_filter nested_table_filter \<longleftrightarrow>
     bt_contains table_filter table
   \<or> list_ex (\<lambda>s. subscription_matches s table key) (bt_keys table_range_filter)
   \<or> list_ex (\<lambda>s. logical_table s = table \<and> starts_with key (key_prefix s))
       (bt_keys nested_table_filter)"

section \<open>The index of key ranges\<close>

record key_range =
  kr_lower :: "string option"
  kr_upper :: "string option"

text \<open>An upper bound: \<open>None\<close> is unbounded. A best upper bound may be missing.\<close>

type_synonym upper = "string option"

record range_index =
  ri_unbounded_lower_uppers :: "upper bset"
  ri_uppers_by_lower :: "(string, upper bset) btree"
  ri_unbounded_lower_best_upper :: "upper option"
  ri_prefix_best_upper_by_lower :: "(string, upper) btree"

definition range_index_default :: range_index where
  "range_index_default =
     \<lparr>ri_unbounded_lower_uppers = bt_empty, ri_uppers_by_lower = bt_empty,
      ri_unbounded_lower_best_upper = None, ri_prefix_best_upper_by_lower = bt_empty\<rparr>"

definition best_upper_for_set :: "upper bset \<Rightarrow> upper option" where
  "best_upper_for_set uppers =
     (if bt_is_empty uppers then None
      else if bt_contains uppers None then Some None
      else case bt_last uppers of None \<Rightarrow> Some None | Some (u, _) \<Rightarrow> Some u)"

fun wider_upper :: "upper option \<Rightarrow> upper option \<Rightarrow> upper option" where
  "wider_upper (Some None) _ = Some None"
| "wider_upper _ (Some None) = Some None"
| "wider_upper None candidate = candidate"
| "wider_upper current None = current"
| "wider_upper (Some (Some current)) (Some (Some candidate)) = Some (Some (max current candidate))"

definition best_upper_matches_key :: "upper option \<Rightarrow> string \<Rightarrow> bool" where
  "best_upper_matches_key best_upper key \<longleftrightarrow>
     (case best_upper of None \<Rightarrow> False | Some None \<Rightarrow> True | Some (Some upper) \<Rightarrow> key < upper)"

text \<open>The loop of \<open>rebuild_match_cache\<close> over the lower bounds in ascending order.\<close>

fun rebuild_loop ::
  "upper option \<Rightarrow> (string \<times> upper bset) list \<Rightarrow> (string, upper) btree \<Rightarrow> (string, upper) btree"
where
  "rebuild_loop best [] cache = cache"
| "rebuild_loop best ((lower, uppers) # rest) cache =
     (let best' = wider_upper best (best_upper_for_set uppers);
          cache' = (case best' of None \<Rightarrow> cache | Some u \<Rightarrow> bt_insert lower u cache)
      in rebuild_loop best' rest cache')"

definition rebuild_match_cache :: "range_index \<Rightarrow> range_index" where
  "rebuild_match_cache i =
     i\<lparr>ri_unbounded_lower_best_upper := best_upper_for_set (ri_unbounded_lower_uppers i),
       ri_prefix_best_upper_by_lower :=
         rebuild_loop None (bt_entries (ri_uppers_by_lower i)) bt_empty\<rparr>"

definition range_index_insert :: "key_range \<Rightarrow> range_index \<Rightarrow> range_index" where
  "range_index_insert kr i =
     rebuild_match_cache
       (case kr_lower kr of
          Some lower \<Rightarrow>
            i\<lparr>ri_uppers_by_lower :=
                bt_insert lower
                  (bs_insert (kr_upper kr) (bt_get_or (ri_uppers_by_lower i) lower bt_empty))
                  (ri_uppers_by_lower i)\<rparr>
        | None \<Rightarrow>
            i\<lparr>ri_unbounded_lower_uppers :=
                bs_insert (kr_upper kr) (ri_unbounded_lower_uppers i)\<rparr>)"

definition range_index_remove :: "key_range \<Rightarrow> range_index \<Rightarrow> range_index" where
  "range_index_remove kr i =
     (case kr_lower kr of
        Some lower \<Rightarrow>
          (case bt_get (ri_uppers_by_lower i) lower of
             None \<Rightarrow> i
           | Some uppers \<Rightarrow>
               let uppers' = bt_remove (kr_upper kr) uppers in
               rebuild_match_cache
                 (i\<lparr>ri_uppers_by_lower :=
                     (if bt_is_empty uppers' then bt_remove lower (ri_uppers_by_lower i)
                      else bt_insert lower uppers' (ri_uppers_by_lower i))\<rparr>))
      | None \<Rightarrow>
          rebuild_match_cache
            (i\<lparr>ri_unbounded_lower_uppers :=
                bt_remove (kr_upper kr) (ri_unbounded_lower_uppers i)\<rparr>))"

definition range_index_matches :: "range_index \<Rightarrow> string \<Rightarrow> bool" where
  "range_index_matches i key \<longleftrightarrow>
     best_upper_matches_key (ri_unbounded_lower_best_upper i) key
   \<or> (case bt_floor (ri_prefix_best_upper_by_lower i) key of
        None \<Rightarrow> False
      | Some (_, upper) \<Rightarrow> best_upper_matches_key (Some upper) key)"

definition range_index_is_empty :: "range_index \<Rightarrow> bool" where
  "range_index_is_empty i \<longleftrightarrow>
     bt_is_empty (ri_unbounded_lower_uppers i) \<and> bt_is_empty (ri_uppers_by_lower i)"

section \<open>The router\<close>

record subscription_router =
  sr_key_prefixes_by_table :: "(string, string bset) btree"
  sr_key_ranges_by_table :: "(string, range_index) btree"

definition router_default :: subscription_router where
  "router_default =
     \<lparr>sr_key_prefixes_by_table = bt_empty, sr_key_ranges_by_table = bt_empty\<rparr>"

definition insert_key_range :: "string \<Rightarrow> key_range \<Rightarrow> subscription_router \<Rightarrow> subscription_router"
where
  "insert_key_range table kr r =
     r\<lparr>sr_key_ranges_by_table :=
         bt_insert table
           (range_index_insert kr
             (bt_get_or (sr_key_ranges_by_table r) table range_index_default))
           (sr_key_ranges_by_table r)\<rparr>"

definition remove_key_range :: "string \<Rightarrow> key_range \<Rightarrow> subscription_router \<Rightarrow> subscription_router"
where
  "remove_key_range table kr r =
     (case bt_get (sr_key_ranges_by_table r) table of
        None \<Rightarrow> r
      | Some index \<Rightarrow>
          let index' = range_index_remove kr index in
          r\<lparr>sr_key_ranges_by_table :=
              (if range_index_is_empty index' then bt_remove table (sr_key_ranges_by_table r)
               else bt_insert table index' (sr_key_ranges_by_table r))\<rparr>)"

definition range_of_subscription :: "table_subscription \<Rightarrow> key_range" where
  "range_of_subscription s = \<lparr>kr_lower = ts_lower_key s, kr_upper = ts_upper_key s\<rparr>"

definition insert_table_subscription ::
  "table_subscription \<Rightarrow> subscription_router \<Rightarrow> subscription_router" where
  "insert_table_subscription s = insert_key_range (ts_table s) (range_of_subscription s)"

definition remove_table_subscription ::
  "table_subscription \<Rightarrow> subscription_router \<Rightarrow> subscription_router" where
  "remove_table_subscription s = remove_key_range (ts_table s) (range_of_subscription s)"

definition insert_nested_table_subscription ::
  "nested_table_subscription \<Rightarrow> subscription_router \<Rightarrow> subscription_router" where
  "insert_nested_table_subscription s r =
     r\<lparr>sr_key_prefixes_by_table :=
         bt_insert (logical_table s)
           (bs_insert (key_prefix s)
             (bt_get_or (sr_key_prefixes_by_table r) (logical_table s) bt_empty))
           (sr_key_prefixes_by_table r)\<rparr>"

definition remove_nested_table_subscription ::
  "nested_table_subscription \<Rightarrow> subscription_router \<Rightarrow> subscription_router" where
  "remove_nested_table_subscription s r =
     (case bt_get (sr_key_prefixes_by_table r) (logical_table s) of
        None \<Rightarrow> r
      | Some pfxs \<Rightarrow>
          let pfxs' = bt_remove (key_prefix s) pfxs in
          r\<lparr>sr_key_prefixes_by_table :=
              (if bt_is_empty pfxs'
               then bt_remove (logical_table s) (sr_key_prefixes_by_table r)
               else bt_insert (logical_table s) pfxs' (sr_key_prefixes_by_table r))\<rparr>)"

definition matches_key_prefix :: "subscription_router \<Rightarrow> string \<Rightarrow> string \<Rightarrow> bool" where
  "matches_key_prefix r table key \<longleftrightarrow>
     (case bt_get (sr_key_prefixes_by_table r) table of
        None \<Rightarrow> False
      | Some pfxs \<Rightarrow>
          (case bt_floor pfxs key of
             None \<Rightarrow> False | Some (pfx, _) \<Rightarrow> starts_with key pfx))"

definition matches_key_range :: "subscription_router \<Rightarrow> string \<Rightarrow> string \<Rightarrow> bool" where
  "matches_key_range r table key \<longleftrightarrow>
     (case bt_get (sr_key_ranges_by_table r) table of
        None \<Rightarrow> False | Some ranges \<Rightarrow> range_index_matches ranges key)"

definition router_matches :: "subscription_router \<Rightarrow> string \<Rightarrow> string \<Rightarrow> bool" where
  "router_matches r table key \<longleftrightarrow> matches_key_prefix r table key \<or> matches_key_range r table key"

definition record_matches_table_router ::
  "string \<Rightarrow> string \<Rightarrow> string bset \<Rightarrow> subscription_router \<Rightarrow> bool" where
  "record_matches_table_router table key table_filter router \<longleftrightarrow>
     bt_contains table_filter table \<or> router_matches router table key"

section \<open>The cache answers for all ranges\<close>

lemma bt_last_max:
  "bt_last m = Some (k, v) \<Longrightarrow> bt_get m k = Some v \<and> (\<forall>a. bt_get m a \<noteq> None \<longrightarrow> a \<le> k)"
proof -
  assume "bt_last m = Some (k, v)"
  then obtain xs where "rev (bt_entries m) = (k, v) # xs"
    by (auto simp: bt_last_def split: list.splits)
  then have e: "bt_entries m = rev xs @ [(k, v)]" by (metis rev.simps(2) rev_rev_ident)
  then have "\<forall>x\<in>set (rev xs). fst x < k"
    using ascending_entries [of m] by (auto simp: ascending_def sorted_wrt_append)
  then have "\<forall>a\<in>set (bt_keys m). a \<le> k" by (auto simp: bt_keys_def e less_imp_le)
  moreover have "(k, v) \<in> set (bt_entries m)" by (simp add: e)
  ultimately show ?thesis by (simp add: in_entries set_bt_keys)
qed

lemma bt_last_None: "bt_last m = None \<longleftrightarrow> m = bt_empty"
  unfolding bt_is_empty_iff [symmetric] bt_is_empty_def bt_last_def
  by (cases "bt_entries m" rule: rev_cases) simp_all

definition upper_covers :: "upper \<Rightarrow> string \<Rightarrow> bool" where
  "upper_covers upper key \<longleftrightarrow> (case upper of None \<Rightarrow> True | Some u \<Rightarrow> key < u)"

lemma best_upper_matches_Some: "best_upper_matches_key (Some u) key \<longleftrightarrow> upper_covers u key"
  by (simp add: best_upper_matches_key_def upper_covers_def split: option.split)

lemma best_upper_matches_None [simp]: "\<not> best_upper_matches_key None key"
  by (simp add: best_upper_matches_key_def)

lemma best_upper_for_set_covers:
  "best_upper_matches_key (best_upper_for_set S) key \<longleftrightarrow> (\<exists>u\<in>bs_elems S. upper_covers u key)"
proof -
  consider "S = bt_empty" | "None \<in> bs_elems S" | u where "bt_last S = Some (u, ())" "None \<notin> bs_elems S"
    "S \<noteq> bt_empty" by (cases "bt_last S") (auto simp: bt_last_None)
  then show ?thesis
  proof cases
    case 1
    then show ?thesis by (simp add: best_upper_for_set_def)
  next
    case 2
    then have "best_upper_for_set S = Some None" "\<exists>u\<in>bs_elems S. upper_covers u key"
      by (auto simp: best_upper_for_set_def bs_contains_iff upper_covers_def intro: bexI [of _ None])
    then show ?thesis by (simp add: best_upper_matches_Some upper_covers_def)
  next
    case (3 u)
    then have u: "u \<in> bs_elems S" "\<forall>a\<in>bs_elems S. a \<le> u"
      using bt_last_max [OF 3(1)] by (auto simp: bs_elems_def bt_contains_def)
    have "upper_covers a key \<Longrightarrow> upper_covers u key" if "a \<in> bs_elems S" for a
      using u that 3(2) by (cases a; cases u) (auto simp: upper_covers_def less_eq_option_def)
    then show ?thesis
      using u 3 by (auto simp: best_upper_for_set_def bs_contains_iff best_upper_matches_Some)
  qed
qed

lemma best_upper_for_set_Some: "best_upper_for_set S = None \<longleftrightarrow> S = bt_empty"
  by (auto simp: best_upper_for_set_def split: option.split)

lemma wider_upper_covers:
  "best_upper_matches_key (wider_upper a b) key \<longleftrightarrow>
     best_upper_matches_key a key \<or> best_upper_matches_key b key"
  by (induction a b rule: wider_upper.induct)
     (auto simp: best_upper_matches_key_def less_max_iff_disj split: option.splits)

lemma wider_upper_None: "wider_upper a b = None \<longleftrightarrow> a = None \<and> b = None"
  by (induction a b rule: wider_upper.induct) auto

lemma rebuild_loop_other:
  "l \<notin> fst ` set es \<Longrightarrow> bt_get (rebuild_loop best es cache) l = bt_get cache l"
  by (induction best es cache rule: rebuild_loop.induct) (auto simp: Let_def split: option.splits)

lemma rebuild_loop_covers:
  assumes "ascending es" "\<forall>e\<in>set es. snd e \<noteq> bt_empty" "l \<in> fst ` set es"
  shows "\<exists>u. bt_get (rebuild_loop best es cache) l = Some u
    \<and> (upper_covers u key \<longleftrightarrow> best_upper_matches_key best key
         \<or> (\<exists>(l', S)\<in>set es. l' \<le> l \<and> (\<exists>v\<in>bs_elems S. upper_covers v key)))"
  using assms
proof (induction best es cache rule: rebuild_loop.induct)
  case (2 best lower uppers rest cache)
  let ?best = "wider_upper best (best_upper_for_set uppers)"
  have "uppers \<noteq> bt_empty" using "2.prems"(2) by simp
  then obtain u where u: "?best = Some u"
    using wider_upper_None best_upper_for_set_Some by (metis not_None_eq)
  have cov: "upper_covers u key \<longleftrightarrow> best_upper_matches_key best key
      \<or> (\<exists>v\<in>bs_elems uppers. upper_covers v key)"
    using wider_upper_covers [of best "best_upper_for_set uppers" key]
    by (simp add: u best_upper_matches_Some best_upper_for_set_covers)
  have above: "\<forall>e\<in>set rest. lower < fst e" using "2.prems"(1) by auto
  show ?case
  proof (cases "l = lower")
    case True
    have "l \<notin> fst ` set rest" using above True by auto
    then have "bt_get (rebuild_loop best ((lower, uppers) # rest) cache) l = Some u"
      using True by (simp add: u rebuild_loop_other)
    moreover have "(\<exists>(l', S)\<in>set ((lower, uppers) # rest). l' \<le> l \<and> (\<exists>v\<in>bs_elems S. upper_covers v key))
        \<longleftrightarrow> (\<exists>v\<in>bs_elems uppers. upper_covers v key)"
      using above True by (fastforce simp: not_less)
    ultimately show ?thesis using cov by blast
  next
    case False
    then have l: "l \<in> fst ` set rest" using "2.prems"(3) by auto
    then have "lower \<le> l" using above by auto
    moreover from "2.IH" [OF refl refl _ _ l] "2.prems" obtain w where
      "bt_get (rebuild_loop best ((lower, uppers) # rest) cache) l = Some w"
      "upper_covers w key \<longleftrightarrow> best_upper_matches_key ?best key
         \<or> (\<exists>(l', S)\<in>set rest. l' \<le> l \<and> (\<exists>v\<in>bs_elems S. upper_covers v key))"
      by (auto simp: u)
    ultimately show ?thesis
      using cov by (auto simp: u best_upper_matches_Some)
  qed
qed simp

lemma rebuild_loop_lookup:
  assumes "\<forall>l S. bt_get m l = Some S \<longrightarrow> S \<noteq> bt_empty"
  shows "bt_get (rebuild_loop None (bt_entries m) bt_empty) l \<noteq> None \<longleftrightarrow> bt_get m l \<noteq> None"
    and "bt_get (rebuild_loop None (bt_entries m) bt_empty) l = Some u \<Longrightarrow>
      upper_covers u key \<longleftrightarrow>
        (\<exists>l' S. bt_get m l' = Some S \<and> l' \<le> l \<and> (\<exists>v\<in>bs_elems S. upper_covers v key))"
proof -
  have ne: "\<forall>e\<in>set (bt_entries m). snd e \<noteq> bt_empty"
    using assms by (auto simp: in_entries)
  have mem: "l \<in> fst ` set (bt_entries m) \<longleftrightarrow> bt_get m l \<noteq> None"
    using set_bt_keys [of m] by (auto simp: bt_keys_def)
  show dom: "bt_get (rebuild_loop None (bt_entries m) bt_empty) l \<noteq> None \<longleftrightarrow> bt_get m l \<noteq> None"
  proof (cases "l \<in> fst ` set (bt_entries m)")
    case True
    from rebuild_loop_covers [OF ascending_entries ne this] mem True show ?thesis by blast
  next
    case False
    with rebuild_loop_other [OF this, of None bt_empty] mem show ?thesis by simp
  qed
  assume u: "bt_get (rebuild_loop None (bt_entries m) bt_empty) l = Some u"
  with dom mem have "l \<in> fst ` set (bt_entries m)" by simp
  from rebuild_loop_covers [OF ascending_entries ne this, of None bt_empty key] u
  show "upper_covers u key \<longleftrightarrow>
        (\<exists>l' S. bt_get m l' = Some S \<and> l' \<le> l \<and> (\<exists>v\<in>bs_elems S. upper_covers v key))"
    by (simp add: Bex_def split_paired_Ex in_entries conj_assoc)
qed

section \<open>A range index holds a set of ranges\<close>

definition ri_ranges :: "range_index \<Rightarrow> key_range set" where
  "ri_ranges i =
     {r. kr_lower r = None \<and> kr_upper r \<in> bs_elems (ri_unbounded_lower_uppers i)}
   \<union> {r. \<exists>l S. kr_lower r = Some l \<and> bt_get (ri_uppers_by_lower i) l = Some S
        \<and> kr_upper r \<in> bs_elems S}"

definition range_covers :: "key_range \<Rightarrow> string \<Rightarrow> bool" where
  "range_covers r key \<longleftrightarrow> in_range (kr_lower r) (kr_upper r) key"

text \<open>The caches are those a rebuild would compute, and no lower bound has an empty set.\<close>

definition ri_ok :: "range_index \<Rightarrow> bool" where
  "ri_ok i \<longleftrightarrow> rebuild_match_cache i = i
     \<and> (\<forall>l S. bt_get (ri_uppers_by_lower i) l = Some S \<longrightarrow> S \<noteq> bt_empty)"

lemma ri_matches:
  assumes "ri_ok i"
  shows "range_index_matches i key \<longleftrightarrow> (\<exists>r\<in>ri_ranges i. range_covers r key)"
proof -
  let ?U = "ri_uppers_by_lower i" and ?C = "rebuild_loop None (bt_entries (ri_uppers_by_lower i)) bt_empty"
  have best: "ri_unbounded_lower_best_upper i = best_upper_for_set (ri_unbounded_lower_uppers i)"
    and cache: "ri_prefix_best_upper_by_lower i = ?C"
    and ne: "\<forall>l S. bt_get ?U l = Some S \<longrightarrow> S \<noteq> bt_empty"
    using assms by (cases i; simp add: ri_ok_def rebuild_match_cache_def)+
  note look = rebuild_loop_lookup [OF ne]
  have "(case bt_floor ?C key of None \<Rightarrow> False | Some (_, u) \<Rightarrow> best_upper_matches_key (Some u) key)
      \<longleftrightarrow> (\<exists>l S. bt_get ?U l = Some S \<and> l \<le> key \<and> (\<exists>v\<in>bs_elems S. upper_covers v key))"
  proof (cases "bt_floor ?C key")
    case None
    then have "\<forall>l. bt_get ?U l \<noteq> None \<longrightarrow> key < l" by (simp only: bt_floor_None look(1) simp_thms)
    then show ?thesis using None by (fastforce simp: not_le)
  next
    case (Some e)
    obtain l u where e: "e = (l, u)" by force
    then have f: "bt_get ?C l = Some u" "l \<le> key" "\<forall>b. bt_get ?U b \<noteq> None \<and> b \<le> key \<longrightarrow> b \<le> l"
      using Some unfolding e bt_floor_Some look(1) by blast+
    then have "l' \<le> l \<longleftrightarrow> l' \<le> key" if "bt_get ?U l' = Some S" for l' S
      using that by (metis option.distinct(1) order_trans)
    then show ?thesis
      using look(2) [OF f(1), of key] by (auto simp: Some e best_upper_matches_Some)
  qed
  moreover have "(\<exists>r\<in>ri_ranges i. range_covers r key) \<longleftrightarrow>
      (\<exists>v\<in>bs_elems (ri_unbounded_lower_uppers i). upper_covers v key)
    \<or> (\<exists>l S. bt_get ?U l = Some S \<and> l \<le> key \<and> (\<exists>v\<in>bs_elems S. upper_covers v key))"
    (is "?l \<longleftrightarrow> ?none \<or> ?some")
  proof
    assume ?l
    then obtain r where "r \<in> ri_ranges i" "in_range (kr_lower r) (kr_upper r) key"
      by (auto simp: range_covers_def)
    then show "?none \<or> ?some"
      by (cases "kr_lower r") (auto simp: ri_ranges_def in_range_def upper_covers_def)
  next
    have "?l" if "u \<in> bs_elems (ri_unbounded_lower_uppers i)" "upper_covers u key" for u
      using that
      by (intro bexI [of _ "\<lparr>kr_lower = None, kr_upper = u\<rparr>"])
         (auto simp: ri_ranges_def range_covers_def in_range_def upper_covers_def)
    moreover have "?l" if "bt_get ?U l = Some S" "l \<le> key" "u \<in> bs_elems S" "upper_covers u key"
      for l S u
      using that
      by (intro bexI [of _ "\<lparr>kr_lower = Some l, kr_upper = u\<rparr>"])
         (auto simp: ri_ranges_def range_covers_def in_range_def upper_covers_def)
    moreover assume "?none \<or> ?some"
    ultimately show ?l by blast
  qed
  ultimately show ?thesis
    by (simp add: range_index_matches_def best cache best_upper_for_set_covers)
qed

lemma rebuild_simps [simp]:
  "rebuild_match_cache (rebuild_match_cache i) = rebuild_match_cache i"
  "ri_uppers_by_lower (rebuild_match_cache i) = ri_uppers_by_lower i"
  "ri_unbounded_lower_uppers (rebuild_match_cache i) = ri_unbounded_lower_uppers i"
  "ri_ranges (rebuild_match_cache i) = ri_ranges i"
  by (simp_all add: rebuild_match_cache_def ri_ranges_def)

lemma key_range_eq: "r = s \<longleftrightarrow> kr_lower r = kr_lower s \<and> kr_upper r = kr_upper (s :: key_range)"
  by (cases r; cases s) simp

lemma in_ri_ranges:
  "r \<in> ri_ranges i \<longleftrightarrow> kr_upper r \<in> bs_elems
     (case kr_lower r of None \<Rightarrow> ri_unbounded_lower_uppers i
      | Some l \<Rightarrow> bt_get_or (ri_uppers_by_lower i) l bt_empty)"
  by (auto simp: ri_ranges_def bt_get_or_def split: option.split)

lemma bt_get_or_update:
  "bt_get_or (bt_insert k v m) l d = (if l = k then v else bt_get_or m l d)"
  "bt_get_or (bt_remove k m) l d = (if l = k then d else bt_get_or m l d)"
  by (simp_all add: bt_get_or_def)

lemma ri_insert:
  assumes "ri_ok i"
  shows "ri_ok (range_index_insert r i)"
    and "ri_ranges (range_index_insert r i) = insert r (ri_ranges i)"
proof -
  show "ri_ok (range_index_insert r i)"
    using assms by (auto simp: ri_ok_def range_index_insert_def simp flip: bs_elems_empty_iff
        split: option.splits)
  show "ri_ranges (range_index_insert r i) = insert r (ri_ranges i)"
    by (rule set_eqI)
       (auto simp: range_index_insert_def in_ri_ranges bt_get_or_update key_range_eq
          split: option.splits)
qed

lemma ri_remove:
  assumes "ri_ok i"
  shows "ri_ok (range_index_remove r i)"
    and "ri_ranges (range_index_remove r i) = ri_ranges i - {r}"
proof -
  show "ri_ok (range_index_remove r i)"
    using assms by (auto simp: ri_ok_def range_index_remove_def Let_def
        split: option.splits if_splits)
  show "ri_ranges (range_index_remove r i) = ri_ranges i - {r}"
  proof (rule set_eqI)
    fix x
    show "x \<in> ri_ranges (range_index_remove r i) \<longleftrightarrow> x \<in> ri_ranges i - {r}"
    proof (cases "kr_lower r")
      case None
      then show ?thesis
        by (cases "kr_lower x") (auto simp: range_index_remove_def in_ri_ranges key_range_eq)
    next
      case (Some l)
      show ?thesis
      proof (cases "bt_get (ri_uppers_by_lower i) l")
        case None
        then show ?thesis
          using Some by (auto simp: range_index_remove_def in_ri_ranges bt_get_or_def)
      next
        case (Some S)
        have "v \<in> bs_elems S \<Longrightarrow> v = kr_upper r" if "bt_remove (kr_upper r) S = bt_empty" for v
          using that by (metis Diff_iff bs_elems_empty_iff bs_elems_simps(3) empty_iff singletonD)
        with Some \<open>kr_lower r = Some l\<close> show ?thesis
          by (cases "kr_lower x"; cases "kr_lower x = Some l")
             (auto simp: range_index_remove_def Let_def in_ri_ranges bt_get_or_def key_range_eq)
      qed
    qed
  qed
qed

lemma ri_empty: "ri_ok range_index_default \<and> ri_ranges range_index_default = {}"
  by (simp add: ri_ok_def range_index_default_def ri_ranges_def rebuild_match_cache_def
      best_upper_for_set_def)

text \<open>
  The contract of a range index: insertions and removals change the set of ranges, and a key
  matches when one of them covers it. The lemma gives the answer after any history.
\<close>

datatype 'r index_update = Insert_Range 'r | Remove_Range 'r

fun update_ranges :: "'r index_update list \<Rightarrow> 'r set \<Rightarrow> 'r set" where
  "update_ranges [] R = R"
| "update_ranges (Insert_Range r # us) R = update_ranges us (insert r R)"
| "update_ranges (Remove_Range r # us) R = update_ranges us (R - {r})"

definition apply_update ::
  "('r \<Rightarrow> 'i \<Rightarrow> 'i) \<Rightarrow> ('r \<Rightarrow> 'i \<Rightarrow> 'i) \<Rightarrow> 'r index_update \<Rightarrow> 'i \<Rightarrow> 'i" where
  "apply_update insert_r remove_r u =
     (case u of Insert_Range r \<Rightarrow> insert_r r | Remove_Range r \<Rightarrow> remove_r r)"

locale range_matcher =
  fixes good :: "'i \<Rightarrow> bool"
    and ranges :: "'i \<Rightarrow> 'r set"
    and empty :: 'i
    and insert_r :: "'r \<Rightarrow> 'i \<Rightarrow> 'i"
    and remove_r :: "'r \<Rightarrow> 'i \<Rightarrow> 'i"
    and covers :: "'r \<Rightarrow> string \<Rightarrow> bool"
    and matches :: "'i \<Rightarrow> string \<Rightarrow> bool"
  assumes empty: "good empty" "ranges empty = {}"
    and insert_r: "good i \<Longrightarrow> good (insert_r r i)" "good i \<Longrightarrow> ranges (insert_r r i) = insert r (ranges i)"
    and remove_r: "good i \<Longrightarrow> good (remove_r r i)" "good i \<Longrightarrow> ranges (remove_r r i) = ranges i - {r}"
    and matches: "good i \<Longrightarrow> matches i key \<longleftrightarrow> (\<exists>r\<in>ranges i. covers r key)"
begin

lemma after_updates:
  "good i \<Longrightarrow> good (fold (apply_update insert_r remove_r) us i)
     \<and> ranges (fold (apply_update insert_r remove_r) us i) = update_ranges us (ranges i)"
proof (induction us arbitrary: i)
  case (Cons u us)
  then show ?case
    by (cases u) (simp_all add: apply_update_def insert_r remove_r)
qed simp

lemma history_decides:
  "matches (fold (apply_update insert_r remove_r) us empty) key \<longleftrightarrow> (\<exists>r\<in>update_ranges us {}. covers r key)"
  using after_updates [OF empty(1), of us] matches by (simp add: empty(2))

end

interpretation ri: range_matcher ri_ok ri_ranges range_index_default range_index_insert
    range_index_remove range_covers range_index_matches
  by unfold_locales (simp_all add: ri_empty ri_insert ri_remove ri_matches)

lemma ri_empty_iff: "range_index_is_empty i \<Longrightarrow> ri_ranges i = {}"
  by (simp add: range_index_is_empty_def ri_ranges_def)

section \<open>A router holds ranges and prefixes per table\<close>

definition router_ranges :: "subscription_router \<Rightarrow> string \<Rightarrow> key_range set" where
  "router_ranges r table =
     (case bt_get (sr_key_ranges_by_table r) table of None \<Rightarrow> {} | Some i \<Rightarrow> ri_ranges i)"

definition router_prefixes :: "subscription_router \<Rightarrow> string \<Rightarrow> string set" where
  "router_prefixes r table = bs_elems (bt_get_or (sr_key_prefixes_by_table r) table bt_empty)"

definition router_ok :: "subscription_router \<Rightarrow> bool" where
  "router_ok r \<longleftrightarrow> (\<forall>table i. bt_get (sr_key_ranges_by_table r) table = Some i \<longrightarrow> ri_ok i)"

lemma router_ranges_match:
  "router_ok r \<Longrightarrow> matches_key_range r table key \<longleftrightarrow> (\<exists>x\<in>router_ranges r table. range_covers x key)"
  by (auto simp: matches_key_range_def router_ranges_def router_ok_def ri.matches
      split: option.split)

lemma insert_key_range:
  assumes "router_ok r"
  shows "router_ok (insert_key_range table x r)"
    and "router_ranges (insert_key_range table x r) =
           (router_ranges r)(table := insert x (router_ranges r table))"
    and "router_prefixes (insert_key_range table x r) = router_prefixes r"
  using assms
  by (auto simp: router_ok_def insert_key_range_def router_ranges_def router_prefixes_def
      bt_get_or_def fun_eq_iff ri.empty ri.insert_r split: option.splits)

lemma remove_key_range:
  assumes "router_ok r"
  shows "router_ok (remove_key_range table x r)"
    and "router_ranges (remove_key_range table x r) =
           (router_ranges r)(table := router_ranges r table - {x})"
    and "router_prefixes (remove_key_range table x r) = router_prefixes r"
proof -
  have "ri_ranges i - {x} = {}" if "ri_ok i" "range_index_is_empty (range_index_remove x i)" for i
    using that ri_empty_iff ri.remove_r(2) by metis
  then show "router_ranges (remove_key_range table x r) =
           (router_ranges r)(table := router_ranges r table - {x})"
    using assms
    by (auto simp: router_ok_def remove_key_range_def router_ranges_def fun_eq_iff Let_def
        ri.remove_r split: option.splits)
qed (use assms in \<open>auto simp: router_ok_def remove_key_range_def router_prefixes_def Let_def
      ri.remove_r split: option.splits if_splits\<close>)

lemma insert_nested:
  "router_prefixes (insert_nested_table_subscription s r) =
     (router_prefixes r)(logical_table s := insert (key_prefix s) (router_prefixes r (logical_table s)))"
  "router_ranges (insert_nested_table_subscription s r) = router_ranges r"
  "router_ok (insert_nested_table_subscription s r) = router_ok r"
  by (auto simp: insert_nested_table_subscription_def router_prefixes_def router_ranges_def
      router_ok_def bt_get_or_update fun_eq_iff)

lemma remove_nested:
  "router_prefixes (remove_nested_table_subscription s r) =
     (router_prefixes r)(logical_table s := router_prefixes r (logical_table s) - {key_prefix s})"
  "router_ranges (remove_nested_table_subscription s r) = router_ranges r"
  "router_ok (remove_nested_table_subscription s r) = router_ok r"
proof -
  have "bs_elems S - {p} = {}" if "bt_remove p S = bt_empty" for S :: "string bset" and p
    using that by (metis bs_elems_empty_iff bs_elems_simps(3))
  then show "router_prefixes (remove_nested_table_subscription s r) =
     (router_prefixes r)(logical_table s := router_prefixes r (logical_table s) - {key_prefix s})"
    by (auto simp: remove_nested_table_subscription_def router_prefixes_def bt_get_or_def
        fun_eq_iff Let_def split: option.splits)
qed (auto simp: remove_nested_table_subscription_def router_ranges_def router_ok_def Let_def
      split: option.splits)

section \<open>The subscriptions of a connection\<close>

text \<open>The part of \<open>RealtimeConnectionState\<close> that the router serves.\<close>

record table_subscriptions =
  subscribed_tables :: "string bset"
  subscribed_table_ranges :: "table_subscription bset"
  subscribed_nested_tables :: "nested_table_subscription bset"
  record_subscription_router :: subscription_router

definition no_table_subscriptions :: table_subscriptions where
  "no_table_subscriptions =
     \<lparr>subscribed_tables = bt_empty, subscribed_table_ranges = bt_empty,
      subscribed_nested_tables = bt_empty, record_subscription_router = router_default\<rparr>"

definition add_table_subscription ::
  "table_subscription \<Rightarrow> 'a table_subscriptions_scheme \<Rightarrow> bool \<times> 'a table_subscriptions_scheme"
where
  "add_table_subscription s c =
     (if is_full_table s
      then (\<not> bt_contains (subscribed_tables c) (ts_table s),
            c\<lparr>subscribed_tables := bs_insert (ts_table s) (subscribed_tables c)\<rparr>)
      else
        let inserted = \<not> bt_contains (subscribed_table_ranges c) s;
            c' = c\<lparr>subscribed_table_ranges := bs_insert s (subscribed_table_ranges c)\<rparr>
        in (inserted,
            if inserted \<and> \<not> has_index_prefix s
            then c'\<lparr>record_subscription_router :=
                     insert_table_subscription s (record_subscription_router c')\<rparr>
            else c'))"

definition remove_table_subscription_entry ::
  "table_subscription \<Rightarrow> 'a table_subscriptions_scheme \<Rightarrow> bool \<times> 'a table_subscriptions_scheme"
where
  "remove_table_subscription_entry s c =
     (if is_full_table s
      then (bt_contains (subscribed_tables c) (ts_table s),
            c\<lparr>subscribed_tables := bt_remove (ts_table s) (subscribed_tables c)\<rparr>)
      else
        let removed = bt_contains (subscribed_table_ranges c) s;
            c' = c\<lparr>subscribed_table_ranges := bt_remove s (subscribed_table_ranges c)\<rparr>
        in (removed,
            if removed \<and> \<not> has_index_prefix s
            then c'\<lparr>record_subscription_router :=
                     remove_table_subscription s (record_subscription_router c')\<rparr>
            else c'))"

definition add_nested_table_subscription ::
  "nested_table_subscription \<Rightarrow> 'a table_subscriptions_scheme \<Rightarrow>
     bool \<times> 'a table_subscriptions_scheme" where
  "add_nested_table_subscription s c =
     (let inserted = \<not> bt_contains (subscribed_nested_tables c) s;
          c' = c\<lparr>subscribed_nested_tables := bs_insert s (subscribed_nested_tables c)\<rparr>
      in (inserted,
          if inserted
          then c'\<lparr>record_subscription_router :=
                   insert_nested_table_subscription s (record_subscription_router c')\<rparr>
          else c'))"

definition remove_nested_table_subscription_entry ::
  "nested_table_subscription \<Rightarrow> 'a table_subscriptions_scheme \<Rightarrow>
     bool \<times> 'a table_subscriptions_scheme" where
  "remove_nested_table_subscription_entry s c =
     (let removed = bt_contains (subscribed_nested_tables c) s;
          c' = c\<lparr>subscribed_nested_tables := bt_remove s (subscribed_nested_tables c)\<rparr>
      in (removed,
          if removed
          then c'\<lparr>record_subscription_router :=
                   remove_nested_table_subscription s (record_subscription_router c')\<rparr>
          else c'))"

text \<open>
  What the frame handlers check before they add a subscription: index values come with an
  index name (\<open>validate_table_subscription\<close>), and the table of a nested subscription is a
  declared top-level table, whose name has no dot (dotted names are split at the dot into
  table and nested table).
\<close>

definition index_values_need_name :: "table_subscription \<Rightarrow> bool" where
  "index_values_need_name s \<longleftrightarrow> (ts_index_name s = None \<longrightarrow> ts_index_values s = None)"

definition top_level_table :: "nested_table_subscription \<Rightarrow> bool" where
  "top_level_table s \<longleftrightarrow> CHR ''.'' \<notin> set (ns_table s)"

inductive subscriptions_reachable :: "table_subscriptions \<Rightarrow> bool" where
  sr_start: "subscriptions_reachable no_table_subscriptions"
| sr_add_table: "subscriptions_reachable c \<Longrightarrow> index_values_need_name s \<Longrightarrow>
    subscriptions_reachable (snd (add_table_subscription s c))"
| sr_remove_table: "subscriptions_reachable c \<Longrightarrow>
    subscriptions_reachable (snd (remove_table_subscription_entry s c))"
| sr_add_nested: "subscriptions_reachable c \<Longrightarrow> top_level_table n \<Longrightarrow>
    subscriptions_reachable (snd (add_nested_table_subscription n c))"
| sr_remove_nested: "subscriptions_reachable c \<Longrightarrow>
    subscriptions_reachable (snd (remove_nested_table_subscription_entry n c))"

definition plain_ranges :: "table_subscription set \<Rightarrow> string \<Rightarrow> key_range set" where
  "plain_ranges S table =
     range_of_subscription ` {s \<in> S. ts_table s = table \<and> \<not> has_index_prefix s}"

definition nested_prefixes :: "nested_table_subscription set \<Rightarrow> string \<Rightarrow> string set" where
  "nested_prefixes N table = key_prefix ` {n \<in> N. logical_table n = table}"

definition router_in_step :: "'a table_subscriptions_scheme \<Rightarrow> bool" where
  "router_in_step c \<longleftrightarrow>
     router_ok (record_subscription_router c)
   \<and> router_ranges (record_subscription_router c) = plain_ranges (bs_elems (subscribed_table_ranges c))
   \<and> router_prefixes (record_subscription_router c)
       = nested_prefixes (bs_elems (subscribed_nested_tables c))
   \<and> (\<forall>s\<in>bs_elems (subscribed_table_ranges c). index_values_need_name s)
   \<and> (\<forall>n\<in>bs_elems (subscribed_nested_tables c). top_level_table n)"

lemma plain_range_inject:
  assumes "index_values_need_name s" "index_values_need_name t" "\<not> has_index_prefix s"
    "\<not> has_index_prefix t" "ts_table s = ts_table t"
    "range_of_subscription s = range_of_subscription t"
  shows "s = t"
  using assms
  by (cases s; cases t)
     (simp add: index_values_need_name_def has_index_prefix_def range_of_subscription_def)

lemma takeWhile_before: "c \<notin> set a \<Longrightarrow> takeWhile (\<lambda>x. x \<noteq> c) (a @ c # b) = a"
  by (induction a) auto

lemma nested_inject:
  assumes "top_level_table m" "top_level_table n"
    "logical_table m = logical_table n" "key_prefix m = key_prefix n"
  shows "m = n"
proof -
  have split: "takeWhile (\<lambda>x. x \<noteq> CHR ''.'') (logical_table k) = ns_table k" if "top_level_table k" for k
    using that by (simp add: top_level_table_def logical_table_def nested_record_table_def
        takeWhile_before)
  have "ns_table m = ns_table n" using split assms(1-3) by metis
  moreover from this assms(3) have "ns_nested m = ns_nested n"
    by (simp add: logical_table_def nested_record_table_def)
  moreover have "ns_parent_key m = ns_parent_key n"
    using assms(4) by (simp add: key_prefix_def nested_record_prefix_def)
  ultimately show ?thesis by (cases m; cases n) simp
qed

lemma plain_ranges_insert:
  "plain_ranges (insert s S) =
     (if has_index_prefix s then plain_ranges S
      else (plain_ranges S)(ts_table s := insert (range_of_subscription s) (plain_ranges S (ts_table s))))"
  by (auto simp: plain_ranges_def fun_eq_iff)

lemma plain_ranges_remove:
  assumes "s \<in> S" "\<forall>s\<in>S. index_values_need_name s"
  shows "plain_ranges (S - {s}) =
     (if has_index_prefix s then plain_ranges S
      else (plain_ranges S)(ts_table s := plain_ranges S (ts_table s) - {range_of_subscription s}))"
proof -
  have "t = s" if "t \<in> S" "\<not> has_index_prefix t" "\<not> has_index_prefix s" "ts_table t = ts_table s"
    "range_of_subscription t = range_of_subscription s" for t
    using that assms plain_range_inject by blast
  then show ?thesis
    by (fastforce simp: plain_ranges_def fun_eq_iff image_iff)
qed

lemma nested_prefixes_insert:
  "nested_prefixes (insert n N) =
     (nested_prefixes N)(logical_table n := insert (key_prefix n) (nested_prefixes N (logical_table n)))"
  by (auto simp: nested_prefixes_def fun_eq_iff)

lemma nested_prefixes_remove:
  assumes "n \<in> N" "\<forall>n\<in>N. top_level_table n"
  shows "nested_prefixes (N - {n}) =
     (nested_prefixes N)(logical_table n := nested_prefixes N (logical_table n) - {key_prefix n})"
proof -
  have "m = n" if "m \<in> N" "logical_table m = logical_table n" "key_prefix m = key_prefix n" for m
    using that assms nested_inject by blast
  then show ?thesis
    by (fastforce simp: nested_prefixes_def fun_eq_iff image_iff)
qed

lemmas subscription_ops =
  add_table_subscription_def remove_table_subscription_entry_def
  add_nested_table_subscription_def remove_nested_table_subscription_entry_def
  insert_table_subscription_def remove_table_subscription_def

lemma in_step_start: "router_in_step no_table_subscriptions"
  by (simp add: router_in_step_def no_table_subscriptions_def router_ok_def router_default_def
      router_ranges_def router_prefixes_def bt_get_or_def plain_ranges_def nested_prefixes_def
      fun_eq_iff)

lemma in_step_add_table:
  "router_in_step c \<Longrightarrow> index_values_need_name s \<Longrightarrow> router_in_step (snd (add_table_subscription s c))"
  by (cases "s \<in> bs_elems (subscribed_table_ranges c)")
     (auto simp: router_in_step_def subscription_ops Let_def insert_key_range bs_contains_iff insert_absorb,
      auto simp: router_in_step_def subscription_ops Let_def insert_key_range bs_contains_iff
        plain_ranges_insert)

lemma in_step_remove_table:
  "router_in_step c \<Longrightarrow> router_in_step (snd (remove_table_subscription_entry s c))"
  by (cases "s \<in> bs_elems (subscribed_table_ranges c)")
     (auto simp: router_in_step_def subscription_ops Let_def remove_key_range bs_contains_iff,
      auto simp: router_in_step_def subscription_ops Let_def remove_key_range bs_contains_iff
        plain_ranges_remove)

lemma in_step_add_nested:
  "router_in_step c \<Longrightarrow> top_level_table n \<Longrightarrow> router_in_step (snd (add_nested_table_subscription n c))"
  by (cases "n \<in> bs_elems (subscribed_nested_tables c)")
     (auto simp: router_in_step_def subscription_ops Let_def insert_nested bs_contains_iff insert_absorb,
      auto simp: router_in_step_def subscription_ops Let_def insert_nested bs_contains_iff
        nested_prefixes_insert)

lemma in_step_remove_nested:
  "router_in_step c \<Longrightarrow> router_in_step (snd (remove_nested_table_subscription_entry n c))"
  by (cases "n \<in> bs_elems (subscribed_nested_tables c)")
     (auto simp: router_in_step_def subscription_ops Let_def remove_nested bs_contains_iff,
      auto simp: router_in_step_def subscription_ops Let_def remove_nested bs_contains_iff
        nested_prefixes_remove)

lemma reachable_in_step: "subscriptions_reachable c \<Longrightarrow> router_in_step c"
  by (induction rule: subscriptions_reachable.induct)
     (simp_all add: in_step_start in_step_add_table in_step_remove_table in_step_add_nested
       in_step_remove_nested)

section \<open>The prefix lookup\<close>

lemma between_prefix:
  "prefix q key \<Longrightarrow> q \<le> f \<Longrightarrow> f \<le> key \<Longrightarrow> prefix q (f :: string)"
proof (induction q arbitrary: key f)
  case (Cons a q)
  then obtain key' where key: "key = a # key'" "prefix q key'" by (cases key) auto
  from Cons.prems key obtain f' where f: "f = a # f'" "q \<le> f'" "f' \<le> key'"
    by (cases f) (auto split: if_splits)
  show ?case using Cons.IH [OF key(2) f(2,3)] f(1) by simp
qed simp

lemma prefix_le: "prefix p key \<Longrightarrow> p \<le> (key :: string)"
proof (induction p arbitrary: key)
  case (Cons a p)
  then show ?case by (cases key) auto
qed simp

definition prefix_free :: "string set \<Rightarrow> bool" where
  "prefix_free P \<longleftrightarrow> (\<forall>p\<in>P. \<forall>q\<in>P. prefix p q \<longrightarrow> p = q)"

text \<open>The greatest prefix at or below a key decides when no stored prefix extends another.\<close>

lemma floor_prefix_decides:
  assumes "prefix_free (bs_elems S)"
  shows "(case bt_floor S key of None \<Rightarrow> False | Some (p, _) \<Rightarrow> starts_with key p)
    \<longleftrightarrow> (\<exists>p\<in>bs_elems S. starts_with key p)"
proof (cases "\<exists>p\<in>bs_elems S. prefix p key")
  case True
  then obtain p where p: "p \<in> bs_elems S" "prefix p key" by auto
  have "p \<le> key" using p(2) by (rule prefix_le)
  then obtain f where f: "bt_floor S key = Some (f, ())"
    using p(1) by (cases "bt_floor S key") (auto simp: bt_floor_None bs_elems_def bt_contains_def)
  then have "f \<in> bs_elems S" "f \<le> key" "p \<le> f"
    using p(1) \<open>p \<le> key\<close> by (auto simp: bt_floor_Some bs_elems_def bt_contains_def)
  then have "f = p" using between_prefix [OF p(2)] assms p(1) by (auto simp: prefix_free_def)
  with f p show ?thesis by (auto simp: starts_with_prefix)
next
  case False
  then show ?thesis
    by (auto simp: starts_with_prefix bt_floor_Some bs_elems_def bt_contains_def
        split: option.split)
qed

definition parent_keys_plain :: "nested_table_subscription bset \<Rightarrow> bool" where
  "parent_keys_plain N \<longleftrightarrow> list_all (\<lambda>n. CHR '':'' \<notin> set (ns_parent_key n)) (bt_keys N)"

lemma plain_prefixes_free:
  assumes "parent_keys_plain N"
  shows "prefix_free (nested_prefixes (bs_elems N) table)"
proof -
  have "ns_parent_key m = ns_parent_key n"
    if "m \<in> bs_elems N" "n \<in> bs_elems N" "prefix (key_prefix m) (key_prefix n)" for m n
  proof -
    have plain: "CHR '':'' \<notin> set (ns_parent_key m)" "CHR '':'' \<notin> set (ns_parent_key n)"
      using assms that(1,2) by (auto simp: parent_keys_plain_def list_all_iff set_bs_keys)
    from that(3) obtain x where "ns_parent_key n @ '':'' = ns_parent_key m @ '':'' @ x"
      by (auto simp: key_prefix_def nested_record_prefix_def prefix_def)
    then have "takeWhile (\<lambda>c. c \<noteq> CHR '':'') (ns_parent_key n @ CHR '':'' # [])
        = takeWhile (\<lambda>c. c \<noteq> CHR '':'') (ns_parent_key m @ CHR '':'' # x)" by simp
    with plain takeWhile_before [of _ "ns_parent_key n" "[]"] show ?thesis
      by (simp add: takeWhile_before)
  qed
  then show ?thesis
    by (fastforce simp: prefix_free_def nested_prefixes_def key_prefix_def)
qed

lemma prefix_lookup:
  "matches_key_prefix r table key \<longleftrightarrow>
     (case bt_floor (bt_get_or (sr_key_prefixes_by_table r) table bt_empty) key of
        None \<Rightarrow> False | Some (p, _) \<Rightarrow> starts_with key p)"
proof -
  have "bt_floor (bt_empty :: string bset) key = None" by (simp add: bt_floor_None)
  then show ?thesis by (auto simp: matches_key_prefix_def bt_get_or_def split: option.split)
qed

lemma router_is_filters:
  assumes "router_in_step c" "parent_keys_plain (subscribed_nested_tables c)"
  shows "router_matches (record_subscription_router c) table key \<longleftrightarrow>
     record_matches_table_filters table key bt_empty (subscribed_table_ranges c)
       (subscribed_nested_tables c)"
proof -
  let ?r = "record_subscription_router c"
  have ok: "router_ok ?r"
    and ranges: "router_ranges ?r = plain_ranges (bs_elems (subscribed_table_ranges c))"
    and pfxs: "router_prefixes ?r = nested_prefixes (bs_elems (subscribed_nested_tables c))"
    using assms(1) by (simp_all add: router_in_step_def)
  have "prefix_free (bs_elems (bt_get_or (sr_key_prefixes_by_table ?r) table bt_empty))"
    using plain_prefixes_free [OF assms(2), of table] fun_cong [OF pfxs, of table]
    by (simp add: router_prefixes_def)
  from floor_prefix_decides [OF this] have
    "matches_key_prefix ?r table key \<longleftrightarrow> (\<exists>p\<in>router_prefixes ?r table. starts_with key p)"
    by (simp only: prefix_lookup router_prefixes_def)
  then show ?thesis
    by (auto simp: router_matches_def router_ranges_match [OF ok] ranges pfxs plain_ranges_def
        nested_prefixes_def record_matches_table_filters_def list_ex_iff set_bs_keys
        subscription_matches_def range_covers_def range_of_subscription_def)
qed

section \<open>Properties\<close>


text \<open>A connection that subscribed to two ranges and a parent, and dropped the wider range.\<close>

definition demo_range :: "string option \<Rightarrow> string option \<Rightarrow> table_subscription" where
  "demo_range l u = \<lparr>ts_table = ''users'', ts_lower_key = l, ts_upper_key = u,
     ts_index_name = None, ts_index_values = None\<rparr>"

definition demo_nested :: "string \<Rightarrow> nested_table_subscription" where
  "demo_nested parent_key =
     \<lparr>ns_table = ''rooms'', ns_parent_key = parent_key, ns_nested = ''messages''\<rparr>"

definition demo_connection :: table_subscriptions where
  "demo_connection =
     snd (remove_table_subscription_entry (demo_range None (Some ''z''))
       (snd (add_nested_table_subscription (demo_nested ''a'')
         (snd (add_table_subscription (demo_range (Some ''b'') (Some ''d''))
           (snd (add_table_subscription (demo_range None (Some ''z''))
             no_table_subscriptions)))))))"

lemma demo_connection_reachable: "subscriptions_reachable demo_connection"
  unfolding demo_connection_def
  by (intro subscriptions_reachable.intros)
     (simp_all add: index_values_need_name_def top_level_table_def demo_range_def demo_nested_def)

lemma demo_connection_plain: "parent_keys_plain (subscribed_nested_tables demo_connection)"
  by code_simp


definition colon_connection :: table_subscriptions where
  "colon_connection =
     snd (add_nested_table_subscription (demo_nested ''a:b'')
       (snd (add_nested_table_subscription (demo_nested ''a'') no_table_subscriptions)))"

text \<open>
  C40. With a colon in a parent key the router loses events: a connection subscribed to the
  messages of the rooms \<open>a\<close> and \<open>a:b\<close> is not offered the message \<open>c\<close> of room \<open>a\<close>. Its key
  \<open>a:c\<close> has the prefix \<open>a:\<close> of the first subscription, but the greatest stored prefix at or
  below it is \<open>a:b:\<close>, the only one the router asks. Colons are legal in record keys.
\<close>

theorem router_misses_nested_event:
  "subscriptions_reachable colon_connection
   \<and> record_matches_table_filters ''rooms.messages'' (nested_record_key ''a'' ''c'')
       (subscribed_tables colon_connection) (subscribed_table_ranges colon_connection)
       (subscribed_nested_tables colon_connection)
   \<and> \<not> record_matches_table_router ''rooms.messages'' (nested_record_key ''a'' ''c'')
       (subscribed_tables colon_connection) (record_subscription_router colon_connection)"
proof (intro conjI)
  show "subscriptions_reachable colon_connection"
    unfolding colon_connection_def
    by (intro subscriptions_reachable.intros) (simp_all add: top_level_table_def demo_nested_def)
qed code_simp+

text \<open>
  The range index answers any history: after a sequence of insertions and removals of key
  ranges it matches a key exactly when a range that is still inserted covers the key, so the
  cached best upper bounds are never stale.
\<close>

theorem range_index_history:
  "range_index_matches (fold (apply_update range_index_insert range_index_remove) us range_index_default) key \<longleftrightarrow>
     (\<exists>r. r \<in> update_ranges us {} \<and> in_range (kr_lower r) (kr_upper r) key)"
  using ri.history_decides [of us key] by (auto simp: range_covers_def)

end
