(* ===== verification/Record_Hot.thy ===== *)
theory Record_Hot
  imports Util Model
begin

text \<open>
  The hot cache of records (\<open>record_hot.rs\<close>): for every table the schema keeps in memory, the
  current rows, the tombstones of durable deletes the disk projection has not applied yet, the
  bookkeeping of volatile rows (rows that exist in memory only), and the access order by which
  a bounded table evicts. \<open>now_ms()\<close> is an argument \<open>now\<close> of the operations that read the
  clock; the counts of objects in memory (\<open>usize\<close> in the code) are natural numbers.
\<close>

section \<open>State\<close>

datatype storage_class =
    ActorPartition
  | Resident
  | Lru nat
  | DiskStorage
  | ChatLog string "string list" nat
  | ObjectStorage

record hot_counters =
  hc_get_total :: u64
  hc_get_hit_total :: u64
  hc_get_miss_total :: u64
  hc_list_total :: u64
  hc_list_records_total :: u64
  hc_hydrate_durable_total :: u64
  hc_hydrate_durable_skipped_volatile_total :: u64
  hc_upsert_total :: u64
  hc_delete_total :: u64
  hc_evict_total :: u64
  hc_lru_evicted_total :: u64

record 'n hot_table =
  ht_storage :: storage_class
  ht_max_items :: "nat option"
  ht_records :: "(string, 'n db_record) btree"
  ht_durable_delete_tombstones :: "(string, u64) btree"
  ht_volatile_records :: nat
  ht_volatile_generation :: u64
  ht_volatile_key_prefixes :: "(string, nat) btree"
  ht_volatile_key_prefix_generations :: "(string, u64) btree"
  ht_access :: "(string, u64) btree"
  ht_last_accessed_ms :: "(string, u64) btree"
  ht_counters :: hot_counters

text \<open>The eleven totals of \<open>RecordHotState\<close> are those of a table, summed over the tables.\<close>

record 'n hot_state =
  hs_tables :: "(string, 'n hot_table) btree"
  hs_access_seq :: u64
  hs_durable_idle_ttl_ms :: u64
  hs_durable_idle_last_sweep_at_ms :: "u64 option"
  hs_durable_idle_last_evicted :: nat
  hs_durable_idle_total_evicted :: nat
  hs_totals :: hot_counters

record 'n key_order_overlay =
  ov_records :: "'n db_record list"
  ov_shadow_keys :: "string bset"

definition counters_default :: hot_counters where
  "counters_default =
     \<lparr>hc_get_total = 0, hc_get_hit_total = 0, hc_get_miss_total = 0, hc_list_total = 0,
      hc_list_records_total = 0, hc_hydrate_durable_total = 0,
      hc_hydrate_durable_skipped_volatile_total = 0, hc_upsert_total = 0, hc_delete_total = 0,
      hc_evict_total = 0, hc_lru_evicted_total = 0\<rparr>"

definition empty_hot_table :: "storage_class \<Rightarrow> nat option \<Rightarrow> 'n hot_table" where
  "empty_hot_table storage max_items =
     \<lparr>ht_storage = storage, ht_max_items = max_items, ht_records = bt_empty,
      ht_durable_delete_tombstones = bt_empty, ht_volatile_records = 0,
      ht_volatile_generation = 0, ht_volatile_key_prefixes = bt_empty,
      ht_volatile_key_prefix_generations = bt_empty, ht_access = bt_empty,
      ht_last_accessed_ms = bt_empty, ht_counters = counters_default\<rparr>"

text \<open>\<open>tables.get_mut(table)\<close>: change a table in place, if the cache holds it.\<close>

definition update_table ::
  "string \<Rightarrow> ('n hot_table \<Rightarrow> 'n hot_table) \<Rightarrow> 'n hot_state \<Rightarrow> 'n hot_state" where
  "update_table table f s =
     (case bt_get (hs_tables s) table of
        None \<Rightarrow> s
      | Some t \<Rightarrow> s\<lparr>hs_tables := bt_insert table (f t) (hs_tables s)\<rparr>)"

text \<open>A counter of the table and the same counter of the totals.\<close>

definition count_both ::
  "(hot_counters \<Rightarrow> hot_counters) \<Rightarrow> string \<Rightarrow> 'n hot_state \<Rightarrow> 'n hot_state" where
  "count_both f table s =
     update_table table (\<lambda>t. t\<lparr>ht_counters := f (ht_counters t)\<rparr>)
       (s\<lparr>hs_totals := f (hs_totals s)\<rparr>)"

section \<open>Volatile rows\<close>

definition is_durable_record :: "'n db_record \<Rightarrow> bool" where
  "is_durable_record r \<longleftrightarrow> 0 < rec_lsn r \<and> \<not> starts_with (rec_path r) ''volatile/''"

fun volatile_key_prefixes :: "string \<Rightarrow> string list" where
  "volatile_key_prefixes [] = []"
| "volatile_key_prefixes (c # cs) =
     (if c = CHR '':'' then [[c]] else []) @ map (Cons c) (volatile_key_prefixes cs)"

definition bump_prefix_generation :: "string \<Rightarrow> (string, u64) btree \<Rightarrow> (string, u64) btree" where
  "bump_prefix_generation p m = bt_insert p (sat_add (bt_get_or m p 0) 1) m"

definition bump_volatile_generation :: "string \<Rightarrow> 'n hot_table \<Rightarrow> 'n hot_table" where
  "bump_volatile_generation key t =
     t\<lparr>ht_volatile_generation := sat_add (ht_volatile_generation t) 1,
       ht_volatile_key_prefix_generations :=
         fold bump_prefix_generation (volatile_key_prefixes key)
           (ht_volatile_key_prefix_generations t)\<rparr>"

definition adjust_prefix :: "int \<Rightarrow> string \<Rightarrow> (string, nat) btree \<Rightarrow> (string, nat) btree" where
  "adjust_prefix delta p m =
     (if 0 < delta then bt_insert p (bt_get_or m p 0 + nat delta) m
      else case bt_get m p of
             None \<Rightarrow> m
           | Some c \<Rightarrow>
               let c' = c - nat (- delta)
               in if c' = 0 then bt_remove p m else bt_insert p c' m)"

definition adjust_volatile_key_prefixes :: "string \<Rightarrow> int \<Rightarrow> 'n hot_table \<Rightarrow> 'n hot_table" where
  "adjust_volatile_key_prefixes key delta t =
     t\<lparr>ht_volatile_key_prefixes :=
         fold (adjust_prefix delta) (volatile_key_prefixes key) (ht_volatile_key_prefixes t)\<rparr>"

definition update_volatile_record_state ::
  "string \<Rightarrow> bool \<Rightarrow> bool \<Rightarrow> 'n hot_table \<Rightarrow> 'n hot_table" where
  "update_volatile_record_state key old_is_volatile new_is_volatile t =
     (let t1 = (if old_is_volatile \<or> new_is_volatile then bump_volatile_generation key t else t)
      in case (old_is_volatile, new_is_volatile) of
           (False, True) \<Rightarrow>
             adjust_volatile_key_prefixes key 1
               (t1\<lparr>ht_volatile_records := ht_volatile_records t1 + 1\<rparr>)
         | (True, False) \<Rightarrow>
             adjust_volatile_key_prefixes key (- 1)
               (t1\<lparr>ht_volatile_records := ht_volatile_records t1 - 1\<rparr>)
         | _ \<Rightarrow> t1)"

text \<open>The row stored under a key is a volatile one.\<close>

definition holds_volatile :: "'n hot_table \<Rightarrow> string \<Rightarrow> bool" where
  "holds_volatile t key \<longleftrightarrow>
     (case bt_get (ht_records t) key of None \<Rightarrow> False | Some r \<Rightarrow> \<not> is_durable_record r)"

definition forget_access :: "string \<Rightarrow> 'n hot_table \<Rightarrow> 'n hot_table" where
  "forget_access key t =
     t\<lparr>ht_access := bt_remove key (ht_access t),
       ht_last_accessed_ms := bt_remove key (ht_last_accessed_ms t)\<rparr>"

text \<open>\<open>records.remove(key)\<close> with the volatile bookkeeping of the removed row.\<close>

definition remove_row :: "string \<Rightarrow> 'n hot_table \<Rightarrow> 'n hot_table" where
  "remove_row key t =
     (case bt_get (ht_records t) key of
        None \<Rightarrow> t
      | Some removed \<Rightarrow>
          update_volatile_record_state key (\<not> is_durable_record removed) False
            (t\<lparr>ht_records := bt_remove key (ht_records t)\<rparr>))"

section \<open>Access order and eviction\<close>

fun touch_keys :: "u64 \<Rightarrow> string list \<Rightarrow> u64 \<Rightarrow> 'n hot_table \<Rightarrow> u64 \<times> 'n hot_table" where
  "touch_keys now [] access_seq t = (access_seq, t)"
| "touch_keys now (key # ks) access_seq t =
     (if bt_contains (ht_records t) key
      then touch_keys now ks (sat_add access_seq 1)
             (t\<lparr>ht_access := bt_insert key (sat_add access_seq 1) (ht_access t),
                ht_last_accessed_ms := bt_insert key now (ht_last_accessed_ms t)\<rparr>)
      else touch_keys now ks access_seq t)"

definition touch_many :: "u64 \<Rightarrow> string \<Rightarrow> string list \<Rightarrow> 'n hot_state \<Rightarrow> 'n hot_state" where
  "touch_many now table ks s =
     (case bt_get (hs_tables s) table of
        None \<Rightarrow> s
      | Some t \<Rightarrow>
          let (seq, t') = touch_keys now ks (hs_access_seq s) t
          in s\<lparr>hs_access_seq := seq, hs_tables := bt_insert table t' (hs_tables s)\<rparr>)"

text \<open>\<open>min_by_key\<close> returns the first of several minimal elements.\<close>

fun first_min :: "('k \<Rightarrow> 'a::linorder) \<Rightarrow> 'k list \<Rightarrow> 'k option" where
  "first_min f [] = None"
| "first_min f (k # ks) =
     (case first_min f ks of
        None \<Rightarrow> Some k
      | Some m \<Rightarrow> if f k \<le> f m then Some k else Some m)"

definition access_of :: "'n hot_table \<Rightarrow> string \<Rightarrow> u64" where
  "access_of t key = bt_get_or (ht_access t) key 0"

definition lru_victims :: "'n hot_table \<Rightarrow> string list" where
  "lru_victims t =
     (case ht_max_items t of
        None \<Rightarrow> []
      | Some max_items \<Rightarrow>
          let overflow = bt_len (ht_records t) - max_items
          in if overflow = 0 then []
             else if overflow = 1
             then (case first_min (access_of t) (bt_keys (ht_records t)) of
                     None \<Rightarrow> [] | Some k \<Rightarrow> [k])
             else map snd (take overflow
                    (sort (map (\<lambda>k. (access_of t k, k)) (bt_keys (ht_records t))))))"

definition evict_lru_victim :: "string \<Rightarrow> 'n hot_table \<Rightarrow> 'n hot_table" where
  "evict_lru_victim victim t =
     (let t' = forget_access victim (remove_row victim t)
      in t'\<lparr>ht_counters := (ht_counters t')
              \<lparr>hc_lru_evicted_total := sat_add (hc_lru_evicted_total (ht_counters t')) 1\<rparr>\<rparr>)"

definition evict_lru :: "string \<Rightarrow> 'n hot_state \<Rightarrow> 'n hot_state" where
  "evict_lru table s =
     (case bt_get (hs_tables s) table of
        None \<Rightarrow> s
      | Some t \<Rightarrow>
          let victims = lru_victims t;
              s' = s\<lparr>hs_tables := bt_insert table (fold evict_lru_victim victims t) (hs_tables s)\<rparr>
          in if victims = [] then s
             else s'\<lparr>hs_totals := (hs_totals s')
                       \<lparr>hc_lru_evicted_total :=
                          sat_add (hc_lru_evicted_total (hs_totals s'))
                            (word_of_nat (length victims))\<rparr>\<rparr>)"

definition idle_victims :: "u64 \<Rightarrow> u64 \<Rightarrow> 'n hot_table \<Rightarrow> string list" where
  "idle_victims now ttl t =
     map fst (filter (\<lambda>(key, r).
       is_durable_record r
       \<and> (let last = bt_get_or (ht_last_accessed_ms t) key 0
          in 0 < last \<and> ttl < sat_sub now last)) (bt_entries (ht_records t)))"

definition evict_idle_victim :: "string \<Rightarrow> 'n hot_table \<Rightarrow> 'n hot_table" where
  "evict_idle_victim victim t = forget_access victim (remove_row victim t)"

definition evict_idle_table :: "u64 \<Rightarrow> u64 \<Rightarrow> 'n hot_table \<Rightarrow> 'n hot_table" where
  "evict_idle_table now ttl t = fold evict_idle_victim (idle_victims now ttl t) t"

definition evict_idle_durable_records :: "u64 \<Rightarrow> 'n hot_state \<Rightarrow> nat \<times> 'n hot_state" where
  "evict_idle_durable_records now s =
     (let ttl = hs_durable_idle_ttl_ms s in
      if ttl = 0 then (0, s)
      else
        let evicted =
              sum_list (map (\<lambda>t. length (idle_victims now ttl t)) (bt_values (hs_tables s)))
        in (evicted,
            s\<lparr>hs_tables := bt_map (\<lambda>_ t. evict_idle_table now ttl t) (hs_tables s),
              hs_durable_idle_last_sweep_at_ms := Some now,
              hs_durable_idle_last_evicted := evicted,
              hs_durable_idle_total_evicted := hs_durable_idle_total_evicted s + evicted\<rparr>))"

section \<open>Reads\<close>

definition key_order_records :: "'n hot_table \<Rightarrow> string option \<Rightarrow> 'n db_record list" where
  "key_order_records t after_key =
     filter (\<lambda>r. case after_key of Some after \<Rightarrow> after < rec_key r | None \<Rightarrow> True)
       (map snd (filter (\<lambda>(k, _). (case after_key of Some after \<Rightarrow> after | None \<Rightarrow> []) \<le> k)
         (bt_entries (ht_records t))))"

definition key_prefix_records ::
  "'n hot_table \<Rightarrow> string \<Rightarrow> string option \<Rightarrow> 'n db_record list" where
  "key_prefix_records t key_prefix after_key =
     (let start = (case after_key of
                     Some after \<Rightarrow> if key_prefix < after then after else key_prefix
                   | None \<Rightarrow> key_prefix)
      in filter (\<lambda>r. case after_key of Some after \<Rightarrow> after < rec_key r | None \<Rightarrow> True)
           (takeWhile (\<lambda>r. starts_with (rec_key r) key_prefix)
             (map snd (filter (\<lambda>(k, _). start \<le> k) (bt_entries (ht_records t))))))"

definition tombstone_keys :: "'n hot_table \<Rightarrow> string option \<Rightarrow> string option \<Rightarrow> string list" where
  "tombstone_keys t key_prefix after_key =
     (let start = (case (key_prefix, after_key) of
                     (_, Some after) \<Rightarrow> after
                   | (Some pfx, None) \<Rightarrow> pfx
                   | (None, None) \<Rightarrow> [])
      in filter (\<lambda>key. case after_key of Some after \<Rightarrow> after < key | None \<Rightarrow> True)
           (takeWhile (\<lambda>key. case key_prefix of Some pfx \<Rightarrow> starts_with key pfx | None \<Rightarrow> True)
             (filter (\<lambda>k. start \<le> k) (bt_keys (ht_durable_delete_tombstones t)))))"

definition note_list :: "string \<Rightarrow> nat \<Rightarrow> 'n hot_state \<Rightarrow> 'n hot_state" where
  "note_list table records s =
     count_both (\<lambda>c. c\<lparr>hc_list_total := sat_add (hc_list_total c) 1,
       hc_list_records_total := sat_add (hc_list_records_total c) (word_of_nat records)\<rparr>) table s"

text \<open>A read outside the cache (\<open>None\<close>), of an absent row, or of a row it touches.\<close>

definition hot_get ::
  "u64 \<Rightarrow> string \<Rightarrow> string \<Rightarrow> 'n hot_state \<Rightarrow> 'n db_record option option \<times> 'n hot_state" where
  "hot_get now table key s =
     (case bt_get (hs_tables s) table of
        None \<Rightarrow> (None, s)
      | Some t \<Rightarrow>
          let rec = bt_get (ht_records t) key;
              s1 = count_both (\<lambda>c. c\<lparr>hc_get_total := sat_add (hc_get_total c) 1\<rparr>) table s
          in if rec \<noteq> None
             then (Some rec, touch_many now table [key]
                     (count_both (\<lambda>c. c\<lparr>hc_get_hit_total := sat_add (hc_get_hit_total c) 1\<rparr>)
                       table s1))
             else (Some rec,
                   count_both (\<lambda>c. c\<lparr>hc_get_miss_total := sat_add (hc_get_miss_total c) 1\<rparr>)
                     table s1))"

text \<open>The reads that return rows count them and touch them.\<close>

definition note_rows :: "u64 \<Rightarrow> string \<Rightarrow> 'n db_record list \<Rightarrow> 'n hot_state \<Rightarrow> 'n hot_state" where
  "note_rows now table rs s = touch_many now table (map rec_key rs) (note_list table (length rs) s)"

definition hot_list ::
  "u64 \<Rightarrow> string \<Rightarrow> string option \<Rightarrow> nat option \<Rightarrow> 'n hot_state \<Rightarrow>
     'n db_record list option \<times> 'n hot_state" where
  "hot_list now table after_key limit s =
     (case bt_get (hs_tables s) table of
        None \<Rightarrow> (None, s)
      | Some t \<Rightarrow>
          let rs = take (normalize_limit limit) (key_order_records t after_key)
          in (Some rs, note_rows now table rs s))"

definition hot_list_by_key_prefix ::
  "u64 \<Rightarrow> string \<Rightarrow> string \<Rightarrow> string option \<Rightarrow> nat option \<Rightarrow> 'n hot_state \<Rightarrow>
     'n db_record list option \<times> 'n hot_state" where
  "hot_list_by_key_prefix now table key_prefix after_key limit s =
     (case bt_get (hs_tables s) table of
        None \<Rightarrow> (None, s)
      | Some t \<Rightarrow>
          let rs = take (normalize_limit limit) (key_prefix_records t key_prefix after_key)
          in (Some rs, note_rows now table rs s))"

definition scoped_records ::
  "'n hot_table \<Rightarrow> string option \<Rightarrow> string option \<Rightarrow> 'n db_record list" where
  "scoped_records t key_prefix after_key =
     (case key_prefix of
        Some pfx \<Rightarrow> key_prefix_records t pfx after_key
      | None \<Rightarrow> key_order_records t after_key)"

definition scan_key_order ::
  "u64 \<Rightarrow> string \<Rightarrow> string option \<Rightarrow> string option \<Rightarrow> 'n hot_state \<Rightarrow>
     'n db_record list option \<times> 'n hot_state" where
  "scan_key_order now table key_prefix after_key s =
     (case bt_get (hs_tables s) table of
        None \<Rightarrow> (None, s)
      | Some t \<Rightarrow>
          let rs = scoped_records t key_prefix after_key in (Some rs, note_rows now table rs s))"

definition scan_key_order_overlay ::
  "u64 \<Rightarrow> string \<Rightarrow> string option \<Rightarrow> string option \<Rightarrow> 'n hot_state \<Rightarrow>
     'n key_order_overlay option \<times> 'n hot_state" where
  "scan_key_order_overlay now table key_prefix after_key s =
     (case bt_get (hs_tables s) table of
        None \<Rightarrow> (None, s)
      | Some t \<Rightarrow>
          let rs = scoped_records t key_prefix after_key;
              shadow_keys = fold bs_insert (tombstone_keys t key_prefix after_key)
                              (bs_collect (map rec_key rs))
          in (Some \<lparr>ov_records = rs, ov_shadow_keys = shadow_keys\<rparr>, note_rows now table rs s))"

definition is_windowed_table :: "'n hot_state \<Rightarrow> string \<Rightarrow> bool" where
  "is_windowed_table s table \<longleftrightarrow>
     (case bt_get (hs_tables s) table of None \<Rightarrow> False | Some t \<Rightarrow> ht_max_items t \<noteq> None)"

definition is_lru_table :: "'n hot_state \<Rightarrow> string \<Rightarrow> bool" where
  "is_lru_table s table \<longleftrightarrow>
     (case bt_get (hs_tables s) table of
        None \<Rightarrow> False | Some t \<Rightarrow> (case ht_storage t of Lru _ \<Rightarrow> True | _ \<Rightarrow> False))"

definition is_hot_table :: "'n hot_state \<Rightarrow> string \<Rightarrow> bool" where
  "is_hot_table s table \<longleftrightarrow> bt_contains (hs_tables s) table"

definition durable_delete_lsn :: "'n hot_state \<Rightarrow> string \<Rightarrow> string \<Rightarrow> u64 option option" where
  "durable_delete_lsn s table key =
     map_option (\<lambda>t. bt_get (ht_durable_delete_tombstones t) key) (bt_get (hs_tables s) table)"

definition volatile_generation_in_scope :: "'n hot_state \<Rightarrow> string \<Rightarrow> string option \<Rightarrow> u64" where
  "volatile_generation_in_scope s table key_prefix =
     (case bt_get (hs_tables s) table of
        None \<Rightarrow> 0
      | Some t \<Rightarrow>
          (case key_prefix of
             Some pfx \<Rightarrow> bt_get_or (ht_volatile_key_prefix_generations t) pfx 0
           | None \<Rightarrow> ht_volatile_generation t))"

section \<open>Writes\<close>

definition put_row :: "'n db_record \<Rightarrow> 'n hot_table \<Rightarrow> 'n hot_table" where
  "put_row r t =
     (let key = rec_key r;
          t1 = (if is_durable_record r \<and>
                   (case bt_get (ht_durable_delete_tombstones t) key of
                      None \<Rightarrow> True | Some deleted_lsn \<Rightarrow> deleted_lsn \<le> rec_lsn r)
                then t\<lparr>ht_durable_delete_tombstones :=
                         bt_remove key (ht_durable_delete_tombstones t)\<rparr>
                else t)
      in update_volatile_record_state key (holds_volatile t1 key) (\<not> is_durable_record r)
           (t1\<lparr>ht_records := bt_insert key r (ht_records t1)\<rparr>))"

text \<open>The name of the table, when the cache holds it, is the first component.\<close>

definition upsert_internal ::
  "u64 \<Rightarrow> 'n db_record \<Rightarrow> bool \<Rightarrow> bool \<Rightarrow> 'n hot_state \<Rightarrow> string option \<times> 'n hot_state" where
  "upsert_internal now r count_upsert evict s =
     (let table = rec_table r in
      case bt_get (hs_tables s) table of
        None \<Rightarrow> (None, s)
      | Some _ \<Rightarrow>
          let s1 = (if count_upsert
                    then count_both (\<lambda>c. c\<lparr>hc_upsert_total := sat_add (hc_upsert_total c) 1\<rparr>) table s
                    else s);
              s2 = touch_many now table [rec_key r] (update_table table (put_row r) s1)
          in (Some table, if evict then evict_lru table s2 else s2))"

definition hot_upsert :: "u64 \<Rightarrow> 'n db_record \<Rightarrow> 'n hot_state \<Rightarrow> 'n hot_state" where
  "hot_upsert now r s = snd (upsert_internal now r True True s)"

definition hydrate_durable ::
  "u64 \<Rightarrow> 'n db_record \<Rightarrow> bool \<Rightarrow> 'n hot_state \<Rightarrow> string option \<times> 'n hot_state" where
  "hydrate_durable now r evict s =
     (if \<not> is_durable_record r then (None, s)
      else case bt_get (hs_tables s) (rec_table r) of
             None \<Rightarrow> upsert_internal now r False evict s
           | Some t \<Rightarrow>
               if holds_volatile t (rec_key r)
               then (None,
                     count_both (\<lambda>c. c\<lparr>hc_hydrate_durable_skipped_volatile_total :=
                       sat_add (hc_hydrate_durable_skipped_volatile_total c) 1\<rparr>) (rec_table r) s)
               else upsert_internal now r False evict
                      (count_both (\<lambda>c. c\<lparr>hc_hydrate_durable_total :=
                        sat_add (hc_hydrate_durable_total c) 1\<rparr>) (rec_table r) s))"

definition hot_delete :: "string \<Rightarrow> string \<Rightarrow> 'n hot_state \<Rightarrow> 'n hot_state" where
  "hot_delete table key s =
     (case bt_get (hs_tables s) table of
        None \<Rightarrow> s
      | Some t \<Rightarrow>
          if bt_contains (ht_records t) key
          then count_both (\<lambda>c. c\<lparr>hc_delete_total := sat_add (hc_delete_total c) 1\<rparr>) table
                 (update_table table (\<lambda>t. forget_access key (remove_row key t)) s)
          else s)"

definition delete_durable :: "string \<Rightarrow> string \<Rightarrow> u64 \<Rightarrow> 'n hot_state \<Rightarrow> 'n hot_state" where
  "delete_durable table key lsn s =
     (case bt_get (hs_tables s) table of
        None \<Rightarrow> s
      | Some t \<Rightarrow>
          if (case bt_get (ht_records t) key of
                None \<Rightarrow> False | Some r \<Rightarrow> is_durable_record r \<and> lsn < rec_lsn r)
          then s
          else
            count_both (\<lambda>c. c\<lparr>hc_delete_total := sat_add (hc_delete_total c) 1\<rparr>) table
              (update_table table (\<lambda>t.
                 let t1 = remove_row key t;
                     tombstone = bt_get_or (ht_durable_delete_tombstones t1) key 0
                 in forget_access key
                      (t1\<lparr>ht_durable_delete_tombstones :=
                            bt_insert key (max tombstone lsn)
                              (ht_durable_delete_tombstones t1)\<rparr>)) s))"

definition clear_durable_delete_tombstone ::
  "string \<Rightarrow> string \<Rightarrow> u64 \<Rightarrow> 'n hot_state \<Rightarrow> 'n hot_state" where
  "clear_durable_delete_tombstone table key lsn =
     update_table table (\<lambda>t.
       if (case bt_get (ht_durable_delete_tombstones t) key of
             None \<Rightarrow> False | Some deleted_lsn \<Rightarrow> deleted_lsn \<le> lsn)
       then t\<lparr>ht_durable_delete_tombstones := bt_remove key (ht_durable_delete_tombstones t)\<rparr>
       else t)"

definition hot_evict :: "string \<Rightarrow> string \<Rightarrow> 'n hot_state \<Rightarrow> bool \<times> 'n hot_state" where
  "hot_evict table key s =
     (case bt_get (hs_tables s) table of
        None \<Rightarrow> (False, s)
      | Some t \<Rightarrow>
          let existed = bt_contains (ht_records t) key;
              s1 = update_table table (\<lambda>t. forget_access key (remove_row key t)) s
          in (existed,
              if existed
              then count_both (\<lambda>c. c\<lparr>hc_evict_total := sat_add (hc_evict_total c) 1\<rparr>) table s1
              else s1))"

definition insert_with_access ::
  "u64 \<Rightarrow> string \<Rightarrow> string \<Rightarrow> 'n db_record \<Rightarrow> u64 \<Rightarrow> u64 \<Rightarrow> 'n hot_state \<Rightarrow> 'n hot_state" where
  "insert_with_access now table key r access last_accessed_ms s =
     (case bt_get (hs_tables s) table of
        None \<Rightarrow> s
      | Some _ \<Rightarrow>
          (update_table table (\<lambda>t.
             let old = holds_volatile t key;
                 t1 = t\<lparr>ht_records := bt_insert key r (ht_records t)\<rparr>;
                 t2 = (if is_durable_record r
                       then t1\<lparr>ht_durable_delete_tombstones :=
                                 bt_remove key (ht_durable_delete_tombstones t1)\<rparr>
                       else t1);
                 t3 = update_volatile_record_state key old (\<not> is_durable_record r) t2
             in t3\<lparr>ht_access := bt_insert key access (ht_access t3),
                   ht_last_accessed_ms :=
                     bt_insert key (if last_accessed_ms = 0 then now else last_accessed_ms)
                       (ht_last_accessed_ms t3)\<rparr>) s)
          \<lparr>hs_access_seq := max (hs_access_seq s) access\<rparr>)"

section \<open>The public operations\<close>

text \<open>A write of many rows evicts once per touched table, in the order of the names.\<close>

fun for_each_touched ::
  "('a \<Rightarrow> 'n hot_state \<Rightarrow> string option \<times> 'n hot_state) \<Rightarrow> 'a list \<Rightarrow> string bset \<Rightarrow> 'n hot_state \<Rightarrow>
     string bset \<times> 'n hot_state" where
  "for_each_touched f [] touched s = (touched, s)"
| "for_each_touched f (r # rs) touched s =
     (case f r s of
        (Some table, s') \<Rightarrow> for_each_touched f rs (bs_insert table touched) s'
      | (None, s') \<Rightarrow> for_each_touched f rs touched s')"

definition upsert_many :: "u64 \<Rightarrow> 'n db_record list \<Rightarrow> 'n hot_state \<Rightarrow> 'n hot_state" where
  "upsert_many now rs s =
     (let (touched, s') = for_each_touched (\<lambda>r. upsert_internal now r True False) rs bt_empty s
      in fold evict_lru (bt_keys touched) s')"

definition hydrate_durable_many :: "u64 \<Rightarrow> 'n db_record list \<Rightarrow> 'n hot_state \<Rightarrow> 'n hot_state" where
  "hydrate_durable_many now rs s =
     (let (touched, s') = for_each_touched (\<lambda>r. hydrate_durable now r False) rs bt_empty s
      in fold evict_lru (bt_keys touched) s')"

fun evict_many :: "string \<Rightarrow> string list \<Rightarrow> nat \<Rightarrow> 'n hot_state \<Rightarrow> nat \<times> 'n hot_state" where
  "evict_many table [] evicted s = (evicted, s)"
| "evict_many table (key # ks) evicted s =
     (let (existed, s') = hot_evict table key s
      in evict_many table ks (if existed then evicted + 1 else evicted) s')"

text \<open>Every public read first sweeps the idle durable rows.\<close>

definition swept :: "u64 \<Rightarrow> ('n hot_state \<Rightarrow> 'a) \<Rightarrow> 'n hot_state \<Rightarrow> 'a" where
  "swept now read s = read (snd (evict_idle_durable_records now s))"

definition cache_get ::
  "u64 \<Rightarrow> string \<Rightarrow> string \<Rightarrow> 'n hot_state \<Rightarrow> 'n db_record option option \<times> 'n hot_state" where
  "cache_get now table key = swept now (hot_get now table key)"

definition cache_list ::
  "u64 \<Rightarrow> string \<Rightarrow> string option \<Rightarrow> nat option \<Rightarrow> 'n hot_state \<Rightarrow>
     'n db_record list option \<times> 'n hot_state" where
  "cache_list now table after_key limit = swept now (hot_list now table after_key limit)"

definition cache_list_by_key_prefix ::
  "u64 \<Rightarrow> string \<Rightarrow> string \<Rightarrow> string option \<Rightarrow> nat option \<Rightarrow> 'n hot_state \<Rightarrow>
     'n db_record list option \<times> 'n hot_state" where
  "cache_list_by_key_prefix now table key_prefix after_key limit =
     swept now (hot_list_by_key_prefix now table key_prefix after_key limit)"

definition cache_scan_key_order ::
  "u64 \<Rightarrow> string \<Rightarrow> string option \<Rightarrow> string option \<Rightarrow> 'n hot_state \<Rightarrow>
     'n db_record list option \<times> 'n hot_state" where
  "cache_scan_key_order now table key_prefix after_key =
     swept now (scan_key_order now table key_prefix after_key)"

definition cache_scan_overlay ::
  "u64 \<Rightarrow> string \<Rightarrow> string option \<Rightarrow> string option \<Rightarrow> 'n hot_state \<Rightarrow>
     'n key_order_overlay option \<times> 'n hot_state" where
  "cache_scan_overlay now table key_prefix after_key =
     swept now (scan_key_order_overlay now table key_prefix after_key)"

section \<open>Construction, snapshots and status\<close>

text \<open>The parts of \<open>DatabaseSchema\<close> the cache reads: the storage of tables and nested tables.\<close>

record table_storage =
  tst_storage :: storage_class
  tst_nested :: "(string, storage_class) btree"

type_synonym storage_schema = "(string, table_storage) btree"

definition hot_storage_policy :: "storage_class \<Rightarrow> (storage_class \<times> nat option) option" where
  "hot_storage_policy storage =
     (case storage of
        Resident \<Rightarrow> Some (storage, None)
      | ActorPartition \<Rightarrow> Some (storage, None)
      | Lru max_items \<Rightarrow> Some (storage, Some max_items)
      | ChatLog _ _ live_window \<Rightarrow> Some (storage, Some live_window)
      | DiskStorage \<Rightarrow> None
      | ObjectStorage \<Rightarrow> None)"

definition insert_policy ::
  "string \<Rightarrow> storage_class \<Rightarrow> (string, storage_class \<times> nat option) btree \<Rightarrow>
     (string, storage_class \<times> nat option) btree" where
  "insert_policy name storage tables =
     (case hot_storage_policy storage of None \<Rightarrow> tables | Some p \<Rightarrow> bt_insert name p tables)"

definition hot_tables_for_schema ::
  "storage_schema \<Rightarrow> (string, storage_class \<times> nat option) btree" where
  "hot_tables_for_schema schema =
     fold (\<lambda>(table_name, table) tables.
       fold (\<lambda>(nested_name, nested). insert_policy (table_name @ ''.'' @ nested_name) nested)
         (bt_entries (tst_nested table)) (insert_policy table_name (tst_storage table) tables))
       (bt_entries schema) bt_empty"

record 'n record_snapshot =
  rs_record :: "'n db_record"
  rs_access :: u64
  rs_last_accessed_ms :: u64

record 'n hot_snapshot =
  hsn_access_seq :: u64
  hsn_tables :: "(string, (string, 'n record_snapshot) btree) btree"

definition snapshot_table_count :: "'n hot_snapshot \<Rightarrow> nat" where
  "snapshot_table_count sn = bt_len (hsn_tables sn)"

definition snapshot_record_count :: "'n hot_snapshot \<Rightarrow> nat" where
  "snapshot_record_count sn = sum_list (map bt_len (bt_values (hsn_tables sn)))"

definition table_snapshot :: "'n hot_table \<Rightarrow> (string, 'n record_snapshot) btree" where
  "table_snapshot t =
     bt_collect (map (\<lambda>(key, r).
       (key, \<lparr>rs_record = r, rs_access = access_of t key,
              rs_last_accessed_ms = bt_get_or (ht_last_accessed_ms t) key 0\<rparr>))
       (filter (\<lambda>(_, r). is_durable_record r) (bt_entries (ht_records t))))"

definition hot_snapshot_of :: "u64 \<Rightarrow> 'n hot_state \<Rightarrow> 'n hot_snapshot \<times> 'n hot_state" where
  "hot_snapshot_of now s =
     (let s' = snd (evict_idle_durable_records now s)
      in (\<lparr>hsn_access_seq = hs_access_seq s',
           hsn_tables = bt_collect (filter (\<lambda>(_, sn). \<not> bt_is_empty sn)
             (map (\<lambda>(table, t). (table, table_snapshot t)) (bt_entries (hs_tables s'))))\<rparr>, s'))"

definition initial_hot_state :: "storage_schema \<Rightarrow> u64 \<Rightarrow> 'n hot_state" where
  "initial_hot_state schema durable_idle_ttl_ms =
     \<lparr>hs_tables = bt_map (\<lambda>_ (storage, max_items). empty_hot_table storage max_items)
        (hot_tables_for_schema schema),
      hs_access_seq = 0, hs_durable_idle_ttl_ms = durable_idle_ttl_ms,
      hs_durable_idle_last_sweep_at_ms = None, hs_durable_idle_last_evicted = 0,
      hs_durable_idle_total_evicted = 0, hs_totals = counters_default\<rparr>"

text \<open>A snapshot row is restored when it is still the current row of its key.\<close>

definition snapshot_row_current ::
  "(string \<times> string, 'n db_record) btree \<Rightarrow> 'n db_record \<Rightarrow> bool" where
  "snapshot_row_current current r \<longleftrightarrow>
     (case bt_get current (rec_table r, rec_key r) of
        None \<Rightarrow> False
      | Some c \<Rightarrow> rec_lsn c = rec_lsn r \<and> rec_path c = rec_path r \<and> rec_table c = rec_table r
          \<and> rec_key c = rec_key r)"

definition restore_row ::
  "u64 \<Rightarrow> (string \<times> string, 'n db_record) btree \<Rightarrow> string \<Rightarrow> string \<times> 'n record_snapshot \<Rightarrow>
     'n hot_state \<Rightarrow> 'n hot_state" where
  "restore_row now current table = (\<lambda>(key, entry) s.
     if is_durable_record (rs_record entry) \<and> snapshot_row_current current (rs_record entry)
     then insert_with_access now table key (rs_record entry) (rs_access entry)
            (rs_last_accessed_ms entry) s
     else s)"

definition restore_table ::
  "u64 \<Rightarrow> (string \<times> string, 'n db_record) btree \<Rightarrow>
     string \<times> (string, 'n record_snapshot) btree \<Rightarrow> 'n hot_state \<Rightarrow> 'n hot_state" where
  "restore_table now current = (\<lambda>(table, rows) s.
     if bt_contains (hs_tables s) table
     then evict_lru table (fold (restore_row now current table) (bt_entries rows) s)
     else s)"

definition replay_row ::
  "u64 \<Rightarrow> 'n hot_snapshot option \<Rightarrow> u64 \<Rightarrow> 'n db_record \<Rightarrow> 'n hot_state \<Rightarrow> 'n hot_state" where
  "replay_row now snapshot snapshot_lsn r s =
     (case bt_get (hs_tables s) (rec_table r) of
        None \<Rightarrow> s
      | Some t \<Rightarrow>
          if snapshot \<noteq> None \<and> (case ht_storage t of Lru _ \<Rightarrow> True | _ \<Rightarrow> False)
             \<and> rec_lsn r \<le> snapshot_lsn \<and> \<not> bt_contains (ht_records t) (rec_key r)
          then s
          else snd (upsert_internal now r False True s))"

definition from_schema_snapshot_and_records ::
  "u64 \<Rightarrow> storage_schema \<Rightarrow> 'n hot_snapshot option \<Rightarrow> u64 \<Rightarrow> 'n db_record list \<Rightarrow> u64 \<Rightarrow> 'n hot_state"
where
  "from_schema_snapshot_and_records now schema snapshot snapshot_lsn records ttl =
     (let current = bt_collect (map (\<lambda>r. ((rec_table r, rec_key r), r)) records);
          s0 = initial_hot_state schema ttl;
          s1 = (case snapshot of
                  None \<Rightarrow> s0
                | Some sn \<Rightarrow>
                    fold (restore_table now current) (bt_entries (hsn_tables sn))
                      (s0\<lparr>hs_access_seq := hsn_access_seq sn\<rparr>));
          sorted = sort_key (\<lambda>r. (rec_lsn r, rec_table r, rec_key r)) records
      in fold (replay_row now snapshot snapshot_lsn) sorted s1)"

definition from_schema_and_records ::
  "u64 \<Rightarrow> storage_schema \<Rightarrow> 'n db_record list \<Rightarrow> u64 \<Rightarrow> 'n hot_state" where
  "from_schema_and_records now schema records ttl =
     from_schema_snapshot_and_records now schema None 0 records ttl"

definition reconfigure ::
  "u64 \<Rightarrow> storage_schema \<Rightarrow> 'n db_record list \<Rightarrow> u64 \<Rightarrow> 'n hot_state \<Rightarrow> 'n hot_state" where
  "reconfigure now schema records ttl s =
     (let replacement = from_schema_and_records now schema records ttl
      in s\<lparr>hs_tables := hs_tables replacement, hs_access_seq := hs_access_seq replacement,
           hs_durable_idle_ttl_ms := hs_durable_idle_ttl_ms replacement,
           hs_durable_idle_last_sweep_at_ms := None, hs_durable_idle_last_evicted := 0,
           hs_durable_idle_total_evicted := 0,
           hs_totals := (hs_totals s)\<lparr>hc_get_total := 0, hc_get_hit_total := 0,
             hc_get_miss_total := 0, hc_list_total := 0, hc_list_records_total := 0,
             hc_hydrate_durable_total := 0, hc_hydrate_durable_skipped_volatile_total := 0,
             hc_upsert_total := 0, hc_delete_total := 0, hc_evict_total := 0,
             hc_lru_evicted_total := 0\<rparr>\<rparr>)"

record hot_table_status =
  hts_table :: string
  hts_storage :: storage_class
  hts_max_items :: "nat option"
  hts_records :: nat
  hts_durable_delete_tombstones :: nat
  hts_volatile_records :: nat
  hts_counters :: hot_counters

record hot_cache_status =
  hst_tables :: "hot_table_status list"
  hst_table_count :: nat
  hst_record_count :: nat
  hst_volatile_records :: nat
  hst_durable_idle_ttl_ms :: u64
  hst_durable_idle_last_sweep_at_ms :: "u64 option"
  hst_durable_idle_last_evicted :: nat
  hst_durable_idle_total_evicted :: nat
  hst_totals :: hot_counters

definition hot_status :: "'n hot_state \<Rightarrow> hot_cache_status" where
  "hot_status s =
     (let tables = map (\<lambda>(table, t).
            \<lparr>hts_table = table, hts_storage = ht_storage t, hts_max_items = ht_max_items t,
             hts_records = bt_len (ht_records t),
             hts_durable_delete_tombstones = bt_len (ht_durable_delete_tombstones t),
             hts_volatile_records = ht_volatile_records t, hts_counters = ht_counters t\<rparr>)
            (bt_entries (hs_tables s))
      in \<lparr>hst_tables = tables, hst_table_count = length tables,
          hst_record_count = sum_list (map hts_records tables),
          hst_volatile_records = sum_list (map hts_volatile_records tables),
          hst_durable_idle_ttl_ms = hs_durable_idle_ttl_ms s,
          hst_durable_idle_last_sweep_at_ms = hs_durable_idle_last_sweep_at_ms s,
          hst_durable_idle_last_evicted = hs_durable_idle_last_evicted s,
          hst_durable_idle_total_evicted = hs_durable_idle_total_evicted s,
          hst_totals = hs_totals s\<rparr>)"

section \<open>The bookkeeping of a table\<close>

definition volatile_keys :: "(string, 'n db_record) btree \<Rightarrow> string set" where
  "volatile_keys m = {k. \<exists>r. bt_get m k = Some r \<and> \<not> is_durable_record r}"

definition prefix_count :: "(string, 'n db_record) btree \<Rightarrow> string \<Rightarrow> nat" where
  "prefix_count m p = card {k \<in> volatile_keys m. p \<in> set (volatile_key_prefixes k)}"

text \<open>The counts of volatile rows, overall and per key prefix, are those of the rows.\<close>

definition counts_ok :: "(string, 'n db_record) btree \<Rightarrow> 'n hot_table \<Rightarrow> bool" where
  "counts_ok m t \<longleftrightarrow>
     ht_volatile_records t = card (volatile_keys m)
   \<and> (\<forall>p. bt_get (ht_volatile_key_prefixes t) p =
        (if prefix_count m p = 0 then None else Some (prefix_count m p)))"

definition hot_table_ok :: "'n hot_table \<Rightarrow> bool" where
  "hot_table_ok t \<longleftrightarrow>
     counts_ok (ht_records t) t
   \<and> (\<forall>k r. bt_get (ht_records t) k = Some r \<longrightarrow> rec_key r = k)
   \<and> (\<forall>k. bt_contains (ht_access t) k \<longleftrightarrow> bt_contains (ht_records t) k)
   \<and> (\<forall>k. bt_contains (ht_last_accessed_ms t) k \<longleftrightarrow> bt_contains (ht_records t) k)"

lemma finite_volatile_keys [simp]: "finite (volatile_keys m)"
  by (rule finite_subset [OF _ finite_bt_dom [of m]]) (auto simp: volatile_keys_def)

lemma distinct_volatile_key_prefixes: "distinct (volatile_key_prefixes key)"
proof (induction key)
  case (Cons c cs)
  have "[] \<notin> set (volatile_key_prefixes cs)" by (induction cs) auto
  then show ?case using Cons by (auto simp: distinct_map)
qed simp

lemma adjust_up_other:
  "bt_get (fold (adjust_prefix 1) ps m) p =
     (if p \<in> set ps then Some (bt_get_or m p 0 + 1) else bt_get m p)" if "distinct ps"
  using that
  by (induction ps arbitrary: m) (auto simp: adjust_prefix_def bt_get_or_def split: option.split)

lemma adjust_down_other:
  "bt_get (fold (adjust_prefix (- 1)) ps m) p =
     (if p \<in> set ps
      then (case bt_get m p of None \<Rightarrow> None | Some c \<Rightarrow> if c - 1 = 0 then None else Some (c - 1))
      else bt_get m p)" if "distinct ps"
  using that
  by (induction ps arbitrary: m) (auto simp: adjust_prefix_def Let_def split: option.split)

lemma update_volatile_frame [simp]:
  "ht_records (update_volatile_record_state key a b t) = ht_records t"
  "ht_access (update_volatile_record_state key a b t) = ht_access t"
  "ht_last_accessed_ms (update_volatile_record_state key a b t) = ht_last_accessed_ms t"
  "ht_max_items (update_volatile_record_state key a b t) = ht_max_items t"
  "ht_storage (update_volatile_record_state key a b t) = ht_storage t"
  "ht_durable_delete_tombstones (update_volatile_record_state key a b t)
     = ht_durable_delete_tombstones t"
  by (cases a; cases b; simp add: update_volatile_record_state_def bump_volatile_generation_def
      adjust_volatile_key_prefixes_def)+

lemma update_volatile_counts:
  assumes "counts_ok m t"
    and "volatile_keys m' = (if b then insert key (volatile_keys m) else volatile_keys m - {key})"
    and "a \<longleftrightarrow> key \<in> volatile_keys m"
  shows "counts_ok m' (update_volatile_record_state key a b t)"
proof -
  consider "a = b" | "\<not> a" "b" | "a" "\<not> b" by blast
  then show ?thesis
  proof cases
    case 1
    then have "volatile_keys m' = volatile_keys m" using assms(2,3) by (auto simp: insert_absorb)
    moreover have "ht_volatile_records (update_volatile_record_state key a b t) = ht_volatile_records t"
      "ht_volatile_key_prefixes (update_volatile_record_state key a b t) = ht_volatile_key_prefixes t"
      using 1 by (cases b; simp add: update_volatile_record_state_def
          bump_volatile_generation_def)+
    ultimately show ?thesis using assms(1) by (simp add: counts_ok_def prefix_count_def)
  next
    case 2
    have S: "{k \<in> volatile_keys m'. p \<in> set (volatile_key_prefixes k)} =
        (if p \<in> set (volatile_key_prefixes key)
         then insert key {k \<in> volatile_keys m. p \<in> set (volatile_key_prefixes k)}
         else {k \<in> volatile_keys m. p \<in> set (volatile_key_prefixes k)})" for p
      using 2 assms(2) by auto
    have "prefix_count m' p =
        (if p \<in> set (volatile_key_prefixes key) then prefix_count m p + 1 else prefix_count m p)" for p
      using 2 assms(3) unfolding prefix_count_def S by simp
    then show ?thesis
      using assms 2
      by (simp add: counts_ok_def update_volatile_record_state_def
          adjust_volatile_key_prefixes_def bump_volatile_generation_def bt_get_or_def
          adjust_up_other [OF distinct_volatile_key_prefixes])
  next
    case 3
    have S: "{k \<in> volatile_keys m'. p \<in> set (volatile_key_prefixes k)} =
        (if p \<in> set (volatile_key_prefixes key)
         then {k \<in> volatile_keys m. p \<in> set (volatile_key_prefixes k)} - {key}
         else {k \<in> volatile_keys m. p \<in> set (volatile_key_prefixes k)})" for p
      using 3 assms(2) by auto
    have "prefix_count m' p =
        (if p \<in> set (volatile_key_prefixes key) then prefix_count m p - 1 else prefix_count m p)" for p
      using 3 assms(3) unfolding prefix_count_def S by simp
    then show ?thesis
      using assms 3
      by (simp add: counts_ok_def update_volatile_record_state_def
          adjust_volatile_key_prefixes_def bump_volatile_generation_def
          adjust_down_other [OF distinct_volatile_key_prefixes])
  qed
qed

lemma volatile_keys_updates [simp]:
  "volatile_keys (bt_insert k r m) =
     (if is_durable_record r then volatile_keys m - {k} else insert k (volatile_keys m))"
  "volatile_keys (bt_remove k m) = volatile_keys m - {k}"
  "volatile_keys bt_empty = {}"
  by (auto simp: volatile_keys_def split: if_splits)

lemma holds_volatile_iff: "holds_volatile t k \<longleftrightarrow> k \<in> volatile_keys (ht_records t)"
  by (auto simp: holds_volatile_def volatile_keys_def split: option.split)

lemma counts_ok_cong:
  "ht_volatile_records t' = ht_volatile_records t \<Longrightarrow>
   ht_volatile_key_prefixes t' = ht_volatile_key_prefixes t \<Longrightarrow> counts_ok m t' = counts_ok m t"
  by (simp add: counts_ok_def)

lemma remove_row_fields [simp]:
  "ht_records (remove_row key t) = bt_remove key (ht_records t)"
  "ht_access (remove_row key t) = ht_access t"
  "ht_last_accessed_ms (remove_row key t) = ht_last_accessed_ms t"
  "ht_max_items (remove_row key t) = ht_max_items t"
  "ht_storage (remove_row key t) = ht_storage t"
  "ht_durable_delete_tombstones (remove_row key t) = ht_durable_delete_tombstones t"
proof -
  have "bt_remove key (ht_records t) = ht_records t" if "bt_get (ht_records t) key = None"
    using that by (intro bt_eqI) auto
  then show "ht_records (remove_row key t) = bt_remove key (ht_records t)"
    by (simp add: remove_row_def split: option.split)
qed (simp_all add: remove_row_def split: option.split)

lemma remove_row_counts:
  "counts_ok (ht_records t) t \<Longrightarrow> counts_ok (ht_records (remove_row key t)) (remove_row key t)"
proof (cases "bt_get (ht_records t) key")
  case (Some r)
  assume ok: "counts_ok (ht_records t) t"
  let ?t = "t\<lparr>ht_records := bt_remove key (ht_records t)\<rparr>"
  have "counts_ok (ht_records t) ?t" using ok by (simp add: counts_ok_def)
  then have "counts_ok (bt_remove key (ht_records t))
      (update_volatile_record_state key (\<not> is_durable_record r) False ?t)"
    by (rule update_volatile_counts) (use Some in \<open>auto simp: volatile_keys_def\<close>)
  then show ?thesis using Some by (simp add: remove_row_def)
qed (auto simp: remove_row_def)

lemma forget_fields [simp]:
  "ht_records (forget_access key t) = ht_records t"
  "ht_max_items (forget_access key t) = ht_max_items t"
  "ht_storage (forget_access key t) = ht_storage t"
  "ht_durable_delete_tombstones (forget_access key t) = ht_durable_delete_tombstones t"
  "ht_access (forget_access key t) = bt_remove key (ht_access t)"
  "ht_last_accessed_ms (forget_access key t) = bt_remove key (ht_last_accessed_ms t)"
  "counts_ok m (forget_access key t) = counts_ok m t"
  by (simp_all add: forget_access_def counts_ok_def)

lemma drop_row_ok: "hot_table_ok t \<Longrightarrow> hot_table_ok (forget_access key (remove_row key t))"
  using remove_row_counts [of t key] by (auto simp: hot_table_ok_def)

lemma hot_table_ok_cong:
  assumes "ht_records t' = ht_records t" "ht_access t' = ht_access t"
    "ht_last_accessed_ms t' = ht_last_accessed_ms t"
    "ht_volatile_records t' = ht_volatile_records t"
    "ht_volatile_key_prefixes t' = ht_volatile_key_prefixes t"
  shows "hot_table_ok t' = hot_table_ok t"
  using assms by (simp add: hot_table_ok_def counts_ok_def)

lemma hot_table_ok_frame [simp]:
  "hot_table_ok (t\<lparr>ht_counters := c\<rparr>) = hot_table_ok t"
  "hot_table_ok (t\<lparr>ht_durable_delete_tombstones := d\<rparr>) = hot_table_ok t"
  by (rule hot_table_ok_cong; simp)+

lemma touch_keys_fields:
  "ht_records (snd (touch_keys now ks seq t)) = ht_records t
   \<and> ht_max_items (snd (touch_keys now ks seq t)) = ht_max_items t
   \<and> ht_storage (snd (touch_keys now ks seq t)) = ht_storage t
   \<and> ht_durable_delete_tombstones (snd (touch_keys now ks seq t)) = ht_durable_delete_tombstones t
   \<and> ht_volatile_generation (snd (touch_keys now ks seq t)) = ht_volatile_generation t
   \<and> ht_volatile_key_prefix_generations (snd (touch_keys now ks seq t)) =
       ht_volatile_key_prefix_generations t
   \<and> counts_ok m (snd (touch_keys now ks seq t)) = counts_ok m t"
  by (induction now ks seq t rule: touch_keys.induct) (simp_all add: counts_ok_def)

lemma touch_keys_access:
  "bt_contains (ht_access (snd (touch_keys now ks seq t))) k \<longleftrightarrow>
     bt_contains (ht_access t) k \<or> (k \<in> set ks \<and> bt_contains (ht_records t) k)"
  "bt_contains (ht_last_accessed_ms (snd (touch_keys now ks seq t))) k \<longleftrightarrow>
     bt_contains (ht_last_accessed_ms t) k \<or> (k \<in> set ks \<and> bt_contains (ht_records t) k)"
  by (induction now ks seq t rule: touch_keys.induct) auto

lemma touch_keys_ok: "hot_table_ok t \<Longrightarrow> hot_table_ok (snd (touch_keys now ks seq t))"
  by (auto simp: hot_table_ok_def touch_keys_fields touch_keys_access)

lemma put_row_fields [simp]:
  "ht_records (put_row r t) = bt_insert (rec_key r) r (ht_records t)"
  "ht_access (put_row r t) = ht_access t"
  "ht_last_accessed_ms (put_row r t) = ht_last_accessed_ms t"
  "ht_max_items (put_row r t) = ht_max_items t"
  "ht_storage (put_row r t) = ht_storage t"
  by (simp_all add: put_row_def Let_def)

lemma put_row_counts:
  "counts_ok (ht_records t) t \<Longrightarrow> counts_ok (ht_records (put_row r t)) (put_row r t)"
  unfolding put_row_fields unfolding put_row_def Let_def
  by (rule update_volatile_counts [where m = "ht_records t"])
     (auto simp: counts_ok_def holds_volatile_iff)

lemma put_row_touch_ok:
  "hot_table_ok t \<Longrightarrow> hot_table_ok (snd (touch_keys now [rec_key r] seq (put_row r t)))"
  using put_row_counts [of t r]
  by (auto simp: hot_table_ok_def touch_keys_fields touch_keys_access simp del: touch_keys.simps)

section \<open>LRU eviction\<close>

lemma first_min_None [simp]: "first_min f ks = None \<longleftrightarrow> ks = []"
  by (cases ks) (auto split: option.splits)

lemma first_min_Some: "first_min f ks = Some k \<Longrightarrow> k \<in> set ks \<and> (\<forall>j\<in>set ks. f k \<le> f j)"
  by (induction ks arbitrary: k) (force split: option.splits if_splits)+

text \<open>On ascending keys the first minimal one is least by access number, then by key.\<close>

lemma first_min_ascending:
  "sorted_wrt (<) ks \<Longrightarrow> first_min f ks = Some k \<Longrightarrow> j \<in> set ks \<Longrightarrow>
     (f k, k) \<le> (f j, j :: 'k::linorder)"
proof (induction ks arbitrary: k j)
  case (Cons a ks)
  show ?case
  proof (cases "first_min f ks")
    case None
    then show ?thesis using Cons.prems by auto
  next
    case (Some m)
    have m: "m \<in> set ks" "\<And>j. j \<in> set ks \<Longrightarrow> (f m, m) \<le> (f j, j)"
      using Cons.IH [OF _ Some] Cons.prems(1) first_min_Some [OF Some] by auto
    then have "a < m" using Cons.prems(1) by auto
    then show ?thesis
      using Cons.prems(2,3) Some m(2) [of j] by (auto split: if_splits)
  qed
qed simp

lemma take_sorted_least:
  fixes xs :: "'a::linorder list"
  assumes "distinct xs" "x \<in> set (take n (sort xs))" "y \<in> set xs" "y \<notin> set (take n (sort xs))"
  shows "x < y"
proof -
  have "y \<in> set (drop n (sort xs))"
    using assms(3,4) by (metis Un_iff append_take_drop_id set_append set_sort)
  moreover have "sorted (take n (sort xs) @ drop n (sort xs))" by simp
  ultimately have "x \<le> y" using assms(2) by (metis sorted_append)
  moreover have "x \<noteq> y" using assms(2,4) by blast
  ultimately show ?thesis by simp
qed

lemma lru_victims_spec:
  assumes "ht_max_items t = Some n"
  shows "distinct (lru_victims t)"
    and "set (lru_victims t) \<subseteq> set (bt_keys (ht_records t))"
    and "length (lru_victims t) = bt_len (ht_records t) - n"
    and "v \<in> set (lru_victims t) \<Longrightarrow> k \<in> set (bt_keys (ht_records t)) \<Longrightarrow>
           k \<notin> set (lru_victims t) \<Longrightarrow> (access_of t v, v) < (access_of t k, k)"
proof -
  let ?ks = "bt_keys (ht_records t)" and ?o = "bt_len (ht_records t) - n"
  let ?ps = "map (\<lambda>k. (access_of t k, k)) ?ks"
  have len: "bt_len (ht_records t) = length ?ks" by (simp add: bt_len_def bt_keys_def)
  have dps: "distinct ?ps" by (auto simp: distinct_map inj_on_def)
  consider "?o = 0" | "?o = 1" | "?o > 1" by linarith
  then have "distinct (lru_victims t) \<and> set (lru_victims t) \<subseteq> set ?ks
    \<and> length (lru_victims t) = ?o
    \<and> (v \<in> set (lru_victims t) \<longrightarrow> k \<in> set ?ks \<longrightarrow> k \<notin> set (lru_victims t) \<longrightarrow>
         (access_of t v, v) < (access_of t k, k))"
  proof cases
    case 1
    then show ?thesis using assms by (simp add: lru_victims_def)
  next
    case 2
    then obtain m where m: "first_min (access_of t) ?ks = Some m"
      using len by (cases "first_min (access_of t) ?ks") auto
    then have v: "lru_victims t = [m]" using 2 assms by (simp add: lru_victims_def)
    have "k \<in> set ?ks \<Longrightarrow> k \<noteq> m \<Longrightarrow> (access_of t m, m) < (access_of t k, k)"
      using first_min_ascending [OF sorted_bt_keys m, of k] by auto
    then show ?thesis using 2 v first_min_Some [OF m] by auto
  next
    case 3
    then have v: "lru_victims t = map snd (take ?o (sort ?ps))"
      using assms by (simp add: lru_victims_def Let_def)
    have sub: "set (take ?o (sort ?ps)) \<subseteq> set ?ps" using set_take_subset [of ?o "sort ?ps"] by simp
    have own: "fst p = access_of t (snd p)" if "p \<in> set (take ?o (sort ?ps))" for p
    proof -
      from that sub have "p \<in> set ?ps" by blast
      then show ?thesis by auto
    qed
    have "inj_on snd (set (take ?o (sort ?ps)))"
    proof (rule inj_onI)
      fix p q
      assume p: "p \<in> set (take ?o (sort ?ps))" and q: "q \<in> set (take ?o (sort ?ps))"
        and eq: "snd p = snd q"
      show "p = q" using own [OF p] own [OF q] eq by (cases p; cases q; simp)
    qed
    then have "distinct (lru_victims t)" using v dps by (simp add: distinct_map)
    moreover have "length (lru_victims t) = ?o" using v len by simp
    moreover have "set (lru_victims t) \<subseteq> set ?ks" using v sub by auto
    moreover have "(access_of t v, v) < (access_of t k, k)"
      if "v \<in> set (lru_victims t)" "k \<in> set ?ks" "k \<notin> set (lru_victims t)"
    proof (rule take_sorted_least [OF dps])
      show "(access_of t v, v) \<in> set (take ?o (sort ?ps))"
      proof -
        from that(1) v obtain p where p: "p \<in> set (take ?o (sort ?ps))" "snd p = v" by auto
        have "p = (access_of t v, v)" using own [OF p(1)] p(2) by (intro prod_eqI) simp_all
        with p(1) show ?thesis by simp
      qed
      show "(access_of t k, k) \<in> set ?ps" using that(2) by auto
      show "(access_of t k, k) \<notin> set (take ?o (sort ?ps))" using that(3) v by force
    qed
    ultimately show ?thesis by blast
  qed
  then show "distinct (lru_victims t)" "set (lru_victims t) \<subseteq> set ?ks"
    "length (lru_victims t) = ?o"
    "v \<in> set (lru_victims t) \<Longrightarrow> k \<in> set ?ks \<Longrightarrow> k \<notin> set (lru_victims t) \<Longrightarrow>
       (access_of t v, v) < (access_of t k, k)" by auto
qed

lemma evict_lru_victim_ok: "hot_table_ok t \<Longrightarrow> hot_table_ok (evict_lru_victim v t)"
  by (simp add: evict_lru_victim_def Let_def drop_row_ok)

lemma evict_lru_victim_fields [simp]:
  "ht_records (evict_lru_victim v t) = bt_remove v (ht_records t)"
  "ht_max_items (evict_lru_victim v t) = ht_max_items t"
  "ht_storage (evict_lru_victim v t) = ht_storage t"
  "ht_durable_delete_tombstones (evict_lru_victim v t) = ht_durable_delete_tombstones t"
  by (simp_all add: evict_lru_victim_def Let_def)

lemma fold_evict:
  "hot_table_ok t \<Longrightarrow> hot_table_ok (fold evict_lru_victim vs t)"
  "bt_get (ht_records (fold evict_lru_victim vs t)) k =
     (if k \<in> set vs then None else bt_get (ht_records t) k)"
  "ht_max_items (fold evict_lru_victim vs t) = ht_max_items t"
  "ht_storage (fold evict_lru_victim vs t) = ht_storage t"
  "ht_durable_delete_tombstones (fold evict_lru_victim vs t) = ht_durable_delete_tombstones t"
  by (induction vs arbitrary: t) (auto simp: evict_lru_victim_ok)

definition within_window :: "'n hot_table \<Rightarrow> bool" where
  "within_window t \<longleftrightarrow>
     (case ht_max_items t of None \<Rightarrow> True | Some n \<Rightarrow> bt_len (ht_records t) \<le> n)"

lemma evict_lru_within: "within_window (fold evict_lru_victim (lru_victims t) t)"
proof (cases "ht_max_items t")
  case (Some n)
  let ?t = "fold evict_lru_victim (lru_victims t) t"
  note spec = lru_victims_spec [OF Some]
  have "{k. bt_get (ht_records ?t) k \<noteq> None} = set (bt_keys (ht_records t)) - set (lru_victims t)"
    by (auto simp: fold_evict set_bt_keys)
  then have "bt_len (ht_records ?t) = length (bt_keys (ht_records t)) - length (lru_victims t)"
    using spec(1,2) distinct_card [OF spec(1)] distinct_card [OF distinct_bt_keys [of "ht_records t"]]
    by (simp add: bt_len_card card_Diff_subset)
  then show ?thesis
    using spec(3) Some by (simp add: within_window_def fold_evict bt_len_def bt_keys_def)
qed (simp add: within_window_def fold_evict)

section \<open>The invariant of the cache\<close>

definition table_inv :: "string set \<Rightarrow> string \<Rightarrow> 'n hot_table \<Rightarrow> bool" where
  "table_inv U table t \<longleftrightarrow>
     hot_table_ok t
   \<and> (\<forall>k r. bt_get (ht_records t) k = Some r \<longrightarrow> rec_table r = table)
   \<and> (table \<in> U \<or> within_window t)"

text \<open>\<open>U\<close> holds the tables a batch has written and not yet evicted from.\<close>

definition hot_inv :: "string set \<Rightarrow> 'n hot_state \<Rightarrow> bool" where
  "hot_inv U s \<longleftrightarrow> (\<forall>table t. bt_get (hs_tables s) table = Some t \<longrightarrow> table_inv U table t)"

lemma hot_invI: "(\<And>table t. bt_get (hs_tables s) table = Some t \<Longrightarrow> table_inv U table t) \<Longrightarrow> hot_inv U s"
  by (simp add: hot_inv_def)

lemma hot_invD: "hot_inv U s \<Longrightarrow> bt_get (hs_tables s) table = Some t \<Longrightarrow> table_inv U table t"
  by (simp add: hot_inv_def)

lemma table_inv_mono: "table_inv U table t \<Longrightarrow> (table \<in> U \<Longrightarrow> table \<in> V) \<Longrightarrow> table_inv V table t"
  by (auto simp: table_inv_def)

lemma hot_inv_mono: "hot_inv U s \<Longrightarrow> U \<subseteq> V \<Longrightarrow> hot_inv V s"
  by (blast intro: hot_invI dest: hot_invD table_inv_mono)

lemma within_window_cong:
  "ht_records t' = ht_records t \<Longrightarrow> ht_max_items t' = ht_max_items t \<Longrightarrow>
   within_window t' = within_window t"
  by (cases "ht_max_items t") (simp_all add: within_window_def)

lemma table_inv_cong:
  assumes "ht_records t' = ht_records t" "ht_max_items t' = ht_max_items t"
    "hot_table_ok t' = hot_table_ok t"
  shows "table_inv U table t' = table_inv U table t"
  using assms within_window_cong [OF assms(1,2)] by (simp add: table_inv_def)

lemma table_inv_counters [simp]: "table_inv U table (t\<lparr>ht_counters := c\<rparr>) = table_inv U table t"
  by (rule table_inv_cong) simp_all

text \<open>An operation on one table keeps the invariant when it keeps that of the table.\<close>

lemma hot_inv_map:
  assumes "hot_inv U s"
    and "\<And>x. bt_get (hs_tables s') x =
           (if x = table then map_option f (bt_get (hs_tables s) table) else bt_get (hs_tables s) x)"
    and "\<And>t. table_inv U table t \<Longrightarrow> table_inv V table (f t)"
    and "U - {table} \<subseteq> V"
  shows "hot_inv V s'"
proof (rule hot_invI)
  fix x t
  assume "bt_get (hs_tables s') x = Some t"
  with assms(2) have "(x = table \<and> (\<exists>t0. bt_get (hs_tables s) table = Some t0 \<and> t = f t0))
      \<or> (x \<noteq> table \<and> bt_get (hs_tables s) x = Some t)"
    by (auto split: if_splits)
  then show "table_inv V x t"
    using hot_invD [OF assms(1)] assms(3,4) table_inv_mono by blast
qed

lemma tables_update:
  "bt_get (hs_tables (update_table table f s)) x =
     (if x = table then map_option f (bt_get (hs_tables s) table) else bt_get (hs_tables s) x)"
  by (auto simp: update_table_def split: option.split)

lemma tables_count:
  "bt_get (hs_tables (count_both f table s)) x =
     (if x = table then map_option (\<lambda>t. t\<lparr>ht_counters := f (ht_counters t)\<rparr>)
        (bt_get (hs_tables s) table) else bt_get (hs_tables s) x)"
  by (simp add: count_both_def tables_update)

lemma tables_touch:
  "bt_get (hs_tables (touch_many now table ks s)) x =
     (if x = table then map_option (\<lambda>t. snd (touch_keys now ks (hs_access_seq s) t))
        (bt_get (hs_tables s) table) else bt_get (hs_tables s) x)"
  by (auto simp: touch_many_def case_prod_beta Let_def split: option.split)

lemma tables_evict_lru:
  "bt_get (hs_tables (evict_lru table s)) x =
     (if x = table then map_option (\<lambda>t. fold evict_lru_victim (lru_victims t) t)
        (bt_get (hs_tables s) table) else bt_get (hs_tables s) x)"
  by (auto simp: evict_lru_def Let_def split: option.split)

lemma hot_inv_count: "hot_inv U s \<Longrightarrow> hot_inv U (count_both f table s)"
  by (rule hot_inv_map [OF _ tables_count]) auto

lemma hot_inv_update_table:
  "hot_inv U s \<Longrightarrow> (\<And>t. table_inv U table t \<Longrightarrow> table_inv U table (f t)) \<Longrightarrow>
   hot_inv U (update_table table f s)"
  by (rule hot_inv_map [OF _ tables_update]) auto

lemma touch_inv: "table_inv U table t \<Longrightarrow> table_inv U table (snd (touch_keys now ks seq t))"
proof -
  let ?t = "snd (touch_keys now ks seq t)"
  assume inv: "table_inv U table t"
  have same: "ht_records ?t = ht_records t" "ht_max_items ?t = ht_max_items t"
    by (simp_all add: touch_keys_fields)
  from within_window_cong [OF this] have "within_window ?t = within_window t" .
  then show "table_inv U table ?t"
    using inv touch_keys_ok [of t now ks seq] by (simp add: table_inv_def same)
qed

lemma hot_inv_touch_many: "hot_inv U s \<Longrightarrow> hot_inv U (touch_many now table ks s)"
  by (rule hot_inv_map [OF _ tables_touch]) (auto simp: touch_inv)

lemma hot_inv_evict_lru: "hot_inv U s \<Longrightarrow> hot_inv (U - {table}) (evict_lru table s)"
proof (rule hot_inv_map [OF _ tables_evict_lru])
  fix t
  assume "table_inv U table t"
  then show "table_inv (U - {table}) table (fold evict_lru_victim (lru_victims t) t)"
    using evict_lru_within [of t] by (auto simp: table_inv_def fold_evict split: if_splits)
qed auto

lemma hot_inv_fold_evict:
  "hot_inv U s \<Longrightarrow> hot_inv (U - set ts) (fold evict_lru ts s)"
proof (induction ts arbitrary: U s)
  case (Cons a ts)
  have "U - {a} - set ts = U - set (a # ts)" by auto
  with Cons.IH [OF hot_inv_evict_lru [OF Cons.prems, of a]] show ?case
    by (simp del: set_simps)
qed simp

lemma put_touch_inv:
  assumes "table_inv U table t" "rec_table r = table"
  shows "table_inv (insert table U) table (snd (touch_keys now [rec_key r] seq (put_row r t)))"
proof -
  let ?t = "snd (touch_keys now [rec_key r] seq (put_row r t))"
  have rows: "ht_records ?t = bt_insert (rec_key r) r (ht_records t)"
    by (simp only: touch_keys_fields put_row_fields)
  have "hot_table_ok ?t" using assms(1) put_row_touch_ok by (auto simp: table_inv_def)
  moreover have "bt_get (ht_records ?t) k = Some r' \<Longrightarrow> rec_table r' = table" for k r'
    using assms unfolding rows by (auto simp: table_inv_def split: if_splits)
  ultimately show ?thesis unfolding table_inv_def by blast
qed

lemma upsert_write_inv:
  assumes "hot_inv U s"
  shows "hot_inv (insert (rec_table r) U)
    (touch_many now (rec_table r) [rec_key r] (update_table (rec_table r) (put_row r) s))"
proof (rule hot_inv_map [OF assms])
  fix x
  show "bt_get (hs_tables (touch_many now (rec_table r) [rec_key r]
          (update_table (rec_table r) (put_row r) s))) x =
        (if x = rec_table r
         then map_option (\<lambda>t. snd (touch_keys now [rec_key r]
                (hs_access_seq (update_table (rec_table r) (put_row r) s)) (put_row r t)))
                (bt_get (hs_tables s) (rec_table r))
         else bt_get (hs_tables s) x)"
    by (simp add: tables_touch tables_update option.map_comp o_def del: touch_keys.simps)
qed (auto simp del: touch_keys.simps intro: put_touch_inv)

lemma upsert_internal_inv:
  assumes "hot_inv U s"
  shows "fst (upsert_internal now r c False s) = Some table \<Longrightarrow>
           hot_inv (insert table U) (snd (upsert_internal now r c False s))"
    and "fst (upsert_internal now r c e s) = None \<Longrightarrow> hot_inv U (snd (upsert_internal now r c e s))"
    and "hot_inv U (snd (upsert_internal now r c True s))"
proof -
  have c: "hot_inv U (if c then count_both f table s else s)" for f table
    using assms hot_inv_count by auto
  note w = upsert_write_inv [OF c, of r]
  show "fst (upsert_internal now r c False s) = Some table \<Longrightarrow>
           hot_inv (insert table U) (snd (upsert_internal now r c False s))"
    using w by (auto simp: upsert_internal_def Let_def split: option.splits)
  show "fst (upsert_internal now r c e s) = None \<Longrightarrow> hot_inv U (snd (upsert_internal now r c e s))"
    using assms by (auto simp: upsert_internal_def Let_def split: option.splits)
  show "hot_inv U (snd (upsert_internal now r c True s))"
  proof (cases "bt_get (hs_tables s) (rec_table r)")
    case (Some t)
    let ?f = "\<lambda>c. c\<lparr>hc_upsert_total := sat_add (hc_upsert_total c) 1\<rparr>"
    have "hot_inv U (evict_lru (rec_table r) (touch_many now (rec_table r) [rec_key r]
        (update_table (rec_table r) (put_row r) (if c then count_both ?f (rec_table r) s else s))))"
      by (rule hot_inv_mono [OF hot_inv_evict_lru [OF w]]) auto
    with Some show ?thesis by (simp add: upsert_internal_def Let_def)
  qed (use assms in \<open>simp add: upsert_internal_def\<close>)
qed

lemma hydrate_inv:
  assumes "hot_inv U s"
  shows "fst (hydrate_durable now r False s) = Some table \<Longrightarrow>
           hot_inv (insert table U) (snd (hydrate_durable now r False s))"
    and "fst (hydrate_durable now r False s) = None \<Longrightarrow> hot_inv U (snd (hydrate_durable now r False s))"
proof -
  note count = hot_inv_count [OF assms]
  show "fst (hydrate_durable now r False s) = Some table \<Longrightarrow>
           hot_inv (insert table U) (snd (hydrate_durable now r False s))"
    using upsert_internal_inv(1) [OF count] upsert_internal_inv(1) [OF assms]
    by (simp add: hydrate_durable_def split: option.splits if_splits)
  show "fst (hydrate_durable now r False s) = None \<Longrightarrow>
           hot_inv U (snd (hydrate_durable now r False s))"
    using upsert_internal_inv(2) [OF count] upsert_internal_inv(2) [OF assms] assms count
    by (simp add: hydrate_durable_def split: option.splits if_splits)
qed

lemma for_each_touched_inv:
  assumes "\<And>r s U table. hot_inv U s \<Longrightarrow> fst (f r s) = Some table \<Longrightarrow> hot_inv (insert table U) (snd (f r s))"
    and "\<And>r s U. hot_inv U s \<Longrightarrow> fst (f r s) = None \<Longrightarrow> hot_inv U (snd (f r s))"
    and "hot_inv (bs_elems touched) s"
  shows "hot_inv (bs_elems (fst (for_each_touched f rs touched s))) (snd (for_each_touched f rs touched s))"
  using assms(3)
proof (induction rs arbitrary: touched s)
  case (Cons r rs)
  show ?case
  proof (cases "f r s")
    case (Pair o' s')
    then show ?thesis
      using Cons.IH [of "bs_insert (the o') touched" s'] Cons.IH [of touched s']
        assms(1) [OF Cons.prems, of r] assms(2) [OF Cons.prems, of r]
      by (cases o') auto
  qed
qed simp

lemma batch_inv:
  assumes "\<And>r s U table. hot_inv U s \<Longrightarrow> fst (f r s) = Some table \<Longrightarrow> hot_inv (insert table U) (snd (f r s))"
    and "\<And>r s U. hot_inv U s \<Longrightarrow> fst (f r s) = None \<Longrightarrow> hot_inv U (snd (f r s))"
    and "hot_inv {} s"
  shows "hot_inv {} (case for_each_touched f rs bt_empty s of
    (touched, s') \<Rightarrow> fold evict_lru (bt_keys touched) s')"
proof -
  let ?p = "for_each_touched f rs bt_empty s"
  have "hot_inv (bs_elems bt_empty) s" using assms(3) by simp
  from for_each_touched_inv [of f, OF assms(1,2) this, of rs]
  have "hot_inv (bs_elems (fst ?p)) (snd ?p)" .
  from hot_inv_fold_evict [OF this, of "bt_keys (fst ?p)"] show ?thesis
    by (simp add: case_prod_beta set_bs_keys)
qed

lemma drop_row_inv:
  assumes "table_inv U table t"
  shows "table_inv U table (forget_access key (remove_row key t))"
proof -
  have "{a. bt_get (bt_remove key (ht_records t)) a \<noteq> None} \<subseteq> {a. bt_get (ht_records t) a \<noteq> None}"
    by (auto split: if_splits)
  then have "bt_len (bt_remove key (ht_records t)) \<le> bt_len (ht_records t)"
    by (simp add: bt_len_card card_mono del: not_None_eq)
  then show ?thesis
    using assms drop_row_ok [of t key]
    by (auto simp: table_inv_def within_window_def split: option.splits if_splits)
qed

lemma idle_table_inv: "table_inv U table t \<Longrightarrow> table_inv U table (evict_idle_table now ttl t)"
proof -
  have "table_inv U table (fold evict_idle_victim vs t)" if "table_inv U table t" for vs t
    using that by (induction vs arbitrary: t) (simp_all add: evict_idle_victim_def drop_row_inv)
  then show "table_inv U table t \<Longrightarrow> table_inv U table (evict_idle_table now ttl t)"
    by (simp add: evict_idle_table_def)
qed

lemma sweep_inv: "hot_inv U s \<Longrightarrow> hot_inv U (snd (evict_idle_durable_records now s))"
  by (auto simp: hot_inv_def evict_idle_durable_records_def Let_def idle_table_inv)

lemma write_batches_inv:
  assumes "hot_inv {} s"
  shows "hot_inv {} (upsert_many now rs s)" and "hot_inv {} (hydrate_durable_many now rs s)"
  using batch_inv [of "\<lambda>r. upsert_internal now r True False", OF upsert_internal_inv(1,2) assms]
    batch_inv [of "\<lambda>r. hydrate_durable now r False", OF hydrate_inv assms]
  by (simp_all add: upsert_many_def hydrate_durable_many_def case_prod_beta)

lemma tombstones_inv [simp]:
  "table_inv U table (t\<lparr>ht_durable_delete_tombstones := d\<rparr>) = table_inv U table t"
  by (rule table_inv_cong) simp_all

lemma forget_tombstone:
  "forget_access key (t\<lparr>ht_durable_delete_tombstones := d\<rparr>) =
     (forget_access key t)\<lparr>ht_durable_delete_tombstones := d\<rparr>"
  by (simp add: forget_access_def)

lemma deletes_inv:
  assumes "hot_inv U s"
  shows "hot_inv U (hot_delete table key s)" and "hot_inv U (delete_durable table key lsn s)"
    and "hot_inv U (clear_durable_delete_tombstone table key lsn s)"
    and "hot_inv U (snd (hot_evict table key s))"
proof -
  have drop: "hot_inv U (update_table table (\<lambda>t. forget_access key (remove_row key t)) s)"
    by (rule hot_inv_update_table [OF assms]) (rule drop_row_inv)
  show "hot_inv U (hot_delete table key s)"
    using assms drop hot_inv_count by (auto simp: hot_delete_def split: option.split)
  show "hot_inv U (snd (hot_evict table key s))"
    using assms drop hot_inv_count by (auto simp: hot_evict_def Let_def split: option.split)
  show "hot_inv U (clear_durable_delete_tombstone table key lsn s)"
    unfolding clear_durable_delete_tombstone_def
    by (rule hot_inv_update_table [OF assms]) simp
  have "hot_inv U (update_table table (\<lambda>t. let t1 = remove_row key t;
      tombstone = bt_get_or (ht_durable_delete_tombstones t1) key 0
      in forget_access key (t1\<lparr>ht_durable_delete_tombstones :=
           bt_insert key (max tombstone lsn) (ht_durable_delete_tombstones t1)\<rparr>)) s)"
    by (rule hot_inv_update_table [OF assms]) (simp add: Let_def forget_tombstone drop_row_inv)
  from hot_inv_count [OF this] assms show "hot_inv U (delete_durable table key lsn s)"
    unfolding delete_durable_def by (auto split: option.split)
qed

lemma evict_many_inv: "hot_inv U s \<Longrightarrow> hot_inv U (snd (evict_many table ks n s))"
  by (induction table ks n s rule: evict_many.induct)
     (auto simp: case_prod_beta Let_def deletes_inv)

lemma note_rows_inv: "hot_inv U s \<Longrightarrow> hot_inv U (note_rows now table rs s)"
  by (simp add: note_rows_def note_list_def hot_inv_touch_many hot_inv_count)

lemma reads_inv:
  assumes "hot_inv U s"
  shows "hot_inv U (snd (hot_get now table key s))"
    and "hot_inv U (snd (hot_list now table after_key limit s))"
    and "hot_inv U (snd (hot_list_by_key_prefix now table pfx after_key limit s))"
    and "hot_inv U (snd (scan_key_order now table key_prefix after_key s))"
    and "hot_inv U (snd (scan_key_order_overlay now table key_prefix after_key s))"
  using assms
  by (auto simp: hot_get_def hot_list_def hot_list_by_key_prefix_def scan_key_order_def
      scan_key_order_overlay_def Let_def hot_inv_touch_many hot_inv_count note_rows_inv
      split: option.split)

text \<open>A snapshot read back from disk has its rows under their own tables and keys.\<close>

definition snapshot_ok :: "'n hot_snapshot option \<Rightarrow> bool" where
  "snapshot_ok snapshot \<longleftrightarrow>
     (\<forall>sn\<in>set_option snapshot. \<forall>(table, rows)\<in>set (bt_entries (hsn_tables sn)).
        \<forall>(key, entry)\<in>set (bt_entries rows).
          rec_table (rs_record entry) = table \<and> rec_key (rs_record entry) = key)"

lemma counts_ok_frame [simp]:
  "counts_ok m (t\<lparr>ht_access := a\<rparr>) = counts_ok m t"
  "counts_ok m (t\<lparr>ht_last_accessed_ms := l\<rparr>) = counts_ok m t"
  "counts_ok m (t\<lparr>ht_records := rows\<rparr>) = counts_ok m t"
  "counts_ok m (t\<lparr>ht_durable_delete_tombstones := d\<rparr>) = counts_ok m t"
  by (simp_all add: counts_ok_def)

lemma bt_len_empty [simp]: "bt_len bt_empty = 0"
  by (simp only: bt_len_0)

lemma insert_with_access_inv:
  assumes "hot_inv U s" "rec_key r = key" "rec_table r = table"
  shows "hot_inv (insert table U) (insert_with_access now table key r access last_ms s)"
proof -
  let ?f = "\<lambda>t. let old = holds_volatile t key;
       t1 = t\<lparr>ht_records := bt_insert key r (ht_records t)\<rparr>;
       t2 = (if is_durable_record r
             then t1\<lparr>ht_durable_delete_tombstones := bt_remove key (ht_durable_delete_tombstones t1)\<rparr>
             else t1);
       t3 = update_volatile_record_state key old (\<not> is_durable_record r) t2
     in t3\<lparr>ht_access := bt_insert key access (ht_access t3),
           ht_last_accessed_ms :=
             bt_insert key (if last_ms = 0 then now else last_ms) (ht_last_accessed_ms t3)\<rparr>"
  have "table_inv (insert table U) table (?f t)" if t: "table_inv U table t" for t
  proof -
    let ?t2 = "if is_durable_record r
        then t\<lparr>ht_records := bt_insert key r (ht_records t),
               ht_durable_delete_tombstones := bt_remove key (ht_durable_delete_tombstones t)\<rparr>
        else t\<lparr>ht_records := bt_insert key r (ht_records t)\<rparr>"
    have "counts_ok (ht_records t) ?t2"
      using t by (auto simp: table_inv_def hot_table_ok_def counts_ok_def)
    then have "counts_ok (bt_insert key r (ht_records t))
        (update_volatile_record_state key (holds_volatile t key) (\<not> is_durable_record r) ?t2)"
      by (rule update_volatile_counts) (auto simp: holds_volatile_iff)
    then have "counts_ok (bt_insert key r (ht_records t)) (?f t)"
      by (cases "is_durable_record r") (simp_all add: Let_def)
    then show ?thesis
      using t assms(2,3) by (auto simp: table_inv_def hot_table_ok_def Let_def)
  qed
  then have "hot_inv (insert table U) (update_table table ?f s)"
    by (rule hot_inv_map [OF assms(1) tables_update]) auto
  then show ?thesis
    using hot_inv_mono [OF assms(1), of "insert table U"]
    by (auto simp: insert_with_access_def hot_inv_def split: option.split)
qed

lemma initial_inv: "hot_inv {} (initial_hot_state schema ttl)"
proof (rule hot_invI)
  fix table t
  assume "bt_get (hs_tables (initial_hot_state schema ttl)) table = Some t"
  then obtain storage m where t: "t = empty_hot_table storage m"
    by (auto simp: initial_hot_state_def case_prod_beta)
  then have "bt_get (ht_records t) k = None" "ht_records t = bt_empty" for k
    by (simp_all add: empty_hot_table_def)
  moreover have "hot_table_ok t"
    by (simp add: t hot_table_ok_def counts_ok_def empty_hot_table_def prefix_count_def)
  ultimately show "table_inv {} table t"
    by (simp add: table_inv_def within_window_def split: option.split)
qed

lemma construction_inv:
  assumes "snapshot_ok snapshot"
  shows "hot_inv {} (from_schema_snapshot_and_records now schema snapshot snapshot_lsn records ttl)"
proof -
  let ?current = "bt_collect (map (\<lambda>r. ((rec_table r, rec_key r), r)) records)"
  have rows: "hot_inv {table} (fold (restore_row now ?current table) es s)"
    if "hot_inv {table} s"
      "\<forall>(key, entry)\<in>set es. rec_table (rs_record entry) = table \<and> rec_key (rs_record entry) = key"
    for es s table
    using that
  proof (induction es arbitrary: s)
    case (Cons e es)
    obtain key entry where e: "e = (key, entry)" by force
    have "hot_inv (insert table {table}) (insert_with_access now table key (rs_record entry)
        (rs_access entry) (rs_last_accessed_ms entry) s)"
      using Cons.prems e by (intro insert_with_access_inv) auto
    then have "hot_inv {table} (restore_row now ?current table e s)"
      using Cons.prems(1) by (simp add: restore_row_def e)
    with Cons.IH Cons.prems(2) show ?case by simp
  qed simp
  have tables: "hot_inv {} (fold (restore_table now ?current) ts s)"
    if "hot_inv {} s" "\<forall>(table, rows)\<in>set ts. \<forall>(key, entry)\<in>set (bt_entries rows).
        rec_table (rs_record entry) = table \<and> rec_key (rs_record entry) = key" for ts s
    using that
  proof (induction ts arbitrary: s)
    case (Cons e ts)
    obtain table es where e: "e = (table, es)" by force
    have "hot_inv {table} (fold (restore_row now ?current table) (bt_entries es) s)"
      using Cons.prems e by (intro rows hot_inv_mono [OF Cons.prems(1)]) auto
    from hot_inv_evict_lru [OF this, of table] Cons.prems(1)
    have "hot_inv {} (restore_table now ?current e s)"
      by (simp add: restore_table_def e)
    with Cons.IH Cons.prems(2) show ?case by simp
  qed simp
  have replay: "hot_inv {} (fold (replay_row now snapshot snapshot_lsn) rs s)"
    if "hot_inv {} s" for rs s
    using that
  proof (induction rs arbitrary: s)
    case (Cons r rs)
    have "hot_inv {} (replay_row now snapshot snapshot_lsn r s)"
      using Cons.prems upsert_internal_inv(3) [OF Cons.prems]
      by (auto simp: replay_row_def split: option.split)
    with Cons.IH show ?case by simp
  qed simp
  have init: "hot_inv {} ((initial_hot_state schema ttl)\<lparr>hs_access_seq := n\<rparr>)" for n
    using initial_inv [of schema ttl] by (simp add: hot_inv_def)
  show ?thesis
  proof (cases snapshot)
    case None
    then show ?thesis
      by (simp add: from_schema_snapshot_and_records_def Let_def replay [unfolded None] initial_inv)
  next
    case (Some sn)
    have "hot_inv {} (fold (restore_table now ?current) (bt_entries (hsn_tables sn))
        ((initial_hot_state schema ttl)\<lparr>hs_access_seq := hsn_access_seq sn\<rparr>))"
      using assms Some by (intro tables init) (auto simp: snapshot_ok_def)
    then show ?thesis
      by (simp add: from_schema_snapshot_and_records_def Let_def Some replay [unfolded Some])
  qed
qed

section \<open>The operations of the cache as steps\<close>

inductive hot_op :: "'n hot_state \<Rightarrow> 'n hot_state \<Rightarrow> bool" where
  step_get: "hot_op s (snd (cache_get now table key s))"
| step_list: "hot_op s (snd (cache_list now table after_key limit s))"
| step_list_prefix: "hot_op s (snd (cache_list_by_key_prefix now table pfx after_key limit s))"
| step_scan: "hot_op s (snd (cache_scan_key_order now table key_prefix after_key s))"
| step_overlay: "hot_op s (snd (cache_scan_overlay now table key_prefix after_key s))"
| step_upsert: "hot_op s (hot_upsert now r s)"
| step_upsert_many: "hot_op s (upsert_many now rs s)"
| step_hydrate_many: "hot_op s (hydrate_durable_many now rs s)"
| step_delete: "hot_op s (hot_delete table key s)"
| step_delete_durable: "hot_op s (delete_durable table key lsn s)"
| step_clear_tombstone: "hot_op s (clear_durable_delete_tombstone table key lsn s)"
| step_evict_many: "hot_op s (snd (evict_many table ks 0 s))"
| step_sweep: "hot_op s (snd (evict_idle_durable_records now s))"
| step_snapshot: "hot_op s (snd (hot_snapshot_of now s))"

text \<open>Applying a schema rebuilds the cache.\<close>

inductive hot_step :: "'n hot_state \<Rightarrow> 'n hot_state \<Rightarrow> bool" where
  step_op: "hot_op s s' \<Longrightarrow> hot_step s s'"
| step_reconfigure: "hot_step s (reconfigure now schema records ttl s)"

inductive hot_reachable :: "'n hot_state \<Rightarrow> bool" where
  hot_start: "snapshot_ok snapshot \<Longrightarrow>
    hot_reachable (from_schema_snapshot_and_records now schema snapshot snapshot_lsn records ttl)"
| hot_next: "hot_reachable s \<Longrightarrow> hot_step s s' \<Longrightarrow> hot_reachable s'"

lemma hot_op_inv: "hot_op s s' \<Longrightarrow> hot_inv {} s \<Longrightarrow> hot_inv {} s'"
  by (induction rule: hot_op.induct)
     (simp_all add: cache_get_def cache_list_def cache_list_by_key_prefix_def
      cache_scan_key_order_def cache_scan_overlay_def swept_def reads_inv sweep_inv
      hot_upsert_def upsert_internal_inv(3) write_batches_inv deletes_inv evict_many_inv
      hot_snapshot_of_def Let_def)

lemma hot_step_inv: "hot_step s s' \<Longrightarrow> hot_inv {} s \<Longrightarrow> hot_inv {} s'"
proof (induction rule: hot_step.induct)
  case (step_reconfigure s now schema records ttl)
  have "hot_inv {} (from_schema_and_records now schema records ttl)"
    unfolding from_schema_and_records_def by (rule construction_inv) (simp add: snapshot_ok_def)
  then show ?case by (simp add: reconfigure_def hot_inv_def Let_def)
qed (simp add: hot_op_inv)

lemma hot_reachable_inv: "hot_reachable s \<Longrightarrow> hot_inv {} s"
  by (induction rule: hot_reachable.induct) (simp_all add: construction_inv hot_step_inv)

section \<open>Generations\<close>

text \<open>
  A table moves on (\<open>moved\<close>) when its generations never go back and every volatile row that
  changes counts up the generation of the table and of all prefixes of its key, unless the
  counter has reached its maximum.
\<close>

definition volatile_row :: "'n hot_table \<Rightarrow> string \<Rightarrow> 'n db_record option" where
  "volatile_row t k =
     (case bt_get (ht_records t) k of
        None \<Rightarrow> None | Some r \<Rightarrow> if is_durable_record r then None else Some r)"

definition counted :: "u64 \<Rightarrow> u64 \<Rightarrow> bool" where
  "counted g g' \<longleftrightarrow> g < g' \<or> g' = - 1"

definition scope_generation :: "'n hot_table \<Rightarrow> string option \<Rightarrow> u64" where
  "scope_generation t scope =
     (case scope of
        None \<Rightarrow> ht_volatile_generation t
      | Some p \<Rightarrow> bt_get_or (ht_volatile_key_prefix_generations t) p 0)"

definition in_scope :: "string option \<Rightarrow> string \<Rightarrow> bool" where
  "in_scope scope key \<longleftrightarrow>
     (case scope of None \<Rightarrow> True | Some p \<Rightarrow> p \<in> set (volatile_key_prefixes key))"

definition moved :: "'n hot_table \<Rightarrow> 'n hot_table \<Rightarrow> bool" where
  "moved t t' \<longleftrightarrow>
     (\<forall>scope. scope_generation t scope \<le> scope_generation t' scope)
   \<and> (\<forall>scope k. in_scope scope k \<longrightarrow> volatile_row t k \<noteq> volatile_row t' k \<longrightarrow>
        counted (scope_generation t scope) (scope_generation t' scope))"

lemma max_word_le: "(- 1 :: u64) \<le> g \<longleftrightarrow> g = - 1"
  using word_order.extremum_unique by auto

lemma counted_le: "counted g g' \<Longrightarrow> g' \<le> g'' \<Longrightarrow> counted g g''"
  by (auto simp: counted_def max_word_le)

lemma le_counted: "g \<le> g' \<Longrightarrow> counted g' g'' \<Longrightarrow> counted g g''"
  by (auto simp: counted_def)

lemma counted_add: "counted g (sat_add g 1)"
proof (cases "unat g + 1 < 2 ^ 64")
  case True
  then show ?thesis by (simp add: counted_def sat_add_def word_less_nat_alt unat_add_small)
qed (simp add: counted_def sat_add_def)

lemma moved_refl [simp]: "moved t t"
  by (simp add: moved_def)

lemma moved_trans: "moved t t' \<Longrightarrow> moved t' t'' \<Longrightarrow> moved t t''"
  unfolding moved_def by (metis counted_le le_counted order_trans)

lemma moved_same:
  assumes "ht_records t' = ht_records t" "ht_volatile_generation t' = ht_volatile_generation t"
    "ht_volatile_key_prefix_generations t' = ht_volatile_key_prefix_generations t"
  shows "moved t t'"
  using assms by (simp add: moved_def scope_generation_def volatile_row_def split: option.split)

lemma moved_frame [simp]:
  "moved t (t\<lparr>ht_counters := c\<rparr>)"
  "moved t (t\<lparr>ht_durable_delete_tombstones := d\<rparr>)"
  "moved t (forget_access key t)"
  by (rule moved_same; simp add: forget_access_def)+

lemma bump_generations:
  "distinct ps \<Longrightarrow> bt_get_or (fold bump_prefix_generation ps m) p 0 =
     (if p \<in> set ps then sat_add (bt_get_or m p 0) 1 else bt_get_or m p 0)"
proof (induction ps arbitrary: m)
  case (Cons a ps)
  then show ?case by (auto simp: bump_prefix_generation_def bt_get_or_def)
qed simp

lemma update_volatile_generation:
  "scope_generation (update_volatile_record_state key a b t) scope =
     (if (a \<or> b) \<and> in_scope scope key then sat_add (scope_generation t scope) 1
      else scope_generation t scope)"
  by (cases a; cases b)
     (auto simp: scope_generation_def in_scope_def update_volatile_record_state_def
        bump_volatile_generation_def adjust_volatile_key_prefixes_def
        bump_generations [OF distinct_volatile_key_prefixes] split: option.split)

text \<open>Replacing or removing one row, with its bookkeeping.\<close>

lemma moved_update:
  assumes "\<And>k. k \<noteq> key \<Longrightarrow> bt_get (ht_records t') k = bt_get (ht_records t) k"
    and "ht_volatile_generation t' = ht_volatile_generation t"
    and "ht_volatile_key_prefix_generations t' = ht_volatile_key_prefix_generations t"
    and "volatile_row t key \<noteq> volatile_row t' key \<Longrightarrow> a \<or> b"
  shows "moved t (update_volatile_record_state key a b t')"
proof -
  have gen: "scope_generation t' scope = scope_generation t scope" for scope
    using assms(2,3) by (cases scope) (simp_all add: scope_generation_def)
  have row: "volatile_row (update_volatile_record_state key a b t') k = volatile_row t' k" for k
    by (simp add: volatile_row_def)
  have "k = key \<and> (a \<or> b)" if "volatile_row t k \<noteq> volatile_row t' k" for k
  proof (cases "k = key")
    case False
    then have "volatile_row t k = volatile_row t' k" using assms(1) by (simp add: volatile_row_def)
    with that show ?thesis by simp
  qed (use that assms(4) in simp)
  then show ?thesis
    unfolding moved_def row update_volatile_generation gen
    by (auto simp: sat_add_ge intro: counted_add)
qed

lemma moved_remove_row: "moved t (remove_row key t)"
proof (cases "bt_get (ht_records t) key")
  case None
  then show ?thesis by (simp add: remove_row_def)
next
  case (Some r)
  have "moved t (update_volatile_record_state key (\<not> is_durable_record r) False
      (t\<lparr>ht_records := bt_remove key (ht_records t)\<rparr>))"
    by (rule moved_update) (use Some in \<open>auto simp: volatile_row_def\<close>)
  with Some show ?thesis by (simp add: remove_row_def)
qed

lemma moved_put_row: "moved t (put_row r t)"
  unfolding put_row_def Let_def
  by (rule moved_update) (auto simp: volatile_row_def holds_volatile_def split: option.splits)

lemma moved_touch: "moved t (snd (touch_keys now ks seq t))"
  by (rule moved_same) (simp_all add: touch_keys_fields)

lemma moved_evict_victims:
  "moved t (fold evict_lru_victim vs t)" "moved t (fold evict_idle_victim vs t)"
proof -
  have drop: "moved t (forget_access v (remove_row v t))" for v and t :: "'b hot_table"
    using moved_trans [OF moved_remove_row [of t v] moved_frame(3)] .
  have lru: "moved t (evict_lru_victim v t)" for v and t :: "'b hot_table"
    unfolding evict_lru_victim_def Let_def using moved_trans [OF drop moved_frame(1)] .
  show "moved t (fold evict_lru_victim vs t)"
    by (induction vs arbitrary: t) (auto intro: moved_trans lru)
  show "moved t (fold evict_idle_victim vs t)"
    by (induction vs arbitrary: t) (auto simp: evict_idle_victim_def intro: moved_trans drop)
qed

definition moved_state :: "'n hot_state \<Rightarrow> 'n hot_state \<Rightarrow> bool" where
  "moved_state s s' \<longleftrightarrow>
     (\<forall>table. rel_option moved (bt_get (hs_tables s) table) (bt_get (hs_tables s') table))"

lemma moved_state_refl [simp]: "moved_state s s"
  by (simp add: moved_state_def option.rel_refl)

lemma moved_state_trans: "moved_state s s' \<Longrightarrow> moved_state s' s'' \<Longrightarrow> moved_state s s''"
proof -
  have "rel_option moved x z" if "rel_option moved x y" "rel_option moved y z"
    for x y z :: "'a hot_table option"
    using that by (cases x; cases y; cases z) (auto intro: moved_trans)
  then show "moved_state s s' \<Longrightarrow> moved_state s' s'' \<Longrightarrow> moved_state s s''"
    unfolding moved_state_def by blast
qed

lemma moved_state_map:
  assumes "\<And>x. bt_get (hs_tables s') x =
      (if x = table then map_option f (bt_get (hs_tables s) table) else bt_get (hs_tables s) x)"
    and "\<And>t. moved t (f t)"
  shows "moved_state s s'"
  unfolding moved_state_def assms(1)
  by (auto simp: option.rel_map option.rel_refl assms(2) intro: option.rel_refl)

lemma moved_count: "moved_state s (count_both f table s)"
  by (rule moved_state_map [OF tables_count]) simp

lemma moved_touch_many: "moved_state s (touch_many now table ks s)"
  by (rule moved_state_map [OF tables_touch]) (rule moved_touch)

lemma moved_evict_lru: "moved_state s (evict_lru table s)"
  by (rule moved_state_map [OF tables_evict_lru]) (rule moved_evict_victims)

lemma moved_update_table: "(\<And>t. moved t (f t)) \<Longrightarrow> moved_state s (update_table table f s)"
  by (rule moved_state_map [OF tables_update])

lemma moved_fold: "(\<And>a s. moved_state s (f a s)) \<Longrightarrow> moved_state s (fold f xs s)"
  by (induction xs arbitrary: s) (auto intro: moved_state_trans)

lemma moved_upsert_internal: "moved_state s (snd (upsert_internal now r c e s))"
proof -
  let ?s = "if c then count_both (\<lambda>c. c\<lparr>hc_upsert_total := sat_add (hc_upsert_total c) 1\<rparr>) (rec_table r) s
            else s"
  have "moved_state s ?s" by (simp add: moved_count)
  moreover have "moved_state ?s (update_table (rec_table r) (put_row r) ?s)"
    by (rule moved_update_table) (rule moved_put_row)
  ultimately have w: "moved_state s (touch_many now (rec_table r) [rec_key r]
      (update_table (rec_table r) (put_row r) ?s))"
    using moved_touch_many moved_state_trans by blast
  from moved_state_trans [OF this moved_evict_lru] w show ?thesis
    by (auto simp: upsert_internal_def Let_def split: option.split)
qed

lemma moved_hydrate: "moved_state s (snd (hydrate_durable now r e s))"
  using moved_upsert_internal moved_state_trans [OF moved_count moved_upsert_internal]
  by (auto simp: hydrate_durable_def moved_count split: option.split)

lemma moved_for_each:
  assumes "\<And>r s. moved_state s (snd (f r s))"
  shows "moved_state s (snd (for_each_touched f rs touched s))"
proof (induction rs arbitrary: touched s)
  case (Cons r rs)
  then show ?case
    using moved_state_trans [OF assms [of s r]]
    by (auto simp: case_prod_beta split: option.split prod.split)
qed simp

lemma moved_batches:
  "moved_state s (upsert_many now rs s)" "moved_state s (hydrate_durable_many now rs s)"
proof -
  show "moved_state s (upsert_many now rs s)"
    unfolding upsert_many_def case_prod_beta Let_def
    by (rule moved_state_trans [OF moved_for_each [OF moved_upsert_internal] moved_fold [OF moved_evict_lru]])
  show "moved_state s (hydrate_durable_many now rs s)"
    unfolding hydrate_durable_many_def case_prod_beta Let_def
    by (rule moved_state_trans [OF moved_for_each [OF moved_hydrate] moved_fold [OF moved_evict_lru]])
qed

lemma moved_drop: "moved t (forget_access key (remove_row key t))"
  using moved_trans [OF moved_remove_row [of t key] moved_frame(3)] .

lemma moved_deletes:
  "moved_state s (hot_delete table key s)" "moved_state s (delete_durable table key lsn s)"
  "moved_state s (clear_durable_delete_tombstone table key lsn s)"
  "moved_state s (snd (hot_evict table key s))"
proof -
  have drop: "moved_state s (update_table table (\<lambda>t. forget_access key (remove_row key t)) s)"
    by (rule moved_update_table) (rule moved_drop)
  show "moved_state s (hot_delete table key s)"
    using moved_state_trans [OF drop moved_count] by (simp add: hot_delete_def split: option.split)
  show "moved_state s (snd (hot_evict table key s))"
    using moved_state_trans [OF drop moved_count] drop
    by (simp add: hot_evict_def Let_def split: option.split)
  show "moved_state s (clear_durable_delete_tombstone table key lsn s)"
    unfolding clear_durable_delete_tombstone_def by (rule moved_update_table) simp
  have "moved t (forget_access key ((remove_row key t)\<lparr>ht_durable_delete_tombstones := d\<rparr>))"
    for t :: "'a hot_table" and d
    unfolding forget_tombstone using moved_trans [OF moved_drop moved_frame(2)] .
  then have "moved_state s (update_table table (\<lambda>t. let t1 = remove_row key t;
      tombstone = bt_get_or (ht_durable_delete_tombstones t1) key 0
      in forget_access key (t1\<lparr>ht_durable_delete_tombstones :=
           bt_insert key (max tombstone lsn) (ht_durable_delete_tombstones t1)\<rparr>)) s)"
    by (intro moved_update_table) (simp add: Let_def)
  from moved_state_trans [OF this moved_count] show "moved_state s (delete_durable table key lsn s)"
    unfolding delete_durable_def by (auto split: option.split)
qed

lemma moved_sweep: "moved_state s (snd (evict_idle_durable_records now s))"
  by (simp add: moved_state_def evict_idle_durable_records_def Let_def option.rel_map
      evict_idle_table_def moved_evict_victims option.rel_refl)

lemma moved_reads:
  "moved_state s (snd (hot_get now table key s))"
  "moved_state s (snd (hot_list now table after_key limit s))"
  "moved_state s (snd (hot_list_by_key_prefix now table pfx after_key limit s))"
  "moved_state s (snd (scan_key_order now table key_prefix after_key s))"
  "moved_state s (snd (scan_key_order_overlay now table key_prefix after_key s))"
proof -
  show "moved_state s (snd (hot_get now table key s))"
    by (simp add: hot_get_def Let_def moved_state_trans [OF moved_count moved_count]
        moved_state_trans [OF moved_state_trans [OF moved_count moved_count] moved_touch_many]
        split: option.split)
qed (simp_all add: hot_list_def hot_list_by_key_prefix_def scan_key_order_def
      scan_key_order_overlay_def Let_def note_rows_def note_list_def
      moved_state_trans [OF moved_count moved_touch_many] split: option.split)

lemma moved_evict_many: "moved_state s (snd (evict_many table ks n s))"
  by (induction ks arbitrary: n s)
     (auto simp: case_prod_beta Let_def intro: moved_state_trans [OF moved_deletes(4)])

lemmas moved_swept_reads = moved_reads [THEN moved_state_trans [OF moved_sweep]]

lemma hot_op_moved: "hot_op s s' \<Longrightarrow> moved_state s s'"
  by (induction rule: hot_op.induct)
     (simp_all add: cache_get_def cache_list_def cache_list_by_key_prefix_def
      cache_scan_key_order_def cache_scan_overlay_def swept_def hot_upsert_def hot_snapshot_of_def
      Let_def moved_sweep moved_upsert_internal moved_batches moved_deletes moved_evict_many
      moved_swept_reads)

lemma hot_ops_moved: "hot_op\<^sup>*\<^sup>* s s' \<Longrightarrow> moved_state s s'"
  by (induction rule: rtranclp.induct) (auto intro: moved_state_trans hot_op_moved)

lemma volatile_prefix_iff:
  "p \<in> set (volatile_key_prefixes key) \<longleftrightarrow> starts_with key p \<and> ends_with p '':''"
proof (induction key arbitrary: p)
  case Nil
  then show ?case by (auto simp: starts_with_prefix ends_with_suffix)
next
  case (Cons c cs)
  show ?case
  proof (cases p)
    case Nil
    then show ?thesis by (auto simp: ends_with_suffix)
  next
    case (Cons a q)
    have "ends_with (a # q) '':'' \<longleftrightarrow> (if q = [] then a = CHR '':'' else ends_with q '':'')"
      by (auto simp: ends_with_suffix suffix_Cons)
    moreover have "\<not> ends_with [] '':''" by (simp add: ends_with_suffix)
    ultimately show ?thesis
      using Cons.IH [of q] Cons by (auto simp: starts_with_prefix)
  qed
qed

section \<open>Properties\<close>

text \<open>The row of a key when it is a volatile row of the cache.\<close>

definition cached_volatile :: "'n hot_state \<Rightarrow> string \<Rightarrow> string \<Rightarrow> 'n db_record option" where
  "cached_volatile s table key =
     (case bt_get (hs_tables s) table of None \<Rightarrow> None | Some t \<Rightarrow> volatile_row t key)"

definition key_in_scope :: "string option \<Rightarrow> string \<Rightarrow> bool" where
  "key_in_scope scope key \<longleftrightarrow>
     (case scope of None \<Rightarrow> True | Some p \<Rightarrow> starts_with key p \<and> ends_with p '':'')"

text \<open>A cache of one LRU table of two rows, after two durable and one volatile write.\<close>

definition demo_row :: "string \<Rightarrow> u64 \<Rightarrow> string \<Rightarrow> u64 db_record" where
  "demo_row key lsn path =
     \<lparr>rec_table = ''rooms'', rec_key = key, rec_value = JNull, rec_updated_at_ms = 7,
      rec_lsn = lsn, rec_path = path\<rparr>"

definition demo_schema :: storage_schema where
  "demo_schema = bt_collect [(''rooms'', \<lparr>tst_storage = Lru 2, tst_nested = bt_empty\<rparr>)]"

definition demo_start :: "u64 hot_state" where
  "demo_start = from_schema_snapshot_and_records 1 demo_schema None 0
     [demo_row ''a'' 1 ''tables/rooms/a'', demo_row ''b'' 2 ''tables/rooms/b''] 10"

definition demo_cache :: "u64 hot_state" where
  "demo_cache = hot_upsert 5 (demo_row ''r:1'' 0 ''volatile/tables/rooms/r:1'') demo_start"

lemma demo_cache_reachable: "hot_reachable demo_start" "hot_reachable demo_cache"
proof -
  show start: "hot_reachable demo_start"
    unfolding demo_start_def by (rule hot_start) (simp add: snapshot_ok_def)
  show "hot_reachable demo_cache"
    unfolding demo_cache_def by (rule hot_next [OF start step_op [OF step_upsert]])
qed

definition demo_table :: "u64 hot_state \<Rightarrow> u64 hot_table" where
  "demo_table s = the (bt_get (hs_tables s) ''rooms'')"

lemma demo_table_some: "bt_get (hs_tables demo_cache) ''rooms'' = Some (demo_table demo_cache)"
proof -
  have "bt_get (hs_tables demo_cache) ''rooms'' \<noteq> None" by code_simp
  then show ?thesis by (simp add: demo_table_def)
qed

text \<open>
  C6. The bookkeeping of the hot cache is right in every state it can reach: a bounded table
  holds at most its window of rows, every row lies under its own table and key, the number
  of volatile rows is the number of rows that are not durable, and the count of a key prefix
  is the number of volatile rows below it.
\<close>

theorem hot_cache_invariant:
  assumes "hot_reachable s" and "bt_get (hs_tables s) table = Some t"
  shows "(case ht_max_items t of None \<Rightarrow> True | Some n \<Rightarrow> bt_len (ht_records t) \<le> n)
   \<and> ht_volatile_records t = card {k. volatile_row t k \<noteq> None}
   \<and> bt_get_or (ht_volatile_key_prefixes t) p 0
       = card {k. volatile_row t k \<noteq> None \<and> p \<in> set (volatile_key_prefixes k)}
   \<and> (bt_get (ht_records t) k = Some r \<longrightarrow> rec_key r = k \<and> rec_table r = table)"
proof -
  have inv: "table_inv {} table t" using hot_reachable_inv [OF assms(1)] assms(2) by (rule hot_invD)
  have vol: "volatile_keys (ht_records t) = {k. volatile_row t k \<noteq> None}"
    by (auto simp: volatile_keys_def volatile_row_def split: option.split)
  then have "{k \<in> volatile_keys (ht_records t). p \<in> set (volatile_key_prefixes k)}
      = {k. volatile_row t k \<noteq> None \<and> p \<in> set (volatile_key_prefixes k)}" by auto
  then show ?thesis
    using inv by (auto simp: table_inv_def within_window_def hot_table_ok_def counts_ok_def
        prefix_count_def vol bt_get_or_def)
qed

theorem hot_cache_invariant_witness:
  "bt_len (ht_records (demo_table demo_cache)) = 2
   \<and> (case ht_max_items (demo_table demo_cache) of None \<Rightarrow> True
      | Some n \<Rightarrow> bt_len (ht_records (demo_table demo_cache)) \<le> n)
   \<and> card {k. volatile_row (demo_table demo_cache) k \<noteq> None} = 1"
proof -
  note inv = hot_cache_invariant [OF demo_cache_reachable(2) demo_table_some]
  have "ht_volatile_records (demo_table demo_cache) = 1"
    "bt_len (ht_records (demo_table demo_cache)) = 2" by code_simp+
  with inv show ?thesis by metis
qed

text \<open>
  Eviction from a bounded table removes exactly the overflow and takes the least recently
  used rows: every row it removes was accessed before every row it keeps (ties are broken by
  the key).
\<close>

theorem lru_evicts_least_recent:
  assumes "bt_get (hs_tables s) table = Some t" and "ht_max_items t = Some n"
    and "bt_get (hs_tables (evict_lru table s)) table = Some t'"
  shows "bt_len (ht_records t') = min n (bt_len (ht_records t))
   \<and> (bt_get (ht_records t') k = Some r \<longrightarrow> bt_get (ht_records t) k = Some r)
   \<and> (bt_get (ht_records t) v \<noteq> None \<longrightarrow> bt_get (ht_records t') v = None \<longrightarrow>
      bt_get (ht_records t') k \<noteq> None \<longrightarrow> (access_of t v, v) < (access_of t k, k))"
proof -
  note spec = lru_victims_spec [OF assms(2)]
  have t': "t' = fold evict_lru_victim (lru_victims t) t"
    using assms(1,3) by (simp add: tables_evict_lru)
  have row: "bt_get (ht_records t') k = (if k \<in> set (lru_victims t) then None else bt_get (ht_records t) k)"
    for k by (simp add: t' fold_evict)
  have "{k. bt_get (ht_records t') k \<noteq> None} = set (bt_keys (ht_records t)) - set (lru_victims t)"
    by (auto simp: row set_bt_keys)
  then have "bt_len (ht_records t') = bt_len (ht_records t) - length (lru_victims t)"
    using spec(1,2) distinct_card [OF spec(1)] distinct_card [OF distinct_bt_keys [of "ht_records t"]]
    by (simp add: bt_len_card card_Diff_subset set_bt_keys)
  moreover have "(access_of t v, v) < (access_of t k, k)"
    if "bt_get (ht_records t) v \<noteq> None" "bt_get (ht_records t') v = None"
      "bt_get (ht_records t') k \<noteq> None"
    using that spec(4) [of v k] by (auto simp: row set_bt_keys split: if_splits)
  moreover have "bt_get (ht_records t') k = Some r \<Longrightarrow> bt_get (ht_records t) k = Some r"
    by (simp add: row split: if_splits)
  ultimately show ?thesis using spec(3) by auto
qed

definition demo_full :: "u64 hot_state" where
  "demo_full = snd (upsert_internal 6 (demo_row ''c'' 3 ''tables/rooms/c'') True False demo_cache)"

theorem lru_evicts_least_recent_witness:
  "bt_len (ht_records (demo_table (evict_lru ''rooms'' demo_full))) = 2
   \<and> access_of (demo_table demo_full) ''b'' < access_of (demo_table demo_full) ''c''"
proof -
  have some: "bt_get (hs_tables demo_full) ''rooms'' = Some (demo_table demo_full)"
    "bt_get (hs_tables (evict_lru ''rooms'' demo_full)) ''rooms''
       = Some (demo_table (evict_lru ''rooms'' demo_full))"
  proof -
    have "bt_get (hs_tables demo_full) ''rooms'' \<noteq> None"
      "bt_get (hs_tables (evict_lru ''rooms'' demo_full)) ''rooms'' \<noteq> None" by code_simp+
    then show "bt_get (hs_tables demo_full) ''rooms'' = Some (demo_table demo_full)"
      "bt_get (hs_tables (evict_lru ''rooms'' demo_full)) ''rooms''
         = Some (demo_table (evict_lru ''rooms'' demo_full))" by (simp_all add: demo_table_def)
  qed
  have two: "ht_max_items (demo_table demo_full) = Some 2"
    and len: "bt_len (ht_records (demo_table demo_full)) = 3"
    and b: "bt_get (ht_records (demo_table demo_full)) ''b'' \<noteq> None"
      "bt_get (ht_records (demo_table (evict_lru ''rooms'' demo_full))) ''b'' = None"
    and c: "bt_get (ht_records (demo_table (evict_lru ''rooms'' demo_full))) ''c'' \<noteq> None"
    by code_simp+
  note lru = lru_evicts_least_recent [OF some(1) two some(2)]
  have "(access_of (demo_table demo_full) ''b'', ''b'') < (access_of (demo_table demo_full) ''c'', ''c'')"
    using lru b c by blast
  moreover have "access_of (demo_table demo_full) ''b'' \<noteq> access_of (demo_table demo_full) ''c''"
    by code_simp
  ultimately show ?thesis using lru len by auto
qed

text \<open>
  The volatile generation is a sound cache token: over any sequence of operations of the
  cache (schema changes aside, which rebuild it), if the generation of a table or of a parent
  prefix reads the same before and after, no volatile row of that scope was added, replaced or
  removed, unless the 64-bit counter stands at its maximum.
\<close>

theorem volatile_generation_detects_change:
  assumes "hot_op\<^sup>*\<^sup>* s s'" and "key_in_scope scope key"
    and "volatile_generation_in_scope s table scope = volatile_generation_in_scope s' table scope"
    and "volatile_generation_in_scope s' table scope \<noteq> - 1"
  shows "cached_volatile s table key = cached_volatile s' table key"
proof (rule ccontr)
  assume ne: "cached_volatile s table key \<noteq> cached_volatile s' table key"
  have rel: "rel_option moved (bt_get (hs_tables s) table) (bt_get (hs_tables s') table)"
    using hot_ops_moved [OF assms(1)] by (simp add: moved_state_def)
  with ne obtain t t' where t: "bt_get (hs_tables s) table = Some t"
    "bt_get (hs_tables s') table = Some t'" "moved t t'"
    by (cases "bt_get (hs_tables s) table"; cases "bt_get (hs_tables s') table")
       (auto simp: cached_volatile_def)
  have gen: "volatile_generation_in_scope s table scope = scope_generation t scope"
    "volatile_generation_in_scope s' table scope = scope_generation t' scope"
    using t by (auto simp: volatile_generation_in_scope_def scope_generation_def split: option.split)
  have "in_scope scope key"
    using assms(2) by (auto simp: in_scope_def key_in_scope_def volatile_prefix_iff split: option.splits)
  then have "counted (scope_generation t scope) (scope_generation t' scope)"
    using t ne by (auto simp: moved_def cached_volatile_def)
  with assms(3,4) gen show False by (auto simp: counted_def)
qed

definition demo_after :: "u64 hot_state" where
  "demo_after = hot_delete ''rooms'' ''b'' (hot_upsert 6 (demo_row ''b'' 3 ''tables/rooms/b'') demo_cache)"

theorem volatile_generation_detects_change_witness:
  "cached_volatile demo_cache ''rooms'' ''r:1'' = cached_volatile demo_after ''rooms'' ''r:1''
   \<and> cached_volatile demo_cache ''rooms'' ''r:1'' \<noteq> None"
proof -
  have "hot_op\<^sup>*\<^sup>* demo_cache demo_after"
    unfolding demo_after_def
    by (rule converse_rtranclp_into_rtranclp, rule step_upsert,
        rule converse_rtranclp_into_rtranclp, rule step_delete, rule rtranclp.rtrancl_refl)
  moreover have "key_in_scope (Some ''r:'') ''r:1''"
    "volatile_generation_in_scope demo_cache ''rooms'' (Some ''r:'') =
       volatile_generation_in_scope demo_after ''rooms'' (Some ''r:'')"
    "volatile_generation_in_scope demo_after ''rooms'' (Some ''r:'') \<noteq> - 1"
    "cached_volatile demo_cache ''rooms'' ''r:1'' \<noteq> None" by code_simp+
  ultimately show ?thesis using volatile_generation_detects_change by blast
qed

lemma fold_idle_rows:
  "bt_get (ht_records (fold evict_idle_victim vs t)) k =
     (if k \<in> set vs then None else bt_get (ht_records t) k)"
  by (induction vs arbitrary: t) (auto simp: evict_idle_victim_def)

text \<open>
  The idle sweep removes from a table exactly the durable rows that were not accessed for
  longer than the configured time; volatile rows stay, however long they rest.
\<close>

theorem idle_sweep_rows:
  assumes "bt_get (hs_tables s) table = Some t" and "hs_durable_idle_ttl_ms s \<noteq> 0"
  shows "map_option (\<lambda>t'. bt_get (ht_records t') k)
      (bt_get (hs_tables (snd (evict_idle_durable_records now s))) table) =
    Some (case bt_get (ht_records t) k of
            None \<Rightarrow> None
          | Some r \<Rightarrow>
              let last_ms = bt_get_or (ht_last_accessed_ms t) k 0
              in if is_durable_record r \<and> 0 < last_ms
                    \<and> hs_durable_idle_ttl_ms s < sat_sub now last_ms
                 then None else Some r)"
proof -
  have "k \<in> set (idle_victims now ttl t) \<longleftrightarrow>
      (\<exists>r. bt_get (ht_records t) k = Some r \<and> is_durable_record r
        \<and> 0 < bt_get_or (ht_last_accessed_ms t) k 0
        \<and> ttl < sat_sub now (bt_get_or (ht_last_accessed_ms t) k 0))" for ttl
    by (auto simp: idle_victims_def Let_def in_entries image_iff)
  then show ?thesis
    using assms by (auto simp: evict_idle_durable_records_def Let_def evict_idle_table_def
        fold_idle_rows split: option.split)
qed

theorem idle_sweep_rows_witness:
  "map_option (\<lambda>t'. bt_get (ht_records t') ''b'')
      (bt_get (hs_tables (snd (evict_idle_durable_records 99 demo_cache))) ''rooms'') = Some None
   \<and> map_option (\<lambda>t'. bt_get (ht_records t') ''r:1'')
      (bt_get (hs_tables (snd (evict_idle_durable_records 99 demo_cache))) ''rooms'') \<noteq> Some None"
proof -
  have "hs_durable_idle_ttl_ms demo_cache \<noteq> 0"
    and b: "(case bt_get (ht_records (demo_table demo_cache)) ''b'' of
            None \<Rightarrow> None
          | Some r \<Rightarrow>
              let last_ms = bt_get_or (ht_last_accessed_ms (demo_table demo_cache)) ''b'' 0
              in if is_durable_record r \<and> 0 < last_ms
                    \<and> hs_durable_idle_ttl_ms demo_cache < sat_sub 99 last_ms
                 then None else Some r) = None"
    and r: "(case bt_get (ht_records (demo_table demo_cache)) ''r:1'' of
            None \<Rightarrow> None
          | Some r \<Rightarrow>
              let last_ms = bt_get_or (ht_last_accessed_ms (demo_table demo_cache)) ''r:1'' 0
              in if is_durable_record r \<and> 0 < last_ms
                    \<and> hs_durable_idle_ttl_ms demo_cache < sat_sub 99 last_ms
                 then None else Some r) \<noteq> None" by code_simp+
  note sweep = idle_sweep_rows [OF demo_table_some this(1), of _ 99]
  show ?thesis unfolding sweep using b r by simp
qed

text \<open>The row the next overflowing write evicts.\<close>

definition next_victims :: "u64 \<Rightarrow> 'n db_record \<Rightarrow> 'n hot_state \<Rightarrow> string list" where
  "next_victims now r s =
     (case bt_get (hs_tables (snd (upsert_internal now r True False s))) (rec_table r) of
        None \<Rightarrow> [] | Some t \<Rightarrow> lru_victims t)"

definition demo_warm :: "u64 hot_state" where
  "demo_warm = snd (cache_get 3 ''rooms'' ''a'' demo_start)"

definition demo_restarted :: "u64 hot_state" where
  "demo_restarted = from_schema_snapshot_and_records 4 demo_schema
     (Some (fst (hot_snapshot_of 3 demo_warm))) 2
     [demo_row ''a'' 1 ''tables/rooms/a'', demo_row ''b'' 2 ''tables/rooms/b''] 10"

text \<open>
  C21. A restart from a snapshot keeps the rows of an LRU table but not their access order: a
  cache whose row \<open>a\<close> was read last would evict \<open>b\<close> next, and the cache restored from its
  snapshot evicts \<open>a\<close>, because replaying the records touches every restored row again in the
  order of the LSNs.
\<close>

theorem restart_forgets_access_order:
  "bt_keys (ht_records (demo_table demo_restarted)) = bt_keys (ht_records (demo_table demo_warm))
   \<and> next_victims 5 (demo_row ''c'' 3 ''tables/rooms/c'') demo_warm = [''b'']
   \<and> next_victims 5 (demo_row ''c'' 3 ''tables/rooms/c'') demo_restarted = [''a'']"
  by (intro conjI) code_simp+

end
