(* ===== verification/Record_Projection.thy ===== *)
theory Record_Projection
  imports Util Model "HOL-Library.Multiset"
begin

text \<open>
  The record projection on disk (\<open>record_projection.rs\<close> and the key-order reads of
  \<open>record_store.rs\<close>). The embedded key-value store (fjall) is a family of ordered maps from
  byte strings, the keyspaces; \<open>prefix\<close> iterates the keys with a given prefix in ascending
  order and a batch is applied as a whole. A keyspace maps to the record its value bytes
  decode to; the byte format has its own round trip in the first section.
\<close>

section \<open>The stored bytes of a record\<close>

record projected_envelope =
  pe_table :: string
  pe_key :: string
  pe_value :: binary_json
  pe_updated_at_ms :: u64
  pe_lsn :: u64
  pe_path :: string

text \<open>postcard and serde_json on the structures of this file.\<close>

record 'n envelope_ops = "'n number_ops" +
  envelope_to_postcard :: "projected_envelope \<Rightarrow> bytes option"
  envelope_from_postcard :: "bytes \<Rightarrow> projected_envelope option"
  record_from_json_slice :: "bytes \<Rightarrow> 'n db_record option"

definition envelope_laws :: "('n, 'z) envelope_ops_scheme \<Rightarrow> bool" where
  "envelope_laws ops \<longleftrightarrow>
     (\<forall>e. case envelope_to_postcard ops e of
            None \<Rightarrow> True | Some bytes \<Rightarrow> envelope_from_postcard ops bytes = Some e)"

definition projected_record_magic :: bytes where
  "projected_record_magic = [0x4E, 0x44, 0x42, 0x52, 0x45, 0x43, 0x30, 0x31]" \<comment> \<open>NDBREC01\<close>

definition encode_projected_record ::
  "('n, 'z) envelope_ops_scheme \<Rightarrow> 'n db_record \<Rightarrow> codec_error + bytes" where
  "encode_projected_record ops r =
     res_bind (binary_from_json ops (rec_value r)) (\<lambda>value.
       case envelope_to_postcard ops
              \<lparr>pe_table = rec_table r, pe_key = rec_key r, pe_value = value,
               pe_updated_at_ms = rec_updated_at_ms r, pe_lsn = rec_lsn r, pe_path = rec_path r\<rparr> of
         None \<Rightarrow> Inl PostcardEncode
       | Some payload \<Rightarrow> Inr (projected_record_magic @ payload))"

definition decode_projected_record ::
  "('n, 'z) envelope_ops_scheme \<Rightarrow> bytes \<Rightarrow> codec_error + 'n db_record" where
  "decode_projected_record ops bytes =
     (if \<not> starts_with bytes projected_record_magic
      then (case record_from_json_slice ops bytes of None \<Rightarrow> Inl JsonDecode | Some r \<Rightarrow> Inr r)
      else case envelope_from_postcard ops (drop (length projected_record_magic) bytes) of
             None \<Rightarrow> Inl PostcardDecode
           | Some e \<Rightarrow>
               res_bind (binary_into_json ops (pe_value e)) (\<lambda>value.
                 Inr \<lparr>rec_table = pe_table e, rec_key = pe_key e, rec_value = value,
                      rec_updated_at_ms = pe_updated_at_ms e, rec_lsn = pe_lsn e,
                      rec_path = pe_path e\<rparr>))"

interpretation projected_codec: codec "encode_projected_record ops" "decode_projected_record ops"
    "\<lambda>r. number_laws ops \<and> envelope_laws ops \<and> json_wf (rec_value r)
       \<and> (\<exists>bytes. encode_projected_record ops r = Inr bytes)" for ops
proof
  fix r :: "'a db_record"
  assume ok: "number_laws ops \<and> envelope_laws ops \<and> json_wf (rec_value r)
    \<and> (\<exists>bytes. encode_projected_record ops r = Inr bytes)"
  then obtain v where v: "binary_from_json ops (rec_value r) = Inr v"
    "binary_into_json ops v = Inr (rec_value r)"
    using json_codec.encE by blast
  define e where "e = \<lparr>pe_table = rec_table r, pe_key = rec_key r, pe_value = v,
    pe_updated_at_ms = rec_updated_at_ms r, pe_lsn = rec_lsn r, pe_path = rec_path r\<rparr>"
  have "envelope_to_postcard ops e \<noteq> None"
    using ok v by (auto simp: encode_projected_record_def e_def split: option.splits)
  then obtain payload where payload: "envelope_to_postcard ops e = Some payload" by blast
  have "case envelope_to_postcard ops e of
      None \<Rightarrow> True | Some bytes \<Rightarrow> envelope_from_postcard ops bytes = Some e"
    using ok unfolding envelope_laws_def by blast
  with payload have "envelope_from_postcard ops payload = Some e" by simp
  with v payload show "res_bind (encode_projected_record ops r) (decode_projected_record ops) = Inr r"
    by (cases r) (simp add: encode_projected_record_def decode_projected_record_def e_def)
qed

section \<open>Keys\<close>

definition nul :: char where
  "nul = CHR 0x00"

definition record_key :: "string \<Rightarrow> string \<Rightarrow> string" where
  "record_key table key = table @ nul # key"

definition record_prefix :: "string \<Rightarrow> string \<Rightarrow> string" where
  "record_prefix table key_prefix = table @ nul # key_prefix"

text \<open>\<open>{:020}\<close> of a \<open>u64\<close>: decimal digits with leading zeros.\<close>

fun fixed_decimal :: "nat \<Rightarrow> nat \<Rightarrow> string" where
  "fixed_decimal 0 n = []"
| "fixed_decimal (Suc w) n = fixed_decimal w (n div 10) @ [char_of (48 + n mod 10)]"

definition padded20 :: "u64 \<Rightarrow> string" where
  "padded20 n = fixed_decimal 20 (unat n)"

text \<open>The digits computed on the word, for evaluation.\<close>

fun word_decimal :: "nat \<Rightarrow> u64 \<Rightarrow> string" where
  "word_decimal 0 n = []"
| "word_decimal (Suc w) n = word_decimal w (n div 10) @ [char_of (48 + unat (n mod 10))]"

lemma word_decimal: "fixed_decimal w (unat n) = word_decimal w n"
proof (induction w arbitrary: n)
  case (Suc w)
  have "unat (n div 10) = unat n div 10" "unat (n mod 10) = unat n mod 10"
    by (simp_all add: unat_div unat_mod)
  with Suc [of "n div 10"] show ?case by simp
qed simp

lemma padded20_code [code]: "padded20 n = word_decimal 20 n"
  by (simp add: padded20_def word_decimal)

definition recent_key :: "'n db_record \<Rightarrow> string" where
  "recent_key r =
     rec_table r @ nul # padded20 (sat_sub (- 1) (rec_lsn r)) @ nul #
     padded20 (sat_sub (- 1) (rec_updated_at_ms r)) @ nul # rec_key r"

definition recent_prefix :: "string \<Rightarrow> string" where
  "recent_prefix table = table @ [nul]"

definition recent_ref_key :: "string \<Rightarrow> string \<Rightarrow> string" where
  "recent_ref_key table key = table @ nul # key"

definition order_prefix :: "string \<Rightarrow> string \<Rightarrow> string \<Rightarrow> string" where
  "order_prefix table parent_key order_id =
     table @ nul # parent_key @ nul # order_id @ [nul]"

definition order_key :: "string \<Rightarrow> string \<Rightarrow> string \<Rightarrow> string \<Rightarrow> string \<Rightarrow> string" where
  "order_key table parent_key order_id cursor key =
     order_prefix table parent_key order_id @ cursor @ nul # key"

definition parse_order_key ::
  "string \<Rightarrow> string \<Rightarrow> string \<Rightarrow> string \<Rightarrow> (string \<times> string) option" where
  "parse_order_key table parent_key order_id key =
     (case strip_prefix key (order_prefix table parent_key order_id) of
        None \<Rightarrow> None | Some rest \<Rightarrow> split_once nul rest)"

definition order_ref_prefix :: "string \<Rightarrow> string \<Rightarrow> string" where
  "order_ref_prefix table key = table @ nul # key @ [nul]"

definition order_ref_key :: "string \<Rightarrow> string \<Rightarrow> string \<Rightarrow> string" where
  "order_ref_key table key order_id = order_ref_prefix table key @ order_id"

definition partition_key :: "string \<Rightarrow> string \<Rightarrow> string \<Rightarrow> string" where
  "partition_key table parent_key nested_key = table @ nul # parent_key @ nul # nested_key"

definition partition_prefix :: "string \<Rightarrow> string \<Rightarrow> string" where
  "partition_prefix table parent_key = table @ nul # parent_key @ [nul]"

definition parse_partition_key :: "string \<Rightarrow> string \<Rightarrow> string \<Rightarrow> string option" where
  "parse_partition_key table parent_key key = strip_prefix key (partition_prefix table parent_key)"

definition partition_after_nested_key :: "string \<Rightarrow> string option \<Rightarrow> string option" where
  "partition_after_nested_key parent_key after_key =
     (case after_key of
        None \<Rightarrow> None
      | Some a \<Rightarrow>
          (case strip_prefix a (parent_key @ '':'') of Some rest \<Rightarrow> Some rest | None \<Rightarrow> Some a))"

definition split_nested_key :: "string \<Rightarrow> (string \<times> string) option" where
  "split_nested_key key =
     (case split_once (CHR '':'') key of
        None \<Rightarrow> None
      | Some (parent_key, nested_key) \<Rightarrow>
          if parent_key = [] \<or> nested_key = [] then None else Some (parent_key, nested_key))"

section \<open>The keyspaces\<close>

record 'n projection =
  pj_records :: "(string, 'n db_record) btree"
  pj_partitions :: "(string, 'n db_record) btree"
  pj_recent :: "(string, 'n db_record) btree"
  pj_recent_refs :: "(string, string) btree"
  pj_orders :: "(string, 'n db_record) btree"
  pj_order_refs :: "(string, string) btree"
  pj_indexes :: "(string, 'n db_record) btree"
  pj_index_refs :: "string bset"

definition empty_projection :: "'n projection" where
  "empty_projection =
     \<lparr>pj_records = bt_empty, pj_partitions = bt_empty, pj_recent = bt_empty,
      pj_recent_refs = bt_empty, pj_orders = bt_empty, pj_order_refs = bt_empty,
      pj_indexes = bt_empty, pj_index_refs = bt_empty\<rparr>"

text \<open>\<open>keyspace.prefix(p)\<close>\<close>

definition prefix_entries :: "(string, 'v) btree \<Rightarrow> string \<Rightarrow> (string \<times> 'v) list" where
  "prefix_entries m p = filter (\<lambda>(k, _). starts_with k p) (bt_entries m)"

definition put_record :: "'n db_record \<Rightarrow> 'n projection \<Rightarrow> 'n projection" where
  "put_record r p =
     (let ref_key = recent_ref_key (rec_table r) (rec_key r);
          previous_recent_key = bt_get (pj_recent_refs p) ref_key;
          p1 = p\<lparr>pj_records := bt_insert (record_key (rec_table r) (rec_key r)) r (pj_records p)\<rparr>;
          p2 = (case previous_recent_key of
                  None \<Rightarrow> p1
                | Some k \<Rightarrow> p1\<lparr>pj_recent := bt_remove k (pj_recent p1)\<rparr>);
          p3 = p2\<lparr>pj_recent := bt_insert (recent_key r) r (pj_recent p2),
                  pj_recent_refs := bt_insert ref_key (recent_key r) (pj_recent_refs p2)\<rparr>
      in case split_nested_key (rec_key r) of
           None \<Rightarrow> p3
         | Some (parent_key, nested_key) \<Rightarrow>
             p3\<lparr>pj_partitions :=
                   bt_insert (partition_key (rec_table r) parent_key nested_key) r
                     (pj_partitions p3)\<rparr>)"

definition order_removals :: "'n projection \<Rightarrow> string \<Rightarrow> string \<Rightarrow> (string \<times> string) list" where
  "order_removals p table key = prefix_entries (pj_order_refs p) (order_ref_prefix table key)"

definition remove_orders :: "(string \<times> string) list \<Rightarrow> 'n projection \<Rightarrow> 'n projection" where
  "remove_orders removals p =
     fold (\<lambda>(reference_key, order_key) p.
       p\<lparr>pj_order_refs := bt_remove reference_key (pj_order_refs p),
         pj_orders := bt_remove order_key (pj_orders p)\<rparr>) removals p"

definition remove_record :: "string \<Rightarrow> string \<Rightarrow> 'n projection \<Rightarrow> 'n projection" where
  "remove_record table key p =
     (let ref_key = recent_ref_key table key;
          previous_recent_key = bt_get (pj_recent_refs p) ref_key;
          removals = order_removals p table key;
          p1 = p\<lparr>pj_records := bt_remove (record_key table key) (pj_records p)\<rparr>;
          p2 = (case previous_recent_key of
                  None \<Rightarrow> p1
                | Some k \<Rightarrow> p1\<lparr>pj_recent := bt_remove k (pj_recent p1),
                                pj_recent_refs := bt_remove ref_key (pj_recent_refs p1)\<rparr>);
          p3 = (case split_nested_key key of
                  None \<Rightarrow> p2
                | Some (parent_key, nested_key) \<Rightarrow>
                    p2\<lparr>pj_partitions :=
                          bt_remove (partition_key table parent_key nested_key) (pj_partitions p2)\<rparr>)
      in remove_orders removals p3)"

definition projection_get :: "'n projection \<Rightarrow> string \<Rightarrow> string \<Rightarrow> 'n db_record option" where
  "projection_get p table key = bt_get (pj_records p) (record_key table key)"

text \<open>The loops skip rows up to a bound and stop when the page is full.\<close>

fun page_loop :: "('r \<Rightarrow> bool) \<Rightarrow> nat \<Rightarrow> 'r list \<Rightarrow> 'r list \<Rightarrow> 'r list" where
  "page_loop skip limit page [] = page"
| "page_loop skip limit page (r # rs) =
     (if skip r then page_loop skip limit page rs
      else if limit \<le> length (page @ [r]) then page @ [r]
      else page_loop skip limit (page @ [r]) rs)"

definition at_or_before :: "string option \<Rightarrow> string \<Rightarrow> bool" where
  "at_or_before bound key \<longleftrightarrow> (case bound of None \<Rightarrow> False | Some after \<Rightarrow> key \<le> after)"

definition projection_list_by_key_prefix ::
  "'n projection \<Rightarrow> string \<Rightarrow> string \<Rightarrow> string option \<Rightarrow> nat option \<Rightarrow> 'n db_record list" where
  "projection_list_by_key_prefix p table key_prefix after_key limit =
     page_loop (\<lambda>r. at_or_before after_key (rec_key r)) (normalize_limit limit) []
       (map snd (prefix_entries (pj_records p) (record_prefix table key_prefix)))"

definition projection_list ::
  "'n projection \<Rightarrow> string \<Rightarrow> string option \<Rightarrow> nat option \<Rightarrow> 'n db_record list" where
  "projection_list p table after_key limit =
     projection_list_by_key_prefix p table [] after_key limit"

definition partition_rows :: "'n projection \<Rightarrow> string \<Rightarrow> string \<Rightarrow> (string \<times> 'n db_record) list" where
  "partition_rows p table parent_key =
     List.map_filter (\<lambda>(key, r).
       map_option (\<lambda>nested_key. (nested_key, r)) (parse_partition_key table parent_key key))
       (prefix_entries (pj_partitions p) (partition_prefix table parent_key))"

definition projection_list_partition ::
  "'n projection \<Rightarrow> string \<Rightarrow> string \<Rightarrow> string option \<Rightarrow> nat option \<Rightarrow> 'n db_record list" where
  "projection_list_partition p table parent_key after_key limit =
     map snd (page_loop
       (\<lambda>(nested_key, _). at_or_before (partition_after_nested_key parent_key after_key) nested_key)
       (normalize_limit limit) [] (partition_rows p table parent_key))"

definition projection_list_recent :: "'n projection \<Rightarrow> string \<Rightarrow> nat option \<Rightarrow> 'n db_record list" where
  "projection_list_recent p table limit =
     page_loop (\<lambda>_. False) (normalize_limit limit) []
       (map snd (prefix_entries (pj_recent p) (recent_prefix table)))"

section \<open>Orders\<close>

definition put_order_entry :: "'n db_record \<Rightarrow> string \<Rightarrow> string \<Rightarrow> 'n projection \<Rightarrow> 'n projection" where
  "put_order_entry r order_id cursor p =
     (case split_nested_key (rec_key r) of
        None \<Rightarrow> p
      | Some (parent_key, _) \<Rightarrow>
          let ref_key = order_ref_key (rec_table r) (rec_key r) order_id;
              order = order_key (rec_table r) parent_key order_id cursor (rec_key r);
              p1 = (case bt_get (pj_order_refs p) ref_key of
                      None \<Rightarrow> p
                    | Some previous \<Rightarrow> p\<lparr>pj_orders := bt_remove previous (pj_orders p)\<rparr>)
          in p1\<lparr>pj_orders := bt_insert order r (pj_orders p1),
                pj_order_refs := bt_insert ref_key order (pj_order_refs p1)\<rparr>)"

definition remove_order_entries :: "string \<Rightarrow> string \<Rightarrow> 'n projection \<Rightarrow> 'n projection" where
  "remove_order_entries table key p =
     (let removals = order_removals p table key
      in if removals = [] then p else remove_orders removals p)"

text \<open>Rows after a cursor, or after the row of a key when no cursor is given.\<close>

fun order_loop ::
  "string \<Rightarrow> string \<Rightarrow> string \<Rightarrow> string option \<Rightarrow> string option \<Rightarrow> nat \<Rightarrow> bool \<Rightarrow>
     ('n db_record \<times> string) list \<Rightarrow> (string \<times> 'n db_record) list \<Rightarrow> ('n db_record \<times> string) list"
where
  "order_loop table parent_key order_id after_key after_cursor limit after_seen page [] = page"
| "order_loop table parent_key order_id after_key after_cursor limit after_seen page ((key, r) # es) =
     (case parse_order_key table parent_key order_id key of
        None \<Rightarrow>
          order_loop table parent_key order_id after_key after_cursor limit after_seen page es
      | Some (cursor, rkey) \<Rightarrow>
          if at_or_before after_cursor cursor then
            order_loop table parent_key order_id after_key after_cursor limit after_seen page es
          else if \<not> after_seen then
            order_loop table parent_key order_id after_key after_cursor limit
              (Some rkey = after_key) page es
          else if limit \<le> length (page @ [(r, cursor)]) then page @ [(r, cursor)]
          else order_loop table parent_key order_id after_key after_cursor limit after_seen
                 (page @ [(r, cursor)]) es)"

definition projection_list_ordered_partition ::
  "'n projection \<Rightarrow> string \<Rightarrow> string \<Rightarrow> string \<Rightarrow> string option \<Rightarrow> string option \<Rightarrow> nat option \<Rightarrow>
     ('n db_record \<times> string) list" where
  "projection_list_ordered_partition p table parent_key order_id after_key after_cursor limit =
     order_loop table parent_key order_id after_key after_cursor (normalize_limit limit)
       (after_key = None \<or> after_cursor \<noteq> None) []
       (prefix_entries (pj_orders p) (order_prefix table parent_key order_id))"

section \<open>The reads of the record store\<close>

definition partition_parent_from_prefix :: "string \<Rightarrow> string option" where
  "partition_parent_from_prefix key_prefix =
     (case strip_suffix key_prefix '':'' of
        None \<Rightarrow> None | Some parent_key \<Rightarrow> if parent_key = [] then None else Some parent_key)"

definition store_list_by_key_prefix ::
  "'n projection \<Rightarrow> string \<Rightarrow> string \<Rightarrow> string option \<Rightarrow> nat option \<Rightarrow> 'n db_record list" where
  "store_list_by_key_prefix p table key_prefix after_key limit =
     (case partition_parent_from_prefix key_prefix of
        Some parent_key \<Rightarrow> projection_list_partition p table parent_key after_key limit
      | None \<Rightarrow> projection_list_by_key_prefix p table key_prefix after_key limit)"

section \<open>Pages\<close>

lemma page_loop_take:
  "length page < limit \<Longrightarrow>
     page_loop skip limit page rs = page @ take (limit - length page) (filter (\<lambda>r. \<not> skip r) rs)"
proof (induction skip limit page rs rule: page_loop.induct)
  case (2 skip limit page r rs)
  show ?case
  proof (cases "skip r")
    case False
    have "limit - length page = Suc (limit - length (page @ [r]))" using "2.prems" by simp
    then show ?thesis using 2 False by auto
  qed (use 2 in simp)
qed simp

lemma normalize_limit_pos: "0 < normalize_limit limit"
  by (simp add: normalize_limit_def)

lemma page_is_take:
  "page_loop skip (normalize_limit limit) [] rs =
     take (normalize_limit limit) (filter (\<lambda>r. \<not> skip r) rs)"
  by (simp add: page_loop_take normalize_limit_pos)

section \<open>The keyspaces agree\<close>

definition plain :: "string \<Rightarrow> bool" where
  "plain s \<longleftrightarrow> nul \<notin> set s"

lemma record_key_inject:
  "plain t \<Longrightarrow> plain t' \<Longrightarrow> record_key t k = record_key t' k' \<longleftrightarrow> t = t' \<and> k = k'"
proof (induction t arbitrary: t')
  case Nil
  then show ?case by (cases t') (auto simp: record_key_def plain_def)
next
  case (Cons a t)
  then show ?case by (cases t') (auto simp: record_key_def plain_def)
qed

lemma partition_key_inject:
  assumes "plain t" "plain t'" "plain pk" "plain pk'"
  shows "partition_key t pk nk = partition_key t' pk' nk' \<longleftrightarrow> t = t' \<and> pk = pk' \<and> nk = nk'"
proof -
  have "partition_key t pk nk = record_key t (record_key pk nk)" for t pk nk
    by (simp add: partition_key_def record_key_def)
  then show ?thesis using assms record_key_inject by metis
qed

definition projection_ok :: "'n projection \<Rightarrow> bool" where
  "projection_ok p \<longleftrightarrow>
     (\<forall>k r. bt_get (pj_records p) k = Some r \<longrightarrow>
        k = record_key (rec_table r) (rec_key r) \<and> plain (rec_table r) \<and> plain (rec_key r))
   \<and> (\<forall>k r. bt_get (pj_partitions p) k = Some r \<longleftrightarrow>
        (\<exists>pk nk. split_nested_key (rec_key r) = Some (pk, nk)
          \<and> k = partition_key (rec_table r) pk nk
          \<and> bt_get (pj_records p) (record_key (rec_table r) (rec_key r)) = Some r))
   \<and> (\<forall>k r. bt_get (pj_recent p) k = Some r \<longleftrightarrow>
        k = recent_key r \<and> bt_get (pj_records p) (record_key (rec_table r) (rec_key r)) = Some r)
   \<and> (\<forall>k rk. bt_get (pj_recent_refs p) k = Some rk \<longleftrightarrow>
        (\<exists>r. bt_get (pj_records p) k = Some r \<and> rk = recent_key r))"

lemma split_nested_key_Some:
  "split_nested_key key = Some (pk, nk) \<longleftrightarrow>
     key = pk @ CHR '':'' # nk \<and> CHR '':'' \<notin> set pk \<and> pk \<noteq> [] \<and> nk \<noteq> []"
proof
  assume "split_nested_key key = Some (pk, nk)"
  then have "split_once (CHR '':'') key = Some (pk, nk)" "pk \<noteq> []" "nk \<noteq> []"
    by (auto simp: split_nested_key_def split: option.splits if_splits)
  then show "key = pk @ CHR '':'' # nk \<and> CHR '':'' \<notin> set pk \<and> pk \<noteq> [] \<and> nk \<noteq> []"
    by (simp add: split_once_Some)
next
  assume key: "key = pk @ CHR '':'' # nk \<and> CHR '':'' \<notin> set pk \<and> pk \<noteq> [] \<and> nk \<noteq> []"
  then have "split_once (CHR '':'') key = Some (pk, nk)" by (simp add: split_once_Some)
  with key show "split_nested_key key = Some (pk, nk)" by (simp add: split_nested_key_def)
qed

lemma recent_key_suffix:
  fixes r r' :: "'n db_record"
  assumes "plain (rec_table r)" "plain (rec_key r)" "plain (rec_table r')" "plain (rec_key r')"
    and "recent_key r = recent_key r'"
  shows "rec_table r = rec_table r' \<and> rec_key r = rec_key r'"
proof -
  have form: "recent_key x = record_key (rec_table x) (record_key (padded20 (sat_sub (- 1) (rec_lsn x)))
      (record_key (padded20 (sat_sub (- 1) (rec_updated_at_ms x))) (rec_key x)))" for x :: "'n db_record"
    by (simp add: recent_key_def record_key_def)
  have digits: "plain (fixed_decimal w n)" for w n
  proof (induction w arbitrary: n)
    case (Suc w)
    have "n mod 10 < 10" by simp
    then have "(48 + n mod 10) mod 256 \<noteq> 0" by (subst mod_less) linarith+
    then have "of_char (char_of (48 + n mod 10 :: nat)) \<noteq> (of_char nul :: nat)"
      by (simp add: nul_def)
    then have "char_of (48 + n mod 10 :: nat) \<noteq> nul" by metis
    with Suc show ?case by (simp add: plain_def)
  qed (simp add: plain_def)
  then have pad: "plain (padded20 n)" for n by (simp add: padded20_def)
  from assms(5) [unfolded form record_key_inject [OF assms(1,3)]]
  have "rec_table r = rec_table r'" and
    "record_key (padded20 (sat_sub (- 1) (rec_lsn r)))
       (record_key (padded20 (sat_sub (- 1) (rec_updated_at_ms r))) (rec_key r)) =
     record_key (padded20 (sat_sub (- 1) (rec_lsn r')))
       (record_key (padded20 (sat_sub (- 1) (rec_updated_at_ms r'))) (rec_key r'))" by blast+
  then show ?thesis unfolding record_key_inject [OF pad pad] by blast
qed

lemma put_record_fields:
  "pj_records (put_record r p) = bt_insert (record_key (rec_table r) (rec_key r)) r (pj_records p)"
  "pj_recent_refs (put_record r p) =
     bt_insert (recent_ref_key (rec_table r) (rec_key r)) (recent_key r) (pj_recent_refs p)"
  "pj_recent (put_record r p) =
     bt_insert (recent_key r) r
       (case bt_get (pj_recent_refs p) (recent_ref_key (rec_table r) (rec_key r)) of
          None \<Rightarrow> pj_recent p | Some k \<Rightarrow> bt_remove k (pj_recent p))"
  "pj_partitions (put_record r p) =
     (case split_nested_key (rec_key r) of
        None \<Rightarrow> pj_partitions p
      | Some (pk, nk) \<Rightarrow> bt_insert (partition_key (rec_table r) pk nk) r (pj_partitions p))"
  "pj_orders (put_record r p) = pj_orders p"
  "pj_order_refs (put_record r p) = pj_order_refs p"
  "pj_indexes (put_record r p) = pj_indexes p"
  "pj_index_refs (put_record r p) = pj_index_refs p"
  by (simp_all add: put_record_def Let_def split: option.split)

lemma remove_orders_fields [simp]:
  "pj_records (remove_orders es p) = pj_records p"
  "pj_recent_refs (remove_orders es p) = pj_recent_refs p"
  "pj_recent (remove_orders es p) = pj_recent p"
  "pj_partitions (remove_orders es p) = pj_partitions p"
  "pj_indexes (remove_orders es p) = pj_indexes p"
  "pj_index_refs (remove_orders es p) = pj_index_refs p"
proof -
  have "pj_records (remove_orders es p) = pj_records p
    \<and> pj_recent_refs (remove_orders es p) = pj_recent_refs p
    \<and> pj_recent (remove_orders es p) = pj_recent p
    \<and> pj_partitions (remove_orders es p) = pj_partitions p
    \<and> pj_indexes (remove_orders es p) = pj_indexes p
    \<and> pj_index_refs (remove_orders es p) = pj_index_refs p"
    unfolding remove_orders_def by (induction es arbitrary: p) (auto simp: case_prod_beta)
  then show "pj_records (remove_orders es p) = pj_records p"
    "pj_recent_refs (remove_orders es p) = pj_recent_refs p"
    "pj_recent (remove_orders es p) = pj_recent p"
    "pj_partitions (remove_orders es p) = pj_partitions p"
    "pj_indexes (remove_orders es p) = pj_indexes p"
    "pj_index_refs (remove_orders es p) = pj_index_refs p" by auto
qed

lemma remove_record_fields:
  "pj_records (remove_record table key p) = bt_remove (record_key table key) (pj_records p)"
  "pj_recent_refs (remove_record table key p) = bt_remove (recent_ref_key table key) (pj_recent_refs p)"
  "pj_recent (remove_record table key p) =
     (case bt_get (pj_recent_refs p) (recent_ref_key table key) of
        None \<Rightarrow> pj_recent p | Some k \<Rightarrow> bt_remove k (pj_recent p))"
  "pj_partitions (remove_record table key p) =
     (case split_nested_key key of
        None \<Rightarrow> pj_partitions p
      | Some (pk, nk) \<Rightarrow> bt_remove (partition_key table pk nk) (pj_partitions p))"
  "pj_indexes (remove_record table key p) = pj_indexes p"
  "pj_index_refs (remove_record table key p) = pj_index_refs p"
proof -
  have "bt_remove k m = m" if "bt_get m k = None" for k and m :: "(string, string) btree"
    using that by (intro bt_eqI) auto
  then show "pj_recent_refs (remove_record table key p) =
      bt_remove (recent_ref_key table key) (pj_recent_refs p)"
    by (auto simp: remove_record_def Let_def split: option.split)
qed (simp_all add: remove_record_def Let_def split: option.split)

lemma ok_records: "projection_ok p \<Longrightarrow> bt_get (pj_records p) k = Some r \<Longrightarrow>
    k = record_key (rec_table r) (rec_key r) \<and> plain (rec_table r) \<and> plain (rec_key r)"
  by (simp add: projection_ok_def)

lemma ok_partitions: "projection_ok p \<Longrightarrow>
    bt_get (pj_partitions p) k = Some r \<longleftrightarrow>
      (\<exists>pk nk. split_nested_key (rec_key r) = Some (pk, nk)
        \<and> k = partition_key (rec_table r) pk nk
        \<and> bt_get (pj_records p) (record_key (rec_table r) (rec_key r)) = Some r)"
  unfolding projection_ok_def by (elim conjE) (erule allE)+

lemma ok_recent: "projection_ok p \<Longrightarrow>
    bt_get (pj_recent p) k = Some r \<longleftrightarrow>
      k = recent_key r \<and> bt_get (pj_records p) (record_key (rec_table r) (rec_key r)) = Some r"
  unfolding projection_ok_def by (elim conjE) (erule allE)+

lemma ok_refs: "projection_ok p \<Longrightarrow>
    bt_get (pj_recent_refs p) k = Some rk \<longleftrightarrow>
      (\<exists>r. bt_get (pj_records p) k = Some r \<and> rk = recent_key r)"
  unfolding projection_ok_def by (elim conjE) (erule allE)+

lemma split_plain:
  "split_nested_key key = Some (pk, nk) \<Longrightarrow> plain key \<Longrightarrow> plain pk"
  by (auto simp: split_nested_key_Some plain_def)

lemma split_inject:
  "split_nested_key key = Some (pk, nk) \<Longrightarrow> split_nested_key key' = Some (pk, nk) \<Longrightarrow> key = key'"
  by (simp add: split_nested_key_Some)

text \<open>A row replaced or removed at one key: what every keyspace holds afterwards.\<close>

lemma projection_change:
  assumes ok: "projection_ok p" and plain: "plain table" "plain key"
    and new: "\<And>r. v = Some r \<Longrightarrow> rec_table r = table \<and> rec_key r = key"
    and records: "\<And>k. bt_get (pj_records q) k =
        (if k = record_key table key then v else bt_get (pj_records p) k)"
    and refs: "\<And>k. bt_get (pj_recent_refs q) k =
        (if k = record_key table key then map_option recent_key v else bt_get (pj_recent_refs p) k)"
    and recent: "\<And>k. bt_get (pj_recent q) k =
        (if v \<noteq> None \<and> k = recent_key (the v) then v
         else if bt_get (pj_recent_refs p) (record_key table key) = Some k then None
         else bt_get (pj_recent p) k)"
    and partitions: "\<And>k. bt_get (pj_partitions q) k =
        (case split_nested_key key of
           Some (pk, nk) \<Rightarrow> if k = partition_key table pk nk then v else bt_get (pj_partitions p) k
         | None \<Rightarrow> bt_get (pj_partitions p) k)"
  shows "projection_ok q"
proof -
  define at where "at r \<longleftrightarrow> rec_table r = table \<and> rec_key r = key" for r :: "'a db_record"
  define old where "old r \<longleftrightarrow> bt_get (pj_records p) (record_key (rec_table r) (rec_key r)) = Some r" for r
  have old_plain: "plain (rec_table r) \<and> plain (rec_key r)" if "old r" for r
    using ok_records [OF ok] that unfolding old_def by blast
  have same_key: "record_key (rec_table r) (rec_key r) = record_key table key \<longleftrightarrow> at r" if "old r" for r
    using record_key_inject [OF _ plain(1)] old_plain [OF that] by (simp add: at_def)
  have v_at: "at r" if "v = Some r" for r using new [OF that] by (simp add: at_def)
  have rows: "bt_get (pj_records q) (record_key (rec_table r) (rec_key r)) = Some r \<longleftrightarrow>
      (if at r then v = Some r else old r)" for r
  proof (cases "record_key (rec_table r) (rec_key r) = record_key table key")
    case True
    then have "\<not> old r" if "\<not> at r" using same_key that by blast
    then show ?thesis using True v_at by (auto simp: records)
  next
    case False
    then have "\<not> at r" by (auto simp: at_def)
    then show ?thesis using False by (simp add: records old_def)
  qed
  have part_old: "bt_get (pj_partitions p) k = Some r \<longleftrightarrow>
      (\<exists>pk nk. split_nested_key (rec_key r) = Some (pk, nk) \<and> k = partition_key (rec_table r) pk nk \<and> old r)"
    for k r unfolding old_def by (rule ok_partitions [OF ok])
  have rec_old: "bt_get (pj_recent p) k = Some r \<longleftrightarrow> k = recent_key r \<and> old r" for k r
    unfolding old_def by (rule ok_recent [OF ok])
  have ref_old: "bt_get (pj_recent_refs p) (record_key table key) = Some k \<longleftrightarrow>
      (\<exists>r. old r \<and> at r \<and> k = recent_key r)" for k
  proof -
    have "bt_get (pj_recent_refs p) (record_key table key) = Some k \<longleftrightarrow>
        (\<exists>r. bt_get (pj_records p) (record_key table key) = Some r \<and> k = recent_key r)"
      by (rule ok_refs [OF ok])
    moreover have "bt_get (pj_records p) (record_key table key) = Some r \<longleftrightarrow> old r \<and> at r" for r
    proof
      assume row: "bt_get (pj_records p) (record_key table key) = Some r"
      then have k: "record_key table key = record_key (rec_table r) (rec_key r)"
        using ok_records [OF ok] by blast
      with row have "old r" by (simp add: old_def)
      with same_key [OF this] k show "old r \<and> at r" by simp
    qed (auto simp: old_def at_def)
    ultimately show ?thesis by blast
  qed
  have recent_at: "at r" if "old r" "at r'" "recent_key r = recent_key r'" for r r'
  proof -
    have "plain (rec_table r')" "plain (rec_key r')" using that(2) plain by (simp_all add: at_def)
    from recent_key_suffix [OF _ _ this that(3)] old_plain [OF that(1)] that(2) show ?thesis
      by (auto simp: at_def)
  qed
  show ?thesis
    unfolding projection_ok_def
  proof (intro conjI allI)
    fix k r
    show "bt_get (pj_records q) k = Some r \<longrightarrow>
        k = record_key (rec_table r) (rec_key r) \<and> plain (rec_table r) \<and> plain (rec_key r)"
      using new plain ok_records [OF ok] by (auto simp: records)
    show "bt_get (pj_recent q) k = Some r \<longleftrightarrow>
        k = recent_key r \<and> bt_get (pj_records q) (record_key (rec_table r) (rec_key r)) = Some r"
    proof (cases "\<exists>r0. v = Some r0 \<and> k = recent_key r0")
      case True
      then obtain r0 where r0: "v = Some r0" "k = recent_key r0" by blast
      have "at r" if "old r" "k = recent_key r"
        using recent_at [OF that(1) v_at [OF r0(1)]] that(2) r0(2) by simp
      with r0 v_at [OF r0(1)] show ?thesis unfolding rows recent by auto
    next
      case False
      then have q: "bt_get (pj_recent q) k =
          (if \<exists>r'. old r' \<and> at r' \<and> k = recent_key r' then None else bt_get (pj_recent p) k)"
        unfolding recent ref_old by (cases v) auto
      show ?thesis
      proof (cases "\<exists>r'. old r' \<and> at r' \<and> k = recent_key r'")
        case True
        then obtain r' where r': "at r'" "k = recent_key r'" by blast
        have "at r" if "old r" "k = recent_key r"
          using recent_at [OF that(1) r'(1)] that(2) r'(2) by simp
        with False q True show ?thesis unfolding rows by auto
      next
        case nomatch: False
        with False q rec_old [of k r] show ?thesis unfolding rows by auto
      qed
    qed
    show "bt_get (pj_partitions q) k = Some r \<longleftrightarrow>
        (\<exists>pk nk. split_nested_key (rec_key r) = Some (pk, nk) \<and> k = partition_key (rec_table r) pk nk
          \<and> bt_get (pj_records q) (record_key (rec_table r) (rec_key r)) = Some r)"
    proof (cases "split_nested_key key")
      case None
      then have "at r \<Longrightarrow> split_nested_key (rec_key r) = None" by (simp add: at_def)
      with None show ?thesis unfolding rows partitions using part_old [of k r] by auto
    next
      case (Some pn)
      obtain pk0 nk0 where pn: "split_nested_key key = Some (pk0, nk0)" using Some by (cases pn) auto
      have collide: "at r"
        if "old r" "split_nested_key (rec_key r) = Some (pk, nk)"
          "partition_key (rec_table r) pk nk = partition_key table pk0 nk0" for pk nk
      proof -
        have "plain pk" "plain pk0" "plain (rec_table r)"
          using split_plain that(2) pn plain(2) old_plain [OF that(1)] by blast+
        with that(3) plain(1) have "rec_table r = table" "pk = pk0" "nk = nk0"
          by (simp_all add: partition_key_inject)
        with that(2) pn show ?thesis by (auto simp: at_def intro: split_inject)
      qed
      have at_split: "at r \<Longrightarrow> split_nested_key (rec_key r) = Some (pk0, nk0)" for r :: "'a db_record"
        by (simp add: at_def pn)
      show ?thesis
      proof (cases "k = partition_key table pk0 nk0")
        case True
        have "v = Some r \<longleftrightarrow> (\<exists>pk nk. split_nested_key (rec_key r) = Some (pk, nk)
            \<and> k = partition_key (rec_table r) pk nk \<and> (if at r then v = Some r else old r))"
        proof
          assume "v = Some r"
          then have "at r" by (rule v_at)
          with at_split True \<open>v = Some r\<close> show "\<exists>pk nk. split_nested_key (rec_key r) = Some (pk, nk)
            \<and> k = partition_key (rec_table r) pk nk \<and> (if at r then v = Some r else old r)"
            by (simp add: at_def)
        next
          assume "\<exists>pk nk. split_nested_key (rec_key r) = Some (pk, nk)
            \<and> k = partition_key (rec_table r) pk nk \<and> (if at r then v = Some r else old r)"
          then show "v = Some r" using collide True by (auto split: if_splits)
        qed
        with True show ?thesis unfolding rows partitions by (simp add: pn)
      next
        case False
        have "at r \<Longrightarrow> split_nested_key (rec_key r) = Some (pk, nk) \<Longrightarrow>
            k \<noteq> partition_key (rec_table r) pk nk" for pk nk
          using at_split [of r] False by (auto simp: at_def)
        then show ?thesis unfolding rows partitions using part_old [of k r] False
          by (auto simp: pn)
      qed
    qed
  next
    fix k rk
    show "bt_get (pj_recent_refs q) k = Some rk \<longleftrightarrow>
        (\<exists>r. bt_get (pj_records q) k = Some r \<and> rk = recent_key r)"
      unfolding refs records using ok_refs [OF ok, of k rk] by auto
  qed
qed

text \<open>The operations keep the keyspaces in agreement.\<close>

definition plain_row :: "'n db_record \<Rightarrow> bool" where
  "plain_row r \<longleftrightarrow> plain (rec_table r) \<and> plain (rec_key r)"

lemma projection_ok_empty [simp]: "projection_ok empty_projection"
  by (simp add: projection_ok_def empty_projection_def)

lemma projection_ok_put:
  assumes "projection_ok p" "plain_row r"
  shows "projection_ok (put_record r p)"
proof (rule projection_change [OF assms(1), where v = "Some r" and table = "rec_table r" and key = "rec_key r"])
  show "bt_get (pj_recent (put_record r p)) k =
      (if Some r \<noteq> None \<and> k = recent_key (the (Some r)) then Some r
       else if bt_get (pj_recent_refs p) (record_key (rec_table r) (rec_key r)) = Some k then None
       else bt_get (pj_recent p) k)" for k
    by (auto simp: put_record_fields recent_ref_key_def record_key_def split: option.split)
qed (use assms in \<open>auto simp: plain_row_def put_record_fields recent_ref_key_def record_key_def
       split: option.split\<close>)

lemma projection_ok_remove:
  assumes "projection_ok p" "plain table" "plain key"
  shows "projection_ok (remove_record table key p)"
proof (rule projection_change [OF assms, where v = None])
  show "bt_get (pj_recent (remove_record table key p)) k =
      (if None \<noteq> None \<and> k = recent_key (the None) then None
       else if bt_get (pj_recent_refs p) (record_key table key) = Some k then None
       else bt_get (pj_recent p) k)" for k
    by (auto simp: remove_record_fields recent_ref_key_def record_key_def split: option.split)
qed (auto simp: remove_record_fields recent_ref_key_def record_key_def split: option.split)

lemma projection_ok_cong:
  assumes "pj_records q = pj_records p" "pj_partitions q = pj_partitions p"
    "pj_recent q = pj_recent p" "pj_recent_refs q = pj_recent_refs p"
  shows "projection_ok q \<longleftrightarrow> projection_ok p"
  by (simp add: projection_ok_def assms)

lemma order_entry_fields [simp]:
  "pj_records (put_order_entry r oid cursor p) = pj_records p"
  "pj_partitions (put_order_entry r oid cursor p) = pj_partitions p"
  "pj_recent (put_order_entry r oid cursor p) = pj_recent p"
  "pj_recent_refs (put_order_entry r oid cursor p) = pj_recent_refs p"
  "pj_indexes (put_order_entry r oid cursor p) = pj_indexes p"
  "pj_index_refs (put_order_entry r oid cursor p) = pj_index_refs p"
  by (auto simp: put_order_entry_def Let_def split: option.split)

lemma remove_order_entries_fields [simp]:
  "pj_records (remove_order_entries table key p) = pj_records p"
  "pj_partitions (remove_order_entries table key p) = pj_partitions p"
  "pj_recent (remove_order_entries table key p) = pj_recent p"
  "pj_recent_refs (remove_order_entries table key p) = pj_recent_refs p"
  "pj_indexes (remove_order_entries table key p) = pj_indexes p"
  "pj_index_refs (remove_order_entries table key p) = pj_index_refs p"
  by (simp_all add: remove_order_entries_def Let_def)

section \<open>The table of rows the keyspaces implement\<close>

text \<open>
  The abstract state is the map from table and key to the row. A projection implements it when
  the keyspaces agree and \<open>records\<close> holds exactly its rows.
\<close>

type_synonym 'n row_table = "(string \<times> string, 'n db_record) btree"

definition implements :: "'n projection \<Rightarrow> 'n row_table \<Rightarrow> bool" where
  "implements p T \<longleftrightarrow>
     projection_ok p
   \<and> (\<forall>t k. plain t \<longrightarrow> bt_get T (t, k) = bt_get (pj_records p) (record_key t k))
   \<and> (\<forall>t k. bt_get T (t, k) \<noteq> None \<longrightarrow> plain t)"

definition table_rows :: "'n row_table \<Rightarrow> string \<Rightarrow> 'n db_record list" where
  "table_rows T table = map snd (filter (\<lambda>((t, _), _). t = table) (bt_entries T))"

lemma implementsD: "implements p T \<Longrightarrow> plain t \<Longrightarrow>
    bt_get T (t, k) = bt_get (pj_records p) (record_key t k)"
  by (simp add: implements_def)

lemma implements_ok: "implements p T \<Longrightarrow> projection_ok p"
  by (simp add: implements_def)

lemma implements_row:
  assumes "implements p T" "bt_get T (t, k) = Some r"
  shows "rec_table r = t \<and> rec_key r = k \<and> plain t \<and> plain k"
proof -
  have "plain t" using assms unfolding implements_def by (metis option.distinct(1))
  with assms have row: "bt_get (pj_records p) (record_key t k) = Some r" by (simp add: implementsD)
  from ok_records [OF implements_ok [OF assms(1)] row] \<open>plain t\<close> show ?thesis
    by (metis record_key_inject)
qed

lemma implements_empty: "implements empty_projection bt_empty"
  by (simp add: implements_def) (simp add: empty_projection_def)

lemma implements_get:
  "implements p T \<Longrightarrow> plain table \<Longrightarrow> projection_get p table key = bt_get T (table, key)"
  by (simp add: projection_get_def implementsD)

lemma implements_plain: "implements p T \<Longrightarrow> bt_get T (t, k) = Some r \<Longrightarrow> plain t"
  unfolding implements_def by (metis option.distinct(1))

lemma implementsI:
  assumes "projection_ok p"
    and "\<And>t k. plain t \<Longrightarrow> bt_get T (t, k) = bt_get (pj_records p) (record_key t k)"
    and "\<And>t k r. bt_get T (t, k) = Some r \<Longrightarrow> plain t"
  shows "implements p T"
  unfolding implements_def using assms by (metis not_Some_eq)

lemma implements_put:
  assumes "implements p T" "plain_row r"
  shows "implements (put_record r p) (bt_insert (rec_table r, rec_key r) r T)"
  using projection_ok_put [OF implements_ok [OF assms(1)] assms(2)]
proof (rule implementsI)
  show "plain t" if "bt_get (bt_insert (rec_table r, rec_key r) r T) (t, k) = Some x" for t k x
    using that assms(2) implements_plain [OF assms(1), of t k] by (auto simp: plain_row_def split: if_splits)
qed (use assms in \<open>auto simp: implementsD put_record_fields plain_row_def record_key_inject\<close>)

lemma implements_remove:
  assumes "implements p T" "plain table" "plain key"
  shows "implements (remove_record table key p) (bt_remove (table, key) T)"
  using projection_ok_remove [OF implements_ok [OF assms(1)] assms(2,3)]
proof (rule implementsI)
  show "plain t" if "bt_get (bt_remove (table, key) T) (t, k) = Some x" for t k x
    using that implements_plain [OF assms(1), of t k] by (auto split: if_splits)
qed (use assms in \<open>auto simp: implementsD remove_record_fields record_key_inject\<close>)

lemma implements_cong:
  assumes "pj_records q = pj_records p" "pj_partitions q = pj_partitions p"
    "pj_recent q = pj_recent p" "pj_recent_refs q = pj_recent_refs p"
  shows "implements q T \<longleftrightarrow> implements p T"
  by (simp add: implements_def assms projection_ok_cong [OF assms])

section \<open>Pages of the abstract table\<close>

text \<open>Two lists of rows that ascend in the same key and have the same rows are equal.\<close>

definition rows_by :: "('r \<Rightarrow> 'k::linorder) \<Rightarrow> 'r list \<Rightarrow> bool" where
  "rows_by g rs \<longleftrightarrow> sorted_wrt (\<lambda>a b. g a < g b) rs"

lemma rows_by_unique:
  assumes "rows_by g xs" "rows_by g ys" "set xs = set ys"
  shows "xs = ys"
proof -
  have asc: "ascending (map (\<lambda>r. (g r, r)) zs)" if "rows_by g zs" for zs
    using that by (simp add: ascending_def rows_by_def sorted_wrt_map comp_def)
  have "map (\<lambda>r. (g r, r)) xs = map (\<lambda>r. (g r, r)) ys"
    by (rule ascending_keys_determine [OF asc asc]) (use assms in auto)
  then have "map snd (map (\<lambda>r. (g r, r)) xs) = map snd (map (\<lambda>r. (g r, r)) ys)" by simp
  then show ?thesis by (simp add: comp_def)
qed

lemma rows_by_filter: "rows_by g xs \<Longrightarrow> rows_by g (filter P xs)"
  by (simp add: rows_by_def sorted_wrt_filter)

lemma rows_by_entries:
  assumes "ascending es" and "\<And>k r. (k, r) \<in> set es \<Longrightarrow> k = f (g r)"
    and "\<And>a b. f a < f b \<Longrightarrow> a < b"
  shows "rows_by g (map snd es)"
proof -
  have "sorted_wrt (\<lambda>a b. fst a < fst b) es"
    using assms(1) by (simp add: ascending_def sorted_wrt_map)
  then have "sorted_wrt (\<lambda>a b. g (snd a) < g (snd b)) es"
    by (rule sorted_wrt_mono_rel [rotated]) (metis assms(2,3) prod.collapse)
  then show ?thesis by (simp add: rows_by_def sorted_wrt_map)
qed

lemma append_less: "p @ a < p @ b \<longleftrightarrow> a < (b :: 'a::linorder list)"
  by (induction p) auto

lemma prefix_entries_iff:
  "(k, v) \<in> set (prefix_entries m p) \<longleftrightarrow> bt_get m k = Some v \<and> starts_with k p"
  by (auto simp: prefix_entries_def in_entries)

lemma prefix_entries_ascending [simp]: "ascending (prefix_entries m p)"
  unfolding prefix_entries_def by (rule ascending_filter) simp

lemma record_key_prefix:
  assumes "plain t" "plain table"
  shows "starts_with (record_key t k) (record_prefix table pfx) \<longleftrightarrow> t = table \<and> starts_with k pfx"
proof
  assume "starts_with (record_key t k) (record_prefix table pfx)"
  then obtain rest where "record_key t k = record_key table (pfx @ rest)"
    by (auto simp: starts_with_prefix prefix_def record_key_def record_prefix_def)
  then show "t = table \<and> starts_with k pfx" using assms by (simp add: record_key_inject)
qed (auto simp: starts_with_prefix prefix_def record_key_def record_prefix_def)

lemma table_rows_iff:
  assumes "implements p T"
  shows "r \<in> set (table_rows T table) \<longleftrightarrow> rec_table r = table \<and> bt_get T (table, rec_key r) = Some r"
proof
  assume "r \<in> set (table_rows T table)"
  then obtain k where "bt_get T (table, k) = Some r"
    by (auto simp: table_rows_def in_entries)
  with implements_row [OF assms this] show "rec_table r = table \<and> bt_get T (table, rec_key r) = Some r"
    by simp
next
  assume r: "rec_table r = table \<and> bt_get T (table, rec_key r) = Some r"
  then have "((table, rec_key r), r) \<in> set (filter (\<lambda>((t, _), _). t = table) (bt_entries T))"
    by (simp add: in_entries)
  then show "r \<in> set (table_rows T table)" unfolding table_rows_def by force
qed

lemma table_rows_by_key:
  assumes "implements p T"
  shows "rows_by rec_key (table_rows T table)"
  unfolding table_rows_def
proof (rule rows_by_entries [where f = "\<lambda>k. (table, k)"])
  fix k r
  assume "(k, r) \<in> set (filter (\<lambda>((t, _), _). t = table) (bt_entries T))"
  then show "k = (table, rec_key r)"
    using implements_row [OF assms, of "fst k" "snd k" r] by (auto simp: in_entries)
qed (auto intro: ascending_filter)

lemma prefix_rows:
  assumes "implements p T" "plain table"
  shows "map snd (prefix_entries (pj_records p) (record_prefix table pfx)) =
    filter (\<lambda>r. starts_with (rec_key r) pfx) (table_rows T table)"
proof (rule rows_by_unique [where g = rec_key])
  have entry: "k = record_key table (rec_key r) \<and> rec_table r = table \<and> starts_with (rec_key r) pfx"
    if "(k, r) \<in> set (prefix_entries (pj_records p) (record_prefix table pfx))" for k r
    using that ok_records [OF implements_ok [OF assms(1)], of k r] assms(2)
    by (auto simp: prefix_entries_iff record_key_prefix)
  show "rows_by rec_key (map snd (prefix_entries (pj_records p) (record_prefix table pfx)))"
    by (rule rows_by_entries [where f = "record_key table"])
      (use entry in \<open>auto simp: record_key_def append_less\<close>)
  show "rows_by rec_key (filter (\<lambda>r. starts_with (rec_key r) pfx) (table_rows T table))"
    by (rule rows_by_filter) (rule table_rows_by_key [OF assms(1)])
  have "r \<in> snd ` set (prefix_entries (pj_records p) (record_prefix table pfx)) \<longleftrightarrow>
      rec_table r = table \<and> bt_get T (table, rec_key r) = Some r \<and> starts_with (rec_key r) pfx" for r
  proof
    assume "r \<in> snd ` set (prefix_entries (pj_records p) (record_prefix table pfx))"
    then obtain k where "(k, r) \<in> set (prefix_entries (pj_records p) (record_prefix table pfx))" by auto
    with entry [OF this] show "rec_table r = table \<and> bt_get T (table, rec_key r) = Some r \<and> starts_with (rec_key r) pfx"
      using assms by (simp add: prefix_entries_iff implementsD)
  next
    assume r: "rec_table r = table \<and> bt_get T (table, rec_key r) = Some r \<and> starts_with (rec_key r) pfx"
    then have "(record_key table (rec_key r), r) \<in> set (prefix_entries (pj_records p) (record_prefix table pfx))"
      using assms by (simp add: prefix_entries_iff implementsD record_key_prefix)
    then show "r \<in> snd ` set (prefix_entries (pj_records p) (record_prefix table pfx))" by force
  qed
  then show "set (map snd (prefix_entries (pj_records p) (record_prefix table pfx))) =
      set (filter (\<lambda>r. starts_with (rec_key r) pfx) (table_rows T table))"
    by (auto simp: table_rows_iff [OF assms(1)])
qed

lemma projection_list_page:
  assumes "implements p T" "plain table"
  shows "projection_list_by_key_prefix p table pfx after_key limit =
    take (normalize_limit limit)
      (filter (\<lambda>r. starts_with (rec_key r) pfx \<and> \<not> at_or_before after_key (rec_key r)) (table_rows T table))"
  unfolding projection_list_by_key_prefix_def page_is_take prefix_rows [OF assms] filter_filter
  by (simp add: conj_commute)

text \<open>Partitions: the rows below a parent key, in the order of their full keys.\<close>

definition logical_after :: "string \<Rightarrow> string \<Rightarrow> string" where
  "logical_after key_prefix after = (if starts_with after key_prefix then after else key_prefix @ after)"

definition nested_under :: "string \<Rightarrow> string \<Rightarrow> bool" where
  "nested_under parent_key key \<longleftrightarrow>
     starts_with key (parent_key @ '':'') \<and> key \<noteq> parent_key @ '':''"

lemma nested_under_split:
  assumes "CHR '':'' \<notin> set pk" "pk \<noteq> []"
  shows "nested_under pk key \<longleftrightarrow> (\<exists>nk. split_nested_key key = Some (pk, nk))"
  using assms by (auto simp: nested_under_def split_nested_key_Some starts_with_prefix prefix_def)

lemma partition_entry:
  assumes "implements p T" "plain table" "plain pk" "CHR '':'' \<notin> set pk" "pk \<noteq> []"
  shows "(k, r) \<in> set (prefix_entries (pj_partitions p) (partition_prefix table pk)) \<longleftrightarrow>
    bt_get T (table, rec_key r) = Some r \<and> rec_table r = table
    \<and> (\<exists>nk. split_nested_key (rec_key r) = Some (pk, nk) \<and> k = partition_key table pk nk)"
    (is "?l \<longleftrightarrow> ?r")
proof
  assume ?l
  then obtain pk' nk where split: "split_nested_key (rec_key r) = Some (pk', nk)"
    and k: "k = partition_key (rec_table r) pk' nk"
    and row: "bt_get (pj_records p) (record_key (rec_table r) (rec_key r)) = Some r"
    and pre: "starts_with k (partition_prefix table pk)"
    using ok_partitions [OF implements_ok [OF assms(1)]] by (auto simp: prefix_entries_iff)
  have plain: "plain (rec_table r)" "plain (rec_key r)"
    using ok_records [OF implements_ok [OF assms(1)] row] by auto
  obtain rest where "k = partition_key table pk rest"
    using pre by (auto simp: starts_with_prefix prefix_def partition_prefix_def partition_key_def)
  with k plain split assms(2,3) have "rec_table r = table" "pk' = pk"
    using partition_key_inject split_plain by metis+
  with split k row plain assms(1) show ?r by (simp add: implementsD)
next
  assume ?r
  then show ?l
    using assms(1,2) ok_partitions [OF implements_ok [OF assms(1)], of k r]
    by (auto simp: prefix_entries_iff implementsD partition_prefix_def partition_key_def
        starts_with_prefix prefix_def)
qed

lemma append_le: "p @ a \<le> p @ b \<longleftrightarrow> a \<le> (b :: 'a::linorder list)"
  by (induction p) auto

lemma partition_rows_eq:
  assumes "implements p T" "plain table" "plain pk" "CHR '':'' \<notin> set pk" "pk \<noteq> []"
  shows "partition_rows p table pk =
    map (\<lambda>r. (drop (Suc (length pk)) (rec_key r), r))
      (filter (\<lambda>r. nested_under pk (rec_key r)) (table_rows T table))"
proof -
  define es where "es = prefix_entries (pj_partitions p) (partition_prefix table pk)"
  note entry = partition_entry [OF assms, folded es_def]
  have form: "rec_key r = pk @ CHR '':'' # nk"
    if "split_nested_key (rec_key r) = Some (pk, nk)" for r :: "'a db_record" and nk
    using that by (simp add: split_nested_key_Some)
  have rows: "map snd es = filter (\<lambda>r. nested_under pk (rec_key r)) (table_rows T table)"
  proof (rule rows_by_unique [where g = rec_key])
    have "(k, r) \<in> set es \<Longrightarrow> k = partition_prefix table pk @ drop (Suc (length pk)) (rec_key r)" for k r
      by (auto simp: entry partition_key_def partition_prefix_def dest: form)
    then have "rows_by (\<lambda>r. drop (Suc (length pk)) (rec_key r)) (map snd es)"
      by (intro rows_by_entries [where f = "\<lambda>nk. partition_prefix table pk @ nk"])
        (auto simp: es_def append_less)
    then have "sorted_wrt (\<lambda>a b. drop (Suc (length pk)) (rec_key a) < drop (Suc (length pk)) (rec_key b))
        (map snd es)"
      by (simp add: rows_by_def)
    then show "rows_by rec_key (map snd es)"
      unfolding rows_by_def
    proof (rule sorted_wrt_mono_rel [rotated])
      fix a b
      assume "a \<in> set (map snd es)" "b \<in> set (map snd es)"
      then obtain na nb where "rec_key a = pk @ CHR '':'' # na" "rec_key b = pk @ CHR '':'' # nb"
        using form entry by fastforce
      moreover assume "drop (Suc (length pk)) (rec_key a) < drop (Suc (length pk)) (rec_key b)"
      ultimately show "rec_key a < rec_key b" by (simp add: append_less)
    qed
    show "rows_by rec_key (filter (\<lambda>r. nested_under pk (rec_key r)) (table_rows T table))"
      by (rule rows_by_filter) (rule table_rows_by_key [OF assms(1)])
    have "r \<in> snd ` set es \<longleftrightarrow> rec_table r = table \<and> bt_get T (table, rec_key r) = Some r
        \<and> nested_under pk (rec_key r)" for r
    proof -
      have "r \<in> snd ` set es \<longleftrightarrow> (\<exists>k. (k, r) \<in> set es)" by force
      then show ?thesis unfolding nested_under_split [OF assms(4,5)] by (simp add: entry) blast
    qed
    then show "set (map snd es) = set (filter (\<lambda>r. nested_under pk (rec_key r)) (table_rows T table))"
      by (auto simp: table_rows_iff [OF assms(1)])
  qed
  have parse: "parse_partition_key table pk k = Some (drop (Suc (length pk)) (rec_key r))"
    if "(k, r) \<in> set es" for k r
  proof -
    from that obtain nk where "split_nested_key (rec_key r) = Some (pk, nk)" "k = partition_key table pk nk"
      by (auto simp: entry)
    with form [OF this(1)] show ?thesis
      by (simp add: parse_partition_key_def partition_key_def partition_prefix_def strip_prefix_Some)
  qed
  have "List.map_filter (\<lambda>(key, r). map_option (\<lambda>nested_key. (nested_key, r)) (parse_partition_key table pk key)) xs
      = map (\<lambda>r. (drop (Suc (length pk)) (rec_key r), r)) (map snd xs)" if "set xs \<subseteq> set es" for xs
    using that by (induction xs) (auto simp: map_filter_simps parse)
  then show ?thesis
    unfolding partition_rows_def es_def [symmetric] by (simp flip: rows)
qed

lemma partition_skip:
  assumes "nested_under pk key"
  shows "at_or_before (partition_after_nested_key pk after_key) (drop (Suc (length pk)) key) \<longleftrightarrow>
    at_or_before (map_option (logical_after (pk @ '':'')) after_key) key"
proof -
  obtain nk where key: "key = (pk @ '':'') @ nk"
    using assms by (auto simp: nested_under_def starts_with_prefix prefix_def)
  show ?thesis
  proof (cases after_key)
    case (Some a)
    show ?thesis
    proof (cases "starts_with a (pk @ '':'')")
      case True
      then obtain b where "a = (pk @ '':'') @ b" by (auto simp: starts_with_prefix prefix_def)
      then show ?thesis using Some True key
        by (simp add: at_or_before_def partition_after_nested_key_def strip_prefix_def logical_after_def append_le)
    next
      case False
      then show ?thesis using Some key append_le [of "pk @ '':''" nk a]
        by (simp add: at_or_before_def partition_after_nested_key_def strip_prefix_def logical_after_def)
    qed
  qed (simp add: at_or_before_def partition_after_nested_key_def)
qed

lemma partition_page:
  assumes "implements p T" "plain table" "plain pk" "CHR '':'' \<notin> set pk" "pk \<noteq> []"
  shows "projection_list_partition p table pk after_key limit =
    take (normalize_limit limit)
      (filter (\<lambda>r. nested_under pk (rec_key r)
         \<and> \<not> at_or_before (map_option (logical_after (pk @ '':'')) after_key) (rec_key r))
        (table_rows T table))"
proof -
  have "map snd (filter (\<lambda>x. \<not> (case x of (nested_key, _) \<Rightarrow>
          at_or_before (partition_after_nested_key pk after_key) nested_key)) (partition_rows p table pk)) =
      filter (\<lambda>r. nested_under pk (rec_key r)
         \<and> \<not> at_or_before (map_option (logical_after (pk @ '':'')) after_key) (rec_key r)) (table_rows T table)"
    unfolding partition_rows_eq [OF assms]
    by (simp add: filter_map comp_def partition_skip cong: conj_cong filter_cong)
  then show ?thesis
    unfolding projection_list_partition_def page_is_take by (simp add: take_map [symmetric])
qed

section \<open>Recent rows\<close>

lemma length_fixed_decimal [simp]: "length (fixed_decimal w n) = w"
  by (induction w arbitrary: n) simp_all

lemma append_less_length:
  "length a = length b \<Longrightarrow> a < b \<Longrightarrow> a @ x < b @ (y :: 'a::linorder list)"
proof (induction a arbitrary: b)
  case (Cons c a)
  then show ?case by (cases b) auto
qed simp

lemma fixed_decimal_mono:
  "n < m \<Longrightarrow> m < 10 ^ w \<Longrightarrow> fixed_decimal w n < fixed_decimal w m"
proof (induction w arbitrary: n m)
  case (Suc w)
  have m: "m div 10 < 10 ^ w" using Suc.prems(2) by (simp add: less_mult_imp_div_less)
  show ?case
  proof (cases "n div 10 < m div 10")
    case True
    then have "fixed_decimal w (n div 10) < fixed_decimal w (m div 10)" by (rule Suc.IH [OF _ m])
    then show ?thesis by (simp add: append_less_length)
  next
    case False
    then have eq: "n div 10 = m div 10"
      using Suc.prems(1) by (meson div_le_mono le_less_trans linorder_not_le nat_less_le)
    then have less: "n mod 10 < m mod 10"
      using Suc.prems(1) by (metis div_mult_mod_eq nat_add_left_cancel_less)
    have "m mod 10 < 10" by simp
    with less have "(of_char (char_of (48 + n mod 10) :: char) :: nat) < of_char (char_of (48 + m mod 10) :: char)"
      by simp
    then have "char_of (48 + n mod 10) < (char_of (48 + m mod 10) :: char)"
      by (simp add: less_char_def)
    with eq show ?thesis by (simp add: append_less)
  qed
qed simp

lemma padded20_mono: "n < m \<Longrightarrow> padded20 n < padded20 m"
proof -
  assume "n < m"
  moreover have "unat m < 10 ^ 20" using unat_bound [of m] by simp
  ultimately show ?thesis by (simp add: padded20_def word_less_nat_alt fixed_decimal_mono)
qed

lemma length_padded20 [simp]: "length (padded20 n) = 20"
  by (simp add: padded20_def)

text \<open>Newest first: by descending LSN, then by descending time, then by key.\<close>

definition recency :: "'n db_record \<Rightarrow> u64 \<times> u64 \<times> string" where
  "recency r = (sat_sub (- 1) (rec_lsn r), sat_sub (- 1) (rec_updated_at_ms r), rec_key r)"

definition recency_key :: "string \<Rightarrow> u64 \<times> u64 \<times> string \<Rightarrow> string" where
  "recency_key table = (\<lambda>(a, b, k). table @ nul # padded20 a @ nul # padded20 b @ nul # k)"

lemma recency_key_mono: "x < y \<Longrightarrow> recency_key table x < recency_key table y"
proof -
  assume "x < y"
  obtain a b k a' b' k' where xy: "x = (a, b, k)" "y = (a', b', k')" by (cases x, cases y) auto
  have tail: "padded20 b @ nul # k < padded20 b' @ nul # k'" if "(b, k) < (b', k')"
  proof (cases "b < b'")
    case True
    then show ?thesis by (intro append_less_length) (simp_all add: padded20_mono)
  next
    case False
    with that have "b = b'" "k < k'" by auto
    then show ?thesis by (simp add: append_less)
  qed
  show ?thesis
  proof (cases "a < a'")
    case True
    then have "padded20 a @ nul # padded20 b @ nul # k < padded20 a' @ nul # padded20 b' @ nul # k'"
      by (intro append_less_length) (simp_all add: padded20_mono)
    then show ?thesis by (simp add: xy recency_key_def append_less)
  next
    case False
    with \<open>x < y\<close> xy have "a = a'" "(b, k) < (b', k')" by auto
    with tail show ?thesis by (simp add: xy recency_key_def append_less)
  qed
qed

lemma recency_key_reflect: "recency_key table x < recency_key table y \<Longrightarrow> x < y"
  by (metis order_less_asym recency_key_mono not_less_iff_gr_or_eq)

lemma recent_key_recency: "recent_key r = recency_key (rec_table r) (recency r)"
  by (simp add: recent_key_def recency_key_def recency_def)

lemma rows_by_distinct: "rows_by g xs \<Longrightarrow> distinct xs"
  unfolding rows_by_def by (induction xs) auto

lemma rows_by_sort_key:
  assumes "rows_by g xs" "distinct ys" "set xs = set ys"
  shows "xs = sort_key g ys"
proof -
  have "inj_on g (set xs)"
  proof (rule inj_onI)
    fix a b
    assume ab: "a \<in> set xs" "b \<in> set xs" "g a = g b"
    show "a = b"
      using assms(1) ab unfolding rows_by_def
      by (induction xs) (auto dest: less_imp_neq)
  qed
  moreover have "mset ys = mset xs"
    using assms rows_by_distinct [OF assms(1)] by (simp add: set_eq_iff_mset_eq_distinct)
  moreover have "sorted (map g xs)"
    using assms(1) unfolding rows_by_def sorted_map
    by (rule sorted_wrt_mono_rel [rotated]) simp
  ultimately show ?thesis
    using assms(3) by (intro sort_key_inj_key_eq [symmetric]) auto
qed

lemma recent_page:
  assumes "implements p T" "plain table"
  shows "projection_list_recent p table limit =
    take (normalize_limit limit) (sort_key recency (table_rows T table))"
proof -
  define es where "es = prefix_entries (pj_recent p) (recent_prefix table)"
  have entry: "(k, r) \<in> set es \<longleftrightarrow>
      bt_get T (table, rec_key r) = Some r \<and> rec_table r = table \<and> k = recency_key table (recency r)"
    (is "?l \<longleftrightarrow> ?r") for k r
  proof
    assume ?l
    then have k: "k = recent_key r" "starts_with k (recent_prefix table)"
      and row: "bt_get (pj_records p) (record_key (rec_table r) (rec_key r)) = Some r"
      by (auto simp: es_def prefix_entries_iff ok_recent [OF implements_ok [OF assms(1)]])
    have plain: "plain (rec_table r)" using ok_records [OF implements_ok [OF assms(1)] row] by simp
    have "record_key (rec_table r) (drop (Suc (length (rec_table r))) k) = k"
      by (simp add: k(1) recent_key_def record_key_def)
    moreover have "starts_with k (record_prefix table [])"
      using k(2) by (simp add: record_prefix_def recent_prefix_def)
    ultimately have "rec_table r = table"
      using record_key_prefix [OF plain assms(2)] by metis
    with k row assms show ?r by (simp add: recent_key_recency implementsD)
  next
    assume ?r
    then show ?l
      using assms
      by (auto simp: es_def prefix_entries_iff ok_recent [OF implements_ok [OF assms(1)]]
          recent_key_recency implementsD recency_key_def recent_prefix_def starts_with_prefix
          prefix_def recency_def)
  qed
  have "rows_by recency (map snd es)"
    by (rule rows_by_entries [where f = "recency_key table"])
      (use entry in \<open>auto simp: es_def intro: recency_key_reflect\<close>)
  moreover have "distinct (table_rows T table)"
    by (rule rows_by_distinct) (rule table_rows_by_key [OF assms(1)])
  moreover have "set (map snd es) = set (table_rows T table)"
  proof -
    have "r \<in> snd ` set es \<longleftrightarrow> (\<exists>k. (k, r) \<in> set es)" for r by force
    then show ?thesis by (auto simp: entry table_rows_iff [OF assms(1)])
  qed
  ultimately have "map snd es = sort_key recency (table_rows T table)" by (rule rows_by_sort_key)
  then show ?thesis by (simp add: projection_list_recent_def page_is_take es_def)
qed

end
