(* ===== verification/Record_Index.thy ===== *)
theory Record_Index
  imports Record_Projection
begin

text \<open>
  Secondary indexes and schema orders of the record projection, and the writes of
  \<open>record_store.rs\<close> that keep every keyspace of \<open>record_projection.rs\<close> up to date: one row,
  one deletion, a transaction, and the rebuild of a projection from a list of rows.

  A write that fails in the middle keeps what it did before the failure, so every write
  returns the projection it leaves together with its result.
\<close>

section \<open>Index values and cursors as text\<close>

record index_schema =
  ixs_fields :: "string list"
  ixs_unique :: bool

datatype order_direction = OrderAsc | OrderDesc

record order_term =
  ot_field :: string
  ot_direction :: order_direction

datatype ordering = Less_Than | Equal_To | Greater_Than

datatype store_error =
    StoreCodec codec_error
  | StoreHex hex_error
  | UniqueIndexViolation string string string
  | IndexedFieldMissing string
  | IndexedFieldNotScalar string
  | OrderedListNeedsPartition
  | InvalidOrderedCursor
  | InvalidOrderTerm

text \<open>
  postcard, serde_json and float formatting on the structures of these files; \<open>f64\<close> is its
  bit pattern.
\<close>

record 'n index_ops = "'n envelope_ops" +
  index_values_to_postcard :: "binary_json list \<Rightarrow> bytes option"
  index_values_from_postcard :: "bytes \<Rightarrow> binary_json list option"
  index_values_from_slice :: "bytes \<Rightarrow> 'n json list option"
  cursor_to_postcard :: "binary_json list \<times> string \<Rightarrow> bytes option"
  cursor_from_postcard :: "bytes \<Rightarrow> (binary_json list \<times> string) option"
  cursor_from_slice :: "bytes \<Rightarrow> ('n json list \<times> string) option"
  json_to_string :: "'n json \<Rightarrow> string"
  number_to_string :: "'n \<Rightarrow> string"
  f64_partial_cmp :: "u64 \<Rightarrow> u64 \<Rightarrow> ordering option"
  f64_padded24 :: "u64 \<Rightarrow> string"

definition index_laws :: "('n, 'z) index_ops_scheme \<Rightarrow> bool" where
  "index_laws ops \<longleftrightarrow>
     (\<forall>vs. case index_values_to_postcard ops vs of
             None \<Rightarrow> True | Some bytes \<Rightarrow> index_values_from_postcard ops bytes = Some vs)
   \<and> (\<forall>c. case cursor_to_postcard ops c of
             None \<Rightarrow> True | Some bytes \<Rightarrow> cursor_from_postcard ops bytes = Some c)"

definition index_values_magic :: bytes where
  "index_values_magic = [0x4E, 0x44, 0x42, 0x49, 0x44, 0x58, 0x30, 0x31]" \<comment> \<open>NDBIDX01\<close>

definition encode_index_values_component ::
  "('n, 'z) index_ops_scheme \<Rightarrow> 'n json list \<Rightarrow> codec_error + string" where
  "encode_index_values_component ops values =
     res_bind (map_res (binary_from_json ops) values) (\<lambda>bvs.
       case index_values_to_postcard ops bvs of
         None \<Rightarrow> Inl PostcardEncode
       | Some payload \<Rightarrow> Inr (hex_lower (index_values_magic @ payload)))"

definition decode_index_values_component ::
  "('n, 'z) index_ops_scheme \<Rightarrow> string \<Rightarrow> codec_error + 'n json list" where
  "decode_index_values_component ops component =
     (let legacy = (case index_values_from_slice ops (map byte_of component) of
                      None \<Rightarrow> Inl JsonDecode | Some values \<Rightarrow> Inr values)
      in case decode_hex component of
           Inl _ \<Rightarrow> legacy
         | Inr bytes \<Rightarrow>
             (case strip_prefix bytes index_values_magic of
                None \<Rightarrow> legacy
              | Some payload \<Rightarrow>
                  (case index_values_from_postcard ops payload of
                     None \<Rightarrow> Inl PostcardDecode
                   | Some bvs \<Rightarrow> map_res (binary_into_json ops) bvs)))"

definition index_range_cursor_magic :: bytes where
  "index_range_cursor_magic = [0x4E, 0x44, 0x42, 0x43, 0x55, 0x52, 0x30, 0x31]" \<comment> \<open>NDBCUR01\<close>

definition index_range_cursor ::
  "('n, 'z) index_ops_scheme \<Rightarrow> 'n json list \<Rightarrow> string \<Rightarrow> codec_error + string" where
  "index_range_cursor ops values key =
     res_bind (map_res (binary_from_json ops) values) (\<lambda>bvs.
       case cursor_to_postcard ops (bvs, key) of
         None \<Rightarrow> Inl PostcardEncode
       | Some payload \<Rightarrow> Inr (hex_lower (index_range_cursor_magic @ payload)))"

definition parse_index_range_cursor ::
  "('n, 'z) index_ops_scheme \<Rightarrow> string \<Rightarrow> store_error + 'n json list \<times> string" where
  "parse_index_range_cursor ops cursor =
     res_bind (map_err StoreHex (decode_hex cursor)) (\<lambda>bytes.
       case strip_prefix bytes index_range_cursor_magic of
         Some payload \<Rightarrow>
           (case cursor_from_postcard ops payload of
              None \<Rightarrow> Inl (StoreCodec PostcardDecode)
            | Some (bvs, key) \<Rightarrow>
                res_bind (map_err StoreCodec (map_res (binary_into_json ops) bvs)) (\<lambda>values.
                  Inr (values, key)))
       | None \<Rightarrow>
           (case cursor_from_slice ops bytes of
              None \<Rightarrow> Inl (StoreCodec JsonDecode) | Some c \<Rightarrow> Inr c))"

section \<open>The order of index values\<close>

definition cmp_of :: "'a::linorder \<Rightarrow> 'a \<Rightarrow> ordering" where
  "cmp_of a b = (if a < b then Less_Than else if a = b then Equal_To else Greater_Than)"

definition then_with :: "ordering \<Rightarrow> ordering \<Rightarrow> ordering" where
  "then_with a b = (if a = Equal_To then b else a)"

fun index_value_rank :: "'n json \<Rightarrow> u8" where
  "index_value_rank JNull = 0"
| "index_value_rank (JBool _) = 1"
| "index_value_rank (JNumber _) = 2"
| "index_value_rank (JString _) = 3"
| "index_value_rank (JArray _) = 4"
| "index_value_rank (JObject _) = 4"

definition compare_json_numbers :: "('n, 'z) index_ops_scheme \<Rightarrow> 'n \<Rightarrow> 'n \<Rightarrow> ordering" where
  "compare_json_numbers ops left right =
     (case (as_f64 ops left, as_f64 ops right) of
        (Some l, Some r) \<Rightarrow> (case f64_partial_cmp ops l r of None \<Rightarrow> Equal_To | Some c \<Rightarrow> c)
      | _ \<Rightarrow> cmp_of (number_to_string ops left) (number_to_string ops right))"

definition compare_index_value ::
  "('n, 'z) index_ops_scheme \<Rightarrow> 'n json \<Rightarrow> 'n json \<Rightarrow> ordering" where
  "compare_index_value ops left right =
     then_with (cmp_of (index_value_rank left) (index_value_rank right))
       (case (left, right) of
          (JNull, JNull) \<Rightarrow> Equal_To
        | (JBool l, JBool r) \<Rightarrow> cmp_of l r
        | (JNumber l, JNumber r) \<Rightarrow> compare_json_numbers ops l r
        | (JString l, JString r) \<Rightarrow> cmp_of l r
        | _ \<Rightarrow> cmp_of (json_to_string ops left) (json_to_string ops right))"

fun compare_index_values ::
  "('n, 'z) index_ops_scheme \<Rightarrow> 'n json list \<Rightarrow> 'n json list \<Rightarrow> ordering" where
  "compare_index_values ops (l # ls) (r # rs) =
     then_with (compare_index_value ops l r) (compare_index_values ops ls rs)"
| "compare_index_values ops ls rs = cmp_of (length ls) (length rs)"

section \<open>Keys of the index keyspaces\<close>

definition index_table_prefix :: "string \<Rightarrow> string \<Rightarrow> string" where
  "index_table_prefix table index_name = table @ nul # index_name @ [nul]"

definition index_prefix ::
  "('n, 'z) index_ops_scheme \<Rightarrow> string \<Rightarrow> string \<Rightarrow> 'n json list \<Rightarrow> codec_error + string" where
  "index_prefix ops table index_name values =
     res_bind (encode_index_values_component ops values) (\<lambda>encoded.
       Inr (index_table_prefix table index_name @ encoded @ [nul]))"

definition index_key_prefix ::
  "('n, 'z) index_ops_scheme \<Rightarrow> string \<Rightarrow> string \<Rightarrow> 'n json list \<Rightarrow> string \<Rightarrow> codec_error + string"
where
  "index_key_prefix ops table index_name values key_prefix =
     res_bind (index_prefix ops table index_name values) (\<lambda>p. Inr (p @ key_prefix))"

definition index_key ::
  "('n, 'z) index_ops_scheme \<Rightarrow> string \<Rightarrow> string \<Rightarrow> 'n json list \<Rightarrow> string \<Rightarrow> codec_error + string"
where
  "index_key ops table index_name values key =
     res_bind (index_prefix ops table index_name values) (\<lambda>p. Inr (p @ key))"

definition parse_index_key ::
  "('n, 'z) index_ops_scheme \<Rightarrow> string \<Rightarrow> string \<Rightarrow> string \<Rightarrow>
     codec_error + ('n json list \<times> string) option" where
  "parse_index_key ops table index_name key =
     (case strip_prefix key (index_table_prefix table index_name) of
        None \<Rightarrow> Inr None
      | Some rest \<Rightarrow>
          (case split_once nul rest of
             None \<Rightarrow> Inr None
           | Some (encoded, rkey) \<Rightarrow>
               res_bind (decode_index_values_component ops encoded) (\<lambda>values.
                 Inr (Some (values, rkey)))))"

definition index_ref_prefix :: "string \<Rightarrow> string \<Rightarrow> string" where
  "index_ref_prefix table key = table @ nul # key @ [nul]"

definition index_ref_key ::
  "('n, 'z) index_ops_scheme \<Rightarrow> string \<Rightarrow> string \<Rightarrow> string \<Rightarrow> 'n json list \<Rightarrow> codec_error + string"
where
  "index_ref_key ops table key index_name values =
     res_bind (encode_index_values_component ops values) (\<lambda>encoded.
       Inr (index_ref_prefix table key @ index_name @ nul # encoded))"

text \<open>\<open>key.split(|byte| *byte == 0)\<close>\<close>

fun split_nul :: "string \<Rightarrow> string list" where
  "split_nul [] = [[]]"
| "split_nul (c # s) =
     (case split_nul s of
        [] \<Rightarrow> [[c]]
      | p # ps \<Rightarrow> if c = nul then [] # p # ps else (c # p) # ps)"

definition parse_index_ref_key ::
  "('n, 'z) index_ops_scheme \<Rightarrow> string \<Rightarrow> codec_error + (string \<times> 'n json list) option" where
  "parse_index_ref_key ops key =
     (case split_nul key of
        [_, _, index_name, encoded] \<Rightarrow>
          res_bind (decode_index_values_component ops encoded) (\<lambda>values.
            Inr (Some (index_name, values)))
      | _ \<Rightarrow> Inr None)"

section \<open>Index entries\<close>

definition put_index_entry ::
  "('n, 'z) index_ops_scheme \<Rightarrow> 'n db_record \<Rightarrow> string \<Rightarrow> 'n json list \<Rightarrow> bool \<Rightarrow> 'n projection \<Rightarrow>
     store_error + 'n projection" where
  "put_index_entry ops r index_name values unique p =
     res_bind
       (if unique then
          res_bind (map_err StoreCodec (index_prefix ops (rec_table r) index_name values)) (\<lambda>pre.
            check_all (\<lambda>existing.
              if rec_key existing \<noteq> rec_key r
              then Inl (UniqueIndexViolation (rec_table r) index_name (rec_key r))
              else Inr ()) (map snd (prefix_entries (pj_indexes p) pre)))
        else Inr ()) (\<lambda>_.
     res_bind (map_err StoreCodec (index_key ops (rec_table r) index_name values (rec_key r))) (\<lambda>ik.
     res_bind (map_err StoreCodec (index_ref_key ops (rec_table r) (rec_key r) index_name values)) (\<lambda>rk.
       Inr (p\<lparr>pj_indexes := bt_insert ik r (pj_indexes p),
              pj_index_refs := bs_insert rk (pj_index_refs p)\<rparr>))))"

fun index_removals ::
  "('n, 'z) index_ops_scheme \<Rightarrow> string \<Rightarrow> string \<Rightarrow> string list \<Rightarrow>
     codec_error + (string \<times> string) list" where
  "index_removals ops table key [] = Inr []"
| "index_removals ops table key (reference_key # refs) =
     res_bind (parse_index_ref_key ops reference_key) (\<lambda>parsed.
       case parsed of
         None \<Rightarrow> index_removals ops table key refs
       | Some (index_name, values) \<Rightarrow>
           res_bind (index_key ops table index_name values key) (\<lambda>ik.
           res_bind (index_removals ops table key refs) (\<lambda>rest.
             Inr ((reference_key, ik) # rest))))"

definition remove_index_entries ::
  "('n, 'z) index_ops_scheme \<Rightarrow> string \<Rightarrow> string \<Rightarrow> 'n projection \<Rightarrow> codec_error + 'n projection"
where
  "remove_index_entries ops table key p =
     res_bind (index_removals ops table key
         (map fst (prefix_entries (pj_index_refs p) (index_ref_prefix table key)))) (\<lambda>removals.
       if removals = [] then Inr p
       else Inr (fold (\<lambda>(reference_key, ik) p.
              p\<lparr>pj_index_refs := bt_remove reference_key (pj_index_refs p),
                pj_indexes := bt_remove ik (pj_indexes p)\<rparr>) removals p))"

definition query_index ::
  "('n, 'z) index_ops_scheme \<Rightarrow> 'n projection \<Rightarrow> string \<Rightarrow> string \<Rightarrow> 'n json list \<Rightarrow>
     string option \<Rightarrow> string option \<Rightarrow> nat option \<Rightarrow> codec_error + 'n db_record list" where
  "query_index ops p table index_name values key_prefix after_key limit =
     res_bind (case key_prefix of
                 Some kp \<Rightarrow> index_key_prefix ops table index_name values kp
               | None \<Rightarrow> index_prefix ops table index_name values) (\<lambda>pre.
       Inr (page_loop (\<lambda>r. at_or_before after_key (rec_key r)) (normalize_limit limit) []
              (map snd (prefix_entries (pj_indexes p) pre))))"

text \<open>A stable sort by a comparison function.\<close>

fun insert_by :: "('a \<Rightarrow> 'a \<Rightarrow> ordering) \<Rightarrow> 'a \<Rightarrow> 'a list \<Rightarrow> 'a list" where
  "insert_by cmp x [] = [x]"
| "insert_by cmp x (y # ys) =
     (if cmp x y = Greater_Than then y # insert_by cmp x ys else x # y # ys)"

definition sort_by :: "('a \<Rightarrow> 'a \<Rightarrow> ordering) \<Rightarrow> 'a list \<Rightarrow> 'a list" where
  "sort_by cmp xs = foldr (insert_by cmp) xs []"

definition compare_entries ::
  "('n, 'z) index_ops_scheme \<Rightarrow> 'n json list \<times> string \<Rightarrow> 'n json list \<times> string \<Rightarrow> ordering" where
  "compare_entries ops l r =
     then_with (compare_index_values ops (fst l) (fst r)) (cmp_of (snd l) (snd r))"

record 'n index_range_query =
  irq_lower :: "'n json list option"
  irq_upper :: "'n json list option"
  irq_key_prefix :: "string option"
  irq_after_cursor :: "('n json list \<times> string) option"
  irq_limit :: "nat option"

definition in_index_range ::
  "('n, 'z) index_ops_scheme \<Rightarrow> 'n index_range_query \<Rightarrow> 'n json list \<Rightarrow> string \<Rightarrow> bool" where
  "in_index_range ops q values rkey \<longleftrightarrow>
     (case irq_lower q of None \<Rightarrow> True | Some lower \<Rightarrow> compare_index_values ops values lower \<noteq> Less_Than)
   \<and> (case irq_upper q of None \<Rightarrow> True | Some upper \<Rightarrow> compare_index_values ops values upper \<noteq> Greater_Than)
   \<and> (case irq_key_prefix q of None \<Rightarrow> True | Some pre \<Rightarrow> starts_with rkey pre)"

fun index_range_entries ::
  "('n, 'z) index_ops_scheme \<Rightarrow> string \<Rightarrow> string \<Rightarrow> 'n index_range_query \<Rightarrow>
     (string \<times> 'n db_record) list \<Rightarrow> codec_error + ('n json list \<times> 'n db_record) list" where
  "index_range_entries ops table index_name q [] = Inr []"
| "index_range_entries ops table index_name q ((key, r) # es) =
     res_bind (parse_index_key ops table index_name key) (\<lambda>parsed.
     res_bind (index_range_entries ops table index_name q es) (\<lambda>rest.
       case parsed of
         None \<Rightarrow> Inr rest
       | Some (values, rkey) \<Rightarrow>
           Inr (if in_index_range ops q values rkey then (values, r) # rest else rest)))"

definition query_index_range ::
  "('n, 'z) index_ops_scheme \<Rightarrow> 'n projection \<Rightarrow> string \<Rightarrow> string \<Rightarrow> 'n index_range_query \<Rightarrow>
     codec_error + ('n json list \<times> 'n db_record) list" where
  "query_index_range ops p table index_name q =
     res_bind (index_range_entries ops table index_name q
         (prefix_entries (pj_indexes p) (index_table_prefix table index_name))) (\<lambda>entries.
       let at = (\<lambda>(values, r). (values, rec_key r));
           sorted = sort_by (\<lambda>l r. compare_entries ops (at l) (at r)) entries;
           later = filter (\<lambda>e. case irq_after_cursor q of
                       None \<Rightarrow> True | Some after \<Rightarrow> compare_entries ops (at e) after = Greater_Than) sorted
       in Inr (take (normalize_limit (irq_limit q)) later))"

record projection_kv_status =
  pks_records :: nat
  pks_key_order_entries :: nat
  pks_recent_entries :: nat
  pks_index_entries :: nat
  pks_partition_entries :: nat
  pks_order_entries :: nat

definition projection_kv_status_of :: "'n projection \<Rightarrow> projection_kv_status" where
  "projection_kv_status_of p =
     \<lparr>pks_records = bt_len (pj_records p), pks_key_order_entries = bt_len (pj_records p),
      pks_recent_entries = bt_len (pj_recent p), pks_index_entries = bt_len (pj_indexes p),
      pks_partition_entries = bt_len (pj_partitions p), pks_order_entries = bt_len (pj_orders p)\<rparr>"

section \<open>Schema orders\<close>

definition parse_record_order_term :: "string \<Rightarrow> store_error + order_term" where
  "parse_record_order_term term =
     (case (case strip_prefix term ''desc('' of
              None \<Rightarrow> None | Some value \<Rightarrow> strip_suffix value '')'') of
        Some field \<Rightarrow>
          if trim field = [] then Inl InvalidOrderTerm
          else Inr \<lparr>ot_field = field, ot_direction = OrderDesc\<rparr>
      | None \<Rightarrow>
          if trim term = [] then Inl InvalidOrderTerm
          else Inr \<lparr>ot_field = term, ot_direction = OrderAsc\<rparr>)"

definition parse_record_order_terms :: "string list \<Rightarrow> store_error + order_term list" where
  "parse_record_order_terms order = map_res parse_record_order_term order"

definition order_id :: "order_term list \<Rightarrow> string" where
  "order_id order =
     hex_lower (map byte_of (concat (map (\<lambda>term.
       (case ot_direction term of OrderAsc \<Rightarrow> ''asc:'' | OrderDesc \<Rightarrow> ''desc:'')
       @ ot_field term @ [char_of (10 :: nat)]) order)))"

definition invert_sort_component :: "string \<Rightarrow> string" where
  "invert_sort_component value = hex_lower (map (\<lambda>c. sat_sub 255 (byte_of c)) value)"

definition json_field :: "'n json \<Rightarrow> string \<Rightarrow> 'n json option" where
  "json_field v field = (case v of JObject kvs \<Rightarrow> map_of kvs field | _ \<Rightarrow> None)"

definition order_value_asc :: "('n, 'z) index_ops_scheme \<Rightarrow> 'n json option \<Rightarrow> string" where
  "order_value_asc ops value =
     (case value of
        Some (JNumber number) \<Rightarrow>
          (case as_u64 ops number of
             Some u \<Rightarrow> ''2u'' @ fixed_decimal 20 (unat u)
           | None \<Rightarrow>
               (case as_i64 ops number of
                  Some i \<Rightarrow> ''2i'' @ fixed_decimal 20 (nat (sint i + 2 ^ 63))
                | None \<Rightarrow>
                    (case as_f64 ops number of
                       Some f \<Rightarrow> ''2f'' @ f64_padded24 ops f
                     | None \<Rightarrow> ''0'')))
      | Some (JString s) \<Rightarrow> ''3s'' @ hex_lower (map byte_of s)
      | Some (JBool b) \<Rightarrow> ''1b'' @ (if b then ''1'' else ''0'')
      | Some JNull \<Rightarrow> ''0''
      | None \<Rightarrow> ''0''
      | Some v \<Rightarrow> ''4j'' @ hex_lower (map byte_of (json_to_string ops v)))"

definition order_value_component ::
  "('n, 'z) index_ops_scheme \<Rightarrow> 'n json option \<Rightarrow> order_direction \<Rightarrow> string" where
  "order_value_component ops value direction =
     (case direction of
        OrderAsc \<Rightarrow> order_value_asc ops value
      | OrderDesc \<Rightarrow> invert_sort_component (order_value_asc ops value))"

fun join :: "'a list \<Rightarrow> 'a list list \<Rightarrow> 'a list" where
  "join sep [] = []"
| "join sep [p] = p"
| "join sep (p # ps) = p @ sep @ join sep ps"

definition order_record_file_stem ::
  "('n, 'z) index_ops_scheme \<Rightarrow> 'n db_record \<Rightarrow> order_term list \<Rightarrow> string" where
  "order_record_file_stem ops r order =
     join ''_'' (map (\<lambda>term.
       order_value_component ops (json_field (rec_value r) (ot_field term)) (ot_direction term)) order)"

definition order_record_cursor ::
  "('n, 'z) index_ops_scheme \<Rightarrow> 'n db_record \<Rightarrow> order_term list \<Rightarrow> string" where
  "order_record_cursor ops r order =
     order_record_file_stem ops r order @ ''__'' @ hex_lower (map byte_of (rec_key r))"

definition is_order_cursor_char :: "char \<Rightarrow> bool" where
  "is_order_cursor_char c \<longleftrightarrow>
     (let n = of_char c :: nat in
       n \<in> {0x30..0x39} \<or> n \<in> {0x41..0x5A} \<or> n \<in> {0x61..0x7A} \<or> n = 0x5F \<or> n = 0x2D)"

definition ensure_safe_order_cursor :: "string \<Rightarrow> bool" where
  "ensure_safe_order_cursor value \<longleftrightarrow> value \<noteq> [] \<and> (\<forall>c\<in>set value. is_order_cursor_char c)"

text \<open>
  A non-empty string of these characters has no separator, so it is one path component and the
  test of \<open>components().count()\<close> adds nothing.
\<close>

definition ensure_safe_record_component :: "string \<Rightarrow> bool" where
  "ensure_safe_record_component value \<longleftrightarrow>
     trim value \<noteq> [] \<and>
     (\<forall>c\<in>set value. let n = of_char c :: nat in
       n \<in> {0x30..0x39} \<or> n \<in> {0x41..0x5A} \<or> n \<in> {0x61..0x7A} \<or> c \<in> set ''-_:.'')"

section \<open>Writes of the record store\<close>

definition is_scalar :: "'n json \<Rightarrow> bool" where
  "is_scalar v \<longleftrightarrow> (case v of JArray _ \<Rightarrow> False | JObject _ \<Rightarrow> False | _ \<Rightarrow> True)"

definition record_index_values :: "'n db_record \<Rightarrow> index_schema \<Rightarrow> store_error + 'n json list" where
  "record_index_values r ix =
     map_res (\<lambda>field.
       case json_field (rec_value r) field of
         None \<Rightarrow> Inl (IndexedFieldMissing field)
       | Some v \<Rightarrow> if is_scalar v then Inr v else Inl (IndexedFieldNotScalar field)) (ixs_fields ix)"

fun put_index_entries ::
  "('n, 'z) index_ops_scheme \<Rightarrow> 'n db_record \<Rightarrow> (string \<times> index_schema) list \<Rightarrow> 'n projection \<Rightarrow>
     'n projection \<times> (store_error + unit)" where
  "put_index_entries ops r [] p = (p, Inr ())"
| "put_index_entries ops r ((index_name, ix) # ixs) p =
     (case res_bind (record_index_values r ix) (\<lambda>values.
             put_index_entry ops r index_name values (ixs_unique ix) p) of
        Inl e \<Rightarrow> (p, Inl e)
      | Inr p' \<Rightarrow> put_index_entries ops r ixs p')"

definition apply_prepared_projection_upsert ::
  "('n, 'z) index_ops_scheme \<Rightarrow> 'n db_record \<Rightarrow> (string, index_schema) btree \<Rightarrow>
     order_term list option \<Rightarrow> 'n projection \<Rightarrow> 'n projection \<times> (store_error + unit)" where
  "apply_prepared_projection_upsert ops r indexes order p =
     (let p1 = put_record r p;
          p2 = (case order of
                  None \<Rightarrow> p1
                | Some terms \<Rightarrow>
                    put_order_entry r (order_id terms) (order_record_cursor ops r terms) p1)
      in put_index_entries ops r (bt_entries indexes) p2)"

definition upsert_with_indexes ::
  "('n, 'z) index_ops_scheme \<Rightarrow> 'n db_record \<Rightarrow> (string, index_schema) btree \<Rightarrow>
     order_term list option \<Rightarrow> 'n projection \<Rightarrow> 'n projection \<times> (store_error + unit)" where
  "upsert_with_indexes ops r indexes order p =
     (case encode_projected_record ops r of
        Inl e \<Rightarrow> (p, Inl (StoreCodec e))
      | Inr _ \<Rightarrow>
          if projection_get p (rec_table r) (rec_key r) = None
          then apply_prepared_projection_upsert ops r indexes order p
          else
            let p1 = remove_order_entries (rec_table r) (rec_key r) p
            in case remove_index_entries ops (rec_table r) (rec_key r) p1 of
                 Inl e \<Rightarrow> (p1, Inl (StoreCodec e))
               | Inr p2 \<Rightarrow> apply_prepared_projection_upsert ops r indexes order p2)"

definition delete_from_projection ::
  "('n, 'z) index_ops_scheme \<Rightarrow> string \<Rightarrow> string \<Rightarrow> 'n projection \<Rightarrow>
     'n projection \<times> (store_error + bool)" where
  "delete_from_projection ops table key p =
     (let existed = projection_get p table key \<noteq> None;
          p1 = remove_order_entries table key (remove_record table key p)
      in case remove_index_entries ops table key p1 of
           Inl e \<Rightarrow> (p1, Inl (StoreCodec e))
         | Inr p2 \<Rightarrow> (p2, Inr existed))"

datatype 'n store_mutation =
    StoreUpsert "'n db_record" "(string, index_schema) btree" "order_term list option"
  | StoreDelete string string

fun apply_store_mutation ::
  "('n, 'z) index_ops_scheme \<Rightarrow> 'n store_mutation \<Rightarrow> 'n projection \<Rightarrow>
     'n projection \<times> (store_error + unit)" where
  "apply_store_mutation ops (StoreUpsert r indexes order) p = upsert_with_indexes ops r indexes order p"
| "apply_store_mutation ops (StoreDelete table key) p =
     (let (p', result) = delete_from_projection ops table key p
      in (p', res_bind result (\<lambda>_. Inr ())))"

fun apply_transaction ::
  "('n, 'z) index_ops_scheme \<Rightarrow> 'n store_mutation list \<Rightarrow> 'n projection \<Rightarrow>
     'n projection \<times> (store_error + unit)" where
  "apply_transaction ops [] p = (p, Inr ())"
| "apply_transaction ops (m # ms) p =
     (case apply_store_mutation ops m p of
        (p', Inl e) \<Rightarrow> (p', Inl e)
      | (p', Inr _) \<Rightarrow> apply_transaction ops ms p')"

text \<open>
  A rebuild fills an empty projection beside the current one and replaces it only when every
  row was written.
\<close>

definition rebuild_mutation ::
  "(string, (string, index_schema) btree) btree \<Rightarrow> (string, order_term list) btree \<Rightarrow>
     'n db_record \<Rightarrow> 'n store_mutation" where
  "rebuild_mutation indexes_by_table orders_by_table r =
     StoreUpsert r (bt_get_or indexes_by_table (rec_table r) bt_empty)
       (bt_get orders_by_table (rec_table r))"

definition build_projection ::
  "('n, 'z) index_ops_scheme \<Rightarrow> 'n db_record list \<Rightarrow>
     (string, (string, index_schema) btree) btree \<Rightarrow> (string, order_term list) btree \<Rightarrow>
     store_error + 'n projection" where
  "build_projection ops records indexes_by_table orders_by_table =
     (case apply_transaction ops (map (rebuild_mutation indexes_by_table orders_by_table) records)
             empty_projection of
        (p, Inl e) \<Rightarrow> Inl e
      | (p, Inr _) \<Rightarrow> Inr p)"

definition force_rebuild_from_records_with_indexes ::
  "('n, 'z) index_ops_scheme \<Rightarrow> 'n db_record list \<Rightarrow>
     (string, (string, index_schema) btree) btree \<Rightarrow> (string, order_term list) btree \<Rightarrow>
     'n projection \<Rightarrow> 'n projection \<times> (store_error + nat)" where
  "force_rebuild_from_records_with_indexes ops records indexes_by_table orders_by_table p =
     (case build_projection ops records indexes_by_table orders_by_table of
        Inl e \<Rightarrow> (p, Inl e)
      | Inr p' \<Rightarrow> (p', Inr (length records)))"

definition validate_rebuild_from_records_with_indexes ::
  "('n, 'z) index_ops_scheme \<Rightarrow> 'n db_record list \<Rightarrow>
     (string, (string, index_schema) btree) btree \<Rightarrow> (string, order_term list) btree \<Rightarrow>
     store_error + nat" where
  "validate_rebuild_from_records_with_indexes ops records indexes_by_table orders_by_table =
     res_bind (build_projection ops records indexes_by_table orders_by_table) (\<lambda>_.
       Inr (length records))"

section \<open>Reads of the record store\<close>

definition list_by_key_prefix_ordered ::
  "'n projection \<Rightarrow> string \<Rightarrow> string \<Rightarrow> order_term list \<Rightarrow> string option \<Rightarrow> string option \<Rightarrow> nat option \<Rightarrow>
     store_error + ('n db_record \<times> string) list" where
  "list_by_key_prefix_ordered p table key_prefix order after_key after_cursor limit =
     (case partition_parent_from_prefix key_prefix of
        None \<Rightarrow> Inl OrderedListNeedsPartition
      | Some parent_key \<Rightarrow>
          if (case after_cursor of None \<Rightarrow> False | Some c \<Rightarrow> \<not> ensure_safe_order_cursor c)
          then Inl InvalidOrderedCursor
          else Inr (projection_list_ordered_partition p table parent_key (order_id order)
                      (map_option (\<lambda>key. if starts_with key key_prefix then key else key_prefix @ key)
                         after_key)
                      after_cursor limit))"

definition store_query_index_range ::
  "('n, 'z) index_ops_scheme \<Rightarrow> 'n projection \<Rightarrow> string \<Rightarrow> string \<Rightarrow> 'n json list option \<Rightarrow>
     'n json list option \<Rightarrow> string option \<Rightarrow> string option \<Rightarrow> nat option \<Rightarrow>
     store_error + ('n db_record \<times> string) list" where
  "store_query_index_range ops p table index_name lower upper key_prefix after_cursor limit =
     res_bind (case after_cursor of
                 None \<Rightarrow> Inr None
               | Some cursor \<Rightarrow> res_bind (parse_index_range_cursor ops cursor) (\<lambda>c. Inr (Some c))) (\<lambda>after.
     res_bind (map_err StoreCodec (query_index_range ops p table index_name
         \<lparr>irq_lower = lower, irq_upper = upper, irq_key_prefix = key_prefix,
          irq_after_cursor = after, irq_limit = limit\<rparr>)) (\<lambda>entries.
     map_err StoreCodec (map_res (\<lambda>(values, r).
       res_bind (index_range_cursor ops values (rec_key r)) (\<lambda>cursor. Inr (r, cursor))) entries)))"

section \<open>The writes implement the table of rows\<close>

fun table_apply :: "'n store_mutation \<Rightarrow> 'n row_table \<Rightarrow> 'n row_table" where
  "table_apply (StoreUpsert r _ _) T = bt_insert (rec_table r, rec_key r) r T"
| "table_apply (StoreDelete table key) T = bt_remove (table, key) T"

fun plain_mutation :: "'n store_mutation \<Rightarrow> bool" where
  "plain_mutation (StoreUpsert r _ _) \<longleftrightarrow> plain_row r"
| "plain_mutation (StoreDelete table key) \<longleftrightarrow> plain table \<and> plain key"

text \<open>Index writes touch no other keyspace.\<close>

definition same_rows :: "'n projection \<Rightarrow> 'n projection \<Rightarrow> bool" where
  "same_rows p q \<longleftrightarrow>
     pj_records q = pj_records p \<and> pj_partitions q = pj_partitions p
   \<and> pj_recent q = pj_recent p \<and> pj_recent_refs q = pj_recent_refs p"

lemma same_rows_refl [simp]: "same_rows p p"
  by (simp add: same_rows_def)

lemma same_rows_trans: "same_rows p q \<Longrightarrow> same_rows q q' \<Longrightarrow> same_rows p q'"
  by (simp add: same_rows_def)

lemma same_rows_implements: "same_rows p q \<Longrightarrow> implements p T \<Longrightarrow> implements q T"
  unfolding same_rows_def by (elim conjE) (simp only: implements_cong [of q p])

lemma put_index_entry_rows: "put_index_entry ops r name values u p = Inr q \<Longrightarrow> same_rows p q"
  by (auto simp: put_index_entry_def same_rows_def)

lemma fold_removals_rows:
  "same_rows p (fold (\<lambda>(a, b) p. p\<lparr>pj_index_refs := bt_remove a (pj_index_refs p),
      pj_indexes := bt_remove b (pj_indexes p)\<rparr>) es p)"
proof (induction es arbitrary: p)
  case (Cons e es)
  have "same_rows p (p\<lparr>pj_index_refs := bt_remove (fst e) (pj_index_refs p),
      pj_indexes := bt_remove (snd e) (pj_indexes p)\<rparr>)" by (simp add: same_rows_def)
  from same_rows_trans [OF this Cons.IH] show ?case by (simp add: case_prod_beta)
qed simp

lemma remove_index_entries_rows: "remove_index_entries ops table key p = Inr q \<Longrightarrow> same_rows p q"
  by (auto simp: remove_index_entries_def fold_removals_rows split: if_splits)

lemma put_index_entries_rows: "put_index_entries ops r ixs p = (q, res) \<Longrightarrow> same_rows p q"
proof (induction ops r ixs p rule: put_index_entries.induct)
  case (2 ops r name ix ixs p)
  show ?case
  proof (cases "res_bind (record_index_values r ix) (\<lambda>values.
      put_index_entry ops r name values (ixs_unique ix) p)")
    case (Inr p')
    then have "same_rows p p'" by (auto dest: put_index_entry_rows)
    moreover have "same_rows p' q" using 2 Inr by simp
    ultimately show ?thesis by (rule same_rows_trans)
  qed (use 2 in simp)
qed simp

lemma order_entry_rows: "same_rows p (put_order_entry r oid c p)" "same_rows p (remove_order_entries t k p)"
  by (simp_all add: same_rows_def)

lemma prepared_upsert_implements:
  assumes "implements p T" "plain_row r"
    and "apply_prepared_projection_upsert ops r indexes order p = (q, res)"
  shows "implements q (bt_insert (rec_table r, rec_key r) r T)"
proof -
  let ?p1 = "put_record r p"
  let ?p2 = "case order of None \<Rightarrow> ?p1
    | Some terms \<Rightarrow> put_order_entry r (order_id terms) (order_record_cursor ops r terms) ?p1"
  have "same_rows ?p1 ?p2" by (simp add: order_entry_rows split: option.split)
  moreover have "same_rows ?p2 q"
    using assms(3) by (auto simp: apply_prepared_projection_upsert_def Let_def dest: put_index_entries_rows)
  ultimately have "same_rows ?p1 q" by (rule same_rows_trans)
  then show ?thesis by (rule same_rows_implements) (rule implements_put [OF assms(1,2)])
qed

lemma upsert_implements:
  assumes "implements p T" "plain_row r" "upsert_with_indexes ops r indexes order p = (q, Inr u)"
  shows "implements q (bt_insert (rec_table r, rec_key r) r T)"
proof (cases "projection_get p (rec_table r) (rec_key r) = None")
  case True
  then show ?thesis
    using assms(3) prepared_upsert_implements [OF assms(1,2)]
    by (auto simp: upsert_with_indexes_def split: sum.splits)
next
  case False
  let ?p1 = "remove_order_entries (rec_table r) (rec_key r) p"
  from False assms(3) obtain p2 where p2: "remove_index_entries ops (rec_table r) (rec_key r) ?p1 = Inr p2"
    "apply_prepared_projection_upsert ops r indexes order p2 = (q, Inr u)"
    by (auto simp: upsert_with_indexes_def Let_def split: sum.splits)
  have "same_rows p p2"
    by (rule same_rows_trans [OF order_entry_rows(2) remove_index_entries_rows [OF p2(1)]])
  then have "implements p2 T" using assms(1) by (rule same_rows_implements)
  from prepared_upsert_implements [OF this assms(2) p2(2)] show ?thesis .
qed

lemma delete_implements:
  assumes "implements p T" "plain table" "plain key" "delete_from_projection ops table key p = (q, res)"
  shows "implements q (bt_remove (table, key) T)"
proof -
  let ?p1 = "remove_order_entries table key (remove_record table key p)"
  have "implements ?p1 (bt_remove (table, key) T)"
    by (rule same_rows_implements [OF order_entry_rows(2) implements_remove [OF assms(1-3)]])
  moreover have "same_rows ?p1 q"
    using assms(4) remove_index_entries_rows
    by (auto simp: delete_from_projection_def Let_def split: sum.splits)
  ultimately show ?thesis using same_rows_implements by blast
qed

lemma mutation_implements:
  assumes "implements p T" "plain_mutation m" "apply_store_mutation ops m p = (q, Inr u)"
  shows "implements q (table_apply m T)"
  using assms
  by (cases m) (auto intro: upsert_implements delete_implements split: prod.splits)

lemma transaction_implements:
  assumes "implements p T" "\<forall>m\<in>set ms. plain_mutation m" "apply_transaction ops ms p = (q, Inr u)"
  shows "implements q (fold table_apply ms T)"
  using assms
proof (induction ms arbitrary: p T)
  case (Cons m ms)
  obtain p1 u1 where "apply_store_mutation ops m p = (p1, Inr u1)" "apply_transaction ops ms p1 = (q, Inr u)"
    using Cons.prems(3) by (auto split: prod.splits sum.splits)
  with mutation_implements Cons show ?case by fastforce
qed simp

text \<open>
  C3. The record projection implements a table of rows. After any history of upserts and
  deletions that report success, over any tables, schemas and orders, a point read returns the
  row written last, a list is the page of the table's rows in the order of their keys below
  the asked prefix and after the given key, a listing of the newest rows is the page of the
  table's rows by descending LSN.
  Tables and keys contain no NUL byte, which the server's identifier check guarantees.
\<close>

theorem projection_refines_table:
  assumes "apply_transaction ops history empty_projection = (p, Inr u)"
    and "\<forall>m\<in>set history. plain_mutation m" and "plain table"
  shows "(\<forall>key. projection_get p table key = bt_get (fold table_apply history bt_empty) (table, key))
    \<and> projection_list_by_key_prefix p table key_prefix after_key limit =
       take (normalize_limit limit)
         (filter (\<lambda>r. starts_with (rec_key r) key_prefix \<and> \<not> at_or_before after_key (rec_key r))
           (table_rows (fold table_apply history bt_empty) table))
    \<and> projection_list_recent p table limit =
       take (normalize_limit limit)
         (sort_key recency (table_rows (fold table_apply history bt_empty) table))"
proof -
  have imp: "implements p (fold table_apply history bt_empty)"
    by (rule transaction_implements [OF implements_empty assms(2,1)])
  show ?thesis
    by (intro conjI allI implements_get [OF imp assms(3)] projection_list_page [OF imp assms(3)]
        recent_page [OF imp assms(3)])
qed

section \<open>What the index keyspaces hold\<close>

text \<open>
  The entries are described by the set of their rows, index names and encoded values.
\<close>

type_synonym 'n index_tag = "'n db_record \<times> string \<times> string"

definition entry_key :: "string \<Rightarrow> string \<Rightarrow> string \<Rightarrow> string \<Rightarrow> string" where
  "entry_key table name enc key = index_table_prefix table name @ enc @ nul # key"

definition reference_key :: "string \<Rightarrow> string \<Rightarrow> string \<Rightarrow> string \<Rightarrow> string" where
  "reference_key table key name enc = index_ref_prefix table key @ name @ nul # enc"

definition holds_tags :: "'n index_tag set \<Rightarrow> 'n projection \<Rightarrow> bool" where
  "holds_tags S p \<longleftrightarrow>
     (\<forall>k r. bt_get (pj_indexes p) k = Some r \<longleftrightarrow>
        (\<exists>name enc. (r, name, enc) \<in> S \<and> k = entry_key (rec_table r) name enc (rec_key r)))
   \<and> (\<forall>k. k \<in> bs_elems (pj_index_refs p) \<longleftrightarrow>
        (\<exists>r name enc. (r, name, enc) \<in> S \<and> k = reference_key (rec_table r) (rec_key r) name enc))"

definition tag_ok :: "('n, 'z) index_ops_scheme \<Rightarrow> 'n index_tag \<Rightarrow> bool" where
  "tag_ok ops = (\<lambda>(r, name, enc).
     plain_row r \<and> plain name \<and> plain enc
   \<and> (\<exists>values. decode_index_values_component ops enc = Inr values
        \<and> encode_index_values_component ops values = Inr enc))"

definition tags_ok :: "('n, 'z) index_ops_scheme \<Rightarrow> 'n index_tag set \<Rightarrow> bool" where
  "tags_ok ops S \<longleftrightarrow>
     (\<forall>tag\<in>S. tag_ok ops tag)
   \<and> (\<forall>r name enc r' name' enc'. (r, name, enc) \<in> S \<longrightarrow> (r', name', enc') \<in> S \<longrightarrow>
        rec_table r = rec_table r' \<longrightarrow> rec_key r = rec_key r' \<longrightarrow> r = r')"

lemma entry_key_inject:
  assumes "plain t" "plain t'" "plain n" "plain n'" "plain e" "plain e'"
  shows "entry_key t n e k = entry_key t' n' e' k' \<longleftrightarrow> t = t' \<and> n = n' \<and> e = e' \<and> k = k'"
proof -
  have "entry_key t n e k = record_key t (record_key n (record_key e k))" for t n e k
    by (simp add: entry_key_def index_table_prefix_def record_key_def)
  then show ?thesis using assms by (auto simp: record_key_inject)
qed

lemma reference_key_inject:
  assumes "plain t" "plain t'" "plain n" "plain n'" "plain k" "plain k'"
  shows "reference_key t k n e = reference_key t' k' n' e' \<longleftrightarrow> t = t' \<and> n = n' \<and> e = e' \<and> k = k'"
proof -
  have "reference_key t k n e = record_key t (record_key k (record_key n e))" for t n e k
    by (simp add: reference_key_def index_ref_prefix_def record_key_def)
  then show ?thesis using assms by (auto simp: record_key_inject)
qed

lemma holds_entry: "holds_tags S p \<Longrightarrow> bt_get (pj_indexes p) k = Some r \<longleftrightarrow>
    (\<exists>name enc. (r, name, enc) \<in> S \<and> k = entry_key (rec_table r) name enc (rec_key r))"
  unfolding holds_tags_def by (elim conjE) (erule allE)+

lemma holds_ref: "holds_tags S p \<Longrightarrow> k \<in> bs_elems (pj_index_refs p) \<longleftrightarrow>
    (\<exists>r name enc. (r, name, enc) \<in> S \<and> k = reference_key (rec_table r) (rec_key r) name enc)"
  unfolding holds_tags_def by (elim conjE) (erule allE)+

lemma holds_tags_cong:
  "pj_indexes q = pj_indexes p \<Longrightarrow> pj_index_refs q = pj_index_refs p \<Longrightarrow> holds_tags S q \<longleftrightarrow> holds_tags S p"
  by (simp add: holds_tags_def)

lemma holds_tags_empty [simp]: "holds_tags {} empty_projection"
  by (simp add: holds_tags_def empty_projection_def)

lemma tags_okD:
  assumes "tags_ok ops S" "(r, name, enc) \<in> S"
  shows "plain (rec_table r)" "plain (rec_key r)" "plain name" "plain enc"
    "\<exists>values. decode_index_values_component ops enc = Inr values
       \<and> encode_index_values_component ops values = Inr enc"
  using assms by (auto simp: tags_ok_def tag_ok_def plain_row_def)

lemma tags_ok_row:
  "tags_ok ops S \<Longrightarrow> (r, name, enc) \<in> S \<Longrightarrow> (r', name', enc') \<in> S \<Longrightarrow>
     rec_table r = rec_table r' \<Longrightarrow> rec_key r = rec_key r' \<Longrightarrow> r = r'"
  unfolding tags_ok_def by blast

lemma tags_ok_mono: "tags_ok ops S \<Longrightarrow> S' \<subseteq> S \<Longrightarrow> tags_ok ops S'"
  unfolding tags_ok_def by blast

lemma put_index_entry_result:
  assumes "put_index_entry ops r name values u p = Inr q"
  obtains enc where "encode_index_values_component ops values = Inr enc"
    and "q = p\<lparr>pj_indexes := bt_insert (entry_key (rec_table r) name enc (rec_key r)) r (pj_indexes p),
               pj_index_refs := bs_insert (reference_key (rec_table r) (rec_key r) name enc) (pj_index_refs p)\<rparr>"
    and "u \<longrightarrow> (\<forall>e\<in>set (map snd (prefix_entries (pj_indexes p) (entry_key (rec_table r) name enc []))).
           rec_key e = rec_key r)"
proof -
  from assms obtain enc where enc: "encode_index_values_component ops values = Inr enc"
    by (auto simp: put_index_entry_def index_key_def index_prefix_def)
  have pre: "index_prefix ops (rec_table r) name values = Inr (entry_key (rec_table r) name enc [])"
    by (simp add: index_prefix_def enc entry_key_def)
  show thesis
  proof (rule that [OF enc])
    show "q = p\<lparr>pj_indexes := bt_insert (entry_key (rec_table r) name enc (rec_key r)) r (pj_indexes p),
        pj_index_refs := bs_insert (reference_key (rec_table r) (rec_key r) name enc) (pj_index_refs p)\<rparr>"
      using assms
      by (simp add: put_index_entry_def index_key_def index_ref_key_def pre enc) 
        (auto simp: entry_key_def reference_key_def)
    show "u \<longrightarrow> (\<forall>e\<in>set (map snd (prefix_entries (pj_indexes p) (entry_key (rec_table r) name enc []))).
        rec_key e = rec_key r)"
      using assms by (auto simp: put_index_entry_def pre split: if_splits)
  qed
qed

lemma put_index_entry_holds:
  assumes "holds_tags S p" "tags_ok ops (insert (r, name, enc) S)"
  shows "holds_tags (insert (r, name, enc) S)
    (p\<lparr>pj_indexes := bt_insert (entry_key (rec_table r) name enc (rec_key r)) r (pj_indexes p),
       pj_index_refs := bs_insert (reference_key (rec_table r) (rec_key r) name enc) (pj_index_refs p)\<rparr>)"
proof -
  have clash: "x = r" if "(x, n, e) \<in> S"
    "entry_key (rec_table r) name enc (rec_key r) = entry_key (rec_table x) n e (rec_key x)" for x n e
  proof -
    have mem: "(x, n, e) \<in> insert (r, name, enc) S" "(r, name, enc) \<in> insert (r, name, enc) S"
      using that(1) by auto
    have "rec_table x = rec_table r" "rec_key x = rec_key r"
      using that(2) tags_okD [OF assms(2) mem(1)] tags_okD [OF assms(2) mem(2)]
      by (simp_all add: entry_key_inject)
    then show ?thesis by (rule tags_ok_row [OF assms(2) mem])
  qed
  show ?thesis
    unfolding holds_tags_def
  proof (intro conjI allI)
    fix k x
    show "bt_get (pj_indexes (p\<lparr>pj_indexes := bt_insert (entry_key (rec_table r) name enc (rec_key r)) r (pj_indexes p),
        pj_index_refs := bs_insert (reference_key (rec_table r) (rec_key r) name enc) (pj_index_refs p)\<rparr>)) k = Some x \<longleftrightarrow>
      (\<exists>n e. (x, n, e) \<in> insert (r, name, enc) S \<and> k = entry_key (rec_table x) n e (rec_key x))"
      using clash holds_entry [OF assms(1), of k x] by auto
  next
    fix k
    show "k \<in> bs_elems (pj_index_refs (p\<lparr>pj_indexes := bt_insert (entry_key (rec_table r) name enc (rec_key r)) r (pj_indexes p),
        pj_index_refs := bs_insert (reference_key (rec_table r) (rec_key r) name enc) (pj_index_refs p)\<rparr>)) \<longleftrightarrow>
      (\<exists>x n e. (x, n, e) \<in> insert (r, name, enc) S \<and> k = reference_key (rec_table x) (rec_key x) n e)"
      using holds_ref [OF assms(1), of k] by auto
  qed
qed

lemma split_nul_plain: "plain s \<Longrightarrow> split_nul s = [s]"
  by (induction s) (auto simp: plain_def)

lemma split_nul_Cons: "split_nul s \<noteq> []"
  by (induction s) (simp_all split: list.split)

lemma split_nul_append: "plain a \<Longrightarrow> split_nul (a @ nul # s) = a # split_nul s"
proof (induction a)
  case Nil
  then show ?case using split_nul_Cons [of s] by (cases "split_nul s") simp_all
next
  case (Cons c a)
  then have "split_nul (a @ nul # s) = a # split_nul s" "c \<noteq> nul" by (auto simp: plain_def)
  then show ?case by simp
qed

lemma parse_reference_key:
  assumes "plain t" "plain k" "plain name" "plain enc"
  shows "parse_index_ref_key ops (reference_key t k name enc) =
    res_bind (decode_index_values_component ops enc) (\<lambda>values. Inr (Some (name, values)))"
proof -
  have "split_nul (reference_key t k name enc) = [t, k, name, enc]"
    using assms by (simp add: reference_key_def index_ref_prefix_def split_nul_append split_nul_plain)
  then show ?thesis by (simp add: parse_index_ref_key_def)
qed

lemma reference_key_prefix:
  assumes "plain t" "plain k" "plain t'" "plain k'"
  shows "starts_with (reference_key t k name enc) (index_ref_prefix t' k') \<longleftrightarrow> t = t' \<and> k = k'"
proof -
  have "reference_key t k name enc = record_key t (record_key k (name @ nul # enc))"
    and "index_ref_prefix t' k' = record_prefix t' (record_prefix k' [])"
    by (simp_all add: reference_key_def index_ref_prefix_def record_key_def record_prefix_def)
  with assms show ?thesis by (simp add: record_key_prefix)
qed

text \<open>The removals computed for a row are its reference keys with their entries.\<close>

lemma index_removals_of:
  assumes "\<And>reference. reference \<in> set refs \<Longrightarrow> \<exists>name enc values. reference = reference_key t k name enc
      \<and> plain name \<and> plain enc
      \<and> decode_index_values_component ops enc = Inr values
      \<and> encode_index_values_component ops values = Inr enc"
    and "plain t" "plain k"
  shows "\<exists>removals. index_removals ops t k refs = Inr removals
    \<and> map fst removals = refs
    \<and> (\<forall>(reference, ik)\<in>set removals. \<exists>name enc. plain name \<and> plain enc
         \<and> reference = reference_key t k name enc \<and> ik = entry_key t name enc k)"
  using assms(1)
proof (induction refs)
  case (Cons reference refs)
  obtain name enc vals where r: "reference = reference_key t k name enc" "plain name" "plain enc"
    "decode_index_values_component ops enc = Inr vals"
    "encode_index_values_component ops vals = Inr enc"
    using Cons.prems [of reference] by auto
  obtain removals where "index_removals ops t k refs = Inr removals" "map fst removals = refs"
    "\<forall>(reference, ik)\<in>set removals. \<exists>name enc. plain name \<and> plain enc
       \<and> reference = reference_key t k name enc \<and> ik = entry_key t name enc k"
    using Cons.IH Cons.prems by auto
  then show ?case
    using r assms(2,3)
    by (auto simp: parse_reference_key index_key_def index_prefix_def entry_key_def)
qed simp

lemma fold_removals_get:
  "bt_get (pj_indexes (fold (\<lambda>(a, b) p. p\<lparr>pj_index_refs := bt_remove a (pj_index_refs p),
      pj_indexes := bt_remove b (pj_indexes p)\<rparr>) es p)) k =
     (if k \<in> snd ` set es then None else bt_get (pj_indexes p) k)"
  "bs_elems (pj_index_refs (fold (\<lambda>(a, b) p. p\<lparr>pj_index_refs := bt_remove a (pj_index_refs p),
      pj_indexes := bt_remove b (pj_indexes p)\<rparr>) es p)) =
     bs_elems (pj_index_refs p) - fst ` set es"
proof (induction es arbitrary: p)
  case (Cons e es)
  { case 1
    show ?case using Cons.IH(1) by (cases e) auto
  next
    case 2
    show ?case using Cons.IH(2) by (cases e) auto }
qed simp_all

definition tags_without :: "string \<Rightarrow> string \<Rightarrow> 'n index_tag set \<Rightarrow> 'n index_tag set" where
  "tags_without table key S = {(r, name, enc) \<in> S. \<not> (rec_table r = table \<and> rec_key r = key)}"

lemma remove_index_entries_holds:
  assumes holds: "holds_tags S p" and ok: "tags_ok ops S" and plain: "plain table" "plain key"
  shows "\<exists>q. remove_index_entries ops table key p = Inr q \<and> holds_tags (tags_without table key S) q"
proof -
  define refs where "refs = map fst (prefix_entries (pj_index_refs p) (index_ref_prefix table key))"
  have refs: "k \<in> set refs \<longleftrightarrow>
      (\<exists>r name enc. (r, name, enc) \<in> S \<and> rec_table r = table \<and> rec_key r = key
         \<and> k = reference_key table key name enc)" for k
  proof -
    have "k \<in> set refs \<longleftrightarrow>
        (\<exists>u. (k, u) \<in> set (prefix_entries (pj_index_refs p) (index_ref_prefix table key)))"
      by (force simp: refs_def)
    then have "k \<in> set refs \<longleftrightarrow> k \<in> bs_elems (pj_index_refs p) \<and> starts_with k (index_ref_prefix table key)"
      by (auto simp: prefix_entries_iff bs_elems_def bt_contains_def)
    moreover have "starts_with (reference_key (rec_table r) (rec_key r) name enc) (index_ref_prefix table key)
        \<longleftrightarrow> rec_table r = table \<and> rec_key r = key" if "(r, name, enc) \<in> S" for r name enc
      using tags_okD [OF ok that] plain by (simp add: reference_key_prefix)
    ultimately show ?thesis unfolding holds_ref [OF holds] by blast
  qed
  have "\<exists>name enc values. k = reference_key table key name enc \<and> plain name \<and> plain enc
      \<and> decode_index_values_component ops enc = Inr values
      \<and> encode_index_values_component ops values = Inr enc" if "k \<in> set refs" for k
    using that tags_okD [OF ok] unfolding refs by metis
  from index_removals_of [of refs, OF this plain] obtain removals where
    removals: "index_removals ops table key refs = Inr removals" "map fst removals = refs"
    and all: "\<forall>(reference, ik)\<in>set removals. \<exists>name enc. plain name \<and> plain enc
      \<and> reference = reference_key table key name enc \<and> ik = entry_key table name enc key"
    by blast
  have forms: "\<exists>name enc. plain name \<and> plain enc
      \<and> reference = reference_key table key name enc \<and> ik = entry_key table name enc key"
    if "(reference, ik) \<in> set removals" for reference ik
    using bspec [OF all that] by simp
  define q where "q = fold (\<lambda>(a, b) p. p\<lparr>pj_index_refs := bt_remove a (pj_index_refs p),
      pj_indexes := bt_remove b (pj_indexes p)\<rparr>) removals p"
  have result: "remove_index_entries ops table key p = Inr q"
    using removals by (simp add: remove_index_entries_def refs_def q_def)
  have fst: "fst ` set removals = set refs" using removals(2) by (metis list.set_map)
  have removed: "entry_key (rec_table r) name enc (rec_key r) \<in> snd ` set removals \<longleftrightarrow>
      rec_table r = table \<and> rec_key r = key" if tag: "(r, name, enc) \<in> S" for r name enc
  proof
    assume "entry_key (rec_table r) name enc (rec_key r) \<in> snd ` set removals"
    then obtain reference where
      "(reference, entry_key (rec_table r) name enc (rec_key r)) \<in> set removals" by auto
    from forms [OF this] show "rec_table r = table \<and> rec_key r = key"
      using tags_okD [OF ok tag] plain by (auto simp: entry_key_inject)
  next
    assume at: "rec_table r = table \<and> rec_key r = key"
    with tag have "reference_key table key name enc \<in> set refs" unfolding refs by blast
    then obtain ik where ik: "(reference_key table key name enc, ik) \<in> set removals"
      unfolding fst [symmetric] by auto
    from forms [OF ik] have "ik = entry_key table name enc key"
      using tags_okD [OF ok tag] plain by (auto simp: reference_key_inject)
    with ik at show "entry_key (rec_table r) name enc (rec_key r) \<in> snd ` set removals" by force
  qed
  have without: "(r, name, enc) \<in> tags_without table key S \<longleftrightarrow>
      (r, name, enc) \<in> S \<and> \<not> (rec_table r = table \<and> rec_key r = key)" for r name enc
    by (simp add: tags_without_def)
  have "holds_tags (tags_without table key S) q"
    unfolding holds_tags_def
  proof (intro conjI allI)
    fix k r
    show "bt_get (pj_indexes q) k = Some r \<longleftrightarrow>
        (\<exists>name enc. (r, name, enc) \<in> tags_without table key S \<and> k = entry_key (rec_table r) name enc (rec_key r))"
    proof -
      have "bt_get (pj_indexes q) k = Some r \<longleftrightarrow>
          k \<notin> snd ` set removals \<and> bt_get (pj_indexes p) k = Some r"
        by (simp add: q_def fold_removals_get)
      then show ?thesis unfolding holds_entry [OF holds] without using removed by blast
    qed
  next
    fix k
    show "k \<in> bs_elems (pj_index_refs q) \<longleftrightarrow>
        (\<exists>r name enc. (r, name, enc) \<in> tags_without table key S
           \<and> k = reference_key (rec_table r) (rec_key r) name enc)"
    proof -
      have "reference_key (rec_table r) (rec_key r) name enc \<in> set refs \<longleftrightarrow>
          rec_table r = table \<and> rec_key r = key" if tag: "(r, name, enc) \<in> S" for r name enc
        using tag tags_okD [OF ok] plain unfolding refs by (auto simp: reference_key_inject)
      then show ?thesis
        unfolding q_def fold_removals_get fst without Diff_iff holds_ref [OF holds] by blast
    qed
  qed
  with result show ?thesis by blast
qed

section \<open>Index values as text and back\<close>

lemma plain_hex: "plain (hex_lower bs)"
proof -
  have "n < 16 \<Longrightarrow> hex_table ! n \<noteq> nul" for n
  proof -
    assume "n < 16"
    then have "hex_table ! n \<in> set hex_table" by (intro nth_mem) (simp add: hex_table_def)
    moreover have "nul \<notin> set hex_table" by (simp add: hex_table_def nul_def)
    ultimately show "hex_table ! n \<noteq> nul" by metis
  qed
  then show ?thesis
    using high_nibble_less low_nibble_less
    by (induction bs) (simp_all add: plain_def not_sym)
qed

interpretation index_values_codec:
  codec "encode_index_values_component ops" "decode_index_values_component ops"
    "\<lambda>vs. number_laws ops \<and> index_laws ops \<and> (\<forall>v\<in>set vs. json_wf v)
       \<and> (\<exists>enc. encode_index_values_component ops vs = Inr enc)" for ops
proof
  fix vs :: "'a json list"
  assume ok: "number_laws ops \<and> index_laws ops \<and> (\<forall>v\<in>set vs. json_wf v)
       \<and> (\<exists>enc. encode_index_values_component ops vs = Inr enc)"
  then have "\<forall>v\<in>set vs. number_laws ops \<and> json_wf v" by blast
  from json_codec.list_roundtrip [OF this] obtain bvs where
    bvs: "map_res (binary_from_json ops) vs = Inr bvs" "map_res (binary_into_json ops) bvs = Inr vs"
    by blast
  with ok obtain payload where payload: "index_values_to_postcard ops bvs = Some payload"
    by (auto simp: encode_index_values_component_def split: option.splits)
  have "case index_values_to_postcard ops bvs of
      None \<Rightarrow> True | Some bytes \<Rightarrow> index_values_from_postcard ops bytes = Some bvs"
    using ok unfolding index_laws_def by blast
  with payload have parsed: "index_values_from_postcard ops payload = Some bvs" by simp
  show "res_bind (encode_index_values_component ops vs) (decode_index_values_component ops) = Inr vs"
    using bvs payload parsed
    by (simp add: encode_index_values_component_def decode_index_values_component_def Let_def
        decode_hex_lower)
qed

text \<open>
  A range cursor decodes to the index values and the key it was made of, so a client that
  sends back the cursor of the last entry of a page resumes exactly after that entry.
\<close>

theorem index_range_cursor_roundtrip:
  assumes "number_laws ops" and "index_laws ops" and "\<forall>v\<in>set values. json_wf v"
    and "index_range_cursor ops values key = Inr cursor"
  shows "parse_index_range_cursor ops cursor = Inr (values, key)"
proof -
  have "\<forall>v\<in>set values. number_laws ops \<and> json_wf v" using assms by blast
  from json_codec.list_roundtrip [OF this] obtain bvs where
    bvs: "map_res (binary_from_json ops) values = Inr bvs" "map_res (binary_into_json ops) bvs = Inr values"
    by blast
  with assms(4) obtain payload where payload: "cursor_to_postcard ops (bvs, key) = Some payload"
    "cursor = hex_lower (index_range_cursor_magic @ payload)"
    by (auto simp: index_range_cursor_def split: option.splits)
  have "case cursor_to_postcard ops (bvs, key) of
      None \<Rightarrow> True | Some bytes \<Rightarrow> cursor_from_postcard ops bytes = Some (bvs, key)"
    using assms(2) unfolding index_laws_def by blast
  with payload(1) have parsed: "cursor_from_postcard ops payload = Some (bvs, key)" by simp
  show ?thesis
    using bvs parsed unfolding payload(2) by (simp add: parse_index_range_cursor_def decode_hex_lower)
qed

section \<open>The index of a schema\<close>

type_synonym table_indexes = "string \<Rightarrow> (string, index_schema) btree"

definition index_tags ::
  "('n, 'z) index_ops_scheme \<Rightarrow> (string \<times> index_schema) set \<Rightarrow> 'n db_record \<Rightarrow> 'n index_tag set" where
  "index_tags ops ixs r =
     {(r', name, enc). r' = r \<and> (\<exists>ix values. (name, ix) \<in> ixs
        \<and> record_index_values r ix = Inr values \<and> encode_index_values_component ops values = Inr enc)}"

definition all_tags ::
  "('n, 'z) index_ops_scheme \<Rightarrow> table_indexes \<Rightarrow> 'n row_table \<Rightarrow> 'n index_tag set" where
  "all_tags ops idx T =
     {(r, name, enc). bt_get T (rec_table r, rec_key r) = Some r
        \<and> (r, name, enc) \<in> index_tags ops (set (bt_entries (idx (rec_table r)))) r}"

definition indexed :: "('n, 'z) index_ops_scheme \<Rightarrow> (string \<times> index_schema) set \<Rightarrow> 'n db_record \<Rightarrow> bool" where
  "indexed ops ixs r \<longleftrightarrow>
     (\<forall>(name, ix)\<in>ixs. \<exists>values enc. record_index_values r ix = Inr values
        \<and> encode_index_values_component ops values = Inr enc)"

lemma put_index_entries_holds:
  assumes "put_index_entries ops r ixs p = (q, Inr u)" "holds_tags S p"
    and "tags_ok ops (S \<union> index_tags ops (set ixs) r)"
  shows "holds_tags (S \<union> index_tags ops (set ixs) r) q \<and> indexed ops (set ixs) r
    \<and> (\<forall>name ix values enc r'. (name, ix) \<in> set ixs \<longrightarrow> ixs_unique ix \<longrightarrow>
         record_index_values r ix = Inr values \<longrightarrow> encode_index_values_component ops values = Inr enc \<longrightarrow>
         (r', name, enc) \<in> S \<longrightarrow> rec_table r' = rec_table r \<longrightarrow> rec_key r' = rec_key r)"
  using assms
proof (induction ixs arbitrary: p S)
  case Nil
  have "index_tags ops (set []) r = {}" by (auto simp: index_tags_def)
  with Nil show ?case by (simp add: indexed_def)
next
  case (Cons e ixs)
  obtain name ix where e: "e = (name, ix)" by (cases e)
  from Cons.prems(1) obtain vals p1 where vals: "record_index_values r ix = Inr vals"
    and put: "put_index_entry ops r name vals (ixs_unique ix) p = Inr p1"
    and rest: "put_index_entries ops r ixs p1 = (q, Inr u)"
    by (auto simp: e split: sum.splits)
  from put obtain enc where enc: "encode_index_values_component ops vals = Inr enc"
    and p1: "p1 = p\<lparr>pj_indexes := bt_insert (entry_key (rec_table r) name enc (rec_key r)) r (pj_indexes p),
        pj_index_refs := bs_insert (reference_key (rec_table r) (rec_key r) name enc) (pj_index_refs p)\<rparr>"
    and unique: "ixs_unique ix \<longrightarrow>
      (\<forall>e\<in>set (map snd (prefix_entries (pj_indexes p) (entry_key (rec_table r) name enc []))). rec_key e = rec_key r)"
    by (rule put_index_entry_result) (rule that)
  have split: "insert (r, name, enc) S \<union> index_tags ops (set ixs) r = S \<union> index_tags ops (set (e # ixs)) r"
    using vals enc by (auto simp: index_tags_def e)
  have ok: "tags_ok ops (insert (r, name, enc) S \<union> index_tags ops (set ixs) r)"
    using Cons.prems(3) unfolding split .
  have "holds_tags (insert (r, name, enc) S) p1"
    unfolding p1 by (rule put_index_entry_holds [OF Cons.prems(2)]) (rule tags_ok_mono [OF ok], blast)
  from Cons.IH [OF rest this ok] have IH:
    "holds_tags (insert (r, name, enc) S \<union> index_tags ops (set ixs) r) q" "indexed ops (set ixs) r"
    "\<forall>n i vs c r'. (n, i) \<in> set ixs \<longrightarrow> ixs_unique i \<longrightarrow> record_index_values r i = Inr vs \<longrightarrow>
       encode_index_values_component ops vs = Inr c \<longrightarrow> (r', n, c) \<in> insert (r, name, enc) S \<longrightarrow>
       rec_table r' = rec_table r \<longrightarrow> rec_key r' = rec_key r"
    by blast+
  have this_key: "rec_key r' = rec_key r"
    if "ixs_unique ix" "(r', name, enc) \<in> S" "rec_table r' = rec_table r" for r'
  proof -
    have "(entry_key (rec_table r) name enc (rec_key r'), r') \<in>
        set (prefix_entries (pj_indexes p) (entry_key (rec_table r) name enc []))"
      using that holds_entry [OF Cons.prems(2), of "entry_key (rec_table r) name enc (rec_key r')" r']
      by (auto simp: prefix_entries_iff entry_key_def starts_with_prefix prefix_def)
    then have "r' \<in> set (map snd (prefix_entries (pj_indexes p) (entry_key (rec_table r) name enc [])))"
      by force
    with unique that(1) show ?thesis by blast
  qed
  show ?case
  proof (intro conjI)
    show "holds_tags (S \<union> index_tags ops (set (e # ixs)) r) q" using IH(1) unfolding split .
    show "indexed ops (set (e # ixs)) r" using IH(2) vals enc by (simp add: indexed_def e)
    show "\<forall>n i vs c r'. (n, i) \<in> set (e # ixs) \<longrightarrow> ixs_unique i \<longrightarrow> record_index_values r i = Inr vs \<longrightarrow>
       encode_index_values_component ops vs = Inr c \<longrightarrow> (r', n, c) \<in> S \<longrightarrow>
       rec_table r' = rec_table r \<longrightarrow> rec_key r' = rec_key r"
      using IH(3) this_key vals enc by (auto simp: e)
  qed
qed

definition schema_plain :: "table_indexes \<Rightarrow> bool" where
  "schema_plain idx \<longleftrightarrow> (\<forall>table name. bt_get (idx table) name \<noteq> None \<longrightarrow> plain name)"

definition unique_rows :: "table_indexes \<Rightarrow> 'n row_table \<Rightarrow> bool" where
  "unique_rows idx T \<longleftrightarrow>
     (\<forall>t k k' r r' name ix vs. bt_get T (t, k) = Some r \<longrightarrow> bt_get T (t, k') = Some r' \<longrightarrow>
        bt_get (idx t) name = Some ix \<longrightarrow> ixs_unique ix \<longrightarrow>
        record_index_values r ix = Inr vs \<longrightarrow> record_index_values r' ix = Inr vs \<longrightarrow> k = k')"

definition index_inv ::
  "('n, 'z) index_ops_scheme \<Rightarrow> table_indexes \<Rightarrow> 'n projection \<Rightarrow> 'n row_table \<Rightarrow> bool" where
  "index_inv ops idx p T \<longleftrightarrow>
     implements p T \<and> holds_tags (all_tags ops idx T) p
   \<and> (\<forall>t k r. bt_get T (t, k) = Some r \<longrightarrow>
        json_wf (rec_value r) \<and> indexed ops (set (bt_entries (idx t))) r)
   \<and> unique_rows idx T"

text \<open>Every upsert brings the indexes the schema declares for its table.\<close>

fun follows :: "table_indexes \<Rightarrow> 'n store_mutation \<Rightarrow> bool" where
  "follows idx (StoreUpsert r indexes order) \<longleftrightarrow>
     plain_row r \<and> json_wf (rec_value r) \<and> indexes = idx (rec_table r)"
| "follows idx (StoreDelete table key) \<longleftrightarrow> plain table \<and> plain key"

lemma json_field_wf: "json_wf v \<Longrightarrow> json_field v field = Some w \<Longrightarrow> json_wf w"
  by (cases v) (auto simp: json_field_def dest!: map_of_SomeD bspec)

lemma record_index_values_wf:
  assumes "record_index_values r ix = Inr vs" "json_wf (rec_value r)"
  shows "\<forall>v\<in>set vs. json_wf v"
proof -
  have "list_all2 (\<lambda>field v. json_wf v) (ixs_fields ix) vs"
    using assms(1) unfolding record_index_values_def map_res_Inr_iff
    by (rule list_all2_mono) (auto split: option.splits if_splits intro: json_field_wf [OF assms(2)])
  then show ?thesis by (auto simp: list_all2_conv_all_nth in_set_conv_nth)
qed

lemma index_tag_ok:
  assumes laws: "number_laws ops" "index_laws ops" and row: "plain_row r" "json_wf (rec_value r)"
    and "schema_plain idx" and tag: "(r', name, enc) \<in> index_tags ops (set (bt_entries (idx t))) r"
  shows "tag_ok ops (r', name, enc)"
proof -
  obtain ix vs where e: "r' = r" "bt_get (idx t) name = Some ix" "record_index_values r ix = Inr vs"
    "encode_index_values_component ops vs = Inr enc"
    using tag by (auto simp: index_tags_def in_entries)
  have "decode_index_values_component ops enc = Inr vs"
    using index_values_codec.dec_enc [of ops vs] laws record_index_values_wf [OF e(3) row(2)] e(4) by simp
  moreover have "plain name" using assms(5) e(2) unfolding schema_plain_def by (metis option.distinct(1))
  moreover have "plain enc"
    using e(4) by (auto simp: encode_index_values_component_def plain_hex split: option.splits)
  ultimately show ?thesis using e row by (auto simp: tag_ok_def)
qed

lemma all_tags_ok:
  assumes "number_laws ops" "index_laws ops" "schema_plain idx" "implements p T"
    and "\<And>t k r. bt_get T (t, k) = Some r \<Longrightarrow> json_wf (rec_value r)"
  shows "tags_ok ops (all_tags ops idx T)"
proof -
  have "tag_ok ops (r, name, enc)" if "(r, name, enc) \<in> all_tags ops idx T" for r name enc
  proof -
    have row: "bt_get T (rec_table r, rec_key r) = Some r"
      and tag: "(r, name, enc) \<in> index_tags ops (set (bt_entries (idx (rec_table r)))) r"
      using that by (simp_all add: all_tags_def)
    have "plain_row r" using implements_row [OF assms(4) row] by (simp add: plain_row_def)
    then show ?thesis by (rule index_tag_ok [OF assms(1,2) _ assms(5) [OF row] assms(3) tag])
  qed
  moreover have "r = r'" if "(r, name, enc) \<in> all_tags ops idx T" "(r', name', enc') \<in> all_tags ops idx T"
    "rec_table r = rec_table r'" "rec_key r = rec_key r'" for r name enc r' name' enc'
    using that by (simp add: all_tags_def)
  ultimately show ?thesis
    unfolding tags_ok_def by (intro conjI ballI allI impI) (metis prod_cases3, blast)
qed

lemma in_all_tags: "(r, name, enc) \<in> all_tags ops idx T \<longleftrightarrow>
    bt_get T (rec_table r, rec_key r) = Some r
    \<and> (\<exists>ix vs. bt_get (idx (rec_table r)) name = Some ix \<and> record_index_values r ix = Inr vs
         \<and> encode_index_values_component ops vs = Inr enc)"
  by (simp add: all_tags_def index_tags_def in_entries)

lemma in_tags_without: "(r, name, enc) \<in> tags_without table key S \<longleftrightarrow>
    (r, name, enc) \<in> S \<and> \<not> (rec_table r = table \<and> rec_key r = key)"
  by (simp add: tags_without_def)

lemma in_index_tags: "(r', name, enc) \<in> index_tags ops (set (bt_entries ixs)) r \<longleftrightarrow>
    r' = r \<and> (\<exists>ix vs. bt_get ixs name = Some ix \<and> record_index_values r ix = Inr vs
         \<and> encode_index_values_component ops vs = Inr enc)"
  by (simp add: index_tags_def in_entries)

lemma all_tags_insert:
  "all_tags ops idx (bt_insert (rec_table r, rec_key r) r T) =
     tags_without (rec_table r) (rec_key r) (all_tags ops idx T)
     \<union> index_tags ops (set (bt_entries (idx (rec_table r)))) r"
proof (intro set_eqI)
  fix tag :: "'a index_tag"
  obtain x name enc where tag: "tag = (x, name, enc)" by (cases tag)
  show "tag \<in> all_tags ops idx (bt_insert (rec_table r, rec_key r) r T) \<longleftrightarrow>
      tag \<in> tags_without (rec_table r) (rec_key r) (all_tags ops idx T)
        \<union> index_tags ops (set (bt_entries (idx (rec_table r)))) r"
    by (cases "x = r") (auto simp: tag in_all_tags in_tags_without in_index_tags)
qed

lemma all_tags_remove:
  "all_tags ops idx (bt_remove (t, k) T) = tags_without t k (all_tags ops idx T)"
proof (intro set_eqI)
  fix tag :: "'a index_tag"
  obtain x name enc where tag: "tag = (x, name, enc)" by (cases tag)
  show "tag \<in> all_tags ops idx (bt_remove (t, k) T) \<longleftrightarrow>
      tag \<in> tags_without t k (all_tags ops idx T)"
    by (auto simp: tag in_all_tags in_tags_without)
qed

lemma put_record_tags: "holds_tags S (put_record r p) \<longleftrightarrow> holds_tags S p"
  "holds_tags S (put_order_entry r oid c p) \<longleftrightarrow> holds_tags S p"
  "holds_tags S (remove_order_entries t k p) \<longleftrightarrow> holds_tags S p"
  "holds_tags S (remove_record t k p) \<longleftrightarrow> holds_tags S p"
  by (simp_all add: holds_tags_def put_record_fields remove_record_fields)

lemma prepared_upsert_index_inv:
  assumes laws: "number_laws ops" "index_laws ops" "schema_plain idx"
    and inv: "index_inv ops idx p0 T" and row: "plain_row r" "json_wf (rec_value r)"
    and p: "implements p T" "holds_tags (tags_without (rec_table r) (rec_key r) (all_tags ops idx T)) p"
    and run: "apply_prepared_projection_upsert ops r (idx (rec_table r)) order p = (q, Inr u)"
  shows "index_inv ops idx q (bt_insert (rec_table r, rec_key r) r T)"
proof -
  let ?T = "bt_insert (rec_table r, rec_key r) r T"
  let ?S = "tags_without (rec_table r) (rec_key r) (all_tags ops idx T)"
  let ?ixs = "bt_entries (idx (rec_table r))"
  define p2 where "p2 = (case order of None \<Rightarrow> put_record r p
    | Some terms \<Rightarrow> put_order_entry r (order_id terms) (order_record_cursor ops r terms) (put_record r p))"
  have imp: "implements q ?T" by (rule prepared_upsert_implements [OF p(1) row(1) run])
  have wf: "json_wf (rec_value x)" if "bt_get ?T (t, k) = Some x" for t k x
    using that inv row(2) by (auto simp: index_inv_def split: if_splits)
  have "holds_tags ?S p2" using p(2) by (simp add: p2_def put_record_tags split: option.split)
  moreover have "put_index_entries ops r ?ixs p2 = (q, Inr u)"
    using run by (simp add: apply_prepared_projection_upsert_def Let_def p2_def)
  moreover have "tags_ok ops (?S \<union> index_tags ops (set ?ixs) r)"
    unfolding all_tags_insert [symmetric] by (rule all_tags_ok [OF laws imp]) (rule wf)
  ultimately have put: "holds_tags (?S \<union> index_tags ops (set ?ixs) r) q" "indexed ops (set ?ixs) r"
    "\<forall>name ix vs enc r'. (name, ix) \<in> set ?ixs \<longrightarrow> ixs_unique ix \<longrightarrow> record_index_values r ix = Inr vs \<longrightarrow>
       encode_index_values_component ops vs = Inr enc \<longrightarrow> (r', name, enc) \<in> ?S \<longrightarrow>
       rec_table r' = rec_table r \<longrightarrow> rec_key r' = rec_key r"
    using put_index_entries_holds by blast+
  have fresh: "k = rec_key r"
    if "bt_get T (rec_table r, k) = Some x" "bt_get (idx (rec_table r)) name = Some ix" "ixs_unique ix"
      "record_index_values r ix = Inr vs" "record_index_values x ix = Inr vs" for k x name ix vs
  proof (rule ccontr)
    assume other: "k \<noteq> rec_key r"
    have at: "rec_table x = rec_table r" "rec_key x = k"
      using implements_row [OF p(1) that(1)] by simp_all
    have mem: "(name, ix) \<in> set ?ixs" using that(2) by (simp add: in_entries)
    have vs: "record_index_values r ix = Inr vs" by fact
    obtain enc where enc: "encode_index_values_component ops vs = Inr enc"
      using put(2) mem vs by (fastforce simp: indexed_def)
    have "(x, name, enc) \<in> ?S"
      using that at other enc by (simp add: in_tags_without in_all_tags)
    with put(3) mem that(3,4) enc at other show False by metis
  qed
  have unique: "unique_rows idx ?T"
    unfolding unique_rows_def
  proof (intro allI impI)
    fix t k k' x x' name ix vs
    assume a: "bt_get ?T (t, k) = Some x" "bt_get ?T (t, k') = Some x'"
      "bt_get (idx t) name = Some ix" "ixs_unique ix"
      "record_index_values x ix = Inr vs" "record_index_values x' ix = Inr vs"
    have old: "k = k'" if "bt_get T (t, k) = Some x" "bt_get T (t, k') = Some x'"
      using inv that a(3-6) unfolding index_inv_def unique_rows_def by blast
    show "k = k'"
      using a old fresh by (auto split: if_splits)
  qed
  have rows: "json_wf (rec_value x) \<and> indexed ops (set (bt_entries (idx t))) x"
    if "bt_get ?T (t, k) = Some x" for t k x
    using that inv row(2) put(2) by (auto simp: index_inv_def split: if_splits)
  show ?thesis
    unfolding index_inv_def all_tags_insert using imp put(1) rows unique by blast
qed

lemma upsert_index_inv:
  assumes laws: "number_laws ops" "index_laws ops" "schema_plain idx"
    and inv: "index_inv ops idx p T" and row: "plain_row r" "json_wf (rec_value r)"
    and run: "upsert_with_indexes ops r (idx (rec_table r)) order p = (q, Inr u)"
  shows "index_inv ops idx q (bt_insert (rec_table r, rec_key r) r T)"
proof -
  have imp: "implements p T" and tags: "holds_tags (all_tags ops idx T) p"
    and wf: "\<And>t k x. bt_get T (t, k) = Some x \<Longrightarrow> json_wf (rec_value x)"
    using inv by (auto simp: index_inv_def)
  have plain: "plain (rec_table r)" "plain (rec_key r)" using row(1) by (simp_all add: plain_row_def)
  show ?thesis
  proof (cases "projection_get p (rec_table r) (rec_key r) = None")
    case True
    then have absent: "bt_get T (rec_table r, rec_key r) = None"
      using implements_get [OF imp plain(1)] by simp
    have "tags_without (rec_table r) (rec_key r) (all_tags ops idx T) = all_tags ops idx T"
      using absent by (auto simp: tags_without_def all_tags_def)
    with tags have "holds_tags (tags_without (rec_table r) (rec_key r) (all_tags ops idx T)) p" by simp
    moreover have "apply_prepared_projection_upsert ops r (idx (rec_table r)) order p = (q, Inr u)"
      using run True by (auto simp: upsert_with_indexes_def split: sum.splits)
    ultimately show ?thesis by (rule prepared_upsert_index_inv [OF laws inv row imp])
  next
    case False
    let ?p1 = "remove_order_entries (rec_table r) (rec_key r) p"
    obtain p2 where p2: "remove_index_entries ops (rec_table r) (rec_key r) ?p1 = Inr p2"
      "apply_prepared_projection_upsert ops r (idx (rec_table r)) order p2 = (q, Inr u)"
      using False run by (auto simp: upsert_with_indexes_def Let_def split: sum.splits)
    have "holds_tags (all_tags ops idx T) ?p1" using tags by (simp add: put_record_tags)
    moreover have "tags_ok ops (all_tags ops idx T)" by (rule all_tags_ok [OF laws imp]) (rule wf)
    ultimately have "holds_tags (tags_without (rec_table r) (rec_key r) (all_tags ops idx T)) p2"
      using remove_index_entries_holds [OF _ _ plain] p2(1) by fastforce
    moreover have "implements p2 T"
      by (rule same_rows_implements [OF same_rows_trans [OF order_entry_rows(2)
            remove_index_entries_rows [OF p2(1)]] imp])
    ultimately show ?thesis using prepared_upsert_index_inv [OF laws inv row] p2(2) by blast
  qed
qed

lemma delete_index_inv:
  assumes laws: "number_laws ops" "index_laws ops" "schema_plain idx"
    and inv: "index_inv ops idx p T" and plain: "plain table" "plain key"
    and run: "delete_from_projection ops table key p = (q, Inr u)"
  shows "index_inv ops idx q (bt_remove (table, key) T)"
proof -
  have imp: "implements p T" and tags: "holds_tags (all_tags ops idx T) p"
    and wf: "\<And>t k x. bt_get T (t, k) = Some x \<Longrightarrow> json_wf (rec_value x)"
    using inv by (auto simp: index_inv_def)
  let ?p1 = "remove_order_entries table key (remove_record table key p)"
  have "holds_tags (all_tags ops idx T) ?p1" using tags by (simp add: put_record_tags)
  have ok: "tags_ok ops (all_tags ops idx T)" by (rule all_tags_ok [OF laws imp]) (rule wf)
  from remove_index_entries_holds [OF \<open>holds_tags (all_tags ops idx T) ?p1\<close> ok plain]
  obtain q' where "remove_index_entries ops table key ?p1 = Inr q'"
    "holds_tags (tags_without table key (all_tags ops idx T)) q'" by blast
  with run have "holds_tags (tags_without table key (all_tags ops idx T)) q"
    by (simp add: delete_from_projection_def Let_def)
  moreover have "implements q (bt_remove (table, key) T)"
    by (rule delete_implements [OF imp plain run])
  moreover have "unique_rows idx (bt_remove (table, key) T)"
    unfolding unique_rows_def
  proof (intro allI impI)
    fix t k k' x x' name ix vs
    assume "bt_get (bt_remove (table, key) T) (t, k) = Some x"
      "bt_get (bt_remove (table, key) T) (t, k') = Some x'"
      and a: "bt_get (idx t) name = Some ix" "ixs_unique ix"
      "record_index_values x ix = Inr vs" "record_index_values x' ix = Inr vs"
    then have "bt_get T (t, k) = Some x" "bt_get T (t, k') = Some x'" by (auto split: if_splits)
    with a inv show "k = k'" unfolding index_inv_def unique_rows_def by blast
  qed
  moreover have "json_wf (rec_value x) \<and> indexed ops (set (bt_entries (idx t))) x"
    if "bt_get (bt_remove (table, key) T) (t, k) = Some x" for t k x
    using that inv by (auto simp: index_inv_def split: if_splits)
  ultimately show ?thesis unfolding index_inv_def all_tags_remove by blast
qed

lemma mutation_index_inv:
  assumes "number_laws ops" "index_laws ops" "schema_plain idx"
    and "index_inv ops idx p T" "follows idx m" "apply_store_mutation ops m p = (q, Inr u)"
  shows "index_inv ops idx q (table_apply m T)"
proof (cases m)
  case (StoreUpsert r indexes order)
  then show ?thesis using assms(5,6) upsert_index_inv [OF assms(1-4)] by auto
next
  case (StoreDelete table key)
  obtain u' where "delete_from_projection ops table key p = (q, Inr u')"
    using assms(6) by (auto simp: StoreDelete split: prod.splits)
  then show ?thesis using assms(5) delete_index_inv [OF assms(1-4)] by (auto simp: StoreDelete)
qed

lemma transaction_index_inv:
  assumes "number_laws ops" "index_laws ops" "schema_plain idx"
    and "index_inv ops idx p T" "\<forall>m\<in>set ms. follows idx m" "apply_transaction ops ms p = (q, Inr u)"
  shows "index_inv ops idx q (fold table_apply ms T)"
  using assms(4-6)
proof (induction ms arbitrary: p T)
  case (Cons m ms)
  obtain p1 u1 where run: "apply_store_mutation ops m p = (p1, Inr u1)"
    "apply_transaction ops ms p1 = (q, Inr u)"
    using Cons.prems(3) by (auto split: prod.splits sum.splits)
  have "index_inv ops idx p1 (table_apply m T)"
    using Cons.prems(1,2) by (intro mutation_index_inv [OF assms(1-3) _ _ run(1)]) auto
  from Cons.IH [OF this _ run(2)] Cons.prems(2) show ?case by simp
qed simp

lemma index_inv_empty: "index_inv ops idx empty_projection bt_empty"
proof -
  have "all_tags ops idx bt_empty = {}" by (auto simp: all_tags_def)
  then show ?thesis by (simp add: index_inv_def implements_empty unique_rows_def)
qed

lemma entry_key_prefix:
  assumes "plain t" "plain t'" "plain n" "plain n'" "plain e" "plain e'"
  shows "starts_with (entry_key t n e k) (entry_key t' n' e' kp) \<longleftrightarrow>
    t = t' \<and> n = n' \<and> e = e' \<and> starts_with k kp"
proof -
  have "entry_key t n e k = record_key t (record_key n (record_key e k))"
    "entry_key t' n' e' kp = record_prefix t' (record_prefix n' (record_prefix e' kp))"
    by (simp_all add: entry_key_def index_table_prefix_def record_key_def record_prefix_def)
  with assms show ?thesis by (simp add: record_key_prefix)
qed

lemma query_index_page:
  assumes laws: "number_laws ops" "index_laws ops" "schema_plain idx" and inv: "index_inv ops idx p T"
    and ix: "plain table" "bt_get (idx table) name = Some ix"
    and vs: "\<forall>v\<in>set vs. json_wf v" "encode_index_values_component ops vs = Inr enc"
  shows "query_index ops p table name vs key_prefix after_key limit =
    Inr (take (normalize_limit limit)
      (filter (\<lambda>r. record_index_values r ix = Inr vs
         \<and> starts_with (rec_key r) (case key_prefix of None \<Rightarrow> [] | Some kp \<Rightarrow> kp)
         \<and> \<not> at_or_before after_key (rec_key r)) (table_rows T table)))"
proof -
  have imp: "implements p T" and tags: "holds_tags (all_tags ops idx T) p"
    and wf: "\<And>t k x. bt_get T (t, k) = Some x \<Longrightarrow> json_wf (rec_value x)"
    and full: "\<And>t k x. bt_get T (t, k) = Some x \<Longrightarrow> indexed ops (set (bt_entries (idx t))) x"
    using inv by (auto simp: index_inv_def)
  have ok: "tags_ok ops (all_tags ops idx T)" by (rule all_tags_ok [OF laws imp]) (rule wf)
  define kp where "kp = (case key_prefix of None \<Rightarrow> [] | Some kp \<Rightarrow> kp)"
  define pre where "pre = entry_key table name enc kp"
  have plain: "plain name" "plain enc"
    using laws(3) ix(2) vs(2)
    by (auto simp: schema_plain_def encode_index_values_component_def plain_hex split: option.splits)
  have enc_iff: "(r, name, enc) \<in> all_tags ops idx T \<longleftrightarrow>
      bt_get T (rec_table r, rec_key r) = Some r \<and> record_index_values r ix = Inr vs"
    if at: "rec_table r = table" for r
  proof
    assume "(r, name, enc) \<in> all_tags ops idx T"
    then obtain ws where r: "bt_get T (rec_table r, rec_key r) = Some r" "record_index_values r ix = Inr ws"
      "encode_index_values_component ops ws = Inr enc"
      unfolding in_all_tags at using ix(2) by auto
    have "ws = vs"
      using index_values_codec.enc_inj [of ops ws vs] laws record_index_values_wf [OF r(2) wf [OF r(1)]] r(3) vs
      by simp
    with r show "bt_get T (rec_table r, rec_key r) = Some r \<and> record_index_values r ix = Inr vs" by simp
  qed (use at ix(2) vs(2) in \<open>auto simp: in_all_tags\<close>)
  have entry: "(k, r) \<in> set (prefix_entries (pj_indexes p) pre) \<longleftrightarrow>
      rec_table r = table \<and> (r, name, enc) \<in> all_tags ops idx T \<and> starts_with (rec_key r) kp
      \<and> k = entry_key table name enc (rec_key r)" for k r
  proof -
    have "starts_with (entry_key (rec_table r) n e (rec_key r)) pre \<longleftrightarrow>
        rec_table r = table \<and> n = name \<and> e = enc \<and> starts_with (rec_key r) kp"
      if "(r, n, e) \<in> all_tags ops idx T" for n e
      using tags_okD [OF ok that] plain ix(1) by (simp add: pre_def entry_key_prefix)
    then show ?thesis unfolding prefix_entries_iff holds_entry [OF tags] by blast
  qed
  have "map snd (prefix_entries (pj_indexes p) pre) =
      filter (\<lambda>r. record_index_values r ix = Inr vs \<and> starts_with (rec_key r) kp) (table_rows T table)"
  proof (rule rows_by_unique [where g = rec_key])
    show "rows_by rec_key (map snd (prefix_entries (pj_indexes p) pre))"
      by (rule rows_by_entries [where f = "entry_key table name enc"])
        (use entry in \<open>auto simp: entry_key_def append_less\<close>)
    show "rows_by rec_key (filter (\<lambda>r. record_index_values r ix = Inr vs \<and> starts_with (rec_key r) kp)
        (table_rows T table))"
      by (rule rows_by_filter) (rule table_rows_by_key [OF imp])
    have "r \<in> snd ` set (prefix_entries (pj_indexes p) pre) \<longleftrightarrow>
        (\<exists>k. (k, r) \<in> set (prefix_entries (pj_indexes p) pre))" for r by force
    then show "set (map snd (prefix_entries (pj_indexes p) pre)) =
        set (filter (\<lambda>r. record_index_values r ix = Inr vs \<and> starts_with (rec_key r) kp) (table_rows T table))"
      using enc_iff by (auto simp: entry table_rows_iff [OF imp])
  qed
  moreover have "(case key_prefix of Some kp \<Rightarrow> index_key_prefix ops table name vs kp
      | None \<Rightarrow> index_prefix ops table name vs) = Inr pre"
    by (simp add: index_key_prefix_def index_prefix_def vs(2) pre_def kp_def entry_key_def split: option.split)
  ultimately show ?thesis
    by (simp add: query_index_def page_is_take filter_filter kp_def conj_ac)
qed

section \<open>A small store\<close>

text \<open>
  A concrete instance for the witnesses: numbers are integers, the serialisers are defined on
  the values used below and fail elsewhere.
\<close>

definition demo_doc :: "string \<Rightarrow> string \<Rightarrow> u64 \<Rightarrow> i64 db_record" where
  "demo_doc key title lsn =
     \<lparr>rec_table = ''rooms'', rec_key = key, rec_value = JObject [(''title'', JString title)],
      rec_updated_at_ms = lsn, rec_lsn = lsn, rec_path = ''tables/rooms/'' @ key\<rparr>"

definition demo_docs :: "i64 db_record list" where
  "demo_docs = [demo_doc ''a'' ''x'' 1, demo_doc ''b'' ''y'' 2, demo_doc ''a'' ''y'' 3,
     demo_doc ''b'' ''x'' 3]"

definition demo_envelope :: "i64 db_record \<Rightarrow> projected_envelope" where
  "demo_envelope r =
     \<lparr>pe_table = rec_table r, pe_key = rec_key r,
      pe_value = BObject (case rec_value r of
        JObject [(f, JString s)] \<Rightarrow> [(f, BString s)] | _ \<Rightarrow> []),
      pe_updated_at_ms = rec_updated_at_ms r, pe_lsn = rec_lsn r, pe_path = rec_path r\<rparr>"

fun position :: "'a \<Rightarrow> 'a list \<Rightarrow> nat option" where
  "position x [] = None"
| "position x (y # ys) = (if x = y then Some 0 else map_option Suc (position x ys))"

lemma position_Some: "position x ys = Some i \<Longrightarrow> i < length ys \<and> ys ! i = x"
  by (induction ys arbitrary: i) (auto split: if_splits)

definition chars_of :: "bytes \<Rightarrow> string" where
  "chars_of bs = map (\<lambda>b. char_of (unat b)) bs"

lemma chars_of_bytes [simp]: "chars_of (map byte_of s) = s"
  by (induction s) (simp_all add: chars_of_def)

definition demo_to_postcard :: "projected_envelope \<Rightarrow> bytes option" where
  "demo_to_postcard e = map_option (\<lambda>i. [word_of_nat i]) (position e (map demo_envelope demo_docs))"

definition demo_from_postcard :: "bytes \<Rightarrow> projected_envelope option" where
  "demo_from_postcard bs = (case bs of [b] \<Rightarrow> Some (map demo_envelope demo_docs ! unat b) | _ \<Rightarrow> None)"

definition demo_index_ops :: "i64 index_ops" where
  "demo_index_ops =
     \<lparr>as_i64 = Some, as_u64 = (\<lambda>n. if 0 \<le> sint n then Some n else None), as_f64 = (\<lambda>_. None),
      of_i64 = id, of_u64 = id, from_f64 = (\<lambda>_. None),
      envelope_to_postcard = demo_to_postcard, envelope_from_postcard = demo_from_postcard,
      record_from_json_slice = (\<lambda>_. None),
      index_values_to_postcard =
        (\<lambda>vs. case vs of [BString s] \<Rightarrow> Some (map byte_of s) | _ \<Rightarrow> None),
      index_values_from_postcard = (\<lambda>bs. Some [BString (chars_of bs)]),
      index_values_from_slice = (\<lambda>_. None),
      cursor_to_postcard =
        (\<lambda>c. case c of ([BString [t]], key) \<Rightarrow> Some (map byte_of (t # key)) | _ \<Rightarrow> None),
      cursor_from_postcard =
        (\<lambda>bs. case chars_of bs of t # key \<Rightarrow> Some ([BString [t]], key) | [] \<Rightarrow> None),
      cursor_from_slice = (\<lambda>_. None),
      json_to_string = (\<lambda>_. []), number_to_string = (\<lambda>_. []),
      f64_partial_cmp = (\<lambda>_ _. None), f64_padded24 = (\<lambda>_. [])\<rparr>"

lemma demo_number_laws: "number_laws demo_index_ops"
  by (simp add: number_laws_def demo_index_ops_def)

lemma demo_envelope_laws: "envelope_laws demo_index_ops"
proof -
  have len: "length (map demo_envelope demo_docs) \<le> 4" by (simp add: demo_docs_def)
  have "unat (word_of_nat i :: u8) = i" if "i < 4" for i
    using that by (simp add: unsigned_of_nat take_bit_nat_eq_self)
  then have "case demo_to_postcard e of None \<Rightarrow> True | Some bytes \<Rightarrow> demo_from_postcard bytes = Some e" for e
    using position_Some [of e "map demo_envelope demo_docs"] len
    by (auto simp: demo_to_postcard_def demo_from_postcard_def split: option.split)
  moreover have fields: "envelope_to_postcard demo_index_ops = demo_to_postcard"
    "envelope_from_postcard demo_index_ops = demo_from_postcard"
    by (simp_all add: demo_index_ops_def)
  ultimately show ?thesis unfolding envelope_laws_def fields by blast
qed

lemma demo_index_laws: "index_laws demo_index_ops"
proof -
  have "chars_of (byte_of t # map byte_of key) = t # key" for t key
    using chars_of_bytes [of "t # key"] by simp
  then show ?thesis
    by (auto simp: index_laws_def demo_index_ops_def split: option.splits list.splits binary_json.splits)
qed

definition by_title :: index_schema where
  "by_title = \<lparr>ixs_fields = [''title''], ixs_unique = True\<rparr>"

definition demo_indexes :: table_indexes where
  "demo_indexes table = (if table = ''rooms'' then bt_insert ''byTitle'' by_title bt_empty else bt_empty)"

definition demo_put :: "i64 db_record \<Rightarrow> i64 store_mutation" where
  "demo_put r = StoreUpsert r (demo_indexes ''rooms'') (Some [\<lparr>ot_field = ''title'', ot_direction = OrderAsc\<rparr>])"

definition demo_history :: "i64 store_mutation list" where
  "demo_history =
     [demo_put (demo_doc ''a'' ''x'' 1), demo_put (demo_doc ''b'' ''y'' 2),
      StoreDelete ''rooms'' ''a'']"

definition demo_projection :: "i64 projection" where
  "demo_projection = fst (apply_transaction demo_index_ops demo_history empty_projection)"

lemma demo_run: "apply_transaction demo_index_ops demo_history empty_projection = (demo_projection, Inr ())"
proof -
  have "snd (apply_transaction demo_index_ops demo_history empty_projection) = Inr ()"
    by code_simp
  then show ?thesis unfolding demo_projection_def by (metis prod.collapse)
qed

text \<open>
  C18. An exact index read is the equality filter on the table. After any history of successful
  writes under one schema, querying an index with given values returns the page, in key order,
  of exactly the rows whose indexed fields have these values (below the asked key prefix and
  after the given key), whatever rows were replaced or deleted on the way.
\<close>

theorem query_index_is_filter:
  assumes "number_laws ops" and "index_laws ops" and "schema_plain idx"
    and "\<forall>m\<in>set history. follows idx m"
    and "apply_transaction ops history empty_projection = (p, Inr u)"
    and "plain table" and "bt_get (idx table) name = Some ix"
    and "\<forall>v\<in>set vs. json_wf v" and "encode_index_values_component ops vs = Inr enc"
  shows "query_index ops p table name vs key_prefix after_key limit =
    Inr (take (normalize_limit limit)
      (filter (\<lambda>r. record_index_values r ix = Inr vs
         \<and> starts_with (rec_key r) (case key_prefix of None \<Rightarrow> [] | Some kp \<Rightarrow> kp)
         \<and> \<not> at_or_before after_key (rec_key r))
        (table_rows (fold table_apply history bt_empty) table)))"
proof (rule query_index_page [OF assms(1-3) _ assms(6-9)])
  show "index_inv ops idx p (fold table_apply history bt_empty)"
    by (rule transaction_index_inv [OF assms(1-3) index_inv_empty assms(4,5)])
qed

lemma demo_schema_plain: "schema_plain demo_indexes"
  by (auto simp: schema_plain_def demo_indexes_def plain_def nul_def split: if_splits)

lemma demo_follows: "\<forall>m\<in>set demo_history. follows demo_indexes m"
  by (simp add: demo_history_def demo_put_def demo_doc_def plain_row_def plain_def nul_def demo_indexes_def)

theorem query_index_is_filter_witness:
  "query_index demo_index_ops demo_projection ''rooms'' ''byTitle'' [JString ''y''] None None None =
     Inr [demo_doc ''b'' ''y'' 2]"
proof -
  have "encode_index_values_component demo_index_ops [JString ''y''] =
      Inr (hex_lower (index_values_magic @ map byte_of ''y''))"
    by (simp add: encode_index_values_component_def demo_index_ops_def)
  from query_index_is_filter [OF demo_number_laws demo_index_laws demo_schema_plain demo_follows demo_run
      _ _ _ this, of "''rooms''" "''byTitle''" by_title None None None]
  show ?thesis
    by (simp add: plain_def nul_def demo_indexes_def demo_history_def demo_put_def demo_doc_def
        table_rows_def record_index_values_def by_title_def json_field_def is_scalar_def
        at_or_before_def normalize_limit_def)
qed

text \<open>
  C11. A unique index is unique. After any history of successful writes under one schema no two
  rows of a table have the same values of a unique index.
\<close>

theorem unique_index_holds:
  assumes "number_laws ops" and "index_laws ops" and "schema_plain idx"
    and "\<forall>m\<in>set history. follows idx m"
    and "apply_transaction ops history empty_projection = (p, Inr u)"
    and "plain table" and "bt_get (idx table) name = Some ix" and "ixs_unique ix"
    and "projection_get p table k = Some r" and "projection_get p table k' = Some r'"
    and "record_index_values r ix = Inr vs" and "record_index_values r' ix = Inr vs"
  shows "k = k' \<and> r = r'"
proof -
  have inv: "index_inv ops idx p (fold table_apply history bt_empty)"
    by (rule transaction_index_inv [OF assms(1-3) index_inv_empty assms(4,5)])
  then have "implements p (fold table_apply history bt_empty)" by (simp add: index_inv_def)
  from implements_get [OF this assms(6)] assms(9,10)
  have rows: "bt_get (fold table_apply history bt_empty) (table, k) = Some r"
    "bt_get (fold table_apply history bt_empty) (table, k') = Some r'" by simp_all
  have "k = k'"
    using inv rows assms(7,8,11,12) unfolding index_inv_def unique_rows_def by blast
  with rows show ?thesis by simp
qed

lemma demo_table_value: "fold table_apply demo_history bt_empty =
    bt_insert (''rooms'', ''b'') (demo_doc ''b'' ''y'' 2) bt_empty"
  by (rule bt_eqI) (auto simp: demo_history_def demo_put_def demo_doc_def)

lemma demo_plain_mutations: "\<forall>m\<in>set demo_history. plain_mutation m"
  by (simp add: demo_history_def demo_put_def demo_doc_def plain_row_def plain_def nul_def)

theorem unique_index_holds_witness:
  "\<not> (\<exists>k. k \<noteq> ''b'' \<and> projection_get demo_projection ''rooms'' k = Some (demo_doc ''b'' ''y'' 2))"
proof
  assume "\<exists>k. k \<noteq> ''b'' \<and> projection_get demo_projection ''rooms'' k = Some (demo_doc ''b'' ''y'' 2)"
  then obtain k where k: "k \<noteq> ''b''"
    "projection_get demo_projection ''rooms'' k = Some (demo_doc ''b'' ''y'' 2)" by blast
  have imp: "implements demo_projection (fold table_apply demo_history bt_empty)"
    by (rule transaction_implements [OF implements_empty demo_plain_mutations demo_run])
  have plain: "plain ''rooms''" by (simp add: plain_def nul_def)
  have b: "projection_get demo_projection ''rooms'' ''b'' = Some (demo_doc ''b'' ''y'' 2)"
    unfolding implements_get [OF imp plain] demo_table_value by simp
  have "record_index_values (demo_doc ''b'' ''y'' 2) by_title = Inr [JString ''y'']"
    by (simp add: record_index_values_def by_title_def demo_doc_def json_field_def is_scalar_def)
  from unique_index_holds [OF demo_number_laws demo_index_laws demo_schema_plain demo_follows demo_run
      plain _ _ k(2) b this this, of "''byTitle''"] k(1)
  show False by (simp add: demo_indexes_def by_title_def)
qed

theorem projection_refines_table_witness:
  "projection_get demo_projection ''rooms'' ''a'' = None
   \<and> projection_list_by_key_prefix demo_projection ''rooms'' [] None None = [demo_doc ''b'' ''y'' 2]
   \<and> projection_list_recent demo_projection ''rooms'' None = [demo_doc ''b'' ''y'' 2]"
  using projection_refines_table [OF demo_run demo_plain_mutations, of "''rooms''" "[]" None None]
  unfolding demo_table_value
  by (simp add: plain_def nul_def table_rows_def at_or_before_def normalize_limit_def)

theorem index_range_cursor_roundtrip_witness:
  "\<exists>cursor. index_range_cursor demo_index_ops [JString ''x''] ''room-1'' = Inr cursor
     \<and> parse_index_range_cursor demo_index_ops cursor = Inr ([JString ''x''], ''room-1'')"
proof -
  have "index_range_cursor demo_index_ops [JString ''x''] ''room-1'' =
      Inr (hex_lower (index_range_cursor_magic @ map byte_of ''xroom-1''))"
    by (simp add: index_range_cursor_def demo_index_ops_def)
  with index_range_cursor_roundtrip [OF demo_number_laws demo_index_laws _ this] show ?thesis by simp
qed

section \<open>Nested rows\<close>

text \<open>
  C33. Listing the rows nested under a parent reads the partition keyspace instead of the table,
  and returns the same page: the rows of the table whose key extends \<open>parent:\<close>, in key order,
  after the given key, which may be a nested key or a full one. This is for parents whose key
  has no colon.
\<close>

theorem nested_list_is_prefix_list:
  assumes "apply_transaction ops history empty_projection = (p, Inr u)"
    and "\<forall>m\<in>set history. plain_mutation m" and "plain table"
    and "plain parent" and "CHR '':'' \<notin> set parent" and "parent \<noteq> []"
  shows "store_list_by_key_prefix p table (parent @ '':'') after_key limit =
    take (normalize_limit limit)
      (filter (\<lambda>r. starts_with (rec_key r) (parent @ '':'') \<and> rec_key r \<noteq> parent @ '':''
         \<and> \<not> at_or_before (map_option (logical_after (parent @ '':'')) after_key) (rec_key r))
        (table_rows (fold table_apply history bt_empty) table))"
proof -
  have imp: "implements p (fold table_apply history bt_empty)"
    by (rule transaction_implements [OF implements_empty assms(2,1)])
  have "partition_parent_from_prefix (parent @ '':'') = Some parent"
    using assms(6)
    by (simp add: partition_parent_from_prefix_def strip_suffix_def ends_with_def starts_with_def)
  then show ?thesis
    using partition_page [OF imp assms(3-6), of after_key limit]
    by (simp add: store_list_by_key_prefix_def nested_under_def conj_ac)
qed

theorem nested_list_is_prefix_list_witness:
  "store_list_by_key_prefix demo_projection ''rooms'' ''a:'' None None = []"
  using nested_list_is_prefix_list [OF demo_run demo_plain_mutations, of "''rooms''" "''a''" None None]
  unfolding demo_table_value
  by (simp add: plain_def nul_def table_rows_def demo_doc_def starts_with_def)

definition colon_row :: "i64 db_record" where
  "colon_row = \<lparr>rec_table = ''rooms.messages'', rec_key = ''a:b:m'', rec_value = JNull,
     rec_updated_at_ms = 1, rec_lsn = 1, rec_path = ''tables/rooms/a:b/messages/m''\<rparr>"

text \<open>
  C25. A parent key with a colon loses its nested rows. Record keys may contain colons, and the
  row \<open>m\<close> nested under the parent \<open>a:b\<close> has the key \<open>a:b:m\<close>: it is stored (a point read finds
  it) but filed under the partition of \<open>a\<close>, so the listing of the parent \<open>a:b\<close> is empty, and
  the listing of the parent \<open>a\<close> contains a row that is not nested under it.
\<close>

theorem colon_parent_lists_nothing:
  "ensure_safe_record_component ''a:b''
   \<and> projection_get (put_record colon_row empty_projection) ''rooms.messages'' ''a:b:m'' = Some colon_row
   \<and> store_list_by_key_prefix (put_record colon_row empty_projection) ''rooms.messages'' ''a:b:'' None None = []
   \<and> store_list_by_key_prefix (put_record colon_row empty_projection) ''rooms.messages'' ''a:'' None None
       = [colon_row]"
proof -
  have imp: "implements (put_record colon_row empty_projection)
      (bt_insert (rec_table colon_row, rec_key colon_row) colon_row bt_empty)"
    by (rule implements_put [OF implements_empty]) (simp add: plain_row_def colon_row_def plain_def nul_def)
  have plain: "plain ''rooms.messages''" by (simp add: plain_def nul_def)
  have parts: "pj_partitions (put_record colon_row empty_projection) =
      bt_insert (partition_key ''rooms.messages'' ''a'' ''b:m'') colon_row bt_empty"
    unfolding put_record_fields by (simp add: colon_row_def split_nested_key_def empty_projection_def)
  show ?thesis
  proof (intro conjI)
    show "ensure_safe_record_component ''a:b''" by code_simp
    show "projection_get (put_record colon_row empty_projection) ''rooms.messages'' ''a:b:m'' = Some colon_row"
      unfolding implements_get [OF imp plain] by (simp add: colon_row_def)
    show "store_list_by_key_prefix (put_record colon_row empty_projection) ''rooms.messages'' ''a:b:'' None None = []"
      by (simp add: store_list_by_key_prefix_def partition_parent_from_prefix_def strip_suffix_def
          ends_with_def starts_with_def projection_list_partition_def partition_rows_def parts
          prefix_entries_def partition_key_def partition_prefix_def nul_def page_is_take map_filter_simps)
    show "store_list_by_key_prefix (put_record colon_row empty_projection) ''rooms.messages'' ''a:'' None None
       = [colon_row]"
      by (simp add: store_list_by_key_prefix_def partition_parent_from_prefix_def strip_suffix_def
          ends_with_def starts_with_def projection_list_partition_def partition_rows_def parts
          prefix_entries_def partition_key_def partition_prefix_def nul_def page_is_take map_filter_simps
          parse_partition_key_def strip_prefix_def normalize_limit_def partition_after_nested_key_def
          at_or_before_def)
  qed
qed

section \<open>Order cursors\<close>

text \<open>
  C26. Schema order on a text field misplaces a string and its extensions. The value \<open>a\<close> precedes
  \<open>ab\<close>, but the cursor written for the row with \<open>ab\<close> is smaller, because the hexadecimal digits
  of the longer value compare below the separator that ends the shorter one. An ascending
  listing therefore returns \<open>ab\<close> before \<open>a\<close>, whatever the keys of the rows are.
\<close>

theorem order_cursor_misplaces_prefix:
  "''a'' < ''ab''
   \<and> order_record_cursor ops (demo_doc k ''ab'' lsn) [\<lparr>ot_field = ''title'', ot_direction = OrderAsc\<rparr>]
     < order_record_cursor ops (demo_doc k' ''a'' lsn') [\<lparr>ot_field = ''title'', ot_direction = OrderAsc\<rparr>]"
proof -
  have hex: "hex_lower (map byte_of ''a'') = ''61''" "hex_lower (map byte_of ''ab'') = ''6162''"
    by code_simp+
  have "hex_table ! unat (drop_bit 4 (byte_of (CHR ''b''))) = CHR ''6''" by code_simp
  then have less: "hex_table ! unat (drop_bit 4 (byte_of (CHR ''b''))) < CHR ''_''"
    by (simp add: less_char_def)
  show ?thesis
    unfolding order_record_cursor_def order_record_file_stem_def
    by (simp add: demo_doc_def json_field_def order_value_component_def order_value_asc_def hex less)
qed

lemma hex_table_less: "i < j \<Longrightarrow> j < 16 \<Longrightarrow> hex_table ! i < hex_table ! j"
proof -
  have "\<forall>j\<in>set [0..<16]. \<forall>i\<in>set [0..<j]. hex_table ! i < hex_table ! j" by code_simp
  then show "i < j \<Longrightarrow> j < 16 \<Longrightarrow> ?thesis" by simp
qed

lemma hex_byte_less:
  assumes "a < (b :: u8)"
  shows "hex_lower (a # as) < hex_lower (b # bs)"
proof -
  have parts: "unat (drop_bit 4 x) = unat x div 16" "unat (x AND 0x0F) = unat x mod 16" for x :: u8
  proof -
    show "unat (drop_bit 4 x) = unat x div 16" by (simp add: drop_bit_eq_div unat_div)
    have "x AND 0x0F = take_bit 4 x" by (simp add: take_bit_eq_mask mask_eq_exp_minus_1)
    then show "unat (x AND 0x0F) = unat x mod 16"
      by (simp only: unsigned_take_bit_eq) (simp add: take_bit_eq_mod)
  qed
  have lt: "unat a < unat b" using assms by (simp add: word_less_nat_alt)
  show ?thesis
  proof (cases "unat a div 16 < unat b div 16")
    case True
    then have "hex_table ! unat (drop_bit 4 a) < hex_table ! unat (drop_bit 4 b)"
      using high_nibble_less [of b] by (intro hex_table_less) (simp_all add: parts)
    then show ?thesis by simp
  next
    case False
    then have eq: "unat a div 16 = unat b div 16"
      using lt by (meson div_le_mono le_less_trans linorder_not_le nat_less_le)
    then have "unat a mod 16 < unat b mod 16"
      using lt by (metis div_mult_mod_eq nat_add_left_cancel_less)
    then have "hex_table ! unat (a AND 0x0F) < hex_table ! unat (b AND 0x0F)"
      using low_nibble_less [of b] by (intro hex_table_less) (simp_all add: parts)
    with eq show ?thesis by (simp add: parts)
  qed
qed

lemma invert_antimono:
  "length s = length t \<Longrightarrow> s < t \<Longrightarrow> invert_sort_component t < invert_sort_component s"
proof (induction s arbitrary: t)
  case (Cons c s)
  then obtain d t' where t: "t = d # t'" by (cases t) auto
  show ?case
  proof (cases "c = d")
    case True
    with Cons t show ?thesis by (auto simp: invert_sort_component_def)
  next
    case False
    with Cons.prems(2) t have "c < d" by simp
    then have "unat (byte_of c) < unat (byte_of d)" by (simp add: less_char_def)
    then have "sat_sub 255 (byte_of d) < sat_sub 255 (byte_of c)"
      using unat_bound [of "byte_of c"] unat_bound [of "byte_of d"]
      by (simp only: word_less_nat_alt unat_sat_sub) simp
    then show ?thesis by (simp only: invert_sort_component_def t list.map hex_byte_less)
  qed
qed simp

lemma length_invert [simp]: "length (invert_sort_component s) = 2 * length s"
  by (simp add: invert_sort_component_def)

text \<open>
  C24. Schema order on an unsigned number is right in both directions: of two rows with the
  numbers \<open>a < b\<close> in the ordering field, the cursor of the first is the smaller one in ascending
  order and the greater one in descending order, over the whole range of \<open>u64\<close>.
\<close>

theorem order_cursor_orders_numbers:
  assumes "json_field (rec_value r) field = Some (JNumber n)" and "as_u64 ops n = Some a"
    and "json_field (rec_value r') field = Some (JNumber n')" and "as_u64 ops n' = Some b"
    and "a < b"
  shows "order_record_cursor ops r [\<lparr>ot_field = field, ot_direction = OrderAsc\<rparr>]
      < order_record_cursor ops r' [\<lparr>ot_field = field, ot_direction = OrderAsc\<rparr>]
    \<and> order_record_cursor ops r' [\<lparr>ot_field = field, ot_direction = OrderDesc\<rparr>]
      < order_record_cursor ops r [\<lparr>ot_field = field, ot_direction = OrderDesc\<rparr>]"
proof -
  have digits: "fixed_decimal 20 (unat a) < fixed_decimal 20 (unat b)"
    using padded20_mono [OF assms(5)] by (simp add: padded20_def)
  have "invert_sort_component (''2u'' @ fixed_decimal 20 (unat b))
      < invert_sort_component (''2u'' @ fixed_decimal 20 (unat a))"
    by (rule invert_antimono) (use digits in simp_all)
  with digits show ?thesis
    unfolding order_record_cursor_def order_record_file_stem_def
    using assms(1-4)
    by (simp add: order_value_component_def order_value_asc_def append_less_length)
qed

definition score_doc :: "i64 \<Rightarrow> i64 db_record" where
  "score_doc n = \<lparr>rec_table = ''games'', rec_key = ''g'', rec_value = JObject [(''score'', JNumber n)],
     rec_updated_at_ms = 1, rec_lsn = 1, rec_path = ''tables/games/g''\<rparr>"

theorem order_cursor_orders_numbers_witness:
  "order_record_cursor demo_index_ops (score_doc 9) [\<lparr>ot_field = ''score'', ot_direction = OrderAsc\<rparr>]
   < order_record_cursor demo_index_ops (score_doc 10) [\<lparr>ot_field = ''score'', ot_direction = OrderAsc\<rparr>]"
  using order_cursor_orders_numbers [of "score_doc 9" "''score''" 9 demo_index_ops 9 "score_doc 10" 10 10]
  by (simp add: score_doc_def json_field_def demo_index_ops_def)

end
