(* ===== verification/Schema.thy ===== *)
theory Schema
  imports Record_Hot Record_Index Wal_Archive
begin

text \<open>
  The schema registry (\<open>schema.rs\<close>): the schema of a database, the validation of values,
  rows and message drafts against it, the check of a schema itself, the storage and index
  lookups the record path uses, and the migration plan between two schemas.

  A \<open>BTreeMap\<close> of field schemas is the ascending list of its entries, as the object values of
  \<open>Json\<close> are, because field types contain field maps. The other maps are \<open>btree\<close>s. An error
  is the text of the \<open>anyhow\<close> message.
\<close>

section \<open>Schemas\<close>

datatype field_type =
    FString
  | FText nat
  | FInt64
  | FTimeMs
  | FBoolean
  | FId string
  | FObjectRef string
  | FList field_type
  | FObject "(string \<times> field_schema) list"
  | FJson
and field_schema = FieldSchema (fs_type: field_type) (fs_optional: bool)

type_synonym field_map = "(string \<times> field_schema) list"

definition field_required :: "field_type \<Rightarrow> field_schema" where
  "field_required t = FieldSchema t False"

definition field_optional :: "field_type \<Rightarrow> field_schema" where
  "field_optional t = FieldSchema t True"

datatype read_visibility_rule = FieldEqualsUserId string

type_synonym read_visibility_policy = "read_visibility_rule list"

record nested_table_schema =
  nts_storage :: storage_class
  nts_fields :: field_map
  nts_read_visibility :: read_visibility_policy
  nts_indexes :: "(string, index_schema) btree"

record table_schema =
  tsc_storage :: storage_class
  tsc_fields :: field_map
  tsc_nested :: "(string, nested_table_schema) btree"
  tsc_read_visibility :: read_visibility_policy
  tsc_indexes :: "(string, index_schema) btree"

record database_schema =
  db_name :: string
  db_version :: u32
  db_objects :: "(string, field_map) btree"
  db_tables :: "(string, table_schema) btree"
  db_events :: "(string, field_schema) btree"
  db_behaviors :: "(string, field_map) btree"

definition field_get :: "field_map \<Rightarrow> string \<Rightarrow> field_schema option" where
  "field_get fs name = map_of fs name"

definition field_contains :: "field_map \<Rightarrow> string \<Rightarrow> bool" where
  "field_contains fs name \<longleftrightarrow> field_get fs name \<noteq> None"

text \<open>\<open>BTreeMap::insert\<close> and \<open>collect\<close> on field maps.\<close>

definition field_insert :: "string \<Rightarrow> field_schema \<Rightarrow> field_map \<Rightarrow> field_map" where
  "field_insert name field fs = al_put name field fs"

definition fields_of :: "(string \<times> field_type) list \<Rightarrow> field_map" where
  "fields_of entries = fold (\<lambda>(name, t). field_insert name (field_required t)) entries []"

text \<open>\<open>tables.get(table).and_then(|table| table.nested.get(nested))\<close>\<close>

definition nested_schema :: "database_schema \<Rightarrow> string \<Rightarrow> string \<Rightarrow> nested_table_schema option" where
  "nested_schema s table nested =
     Option.bind (bt_get (db_tables s) table) (\<lambda>t. bt_get (tsc_nested t) nested)"

section \<open>Validation of values\<close>

definition is_json_integer :: "('n, 'z) number_ops_scheme \<Rightarrow> 'n json \<Rightarrow> bool" where
  "is_json_integer ops value \<longleftrightarrow>
     (case value of JNumber n \<Rightarrow> as_i64 ops n \<noteq> None \<or> as_u64 ops n \<noteq> None | _ \<Rightarrow> False)"

definition nonempty_string :: "'n json option \<Rightarrow> bool" where
  "nonempty_string value \<longleftrightarrow> (case value of Some (JString s) \<Rightarrow> trim s \<noteq> [] | _ \<Rightarrow> False)"

definition validate_object_ref ::
  "('n, 'z) number_ops_scheme \<Rightarrow> string \<Rightarrow> 'n json \<Rightarrow> string + unit" where
  "validate_object_ref ops path value =
     (case value of
        JObject entries \<Rightarrow>
          res_bind (check_all (\<lambda>key.
            if nonempty_string (map_of entries key) then Inr ()
            else Inl (path @ ''.'' @ key @ '' must be a non-empty string''))
            [''id'', ''path'', ''contentType'', ''sha256'']) (\<lambda>_.
          if (case map_of entries ''byteSize'' of Some (JNumber n) \<Rightarrow> as_u64 ops n \<noteq> None | _ \<Rightarrow> False)
          then Inr () else Inl (path @ ''.byteSize must be a non-negative integer''))
      | _ \<Rightarrow> Inl (path @ '' must be an object ref''))"

lemma check_all_cong [fundef_cong]:
  "xs = ys \<Longrightarrow> (\<And>x. x \<in> set ys \<Longrightarrow> f x = g x) \<Longrightarrow> check_all f xs = check_all g ys"
  unfolding check_all_def by (metis map_res_cong)

fun validate_field ::
  "('n, 'z) number_ops_scheme \<Rightarrow> string \<Rightarrow> field_schema \<Rightarrow> 'n json \<Rightarrow> string + unit"
and validate_object_fields ::
  "('n, 'z) number_ops_scheme \<Rightarrow> string \<Rightarrow> field_map \<Rightarrow> 'n json \<Rightarrow> string + unit"
where
  "validate_field ops path (FieldSchema t opt) value =
     (if value = JNull then (if opt then Inr () else Inl (path @ '' cannot be null''))
      else case t of
        FString \<Rightarrow>
          (case value of JString _ \<Rightarrow> Inr () | _ \<Rightarrow> Inl (path @ '' must be a string''))
      | FText inline_until \<Rightarrow>
          (case value of
             JString text \<Rightarrow>
               if inline_until < length text
               then Inl (path @ '' must be at most '' @ decimal inline_until @ '' bytes'')
               else Inr ()
           | _ \<Rightarrow> Inl (path @ '' must be a string''))
      | FInt64 \<Rightarrow>
          (if is_json_integer ops value then Inr () else Inl (path @ '' must be an integer''))
      | FTimeMs \<Rightarrow>
          (if is_json_integer ops value then Inr () else Inl (path @ '' must be an integer''))
      | FBoolean \<Rightarrow>
          (case value of JBool _ \<Rightarrow> Inr () | _ \<Rightarrow> Inl (path @ '' must be a boolean''))
      | FId _ \<Rightarrow>
          (if nonempty_string (Some value) then Inr ()
           else Inl (path @ '' must be a non-empty id string''))
      | FObjectRef _ \<Rightarrow> validate_object_ref ops path value
      | FList item \<Rightarrow>
          (case value of
             JArray values \<Rightarrow>
               check_all (\<lambda>(index, v).
                 validate_field ops (path @ ''['' @ decimal index @ '']'') (FieldSchema item False) v)
                 (enumerate 0 values)
           | _ \<Rightarrow> Inl (path @ '' must be an array''))
      | FObject fs \<Rightarrow> validate_object_fields ops path fs value
      | FJson \<Rightarrow> Inr ())"
| "validate_object_fields ops path fs value =
     (case value of
        JObject entries \<Rightarrow>
          check_all (\<lambda>(name, field).
            case map_of entries name of
              Some v \<Rightarrow> validate_field ops (path @ ''.'' @ name) field v
            | None \<Rightarrow>
                if fs_optional field then Inr ()
                else Inl (path @ ''.'' @ name @ '' is required'')) fs
      | _ \<Rightarrow> Inl (path @ '' must be an object''))"

section \<open>Validation of message drafts\<close>

definition validate_string_value ::
  "('n, 'z) number_ops_scheme \<Rightarrow> string \<Rightarrow> field_schema \<Rightarrow> string \<Rightarrow> string + unit" where
  "validate_string_value ops path field value =
     (case fs_type field of
        FString \<Rightarrow> Inr ()
      | FJson \<Rightarrow> Inr ()
      | FText inline_until \<Rightarrow>
          if inline_until < length value
          then Inl (path @ '' must be at most '' @ decimal inline_until @ '' bytes'') else Inr ()
      | FId _ \<Rightarrow>
          if trim value = [] then Inl (path @ '' must be a non-empty id string'') else Inr ()
      | _ \<Rightarrow> validate_field ops path field (JString value))"

definition validate_optional_string_value ::
  "('n, 'z) number_ops_scheme \<Rightarrow> string \<Rightarrow> field_schema \<Rightarrow> string option \<Rightarrow> string + unit" where
  "validate_optional_string_value ops path field value =
     (case value of
        Some v \<Rightarrow> validate_string_value ops path field v
      | None \<Rightarrow> if fs_optional field then Inr () else Inl (path @ '' is required''))"

definition validate_u64_value ::
  "('n, 'z) number_ops_scheme \<Rightarrow> string \<Rightarrow> field_schema \<Rightarrow> u64 \<Rightarrow> string + unit" where
  "validate_u64_value ops path field value =
     (case fs_type field of
        FInt64 \<Rightarrow> Inr ()
      | FTimeMs \<Rightarrow> Inr ()
      | FJson \<Rightarrow> Inr ()
      | _ \<Rightarrow> validate_field ops path field (JNumber (of_u64 ops value)))"

definition validate_object_ref_value :: "string \<Rightarrow> object_ref \<Rightarrow> string + unit" where
  "validate_object_ref_value path r =
     check_all (\<lambda>(field, value).
       if trim value = [] then Inl (path @ ''.'' @ field @ '' must be a non-empty string'') else Inr ())
       [(''id'', or_id r), (''path'', or_path r), (''contentType'', or_content_type r),
        (''sha256'', or_sha256 r)]"

text \<open>\<open>serde_json::to_value\<close> of object references: the camel-case object of their fields.\<close>

definition object_ref_json :: "('n, 'z) number_ops_scheme \<Rightarrow> object_ref \<Rightarrow> 'n json" where
  "object_ref_json ops r =
     JObject [(''byteSize'', JNumber (of_u64 ops (or_byte_size r))),
       (''contentType'', JString (or_content_type r)), (''id'', JString (or_id r)),
       (''path'', JString (or_path r)), (''sha256'', JString (or_sha256 r))]"

definition validate_object_ref_list_value ::
  "('n, 'z) number_ops_scheme \<Rightarrow> string \<Rightarrow> field_schema \<Rightarrow> object_ref list \<Rightarrow> string + unit" where
  "validate_object_ref_list_value ops path field refs =
     (case fs_type field of
        FList (FObjectRef _) \<Rightarrow>
          check_all (\<lambda>(index, r).
            validate_object_ref_value (path @ ''['' @ decimal index @ '']'') r) (enumerate 0 refs)
      | FJson \<Rightarrow> Inr ()
      | _ \<Rightarrow> validate_field ops path field (JArray (map (object_ref_json ops) refs)))"

definition validate_message_draft_field ::
  "('n, 'z) number_ops_scheme \<Rightarrow> string \<Rightarrow> message_draft \<Rightarrow> string \<times> field_schema \<Rightarrow> string + unit"
where
  "validate_message_draft_field ops path draft = (\<lambda>(name, field).
     let field_path = path @ ''.'' @ name in
     if name = ''id'' then validate_string_value ops field_path field (md_id draft)
     else if name = ''clientMutationId''
     then validate_optional_string_value ops field_path field (md_client_mutation_id draft)
     else if name = ''roomId'' then validate_string_value ops field_path field (md_room_id draft)
     else if name = ''senderId'' then validate_string_value ops field_path field (md_sender_id draft)
     else if name = ''body'' then validate_string_value ops field_path field (md_body draft)
     else if name = ''attachments''
     then validate_object_ref_list_value ops field_path field (md_attachments draft)
     else if name = ''createdAtMs''
     then validate_u64_value ops field_path field (md_created_at_ms draft)
     else if name = ''path'' then validate_string_value ops field_path field (md_path draft)
     else if fs_optional field then Inr () else Inl (field_path @ '' is required''))"

definition validate_message_draft_fields ::
  "('n, 'z) number_ops_scheme \<Rightarrow> string \<Rightarrow> field_map \<Rightarrow> message_draft \<Rightarrow> string + unit" where
  "validate_message_draft_fields ops path fs draft =
     check_all (validate_message_draft_field ops path draft) fs"

section \<open>Lookups of the registry\<close>

definition validate_message_draft ::
  "('n, 'z) number_ops_scheme \<Rightarrow> database_schema \<Rightarrow> message_draft \<Rightarrow> string + unit" where
  "validate_message_draft ops s draft =
     (case nested_schema s ''rooms'' ''messages'' of
        None \<Rightarrow> Inl ''schema missing rooms.messages nested table''
      | Some messages \<Rightarrow>
          validate_message_draft_fields ops ''rooms.messages'' (nts_fields messages) draft)"

definition validate_table_record ::
  "('n, 'z) number_ops_scheme \<Rightarrow> database_schema \<Rightarrow> string \<Rightarrow> 'n json \<Rightarrow> string + unit" where
  "validate_table_record ops s table value =
     (case bt_get (db_tables s) table of
        None \<Rightarrow> Inl (''schema missing table '' @ table)
      | Some t \<Rightarrow> validate_object_fields ops (''tables.'' @ table) (tsc_fields t) value)"

definition validate_nested_table_record ::
  "('n, 'z) number_ops_scheme \<Rightarrow> database_schema \<Rightarrow> string \<Rightarrow> string \<Rightarrow> 'n json \<Rightarrow> string + unit" where
  "validate_nested_table_record ops s table nested value =
     (case nested_schema s table nested of
        None \<Rightarrow> Inl (''schema missing nested table '' @ table @ ''.'' @ nested)
      | Some n \<Rightarrow>
          validate_object_fields ops (''tables.'' @ table @ ''.nested.'' @ nested) (nts_fields n) value)"

definition validate_behavior_input ::
  "('n, 'z) number_ops_scheme \<Rightarrow> database_schema \<Rightarrow> string \<Rightarrow> string \<Rightarrow> 'n json \<Rightarrow> string + unit" where
  "validate_behavior_input ops s behavior mutation value =
     (case Option.bind (bt_get (db_behaviors s) behavior) (\<lambda>ms. field_get ms mutation) of
        None \<Rightarrow> Inl (''schema missing behavior input '' @ behavior @ ''.'' @ mutation)
      | Some field \<Rightarrow> validate_field ops (''behavior.'' @ behavior @ ''.'' @ mutation) field value)"

definition validate_event_payload ::
  "('n, 'z) number_ops_scheme \<Rightarrow> database_schema \<Rightarrow> string \<Rightarrow> 'n json \<Rightarrow> string + unit" where
  "validate_event_payload ops s event value =
     (case bt_get (db_events s) event of
        None \<Rightarrow> Inr ()
      | Some payload \<Rightarrow> validate_field ops (''events.'' @ event @ ''.payload'') payload value)"

definition schema_table_indexes ::
  "database_schema \<Rightarrow> string \<Rightarrow> string + (string, index_schema) btree" where
  "schema_table_indexes s table =
     (case bt_get (db_tables s) table of
        None \<Rightarrow> Inl (''schema missing table '' @ table)
      | Some t \<Rightarrow> Inr (tsc_indexes t))"

definition schema_nested_table_indexes ::
  "database_schema \<Rightarrow> string \<Rightarrow> string \<Rightarrow> string + (string, index_schema) btree" where
  "schema_nested_table_indexes s table nested =
     (case nested_schema s table nested of
        None \<Rightarrow> Inl (''schema missing nested table '' @ table @ ''.'' @ nested)
      | Some n \<Rightarrow> Inr (nts_indexes n))"

definition schema_record_indexes ::
  "database_schema \<Rightarrow> string \<Rightarrow> string + (string, index_schema) btree" where
  "schema_record_indexes s table =
     (case bt_get (db_tables s) table of
        Some t \<Rightarrow> Inr (tsc_indexes t)
      | None \<Rightarrow>
          (case Option.bind (split_once CHR ''.'' table) (\<lambda>(parent, nested). nested_schema s parent nested) of
             Some n \<Rightarrow> Inr (nts_indexes n)
           | None \<Rightarrow> Inl (''schema missing table '' @ table)))"

definition record_table_accepts_volatile :: "database_schema \<Rightarrow> string \<Rightarrow> string + bool" where
  "record_table_accepts_volatile s table =
     res_bind (case bt_get (db_tables s) table of
          Some t \<Rightarrow> Inr (tsc_storage t)
        | None \<Rightarrow>
            (case split_once CHR ''.'' table of
               None \<Rightarrow> Inl (''schema missing table '' @ table)
             | Some (parent, nested) \<Rightarrow>
                 (case nested_schema s parent nested of
                    None \<Rightarrow> Inl (''schema missing table '' @ table)
                  | Some n \<Rightarrow> Inr (nts_storage n))))
       (\<lambda>storage. Inr (case storage of ActorPartition \<Rightarrow> True | Resident \<Rightarrow> True | Lru _ \<Rightarrow> True
          | _ \<Rightarrow> False))"

definition message_live_window :: "database_schema \<Rightarrow> nat option" where
  "message_live_window s =
     (case nested_schema s ''rooms'' ''messages'' of
        None \<Rightarrow> None
      | Some n \<Rightarrow> (case nts_storage n of ChatLog _ _ live_window \<Rightarrow> Some live_window | _ \<Rightarrow> None))"

definition room_lru_max_items :: "database_schema \<Rightarrow> nat option" where
  "room_lru_max_items s =
     (case bt_get (db_tables s) ''rooms'' of
        None \<Rightarrow> None
      | Some t \<Rightarrow> (case tsc_storage t of Lru max_items \<Rightarrow> Some max_items | _ \<Rightarrow> None))"

record storage_policy_entry =
  spe_path :: string
  spe_storage :: storage_class
  spe_physical_role :: string

definition physical_role :: "storage_class \<Rightarrow> string" where
  "physical_role storage =
     (case storage of
        ActorPartition \<Rightarrow> ''actor'' | Resident \<Rightarrow> ''actor'' | Lru _ \<Rightarrow> ''actor''
      | DiskStorage \<Rightarrow> ''disk'' | ChatLog _ _ _ \<Rightarrow> ''chatLog'' | ObjectStorage \<Rightarrow> ''object'')"

definition storage_policy_report :: "database_schema \<Rightarrow> storage_policy_entry list" where
  "storage_policy_report s =
     concat (map (\<lambda>(table_name, t).
       \<lparr>spe_path = ''tables.'' @ table_name, spe_storage = tsc_storage t,
        spe_physical_role = physical_role (tsc_storage t)\<rparr> #
       map (\<lambda>(nested_name, n).
         \<lparr>spe_path = ''tables.'' @ table_name @ ''.nested.'' @ nested_name,
          spe_storage = nts_storage n, spe_physical_role = physical_role (nts_storage n)\<rparr>)
         (bt_entries (tsc_nested t))) (bt_entries (db_tables s)))"

section \<open>Row visibility\<close>

fun rule_allows :: "read_visibility_rule \<Rightarrow> 'n json \<Rightarrow> string \<Rightarrow> bool" where
  "rule_allows (FieldEqualsUserId field) value user_id \<longleftrightarrow>
     (case json_field value field of Some (JString s) \<Rightarrow> s = user_id | _ \<Rightarrow> False)"

definition visibility_is_public :: "read_visibility_policy \<Rightarrow> bool" where
  "visibility_is_public policy \<longleftrightarrow> policy = []"

definition allows_value_for_user ::
  "read_visibility_policy \<Rightarrow> 'n json \<Rightarrow> string option \<Rightarrow> bool" where
  "allows_value_for_user policy value user_id \<longleftrightarrow>
     (if visibility_is_public policy then True
      else case user_id of
        None \<Rightarrow> False
      | Some u \<Rightarrow> \<forall>rule\<in>set policy. rule_allows rule value u)"

section \<open>The check of a schema\<close>

text \<open>Each check returns the messages it pushes, in order.\<close>

fun validate_field_schema ::
  "database_schema \<Rightarrow> string \<Rightarrow> field_type \<Rightarrow> string list"
and validate_field_map :: "database_schema \<Rightarrow> string \<Rightarrow> field_map \<Rightarrow> string list"
where
  "validate_field_schema s path t =
     (case t of
        FText inline_until \<Rightarrow>
          if inline_until = 0 then [path @ ''.inlineUntil must be greater than 0''] else []
      | FId entity \<Rightarrow> if trim entity = [] then [path @ ''.entity must not be empty''] else []
      | FObjectRef object \<Rightarrow>
          if trim object = [] then [path @ ''.object must not be empty'']
          else if \<not> bt_contains (db_objects s) object
          then [path @ ''.object references missing object '' @ object] else []
      | FList item \<Rightarrow> validate_field_schema s (path @ ''.item'') item
      | FObject fs \<Rightarrow> validate_field_map s (path @ ''.fields'') fs
      | _ \<Rightarrow> [])"
| "validate_field_map s path fs =
     (if fs = [] then [path @ '' must not be empty''] else []) @
     concat (map (\<lambda>(name, field).
       (if trim name = [] then [path @ '' contains an empty field name''] else []) @
       (case field of FieldSchema t _ \<Rightarrow> validate_field_schema s (path @ ''.'' @ name @ ''.type'') t)) fs)"

definition parse_storage_field_name :: "string \<Rightarrow> string + string" where
  "parse_storage_field_name field =
     (if trim field = [] then Inl ''must reference a field''
      else if field \<noteq> trim field then Inl ''must not contain surrounding whitespace''
      else Inr field)"

definition parse_chat_log_bucket_field :: "string \<Rightarrow> string + string" where
  "parse_chat_log_bucket_field bucket =
     (case Option.bind (strip_prefix bucket ''day('') (\<lambda>v. strip_suffix v '')'') of
        None \<Rightarrow> Inl ''must be day(field)''
      | Some field \<Rightarrow> parse_storage_field_name field)"

definition parse_chat_log_order_field :: "string \<Rightarrow> string + string" where
  "parse_chat_log_order_field term =
     (case Option.bind (strip_prefix term ''desc('') (\<lambda>v. strip_suffix v '')'') of
        Some field \<Rightarrow> parse_storage_field_name field
      | None \<Rightarrow> parse_storage_field_name term)"

definition validate_storage_class :: "string \<Rightarrow> field_map \<Rightarrow> storage_class \<Rightarrow> string list" where
  "validate_storage_class path fs storage =
     (case storage of
        Lru max_items \<Rightarrow>
          if max_items = 0 then [path @ ''.maxItems must be greater than 0''] else []
      | ChatLog bucket order live_window \<Rightarrow>
          (if live_window = 0 then [path @ ''.liveWindow must be greater than 0''] else []) @
          (if order = [] then [path @ ''.order must not be empty''] else []) @
          (case parse_chat_log_bucket_field bucket of
             Inr field \<Rightarrow>
               if field_contains fs field then []
               else [path @ ''.bucket references missing field '' @ field]
           | Inl message \<Rightarrow> [path @ ''.bucket '' @ message]) @
          concat (map (\<lambda>(index, term).
            case parse_chat_log_order_field term of
              Inr field \<Rightarrow>
                if field_contains fs field then []
                else [path @ ''.order['' @ decimal index @ ''] references missing field '' @ field]
            | Inl message \<Rightarrow> [path @ ''.order['' @ decimal index @ ''] '' @ message])
            (enumerate 0 order))
      | _ \<Rightarrow> [])"

definition is_rule_field_char :: "char \<Rightarrow> bool" where
  "is_rule_field_char c \<longleftrightarrow>
     (let n = of_char c :: nat in
       n \<in> {0x30..0x39} \<or> n \<in> {0x41..0x5A} \<or> n \<in> {0x61..0x7A} \<or> n = 0x5F \<or> n = 0x2D)"

definition validate_read_visibility_rule ::
  "string \<Rightarrow> field_map \<Rightarrow> nat \<times> read_visibility_rule \<Rightarrow> string list" where
  "validate_read_visibility_rule path fs = (\<lambda>(index, rule).
     case rule of FieldEqualsUserId field \<Rightarrow>
     let rule_path = path @ ''.all['' @ decimal index @ '']'' in
     if field = [] \<or> 64 < length field \<or> \<not> list_all is_rule_field_char field
     then [rule_path @ ''.field is invalid'']
     else case field_get fs field of
       None \<Rightarrow> [rule_path @ ''.field references missing field '' @ field]
     | Some field_schema \<Rightarrow>
         (case fs_type field_schema of
            FId entity \<Rightarrow>
              if entity = ''User'' then []
              else [rule_path @ ''.field must reference a User id or string field'']
          | FString \<Rightarrow> []
          | _ \<Rightarrow> [rule_path @ ''.field must reference a User id or string field'']))"

definition validate_read_visibility_policy ::
  "string \<Rightarrow> field_map \<Rightarrow> read_visibility_policy \<Rightarrow> string list" where
  "validate_read_visibility_policy path fs policy =
     (if 8 < length policy then [path @ ''.all supports at most 8 rules''] else []) @
     concat (map (validate_read_visibility_rule path fs) (enumerate 0 policy))"

definition validate_indexes :: "string \<Rightarrow> field_map \<Rightarrow> (string, index_schema) btree \<Rightarrow> string list" where
  "validate_indexes path fs ixs =
     concat (map (\<lambda>(index_name, ix).
       (if ixs_fields ix = [] then [path @ ''.indexes.'' @ index_name @ ''.fields must not be empty'']
        else []) @
       concat (map (\<lambda>field.
         if field_contains fs field then []
         else [path @ ''.indexes.'' @ index_name @ ''.fields references missing field '' @ field])
         (ixs_fields ix))) (bt_entries ixs))"

definition validate_nested_schema ::
  "database_schema \<Rightarrow> string \<Rightarrow> string \<times> nested_table_schema \<Rightarrow> string list" where
  "validate_nested_schema s table_path = (\<lambda>(nested_name, n).
     let path = table_path @ ''.nested.'' @ nested_name in
     validate_field_map s (path @ ''.fields'') (nts_fields n) @
     validate_storage_class (path @ ''.storage'') (nts_fields n) (nts_storage n) @
     validate_read_visibility_policy (path @ ''.readVisibility'') (nts_fields n)
       (nts_read_visibility n) @
     validate_indexes path (nts_fields n) (nts_indexes n))"

definition validate_table_schema :: "database_schema \<Rightarrow> string \<times> table_schema \<Rightarrow> string list" where
  "validate_table_schema s = (\<lambda>(table_name, t).
     let path = ''tables.'' @ table_name in
     validate_field_map s (path @ ''.fields'') (tsc_fields t) @
     validate_storage_class (path @ ''.storage'') (tsc_fields t) (tsc_storage t) @
     validate_read_visibility_policy (path @ ''.readVisibility'') (tsc_fields t)
       (tsc_read_visibility t) @
     validate_indexes path (tsc_fields t) (tsc_indexes t) @
     concat (map (validate_nested_schema s path) (bt_entries (tsc_nested t))))"

definition required_message_fields :: "database_schema \<Rightarrow> string list" where
  "required_message_fields s =
     (case nested_schema s ''rooms'' ''messages'' of
        None \<Rightarrow> []
      | Some messages \<Rightarrow>
          concat (map (\<lambda>field.
            if field_contains (nts_fields messages) field then []
            else [''tables.rooms.nested.messages.fields.'' @ field @ '' is required''])
            [''id'', ''roomId'', ''senderId'', ''body'', ''attachments'', ''createdAtMs'', ''path'']))"

record schema_validation_report =
  svr_ok :: bool
  svr_errors :: "string list"

definition validation_report :: "database_schema \<Rightarrow> schema_validation_report" where
  "validation_report s =
     (let errors =
        (if trim (db_name s) = [] then [''schema.name is required''] else []) @
        (if bt_contains (db_objects s) ''Object'' then []
         else [''objects.Object is required for ObjectRef fields'']) @
        concat (map (\<lambda>(object_name, fs).
          validate_field_map s (''objects.'' @ object_name @ ''.fields'') fs)
          (bt_entries (db_objects s))) @
        required_message_fields s @
        concat (map (\<lambda>(behavior_name, mutations).
          (if mutations = []
           then [''behaviors.'' @ behavior_name @ ''.mutations must not be empty''] else []) @
          validate_field_map s (''behaviors.'' @ behavior_name @ ''.mutations'') mutations)
          (bt_entries (db_behaviors s))) @
        concat (map (\<lambda>(event_name, payload).
          (if trim event_name = [] then [''events contains an empty event name''] else []) @
          validate_field_schema s (''events.'' @ event_name @ ''.payload.type'') (fs_type payload))
          (bt_entries (db_events s))) @
        concat (map (validate_table_schema s) (bt_entries (db_tables s)))
      in \<lparr>svr_ok = (errors = []), svr_errors = errors\<rparr>)"

definition report_into_result :: "schema_validation_report \<Rightarrow> string + unit" where
  "report_into_result report =
     (if svr_ok report then Inr ()
      else Inl (''invalid schema: '' @ join ''; '' (svr_errors report)))"

section \<open>The migration plan\<close>

text \<open>
  The plan collects messages in several vectors that the checks push to; \<open>plan_changes\<close> is
  the state of those vectors, and each check is a step on it.
\<close>

record plan_changes =
  pc_errors :: "string list"
  pc_replay_safe :: "string list"
  pc_unsafe :: "string list"
  pc_rebuild :: "string list"

definition no_changes :: plan_changes where
  "no_changes = \<lparr>pc_errors = [], pc_replay_safe = [], pc_unsafe = [], pc_rebuild = []\<rparr>"

definition push_replay_safe :: "string \<Rightarrow> plan_changes \<Rightarrow> plan_changes" where
  "push_replay_safe message c =
     c\<lparr>pc_errors := pc_errors c @ [message], pc_replay_safe := pc_replay_safe c @ [message]\<rparr>"

definition push_unsafe :: "string \<Rightarrow> plan_changes \<Rightarrow> plan_changes" where
  "push_unsafe message c =
     c\<lparr>pc_errors := pc_errors c @ [message], pc_unsafe := pc_unsafe c @ [message]\<rparr>"

definition push_projection_rebuild_reason :: "string \<Rightarrow> plan_changes \<Rightarrow> plan_changes" where
  "push_projection_rebuild_reason reason c =
     (if reason \<in> set (pc_rebuild c) then c else c\<lparr>pc_rebuild := pc_rebuild c @ [reason]\<rparr>)"

definition refuse_added_field ::
  "string \<Rightarrow> field_map \<Rightarrow> string \<times> field_schema \<Rightarrow> plan_changes \<Rightarrow> plan_changes" where
  "refuse_added_field path current = (\<lambda>(name, field) c.
     if \<not> field_contains current name \<and> \<not> fs_optional field
     then push_unsafe (path @ ''.fields.'' @ name @ '' required field cannot be added'') c
     else c)"

fun check_field_shape_change ::
  "string \<Rightarrow> field_schema \<Rightarrow> field_schema \<Rightarrow> plan_changes \<Rightarrow> plan_changes"
and check_field_type_shape_change ::
  "string \<Rightarrow> field_type \<Rightarrow> field_type \<Rightarrow> plan_changes \<Rightarrow> plan_changes"
where
  "check_field_shape_change path (FieldSchema t opt) candidate c =
     (let c = check_field_type_shape_change path t (fs_type candidate) c in
      if opt \<noteq> fs_optional candidate
      then push_unsafe (path @ '' optional flag cannot change'') c else c)"
| "check_field_type_shape_change path (FObject current) candidate c =
     (case candidate of
        FObject candidate_fields \<Rightarrow>
          fold (refuse_added_field path current) candidate_fields
            (fold (\<lambda>(name, field) c.
               case field_get candidate_fields name of
                 None \<Rightarrow> push_unsafe (path @ ''.fields.'' @ name @ '' cannot be removed'') c
               | Some candidate_field \<Rightarrow>
                   check_field_shape_change (path @ ''.fields.'' @ name) field candidate_field c)
               current c)
      | _ \<Rightarrow> push_unsafe (path @ '' type cannot change'') c)"
| "check_field_type_shape_change path current candidate c =
     (if current = candidate then c else push_unsafe (path @ '' type cannot change'') c)"

definition check_field_changes ::
  "string \<Rightarrow> field_map \<Rightarrow> field_map \<Rightarrow> plan_changes \<Rightarrow> plan_changes" where
  "check_field_changes path current candidate =
     fold (\<lambda>(name, field) c.
       case field_get candidate name of
         None \<Rightarrow>
           push_projection_rebuild_reason (path @ ''.'' @ name @ '' removed'')
             (push_replay_safe (path @ ''.'' @ name @ '' cannot be removed'') c)
       | Some candidate_field \<Rightarrow>
           check_field_shape_change (path @ ''.'' @ name) field candidate_field c) current"

definition check_behavior_mutation_changes ::
  "string \<Rightarrow> field_map \<Rightarrow> field_map \<Rightarrow> plan_changes \<Rightarrow> plan_changes" where
  "check_behavior_mutation_changes path current candidate =
     fold (\<lambda>(name, mutation) c.
       case field_get candidate name of
         None \<Rightarrow> push_unsafe (path @ ''.'' @ name @ '' cannot be removed'') c
       | Some candidate_mutation \<Rightarrow>
           check_field_shape_change (path @ ''.'' @ name) mutation candidate_mutation c) current"

definition check_record_projection_shape_changes ::
  "string \<Rightarrow> storage_class \<Rightarrow> storage_class \<Rightarrow> (string, index_schema) btree \<Rightarrow>
     (string, index_schema) btree \<Rightarrow> plan_changes \<Rightarrow> plan_changes" where
  "check_record_projection_shape_changes path current_storage candidate_storage current_indexes
       candidate_indexes c =
     (let c = (if current_storage \<noteq> candidate_storage
               then push_projection_rebuild_reason (path @ ''.storage changed'') c else c)
      in if current_indexes \<noteq> candidate_indexes
         then push_projection_rebuild_reason (path @ ''.indexes changed'') c else c)"

definition check_nested_changes ::
  "string \<Rightarrow> table_schema \<Rightarrow> string \<times> nested_table_schema \<Rightarrow> plan_changes \<Rightarrow> plan_changes" where
  "check_nested_changes table candidate = (\<lambda>(nested_name, n) c.
     case bt_get (tsc_nested candidate) nested_name of
       None \<Rightarrow>
         push_replay_safe (''nested table '' @ table @ ''.'' @ nested_name @ '' cannot be removed'') c
     | Some n' \<Rightarrow>
         let path = ''tables.'' @ table @ ''.nested.'' @ nested_name in
         check_record_projection_shape_changes path (nts_storage n) (nts_storage n')
           (nts_indexes n) (nts_indexes n')
           (check_field_changes (path @ ''.fields'') (nts_fields n) (nts_fields n') c))"

definition check_table_changes ::
  "database_schema \<Rightarrow> string \<times> table_schema \<Rightarrow> plan_changes \<Rightarrow> plan_changes" where
  "check_table_changes candidate = (\<lambda>(table, t) c.
     case bt_get (db_tables candidate) table of
       None \<Rightarrow> push_replay_safe (''table '' @ table @ '' cannot be removed'') c
     | Some t' \<Rightarrow>
         fold (check_nested_changes table t') (bt_entries (tsc_nested t))
           (check_record_projection_shape_changes (''tables.'' @ table) (tsc_storage t)
             (tsc_storage t') (tsc_indexes t) (tsc_indexes t')
             (check_field_changes (''tables.'' @ table @ ''.fields'') (tsc_fields t)
               (tsc_fields t') c)))"

definition check_object_changes ::
  "database_schema \<Rightarrow> string \<times> field_map \<Rightarrow> plan_changes \<Rightarrow> plan_changes" where
  "check_object_changes candidate = (\<lambda>(object, fs) c.
     case bt_get (db_objects candidate) object of
       None \<Rightarrow> push_replay_safe (''object '' @ object @ '' cannot be removed'') c
     | Some fs' \<Rightarrow> check_field_changes (''objects.'' @ object @ ''.fields'') fs fs' c)"

definition check_event_changes ::
  "database_schema \<Rightarrow> string \<times> field_schema \<Rightarrow> plan_changes \<Rightarrow> plan_changes" where
  "check_event_changes candidate = (\<lambda>(event, payload) c.
     case bt_get (db_events candidate) event of
       None \<Rightarrow> push_replay_safe (''event '' @ event @ '' cannot be removed'') c
     | Some payload' \<Rightarrow> check_field_shape_change (''events.'' @ event @ ''.payload'') payload payload' c)"

definition check_behavior_changes ::
  "database_schema \<Rightarrow> string \<times> field_map \<Rightarrow> plan_changes \<Rightarrow> plan_changes" where
  "check_behavior_changes candidate = (\<lambda>(behavior, mutations) c.
     case bt_get (db_behaviors candidate) behavior of
       None \<Rightarrow> push_replay_safe (''behavior '' @ behavior @ '' cannot be removed'') c
     | Some mutations' \<Rightarrow>
         check_behavior_mutation_changes (''behaviors.'' @ behavior @ ''.mutations'') mutations
           mutations' c)"

record schema_migration_plan =
  smp_from_version :: u32
  smp_to_version :: u32
  smp_compatible :: bool
  smp_errors :: "string list"
  smp_warnings :: "string list"
  smp_requires_replay_rebuild :: bool
  smp_replay_safe :: "string list"
  smp_unsafe :: "string list"
  smp_projection_rebuild_required :: bool
  smp_projection_rebuild_reasons :: "string list"

definition version_check :: "database_schema \<Rightarrow> database_schema \<Rightarrow> plan_changes \<Rightarrow> plan_changes" where
  "version_check current candidate c =
     (if db_version candidate < db_version current
      then push_unsafe (''schema version cannot decrease from '' @ decimal (unat (db_version current)) @
             '' to '' @ decimal (unat (db_version candidate))) c
      else c)"

definition plan_between :: "database_schema \<Rightarrow> database_schema \<Rightarrow> schema_migration_plan" where
  "plan_between current candidate =
     (let c = version_check current candidate no_changes;
          warnings =
            (if db_version candidate = db_version current \<and> candidate \<noteq> current
             then [''schema content changed without version bump at version '' @
                   decimal (unat (db_version current))] else []);
          c = fold (check_table_changes candidate) (bt_entries (db_tables current)) c;
          c = fold (check_object_changes candidate) (bt_entries (db_objects current)) c;
          c = fold (check_event_changes candidate) (bt_entries (db_events current)) c;
          c = fold (check_behavior_changes candidate) (bt_entries (db_behaviors current)) c
      in \<lparr>smp_from_version = db_version current, smp_to_version = db_version candidate,
          smp_compatible = (pc_errors c = []), smp_errors = pc_errors c, smp_warnings = warnings,
          smp_requires_replay_rebuild = (pc_replay_safe c \<noteq> []), smp_replay_safe = pc_replay_safe c,
          smp_unsafe = pc_unsafe c, smp_projection_rebuild_required = (pc_rebuild c \<noteq> []),
          smp_projection_rebuild_reasons = pc_rebuild c\<rparr>)"

definition can_replay_rebuild :: "schema_migration_plan \<Rightarrow> bool" where
  "can_replay_rebuild plan \<longleftrightarrow>
     \<not> smp_compatible plan \<and> smp_requires_replay_rebuild plan \<and> smp_unsafe plan = []"

definition plan_into_result :: "schema_migration_plan \<Rightarrow> string + unit" where
  "plan_into_result plan =
     (if smp_compatible plan then Inr ()
      else Inl (''incompatible schema migration: '' @ join ''; '' (smp_errors plan)))"

section \<open>What the migration checks accept\<close>

text \<open>
  The shapes a compatible migration keeps, stated without the vectors of messages: a field
  keeps its type and its optional flag, and an object field keeps its fields and gains only
  optional ones.
\<close>

fun keeps_shape :: "field_schema \<Rightarrow> field_schema \<Rightarrow> bool"
and keeps_type :: "field_type \<Rightarrow> field_type \<Rightarrow> bool"
where
  "keeps_shape (FieldSchema t opt) candidate \<longleftrightarrow>
     keeps_type t (fs_type candidate) \<and> opt = fs_optional candidate"
| "keeps_type (FObject current) candidate \<longleftrightarrow>
     (case candidate of
        FObject fs \<Rightarrow>
          (\<forall>(name, field)\<in>set current.
             case field_get fs name of None \<Rightarrow> False | Some field' \<Rightarrow> keeps_shape field field') \<and>
          (\<forall>(name, field)\<in>set fs. field_contains current name \<or> fs_optional field)
      | _ \<Rightarrow> False)"
| "keeps_type current candidate \<longleftrightarrow> current = candidate"

definition keeps_fields :: "field_map \<Rightarrow> field_map \<Rightarrow> bool" where
  "keeps_fields current candidate \<longleftrightarrow>
     (\<forall>(name, field)\<in>set current.
        case field_get candidate name of None \<Rightarrow> False | Some field' \<Rightarrow> keeps_shape field field')"

text \<open>A check is a step whose first message appears exactly where its condition fails.\<close>

definition refuses_unless :: "(plan_changes \<Rightarrow> plan_changes) \<Rightarrow> bool \<Rightarrow> bool" where
  "refuses_unless step P \<longleftrightarrow> (\<forall>c. pc_errors (step c) = [] \<longleftrightarrow> pc_errors c = [] \<and> P)"

lemma refuses_unlessI: "(\<And>c. pc_errors (step c) = [] \<longleftrightarrow> pc_errors c = [] \<and> P) \<Longrightarrow> refuses_unless step P"
  by (simp add: refuses_unless_def)

lemma refuses_unlessD: "refuses_unless step P \<Longrightarrow> pc_errors (step c) = [] \<longleftrightarrow> pc_errors c = [] \<and> P"
  by (simp add: refuses_unless_def)

lemma errors_of_push [simp]:
  "pc_errors (push_replay_safe m c) = pc_errors c @ [m]"
  "pc_errors (push_unsafe m c) = pc_errors c @ [m]"
  "pc_errors (push_projection_rebuild_reason m c) = pc_errors c"
  by (simp_all add: push_replay_safe_def push_unsafe_def push_projection_rebuild_reason_def)

lemma refuses_fold:
  assumes "\<And>x. x \<in> set xs \<Longrightarrow> refuses_unless (f x) (P x)"
  shows "refuses_unless (fold f xs) (\<forall>x\<in>set xs. P x)"
  using assms
proof (induction xs)
  case Nil
  then show ?case by (simp add: refuses_unless_def)
next
  case (Cons x xs)
  then have "refuses_unless (f x) (P x)" "refuses_unless (fold f xs) (\<forall>x\<in>set xs. P x)" by auto
  then show ?case by (auto simp: refuses_unless_def)
qed

lemma refuses_comp:
  "refuses_unless f P \<Longrightarrow> refuses_unless g Q \<Longrightarrow> refuses_unless (\<lambda>c. g (f c)) (P \<and> Q)"
  by (auto simp: refuses_unless_def)

lemma refuse_added_field_iff:
  "refuses_unless (refuse_added_field path current nf)
     (case nf of (name, field) \<Rightarrow> field_contains current name \<or> fs_optional field)"
  by (auto simp: refuses_unless_def refuse_added_field_def split: prod.split)

lemma check_shape_errors:
  "pc_errors (check_field_shape_change path f f' c) = [] \<longleftrightarrow> pc_errors c = [] \<and> keeps_shape f f'"
  "pc_errors (check_field_type_shape_change path t t' c) = [] \<longleftrightarrow> pc_errors c = [] \<and> keeps_type t t'"
proof (induction path f f' c and path t t' c
    rule: check_field_shape_change_check_field_type_shape_change.induct)
  case (1 path t opt candidate c)
  then show ?case by (auto simp: Let_def)
next
  case (2 path current candidate c)
  show ?case
  proof (cases candidate)
    case (FObject fs)
    let ?keep = "\<lambda>(name, field). case field_get fs name of None \<Rightarrow> False | Some field' \<Rightarrow> keeps_shape field field'"
    have "refuses_unless (fold (\<lambda>(name, field) c. case field_get fs name of
               None \<Rightarrow> push_unsafe (path @ ''.fields.'' @ name @ '' cannot be removed'') c
             | Some field' \<Rightarrow> check_field_shape_change (path @ ''.fields.'' @ name) field field' c) current)
        (\<forall>x\<in>set current. ?keep x)"
      by (rule refuses_fold)
         (auto simp: refuses_unless_def 2 [OF FObject _ refl] simp del: append_Cons split: option.split prod.split)
    moreover have "refuses_unless (fold (refuse_added_field path current) fs)
        (\<forall>x\<in>set fs. case x of (name, field) \<Rightarrow> field_contains current name \<or> fs_optional field)"
      by (rule refuses_fold) (rule refuse_added_field_iff)
    ultimately show ?thesis
      by (simp add: FObject refuses_unless_def)
  qed simp_all
qed simp_all

lemma check_field_changes_iff:
  "refuses_unless (check_field_changes path current candidate) (keeps_fields current candidate)"
  "refuses_unless (check_behavior_mutation_changes path current candidate) (keeps_fields current candidate)"
  unfolding check_field_changes_def check_behavior_mutation_changes_def keeps_fields_def
  by (rule refuses_fold;
      simp add: refuses_unless_def check_shape_errors del: append_Cons
        split: option.split prod.split)+

lemma check_record_projection_shape_errors [simp]:
  "pc_errors (check_record_projection_shape_changes path st st' ix ix' c) = pc_errors c"
  by (simp add: check_record_projection_shape_changes_def Let_def)

definition keeps_nested :: "table_schema \<Rightarrow> string \<times> nested_table_schema \<Rightarrow> bool" where
  "keeps_nested candidate = (\<lambda>(name, n).
     case bt_get (tsc_nested candidate) name of
       None \<Rightarrow> False | Some n' \<Rightarrow> keeps_fields (nts_fields n) (nts_fields n'))"

definition keeps_table :: "database_schema \<Rightarrow> string \<times> table_schema \<Rightarrow> bool" where
  "keeps_table candidate = (\<lambda>(name, t).
     case bt_get (db_tables candidate) name of
       None \<Rightarrow> False
     | Some t' \<Rightarrow> keeps_fields (tsc_fields t) (tsc_fields t') \<and>
         (\<forall>n\<in>set (bt_entries (tsc_nested t)). keeps_nested t' n))"

definition keeps_field_maps :: "(string, field_map) btree \<Rightarrow> string \<times> field_map \<Rightarrow> bool" where
  "keeps_field_maps candidate = (\<lambda>(name, fs).
     case bt_get candidate name of None \<Rightarrow> False | Some fs' \<Rightarrow> keeps_fields fs fs')"

definition keeps_event :: "database_schema \<Rightarrow> string \<times> field_schema \<Rightarrow> bool" where
  "keeps_event candidate = (\<lambda>(name, payload).
     case bt_get (db_events candidate) name of None \<Rightarrow> False | Some payload' \<Rightarrow> keeps_shape payload payload')"

lemmas keeps_defs = keeps_nested_def keeps_table_def keeps_field_maps_def keeps_event_def
lemmas check_defs = check_nested_changes_def check_table_changes_def check_object_changes_def
  check_event_changes_def check_behavior_changes_def
lemmas check_errors = check_field_changes_iff [THEN refuses_unlessD] check_shape_errors

lemma check_parts_iff:
  "refuses_unless (check_nested_changes table t' n) (keeps_nested t' n)"
  "refuses_unless (check_object_changes cand obj) (keeps_field_maps (db_objects cand) obj)"
  "refuses_unless (check_event_changes cand ev) (keeps_event cand ev)"
  "refuses_unless (check_behavior_changes cand beh) (keeps_field_maps (db_behaviors cand) beh)"
  by (simp_all add: refuses_unless_def check_defs keeps_defs check_errors Let_def
      del: append_Cons split: option.split prod.split)

lemma check_table_iff: "refuses_unless (check_table_changes cand t) (keeps_table cand t)"
proof -
  have nested: "pc_errors (fold (check_nested_changes table t') ns c) = [] \<longleftrightarrow>
      pc_errors c = [] \<and> (\<forall>n\<in>set ns. keeps_nested t' n)" for table t' ns c
    by (rule refuses_unlessD, rule refuses_fold, rule check_parts_iff)
  show ?thesis
    by (auto simp: refuses_unless_def check_table_changes_def keeps_table_def check_errors nested
        simp del: append_Cons split: option.split prod.split)
qed

lemma ball_entries: "(\<forall>x\<in>set (bt_entries m). P x) \<longleftrightarrow> (\<forall>k v. bt_get m k = Some v \<longrightarrow> P (k, v))"
  by (auto simp flip: in_entries)

text \<open>
  A plan is compatible exactly where the version does not go back and every table, nested
  table, object, event and behavior of the current schema is still there with its shape.
\<close>

lemma plan_compatible_iff:
  "smp_compatible (plan_between current candidate) \<longleftrightarrow>
     db_version current \<le> db_version candidate
     \<and> (\<forall>t\<in>set (bt_entries (db_tables current)). keeps_table candidate t)
     \<and> (\<forall>ob\<in>set (bt_entries (db_objects current)). keeps_field_maps (db_objects candidate) ob)
     \<and> (\<forall>ev\<in>set (bt_entries (db_events current)). keeps_event candidate ev)
     \<and> (\<forall>b\<in>set (bt_entries (db_behaviors current)). keeps_field_maps (db_behaviors candidate) b)"
proof -
  have steps: "refuses_unless (fold (check_table_changes candidate) ts) (\<forall>t\<in>set ts. keeps_table candidate t)"
    "refuses_unless (fold (check_object_changes candidate) os)
       (\<forall>ob\<in>set os. keeps_field_maps (db_objects candidate) ob)"
    "refuses_unless (fold (check_event_changes candidate) es) (\<forall>ev\<in>set es. keeps_event candidate ev)"
    "refuses_unless (fold (check_behavior_changes candidate) bs)
       (\<forall>b\<in>set bs. keeps_field_maps (db_behaviors candidate) b)" for ts os es bs
    by (rule refuses_fold, rule check_table_iff check_parts_iff)+
  have version: "pc_errors (version_check current candidate no_changes) = [] \<longleftrightarrow>
      db_version current \<le> db_version candidate"
    by (auto simp: version_check_def no_changes_def not_less)
  show ?thesis
    by (simp add: plan_between_def Let_def steps [THEN refuses_unlessD] version conj_assoc)
qed

section \<open>Rows across a migration\<close>

text \<open>
  The invariant of a \<open>BTreeMap\<close> at every level of a field map, and the rows that carry
  nothing under a name their schema does not declare: validation ignores such entries.
\<close>

fun field_ok :: "field_schema \<Rightarrow> bool" and type_ok :: "field_type \<Rightarrow> bool" where
  "field_ok (FieldSchema t opt) \<longleftrightarrow> type_ok t"
| "type_ok (FObject fs) \<longleftrightarrow> ascending fs \<and> (\<forall>(name, field)\<in>set fs. field_ok field)"
| "type_ok (FList item) \<longleftrightarrow> type_ok item"
| "type_ok t \<longleftrightarrow> True"

definition fields_ok :: "field_map \<Rightarrow> bool" where
  "fields_ok fs \<longleftrightarrow> type_ok (FObject fs)"

definition schema_ok :: "database_schema \<Rightarrow> bool" where
  "schema_ok s \<longleftrightarrow>
     (\<forall>table t. bt_get (db_tables s) table = Some t \<longrightarrow> fields_ok (tsc_fields t)
        \<and> (\<forall>nested n. bt_get (tsc_nested t) nested = Some n \<longrightarrow> fields_ok (nts_fields n)))
     \<and> (\<forall>object fs. bt_get (db_objects s) object = Some fs \<longrightarrow> fields_ok fs)
     \<and> (\<forall>event payload. bt_get (db_events s) event = Some payload \<longrightarrow> field_ok payload)
     \<and> (\<forall>behavior fs. bt_get (db_behaviors s) behavior = Some fs \<longrightarrow> fields_ok fs)"

fun declared_only :: "field_schema \<Rightarrow> 'n json \<Rightarrow> bool"
and declared_only_fields :: "field_map \<Rightarrow> 'n json \<Rightarrow> bool"
where
  "declared_only (FieldSchema t opt) value \<longleftrightarrow>
     (case t of FObject fs \<Rightarrow> declared_only_fields fs value | _ \<Rightarrow> True)"
| "declared_only_fields fs value \<longleftrightarrow>
     (case value of
        JObject entries \<Rightarrow>
          (\<forall>(key, v)\<in>set entries. field_contains fs key) \<and>
          (\<forall>(name, field)\<in>set fs.
             case map_of entries name of None \<Rightarrow> True | Some v \<Rightarrow> declared_only field v)
      | _ \<Rightarrow> True)"

lemma field_get_iff: "ascending fs \<Longrightarrow> field_get fs name = Some field \<longleftrightarrow> (name, field) \<in> set fs"
  by (simp add: field_get_def ascending_map_of)

lemma field_getD: "field_get fs name = Some field \<Longrightarrow> (name, field) \<in> set fs"
  by (simp add: field_get_def map_of_SomeD)

text \<open>The values of a field type, with no path and no message.\<close>

fun has_field :: "('n, 'z) number_ops_scheme \<Rightarrow> field_schema \<Rightarrow> 'n json \<Rightarrow> bool"
and has_type :: "('n, 'z) number_ops_scheme \<Rightarrow> field_type \<Rightarrow> 'n json \<Rightarrow> bool"
where
  "has_field ops (FieldSchema t opt) v \<longleftrightarrow> (if v = JNull then opt else has_type ops t v)"
| "has_type ops FString v \<longleftrightarrow> (case v of JString _ \<Rightarrow> True | _ \<Rightarrow> False)"
| "has_type ops (FText inline_until) v \<longleftrightarrow> (case v of JString text \<Rightarrow> length text \<le> inline_until | _ \<Rightarrow> False)"
| "has_type ops FInt64 v \<longleftrightarrow> is_json_integer ops v"
| "has_type ops FTimeMs v \<longleftrightarrow> is_json_integer ops v"
| "has_type ops FBoolean v \<longleftrightarrow> (case v of JBool _ \<Rightarrow> True | _ \<Rightarrow> False)"
| "has_type ops (FId entity) v \<longleftrightarrow> nonempty_string (Some v)"
| "has_type ops (FObjectRef object) v \<longleftrightarrow>
     (case v of
        JObject entries \<Rightarrow>
          list_all (\<lambda>key. nonempty_string (map_of entries key)) [''id'', ''path'', ''contentType'', ''sha256'']
          \<and> (case map_of entries ''byteSize'' of Some (JNumber n) \<Rightarrow> as_u64 ops n \<noteq> None | _ \<Rightarrow> False)
      | _ \<Rightarrow> False)"
| "has_type ops (FList item) v \<longleftrightarrow>
     (case v of JArray vs \<Rightarrow> (\<forall>w\<in>set vs. has_field ops (FieldSchema item False) w) | _ \<Rightarrow> False)"
| "has_type ops (FObject fs) v \<longleftrightarrow>
     (case v of
        JObject entries \<Rightarrow>
          (\<forall>(name, field)\<in>set fs.
             case map_of entries name of Some w \<Rightarrow> has_field ops field w | None \<Rightarrow> fs_optional field)
      | _ \<Rightarrow> False)"
| "has_type ops FJson v \<longleftrightarrow> True"

lemma validate_object_ref_iff:
  "validate_object_ref ops path v = Inr () \<longleftrightarrow> has_type ops (FObjectRef ob) v"
  by (cases v) (auto simp: validate_object_ref_def)

lemma check_enumerated:
  assumes "\<And>index w. (index, w) \<in> set (enumerate n vs) \<Longrightarrow> f index w = Inr () \<longleftrightarrow> P w"
  shows "check_all (\<lambda>(index, w). f index w) (enumerate n vs) = Inr () \<longleftrightarrow> (\<forall>w\<in>set vs. P w)"
  using assms
proof (induction vs arbitrary: n)
  case (Cons w vs)
  then have "check_all (\<lambda>(index, w). f index w) (enumerate (Suc n) vs) = Inr () \<longleftrightarrow> (\<forall>w\<in>set vs. P w)"
    "f n w = Inr () \<longleftrightarrow> P w" by simp_all
  then show ?case by (auto simp del: check_all_ok)
qed simp

lemma validate_iff:
  "validate_field ops path field v = Inr () \<longleftrightarrow> has_field ops field v"
  "validate_object_fields ops path fs v = Inr () \<longleftrightarrow> has_type ops (FObject fs) v"
proof (induction ops path field v and ops path fs v
    rule: validate_field_validate_object_fields.induct)
  case (1 ops path t opt w)
  show ?case
  proof (cases t)
    case (FList item)
    show ?thesis
    proof (cases w)
      case (JArray vs)
      have "validate_field ops path (FieldSchema t opt) w =
          check_all (\<lambda>(index, u). validate_field ops (path @ ''['' @ decimal index @ '']'')
            (FieldSchema item False) u) (enumerate 0 vs)"
        by (subst validate_field.simps)
           (simp only: FList JArray json.case json.distinct field_type.case if_False)
      also have "\<dots> = Inr () \<longleftrightarrow> (\<forall>u\<in>set vs. has_field ops (FieldSchema item False) u)"
        by (rule check_enumerated, rule 1(1) [OF _ FList JArray]) (simp_all add: JArray)
      finally show ?thesis by (simp add: FList JArray)
    qed (simp_all add: FList)
  next
    case (FObject fs)
    show ?thesis by (cases "w = JNull") (simp_all add: FObject 1(2) [OF _ FObject] del: has_type.simps validate_object_fields.simps)
  next
    case (FObjectRef ob)
    show ?thesis
      by (cases "w = JNull") (simp_all add: FObjectRef validate_object_ref_iff [where ob = ob] del: has_type.simps)
  qed (cases w; simp)+
next
  case (2 ops path fs w)
  show ?case
  proof (cases w)
    case (JObject entries)
    have "(case map_of entries name of
            Some u \<Rightarrow> validate_field ops (path @ ''.'' @ name) field u
          | None \<Rightarrow> if fs_optional field then Inr () else Inl (path @ ''.'' @ name @ '' is required'')) = Inr ()
        \<longleftrightarrow> (case map_of entries name of Some u \<Rightarrow> has_field ops field u | None \<Rightarrow> fs_optional field)"
      if "(name, field) \<in> set fs" for name field
      using 2 [OF JObject that refl] by (simp del: append_Cons split: option.split)
    then show ?thesis by (auto simp: JObject simp del: append_Cons)
  qed simp_all
qed

definition declared_in :: "field_type \<Rightarrow> 'n json \<Rightarrow> bool" where
  "declared_in t v \<longleftrightarrow> (case t of FObject fs \<Rightarrow> declared_only_fields fs v | _ \<Rightarrow> True)"

lemma declared_only_iff: "declared_only (FieldSchema t opt) v \<longleftrightarrow> declared_in t v"
  by (simp add: declared_in_def del: declared_only_fields.simps split: field_type.split)

lemma keeps_optional: "keeps_shape f f' \<Longrightarrow> fs_optional f' = fs_optional f"
  by (cases f) simp

lemma keeps_values:
  "keeps_shape f f' \<Longrightarrow> has_field ops f v \<Longrightarrow> declared_only f v \<Longrightarrow> field_ok f' \<Longrightarrow> has_field ops f' v"
  "keeps_type t t' \<Longrightarrow> has_type ops t v \<Longrightarrow> declared_in t v \<Longrightarrow> type_ok t' \<Longrightarrow> has_type ops t' v"
proof (induction f f' and t t' arbitrary: v and v rule: keeps_shape_keeps_type.induct)
  case (1 t opt candidate)
  then show ?case by (cases candidate) (auto simp: declared_only_iff simp del: declared_only.simps split: if_splits)
next
  case (2 current candidate)
  obtain fs where fs: "candidate = FObject fs"
    and keeps: "\<forall>(name, field)\<in>set current.
        case field_get fs name of None \<Rightarrow> False | Some field' \<Rightarrow> keeps_shape field field'"
    and added: "\<forall>(name, field)\<in>set fs. field_contains current name \<or> fs_optional field"
    using 2(2) by (cases candidate) auto
  obtain entries where v: "v = JObject entries"
    and old: "\<forall>(name, field)\<in>set current.
        case map_of entries name of Some w \<Rightarrow> has_field ops field w | None \<Rightarrow> fs_optional field"
    using 2(3) by (cases v) auto
  have declared: "\<forall>(key, u)\<in>set entries. field_contains current key"
    and inner: "\<forall>(name, field)\<in>set current.
        case map_of entries name of None \<Rightarrow> True | Some w \<Rightarrow> declared_only field w"
    using 2(4) by (auto simp: declared_in_def v)
  have asc: "ascending fs" and ok: "\<forall>(name, field)\<in>set fs. field_ok field"
    using 2(5) by (auto simp: fs)
  have "case map_of entries name of Some w \<Rightarrow> has_field ops field' w | None \<Rightarrow> fs_optional field'"
    if new: "(name, field') \<in> set fs" for name field'
  proof (cases "field_contains current name")
    case True
    then obtain field where field: "(name, field) \<in> set current"
      by (auto simp: field_contains_def dest: field_getD)
    have get: "field_get fs name = Some field'" using new asc by (simp add: field_get_iff)
    then have shape: "keeps_shape field field'" using keeps field by force
    show ?thesis
    proof (cases "map_of entries name")
      case None
      then show ?thesis using old field keeps_optional [OF shape] by force
    next
      case (Some u)
      then have "has_field ops field u" "declared_only field u" "field_ok field'"
        using old inner ok field new by force+
      then show ?thesis
        using 2(1) [OF fs field refl get shape] Some by simp
    qed
  next
    case False
    then have "map_of entries name = None"
      using declared by (auto simp: map_of_eq_None_iff)
    then show ?thesis using added new False by auto
  qed
  then show ?case by (auto simp: fs v)
qed auto

lemma keeps_table_fields:
  assumes "smp_compatible (plan_between current candidate)" and "bt_get (db_tables current) table = Some t"
  obtains t' where "bt_get (db_tables candidate) table = Some t'"
    and "keeps_fields (tsc_fields t) (tsc_fields t')"
    and "\<And>nested n. bt_get (tsc_nested t) nested = Some n \<Longrightarrow>
      \<exists>n'. bt_get (tsc_nested t') nested = Some n' \<and> keeps_fields (nts_fields n) (nts_fields n')"
proof -
  have "keeps_table candidate (table, t)"
    using assms by (auto simp: plan_compatible_iff in_entries)
  then show ?thesis
    by (fastforce simp: keeps_table_def keeps_nested_def in_entries split: option.splits intro: that)
qed

lemma keeps_fields_type:
  "keeps_type (FObject current) (FObject candidate) \<longleftrightarrow>
     keeps_fields current candidate
     \<and> (\<forall>(name, field)\<in>set candidate. field_contains current name \<or> fs_optional field)"
  by (simp add: keeps_fields_def)

section \<open>The schema a new database starts with\<close>

definition realtime_member_type :: field_type where
  "realtime_member_type =
     FObject (field_insert ''sessionId'' (field_optional FString)
       (fields_of [(''userId'', FId ''User''), (''metadata'', FJson), (''joinedAtMs'', FTimeMs),
          (''updatedAtMs'', FTimeMs)]))"

definition default_message_fields :: field_map where
  "default_message_fields =
     field_insert ''lsn'' (field_optional FInt64)
       (fields_of [(''id'', FId ''Message''), (''roomId'', FId ''Room''), (''senderId'', FId ''User''),
          (''body'', FText 8192), (''attachments'', FList (FObjectRef ''Object'')),
          (''createdAtMs'', FTimeMs), (''path'', FString)])"

definition default_rooms :: table_schema where
  "default_rooms =
     \<lparr>tsc_storage = ActorPartition,
      tsc_fields = fields_of [(''id'', FId ''Room''), (''title'', FString)],
      tsc_nested = bt_insert ''messages''
        \<lparr>nts_storage = ChatLog ''day(createdAtMs)'' [''desc(createdAtMs)'', ''id''] 5000,
         nts_fields = default_message_fields, nts_read_visibility = [],
         nts_indexes = bt_insert ''bySender'' \<lparr>ixs_fields = [''senderId''], ixs_unique = False\<rparr> bt_empty\<rparr>
        bt_empty,
      tsc_read_visibility = [],
      tsc_indexes = bt_insert ''byTitle'' \<lparr>ixs_fields = [''title''], ixs_unique = False\<rparr> bt_empty\<rparr>"

definition default_echo_mutations :: field_map where
  "default_echo_mutations =
     fields_of [(''echo.send'', FObject (
       field_insert ''scheduleReminderDueAtMs'' (field_optional FString)
         (field_insert ''scheduleReminder'' (field_optional FString)
           (fields_of [(''roomId'', FId ''Room''), (''body'', FString)]))))]"

definition default_events :: "(string, field_schema) btree" where
  "default_events =
     bt_collect (map (\<lambda>(name, fs). (name, field_required (FObject (fields_of fs))))
       [(''notification.created'', [(''text'', FString)]),
        (''presence.ping'', [(''at'', FTimeMs)]),
        (''realtime.channel.signal'',
          [(''channelId'', FId ''RealtimeChannel''), (''fromUserId'', FId ''User''),
           (''toUserId'', FId ''User''), (''kind'', FString), (''payload'', FJson),
           (''sequence'', FInt64), (''timestampMs'', FTimeMs)]),
        (''realtime.channel.event'',
          [(''channelId'', FId ''RealtimeChannel''), (''fromUserId'', FId ''User''),
           (''kind'', FString), (''payload'', FJson), (''sequence'', FInt64),
           (''timestampMs'', FTimeMs)]),
        (''realtime.channel.state'',
          [(''channelId'', FId ''RealtimeChannel''), (''fromUserId'', FId ''User''),
           (''state'', FObject (fields_of
             [(''channelId'', FId ''RealtimeChannel''), (''version'', FInt64), (''state'', FJson),
              (''updatedAtMs'', FTimeMs)])),
           (''sequence'', FInt64), (''timestampMs'', FTimeMs)]),
        (''realtime.channel.memberJoined'',
          [(''channelId'', FId ''RealtimeChannel''), (''member'', realtime_member_type)]),
        (''realtime.channel.memberLeft'',
          [(''channelId'', FId ''RealtimeChannel''), (''members'', FList realtime_member_type)]),
        (''realtime.channel.memberUpdated'',
          [(''channelId'', FId ''RealtimeChannel''), (''member'', realtime_member_type),
           (''sequence'', FInt64), (''timestampMs'', FTimeMs)])])"

definition default_nextdb :: database_schema where
  "default_nextdb =
     \<lparr>db_name = ''nextdb'', db_version = 1,
      db_objects = bt_insert ''Object''
        (fields_of [(''id'', FId ''Object''), (''path'', FString), (''contentType'', FString),
           (''byteSize'', FInt64), (''sha256'', FString), (''createdAtMs'', FTimeMs)]) bt_empty,
      db_tables = bt_insert ''rooms'' default_rooms bt_empty,
      db_events = default_events,
      db_behaviors = bt_insert ''echo-ts'' default_echo_mutations
        (bt_insert ''echo'' default_echo_mutations bt_empty)\<rparr>"

text \<open>The default schema passes its own check.\<close>

lemma default_nextdb_valid:
  "validation_report default_nextdb = \<lparr>svr_ok = True, svr_errors = []\<rparr>"
  by code_simp

lemma default_nextdb_windows:
  "message_live_window default_nextdb = Some 5000 \<and> room_lru_max_items default_nextdb = None"
  by code_simp

text \<open>A schema is compatible with itself.\<close>

lemma keeps_refl:
  "field_ok f \<Longrightarrow> keeps_shape f f"
  "type_ok t \<Longrightarrow> keeps_type t t"
proof (induction f and t rule: field_ok_type_ok.induct)
  case (2 fs)
  have "field_get fs name = Some field \<and> keeps_shape field field" if "(name, field) \<in> set fs" for name field
    using that 2(1) [OF that refl] 2(2) by (auto simp: field_get_iff)
  then show ?case by (auto simp: field_contains_def)
qed auto

lemma keeps_fields_refl: "fields_ok fs \<Longrightarrow> keeps_fields fs fs"
  using keeps_refl(2) [of "FObject fs"] by (simp add: fields_ok_def keeps_fields_type del: type_ok.simps keeps_type.simps)

lemma keeps_fields_insert:
  assumes "fields_ok fs" and "\<not> field_contains fs name"
  shows "keeps_fields fs (field_insert name field fs)"
proof -
  have "field_get (field_insert name field fs) n = field_get fs n" if "(n, f) \<in> set fs" for n f
    using that assms(2)
    by (auto simp: field_get_def field_insert_def map_of_al_put field_contains_def map_of_eq_None_iff image_iff)
  then show ?thesis
    using keeps_fields_refl [OF assms(1)] by (fastforce simp: keeps_fields_def split: option.splits)
qed

section \<open>Properties\<close>


text \<open>
  C35. A migration the plan calls compatible keeps stored rows valid: a row of a table that
  validates under the current schema and carries only fields that schema declares validates
  under the candidate, provided the fields the candidate adds to the table itself are optional
  (inside object fields the plan checks that).
\<close>

theorem compatible_migration_keeps_rows:
  assumes "smp_compatible (plan_between current candidate)" and "schema_ok candidate"
    and "bt_get (db_tables current) table = Some t" and "bt_get (db_tables candidate) table = Some t'"
    and "validate_table_record ops current table v = Inr ()" and "declared_only_fields (tsc_fields t) v"
    and "\<forall>(name, field)\<in>set (tsc_fields t'). field_contains (tsc_fields t) name \<or> fs_optional field"
  shows "validate_table_record ops candidate table v = Inr ()"
proof -
  have "keeps_fields (tsc_fields t) (tsc_fields t')"
    using keeps_table_fields [OF assms(1,3)] assms(4) by (metis option.inject)
  then have "keeps_type (FObject (tsc_fields t)) (FObject (tsc_fields t'))"
    using assms(7) by (simp only: keeps_fields_type)
  moreover have "has_type ops (FObject (tsc_fields t)) v"
    using assms(3,5) by (simp add: validate_table_record_def validate_iff del: has_type.simps validate_object_fields.simps)
  moreover have "type_ok (FObject (tsc_fields t'))"
    using assms(2,4) by (auto simp: schema_ok_def fields_ok_def simp del: type_ok.simps)
  moreover have "declared_in (FObject (tsc_fields t)) v"
    using assms(6) by (simp add: declared_in_def del: declared_only_fields.simps)
  ultimately have "has_type ops (FObject (tsc_fields t')) v"
    using keeps_values(2) by blast
  then show ?thesis
    using assms(4) by (simp add: validate_table_record_def validate_iff del: has_type.simps validate_object_fields.simps)
qed

text \<open>A documents table that gains an optional field, and one of its rows.\<close>

definition docs_table :: "field_map \<Rightarrow> table_schema" where
  "docs_table fs =
     \<lparr>tsc_storage = DiskStorage, tsc_fields = fs, tsc_nested = bt_empty, tsc_read_visibility = [],
      tsc_indexes = bt_empty\<rparr>"

definition docs_schema :: "u32 \<Rightarrow> field_map \<Rightarrow> database_schema" where
  "docs_schema version fs =
     \<lparr>db_name = ''docs'', db_version = version, db_objects = bt_empty,
      db_tables = bt_insert ''docs'' (docs_table fs) bt_empty, db_events = bt_empty,
      db_behaviors = bt_empty\<rparr>"

definition docs_fields :: field_map where
  "docs_fields =
     fields_of [(''meta'', FObject (fields_of [(''lang'', FString)])), (''title'', FText 5)]"

definition docs_fields_next :: field_map where
  "docs_fields_next =
     field_insert ''note'' (field_optional FString)
       (fields_of [(''meta'', FObject (field_insert ''rank'' (field_optional FInt64)
          (fields_of [(''lang'', FString)]))), (''title'', FText 5)])"

definition docs_row :: "i64 json" where
  "docs_row = JObject [(''meta'', JObject [(''lang'', JString ''en'')]), (''title'', JString ''plan'')]"

lemma docs_schema_ok: "fields_ok fs \<Longrightarrow> schema_ok (docs_schema v fs)"
  by (auto simp: schema_ok_def docs_schema_def docs_table_def split: if_splits)

lemma docs_fields_ok: "fields_ok docs_fields" "fields_ok docs_fields_next"
  by code_simp+

lemma docs_tables [simp]: "bt_get (db_tables (docs_schema v fs)) ''docs'' = Some (docs_table fs)"
  by (simp add: docs_schema_def)

lemma docs_table_fields [simp]: "tsc_fields (docs_table fs) = fs"
  by (simp add: docs_table_def)

lemma docs_row_valid: "validate_table_record demo_index_ops (docs_schema 1 docs_fields) ''docs'' docs_row = Inr ()"
  by code_simp

theorem compatible_migration_keeps_rows_witness:
  "smp_compatible (plan_between (docs_schema 1 docs_fields) (docs_schema 2 docs_fields_next))
   \<and> validate_table_record demo_index_ops (docs_schema 2 docs_fields_next) ''docs'' docs_row = Inr ()"
proof -
  have plan: "smp_compatible (plan_between (docs_schema 1 docs_fields) (docs_schema 2 docs_fields_next))"
    by code_simp
  have "declared_only_fields (tsc_fields (docs_table docs_fields)) docs_row"
    "\<forall>(name, field)\<in>set (tsc_fields (docs_table docs_fields_next)).
        field_contains (tsc_fields (docs_table docs_fields)) name \<or> fs_optional field"
    by code_simp+
  from compatible_migration_keeps_rows [OF plan docs_schema_ok [OF docs_fields_ok(2)] docs_tables docs_tables
      docs_row_valid this] plan show ?thesis by blast
qed

text \<open>
  Adding a required field to a table is called compatible: for every schema, table and
  field name the table does not have, the plan to the schema with that required field is
  compatible, while every row without the field, valid before or not, is refused by the
  validation of the new schema.
\<close>

theorem required_field_addition_is_compatible:
  assumes "schema_ok s" and "bt_get (db_tables s) table = Some t"
    and "\<not> field_contains (tsc_fields t) name" and "json_field v name = None"
  shows "smp_compatible (plan_between s
      (s\<lparr>db_tables := bt_insert table (t\<lparr>tsc_fields := field_insert name (field_required ft) (tsc_fields t)\<rparr>)
          (db_tables s)\<rparr>))
    \<and> validate_table_record ops
       (s\<lparr>db_tables := bt_insert table (t\<lparr>tsc_fields := field_insert name (field_required ft) (tsc_fields t)\<rparr>)
          (db_tables s)\<rparr>) table v \<noteq> Inr ()"
proof -
  let ?fs = "field_insert name (field_required ft) (tsc_fields t)"
  let ?s = "s\<lparr>db_tables := bt_insert table (t\<lparr>tsc_fields := ?fs\<rparr>) (db_tables s)\<rparr>"
  have ok: "fields_ok (tsc_fields t)" using assms(1,2) by (auto simp: schema_ok_def)
  have nested: "keeps_nested x (n, ns)" if "bt_get (db_tables s) table' = Some x'" "tsc_nested x = tsc_nested x'"
      "bt_get (tsc_nested x') n = Some ns" for table' x x' n ns
    using that assms(1) by (auto simp: keeps_nested_def schema_ok_def intro: keeps_fields_refl)
  have "keeps_table ?s (table', x)" if at: "bt_get (db_tables s) table' = Some x" for table' x
    using at assms(1,2) keeps_fields_insert [OF ok assms(3)] nested [OF at]
    by (auto simp: keeps_table_def in_entries schema_ok_def intro: keeps_fields_refl)
  moreover have "keeps_field_maps (db_objects s) (n, fs)" if "bt_get (db_objects s) n = Some fs" for n fs
    using that assms(1) by (simp add: keeps_field_maps_def schema_ok_def keeps_fields_refl)
  moreover have "keeps_field_maps (db_behaviors s) (n, fs)" if "bt_get (db_behaviors s) n = Some fs" for n fs
    using that assms(1) by (simp add: keeps_field_maps_def schema_ok_def keeps_fields_refl)
  moreover have "keeps_event ?s (n, f)" if "bt_get (db_events s) n = Some f" for n f
    using that assms(1) by (simp add: keeps_event_def schema_ok_def keeps_refl)
  ultimately have "smp_compatible (plan_between s ?s)"
    by (simp add: plan_compatible_iff ball_entries)
  moreover have "(name, field_required ft) \<in> set ?fs"
    by (metis field_insert_def field_get_def field_getD map_of_al_put fun_upd_same)
  then have "\<not> has_type ops (FObject ?fs) v"
    using assms(4) by (force simp: json_field_def field_required_def split: json.splits)
  then have "validate_table_record ops ?s table v \<noteq> Inr ()"
    by (simp add: validate_table_record_def validate_iff del: has_type.simps validate_object_fields.simps)
  ultimately show ?thesis by blast
qed

theorem required_field_addition_is_compatible_witness:
  "validate_table_record demo_index_ops (docs_schema 1 docs_fields) ''docs'' docs_row = Inr ()
   \<and> smp_compatible (plan_between (docs_schema 1 docs_fields)
       (docs_schema 1 (field_insert ''owner'' (field_required (FId ''User'')) docs_fields)))
   \<and> validate_table_record demo_index_ops
       (docs_schema 1 (field_insert ''owner'' (field_required (FId ''User'')) docs_fields)) ''docs'' docs_row
     \<noteq> Inr ()"
proof -
  have eq: "(docs_schema 1 docs_fields)\<lparr>db_tables := bt_insert ''docs''
          ((docs_table docs_fields)\<lparr>tsc_fields := field_insert ''owner'' (field_required (FId ''User''))
             (tsc_fields (docs_table docs_fields))\<rparr>) (db_tables (docs_schema 1 docs_fields))\<rparr>
      = docs_schema 1 (field_insert ''owner'' (field_required (FId ''User'')) docs_fields)"
    by (simp add: docs_schema_def docs_table_def bt_eq_iff)
  have "\<not> field_contains (tsc_fields (docs_table docs_fields)) ''owner''"
    "json_field docs_row ''owner'' = None" by code_simp+
  from required_field_addition_is_compatible [OF docs_schema_ok [OF docs_fields_ok(1), where v = 1] docs_tables this,
      where ops = demo_index_ops and ft = "FId ''User''", unfolded eq]
  show ?thesis using docs_row_valid by blast
qed

end
