(* ===== verification/Object_Refs.thy ===== *)
theory Object_Refs
  imports Schema
begin

text \<open>
  The index of object references (\<open>object_refs.rs\<close>): for every object id the paths of the
  messages and records that refer to it. Messages refer through their attachments, records
  through the fields the schema declares as object references. The index decides whether an
  object may be deleted, so it has to hold exactly the references of the live sources.

  The persisted copy of the index is written after every change and is not read back; the
  index of a restarted server is rebuilt from the messages and records of the log.
\<close>

section \<open>References a record declares\<close>

text \<open>The errors of the HTTP layer (\<open>api/error.rs\<close>), as far as the record path raises them.\<close>

datatype api_error =
    BadRequest string
  | NotFound string
  | Conflict string
  | Locked string
  | PayloadTooLarge string
  | Unavailable string
  | InternalError

record declared_object_ref =
  dor_path :: string
  dor_id :: string
  dor_object_path :: string
  dor_content_type :: string
  dor_byte_size :: u64
  dor_sha256 :: string

definition object_ref_string_field ::
  "string \<Rightarrow> (string \<times> 'n json) list \<Rightarrow> string \<Rightarrow> api_error + string" where
  "object_ref_string_field path entries field =
     (case map_of entries field of
        Some (JString s) \<Rightarrow>
          if trim s = [] then Inl (BadRequest (path @ ''.'' @ field @ '' must be a non-empty string''))
          else Inr s
      | _ \<Rightarrow> Inl (BadRequest (path @ ''.'' @ field @ '' must be a non-empty string'')))"

definition declared_ref_of ::
  "('n, 'z) number_ops_scheme \<Rightarrow> string \<Rightarrow> (string \<times> 'n json) list \<Rightarrow> api_error + declared_object_ref"
where
  "declared_ref_of ops path entries =
     res_bind (object_ref_string_field path entries ''id'') (\<lambda>i.
     res_bind (object_ref_string_field path entries ''path'') (\<lambda>p.
     res_bind (object_ref_string_field path entries ''contentType'') (\<lambda>c.
     res_bind (case map_of entries ''byteSize'' of
         Some (JNumber n) \<Rightarrow>
           (case as_u64 ops n of
              Some b \<Rightarrow> Inr b
            | None \<Rightarrow> Inl (BadRequest (path @ ''.byteSize must be a non-negative integer'')))
       | _ \<Rightarrow> Inl (BadRequest (path @ ''.byteSize must be a non-negative integer''))) (\<lambda>b.
     res_bind (object_ref_string_field path entries ''sha256'') (\<lambda>h.
       Inr \<lparr>dor_path = path, dor_id = i, dor_object_path = p, dor_content_type = c,
            dor_byte_size = b, dor_sha256 = h\<rparr>)))))"

text \<open>The vector the code pushes to is the list that is returned.\<close>

fun collect_refs_from_type ::
  "('n, 'z) number_ops_scheme \<Rightarrow> string \<Rightarrow> field_type \<Rightarrow> 'n json \<Rightarrow> api_error + declared_object_ref list"
and collect_refs_from_field ::
  "('n, 'z) number_ops_scheme \<Rightarrow> string \<Rightarrow> field_schema \<Rightarrow> 'n json \<Rightarrow> api_error + declared_object_ref list"
where
  "collect_refs_from_type ops path t value =
     (if value = JNull then Inr []
      else case t of
        FObjectRef _ \<Rightarrow>
          (case value of
             JObject entries \<Rightarrow> res_bind (declared_ref_of ops path entries) (\<lambda>r. Inr [r])
           | _ \<Rightarrow> Inl (BadRequest (path @ '' must be an object ref'')))
      | FList item \<Rightarrow>
          (case value of
             JArray values \<Rightarrow>
               res_bind (map_res (\<lambda>(index, v).
                 collect_refs_from_type ops (path @ ''['' @ decimal index @ '']'') item v)
                 (enumerate 0 values)) (\<lambda>rs. Inr (concat rs))
           | _ \<Rightarrow> Inl (BadRequest (path @ '' must be an array'')))
      | FObject fs \<Rightarrow>
          (case value of
             JObject entries \<Rightarrow>
               res_bind (map_res (\<lambda>(name, field).
                 case map_of entries name of
                   None \<Rightarrow> Inr []
                 | Some v \<Rightarrow> collect_refs_from_field ops (path @ ''.'' @ name) field v) fs)
                 (\<lambda>rs. Inr (concat rs))
           | _ \<Rightarrow> Inl (BadRequest (path @ '' must be an object'')))
      | _ \<Rightarrow> Inr [])"
| "collect_refs_from_field ops path (FieldSchema t opt) value = collect_refs_from_type ops path t value"

definition collect_refs_from_fields ::
  "('n, 'z) number_ops_scheme \<Rightarrow> string \<Rightarrow> field_map \<Rightarrow> 'n json \<Rightarrow> api_error + declared_object_ref list"
where
  "collect_refs_from_fields ops path fs value =
     (case value of
        JObject entries \<Rightarrow>
          res_bind (map_res (\<lambda>(name, field).
            case map_of entries name of
              None \<Rightarrow> Inr []
            | Some v \<Rightarrow> collect_refs_from_field ops (path @ ''.'' @ name) field v) fs)
            (\<lambda>rs. Inr (concat rs))
      | _ \<Rightarrow> Inl (BadRequest (path @ '' must be an object'')))"

definition collect_declared_object_refs ::
  "('n, 'z) number_ops_scheme \<Rightarrow> string \<Rightarrow> field_map \<Rightarrow> 'n json \<Rightarrow> api_error + declared_object_ref list"
where
  "collect_declared_object_refs ops path fs value = collect_refs_from_fields ops path fs value"

definition declared_record_object_ref_ids ::
  "('n, 'z) number_ops_scheme \<Rightarrow> database_schema \<Rightarrow> 'n db_record \<Rightarrow> api_error + string list" where
  "declared_record_object_ref_ids ops s r =
     res_bind
       (case split_once CHR ''.'' (rec_table r) of
          Some (table, nested) \<Rightarrow>
            (case nested_schema s table nested of
               None \<Rightarrow> Inr []
             | Some n \<Rightarrow>
                 collect_declared_object_refs ops
                   (rec_path r @ '' in tables.'' @ table @ ''.nested.'' @ nested) (nts_fields n)
                   (rec_value r))
        | None \<Rightarrow>
            (case bt_get (db_tables s) (rec_table r) of
               None \<Rightarrow> Inr []
             | Some t \<Rightarrow>
                 collect_declared_object_refs ops (rec_path r @ '' in tables.'' @ rec_table r)
                   (tsc_fields t) (rec_value r)))
       (\<lambda>refs. Inr (map dor_id refs))"

section \<open>The state of the index\<close>

type_synonym ref_state = "(string, string bset) btree"

definition add_source :: "string \<Rightarrow> string \<Rightarrow> ref_state \<Rightarrow> ref_state" where
  "add_source object_id source refs = bt_insert object_id (bs_insert source (bt_get_or refs object_id bt_empty)) refs"

text \<open>
  The Boolean the code returns says whether an insertion or a removal changed a set; it only
  decides whether the copy on disk is written again.
\<close>

definition retain_message :: "message \<Rightarrow> ref_state \<Rightarrow> ref_state" where
  "retain_message m refs = fold (\<lambda>a. add_source (or_id a) (msg_path m)) (msg_attachments m) refs"

definition remove_source :: "string \<Rightarrow> ref_state \<Rightarrow> ref_state" where
  "remove_source source refs =
     bt_retain (\<lambda>object_id sources. sources \<noteq> bt_empty) (bt_map (\<lambda>object_id. bt_remove source) refs)"

text \<open>An error leaves the source removed: the code has removed it before it collects the references.\<close>

definition retain_record_for_schema ::
  "('n, 'z) number_ops_scheme \<Rightarrow> database_schema \<Rightarrow> 'n db_record \<Rightarrow> ref_state \<Rightarrow>
     ref_state \<times> (api_error + unit)" where
  "retain_record_for_schema ops s r refs =
     (let refs = remove_source (rec_path r) refs in
      case declared_record_object_ref_ids ops s r of
        Inl e \<Rightarrow> (refs, Inl e)
      | Inr ids \<Rightarrow> (fold (\<lambda>object_id. add_source object_id (rec_path r)) ids refs, Inr ()))"

fun retain_records_for_schema ::
  "('n, 'z) number_ops_scheme \<Rightarrow> database_schema \<Rightarrow> 'n db_record list \<Rightarrow> ref_state \<Rightarrow>
     ref_state \<times> (api_error + unit)" where
  "retain_records_for_schema ops s [] refs = (refs, Inr ())"
| "retain_records_for_schema ops s (r # rs) refs =
     (case retain_record_for_schema ops s r refs of
        (refs', Inl e) \<Rightarrow> (refs', Inl e)
      | (refs', Inr _) \<Rightarrow> retain_records_for_schema ops s rs refs')"

definition apply_record_changes_for_schema ::
  "('n, 'z) number_ops_scheme \<Rightarrow> database_schema \<Rightarrow> string list \<Rightarrow> 'n db_record list \<Rightarrow> ref_state \<Rightarrow>
     ref_state \<times> (api_error + unit)" where
  "apply_record_changes_for_schema ops s removed retained refs =
     retain_records_for_schema ops s retained (fold remove_source removed refs)"

definition retain_messages :: "message list \<Rightarrow> ref_state \<Rightarrow> ref_state" where
  "retain_messages ms refs = fold retain_message (filter (\<lambda>m. msg_attachments m \<noteq> []) ms) refs"

definition refs_from_messages :: "message list \<Rightarrow> ref_state" where
  "refs_from_messages ms = fold retain_message ms bt_empty"

definition refs_from_messages_and_records ::
  "('n, 'z) number_ops_scheme \<Rightarrow> database_schema \<Rightarrow> message list \<Rightarrow> 'n db_record list \<Rightarrow>
     api_error + ref_state" where
  "refs_from_messages_and_records ops s ms rs =
     (case retain_records_for_schema ops s rs (refs_from_messages ms) of
        (_, Inl e) \<Rightarrow> Inl e
      | (refs, Inr _) \<Rightarrow> Inr refs)"

record object_references =
  ore_object_id :: string
  ore_object_exists :: bool
  ore_dangling :: bool
  ore_ref_count :: nat
  ore_sources :: "string list"

definition references_for :: "ref_state \<Rightarrow> string \<Rightarrow> object_references" where
  "references_for refs object_id =
     (let sources = bt_get_or refs object_id bt_empty in
      \<lparr>ore_object_id = object_id, ore_object_exists = False, ore_dangling = (sources \<noteq> bt_empty),
       ore_ref_count = bt_len sources, ore_sources = bt_keys sources\<rparr>)"

definition with_object_exists :: "bool \<Rightarrow> object_references \<Rightarrow> object_references" where
  "with_object_exists present r =
     r\<lparr>ore_object_exists := present, ore_dangling := (\<not> present \<and> 0 < ore_ref_count r)\<rparr>"

definition referenced_ids :: "ref_state \<Rightarrow> string list" where
  "referenced_ids refs = bt_keys refs"

section \<open>The references the index holds\<close>

definition ref_pairs :: "ref_state \<Rightarrow> (string \<times> string) set" where
  "ref_pairs refs = {(i, p). p \<in> bs_elems (bt_get_or refs i bt_empty)}"

definition refs_ok :: "ref_state \<Rightarrow> bool" where
  "refs_ok refs \<longleftrightarrow> (\<forall>i s. bt_get refs i = Some s \<longrightarrow> s \<noteq> bt_empty)"

lemma in_ref_pairs: "(i, p) \<in> ref_pairs refs \<longleftrightarrow> (\<exists>s. bt_get refs i = Some s \<and> p \<in> bs_elems s)"
  by (cases "bt_get refs i") (auto simp: ref_pairs_def bt_get_or_def)

lemma bs_elems_inject: "bs_elems s = bs_elems s' \<Longrightarrow> s = s'"
proof (rule bt_eqI)
  fix k
  assume "bs_elems s = bs_elems s'"
  then have "bt_get s k = Some () \<longleftrightarrow> bt_get s' k = Some ()"
    by (auto simp: bs_elems_def set_eq_iff bt_contains_def)
  then show "bt_get s k = bt_get s' k" by (cases "bt_get s k"; cases "bt_get s' k") auto
qed

lemma refs_determined:
  assumes "refs_ok refs" "refs_ok refs'" "ref_pairs refs = ref_pairs refs'"
  shows "refs = refs'"
proof (rule bt_eqI)
  fix i
  have "bs_elems (bt_get_or refs i bt_empty) = bs_elems (bt_get_or refs' i bt_empty)"
    using assms(3) by (auto simp: ref_pairs_def)
  then have eq: "bt_get_or refs i bt_empty = bt_get_or refs' i bt_empty" by (rule bs_elems_inject)
  show "bt_get refs i = bt_get refs' i"
    using assms(1,2) eq unfolding refs_ok_def bt_get_or_def
    by (cases "bt_get refs i"; cases "bt_get refs' i") auto
qed

lemma add_source_refs [simp]:
  "ref_pairs (add_source i p refs) = insert (i, p) (ref_pairs refs)"
  "refs_ok refs \<Longrightarrow> refs_ok (add_source i p refs)"
proof -
  show "ref_pairs (add_source i p refs) = insert (i, p) (ref_pairs refs)"
    by (auto simp: ref_pairs_def add_source_def bt_get_or_def split: if_splits)
  have "bs_insert p s \<noteq> bt_empty" for s by (metis bs_elems_empty_iff bs_elems_simps(2) insert_not_empty)
  then show "refs_ok refs \<Longrightarrow> refs_ok (add_source i p refs)"
    by (auto simp: refs_ok_def add_source_def split: if_splits)
qed

lemma remove_source_refs [simp]:
  "ref_pairs (remove_source p refs) = {(i, q) \<in> ref_pairs refs. q \<noteq> p}"
  "refs_ok (remove_source p refs)"
proof -
  have "(i, q) \<in> ref_pairs (remove_source p refs) \<longleftrightarrow> (i, q) \<in> ref_pairs refs \<and> q \<noteq> p" for i q
    by (cases "bt_get refs i") (auto simp: in_ref_pairs remove_source_def simp flip: bs_elems_empty_iff split: if_splits)
  then show "ref_pairs (remove_source p refs) = {(i, q) \<in> ref_pairs refs. q \<noteq> p}" by auto
  show "refs_ok (remove_source p refs)"
    by (auto simp: refs_ok_def remove_source_def split: if_splits option.splits)
qed

lemma fold_add_source:
  "ref_pairs (fold (\<lambda>i. add_source i p) ids refs) = ref_pairs refs \<union> (\<lambda>i. (i, p)) ` set ids"
  "refs_ok refs \<Longrightarrow> refs_ok (fold (\<lambda>i. add_source i p) ids refs)"
  by (induction ids arbitrary: refs) auto

lemma retain_message_refs:
  "ref_pairs (retain_message m refs) = ref_pairs refs \<union> (\<lambda>a. (or_id a, msg_path m)) ` set (msg_attachments m)"
  "refs_ok refs \<Longrightarrow> refs_ok (retain_message m refs)"
proof -
  have "retain_message m refs = fold (\<lambda>i. add_source i (msg_path m)) (map or_id (msg_attachments m)) refs"
    by (simp add: retain_message_def fold_map comp_def)
  then show "ref_pairs (retain_message m refs) = ref_pairs refs \<union> (\<lambda>a. (or_id a, msg_path m)) ` set (msg_attachments m)"
    "refs_ok refs \<Longrightarrow> refs_ok (retain_message m refs)"
    by (simp_all add: fold_add_source image_image)
qed

text \<open>A history of commits, and the messages and rows that are alive after it.\<close>

datatype 'n ref_op = RetainMessage message | RetainRecord "'n db_record" | RemoveRecord string

fun ref_step ::
  "('n, 'z) number_ops_scheme \<Rightarrow> database_schema \<Rightarrow> 'n ref_op \<Rightarrow> ref_state \<Rightarrow> ref_state" where
  "ref_step ops s (RetainMessage m) refs = retain_message m refs"
| "ref_step ops s (RetainRecord r) refs = fst (retain_record_for_schema ops s r refs)"
| "ref_step ops s (RemoveRecord path) refs = remove_source path refs"

fun op_messages :: "'n ref_op \<Rightarrow> message list" where
  "op_messages (RetainMessage m) = [m]"
| "op_messages _ = []"

fun op_rows :: "'n ref_op \<Rightarrow> (string, 'n db_record) btree \<Rightarrow> (string, 'n db_record) btree" where
  "op_rows (RetainRecord r) T = bt_insert (rec_path r) r T"
| "op_rows (RemoveRecord path) T = bt_remove path T"
| "op_rows (RetainMessage m) T = T"

fun op_sources :: "'n ref_op \<Rightarrow> string set" where
  "op_sources (RetainRecord r) = {rec_path r}"
| "op_sources (RemoveRecord path) = {path}"
| "op_sources (RetainMessage m) = {}"

fun op_collects :: "('n, 'z) number_ops_scheme \<Rightarrow> database_schema \<Rightarrow> 'n ref_op \<Rightarrow> bool" where
  "op_collects ops s (RetainRecord r) \<longleftrightarrow> (\<exists>ids. declared_record_object_ref_ids ops s r = Inr ids)"
| "op_collects ops s _ \<longleftrightarrow> True"

definition live_refs ::
  "('n, 'z) number_ops_scheme \<Rightarrow> database_schema \<Rightarrow> message set \<Rightarrow> (string, 'n db_record) btree \<Rightarrow>
     (string \<times> string) set" where
  "live_refs ops s M T =
     {(or_id a, msg_path m) | a m. m \<in> M \<and> a \<in> set (msg_attachments m)}
     \<union> {(i, p). \<exists>r ids. bt_get T p = Some r \<and> declared_record_object_ref_ids ops s r = Inr ids \<and> i \<in> set ids}"

definition refs_inv ::
  "('n, 'z) number_ops_scheme \<Rightarrow> database_schema \<Rightarrow> message set \<Rightarrow> (string, 'n db_record) btree \<Rightarrow>
     ref_state \<Rightarrow> bool" where
  "refs_inv ops s M T refs \<longleftrightarrow> refs_ok refs \<and> ref_pairs refs = live_refs ops s M T
     \<and> (\<forall>p r. bt_get T p = Some r \<longrightarrow> rec_path r = p)"

lemma refs_inv_empty [simp]: "refs_inv ops s {} bt_empty bt_empty"
  by (auto simp: refs_inv_def refs_ok_def live_refs_def ref_pairs_def bt_get_or_def)

lemma refs_inv_message:
  "refs_inv ops s M T refs \<Longrightarrow> refs_inv ops s (insert m M) T (retain_message m refs)"
  by (auto simp: refs_inv_def retain_message_refs live_refs_def)

text \<open>No message lives at the path of a record, so removing a record's source touches no message.\<close>

lemma live_refs_without:
  assumes "\<forall>m\<in>M. msg_path m \<noteq> p"
  shows "{(i, q) \<in> live_refs ops s M T. q \<noteq> p} = live_refs ops s M (bt_remove p T)"
  using assms by (auto simp: live_refs_def)

lemma refs_inv_remove:
  assumes "refs_inv ops s M T refs" and "\<forall>m\<in>M. msg_path m \<noteq> p"
  shows "refs_inv ops s M (bt_remove p T) (remove_source p refs)"
  using assms by (simp add: refs_inv_def live_refs_without [OF assms(2), symmetric])

lemma refs_inv_record:
  assumes "refs_inv ops s M T refs" and "\<forall>m\<in>M. msg_path m \<noteq> rec_path r"
    and "declared_record_object_ref_ids ops s r = Inr ids"
  shows "refs_inv ops s M (bt_insert (rec_path r) r T) (fst (retain_record_for_schema ops s r refs))"
proof -
  have removed: "refs_inv ops s M (bt_remove (rec_path r) T) (remove_source (rec_path r) refs)"
    by (rule refs_inv_remove [OF assms(1,2)])
  have "live_refs ops s M (bt_insert (rec_path r) r T)
      = live_refs ops s M (bt_remove (rec_path r) T) \<union> (\<lambda>i. (i, rec_path r)) ` set ids"
    using assms(3) by (auto simp: live_refs_def split: if_splits)
  then have "ref_pairs (fst (retain_record_for_schema ops s r refs)) = live_refs ops s M (bt_insert (rec_path r) r T)"
    using removed by (simp only: refs_inv_def retain_record_for_schema_def assms(3) Let_def sum.case fst_conv
        fold_add_source(1))
  moreover have "refs_ok (fst (retain_record_for_schema ops s r refs))"
    by (simp add: retain_record_for_schema_def assms(3) fold_add_source(2))
  ultimately show ?thesis
    using assms(1) by (simp add: refs_inv_def)
qed

lemma refs_inv_step:
  assumes "refs_inv ops s M T refs" and "op_collects ops s op" and "\<forall>m\<in>M. msg_path m \<notin> op_sources op"
  shows "refs_inv ops s (M \<union> set (op_messages op)) (op_rows op T) (ref_step ops s op refs)"
proof (cases op)
  case (RetainMessage m)
  then show ?thesis using refs_inv_message [OF assms(1)] by simp
next
  case (RetainRecord r)
  then obtain ids where "declared_record_object_ref_ids ops s r = Inr ids" using assms(2) by auto
  from refs_inv_record [OF assms(1) _ this] show ?thesis using assms(3) RetainRecord by simp
next
  case (RemoveRecord p)
  then show ?thesis using refs_inv_remove [OF assms(1)] assms(3) by simp
qed

text \<open>The two kinds of sources are kept apart by their paths.\<close>

definition sources_apart :: "'n ref_op list \<Rightarrow> bool" where
  "sources_apart history \<longleftrightarrow>
     (\<forall>m\<in>set (concat (map op_messages history)). \<forall>op\<in>set history. msg_path m \<notin> op_sources op)"

lemma refs_inv_run:
  assumes "\<forall>op\<in>set history. op_collects ops s op" and "refs_inv ops s M T refs"
    and "\<forall>m\<in>M \<union> set (concat (map op_messages history)). \<forall>op\<in>set history. msg_path m \<notin> op_sources op"
  shows "refs_inv ops s (M \<union> set (concat (map op_messages history))) (fold op_rows history T)
    (fold (ref_step ops s) history refs)"
  using assms
proof (induction history arbitrary: M T refs)
  case (Cons op history)
  have "refs_inv ops s (M \<union> set (op_messages op)) (op_rows op T) (ref_step ops s op refs)"
    using Cons.prems by (intro refs_inv_step) auto
  from Cons.IH [OF _ this] Cons.prems show ?case by (simp add: Un_assoc)
qed simp

text \<open>A rebuild retains the live rows one after the other.\<close>

lemma retain_records_inv:
  assumes "refs_inv ops s M T refs" and "\<forall>r\<in>set rs. \<exists>ids. declared_record_object_ref_ids ops s r = Inr ids"
    and "\<forall>m\<in>M. \<forall>r\<in>set rs. msg_path m \<noteq> rec_path r"
  shows "\<exists>refs'. retain_records_for_schema ops s rs refs = (refs', Inr ())
    \<and> refs_inv ops s M (bt_extend (map (\<lambda>r. (rec_path r, r)) rs) T) refs'"
  using assms
proof (induction rs arbitrary: T refs)
  case (Cons r rs)
  obtain ids where ids: "declared_record_object_ref_ids ops s r = Inr ids" using Cons.prems(2) by auto
  have "refs_inv ops s M (bt_insert (rec_path r) r T) (fst (retain_record_for_schema ops s r refs))"
    using Cons.prems(3) by (intro refs_inv_record [OF Cons.prems(1) _ ids]) auto
  from Cons.IH [OF this] Cons.prems show ?case
    by (simp add: retain_record_for_schema_def ids Let_def)
qed simp

lemma refs_from_messages_inv: "refs_inv ops s (set ms) bt_empty (refs_from_messages ms)"
proof -
  have "refs_inv ops s (M \<union> set ms) bt_empty (fold retain_message ms refs)"
    if "refs_inv ops s M bt_empty refs" for M refs
    using that
  proof (induction ms arbitrary: M refs)
    case (Cons m ms)
    from Cons.IH [OF refs_inv_message [OF Cons.prems]] show ?case by simp
  qed simp
  from this [OF refs_inv_empty] show ?thesis by (simp add: refs_from_messages_def)
qed

lemma collect_rows:
  assumes "\<forall>p r. bt_get T p = Some r \<longrightarrow> rec_path r = p"
  shows "bt_extend (map (\<lambda>r. (rec_path r, r)) (bt_values T)) bt_empty = T"
proof -
  have "map (\<lambda>r. (rec_path r, r)) (bt_values T) = bt_entries T"
    using assms by (auto simp: bt_values_def in_entries [symmetric] intro!: map_idI)
  then show ?thesis using bt_collect_entries [of T] by (simp add: bt_collect_def)
qed

section \<open>Properties\<close>

text \<open>
  C36. The index that a restart rebuilds from the messages and the rows of the log is the index
  that the running server kept by retaining and removing sources as it committed them, so the
  references of an object, and with them the permission to delete it, survive a restart. The
  declared references of every stored row can be collected, and no message has the path of a
  record (messages live below rooms, records below tables).
\<close>

theorem rebuilt_refs_are_the_live_refs:
  assumes "\<forall>op\<in>set history. op_collects ops s op" and "sources_apart history"
  shows "refs_from_messages_and_records ops s (concat (map op_messages history))
      (bt_values (fold op_rows history bt_empty))
    = Inr (fold (ref_step ops s) history bt_empty)"
proof -
  let ?ms = "concat (map op_messages history)" and ?T = "fold op_rows history bt_empty"
  have run: "refs_inv ops s (set ?ms) ?T (fold (ref_step ops s) history bt_empty)"
    using refs_inv_run [OF assms(1) refs_inv_empty] assms(2) by (simp add: sources_apart_def)
  have rows: "\<exists>op\<in>set history. op = RetainRecord r" if "r \<in> set (bt_values ?T)" for r
  proof -
    have "\<forall>p r. bt_get (fold op_rows h T) p = Some r \<longrightarrow> RetainRecord r \<in> set h \<or> bt_get T p = Some r" for h T
    proof (induction h arbitrary: T)
      case (Cons op h)
      then show ?case by (cases op) (fastforce split: if_splits)+
    qed simp
    from this [of history bt_empty] show ?thesis using that by (auto simp: in_bt_values)
  qed
  have collects: "\<forall>r\<in>set (bt_values ?T). \<exists>ids. declared_record_object_ref_ids ops s r = Inr ids"
    using rows assms(1) by fastforce
  have apart: "\<forall>m\<in>set ?ms. \<forall>r\<in>set (bt_values ?T). msg_path m \<noteq> rec_path r"
    using rows assms(2) unfolding sources_apart_def by fastforce
  obtain refs' where rebuilt: "retain_records_for_schema ops s (bt_values ?T) (refs_from_messages ?ms) = (refs', Inr ())"
    "refs_inv ops s (set ?ms) (bt_extend (map (\<lambda>r. (rec_path r, r)) (bt_values ?T)) bt_empty) refs'"
    using retain_records_inv [OF refs_from_messages_inv collects apart] by blast
  have "bt_extend (map (\<lambda>r. (rec_path r, r)) (bt_values ?T)) bt_empty = ?T"
    using run by (intro collect_rows) (simp add: refs_inv_def)
  then have "refs' = fold (ref_step ops s) history bt_empty"
    using rebuilt(2) run by (intro refs_determined) (simp_all add: refs_inv_def)
  then show ?thesis by (simp add: refs_from_messages_and_records_def rebuilt(1))
qed

definition cover_row :: "string \<Rightarrow> string \<Rightarrow> i64 db_record" where
  "cover_row key object_id =
     \<lparr>rec_table = ''docs'', rec_key = key,
      rec_value = JObject [(''cover'', JObject [(''byteSize'', JNumber 3), (''contentType'', JString ''t''),
        (''id'', JString object_id), (''path'', JString ''p''), (''sha256'', JString ''h'')])],
      rec_updated_at_ms = 0, rec_lsn = 1, rec_path = ''tables/docs/'' @ key\<rparr>"

definition cover_schema :: database_schema where
  "cover_schema = docs_schema 1 (fields_of [(''cover'', FObjectRef ''Object'')])"

definition cover_message :: message where
  "cover_message =
     \<lparr>msg_id = ''m'', msg_room_id = ''r'', msg_sender_id = ''u'', msg_body = [],
      msg_attachments = [\<lparr>or_id = ''x'', or_path = ''p'', or_content_type = ''t'', or_byte_size = 3,
        or_sha256 = ''h''\<rparr>],
      msg_created_at_ms = 0, msg_lsn = 2, msg_path = ''rooms/r/messages/m''\<rparr>"

definition cover_history :: "i64 ref_op list" where
  "cover_history =
     [RetainRecord (cover_row ''a'' ''x''), RetainMessage cover_message, RetainRecord (cover_row ''b'' ''y''),
      RetainRecord (cover_row ''a'' ''z''), RemoveRecord ''tables/docs/b'']"

theorem rebuilt_refs_are_the_live_refs_witness:
  "refs_from_messages_and_records demo_index_ops cover_schema [cover_message] [cover_row ''a'' ''z'']
     = Inr (fold (ref_step demo_index_ops cover_schema) cover_history bt_empty)
   \<and> ore_sources (references_for (fold (ref_step demo_index_ops cover_schema) cover_history bt_empty) ''x'')
     = [''rooms/r/messages/m'']"
proof -
  have ids: "declared_record_object_ref_ids demo_index_ops cover_schema (cover_row ''a'' ''x'') = Inr [''x'']"
    "declared_record_object_ref_ids demo_index_ops cover_schema (cover_row ''b'' ''y'') = Inr [''y'']"
    "declared_record_object_ref_ids demo_index_ops cover_schema (cover_row ''a'' ''z'') = Inr [''z'']"
    by code_simp+
  then have collects: "\<forall>op\<in>set cover_history. op_collects demo_index_ops cover_schema op"
    by (simp add: cover_history_def)
  have apart: "sources_apart cover_history" by code_simp
  have "concat (map op_messages cover_history) = [cover_message]" by (simp add: cover_history_def)
  moreover have "bt_values (fold op_rows cover_history bt_empty) = [cover_row ''a'' ''z'']" by code_simp
  moreover have "ore_sources (references_for (fold (ref_step demo_index_ops cover_schema) cover_history bt_empty) ''x'')
     = [''rooms/r/messages/m'']" by code_simp
  ultimately show ?thesis
    using rebuilt_refs_are_the_live_refs [OF collects apart] by simp
qed

end
