(* ===== verification/Mutation_Index.thy ===== *)
theory Mutation_Index
  imports Object_Refs Subscription_Router
begin

text \<open>
  What the server derives from the log for records and for retried requests
  (\<open>api/mutation.rs\<close>, \<open>api/records.rs\<close>): the index of client mutation ids, which answers a
  retry with the response of the first attempt, and the rows that the log leaves alive.
\<close>

section \<open>Responses\<close>

record delete_object_response =
  dor_object_id :: string
  dor_deleted :: bool
  dor_lsn :: u64
  dor_deleted_at_ms :: "u64 option"
  dor_response_path :: string

record delete_record_response =
  drr_table :: string
  drr_key :: string
  drr_deleted :: bool
  drr_lsn :: u64
  drr_deleted_at_ms :: "u64 option"
  drr_path :: string

datatype 'n transaction_op_response =
    OpRecordUpserted "'n db_record"
  | OpRecordDeleted string string u64 u64 string

record 'n transaction_response =
  tr_lsn :: u64
  tr_operations :: "'n transaction_op_response list"

datatype 'n committed_mutation =
    CmMessageCreated message
  | CmUserEventPublished "'n user_event"
  | CmUserUpserted "'n user_profile"
  | CmObjectCommitted object_metadata
  | CmObjectDeleted delete_object_response
  | CmRecordUpserted "'n db_record"
  | CmRecordDeleted delete_record_response
  | CmRecordTransactionCommitted "'n transaction_response"

section \<open>The index of client mutations\<close>

definition is_mutation_id_char :: "char \<Rightarrow> bool" where
  "is_mutation_id_char c \<longleftrightarrow>
     (let n = of_char c :: nat in
       n \<in> {0x30..0x39} \<or> n \<in> {0x41..0x5A} \<or> n \<in> {0x61..0x7A} \<or> c \<in> set ''-_:.'')"

definition normalize_client_mutation_id :: "string option \<Rightarrow> api_error + string option" where
  "normalize_client_mutation_id given =
     (case map_option trim given of
        None \<Rightarrow> Inr None
      | Some v \<Rightarrow>
          if v = [] then Inr None
          else if 160 < length v \<or> \<not> list_all is_mutation_id_char v
          then Inl (BadRequest ''invalid clientMutationId'')
          else Inr (Some v))"

fun response_of_operation :: "u64 \<Rightarrow> 'n db_record_mutation_draft \<Rightarrow> 'n transaction_op_response" where
  "response_of_operation lsn (MutUpsert d) = OpRecordUpserted (record_of_draft d lsn)"
| "response_of_operation lsn (MutDelete d) =
     OpRecordDeleted (dd_table d) (dd_key d) (dd_deleted_at_ms d) lsn (dd_path d)"

definition record_transaction_response_operations ::
  "'n db_record_mutation_draft list \<Rightarrow> u64 \<Rightarrow> 'n transaction_op_response list" where
  "record_transaction_response_operations operations lsn = map (response_of_operation lsn) operations"

fun mutation_of_noop :: "u64 \<Rightarrow> client_mutation_record \<Rightarrow> 'n committed_mutation" where
  "mutation_of_noop lsn (RecordDeleteNoop table key path) =
     CmRecordDeleted \<lparr>drr_table = table, drr_key = key, drr_deleted = False, drr_lsn = lsn,
       drr_deleted_at_ms = None, drr_path = path\<rparr>"
| "mutation_of_noop lsn RecordTransactionNoop =
     CmRecordTransactionCommitted \<lparr>tr_lsn = lsn, tr_operations = []\<rparr>"
| "mutation_of_noop lsn (ObjectDeleteNoop object_id path) =
     CmObjectDeleted \<lparr>dor_object_id = object_id, dor_deleted = False, dor_lsn = lsn,
       dor_deleted_at_ms = None, dor_response_path = path\<rparr>"

definition deleted_response :: "db_record_delete_draft \<Rightarrow> u64 \<Rightarrow> delete_record_response" where
  "deleted_response d lsn =
     \<lparr>drr_table = dd_table d, drr_key = dd_key d, drr_deleted = True, drr_lsn = lsn,
      drr_deleted_at_ms = Some (dd_deleted_at_ms d), drr_path = dd_path d\<rparr>"

definition committed_mutation_entry ::
  "('n, 's, 'g) wal_record \<Rightarrow> (string \<times> 'n committed_mutation) option" where
  "committed_mutation_entry w =
     (let lsn = wr_lsn w in
      case wr_payload w of
        MessageCreated d \<Rightarrow>
          map_option (\<lambda>i. (i, CmMessageCreated (message_of_draft d lsn))) (md_client_mutation_id d)
      | UserEventPublished d \<Rightarrow>
          map_option (\<lambda>i. (i, CmUserEventPublished (event_of_draft d lsn))) (ued_client_mutation_id d)
      | UserUpserted d \<Rightarrow>
          map_option (\<lambda>i. (i, CmUserUpserted (profile_of_draft d lsn))) (upd_client_mutation_id d)
      | ObjectCommitted ob mutation_id \<Rightarrow> map_option (\<lambda>i. (i, CmObjectCommitted ob)) mutation_id
      | ObjectDeleted object_id at path _ mutation_id \<Rightarrow>
          map_option (\<lambda>i. (i, CmObjectDeleted \<lparr>dor_object_id = object_id, dor_deleted = True,
            dor_lsn = lsn, dor_deleted_at_ms = Some at, dor_response_path = path\<rparr>)) mutation_id
      | RecordUpserted d \<Rightarrow>
          map_option (\<lambda>i. (i, CmRecordUpserted (record_of_draft d lsn))) (rd_client_mutation_id d)
      | RecordDeleted d \<Rightarrow>
          map_option (\<lambda>i. (i, CmRecordDeleted (deleted_response d lsn))) (dd_client_mutation_id d)
      | RecordTransactionCommitted operations mutation_id \<Rightarrow>
          map_option (\<lambda>i. (i, CmRecordTransactionCommitted
            \<lparr>tr_lsn = lsn, tr_operations = record_transaction_response_operations operations lsn\<rparr>))
            mutation_id
      | ClientMutationRecorded mutation_id noop \<Rightarrow> Some (mutation_id, mutation_of_noop lsn noop)
      | _ \<Rightarrow> None)"

type_synonym 'n mutation_index = "(string, 'n committed_mutation) btree"

definition note_committed_mutation_record ::
  "('n, 's, 'g) wal_record \<Rightarrow> 'n mutation_index \<Rightarrow> 'n mutation_index" where
  "note_committed_mutation_record w index =
     (case committed_mutation_entry w of None \<Rightarrow> index | Some (i, m) \<Rightarrow> bt_insert i m index)"

definition client_mutation_index_from_wal_records ::
  "('n, 's, 'g) wal_record list \<Rightarrow> 'n mutation_index" where
  "client_mutation_index_from_wal_records ws = bt_collect (List.map_filter committed_mutation_entry ws)"

definition find_committed_mutation :: "'n mutation_index \<Rightarrow> string option \<Rightarrow> 'n committed_mutation option" where
  "find_committed_mutation index mutation_id = Option.bind mutation_id (bt_get index)"

text \<open>The index a restart rebuilds is the index kept while the records were appended.\<close>

lemma mutation_index_append:
  "client_mutation_index_from_wal_records (ws @ [w]) =
     note_committed_mutation_record w (client_mutation_index_from_wal_records ws)"
  by (auto simp: client_mutation_index_from_wal_records_def note_committed_mutation_record_def
      bt_collect_def bt_extend_append map_filter_def split: option.split)

section \<open>Rows and messages of the log\<close>

definition messages_from_wal_records :: "('n, 's, 'g) wal_record list \<Rightarrow> message list" where
  "messages_from_wal_records =
     List.map_filter (\<lambda>w. case wr_payload w of
       MessageCreated d \<Rightarrow> Some (message_of_draft d (wr_lsn w)) | _ \<Rightarrow> None)"

fun mutation_of_draft ::
  "u64 \<Rightarrow> 'n db_record_mutation_draft \<Rightarrow> (string, 'n db_record) btree \<Rightarrow> (string, 'n db_record) btree" where
  "mutation_of_draft lsn (MutUpsert d) T = bt_insert (rd_path d) (record_of_draft d lsn) T"
| "mutation_of_draft lsn (MutDelete d) T = bt_remove (dd_path d) T"

definition rows_after_record ::
  "('n, 's, 'g) wal_record \<Rightarrow> (string, 'n db_record) btree \<Rightarrow> (string, 'n db_record) btree" where
  "rows_after_record w T =
     (case wr_payload w of
        RecordUpserted d \<Rightarrow> bt_insert (rd_path d) (record_of_draft d (wr_lsn w)) T
      | RecordDeleted d \<Rightarrow> bt_remove (dd_path d) T
      | RecordTransactionCommitted operations _ \<Rightarrow> fold (mutation_of_draft (wr_lsn w)) operations T
      | _ \<Rightarrow> T)"

definition records_from_wal_records :: "('n, 's, 'g) wal_record list \<Rightarrow> 'n db_record list" where
  "records_from_wal_records ws = bt_values (fold rows_after_record ws bt_empty)"

section \<open>Names of records\<close>

definition is_volatile_record_path :: "string \<Rightarrow> bool" where
  "is_volatile_record_path path \<longleftrightarrow> starts_with path ''volatile/''"

definition volatile_record_path :: "string \<Rightarrow> string" where
  "volatile_record_path path = (if is_volatile_record_path path then path else ''volatile/'' @ path)"

definition record_identity :: "string \<Rightarrow> string \<Rightarrow> string" where
  "record_identity table key = table @ ''/'' @ key"

definition table_record_path :: "string \<Rightarrow> string \<Rightarrow> string" where
  "table_record_path table key = ''tables/'' @ table @ ''/'' @ key"

definition nested_record_path :: "string \<Rightarrow> string \<Rightarrow> string \<Rightarrow> string \<Rightarrow> string" where
  "nested_record_path table parent_key nested nested_key =
     ''tables/'' @ table @ ''/'' @ parent_key @ ''/'' @ nested @ ''/'' @ nested_key"

definition nested_key_from_logical_key :: "string \<Rightarrow> string \<Rightarrow> string option" where
  "nested_key_from_logical_key parent_key logical_key =
     strip_prefix logical_key (nested_record_prefix parent_key)"

end
