(* ===== verification/Record_Server.thy ===== *)
theory Record_Server
  imports Record_Hot Mutation_Index
begin

text \<open>
  The record path of the server (\<open>api/records.rs\<close>, \<open>api/wal.rs\<close>, \<open>record_projection.rs\<close>):
  a write is validated, appended to the log, applied to the hot cache and to the object
  references, handed to the projection applier and announced to the subscribers; a read takes
  the hot row or the projected one.

  A request runs against a state \<open>server\<close> and an environment \<open>request_env\<close>. The environment
  holds what the request meets in the other parts of the process: the clock, the drain flag,
  the cluster's answer for a shard, the outcome of the append, the object store. Every handler
  is a function in the state-and-error monad below; a failing step keeps the state the earlier
  steps left.
\<close>

section \<open>State, environment and the monad of a request\<close>

datatype 'n projection_job =
    JobUpsert u64 "'n db_record" "(string, index_schema) btree" "order_term list option"
  | JobDelete u64 string string
  | JobTransaction u64 "'n store_mutation list"

record ('n, 's, 'g) server =
  sv_next_lsn :: u64
  sv_current_lsn :: u64
  sv_wal :: "('n, 's, 'g) wal_record list"
  sv_hot :: "'n hot_state"
  sv_disk :: "'n projection"
  sv_jobs :: "'n projection_job list"
  sv_applied_lsn :: u64
  sv_refs :: ref_state
  sv_mutations :: "'n mutation_index"
  sv_events :: "'n delivery_event list"
  sv_schema :: database_schema

record 'n request_env =
  en_now :: u64
  en_accepting :: "api_error + unit"
  en_shard_of_key :: "string \<Rightarrow> api_error + usize"
  en_not_frozen :: "usize \<Rightarrow> api_error + unit"
  en_append :: "api_error + unit"
  en_shard_epoch :: "usize \<Rightarrow> u64"
  en_node_id :: string
  en_shard_count :: nat
  en_max_value_bytes :: nat
  en_json_bytes :: "'n json \<Rightarrow> nat"
  en_safe_object_id :: "string \<Rightarrow> bool"
  en_object_metadata :: "string \<Rightarrow> object_metadata option"
  en_sha256 :: "bytes \<Rightarrow> bytes"

type_synonym ('n, 's, 'g, 'a) handler =
  "('n, 's, 'g) server \<Rightarrow> (api_error + 'a) \<times> ('n, 's, 'g) server"

definition sv_return :: "'a \<Rightarrow> ('n, 's, 'g, 'a) handler" where
  "sv_return x sv = (Inr x, sv)"

definition sv_lift :: "api_error + 'a \<Rightarrow> ('n, 's, 'g, 'a) handler" where
  "sv_lift r sv = (r, sv)"

definition sv_fail :: "api_error \<Rightarrow> ('n, 's, 'g, 'a) handler" where
  "sv_fail e sv = (Inl e, sv)"

definition sv_modify :: "(('n, 's, 'g) server \<Rightarrow> ('n, 's, 'g) server) \<Rightarrow> ('n, 's, 'g, unit) handler" where
  "sv_modify f sv = (Inr (), f sv)"

definition sv_get :: "(('n, 's, 'g) server \<Rightarrow> ('n, 's, 'g, 'a) handler) \<Rightarrow> ('n, 's, 'g, 'a) handler" where
  "sv_get f sv = f sv sv"

definition sv_bind ::
  "('n, 's, 'g, 'a) handler \<Rightarrow> ('a \<Rightarrow> ('n, 's, 'g, 'b) handler) \<Rightarrow> ('n, 's, 'g, 'b) handler" where
  "sv_bind m k sv = (case m sv of (Inl e, sv') \<Rightarrow> (Inl e, sv') | (Inr x, sv') \<Rightarrow> k x sv')"

named_theorems handler_simps

lemma server_monad [simp, handler_simps]:
  "sv_return x sv = (Inr x, sv)"
  "sv_lift r sv = (r, sv)"
  "sv_fail e sv = (Inl e, sv)"
  "sv_modify f sv = (Inr (), f sv)"
  "sv_get g sv = g sv sv"
  by (simp_all add: sv_return_def sv_lift_def sv_fail_def sv_modify_def sv_get_def)

lemma sv_bind_Inr:
  "sv_bind m k sv = (Inr y, sv') \<longleftrightarrow> (\<exists>x sv1. m sv = (Inr x, sv1) \<and> k x sv1 = (Inr y, sv'))"
  by (auto simp: sv_bind_def split: prod.splits sum.splits)

lemma sv_bind_simps [simp]:
  "m sv = (Inl e, sv') \<Longrightarrow> sv_bind m k sv = (Inl e, sv')"
  "m sv = (Inr x, sv') \<Longrightarrow> sv_bind m k sv = k x sv'"
  by (simp_all add: sv_bind_def)

text \<open>\<open>for x in xs { step(x)?; }\<close>\<close>

fun sv_each :: "('a \<Rightarrow> ('n, 's, 'g, unit) handler) \<Rightarrow> 'a list \<Rightarrow> ('n, 's, 'g, unit) handler" where
  "sv_each f [] sv = (Inr (), sv)"
| "sv_each f (x # xs) sv = sv_bind (f x) (\<lambda>_. sv_each f xs) sv"

definition publish_delivery_event :: "'n delivery_event \<Rightarrow> ('n, 's, 'g) server \<Rightarrow> ('n, 's, 'g) server" where
  "publish_delivery_event e sv = sv\<lparr>sv_events := sv_events sv @ [e]\<rparr>"

definition enqueue_job :: "'n projection_job \<Rightarrow> ('n, 's, 'g) server \<Rightarrow> ('n, 's, 'g) server" where
  "enqueue_job job sv = sv\<lparr>sv_jobs := sv_jobs sv @ [job]\<rparr>"

text \<open>A call of the hot cache that reads and may evict.\<close>

definition hot_call :: "('n hot_state \<Rightarrow> 'a \<times> 'n hot_state) \<Rightarrow> ('n, 's, 'g, 'a) handler" where
  "hot_call f sv = (let (x, h) = f (sv_hot sv) in (Inr x, sv\<lparr>sv_hot := h\<rparr>))"

section \<open>The log\<close>

text \<open>
  An append allocates the LSN, waits for the writer and notes the client mutation. The writer
  signs the record (the theory of the append path); the checksum is not read here.
\<close>

definition append_ordered_wal_record ::
  "'n request_env \<Rightarrow> usize \<Rightarrow> durability \<Rightarrow> ('n, 's, 'g) wal_payload \<Rightarrow>
     ('n, 's, 'g, ('n, 's, 'g) wal_record) handler" where
  "append_ordered_wal_record env shard dur payload sv =
     (let lsn = sv_next_lsn sv + 1;
          sv1 = sv\<lparr>sv_next_lsn := lsn\<rparr>;
          w = \<lparr>wr_lsn = lsn, wr_shard = shard, wr_shard_epoch = en_shard_epoch env shard,
               wr_owner_node_id = en_node_id env, wr_timestamp_ms = en_now env,
               wr_schema_version = db_version (sv_schema sv), wr_durability = dur,
               wr_payload = payload, wr_checksum = None\<rparr>
      in case en_append env of
           Inl e \<Rightarrow> (Inl e, sv1)
         | Inr _ \<Rightarrow>
             (Inr w, sv1\<lparr>sv_wal := sv_wal sv1 @ [w],
                         sv_current_lsn := max (sv_current_lsn sv1) lsn,
                         sv_mutations := note_committed_mutation_record w (sv_mutations sv1)\<rparr>))"

section \<open>Checks of a request\<close>

definition validate_table_path :: "database_schema \<Rightarrow> string \<Rightarrow> api_error + unit" where
  "validate_table_path s table =
     (if \<not> ensure_safe_record_component table then Inl (BadRequest ''invalid table name'')
      else if \<not> bt_contains (db_tables s) table then Inl (NotFound ''table not found'')
      else Inr ())"

definition validate_record_path :: "database_schema \<Rightarrow> string \<Rightarrow> string \<Rightarrow> api_error + unit" where
  "validate_record_path s table key =
     res_bind (validate_table_path s table) (\<lambda>_.
       if ensure_safe_record_component key then Inr () else Inl (BadRequest ''invalid record key''))"

definition validate_nested_table_path ::
  "database_schema \<Rightarrow> string \<Rightarrow> string \<Rightarrow> string \<Rightarrow> api_error + unit" where
  "validate_nested_table_path s table parent_key nested =
     res_bind (validate_table_path s table) (\<lambda>_.
       if \<not> ensure_safe_record_component parent_key then Inl (BadRequest ''invalid parent record key'')
       else if \<not> ensure_safe_record_component nested then Inl (BadRequest ''invalid nested table name'')
       else if nested_schema s table nested = None then Inl (NotFound ''nested table not found'')
       else Inr ())"

definition validate_nested_record_path ::
  "database_schema \<Rightarrow> string \<Rightarrow> string \<Rightarrow> string \<Rightarrow> string \<Rightarrow> api_error + unit" where
  "validate_nested_record_path s table parent_key nested nested_key =
     res_bind (validate_nested_table_path s table parent_key nested) (\<lambda>_.
       if ensure_safe_record_component nested_key then Inr ()
       else Inl (BadRequest ''invalid nested record key''))"

definition json_str :: "'n json option \<Rightarrow> string option" where
  "json_str v = (case v of Some (JString s) \<Rightarrow> Some s | _ \<Rightarrow> None)"

definition validate_record_identity ::
  "('n, 'z) number_ops_scheme \<Rightarrow> database_schema \<Rightarrow> string \<Rightarrow> string \<Rightarrow> 'n json \<Rightarrow> api_error + unit" where
  "validate_record_identity ops s table key v =
     res_bind (validate_record_path s table key) (\<lambda>_.
     res_bind (map_err BadRequest (validate_table_record ops s table v)) (\<lambda>_.
       case json_str (json_field v ''id'') of
         Some i \<Rightarrow> if i = key then Inr () else Inl (BadRequest ''record value.id must match key'')
       | None \<Rightarrow> Inr ()))"

definition validate_nested_record_identity ::
  "('n, 'z) number_ops_scheme \<Rightarrow> database_schema \<Rightarrow> string \<Rightarrow> string \<Rightarrow> string \<Rightarrow> string \<Rightarrow> 'n json \<Rightarrow>
     api_error + unit" where
  "validate_nested_record_identity ops s table parent_key nested nested_key v =
     res_bind (validate_nested_record_path s table parent_key nested nested_key) (\<lambda>_.
     res_bind (map_err BadRequest (validate_nested_table_record ops s table nested v)) (\<lambda>_.
     res_bind (case json_str (json_field v ''id'') of
         Some i \<Rightarrow> if i = nested_key then Inr () else Inl (BadRequest ''nested record value.id must match key'')
       | None \<Rightarrow> Inr ()) (\<lambda>_.
       case json_str (case json_field v ''parentId'' of None \<Rightarrow> json_field v ''parentKey'' | some \<Rightarrow> some) of
         Some p \<Rightarrow>
           if p = parent_key then Inr ()
           else Inl (BadRequest ''nested record parentId/parentKey must match parent key'')
       | None \<Rightarrow> Inr ())))"

definition ensure_bytes_limit :: "string \<Rightarrow> nat \<Rightarrow> nat \<Rightarrow> api_error + unit" where
  "ensure_bytes_limit label actual limit =
     (if 0 < limit \<and> limit < actual
      then Inl (PayloadTooLarge (label @ '' exceeds limit: '' @ decimal actual @ '' bytes > '' @
             decimal limit @ '' bytes''))
      else Inr ())"

definition ensure_json_value_limit :: "'n request_env \<Rightarrow> string \<Rightarrow> 'n json \<Rightarrow> api_error + unit" where
  "ensure_json_value_limit env label v =
     ensure_bytes_limit label (en_json_bytes env v) (en_max_value_bytes env)"

definition validate_declared_object_ref :: "'n request_env \<Rightarrow> declared_object_ref \<Rightarrow> api_error + unit" where
  "validate_declared_object_ref env r =
     (if \<not> en_safe_object_id env (dor_id r)
      then Inl (BadRequest (dor_path r @ ''.id must be a safe object id''))
      else case en_object_metadata env (dor_id r) of
        None \<Rightarrow> Inl (NotFound (dor_path r @ '' object ref not found: '' @ dor_id r))
      | Some m \<Rightarrow>
          if om_path m \<noteq> dor_object_path r \<or> om_content_type m \<noteq> dor_content_type r
             \<or> om_byte_size m \<noteq> dor_byte_size r \<or> om_sha256 m \<noteq> dor_sha256 r
          then Inl (BadRequest (dor_path r @ '' object ref metadata does not match object '' @ dor_id r))
          else Inr ())"

definition validate_declared_object_refs_exist ::
  "'n request_env \<Rightarrow> declared_object_ref list \<Rightarrow> api_error + unit" where
  "validate_declared_object_refs_exist env refs = check_all (validate_declared_object_ref env) refs"

definition validate_record_object_refs ::
  "('n, 'z) number_ops_scheme \<Rightarrow> 'n request_env \<Rightarrow> database_schema \<Rightarrow> string \<Rightarrow> 'n json \<Rightarrow> api_error + unit" where
  "validate_record_object_refs ops env s table v =
     (case bt_get (db_tables s) table of
        None \<Rightarrow> Inl (BadRequest (''schema missing table '' @ table))
      | Some t \<Rightarrow>
          res_bind (collect_declared_object_refs ops (''tables.'' @ table) (tsc_fields t) v)
            (validate_declared_object_refs_exist env))"

definition validate_nested_record_object_refs ::
  "('n, 'z) number_ops_scheme \<Rightarrow> 'n request_env \<Rightarrow> database_schema \<Rightarrow> string \<Rightarrow> string \<Rightarrow> 'n json \<Rightarrow>
     api_error + unit" where
  "validate_nested_record_object_refs ops env s table nested v =
     (case nested_schema s table nested of
        None \<Rightarrow> Inl (BadRequest (''schema missing nested table '' @ table @ ''.'' @ nested))
      | Some n \<Rightarrow>
          res_bind (collect_declared_object_refs ops (''tables.'' @ table @ ''.nested.'' @ nested)
              (nts_fields n) v)
            (validate_declared_object_refs_exist env))"

definition index_error_text :: "store_error \<Rightarrow> string" where
  "index_error_text e =
     (case e of
        IndexedFieldMissing field \<Rightarrow> ''indexed field '' @ field @ '' is missing''
      | IndexedFieldNotScalar field \<Rightarrow> ''indexed field '' @ field @ '' must be scalar''
      | InvalidOrderTerm \<Rightarrow> ''invalid schema order term''
      | _ \<Rightarrow> [])"

definition record_order_for_logical_table ::
  "database_schema \<Rightarrow> string \<Rightarrow> api_error + order_term list option" where
  "record_order_for_logical_table s table =
     (case Option.bind (split_once CHR ''.'' table) (\<lambda>(parent, nested). nested_schema s parent nested) of
        None \<Rightarrow> Inr None
      | Some n \<Rightarrow>
          (case nts_storage n of
             ChatLog _ order _ \<Rightarrow>
               res_bind (map_err (\<lambda>e. BadRequest (index_error_text e)) (parse_record_order_terms order))
                 (\<lambda>terms. Inr (Some terms))
           | _ \<Rightarrow> Inr None))"

definition version_conflict :: "u64 \<Rightarrow> u64 \<Rightarrow> api_error" where
  "version_conflict expected found =
     Conflict (''record version conflict: expected lsn '' @ decimal (unat expected) @ '', found '' @
       decimal (unat found))"

definition check_expected_lsn :: "u64 option \<Rightarrow> 'n db_record option \<Rightarrow> api_error + u64" where
  "check_expected_lsn expected current =
     (let current_lsn = (case current of None \<Rightarrow> 0 | Some r \<Rightarrow> rec_lsn r) in
      case expected of
        Some e \<Rightarrow> if current_lsn \<noteq> e then Inl (version_conflict e current_lsn) else Inr current_lsn
      | None \<Rightarrow> Inr current_lsn)"

definition ensure_expected_record_lsn ::
  "string \<Rightarrow> string \<Rightarrow> u64 option \<Rightarrow> ('n, 's, 'g, u64) handler" where
  "ensure_expected_record_lsn table key expected sv =
     (check_expected_lsn expected (projection_get (sv_disk sv) table key), sv)"

text \<open>The row a live read would take: the hot row, nothing below a tombstone, the projected row.\<close>

definition live_row :: "u64 \<Rightarrow> string \<Rightarrow> string \<Rightarrow> ('n, 's, 'g, 'n db_record option) handler" where
  "live_row now table key =
     sv_bind (hot_call (cache_get now table key)) (\<lambda>hot. sv_get (\<lambda>sv.
       case hot of
         Some (Some r) \<Rightarrow> sv_return (Some r)
       | Some None \<Rightarrow>
           if Option.bind (durable_delete_lsn (sv_hot sv) table key) id \<noteq> None then sv_return None
           else sv_return (projection_get (sv_disk sv) table key)
       | None \<Rightarrow> sv_return (projection_get (sv_disk sv) table key)))"

definition ensure_expected_record_lsn_for_live_state ::
  "u64 \<Rightarrow> string \<Rightarrow> string \<Rightarrow> u64 option \<Rightarrow> ('n, 's, 'g, u64) handler" where
  "ensure_expected_record_lsn_for_live_state now table key expected =
     sv_bind (live_row now table key) (\<lambda>current. sv_lift (check_expected_lsn expected current))"

definition ensure_record_table_accepts_volatile :: "database_schema \<Rightarrow> string \<Rightarrow> api_error + unit" where
  "ensure_record_table_accepts_volatile s table =
     res_bind (map_err BadRequest (record_table_accepts_volatile s table)) (\<lambda>accepts.
       if accepts then Inr ()
       else Inl (BadRequest ''volatile record writes require actorPartition, resident, or lru storage''))"

section \<open>Uniqueness before the log\<close>

text \<open>
  A write is checked against the unique indexes before it is logged: against the other rows of
  the same request, against the projected rows with the same values, as far as the hot cache
  does not say otherwise, and against all hot rows of the table.
\<close>

definition record_conflicts_with_unique_candidate ::
  "'n db_record \<Rightarrow> index_schema \<Rightarrow> 'n json list \<Rightarrow> 'n db_record \<Rightarrow> string bset \<Rightarrow> string bset \<Rightarrow> string bset \<Rightarrow>
     api_error + bool" where
  "record_conflicts_with_unique_candidate candidate ix vals existing deletes delete_identities upsert_paths =
     (if rec_key existing = rec_key candidate \<or> bt_contains deletes (rec_path existing)
         \<or> bt_contains delete_identities (record_identity (rec_table existing) (rec_key existing))
         \<or> bt_contains upsert_paths (rec_path existing)
      then Inr False
      else res_bind (map_err (\<lambda>e. BadRequest (index_error_text e)) (record_index_values existing ix))
             (\<lambda>existing_values. Inr (existing_values = vals)))"

definition record_current_for_unique_validation ::
  "u64 \<Rightarrow> 'n db_record \<Rightarrow> ('n, 's, 'g, 'n db_record option) handler" where
  "record_current_for_unique_validation now existing =
     sv_bind (hot_call (cache_get now (rec_table existing) (rec_key existing))) (\<lambda>hot. sv_get (\<lambda>sv.
       case hot of
         Some (Some r) \<Rightarrow> sv_return (Some r)
       | Some None \<Rightarrow>
           if Option.bind (durable_delete_lsn (sv_hot sv) (rec_table existing) (rec_key existing)) id \<noteq> None
           then sv_return None else sv_return (Some existing)
       | None \<Rightarrow> sv_return (Some existing)))"

definition refuse_conflict ::
  "'n db_record \<Rightarrow> string \<Rightarrow> api_error + bool \<Rightarrow> ('n, 's, 'g, unit) handler" where
  "refuse_conflict r index_name conflicts =
     sv_bind (sv_lift conflicts) (\<lambda>c.
       if c then sv_fail (Conflict (''unique index violation on '' @ rec_table r @ ''.'' @ index_name @
                 '' for record '' @ rec_key r))
       else sv_return ())"

definition validate_unique_index ::
  "('n, 'z) index_ops_scheme \<Rightarrow> u64 \<Rightarrow> string bset \<Rightarrow> string bset \<Rightarrow> string bset \<Rightarrow> 'n db_record \<Rightarrow>
     string \<Rightarrow> index_schema \<Rightarrow> 'n json list \<Rightarrow> ('n, 's, 'g, unit) handler" where
  "validate_unique_index ops now deletes delete_identities upsert_paths r index_name ix vals =
     sv_get (\<lambda>sv.
     sv_bind (sv_lift (map_err (\<lambda>_. InternalError)
         (query_index ops (sv_disk sv) (rec_table r) index_name vals None None None))) (\<lambda>found.
     sv_bind (sv_each (\<lambda>existing.
         sv_bind (record_current_for_unique_validation now existing) (\<lambda>current.
           case current of
             None \<Rightarrow> sv_return ()
           | Some c \<Rightarrow> refuse_conflict r index_name
               (record_conflicts_with_unique_candidate r ix vals c deletes delete_identities upsert_paths)))
         found) (\<lambda>_.
     sv_bind (hot_call (cache_scan_key_order now (rec_table r) None None)) (\<lambda>hot.
       sv_each (\<lambda>c. refuse_conflict r index_name
           (record_conflicts_with_unique_candidate r ix vals c deletes delete_identities upsert_paths))
         (case hot of None \<Rightarrow> [] | Some rs \<Rightarrow> rs)))))"

text \<open>The values seen so far in the request: the key of the row by table, index and JSON text.\<close>

type_synonym unique_values = "(string \<times> string \<times> string) \<Rightarrow> string option"

fun validate_record_indexes ::
  "('n, 'z) index_ops_scheme \<Rightarrow> u64 \<Rightarrow> string bset \<Rightarrow> string bset \<Rightarrow> string bset \<Rightarrow> 'n db_record \<Rightarrow>
     (string \<times> index_schema) list \<Rightarrow> unique_values \<Rightarrow> ('n, 's, 'g, unique_values) handler" where
  "validate_record_indexes ops now deletes ids paths r [] seen = sv_return seen"
| "validate_record_indexes ops now deletes ids paths r ((index_name, ix) # ixs) seen =
     sv_bind (sv_lift (map_err (\<lambda>e. BadRequest (index_error_text e)) (record_index_values r ix))) (\<lambda>vals.
       if \<not> ixs_unique ix then validate_record_indexes ops now deletes ids paths r ixs seen
       else
         let identity = (rec_table r, index_name, json_to_string ops (JArray vals)) in
         if (case seen identity of Some key \<Rightarrow> key \<noteq> rec_key r | None \<Rightarrow> False)
         then sv_fail (Conflict (''unique index violation on '' @ rec_table r @ ''.'' @ index_name))
         else sv_bind (validate_unique_index ops now deletes ids paths r index_name ix vals) (\<lambda>_.
                validate_record_indexes ops now deletes ids paths r ixs (seen(identity \<mapsto> rec_key r))))"

fun validate_unique_upserts ::
  "('n, 'z) index_ops_scheme \<Rightarrow> u64 \<Rightarrow> string bset \<Rightarrow> string bset \<Rightarrow> string bset \<Rightarrow> 'n db_record list \<Rightarrow>
     unique_values \<Rightarrow> ('n, 's, 'g, unit) handler" where
  "validate_unique_upserts ops now deletes ids paths [] seen = sv_return ()"
| "validate_unique_upserts ops now deletes ids paths (r # rs) seen =
     sv_get (\<lambda>sv. sv_bind (sv_lift (map_err BadRequest (schema_record_indexes (sv_schema sv) (rec_table r)))) (\<lambda>ixs.
       sv_bind (validate_record_indexes ops now deletes ids paths r (bt_entries ixs) seen) (\<lambda>seen.
         validate_unique_upserts ops now deletes ids paths rs seen)))"

definition validate_transaction_unique_indexes ::
  "('n, 'z) index_ops_scheme \<Rightarrow> u64 \<Rightarrow> 'n db_record list \<Rightarrow> string bset \<Rightarrow> string bset \<Rightarrow>
     ('n, 's, 'g, unit) handler" where
  "validate_transaction_unique_indexes ops now upserts deletes delete_identities =
     validate_unique_upserts ops now deletes delete_identities (bs_collect (map rec_path upserts)) upserts
       Map.empty"

section \<open>Single writes\<close>

record 'n prepared_upsert =
  pu_table :: string
  pu_key :: string
  pu_value :: "'n json"
  pu_path :: string
  pu_shard_key :: string
  pu_indexes :: "(string, index_schema) btree"

record prepared_delete =
  pd_table :: string
  pd_key :: string
  pd_path :: string
  pd_shard_key :: string

definition mutation_kind_conflict :: api_error where
  "mutation_kind_conflict = Conflict ''clientMutationId was already used for a different mutation kind''"

text \<open>The answer to a retry, if the id is known: the recorded response, or a conflict of kinds.\<close>

definition recorded_upsert :: "'n committed_mutation \<Rightarrow> api_error + 'n db_record" where
  "recorded_upsert m = (case m of CmRecordUpserted r \<Rightarrow> Inr r | _ \<Rightarrow> Inl mutation_kind_conflict)"

definition recorded_delete :: "'n committed_mutation \<Rightarrow> api_error + delete_record_response" where
  "recorded_delete m = (case m of CmRecordDeleted r \<Rightarrow> Inr r | _ \<Rightarrow> Inl mutation_kind_conflict)"

definition recorded_transaction :: "'n committed_mutation \<Rightarrow> api_error + 'n transaction_response" where
  "recorded_transaction m =
     (case m of CmRecordTransactionCommitted r \<Rightarrow> Inr r | _ \<Rightarrow> Inl mutation_kind_conflict)"

definition unless_recorded ::
  "('n committed_mutation \<Rightarrow> api_error + 'a) \<Rightarrow> string option \<Rightarrow> ('n, 's, 'g, 'a) handler \<Rightarrow>
     ('n, 's, 'g, 'a) handler" where
  "unless_recorded recorded mutation_id continue =
     sv_get (\<lambda>sv. case find_committed_mutation (sv_mutations sv) mutation_id of
       Some m \<Rightarrow> sv_lift (recorded m) | None \<Rightarrow> continue)"

definition retain_refs :: "('n, 'z) number_ops_scheme \<Rightarrow> 'n db_record \<Rightarrow> ('n, 's, 'g, unit) handler" where
  "retain_refs ops r sv =
     (case retain_record_for_schema ops (sv_schema sv) r (sv_refs sv) of
        (refs, Inl _) \<Rightarrow> (Inl InternalError, sv\<lparr>sv_refs := refs\<rparr>)
      | (refs, Inr _) \<Rightarrow> (Inr (), sv\<lparr>sv_refs := refs\<rparr>))"

text \<open>
  What follows the append of an upsert. Nothing orders it against the same part of another
  request: the guard of a running write is shared and the append lock of a shard is released
  when the record is queued.
\<close>

definition publish_upsert ::
  "('n, 'z) index_ops_scheme \<Rightarrow> 'n request_env \<Rightarrow> 'n db_record_draft \<Rightarrow> (string, index_schema) btree \<Rightarrow> u64 \<Rightarrow>
     ('n, 's, 'g, 'n db_record) handler" where
  "publish_upsert ops env draft indexes lsn =
     (let r = record_of_draft draft lsn in
      sv_get (\<lambda>sv. sv_bind (sv_lift (record_order_for_logical_table (sv_schema sv) (rec_table r))) (\<lambda>order.
      sv_bind (sv_modify (\<lambda>sv. sv\<lparr>sv_hot := hot_upsert (en_now env) r (sv_hot sv)\<rparr>)) (\<lambda>_.
      sv_bind (retain_refs ops r) (\<lambda>_.
      sv_bind (sv_modify (enqueue_job (JobUpsert lsn r indexes order))) (\<lambda>_.
      sv_bind (sv_modify (publish_delivery_event (EvRecordUpserted (rec_table r) (rec_key r) r))) (\<lambda>_.
        sv_return r)))))))"

definition upsert_draft :: "'n request_env \<Rightarrow> 'n prepared_upsert \<Rightarrow> string option \<Rightarrow> 'n db_record_draft" where
  "upsert_draft env p mutation_id =
     \<lparr>rd_table = pu_table p, rd_key = pu_key p, rd_value = pu_value p, rd_updated_at_ms = en_now env,
      rd_path = pu_path p, rd_client_mutation_id = mutation_id\<rparr>"

definition commit_volatile_upsert ::
  "('n, 'z) index_ops_scheme \<Rightarrow> 'n request_env \<Rightarrow> 'n db_record_draft \<Rightarrow> u64 option \<Rightarrow>
     ('n, 's, 'g, 'n db_record) handler" where
  "commit_volatile_upsert ops env draft expected =
     sv_get (\<lambda>sv. sv_bind (sv_lift (ensure_record_table_accepts_volatile (sv_schema sv) (rd_table draft))) (\<lambda>_.
     sv_bind (ensure_expected_record_lsn_for_live_state (en_now env) (rd_table draft) (rd_key draft) expected) (\<lambda>_.
     sv_bind (validate_transaction_unique_indexes ops (en_now env) [record_of_draft draft 0] bt_empty bt_empty) (\<lambda>_.
       let r = (record_of_draft draft 0)\<lparr>rec_path := volatile_record_path (rd_path draft)\<rparr> in
       sv_bind (sv_modify (\<lambda>sv. sv\<lparr>sv_hot := hot_upsert (en_now env) r (sv_hot sv)\<rparr>)) (\<lambda>_.
       sv_bind (sv_modify (publish_delivery_event (EvRecordUpserted (rd_table draft) (rd_key draft) r))) (\<lambda>_.
         sv_return r))))))"

definition append_upsert ::
  "('n, 'z) index_ops_scheme \<Rightarrow> 'n request_env \<Rightarrow> 'n prepared_upsert \<Rightarrow> durability \<Rightarrow> u64 option \<Rightarrow>
     'n db_record_draft \<Rightarrow> ('n, 's, 'g, ('n, 's, 'g) wal_record) handler" where
  "append_upsert ops env p dur expected draft =
     sv_bind (sv_lift (en_shard_of_key env (pu_shard_key p))) (\<lambda>shard.
     sv_bind (sv_lift (en_not_frozen env shard)) (\<lambda>_.
     sv_bind (ensure_expected_record_lsn (pu_table p) (pu_key p) expected) (\<lambda>_.
     sv_bind (validate_transaction_unique_indexes ops (en_now env) [record_of_draft draft 0] bt_empty bt_empty) (\<lambda>_.
     sv_bind (sv_lift (en_accepting env)) (\<lambda>_.
       append_ordered_wal_record env shard dur (RecordUpserted draft))))))"

definition commit_prepared_record_upsert ::
  "('n, 'z) index_ops_scheme \<Rightarrow> 'n request_env \<Rightarrow> 'n prepared_upsert \<Rightarrow> durability \<Rightarrow> u64 option \<Rightarrow>
     string option \<Rightarrow> ('n, 's, 'g, 'n db_record) handler" where
  "commit_prepared_record_upsert ops env p dur expected mutation_id =
     sv_bind (sv_lift (en_accepting env)) (\<lambda>_.
     unless_recorded recorded_upsert (if dur = Volatile then None else mutation_id)
       (let draft = upsert_draft env p mutation_id in
        if dur = Volatile then commit_volatile_upsert ops env draft expected
        else sv_bind (append_upsert ops env p dur expected draft) (\<lambda>w.
               publish_upsert ops env draft (pu_indexes p) (wr_lsn w))))"

definition commit_record_upsert ::
  "('n, 'z) index_ops_scheme \<Rightarrow> 'n request_env \<Rightarrow> string \<Rightarrow> string \<Rightarrow> 'n json \<Rightarrow> durability \<Rightarrow> u64 option \<Rightarrow>
     string option \<Rightarrow> ('n, 's, 'g, 'n db_record) handler" where
  "commit_record_upsert ops env table key v dur expected given_mutation_id =
     sv_bind (sv_lift (en_accepting env)) (\<lambda>_.
     sv_bind (sv_lift (normalize_client_mutation_id given_mutation_id)) (\<lambda>mutation_id.
     unless_recorded recorded_upsert (if dur = Volatile then None else mutation_id)
       (sv_bind (sv_lift (ensure_json_value_limit env ''record value'' v)) (\<lambda>_.
        sv_get (\<lambda>sv.
        sv_bind (sv_lift (validate_record_identity ops (sv_schema sv) table key v)) (\<lambda>_.
        sv_bind (sv_lift (validate_record_object_refs ops env (sv_schema sv) table v)) (\<lambda>_.
        sv_bind (sv_lift (map_err BadRequest (schema_table_indexes (sv_schema sv) table))) (\<lambda>indexes.
          commit_prepared_record_upsert ops env
            \<lparr>pu_table = table, pu_key = key, pu_value = v, pu_path = table_record_path table key,
             pu_shard_key = table @ '':'' @ key, pu_indexes = indexes\<rparr> dur expected mutation_id))))))))"

definition upsert_nested_record ::
  "('n, 'z) index_ops_scheme \<Rightarrow> 'n request_env \<Rightarrow> string \<Rightarrow> string \<Rightarrow> string \<Rightarrow> string \<Rightarrow> 'n json \<Rightarrow> durability \<Rightarrow>
     u64 option \<Rightarrow> string option \<Rightarrow> ('n, 's, 'g, 'n db_record) handler" where
  "upsert_nested_record ops env table parent_key nested nested_key v dur expected given_mutation_id =
     sv_bind (sv_lift (en_accepting env)) (\<lambda>_.
     sv_bind (sv_lift (ensure_json_value_limit env ''nested record value'' v)) (\<lambda>_.
     sv_get (\<lambda>sv.
     sv_bind (sv_lift (validate_nested_record_identity ops (sv_schema sv) table parent_key nested nested_key v)) (\<lambda>_.
     sv_bind (sv_lift (validate_nested_record_object_refs ops env (sv_schema sv) table nested v)) (\<lambda>_.
     sv_bind (sv_lift (map_err BadRequest (schema_nested_table_indexes (sv_schema sv) table nested))) (\<lambda>indexes.
     sv_bind (sv_lift (normalize_client_mutation_id given_mutation_id)) (\<lambda>mutation_id.
       commit_prepared_record_upsert ops env
         \<lparr>pu_table = nested_record_table table nested, pu_key = nested_record_key parent_key nested_key,
          pu_value = v, pu_path = nested_record_path table parent_key nested nested_key,
          pu_shard_key = table @ '':'' @ parent_key, pu_indexes = indexes\<rparr> dur expected mutation_id)))))))"

section \<open>Single deletes\<close>

definition not_deleted :: "prepared_delete \<Rightarrow> u64 \<Rightarrow> string \<Rightarrow> delete_record_response" where
  "not_deleted p lsn path =
     \<lparr>drr_table = pd_table p, drr_key = pd_key p, drr_deleted = False, drr_lsn = lsn,
      drr_deleted_at_ms = None, drr_path = path\<rparr>"

definition commit_volatile_delete ::
  "'n request_env \<Rightarrow> prepared_delete \<Rightarrow> u64 option \<Rightarrow> ('n, 's, 'g, delete_record_response) handler" where
  "commit_volatile_delete env p expected =
     sv_get (\<lambda>sv. sv_bind (sv_lift (ensure_record_table_accepts_volatile (sv_schema sv) (pd_table p))) (\<lambda>_.
     sv_bind (ensure_expected_record_lsn_for_live_state (en_now env) (pd_table p) (pd_key p) expected) (\<lambda>_.
     sv_bind (hot_call (cache_get (en_now env) (pd_table p) (pd_key p))) (\<lambda>hot.
       let path = volatile_record_path (pd_path p) in
       case Option.bind hot id of
         None \<Rightarrow> sv_return (not_deleted p 0 path)
       | Some current \<Rightarrow>
           if \<not> is_volatile_record_path (rec_path current)
           then sv_return (not_deleted p (rec_lsn current) (rec_path current))
           else
             sv_bind (sv_modify (\<lambda>sv. sv\<lparr>sv_hot := hot_delete (pd_table p) (pd_key p) (sv_hot sv)\<rparr>)) (\<lambda>_.
             sv_bind (sv_modify (publish_delivery_event
               (EvRecordDeleted (pd_table p) (pd_key p) (en_now env) 0 path (Some current)))) (\<lambda>_.
               sv_return \<lparr>drr_table = pd_table p, drr_key = pd_key p, drr_deleted = True, drr_lsn = 0,
                 drr_deleted_at_ms = Some (en_now env), drr_path = path\<rparr>))))))"

definition append_to_shard ::
  "'n request_env \<Rightarrow> string \<Rightarrow> durability \<Rightarrow> ('n, 's, 'g) wal_payload \<Rightarrow>
     ('n, 's, 'g, ('n, 's, 'g) wal_record) handler" where
  "append_to_shard env shard_key dur payload =
     sv_bind (sv_lift (en_accepting env)) (\<lambda>_.
     sv_bind (sv_lift (en_shard_of_key env shard_key)) (\<lambda>shard.
     sv_bind (sv_lift (en_not_frozen env shard)) (\<lambda>_.
       append_ordered_wal_record env shard dur payload)))"

text \<open>What follows the append of a delete; the row it announces was read before the append.\<close>

definition publish_delete ::
  "prepared_delete \<Rightarrow> u64 \<Rightarrow> u64 \<Rightarrow> 'n db_record option \<Rightarrow> ('n, 's, 'g, delete_record_response) handler" where
  "publish_delete p deleted_at lsn previous =
     sv_bind (sv_modify (\<lambda>sv. sv\<lparr>sv_hot := delete_durable (pd_table p) (pd_key p) lsn (sv_hot sv)\<rparr>)) (\<lambda>_.
     sv_bind (sv_modify (\<lambda>sv. sv\<lparr>sv_refs := remove_source (pd_path p) (sv_refs sv)\<rparr>)) (\<lambda>_.
     sv_bind (sv_modify (enqueue_job (JobDelete lsn (pd_table p) (pd_key p)))) (\<lambda>_.
     sv_bind (sv_modify (publish_delivery_event
       (EvRecordDeleted (pd_table p) (pd_key p) deleted_at lsn (pd_path p) previous))) (\<lambda>_.
       sv_return \<lparr>drr_table = pd_table p, drr_key = pd_key p, drr_deleted = True, drr_lsn = lsn,
         drr_deleted_at_ms = Some deleted_at, drr_path = pd_path p\<rparr>))))"

definition delete_draft :: "'n request_env \<Rightarrow> prepared_delete \<Rightarrow> string option \<Rightarrow> db_record_delete_draft" where
  "delete_draft env p mutation_id =
     \<lparr>dd_table = pd_table p, dd_key = pd_key p, dd_deleted_at_ms = en_now env, dd_path = pd_path p,
      dd_client_mutation_id = mutation_id\<rparr>"

definition delete_noop ::
  "'n request_env \<Rightarrow> prepared_delete \<Rightarrow> durability \<Rightarrow> u64 \<Rightarrow> string option \<Rightarrow>
     ('n, 's, 'g, delete_record_response) handler" where
  "delete_noop env p dur current_lsn mutation_id =
     (case mutation_id of
        None \<Rightarrow> sv_return (not_deleted p current_lsn (pd_path p))
      | Some i \<Rightarrow>
          sv_bind (append_to_shard env (pd_shard_key p) dur
              (ClientMutationRecorded i (RecordDeleteNoop (pd_table p) (pd_key p) (pd_path p)))) (\<lambda>w.
            sv_return (not_deleted p (wr_lsn w) (pd_path p))))"

definition commit_prepared_record_delete ::
  "'n request_env \<Rightarrow> prepared_delete \<Rightarrow> durability \<Rightarrow> u64 option \<Rightarrow> string option \<Rightarrow>
     ('n, 's, 'g, delete_record_response) handler" where
  "commit_prepared_record_delete env p dur expected mutation_id =
     sv_bind (sv_lift (en_accepting env)) (\<lambda>_.
     unless_recorded recorded_delete (if dur = Volatile then None else mutation_id)
       (if dur = Volatile then commit_volatile_delete env p expected
        else
          sv_bind (ensure_expected_record_lsn (pd_table p) (pd_key p) expected) (\<lambda>current_lsn.
          sv_get (\<lambda>sv.
            case projection_get (sv_disk sv) (pd_table p) (pd_key p) of
              None \<Rightarrow> delete_noop env p dur current_lsn mutation_id
            | Some current \<Rightarrow>
                sv_bind (append_to_shard env (pd_shard_key p) dur
                    (RecordDeleted (delete_draft env p mutation_id))) (\<lambda>w.
                  publish_delete p (en_now env) (wr_lsn w) (Some current))))))"

definition commit_record_delete ::
  "'n request_env \<Rightarrow> string \<Rightarrow> string \<Rightarrow> durability \<Rightarrow> u64 option \<Rightarrow> string option \<Rightarrow>
     ('n, 's, 'g, delete_record_response) handler" where
  "commit_record_delete env table key dur expected given_mutation_id =
     sv_bind (sv_lift (en_accepting env)) (\<lambda>_.
     sv_bind (sv_lift (normalize_client_mutation_id given_mutation_id)) (\<lambda>mutation_id.
     unless_recorded recorded_delete (if dur = Volatile then None else mutation_id)
       (sv_get (\<lambda>sv.
        sv_bind (sv_lift (validate_table_path (sv_schema sv) table)) (\<lambda>_.
        sv_bind (sv_lift (if ensure_safe_record_component key then Inr ()
                          else Inl (BadRequest ''invalid record key''))) (\<lambda>_.
          commit_prepared_record_delete env
            \<lparr>pd_table = table, pd_key = key, pd_path = table_record_path table key,
             pd_shard_key = table @ '':'' @ key\<rparr> dur expected mutation_id))))))"

definition delete_nested_record ::
  "'n request_env \<Rightarrow> string \<Rightarrow> string \<Rightarrow> string \<Rightarrow> string \<Rightarrow> durability \<Rightarrow> u64 option \<Rightarrow> string option \<Rightarrow>
     ('n, 's, 'g, delete_record_response) handler" where
  "delete_nested_record env table parent_key nested nested_key dur expected given_mutation_id =
     sv_bind (sv_lift (en_accepting env)) (\<lambda>_.
     sv_get (\<lambda>sv.
     sv_bind (sv_lift (validate_nested_record_path (sv_schema sv) table parent_key nested nested_key)) (\<lambda>_.
     sv_bind (sv_lift (normalize_client_mutation_id given_mutation_id)) (\<lambda>mutation_id.
       commit_prepared_record_delete env
         \<lparr>pd_table = nested_record_table table nested, pd_key = nested_record_key parent_key nested_key,
          pd_path = nested_record_path table parent_key nested nested_key,
          pd_shard_key = table @ '':'' @ parent_key\<rparr> dur expected mutation_id))))"

section \<open>Reads\<close>

text \<open>
  A read looks up the hot row first. For a table that keeps a window of its rows in memory a row
  found on disk is put into the cache; \<open>lookup_record\<close> is the part before that, and another
  request may run in between.
\<close>

definition lookup_record ::
  "u64 \<Rightarrow> string \<Rightarrow> string \<Rightarrow> ('n, 's, 'g, 'n db_record option \<times> bool) handler" where
  "lookup_record now table key =
     sv_bind (hot_call (cache_get now table key)) (\<lambda>hot. sv_get (\<lambda>sv.
       case hot of
         Some (Some r) \<Rightarrow> sv_return (Some r, False)
       | Some None \<Rightarrow>
           if Option.bind (durable_delete_lsn (sv_hot sv) table key) id \<noteq> None
           then sv_return (None, False)
           else if is_windowed_table (sv_hot sv) table
           then sv_return (projection_get (sv_disk sv) table key, True)
           else sv_return (None, False)
       | None \<Rightarrow> sv_return (projection_get (sv_disk sv) table key, False)))"

definition hydrate_found ::
  "u64 \<Rightarrow> 'n db_record option \<times> bool \<Rightarrow> ('n, 's, 'g, 'n db_record option) handler" where
  "hydrate_found now found =
     (case found of
        (Some r, True) \<Rightarrow>
          sv_bind (sv_modify (\<lambda>sv. sv\<lparr>sv_hot := hydrate_durable_many now [r] (sv_hot sv)\<rparr>)) (\<lambda>_.
            sv_return (Some r))
      | (r, _) \<Rightarrow> sv_return r)"

definition get_record_from_live_or_disk ::
  "u64 \<Rightarrow> string \<Rightarrow> string \<Rightarrow> ('n, 's, 'g, 'n db_record option) handler" where
  "get_record_from_live_or_disk now table key =
     sv_bind (lookup_record now table key) (\<lambda>found. hydrate_found now found)"

datatype read_consistency = Eventual | ReadYourWrites | StrongRead

record consistency_query =
  cq_consistency :: "read_consistency option"
  cq_min_lsn :: "u64 option"

text \<open>
  A consistent read waits for the applier. \<open>wait_for_lsn\<close> polls the LSN the applier announces
  until the deadline; \<open>caught_up\<close> is the state at the last poll before it.
\<close>

definition wait_target :: "consistency_query \<Rightarrow> u64 \<Rightarrow> api_error + u64 option" where
  "wait_target q current_lsn =
     (case (case cq_consistency q of None \<Rightarrow> Eventual | Some c \<Rightarrow> c) of
        Eventual \<Rightarrow> Inr None
      | ReadYourWrites \<Rightarrow>
          (case cq_min_lsn q of
             None \<Rightarrow> Inl (BadRequest ''read-your-writes consistency requires minLsn'')
           | Some lsn \<Rightarrow> Inr (Some lsn))
      | StrongRead \<Rightarrow> Inr (Some current_lsn))"

definition resolve_record_read_consistency ::
  "consistency_query \<Rightarrow> ('n, 's, 'g) server \<Rightarrow> ('n, 's, 'g) server \<Rightarrow> api_error + unit" where
  "resolve_record_read_consistency q asked caught_up =
     res_bind (wait_target q (sv_current_lsn asked)) (\<lambda>target.
       case target of
         None \<Rightarrow> Inr ()
       | Some lsn \<Rightarrow>
           if sv_applied_lsn caught_up < lsn
           then Inl (Unavailable (''record projection did not catch up to LSN '' @ decimal (unat lsn)))
           else Inr ())"

definition get_record ::
  "u64 \<Rightarrow> consistency_query \<Rightarrow> ('n, 's, 'g) server \<Rightarrow> string \<Rightarrow> string \<Rightarrow> ('n, 's, 'g, 'n db_record) handler" where
  "get_record now q asked table key =
     sv_get (\<lambda>sv. sv_bind (sv_lift (validate_record_path (sv_schema asked) table key)) (\<lambda>_.
     sv_bind (sv_lift (resolve_record_read_consistency q asked sv)) (\<lambda>_.
     sv_bind (get_record_from_live_or_disk now table key) (\<lambda>r.
       case r of None \<Rightarrow> sv_fail (NotFound ''record not found'') | Some r \<Rightarrow> sv_return r))))"

definition get_nested_record ::
  "u64 \<Rightarrow> consistency_query \<Rightarrow> ('n, 's, 'g) server \<Rightarrow> string \<Rightarrow> string \<Rightarrow> string \<Rightarrow> string \<Rightarrow>
     ('n, 's, 'g, 'n db_record) handler" where
  "get_nested_record now q asked table parent_key nested nested_key =
     sv_get (\<lambda>sv. sv_bind (sv_lift (validate_nested_record_path (sv_schema asked) table parent_key nested nested_key)) (\<lambda>_.
     sv_bind (sv_lift (resolve_record_read_consistency q asked sv)) (\<lambda>_.
     sv_bind (get_record_from_live_or_disk now (nested_record_table table nested)
         (nested_record_key parent_key nested_key)) (\<lambda>r.
       case r of None \<Rightarrow> sv_fail (NotFound ''nested record not found'') | Some r \<Rightarrow> sv_return r))))"

section \<open>The projection applier\<close>

definition applied :: "u64 \<Rightarrow> ('n, 's, 'g) server \<Rightarrow> ('n, 's, 'g) server" where
  "applied lsn sv = sv\<lparr>sv_applied_lsn := max (sv_applied_lsn sv) lsn\<rparr>"

text \<open>
  One job: a refused job is logged and skipped, keeping what it wrote before the error. The LSN
  the applier announces is the highest it has applied since it was spawned.
\<close>

fun clear_tombstone :: "u64 \<Rightarrow> 'n store_mutation \<Rightarrow> 'n hot_state \<Rightarrow> 'n hot_state" where
  "clear_tombstone lsn (StoreDelete table key) h = clear_durable_delete_tombstone table key lsn h"
| "clear_tombstone lsn (StoreUpsert r ixs order) h = h"

fun apply_job ::
  "('n, 'z) index_ops_scheme \<Rightarrow> 'n projection_job \<Rightarrow> ('n, 's, 'g) server \<Rightarrow> ('n, 's, 'g) server" where
  "apply_job ops (JobUpsert lsn r indexes order) sv =
     (case upsert_with_indexes ops r indexes order (sv_disk sv) of
        (p, Inl _) \<Rightarrow> sv\<lparr>sv_disk := p\<rparr>
      | (p, Inr _) \<Rightarrow> applied lsn (sv\<lparr>sv_disk := p\<rparr>))"
| "apply_job ops (JobDelete lsn table key) sv =
     (case delete_from_projection ops table key (sv_disk sv) of
        (p, Inl _) \<Rightarrow> sv\<lparr>sv_disk := p\<rparr>
      | (p, Inr _) \<Rightarrow>
          applied lsn (sv\<lparr>sv_disk := p,
            sv_hot := clear_durable_delete_tombstone table key lsn (sv_hot sv)\<rparr>))"
| "apply_job ops (JobTransaction lsn mutations) sv =
     (case apply_transaction ops mutations (sv_disk sv) of
        (p, Inl _) \<Rightarrow> sv\<lparr>sv_disk := p\<rparr>
      | (p, Inr _) \<Rightarrow>
          applied lsn (sv\<lparr>sv_disk := p, sv_hot := fold (clear_tombstone lsn) mutations (sv_hot sv)\<rparr>))"

definition run_applier :: "('n, 'z) index_ops_scheme \<Rightarrow> ('n, 's, 'g) server \<Rightarrow> ('n, 's, 'g) server" where
  "run_applier ops sv =
     (case sv_jobs sv of
        [] \<Rightarrow> sv
      | job # jobs \<Rightarrow> apply_job ops job (sv\<lparr>sv_jobs := jobs\<rparr>))"

end
