(* ===== verification/Record_Transaction.thy ===== *)
theory Record_Transaction
  imports Record_Server
begin

text \<open>
  Transactions and batches of record writes (\<open>api/records.rs\<close>) and the restart of the server
  (\<open>main.rs\<close>). A transaction checks every operation, logs one record and then changes the hot
  cache, the object references, the projection queue and the subscribers; a batch is split into
  transactions by shard and size.
\<close>

section \<open>Requests\<close>

datatype 'n tx_operation =
    TxUpsert string string "'n json" "u64 option"
  | TxDelete string string "u64 option"
  | TxNestedUpsert string string string string "'n json" "u64 option"
  | TxNestedDelete string string string string "u64 option"

record 'n tx_request =
  txr_durability :: durability
  txr_mutation_id :: "string option"
  txr_operations :: "'n tx_operation list"

record 'n batch_response =
  br_lsn :: u64
  br_transaction_count :: nat
  br_operations :: "'n transaction_op_response list"

record 'n prepared_transaction =
  pt_shard :: usize
  pt_durability :: durability
  pt_operations :: "'n db_record_mutation_draft list"

definition max_record_transaction_operations :: nat where
  "max_record_transaction_operations = 500"

definition max_record_batch_operations :: nat where
  "max_record_batch_operations = 5000"

fun tx_operation_shard_key :: "'n tx_operation \<Rightarrow> string" where
  "tx_operation_shard_key (TxUpsert table key _ _) = table @ '':'' @ key"
| "tx_operation_shard_key (TxDelete table key _) = table @ '':'' @ key"
| "tx_operation_shard_key (TxNestedUpsert table parent_key _ _ _ _) = table @ '':'' @ parent_key"
| "tx_operation_shard_key (TxNestedDelete table parent_key _ _ _) = table @ '':'' @ parent_key"

fun tx_operation_identity :: "'n tx_operation \<Rightarrow> string" where
  "tx_operation_identity (TxUpsert table key _ _) = table @ ''/'' @ key"
| "tx_operation_identity (TxDelete table key _) = table @ ''/'' @ key"
| "tx_operation_identity (TxNestedUpsert table parent_key nested nested_key _ _) =
     nested_record_table table nested @ ''/'' @ nested_record_key parent_key nested_key"
| "tx_operation_identity (TxNestedDelete table parent_key nested nested_key _) =
     nested_record_table table nested @ ''/'' @ nested_record_key parent_key nested_key"

text \<open>
  The id of a part of a split batch. The base is a normalised id, so its characters are single
  bytes.
\<close>

definition record_batch_child_client_mutation_id ::
  "(bytes \<Rightarrow> bytes) \<Rightarrow> string \<Rightarrow> nat \<Rightarrow> nat \<Rightarrow> bool \<Rightarrow> string" where
  "record_batch_child_client_mutation_id digest base shard chunk_index split_transaction =
     (if \<not> split_transaction then base
      else
        let suffix = '':s'' @ decimal shard @ ''p'' @ decimal chunk_index in
        if length base + length suffix \<le> 160 then base @ suffix
        else
          let marker = '':h'' @ take 16 (hex_lower (digest (map byte_of base)));
              keep = 160 - (length marker + length suffix)
          in take keep base @ marker @ suffix)"

section \<open>Checks across the operations\<close>

definition ensure_transaction_key_once ::
  "string bset \<Rightarrow> string \<Rightarrow> string \<Rightarrow> api_error + string bset" where
  "ensure_transaction_key_once seen table key =
     (let identity = record_identity table key in
      if bt_contains seen identity
      then Inl (BadRequest (''record transaction contains duplicate operation for '' @ identity))
      else Inr (bs_insert identity seen))"

definition ensure_record_batch_key_once ::
  "string bset \<Rightarrow> 'n tx_operation \<Rightarrow> api_error + string bset" where
  "ensure_record_batch_key_once seen operation =
     (let identity = tx_operation_identity operation in
      if bt_contains seen identity
      then Inl (BadRequest (''record batch contains duplicate operation for '' @ identity))
      else Inr (bs_insert identity seen))"

definition ensure_transaction_partition ::
  "string bset \<Rightarrow> string option \<Rightarrow> string \<Rightarrow> bool \<Rightarrow> api_error + string bset \<times> string option" where
  "ensure_transaction_partition touched nested_partition part is_nested =
     (let accepted = (\<lambda>nested. Inr (bs_insert part touched, nested)) in
      if is_nested then
        (case nested_partition of
           Some existing \<Rightarrow>
             if existing \<noteq> part
             then Inl (BadRequest (''nested transaction operations must target one parent partition; got '' @
                    existing @ '' and '' @ part))
             else if list_ex (\<lambda>p. p \<noteq> part) (bt_keys touched)
             then Inl (BadRequest (''nested transaction operations must not be mixed with a different partition than '' @
                    part))
             else accepted nested_partition
         | None \<Rightarrow>
             if list_ex (\<lambda>p. p \<noteq> part) (bt_keys touched)
             then Inl (BadRequest (''nested transaction operations must not be mixed with a different partition than '' @
                    part))
             else accepted (Some part))
      else
        (case nested_partition of
           Some existing \<Rightarrow>
             if existing \<noteq> part
             then Inl (BadRequest (''nested transaction operations must not be mixed with top-level partition '' @
                    part))
             else accepted nested_partition
         | None \<Rightarrow> accepted None))"

definition ensure_same_transaction_shard :: "usize option \<Rightarrow> usize \<Rightarrow> api_error + usize option" where
  "ensure_same_transaction_shard chosen shard =
     (case chosen of
        Some existing \<Rightarrow>
          if existing \<noteq> shard
          then Inl (BadRequest (''record transaction operations must target one shard; got shards '' @
                 decimal (unat existing) @ '' and '' @ decimal (unat shard)))
          else Inr chosen
      | None \<Rightarrow> Inr (Some shard))"

section \<open>Preparation\<close>

record 'n tx_state =
  tx_seen :: "string bset"
  tx_touched :: "string bset"
  tx_nested :: "string option"
  tx_shard :: "usize option"
  tx_operations :: "'n db_record_mutation_draft list"
  tx_upserts :: "'n db_record list"
  tx_deletes :: "string bset"
  tx_delete_identities :: "string bset"

definition tx_start :: "'n tx_state" where
  "tx_start =
     \<lparr>tx_seen = bt_empty, tx_touched = bt_empty, tx_nested = None, tx_shard = None,
      tx_operations = [], tx_upserts = [], tx_deletes = bt_empty, tx_delete_identities = bt_empty\<rparr>"

text \<open>The checks the four kinds of operation share, after their own validation.\<close>

definition prepare_target ::
  "'n request_env \<Rightarrow> string \<Rightarrow> bool \<Rightarrow> string \<Rightarrow> string \<Rightarrow> u64 option \<Rightarrow> 'n tx_state \<Rightarrow>
     ('n, 's, 'g, 'n tx_state \<times> u64) handler" where
  "prepare_target env part is_nested table key expected tx =
     sv_bind (sv_lift (ensure_transaction_partition (tx_touched tx) (tx_nested tx) part is_nested))
       (\<lambda>(touched, nested).
     sv_bind (sv_lift (ensure_transaction_key_once (tx_seen tx) table key)) (\<lambda>seen.
     sv_bind (sv_lift (en_shard_of_key env part)) (\<lambda>shard.
     sv_bind (sv_lift (ensure_same_transaction_shard (tx_shard tx) shard)) (\<lambda>shard.
     sv_bind (ensure_expected_record_lsn table key expected) (\<lambda>current_lsn.
       sv_return (tx\<lparr>tx_touched := touched, tx_nested := nested, tx_seen := seen, tx_shard := shard\<rparr>,
                  current_lsn))))))"

definition add_upsert ::
  "u64 \<Rightarrow> string \<Rightarrow> string \<Rightarrow> 'n json \<Rightarrow> string \<Rightarrow> 'n tx_state \<Rightarrow> 'n tx_state" where
  "add_upsert now table key v path tx =
     (let draft = \<lparr>rd_table = table, rd_key = key, rd_value = v, rd_updated_at_ms = now, rd_path = path,
                   rd_client_mutation_id = None\<rparr>
      in tx\<lparr>tx_upserts := tx_upserts tx @ [record_of_draft draft 0],
            tx_operations := tx_operations tx @ [MutUpsert draft]\<rparr>)"

definition add_delete :: "u64 \<Rightarrow> string \<Rightarrow> string \<Rightarrow> string \<Rightarrow> u64 \<Rightarrow> 'n tx_state \<Rightarrow> 'n tx_state" where
  "add_delete now table key path current_lsn tx =
     (if current_lsn = 0 then tx
      else tx\<lparr>tx_deletes := bs_insert path (tx_deletes tx),
              tx_delete_identities := bs_insert (record_identity table key) (tx_delete_identities tx),
              tx_operations := tx_operations tx @
                [MutDelete \<lparr>dd_table = table, dd_key = key, dd_deleted_at_ms = now, dd_path = path,
                            dd_client_mutation_id = None\<rparr>]\<rparr>)"

fun prepare_operation ::
  "('n, 'z) index_ops_scheme \<Rightarrow> 'n request_env \<Rightarrow> 'n tx_operation \<Rightarrow> 'n tx_state \<Rightarrow>
     ('n, 's, 'g, 'n tx_state) handler" where
  "prepare_operation ops env (TxUpsert table key v expected) tx =
     sv_bind (sv_lift (ensure_json_value_limit env ''record transaction upsert value'' v)) (\<lambda>_. sv_get (\<lambda>sv.
     sv_bind (sv_lift (validate_record_identity ops (sv_schema sv) table key v)) (\<lambda>_.
     sv_bind (sv_lift (validate_record_object_refs ops env (sv_schema sv) table v)) (\<lambda>_.
     sv_bind (prepare_target env (table @ '':'' @ key) False table key expected tx) (\<lambda>(tx, current_lsn).
       sv_return (add_upsert (en_now env) table key v (table_record_path table key) tx))))))"
| "prepare_operation ops env (TxDelete table key expected) tx =
     sv_get (\<lambda>sv.
     sv_bind (sv_lift (validate_table_path (sv_schema sv) table)) (\<lambda>_.
     sv_bind (sv_lift (if ensure_safe_record_component key then Inr ()
                       else Inl (BadRequest ''invalid record key''))) (\<lambda>_.
     sv_bind (prepare_target env (table @ '':'' @ key) False table key expected tx) (\<lambda>(tx, current_lsn).
       sv_return (add_delete (en_now env) table key (table_record_path table key) current_lsn tx)))))"
| "prepare_operation ops env (TxNestedUpsert table parent_key nested nested_key v expected) tx =
     sv_bind (sv_lift (ensure_json_value_limit env ''record transaction nested upsert value'' v)) (\<lambda>_. sv_get (\<lambda>sv.
     sv_bind (sv_lift (validate_nested_record_identity ops (sv_schema sv) table parent_key nested nested_key v)) (\<lambda>_.
     sv_bind (sv_lift (validate_nested_record_object_refs ops env (sv_schema sv) table nested v)) (\<lambda>_.
     sv_bind (prepare_target env (table @ '':'' @ parent_key) True (nested_record_table table nested)
         (nested_record_key parent_key nested_key) expected tx) (\<lambda>(tx, current_lsn).
       sv_return (add_upsert (en_now env) (nested_record_table table nested)
         (nested_record_key parent_key nested_key) v
         (nested_record_path table parent_key nested nested_key) tx))))))"
| "prepare_operation ops env (TxNestedDelete table parent_key nested nested_key expected) tx =
     sv_get (\<lambda>sv.
     sv_bind (sv_lift (validate_nested_record_path (sv_schema sv) table parent_key nested nested_key)) (\<lambda>_.
     sv_bind (prepare_target env (table @ '':'' @ parent_key) True (nested_record_table table nested)
         (nested_record_key parent_key nested_key) expected tx) (\<lambda>(tx, current_lsn).
       sv_return (add_delete (en_now env) (nested_record_table table nested)
         (nested_record_key parent_key nested_key)
         (nested_record_path table parent_key nested nested_key) current_lsn tx))))"

fun prepare_operations ::
  "('n, 'z) index_ops_scheme \<Rightarrow> 'n request_env \<Rightarrow> 'n tx_operation list \<Rightarrow> 'n tx_state \<Rightarrow>
     ('n, 's, 'g, 'n tx_state) handler" where
  "prepare_operations ops env [] tx = sv_return tx"
| "prepare_operations ops env (operation # rest) tx =
     sv_bind (prepare_operation ops env operation tx) (\<lambda>tx. prepare_operations ops env rest tx)"

definition prepare_record_transaction ::
  "('n, 'z) index_ops_scheme \<Rightarrow> 'n request_env \<Rightarrow> 'n tx_request \<Rightarrow>
     ('n, 's, 'g, 'n prepared_transaction) handler" where
  "prepare_record_transaction ops env request =
     sv_bind (prepare_operations ops env (txr_operations request) tx_start) (\<lambda>tx.
     sv_bind (validate_transaction_unique_indexes ops (en_now env) (tx_upserts tx) (tx_deletes tx)
         (tx_delete_identities tx)) (\<lambda>_.
       sv_return \<lparr>pt_shard = (case tx_shard tx of None \<Rightarrow> 0 | Some shard \<Rightarrow> shard),
                  pt_durability = txr_durability request, pt_operations = tx_operations tx\<rparr>))"

section \<open>Application\<close>

text \<open>The rows to write with their indexes and order, in the order of the operations.\<close>

fun resolve_operations ::
  "u64 \<Rightarrow> database_schema \<Rightarrow> 'n db_record_mutation_draft list \<Rightarrow>
     api_error + ('n db_record \<times> (string, index_schema) btree \<times> order_term list option) list" where
  "resolve_operations lsn s [] = Inr []"
| "resolve_operations lsn s (MutUpsert d # rest) =
     res_bind (map_err BadRequest (schema_record_indexes s (rd_table d))) (\<lambda>indexes.
     res_bind (record_order_for_logical_table s (rd_table d)) (\<lambda>order.
     res_bind (resolve_operations lsn s rest) (\<lambda>upserts.
       Inr ((record_of_draft d lsn, indexes, order) # upserts))))"
| "resolve_operations lsn s (MutDelete d # rest) = resolve_operations lsn s rest"

fun deletes_of :: "'n db_record_mutation_draft list \<Rightarrow> db_record_delete_draft list" where
  "deletes_of [] = []"
| "deletes_of (MutUpsert d # rest) = deletes_of rest"
| "deletes_of (MutDelete d # rest) = d # deletes_of rest"

fun event_of_response :: "'n transaction_op_response \<Rightarrow> 'n delivery_event" where
  "event_of_response (OpRecordUpserted r) = EvRecordUpserted (rec_table r) (rec_key r) r"
| "event_of_response (OpRecordDeleted table key deleted_at lsn path) =
     EvRecordDeleted table key deleted_at lsn path None"

definition apply_record_transaction_operations ::
  "('n, 'z) index_ops_scheme \<Rightarrow> 'n request_env \<Rightarrow> 'n db_record_mutation_draft list \<Rightarrow> u64 \<Rightarrow> bool \<Rightarrow>
     ('n, 's, 'g, 'n transaction_op_response list) handler" where
  "apply_record_transaction_operations ops env operations lsn emit_events =
     sv_get (\<lambda>sv. sv_bind (sv_lift (resolve_operations lsn (sv_schema sv) operations)) (\<lambda>upserts.
       let responses = record_transaction_response_operations operations lsn;
           deletes = deletes_of operations;
           records = map fst upserts;
           mutations = map (\<lambda>d. StoreDelete (dd_table d) (dd_key d)) deletes
             @ map (\<lambda>(r, indexes, order). StoreUpsert r indexes order) upserts
       in
       sv_bind (sv_modify (\<lambda>sv. sv\<lparr>sv_hot :=
         fold (\<lambda>d. delete_durable (dd_table d) (dd_key d) lsn) deletes (sv_hot sv)\<rparr>)) (\<lambda>_.
       sv_bind (sv_modify (\<lambda>sv. sv\<lparr>sv_hot := upsert_many (en_now env) records (sv_hot sv)\<rparr>)) (\<lambda>_.
       sv_bind (\<lambda>sv. case apply_record_changes_for_schema ops (sv_schema sv) (map dd_path deletes) records
             (sv_refs sv) of
           (refs, Inl _) \<Rightarrow> (Inl InternalError, sv\<lparr>sv_refs := refs\<rparr>)
         | (refs, Inr _) \<Rightarrow> (Inr (), sv\<lparr>sv_refs := refs\<rparr>)) (\<lambda>_.
       sv_bind (sv_modify (enqueue_job (JobTransaction lsn mutations))) (\<lambda>_.
       sv_bind (if emit_events
                then sv_each (\<lambda>x. sv_modify (publish_delivery_event (event_of_response x))) responses
                else sv_return ()) (\<lambda>_.
         sv_return responses)))))))"

section \<open>Transactions\<close>

definition commit_prepared_transaction ::
  "('n, 'z) index_ops_scheme \<Rightarrow> 'n request_env \<Rightarrow> 'n prepared_transaction \<Rightarrow> string option \<Rightarrow>
     ('n, 's, 'g, 'n transaction_response) handler" where
  "commit_prepared_transaction ops env prepared mutation_id =
     (let append = (\<lambda>payload.
        sv_bind (sv_lift (en_accepting env)) (\<lambda>_.
        sv_bind (sv_lift (en_not_frozen env (pt_shard prepared))) (\<lambda>_.
          append_ordered_wal_record env (pt_shard prepared) (pt_durability prepared) payload)))
      in
      if pt_operations prepared = [] then
        (case mutation_id of
           None \<Rightarrow> sv_return \<lparr>tr_lsn = 0, tr_operations = []\<rparr>
         | Some i \<Rightarrow>
             sv_bind (append (ClientMutationRecorded i RecordTransactionNoop)) (\<lambda>w.
               sv_return \<lparr>tr_lsn = wr_lsn w, tr_operations = []\<rparr>))
      else
        sv_bind (append (RecordTransactionCommitted (pt_operations prepared) mutation_id)) (\<lambda>w.
        sv_bind (apply_record_transaction_operations ops env (pt_operations prepared) (wr_lsn w) True)
          (\<lambda>responses. sv_return \<lparr>tr_lsn = wr_lsn w, tr_operations = responses\<rparr>)))"

definition commit_record_transaction ::
  "('n, 'z) index_ops_scheme \<Rightarrow> 'n request_env \<Rightarrow> 'n tx_request \<Rightarrow>
     ('n, 's, 'g, 'n transaction_response) handler" where
  "commit_record_transaction ops env request =
     sv_bind (sv_lift (en_accepting env)) (\<lambda>_.
     if txr_durability request = Volatile
     then sv_fail (BadRequest ''record transactions cannot be volatile; use realtime events for lossy data'')
     else if txr_operations request = []
     then sv_fail (BadRequest ''record transaction requires at least one operation'')
     else if max_record_transaction_operations < length (txr_operations request)
     then sv_fail (BadRequest ''record transaction supports at most 500 operations'')
     else
       sv_bind (sv_lift (normalize_client_mutation_id (txr_mutation_id request))) (\<lambda>mutation_id.
       unless_recorded recorded_transaction mutation_id
         (sv_bind (prepare_record_transaction ops env request) (\<lambda>prepared.
            commit_prepared_transaction ops env prepared mutation_id))))"

section \<open>Batches\<close>

fun chunks_fuel :: "nat \<Rightarrow> nat \<Rightarrow> 'a list \<Rightarrow> 'a list list" where
  "chunks_fuel 0 n xs = []"
| "chunks_fuel (Suc k) n xs = (if xs = [] then [] else take n xs # chunks_fuel k n (drop n xs))"

text \<open>\<open>xs.chunks(n)\<close>; there are at most as many chunks as elements.\<close>

definition chunks :: "nat \<Rightarrow> 'a list \<Rightarrow> 'a list list" where
  "chunks n xs = chunks_fuel (length xs) n xs"

fun group_by_shard ::
  "'n request_env \<Rightarrow> 'n tx_operation list \<Rightarrow> string bset \<Rightarrow> (nat, 'n tx_operation list) btree \<Rightarrow>
     api_error + (nat, 'n tx_operation list) btree" where
  "group_by_shard env [] seen groups = Inr groups"
| "group_by_shard env (operation # rest) seen groups =
     res_bind (ensure_record_batch_key_once seen operation) (\<lambda>seen.
       let shard = shard_index (en_sha256 env) (tx_operation_shard_key operation) (en_shard_count env)
       in group_by_shard env rest seen
            (bt_insert shard (bt_get_or groups shard [] @ [operation]) groups))"

text \<open>The transactions of a batch, shard by shard, each with its index among the chunks of its shard.\<close>

definition batch_parts :: "(nat, 'n tx_operation list) btree \<Rightarrow> (nat \<times> nat \<times> 'n tx_operation list) list" where
  "batch_parts groups =
     concat (map (\<lambda>(shard, operations).
       map (\<lambda>(i, chunk). (shard, i, chunk)) (enumerate 0 (chunks max_record_transaction_operations operations)))
       (bt_entries groups))"

definition batch_is_split :: "(nat, 'n tx_operation list) btree \<Rightarrow> bool" where
  "batch_is_split groups \<longleftrightarrow>
     1 < bt_len groups \<or>
     list_ex (\<lambda>operations. max_record_transaction_operations < length operations) (bt_values groups)"

fun commit_parts ::
  "('n, 'z) index_ops_scheme \<Rightarrow> 'n request_env \<Rightarrow> durability \<Rightarrow> (nat \<Rightarrow> nat \<Rightarrow> string option) \<Rightarrow>
     (nat \<times> nat \<times> 'n tx_operation list) list \<Rightarrow> 'n batch_response \<Rightarrow>
     ('n, 's, 'g, 'n batch_response) handler" where
  "commit_parts ops env dur child_id [] acc = sv_return acc"
| "commit_parts ops env dur child_id ((shard, chunk_index, chunk) # rest) acc =
     sv_bind (commit_record_transaction ops env
         \<lparr>txr_durability = dur, txr_mutation_id = child_id shard chunk_index, txr_operations = chunk\<rparr>)
       (\<lambda>response. commit_parts ops env dur child_id rest
          \<lparr>br_lsn = max (br_lsn acc) (tr_lsn response),
           br_transaction_count = br_transaction_count acc + 1,
           br_operations = br_operations acc @ tr_operations response\<rparr>)"

definition commit_record_batch ::
  "('n, 'z) index_ops_scheme \<Rightarrow> 'n request_env \<Rightarrow> 'n tx_request \<Rightarrow> ('n, 's, 'g, 'n batch_response) handler" where
  "commit_record_batch ops env request =
     sv_bind (sv_lift (en_accepting env)) (\<lambda>_.
     if txr_durability request = Volatile
     then sv_fail (BadRequest ''record batches cannot be volatile; use realtime events for lossy data'')
     else if txr_operations request = []
     then sv_fail (BadRequest ''record batch requires at least one operation'')
     else if max_record_batch_operations < length (txr_operations request)
     then sv_fail (BadRequest (''record batch supports at most '' @ decimal max_record_batch_operations @
            '' operations''))
     else
       sv_bind (sv_lift (normalize_client_mutation_id (txr_mutation_id request))) (\<lambda>mutation_id.
       sv_bind (sv_lift (group_by_shard env (txr_operations request) bt_empty bt_empty)) (\<lambda>groups.
         commit_parts ops env (txr_durability request)
           (\<lambda>shard chunk_index. map_option (\<lambda>base.
              record_batch_child_client_mutation_id (en_sha256 env) base shard chunk_index
                (batch_is_split groups)) mutation_id)
           (batch_parts groups)
           \<lparr>br_lsn = 0, br_transaction_count = 0, br_operations = []\<rparr>)))"

section \<open>Restart\<close>

definition storage_of_schema :: "database_schema \<Rightarrow> storage_schema" where
  "storage_of_schema s =
     bt_map (\<lambda>_ t. \<lparr>tst_storage = tsc_storage t, tst_nested = bt_map (\<lambda>_. nts_storage) (tsc_nested t)\<rparr>)
       (db_tables s)"

definition schema_indexes_by_table :: "database_schema \<Rightarrow> (string, (string, index_schema) btree) btree" where
  "schema_indexes_by_table s =
     fold (\<lambda>(table_name, t) out.
       fold (\<lambda>(nested_name, n). bt_insert (nested_record_table table_name nested_name) (nts_indexes n))
         (bt_entries (tsc_nested t)) (bt_insert table_name (tsc_indexes t) out))
       (bt_entries (db_tables s)) bt_empty"

fun insert_orders ::
  "(string \<times> nested_table_schema) list \<Rightarrow> string \<Rightarrow> (string, order_term list) btree \<Rightarrow>
     store_error + (string, order_term list) btree" where
  "insert_orders [] table_name out = Inr out"
| "insert_orders ((nested_name, n) # rest) table_name out =
     (case nts_storage n of
        ChatLog _ order _ \<Rightarrow>
          res_bind (parse_record_order_terms order) (\<lambda>terms.
            insert_orders rest table_name (bt_insert (nested_record_table table_name nested_name) terms out))
      | _ \<Rightarrow> insert_orders rest table_name out)"

fun orders_by_table ::
  "(string \<times> table_schema) list \<Rightarrow> (string, order_term list) btree \<Rightarrow>
     store_error + (string, order_term list) btree" where
  "orders_by_table [] out = Inr out"
| "orders_by_table ((table_name, t) # rest) out =
     res_bind (insert_orders (bt_entries (tsc_nested t)) table_name out) (orders_by_table rest)"

definition schema_orders_by_table ::
  "database_schema \<Rightarrow> store_error + (string, order_term list) btree" where
  "schema_orders_by_table s = orders_by_table (bt_entries (db_tables s)) bt_empty"

text \<open>
  A start reads the log and rebuilds from it the hot cache, the object references and the client
  mutations. The projection on disk is kept as it was, unless it has never been marked as
  bootstrapped; jobs that were still queued are gone, and the applier starts at LSN 0.
\<close>

record 'n startup =
  su_now :: u64
  su_idle_ttl_ms :: u64
  su_bootstrapped :: bool
  su_snapshot :: "'n hot_snapshot option"
  su_snapshot_lsn :: u64

definition startup_projection ::
  "('n, 'z) index_ops_scheme \<Rightarrow> 'n startup \<Rightarrow> database_schema \<Rightarrow> 'n db_record list \<Rightarrow> 'n projection \<Rightarrow>
     api_error + 'n projection" where
  "startup_projection ops su s rows disk =
     res_bind (map_err (\<lambda>_. InternalError) (schema_orders_by_table s)) (\<lambda>orders.
       if su_bootstrapped su \<or> rows = [] then Inr disk
       else
         case force_rebuild_from_records_with_indexes ops rows (schema_indexes_by_table s) orders disk of
           (p, Inl _) \<Rightarrow> Inl InternalError
         | (p, Inr _) \<Rightarrow> Inr p)"

definition restart ::
  "('n, 'z) index_ops_scheme \<Rightarrow> 'n startup \<Rightarrow> ('n, 's, 'g) server \<Rightarrow> api_error + ('n, 's, 'g) server" where
  "restart ops su sv =
     (let ws = sv_wal sv;
          s = sv_schema sv;
          rows = records_from_wal_records ws;
          highest = fold (\<lambda>w. max (wr_lsn w)) ws (su_snapshot_lsn su) in
      res_bind (startup_projection ops su s rows (sv_disk sv)) (\<lambda>disk.
      res_bind (refs_from_messages_and_records ops s (messages_from_wal_records ws) rows) (\<lambda>refs.
        Inr \<lparr>sv_next_lsn = highest, sv_current_lsn = highest, sv_wal = ws,
             sv_hot = from_schema_snapshot_and_records (su_now su) (storage_of_schema s) (su_snapshot su)
               (su_snapshot_lsn su) rows (su_idle_ttl_ms su),
             sv_disk = disk, sv_jobs = [], sv_applied_lsn = 0, sv_refs = refs,
             sv_mutations = client_mutation_index_from_wal_records ws, sv_events = [],
             sv_schema = s\<rparr>)))"

end
