(* ===== verification/Record_Flow.thy ===== *)
theory Record_Flow
  imports Record_Transaction
begin

text \<open>
  What the record path guarantees. Every request is shown to do one of three things to the log
  and to the projection queue: nothing, one log record with the job that carries it, or one log
  record that changes no row. From this follow the agreement of log, queue and projection, the
  reads and the retries.
\<close>

section \<open>The table the log describes\<close>

fun draft_mutation :: "u64 \<Rightarrow> 'n db_record_mutation_draft \<Rightarrow> 'n row_table \<Rightarrow> 'n row_table" where
  "draft_mutation lsn (MutUpsert d) T = bt_insert (rd_table d, rd_key d) (record_of_draft d lsn) T"
| "draft_mutation lsn (MutDelete d) T = bt_remove (dd_table d, dd_key d) T"

definition log_rows :: "('n, 's, 'g) wal_record \<Rightarrow> 'n row_table \<Rightarrow> 'n row_table" where
  "log_rows w T =
     (case wr_payload w of
        RecordUpserted d \<Rightarrow> draft_mutation (wr_lsn w) (MutUpsert d) T
      | RecordDeleted d \<Rightarrow> draft_mutation (wr_lsn w) (MutDelete d) T
      | RecordTransactionCommitted operations _ \<Rightarrow> fold (draft_mutation (wr_lsn w)) operations T
      | _ \<Rightarrow> T)"

definition log_table :: "('n, 's, 'g) wal_record list \<Rightarrow> 'n row_table" where
  "log_table ws = fold log_rows ws bt_empty"

fun job_table :: "'n projection_job \<Rightarrow> 'n row_table \<Rightarrow> 'n row_table" where
  "job_table (JobUpsert lsn r ixs order) T = bt_insert (rec_table r, rec_key r) r T"
| "job_table (JobDelete lsn table key) T = bt_remove (table, key) T"
| "job_table (JobTransaction lsn mutations) T = fold table_apply mutations T"

fun plain_job :: "'n projection_job \<Rightarrow> bool" where
  "plain_job (JobUpsert lsn r ixs order) \<longleftrightarrow> plain_row r"
| "plain_job (JobDelete lsn table key) \<longleftrightarrow> plain table \<and> plain key"
| "plain_job (JobTransaction lsn mutations) \<longleftrightarrow> list_all plain_mutation mutations"

fun job_lsn :: "'n projection_job \<Rightarrow> u64" where
  "job_lsn (JobUpsert lsn r ixs order) = lsn"
| "job_lsn (JobDelete lsn table key) = lsn"
| "job_lsn (JobTransaction lsn mutations) = lsn"

section \<open>Steps that leave log, queue and projection alone\<close>

definition flow_view :: "('n, 's, 'g) server \<Rightarrow> _" where
  "flow_view sv = (sv_wal sv, sv_jobs sv, sv_disk sv, sv_schema sv, sv_mutations sv, sv_applied_lsn sv)"

definition quiet :: "('n, 's, 'g, 'a) handler \<Rightarrow> bool" where
  "quiet m \<longleftrightarrow> (\<forall>sv. flow_view (snd (m sv)) = flow_view sv)"

named_theorems quiet_intros

lemma quietI: "(\<And>sv. flow_view (snd (m sv)) = flow_view sv) \<Longrightarrow> quiet m"
  by (simp add: quiet_def)

lemma quietD: "quiet m \<Longrightarrow> m sv = (res, sv') \<Longrightarrow> flow_view sv' = flow_view sv"
  unfolding quiet_def by (metis snd_conv)

lemma quiet_return [quiet_intros]: "quiet (sv_return x)" by (simp add: quiet_def)
lemma quiet_lift [quiet_intros]: "quiet (sv_lift r)" by (simp add: quiet_def)
lemma quiet_fail [quiet_intros]: "quiet (sv_fail e)" by (simp add: quiet_def)

lemma quiet_get [quiet_intros]: "(\<And>sv. quiet (m sv)) \<Longrightarrow> quiet (sv_get m)"
  by (simp add: quiet_def)

lemma quiet_bind [quiet_intros]:
  assumes "quiet m" "\<And>x. quiet (k x)"
  shows "quiet (sv_bind m k)"
proof (rule quietI)
  fix sv
  obtain res sv1 where m: "m sv = (res, sv1)" by (cases "m sv")
  with assms(1) have "flow_view sv1 = flow_view sv" by (rule quietD)
  then show "flow_view (snd (sv_bind m k sv)) = flow_view sv"
    using m assms(2) by (cases res) (simp_all add: quiet_def)
qed

lemma quiet_eq: "(\<And>sv. m sv = m' sv) \<Longrightarrow> quiet m' \<Longrightarrow> quiet m"
  by (simp add: quiet_def)

lemma quiet_each [quiet_intros]:
  assumes "\<And>x. quiet (f x)"
  shows "quiet (sv_each f xs)"
proof (induction xs)
  case (Cons x xs)
  have "quiet (sv_bind (f x) (\<lambda>_. sv_each f xs))" by (intro quiet_intros assms Cons)
  then show ?case by (rule quiet_eq [rotated]) simp
qed (simp add: quiet_def)

lemma quiet_hot_call [quiet_intros]: "quiet (hot_call f)"
  by (simp add: quiet_def hot_call_def flow_view_def case_prod_beta)

lemma quiet_hot [quiet_intros]: "quiet (sv_modify (\<lambda>sv. sv\<lparr>sv_hot := f sv\<rparr>))"
  by (simp add: quiet_def flow_view_def)

lemma quiet_refs [quiet_intros]: "quiet (sv_modify (\<lambda>sv. sv\<lparr>sv_refs := f sv\<rparr>))"
  by (simp add: quiet_def flow_view_def)

lemma quiet_event [quiet_intros]: "quiet (sv_modify (publish_delivery_event e))"
  by (simp add: quiet_def flow_view_def publish_delivery_event_def)

lemma quiet_retain [quiet_intros]: "quiet (retain_refs ops r)"
  by (simp add: quiet_def flow_view_def retain_refs_def split: prod.splits sum.splits)

lemma quiet_if [quiet_intros]: "(b \<Longrightarrow> quiet m) \<Longrightarrow> (\<not> b \<Longrightarrow> quiet m') \<Longrightarrow> quiet (if b then m else m')"
  by simp

lemma quiet_option [quiet_intros]:
  "quiet m \<Longrightarrow> (\<And>x. quiet (k x)) \<Longrightarrow> quiet (case r of None \<Rightarrow> m | Some x \<Rightarrow> k x)"
  by (simp split: option.split)

lemma quiet_pair [quiet_intros]: "(\<And>a b. quiet (k a b)) \<Longrightarrow> quiet (case p of (a, b) \<Rightarrow> k a b)"
  by (simp split: prod.split)

lemma quiet_let [quiet_intros]: "(\<And>x. quiet (k x)) \<Longrightarrow> quiet (let x = r in k x)"
  by simp

lemma quiet_expected [quiet_intros]: "quiet (ensure_expected_record_lsn table key expected)"
  by (simp add: quiet_def ensure_expected_record_lsn_def)

lemma quiet_live_row [quiet_intros]: "quiet (live_row now table key)"
  unfolding live_row_def by (intro quiet_intros)

lemma quiet_expected_live [quiet_intros]:
  "quiet (ensure_expected_record_lsn_for_live_state now table key expected)"
  unfolding ensure_expected_record_lsn_for_live_state_def by (intro quiet_intros)

lemma quiet_current [quiet_intros]: "quiet (record_current_for_unique_validation now r)"
  unfolding record_current_for_unique_validation_def by (intro quiet_intros)

lemma quiet_refuse [quiet_intros]: "quiet (refuse_conflict r name c)"
  unfolding refuse_conflict_def by (intro quiet_intros)

lemma quiet_unique_index [quiet_intros]:
  "quiet (validate_unique_index ops now deletes ids paths r name ix vals)"
  unfolding validate_unique_index_def by (intro quiet_intros)

lemma quiet_record_indexes [quiet_intros]:
  "quiet (validate_record_indexes ops now deletes ids paths r ixs seen)"
proof (induction ixs arbitrary: seen)
  case (Cons e ixs)
  then show ?case
    by (cases e) (auto simp: Let_def intro!: quiet_intros)
qed (simp add: quiet_intros)

lemma quiet_unique_upserts [quiet_intros]:
  "quiet (validate_unique_upserts ops now deletes ids paths rs seen)"
proof (induction rs arbitrary: seen)
  case (Cons r rs)
  show ?case by (subst validate_unique_upserts.simps(2)) (intro quiet_intros Cons)
qed (simp add: quiet_intros)

lemma quiet_unique [quiet_intros]:
  "quiet (validate_transaction_unique_indexes ops now upserts deletes ids)"
  unfolding validate_transaction_unique_indexes_def by (intro quiet_intros)

lemma quiet_volatile_upsert [quiet_intros]: "quiet (commit_volatile_upsert ops env draft expected)"
  unfolding commit_volatile_upsert_def Let_def by (intro quiet_intros)

lemma quiet_volatile_delete [quiet_intros]: "quiet (commit_volatile_delete env p expected)"
  unfolding commit_volatile_delete_def Let_def by (intro quiet_intros)

lemma quiet_lookup [quiet_intros]: "quiet (lookup_record now table key)"
proof -
  have "quiet (case hot of Some (Some r) \<Rightarrow> sv_return (Some r, False) | Some None \<Rightarrow> m | None \<Rightarrow> m')"
    if "quiet m" "quiet m'" for hot :: "'x db_record option option" and m m'
      :: "('x, 'y, 'z, 'x db_record option \<times> bool) handler"
    using that by (auto intro: quiet_intros split: option.split)
  then show ?thesis unfolding lookup_record_def by (auto intro!: quiet_intros)
qed

lemma quiet_hydrate [quiet_intros]: "quiet (hydrate_found now found)"
  unfolding hydrate_found_def by (auto intro!: quiet_intros split: option.split prod.split bool.split)

lemma quiet_get_record [quiet_intros]: "quiet (get_record now q asked table key)"
  unfolding get_record_def get_record_from_live_or_disk_def by (intro quiet_intros)

lemma quiet_get_nested_record [quiet_intros]:
  "quiet (get_nested_record now q asked table parent_key nested nested_key)"
  unfolding get_nested_record_def get_record_from_live_or_disk_def by (intro quiet_intros)

section \<open>What a served schema gives\<close>

definition undotted :: "database_schema \<Rightarrow> bool" where
  "undotted s \<longleftrightarrow> list_all (\<lambda>t. CHR ''.'' \<notin> set t) (bt_keys (db_tables s))"

definition served_schema :: "database_schema \<Rightarrow> bool" where
  "served_schema s \<longleftrightarrow> undotted s \<and> \<not> isl (schema_orders_by_table s)"

lemma not_isl_Inr: "\<not> isl r \<Longrightarrow> \<exists>x. r = Inr x"
  by (cases r) simp_all

lemma isl_res_bind: "isl (res_bind r f) \<longleftrightarrow> isl r \<or> isl (f (projr r))"
  by (cases r) simp_all

lemma isl_map_err [simp]: "isl (map_err f r) \<longleftrightarrow> isl r"
  by (cases r) (simp_all add: map_err_def)

lemma isl_map_res: "isl (map_res f xs) \<longleftrightarrow> (\<exists>x\<in>set xs. isl (f x))"
  by (induction xs) (auto simp: isl_res_bind)

lemma collect_path:
  "isl (collect_refs_from_type ops p t v) \<longleftrightarrow> isl (collect_refs_from_type ops q t v)"
  "isl (collect_refs_from_field ops p fld v) \<longleftrightarrow> isl (collect_refs_from_field ops q fld v)"
proof (induction ops p t v and ops p fld v arbitrary: q and q
    rule: collect_refs_from_type_collect_refs_from_field.induct)
  case (1 ops p t v)
  have ref: "isl (declared_ref_of ops p es) \<longleftrightarrow> isl (declared_ref_of ops q es)" for es
    by (simp add: declared_ref_of_def isl_res_bind object_ref_string_field_def split: option.split json.split)
  show ?case
  proof (cases "v = JNull")
    case False
    note unfold_simps = collect_refs_from_type.simps [of ops p t v] collect_refs_from_type.simps [of ops q t v]
    show ?thesis
    proof (cases t)
      case (FList item)
      have step: "isl (case x of (i, v') \<Rightarrow> collect_refs_from_type ops (p @ ''['' @ decimal i @ '']'') item v') \<longleftrightarrow>
          isl (case x of (i, v') \<Rightarrow> collect_refs_from_type ops (q @ ''['' @ decimal i @ '']'') item v')"
        if "v = JArray vs" "x \<in> set (enumerate 0 vs)" for vs x
        by (cases x) (simp only: prod.case "1.IH"(1) [OF False FList that, of _ _ "q @ ''['' @ decimal (fst x) @ '']''"] fst_conv)
      show ?thesis using False step unfolding unfold_simps unfolding FList
        by (cases v) (simp_all del: collect_refs_from_type.simps add: isl_res_bind isl_map_res)
    next
      case (FObject fs)
      have step: "isl (case x of (name, fld) \<Rightarrow> (case map_of entries name of None \<Rightarrow> Inr []
            | Some v' \<Rightarrow> collect_refs_from_field ops (p @ ''.'' @ name) fld v')) \<longleftrightarrow>
          isl (case x of (name, fld) \<Rightarrow> (case map_of entries name of None \<Rightarrow> Inr []
            | Some v' \<Rightarrow> collect_refs_from_field ops (q @ ''.'' @ name) fld v'))"
        if "v = JObject entries" "x \<in> set fs" for entries x
        using "1.IH"(2) [OF False FObject that, of "fst x" "snd x" _ "q @ ''.'' @ fst x"]
        by (cases x) (simp del: collect_refs_from_field.simps split: option.split)
      show ?thesis using False step unfolding unfold_simps unfolding FObject
        by (cases v) (simp_all del: collect_refs_from_type.simps collect_refs_from_field.simps
            add: isl_res_bind isl_map_res)
    qed (use ref in \<open>auto simp: isl_res_bind split: json.split\<close>)
  qed simp
qed simp
lemma insert_orders_parse:
  assumes "\<not> isl (insert_orders es table_name out)" "(name, n) \<in> set es"
    and "nts_storage n = ChatLog b order w"
  shows "\<not> isl (parse_record_order_terms order)"
  using assms
proof (induction es table_name out rule: insert_orders.induct)
  case (2 name' n' rest table_name out)
  show ?case
  proof (cases "(name, n) = (name', n')")
    case True
    then show ?thesis using 2 by (cases "parse_record_order_terms order") auto
  next
    case False
    then have "(name, n) \<in> set rest" using "2.prems"(2) by auto
    then show ?thesis using 2 by (cases "nts_storage n'") (auto simp: res_bind_def split: sum.splits)
  qed
qed simp

lemma orders_by_table_parse:
  assumes "\<not> isl (orders_by_table es out)" "(name, t) \<in> set es"
  shows "\<exists>out. \<not> isl (insert_orders (bt_entries (tsc_nested t)) name out)"
  using assms
proof (induction es out rule: orders_by_table.induct)
  case (2 name' t' rest out)
  then show ?case
    by (cases "insert_orders (bt_entries (tsc_nested t')) name' out") (auto intro: exI [of _ out])
qed simp

lemma record_order_served:
  assumes "served_schema s"
  shows "\<exists>order. record_order_for_logical_table s table = Inr order"
proof -
  have parse: "\<exists>terms. parse_record_order_terms order = Inr terms"
    if nested: "nested_schema s parent nested = Some n" "nts_storage n = ChatLog b order w" for parent nested n b order w
  proof -
    obtain t where t: "bt_get (db_tables s) parent = Some t" "bt_get (tsc_nested t) nested = Some n"
      using nested(1) by (auto simp: nested_schema_def bind_eq_Some_conv)
    then have "(parent, t) \<in> set (bt_entries (db_tables s))" "(nested, n) \<in> set (bt_entries (tsc_nested t))"
      by (simp_all add: in_entries)
    then have "\<not> isl (parse_record_order_terms order)"
      using assms nested(2) orders_by_table_parse insert_orders_parse
      unfolding served_schema_def schema_orders_by_table_def by blast
    then show ?thesis by (cases "parse_record_order_terms order") auto
  qed
  show ?thesis
    unfolding record_order_for_logical_table_def
    by (auto simp: bind_eq_Some_conv map_err_def dest: parse split: option.splits storage_class.splits prod.splits)
qed

section \<open>Drafts that passed their validation\<close>

definition draft_ok :: "('n, 'z) number_ops_scheme \<Rightarrow> database_schema \<Rightarrow> 'n db_record_draft \<Rightarrow> bool" where
  "draft_ok ops s d \<longleftrightarrow>
     plain (rd_table d) \<and> plain (rd_key d)
   \<and> \<not> isl (schema_record_indexes s (rd_table d))
   \<and> \<not> isl (declared_record_object_ref_ids ops s (record_of_draft d 0))"

lemma safe_component_plain: "ensure_safe_record_component c \<Longrightarrow> plain c"
  by (auto simp: ensure_safe_record_component_def plain_def nul_def Let_def)

lemma plain_dotted [simp]:
  "plain (nested_record_table table nested) \<longleftrightarrow> plain table \<and> plain nested"
  "plain (nested_record_key parent_key nested_key) \<longleftrightarrow> plain parent_key \<and> plain nested_key"
  by (auto simp: plain_def nested_record_table_def nested_record_key_def nul_def)

lemma declared_refs_of_draft:
  "declared_record_object_ref_ids ops s (record_of_draft d lsn) =
     declared_record_object_ref_ids ops s (record_of_draft d 0)"
  by (simp add: declared_record_object_ref_ids_def record_of_draft_def split: option.split)

lemma table_name_undotted:
  "undotted s \<Longrightarrow> bt_get (db_tables s) table = Some t \<Longrightarrow> CHR ''.'' \<notin> set table"
  unfolding undotted_def list_all_iff
  by (metis bt_keys_def fst_conv image_eqI in_entries list.set_map)

lemma split_table_undotted: "CHR ''.'' \<notin> set table \<Longrightarrow> split_once CHR ''.'' table = None"
  by (simp add: split_once_None)

lemma split_nested_undotted:
  "CHR ''.'' \<notin> set table \<Longrightarrow> split_once CHR ''.'' (nested_record_table table nested) = Some (table, nested)"
  by (simp add: split_once_Some nested_record_table_def)

lemma nested_name_no_table:
  "undotted s \<Longrightarrow> bt_get (db_tables s) (nested_record_table table nested) = None"
  by (cases "bt_get (db_tables s) (nested_record_table table nested)")
    (auto dest!: table_name_undotted simp: nested_record_table_def)

lemma collect_fields_path:
  "isl (collect_declared_object_refs ops p fs v) \<longleftrightarrow> isl (collect_declared_object_refs ops q fs v)"
proof -
  have "isl (case x of (name, field) \<Rightarrow> (case map_of entries name of None \<Rightarrow> Inr []
        | Some v \<Rightarrow> collect_refs_from_field ops (p @ ''.'' @ name) field v)) \<longleftrightarrow>
      isl (case x of (name, field) \<Rightarrow> (case map_of entries name of None \<Rightarrow> Inr []
        | Some v \<Rightarrow> collect_refs_from_field ops (q @ ''.'' @ name) field v))" for x entries
    using collect_path(2) [of ops "p @ ''.'' @ fst x" "snd x" _ "q @ ''.'' @ fst x"]
    by (cases x) (simp split: option.split)
  then show ?thesis
    by (cases v) (simp_all add: collect_declared_object_refs_def collect_refs_from_fields_def isl_res_bind isl_map_res)
qed

lemma table_draft_ok:
  assumes "validate_record_identity ops s table key v = Inr u"
    and "validate_record_object_refs ops env s table v = Inr u'" and "undotted s"
    and "rd_table d = table" "rd_key d = key" "rd_value d = v"
  shows "draft_ok ops s d"
proof -
  from assms(2) obtain t where t: "bt_get (db_tables s) table = Some t"
    and refs: "\<not> isl (collect_declared_object_refs ops (''tables.'' @ table) (tsc_fields t) v)"
    by (auto simp: validate_record_object_refs_def split: option.splits)
  have "\<not> isl (collect_declared_object_refs ops q (tsc_fields t) v)" for q
    using refs collect_fields_path by blast
  moreover have "ensure_safe_record_component table" "ensure_safe_record_component key"
    using assms(1) by (auto simp: validate_record_identity_def validate_record_path_def validate_table_path_def split: if_splits)
  ultimately show ?thesis
    using t split_table_undotted [OF table_name_undotted [OF assms(3) t]] assms(4-6)
    by (simp add: draft_ok_def safe_component_plain schema_record_indexes_def
        declared_record_object_ref_ids_def record_of_draft_def isl_res_bind)
qed

lemma nested_draft_ok:
  assumes "validate_nested_record_identity ops s table parent_key nested nested_key v = Inr u"
    and "validate_nested_record_object_refs ops env s table nested v = Inr u'" and "undotted s"
    and "rd_table d = nested_record_table table nested" "rd_key d = nested_record_key parent_key nested_key"
    and "rd_value d = v"
  shows "draft_ok ops s d"
proof -
  from assms(2) obtain n where n: "nested_schema s table nested = Some n"
    and refs: "\<not> isl (collect_declared_object_refs ops (''tables.'' @ table @ ''.nested.'' @ nested) (nts_fields n) v)"
    by (auto simp: validate_nested_record_object_refs_def split: option.splits)
  have "\<not> isl (collect_declared_object_refs ops q (nts_fields n) v)" for q
    using refs collect_fields_path by blast
  moreover have safe: "ensure_safe_record_component table" "ensure_safe_record_component parent_key"
      "ensure_safe_record_component nested" "ensure_safe_record_component nested_key"
    using assms(1)
    by (auto simp: validate_nested_record_identity_def validate_nested_record_path_def
        validate_nested_table_path_def validate_table_path_def split: if_splits)
  moreover have "plain (nested_record_table table nested)" "plain (nested_record_key parent_key nested_key)"
    using safe [THEN safe_component_plain] by simp_all
  moreover have "CHR ''.'' \<notin> set table"
    using n table_name_undotted [OF assms(3)] by (auto simp: nested_schema_def bind_eq_Some_conv)
  ultimately show ?thesis
    using n assms(4-6) split_nested_undotted nested_name_no_table [OF assms(3)]
    by (simp add: draft_ok_def schema_record_indexes_def declared_record_object_ref_ids_def
        record_of_draft_def isl_res_bind)
qed

section \<open>The effect of a request on log and queue\<close>

definition carried :: "'n projection_job \<Rightarrow> ('n, 's, 'g) wal_record \<Rightarrow> bool" where
  "carried job w \<longleftrightarrow> plain_job job \<and> job_lsn job = wr_lsn w \<and> (\<forall>T. job_table job T = log_rows w T)"

definition logged_view :: "('n, 's, 'g) server \<Rightarrow> _" where
  "logged_view sv w jobs =
     (sv_wal sv @ [w], sv_jobs sv @ jobs, sv_disk sv, sv_schema sv,
      note_committed_mutation_record w (sv_mutations sv), sv_applied_lsn sv)"

text \<open>The client mutation a payload carries; a request logs it only when it is not yet known.\<close>

definition payload_mutation_id :: "('n, 's, 'g) wal_payload \<Rightarrow> string option" where
  "payload_mutation_id p =
     (case p of
        MessageCreated d \<Rightarrow> md_client_mutation_id d
      | UserEventPublished d \<Rightarrow> ued_client_mutation_id d
      | UserUpserted d \<Rightarrow> upd_client_mutation_id d
      | ObjectCommitted _ i \<Rightarrow> i
      | ObjectDeleted _ _ _ _ i \<Rightarrow> i
      | RecordUpserted d \<Rightarrow> rd_client_mutation_id d
      | RecordDeleted d \<Rightarrow> dd_client_mutation_id d
      | RecordTransactionCommitted _ i \<Rightarrow> i
      | ClientMutationRecorded i _ \<Rightarrow> Some i
      | _ \<Rightarrow> None)"

definition unseen :: "('n, 's, 'g) server \<Rightarrow> ('n, 's, 'g) wal_payload \<Rightarrow> bool" where
  "unseen sv p \<longleftrightarrow> find_committed_mutation (sv_mutations sv) (payload_mutation_id p) = None"

inductive commit_effect :: "('n, 's, 'g) server \<Rightarrow> ('n, 's, 'g) server \<Rightarrow> bool" where
  effect_quiet: "flow_view sv' = flow_view sv \<Longrightarrow> commit_effect sv sv'"
| effect_logged: "flow_view sv' = logged_view sv w [job] \<Longrightarrow> carried job w \<Longrightarrow>
    unseen sv (wr_payload w) \<Longrightarrow> commit_effect sv sv'"
| effect_noop: "flow_view sv' = logged_view sv w [] \<Longrightarrow> (\<And>T. log_rows w T = T) \<Longrightarrow>
    unseen sv (wr_payload w) \<Longrightarrow> commit_effect sv sv'"

lemma logged_view_cong: "flow_view sv1 = flow_view sv \<Longrightarrow> logged_view sv1 w jobs = logged_view sv w jobs"
  by (simp add: flow_view_def logged_view_def)

lemma unseen_cong: "flow_view sv1 = flow_view sv \<Longrightarrow> unseen sv1 p = unseen sv p"
  by (simp add: unseen_def flow_view_def)

lemma effect_from:
  assumes "flow_view sv1 = flow_view sv" "commit_effect sv1 sv'"
  shows "commit_effect sv sv'"
  using assms(2)
proof cases
  case effect_quiet
  with assms(1) show ?thesis by (simp add: commit_effect.effect_quiet)
next
  case (effect_logged w job)
  then show ?thesis unfolding logged_view_cong [OF assms(1)] unseen_cong [OF assms(1)]
    by (rule commit_effect.effect_logged)
next
  case (effect_noop w)
  then show ?thesis unfolding logged_view_cong [OF assms(1)] unseen_cong [OF assms(1)]
    by (rule commit_effect.effect_noop)
qed

lemma effect_quiet_handler: "quiet m \<Longrightarrow> commit_effect sv (snd (m sv))"
  by (rule effect_quiet) (simp add: quiet_def)

lemma effect_bind:
  assumes "quiet m"
    and "\<And>x sv1. m sv = (Inr x, sv1) \<Longrightarrow> flow_view sv1 = flow_view sv \<Longrightarrow> commit_effect sv1 (snd (k x sv1))"
  shows "commit_effect sv (snd (sv_bind m k sv))"
proof -
  obtain res sv1 where m: "m sv = (res, sv1)" by (cases "m sv")
  have view: "flow_view sv1 = flow_view sv" by (rule quietD [OF assms(1) m])
  show ?thesis
    using m view assms(2) by (cases res) (auto intro: effect_quiet effect_from [OF view])
qed

lemma effect_lift:
  "(\<And>x. r = Inr x \<Longrightarrow> commit_effect sv (snd (k x sv))) \<Longrightarrow> commit_effect sv (snd (sv_bind (sv_lift r) k sv))"
  by (cases r) (simp_all add: effect_quiet)

lemma effect_get: "commit_effect sv (snd (m sv sv)) \<Longrightarrow> commit_effect sv (snd (sv_get m sv))"
  by simp

lemma effect_unless:
  "(find_committed_mutation (sv_mutations sv) i = None \<Longrightarrow> commit_effect sv (snd (continue sv))) \<Longrightarrow>
     commit_effect sv (snd (unless_recorded recorded i continue sv))"
  by (auto simp: unless_recorded_def effect_quiet split: option.split)

lemma append_cases:
  assumes "append_ordered_wal_record env shard dur payload sv = (res, sv')"
  obtains (refused) e where "res = Inl e" "flow_view sv' = flow_view sv"
  | (logged) w where "res = Inr w" "wr_payload w = payload" "flow_view sv' = logged_view sv w []"
proof (cases "en_append env")
  case Inl
  then show ?thesis using assms refused
    by (auto simp: append_ordered_wal_record_def Let_def flow_view_def)
next
  case Inr
  then show ?thesis using assms logged
    by (auto simp: append_ordered_wal_record_def Let_def flow_view_def logged_view_def)
qed

lemma publish_upsert_view:
  assumes "served_schema (sv_schema sv)" "draft_ok ops (sv_schema sv) draft"
  shows "\<exists>order. flow_view (snd (publish_upsert ops env draft ixs lsn sv)) =
       (sv_wal sv, sv_jobs sv @ [JobUpsert lsn (record_of_draft draft lsn) ixs order], sv_disk sv,
        sv_schema sv, sv_mutations sv, sv_applied_lsn sv)
    \<and> fst (publish_upsert ops env draft ixs lsn sv) = Inr (record_of_draft draft lsn)"
proof -
  let ?r = "record_of_draft draft lsn"
  obtain order where order: "record_order_for_logical_table (sv_schema sv) (rec_table ?r) = Inr order"
    using record_order_served [OF assms(1)] by blast
  obtain ids where ids: "declared_record_object_ref_ids ops (sv_schema sv) ?r = Inr ids"
    using assms(2) not_isl_Inr unfolding draft_ok_def declared_refs_of_draft [of ops _ draft lsn] by blast
  show ?thesis
    by (intro exI [of _ order])
      (simp add: publish_upsert_def order ids retain_refs_def retain_record_for_schema_def Let_def
        sv_bind_def enqueue_job_def publish_delivery_event_def flow_view_def)
qed

section \<open>Single writes carry their record\<close>

definition appends ::
  "('n, 's, 'g, ('n, 's, 'g) wal_record) handler \<Rightarrow> ('n, 's, 'g) wal_payload \<Rightarrow> bool" where
  "appends m payload \<longleftrightarrow>
     (\<forall>sv e sv'. m sv = (Inl e, sv') \<longrightarrow> flow_view sv' = flow_view sv)
   \<and> (\<forall>sv w sv'. m sv = (Inr w, sv') \<longrightarrow>
        wr_payload w = payload \<and> flow_view sv' = logged_view sv w [])"

lemma appendsD:
  "appends m payload \<Longrightarrow> m sv = (Inl e, sv') \<Longrightarrow> flow_view sv' = flow_view sv"
  "appends m payload \<Longrightarrow> m sv = (Inr w, sv') \<Longrightarrow> wr_payload w = payload \<and> flow_view sv' = logged_view sv w []"
  unfolding appends_def by blast+

lemma appends_record [quiet_intros]: "appends (append_ordered_wal_record env shard dur payload) payload"
  unfolding appends_def by (auto elim!: append_cases)

lemma appends_bind [quiet_intros]:
  assumes "quiet m" "\<And>x. appends (k x) payload"
  shows "appends (sv_bind m k) payload"
proof -
  have quiet: "flow_view sv1 = flow_view sv" if "m sv = (res, sv1)" for sv res sv1
    by (rule quietD [OF assms(1) that])
  show ?thesis
    unfolding appends_def
  proof (intro conjI allI impI)
    fix sv e sv'
    assume bind: "sv_bind m k sv = (Inl e, sv')"
    obtain res sv1 where m: "m sv = (res, sv1)" by (cases "m sv")
    show "flow_view sv' = flow_view sv"
      using bind m quiet [OF m] appendsD(1) [OF assms(2)] by (cases res) auto
  next
    fix sv w sv'
    assume bind: "sv_bind m k sv = (Inr w, sv')"
    then obtain x sv1 where m: "m sv = (Inr x, sv1)" and k: "k x sv1 = (Inr w, sv')"
      by (auto simp: sv_bind_Inr)
    show "wr_payload w = payload" "flow_view sv' = logged_view sv w []"
      using appendsD(2) [OF assms(2) k] logged_view_cong [OF quiet [OF m]] by simp_all
  qed
qed

lemma effect_appends:
  assumes "appends m payload" "unseen sv payload"
    and "\<And>w sv1. wr_payload w = payload \<Longrightarrow> flow_view sv1 = logged_view sv w [] \<Longrightarrow>
      \<exists>job. carried job w \<and> flow_view (snd (k w sv1)) = logged_view sv w [job]"
  shows "commit_effect sv (snd (sv_bind m k sv))"
proof -
  obtain res sv1 where m: "m sv = (res, sv1)" by (cases "m sv")
  show ?thesis
  proof (cases res)
    case (Inl e)
    then show ?thesis using appendsD(1) [OF assms(1)] m by (simp add: effect_quiet)
  next
    case (Inr w)
    then have payload: "wr_payload w = payload" and "flow_view sv1 = logged_view sv w []"
      using appendsD(2) [OF assms(1)] m by blast+
    then obtain job where "carried job w" "flow_view (snd (k w sv1)) = logged_view sv w [job]"
      using assms(3) by blast
    then show ?thesis using m Inr payload assms(2) by (simp add: commit_effect.effect_logged)
  qed
qed

lemma effect_appends_noop:
  assumes "appends m payload" "unseen sv payload" "\<And>w. quiet (k w)"
    and "\<And>w T. wr_payload w = payload \<Longrightarrow> log_rows w T = T"
  shows "commit_effect sv (snd (sv_bind m k sv))"
proof -
  obtain res sv1 where m: "m sv = (res, sv1)" by (cases "m sv")
  show ?thesis
  proof (cases res)
    case (Inl e)
    then show ?thesis using appendsD(1) [OF assms(1)] m by (simp add: effect_quiet)
  next
    case (Inr w)
    then have w: "wr_payload w = payload" "flow_view sv1 = logged_view sv w []"
      using appendsD(2) [OF assms(1)] m by blast+
    then have "flow_view (snd (sv_bind m k sv)) = logged_view sv w []"
      using m Inr assms(3) [of w] by (simp add: quiet_def)
    then show ?thesis using assms(4) [OF w(1)]
      by (rule commit_effect.effect_noop) (simp add: w(1) assms(2))
  qed
qed

lemma view_schema: "flow_view sv1 = flow_view sv \<Longrightarrow> sv_schema sv1 = sv_schema sv"
  "flow_view sv1 = logged_view sv w jobs \<Longrightarrow> sv_schema sv1 = sv_schema sv"
  by (simp_all add: flow_view_def logged_view_def)

lemma upsert_carried:
  "plain (rd_table d) \<Longrightarrow> plain (rd_key d) \<Longrightarrow> wr_payload w = RecordUpserted d \<Longrightarrow>
     carried (JobUpsert (wr_lsn w) (record_of_draft d (wr_lsn w)) ixs order) w"
  by (simp add: carried_def log_rows_def plain_row_def record_of_draft_def)

lemma prepared_upsert_effect:
  assumes "served_schema (sv_schema sv)" "draft_ok ops (sv_schema sv) (upsert_draft env p mutation_id)"
  shows "commit_effect sv (snd (commit_prepared_record_upsert ops env p dur expected mutation_id sv))"
proof -
  let ?draft = "upsert_draft env p mutation_id"
  have append: "appends (append_upsert ops env p dur expected ?draft) (RecordUpserted ?draft)"
    unfolding append_upsert_def by (intro quiet_intros)
  have logged: "commit_effect sv (snd (sv_bind (append_upsert ops env p dur expected ?draft)
      (\<lambda>w. publish_upsert ops env ?draft (pu_indexes p) (wr_lsn w)) sv))"
    if "find_committed_mutation (sv_mutations sv) mutation_id = None"
  proof (rule effect_appends [OF append])
    show "unseen sv (RecordUpserted ?draft)"
      using that by (simp add: unseen_def payload_mutation_id_def upsert_draft_def)
  next
    fix w sv1
    assume w: "wr_payload w = RecordUpserted ?draft" "flow_view sv1 = logged_view sv w []"
    obtain order where "flow_view (snd (publish_upsert ops env ?draft (pu_indexes p) (wr_lsn w) sv1)) =
       (sv_wal sv1, sv_jobs sv1 @ [JobUpsert (wr_lsn w) (record_of_draft ?draft (wr_lsn w)) (pu_indexes p) order],
        sv_disk sv1, sv_schema sv1, sv_mutations sv1, sv_applied_lsn sv1)"
      using publish_upsert_view [of sv1 ops ?draft env "pu_indexes p" "wr_lsn w"] assms view_schema(2) [OF w(2)]
      by auto
    moreover have "carried (JobUpsert (wr_lsn w) (record_of_draft ?draft (wr_lsn w)) (pu_indexes p) order) w"
      using assms(2) w(1) by (intro upsert_carried) (simp_all add: draft_ok_def)
    ultimately show "\<exists>job. carried job w \<and>
        flow_view (snd (publish_upsert ops env ?draft (pu_indexes p) (wr_lsn w) sv1)) = logged_view sv w [job]"
      using w(2) by (auto simp: flow_view_def logged_view_def)
  qed
  show ?thesis
    unfolding commit_prepared_record_upsert_def Let_def
    by (intro effect_lift effect_unless)
      (simp add: logged effect_quiet_handler quiet_volatile_upsert split: if_splits)
qed

lemma table_upsert_effect:
  assumes "served_schema (sv_schema sv)"
  shows "commit_effect sv (snd (commit_record_upsert ops env table key v dur expected mutation_id sv))"
  unfolding commit_record_upsert_def
  using assms
  by (intro effect_lift effect_unless effect_get prepared_upsert_effect)
    (auto intro!: table_draft_ok simp: upsert_draft_def served_schema_def)

lemma nested_upsert_effect:
  assumes "served_schema (sv_schema sv)"
  shows "commit_effect sv (snd (upsert_nested_record ops env table parent_key nested nested_key v dur expected mutation_id sv))"
  unfolding upsert_nested_record_def
  using assms
  by (intro effect_lift effect_unless effect_get prepared_upsert_effect)
    (auto intro!: nested_draft_ok simp: upsert_draft_def served_schema_def)

lemma delete_carried:
  "plain (dd_table d) \<Longrightarrow> plain (dd_key d) \<Longrightarrow> wr_payload w = RecordDeleted d \<Longrightarrow>
     carried (JobDelete (wr_lsn w) (dd_table d) (dd_key d)) w"
  by (simp add: carried_def log_rows_def)

lemma appends_to_shard [quiet_intros]: "appends (append_to_shard env shard_key dur payload) payload"
  unfolding append_to_shard_def by (intro quiet_intros)

lemma noop_effect:
  assumes "find_committed_mutation (sv_mutations sv) mutation_id = None"
  shows "commit_effect sv (snd (delete_noop env p dur current_lsn mutation_id sv))"
proof (cases mutation_id)
  case None
  then show ?thesis by (simp add: delete_noop_def effect_quiet)
next
  case (Some i)
  then have "unseen sv (ClientMutationRecorded i noop)" for noop
    using assms by (simp add: unseen_def payload_mutation_id_def)
  then show ?thesis
    unfolding delete_noop_def Some option.case
    by (rule effect_appends_noop [OF appends_to_shard]) (auto simp: quiet_intros log_rows_def)
qed

lemma publish_delete_view:
  "flow_view (snd (publish_delete p at lsn previous sv)) =
     (sv_wal sv, sv_jobs sv @ [JobDelete lsn (pd_table p) (pd_key p)], sv_disk sv, sv_schema sv,
      sv_mutations sv, sv_applied_lsn sv)"
  by (simp add: publish_delete_def sv_bind_def enqueue_job_def publish_delivery_event_def flow_view_def)

lemma prepared_delete_effect:
  assumes "plain (pd_table p)" "plain (pd_key p)"
  shows "commit_effect sv (snd (commit_prepared_record_delete env p dur expected mutation_id sv))"
proof -
  let ?draft = "delete_draft env p mutation_id"
  have logged: "commit_effect sv (snd (sv_bind (append_to_shard env (pd_shard_key p) dur (RecordDeleted ?draft))
      (\<lambda>w. publish_delete p (en_now env) (wr_lsn w) previous) sv))"
    if "find_committed_mutation (sv_mutations sv) mutation_id = None" for sv previous
  proof (rule effect_appends [OF appends_to_shard])
    show "unseen sv (RecordDeleted ?draft)"
      using that by (simp add: unseen_def payload_mutation_id_def delete_draft_def)
  next
    fix w sv1
    assume w: "wr_payload w = RecordDeleted ?draft" "flow_view sv1 = logged_view sv w []"
    have "carried (JobDelete (wr_lsn w) (pd_table p) (pd_key p)) w"
      using delete_carried [OF _ _ w(1)] assms by (simp add: delete_draft_def)
    then show "\<exists>job. carried job w \<and>
        flow_view (snd (publish_delete p (en_now env) (wr_lsn w) previous sv1)) = logged_view sv w [job]"
      using w(2) unfolding publish_delete_view by (auto simp: flow_view_def logged_view_def)
  qed
  have found: "find_committed_mutation (sv_mutations sv1) mutation_id = find_committed_mutation (sv_mutations sv) mutation_id"
    if "flow_view sv1 = flow_view sv" for sv1
    using that by (simp add: flow_view_def)
  have durable: "commit_effect sv (snd (sv_bind (ensure_expected_record_lsn (pd_table p) (pd_key p) expected) (\<lambda>current_lsn.
      sv_get (\<lambda>sv. case projection_get (sv_disk sv) (pd_table p) (pd_key p) of
          None \<Rightarrow> delete_noop env p dur current_lsn mutation_id
        | Some current \<Rightarrow> sv_bind (append_to_shard env (pd_shard_key p) dur (RecordDeleted ?draft))
            (\<lambda>w. publish_delete p (en_now env) (wr_lsn w) (Some current)))) sv))"
    if "find_committed_mutation (sv_mutations sv) mutation_id = None"
  proof (rule effect_bind [OF quiet_expected])
    fix current_lsn sv1
    assume view: "flow_view sv1 = flow_view sv"
    then show "commit_effect sv1 (snd (sv_get (\<lambda>sv. case projection_get (sv_disk sv) (pd_table p) (pd_key p) of
          None \<Rightarrow> delete_noop env p dur current_lsn mutation_id
        | Some current \<Rightarrow> sv_bind (append_to_shard env (pd_shard_key p) dur (RecordDeleted ?draft))
            (\<lambda>w. publish_delete p (en_now env) (wr_lsn w) (Some current))) sv1))"
      using that found [OF view] by (intro effect_get) (simp add: logged noop_effect split: option.split)
  qed
  show ?thesis
    unfolding commit_prepared_record_delete_def
    by (intro effect_lift effect_unless)
      (simp only: if_P if_not_P durable effect_quiet_handler quiet_volatile_delete split: if_splits; simp)
qed

lemma table_path_plain: "validate_table_path s table = Inr u \<Longrightarrow> plain table"
  by (auto simp: validate_table_path_def safe_component_plain split: if_splits)

lemma nested_path_plain:
  "validate_nested_record_path s table parent_key nested nested_key = Inr u \<Longrightarrow>
     plain (nested_record_table table nested) \<and> plain (nested_record_key parent_key nested_key)"
  by (auto simp: validate_nested_record_path_def validate_nested_table_path_def safe_component_plain
      dest: table_path_plain split: if_splits)

lemma table_delete_effect:
  "commit_effect sv (snd (commit_record_delete env table key dur expected mutation_id sv))"
  unfolding commit_record_delete_def
  by (intro effect_lift effect_unless effect_get prepared_delete_effect)
    (auto dest: table_path_plain simp: safe_component_plain split: if_splits)

lemma nested_delete_effect:
  "commit_effect sv (snd (delete_nested_record env table parent_key nested nested_key dur expected mutation_id sv))"
  unfolding delete_nested_record_def
  by (intro effect_lift effect_get prepared_delete_effect) (auto dest: nested_path_plain)

section \<open>Transactions carry their record\<close>

fun mutation_target :: "'n db_record_mutation_draft \<Rightarrow> string \<times> string" where
  "mutation_target (MutUpsert d) = (rd_table d, rd_key d)"
| "mutation_target (MutDelete d) = (dd_table d, dd_key d)"

fun mutation_ok :: "('n, 'z) number_ops_scheme \<Rightarrow> database_schema \<Rightarrow> 'n db_record_mutation_draft \<Rightarrow> bool" where
  "mutation_ok ops s (MutUpsert d) \<longleftrightarrow> draft_ok ops s d"
| "mutation_ok ops s (MutDelete d) \<longleftrightarrow> plain (dd_table d) \<and> plain (dd_key d)"

definition target_identity :: "string \<times> string \<Rightarrow> string" where
  "target_identity = (\<lambda>(table, key). record_identity table key)"

definition tx_ok :: "('n, 'z) number_ops_scheme \<Rightarrow> database_schema \<Rightarrow> 'n tx_state \<Rightarrow> bool" where
  "tx_ok ops s tx \<longleftrightarrow>
     list_all (mutation_ok ops s) (tx_operations tx)
   \<and> distinct (map mutation_target (tx_operations tx))
   \<and> (target_identity \<circ> mutation_target) ` set (tx_operations tx) \<subseteq> bs_elems (tx_seen tx)"

lemma tx_ok_start: "tx_ok ops s tx_start"
  by (simp add: tx_ok_def tx_start_def)

lemma quiet_target [quiet_intros]: "quiet (prepare_target env part is_nested table key expected tx)"
  unfolding prepare_target_def by (intro quiet_intros)

lemma quiet_operation [quiet_intros]: "quiet (prepare_operation ops env operation tx)"
  by (cases operation) (auto intro!: quiet_intros)

lemma quiet_operations [quiet_intros]: "quiet (prepare_operations ops env operations tx)"
proof (induction operations arbitrary: tx)
  case (Cons operation rest)
  show ?case by (subst prepare_operations.simps(2)) (intro quiet_intros Cons)
qed (simp add: quiet_intros)

lemma quiet_prepare [quiet_intros]: "quiet (prepare_record_transaction ops env request)"
  unfolding prepare_record_transaction_def by (intro quiet_intros)

lemma prepare_target_seen:
  assumes "prepare_target env part is_nested table key expected tx sv = (Inr (tx', current_lsn), sv')"
  shows "tx_operations tx' = tx_operations tx" and "record_identity table key \<notin> bs_elems (tx_seen tx)"
    and "tx_seen tx' = bs_insert (record_identity table key) (tx_seen tx)"
  using assms
  by (auto simp: prepare_target_def sv_bind_Inr ensure_transaction_key_once_def Let_def bs_elems_def
      split: if_splits)

lemma tx_ok_add:
  assumes "tx_ok ops s tx" "tx_operations tx' = tx_operations tx"
    and "record_identity table key \<notin> bs_elems (tx_seen tx)"
    and "tx_seen tx' = bs_insert (record_identity table key) (tx_seen tx)"
    and "mutation_ok ops s m" "mutation_target m = (table, key)"
  shows "tx_ok ops s (tx'\<lparr>tx_operations := tx_operations tx' @ [m]\<rparr>)"
proof -
  have "mutation_target m \<notin> mutation_target ` set (tx_operations tx)"
  proof
    assume "mutation_target m \<in> mutation_target ` set (tx_operations tx)"
    then have "target_identity (table, key) \<in> (target_identity \<circ> mutation_target) ` set (tx_operations tx)"
      using assms(6) by (force simp: image_iff)
    then show False using assms(1,3) by (auto simp: tx_ok_def target_identity_def)
  qed
  then show ?thesis
    using assms by (auto simp: tx_ok_def target_identity_def)
qed

lemma tx_ok_frame:
  "tx_operations tx' = tx_operations tx \<Longrightarrow> bs_elems (tx_seen tx) \<subseteq> bs_elems (tx_seen tx') \<Longrightarrow>
     tx_ok ops s tx \<Longrightarrow> tx_ok ops s tx'"
  by (auto simp: tx_ok_def)

lemma add_upsert_ok:
  assumes "prepare_target env part is_nested table key expected tx sv = (Inr (tx', current_lsn), sv')"
    and "tx_ok ops s tx" and "\<And>d. rd_table d = table \<Longrightarrow> rd_key d = key \<Longrightarrow> rd_value d = v \<Longrightarrow> draft_ok ops s d"
  shows "tx_ok ops s (add_upsert now table key v path tx')"
proof -
  note seen = prepare_target_seen [OF assms(1)]
  let ?d = "\<lparr>rd_table = table, rd_key = key, rd_value = v, rd_updated_at_ms = now, rd_path = path,
    rd_client_mutation_id = None\<rparr>"
  have "tx_ok ops s (tx'\<lparr>tx_operations := tx_operations tx' @ [MutUpsert ?d]\<rparr>)"
    by (rule tx_ok_add [OF assms(2) seen]) (simp_all add: assms(3))
  then show ?thesis by (rule tx_ok_frame [rotated 2]) (simp_all add: add_upsert_def Let_def)
qed

lemma add_delete_ok:
  assumes "prepare_target env part is_nested table key expected tx sv = (Inr (tx', current_lsn), sv')"
    and "tx_ok ops s tx" and "plain table" "plain key"
  shows "tx_ok ops s (add_delete now table key path current_lsn tx')"
proof (cases "current_lsn = 0")
  case True
  have "tx_ok ops s tx'"
    by (rule tx_ok_frame [OF prepare_target_seen(1) [OF assms(1)] _ assms(2)])
      (auto simp: prepare_target_seen(3) [OF assms(1)])
  then show ?thesis using True by (simp add: add_delete_def)
next
  case False
  let ?m = "MutDelete \<lparr>dd_table = table, dd_key = key, dd_deleted_at_ms = now, dd_path = path,
    dd_client_mutation_id = None\<rparr>"
  have "tx_ok ops s (tx'\<lparr>tx_operations := tx_operations tx' @ [?m]\<rparr>)"
    by (rule tx_ok_add [OF assms(2) prepare_target_seen [OF assms(1)]]) (simp_all add: assms(3,4))
  then show ?thesis by (rule tx_ok_frame [rotated 2]) (simp_all add: add_delete_def False)
qed

lemma prepare_operation_ok:
  assumes "prepare_operation ops env operation tx sv = (Inr tx', sv')"
    and "undotted (sv_schema sv)" "tx_ok ops (sv_schema sv) tx"
  shows "tx_ok ops (sv_schema sv) tx'"
proof (cases operation)
  case (TxUpsert table key v expected)
  then show ?thesis using assms
    by (auto simp: sv_bind_Inr intro!: add_upsert_ok elim: table_draft_ok)
next
  case (TxDelete table key expected)
  then show ?thesis using assms
    by (auto simp: sv_bind_Inr safe_component_plain intro!: add_delete_ok dest: table_path_plain split: if_splits)
next
  case (TxNestedUpsert table parent_key nested nested_key v expected)
  then show ?thesis using assms
    by (auto simp: sv_bind_Inr intro!: add_upsert_ok elim: nested_draft_ok)
next
  case (TxNestedDelete table parent_key nested nested_key expected)
  then show ?thesis using assms
    by (auto simp: sv_bind_Inr intro!: add_delete_ok dest: nested_path_plain simp del: plain_dotted)
qed

lemma prepare_operations_ok:
  assumes "prepare_operations ops env operations tx sv = (Inr tx', sv')"
    and "undotted (sv_schema sv)" "tx_ok ops (sv_schema sv) tx"
  shows "tx_ok ops (sv_schema sv) tx'"
  using assms
proof (induction operations arbitrary: tx sv)
  case (Cons operation rest)
  from Cons.prems(1) obtain tx1 sv1 where first: "prepare_operation ops env operation tx sv = (Inr tx1, sv1)"
    and rest: "prepare_operations ops env rest tx1 sv1 = (Inr tx', sv')"
    by (auto simp: sv_bind_Inr)
  have "sv_schema sv1 = sv_schema sv" by (rule view_schema(1) [OF quietD [OF quiet_operation first]])
  then show ?case
    using Cons.IH [OF rest] prepare_operation_ok [OF first Cons.prems(2,3)] Cons.prems(2) by simp
qed simp

lemma prepared_operations_ok:
  assumes "prepare_record_transaction ops env request sv = (Inr prepared, sv')" "undotted (sv_schema sv)"
  shows "list_all (mutation_ok ops (sv_schema sv)) (pt_operations prepared)
    \<and> distinct (map mutation_target (pt_operations prepared))"
  using assms(1) prepare_operations_ok [OF _ assms(2) tx_ok_start]
  by (force simp: prepare_record_transaction_def sv_bind_Inr tx_ok_def)

fun upserts_of :: "'n db_record_mutation_draft list \<Rightarrow> 'n db_record_draft list" where
  "upserts_of [] = []"
| "upserts_of (MutUpsert d # rest) = d # upserts_of rest"
| "upserts_of (MutDelete d # rest) = upserts_of rest"

lemma deletes_then_upserts:
  "mset (map MutDelete (deletes_of operations) @ map MutUpsert (upserts_of operations)) = mset operations"
  by (induction operations rule: upserts_of.induct) auto

lemma draft_mutations_commute:
  "mutation_target m \<noteq> mutation_target m' \<Longrightarrow>
     draft_mutation lsn m (draft_mutation lsn m' T) = draft_mutation lsn m' (draft_mutation lsn m T)"
  by (cases m; cases m') (auto intro!: bt_eqI)

lemma draft_mutations_reorder:
  assumes "distinct (map mutation_target operations)"
  shows "fold (draft_mutation lsn) (map MutDelete (deletes_of operations) @ map MutUpsert (upserts_of operations))
    = fold (draft_mutation lsn) operations"
proof (rule fold_multiset_equiv [OF _ deletes_then_upserts, symmetric, THEN sym])
  fix m m'
  assume "m \<in> set (map MutDelete (deletes_of operations) @ map MutUpsert (upserts_of operations))"
    "m' \<in> set (map MutDelete (deletes_of operations) @ map MutUpsert (upserts_of operations))"
  then have "m \<in> set operations" "m' \<in> set operations"
    unfolding mset_eq_setD [OF deletes_then_upserts] by simp_all
  then have "m = m' \<or> mutation_target m \<noteq> mutation_target m'"
    using assms by (auto simp: distinct_map inj_on_def)
  then show "draft_mutation lsn m \<circ> draft_mutation lsn m' = draft_mutation lsn m' \<circ> draft_mutation lsn m"
    using draft_mutations_commute by (auto simp: fun_eq_iff)
qed

lemma resolve_operations_ok:
  assumes "served_schema s" "list_all (mutation_ok ops s) operations"
  shows "\<exists>upserts. resolve_operations lsn s operations = Inr upserts
    \<and> map fst upserts = map (\<lambda>d. record_of_draft d lsn) (upserts_of operations)"
  using assms(2)
proof (induction operations rule: upserts_of.induct)
  case (2 d rest)
  then obtain upserts where "resolve_operations lsn s rest = Inr upserts"
    "map fst upserts = map (\<lambda>d. record_of_draft d lsn) (upserts_of rest)" by auto
  moreover obtain indexes where "schema_record_indexes s (rd_table d) = Inr indexes"
    using 2 not_isl_Inr by (fastforce simp: draft_ok_def)
  moreover obtain order where "record_order_for_logical_table s (rd_table d) = Inr order"
    using record_order_served [OF assms(1)] by blast
  ultimately show ?case by (auto simp: map_err_def)
qed simp_all

lemma retain_records_ok:
  "\<forall>r\<in>set rs. \<not> isl (declared_record_object_ref_ids ops s r) \<Longrightarrow>
     \<exists>refs'. retain_records_for_schema ops s rs refs = (refs', Inr ())"
proof (induction rs arbitrary: refs)
  case (Cons r rs)
  then obtain ids where "declared_record_object_ref_ids ops s r = Inr ids"
    using not_isl_Inr by (metis list.set_intros(1))
  then show ?case using Cons by (simp add: retain_record_for_schema_def Let_def)
qed simp

lemma upserts_of_ok:
  "list_all (mutation_ok ops s) operations \<Longrightarrow> d \<in> set (upserts_of operations) \<Longrightarrow> draft_ok ops s d"
  "list_all (mutation_ok ops s) operations \<Longrightarrow> x \<in> set (deletes_of operations) \<Longrightarrow>
     plain (dd_table x) \<and> plain (dd_key x)"
  by (induction operations rule: upserts_of.induct) auto

lemma fold_store_mutations:
  "fold table_apply (map (\<lambda>d. StoreDelete (dd_table d) (dd_key d)) ds) T =
     fold (draft_mutation lsn) (map MutDelete ds) T"
  "map fst upserts = map (\<lambda>d. record_of_draft d lsn) us \<Longrightarrow>
   fold table_apply (map (\<lambda>(r, indexes, order). StoreUpsert r indexes order) upserts) T =
     fold (draft_mutation lsn) (map MutUpsert us) T"
proof -
  show "fold table_apply (map (\<lambda>d. StoreDelete (dd_table d) (dd_key d)) ds) T =
     fold (draft_mutation lsn) (map MutDelete ds) T"
    by (induction ds arbitrary: T) auto
  show "map fst upserts = map (\<lambda>d. record_of_draft d lsn) us \<Longrightarrow>
     fold table_apply (map (\<lambda>(r, indexes, order). StoreUpsert r indexes order) upserts) T =
       fold (draft_mutation lsn) (map MutUpsert us) T"
  proof (induction upserts arbitrary: us T)
    case (Cons u upserts)
    then obtain d us' where "us = d # us'" "fst u = record_of_draft d lsn"
      "map fst upserts = map (\<lambda>d. record_of_draft d lsn) us'" by (auto simp: Cons_eq_map_conv)
    then show ?case using Cons.IH [of us'] by (cases u) (simp add: record_of_draft_def)
  qed simp
qed

lemma quiet_events: "quiet (sv_each (\<lambda>x. sv_modify (publish_delivery_event (f x))) xs)"
  by (intro quiet_intros)

lemma apply_transaction_view:
  fixes sv :: "('n, 's, 'g) server"
  assumes "served_schema (sv_schema sv)" "list_all (mutation_ok ops (sv_schema sv)) operations"
  shows "\<exists>upserts. map fst upserts = map (\<lambda>d. record_of_draft d lsn) (upserts_of operations)
    \<and> flow_view (snd (apply_record_transaction_operations ops env operations lsn emit sv)) =
       (sv_wal sv,
        sv_jobs sv @ [JobTransaction lsn (map (\<lambda>d. StoreDelete (dd_table d) (dd_key d)) (deletes_of operations)
          @ map (\<lambda>(r, indexes, order). StoreUpsert r indexes order) upserts)],
        sv_disk sv, sv_schema sv, sv_mutations sv, sv_applied_lsn sv)"
proof -
  obtain upserts where upserts: "resolve_operations lsn (sv_schema sv) operations = Inr upserts"
    "map fst upserts = map (\<lambda>d. record_of_draft d lsn) (upserts_of operations)"
    using resolve_operations_ok [OF assms] by blast
  have "\<not> isl (declared_record_object_ref_ids ops (sv_schema sv) (record_of_draft d lsn))"
    if "d \<in> set (upserts_of operations)" for d
    using upserts_of_ok(1) [OF assms(2) that] declared_refs_of_draft [of ops _ d lsn]
    by (simp add: draft_ok_def)
  then have refs: "\<exists>refs'. apply_record_changes_for_schema ops (sv_schema sv) removed (map fst upserts) refs
      = (refs', Inr ())" for removed refs
    unfolding apply_record_changes_for_schema_def upserts(2) by (intro retain_records_ok) auto
  obtain refs' where refs': "apply_record_changes_for_schema ops (sv_schema sv)
      (map dd_path (deletes_of operations)) (map fst upserts) (sv_refs sv) = (refs', Inr ())"
    using refs by blast
  let ?responses = "record_transaction_response_operations operations lsn"
  let ?job = "JobTransaction lsn (map (\<lambda>d. StoreDelete (dd_table d) (dd_key d)) (deletes_of operations)
      @ map (\<lambda>(r, indexes, order). StoreUpsert r indexes order) upserts)"
  let ?hot = "upsert_many (en_now env) (map fst upserts)
      (fold (\<lambda>d. delete_durable (dd_table d) (dd_key d) lsn) (deletes_of operations) (sv_hot sv))"
  let ?queued = "enqueue_job ?job (sv\<lparr>sv_hot := ?hot, sv_refs := refs'\<rparr>)"
  let ?announce = "sv_bind (if emit
      then sv_each (\<lambda>x. sv_modify (publish_delivery_event (event_of_response x))) ?responses
      else sv_return ()) (\<lambda>_. sv_return ?responses)"
  have refs: "sv_bind (\<lambda>sv. case apply_record_changes_for_schema ops (sv_schema sv)
        (map dd_path (deletes_of operations)) (map fst upserts) (sv_refs sv) of
        (refs, Inl _) \<Rightarrow> (Inl InternalError, sv\<lparr>sv_refs := refs\<rparr>)
      | (refs, Inr _) \<Rightarrow> (Inr (), sv\<lparr>sv_refs := refs\<rparr>)) k sv1 = k () (sv1\<lparr>sv_refs := refs'\<rparr>)"
    if "sv_refs sv1 = sv_refs sv" "sv_schema sv1 = sv_schema sv"
    for sv1 and k :: "unit \<Rightarrow> ('n, 's, 'g, 'n transaction_op_response list) handler"
    using refs' that by (simp add: sv_bind_def)
  have "apply_record_transaction_operations ops env operations lsn emit sv = ?announce ?queued"
    by (simp only: apply_record_transaction_operations_def upserts(1) Let_def server_monad
        sv_bind_simps, subst refs) (simp_all only: server_monad sv_bind_simps, simp_all)
  moreover have "quiet ?announce" by (intro quiet_intros)
  then have "flow_view (snd (?announce ?queued)) = flow_view ?queued" unfolding quiet_def by (rule spec)
  ultimately show ?thesis
    using upserts(2) by (auto simp: enqueue_job_def flow_view_def)
qed

lemma transaction_carried:
  assumes "list_all (mutation_ok ops s) operations" "distinct (map mutation_target operations)"
    and "map fst upserts = map (\<lambda>d. record_of_draft d (wr_lsn w)) (upserts_of operations)"
    and "wr_payload w = RecordTransactionCommitted operations mutation_id"
  shows "carried (JobTransaction (wr_lsn w) (map (\<lambda>d. StoreDelete (dd_table d) (dd_key d)) (deletes_of operations)
      @ map (\<lambda>(r, indexes, order). StoreUpsert r indexes order) upserts)) w"
proof -
  have "plain_mutation (StoreUpsert r indexes order)" if "(r, indexes, order) \<in> set upserts" for r indexes order
  proof -
    have "r \<in> set (map fst upserts)" using that by force
    then obtain d where "d \<in> set (upserts_of operations)" "r = record_of_draft d (wr_lsn w)"
      unfolding assms(3) by auto
    then show ?thesis using upserts_of_ok(1) [OF assms(1)]
      by (auto simp: plain_row_def record_of_draft_def draft_ok_def)
  qed
  moreover have "fold table_apply (map (\<lambda>d. StoreDelete (dd_table d) (dd_key d)) (deletes_of operations)
      @ map (\<lambda>(r, indexes, order). StoreUpsert r indexes order) upserts) T = log_rows w T" for T
    using fun_cong [OF draft_mutations_reorder [OF assms(2), of "wr_lsn w"], of T] assms(4)
    by (simp add: log_rows_def fold_store_mutations(1) [of _ _ "wr_lsn w"] fold_store_mutations(2) [OF assms(3)])
  ultimately show ?thesis
    using upserts_of_ok(2) [OF assms(1)] by (auto simp: carried_def list_all_iff)
qed

lemma prepared_transaction_effect:
  fixes sv :: "('n, 's, 'g) server"
  assumes "served_schema (sv_schema sv)" "list_all (mutation_ok ops (sv_schema sv)) (pt_operations prepared)"
    and "distinct (map mutation_target (pt_operations prepared))"
    and fresh: "find_committed_mutation (sv_mutations sv) mutation_id = None"
  shows "commit_effect sv (snd (commit_prepared_transaction ops env prepared mutation_id sv))"
proof -
  let ?append = "\<lambda>payload. sv_bind (sv_lift (en_accepting env)) (\<lambda>_.
      sv_bind (sv_lift (en_not_frozen env (pt_shard prepared))) (\<lambda>_.
        append_ordered_wal_record env (pt_shard prepared) (pt_durability prepared) payload))"
  have append: "appends (?append payload) payload" for payload :: "('n, 's, 'g) wal_payload"
    by (intro quiet_intros)
  have noop: "commit_effect sv (snd (sv_bind (?append (ClientMutationRecorded i RecordTransactionNoop))
      (\<lambda>w. sv_return \<lparr>tr_lsn = wr_lsn w, tr_operations = []\<rparr>) sv))" if "mutation_id = Some i" for i
    using fresh that
    by (intro effect_appends_noop [OF append])
      (simp_all add: quiet_intros log_rows_def unseen_def payload_mutation_id_def)
  have logged: "commit_effect sv (snd (sv_bind (?append (RecordTransactionCommitted (pt_operations prepared) mutation_id))
      (\<lambda>w. sv_bind (apply_record_transaction_operations ops env (pt_operations prepared) (wr_lsn w) True)
        (\<lambda>responses. sv_return \<lparr>tr_lsn = wr_lsn w, tr_operations = responses\<rparr>)) sv))"
  proof (rule effect_appends [OF append])
    show "unseen sv (RecordTransactionCommitted (pt_operations prepared) mutation_id)"
      using fresh by (simp add: unseen_def payload_mutation_id_def)
  next
    fix w and sv1 :: "('n, 's, 'g) server"
    assume w: "wr_payload w = RecordTransactionCommitted (pt_operations prepared) mutation_id"
      "flow_view sv1 = logged_view sv w []"
    let ?apply = "apply_record_transaction_operations ops env (pt_operations prepared) (wr_lsn w) True"
    note schema = view_schema(2) [OF w(2)]
    obtain upserts where upserts:
      "map fst upserts = map (\<lambda>d. record_of_draft d (wr_lsn w)) (upserts_of (pt_operations prepared))"
      "flow_view (snd (?apply sv1)) =
        (sv_wal sv1, sv_jobs sv1 @ [JobTransaction (wr_lsn w)
          (map (\<lambda>d. StoreDelete (dd_table d) (dd_key d)) (deletes_of (pt_operations prepared))
           @ map (\<lambda>(r, indexes, order). StoreUpsert r indexes order) upserts)],
         sv_disk sv1, sv_schema sv1, sv_mutations sv1, sv_applied_lsn sv1)"
      using apply_transaction_view [of sv1 ops "pt_operations prepared" "wr_lsn w" env True] assms(1,2) schema
      by auto
    have "flow_view (snd (sv_bind ?apply (\<lambda>responses. sv_return \<lparr>tr_lsn = wr_lsn w, tr_operations = responses\<rparr>) sv1))
        = flow_view (snd (?apply sv1))"
      by (simp add: sv_bind_def split: prod.split sum.split)
    moreover have "(sv_wal sv1, sv_jobs sv1 @ [job], sv_disk sv1, sv_schema sv1, sv_mutations sv1, sv_applied_lsn sv1)
        = logged_view sv w [job]" for job
      using w(2) by (simp add: flow_view_def logged_view_def)
    ultimately show "\<exists>job. carried job w \<and>
        flow_view (snd (sv_bind ?apply (\<lambda>responses. sv_return \<lparr>tr_lsn = wr_lsn w, tr_operations = responses\<rparr>) sv1))
          = logged_view sv w [job]"
      using upserts(2) transaction_carried [OF assms(2,3) upserts(1) w(1)] by (simp only:) blast
  qed
  show ?thesis
  proof (cases "pt_operations prepared = []")
    case False
    show ?thesis unfolding commit_prepared_transaction_def Let_def if_not_P [OF False] by (rule logged)
  next
    case True
    note unfold_empty = commit_prepared_transaction_def Let_def if_P [OF True]
    show ?thesis
    proof (cases mutation_id)
      case None
      then show ?thesis unfolding unfold_empty by (simp add: effect_quiet)
    next
      case (Some i)
      show ?thesis unfolding unfold_empty Some option.case by (rule noop [OF Some])
    qed
  qed
qed

lemma transaction_effect:
  assumes "served_schema (sv_schema sv)"
  shows "commit_effect sv (snd (commit_record_transaction ops env request sv))"
proof -
  have "commit_effect sv (snd (sv_bind (prepare_record_transaction ops env request)
      (\<lambda>prepared. commit_prepared_transaction ops env prepared mutation_id) sv))"
    if "find_committed_mutation (sv_mutations sv) mutation_id = None" for mutation_id
  proof (rule effect_bind [OF quiet_prepare])
    fix prepared sv1
    assume prep: "prepare_record_transaction ops env request sv = (Inr prepared, sv1)"
      "flow_view sv1 = flow_view sv"
    then show "commit_effect sv1 (snd (commit_prepared_transaction ops env prepared mutation_id sv1))"
      using prepared_operations_ok [OF prep(1)] assms view_schema(1) [OF prep(2)] that prep(2)
      by (intro prepared_transaction_effect) (auto simp: served_schema_def flow_view_def)
  qed
  then show ?thesis
    unfolding commit_record_transaction_def
    by (intro effect_lift) (auto simp: effect_quiet intro!: effect_lift effect_unless)
qed

lemma effect_schema: "commit_effect sv sv' \<Longrightarrow> sv_schema sv' = sv_schema sv"
  by (auto elim!: commit_effect.cases dest: view_schema)

text \<open>A batch is a sequence of such steps.\<close>

lemma batch_effects:
  assumes "served_schema (sv_schema sv)"
  shows "commit_effect\<^sup>*\<^sup>* sv (snd (commit_parts ops env dur child_id parts acc sv))"
  using assms
proof (induction parts arbitrary: sv acc)
  case (Cons part parts)
  obtain shard i chunk where part: "part = (shard, i, chunk)" by (cases part)
  let ?request = "\<lparr>txr_durability = dur, txr_mutation_id = child_id shard i, txr_operations = chunk\<rparr>"
  obtain res sv1 where tx: "commit_record_transaction ops env ?request sv = (res, sv1)"
    by (cases "commit_record_transaction ops env ?request sv")
  have step: "commit_effect sv sv1" using transaction_effect [OF Cons.prems, of ops env ?request] tx by simp
  show ?case
  proof (cases res)
    case Inl
    then show ?thesis using tx step by (simp add: part r_into_rtranclp)
  next
    case (Inr response)
    have "served_schema (sv_schema sv1)" using effect_schema [OF step] Cons.prems by simp
    from Cons.IH [OF this] show ?thesis
      using tx Inr step by (simp add: part converse_rtranclp_into_rtranclp)
  qed
qed simp

lemma batch_effect:
  assumes "served_schema (sv_schema sv)"
  shows "commit_effect\<^sup>*\<^sup>* sv (snd (commit_record_batch ops env request sv))"
proof -
  show ?thesis
    unfolding commit_record_batch_def
    by (auto simp: sv_bind_def batch_effects [OF assms] split: sum.split)
qed

end
