(* ===== verification/Record_Hazards.thy ===== *)
theory Record_Hazards
  imports Record_Guarantees
begin

text \<open>
  Where the record path promises less than it seems to. The version check and the delete read the
  projection, which lags behind the log; a restart drops the queue of the applier; and nothing
  orders what two requests publish after their appends. Each is stated for every run and shown on
  a concrete one.
\<close>

section \<open>Checks against the lagging projection\<close>

lemma effects_disk: "commit_effect\<^sup>*\<^sup>* sv sv' \<Longrightarrow> sv_disk sv' = sv_disk sv"
  by (induction rule: rtranclp_induct)
    (auto simp: flow_view_def logged_view_def elim!: commit_effect.cases)

lemma requests_disk:
  assumes "(request_step ops)\<^sup>*\<^sup>* sv later" "served_schema (sv_schema sv)"
  shows "sv_disk later = sv_disk sv \<and> sv_schema later = sv_schema sv"
  using assms(1)
proof (induction rule: rtranclp_induct)
  case (step sv1 sv2)
  then have "commit_effect\<^sup>*\<^sup>* sv1 sv2" using request_effects assms(2) by metis
  then show ?case using step(3) effects_disk effects_schema by metis
qed simp

text \<open>
  C26. The version check of a durable write does not see the writes still queued for the
  projection: whatever requests have been answered since, as long as the applier has not run, an
  expected LSN is accepted or refused as before them. Two clients that read the same version can
  both replace it, one after the other.
\<close>

theorem version_check_ignores_queued_writes:
  assumes "(request_step ops)\<^sup>*\<^sup>* sv later" "served_schema (sv_schema sv)"
  shows "fst (ensure_expected_record_lsn table key expected later)
    = fst (ensure_expected_record_lsn table key expected sv)"
  using requests_disk [OF assms] by (simp add: ensure_expected_record_lsn_def)


section \<open>What a restart drops\<close>

lemma applier_idle: "sv_jobs sv = [] \<Longrightarrow> (run_applier ops ^^ n) sv = sv"
  by (induction n) (simp_all add: run_applier_def)

lemma restart_state:
  assumes "restart ops su sv = Inr sv'"
  shows "sv_wal sv' = sv_wal sv" "sv_jobs sv' = []" "sv_applied_lsn sv' = 0" "sv_schema sv' = sv_schema sv"
    "sv_current_lsn sv' = fold (\<lambda>w. max (wr_lsn w)) (sv_wal sv) (su_snapshot_lsn su)"
    "su_bootstrapped su \<Longrightarrow> sv_disk sv' = sv_disk sv"
  using assms by (auto simp: restart_def startup_projection_def Let_def split: if_splits)

text \<open>
  C20. A restart over a projection that was bootstrapped before takes the projection as it is. The
  jobs that were queued are gone and nothing replays the log into the projection, so a row of a
  table the cache does not hold is read as it was on disk, however long the applier runs, even
  when the log that the restart read holds a later row of the key.
\<close>

theorem restart_loses_queued_rows:
  assumes "restart ops su sv = Inr sv'" "su_bootstrapped su"
    and "bt_get (hs_tables (sv_hot sv')) table = None"
  shows "sv_wal sv' = sv_wal sv
    \<and> fst (get_record_from_live_or_disk now table key ((run_applier ops ^^ n) sv'))
        = Inr (projection_get (sv_disk sv) table key)"
proof -
  note state = restart_state [OF assms(1)]
  have "bt_get (hs_tables (snd (evict_idle_durable_records now (sv_hot sv')))) table = None"
    using assms(3) by (simp add: evict_idle_durable_records_def Let_def)
  then obtain hot where "cache_get now table key (sv_hot sv') = (None, hot)"
    by (simp add: cache_get_def swept_def hot_get_def)
  then show ?thesis
    using state assms(2)
    by (simp add: applier_idle get_record_from_live_or_disk_def lookup_record_def hydrate_found_def hot_call_def
        sv_get_def sv_bind_def split: option.split)
qed

text \<open>
  After a restart the LSN the applier announces starts from zero although the log does not:
  a read that waits for a positive LSN is refused until a write after the restart has been
  applied, however long it waits, even when the projection holds every row of the log.
\<close>

theorem consistent_read_refused_after_restart:
  assumes "restart ops su sv = Inr sv'" "wait_target q (sv_current_lsn sv') = Inr (Some lsn)" "0 < lsn"
    and "validate_record_path (sv_schema sv) table key = Inr ()"
  shows "fst (get_record now q sv' table key ((run_applier ops ^^ n) sv'))
    = Inl (Unavailable (''record projection did not catch up to LSN '' @ decimal (unat lsn)))"
  using assms(2-4) restart_state [OF assms(1)]
  by (simp add: applier_idle get_record_def resolve_record_read_consistency_def sv_get_def sv_bind_def)

section \<open>Two requests after their appends\<close>

lemma append_upsert_appends: "appends (append_upsert ops env p dur expected d) (RecordUpserted d)"
  unfolding append_upsert_def by (intro quiet_intros)

text \<open>
  C25. What follows the append of a write is not ordered between requests. When A is logged before
  B, both for one key, and B publishes before A, the log ends with B but the applier leaves A on
  disk, with the queue empty and every job accepted.
\<close>

theorem publish_race_keeps_older_row:
  assumes "append_upsert ops env1 p1 dur1 expected1 a sv = (Inr w1, sv1)"
    and "append_upsert ops env2 p2 dur2 expected2 b sv1 = (Inr w2, sv2)"
    and "publish_upsert ops env2 b ixs2 (wr_lsn w2) sv2 = (Inr row2, sv3)"
    and "publish_upsert ops env1 a ixs1 (wr_lsn w1) sv3 = (Inr row1, sv4)"
    and "rd_table b = rd_table a" "rd_key b = rd_key a"
    and "served_schema (sv_schema sv)" "draft_ok ops (sv_schema sv) a" "draft_ok ops (sv_schema sv) b"
    and "agrees sv" "drain_accepted ops (length (sv_jobs sv4)) sv4"
    and "drained = (run_applier ops ^^ length (sv_jobs sv4)) sv4"
  shows "sv_jobs drained = []
    \<and> bt_get (log_table (sv_wal drained)) (rd_table a, rd_key a) = Some row2
    \<and> projection_get (sv_disk drained) (rd_table a) (rd_key a) = Some row1"
proof -
  let ?row1 = "record_of_draft a (wr_lsn w1)" and ?row2 = "record_of_draft b (wr_lsn w2)"
  let ?key = "(rd_table a, rd_key a)"
  note log1 = appendsD(2) [OF append_upsert_appends assms(1)]
  note log2 = appendsD(2) [OF append_upsert_appends assms(2)]
  have schema: "sv_schema sv1 = sv_schema sv" "sv_schema sv2 = sv_schema sv"
    using log1 log2 by (auto simp: flow_view_def logged_view_def)
  obtain order2 where view3: "flow_view sv3 = (sv_wal sv2, sv_jobs sv2 @ [JobUpsert (wr_lsn w2) ?row2 ixs2 order2],
      sv_disk sv2, sv_schema sv2, sv_mutations sv2, sv_applied_lsn sv2)" and row2: "row2 = ?row2"
    using publish_upsert_view [of sv2 ops b env2 ixs2 "wr_lsn w2"] assms(3,7,9) schema by auto
  have "sv_schema sv3 = sv_schema sv" using view3 schema by (simp add: flow_view_def)
  then obtain order1 where view4: "flow_view sv4 = (sv_wal sv3, sv_jobs sv3 @ [JobUpsert (wr_lsn w1) ?row1 ixs1 order1],
      sv_disk sv3, sv_schema sv3, sv_mutations sv3, sv_applied_lsn sv3)" and row1: "row1 = ?row1"
    using publish_upsert_view [of sv3 ops a env1 ixs1 "wr_lsn w1"] assms(4,7,8) by auto
  have wal: "sv_wal sv4 = sv_wal sv @ [w1, w2]" and disk: "sv_disk sv4 = sv_disk sv"
    and jobs: "sv_jobs sv4 = sv_jobs sv @ [JobUpsert (wr_lsn w2) ?row2 ixs2 order2, JobUpsert (wr_lsn w1) ?row1 ixs1 order1]"
    using log1 log2 view3 view4 by (auto simp: flow_view_def logged_view_def)
  have plain: "plain (rd_table a)" "plain_row ?row1" "plain_row ?row2"
    using assms(5,6,8) by (simp_all add: draft_ok_def plain_row_def record_of_draft_def)
  let ?goal = "bt_insert ?key ?row1 (bt_insert ?key ?row2 (log_table (sv_wal sv)))"
  have "queued_to ?goal sv4"
    using assms(5,6,10) plain
    by (auto simp: agrees_def queued_to_def disk jobs record_of_draft_def)
  note drained = drain [OF this assms(11), folded assms(12)]
  have "bt_get (log_table (sv_wal drained)) ?key = Some ?row2"
    using drained log1 log2 assms(5,6) by (simp add: wal log_table_def log_rows_def)
  moreover have "projection_get (sv_disk drained) (rd_table a) (rd_key a) = Some ?row1"
    using drained_reads [of ?goal drained "rd_table a" "rd_key a"] drained plain(1) by simp
  ultimately show ?thesis using drained row1 row2 by simp
qed

section \<open>The documents server again\<close>

lemma docs_put_run: "(request_step docs_ops)\<^sup>*\<^sup>* docs_start docs_written"
  unfolding docs_written_def by (rule r_into_rtranclp, rule docs_request)

lemma docs_start_served: "served_schema (sv_schema docs_start)"
  using docs_served by (simp add: docs_start_def fresh_server_def)

lemma docs_logged: "map_option rec_lsn (bt_get (log_table (sv_wal docs_written)) (''docs'', ''a'')) = Some 1"
  by code_simp

definition docs_replace :: "string \<Rightarrow> (i64, unit, unit) server \<Rightarrow> u64 option" where
  "docs_replace title sv =
     (case fst (commit_record_upsert docs_ops docs_env ''docs'' ''a'' (docs_document title) Strict (Some 0) None sv) of
        Inl _ \<Rightarrow> None | Inr r \<Rightarrow> Some (rec_lsn r))"

theorem version_check_ignores_queued_writes_witness:
  "fst (ensure_expected_record_lsn ''docs'' ''a'' (Some 0) docs_written)
     = fst (ensure_expected_record_lsn ''docs'' ''a'' (Some 0) docs_start)
   \<and> docs_replace ''one'' docs_start = Some 1 \<and> docs_replace ''two'' docs_written = Some 2"
proof -
  have "docs_replace ''one'' docs_start = Some 1" "docs_replace ''two'' docs_written = Some 2" by code_simp+
  then show ?thesis
    using version_check_ignores_queued_writes [OF docs_put_run docs_start_served] by (intro conjI)
qed

definition docs_deleted :: "(api_error + delete_record_response) \<times> (i64, unit, unit) server" where
  "docs_deleted = commit_record_delete docs_env ''docs'' ''a'' Strict None None docs_written"


definition docs_startup :: "i64 startup" where
  "docs_startup =
     \<lparr>su_now = 9, su_idle_ttl_ms = 0, su_bootstrapped = True, su_snapshot = None, su_snapshot_lsn = 0\<rparr>"

definition docs_restarted :: "(i64, unit, unit) server" where
  "docs_restarted = projr (restart docs_ops docs_startup docs_written)"

lemma docs_restart: "restart docs_ops docs_startup docs_written = Inr docs_restarted"
proof -
  have "\<not> isl (restart docs_ops docs_startup docs_written)" by code_simp
  then show ?thesis unfolding docs_restarted_def by (rule sum.collapse(2) [symmetric])
qed

theorem restart_loses_queued_rows_witness:
  "fst (get_record_from_live_or_disk 9 ''docs'' ''a'' ((run_applier docs_ops ^^ 5) docs_restarted)) = Inr None
   \<and> map_option rec_lsn (bt_get (log_table (sv_wal docs_restarted)) (''docs'', ''a'')) = Some 1"
proof -
  have "su_bootstrapped docs_startup" "bt_get (hs_tables (sv_hot docs_restarted)) ''docs'' = None"
    by code_simp+
  note lost = restart_loses_queued_rows [OF docs_restart this, where now = 9 and n = 5 and key = "''a''"]
  moreover have "projection_get (sv_disk docs_written) ''docs'' ''a'' = None" by code_simp
  ultimately show ?thesis using docs_logged by (simp only: simp_thms)
qed

theorem consistent_read_refused_after_restart_witness:
  "fst (get_record 9 \<lparr>cq_consistency = Some StrongRead, cq_min_lsn = None\<rparr> docs_restarted ''docs'' ''a''
      ((run_applier docs_ops ^^ 5) docs_restarted))
     = Inl (Unavailable ''record projection did not catch up to LSN 1'')"
proof -
  have "wait_target \<lparr>cq_consistency = Some StrongRead, cq_min_lsn = None\<rparr> (sv_current_lsn docs_restarted) = Inr (Some 1)"
    "(0 :: u64) < 1" "validate_record_path (sv_schema docs_written) ''docs'' ''a'' = Inr ()"
    by code_simp+
  note refused = consistent_read_refused_after_restart [OF docs_restart this, where now = 9 and n = 5]
  have "''record projection did not catch up to LSN '' @ decimal (unat (1 :: u64))
      = ''record projection did not catch up to LSN 1''" by code_simp
  then show ?thesis using refused by (simp only:)
qed

text \<open>Two writers of the row, and the order in which their parts run.\<close>

definition docs_prepared :: "string \<Rightarrow> i64 prepared_upsert" where
  "docs_prepared title =
     \<lparr>pu_table = ''docs'', pu_key = ''a'', pu_value = docs_document title, pu_path = ''tables/docs/a'',
      pu_shard_key = ''docs:a'', pu_indexes = bt_empty\<rparr>"

definition docs_draft :: "string \<Rightarrow> i64 db_record_draft" where
  "docs_draft title = upsert_draft docs_env (docs_prepared title) None"

definition docs_append ::
  "string \<Rightarrow> (i64, unit, unit) server \<Rightarrow> (api_error + (i64, unit, unit) wal_record) \<times> (i64, unit, unit) server" where
  "docs_append title = append_upsert docs_ops docs_env (docs_prepared title) Strict None (docs_draft title)"

definition docs_publish ::
  "string \<Rightarrow> (i64, unit, unit) wal_record \<Rightarrow> (i64, unit, unit) server \<Rightarrow>
     (api_error + i64 db_record) \<times> (i64, unit, unit) server" where
  "docs_publish title w = publish_upsert docs_ops docs_env (docs_draft title) bt_empty (wr_lsn w)"

definition docs_race :: "(api_error + i64 db_record) \<times> (i64, unit, unit) server" where
  "docs_race =
     sv_bind (docs_append ''one'') (\<lambda>w1. sv_bind (docs_append ''two'') (\<lambda>w2.
     sv_bind (docs_publish ''two'' w2) (\<lambda>_. docs_publish ''one'' w1))) docs_start"

lemma docs_draft_ok: "draft_ok docs_ops (docs_schema 1 docs_fields) (docs_draft ''one'')"
  "draft_ok docs_ops (docs_schema 1 docs_fields) (docs_draft ''two'')"
  by code_simp+

theorem publish_race_keeps_older_row_witness:
  "map_option rec_lsn (bt_get (log_table (sv_wal (snd docs_race))) (''docs'', ''a'')) = Some 2
   \<and> map_option rec_lsn
        (projection_get (sv_disk ((run_applier docs_ops ^^ 2) (snd docs_race))) ''docs'' ''a'') = Some 1"
proof -
  have "\<not> isl (fst docs_race)" by code_simp
  then obtain r1 where r1: "fst docs_race = Inr r1" by (cases "fst docs_race") simp_all
  then have "docs_race = (Inr r1, snd docs_race)" by (simp only: prod_eq_iff fst_conv snd_conv)
  then obtain w1 sv1 w2 sv2 r2 sv3 where steps:
    "docs_append ''one'' docs_start = (Inr w1, sv1)" "docs_append ''two'' sv1 = (Inr w2, sv2)"
    "docs_publish ''two'' w2 sv2 = (Inr r2, sv3)" "docs_publish ''one'' w1 sv3 = (Inr r1, snd docs_race)"
    by (subst (asm) docs_race_def) (auto simp only: sv_bind_Inr)
  have keys: "rd_table (docs_draft ''two'') = rd_table (docs_draft ''one'')"
    "rd_key (docs_draft ''two'') = rd_key (docs_draft ''one'')"
    "rd_table (docs_draft ''one'') = ''docs''" "rd_key (docs_draft ''one'') = ''a''"
    by code_simp+
  have schema: "sv_schema docs_start = docs_schema 1 docs_fields" by (simp add: docs_start_def fresh_server_def)
  have agree: "agrees docs_start"
    unfolding docs_start_def
    by (rule conjunct1 [OF smooth_run_agrees [OF rtranclp.rtrancl_refl [of "smooth_step docs_ops"] docs_served]])
  have jobs: "length (sv_jobs (snd docs_race)) = Suc (Suc 0)" by code_simp
  have accepted: "drain_accepted docs_ops (Suc (Suc 0)) (snd docs_race)" by code_simp
  note raced = publish_race_keeps_older_row [OF steps [unfolded docs_append_def docs_publish_def] keys(1,2)
      docs_start_served docs_draft_ok [folded schema] agree, unfolded jobs, OF accepted refl, unfolded keys]
  have "map_option rec_lsn (bt_get (log_table (sv_wal (snd docs_race))) (''docs'', ''a'')) = Some 2" by code_simp
  moreover have "map_sum id rec_lsn (fst docs_race) = Inr 1" by code_simp
  ultimately show ?thesis using raced unfolding r1 by (simp add: numeral_2_eq_2)
qed

end
