(* ===== verification/Record_Scan.thy ===== *)
theory Record_Scan
  imports Record_Server
begin

text \<open>
  The pure parts of listing rows: predicates, the loops that read the projection page by page
  until enough rows have been collected, and the merges of rows from disk with rows from the hot
  cache. A loop of pages may in principle not end; it is an option, and ends on every projection
  that implements a table.
\<close>

section \<open>Predicates\<close>

text \<open>\<open>str::split(c)\<close> and \<open>str::contains\<close>\<close>

fun split_at :: "'a \<Rightarrow> 'a list \<Rightarrow> 'a list list" where
  "split_at c [] = [[]]"
| "split_at c (x # xs) =
     (if x = c then [] # split_at c xs
      else case split_at c xs of [] \<Rightarrow> [[x]] | part # parts \<Rightarrow> (x # part) # parts)"

fun has_infix :: "'a list \<Rightarrow> 'a list \<Rightarrow> bool" where
  "has_infix [] pat \<longleftrightarrow> pat = []"
| "has_infix (x # xs) pat \<longleftrightarrow> starts_with (x # xs) pat \<or> has_infix xs pat"

datatype predicate_op =
    PredEq | PredNe | PredLt | PredLte | PredGt | PredGte | PredContains | PredStartsWith | PredExists

record 'n predicate_term =
  pt_field :: string
  pt_op :: predicate_op
  pt_value :: "'n json option"

type_synonym 'n record_predicate = "'n predicate_term list"

definition is_predicate_char :: "char \<Rightarrow> bool" where
  "is_predicate_char c \<longleftrightarrow>
     (let n = of_char c :: nat in
       n \<in> {0x30..0x39} \<or> n \<in> {0x41..0x5A} \<or> n \<in> {0x61..0x7A} \<or> c = CHR ''_'' \<or> c = CHR ''-'')"

definition validate_record_predicate :: "'n record_predicate \<Rightarrow> api_error + unit" where
  "validate_record_predicate terms =
     (if 32 < length terms then Inl (BadRequest ''record predicate supports at most 32 all terms'')
      else check_all (\<lambda>t.
        if pt_field t = [] \<or> 256 < length (pt_field t) then Inl (BadRequest ''invalid predicate field'')
        else res_bind (check_all (\<lambda>component.
               if component = [] \<or> 64 < length component \<or> \<not> list_all is_predicate_char component
               then Inl (BadRequest ''invalid predicate field'') else Inr ())
               (split_at CHR ''.'' (pt_field t))) (\<lambda>_.
             if pt_op t \<noteq> PredExists \<and> pt_value t = None
             then Inl (BadRequest ''predicate term requires value'') else Inr ())) terms)"

fun value_at_components :: "'n json \<Rightarrow> string list \<Rightarrow> 'n json option" where
  "value_at_components v [] = Some v"
| "value_at_components v (component # rest) =
     (case json_field v component of None \<Rightarrow> None | Some w \<Rightarrow> value_at_components w rest)"

definition value_at_field_path :: "'n json \<Rightarrow> string \<Rightarrow> 'n json option" where
  "value_at_field_path v path = value_at_components v (split_at CHR ''.'' path)"

definition json_str :: "'n json \<Rightarrow> string option" where
  "json_str v = (case v of JString s \<Rightarrow> Some s | _ \<Rightarrow> None)"

definition json_f64 :: "('n, 'z) number_ops_scheme \<Rightarrow> 'n json \<Rightarrow> u64 option" where
  "json_f64 ops v = (case v of JNumber n \<Rightarrow> as_f64 ops n | _ \<Rightarrow> None)"

definition compare_predicate_values ::
  "('n, 'z) index_ops_scheme \<Rightarrow> 'n json \<Rightarrow> 'n json \<Rightarrow> ordering option" where
  "compare_predicate_values ops actual expected =
     (case (json_f64 ops actual, json_f64 ops expected) of
        (Some a, Some e) \<Rightarrow> f64_partial_cmp ops a e
      | _ \<Rightarrow> (case (json_str actual, json_str expected) of
               (Some a, Some e) \<Rightarrow> Some (cmp_of a e)
             | _ \<Rightarrow> None))"

definition predicate_contains :: "'n json \<Rightarrow> 'n json \<Rightarrow> bool" where
  "predicate_contains actual expected \<longleftrightarrow>
     (case (json_str actual, json_str expected) of
        (Some a, Some e) \<Rightarrow> has_infix a e
      | _ \<Rightarrow> (case actual of JArray items \<Rightarrow> expected \<in> set items | _ \<Rightarrow> False))"

text \<open>The first argument of \<open>both\<close> is \<open>zip\<close> followed by \<open>is_some_and\<close>.\<close>

definition both :: "'a option \<Rightarrow> 'b option \<Rightarrow> ('a \<Rightarrow> 'b \<Rightarrow> bool) \<Rightarrow> bool" where
  "both a b P \<longleftrightarrow> (case (a, b) of (Some x, Some y) \<Rightarrow> P x y | _ \<Rightarrow> False)"

definition record_matches_predicate_term ::
  "('n, 'z) index_ops_scheme \<Rightarrow> 'n db_record \<Rightarrow> 'n predicate_term \<Rightarrow> bool" where
  "record_matches_predicate_term ops r t \<longleftrightarrow>
     (let actual = value_at_field_path (rec_value r) (pt_field t);
          compared = (\<lambda>accepts. both actual (pt_value t) (\<lambda>a e.
            case compare_predicate_values ops a e of None \<Rightarrow> False | Some c \<Rightarrow> c \<in> accepts))
      in case pt_op t of
           PredExists \<Rightarrow>
             (actual \<noteq> None) = (case pt_value t of Some (JBool b) \<Rightarrow> b | _ \<Rightarrow> True)
         | PredEq \<Rightarrow> both actual (pt_value t) (\<lambda>a e. a = e)
         | PredNe \<Rightarrow> both actual (pt_value t) (\<lambda>a e. a \<noteq> e)
         | PredLt \<Rightarrow> compared {Less_Than}
         | PredLte \<Rightarrow> compared {Less_Than, Equal_To}
         | PredGt \<Rightarrow> compared {Greater_Than}
         | PredGte \<Rightarrow> compared {Greater_Than, Equal_To}
         | PredContains \<Rightarrow> both actual (pt_value t) predicate_contains
         | PredStartsWith \<Rightarrow>
             both (Option.bind actual json_str) (Option.bind (pt_value t) json_str) starts_with)"

definition record_matches_predicate ::
  "('n, 'z) index_ops_scheme \<Rightarrow> 'n db_record \<Rightarrow> 'n record_predicate option \<Rightarrow> bool" where
  "record_matches_predicate ops r predicate \<longleftrightarrow>
     (case predicate of None \<Rightarrow> True | Some terms \<Rightarrow> list_all (record_matches_predicate_term ops r) terms)"

definition record_matches_index_values :: "'n db_record \<Rightarrow> index_schema \<Rightarrow> 'n json list \<Rightarrow> bool" where
  "record_matches_index_values r ix vals \<longleftrightarrow> record_index_values r ix = Inr vals"

definition record_matches_index_value_prefix ::
  "'n db_record \<Rightarrow> index_schema \<Rightarrow> 'n json list \<Rightarrow> bool" where
  "record_matches_index_value_prefix r ix vals \<longleftrightarrow>
     (case record_index_values r ix of Inl _ \<Rightarrow> False | Inr row \<Rightarrow> starts_with row vals)"

section \<open>Reading pages until enough rows are collected\<close>

definition scan_page_limit :: nat where "scan_page_limit = 500"

text \<open>
  One page of a scan: rows that are not wanted are passed over, the others collected until the
  target is reached. The flag says that it was.
\<close>

fun collect_page :: "('r \<Rightarrow> bool) \<Rightarrow> nat \<Rightarrow> 'r list \<Rightarrow> 'r list \<Rightarrow> 'r list \<times> bool" where
  "collect_page wanted target out [] = (out, False)"
| "collect_page wanted target out (r # rs) =
     (if \<not> wanted r then collect_page wanted target out rs
      else if target \<le> length (out @ [r]) then (out @ [r], True)
      else collect_page wanted target (out @ [r]) rs)"

text \<open>The next page starts after the last row of this one.\<close>

partial_function (option) scan_pages ::
  "('c option \<Rightarrow> 'e + 'r list) \<Rightarrow> ('r \<Rightarrow> 'c) \<Rightarrow> ('r \<Rightarrow> bool) \<Rightarrow> nat \<Rightarrow> 'c option \<Rightarrow> 'r list \<Rightarrow>
     ('e + 'r list) option" where
  [code]: "scan_pages page cursor wanted target after out =
     (case page after of
        Inl e \<Rightarrow> Some (Inl e)
      | Inr rows \<Rightarrow>
          if rows = [] then Some (Inr out)
          else case collect_page wanted target out rows of
                 (out', full) \<Rightarrow>
                   if full \<or> length rows < scan_page_limit then Some (Inr out')
                   else scan_pages page cursor wanted target (Some (cursor (last rows))) out')"

definition key_order_page ::
  "'n projection \<Rightarrow> string \<Rightarrow> string option \<Rightarrow> string option \<Rightarrow> 'e + 'n db_record list" where
  "key_order_page p table scope after_key =
     Inr (case scope of
            Some pre \<Rightarrow> store_list_by_key_prefix p table pre after_key (Some 500)
          | None \<Rightarrow> projection_list p table after_key (Some 500))"

text \<open>
  The loops of \<open>collect_matching_key_order_records\<close> and of the list queries with a predicate
  differ only in the rows they want.
\<close>

definition collect_wanted_key_order_records ::
  "'n projection \<Rightarrow> string \<Rightarrow> string option \<Rightarrow> string option \<Rightarrow> ('n db_record \<Rightarrow> bool) \<Rightarrow> nat \<Rightarrow>
     (api_error + 'n db_record list) option" where
  "collect_wanted_key_order_records p table scope after_key wanted target =
     scan_pages (key_order_page p table scope) rec_key wanted target after_key []"

definition collect_matching_key_order_records ::
  "'n projection \<Rightarrow> string \<Rightarrow> string option \<Rightarrow> string option \<Rightarrow> string bset \<Rightarrow> nat \<Rightarrow>
     (api_error + 'n db_record list) option" where
  "collect_matching_key_order_records p table scope after_key shadow_keys target =
     collect_wanted_key_order_records p table scope after_key
       (\<lambda>r. \<not> bt_contains shadow_keys (rec_key r)) target"

definition collect_matching_exact_index_records ::
  "('n, 'z) index_ops_scheme \<Rightarrow> 'n projection \<Rightarrow> string \<Rightarrow> string \<Rightarrow> 'n json list \<Rightarrow> string option \<Rightarrow>
     string option \<Rightarrow> string bset \<Rightarrow> nat \<Rightarrow> ('n db_record \<Rightarrow> bool) \<Rightarrow> (api_error + 'n db_record list) option"
where
  "collect_matching_exact_index_records ops p table index_name vals scope after_key shadow_keys target
     matches =
     scan_pages (\<lambda>after. map_err (\<lambda>_. InternalError)
         (query_index ops p table index_name vals scope after (Some 500)))
       rec_key (\<lambda>r. \<not> bt_contains shadow_keys (rec_key r) \<and> matches r) target after_key []"

definition collect_matching_index_range_records ::
  "('n, 'z) index_ops_scheme \<Rightarrow> 'n projection \<Rightarrow> string \<Rightarrow> string \<Rightarrow> 'n json list option \<Rightarrow>
     'n json list option \<Rightarrow> string option \<Rightarrow> string option \<Rightarrow> string bset \<Rightarrow> nat \<Rightarrow>
     ('n db_record \<Rightarrow> bool) \<Rightarrow> (api_error + ('n db_record \<times> string) list) option" where
  "collect_matching_index_range_records ops p table index_name lower upper scope after_cursor shadow_keys
     target matches =
     scan_pages (\<lambda>after. map_err (\<lambda>_. InternalError)
         (store_query_index_range ops p table index_name lower upper scope after (Some 500)))
       snd (\<lambda>(r, _). \<not> bt_contains shadow_keys (rec_key r) \<and> matches r) target after_cursor []"

text \<open>
  The loop of the list query in schema order carries both the key and the cursor of the last row;
  at the start either may be missing.
\<close>

definition collect_wanted_ordered_records ::
  "'n projection \<Rightarrow> string \<Rightarrow> string \<Rightarrow> order_term list \<Rightarrow> string option \<Rightarrow> string option \<Rightarrow>
     ('n db_record \<Rightarrow> bool) \<Rightarrow> nat \<Rightarrow> (api_error + ('n db_record \<times> string) list) option" where
  "collect_wanted_ordered_records p table scope order after_key after_cursor wanted target =
     scan_pages (\<lambda>after. case after of
           None \<Rightarrow> Inr []
         | Some (key, c) \<Rightarrow> map_err (\<lambda>_. InternalError)
             (list_by_key_prefix_ordered p table scope order key c (Some 500)))
       (\<lambda>(r, c). (Some (rec_key r), Some c)) (\<lambda>(r, _). wanted r) target
       (Some (after_key, after_cursor)) []"

section \<open>Merging rows from disk with hot rows\<close>

fun merge_key_order_loop ::
  "nat \<Rightarrow> 'n db_record list \<Rightarrow> 'n db_record list \<Rightarrow> 'n db_record list \<Rightarrow> 'n db_record list" where
  "merge_key_order_loop limit merged disk hot =
     (if limit \<le> length merged then merged
      else case (disk, hot) of
             (d # ds, h # hs) \<Rightarrow>
               (case cmp_of (rec_key d) (rec_key h) of
                  Less_Than \<Rightarrow> merge_key_order_loop limit (merged @ [d]) ds (h # hs)
                | Equal_To \<Rightarrow> merge_key_order_loop limit (merged @ [h]) ds hs
                | Greater_Than \<Rightarrow> merge_key_order_loop limit (merged @ [h]) (d # ds) hs)
           | (d # ds, []) \<Rightarrow> merge_key_order_loop limit (merged @ [d]) ds []
           | ([], h # hs) \<Rightarrow> merge_key_order_loop limit (merged @ [h]) [] hs
           | ([], []) \<Rightarrow> merged)"

definition merge_key_order_records ::
  "'n db_record list \<Rightarrow> 'n db_record list \<Rightarrow> nat \<Rightarrow> 'n db_record list" where
  "merge_key_order_records disk hot limit = merge_key_order_loop limit [] disk hot"

text \<open>
  The merges of the queries take one row more than the limit to see whether there are more. By
  key a hot row replaces the row from disk; by cursor or index values the row from disk goes first.
\<close>

fun merge_matching_loop ::
  "('r \<Rightarrow> 'r \<Rightarrow> ordering) \<Rightarrow> bool \<Rightarrow> ('r \<Rightarrow> bool) \<Rightarrow> nat \<Rightarrow> 'r list \<Rightarrow> 'r list \<Rightarrow> 'r list \<Rightarrow> 'r list" where
  "merge_matching_loop cmp replaces matches limit out disk hot =
     (if limit < length out then out
      else
        let keep = (\<lambda>r. if matches r then out @ [r] else out) in
        case (disk, hot) of
          (d # ds, h # hs) \<Rightarrow>
            (case cmp d h of
               Less_Than \<Rightarrow> merge_matching_loop cmp replaces matches limit (keep d) ds (h # hs)
             | Equal_To \<Rightarrow>
                 if replaces then merge_matching_loop cmp replaces matches limit (keep h) ds hs
                 else merge_matching_loop cmp replaces matches limit (keep d) ds (h # hs)
             | Greater_Than \<Rightarrow> merge_matching_loop cmp replaces matches limit (keep h) (d # ds) hs)
        | (d # ds, []) \<Rightarrow> merge_matching_loop cmp replaces matches limit (keep d) ds []
        | ([], h # hs) \<Rightarrow> merge_matching_loop cmp replaces matches limit (keep h) [] hs
        | ([], []) \<Rightarrow> out)"

definition with_more :: "nat \<Rightarrow> 'r list \<Rightarrow> 'r list \<times> bool" where
  "with_more limit rows = (take limit rows, limit < length rows)"

definition merge_key_order_records_matching_with_shadow_keys ::
  "'n db_record list \<Rightarrow> 'n db_record list \<Rightarrow> string bset \<Rightarrow> nat \<Rightarrow> ('n db_record \<Rightarrow> bool) \<Rightarrow>
     'n db_record list \<times> bool" where
  "merge_key_order_records_matching_with_shadow_keys disk hot shadow_keys limit matches =
     with_more limit
       (merge_matching_loop (\<lambda>d h. cmp_of (rec_key d) (rec_key h)) True matches limit []
         (filter (\<lambda>r. \<not> bt_contains shadow_keys (rec_key r)) disk) hot)"

definition merge_ordered_records_matching_with_shadow_keys ::
  "('n db_record \<times> string) list \<Rightarrow> ('n db_record \<times> string) list \<Rightarrow> string bset \<Rightarrow> nat \<Rightarrow>
     ('n db_record \<Rightarrow> bool) \<Rightarrow> ('n db_record \<times> string) list \<times> bool" where
  "merge_ordered_records_matching_with_shadow_keys disk hot shadow_keys limit matches =
     with_more limit
       (merge_matching_loop (\<lambda>d h. cmp_of (snd d) (snd h)) False (\<lambda>(r, _). matches r) limit []
         (filter (\<lambda>(r, _). \<not> bt_contains shadow_keys (rec_key r)) disk) hot)"

definition split_matching_ordered_hot_records ::
  "('n db_record \<times> string) list \<Rightarrow> ('n db_record \<Rightarrow> bool) \<Rightarrow> ('n db_record \<times> string) list" where
  "split_matching_ordered_hot_records hot matches = filter (\<lambda>(r, _). matches r) hot"

definition disk_window_for_hot_overlay :: "nat \<Rightarrow> nat \<Rightarrow> nat" where
  "disk_window_for_hot_overlay limit hot_record_count = limit + hot_record_count + 1"

definition predicate_scan_target :: "nat \<Rightarrow> nat" where
  "predicate_scan_target limit = limit + 1"

definition last_of :: "'a list \<Rightarrow> 'a option" where
  "last_of xs = (if xs = [] then None else Some (last xs))"

text \<open>An entry of a range merge: index values, key, cursor and row.\<close>

type_synonym 'n range_entry = "'n json list \<times> string \<times> string \<times> 'n db_record"

definition compare_index_range_merge_entries ::
  "('n, 'z) index_ops_scheme \<Rightarrow> 'n range_entry \<Rightarrow> 'n range_entry \<Rightarrow> ordering" where
  "compare_index_range_merge_entries ops l r =
     then_with (compare_index_values ops (fst l) (fst r)) (cmp_of (fst (snd l)) (fst (snd r)))"

definition index_values_in_range ::
  "('n, 'z) index_ops_scheme \<Rightarrow> 'n json list \<Rightarrow> 'n json list option \<Rightarrow> 'n json list option \<Rightarrow> bool" where
  "index_values_in_range ops vals lower upper \<longleftrightarrow>
     (case lower of None \<Rightarrow> True | Some l \<Rightarrow> compare_index_values ops vals l \<noteq> Less_Than)
   \<and> (case upper of None \<Rightarrow> True | Some u \<Rightarrow> compare_index_values ops vals u \<noteq> Greater_Than)"

definition index_values_after_cursor ::
  "('n, 'z) index_ops_scheme \<Rightarrow> 'n json list \<Rightarrow> string \<Rightarrow> ('n json list \<times> string) option \<Rightarrow> bool" where
  "index_values_after_cursor ops vals key after_cursor \<longleftrightarrow>
     (case after_cursor of
        None \<Rightarrow> True
      | Some (after_values, after_key) \<Rightarrow>
          then_with (compare_index_values ops vals after_values) (cmp_of key after_key) = Greater_Than)"

definition disk_range_entries ::
  "string bset \<Rightarrow> ('n db_record \<Rightarrow> bool) \<Rightarrow> index_schema \<Rightarrow> ('n db_record \<times> string) list \<Rightarrow>
     api_error + 'n range_entry list" where
  "disk_range_entries hot_keys matches ix disk =
     map_res (\<lambda>(r, cursor). res_bind (map_err (\<lambda>_. InternalError) (record_index_values r ix)) (\<lambda>vals.
         Inr (vals, rec_key r, cursor, r)))
       (filter (\<lambda>(r, _). \<not> bt_contains hot_keys (rec_key r) \<and> matches r) disk)"

definition merge_index_range_records_with_hot_entries ::
  "('n, 'z) index_ops_scheme \<Rightarrow> ('n db_record \<times> string) list \<Rightarrow> string bset \<Rightarrow> 'n range_entry list \<Rightarrow>
     index_schema \<Rightarrow> nat \<Rightarrow> ('n db_record \<Rightarrow> bool) \<Rightarrow> api_error + 'n db_record list \<times> string option \<times> bool" where
  "merge_index_range_records_with_hot_entries ops disk hot_keys entries ix limit matches =
     res_bind (disk_range_entries hot_keys matches ix disk) (\<lambda>disk_entries.
       let hot = sort_by (compare_index_range_merge_entries ops) entries;
           (merged, has_more) = with_more limit
             (merge_matching_loop (compare_index_range_merge_entries ops) False (\<lambda>_. True) limit []
               disk_entries hot);
           next_cursor = (if has_more then map_option (\<lambda>(_, _, cursor, _). cursor) (last_of merged) else None)
       in Inr (map (\<lambda>(_, _, _, r). r) merged, next_cursor, has_more))"

section \<open>Every scan of pages ends\<close>

definition later :: "('r \<Rightarrow> 'c::linorder) \<Rightarrow> 'c option \<Rightarrow> 'r \<Rightarrow> bool" where
  "later cursor after r \<longleftrightarrow> (case after of None \<Rightarrow> True | Some c \<Rightarrow> c < cursor r)"

lemma later_simps [simp]: "later cursor None r" "later cursor (Some c) r \<longleftrightarrow> c < cursor r"
  by (simp_all add: later_def)

lemma collect_page:
  assumes "length out < target"
  shows "collect_page wanted target out rows =
    (out @ take (target - length out) (filter wanted rows), target \<le> length out + length (filter wanted rows))"
  using assms
proof (induction rows arbitrary: out)
  case (Cons r rs)
  show ?case
  proof (cases "wanted r \<and> length (out @ [r]) < target")
    case True
    then have "Suc (target - Suc (length out)) = target - length out" by auto
    with True show ?thesis using Cons.IH [of "out @ [r]"] by (simp flip: take_Suc_Cons)
  next
    case False
    then show ?thesis using Cons by (cases "wanted r") (auto simp: not_less le_Suc_eq Suc_le_eq)
  qed
qed simp

text \<open>
  The interface of a source of pages: the rows ascend in their cursors, and a page holds the
  first five hundred after a cursor from which the source can be read.
\<close>

locale paged =
  fixes page :: "'s \<Rightarrow> 'c::linorder option \<Rightarrow> 'e + 'r list"
    and cursor :: "'r \<Rightarrow> 'c"
    and rows :: "'s \<Rightarrow> 'r list"
    and ready :: "'s \<Rightarrow> 'c option \<Rightarrow> bool"
  assumes page: "ready s after \<Longrightarrow> page s after = Inr (take 500 (filter (later cursor after) (rows s)))"
    and ascend: "ready s after \<Longrightarrow> rows_by cursor (rows s)"
    and onward: "ready s after \<Longrightarrow> r \<in> set (rows s) \<Longrightarrow> ready s (Some (cursor r))"
begin

lemma after_page:
  assumes "ready s after" "filter (later cursor after) (rows s) = first @ rest" "first \<noteq> []"
  shows "filter (later cursor (Some (cursor (last first)))) (rows s) = rest"
proof -
  let ?last = "last first"
  have sorted: "sorted_wrt (\<lambda>a b. cursor a < cursor b) (rows s)"
    using ascend [OF assms(1)] by (simp add: rows_by_def)
  then have parts: "sorted_wrt (\<lambda>a b. cursor a < cursor b) (first @ rest)"
    unfolding assms(2) [symmetric] by (rule sorted_wrt_filter)
  have "?last \<in> set (filter (later cursor after) (rows s))" unfolding assms(2) using assms(3) by simp
  then have last_later: "later cursor after ?last" by simp
  have "filter (later cursor (Some (cursor ?last))) (rows s)
      = filter (later cursor (Some (cursor ?last))) (filter (later cursor after) (rows s))"
    using last_later by (auto simp: later_def split: option.splits intro!: filter_cong [OF refl])
  also have "\<dots> = filter (later cursor (Some (cursor ?last))) first @ filter (later cursor (Some (cursor ?last))) rest"
    by (simp add: assms(2))
  also have "filter (later cursor (Some (cursor ?last))) first = []"
  proof -
    obtain front where "first = front @ [?last]" using assms(3) by (metis append_butlast_last_id)
    moreover have "sorted_wrt (\<lambda>a b. cursor a < cursor b) first" using parts by (simp add: sorted_wrt_append)
    ultimately have "\<forall>r\<in>set first. cursor r \<le> cursor ?last"
      by (metis Un_iff empty_iff insert_iff less_imp_le list.set(1) list.simps(15) order_refl set_append
          sorted_wrt_append)
    then show ?thesis by (auto simp: filter_empty_conv)
  qed
  also have "filter (later cursor (Some (cursor ?last))) rest = rest"
    using parts assms(3) by (auto simp: sorted_wrt_append filter_id_conv)
  finally show ?thesis by (simp only: append_Nil)
qed

lemma scan:
  assumes "ready s after" "length out < target"
  shows "scan_pages (page s) cursor wanted target after out =
    Some (Inr (out @ take (target - length out) (filter wanted (filter (later cursor after) (rows s)))))"
  using assms
proof (induction "length (filter (later cursor after) (rows s))" arbitrary: after out rule: less_induct)
  case less
  let ?rows = "filter (later cursor after) (rows s)"
  let ?first = "take 500 ?rows" and ?rest = "drop 500 ?rows"
  note page_eq = page [OF less.prems(1)]
  show ?case
  proof (cases "?rows = []")
    case True
    then show ?thesis by (subst scan_pages.simps) (simp add: page_eq)
  next
    case nonempty: False
    let ?out = "out @ take (target - length out) (filter wanted ?first)"
    have collected: "collect_page wanted target out ?first =
        (?out, target \<le> length out + length (filter wanted ?first))"
      by (rule collect_page [OF less.prems(2)])
    have split: "filter wanted ?rows = filter wanted ?first @ filter wanted ?rest"
      by (metis append_take_drop_id filter_append)
    show ?thesis
    proof (cases "target \<le> length out + length (filter wanted ?first) \<or> length ?first < 500")
      case True
      then have "length (filter wanted ?first) \<ge> target - length out \<or> ?rest = []"
        using less.prems(2) by auto
      then have "take (target - length out) (filter wanted ?rows) = take (target - length out) (filter wanted ?first)"
        unfolding split by auto
      with True nonempty show ?thesis
        by (subst scan_pages.simps) (simp add: page_eq collected scan_page_limit_def)
    next
      case False
      have first: "?first \<noteq> []" using nonempty by simp
      have rest: "filter (later cursor (Some (cursor (last ?first)))) (rows s) = ?rest"
        by (rule after_page [OF less.prems(1) _ first]) simp
      have "last ?first \<in> set (rows s)"
        using first last_in_set set_take_subset by (metis (no_types, lifting) filter_is_subset subsetD)
      note ready' = onward [OF less.prems(1) this]
      have shorter: "length ?rest < length ?rows" using nonempty by simp
      have room: "length ?out < target" using False less.prems(2) by (simp add: min_def; linarith)
      have "\<not> target \<le> length out + length (filter wanted ?first)" using False by blast
      then have "length (filter wanted ?first) \<le> target - length out" by arith
      then have "scan_pages (page s) cursor wanted target (Some (cursor (last ?first))) ?out =
          Some (Inr (out @ take (target - length out) (filter wanted ?rows)))"
        using less.hyps [OF shorter [folded rest] ready' room] False unfolding rest split by simp
      with False nonempty show ?thesis
        by (subst scan_pages.simps) (simp add: page_eq collected scan_page_limit_def)
    qed
  qed
qed

end

text \<open>A table, the rows nested under a parent, and the rows with given index values.\<close>

lemma later_at_or_before: "later cursor after r \<longleftrightarrow> \<not> at_or_before after (cursor r)"
  by (simp add: later_def at_or_before_def not_le split: option.split)

lemma table_list_page:
  assumes "implements p T" "plain table"
  shows "projection_list p table after limit =
    take (normalize_limit limit) (filter (later rec_key after) (table_rows T table))"
proof -
  have "filter (\<lambda>r. \<not> at_or_before after (rec_key r)) (table_rows T table)
      = filter (later rec_key after) (table_rows T table)"
    by (rule filter_cong [OF refl]) (simp add: later_at_or_before)
  then show ?thesis
    using projection_list_page [OF assms, of "[]"] by (simp add: projection_list_def)
qed

interpretation table_scan: paged "\<lambda>(p, T, table). key_order_page p table None" rec_key
    "\<lambda>(p, T, table). table_rows T table" "\<lambda>(p, T, table) _. implements p T \<and> plain table"
proof (unfold_locales, goal_cases)
  case (1 s after)
  then show ?case by (cases s) (auto simp: key_order_page_def table_list_page normalize_limit_def)
next
  case (2 s after)
  then show ?case using table_rows_by_key by (cases s) auto
next
  case (3 s after r)
  then show ?case by (cases s) auto
qed

definition nested_rows :: "'n row_table \<Rightarrow> string \<Rightarrow> string \<Rightarrow> 'n db_record list" where
  "nested_rows T table parent = filter (\<lambda>r. nested_under parent (rec_key r)) (table_rows T table)"

definition parent_key_ok :: "string \<Rightarrow> bool" where
  "parent_key_ok parent \<longleftrightarrow> plain parent \<and> CHR '':'' \<notin> set parent \<and> parent \<noteq> []"

lemma nested_list_page:
  assumes "implements p T" "plain table" "parent_key_ok parent"
    and "\<forall>k. after = Some k \<longrightarrow> starts_with k (parent @ '':'')"
  shows "store_list_by_key_prefix p table (parent @ '':'') after limit
    = take (normalize_limit limit) (filter (later rec_key after) (nested_rows T table parent))"
proof -
  have "map_option (logical_after (parent @ '':'')) after = after"
    using assms(4) by (cases after) (simp_all add: logical_after_def)
  moreover have "partition_parent_from_prefix (parent @ '':'') = Some parent"
    using assms(3) by (simp add: parent_key_ok_def partition_parent_from_prefix_def strip_suffix_def ends_with_suffix)
  ultimately show ?thesis
    using assms partition_page [of p T table parent after limit]
    by (simp add: parent_key_ok_def store_list_by_key_prefix_def nested_rows_def later_at_or_before conj_commute)
qed

interpretation nested_scan: paged "\<lambda>(p, T, table, parent). key_order_page p table (Some (parent @ '':''))" rec_key
    "\<lambda>(p, T, table, parent). nested_rows T table parent"
    "\<lambda>(p, T, table, parent) after. implements p T \<and> plain table \<and> parent_key_ok parent
       \<and> (\<forall>k. after = Some k \<longrightarrow> starts_with k (parent @ '':''))"
proof (unfold_locales, goal_cases)
  case (1 s after)
  obtain p T table parent where s: "s = (p, T, table, parent)" by (cases s)
  then show ?case
    using 1 nested_list_page [of p T table parent after "Some 500"]
    by (simp add: key_order_page_def normalize_limit_def)
next
  case (2 s after)
  then show ?case using rows_by_filter [OF table_rows_by_key] by (cases s) (auto simp: nested_rows_def)
next
  case (3 s after r)
  then show ?case by (cases s) (auto simp: nested_rows_def nested_under_def)
qed

definition rows_with_values ::
  "'n row_table \<Rightarrow> string \<Rightarrow> index_schema \<Rightarrow> 'n json list \<Rightarrow> string option \<Rightarrow> 'n db_record list" where
  "rows_with_values T table ix vals scope =
     filter (\<lambda>r. record_matches_index_values r ix vals
       \<and> starts_with (rec_key r) (case scope of None \<Rightarrow> [] | Some pre \<Rightarrow> pre)) (table_rows T table)"

text \<open>What an exact index read needs: the laws of the codecs, a kept index, and values it can encode.\<close>

definition index_readable ::
  "('n, 'z) index_ops_scheme \<Rightarrow> table_indexes \<Rightarrow> 'n projection \<Rightarrow> 'n row_table \<Rightarrow> string \<Rightarrow> string \<Rightarrow>
     index_schema \<Rightarrow> 'n json list \<Rightarrow> bool" where
  "index_readable ops idx p T table name ix vals \<longleftrightarrow>
     number_laws ops \<and> index_laws ops \<and> schema_plain idx \<and> index_inv ops idx p T \<and> plain table
   \<and> bt_get (idx table) name = Some ix \<and> (\<forall>v\<in>set vals. json_wf v)
   \<and> \<not> isl (encode_index_values_component ops vals)"

interpretation index_scan: paged
    "\<lambda>(ops, idx, p, T, table, name, ix, vals, scope) after. map_err (\<lambda>_. InternalError)
       (query_index ops p table name vals scope after (Some 500))" rec_key
    "\<lambda>(ops, idx, p, T, table, name, ix, vals, scope). rows_with_values T table ix vals scope"
    "\<lambda>(ops, idx, p, T, table, name, ix, vals, scope) _. index_readable ops idx p T table name ix vals"
proof (unfold_locales, goal_cases)
  case (1 s after)
  obtain ops idx p T table name ix vals scope where s: "s = (ops, idx, p, T, table, name, ix, vals, scope)"
    by (cases s) auto
  have ok: "index_readable ops idx p T table name ix vals" using 1 by (simp add: s)
  then obtain enc where "encode_index_values_component ops vals = Inr enc"
    by (cases "encode_index_values_component ops vals") (simp_all add: index_readable_def)
  with ok query_index_page [of ops idx p T table name ix vals enc scope after "Some 500"]
  show ?case
    by (simp add: s index_readable_def rows_with_values_def record_matches_index_values_def normalize_limit_def
        later_at_or_before conj_ac)
next
  case (2 s after)
  then show ?case
    by (cases s) (auto simp: rows_with_values_def index_readable_def index_inv_def
        intro: rows_by_filter table_rows_by_key)
next
  case (3 s after r)
  then show ?case by (cases s) auto
qed

text \<open>
  C28. The loop that collects rows in key order ends on every projection that implements a table,
  and its result is the first wanted rows after the key, as many as asked for; so does the loop
  over an exact index.
\<close>

theorem collecting_rows_ends:
  assumes "implements p T" "plain table" "0 < target"
  shows "collect_wanted_key_order_records p table None after wanted target =
      Some (Inr (take target (filter wanted (filter (later rec_key after) (table_rows T table)))))
    \<and> (parent_key_ok parent \<longrightarrow>
        collect_wanted_key_order_records p table (Some (parent @ '':'')) (map_option (\<lambda>k. parent @ '':'' @ k) after_nested)
            wanted target =
          Some (Inr (take target (filter wanted
            (filter (later rec_key (map_option (\<lambda>k. parent @ '':'' @ k) after_nested)) (nested_rows T table parent))))))
    \<and> (index_readable ops idx p T table name ix vals \<longrightarrow>
        collect_matching_exact_index_records ops p table name vals scope after shadow target matches =
          Some (Inr (take target (filter (\<lambda>r. \<not> bt_contains shadow (rec_key r) \<and> matches r)
            (filter (later rec_key after) (rows_with_values T table ix vals scope))))))"
proof (intro conjI impI)
  show "collect_wanted_key_order_records p table None after wanted target =
      Some (Inr (take target (filter wanted (filter (later rec_key after) (table_rows T table)))))"
    using table_scan.scan [of "(p, T, table)" after "[]" target wanted] assms
    by (simp add: collect_wanted_key_order_records_def)
next
  assume "parent_key_ok parent"
  then show "collect_wanted_key_order_records p table (Some (parent @ '':'')) (map_option (\<lambda>k. parent @ '':'' @ k) after_nested)
            wanted target =
          Some (Inr (take target (filter wanted
            (filter (later rec_key (map_option (\<lambda>k. parent @ '':'' @ k) after_nested)) (nested_rows T table parent)))))"
    using nested_scan.scan [of "(p, T, table, parent)" "map_option (\<lambda>k. parent @ '':'' @ k) after_nested" "[]" target wanted]
      assms
    by (auto simp: collect_wanted_key_order_records_def starts_with_prefix prefix_def)
next
  assume "index_readable ops idx p T table name ix vals"
  then show "collect_matching_exact_index_records ops p table name vals scope after shadow target matches =
          Some (Inr (take target (filter (\<lambda>r. \<not> bt_contains shadow (rec_key r) \<and> matches r)
            (filter (later rec_key after) (rows_with_values T table ix vals scope)))))"
    using index_scan.scan [of "(ops, idx, p, T, table, name, ix, vals, scope)" after "[]" target] assms(3)
    by (simp add: collect_matching_exact_index_records_def)
qed

section \<open>Merges\<close>

fun merged :: "'n db_record list \<Rightarrow> 'n db_record list \<Rightarrow> 'n db_record list" where
  "merged (d # ds) (h # hs) =
     (if rec_key d < rec_key h then d # merged ds (h # hs)
      else if rec_key d = rec_key h then h # merged ds hs
      else h # merged (d # ds) hs)"
| "merged ds hs = ds @ hs"

lemma merged_Nil [simp]: "merged ds [] = ds" "merged [] hs = hs"
  by (cases ds; simp)+

declare merge_key_order_loop.simps [simp del] merge_matching_loop.simps [simp del]

lemma merge_key_order_step:
  "limit \<le> length out \<Longrightarrow> merge_key_order_loop limit out disk hot = out"
  "length out < limit \<Longrightarrow> merge_key_order_loop limit out (d # ds) (h # hs) =
     (if rec_key d < rec_key h then merge_key_order_loop limit (out @ [d]) ds (h # hs)
      else if rec_key d = rec_key h then merge_key_order_loop limit (out @ [h]) ds hs
      else merge_key_order_loop limit (out @ [h]) (d # ds) hs)"
  "length out < limit \<Longrightarrow> merge_key_order_loop limit out [] (h # hs) = merge_key_order_loop limit (out @ [h]) [] hs"
  "length out < limit \<Longrightarrow> merge_key_order_loop limit out (d # ds) [] = merge_key_order_loop limit (out @ [d]) ds []"
  "merge_key_order_loop limit out [] [] = out"
  by (subst merge_key_order_loop.simps; simp add: cmp_of_def)+

lemma merge_key_order_rest:
  "length out \<le> limit \<Longrightarrow> merge_key_order_loop limit out ds [] = take limit (out @ ds)"
  "length out \<le> limit \<Longrightarrow> merge_key_order_loop limit out [] ds = take limit (out @ ds)"
  by (induction ds arbitrary: out;
      cases "limit \<le> length out"; simp add: merge_key_order_step not_le take_Cons')+

lemma merge_key_order_loop:
  "length out \<le> limit \<Longrightarrow> merge_key_order_loop limit out disk hot = take limit (out @ merged disk hot)"
proof (induction disk hot arbitrary: out rule: merged.induct)
  case (1 d ds h hs)
  then show ?case
    by (cases "limit \<le> length out") (simp_all add: merge_key_order_step not_le take_Cons')
qed (simp_all add: merge_key_order_rest)

lemma merge_matching_step:
  fixes cmp matches limit
  defines "loop \<equiv> merge_matching_loop (\<lambda>d h. cmp_of (rec_key d) (rec_key h)) True matches limit"
    and "keep \<equiv> \<lambda>out r. if matches r then out @ [r] else out"
  shows "limit < length out \<Longrightarrow> loop out disk hot = out"
    and "length out \<le> limit \<Longrightarrow> loop out (d # ds) (h # hs) =
     (if rec_key d < rec_key h then loop (keep out d) ds (h # hs)
      else if rec_key d = rec_key h then loop (keep out h) ds hs
      else loop (keep out h) (d # ds) hs)"
    and "length out \<le> limit \<Longrightarrow> loop out [] (h # hs) = loop (keep out h) [] hs"
    and "length out \<le> limit \<Longrightarrow> loop out (d # ds) [] = loop (keep out d) ds []"
    and "loop out [] [] = out"
  unfolding loop_def keep_def
  by (subst merge_matching_loop.simps; simp add: cmp_of_def)+

lemma merge_matching_rest:
  fixes limit matches
  defines "loop \<equiv> merge_matching_loop (\<lambda>d h. cmp_of (rec_key d) (rec_key h)) True matches limit"
  shows "length out \<le> Suc limit \<Longrightarrow> loop out ds [] = take (Suc limit) (out @ filter matches ds)"
    and "length out \<le> Suc limit \<Longrightarrow> loop out [] ds = take (Suc limit) (out @ filter matches ds)"
  unfolding loop_def
  by (induction ds arbitrary: out;
      cases "limit < length out"; auto simp: merge_matching_step Suc_diff_le not_less take_Cons')+

lemma merge_matching_loop:
  assumes "length out \<le> Suc limit"
  shows "merge_matching_loop (\<lambda>d h. cmp_of (rec_key d) (rec_key h)) True matches limit out disk hot
    = take (Suc limit) (out @ filter matches (merged disk hot))"
  using assms
proof (induction disk hot arbitrary: out rule: merged.induct)
  case (1 d ds h hs)
  then show ?case
    by (cases "limit < length out") (auto simp: merge_matching_step Suc_diff_le not_less take_Cons')
qed (simp_all add: merge_matching_rest)

lemma set_merged:
  assumes "rows_by rec_key disk" "rows_by rec_key hot"
  shows "set (merged disk hot) = set hot \<union> {d \<in> set disk. rec_key d \<notin> rec_key ` set hot}"
  using assms
  by (induction disk hot rule: merged.induct) (auto simp: rows_by_def)

lemma merged_ascend:
  assumes "rows_by rec_key disk" "rows_by rec_key hot"
  shows "rows_by rec_key (merged disk hot)"
  using assms
proof (induction disk hot rule: merged.induct)
  case (1 d ds h hs)
  then show ?case
    using set_merged [of ds "h # hs"] set_merged [of ds hs] set_merged [of "d # ds" hs]
    by (auto simp: rows_by_def)
qed (simp_all add: rows_by_def)

end
