(* ===== verification/Record_List.thy ===== *)
theory Record_List
  imports Record_Scan Record_Flow
begin

text \<open>
  The list and index queries: rows of a table, or of a nested table below a parent, in key order,
  in schema order or by index, as the page of the live rows after a key or cursor. A query reads
  the hot cache, scans the projection, merges both and puts the rows it returns into the cache.
\<close>

section \<open>Searches\<close>

text \<open>A search is a handler whose scans may not end.\<close>

type_synonym ('n, 's, 'g, 'a) search =
  "('n, 's, 'g) server \<Rightarrow> ((api_error + 'a) \<times> ('n, 's, 'g) server) option"

definition se_do :: "('n, 's, 'g, 'a) handler \<Rightarrow> ('n, 's, 'g, 'a) search" where
  "se_do m sv = Some (m sv)"

definition se_bind ::
  "('n, 's, 'g, 'a) search \<Rightarrow> ('a \<Rightarrow> ('n, 's, 'g, 'b) search) \<Rightarrow> ('n, 's, 'g, 'b) search" where
  "se_bind m k sv =
     (case m sv of
        None \<Rightarrow> None
      | Some (Inl e, sv') \<Rightarrow> Some (Inl e, sv')
      | Some (Inr x, sv') \<Rightarrow> k x sv')"

definition se_scan ::
  "(('n, 's, 'g) server \<Rightarrow> (api_error + 'a) option) \<Rightarrow> ('n, 's, 'g, 'a) search" where
  "se_scan f sv = map_option (\<lambda>r. (r, sv)) (f sv)"

definition se_get :: "(('n, 's, 'g) server \<Rightarrow> ('n, 's, 'g, 'a) search) \<Rightarrow> ('n, 's, 'g, 'a) search" where
  "se_get f sv = f sv sv"

definition se_lift :: "api_error + 'a \<Rightarrow> ('n, 's, 'g, 'a) search" where
  "se_lift r = se_do (sv_lift r)"

named_theorems search_rules

lemma search_simps [simp, search_rules]:
  "se_do m sv = Some (m sv)"
  "se_lift r sv = Some (r, sv)"
  "se_get f sv = f sv sv"
  by (simp_all add: se_do_def se_lift_def se_get_def)

lemma se_bind_simps [simp, search_rules]:
  "m sv = Some (Inl e, sv') \<Longrightarrow> se_bind m k sv = Some (Inl e, sv')"
  "m sv = Some (Inr x, sv') \<Longrightarrow> se_bind m k sv = k x sv'"
  by (simp_all add: se_bind_def)

lemma se_bind_lift [simp, search_rules]:
  "se_bind (se_lift (Inr x)) k sv = k x sv" "se_bind (se_lift (Inl e)) k sv = Some (Inl e, sv)"
  by (simp_all add: se_bind_def)

lemma se_scan_Some [simp, search_rules]: "f sv = Some r \<Longrightarrow> se_scan f sv = Some (r, sv)"
  by (simp add: se_scan_def)

section \<open>Queries\<close>

text \<open>The clock, the shards and serde_json, as a query sees them.\<close>

record 'n query_env =
  qe_now :: u64
  qe_shard_count :: nat
  qe_wal_shards :: nat
  qe_sha256 :: "bytes \<Rightarrow> bytes"
  qe_json_from_str :: "string \<Rightarrow> 'n json option"

record 'n list_query =
  lq_after_key :: "string option"
  lq_after_cursor :: "string option"
  lq_limit :: "nat option"
  lq_order :: "string option"
  lq_shard :: "nat option"
  lq_predicate :: "'n record_predicate option"

record 'n index_query =
  iq_value :: "string option"
  iq_values :: "string option"
  iq_lower :: "string option"
  iq_upper :: "string option"
  iq_lower_values :: "string option"
  iq_upper_values :: "string option"
  iq_after_key :: "string option"
  iq_after_cursor :: "string option"
  iq_limit :: "nat option"
  iq_shard :: "nat option"
  iq_predicate :: "'n record_predicate option"

record 'n list_response =
  lr_table :: string
  lr_records :: "'n db_record list"
  lr_next_after_key :: "string option"
  lr_next_cursor :: "string option"
  lr_has_more :: bool

definition is_range_query :: "'n index_query \<Rightarrow> bool" where
  "is_range_query q \<longleftrightarrow>
     iq_lower q \<noteq> None \<or> iq_upper q \<noteq> None \<or> iq_lower_values q \<noteq> None \<or> iq_upper_values q \<noteq> None
   \<or> iq_after_cursor q \<noteq> None"

text \<open>Index values are text: a scalar in JSON, or else the text itself.\<close>

definition parse_index_value :: "'n query_env \<Rightarrow> string \<Rightarrow> 'n json" where
  "parse_index_value env text =
     (case qe_json_from_str env text of
        Some v \<Rightarrow> if is_scalar v then v else JString text
      | None \<Rightarrow> JString text)"

definition parse_json_list :: "'n query_env \<Rightarrow> string \<Rightarrow> 'n json list option" where
  "parse_json_list env text =
     (case qe_json_from_str env text of Some (JArray vs) \<Rightarrow> Some vs | _ \<Rightarrow> None)"

definition parse_optional_index_values ::
  "'n query_env \<Rightarrow> string option \<Rightarrow> string option \<Rightarrow> api_error + 'n json list option" where
  "parse_optional_index_values env value_text values_text =
     (case values_text of
        Some text \<Rightarrow>
          (case parse_json_list env text of
             None \<Rightarrow> Inl (BadRequest ''invalid values JSON'') | Some vs \<Rightarrow> Inr (Some vs))
      | None \<Rightarrow> Inr (map_option (\<lambda>text. [parse_index_value env text]) value_text))"

definition parse_index_query_values ::
  "'n query_env \<Rightarrow> 'n index_query \<Rightarrow> index_schema \<Rightarrow> api_error + 'n json list" where
  "parse_index_query_values env q ix =
     res_bind
       (case iq_values q of
          Some text \<Rightarrow>
            (case parse_json_list env text of
               None \<Rightarrow> Inl (BadRequest ''invalid values JSON'') | Some vs \<Rightarrow> Inr vs)
        | None \<Rightarrow>
            (case iq_value q of
               Some text \<Rightarrow> Inr [parse_index_value env text]
             | None \<Rightarrow> Inl (BadRequest ''value or values is required''))) (\<lambda>vs.
       if length vs \<noteq> length (ixs_fields ix)
       then Inl (BadRequest (''index requires '' @ decimal (length (ixs_fields ix)) @ '' value(s), got '' @
              decimal (length vs)))
       else if \<not> list_all is_scalar vs then Inl (BadRequest ''index query values must be scalar'')
       else Inr vs)"

definition parse_index_bound_values ::
  "'n query_env \<Rightarrow> string option \<Rightarrow> string option \<Rightarrow> index_schema \<Rightarrow> api_error + 'n json list option" where
  "parse_index_bound_values env value_text values_text ix =
     res_bind (parse_optional_index_values env value_text values_text) (\<lambda>parsed.
       case parsed of
         None \<Rightarrow> Inr None
       | Some vs \<Rightarrow>
           if length vs \<noteq> length (ixs_fields ix)
           then Inl (BadRequest (''index range bound requires '' @ decimal (length (ixs_fields ix)) @
                  '' value(s), got '' @ decimal (length vs)))
           else if \<not> list_all is_scalar vs then Inl (BadRequest ''index range values must be scalar'')
           else Inr (Some vs))"

definition record_matches_shard :: "'n query_env \<Rightarrow> 'n db_record \<Rightarrow> nat option \<Rightarrow> bool" where
  "record_matches_shard env r shard \<longleftrightarrow>
     (case shard of
        None \<Rightarrow> True
      | Some i \<Rightarrow>
          shard_index (qe_sha256 env) (rec_table r @ '':'' @ rec_key r) (qe_shard_count env) = i)"

definition ensure_shard_index :: "'n query_env \<Rightarrow> nat \<Rightarrow> api_error + unit" where
  "ensure_shard_index env shard =
     (if qe_wal_shards env \<le> shard then Inl (BadRequest ''shard is out of range'') else Inr ())"

definition nested_schema_order :: "database_schema \<Rightarrow> string \<Rightarrow> string \<Rightarrow> api_error + order_term list" where
  "nested_schema_order s table nested =
     (case nested_schema s table nested of
        None \<Rightarrow> Inl (BadRequest ''nested table not found'')
      | Some n \<Rightarrow>
          (case nts_storage n of
             ChatLog _ order _ \<Rightarrow>
               res_bind (map_err (\<lambda>e. BadRequest (index_error_text e)) (parse_record_order_terms order)) (\<lambda>terms.
                 if terms = [] then Inl (BadRequest ''nested table schema order is empty'') else Inr terms)
           | _ \<Rightarrow> Inl (BadRequest ''nested table does not define schema order'')))"

section \<open>Rows in key order\<close>

definition collect_hot_key_order_overlay ::
  "u64 \<Rightarrow> string \<Rightarrow> string option \<Rightarrow> string option \<Rightarrow> ('n, 's, 'g, 'n key_order_overlay) handler" where
  "collect_hot_key_order_overlay now table scope after_key =
     sv_bind (hot_call (cache_scan_overlay now table scope after_key)) (\<lambda>overlay.
       sv_return (case overlay of
         None \<Rightarrow> \<lparr>ov_records = [], ov_shadow_keys = bt_empty\<rparr> | Some o' \<Rightarrow> o'))"

definition windowed_rows ::
  "u64 \<Rightarrow> string \<Rightarrow> string option \<Rightarrow> string option \<Rightarrow> nat \<Rightarrow> ('n, 's, 'g, 'n db_record list) search" where
  "windowed_rows now table scope after_key limit =
     se_bind (se_do (collect_hot_key_order_overlay now table scope after_key)) (\<lambda>overlay.
     se_bind (se_scan (\<lambda>sv. collect_matching_key_order_records (sv_disk sv) table scope after_key
         (ov_shadow_keys overlay) limit)) (\<lambda>disk.
       se_lift (Inr (merge_key_order_records disk (ov_records overlay) limit))))"

definition list_records_from_live_or_disk ::
  "u64 \<Rightarrow> string \<Rightarrow> string option \<Rightarrow> nat \<Rightarrow> ('n, 's, 'g, 'n db_record list) search" where
  "list_records_from_live_or_disk now table after_key limit =
     se_get (\<lambda>sv.
       if is_windowed_table (sv_hot sv) table then windowed_rows now table None after_key limit
       else se_bind (se_do (hot_call (cache_list now table after_key (Some limit)))) (\<lambda>hot. se_get (\<lambda>sv.
         se_lift (Inr (case hot of
           Some rows \<Rightarrow> rows | None \<Rightarrow> projection_list (sv_disk sv) table after_key (Some limit))))))"

definition list_records_by_prefix_from_live_or_disk ::
  "u64 \<Rightarrow> string \<Rightarrow> string \<Rightarrow> string option \<Rightarrow> nat \<Rightarrow> ('n, 's, 'g, 'n db_record list) search" where
  "list_records_by_prefix_from_live_or_disk now table scope after_key limit =
     se_get (\<lambda>sv.
       if is_windowed_table (sv_hot sv) table then windowed_rows now table (Some scope) after_key limit
       else se_bind (se_do (hot_call (cache_list_by_key_prefix now table scope after_key (Some limit)))) (\<lambda>hot.
         se_get (\<lambda>sv.
         se_lift (Inr (case hot of
           Some rows \<Rightarrow> rows
         | None \<Rightarrow> store_list_by_key_prefix (sv_disk sv) table scope after_key (Some limit))))))"

definition split_matching_hot_overlay ::
  "'n key_order_overlay \<Rightarrow> ('n db_record \<Rightarrow> bool) \<Rightarrow> 'n db_record list \<times> string bset" where
  "split_matching_hot_overlay overlay matches = (filter matches (ov_records overlay), ov_shadow_keys overlay)"

definition record_list_response ::
  "u64 \<Rightarrow> string \<Rightarrow> 'n db_record list \<Rightarrow> string option \<Rightarrow> string option \<Rightarrow> bool \<Rightarrow>
     ('n, 's, 'g, 'n list_response) search" where
  "record_list_response now table rows next_after_key next_cursor has_more =
     se_bind (se_do (sv_modify (\<lambda>sv. sv\<lparr>sv_hot := hydrate_durable_many now rows (sv_hot sv)\<rparr>))) (\<lambda>_.
       se_lift (Inr
         \<lparr>lr_table = table, lr_records = rows, lr_next_after_key = next_after_key,
          lr_next_cursor = next_cursor, lr_has_more = has_more\<rparr>))"

text \<open>A query with a predicate, in key order, over a table or below a parent.\<close>

definition matching_rows ::
  "u64 \<Rightarrow> string \<Rightarrow> string option \<Rightarrow> string option \<Rightarrow> ('n db_record \<Rightarrow> bool) \<Rightarrow> nat \<Rightarrow>
     ('n, 's, 'g, 'n db_record list \<times> bool) search" where
  "matching_rows now table scope after_key matches limit =
     se_bind (se_do (collect_hot_key_order_overlay now table scope after_key)) (\<lambda>overlay.
       let (hot, hot_keys) = split_matching_hot_overlay overlay matches in
       se_bind (se_scan (\<lambda>sv. collect_wanted_key_order_records (sv_disk sv) table scope after_key
           (\<lambda>r. \<not> bt_contains hot_keys (rec_key r) \<and> matches r) (predicate_scan_target limit))) (\<lambda>disk.
         se_lift (Inr
           (merge_key_order_records_matching_with_shadow_keys disk hot hot_keys limit (\<lambda>_. True)))))"

section \<open>Rows in schema order\<close>

definition collect_hot_ordered_records ::
  "('n, 'z) index_ops_scheme \<Rightarrow> u64 \<Rightarrow> string \<Rightarrow> string \<Rightarrow> order_term list \<Rightarrow> string option \<Rightarrow>
     ('n, 's, 'g, ('n db_record \<times> string) list \<times> string bset) handler" where
  "collect_hot_ordered_records ops now table scope order after_cursor =
     sv_bind (collect_hot_key_order_overlay now table (Some scope) None) (\<lambda>overlay.
       let rows = map (\<lambda>r. (r, order_record_cursor ops r order)) (ov_records overlay);
           after = filter (\<lambda>(_, cursor). \<not> at_or_before after_cursor cursor) rows
       in sv_return (sort_by (\<lambda>l r. cmp_of (snd l) (snd r)) after, ov_shadow_keys overlay))"

definition ordered_rows ::
  "('n, 'z) index_ops_scheme \<Rightarrow> u64 \<Rightarrow> string \<Rightarrow> string \<Rightarrow> string \<Rightarrow> order_term list \<Rightarrow> 'n list_query \<Rightarrow>
     nat \<Rightarrow> ('n, 's, 'g, ('n db_record \<times> string) list \<times> bool) search" where
  "ordered_rows ops now table parent_key scope order q limit =
     se_bind (se_do (collect_hot_ordered_records ops now table scope order (lq_after_cursor q))) (\<lambda>(hot, hot_keys).
       case lq_predicate q of
         Some terms \<Rightarrow>
           let matches = (\<lambda>r. record_matches_predicate ops r (Some terms));
               hot = split_matching_ordered_hot_records hot matches in
           se_bind (se_scan (\<lambda>sv. collect_wanted_ordered_records (sv_disk sv) table scope order
               (map_option (nested_record_key parent_key) (lq_after_key q)) (lq_after_cursor q)
               (\<lambda>r. \<not> bt_contains hot_keys (rec_key r) \<and> matches r) (predicate_scan_target limit))) (\<lambda>disk.
             se_lift (Inr (merge_ordered_records_matching_with_shadow_keys disk hot hot_keys limit (\<lambda>_. True))))
       | None \<Rightarrow>
           se_get (\<lambda>sv.
           se_bind (se_lift (map_err (\<lambda>_. InternalError)
               (list_by_key_prefix_ordered (sv_disk sv) table scope order (lq_after_key q) (lq_after_cursor q)
                 (Some (disk_window_for_hot_overlay limit (bt_len hot_keys)))))) (\<lambda>disk.
             se_lift (Inr (merge_ordered_records_matching_with_shadow_keys disk hot hot_keys limit (\<lambda>_. True))))))"

section \<open>The list query\<close>

definition next_nested_key :: "string \<Rightarrow> 'n db_record list \<Rightarrow> string option" where
  "next_nested_key parent_key rows =
     Option.bind (last_of rows) (\<lambda>r. nested_key_from_logical_key parent_key (rec_key r))"

definition next_key :: "'n db_record list \<Rightarrow> string option" where
  "next_key rows = map_option rec_key (last_of rows)"

definition check_predicate :: "'n record_predicate option \<Rightarrow> api_error + unit" where
  "check_predicate predicate =
     (case predicate of None \<Rightarrow> Inr () | Some terms \<Rightarrow> validate_record_predicate terms)"

definition execute_nested_list_query ::
  "('n, 'z) index_ops_scheme \<Rightarrow> 'n query_env \<Rightarrow> string \<Rightarrow> string \<Rightarrow> string \<Rightarrow> 'n list_query \<Rightarrow>
     ('n, 's, 'g, 'n list_response) search" where
  "execute_nested_list_query ops env table parent_key nested q =
     se_get (\<lambda>sv.
     se_bind (se_lift (validate_nested_table_path (sv_schema sv) table parent_key nested)) (\<lambda>_.
       let logical = nested_record_table table nested;
           scope = nested_record_prefix parent_key;
           limit = normalize_limit (lq_limit q);
           after_key = map_option (nested_record_key parent_key) (lq_after_key q) in
       if lq_order q = Some ''schema'' then
         se_bind (se_lift (nested_schema_order (sv_schema sv) table nested)) (\<lambda>order.
         se_bind (ordered_rows ops (qe_now env) logical parent_key scope order q limit) (\<lambda>(rows, has_more).
           record_list_response (qe_now env) logical (map fst rows) (next_nested_key parent_key (map fst rows))
             (map_option snd (last_of rows)) has_more))
       else case lq_predicate q of
         Some terms \<Rightarrow>
           se_bind (matching_rows (qe_now env) logical (Some scope) after_key
               (\<lambda>r. record_matches_predicate ops r (Some terms)) limit) (\<lambda>(rows, has_more).
             record_list_response (qe_now env) logical rows (next_nested_key parent_key rows) None has_more)
       | None \<Rightarrow>
           se_bind (list_records_by_prefix_from_live_or_disk (qe_now env) logical scope after_key (limit + 1))
             (\<lambda>rows.
               let (shown, has_more) = with_more limit rows in
               record_list_response (qe_now env) logical shown (next_nested_key parent_key shown) None has_more)))"

definition execute_table_list_query ::
  "('n, 'z) index_ops_scheme \<Rightarrow> 'n query_env \<Rightarrow> string \<Rightarrow> 'n list_query \<Rightarrow>
     ('n, 's, 'g, 'n list_response) search" where
  "execute_table_list_query ops env table q =
     se_get (\<lambda>sv.
     se_bind (se_lift (validate_table_path (sv_schema sv) table)) (\<lambda>_.
     let limit = normalize_limit (lq_limit q) in
     se_bind (se_lift (case lq_shard q of None \<Rightarrow> Inr () | Some i \<Rightarrow> ensure_shard_index env i)) (\<lambda>_.
       if lq_predicate q \<noteq> None \<or> lq_shard q \<noteq> None then
         se_bind (matching_rows (qe_now env) table None (lq_after_key q)
             (\<lambda>r. record_matches_shard env r (lq_shard q) \<and> record_matches_predicate ops r (lq_predicate q)) limit)
           (\<lambda>(rows, has_more). record_list_response (qe_now env) table rows (next_key rows) None has_more)
       else
         se_bind (list_records_from_live_or_disk (qe_now env) table (lq_after_key q) (limit + 1)) (\<lambda>rows.
           let (shown, has_more) = with_more limit rows in
           record_list_response (qe_now env) table shown (next_key shown) None has_more))))"

definition execute_record_list_query ::
  "('n, 'z) index_ops_scheme \<Rightarrow> 'n query_env \<Rightarrow> string \<Rightarrow> string option \<Rightarrow> string option \<Rightarrow> 'n list_query \<Rightarrow>
     ('n, 's, 'g, 'n list_response) search" where
  "execute_record_list_query ops env table parent_key nested q =
     se_bind (se_lift (check_predicate (lq_predicate q))) (\<lambda>_.
       case nested of
         Some n \<Rightarrow>
           (case parent_key of
              None \<Rightarrow> se_lift (Inl (BadRequest ''parentKey is required''))
            | Some pk \<Rightarrow> execute_nested_list_query ops env table pk n q)
       | None \<Rightarrow> execute_table_list_query ops env table q)"

section \<open>Rows by index\<close>

definition collect_hot_index_value_records ::
  "u64 \<Rightarrow> string \<Rightarrow> string option \<Rightarrow> string option \<Rightarrow> index_schema \<Rightarrow> 'n json list \<Rightarrow>
     ('n, 's, 'g, 'n db_record list \<times> string bset) handler" where
  "collect_hot_index_value_records now table scope after_key ix vals =
     sv_bind (collect_hot_key_order_overlay now table scope after_key) (\<lambda>overlay.
       sv_return (split_matching_hot_overlay overlay (\<lambda>r. record_matches_index_values r ix vals)))"

definition exact_index_rows ::
  "('n, 'z) index_ops_scheme \<Rightarrow> u64 \<Rightarrow> string \<Rightarrow> string \<Rightarrow> string option \<Rightarrow> string option \<Rightarrow> index_schema \<Rightarrow>
     'n json list \<Rightarrow> ('n db_record \<Rightarrow> bool) \<Rightarrow> nat \<Rightarrow> ('n, 's, 'g, 'n db_record list \<times> bool) search" where
  "exact_index_rows ops now table name scope after_key ix vals matches limit =
     se_bind (se_do (collect_hot_index_value_records now table scope after_key ix vals)) (\<lambda>(hot, hot_keys).
     se_bind (se_scan (\<lambda>sv. collect_matching_exact_index_records ops (sv_disk sv) table name vals scope after_key
         hot_keys (predicate_scan_target limit) matches)) (\<lambda>disk.
       se_lift (Inr (merge_key_order_records_matching_with_shadow_keys disk hot hot_keys limit matches))))"

definition hot_range_entries ::
  "('n, 'z) index_ops_scheme \<Rightarrow> index_schema \<Rightarrow> 'n json list option \<Rightarrow> 'n json list option \<Rightarrow>
     ('n json list \<times> string) option \<Rightarrow> ('n db_record \<Rightarrow> bool) \<Rightarrow> 'n db_record list \<Rightarrow>
     api_error + 'n range_entry list" where
  "hot_range_entries ops ix lower upper after matches rows =
     map_res (\<lambda>(vals, r). res_bind (map_err (\<lambda>_. InternalError) (index_range_cursor ops vals (rec_key r)))
         (\<lambda>cursor. Inr (vals, rec_key r, cursor, r)))
       (filter (\<lambda>(vals, r). index_values_in_range ops vals lower upper
            \<and> index_values_after_cursor ops vals (rec_key r) after \<and> matches r)
         (List.map_filter (\<lambda>r. case record_index_values r ix of Inl _ \<Rightarrow> None | Inr vals \<Rightarrow> Some (vals, r)) rows))"

definition collect_hot_index_range_overlay ::
  "('n, 'z) index_ops_scheme \<Rightarrow> u64 \<Rightarrow> string \<Rightarrow> string option \<Rightarrow> 'n json list option \<Rightarrow> 'n json list option \<Rightarrow>
     ('n json list \<times> string) option \<Rightarrow> index_schema \<Rightarrow> ('n db_record \<Rightarrow> bool) \<Rightarrow>
     ('n, 's, 'g, string bset \<times> 'n range_entry list) handler" where
  "collect_hot_index_range_overlay ops now table scope lower upper after ix matches =
     sv_bind (collect_hot_key_order_overlay now table scope None) (\<lambda>overlay.
     sv_bind (sv_lift (hot_range_entries ops ix lower upper after matches (ov_records overlay))) (\<lambda>entries.
       sv_return (ov_shadow_keys overlay, entries)))"

text \<open>Without a predicate the closure accepts every row.\<close>

definition list_matching_index_range_from_live_or_disk ::
  "('n, 'z) index_ops_scheme \<Rightarrow> u64 \<Rightarrow> string \<Rightarrow> string \<Rightarrow> string option \<Rightarrow> 'n json list option \<Rightarrow>
     'n json list option \<Rightarrow> string option \<Rightarrow> index_schema \<Rightarrow> nat \<Rightarrow> ('n db_record \<Rightarrow> bool) \<Rightarrow>
     ('n, 's, 'g, 'n db_record list \<times> string option \<times> bool) search" where
  "list_matching_index_range_from_live_or_disk ops now table name scope lower upper after_cursor ix limit matches =
     se_bind (se_lift (map_err (\<lambda>_. InternalError)
         (map_res_option (parse_index_range_cursor ops) after_cursor))) (\<lambda>after.
     se_bind (se_do (collect_hot_index_range_overlay ops now table scope lower upper after ix matches))
       (\<lambda>(hot_keys, entries).
       let disk_after = Option.bind after (\<lambda>(vals, key).
             case index_range_cursor ops vals key of Inl _ \<Rightarrow> None | Inr cursor \<Rightarrow> Some cursor) in
       se_bind (se_scan (\<lambda>sv. collect_matching_index_range_records ops (sv_disk sv) table name lower upper scope
           disk_after hot_keys (predicate_scan_target limit) matches)) (\<lambda>disk.
         se_lift (merge_index_range_records_with_hot_entries ops disk hot_keys entries ix limit (\<lambda>_. True)))))"

definition list_index_range_from_live_or_disk ::
  "('n, 'z) index_ops_scheme \<Rightarrow> u64 \<Rightarrow> string \<Rightarrow> string \<Rightarrow> string option \<Rightarrow> 'n json list option \<Rightarrow>
     'n json list option \<Rightarrow> string option \<Rightarrow> index_schema \<Rightarrow> nat \<Rightarrow>
     ('n, 's, 'g, 'n db_record list \<times> string option \<times> bool) search" where
  "list_index_range_from_live_or_disk ops now table name scope lower upper after_cursor ix limit =
     list_matching_index_range_from_live_or_disk ops now table name scope lower upper after_cursor ix limit
       (\<lambda>_. True)"

section \<open>The index query\<close>

definition index_rows ::
  "('n, 'z) index_ops_scheme \<Rightarrow> 'n query_env \<Rightarrow> string \<Rightarrow> string \<Rightarrow> string option \<Rightarrow> string option \<Rightarrow>
     index_schema \<Rightarrow> 'n index_query \<Rightarrow> ('n db_record \<Rightarrow> bool) \<Rightarrow> nat \<Rightarrow>
     ('n, 's, 'g, 'n db_record list \<times> string option \<times> bool) search" where
  "index_rows ops env table name scope after_key ix q matches limit =
     (if is_range_query q then
        se_bind (se_lift (parse_index_bound_values env (iq_lower q) (iq_lower_values q) ix)) (\<lambda>lower.
        se_bind (se_lift (parse_index_bound_values env (iq_upper q) (iq_upper_values q) ix)) (\<lambda>upper.
          list_matching_index_range_from_live_or_disk ops (qe_now env) table name scope lower upper
            (iq_after_cursor q) ix limit matches))
      else
        se_bind (se_lift (parse_index_query_values env q ix)) (\<lambda>vals.
        se_bind (exact_index_rows ops (qe_now env) table name scope after_key ix vals matches limit)
          (\<lambda>(rows, has_more). se_lift (Inr (rows, None, has_more)))))"

definition execute_record_index_query ::
  "('n, 'z) index_ops_scheme \<Rightarrow> 'n query_env \<Rightarrow> string \<Rightarrow> string option \<Rightarrow> string option \<Rightarrow> string \<Rightarrow>
     'n index_query \<Rightarrow> ('n, 's, 'g, 'n list_response) search" where
  "execute_record_index_query ops env table parent_key nested name q =
     se_bind (se_lift (check_predicate (iq_predicate q))) (\<lambda>_. se_get (\<lambda>sv.
     let named = (if ensure_safe_record_component name then Inr () else Inl (BadRequest ''invalid index name''));
         limit = normalize_limit (iq_limit q) in
     case nested of
       Some n \<Rightarrow>
         (case parent_key of
            None \<Rightarrow> se_lift (Inl (BadRequest ''parentKey is required''))
          | Some pk \<Rightarrow>
              se_bind (se_lift (validate_nested_table_path (sv_schema sv) table pk n)) (\<lambda>_.
              se_bind (se_lift named) (\<lambda>_.
              se_bind (se_lift (map_err BadRequest (schema_nested_table_indexes (sv_schema sv) table n))) (\<lambda>indexes.
                case bt_get indexes name of
                  None \<Rightarrow> se_lift (Inl (NotFound ''nested index not found''))
                | Some ix \<Rightarrow>
                    se_bind (index_rows ops env (nested_record_table table n) name (Some (nested_record_prefix pk))
                        (map_option (nested_record_key pk) (iq_after_key q)) ix q
                        (\<lambda>r. record_matches_predicate ops r (iq_predicate q)) limit) (\<lambda>(rows, next_cursor, has_more).
                      record_list_response (qe_now env) (nested_record_table table n) rows
                        (next_nested_key pk rows) next_cursor has_more)))))
     | None \<Rightarrow>
         se_bind (se_lift (validate_table_path (sv_schema sv) table)) (\<lambda>_.
         se_bind (se_lift named) (\<lambda>_.
         se_bind (se_lift (map_err BadRequest (schema_table_indexes (sv_schema sv) table))) (\<lambda>indexes.
           case bt_get indexes name of
             None \<Rightarrow> se_lift (Inl (NotFound ''index not found''))
           | Some ix \<Rightarrow>
               se_bind (se_lift (case iq_shard q of None \<Rightarrow> Inr () | Some i \<Rightarrow> ensure_shard_index env i)) (\<lambda>_.
               se_bind (index_rows ops env table name None (iq_after_key q) ix q
                   (\<lambda>r. record_matches_shard env r (iq_shard q) \<and> record_matches_predicate ops r (iq_predicate q))
                   limit) (\<lambda>(rows, next_cursor, has_more).
                 record_list_response (qe_now env) table rows (next_key rows) next_cursor has_more)))))))"

section \<open>The live rows of a table\<close>

text \<open>
  What a reader should see: the hot rows, below them the rows of the projection except those
  whose deletion has not reached it yet.
\<close>

definition live_table :: "'n hot_table \<Rightarrow> 'n row_table \<Rightarrow> string \<Rightarrow> (string, 'n db_record) btree" where
  "live_table t T table =
     bt_extend (bt_entries (ht_records t))
       (bt_retain (\<lambda>k _. \<not> bt_contains (ht_durable_delete_tombstones t) k)
         (bt_collect (map (\<lambda>r. (rec_key r, r)) (table_rows T table))))"

definition swept_table :: "u64 \<Rightarrow> string \<Rightarrow> 'n hot_state \<Rightarrow> 'n hot_table option" where
  "swept_table now table h = bt_get (hs_tables (snd (evict_idle_durable_records now h))) table"

definition live_rows :: "u64 \<Rightarrow> ('n, 's, 'g) server \<Rightarrow> 'n row_table \<Rightarrow> string \<Rightarrow> 'n db_record list" where
  "live_rows now sv T table =
     (case swept_table now table (sv_hot sv) of
        None \<Rightarrow> table_rows T table | Some t \<Rightarrow> bt_values (live_table t T table))"

lemma option_ext: "(\<And>r. a = Some r \<longleftrightarrow> b = Some r) \<Longrightarrow> a = b"
  by (cases a; cases b) auto

lemma bt_get_live:
  assumes "implements p T"
  shows "bt_get (live_table t T table) k =
    (case bt_get (ht_records t) k of
       Some r \<Rightarrow> Some r
     | None \<Rightarrow> if bt_contains (ht_durable_delete_tombstones t) k then None else bt_get T (table, k))"
proof -
  let ?rows = "map (\<lambda>r. (rec_key r, r)) (table_rows T table)"
  have "sorted_wrt (<) (map rec_key (table_rows T table))"
    using table_rows_by_key [OF assms] by (simp add: rows_by_def sorted_wrt_map)
  then have distinct: "distinct (map fst ?rows)" by (simp add: comp_def strict_sorted_iff)
  have "map_of ?rows k = Some r \<longleftrightarrow> bt_get T (table, k) = Some r" for r
  proof -
    have "(k, r) \<in> set ?rows \<longleftrightarrow> r \<in> set (table_rows T table) \<and> rec_key r = k" by auto
    then show ?thesis
      unfolding map_of_eq_Some_iff [OF distinct]
      by (auto simp: table_rows_iff [OF assms] dest: implements_row [OF assms])
  qed
  then have "map_of ?rows k = bt_get T (table, k)" by (rule option_ext)
  then have rows: "bt_get (bt_collect ?rows) k = bt_get T (table, k)"
    by (simp only: bt_get_collect map_of_rev_distinct [OF distinct])
  have "map_of (rev (bt_entries (ht_records t))) k = bt_get (ht_records t) k"
    by (simp add: map_of_rev_distinct ascending_distinct bt_get_def)
  then show ?thesis
    by (simp add: live_table_def bt_get_extend rows map_add_def split: option.split)
qed

lemma key_order_records_later:
  assumes "hot_table_ok t"
  shows "key_order_records t after = filter (later rec_key after) (bt_values (ht_records t))"
proof -
  have key: "rec_key r = k" if "(k, r) \<in> set (bt_entries (ht_records t))" for k r
    using that assms by (simp add: hot_table_ok_def in_entries)
  show ?thesis
    unfolding key_order_records_def bt_values_def filter_map filter_filter
    by (rule arg_cong [where f = "map snd"], rule filter_cong [OF refl])
      (use key in \<open>auto simp: later_def split: option.split\<close>)
qed

lemma hot_rows_ascend:
  assumes "hot_table_ok t"
  shows "rows_by rec_key (bt_values (ht_records t))"
  unfolding bt_values_def
  by (rule rows_by_entries [where f = id]) (use assms in \<open>auto simp: hot_table_ok_def in_entries\<close>)

lemma live_row_key:
  assumes "implements p T" "hot_table_ok t" "bt_get (live_table t T table) k = Some r"
  shows "rec_key r = k"
  using assms(3) implements_row [OF assms(1)] assms(2)
  by (auto simp: bt_get_live [OF assms(1)] hot_table_ok_def split: option.splits if_splits)

lemma live_rows_ascend:
  assumes "implements p T" "hot_table_ok t"
  shows "rows_by rec_key (bt_values (live_table t T table))"
  unfolding bt_values_def
  by (rule rows_by_entries [where f = id]) (auto simp: in_entries live_row_key [OF assms])

lemma contains_fold_insert: "bt_contains (fold bs_insert xs s) k \<longleftrightarrow> k \<in> set xs \<or> bt_contains s k"
  by (induction xs arbitrary: s) (auto simp: bs_contains_iff)

lemma contains_collect: "bt_contains (bs_collect xs) k \<longleftrightarrow> k \<in> set xs"
  by (simp add: bs_contains_iff)

lemma top_tombstones:
  "k \<in> set (tombstone_keys t None after) \<longleftrightarrow> bt_contains (ht_durable_delete_tombstones t) k \<and> later id after k"
proof -
  have all: "takeWhile (\<lambda>_. True) xs = xs" for xs :: "string list" by (induction xs) simp_all
  show ?thesis
    by (auto simp: tombstone_keys_def all set_bt_keys bt_contains_def later_def split: option.splits)
qed

text \<open>The overlay of a query, and the rows on disk it does not shadow.\<close>

definition overlay_of :: "string option \<Rightarrow> 'n hot_table option \<Rightarrow> 'n key_order_overlay" where
  "overlay_of after m =
     (case m of
        None \<Rightarrow> \<lparr>ov_records = [], ov_shadow_keys = bt_empty\<rparr>
      | Some t \<Rightarrow>
          \<lparr>ov_records = key_order_records t after,
           ov_shadow_keys = fold bs_insert (tombstone_keys t None after)
             (bs_collect (map rec_key (key_order_records t after)))\<rparr>)"

lemma collect_overlay:
  "\<exists>hot. collect_hot_key_order_overlay now table None after sv =
     (Inr (overlay_of after (swept_table now table (sv_hot sv))), sv\<lparr>sv_hot := hot\<rparr>)"
  by (simp add: collect_hot_key_order_overlay_def hot_call_def sv_bind_def cache_scan_overlay_def swept_def
      scan_key_order_overlay_def swept_table_def overlay_of_def scoped_records_def Let_def split: option.split) blast

lemma take_merged: "n \<le> m \<Longrightarrow> take n (merged (take m ds) hs) = take n (merged ds hs)"
proof (induction ds hs arbitrary: n m rule: merged.induct)
  case (1 d ds h hs)
  show ?case
  proof (cases n)
    case (Suc n')
    with 1 obtain m' where m: "m = Suc m'" by (cases m) auto
    have "take n' (merged (take m' ds) (h # hs)) = take n' (merged ds (h # hs))" if "rec_key d < rec_key h"
      using that 1(1) [of n' m'] 1(4) Suc m by simp
    moreover have "take n' (merged (take m' ds) hs) = take n' (merged ds hs)" if "rec_key d = rec_key h"
      using that 1(2) [of n' m'] 1(4) Suc m by simp
    moreover have "take n' (merged (d # take m' ds) hs) = take n' (merged (d # ds) hs)"
      if "\<not> rec_key d < rec_key h" "rec_key d \<noteq> rec_key h"
      using that 1(3) [of n' m] 1(4) Suc m by simp
    ultimately show ?thesis by (simp add: Suc m)
  qed simp
qed simp_all

text \<open>The rows of the projection and of the cache together are the live rows.\<close>

lemma merged_live:
  fixes matches :: "'n db_record \<Rightarrow> bool" and after :: "string option"
  assumes imp: "implements p T" and ok: "hot_table_ok t"
  defines "overlay \<equiv> overlay_of after (Some t)"
  shows "merged
      (filter (\<lambda>r. \<not> bt_contains (ov_shadow_keys overlay) (rec_key r) \<and> matches r)
        (filter (later rec_key after) (table_rows T table)))
      (filter matches (ov_records overlay))
    = filter matches (filter (later rec_key after) (bt_values (live_table t T table)))"
    (is "merged ?disk ?hot = ?live")
proof (rule rows_by_unique [where g = rec_key])
  have hot: "ov_records overlay = filter (later rec_key after) (bt_values (ht_records t))"
    by (simp add: overlay_def overlay_of_def key_order_records_later [OF ok])
  have shadow: "bt_contains (ov_shadow_keys overlay) (rec_key r) \<longleftrightarrow>
      bt_contains (ht_records t) (rec_key r) \<or> bt_contains (ht_durable_delete_tombstones t) (rec_key r)"
    if "later rec_key after r" for r
  proof -
    have "rec_key r \<in> rec_key ` set (filter (later rec_key after) (bt_values (ht_records t)))
        \<longleftrightarrow> bt_contains (ht_records t) (rec_key r)"
      using that ok
      by (force simp: hot_table_ok_def in_bt_values bt_contains_def later_def image_iff split: option.splits)
    moreover have "later id after (rec_key r)" using that by (simp add: later_def split: option.splits)
    ultimately show ?thesis
      by (simp add: overlay_def overlay_of_def key_order_records_later [OF ok] contains_fold_insert
          contains_collect top_tombstones disj_commute)
  qed
  have disk_ascend: "rows_by rec_key ?disk"
    by (intro rows_by_filter table_rows_by_key [OF imp])
  have hot_ascend: "rows_by rec_key ?hot"
    unfolding hot by (intro rows_by_filter hot_rows_ascend [OF ok])
  show "rows_by rec_key (merged ?disk ?hot)" by (rule merged_ascend [OF disk_ascend hot_ascend])
  show "rows_by rec_key ?live" by (intro rows_by_filter live_rows_ascend [OF imp ok])
  have live: "r \<in> set (bt_values (live_table t T table)) \<longleftrightarrow>
      r \<in> set (bt_values (ht_records t))
    \<or> r \<in> set (table_rows T table) \<and> \<not> bt_contains (ht_records t) (rec_key r)
        \<and> \<not> bt_contains (ht_durable_delete_tombstones t) (rec_key r)" for r
  proof -
    have "r \<in> set (bt_values (live_table t T table)) \<longleftrightarrow> bt_get (live_table t T table) (rec_key r) = Some r"
      using live_row_key [OF imp ok] by (auto simp: in_bt_values)
    moreover have "r \<in> set (bt_values (ht_records t)) \<longleftrightarrow> bt_get (ht_records t) (rec_key r) = Some r"
      using ok by (auto simp: in_bt_values hot_table_ok_def)
    moreover have "bt_get T (table, rec_key r) = Some r \<Longrightarrow> rec_table r = table"
      using implements_row [OF imp] by blast
    ultimately show ?thesis
      by (auto simp: bt_get_live [OF imp] table_rows_iff [OF imp] bt_contains_def split: option.splits)
  qed
  have hot_key: "rec_key r \<in> rec_key ` set ?hot \<Longrightarrow> bt_contains (ht_records t) (rec_key r)" for r
    using ok by (auto simp: hot hot_table_ok_def in_bt_values bt_contains_def)
  show "set (merged ?disk ?hot) = set ?live"
    unfolding set_merged [OF disk_ascend hot_ascend]
    using shadow hot_key by (auto simp: live hot)
qed

lemma with_more_take [simp]: "with_more limit (take (Suc limit) xs) = with_more limit xs"
  by (simp add: with_more_def)

lemma swept_table_ok:
  assumes "hot_inv {} h" "swept_table now table h = Some t"
  shows "hot_table_ok t"
  using hot_invD [OF sweep_inv [OF assms(1)]] assms(2) by (simp add: swept_table_def table_inv_def)

lemma matching_rows_live:
  assumes "hot_inv {} (sv_hot sv)" "implements (sv_disk sv) T" "plain table"
  shows "\<exists>hot. matching_rows now table None after matches limit sv =
    Some (Inr (with_more limit (filter matches (filter (later rec_key after) (live_rows now sv T table)))),
      sv\<lparr>sv_hot := hot\<rparr>)"
proof -
  let ?m = "swept_table now table (sv_hot sv)"
  let ?overlay = "overlay_of after ?m"
  let ?wanted = "\<lambda>r. \<not> bt_contains (ov_shadow_keys ?overlay) (rec_key r) \<and> matches r"
  let ?disk = "take (Suc limit) (filter ?wanted (filter (later rec_key after) (table_rows T table)))"
  let ?hot = "filter matches (ov_records ?overlay)"
  obtain hot where overlay: "collect_hot_key_order_overlay now table None after sv = (Inr ?overlay, sv\<lparr>sv_hot := hot\<rparr>)"
    using collect_overlay by blast
  have disk: "collect_wanted_key_order_records (sv_disk sv) table None after ?wanted (predicate_scan_target limit)
      = Some (Inr ?disk)"
    using table_scan.scan [of "(sv_disk sv, T, table)" after "[]" "Suc limit" ?wanted] assms(2,3)
    by (simp add: collect_wanted_key_order_records_def predicate_scan_target_def)
  have unshadowed: "filter (\<lambda>r. \<not> bt_contains (ov_shadow_keys ?overlay) (rec_key r)) ?disk = ?disk"
    by (auto simp: filter_id_conv dest: in_set_takeD)
  have "take (Suc limit) (merged ?disk ?hot)
      = take (Suc limit) (filter matches (filter (later rec_key after) (live_rows now sv T table)))"
  proof (cases ?m)
    case None
    then show ?thesis by (simp add: overlay_of_def live_rows_def bt_contains_def)
  next
    case (Some t)
    show ?thesis
      unfolding take_merged [OF order_refl] unfolding Some merged_live [OF assms(2) swept_table_ok [OF assms(1) Some]]
      by (simp add: live_rows_def Some)
  qed
  then have "merge_key_order_records_matching_with_shadow_keys ?disk ?hot (ov_shadow_keys ?overlay) limit (\<lambda>_. True)
      = with_more limit (filter matches (filter (later rec_key after) (live_rows now sv T table)))"
    unfolding merge_key_order_records_matching_with_shadow_keys_def unshadowed
    by (simp add: merge_matching_loop flip: with_more_take [of limit "filter matches _"])
  then show ?thesis
    by (simp add: matching_rows_def overlay split_matching_hot_overlay_def disk) blast
qed

lemma windowed_rows_live:
  assumes "hot_inv {} (sv_hot sv)" "implements (sv_disk sv) T" "plain table" "0 < limit"
  shows "\<exists>hot. windowed_rows now table None after limit sv =
    Some (Inr (take limit (filter (later rec_key after) (live_rows now sv T table))), sv\<lparr>sv_hot := hot\<rparr>)"
proof -
  let ?m = "swept_table now table (sv_hot sv)"
  let ?overlay = "overlay_of after ?m"
  let ?wanted = "\<lambda>r. \<not> bt_contains (ov_shadow_keys ?overlay) (rec_key r)"
  let ?disk = "take limit (filter ?wanted (filter (later rec_key after) (table_rows T table)))"
  obtain hot where overlay: "collect_hot_key_order_overlay now table None after sv = (Inr ?overlay, sv\<lparr>sv_hot := hot\<rparr>)"
    using collect_overlay by blast
  have disk: "collect_matching_key_order_records (sv_disk sv) table None after (ov_shadow_keys ?overlay) limit
      = Some (Inr ?disk)"
    using table_scan.scan [of "(sv_disk sv, T, table)" after "[]" limit ?wanted] assms(2-4)
    by (simp add: collect_matching_key_order_records_def collect_wanted_key_order_records_def)
  have "take limit (merged ?disk (ov_records ?overlay)) = take limit (filter (later rec_key after) (live_rows now sv T table))"
  proof (cases ?m)
    case None
    then show ?thesis by (simp add: overlay_of_def live_rows_def bt_contains_def)
  next
    case (Some t)
    show ?thesis
      unfolding take_merged [OF order_refl]
      using merged_live [OF assms(2) swept_table_ok [OF assms(1) Some], of after "\<lambda>_. True" table]
      by (simp add: live_rows_def Some)
  qed
  then show ?thesis
    by (simp add: windowed_rows_def overlay disk merge_key_order_records_def merge_key_order_loop) blast
qed

definition list_page :: "string \<Rightarrow> nat \<Rightarrow> 'n db_record list \<Rightarrow> 'n list_response" where
  "list_page table limit rows =
     \<lparr>lr_table = table, lr_records = take limit rows, lr_next_after_key = next_key (take limit rows),
      lr_next_cursor = None, lr_has_more = limit < length rows\<rparr>"

lemma list_response_page:
  assumes "with_more limit rows = (shown, has_more)"
  shows "record_list_response now table shown (next_key shown) None has_more sv =
    Some (Inr (list_page table limit rows), sv\<lparr>sv_hot := hydrate_durable_many now shown (sv_hot sv)\<rparr>)"
  using assms by (simp add: record_list_response_def list_page_def with_more_def)


text \<open>
  A point read of a table of which the cache keeps a window returns the same live row: the hot
  row, nothing below the tombstone of a deletion still queued, else the row of the projection.
\<close>

theorem point_read_is_live_row:
  assumes "implements (sv_disk sv) T" "plain table"
    and "swept_table now table (sv_hot sv) = Some t" "ht_max_items t \<noteq> None"
  shows "fst (get_record_from_live_or_disk now table key sv) = Inr (bt_get (live_table t T table) key)"
proof -
  let ?h = "snd (evict_idle_durable_records now (sv_hot sv))"
  have table: "bt_get (hs_tables ?h) table = Some t" using assms(3) by (simp add: swept_table_def)
  show ?thesis
  proof (cases "bt_get (ht_records t) key")
    case (Some r)
    then obtain hot where "cache_get now table key (sv_hot sv) = (Some (Some r), hot)"
      by (simp add: cache_get_def swept_def hot_get_def table Let_def)
    with Some show ?thesis
      by (simp add: get_record_from_live_or_disk_def lookup_record_def hydrate_found_def hot_call_def sv_bind_def
          bt_get_live [OF assms(1)])
  next
    case None
    then obtain hot where read: "cache_get now table key (sv_hot sv) = (Some None, hot)"
      and hot: "\<exists>t'. bt_get (hs_tables hot) table = Some t' \<and> ht_max_items t' = ht_max_items t
        \<and> ht_durable_delete_tombstones t' = ht_durable_delete_tombstones t"
      by (simp add: cache_get_def swept_def hot_get_def table Let_def count_both_def update_table_def)
    from hot have tombstone: "Option.bind (durable_delete_lsn hot table key) id = bt_get (ht_durable_delete_tombstones t) key"
      and windowed: "is_windowed_table hot table"
      using assms(4) by (auto simp: durable_delete_lsn_def is_windowed_table_def)
    show ?thesis
      using None
      by (auto simp: get_record_from_live_or_disk_def lookup_record_def hydrate_found_def hot_call_def sv_bind_def
          read tombstone windowed bt_get_live [OF assms(1)] bt_contains_def implements_get [OF assms(1,2)]
          split: option.split)
  qed
qed

text \<open>
  At the greatest limit a list query of a table that the cache does not hold returns the first
  five hundred rows after the key and says that there are no more, however many there are: it asks
  the store for one row more than the limit, and the store reduces that to the limit again.
\<close>

theorem full_page_hides_rest:
  assumes "execute_record_list_query ops env table None None q sv = Some (Inr response, sv')"
    and "lq_predicate q = None" "lq_shard q = None" "bt_get (hs_tables (sv_hot sv)) table = None"
    and "normalize_limit (lq_limit q) = 500" "implements (sv_disk sv) T"
  shows "lr_records response = take 500 (filter (later rec_key (lq_after_key q)) (table_rows T table))
    \<and> \<not> lr_has_more response"
proof -
  have read: "cache_list (qe_now env) table (lq_after_key q) (Some 501) (sv_hot sv)
      = (None, snd (evict_idle_durable_records (qe_now env) (sv_hot sv)))"
    using assms(4) by (simp add: cache_list_def swept_def hot_list_def evict_idle_durable_records_def Let_def)
  have windowed: "\<not> is_windowed_table (sv_hot sv) table" using assms(4) by (simp add: is_windowed_table_def)
  have "validate_table_path (sv_schema sv) table = Inr ()"
    using assms(1) by (auto simp: execute_record_list_query_def execute_table_list_query_def se_bind_def assms(2)
        check_predicate_def split: sum.splits)
  then have path: "validate_table_path (sv_schema sv) table = Inr ()" and plain: "plain table"
    by (auto simp: validate_table_path_def split: if_splits intro: safe_component_plain)
  have "projection_list (sv_disk sv) table (lq_after_key q) (Some 501)
      = take 500 (filter (later rec_key (lq_after_key q)) (table_rows T table))"
    by (simp add: table_list_page [OF assms(6) plain] normalize_limit_def)
  then show ?thesis
    using assms(1)
    by (auto simp: execute_record_list_query_def execute_table_list_query_def check_predicate_def with_more_def
        list_records_from_live_or_disk_def hot_call_def record_list_response_def Let_def assms(2,3,5) read windowed
        path)
qed

section \<open>A listing of rooms\<close>

text \<open>
  A window of two rows over a projection: \<open>a\<close> is only on disk, \<open>b\<close> and the volatile \<open>r:1\<close> only
  in the cache.
\<close>

definition rooms_history :: "i64 store_mutation list" where
  "rooms_history = [demo_put (demo_doc ''a'' ''x'' 1)]"

definition rooms_disk :: "i64 projection" where
  "rooms_disk = fst (apply_transaction demo_index_ops rooms_history empty_projection)"

definition rooms_schema :: database_schema where
  "rooms_schema =
     \<lparr>db_name = ''rooms'', db_version = 1, db_objects = bt_empty,
      db_tables = bt_insert ''rooms''
        \<lparr>tsc_storage = Lru 2, tsc_fields = docs_fields, tsc_nested = bt_empty, tsc_read_visibility = [],
         tsc_indexes = demo_indexes ''rooms''\<rparr> bt_empty,
      db_events = bt_empty, db_behaviors = bt_empty\<rparr>"

definition rooms_server :: "(i64, unit, unit) server" where
  "rooms_server =
     \<lparr>sv_next_lsn = 2, sv_current_lsn = 2, sv_wal = [], sv_hot = demo_cache, sv_disk = rooms_disk, sv_jobs = [],
      sv_applied_lsn = 2, sv_refs = bt_empty, sv_mutations = bt_empty, sv_events = [], sv_schema = rooms_schema\<rparr>"

definition rooms_env :: "i64 query_env" where
  "rooms_env =
     \<lparr>qe_now = 6, qe_shard_count = 1, qe_wal_shards = 1, qe_sha256 = (\<lambda>_. []), qe_json_from_str = (\<lambda>_. None)\<rparr>"

definition rooms_query :: "nat option \<Rightarrow> i64 list_query" where
  "rooms_query limit =
     \<lparr>lq_after_key = None, lq_after_cursor = None, lq_limit = limit, lq_order = None, lq_shard = None,
      lq_predicate = None\<rparr>"

lemma rooms_run: "apply_transaction demo_index_ops rooms_history empty_projection = (rooms_disk, Inr ())"
proof -
  have "snd (apply_transaction demo_index_ops rooms_history empty_projection) = Inr ()" by code_simp
  then show ?thesis unfolding rooms_disk_def by (metis prod.collapse)
qed

lemma rooms_index_inv: "index_inv demo_index_ops demo_indexes rooms_disk (fold table_apply rooms_history bt_empty)"
proof (rule transaction_index_inv [OF demo_number_laws demo_index_laws demo_schema_plain index_inv_empty _ rooms_run])
  show "\<forall>m\<in>set rooms_history. follows demo_indexes m"
    by (simp add: rooms_history_def demo_put_def demo_doc_def plain_row_def plain_def nul_def demo_indexes_def)
qed

lemma rooms_table: "fold table_apply rooms_history bt_empty = bt_insert (''rooms'', ''a'') (demo_doc ''a'' ''x'' 1) bt_empty"
  by (simp add: rooms_history_def demo_put_def demo_doc_def)

lemma rooms_implements: "implements rooms_disk (bt_insert (''rooms'', ''a'') (demo_doc ''a'' ''x'' 1) bt_empty)"
  using rooms_index_inv unfolding rooms_table by (simp add: index_inv_def)

lemma rooms_plain: "plain ''rooms''"
  by (simp add: plain_def nul_def)

theorem collecting_rows_ends_witness:
  "collect_wanted_key_order_records rooms_disk ''rooms'' None None (\<lambda>_. True) 5 = Some (Inr [demo_doc ''a'' ''x'' 1])
   \<and> collect_matching_exact_index_records demo_index_ops rooms_disk ''rooms'' ''byTitle'' [JString ''x''] None None
        bt_empty 5 (\<lambda>_. True) = Some (Inr [demo_doc ''a'' ''x'' 1])"
proof -
  let ?T = "bt_insert (''rooms'', ''a'') (demo_doc ''a'' ''x'' 1) bt_empty"
  have "encode_index_values_component demo_index_ops [JString ''x''] =
      Inr (hex_lower (index_values_magic @ map byte_of ''x''))"
    by (simp add: encode_index_values_component_def demo_index_ops_def)
  then have readable: "index_readable demo_index_ops demo_indexes rooms_disk ?T ''rooms'' ''byTitle'' by_title [JString ''x'']"
    using rooms_index_inv demo_number_laws demo_index_laws demo_schema_plain rooms_plain
    by (simp add: index_readable_def rooms_table demo_indexes_def)
  have rows: "table_rows ?T ''rooms'' = [demo_doc ''a'' ''x'' 1]" by (simp add: table_rows_def)
  have vals: "rows_with_values ?T ''rooms'' by_title [JString ''x''] None = [demo_doc ''a'' ''x'' 1]"
    unfolding rows_with_values_def rows
    by (simp add: record_matches_index_values_def record_index_values_def by_title_def demo_doc_def json_field_def
        is_scalar_def)
  have five: "0 < (5 :: nat)" by simp
  note ends = collecting_rows_ends [OF rooms_implements rooms_plain five, where after = None and scope = None
      and shadow = bt_empty and matches = "\<lambda>_. True" and ix = by_title and ops = demo_index_ops
      and idx = demo_indexes and name = "''byTitle''" and vals = "[JString ''x'']" and wanted = "\<lambda>_. True"]
  from ends readable show ?thesis by (simp add: rows vals bt_contains_def)
qed


theorem point_read_is_live_row_witness:
  "map_sum id (map_option rec_lsn) (fst (get_record_from_live_or_disk 6 ''rooms'' ''a'' rooms_server)) = Inr (Some 1)"
proof -
  let ?T = "bt_insert (''rooms'', ''a'') (demo_doc ''a'' ''x'' 1) bt_empty"
  let ?t = "the (swept_table 6 ''rooms'' (sv_hot rooms_server))"
  have disk: "implements (sv_disk rooms_server) ?T" using rooms_implements by (simp add: rooms_server_def)
  have "swept_table 6 ''rooms'' (sv_hot rooms_server) \<noteq> None" by code_simp
  then have swept: "swept_table 6 ''rooms'' (sv_hot rooms_server) = Some ?t" by (rule option.collapse [symmetric])
  have window: "ht_max_items ?t \<noteq> None" by code_simp
  have "map_option rec_lsn (bt_get (live_table ?t ?T ''rooms'') ''a'') = Some 1" by code_simp
  then show ?thesis
    unfolding point_read_is_live_row [OF disk rooms_plain swept window] by (simp only: map_sum.simps)
qed

text \<open>The same rows on disk, with a cache that does not hold the table.\<close>

definition quiet_rooms :: "(i64, unit, unit) server" where
  "quiet_rooms = rooms_server\<lparr>sv_hot := initial_hot_state bt_empty 0\<rparr>"

theorem full_page_hides_rest_witness:
  "case execute_record_list_query demo_index_ops rooms_env ''rooms'' None None (rooms_query (Some 900)) quiet_rooms of
     Some (Inr response, _) \<Rightarrow> map rec_key (lr_records response) = [''a''] \<and> \<not> lr_has_more response
   | _ \<Rightarrow> False"
proof -
  let ?T = "bt_insert (''rooms'', ''a'') (demo_doc ''a'' ''x'' 1) bt_empty"
  let ?run = "execute_record_list_query demo_index_ops rooms_env ''rooms'' None None (rooms_query (Some 900)) quiet_rooms"
  have disk: "implements (sv_disk quiet_rooms) ?T" using rooms_implements by (simp add: quiet_rooms_def rooms_server_def)
  have cold: "bt_get (hs_tables (sv_hot quiet_rooms)) ''rooms'' = None" by code_simp
  have query: "lq_predicate (rooms_query (Some 900)) = None" "lq_shard (rooms_query (Some 900)) = None"
    "normalize_limit (lq_limit (rooms_query (Some 900))) = 500" "lq_after_key (rooms_query (Some 900)) = None"
    by (simp_all add: rooms_query_def normalize_limit_def)
  have path: "validate_table_path (sv_schema quiet_rooms) ''rooms'' = Inr ()" by code_simp
  have cold_read: "\<not> is_windowed_table (sv_hot quiet_rooms) ''rooms''"
    "\<exists>hot. cache_list now ''rooms'' after limit (sv_hot quiet_rooms) = (None, hot)" for now after limit
    by (simp_all add: quiet_rooms_def is_windowed_table_def cache_list_def swept_def hot_list_def
        evict_idle_durable_records_def initial_hot_state_def hot_tables_for_schema_def)
  have "case ?run of None \<Rightarrow> False | Some (r, _) \<Rightarrow> \<not> isl r"
    using cold_read(2) [of 6 None "Some 501"]
    by (auto simp: execute_record_list_query_def execute_table_list_query_def check_predicate_def query path
        list_records_from_live_or_disk_def cold_read(1) hot_call_def with_more_def record_list_response_def
        rooms_env_def)
  then obtain response sv' where run: "?run = Some (Inr response, sv')"
    by (cases ?run) (auto dest!: not_isl_Inr)
  have "table_rows ?T ''rooms'' = [demo_doc ''a'' ''x'' 1]" by (simp add: table_rows_def)
  with full_page_hides_rest [OF run query(1,2) cold query(3) disk] run
  show ?thesis by (simp add: query(4) demo_doc_def)
qed

end
