(* ===== verification/Actor.thy ===== *)
theory Actor
  imports Record_Index
begin

text \<open>
  The actors of the server (\<open>actor.rs\<close>): rooms with their newest messages, scopes with the rows
  of a part of a table, and tables with the directory of their scopes, spread over shards.

  A shard is a thread that answers one request at a time; here every request is a function of
  the shard. All shards draw access stamps from one counter, which the state carries. The clock
  is read once per request.
\<close>

section \<open>Identities\<close>

datatype actor_kind = RoomKind | ScopeKind | TableKind | ViewKind | AggregateKind

fun kind_as_str :: "actor_kind \<Rightarrow> string" where
  "kind_as_str RoomKind = ''room''"
| "kind_as_str ScopeKind = ''scope''"
| "kind_as_str TableKind = ''table''"
| "kind_as_str ViewKind = ''view''"
| "kind_as_str AggregateKind = ''aggregate''"

definition kind_from_wal_str :: "string \<Rightarrow> actor_kind option" where
  "kind_from_wal_str s =
     (if s = ''room'' then Some RoomKind
      else if s = ''scope'' then Some ScopeKind
      else if s = ''table'' then Some TableKind
      else if s = ''view'' then Some ViewKind
      else if s = ''aggregate'' then Some AggregateKind
      else None)"

lemma kind_as_str_inject [simp]: "kind_as_str k = kind_as_str k' \<longleftrightarrow> k = k'"
  by (cases k; cases k') auto

datatype actor_id = Actor_Id (aid_kind: actor_kind) (aid_key: string)

text \<open>The source hashes ids; the order below only fixes how a map is written down.\<close>

instantiation actor_id :: linorder
begin

definition less_eq_actor_id :: "actor_id \<Rightarrow> actor_id \<Rightarrow> bool" where
  "less_eq_actor_id a b \<longleftrightarrow>
     (kind_as_str (aid_kind a), aid_key a) \<le> (kind_as_str (aid_kind b), aid_key b)"

definition less_actor_id :: "actor_id \<Rightarrow> actor_id \<Rightarrow> bool" where
  "less_actor_id a b \<longleftrightarrow>
     (kind_as_str (aid_kind a), aid_key a) < (kind_as_str (aid_kind b), aid_key b)"

instance
proof
  fix a b c :: actor_id
  show "a < b \<longleftrightarrow> a \<le> b \<and> \<not> b \<le> a"
    by (simp only: less_eq_actor_id_def less_actor_id_def less_le_not_le)
  show "a \<le> a" by (simp add: less_eq_actor_id_def)
  show "a \<le> c" if "a \<le> b" "b \<le> c"
    using that unfolding less_eq_actor_id_def by (rule order_trans)
  show "a = b" if "a \<le> b" "b \<le> a"
    using that unfolding less_eq_actor_id_def by (cases a; cases b) (auto dest: antisym)
  show "a \<le> b \<or> b \<le> a"
    unfolding less_eq_actor_id_def by (rule linear)
qed

end

definition route_key :: "actor_id \<Rightarrow> string" where
  "route_key a = kind_as_str (aid_kind a) @ '':'' @ aid_key a"

definition actor_shard_index :: "(bytes \<Rightarrow> bytes) \<Rightarrow> actor_id \<Rightarrow> nat \<Rightarrow> nat" where
  "actor_shard_index digest a shard_count = shard_index digest (route_key a) (max shard_count 1)"

section \<open>Access stamps\<close>

text \<open>One draw from the counter; a lost race of \<open>compare_exchange\<close> is a later draw.\<close>

definition next_access_stamp :: "u64 \<Rightarrow> u64 \<Rightarrow> u64" where
  "next_access_stamp now seq = max now (sat_add seq 1)"

datatype 'n kernel_message = Touch | Reminder_Fired string "'n json option"

text \<open>\<open>map.entry(key).or_default().push(value)\<close>\<close>

definition bt_push :: "'k::linorder \<Rightarrow> 'v \<Rightarrow> ('k, 'v list) btree \<Rightarrow> ('k, 'v list) btree" where
  "bt_push k v m = bt_insert k (bt_get_or m k [] @ [v]) m"

section \<open>Rooms\<close>

record room_live =
  room_messages :: "message list"
  room_last_accessed_ms :: u64

definition compare_message_order :: "message \<Rightarrow> message \<Rightarrow> ordering" where
  "compare_message_order a b =
     (if msg_lsn a > 0 \<and> msg_lsn b > 0
      then if msg_lsn a < msg_lsn b then Less_Than
           else if msg_lsn a = msg_lsn b then Equal_To else Greater_Than
      else if msg_created_at_ms a < msg_created_at_ms b then Less_Than
      else if msg_created_at_ms a > msg_created_at_ms b then Greater_Than
      else if msg_id a < msg_id b then Less_Than
      else if msg_id a = msg_id b then Equal_To else Greater_Than)"

text \<open>
  \<open>sort_by\<close> of the standard library for a comparison that is total and transitive: a stable
  sort. On messages with and without an LSN the comparison above is not transitive, and the
  library leaves the result open.
\<close>

fun insert_by :: "('a \<Rightarrow> 'a \<Rightarrow> ordering) \<Rightarrow> 'a \<Rightarrow> 'a list \<Rightarrow> 'a list" where
  "insert_by cmp x [] = [x]"
| "insert_by cmp x (y # ys) = (if cmp x y = Greater_Than then y # insert_by cmp x ys else x # y # ys)"

definition sort_by :: "('a \<Rightarrow> 'a \<Rightarrow> ordering) \<Rightarrow> 'a list \<Rightarrow> 'a list" where
  "sort_by cmp xs = foldr (insert_by cmp) xs []"

fun messages_are_sorted_by_order :: "message list \<Rightarrow> bool" where
  "messages_are_sorted_by_order (a # b # ms) \<longleftrightarrow>
     compare_message_order a b \<noteq> Greater_Than \<and> messages_are_sorted_by_order (b # ms)"
| "messages_are_sorted_by_order _ \<longleftrightarrow> True"

definition room_touch :: "u64 \<Rightarrow> u64 \<Rightarrow> room_live \<Rightarrow> room_live \<times> u64" where
  "room_touch now seq r =
     (let s = next_access_stamp now seq in (r\<lparr>room_last_accessed_ms := s\<rparr>, s))"

definition truncate_to :: "nat \<Rightarrow> room_live \<Rightarrow> room_live" where
  "truncate_to hot_window r =
     r\<lparr>room_messages := drop (length (room_messages r) - hot_window) (room_messages r)\<rparr>"

definition can_append_in_order :: "message list \<Rightarrow> message list \<Rightarrow> bool" where
  "can_append_in_order held ms \<longleftrightarrow>
     messages_are_sorted_by_order ms
     \<and> (held = [] \<or> ms = [] \<or> compare_message_order (last held) (hd ms) \<noteq> Greater_Than)"

definition room_apply_messages ::
  "u64 \<Rightarrow> u64 \<Rightarrow> nat \<Rightarrow> message list \<Rightarrow> room_live \<Rightarrow> room_live \<times> u64" where
  "room_apply_messages now seq hot_window ms r =
     (if ms = [] then (r, seq)
      else
        let (r1, seq1) = room_touch now seq r;
            held = room_messages r1 @ ms;
            held' = (if can_append_in_order (room_messages r1) ms then held
                     else sort_by compare_message_order held)
        in (truncate_to hot_window (r1\<lparr>room_messages := held'\<rparr>), seq1))"

definition room_latest :: "u64 \<Rightarrow> u64 \<Rightarrow> nat \<Rightarrow> room_live \<Rightarrow> message list \<times> room_live \<times> u64" where
  "room_latest now seq limit r =
     (let (r1, seq1) = room_touch now seq r
      in (take limit (rev (room_messages r1)), r1, seq1))"

definition room_before ::
  "u64 \<Rightarrow> u64 \<Rightarrow> u64 \<Rightarrow> nat \<Rightarrow> room_live \<Rightarrow> message list \<times> room_live \<times> u64" where
  "room_before now seq before_lsn limit r =
     (let (r1, seq1) = room_touch now seq r
      in (take limit (filter (\<lambda>m. msg_lsn m > 0 \<and> msg_lsn m < before_lsn) (rev (room_messages r1))),
          r1, seq1))"

record actor_room_status =
  ars_room_id :: string
  ars_messages :: nat
  ars_oldest_lsn :: "u64 option"
  ars_newest_lsn :: "u64 option"
  ars_last_accessed_ms :: u64

definition or_extreme :: "(u64 \<Rightarrow> u64 \<Rightarrow> u64) \<Rightarrow> u64 \<Rightarrow> u64 option \<Rightarrow> u64 option" where
  "or_extreme f x found = Some (case found of None \<Rightarrow> x | Some y \<Rightarrow> f y x)"

definition room_status :: "string \<Rightarrow> room_live \<Rightarrow> actor_room_status" where
  "room_status room_id r =
     (let lsns = filter (\<lambda>l. l \<noteq> 0) (map msg_lsn (room_messages r)) in
      \<lparr>ars_room_id = room_id, ars_messages = length (room_messages r),
       ars_oldest_lsn = fold (or_extreme min) lsns None,
       ars_newest_lsn = fold (or_extreme max) lsns None,
       ars_last_accessed_ms = room_last_accessed_ms r\<rparr>)"

section \<open>Scopes\<close>

datatype residency_tier = L1_Index | L3_Full

record 'n scope_actor =
  sc_rows :: "(string, 'n db_record) btree"
  sc_turn_count :: u64
  sc_last_accessed_ms :: u64
  sc_ref_count :: usize
  sc_lingering_until_ms :: u64
  sc_tier :: residency_tier

definition record_estimated_bytes :: "('n, 'z) index_ops_scheme \<Rightarrow> 'n db_record \<Rightarrow> nat" where
  "record_estimated_bytes ops r =
     length (rec_table r) + length (rec_key r) + length (rec_path r)
     + length (json_to_string ops (rec_value r)) + 8 + 8"

definition records_estimated_bytes :: "('n, 'z) index_ops_scheme \<Rightarrow> 'n db_record list \<Rightarrow> nat" where
  "records_estimated_bytes ops rs = sum_list (map (record_estimated_bytes ops) rs)"

definition scope_rows_estimated_bytes ::
  "('n, 'z) index_ops_scheme \<Rightarrow> (string, 'n db_record) btree \<Rightarrow> nat" where
  "scope_rows_estimated_bytes ops rows =
     sum_list (map (record_estimated_bytes ops) (bt_values rows))"

definition scope_new :: "u64 \<Rightarrow> 'n scope_actor" where
  "scope_new stamp =
     \<lparr>sc_rows = bt_empty, sc_turn_count = 0, sc_last_accessed_ms = stamp, sc_ref_count = 0,
      sc_lingering_until_ms = 0, sc_tier = L3_Full\<rparr>"

definition scope_touch :: "u64 \<Rightarrow> u64 \<Rightarrow> 'n scope_actor \<Rightarrow> 'n scope_actor \<times> u64" where
  "scope_touch now seq sc =
     (let s = next_access_stamp now seq
      in (sc\<lparr>sc_turn_count := sat_add (sc_turn_count sc) 1, sc_last_accessed_ms := s\<rparr>, s))"

fun scope_insert_rows ::
  "'n db_record list \<Rightarrow> nat \<Rightarrow> nat \<Rightarrow> (string, 'n db_record) btree \<Rightarrow>
     nat \<times> nat \<times> (string, 'n db_record) btree" where
  "scope_insert_rows [] inserted updated rows = (inserted, updated, rows)"
| "scope_insert_rows (r # rs) inserted updated rows =
     (if bt_contains rows (rec_key r)
      then scope_insert_rows rs inserted (updated + 1) (bt_insert (rec_key r) r rows)
      else scope_insert_rows rs (inserted + 1) updated (bt_insert (rec_key r) r rows))"

definition scope_upsert_rows ::
  "u64 \<Rightarrow> u64 \<Rightarrow> 'n db_record list \<Rightarrow> 'n scope_actor \<Rightarrow> (nat \<times> nat) \<times> 'n scope_actor \<times> u64" where
  "scope_upsert_rows now seq rs sc =
     (let (inserted, updated, rows) = scope_insert_rows rs 0 0 (sc_rows sc)
      in ((inserted, updated), scope_touch now seq (sc\<lparr>sc_rows := rows\<rparr>)))"

definition scope_retain :: "u64 \<Rightarrow> u64 \<Rightarrow> 'n scope_actor \<Rightarrow> 'n scope_actor \<times> u64" where
  "scope_retain now seq sc =
     scope_touch now seq
       (sc\<lparr>sc_ref_count := sat_add (sc_ref_count sc) 1, sc_lingering_until_ms := 0,
           sc_tier := (if bt_is_empty (sc_rows sc) then sc_tier sc else L3_Full)\<rparr>)"

definition scope_release :: "u64 \<Rightarrow> u64 \<Rightarrow> u64 \<Rightarrow> 'n scope_actor \<Rightarrow> 'n scope_actor \<times> u64" where
  "scope_release now seq linger_ms sc =
     (let refs = sat_sub (sc_ref_count sc) 1 in
      scope_touch now seq
        (sc\<lparr>sc_ref_count := refs,
            sc_lingering_until_ms :=
              (if refs = 0 \<and> linger_ms > 0 then sat_add now linger_ms else 0)\<rparr>))"

definition scope_idle :: "u64 \<Rightarrow> 'n scope_actor \<Rightarrow> bool" where
  "scope_idle now sc \<longleftrightarrow>
     sc_ref_count sc = 0 \<and> sc_lingering_until_ms sc > 0 \<and> sc_lingering_until_ms sc \<le> now"

definition tier_down_if_idle ::
  "u64 \<Rightarrow> u64 \<Rightarrow> 'n scope_actor \<Rightarrow> nat \<times> 'n scope_actor \<times> u64" where
  "tier_down_if_idle now seq sc =
     (if \<not> scope_idle now sc then (0, sc, seq)
      else (bt_len (sc_rows sc),
            scope_touch now seq
              (sc\<lparr>sc_rows := bt_empty, sc_tier := L1_Index, sc_lingering_until_ms := 0\<rparr>)))"

section \<open>Tables and the directory of their scopes\<close>

record table_scope_entry =
  tse_scope_key :: string
  tse_rows :: nat
  tse_bytes :: nat
  tse_last_accessed_ms :: u64
  tse_split_pending :: bool
  tse_split_rows :: nat
  tse_split_bytes :: nat
  tse_split_reminder_at_ms :: u64
  tse_child_scopes :: "string list"

record table_actor =
  ta_scopes :: "(string, table_scope_entry) btree"
  ta_turn_count :: u64
  ta_last_accessed_ms :: u64

record split_policy =
  sp_rows :: nat
  sp_bytes :: nat

record table_scope_update =
  tsu_table_scopes :: nat
  tsu_pending_splits :: nat
  tsu_split_pending :: bool
  tsu_split_rows :: nat
  tsu_split_bytes :: nat

definition no_scope_update :: table_scope_update where
  "no_scope_update =
     \<lparr>tsu_table_scopes = 0, tsu_pending_splits = 0, tsu_split_pending = False,
      tsu_split_rows = 0, tsu_split_bytes = 0\<rparr>"

record child_update =
  cu_scope_key :: string
  cu_rows :: nat
  cu_bytes :: nat
  cu_last_accessed_ms :: u64

definition scope_exceeds_split_policy :: "nat \<Rightarrow> nat \<Rightarrow> split_policy \<Rightarrow> bool" where
  "scope_exceeds_split_policy rows bytes policy \<longleftrightarrow>
     rows > 1
     \<and> (sp_rows policy > 0 \<and> rows > sp_rows policy \<or> sp_bytes policy > 0 \<and> bytes > sp_bytes policy)"

definition max_scope_split_depth :: nat where
  "max_scope_split_depth = 32"

text \<open>\<open>{n:02x}\<close> for the numbers below 256 that occur.\<close>

definition hex02 :: "nat \<Rightarrow> string" where
  "hex02 n = hex_lower [of_nat n]"

definition record_actor_scope_bucket_count :: nat where
  "record_actor_scope_bucket_count = 256"

definition record_actor_table_key :: "string \<Rightarrow> string" where
  "record_actor_table_key logical_table = ''table:'' @ logical_table"

definition record_actor_scope_bucket_key :: "string \<Rightarrow> nat \<Rightarrow> string" where
  "record_actor_scope_bucket_key logical_table bucket =
     ''table:'' @ logical_table @ ''/bucket:'' @ hex02 (bucket mod record_actor_scope_bucket_count)"

definition record_actor_scope_key :: "(bytes \<Rightarrow> bytes) \<Rightarrow> string \<Rightarrow> string \<Rightarrow> string" where
  "record_actor_scope_key digest logical_table key =
     (case split_once CHR '':'' key of
        Some (parent_key, _) \<Rightarrow>
          if CHR ''.'' \<in> set logical_table
          then ''table:'' @ logical_table @ ''/parent:'' @ parent_key
          else record_actor_scope_bucket_key logical_table
                 (shard_index digest key record_actor_scope_bucket_count)
      | None \<Rightarrow>
          record_actor_scope_bucket_key logical_table
            (shard_index digest key record_actor_scope_bucket_count))"

definition split_child_index :: "(bytes \<Rightarrow> bytes) \<Rightarrow> string \<Rightarrow> string \<Rightarrow> nat \<Rightarrow> nat" where
  "split_child_index digest parent_scope_key key child_count =
     shard_index digest (parent_scope_key @ '':'' @ key) (max child_count 1)"

definition child_scope_name :: "string \<Rightarrow> nat \<Rightarrow> string" where
  "child_scope_name parent_scope_key child_index = parent_scope_key @ ''/child:'' @ hex02 child_index"

definition split_child_scope_key :: "(bytes \<Rightarrow> bytes) \<Rightarrow> string \<Rightarrow> string \<Rightarrow> nat \<Rightarrow> string" where
  "split_child_scope_key digest parent_scope_key key child_count =
     child_scope_name parent_scope_key (split_child_index digest parent_scope_key key (max child_count 1))"

text \<open>\<open>str::matches\<close>: matches that do not overlap, from the left.\<close>

function count_matches :: "string \<Rightarrow> string \<Rightarrow> nat" where
  "count_matches pat s =
     (if s = [] \<or> pat = [] then 0
      else if starts_with s pat then 1 + count_matches pat (drop (length pat) s)
      else count_matches pat (tl s))"
  by pat_completeness auto
termination
  by (relation "measure (\<lambda>(pat, s). length s)") auto

declare count_matches.simps [simp del]

definition scope_split_depth :: "string \<Rightarrow> nat" where
  "scope_split_depth scope_key = count_matches ''/child:'' scope_key"

definition table_new :: "u64 \<Rightarrow> table_actor" where
  "table_new stamp = \<lparr>ta_scopes = bt_empty, ta_turn_count = 0, ta_last_accessed_ms = stamp\<rparr>"

definition table_touch :: "u64 \<Rightarrow> u64 \<Rightarrow> table_actor \<Rightarrow> table_actor \<times> u64" where
  "table_touch now seq t =
     (let s = next_access_stamp now seq
      in (t\<lparr>ta_turn_count := sat_add (ta_turn_count t) 1, ta_last_accessed_ms := s\<rparr>, s))"

definition pending_split_count :: "table_actor \<Rightarrow> nat" where
  "pending_split_count t = length (filter tse_split_pending (bt_values (ta_scopes t)))"

definition pending_split_scope_keys :: "nat \<Rightarrow> u64 \<Rightarrow> table_actor \<Rightarrow> string list" where
  "pending_split_scope_keys limit now t =
     map tse_scope_key (take limit (filter (\<lambda>e.
         tse_split_pending e
         \<and> (tse_split_reminder_at_ms e = 0 \<or> tse_split_reminder_at_ms e \<le> now)
         \<and> tse_child_scopes e = []
         \<and> scope_split_depth (tse_scope_key e) < max_scope_split_depth)
       (bt_values (ta_scopes t))))"

definition scope_entry ::
  "u64 \<Rightarrow> split_policy \<Rightarrow> string \<Rightarrow> nat \<Rightarrow> nat \<Rightarrow> u64 \<Rightarrow> table_scope_entry" where
  "scope_entry now policy scope_key rows bytes last_accessed =
     (let pending = scope_exceeds_split_policy rows bytes policy in
      \<lparr>tse_scope_key = scope_key, tse_rows = rows, tse_bytes = bytes,
       tse_last_accessed_ms = last_accessed, tse_split_pending = pending,
       tse_split_rows = sp_rows policy, tse_split_bytes = sp_bytes policy,
       tse_split_reminder_at_ms = (if pending then now else 0), tse_child_scopes = []\<rparr>)"

definition table_upsert_scope ::
  "u64 \<Rightarrow> u64 \<Rightarrow> string \<Rightarrow> nat \<Rightarrow> nat \<Rightarrow> u64 \<Rightarrow> split_policy \<Rightarrow> table_actor \<Rightarrow>
     table_scope_update \<times> table_actor \<times> u64" where
  "table_upsert_scope now seq scope_key rows bytes last_accessed policy t =
     (let entry = scope_entry now policy scope_key rows bytes last_accessed;
          (t1, seq1) = table_touch now seq (t\<lparr>ta_scopes := bt_insert scope_key entry (ta_scopes t)\<rparr>)
      in (\<lparr>tsu_table_scopes = bt_len (ta_scopes t1), tsu_pending_splits = pending_split_count t1,
           tsu_split_pending = tse_split_pending entry, tsu_split_rows = sp_rows policy,
           tsu_split_bytes = sp_bytes policy\<rparr>, t1, seq1))"

text \<open>The walk from a scope down to the child that takes a key, at most 33 levels.\<close>

fun route_from :: "(bytes \<Rightarrow> bytes) \<Rightarrow> table_actor \<Rightarrow> string \<Rightarrow> nat \<Rightarrow> string \<Rightarrow> string" where
  "route_from digest t key 0 current = current"
| "route_from digest t key (Suc steps) current =
     (case bt_get (ta_scopes t) current of
        None \<Rightarrow> current
      | Some e \<Rightarrow>
          if tse_child_scopes e = [] then current
          else
            let child = tse_child_scopes e
                          ! split_child_index digest current key (length (tse_child_scopes e))
            in if child = current then current else route_from digest t key steps child)"

definition route_record_scope_key ::
  "(bytes \<Rightarrow> bytes) \<Rightarrow> table_actor \<Rightarrow> string \<Rightarrow> string \<Rightarrow> string" where
  "route_record_scope_key digest t scope_key key =
     route_from digest t key (max_scope_split_depth + 1) scope_key"

definition route_rows ::
  "(bytes \<Rightarrow> bytes) \<Rightarrow> table_actor \<Rightarrow> string \<Rightarrow> 'n db_record list \<Rightarrow> (string \<times> 'n db_record list) list" where
  "route_rows digest t scope_key rows =
     bt_entries (fold (\<lambda>r. bt_push (route_record_scope_key digest t scope_key (rec_key r)) r)
       rows bt_empty)"

definition table_split_scope ::
  "u64 \<Rightarrow> u64 \<Rightarrow> string \<Rightarrow> child_update list \<Rightarrow> split_policy \<Rightarrow> u64 \<Rightarrow> table_actor \<Rightarrow>
     table_scope_update \<times> table_actor \<times> u64" where
  "table_split_scope now seq parent children policy last_accessed t =
     (let entry = \<lparr>tse_scope_key = parent, tse_rows = 0, tse_bytes = 0,
            tse_last_accessed_ms = last_accessed, tse_split_pending = False,
            tse_split_rows = sp_rows policy, tse_split_bytes = sp_bytes policy,
            tse_split_reminder_at_ms = 0, tse_child_scopes = map cu_scope_key children\<rparr>;
          scopes = fold (\<lambda>c. bt_insert (cu_scope_key c)
              (scope_entry now policy (cu_scope_key c) (cu_rows c) (cu_bytes c) (cu_last_accessed_ms c)))
            children (bt_insert parent entry (ta_scopes t));
          (t1, seq1) = table_touch now seq (t\<lparr>ta_scopes := scopes\<rparr>)
      in (\<lparr>tsu_table_scopes = bt_len (ta_scopes t1), tsu_pending_splits = pending_split_count t1,
           tsu_split_pending = False, tsu_split_rows = sp_rows policy,
           tsu_split_bytes = sp_bytes policy\<rparr>, t1, seq1))"

section \<open>Actors and the requests of a shard\<close>

record generic_actor =
  ga_turn_count :: u64
  ga_last_accessed_ms :: u64

datatype 'n actor_state =
    Room_Actor room_live
  | Scope_Actor "'n scope_actor"
  | Table_Actor table_actor
  | Kernel_Actor generic_actor

definition actor_new :: "u64 \<Rightarrow> actor_id \<Rightarrow> 'n actor_state" where
  "actor_new stamp a =
     (case aid_kind a of
        RoomKind \<Rightarrow> Room_Actor \<lparr>room_messages = [], room_last_accessed_ms = stamp\<rparr>
      | ScopeKind \<Rightarrow> Scope_Actor (scope_new stamp)
      | TableKind \<Rightarrow> Table_Actor (table_new stamp)
      | ViewKind \<Rightarrow> Kernel_Actor \<lparr>ga_turn_count = 0, ga_last_accessed_ms = stamp\<rparr>
      | AggregateKind \<Rightarrow> Kernel_Actor \<lparr>ga_turn_count = 0, ga_last_accessed_ms = stamp\<rparr>)"

fun is_room :: "'n actor_state \<Rightarrow> bool" where
  "is_room (Room_Actor _) = True"
| "is_room _ = False"

fun actor_last_accessed_ms :: "'n actor_state \<Rightarrow> u64" where
  "actor_last_accessed_ms (Room_Actor r) = room_last_accessed_ms r"
| "actor_last_accessed_ms (Scope_Actor sc) = sc_last_accessed_ms sc"
| "actor_last_accessed_ms (Table_Actor t) = ta_last_accessed_ms t"
| "actor_last_accessed_ms (Kernel_Actor g) = ga_last_accessed_ms g"

text \<open>Both messages only touch the actor; a room has no turn count.\<close>

fun run_kernel_message ::
  "u64 \<Rightarrow> u64 \<Rightarrow> 'n kernel_message \<Rightarrow> 'n actor_state \<Rightarrow> (u64 \<times> u64) \<times> 'n actor_state \<times> u64" where
  "run_kernel_message now seq msg (Room_Actor r) =
     (let (r1, s) = room_touch now seq r in ((0, room_last_accessed_ms r1), Room_Actor r1, s))"
| "run_kernel_message now seq msg (Scope_Actor sc) =
     (let (sc1, s) = scope_touch now seq sc
      in ((sc_turn_count sc1, sc_last_accessed_ms sc1), Scope_Actor sc1, s))"
| "run_kernel_message now seq msg (Table_Actor t) =
     (let (t1, s) = table_touch now seq t
      in ((ta_turn_count t1, ta_last_accessed_ms t1), Table_Actor t1, s))"
| "run_kernel_message now seq msg (Kernel_Actor g) =
     (let s = next_access_stamp now seq;
          g1 = g\<lparr>ga_turn_count := sat_add (ga_turn_count g) 1, ga_last_accessed_ms := s\<rparr>
      in ((ga_turn_count g1, s), Kernel_Actor g1, s))"

type_synonym 'n actor_map = "(actor_id, 'n actor_state) btree"

record 'n shard =
  sh_seq :: u64
  sh_actors :: "'n actor_map"

text \<open>\<open>actors.entry(id).or_insert_with(new_for_actor)\<close>\<close>

definition ensure_actor :: "u64 \<Rightarrow> actor_id \<Rightarrow> 'n shard \<Rightarrow> 'n actor_state \<times> 'n shard" where
  "ensure_actor now a s =
     (case bt_get (sh_actors s) a of
        Some actor \<Rightarrow> (actor, s)
      | None \<Rightarrow>
          let stamp = next_access_stamp now (sh_seq s); actor = actor_new stamp a
          in (actor, s\<lparr>sh_seq := stamp, sh_actors := bt_insert a actor (sh_actors s)\<rparr>))"

definition put_actor :: "actor_id \<Rightarrow> 'n actor_state \<times> u64 \<Rightarrow> 'n shard \<Rightarrow> 'n shard" where
  "put_actor a actor_seq s =
     s\<lparr>sh_seq := snd actor_seq, sh_actors := bt_insert a (fst actor_seq) (sh_actors s)\<rparr>"

record actor_turn_result =
  atr_actor_id :: actor_id
  atr_shard_index :: nat
  atr_created :: bool
  atr_turn_count :: u64
  atr_last_accessed_ms :: u64

definition shard_run_turn ::
  "u64 \<Rightarrow> nat \<Rightarrow> actor_id \<Rightarrow> 'n kernel_message \<Rightarrow> 'n shard \<Rightarrow> actor_turn_result \<times> 'n shard" where
  "shard_run_turn now index a msg s =
     (let created = \<not> bt_contains (sh_actors s) a;
          (actor, s1) = ensure_actor now a s;
          ((turns, accessed), actor_seq) = run_kernel_message now (sh_seq s1) msg actor
      in (\<lparr>atr_actor_id = a, atr_shard_index = index, atr_created = created,
           atr_turn_count = turns, atr_last_accessed_ms = accessed\<rparr>, put_actor a actor_seq s1))"

record scope_rows_result =
  srr_actor_id :: actor_id
  srr_table_actor_id :: actor_id
  srr_shard_index :: nat
  srr_created :: bool
  srr_requested :: nat
  srr_inserted :: nat
  srr_updated :: nat
  srr_rows :: nat
  srr_bytes :: nat
  srr_table_scopes :: nat
  srr_table_pending_splits :: nat
  srr_scope_split_pending :: bool
  srr_scope_split_rows :: nat
  srr_scope_split_bytes :: nat
  srr_turn_count :: u64
  srr_last_accessed_ms :: u64

definition shard_upsert_scope_rows ::
  "('n, 'z) index_ops_scheme \<Rightarrow> u64 \<Rightarrow> nat \<Rightarrow> actor_id \<Rightarrow> actor_id \<Rightarrow> 'n db_record list \<Rightarrow>
     'n shard \<Rightarrow> scope_rows_result \<times> 'n shard" where
  "shard_upsert_scope_rows ops now index table_id a rows s =
     (let created = \<not> bt_contains (sh_actors s) a;
          (actor, s1) = ensure_actor now a s;
          reply = (\<lambda>inserted updated row_count byte_count turns accessed.
            \<lparr>srr_actor_id = a, srr_table_actor_id = table_id, srr_shard_index = index,
             srr_created = created, srr_requested = length rows, srr_inserted = inserted,
             srr_updated = updated, srr_rows = row_count, srr_bytes = byte_count,
             srr_table_scopes = 0, srr_table_pending_splits = 0, srr_scope_split_pending = False,
             srr_scope_split_rows = 0, srr_scope_split_bytes = 0, srr_turn_count = turns,
             srr_last_accessed_ms = accessed\<rparr>)
      in case actor of
           Scope_Actor sc \<Rightarrow>
             let ((inserted, updated), sc1, seq1) = scope_upsert_rows now (sh_seq s1) rows sc
             in (reply inserted updated (bt_len (sc_rows sc1))
                   (scope_rows_estimated_bytes ops (sc_rows sc1)) (sc_turn_count sc1)
                   (sc_last_accessed_ms sc1),
                 put_actor a (Scope_Actor sc1, seq1) s1)
         | _ \<Rightarrow> (reply 0 0 0 0 0 0, s1))"

definition shard_route_scope_rows ::
  "(bytes \<Rightarrow> bytes) \<Rightarrow> actor_id \<Rightarrow> string \<Rightarrow> 'n db_record list \<Rightarrow> 'n shard \<Rightarrow>
     (string \<times> 'n db_record list) list \<times> 'n shard" where
  "shard_route_scope_rows digest table_id scope_key rows s =
     ((case bt_get (sh_actors s) table_id of
         Some (Table_Actor t) \<Rightarrow> route_rows digest t scope_key rows
       | _ \<Rightarrow> [(scope_key, rows)]), s)"

definition shard_upsert_table_scope ::
  "u64 \<Rightarrow> actor_id \<Rightarrow> string \<Rightarrow> nat \<Rightarrow> nat \<Rightarrow> u64 \<Rightarrow> split_policy \<Rightarrow> 'n shard \<Rightarrow>
     table_scope_update \<times> 'n shard" where
  "shard_upsert_table_scope now table_id scope_key rows bytes accessed policy s =
     (let (actor, s1) = ensure_actor now table_id s in
      case actor of
        Table_Actor t \<Rightarrow>
          let (update, t1, seq1) = table_upsert_scope now (sh_seq s1) scope_key rows bytes accessed policy t
          in (update, put_actor table_id (Table_Actor t1, seq1) s1)
      | _ \<Rightarrow> (no_scope_update, s1))"

definition shard_drain_scope_rows ::
  "u64 \<Rightarrow> actor_id \<Rightarrow> 'n shard \<Rightarrow> ('n db_record list \<times> u64) \<times> 'n shard" where
  "shard_drain_scope_rows now a s =
     (case bt_get (sh_actors s) a of
        Some (Scope_Actor sc) \<Rightarrow>
          let (sc1, seq1) = scope_touch now (sh_seq s) (sc\<lparr>sc_rows := bt_empty\<rparr>)
          in ((bt_values (sc_rows sc), sc_last_accessed_ms sc1), put_actor a (Scope_Actor sc1, seq1) s)
      | _ \<Rightarrow> (([], 0), s))"

record scope_residency_result =
  rsr_actor_id :: actor_id
  rsr_table_actor_id :: actor_id
  rsr_shard_index :: nat
  rsr_created :: bool
  rsr_ref_count :: usize
  rsr_tier :: residency_tier
  rsr_rows :: nat
  rsr_bytes :: nat
  rsr_lingering_until_ms :: u64
  rsr_turn_count :: u64
  rsr_last_accessed_ms :: u64

definition residency_of_scope ::
  "('n, 'z) index_ops_scheme \<Rightarrow> actor_id \<Rightarrow> actor_id \<Rightarrow> nat \<Rightarrow> bool \<Rightarrow> 'n scope_actor \<Rightarrow>
     scope_residency_result" where
  "residency_of_scope ops table_id a index created sc =
     \<lparr>rsr_actor_id = a, rsr_table_actor_id = table_id, rsr_shard_index = index,
      rsr_created = created, rsr_ref_count = sc_ref_count sc, rsr_tier = sc_tier sc,
      rsr_rows = bt_len (sc_rows sc), rsr_bytes = scope_rows_estimated_bytes ops (sc_rows sc),
      rsr_lingering_until_ms = sc_lingering_until_ms sc, rsr_turn_count = sc_turn_count sc,
      rsr_last_accessed_ms = sc_last_accessed_ms sc\<rparr>"

definition scope_residency_fallback :: "actor_id \<Rightarrow> actor_id \<Rightarrow> nat \<Rightarrow> scope_residency_result" where
  "scope_residency_fallback table_id a index =
     \<lparr>rsr_actor_id = a, rsr_table_actor_id = table_id, rsr_shard_index = index,
      rsr_created = False, rsr_ref_count = 0, rsr_tier = L1_Index, rsr_rows = 0, rsr_bytes = 0,
      rsr_lingering_until_ms = 0, rsr_turn_count = 0, rsr_last_accessed_ms = 0\<rparr>"

definition shard_retain_scope ::
  "('n, 'z) index_ops_scheme \<Rightarrow> u64 \<Rightarrow> nat \<Rightarrow> actor_id \<Rightarrow> actor_id \<Rightarrow> 'n shard \<Rightarrow>
     scope_residency_result \<times> 'n shard" where
  "shard_retain_scope ops now index table_id a s =
     (let created = \<not> bt_contains (sh_actors s) a; (actor, s1) = ensure_actor now a s in
      case actor of
        Scope_Actor sc \<Rightarrow>
          let (sc1, seq1) = scope_retain now (sh_seq s1) sc
          in (residency_of_scope ops table_id a index created sc1,
              put_actor a (Scope_Actor sc1, seq1) s1)
      | _ \<Rightarrow> (scope_residency_fallback table_id a index, s1))"

definition shard_release_scope ::
  "('n, 'z) index_ops_scheme \<Rightarrow> u64 \<Rightarrow> nat \<Rightarrow> actor_id \<Rightarrow> actor_id \<Rightarrow> u64 \<Rightarrow> 'n shard \<Rightarrow>
     scope_residency_result \<times> 'n shard" where
  "shard_release_scope ops now index table_id a linger_ms s =
     (case bt_get (sh_actors s) a of
        Some (Scope_Actor sc) \<Rightarrow>
          let (sc1, seq1) = scope_release now (sh_seq s) linger_ms sc
          in (residency_of_scope ops table_id a index False sc1,
              put_actor a (Scope_Actor sc1, seq1) s)
      | _ \<Rightarrow> (scope_residency_fallback table_id a index, s))"

definition idle_scope_ids :: "u64 \<Rightarrow> 'n actor_map \<Rightarrow> actor_id list" where
  "idle_scope_ids now actors =
     sort_key route_key (map fst (filter
       (\<lambda>(a, actor). case actor of Scope_Actor sc \<Rightarrow> scope_idle now sc | _ \<Rightarrow> False)
       (bt_entries actors)))"

fun tier_down_each ::
  "u64 \<Rightarrow> actor_id list \<Rightarrow> (nat \<times> nat) \<times> 'n shard \<Rightarrow> (nat \<times> nat) \<times> 'n shard" where
  "tier_down_each now [] found = found"
| "tier_down_each now (a # ids) ((tiered, cleared), s) =
     (case bt_get (sh_actors s) a of
        Some (Scope_Actor sc) \<Rightarrow>
          let (n, sc1, seq1) = tier_down_if_idle now (sh_seq s) sc
          in tier_down_each now ids ((tiered + 1, cleared + n), put_actor a (Scope_Actor sc1, seq1) s)
      | _ \<Rightarrow> tier_down_each now ids ((tiered, cleared), s))"

definition shard_tier_down_idle_scopes ::
  "u64 \<Rightarrow> nat \<Rightarrow> 'n shard \<Rightarrow> (nat \<times> nat) \<times> 'n shard" where
  "shard_tier_down_idle_scopes now limit s =
     (if limit = 0 then ((0, 0), s)
      else tier_down_each now (take limit (idle_scope_ids now (sh_actors s))) ((0, 0), s))"

definition shard_split_table_scope ::
  "u64 \<Rightarrow> actor_id \<Rightarrow> string \<Rightarrow> child_update list \<Rightarrow> u64 \<Rightarrow> split_policy \<Rightarrow> 'n shard \<Rightarrow>
     table_scope_update \<times> 'n shard" where
  "shard_split_table_scope now table_id parent children accessed policy s =
     (let (actor, s1) = ensure_actor now table_id s in
      case actor of
        Table_Actor t \<Rightarrow>
          let (update, t1, seq1) = table_split_scope now (sh_seq s1) parent children policy accessed t
          in (update, put_actor table_id (Table_Actor t1, seq1) s1)
      | _ \<Rightarrow> (no_scope_update, s1))"

fun pending_splits_of ::
  "nat \<Rightarrow> u64 \<Rightarrow> 'n actor_map \<Rightarrow> actor_id list \<Rightarrow> (actor_id \<times> string) list \<Rightarrow>
     (actor_id \<times> string) list" where
  "pending_splits_of limit now actors [] found = found"
| "pending_splits_of limit now actors (a # ids) found =
     (if length found \<ge> limit then found
      else case bt_get actors a of
        Some (Table_Actor t) \<Rightarrow>
          pending_splits_of limit now actors ids
            (found @ map (Pair a) (pending_split_scope_keys (limit - length found) now t))
      | _ \<Rightarrow> pending_splits_of limit now actors ids found)"

definition shard_pending_table_splits ::
  "nat \<Rightarrow> u64 \<Rightarrow> 'n shard \<Rightarrow> (actor_id \<times> string) list \<times> 'n shard" where
  "shard_pending_table_splits limit now s =
     ((if limit = 0 then []
       else pending_splits_of limit now (sh_actors s)
              (sort_key route_key (map fst (filter
                 (\<lambda>(a, actor). case actor of Table_Actor _ \<Rightarrow> True | _ \<Rightarrow> False)
                 (bt_entries (sh_actors s))))) []), s)"

section \<open>Requests for rooms, status, snapshots and evictions\<close>

record actor_kernel_status =
  aks_total_actors :: nat
  aks_room_actors :: nat
  aks_kernel_actors :: nat
  aks_scope_rows :: nat
  aks_scope_bytes :: nat
  aks_scope_ref_count :: nat
  aks_subscribed_scopes :: nat
  aks_lingering_scopes :: nat
  aks_l1_scope_actors :: nat
  aks_l3_scope_actors :: nat
  aks_table_scopes :: nat
  aks_table_pending_splits :: nat
  aks_kind_counts :: "(string, nat) btree"
  aks_oldest_accessed_ms :: "u64 option"
  aks_newest_accessed_ms :: "u64 option"

definition no_kernel_status :: actor_kernel_status where
  "no_kernel_status =
     \<lparr>aks_total_actors = 0, aks_room_actors = 0, aks_kernel_actors = 0, aks_scope_rows = 0,
      aks_scope_bytes = 0, aks_scope_ref_count = 0, aks_subscribed_scopes = 0,
      aks_lingering_scopes = 0, aks_l1_scope_actors = 0, aks_l3_scope_actors = 0,
      aks_table_scopes = 0, aks_table_pending_splits = 0, aks_kind_counts = bt_empty,
      aks_oldest_accessed_ms = None, aks_newest_accessed_ms = None\<rparr>"

definition count_kind :: "string \<Rightarrow> nat \<Rightarrow> (string, nat) btree \<Rightarrow> (string, nat) btree" where
  "count_kind kind n counts = bt_insert kind (bt_get_or counts kind 0 + n) counts"

definition status_of_scope ::
  "('n, 'z) index_ops_scheme \<Rightarrow> 'n scope_actor \<Rightarrow> actor_kernel_status \<Rightarrow> actor_kernel_status" where
  "status_of_scope ops sc st =
     st\<lparr>aks_scope_rows := aks_scope_rows st + bt_len (sc_rows sc),
        aks_scope_bytes := aks_scope_bytes st + scope_rows_estimated_bytes ops (sc_rows sc),
        aks_scope_ref_count := aks_scope_ref_count st + unat (sc_ref_count sc),
        aks_subscribed_scopes := aks_subscribed_scopes st + (if sc_ref_count sc > 0 then 1 else 0),
        aks_lingering_scopes := aks_lingering_scopes st + (if sc_lingering_until_ms sc > 0 then 1 else 0),
        aks_l1_scope_actors := aks_l1_scope_actors st + (if sc_tier sc = L1_Index then 1 else 0),
        aks_l3_scope_actors := aks_l3_scope_actors st + (if sc_tier sc = L3_Full then 1 else 0)\<rparr>"

definition status_of_actor ::
  "('n, 'z) index_ops_scheme \<Rightarrow> actor_id \<times> 'n actor_state \<Rightarrow> actor_kernel_status \<Rightarrow>
     actor_kernel_status" where
  "status_of_actor ops entry st =
     (let (a, actor) = entry;
          st1 = st\<lparr>aks_total_actors := aks_total_actors st + 1,
                   aks_room_actors := aks_room_actors st + (if is_room actor then 1 else 0),
                   aks_kernel_actors := aks_kernel_actors st + (if is_room actor then 0 else 1)\<rparr>;
          st2 = (case actor of Scope_Actor sc \<Rightarrow> status_of_scope ops sc st1 | _ \<Rightarrow> st1);
          st3 = (case actor of
                   Table_Actor t \<Rightarrow>
                     st2\<lparr>aks_table_scopes := aks_table_scopes st2 + bt_len (ta_scopes t),
                         aks_table_pending_splits := aks_table_pending_splits st2 + pending_split_count t\<rparr>
                 | _ \<Rightarrow> st2);
          accessed = actor_last_accessed_ms actor
      in st3\<lparr>aks_kind_counts := count_kind (kind_as_str (aid_kind a)) 1 (aks_kind_counts st3),
             aks_oldest_accessed_ms := or_extreme min accessed (aks_oldest_accessed_ms st3),
             aks_newest_accessed_ms := or_extreme max accessed (aks_newest_accessed_ms st3)\<rparr>)"

definition status_from_actors ::
  "('n, 'z) index_ops_scheme \<Rightarrow> 'n actor_map \<Rightarrow> actor_kernel_status" where
  "status_from_actors ops actors = fold (status_of_actor ops) (bt_entries actors) no_kernel_status"

definition merge_extreme :: "(u64 \<Rightarrow> u64 \<Rightarrow> u64) \<Rightarrow> u64 option \<Rightarrow> u64 option \<Rightarrow> u64 option" where
  "merge_extreme f found other = (case other of None \<Rightarrow> found | Some x \<Rightarrow> or_extreme f x found)"

definition merge_status :: "actor_kernel_status \<Rightarrow> actor_kernel_status \<Rightarrow> actor_kernel_status" where
  "merge_status st other =
     \<lparr>aks_total_actors = aks_total_actors st + aks_total_actors other,
      aks_room_actors = aks_room_actors st + aks_room_actors other,
      aks_kernel_actors = aks_kernel_actors st + aks_kernel_actors other,
      aks_scope_rows = aks_scope_rows st + aks_scope_rows other,
      aks_scope_bytes = aks_scope_bytes st + aks_scope_bytes other,
      aks_scope_ref_count = aks_scope_ref_count st + aks_scope_ref_count other,
      aks_subscribed_scopes = aks_subscribed_scopes st + aks_subscribed_scopes other,
      aks_lingering_scopes = aks_lingering_scopes st + aks_lingering_scopes other,
      aks_l1_scope_actors = aks_l1_scope_actors st + aks_l1_scope_actors other,
      aks_l3_scope_actors = aks_l3_scope_actors st + aks_l3_scope_actors other,
      aks_table_scopes = aks_table_scopes st + aks_table_scopes other,
      aks_table_pending_splits = aks_table_pending_splits st + aks_table_pending_splits other,
      aks_kind_counts =
        fold (\<lambda>(kind, n). count_kind kind n) (bt_entries (aks_kind_counts other)) (aks_kind_counts st),
      aks_oldest_accessed_ms =
        merge_extreme min (aks_oldest_accessed_ms st) (aks_oldest_accessed_ms other),
      aks_newest_accessed_ms =
        merge_extreme max (aks_newest_accessed_ms st) (aks_newest_accessed_ms other)\<rparr>"

fun shard_apply_messages ::
  "u64 \<Rightarrow> nat \<Rightarrow> (actor_id \<times> message list) list \<Rightarrow> nat \<times> 'n shard \<Rightarrow> nat \<times> 'n shard" where
  "shard_apply_messages now hot_window [] found = found"
| "shard_apply_messages now hot_window ((a, ms) # batches) (new_rooms, s) =
     (let new_rooms1 = (if \<not> bt_contains (sh_actors s) a \<and> aid_kind a = RoomKind
                        then new_rooms + 1 else new_rooms);
          (actor, s1) = ensure_actor now a s;
          s2 = (case actor of
                  Room_Actor r \<Rightarrow>
                    let (r1, seq1) = room_apply_messages now (sh_seq s1) hot_window ms r
                    in put_actor a (Room_Actor r1, seq1) s1
                | _ \<Rightarrow> s1)
      in shard_apply_messages now hot_window batches (new_rooms1, s2))"

definition shard_latest_messages ::
  "u64 \<Rightarrow> actor_id \<Rightarrow> u64 option \<Rightarrow> nat \<Rightarrow> 'n shard \<Rightarrow> message list \<times> 'n shard" where
  "shard_latest_messages now a before_lsn limit s =
     (case bt_get (sh_actors s) a of
        Some (Room_Actor r) \<Rightarrow>
          let (ms, r1, seq1) = (case before_lsn of
                Some lsn \<Rightarrow> room_before now (sh_seq s) lsn limit r
              | None \<Rightarrow> room_latest now (sh_seq s) limit r)
          in (ms, put_actor a (Room_Actor r1, seq1) s)
      | _ \<Rightarrow> ([], s))"

definition shard_room_statuses :: "'n shard \<Rightarrow> actor_room_status list" where
  "shard_room_statuses s =
     List.map_filter (\<lambda>(a, actor). case actor of
         Room_Actor r \<Rightarrow> Some (room_status (aid_key a) r) | _ \<Rightarrow> None)
       (bt_entries (sh_actors s))"

definition shard_evict_room :: "actor_id \<Rightarrow> 'n shard \<Rightarrow> bool \<times> 'n shard" where
  "shard_evict_room a s =
     (bt_contains (sh_actors s) a, s\<lparr>sh_actors := bt_remove a (sh_actors s)\<rparr>)"

definition truncate_room :: "nat \<Rightarrow> 'n actor_state \<Rightarrow> 'n actor_state" where
  "truncate_room hot_window actor =
     (case actor of Room_Actor r \<Rightarrow> Room_Actor (truncate_to hot_window r) | _ \<Rightarrow> actor)"

definition shard_truncate_all :: "nat \<Rightarrow> 'n shard \<Rightarrow> 'n shard" where
  "shard_truncate_all hot_window s =
     s\<lparr>sh_actors := bt_map (\<lambda>_. truncate_room hot_window) (sh_actors s)\<rparr>"

text \<open>A snapshot keeps the directory entries of a table and the rows of a scope as lists.\<close>

datatype 'n kernel_snapshot =
    Scope_Snapshot "'n db_record list" u64 u64 usize u64 residency_tier
  | Table_Snapshot "table_scope_entry list" u64 u64
  | Kernel_Snapshot u64 u64

type_synonym 'n snapshot_entry = "actor_id \<times> 'n kernel_snapshot"

fun snapshot_entry :: "actor_id \<Rightarrow> 'n actor_state \<Rightarrow> 'n snapshot_entry option" where
  "snapshot_entry a (Room_Actor r) = None"
| "snapshot_entry a (Scope_Actor sc) =
     Some (a, Scope_Snapshot (bt_values (sc_rows sc)) (sc_turn_count sc) (sc_last_accessed_ms sc)
                (sc_ref_count sc) (sc_lingering_until_ms sc) (sc_tier sc))"
| "snapshot_entry a (Table_Actor t) =
     Some (a, Table_Snapshot (bt_values (ta_scopes t)) (ta_turn_count t) (ta_last_accessed_ms t))"
| "snapshot_entry a (Kernel_Actor g) =
     Some (a, Kernel_Snapshot (ga_turn_count g) (ga_last_accessed_ms g))"

definition from_snapshot_entry :: "'n snapshot_entry \<Rightarrow> (actor_id \<times> 'n actor_state) option" where
  "from_snapshot_entry e =
     (let (a, state) = e in
      case (aid_kind a, state) of
        (ScopeKind, Scope_Snapshot rows turns accessed refs lingering tier) \<Rightarrow>
          Some (a, Scope_Actor
            \<lparr>sc_rows = bt_collect (map (\<lambda>r. (rec_key r, r)) rows), sc_turn_count = turns,
             sc_last_accessed_ms = accessed, sc_ref_count = refs,
             sc_lingering_until_ms = lingering, sc_tier = tier\<rparr>)
      | (TableKind, Table_Snapshot scopes turns accessed) \<Rightarrow>
          Some (a, Table_Actor
            \<lparr>ta_scopes = bt_collect (map (\<lambda>sc. (tse_scope_key sc, sc)) scopes),
             ta_turn_count = turns, ta_last_accessed_ms = accessed\<rparr>)
      | (ViewKind, Kernel_Snapshot turns accessed) \<Rightarrow>
          Some (a, Kernel_Actor \<lparr>ga_turn_count = turns, ga_last_accessed_ms = accessed\<rparr>)
      | (AggregateKind, Kernel_Snapshot turns accessed) \<Rightarrow>
          Some (a, Kernel_Actor \<lparr>ga_turn_count = turns, ga_last_accessed_ms = accessed\<rparr>)
      | _ \<Rightarrow> None)"

record room_snapshot =
  rsn_messages :: "message list"
  rsn_last_accessed_ms :: u64

definition shard_snapshot :: "'n shard \<Rightarrow> (string \<times> room_snapshot) list \<times> 'n snapshot_entry list" where
  "shard_snapshot s =
     (List.map_filter (\<lambda>(a, actor). case actor of
          Room_Actor r \<Rightarrow>
            Some (aid_key a, \<lparr>rsn_messages = room_messages r,
                              rsn_last_accessed_ms = room_last_accessed_ms r\<rparr>)
        | _ \<Rightarrow> None) (bt_entries (sh_actors s)),
      List.map_filter (\<lambda>(a, actor). snapshot_entry a actor) (bt_entries (sh_actors s)))"

definition kept_when_idle :: "u64 \<Rightarrow> u64 \<Rightarrow> 'n actor_state \<Rightarrow> bool" where
  "kept_when_idle ttl_ms now actor \<longleftrightarrow>
     \<not> is_room actor \<or> sat_sub now (actor_last_accessed_ms actor) \<le> ttl_ms"

definition shard_evict_idle :: "u64 \<Rightarrow> u64 \<Rightarrow> 'n shard \<Rightarrow> nat \<times> 'n shard" where
  "shard_evict_idle ttl_ms now s =
     (let kept = bt_retain (\<lambda>_. kept_when_idle ttl_ms now) (sh_actors s)
      in (bt_len (sh_actors s) - bt_len kept, s\<lparr>sh_actors := kept\<rparr>))"

text \<open>A candidate: its shard, its id and its last access.\<close>

type_synonym lru_candidate = "nat \<times> actor_id \<times> u64"

definition shard_lru_candidates :: "nat \<Rightarrow> 'n shard \<Rightarrow> lru_candidate list" where
  "shard_lru_candidates index s =
     map (\<lambda>(a, actor). (index, a, actor_last_accessed_ms actor))
       (filter (\<lambda>(a, actor). is_room actor) (bt_entries (sh_actors s)))"

fun shard_evict_rooms :: "actor_id list \<Rightarrow> nat \<times> 'n shard \<Rightarrow> nat \<times> 'n shard" where
  "shard_evict_rooms [] found = found"
| "shard_evict_rooms (a # ids) (evicted, s) =
     (let (found, s1) = shard_evict_room a s
      in shard_evict_rooms ids (if found then evicted + 1 else evicted, s1))"

end
