(* ===== verification/Actor_Runtime.thy ===== *)
theory Actor_Runtime
  imports Actor Record_Hot
begin

text \<open>
  The runtime that owns the shards of actors (\<open>actor.rs\<close>): which shard an actor lives on, the
  eviction of rooms, the split of scopes, reminders, snapshots and the replay of the log into
  the actors of a snapshot. A request of the runtime is a sequence of requests to shards; the
  shard threads are taken to be alive, so no request falls back.
\<close>

section \<open>Reminders\<close>

record 'n reminder_entry =
  re_actor_id :: actor_id
  re_reminder_id :: string
  re_due_at_ms :: u64
  re_payload :: "'n json option"

text \<open>The key of the wheel: due time, actor kind, actor key, reminder id, compared in that order.\<close>

type_synonym reminder_key = "u64 \<times> string \<times> string \<times> string"

type_synonym 'n reminder_wheel = "(reminder_key, 'n reminder_entry) btree"

definition reminder_key :: "'n reminder_entry \<Rightarrow> reminder_key" where
  "reminder_key e =
     (re_due_at_ms e, kind_as_str (aid_kind (re_actor_id e)), aid_key (re_actor_id e), re_reminder_id e)"

definition wheel_remove ::
  "actor_id \<Rightarrow> string \<Rightarrow> 'n reminder_wheel \<Rightarrow> 'n reminder_entry option \<times> 'n reminder_wheel" where
  "wheel_remove a reminder_id wheel =
     (case List.find (\<lambda>(k, e). re_actor_id e = a \<and> re_reminder_id e = reminder_id) (bt_entries wheel) of
        None \<Rightarrow> (None, wheel)
      | Some (k, _) \<Rightarrow> (bt_get wheel k, bt_remove k wheel))"

definition wheel_upsert :: "'n reminder_entry \<Rightarrow> 'n reminder_wheel \<Rightarrow> 'n reminder_wheel" where
  "wheel_upsert e wheel =
     bt_insert (reminder_key e) e (snd (wheel_remove (re_actor_id e) (re_reminder_id e) wheel))"

definition wheel_take_due ::
  "u64 \<Rightarrow> nat \<Rightarrow> 'n reminder_wheel \<Rightarrow> 'n reminder_entry list \<times> 'n reminder_wheel" where
  "wheel_take_due now limit wheel =
     (if limit = 0 then ([], wheel)
      else let due = take limit (takeWhile (\<lambda>(k, _). fst k \<le> now) (bt_entries wheel))
           in (map snd due, fold (\<lambda>(k, _). bt_remove k) due wheel))"

record 'n reminder_status =
  rs_pending :: nat
  rs_next_due_at_ms :: "u64 option"
  rs_reminders :: "'n reminder_entry list"

definition wheel_status :: "nat \<Rightarrow> 'n reminder_wheel \<Rightarrow> 'n reminder_status" where
  "wheel_status limit wheel =
     \<lparr>rs_pending = bt_len wheel,
      rs_next_due_at_ms = (case bt_keys wheel of [] \<Rightarrow> None | k # _ \<Rightarrow> Some (fst k)),
      rs_reminders = take limit (bt_values wheel)\<rparr>"

definition actor_id_from_wal_parts :: "string \<Rightarrow> string \<Rightarrow> actor_id option" where
  "actor_id_from_wal_parts actor_kind actor_key =
     (case kind_from_wal_str (trim actor_kind) of
        None \<Rightarrow> None
      | Some kind \<Rightarrow> if trim actor_key = [] then None else Some (Actor_Id kind (trim actor_key)))"

definition reminder_entry_from_draft :: "'n actor_reminder_draft \<Rightarrow> 'n reminder_entry option" where
  "reminder_entry_from_draft d =
     map_option (\<lambda>a. \<lparr>re_actor_id = a, re_reminder_id = ar_reminder_id d,
         re_due_at_ms = ar_due_at_ms d, re_payload = ar_payload d\<rparr>)
       (actor_id_from_wal_parts (ar_actor_kind d) (ar_actor_key d))"

definition remove_recorded :: "string \<Rightarrow> string \<Rightarrow> string \<Rightarrow> 'n reminder_wheel \<Rightarrow> 'n reminder_wheel" where
  "remove_recorded actor_kind actor_key reminder_id wheel =
     (case actor_id_from_wal_parts actor_kind actor_key of
        None \<Rightarrow> wheel | Some a \<Rightarrow> snd (wheel_remove a reminder_id wheel))"

definition replay_reminder ::
  "('n, 's, 'g) wal_record \<Rightarrow> 'n reminder_wheel \<Rightarrow> 'n reminder_wheel" where
  "replay_reminder w wheel =
     (case wr_payload w of
        ActorReminderScheduled d \<Rightarrow>
          (case reminder_entry_from_draft d of None \<Rightarrow> wheel | Some e \<Rightarrow> wheel_upsert e wheel)
      | ActorReminderCancelled kind key reminder_id _ \<Rightarrow> remove_recorded kind key reminder_id wheel
      | ActorReminderFired kind key reminder_id _ _ \<Rightarrow> remove_recorded kind key reminder_id wheel
      | _ \<Rightarrow> wheel)"

definition actor_reminders_from_wal_records ::
  "('n, 's, 'g) wal_record list \<Rightarrow> 'n reminder_entry list" where
  "actor_reminders_from_wal_records ws =
     bt_values (fold replay_reminder (sort_key wr_lsn ws) bt_empty)"

section \<open>The state of the runtime\<close>

record actor_config =
  ac_hot_window :: nat
  ac_max_hot_rooms :: nat
  ac_hot_room_idle_ttl_ms :: u64
  ac_split_rows :: nat
  ac_split_bytes :: nat

record sweep_status =
  sw_last_sweep_at_ms :: "u64 option"
  sw_last :: nat
  sw_total :: nat

record tier_status =
  tis_last_sweep_at_ms :: "u64 option"
  tis_last_tiered_down :: nat
  tis_last_cleared_rows :: nat
  tis_total_tiered_down :: nat
  tis_total_cleared_rows :: nat

definition no_sweep :: sweep_status where
  "no_sweep = \<lparr>sw_last_sweep_at_ms = None, sw_last = 0, sw_total = 0\<rparr>"

definition no_tier_sweep :: tier_status where
  "no_tier_sweep =
     \<lparr>tis_last_sweep_at_ms = None, tis_last_tiered_down = 0, tis_last_cleared_rows = 0,
      tis_total_tiered_down = 0, tis_total_cleared_rows = 0\<rparr>"

record 'n runtime =
  rt_seq :: u64
  rt_shards :: "'n actor_map list"
  rt_resident :: nat
  rt_config :: actor_config
  rt_idle_status :: sweep_status
  rt_tier_status :: tier_status
  rt_split_status :: sweep_status
  rt_wheel :: "'n reminder_wheel"
  rt_reminder_status :: sweep_status

definition record_sweep :: "u64 \<Rightarrow> nat \<Rightarrow> sweep_status \<Rightarrow> sweep_status" where
  "record_sweep swept_at n st =
     \<lparr>sw_last_sweep_at_ms = Some swept_at, sw_last = n, sw_total = sw_total st + n\<rparr>"

definition record_tier_sweep :: "u64 \<Rightarrow> nat \<times> nat \<Rightarrow> tier_status \<Rightarrow> tier_status" where
  "record_tier_sweep swept_at found st =
     \<lparr>tis_last_sweep_at_ms = Some swept_at, tis_last_tiered_down = fst found,
      tis_last_cleared_rows = snd found,
      tis_total_tiered_down = tis_total_tiered_down st + fst found,
      tis_total_cleared_rows = tis_total_cleared_rows st + snd found\<rparr>"

definition rt_split_policy :: "'n runtime \<Rightarrow> split_policy" where
  "rt_split_policy rt =
     \<lparr>sp_rows = ac_split_rows (rt_config rt), sp_bytes = ac_split_bytes (rt_config rt)\<rparr>"

text \<open>A request to one shard, with the stamp counter all shards share.\<close>

definition on_shard :: "nat \<Rightarrow> ('n shard \<Rightarrow> 'a \<times> 'n shard) \<Rightarrow> 'n runtime \<Rightarrow> 'a \<times> 'n runtime" where
  "on_shard i f rt =
     (let (x, s) = f \<lparr>sh_seq = rt_seq rt, sh_actors = rt_shards rt ! i\<rparr>
      in (x, rt\<lparr>rt_seq := sh_seq s, rt_shards := (rt_shards rt)[i := sh_actors s]\<rparr>))"

definition shard_index_of :: "(bytes \<Rightarrow> bytes) \<Rightarrow> actor_id \<Rightarrow> 'n runtime \<Rightarrow> nat" where
  "shard_index_of digest a rt = actor_shard_index digest a (length (rt_shards rt))"

definition shard_for_actor ::
  "(bytes \<Rightarrow> bytes) \<Rightarrow> actor_id \<Rightarrow> ('n shard \<Rightarrow> 'a \<times> 'n shard) \<Rightarrow> 'n runtime \<Rightarrow> 'a \<times> 'n runtime" where
  "shard_for_actor digest a f rt = on_shard (shard_index_of digest a rt) f rt"

definition room_id_of :: "string \<Rightarrow> actor_id" where
  "room_id_of room_id = Actor_Id RoomKind room_id"

section \<open>Eviction of rooms\<close>

fun each_shard :: "(nat \<Rightarrow> 'a \<Rightarrow> 'n runtime \<Rightarrow> 'a \<times> 'n runtime) \<Rightarrow> nat list \<Rightarrow> 'a \<Rightarrow> 'n runtime \<Rightarrow> 'a \<times> 'n runtime" where
  "each_shard f [] x rt = (x, rt)"
| "each_shard f (i # is) x rt = (let (x1, rt1) = f i x rt in each_shard f is x1 rt1)"

abbreviation all_shards :: "'n runtime \<Rightarrow> nat list" where
  "all_shards rt \<equiv> [0..<length (rt_shards rt)]"

definition lru_candidates :: "'n runtime \<Rightarrow> lru_candidate list" where
  "lru_candidates rt =
     concat (map (\<lambda>i. shard_lru_candidates i \<lparr>sh_seq = rt_seq rt, sh_actors = rt_shards rt ! i\<rparr>)
       (all_shards rt))"

definition lru_rank :: "lru_candidate \<Rightarrow> u64 \<times> string \<times> nat" where
  "lru_rank c = (case c of (i, a, accessed) \<Rightarrow> (accessed, aid_key a, i))"

definition evict_rooms_of :: "nat \<Rightarrow> actor_id list \<Rightarrow> nat \<Rightarrow> 'n runtime \<Rightarrow> nat \<times> 'n runtime" where
  "evict_rooms_of i ids evicted rt =
     (let (n, rt1) = on_shard i (\<lambda>s. shard_evict_rooms ids (0, s)) rt in (evicted + n, rt1))"

definition evict_lru_sharded_rooms :: "nat \<Rightarrow> 'n runtime \<Rightarrow> nat \<times> 'n runtime" where
  "evict_lru_sharded_rooms max_hot_rooms rt =
     (let candidates = lru_candidates rt; overflow = length candidates - max_hot_rooms in
      if overflow = 0 then (0, rt)
      else if max_hot_rooms = 0 then
        (length candidates,
         snd (each_shard (\<lambda>i n rt. evict_rooms_of i
             (map (fst \<circ> snd) (shard_lru_candidates i \<lparr>sh_seq = rt_seq rt, sh_actors = rt_shards rt ! i\<rparr>)) n rt)
           (all_shards rt) 0 rt))
      else
        let by_shard = fold (\<lambda>(i, a, _). bt_push i a) (take overflow (sort_key lru_rank candidates)) bt_empty
        in each_shard (\<lambda>i. evict_rooms_of i (bt_get_or by_shard i [])) (bt_keys by_shard) 0 rt)"

definition evict_idle_sharded_rooms :: "u64 \<Rightarrow> u64 \<Rightarrow> 'n runtime \<Rightarrow> nat \<times> 'n runtime" where
  "evict_idle_sharded_rooms ttl_ms now rt =
     (if ttl_ms = 0 then (0, rt)
      else each_shard (\<lambda>i evicted rt.
             let (n, rt1) = on_shard i (shard_evict_idle ttl_ms now) rt in (evicted + n, rt1))
           (all_shards rt) 0 rt)"

definition decrement_resident_rooms :: "nat \<Rightarrow> 'n runtime \<Rightarrow> 'n runtime" where
  "decrement_resident_rooms evicted rt = rt\<lparr>rt_resident := rt_resident rt - evicted\<rparr>"

definition enforce_capacity :: "nat \<Rightarrow> 'n runtime \<Rightarrow> 'n runtime" where
  "enforce_capacity max_hot_rooms rt =
     (if rt_resident rt \<le> max_hot_rooms then rt
      else let (evicted, rt1) = evict_lru_sharded_rooms max_hot_rooms rt
           in decrement_resident_rooms evicted rt1)"

definition evict_with_config :: "actor_config \<Rightarrow> u64 \<Rightarrow> 'n runtime \<Rightarrow> nat \<times> 'n runtime" where
  "evict_with_config config now rt =
     (let (lru, rt1) = evict_lru_sharded_rooms (ac_max_hot_rooms config) rt;
          (idle, rt2) = evict_idle_sharded_rooms (ac_hot_room_idle_ttl_ms config) now rt1
      in (lru + idle, decrement_resident_rooms (lru + idle) rt2))"

definition evict_idle_rooms :: "u64 \<Rightarrow> 'n runtime \<Rightarrow> nat \<times> 'n runtime" where
  "evict_idle_rooms now rt =
     (let ttl_ms = ac_hot_room_idle_ttl_ms (rt_config rt) in
      if ttl_ms = 0 then (0, rt)
      else
        let (evicted, rt1) = evict_idle_sharded_rooms ttl_ms now rt;
            rt2 = decrement_resident_rooms evicted rt1
        in (evicted, rt2\<lparr>rt_idle_status := record_sweep now evicted (rt_idle_status rt2)\<rparr>))"

section \<open>Requests about rooms\<close>

definition apply_message :: "(bytes \<Rightarrow> bytes) \<Rightarrow> u64 \<Rightarrow> message \<Rightarrow> 'n runtime \<Rightarrow> 'n runtime" where
  "apply_message digest now m rt =
     (let a = room_id_of (msg_room_id m);
          (new_rooms, rt1) = shard_for_actor digest a (\<lambda>s.
            shard_apply_messages now (ac_hot_window (rt_config rt)) [(a, [m])] (0, s)) rt
      in enforce_capacity (ac_max_hot_rooms (rt_config rt))
           (rt1\<lparr>rt_resident := rt_resident rt1 + new_rooms\<rparr>))"

definition room_batches :: "message list \<Rightarrow> (actor_id \<times> message list) list" where
  "room_batches ms = bt_entries (fold (\<lambda>m. bt_push (room_id_of (msg_room_id m)) m) ms bt_empty)"

definition apply_messages :: "(bytes \<Rightarrow> bytes) \<Rightarrow> u64 \<Rightarrow> message list \<Rightarrow> 'n runtime \<Rightarrow> 'n runtime" where
  "apply_messages digest now ms rt =
     (if ms = [] then rt
      else
        let by_shard = fold (\<lambda>(a, batch). bt_push (shard_index_of digest a rt) (a, batch))
              (room_batches ms) bt_empty;
            rt1 = snd (each_shard (\<lambda>i _ rt'.
              let (new_rooms, rt2) = on_shard i (\<lambda>s.
                    shard_apply_messages now (ac_hot_window (rt_config rt)) (bt_get_or by_shard i []) (0, s)) rt'
              in ((), rt2\<lparr>rt_resident := rt_resident rt2 + new_rooms\<rparr>)) (bt_keys by_shard) () rt)
        in enforce_capacity (ac_max_hot_rooms (rt_config rt)) rt1)"

definition run_actor_turn ::
  "(bytes \<Rightarrow> bytes) \<Rightarrow> u64 \<Rightarrow> actor_id \<Rightarrow> 'n kernel_message \<Rightarrow> 'n runtime \<Rightarrow>
     actor_turn_result \<times> 'n runtime" where
  "run_actor_turn digest now a msg rt =
     (let (result, rt1) = shard_for_actor digest a (shard_run_turn now (shard_index_of digest a rt) a msg) rt
      in (result,
          if aid_kind a = RoomKind \<and> atr_created result
          then enforce_capacity (ac_max_hot_rooms (rt_config rt)) (rt1\<lparr>rt_resident := rt_resident rt1 + 1\<rparr>)
          else rt1))"

definition latest_messages ::
  "(bytes \<Rightarrow> bytes) \<Rightarrow> u64 \<Rightarrow> string \<Rightarrow> u64 option \<Rightarrow> nat \<Rightarrow> 'n runtime \<Rightarrow>
     message list \<times> 'n runtime" where
  "latest_messages digest now room_id before_lsn limit rt =
     (let (_, rt1) = evict_idle_rooms now rt; a = room_id_of room_id
      in shard_for_actor digest a (shard_latest_messages now a before_lsn limit) rt1)"

definition room_statuses :: "'n runtime \<Rightarrow> actor_room_status list" where
  "room_statuses rt =
     sort_key (\<lambda>st. (- 1 - ars_last_accessed_ms st, ars_room_id st))
       (concat (map (\<lambda>actors. shard_room_statuses \<lparr>sh_seq = rt_seq rt, sh_actors = actors\<rparr>) (rt_shards rt)))"

definition has_room :: "(bytes \<Rightarrow> bytes) \<Rightarrow> string \<Rightarrow> 'n runtime \<Rightarrow> bool" where
  "has_room digest room_id rt =
     (let a = room_id_of room_id in bt_contains (rt_shards rt ! shard_index_of digest a rt) a)"

definition evict_room :: "(bytes \<Rightarrow> bytes) \<Rightarrow> string \<Rightarrow> 'n runtime \<Rightarrow> bool \<times> 'n runtime" where
  "evict_room digest room_id rt =
     (let a = room_id_of room_id; (evicted, rt1) = shard_for_actor digest a (shard_evict_room a) rt
      in (evicted, if evicted then decrement_resident_rooms 1 rt1 else rt1))"

definition kernel_status :: "('n, 'z) index_ops_scheme \<Rightarrow> 'n runtime \<Rightarrow> actor_kernel_status" where
  "kernel_status ops rt =
     fold (\<lambda>actors st. merge_status st (status_from_actors ops actors)) (rt_shards rt) no_kernel_status"

text \<open>\<open>split_rows\<close> and \<open>split_bytes\<close> are read from the process environment.\<close>

definition rt_reconfigure ::
  "u64 \<Rightarrow> nat \<Rightarrow> nat \<Rightarrow> nat \<Rightarrow> nat \<Rightarrow> u64 \<Rightarrow> 'n runtime \<Rightarrow> 'n runtime" where
  "rt_reconfigure now split_rows split_bytes hot_window max_hot_rooms ttl_ms rt =
     (let config = \<lparr>ac_hot_window = hot_window, ac_max_hot_rooms = max_hot_rooms,
            ac_hot_room_idle_ttl_ms = ttl_ms, ac_split_rows = split_rows, ac_split_bytes = split_bytes\<rparr>;
          rt1 = rt\<lparr>rt_config := config\<rparr>;
          rt2 = snd (each_shard (\<lambda>i _. on_shard i (\<lambda>s. ((), shard_truncate_all hot_window s)))
                  (all_shards rt1) () rt1);
          (evicted, rt3) = evict_with_config config now rt2
      in rt3\<lparr>rt_idle_status :=
           (if ttl_ms = 0 then no_sweep else record_sweep now evicted (rt_idle_status rt3))\<rparr>)"

section \<open>Requests about scopes\<close>

definition upsert_scope_on ::
  "('n, 'z) index_ops_scheme \<Rightarrow> (bytes \<Rightarrow> bytes) \<Rightarrow> u64 \<Rightarrow> actor_id \<Rightarrow> string \<Rightarrow> 'n db_record list \<Rightarrow>
     'n runtime \<Rightarrow> scope_rows_result \<times> 'n runtime" where
  "upsert_scope_on ops digest now table_id scope_key rows rt =
     (let a = Actor_Id ScopeKind scope_key
      in shard_for_actor digest a
           (shard_upsert_scope_rows ops now (shard_index_of digest a rt) table_id a rows) rt)"

definition upsert_table_scope_on ::
  "(bytes \<Rightarrow> bytes) \<Rightarrow> u64 \<Rightarrow> actor_id \<Rightarrow> string \<Rightarrow> nat \<Rightarrow> nat \<Rightarrow> u64 \<Rightarrow> split_policy \<Rightarrow> 'n runtime \<Rightarrow>
     table_scope_update \<times> 'n runtime" where
  "upsert_table_scope_on digest now table_id scope_key rows bytes accessed policy rt =
     shard_for_actor digest table_id
       (shard_upsert_table_scope now table_id scope_key rows bytes accessed policy) rt"

text \<open>
  The children of a split: two, of which each takes the rows whose key hashes to it; a child
  without rows is not created.
\<close>

definition child_rows ::
  "(bytes \<Rightarrow> bytes) \<Rightarrow> string \<Rightarrow> 'n db_record list \<Rightarrow> (string \<times> 'n db_record list) list" where
  "child_rows digest parent rows =
     bt_entries (fold (\<lambda>r. bt_push (split_child_scope_key digest parent (rec_key r) 2) r) rows
       (bt_collect (map (\<lambda>i. (child_scope_name parent i, [])) [0..<2])))"

fun fill_children ::
  "('n, 'z) index_ops_scheme \<Rightarrow> (bytes \<Rightarrow> bytes) \<Rightarrow> u64 \<Rightarrow> actor_id \<Rightarrow> split_policy \<Rightarrow> nat \<Rightarrow> u64 \<Rightarrow>
     (string \<times> 'n db_record list) list \<Rightarrow> child_update list \<times> string list \<Rightarrow> 'n runtime \<Rightarrow>
     (child_update list \<times> string list) \<times> 'n runtime" where
  "fill_children ops digest now table_id policy depth accessed [] found rt = (found, rt)"
| "fill_children ops digest now table_id policy depth accessed ((child, rows) # rest) (updates, next) rt =
     (let ((n, bytes, child_accessed), rt1) =
            (if rows = [] then ((0, 0, accessed), rt)
             else let (r, rt1) = upsert_scope_on ops digest now table_id child rows rt
                  in ((srr_rows r, srr_bytes r, srr_last_accessed_ms r), rt1));
          next1 = (if depth + 1 < max_scope_split_depth \<and> scope_exceeds_split_policy n bytes policy
                   then next @ [child] else next);
          update = \<lparr>cu_scope_key = child, cu_rows = n, cu_bytes = bytes,
                    cu_last_accessed_ms = child_accessed\<rparr>
      in fill_children ops digest now table_id policy depth accessed rest (updates @ [update], next1) rt1)"

definition stop_split ::
  "('n, 'z) index_ops_scheme \<Rightarrow> split_policy \<Rightarrow> nat \<Rightarrow> 'n db_record list \<Rightarrow> bool" where
  "stop_split ops policy depth rows \<longleftrightarrow>
     rows = [] \<or> depth \<ge> max_scope_split_depth
     \<or> \<not> scope_exceeds_split_policy (length rows) (records_estimated_bytes ops rows) policy"

definition drain_scope_on ::
  "(bytes \<Rightarrow> bytes) \<Rightarrow> u64 \<Rightarrow> string \<Rightarrow> 'n runtime \<Rightarrow> ('n db_record list \<times> u64) \<times> 'n runtime" where
  "drain_scope_on digest now scope_key rt =
     (let a = Actor_Id ScopeKind scope_key in shard_for_actor digest a (shard_drain_scope_rows now a) rt)"

text \<open>One round: a drained scope is put back, or its rows go to its two children.\<close>

definition split_round ::
  "('n, 'z) index_ops_scheme \<Rightarrow> (bytes \<Rightarrow> bytes) \<Rightarrow> u64 \<Rightarrow> actor_id \<Rightarrow> split_policy \<Rightarrow> string \<Rightarrow> nat \<Rightarrow>
     'n runtime \<Rightarrow> (table_scope_update \<times> string list) \<times> 'n runtime" where
  "split_round ops digest now table_id policy scope_key depth rt =
     (let ((rows, accessed), rt1) = drain_scope_on digest now scope_key rt in
      if stop_split ops policy depth rows then
        let (restored, rt2) = upsert_scope_on ops digest now table_id scope_key rows rt1;
            (update, rt3) = upsert_table_scope_on digest now table_id scope_key (length rows)
              (srr_bytes restored) (srr_last_accessed_ms restored) policy rt2
        in ((update, []), rt3)
      else
        let ((children, next), rt2) = fill_children ops digest now table_id policy depth accessed
              (child_rows digest scope_key rows) ([], []) rt1;
            (update, rt3) = shard_for_actor digest table_id
              (shard_split_table_scope now table_id scope_key children accessed policy) rt2
        in ((update, next), rt3))"

partial_function (option) split_loop ::
  "('n, 'z) index_ops_scheme \<Rightarrow> (bytes \<Rightarrow> bytes) \<Rightarrow> u64 \<Rightarrow> actor_id \<Rightarrow> split_policy \<Rightarrow>
     (string \<times> nat) list \<Rightarrow> table_scope_update \<Rightarrow> 'n runtime \<Rightarrow> (table_scope_update \<times> 'n runtime) option" where
  "split_loop ops digest now table_id policy pending update rt =
     (case pending of
        [] \<Rightarrow> Some (update, rt)
      | (scope_key, depth) # rest \<Rightarrow>
          (case split_round ops digest now table_id policy scope_key depth rt of
             ((update1, next), rt1) \<Rightarrow>
               split_loop ops digest now table_id policy
                 (rest @ map (\<lambda>child. (child, depth + 1)) next) update1 rt1))"

definition split_scope_rows ::
  "('n, 'z) index_ops_scheme \<Rightarrow> (bytes \<Rightarrow> bytes) \<Rightarrow> u64 \<Rightarrow> actor_id \<Rightarrow> string \<Rightarrow> split_policy \<Rightarrow>
     'n runtime \<Rightarrow> (table_scope_update \<times> 'n runtime) option" where
  "split_scope_rows ops digest now table_id scope_key policy rt =
     split_loop ops digest now table_id policy [(scope_key, 0)]
       (no_scope_update\<lparr>tsu_split_rows := sp_rows policy, tsu_split_bytes := sp_bytes policy\<rparr>) rt"

definition with_table_update :: "table_scope_update \<Rightarrow> scope_rows_result \<Rightarrow> scope_rows_result" where
  "with_table_update u r =
     r\<lparr>srr_table_scopes := tsu_table_scopes u, srr_table_pending_splits := tsu_pending_splits u,
       srr_scope_split_pending := tsu_split_pending u, srr_scope_split_rows := tsu_split_rows u,
       srr_scope_split_bytes := tsu_split_bytes u\<rparr>"

definition merge_scope_activation_result ::
  "scope_rows_result \<Rightarrow> scope_rows_result \<Rightarrow> scope_rows_result" where
  "merge_scope_activation_result agg r =
     agg\<lparr>srr_created := srr_created agg \<or> srr_created r,
         srr_requested := srr_requested agg + srr_requested r,
         srr_inserted := srr_inserted agg + srr_inserted r,
         srr_updated := srr_updated agg + srr_updated r,
         srr_rows := srr_rows agg + srr_rows r,
         srr_bytes := srr_bytes agg + srr_bytes r,
         srr_table_scopes := srr_table_scopes r,
         srr_table_pending_splits := srr_table_pending_splits r,
         srr_scope_split_pending := srr_scope_split_pending agg \<or> srr_scope_split_pending r,
         srr_scope_split_rows := srr_scope_split_rows r,
         srr_scope_split_bytes := srr_scope_split_bytes r,
         srr_turn_count := max (srr_turn_count agg) (srr_turn_count r),
         srr_last_accessed_ms := max (srr_last_accessed_ms agg) (srr_last_accessed_ms r)\<rparr>"

definition upsert_routed ::
  "('n, 'z) index_ops_scheme \<Rightarrow> (bytes \<Rightarrow> bytes) \<Rightarrow> u64 \<Rightarrow> actor_id \<Rightarrow> split_policy \<Rightarrow>
     string \<Rightarrow> 'n db_record list \<Rightarrow> 'n runtime \<Rightarrow> (scope_rows_result \<times> 'n runtime) option" where
  "upsert_routed ops digest now table_id policy scope_key rows rt =
     (let (result, rt1) = upsert_scope_on ops digest now table_id scope_key rows rt;
          (update, rt2) = upsert_table_scope_on digest now table_id scope_key (srr_rows result)
            (srr_bytes result) (srr_last_accessed_ms result) policy rt1
      in if tsu_split_pending update then
           (case split_scope_rows ops digest now table_id scope_key policy rt2 of
              None \<Rightarrow> None
            | Some (split, rt3) \<Rightarrow> Some (with_table_update split result, rt3))
         else Some (with_table_update update result, rt2))"

fun upsert_routed_all ::
  "('n, 'z) index_ops_scheme \<Rightarrow> (bytes \<Rightarrow> bytes) \<Rightarrow> u64 \<Rightarrow> actor_id \<Rightarrow> split_policy \<Rightarrow>
     (string \<times> 'n db_record list) list \<Rightarrow> scope_rows_result \<Rightarrow> 'n runtime \<Rightarrow>
     (scope_rows_result \<times> 'n runtime) option" where
  "upsert_routed_all ops digest now table_id policy [] agg rt = Some (agg, rt)"
| "upsert_routed_all ops digest now table_id policy ((scope_key, rows) # rest) agg rt =
     (case upsert_routed ops digest now table_id policy scope_key rows rt of
        None \<Rightarrow> None
      | Some (result, rt1) \<Rightarrow>
          upsert_routed_all ops digest now table_id policy rest (merge_scope_activation_result agg result) rt1)"

definition upsert_scope_rows ::
  "('n, 'z) index_ops_scheme \<Rightarrow> (bytes \<Rightarrow> bytes) \<Rightarrow> u64 \<Rightarrow> string \<Rightarrow> string \<Rightarrow> 'n db_record list \<Rightarrow>
     'n runtime \<Rightarrow> (scope_rows_result \<times> 'n runtime) option" where
  "upsert_scope_rows ops digest now table_key scope_key rows rt =
     (let table_id = Actor_Id TableKind table_key; policy = rt_split_policy rt;
          (routed, rt1) = shard_for_actor digest table_id (shard_route_scope_rows digest table_id scope_key rows) rt
      in upsert_routed_all ops digest now table_id policy routed
           \<lparr>srr_actor_id = Actor_Id ScopeKind scope_key, srr_table_actor_id = table_id,
            srr_shard_index = shard_index_of digest table_id rt, srr_created = False, srr_requested = 0,
            srr_inserted = 0, srr_updated = 0, srr_rows = 0, srr_bytes = 0, srr_table_scopes = 0,
            srr_table_pending_splits = 0, srr_scope_split_pending = False,
            srr_scope_split_rows = sp_rows policy, srr_scope_split_bytes = sp_bytes policy,
            srr_turn_count = 0, srr_last_accessed_ms = 0\<rparr> rt1)"

definition retain_scope_subscription ::
  "('n, 'z) index_ops_scheme \<Rightarrow> (bytes \<Rightarrow> bytes) \<Rightarrow> u64 \<Rightarrow> string \<Rightarrow> string \<Rightarrow> 'n runtime \<Rightarrow>
     scope_residency_result \<times> 'n runtime" where
  "retain_scope_subscription ops digest now table_key scope_key rt =
     (let a = Actor_Id ScopeKind scope_key
      in shard_for_actor digest a
           (shard_retain_scope ops now (shard_index_of digest a rt) (Actor_Id TableKind table_key) a) rt)"

definition release_scope_subscription ::
  "('n, 'z) index_ops_scheme \<Rightarrow> (bytes \<Rightarrow> bytes) \<Rightarrow> u64 \<Rightarrow> string \<Rightarrow> string \<Rightarrow> u64 \<Rightarrow> 'n runtime \<Rightarrow>
     scope_residency_result \<times> 'n runtime" where
  "release_scope_subscription ops digest now table_key scope_key linger_ms rt =
     (let a = Actor_Id ScopeKind scope_key
      in shard_for_actor digest a
           (shard_release_scope ops now (shard_index_of digest a rt) (Actor_Id TableKind table_key) a linger_ms) rt)"

definition tier_down_idle_scopes :: "u64 \<Rightarrow> nat \<Rightarrow> 'n runtime \<Rightarrow> nat \<times> 'n runtime" where
  "tier_down_idle_scopes now limit rt =
     (if limit = 0 then (0, rt)
      else
        let ((tiered, cleared), rt1) = each_shard (\<lambda>i (tiered, cleared) rt.
              if limit - tiered = 0 then ((tiered, cleared), rt)
              else let ((n, c), rt1) = on_shard i (shard_tier_down_idle_scopes now (limit - tiered)) rt
                   in ((tiered + n, cleared + c), rt1)) (all_shards rt) (0, 0) rt
        in (tiered, rt1\<lparr>rt_tier_status := record_tier_sweep now (tiered, cleared) (rt_tier_status rt1)\<rparr>))"

definition pending_splits :: "u64 \<Rightarrow> nat \<Rightarrow> 'n runtime \<Rightarrow> (actor_id \<times> string) list \<times> 'n runtime" where
  "pending_splits now limit rt =
     each_shard (\<lambda>i found rt.
         if limit - length found = 0 then (found, rt)
         else let (more, rt1) = on_shard i (shard_pending_table_splits (limit - length found) now) rt
              in (found @ more, rt1)) (all_shards rt) [] rt"

fun split_each ::
  "('n, 'z) index_ops_scheme \<Rightarrow> (bytes \<Rightarrow> bytes) \<Rightarrow> u64 \<Rightarrow> split_policy \<Rightarrow> (actor_id \<times> string) list \<Rightarrow>
     nat \<Rightarrow> 'n runtime \<Rightarrow> (nat \<times> 'n runtime) option" where
  "split_each ops digest now policy [] processed rt = Some (processed, rt)"
| "split_each ops digest now policy ((table_id, scope_key) # rest) processed rt =
     (case split_scope_rows ops digest now table_id scope_key policy rt of
        None \<Rightarrow> None
      | Some (_, rt1) \<Rightarrow> split_each ops digest now policy rest (processed + 1) rt1)"

definition split_pending_scopes ::
  "('n, 'z) index_ops_scheme \<Rightarrow> (bytes \<Rightarrow> bytes) \<Rightarrow> u64 \<Rightarrow> nat \<Rightarrow> 'n runtime \<Rightarrow> (nat \<times> 'n runtime) option" where
  "split_pending_scopes ops digest now limit rt =
     (if limit = 0 then Some (0, rt)
      else
        let (found, rt1) = pending_splits now limit rt;
            candidates = take limit (sort_key (\<lambda>(a, scope_key). (route_key a, scope_key)) found)
        in map_option (\<lambda>(processed, rt2).
               (processed, rt2\<lparr>rt_split_status := record_sweep now processed (rt_split_status rt2)\<rparr>))
             (split_each ops digest now (rt_split_policy rt) candidates 0 rt1))"

section \<open>Reminders of the runtime\<close>

definition schedule_reminder :: "'n reminder_entry \<Rightarrow> 'n runtime \<Rightarrow> 'n runtime" where
  "schedule_reminder e rt = rt\<lparr>rt_wheel := wheel_upsert e (rt_wheel rt)\<rparr>"

definition cancel_reminder :: "actor_id \<Rightarrow> string \<Rightarrow> 'n runtime \<Rightarrow> bool \<times> 'n runtime" where
  "cancel_reminder a reminder_id rt =
     (let (found, wheel) = wheel_remove a reminder_id (rt_wheel rt)
      in (found \<noteq> None, rt\<lparr>rt_wheel := wheel\<rparr>))"

definition take_due_reminders :: "u64 \<Rightarrow> nat \<Rightarrow> 'n runtime \<Rightarrow> 'n reminder_entry list \<times> 'n runtime" where
  "take_due_reminders now limit rt =
     (let (due, wheel) = wheel_take_due now limit (rt_wheel rt) in (due, rt\<lparr>rt_wheel := wheel\<rparr>))"

definition requeue_reminders :: "'n reminder_entry list \<Rightarrow> 'n runtime \<Rightarrow> 'n runtime" where
  "requeue_reminders es rt = (if es = [] then rt else rt\<lparr>rt_wheel := fold wheel_upsert es (rt_wheel rt)\<rparr>)"

definition record_reminder_sweep :: "u64 \<Rightarrow> nat \<Rightarrow> 'n runtime \<Rightarrow> 'n runtime" where
  "record_reminder_sweep swept_at fired rt =
     rt\<lparr>rt_reminder_status := record_sweep swept_at fired (rt_reminder_status rt)\<rparr>"

section \<open>Snapshots, restart and the tail of the log\<close>

record 'n actor_snapshot =
  asn_lsn :: u64
  asn_schema_version :: u32
  asn_record_hot :: "'n hot_snapshot option"
  asn_rooms :: "(string, room_snapshot) btree"
  asn_actor_states :: "'n snapshot_entry list"

definition snapshot_with_schema :: "u64 \<Rightarrow> u64 \<Rightarrow> u32 \<Rightarrow> 'n runtime \<Rightarrow> 'n actor_snapshot \<times> 'n runtime" where
  "snapshot_with_schema now lsn schema_version rt =
     (let (_, rt1) = evict_idle_rooms now rt;
          parts = map (\<lambda>actors. shard_snapshot \<lparr>sh_seq = rt_seq rt1, sh_actors = actors\<rparr>) (rt_shards rt1)
      in (\<lparr>asn_lsn = lsn, asn_schema_version = schema_version, asn_record_hot = None,
           asn_rooms = bt_collect (concat (map fst parts)), asn_actor_states = concat (map snd parts)\<rparr>, rt1))"

definition restored_room :: "u64 \<Rightarrow> room_snapshot \<Rightarrow> room_live" where
  "restored_room restored_at r =
     \<lparr>room_messages = rsn_messages r,
      room_last_accessed_ms =
        (if rsn_last_accessed_ms r = 0 then restored_at else rsn_last_accessed_ms r)\<rparr>"

definition into_runtime_state ::
  "u64 \<Rightarrow> 'n actor_snapshot \<Rightarrow> (string, room_live) btree \<times> 'n snapshot_entry list" where
  "into_runtime_state now snap =
     (bt_map (\<lambda>_. restored_room now) (asn_rooms snap), asn_actor_states snap)"

definition evict_lru_rooms :: "nat \<Rightarrow> (string, room_live) btree \<Rightarrow> (string, room_live) btree" where
  "evict_lru_rooms max_hot_rooms rooms =
     (let overflow = bt_len rooms - max_hot_rooms in
      if overflow = 0 then rooms
      else if max_hot_rooms = 0 then bt_empty
      else fold (\<lambda>c. bt_remove (snd c))
             (take overflow (sort_key id (map (\<lambda>(room_id, r). (room_last_accessed_ms r, room_id))
                (bt_entries rooms)))) rooms)"

definition evict_idle_restored ::
  "u64 \<Rightarrow> u64 \<Rightarrow> (string, room_live) btree \<Rightarrow> (string, room_live) btree" where
  "evict_idle_restored ttl_ms now rooms =
     (if ttl_ms = 0 then rooms
      else bt_retain (\<lambda>_ r. sat_sub now (room_last_accessed_ms r) \<le> ttl_ms) rooms)"

definition place_actor ::
  "(bytes \<Rightarrow> bytes) \<Rightarrow> actor_id \<times> 'n actor_state \<Rightarrow> 'n actor_map list \<Rightarrow> 'n actor_map list" where
  "place_actor digest entry shards =
     (let i = actor_shard_index digest (fst entry) (length shards)
      in shards[i := bt_insert (fst entry) (snd entry) (shards ! i)])"

definition runtime_new ::
  "(bytes \<Rightarrow> bytes) \<Rightarrow> u64 \<Rightarrow> u64 \<Rightarrow> actor_config \<Rightarrow> (string, room_live) btree \<Rightarrow>
     'n snapshot_entry list \<Rightarrow> 'n reminder_entry list \<Rightarrow> nat \<Rightarrow> 'n runtime" where
  "runtime_new digest now seq config rooms states reminders shard_count =
     (let kept = evict_idle_restored (ac_hot_room_idle_ttl_ms config) now
            (evict_lru_rooms (ac_max_hot_rooms config) rooms);
          placed = fold (place_actor digest)
            (map (\<lambda>(room_id, r). (room_id_of room_id, Room_Actor r)) (bt_entries kept)
             @ List.map_filter from_snapshot_entry states)
            (replicate (max shard_count 1) bt_empty)
      in \<lparr>rt_seq = seq, rt_shards = placed,
          rt_resident = length (filter is_room (concat (map bt_values placed))),
          rt_config = config, rt_idle_status = no_sweep, rt_tier_status = no_tier_sweep,
          rt_split_status = no_sweep, rt_wheel = fold wheel_upsert reminders bt_empty,
          rt_reminder_status = no_sweep\<rparr>)"

text \<open>
  The records after a snapshot are applied to its actors, the last change of every path only.
  The actors are one map here, with the stamp counter beside them.
\<close>

datatype 'n actor_change = Actor_Upsert "'n db_record" | Actor_Delete string string

definition change_of_mutation ::
  "u64 \<Rightarrow> 'n db_record_mutation_draft \<Rightarrow> string \<times> 'n actor_change" where
  "change_of_mutation lsn m =
     (case m of
        MutUpsert d \<Rightarrow> (rd_path d, Actor_Upsert (record_of_draft d lsn))
      | MutDelete d \<Rightarrow> (dd_path d, Actor_Delete (dd_table d) (dd_key d)))"

definition changes_of_record :: "('n, 's, 'g) wal_record \<Rightarrow> (string \<times> 'n actor_change) list" where
  "changes_of_record w =
     (case wr_payload w of
        RecordUpserted d \<Rightarrow> [change_of_mutation (wr_lsn w) (MutUpsert d)]
      | RecordDeleted d \<Rightarrow> [change_of_mutation (wr_lsn w) (MutDelete d)]
      | RecordTransactionCommitted ms _ \<Rightarrow> map (change_of_mutation (wr_lsn w)) ms
      | _ \<Rightarrow> [])"

definition routed_record_scope_key ::
  "(bytes \<Rightarrow> bytes) \<Rightarrow> 'n actor_map \<Rightarrow> actor_id \<Rightarrow> string \<Rightarrow> string \<Rightarrow> string" where
  "routed_record_scope_key digest actors table_id base_scope_key key =
     (case bt_get actors table_id of
        Some (Table_Actor t) \<Rightarrow> route_record_scope_key digest t base_scope_key key
      | _ \<Rightarrow> base_scope_key)"

text \<open>What follows a change of the rows of a scope: its entry in the directory.\<close>

definition note_scope_change ::
  "('n, 'z) index_ops_scheme \<Rightarrow> u64 \<Rightarrow> split_policy \<Rightarrow> actor_id \<Rightarrow> string \<Rightarrow> 'n scope_actor \<times> u64 \<Rightarrow>
     'n shard \<Rightarrow> 'n shard" where
  "note_scope_change ops now policy table_id scope_key sc_seq s =
     (let s1 = put_actor (Actor_Id ScopeKind scope_key) (Scope_Actor (fst sc_seq), snd sc_seq) s
      in snd (shard_upsert_table_scope now table_id scope_key (bt_len (sc_rows (fst sc_seq)))
           (scope_rows_estimated_bytes ops (sc_rows (fst sc_seq))) (sc_last_accessed_ms (fst sc_seq)) policy s1))"

definition untracked :: "'n actor_map \<Rightarrow> actor_id \<Rightarrow> string \<Rightarrow> string \<Rightarrow> bool" where
  "untracked actors table_id scope_key base_scope_key \<longleftrightarrow>
     \<not> bt_contains actors table_id \<and> \<not> bt_contains actors (Actor_Id ScopeKind scope_key)
     \<and> \<not> bt_contains actors (Actor_Id ScopeKind base_scope_key)"

definition apply_record_upsert_to_actors ::
  "('n, 'z) index_ops_scheme \<Rightarrow> (bytes \<Rightarrow> bytes) \<Rightarrow> u64 \<Rightarrow> split_policy \<Rightarrow> 'n db_record \<Rightarrow>
     'n shard \<Rightarrow> 'n shard" where
  "apply_record_upsert_to_actors ops digest now policy r s =
     (let table_id = Actor_Id TableKind (record_actor_table_key (rec_table r));
          base = record_actor_scope_key digest (rec_table r) (rec_key r);
          scope_key = routed_record_scope_key digest (sh_actors s) table_id base (rec_key r)
      in if untracked (sh_actors s) table_id scope_key base then s
         else case ensure_actor now (Actor_Id ScopeKind scope_key) s of
           (Scope_Actor sc, s1) \<Rightarrow>
             note_scope_change ops now policy table_id scope_key
               (scope_touch now (sh_seq s1) (sc\<lparr>sc_rows := bt_insert (rec_key r) r (sc_rows sc)\<rparr>)) s1
         | (_, s1) \<Rightarrow> s1)"

definition apply_record_delete_to_actors ::
  "('n, 'z) index_ops_scheme \<Rightarrow> (bytes \<Rightarrow> bytes) \<Rightarrow> u64 \<Rightarrow> split_policy \<Rightarrow> string \<Rightarrow> string \<Rightarrow>
     'n shard \<Rightarrow> 'n shard" where
  "apply_record_delete_to_actors ops digest now policy table key s =
     (let table_id = Actor_Id TableKind (record_actor_table_key table);
          base = record_actor_scope_key digest table key;
          scope_key = routed_record_scope_key digest (sh_actors s) table_id base key
      in if untracked (sh_actors s) table_id scope_key base then s
         else case bt_get (sh_actors s) (Actor_Id ScopeKind scope_key) of
           Some (Scope_Actor sc) \<Rightarrow>
             if \<not> bt_contains (sc_rows sc) key then s
             else note_scope_change ops now policy table_id scope_key
                    (scope_touch now (sh_seq s) (sc\<lparr>sc_rows := bt_remove key (sc_rows sc)\<rparr>)) s
         | _ \<Rightarrow> s)"

definition apply_actor_change ::
  "('n, 'z) index_ops_scheme \<Rightarrow> (bytes \<Rightarrow> bytes) \<Rightarrow> u64 \<Rightarrow> split_policy \<Rightarrow> 'n actor_change \<Rightarrow>
     'n shard \<Rightarrow> 'n shard" where
  "apply_actor_change ops digest now policy c s =
     (case c of
        Actor_Upsert r \<Rightarrow> apply_record_upsert_to_actors ops digest now policy r s
      | Actor_Delete table key \<Rightarrow> apply_record_delete_to_actors ops digest now policy table key s)"

definition apply_wal_tail_to_actors ::
  "('n, 'z) index_ops_scheme \<Rightarrow> (bytes \<Rightarrow> bytes) \<Rightarrow> u64 \<Rightarrow> split_policy \<Rightarrow>
     ('n, 's, 'g) wal_record list \<Rightarrow> 'n shard \<Rightarrow> 'n shard" where
  "apply_wal_tail_to_actors ops digest now policy ws s =
     fold (apply_actor_change ops digest now policy)
       (bt_values (bt_collect (concat (map changes_of_record ws)))) s"

definition actor_states_with_wal_tail ::
  "('n, 'z) index_ops_scheme \<Rightarrow> (bytes \<Rightarrow> bytes) \<Rightarrow> u64 \<Rightarrow> u64 \<Rightarrow> split_policy \<Rightarrow>
     'n snapshot_entry list \<Rightarrow> ('n, 's, 'g) wal_record list \<Rightarrow> 'n snapshot_entry list" where
  "actor_states_with_wal_tail ops digest now seq policy states ws =
     List.map_filter (\<lambda>(a, actor). snapshot_entry a actor)
       (bt_entries (sh_actors (apply_wal_tail_to_actors ops digest now policy ws
          \<lparr>sh_seq = seq, sh_actors = bt_collect (List.map_filter from_snapshot_entry states)\<rparr>)))"

end
