(* ===== verification/Actor_Rooms.thy ===== *)
theory Actor_Rooms
  imports Actor_Runtime "HOL-Library.Multiset"
begin

text \<open>
  The rooms of the actor runtime: a room holds the newest messages applied to it, and the number
  of rooms in memory is counted exactly and never above the configured maximum.
\<close>

section \<open>Sorting messages\<close>

text \<open>Messages of the log: with an LSN, and no LSN twice.\<close>

definition logged_messages :: "message list \<Rightarrow> bool" where
  "logged_messages ms \<longleftrightarrow> (\<forall>m\<in>set ms. msg_lsn m > 0) \<and> distinct (map msg_lsn ms)"

definition newest :: "nat \<Rightarrow> message list \<Rightarrow> message list" where
  "newest n ms = drop (length ms - n) (sort_key msg_lsn ms)"

lemma logged_append:
  "logged_messages (xs @ ys) \<longleftrightarrow>
     logged_messages xs \<and> logged_messages ys \<and> msg_lsn ` set xs \<inter> msg_lsn ` set ys = {}"
  by (auto simp: logged_messages_def)

lemma logged_mset: "mset xs = mset ys \<Longrightarrow> logged_messages xs = logged_messages ys"
  unfolding logged_messages_def
  by (metis mset_map mset_eq_imp_distinct_iff set_mset_mset)

lemma compare_logged:
  assumes "msg_lsn a > 0" "msg_lsn b > 0"
  shows "compare_message_order a b \<noteq> Greater_Than \<longleftrightarrow> msg_lsn a \<le> msg_lsn b"
  using assms by (auto simp: compare_message_order_def)

lemma insert_by_logged:
  assumes "msg_lsn x > 0" "\<forall>m\<in>set ms. msg_lsn m > 0"
  shows "insert_by compare_message_order x ms = insort_key msg_lsn x ms"
  using assms
proof (induction ms)
  case (Cons y ys)
  then have "compare_message_order x y = Greater_Than \<longleftrightarrow> \<not> msg_lsn x \<le> msg_lsn y"
    using compare_logged [of x y] by auto
  with Cons show ?case by simp
qed simp

lemma sort_by_logged:
  assumes "\<forall>m\<in>set ms. msg_lsn m > 0"
  shows "sort_by compare_message_order ms = sort_key msg_lsn ms"
proof -
  have "foldr (insert_by compare_message_order) ms [] = foldr (insort_key msg_lsn) ms []"
    using assms
  proof (induction ms)
    case (Cons m ms)
    have "\<forall>x\<in>set (foldr (insort_key msg_lsn) ms []). msg_lsn x > 0"
      using Cons.prems by (simp flip: sort_key_def)
    with Cons show ?case by (simp add: insert_by_logged)
  qed simp
  then show ?thesis by (simp add: sort_by_def sort_key_def)
qed

lemma sorted_by_order_logged:
  assumes "\<forall>m\<in>set ms. msg_lsn m > 0"
  shows "messages_are_sorted_by_order ms \<longleftrightarrow> sorted (map msg_lsn ms)"
  using assms
proof (induction ms rule: messages_are_sorted_by_order.induct)
  case (1 a b ms)
  then have "compare_message_order a b \<noteq> Greater_Than \<longleftrightarrow> msg_lsn a \<le> msg_lsn b"
    by (simp add: compare_logged)
  with 1 show ?case by (auto dest: order_trans)
qed simp_all

lemma sorted_last:
  assumes "sorted (map f xs)" "x \<in> set xs"
  shows "f x \<le> f (last xs)"
  using assms by (induction xs) auto

lemma appended_in_order:
  assumes "logged_messages (held @ ms)" "sorted (map msg_lsn held)" "can_append_in_order held ms"
  shows "sorted (map msg_lsn (held @ ms))"
proof (cases "held = [] \<or> ms = []")
  case True
  then show ?thesis
    using assms by (auto simp: can_append_in_order_def logged_append logged_messages_def sorted_by_order_logged)
next
  case False
  have ms: "sorted (map msg_lsn ms)"
    using assms by (simp add: can_append_in_order_def logged_append logged_messages_def sorted_by_order_logged)
  have "msg_lsn (last held) \<le> msg_lsn (hd ms)"
    using assms(1,3) False
    by (auto simp: can_append_in_order_def logged_messages_def compare_logged)
  then have "msg_lsn x \<le> msg_lsn y" if "x \<in> set held" "y \<in> set ms" for x y
  proof -
    have "msg_lsn x \<le> msg_lsn (last held)"
      using assms(2) that(1) by (rule sorted_last)
    moreover have "msg_lsn (hd ms) \<le> msg_lsn y"
      using ms that False by (cases ms) auto
    ultimately show ?thesis using \<open>msg_lsn (last held) \<le> msg_lsn (hd ms)\<close> by simp
  qed
  with ms assms(2) show ?thesis by (auto simp: sorted_append)
qed

lemma sorted_sort_key_id:
  assumes "sorted (map f xs)"
  shows "sort_key f xs = xs"
  using assms by (induction xs) (simp_all add: insort_is_Cons)

lemma held_after_append:
  assumes "logged_messages (held @ ms)" "sorted (map msg_lsn held)"
  shows "(if can_append_in_order held ms then held @ ms
          else sort_by compare_message_order (held @ ms)) = sort_key msg_lsn (held @ ms)"
proof (cases "can_append_in_order held ms")
  case True
  then show ?thesis
    using appended_in_order [OF assms True] by (simp add: sorted_sort_key_id del: map_append)
next
  case False
  have "\<forall>m\<in>set (held @ ms). msg_lsn m > 0"
    using assms(1) by (simp add: logged_messages_def)
  with False show ?thesis by (simp add: sort_by_logged)
qed

text \<open>Keeping the newest of a part first does not change the newest of the whole.\<close>

definition newer :: "message list \<Rightarrow> message \<Rightarrow> message set" where
  "newer ms m = {x \<in> set ms. msg_lsn m < msg_lsn x}"

lemma in_last_part:
  assumes "sorted (map msg_lsn ms)" "distinct (map msg_lsn ms)"
  shows "m \<in> set (drop (length ms - n) ms) \<longleftrightarrow> m \<in> set ms \<and> card (newer ms m) < n"
  using assms
proof (induction ms)
  case (Cons x ms)
  have less: "msg_lsn x < msg_lsn y" if "y \<in> set ms" for y
    using Cons.prems that by (auto simp: less_le image_iff)
  have old: "newer (x # ms) y = newer ms y" if "y \<in> set ms" for y
    using less [OF that] by (auto simp: newer_def)
  have first: "newer (x # ms) x = set ms"
    using less by (auto simp: newer_def)
  have count: "card (set ms) = length ms"
    using Cons.prems(2) by (metis distinct_card distinct_map list.simps(9) distinct.simps(2))
  have "x \<notin> set ms" using less by blast
  show ?case
  proof (cases "length ms < n")
    case True
    have "card (newer (x # ms) m) < n" if "m \<in> set (x # ms)"
    proof -
      have "newer (x # ms) m \<subseteq> set ms"
        using that old first by (auto simp: newer_def)
      then have "card (newer (x # ms) m) \<le> length ms"
        using count by (metis List.finite_set card_mono)
      with True show ?thesis by simp
    qed
    then show ?thesis using True by auto
  next
    case False
    then have "drop (length (x # ms) - n) (x # ms) = drop (length ms - n) ms"
      by (simp add: Suc_diff_le)
    moreover have "\<not> card (newer (x # ms) x) < n" using False first count by simp
    moreover have "set (drop (length ms - n) ms) \<subseteq> set ms" by (rule set_drop_subset)
    ultimately show ?thesis
      using Cons.IH Cons.prems old \<open>x \<notin> set ms\<close> by auto
  qed
qed simp

lemma distinct_sort_key [simp]: "distinct (map f (sort_key f xs)) \<longleftrightarrow> distinct (map f xs)"
  by (metis mset_map mset_sort mset_eq_imp_distinct_iff)

lemma newest_set:
  assumes "logged_messages ms"
  shows "set (newest n ms) = {m \<in> set ms. card (newer ms m) < n}"
proof -
  have "newer (sort_key msg_lsn ms) = newer ms" by (simp add: newer_def fun_eq_iff)
  then show ?thesis
    using in_last_part [of "sort_key msg_lsn ms" _ n] assms
    by (auto simp: newest_def logged_messages_def)
qed

lemma newest_sorted: "sorted (map msg_lsn (newest n ms))"
  by (simp add: newest_def drop_map [symmetric] sorted_wrt_drop)

lemma newest_distinct: "logged_messages ms \<Longrightarrow> distinct (map msg_lsn (newest n ms))"
  by (simp add: newest_def drop_map [symmetric] logged_messages_def distinct_drop)

lemma newest_subset: "set (newest n ms) \<subseteq> set ms"
  unfolding newest_def by (metis set_drop_subset set_sort)

lemma newest_logged: "logged_messages ms \<Longrightarrow> logged_messages (newest n ms)"
  using newest_subset newest_distinct by (fastforce simp: logged_messages_def)

lemma newest_length: "length (newest n ms) \<le> n"
  by (simp add: newest_def)

lemma newest_unique:
  assumes "logged_messages xs" "logged_messages ys" "set (newest n xs) = set (newest n ys)"
  shows "newest n xs = newest n ys"
proof (rule map_sorted_distinct_set_unique [OF _ newest_sorted _ newest_sorted])
  show "inj_on msg_lsn (set (newest n xs) \<union> set (newest n ys))"
    using newest_distinct [OF assms(1), of n] assms(3) by (simp add: distinct_map)
  show "distinct (map msg_lsn (newest n xs))" "distinct (map msg_lsn (newest n ys))"
    using newest_distinct assms(1,2) by auto
qed (use assms in auto)

lemma newest_again:
  assumes "logged_messages (xs @ ys)"
  shows "newest n (newest n xs @ ys) = newest n (xs @ ys)"
proof (rule newest_unique)
  have xs: "logged_messages xs" using assms by (simp add: logged_append)
  show part: "logged_messages (newest n xs @ ys)"
    using assms newest_logged [OF xs] newest_subset [of n xs]
    by (fastforce simp: logged_append)
  show whole: "logged_messages (xs @ ys)" by (rule assms)
  let ?C = "newest n xs @ ys" and ?W = "xs @ ys"
  have sub: "newer ?C m \<subseteq> newer ?W m" for m
    using newest_subset [of n xs] by (auto simp: newer_def)
  have fin: "finite (newer zs m)" for zs m by (simp add: newer_def)
  have lost: "n \<le> card (newer ?C m)" if "x \<in> set xs" "x \<notin> set (newest n xs)" "msg_lsn m \<le> msg_lsn x" for x m
  proof -
    have full: "n \<le> card (newer xs x)" using that(1,2) newest_set [OF xs, of n] by auto
    then have "n < length xs"
    proof -
      have "newer xs x \<subset> set xs" using that(1) by (auto simp: newer_def)
      then have "card (newer xs x) < card (set xs)" by (simp add: psubset_card_mono)
      then show ?thesis using full card_length [of xs] by linarith
    qed
    then have "card (set (newest n xs)) = n"
      using newest_distinct [OF xs, of n] distinct_card [of "newest n xs"]
      by (simp add: distinct_map newest_def)
    moreover have "set (newest n xs) \<subseteq> newer ?C m"
    proof
      fix y assume y: "y \<in> set (newest n xs)"
      have "\<not> msg_lsn y \<le> msg_lsn x"
      proof
        assume "msg_lsn y \<le> msg_lsn x"
        then have "newer xs x \<subseteq> newer xs y" by (auto simp: newer_def)
        then have "n \<le> card (newer xs y)" using full card_mono [OF fin] by (meson order_trans)
        then show False using y newest_set [OF xs, of n] by auto
      qed
      then show "y \<in> newer ?C m" using y that(3) by (simp add: newer_def)
    qed
    ultimately show ?thesis using card_mono [OF fin, of "set (newest n xs)" ?C m] by simp
  qed
  have "m \<in> set (newest n ?C) \<longleftrightarrow> m \<in> set (newest n ?W)" for m
  proof
    assume m: "m \<in> set (newest n ?C)"
    then have few: "card (newer ?C m) < n" and mem: "m \<in> set ?C" using newest_set [OF part] by auto
    have "newer ?W m \<subseteq> newer ?C m"
      using lost [of _ m] few by (fastforce simp: newer_def)
    then have "card (newer ?W m) < n" using few card_mono [OF fin] by (meson le_less_trans)
    moreover have "m \<in> set ?W" using mem newest_subset [of n xs] by auto
    ultimately show "m \<in> set (newest n ?W)" using newest_set [OF whole] by auto
  next
    assume m: "m \<in> set (newest n ?W)"
    then have few: "card (newer ?W m) < n" and mem: "m \<in> set ?W" using newest_set [OF whole] by auto
    have less: "card (newer ?C m) < n" using few card_mono [OF fin sub] by (meson le_less_trans)
    then have "m \<in> set ?C" using mem lost [of m m] by auto
    with less show "m \<in> set (newest n ?C)" using newest_set [OF part] by auto
  qed
  then show "set (newest n ?C) = set (newest n ?W)" by blast
qed

section \<open>A room is the window of its newest messages\<close>

definition room_window :: "nat \<Rightarrow> message list \<Rightarrow> room_live \<Rightarrow> bool" where
  "room_window w ms r \<longleftrightarrow> room_messages r = newest w ms"

lemma room_apply_window:
  assumes "logged_messages (ms @ batch)" "room_window w ms r"
  shows "room_window w (ms @ batch) (fst (room_apply_messages now seq w batch r))"
proof -
  have held: "logged_messages (room_messages r @ batch)"
    using assms newest_logged [of ms w] newest_subset [of w ms]
    by (fastforce simp: room_window_def logged_append)
  have sorted: "sorted (map msg_lsn (room_messages r))"
    using assms(2) newest_sorted by (simp add: room_window_def)
  have step: "room_messages (fst (room_apply_messages now seq w batch r)) = newest w (room_messages r @ batch)"
    if "batch \<noteq> []"
    using that held_after_append [OF held sorted]
    by (simp add: room_apply_messages_def room_touch_def truncate_to_def newest_def Let_def
        split: if_splits)
  show ?thesis
  proof (cases "batch = []")
    case True
    then show ?thesis using assms(2) by (simp add: room_apply_messages_def)
  next
    case False
    then show ?thesis
      using step newest_again [OF assms(1), of w] assms(2) by (simp add: room_window_def)
  qed
qed

text \<open>The room after a sequence of batches, each with its clock.\<close>

fun apply_batches :: "nat \<Rightarrow> (u64 \<times> message list) list \<Rightarrow> room_live \<times> u64 \<Rightarrow> room_live \<times> u64" where
  "apply_batches w [] rs = rs"
| "apply_batches w ((now, batch) # rest) (r, seq) =
     apply_batches w rest (room_apply_messages now seq w batch r)"

lemma apply_batches_window:
  assumes "logged_messages (ms @ concat (map snd batches))" "room_window w ms r"
  shows "room_window w (ms @ concat (map snd batches)) (fst (apply_batches w batches (r, seq)))"
  using assms
proof (induction batches arbitrary: ms r seq)
  case (Cons b rest)
  obtain now batch where b: "b = (now, batch)" by (cases b)
  obtain r1 seq1 where r1: "room_apply_messages now seq w batch r = (r1, seq1)" by fastforce
  have "logged_messages (ms @ batch)" using Cons.prems(1) by (auto simp: b logged_append)
  then have "room_window w (ms @ batch) r1"
    using room_apply_window [of ms batch w r now seq] Cons.prems(2) r1 by simp
  from Cons.IH [OF _ this, of seq1] Cons.prems(1) show ?case by (simp add: b r1)
qed simp

end
