(* ===== verification/Actor_Residency.thy ===== *)
theory Actor_Residency
  imports Actor_Rooms
begin

text \<open>
  The rooms the actor runtime keeps in memory: their number is counted exactly, it is never above
  the configured maximum, no room holds more messages than its window, and every actor has the
  state of its kind.
\<close>

section \<open>What a shard holds\<close>

definition actor_fits :: "nat \<Rightarrow> actor_id \<Rightarrow> 'n actor_state \<Rightarrow> bool" where
  "actor_fits w a actor \<longleftrightarrow>
     (case actor of
        Room_Actor r \<Rightarrow> aid_kind a = RoomKind \<and> length (room_messages r) \<le> w
      | Scope_Actor _ \<Rightarrow> aid_kind a = ScopeKind
      | Table_Actor _ \<Rightarrow> aid_kind a = TableKind
      | Kernel_Actor _ \<Rightarrow> aid_kind a \<in> {ViewKind, AggregateKind})"

definition map_fits :: "nat \<Rightarrow> 'n actor_map \<Rightarrow> bool" where
  "map_fits w m \<longleftrightarrow> (\<forall>a actor. bt_get m a = Some actor \<longrightarrow> actor_fits w a actor)"

definition room_keys :: "'n actor_map \<Rightarrow> actor_id set" where
  "room_keys m = {a. aid_kind a = RoomKind \<and> bt_get m a \<noteq> None}"

named_theorems fits_simps

lemma actor_fits_simps [simp, fits_simps]:
  "actor_fits w a (Room_Actor r) \<longleftrightarrow> aid_kind a = RoomKind \<and> length (room_messages r) \<le> w"
  "actor_fits w a (Scope_Actor sc) \<longleftrightarrow> aid_kind a = ScopeKind"
  "actor_fits w a (Table_Actor t) \<longleftrightarrow> aid_kind a = TableKind"
  "actor_fits w a (Kernel_Actor g) \<longleftrightarrow> aid_kind a \<in> {ViewKind, AggregateKind}"
  by (simp_all add: actor_fits_def)

lemma fits_room_iff: "actor_fits w a actor \<Longrightarrow> is_room actor \<longleftrightarrow> aid_kind a = RoomKind"
  by (cases actor) auto

lemma actor_new_fits [simp]: "actor_fits w a (actor_new stamp a)"
  by (cases a; cases "aid_kind a") (auto simp: actor_new_def split: actor_kind.splits)

lemma map_fitsD: "map_fits w m \<Longrightarrow> bt_get m a = Some actor \<Longrightarrow> actor_fits w a actor"
  by (simp add: map_fits_def)

lemma map_fits_insert [simp]: "map_fits w m \<Longrightarrow> actor_fits w a actor \<Longrightarrow> map_fits w (bt_insert a actor m)"
  by (simp add: map_fits_def)

lemma map_fits_remove [simp]: "map_fits w m \<Longrightarrow> map_fits w (bt_remove a m)"
  by (simp add: map_fits_def)

lemma finite_room_keys [simp]: "finite (room_keys m)"
  by (rule finite_subset [OF _ finite_bt_dom [of m]]) (auto simp: room_keys_def)

lemma room_keys_insert:
  "room_keys (bt_insert a actor m) = (if aid_kind a = RoomKind then insert a (room_keys m) else room_keys m)"
  by (auto simp: room_keys_def split: if_splits)

lemma room_keys_simps [simp]:
  "room_keys (bt_remove a m) = room_keys m - {a}"
  "room_keys bt_empty = {}"
  by (auto simp: room_keys_def split: if_splits)

text \<open>How a request changes a shard: it keeps the shard fitting and maps its rooms by \<open>g\<close>.\<close>

definition shard_effect :: "nat \<Rightarrow> (actor_id set \<Rightarrow> actor_id set) \<Rightarrow> ('n shard \<Rightarrow> 'a \<times> 'n shard) \<Rightarrow> bool" where
  "shard_effect w g f \<longleftrightarrow>
     (\<forall>s. map_fits w (sh_actors s) \<longrightarrow>
        map_fits w (sh_actors (snd (f s))) \<and> room_keys (sh_actors (snd (f s))) = g (room_keys (sh_actors s)))"

lemma shard_effectD:
  assumes "shard_effect w g f" "map_fits w (sh_actors s)" "f s = (x, s')"
  shows "map_fits w (sh_actors s') \<and> room_keys (sh_actors s') = g (room_keys (sh_actors s))"
  using assms unfolding shard_effect_def by (metis snd_conv)

abbreviation shard_quiet :: "nat \<Rightarrow> ('n shard \<Rightarrow> 'a \<times> 'n shard) \<Rightarrow> bool" where
  "shard_quiet w f \<equiv> shard_effect w (\<lambda>x. x) f"

definition with_room :: "actor_id \<Rightarrow> actor_id set \<Rightarrow> actor_id set" where
  "with_room a rooms = (if aid_kind a = RoomKind then insert a rooms else rooms)"

lemma with_room_simps [simp]:
  "aid_kind a \<noteq> RoomKind \<Longrightarrow> with_room a rooms = rooms"
  "with_room a (with_room a rooms) = with_room a rooms"
  "room_keys (bt_insert a actor m) = with_room a (room_keys m)"
  by (auto simp: with_room_def room_keys_insert)

lemma ensure_actor_ok:
  assumes "ensure_actor now a s = (actor, s1)" "map_fits w (sh_actors s)"
  shows "actor_fits w a actor" "map_fits w (sh_actors s1)" "bt_get (sh_actors s1) a = Some actor"
    "room_keys (sh_actors s1) = with_room a (room_keys (sh_actors s))"
proof -
  have keys: "room_keys (sh_actors s) = with_room a (room_keys (sh_actors s))"
    if "bt_get (sh_actors s) a \<noteq> None"
    using that by (auto simp: room_keys_def with_room_def)
  show "actor_fits w a actor" "map_fits w (sh_actors s1)" "bt_get (sh_actors s1) a = Some actor"
    "room_keys (sh_actors s1) = with_room a (room_keys (sh_actors s))"
    using assms keys
    by (auto simp: ensure_actor_def Let_def map_fitsD split: option.splits)
qed

lemma put_actor_simps [simp]:
  "sh_actors (put_actor a actor_seq s) = bt_insert a (fst actor_seq) (sh_actors s)"
  "sh_seq (put_actor a actor_seq s) = snd actor_seq"
  by (simp_all add: put_actor_def)

lemma run_kernel_message_fits:
  "actor_fits w a actor \<Longrightarrow> actor_fits w a (fst (snd (run_kernel_message now seq msg actor)))"
  by (cases actor) (auto simp: room_touch_def Let_def split: prod.splits)

lemma fits_kind_elim:
  assumes "actor_fits w a actor"
  shows "aid_kind a = ScopeKind \<Longrightarrow> \<exists>sc. actor = Scope_Actor sc"
    and "aid_kind a = TableKind \<Longrightarrow> \<exists>t. actor = Table_Actor t"
    and "aid_kind a = RoomKind \<Longrightarrow> \<exists>r. actor = Room_Actor r"
  using assms by (cases actor; auto)+

lemma run_turn_effect: "shard_effect w (with_room a) (shard_run_turn now index a msg)"
  by (auto simp: shard_effect_def shard_run_turn_def Let_def dest: ensure_actor_ok
      intro!: map_fits_insert split: prod.splits)
    (metis ensure_actor_ok(1) run_kernel_message_fits fst_conv snd_conv)

lemma upsert_scope_rows_quiet:
  "aid_kind a = ScopeKind \<Longrightarrow> shard_quiet w (shard_upsert_scope_rows ops now index t a rows)"
  by (auto simp: shard_effect_def shard_upsert_scope_rows_def Let_def dest: ensure_actor_ok
      split: prod.splits actor_state.splits)

lemma scope_subscriptions_quiet:
  "aid_kind a = ScopeKind \<Longrightarrow> shard_quiet w (shard_retain_scope ops now index t a)"
  "aid_kind a = ScopeKind \<Longrightarrow> shard_quiet w (shard_release_scope ops now index t a linger)"
  by (auto simp: shard_effect_def shard_retain_scope_def shard_release_scope_def Let_def
      dest: ensure_actor_ok split: prod.splits actor_state.splits option.splits)

lemma drain_scope_quiet: "aid_kind a = ScopeKind \<Longrightarrow> shard_quiet w (shard_drain_scope_rows now a)"
  by (auto simp: shard_effect_def shard_drain_scope_rows_def Let_def
      split: prod.splits actor_state.splits option.splits)

lemma shard_reads_quiet:
  "shard_quiet w (shard_route_scope_rows digest t key rows)"
  "shard_quiet w (shard_pending_table_splits limit now)"
  by (simp_all add: shard_effect_def shard_route_scope_rows_def shard_pending_table_splits_def)

lemma table_requests_quiet:
  "aid_kind t = TableKind \<Longrightarrow> shard_quiet w (shard_upsert_table_scope now t key rows bytes accessed policy)"
  "aid_kind t = TableKind \<Longrightarrow> shard_quiet w (shard_split_table_scope now t key children accessed policy)"
  by (auto simp: shard_effect_def shard_upsert_table_scope_def shard_split_table_scope_def Let_def
      dest: ensure_actor_ok split: prod.splits actor_state.splits)

section \<open>Requests that add or remove rooms\<close>

lemma last_part_le [simp]: "n - (n - w) \<le> (w::nat)"
  by arith

lemma contains_room: "aid_kind a = RoomKind \<Longrightarrow> a \<in> room_keys m \<longleftrightarrow> bt_contains m a"
  by (simp add: room_keys_def bt_contains_def)

lemma room_apply_fits:
  "length (room_messages r) \<le> w \<Longrightarrow>
     length (room_messages (fst (room_apply_messages now seq w ms r))) \<le> w"
  by (simp add: room_apply_messages_def room_touch_def truncate_to_def Let_def)

lemma card_with_room:
  assumes "aid_kind a = RoomKind"
  shows "card (with_room a (room_keys m)) = card (room_keys m) + (if bt_contains m a then 0 else 1)"
  using assms contains_room [OF assms, of m] by (simp add: with_room_def card_insert_if)

lemma shard_apply_effect:
  assumes "map_fits w (sh_actors s)" "\<forall>b\<in>set batches. aid_kind (fst b) = RoomKind"
    "shard_apply_messages now w batches (n, s) = (n', s')"
  shows "map_fits w (sh_actors s') \<and> n' + card (room_keys (sh_actors s)) = n + card (room_keys (sh_actors s'))"
  using assms
proof (induction batches arbitrary: n s)
  case (Cons b batches)
  obtain a ms where b: "b = (a, ms)" by (cases b)
  obtain actor s1 where e: "ensure_actor now a s = (actor, s1)" by fastforce
  note ok = ensure_actor_ok [OF e Cons.prems(1)]
  have kind: "aid_kind a = RoomKind" using Cons.prems(2) by (simp add: b)
  obtain r where r: "actor = Room_Actor r" using fits_kind_elim(3) [OF ok(1) kind] by blast
  define s2 where "s2 = put_actor a (Room_Actor (fst (room_apply_messages now (sh_seq s1) w ms r)),
      snd (room_apply_messages now (sh_seq s1) w ms r)) s1"
  define n1 where "n1 = (if bt_contains (sh_actors s) a then n else n + 1)"
  have fits: "map_fits w (sh_actors s2)"
    using ok(1,2) r kind room_apply_fits by (simp add: s2_def)
  have rooms: "room_keys (sh_actors s2) = with_room a (room_keys (sh_actors s))"
    using ok(4) by (simp add: s2_def)
  have "shard_apply_messages now w batches (n1, s2) = (n', s')"
    using Cons.prems(3) e r kind by (simp add: b s2_def n1_def Let_def split_beta split: if_splits)
  from Cons.IH [OF fits _ this] Cons.prems(2) rooms card_with_room [OF kind, of "sh_actors s"]
  show ?case by (auto simp: n1_def split: if_splits)
qed simp

declare shard_apply_messages.simps [simp del]

lemma latest_messages_quiet: "aid_kind a = RoomKind \<Longrightarrow> shard_quiet w (shard_latest_messages now a before_lsn limit)"
  by (auto simp: shard_effect_def shard_latest_messages_def room_latest_def room_before_def room_touch_def
      with_room_def room_keys_def Let_def dest: map_fitsD
      intro!: map_fits_insert split: prod.splits actor_state.splits option.splits)

lemma shard_evict_rooms_effect:
  assumes "map_fits w (sh_actors s)" "\<forall>a\<in>set ids. aid_kind a = RoomKind"
    "shard_evict_rooms ids (n, s) = (n', s')"
  shows "map_fits w (sh_actors s')" "n' + card (room_keys (sh_actors s')) = n + card (room_keys (sh_actors s))"
    "distinct ids \<Longrightarrow> set ids \<subseteq> room_keys (sh_actors s) \<Longrightarrow> n' = n + length ids"
proof -
  have "map_fits w (sh_actors s') \<and> n' + card (room_keys (sh_actors s')) = n + card (room_keys (sh_actors s))
    \<and> (distinct ids \<longrightarrow> set ids \<subseteq> room_keys (sh_actors s) \<longrightarrow> n' = n + length ids)"
    using assms
  proof (induction ids arbitrary: n s)
    case (Cons a ids)
    define s1 where "s1 = s\<lparr>sh_actors := bt_remove a (sh_actors s)\<rparr>"
    define n1 where "n1 = (if bt_contains (sh_actors s) a then n + 1 else n)"
    have run: "shard_evict_rooms ids (n1, s1) = (n', s')"
      using Cons.prems(3) by (simp add: shard_evict_room_def s1_def n1_def)
    have fits: "map_fits w (sh_actors s1)" using Cons.prems(1) by (simp add: s1_def)
    have kind: "aid_kind a = RoomKind" using Cons.prems(2) by simp
    have rooms: "room_keys (sh_actors s1) = room_keys (sh_actors s) - {a}" by (simp add: s1_def)
    have in_iff: "a \<in> room_keys (sh_actors s) \<longleftrightarrow> bt_contains (sh_actors s) a"
      using kind by (rule contains_room)
    have count: "n1 + card (room_keys (sh_actors s1)) = n + card (room_keys (sh_actors s))"
    proof (cases "a \<in> room_keys (sh_actors s)")
      case True
      then have "0 < card (room_keys (sh_actors s))" by (metis card_gt_0_iff empty_iff finite_room_keys)
      with True show ?thesis using in_iff rooms by (simp add: n1_def card_Diff_singleton)
    next
      case False
      then show ?thesis using in_iff rooms by (simp add: n1_def)
    qed
    show ?case
      using Cons.IH [OF fits _ run] Cons.prems(2) count rooms in_iff
      by (auto simp: n1_def split: if_splits)
  qed simp
  then show "map_fits w (sh_actors s')" "n' + card (room_keys (sh_actors s')) = n + card (room_keys (sh_actors s))"
    "distinct ids \<Longrightarrow> set ids \<subseteq> room_keys (sh_actors s) \<Longrightarrow> n' = n + length ids"
    by blast+
qed

lemma evict_idle_effect:
  assumes "map_fits w (sh_actors s)" "shard_evict_idle ttl now s = (n, s')"
  shows "map_fits w (sh_actors s') \<and> n + card (room_keys (sh_actors s')) = card (room_keys (sh_actors s))"
proof -
  define kept where "kept = bt_retain (\<lambda>_. kept_when_idle ttl now) (sh_actors s)"
  have s': "sh_actors s' = kept" and n: "n = bt_len (sh_actors s) - bt_len kept"
    using assms(2) by (auto simp: shard_evict_idle_def kept_def Let_def)
  have get: "bt_get kept a = Some x \<longleftrightarrow> bt_get (sh_actors s) a = Some x \<and> kept_when_idle ttl now x" for a x
    by (auto simp: kept_def split: option.splits if_splits)
  have fits: "map_fits w kept" using assms(1) get by (simp add: map_fits_def)
  let ?all = "{a. bt_get (sh_actors s) a \<noteq> None}" and ?kept = "{a. bt_get kept a \<noteq> None}"
  have sub: "?kept \<subseteq> ?all" using get by fastforce
  have gone: "?all - ?kept = room_keys (sh_actors s) - room_keys kept"
  proof -
    have "aid_kind a = RoomKind" if "bt_get (sh_actors s) a = Some x" "\<not> kept_when_idle ttl now x" for a x
      using that assms(1) fits_room_iff [of w a x] by (auto simp: kept_when_idle_def map_fitsD)
    then show ?thesis using get by (fastforce simp: room_keys_def)
  qed
  have rooms: "room_keys kept \<subseteq> room_keys (sh_actors s)" using sub by (auto simp: room_keys_def)
  have "n = card (?all - ?kept)"
    unfolding n bt_len_card by (rule card_Diff_subset [OF finite_bt_dom sub, symmetric])
  also have "\<dots> = card (room_keys (sh_actors s)) - card (room_keys kept)"
    unfolding gone by (rule card_Diff_subset [OF finite_room_keys rooms])
  finally show ?thesis using fits s' card_mono [OF finite_room_keys rooms] by simp
qed

lemma truncate_all_effect:
  assumes "map_fits w (sh_actors s)"
  shows "map_fits w' (sh_actors (shard_truncate_all w' s))"
    "room_keys (sh_actors (shard_truncate_all w' s)) = room_keys (sh_actors s)"
proof -
  have "actor_fits w' a (truncate_room w' x)" if "actor_fits w a x" for a x
    using that by (cases x) (auto simp: truncate_room_def truncate_to_def)
  then show "map_fits w' (sh_actors (shard_truncate_all w' s))"
    using assms by (auto simp: map_fits_def shard_truncate_all_def)
qed (simp add: room_keys_def shard_truncate_all_def)

section \<open>The rooms of the runtime\<close>

definition rt_fits :: "nat \<Rightarrow> 'n runtime \<Rightarrow> bool" where
  "rt_fits w rt \<longleftrightarrow> rt_shards rt \<noteq> [] \<and> (\<forall>m\<in>set (rt_shards rt). map_fits w m)"

definition room_total :: "'n runtime \<Rightarrow> nat" where
  "room_total rt = sum_list (map (\<lambda>m. card (room_keys m)) (rt_shards rt))"

text \<open>A part of a request: shards and configuration stay, every shard still fits.\<close>

definition rt_frame :: "nat \<Rightarrow> 'n runtime \<Rightarrow> 'n runtime \<Rightarrow> bool" where
  "rt_frame w rt rt' \<longleftrightarrow>
     length (rt_shards rt') = length (rt_shards rt) \<and> rt_config rt' = rt_config rt
     \<and> rt_resident rt' = rt_resident rt \<and> (rt_fits w rt \<longrightarrow> rt_fits w rt')"

definition rt_quiet :: "nat \<Rightarrow> 'n runtime \<Rightarrow> 'n runtime \<Rightarrow> bool" where
  "rt_quiet w rt rt' \<longleftrightarrow> rt_frame w rt rt' \<and> (rt_fits w rt \<longrightarrow> room_total rt' = room_total rt)"

lemma rt_quiet_refl [simp]: "rt_quiet w rt rt"
  by (simp add: rt_quiet_def rt_frame_def)

lemma rt_quiet_trans [trans]: "rt_quiet w rt rt1 \<Longrightarrow> rt_quiet w rt1 rt2 \<Longrightarrow> rt_quiet w rt rt2"
  by (auto simp: rt_quiet_def rt_frame_def)

lemma total_update:
  assumes "i < length ms"
  shows "sum_list (map f (ms[i := m])) + f (ms ! i) = sum_list (map f ms) + (f m :: nat)"
  using assms
proof (induction ms arbitrary: i)
  case (Cons x xs)
  then show ?case by (cases i) (force simp: algebra_simps)+
qed simp

lemma on_shard_frame:
  assumes "rt_fits w rt" "i < length (rt_shards rt)"
    "on_shard i f rt = (x, rt')" "f \<lparr>sh_seq = rt_seq rt, sh_actors = rt_shards rt ! i\<rparr> = (x, s')"
    "map_fits w (sh_actors s')"
  shows "rt_frame w rt rt'"
    "room_total rt' + card (room_keys (rt_shards rt ! i)) = room_total rt + card (room_keys (sh_actors s'))"
    "rt_shards rt' = (rt_shards rt)[i := sh_actors s']"
proof -
  have rt': "rt' = rt\<lparr>rt_seq := sh_seq s', rt_shards := (rt_shards rt)[i := sh_actors s']\<rparr>"
    using assms(3,4) by (simp add: on_shard_def)
  show "rt_frame w rt rt'"
    using assms(1,5) set_update_subset_insert [of "rt_shards rt" i "sh_actors s'"]
    by (auto simp: rt' rt_frame_def rt_fits_def)
  show "room_total rt' + card (room_keys (rt_shards rt ! i)) = room_total rt + card (room_keys (sh_actors s'))"
    using total_update [OF assms(2), of "\<lambda>m. card (room_keys m)" "sh_actors s'"]
    by (simp add: rt' room_total_def)
  show "rt_shards rt' = (rt_shards rt)[i := sh_actors s']" by (simp add: rt')
qed

lemma shard_fits: "rt_fits w rt \<Longrightarrow> i < length (rt_shards rt) \<Longrightarrow> map_fits w (rt_shards rt ! i)"
  by (simp add: rt_fits_def)

lemma on_shard_quiet:
  assumes "shard_quiet w f" "i < length (rt_shards rt)"
  shows "rt_quiet w rt (snd (on_shard i f rt))"
proof (cases "rt_fits w rt")
  case True
  let ?s = "\<lparr>sh_seq = rt_seq rt, sh_actors = rt_shards rt ! i\<rparr>"
  obtain x s' where f: "f ?s = (x, s')" by fastforce
  obtain rt' where rt': "on_shard i f rt = (x, rt')" using f by (simp add: on_shard_def)
  have "map_fits w (sh_actors s')" "room_keys (sh_actors s') = room_keys (rt_shards rt ! i)"
    using assms(1) shard_fits [OF True assms(2)] f unfolding shard_effect_def
    by (metis shard.select_convs(2) snd_conv)+
  with on_shard_frame [OF True assms(2) rt' f] show ?thesis by (simp add: rt_quiet_def rt')
next
  case False
  then show ?thesis by (simp add: rt_quiet_def rt_frame_def on_shard_def split_beta)
qed

lemma shard_index_bound: "rt_shards rt \<noteq> [] \<Longrightarrow> shard_index_of digest a rt < length (rt_shards rt)"
  unfolding shard_index_of_def actor_shard_index_def
  by (metis length_greater_0_conv max.absorb1 One_nat_def Suc_leI shard_index_less)

lemma shard_for_actor_quiet:
  assumes "shard_quiet w f"
  shows "rt_quiet w rt (snd (shard_for_actor digest a f rt))"
proof (cases "rt_shards rt = []")
  case True
  then show ?thesis
    by (simp add: rt_quiet_def rt_frame_def rt_fits_def shard_for_actor_def on_shard_def split_beta)
next
  case False
  then show ?thesis
    unfolding shard_for_actor_def by (intro on_shard_quiet assms shard_index_bound)
qed

section \<open>Requests about scopes keep the rooms\<close>

lemma quiet_result: "rt_quiet w rt (snd p) \<Longrightarrow> p = (x, rt') \<Longrightarrow> rt_quiet w rt rt'"
  by simp

lemma upsert_scope_on_quiet: "rt_quiet w rt (snd (upsert_scope_on ops digest now t key rows rt))"
  by (simp add: upsert_scope_on_def Let_def shard_for_actor_quiet upsert_scope_rows_quiet)

lemma upsert_table_scope_on_quiet:
  "aid_kind t = TableKind \<Longrightarrow>
     rt_quiet w rt (snd (upsert_table_scope_on digest now t key rows bytes accessed policy rt))"
  by (simp add: upsert_table_scope_on_def shard_for_actor_quiet table_requests_quiet)

lemma drain_scope_on_quiet: "rt_quiet w rt (snd (drain_scope_on digest now key rt))"
  by (simp add: drain_scope_on_def Let_def shard_for_actor_quiet drain_scope_quiet)

lemma fill_children_quiet:
  "fill_children ops digest now t policy depth accessed cs found rt = (x, rt') \<Longrightarrow> rt_quiet w rt rt'"
proof (induction cs arbitrary: found rt)
  case (Cons c cs)
  obtain child rows where c: "c = (child, rows)" by (cases c)
  obtain updates pending where found: "found = (updates, pending)" by (cases found)
  show ?case
  proof (cases "rows = []")
    case True
    then show ?thesis using Cons by (simp add: c found Let_def)
  next
    case False
    obtain r rt1 where r: "upsert_scope_on ops digest now t child rows rt = (r, rt1)" by fastforce
    have "rt_quiet w rt rt1" by (rule quiet_result [OF upsert_scope_on_quiet r])
    moreover have "rt_quiet w rt1 rt'"
      using Cons.prems False r by (intro Cons.IH) (simp add: c found Let_def split_beta)
    ultimately show ?thesis by (rule rt_quiet_trans)
  qed
qed simp

lemma split_round_quiet:
  assumes "aid_kind t = TableKind"
  shows "rt_quiet w rt (snd (split_round ops digest now t policy key depth rt))"
proof -
  obtain rows accessed rt1 where d: "drain_scope_on digest now key rt = ((rows, accessed), rt1)"
    by (metis surj_pair)
  have q1: "rt_quiet w rt rt1" by (rule quiet_result [OF drain_scope_on_quiet d])
  show ?thesis
  proof (cases "stop_split ops policy depth rows")
    case True
    obtain restored rt2 where u: "upsert_scope_on ops digest now t key rows rt1 = (restored, rt2)" by fastforce
    note q2 = quiet_result [OF upsert_scope_on_quiet u]
    show ?thesis
      using rt_quiet_trans [OF q1 rt_quiet_trans [OF q2 upsert_table_scope_on_quiet [OF assms]]] True
      by (simp add: split_round_def d u Let_def split_beta)
  next
    case False
    obtain found rt2 where f: "fill_children ops digest now t policy depth accessed
        (child_rows digest key rows) ([], []) rt1 = (found, rt2)" by fastforce
    note q2 = fill_children_quiet [OF f]
    show ?thesis
      using rt_quiet_trans [OF q1 rt_quiet_trans [OF q2
          shard_for_actor_quiet [OF table_requests_quiet(2) [OF assms]]]] False
      by (simp add: split_round_def d f Let_def split_beta)
  qed
qed

text \<open>A split ends: a round puts at most two scopes back, each one level deeper.\<close>

lemma bt_get_push [simp]:
  "bt_get (bt_push k v m) k' = (if k' = k then Some (bt_get_or m k [] @ [v]) else bt_get m k')"
  by (simp add: bt_push_def)

lemma split_child_two:
  "split_child_scope_key digest parent key 2 \<in> {child_scope_name parent 0, child_scope_name parent 1}"
proof -
  have "split_child_index digest parent key 2 < 2"
    unfolding split_child_index_def by (rule order_less_le_trans [OF shard_index_less]) simp_all
  then have "split_child_index digest parent key 2 = 0 \<or> split_child_index digest parent key 2 = 1"
    by (simp add: less_2_cases_iff)
  moreover have two: "max (2::nat) 1 = 2" by simp
  ultimately show ?thesis unfolding split_child_scope_key_def two by auto
qed

lemma child_rows_keys:
  "set (map fst (child_rows digest parent rows)) \<subseteq> {child_scope_name parent 0, child_scope_name parent 1}"
proof -
  have "{k. bt_get (fold (\<lambda>r. bt_push (split_child_scope_key digest parent (rec_key r) 2) r) rows m) k \<noteq> None}
      \<subseteq> {child_scope_name parent 0, child_scope_name parent 1}"
    if "{k. bt_get m k \<noteq> None} \<subseteq> {child_scope_name parent 0, child_scope_name parent 1}" for m
    using that
  proof (induction rows arbitrary: m)
    case (Cons r rows)
    have "{k. bt_get (bt_push (split_child_scope_key digest parent (rec_key r) 2) r m) k \<noteq> None}
        \<subseteq> {child_scope_name parent 0, child_scope_name parent 1}"
      using Cons.prems split_child_two [of digest parent "rec_key r"] by auto
    then show ?case using Cons.IH by simp
  qed simp
  moreover have "{k. bt_get (bt_collect (map (\<lambda>i. (child_scope_name parent i, [])) [0..<2])) k \<noteq> None}
      \<subseteq> {child_scope_name parent 0, child_scope_name parent 1}"
    by (auto simp: bt_get_collect upt_rec numeral_2_eq_2 dest!: map_of_SomeD split: if_splits)
  ultimately show ?thesis
    unfolding child_rows_def by (simp flip: bt_keys_def add: set_bt_keys)
qed

lemma length_child_rows: "length (child_rows digest parent rows) \<le> 2"
proof -
  have "distinct (map fst (child_rows digest parent rows))"
    unfolding child_rows_def by (simp flip: bt_keys_def)
  then have "length (child_rows digest parent rows) = card (set (map fst (child_rows digest parent rows)))"
    by (metis distinct_card length_map)
  also have "\<dots> \<le> card {child_scope_name parent 0, child_scope_name parent 1}"
    by (intro card_mono child_rows_keys) simp
  also have "\<dots> \<le> 2" by (simp add: card_insert_if)
  finally show ?thesis .
qed

lemma fill_children_pending:
  assumes "fill_children ops digest now t policy depth accessed cs (updates, pending) rt = ((updates', pending'), rt')"
  shows "length pending' \<le> length pending + length cs"
    and "depth + 1 \<ge> max_scope_split_depth \<Longrightarrow> pending' = pending"
proof -
  have "length pending' \<le> length pending + length cs \<and> (depth + 1 \<ge> max_scope_split_depth \<longrightarrow> pending' = pending)"
    using assms
  proof (induction cs arbitrary: updates pending rt)
    case (Cons c cs)
    then show ?case
      by (cases c) (auto simp: Let_def split_beta split: if_splits, fastforce+)
  qed simp
  then show "length pending' \<le> length pending + length cs"
    and "depth + 1 \<ge> max_scope_split_depth \<Longrightarrow> pending' = pending" by blast+
qed

lemma split_round_pending:
  assumes "split_round ops digest now t policy key depth rt = ((u, pending), rt')"
  shows "length pending \<le> 2" "depth + 1 \<ge> max_scope_split_depth \<Longrightarrow> pending = []"
proof -
  obtain rows accessed rt1 where d: "drain_scope_on digest now key rt = ((rows, accessed), rt1)"
    by (metis surj_pair)
  have "pending = [] \<or> (\<exists>updates rt2. fill_children ops digest now t policy depth accessed
      (child_rows digest key rows) ([], []) rt1 = ((updates, pending), rt2))"
    using assms by (auto simp: split_round_def d Let_def split: prod.splits if_splits)
  then show "length pending \<le> 2" "depth + 1 \<ge> max_scope_split_depth \<Longrightarrow> pending = []"
    using fill_children_pending length_child_rows [of digest key rows] by fastforce+
qed

definition split_weight :: "(string \<times> nat) list \<Rightarrow> nat" where
  "split_weight pending = sum_list (map (\<lambda>(_, depth). 3 ^ (max_scope_split_depth - depth)) pending)"

lemma split_weight_decreases:
  assumes "split_round ops digest now t policy key depth rt = ((u, new), rt')"
  shows "split_weight (rest @ map (\<lambda>child. (child, depth + 1)) new) < split_weight ((key, depth) # rest)"
proof (cases "depth + 1 \<ge> max_scope_split_depth")
  case True
  then show ?thesis using split_round_pending(2) [OF assms] by (simp add: split_weight_def)
next
  case False
  have "sum_list (map (\<lambda>(_, d). 3 ^ (max_scope_split_depth - d)) (map (\<lambda>child. (child, depth + 1)) new))
      = length new * 3 ^ (max_scope_split_depth - (depth + 1))"
    by (simp add: comp_def sum_list_triv)
  also have "\<dots> \<le> 2 * 3 ^ (max_scope_split_depth - (depth + 1))"
    using split_round_pending(1) [OF assms] by simp
  also have "\<dots> < 3 ^ (max_scope_split_depth - depth)"
  proof -
    have "max_scope_split_depth - depth = Suc (max_scope_split_depth - (depth + 1))" using False by simp
    then show ?thesis by simp
  qed
  finally show ?thesis by (simp add: split_weight_def)
qed

lemma split_loop_total:
  assumes "\<And>rt. R rt rt" "\<And>rt rt1 rt2. R rt rt1 \<Longrightarrow> R rt1 rt2 \<Longrightarrow> R rt rt2"
    and round: "\<And>key depth rt. R rt (snd (split_round ops digest now t policy key depth rt))"
  shows "\<exists>u rt'. split_loop ops digest now t policy pending update rt = Some (u, rt') \<and> R rt rt'"
proof (induction "split_weight pending" arbitrary: pending update rt rule: less_induct)
  case less
  show ?case
  proof (cases pending)
    case Nil
    then show ?thesis using assms(1) by (simp add: split_loop.simps)
  next
    case (Cons p rest)
    obtain key depth where p: "p = (key, depth)" by (cases p)
    obtain u new rt1 where r: "split_round ops digest now t policy key depth rt = ((u, new), rt1)"
      by (metis surj_pair)
    have "split_weight (rest @ map (\<lambda>child. (child, depth + 1)) new) < split_weight pending"
      using split_weight_decreases [OF r] by (simp add: Cons p)
    from less [OF this, of u rt1] show ?thesis
      using assms(2) [of rt rt1] round [of rt key depth] r
      by (auto simp: Cons p split_loop.simps [of _ _ _ _ _ "_ # _"])
  qed
qed

lemma split_scope_rows_quiet:
  assumes "aid_kind t = TableKind"
  shows "\<exists>u rt'. split_scope_rows ops digest now t key policy rt = Some (u, rt') \<and> rt_quiet w rt rt'"
  unfolding split_scope_rows_def
  by (rule split_loop_total) (use rt_quiet_trans split_round_quiet [OF assms] in \<open>blast intro: rt_quiet_refl\<close>)+

lemma upsert_routed_quiet:
  assumes "aid_kind t = TableKind"
  shows "\<exists>r rt'. upsert_routed ops digest now t policy key rows rt = Some (r, rt') \<and> rt_quiet w rt rt'"
proof -
  obtain r rt1 where u: "upsert_scope_on ops digest now t key rows rt = (r, rt1)" by fastforce
  obtain v rt2 where v: "upsert_table_scope_on digest now t key (srr_rows r) (srr_bytes r)
      (srr_last_accessed_ms r) policy rt1 = (v, rt2)" by fastforce
  have "rt_quiet w rt rt2"
    using rt_quiet_trans [OF quiet_result [OF upsert_scope_on_quiet u]
        quiet_result [OF upsert_table_scope_on_quiet [OF assms] v]] .
  moreover obtain x rt3 where "split_scope_rows ops digest now t key policy rt2 = Some (x, rt3)" "rt_quiet w rt2 rt3"
    using split_scope_rows_quiet [OF assms] by blast
  ultimately show ?thesis
    by (auto simp: upsert_routed_def u v Let_def intro: rt_quiet_trans)
qed

lemma upsert_routed_all_quiet:
  assumes "aid_kind t = TableKind"
  shows "\<exists>r rt'. upsert_routed_all ops digest now t policy routed agg rt = Some (r, rt') \<and> rt_quiet w rt rt'"
proof (induction routed arbitrary: agg rt)
  case (Cons p routed)
  obtain key rows where p: "p = (key, rows)" by (cases p)
  obtain r rt1 where u: "upsert_routed ops digest now t policy key rows rt = Some (r, rt1)" "rt_quiet w rt rt1"
    using upsert_routed_quiet [OF assms] by blast
  obtain r' rt2 where "upsert_routed_all ops digest now t policy routed (merge_scope_activation_result agg r) rt1
      = Some (r', rt2)" "rt_quiet w rt1 rt2"
    using Cons.IH by blast
  with u show ?case by (auto simp: p intro: rt_quiet_trans)
qed simp

lemma upsert_scope_rows_runtime_quiet:
  "\<exists>r rt'. upsert_scope_rows ops digest now table_key key rows rt = Some (r, rt') \<and> rt_quiet w rt rt'"
proof -
  let ?t = "Actor_Id TableKind table_key"
  obtain routed rt1 where r: "shard_for_actor digest ?t (shard_route_scope_rows digest ?t key rows) rt = (routed, rt1)"
    by fastforce
  have "rt_quiet w rt rt1" by (rule quiet_result [OF shard_for_actor_quiet [OF shard_reads_quiet(1)] r])
  moreover have "\<exists>r rt'. upsert_routed_all ops digest now ?t policy routed agg rt1 = Some (r, rt') \<and> rt_quiet w rt1 rt'"
    for policy agg
    by (rule upsert_routed_all_quiet) simp
  ultimately show ?thesis
    unfolding upsert_scope_rows_def Let_def r prod.case by (meson rt_quiet_trans)
qed

lemma each_shard_quiet:
  assumes "\<And>i x rt. i \<in> set is \<Longrightarrow> i < length (rt_shards rt) \<Longrightarrow> rt_quiet w rt (snd (f i x rt))"
    "\<forall>i\<in>set is. i < length (rt_shards rt)"
  shows "rt_quiet w rt (snd (each_shard f is x rt))"
  using assms
proof (induction "is" arbitrary: x rt)
  case (Cons i "is")
  obtain x1 rt1 where f: "f i x rt = (x1, rt1)" by fastforce
  have q: "rt_quiet w rt rt1" using Cons.prems(1) [of i rt x] Cons.prems(2) f by simp
  then have "rt_quiet w rt1 (snd (each_shard f is x1 rt1))"
    using Cons.prems by (intro Cons.IH) (auto simp: rt_quiet_def rt_frame_def)
  with q show ?case by (simp add: f rt_quiet_trans)
qed simp

lemma tier_down_each_effect:
  assumes "map_fits w (sh_actors s)" "tier_down_each now ids (found, s) = (x, s')"
  shows "map_fits w (sh_actors s') \<and> room_keys (sh_actors s') = room_keys (sh_actors s)"
  using assms
proof (induction ids arbitrary: found s)
  case (Cons a ids)
  obtain tiered cleared where found: "found = (tiered, cleared)" by (cases found)
  show ?case
  proof (cases "\<exists>sc. bt_get (sh_actors s) a = Some (Scope_Actor sc)")
    case True
    then obtain sc where sc: "bt_get (sh_actors s) a = Some (Scope_Actor sc)" by blast
    have kind: "aid_kind a = ScopeKind" using map_fitsD [OF Cons.prems(1) sc] by simp
    obtain n sc1 seq1 where t: "tier_down_if_idle now (sh_seq s) sc = (n, sc1, seq1)" by (metis surj_pair)
    let ?s = "put_actor a (Scope_Actor sc1, seq1) s"
    have "tier_down_each now ids ((tiered + 1, cleared + n), ?s) = (x, s')"
      using Cons.prems(2) by (simp add: found sc t Let_def)
    from Cons.IH [OF _ this] Cons.prems(1) kind show ?thesis by simp
  next
    case False
    then have "tier_down_each now ids (found, s) = (x, s')"
      using Cons.prems(2) by (auto simp: found split: option.splits actor_state.splits)
    with Cons.IH [OF Cons.prems(1)] show ?thesis by simp
  qed
qed simp

lemma tier_down_quiet: "shard_quiet w (shard_tier_down_idle_scopes now limit)"
proof (unfold shard_effect_def, intro allI impI)
  fix s :: "'a shard" assume fits: "map_fits w (sh_actors s)"
  obtain x s' where run: "tier_down_each now (take limit (idle_scope_ids now (sh_actors s))) ((0, 0), s) = (x, s')"
    by fastforce
  show "map_fits w (sh_actors (snd (shard_tier_down_idle_scopes now limit s)))
      \<and> room_keys (sh_actors (snd (shard_tier_down_idle_scopes now limit s))) = room_keys (sh_actors s)"
    using tier_down_each_effect [OF fits run] fits by (simp add: shard_tier_down_idle_scopes_def run)
qed

lemma tier_down_idle_scopes_quiet: "rt_quiet w rt (snd (tier_down_idle_scopes now limit rt))"
proof (cases "limit = 0")
  case False
  let ?f = "\<lambda>i (tiered, cleared) rt. if limit - tiered = 0 then ((tiered, cleared), rt)
      else let ((n, c), rt1) = on_shard i (shard_tier_down_idle_scopes now (limit - tiered)) rt
           in ((tiered + n, cleared + c), rt1)"
  have "rt_quiet w rt' (snd (?f i x rt'))" if "i < length (rt_shards rt')" for i x and rt' :: "'a runtime"
    using on_shard_quiet [OF tier_down_quiet that] by (cases x) (auto simp: Let_def split_beta)
  then have "rt_quiet w rt (snd (each_shard ?f (all_shards rt) (0, 0) rt))"
    by (intro each_shard_quiet) auto
  then show ?thesis
    using False by (auto simp: tier_down_idle_scopes_def Let_def split_beta rt_quiet_def rt_frame_def rt_fits_def room_total_def)
qed (simp add: tier_down_idle_scopes_def)

lemma split_each_quiet:
  assumes "\<forall>c\<in>set cs. aid_kind (fst c) = TableKind"
  shows "\<exists>n rt'. split_each ops digest now policy cs processed rt = Some (n, rt') \<and> rt_quiet w rt rt'"
  using assms
proof (induction cs arbitrary: processed rt)
  case (Cons c cs)
  obtain t key where c: "c = (t, key)" by (cases c)
  have "aid_kind t = TableKind" using Cons.prems by (simp add: c)
  from split_scope_rows_quiet [OF this] obtain u rt1 where
    u: "split_scope_rows ops digest now t key policy rt = Some (u, rt1)" "rt_quiet w rt rt1" by blast
  obtain n rt2 where "split_each ops digest now policy cs (processed + 1) rt1 = Some (n, rt2)" "rt_quiet w rt1 rt2"
    using Cons by fastforce
  with u show ?case by (auto simp: c intro: rt_quiet_trans)
qed simp

lemma pending_splits_of_tables:
  "\<forall>c\<in>set found. aid_kind (fst c) = TableKind \<Longrightarrow> map_fits w actors \<Longrightarrow>
     \<forall>c\<in>set (pending_splits_of limit now actors ids found). aid_kind (fst c) = TableKind"
proof (induction ids arbitrary: found)
  case (Cons a ids)
  have kind: "aid_kind a = TableKind" if "bt_get actors a = Some (Table_Actor t)" for t
    using map_fitsD [OF Cons.prems(2) that] by simp
  have "\<forall>c\<in>set (pending_splits_of limit now actors ids (found @ map (Pair a) keys)). aid_kind (fst c) = TableKind"
    if "aid_kind a = TableKind" for keys
    using Cons.prems that by (intro Cons.IH) auto
  with Cons kind show ?case by (simp split: option.split actor_state.split)
qed simp

lemma pending_splits_tables:
  fixes rt :: "'n runtime"
  assumes "rt_fits w rt" "pending_splits now limit rt = (found, rt')"
  shows "rt_quiet w rt rt'" "\<forall>c\<in>set found. aid_kind (fst c) = TableKind"
proof -
  let ?f = "\<lambda>i found (rt :: 'n runtime). if limit - length found = 0 then (found, rt)
      else let (more, rt1) = on_shard i (shard_pending_table_splits (limit - length found) now) rt
           in (found @ more, rt1)"
  have q: "rt_quiet w rt (snd (?f i x rt))" if "i < length (rt_shards rt)" for i x and rt :: "'n runtime"
    using on_shard_quiet [OF shard_reads_quiet(2) that] by (auto simp: Let_def split_beta)
  have "rt_quiet w rt (snd (each_shard ?f is found rt)) \<and>
      (\<forall>c\<in>set (fst (each_shard ?f is found rt)). aid_kind (fst c) = TableKind)"
    if "\<forall>i\<in>set is. i < length (rt_shards rt)" "rt_fits w rt" "\<forall>c\<in>set found. aid_kind (fst c) = TableKind"
    for "is" found rt
    using that
  proof (induction "is" arbitrary: found rt)
    case (Cons i "is")
    obtain found1 rt1 where f: "?f i found rt = (found1, rt1)" by fastforce
    have q1: "rt_quiet w rt rt1" using q [of i rt found] Cons.prems(1) f by simp
    have "map_fits w (rt_shards rt ! i)" using shard_fits [OF Cons.prems(2), of i] Cons.prems(1) by simp
    then have tables: "\<forall>c\<in>set (pending_splits_of n now (rt_shards rt ! i) ids []). aid_kind (fst c) = TableKind"
      for n ids
      using pending_splits_of_tables [of "[]" w] by simp
    have "found1 = found \<or> (\<exists>n ids. found1 = found @ pending_splits_of n now (rt_shards rt ! i) ids [])"
      using f by (auto simp: on_shard_def shard_pending_table_splits_def Let_def split: if_splits)
    then have "aid_kind (fst c) = TableKind" if c: "c \<in> set found1" for c
    proof (elim disjE exE)
      assume "found1 = found"
      with c Cons.prems(3) show ?thesis by simp
    next
      fix n ids assume "found1 = found @ pending_splits_of n now (rt_shards rt ! i) ids []"
      with c have "c \<in> set found \<or> c \<in> set (pending_splits_of n now (rt_shards rt ! i) ids [])" by simp
      with Cons.prems(3) tables [of n ids] show ?thesis by blast
    qed
    then have "\<forall>c\<in>set found1. aid_kind (fst c) = TableKind" by blast
    with Cons.IH [of rt1 found1] Cons.prems(1,2) q1 f show ?case
      by (auto simp: rt_quiet_def rt_frame_def)
  qed simp
  from this [of "all_shards rt" rt "[]"] assms
  show "rt_quiet w rt rt'" "\<forall>c\<in>set found. aid_kind (fst c) = TableKind"
    by (simp_all add: pending_splits_def)
qed

lemma split_pending_scopes_quiet:
  assumes "rt_fits w rt"
  shows "\<exists>n rt'. split_pending_scopes ops digest now limit rt = Some (n, rt') \<and> rt_quiet w rt rt'"
proof (cases "limit = 0")
  case False
  obtain found rt1 where p: "pending_splits now limit rt = (found, rt1)" by fastforce
  note tables = pending_splits_tables [OF assms p]
  define cs where "cs = take limit (sort_key (\<lambda>(a, scope_key). (route_key a, scope_key)) found)"
  have "\<forall>c\<in>set cs. aid_kind (fst c) = TableKind"
    using tables(2) unfolding cs_def by (metis in_set_takeD set_sort)
  from split_each_quiet [OF this] obtain n rt2 where
    s: "split_each ops digest now (rt_split_policy rt) cs 0 rt1 = Some (n, rt2)" "rt_quiet w rt1 rt2" by blast
  have "rt_quiet w rt2 (rt2\<lparr>rt_split_status := record_sweep now n (rt_split_status rt2)\<rparr>)"
    by (simp add: rt_quiet_def rt_frame_def rt_fits_def room_total_def)
  with False p s tables(1) show ?thesis
    by (auto simp: split_pending_scopes_def cs_def intro: rt_quiet_trans)
qed (simp add: split_pending_scopes_def)

section \<open>Evictions are counted exactly\<close>

lemma evict_rooms_of_effect:
  assumes "rt_fits w rt" "i < length (rt_shards rt)" "\<forall>a\<in>set ids. aid_kind a = RoomKind"
    "evict_rooms_of i ids n rt = (n', rt')"
  shows "rt_frame w rt rt'" "n' + room_total rt' = n + room_total rt"
    "\<exists>m. rt_shards rt' = (rt_shards rt)[i := m]"
    "distinct ids \<Longrightarrow> set ids \<subseteq> room_keys (rt_shards rt ! i) \<Longrightarrow> n' = n + length ids"
proof -
  let ?s = "\<lparr>sh_seq = rt_seq rt, sh_actors = rt_shards rt ! i\<rparr>"
  obtain k s' where e: "shard_evict_rooms ids (0, ?s) = (k, s')" by fastforce
  obtain rt1 where o: "on_shard i (\<lambda>s. shard_evict_rooms ids (0, s)) rt = (k, rt1)"
    using e by (simp add: on_shard_def)
  have fits: "map_fits w (sh_actors ?s)" using shard_fits [OF assms(1,2)] by simp
  note eff = shard_evict_rooms_effect [OF fits assms(3) e]
  note fr = on_shard_frame [OF assms(1,2) o e eff(1)]
  have n': "n' = n + k" "rt' = rt1" using assms(4) o by (auto simp: evict_rooms_of_def)
  show "rt_frame w rt rt'" using fr(1) n' by simp
  show "n' + room_total rt' = n + room_total rt" using fr(2) eff(2) n' by simp
  show "\<exists>m. rt_shards rt' = (rt_shards rt)[i := m]" using fr(3) n' by blast
  show "n' = n + length ids" if "distinct ids" "set ids \<subseteq> room_keys (rt_shards rt ! i)"
    using eff(3) that n' by simp
qed

lemma rt_frame_trans: "rt_frame w rt rt1 \<Longrightarrow> rt_frame w rt1 rt2 \<Longrightarrow> rt_frame w rt rt2"
  by (auto simp: rt_frame_def)

text \<open>Shards that evict one after the other, each of its own rooms.\<close>

lemma each_evict:
  assumes "rt_fits w rt" "distinct is" "\<forall>i\<in>set is. i < length (rt_shards rt)"
    "\<forall>i\<in>set is. distinct (sel i (rt_shards rt ! i)) \<and> set (sel i (rt_shards rt ! i)) \<subseteq> room_keys (rt_shards rt ! i)"
    "each_shard (\<lambda>i n rt. evict_rooms_of i (sel i (rt_shards rt ! i)) n rt) is n rt = (n', rt')"
  shows "rt_frame w rt rt' \<and> n' + room_total rt' = n + room_total rt
    \<and> n' = n + (\<Sum>i\<leftarrow>is. length (sel i (rt_shards rt ! i)))"
  using assms
proof (induction "is" arbitrary: n rt)
  case (Cons i "is")
  obtain n1 rt1 where e: "evict_rooms_of i (sel i (rt_shards rt ! i)) n rt = (n1, rt1)" by fastforce
  have bound: "i < length (rt_shards rt)"
    and sel: "distinct (sel i (rt_shards rt ! i))" "set (sel i (rt_shards rt ! i)) \<subseteq> room_keys (rt_shards rt ! i)"
    using Cons.prems(3,4) by simp_all
  have kinds: "\<forall>a\<in>set (sel i (rt_shards rt ! i)). aid_kind a = RoomKind"
    using sel(2) by (auto simp: room_keys_def)
  note eff = evict_rooms_of_effect [OF Cons.prems(1) bound kinds e]
  obtain m where m: "rt_shards rt1 = (rt_shards rt)[i := m]" using eff(3) by blast
  have same: "rt_shards rt1 ! j = rt_shards rt ! j" if "j \<in> set is" for j
    using that Cons.prems(2) by (cases "i = j") (auto simp: m)
  have fits: "rt_fits w rt1" using eff(1) Cons.prems(1) by (simp add: rt_frame_def)
  have run: "each_shard (\<lambda>i n rt. evict_rooms_of i (sel i (rt_shards rt ! i)) n rt) is n1 rt1 = (n', rt')"
    using Cons.prems(5) by (simp add: e)
  have "rt_frame w rt1 rt' \<and> n' + room_total rt' = n1 + room_total rt1
      \<and> n' = n1 + (\<Sum>i\<leftarrow>is. length (sel i (rt_shards rt1 ! i)))"
    using Cons.prems(2-4) same by (intro Cons.IH [OF fits _ _ _ run]) (auto simp: m)
  moreover have "(\<Sum>i\<leftarrow>is. length (sel i (rt_shards rt1 ! i))) = (\<Sum>i\<leftarrow>is. length (sel i (rt_shards rt ! i)))"
    using same by (metis (no_types, lifting) map_eq_conv)
  ultimately show ?case
    using eff(1,2) eff(4) [OF sel] rt_frame_trans by auto
qed (simp add: rt_frame_def)

definition room_list :: "'n actor_map \<Rightarrow> actor_id list" where
  "room_list m = map fst (filter (\<lambda>(a, actor). is_room actor) (bt_entries m))"

lemma room_list_rooms:
  assumes "map_fits w m"
  shows "distinct (room_list m)" "set (room_list m) = room_keys m"
proof -
  have "distinct (map fst (bt_entries m))" using ascending_distinct ascending_entries by blast
  then show "distinct (room_list m)" by (simp add: room_list_def distinct_map_filter)
  show "set (room_list m) = room_keys m"
  proof (rule set_eqI)
    fix a
    have "a \<in> set (room_list m) \<longleftrightarrow> (\<exists>x. bt_get m a = Some x \<and> is_room x)"
      by (force simp: room_list_def in_entries)
    also have "\<dots> \<longleftrightarrow> a \<in> room_keys m"
      using fits_room_iff [OF map_fitsD [OF assms]] by (auto simp: room_keys_def)
    finally show "a \<in> set (room_list m) \<longleftrightarrow> a \<in> room_keys m" .
  qed
qed

lemma candidates_of_shard: "map (fst \<circ> snd) (shard_lru_candidates i s) = room_list (sh_actors s)"
  by (simp add: shard_lru_candidates_def room_list_def comp_def split_beta)

definition candidate_pair :: "lru_candidate \<Rightarrow> nat \<times> actor_id" where
  "candidate_pair c = (case c of (i, a, _) \<Rightarrow> (i, a))"

lemma candidate_pairs:
  "map candidate_pair (lru_candidates rt) =
     concat (map (\<lambda>i. map (Pair i) (room_list (rt_shards rt ! i))) (all_shards rt))"
  by (simp add: lru_candidates_def map_concat shard_lru_candidates_def room_list_def candidate_pair_def
      comp_def split_beta)

lemma distinct_tagged:
  assumes "distinct is" "\<forall>i\<in>set is. distinct (K i)"
  shows "distinct (concat (map (\<lambda>i. map (Pair i) (K i)) is))"
  using assms by (induction "is") (auto simp: distinct_map inj_on_def)

lemma candidates_are_rooms:
  assumes "rt_fits w rt"
  shows "distinct (map candidate_pair (lru_candidates rt))"
    and "c \<in> set (lru_candidates rt) \<Longrightarrow> candidate_pair c = (i, a) \<Longrightarrow>
      i < length (rt_shards rt) \<and> a \<in> room_keys (rt_shards rt ! i)"
    and "length (lru_candidates rt) = room_total rt"
proof -
  have K: "distinct (room_list (rt_shards rt ! i))" "set (room_list (rt_shards rt ! i)) = room_keys (rt_shards rt ! i)"
    if "i < length (rt_shards rt)" for i
    using room_list_rooms shard_fits [OF assms that] by blast+
  show "distinct (map candidate_pair (lru_candidates rt))"
    unfolding candidate_pairs using K by (intro distinct_tagged) auto
  show "i < length (rt_shards rt) \<and> a \<in> room_keys (rt_shards rt ! i)"
    if "c \<in> set (lru_candidates rt)" "candidate_pair c = (i, a)"
  proof -
    have "(i, a) \<in> set (map candidate_pair (lru_candidates rt))" using that by force
    then show ?thesis unfolding candidate_pairs using K by auto
  qed
  have "length (lru_candidates rt) = length (map candidate_pair (lru_candidates rt))" by simp
  also have "\<dots> = (\<Sum>i\<leftarrow>all_shards rt. length (room_list (rt_shards rt ! i)))"
    unfolding candidate_pairs by (simp add: length_concat comp_def)
  also have "\<dots> = (\<Sum>i\<leftarrow>all_shards rt. card (room_keys (rt_shards rt ! i)))"
    using K by (intro arg_cong [of _ _ sum_list] map_cong) (auto, metis distinct_card)
  also have "\<dots> = room_total rt"
    unfolding room_total_def by (metis (no_types, lifting) list.map_comp map_nth comp_apply map_eq_conv)
  finally show "length (lru_candidates rt) = room_total rt" .
qed

text \<open>Grouping a list by a key with \<open>bt_push\<close>.\<close>

lemma fold_push_get:
  "bt_get_or (fold (\<lambda>(k, v). bt_push k v) xs m) k [] = bt_get_or m k [] @ map snd (filter (\<lambda>x. fst x = k) xs)"
proof (induction xs arbitrary: m)
  case (Cons x xs)
  obtain a v where x: "x = (a, v)" by (cases x)
  have "bt_get_or (bt_push a v m) k [] = bt_get_or m k [] @ (if a = k then [v] else [])"
    by (simp add: bt_get_or_def)
  then show ?case using Cons.IH [of "bt_push a v m"] by (simp add: x)
qed simp

lemma fold_push_keys:
  "{k. bt_get (fold (\<lambda>(k, v). bt_push k v) xs m) k \<noteq> None} = {k. bt_get m k \<noteq> None} \<union> fst ` set xs"
proof (induction xs arbitrary: m)
  case (Cons x xs)
  obtain a v where x: "x = (a, v)" by (cases x)
  have "{k. bt_get (bt_push a v m) k \<noteq> None} = insert a {k. bt_get m k \<noteq> None}" by auto
  then show ?case using Cons.IH [of "bt_push a v m"] by (simp add: x)
qed simp

lemma sum_groups:
  assumes "distinct ks" "fst ` set xs \<subseteq> set ks"
  shows "(\<Sum>k\<leftarrow>ks. length (filter (\<lambda>x. fst x = k) xs)) = length xs"
  using assms(2)
proof (induction xs)
  case (Cons x xs)
  have "(\<Sum>k\<leftarrow>ks. length (filter (\<lambda>y. fst y = k) (x # xs)))
      = (\<Sum>k\<leftarrow>ks. (if k = fst x then 1 else 0)) + (\<Sum>k\<leftarrow>ks. length (filter (\<lambda>y. fst y = k) xs))"
    unfolding sum_list_addf [symmetric] by (intro arg_cong [of _ _ sum_list] map_cong) auto
  also have "(\<Sum>k\<leftarrow>ks. (if k = fst x then 1 else 0 :: nat)) = 1"
    using assms(1) Cons.prems by (simp add: sum_list_distinct_conv_sum_set)
  finally show ?case using Cons by simp
qed simp

lemma evict_lru_effect:
  assumes "rt_fits w rt" "evict_lru_sharded_rooms max_hot rt = (n, rt')"
  shows "rt_frame w rt rt' \<and> n + room_total rt' = room_total rt \<and> room_total rt' \<le> max_hot"
proof -
  define cs where "cs = lru_candidates rt"
  note cand = candidates_are_rooms [OF assms(1), folded cs_def]
  consider (none) "length cs - max_hot = 0" | (all) "length cs - max_hot \<noteq> 0" "max_hot = 0"
    | (some) "length cs - max_hot \<noteq> 0" "max_hot \<noteq> 0" by blast
  then show ?thesis
  proof cases
    case none
    then show ?thesis
      using assms(2) cand(3) by (simp add: evict_lru_sharded_rooms_def rt_frame_def flip: cs_def)
  next
    case all
    let ?sel = "\<lambda>i m. room_list m"
    obtain k where run: "each_shard (\<lambda>i n rt. evict_rooms_of i (?sel i (rt_shards rt ! i)) n rt)
        (all_shards rt) 0 rt = (k, rt')" and n: "n = length cs"
      using assms(2) all
      by (auto simp: evict_lru_sharded_rooms_def candidates_of_shard Let_def simp flip: cs_def
          split: prod.splits intro: prod.collapse [symmetric])
    have sel: "\<forall>i\<in>set (all_shards rt). distinct (room_list (rt_shards rt ! i))
        \<and> set (room_list (rt_shards rt ! i)) \<subseteq> room_keys (rt_shards rt ! i)"
      using room_list_rooms [OF shard_fits [OF assms(1)]] by auto
    have "k = (\<Sum>i\<leftarrow>all_shards rt. length (room_list (rt_shards rt ! i)))"
      "rt_frame w rt rt'" "k + room_total rt' = room_total rt"
      using each_evict [OF assms(1) _ _ sel run] by simp_all
    moreover have "(\<Sum>i\<leftarrow>all_shards rt. length (room_list (rt_shards rt ! i))) = length cs"
      unfolding cs_def by (simp add: lru_candidates_def shard_lru_candidates_def length_concat comp_def room_list_def)
    ultimately show ?thesis using n cand(3) by simp
  next
    case some
    define ls where "ls = map candidate_pair (take (length cs - max_hot) (sort_key lru_rank cs))"
    define by_shard where "by_shard = fold (\<lambda>(k, v). bt_push k v) ls bt_empty"
    let ?sel = "\<lambda>i m. bt_get_or by_shard i []"
    have "fold (\<lambda>(i, a, _). bt_push i a) xs m = fold (\<lambda>(k, v). bt_push k v) (map candidate_pair xs) m"
      for xs :: "lru_candidate list" and m
      by (induction xs arbitrary: m) (auto simp: candidate_pair_def)
    then have run: "each_shard (\<lambda>i n rt. evict_rooms_of i (?sel i (rt_shards rt ! i)) n rt)
        (bt_keys by_shard) 0 rt = (n, rt')"
      using assms(2) some by (simp add: evict_lru_sharded_rooms_def by_shard_def ls_def Let_def flip: cs_def)
    have ls: "distinct ls" "\<And>i a. (i, a) \<in> set ls \<Longrightarrow> i < length (rt_shards rt) \<and> a \<in> room_keys (rt_shards rt ! i)"
    proof -
      have "mset (map candidate_pair (sort_key lru_rank cs)) = mset (map candidate_pair cs)" by simp
      then have "distinct (map candidate_pair (sort_key lru_rank cs))"
        using cand(1) mset_eq_imp_distinct_iff by blast
      then show "distinct ls" unfolding ls_def take_map [symmetric] by (rule distinct_take)
      show "i < length (rt_shards rt) \<and> a \<in> room_keys (rt_shards rt ! i)" if "(i, a) \<in> set ls" for i a
proof -
        from that obtain c where c: "c \<in> set (take (length cs - max_hot) (sort_key lru_rank cs))" "candidate_pair c = (i, a)"
          unfolding ls_def by auto
        have "c \<in> set cs" using in_set_takeD [OF c(1)] by simp
        then show ?thesis using cand(2) c(2) by blast
      qed
    qed
    have keys: "set (bt_keys by_shard) = fst ` set ls"
      using fold_push_keys [of ls bt_empty] by (simp add: set_bt_keys by_shard_def)
    have group: "bt_get_or by_shard i [] = map snd (filter (\<lambda>x. fst x = i) ls)" for i
      using fold_push_get [of ls bt_empty i] by (simp add: by_shard_def bt_get_or_def)
    have bound: "\<forall>i\<in>set (bt_keys by_shard). i < length (rt_shards rt)"
      using ls(2) by (auto simp: keys)
    have sel: "\<forall>i\<in>set (bt_keys by_shard). distinct (bt_get_or by_shard i [])
        \<and> set (bt_get_or by_shard i []) \<subseteq> room_keys (rt_shards rt ! i)"
    proof (intro ballI conjI)
      fix i
      have "inj_on snd (set (filter (\<lambda>x. fst x = i) ls))" by (auto simp: inj_on_def)
      then show "distinct (bt_get_or by_shard i [])" using ls(1) by (simp add: group distinct_map)
      show "set (bt_get_or by_shard i []) \<subseteq> room_keys (rt_shards rt ! i)" using ls(2) by (auto simp: group)
    qed
    have "n = (\<Sum>i\<leftarrow>bt_keys by_shard. length (bt_get_or by_shard i []))" "rt_frame w rt rt'"
      "n + room_total rt' = room_total rt"
      using each_evict [OF assms(1) _ bound sel run] by simp_all
    moreover have "(\<Sum>i\<leftarrow>bt_keys by_shard. length (bt_get_or by_shard i [])) = length ls"
      unfolding group length_map by (rule sum_groups) (simp_all add: keys)
    moreover have "length ls = length cs - max_hot" by (simp add: ls_def)
    ultimately show ?thesis using cand(3) by simp
  qed
qed

lemma evict_idle_runtime_effect:
  assumes "rt_fits w rt" "evict_idle_sharded_rooms ttl now rt = (n, rt')"
  shows "rt_frame w rt rt' \<and> n + room_total rt' = room_total rt"
proof (cases "ttl = 0")
  case False
  let ?f = "\<lambda>i evicted rt. let (n, rt1) = on_shard i (shard_evict_idle ttl now) rt in (evicted + n, rt1)"
  have "rt_frame w rt rt' \<and> n' + room_total rt' = n + room_total rt"
    if "rt_fits w rt" "\<forall>i\<in>set is. i < length (rt_shards rt)" "each_shard ?f is n rt = (n', rt')" for "is" n n' rt rt'
    using that
  proof (induction "is" arbitrary: n rt)
    case (Cons i "is")
    let ?s = "\<lparr>sh_seq = rt_seq rt, sh_actors = rt_shards rt ! i\<rparr>"
    obtain k s' where e: "shard_evict_idle ttl now ?s = (k, s')" by fastforce
    obtain rt1 where o: "on_shard i (shard_evict_idle ttl now) rt = (k, rt1)" using e by (simp add: on_shard_def)
    have bound: "i < length (rt_shards rt)" using Cons.prems(2) by simp
    have "map_fits w (sh_actors ?s)" using shard_fits [OF Cons.prems(1) bound] by simp
    note eff = evict_idle_effect [OF this e]
    note fr = on_shard_frame [OF Cons.prems(1) bound o e conjunct1 [OF eff]]
    have "rt_frame w rt1 rt' \<and> n' + room_total rt' = (n + k) + room_total rt1"
      using Cons.prems fr(1) o by (intro Cons.IH) (auto simp: rt_frame_def)
    then show ?case using fr(1,2) eff rt_frame_trans by auto
  qed (simp add: rt_frame_def)
  from this [of rt "all_shards rt" 0 n rt'] assms False show ?thesis by (simp add: evict_idle_sharded_rooms_def)
qed (use assms in \<open>simp add: evict_idle_sharded_rooms_def rt_frame_def\<close>)

section \<open>The invariant of the rooms\<close>

definition rooms_inv :: "'n runtime \<Rightarrow> bool" where
  "rooms_inv rt \<longleftrightarrow>
     rt_fits (ac_hot_window (rt_config rt)) rt \<and> rt_resident rt = room_total rt
     \<and> room_total rt \<le> ac_max_hot_rooms (rt_config rt)"

lemma rooms_inv_quiet:
  assumes "rooms_inv rt" "rt_quiet (ac_hot_window (rt_config rt)) rt rt'"
  shows "rooms_inv rt'"
  using assms by (auto simp: rooms_inv_def rt_quiet_def rt_frame_def)

lemma rt_updates [simp]:
  "rt_fits w (rt\<lparr>rt_resident := n\<rparr>) = rt_fits w rt" "room_total (rt\<lparr>rt_resident := n\<rparr>) = room_total rt"
  "rt_fits w (rt\<lparr>rt_idle_status := st\<rparr>) = rt_fits w rt" "room_total (rt\<lparr>rt_idle_status := st\<rparr>) = room_total rt"
  "rt_fits w (rt\<lparr>rt_config := c\<rparr>) = rt_fits w rt" "room_total (rt\<lparr>rt_config := c\<rparr>) = room_total rt"
  "rt_fits w (rt\<lparr>rt_wheel := h\<rparr>) = rt_fits w rt" "room_total (rt\<lparr>rt_wheel := h\<rparr>) = room_total rt"
  "rt_fits w (rt\<lparr>rt_reminder_status := st\<rparr>) = rt_fits w rt"
  "room_total (rt\<lparr>rt_reminder_status := st\<rparr>) = room_total rt"
  by (simp_all add: rt_fits_def room_total_def)

lemma enforce_capacity_inv:
  assumes "rt_fits (ac_hot_window (rt_config rt)) rt" "rt_resident rt = room_total rt"
  shows "rooms_inv (enforce_capacity (ac_max_hot_rooms (rt_config rt)) rt)"
proof (cases "rt_resident rt \<le> ac_max_hot_rooms (rt_config rt)")
  case True
  then show ?thesis using assms by (simp add: enforce_capacity_def rooms_inv_def)
next
  case False
  obtain n rt1 where e: "evict_lru_sharded_rooms (ac_max_hot_rooms (rt_config rt)) rt = (n, rt1)" by fastforce
  from evict_lru_effect [OF assms(1) e] False assms show ?thesis
    by (auto simp: enforce_capacity_def e rooms_inv_def decrement_resident_rooms_def rt_frame_def)
qed

lemma evict_idle_rooms_inv:
  assumes "rooms_inv rt"
  shows "rooms_inv (snd (evict_idle_rooms now rt))" "rt_config (snd (evict_idle_rooms now rt)) = rt_config rt"
proof -
  let ?ttl = "ac_hot_room_idle_ttl_ms (rt_config rt)"
  obtain n rt1 where e: "evict_idle_sharded_rooms ?ttl now rt = (n, rt1)" by fastforce
  have "rt_fits (ac_hot_window (rt_config rt)) rt" using assms by (simp add: rooms_inv_def)
  from evict_idle_runtime_effect [OF this e] assms
  show "rooms_inv (snd (evict_idle_rooms now rt))" "rt_config (snd (evict_idle_rooms now rt)) = rt_config rt"
    by (auto simp: evict_idle_rooms_def e rooms_inv_def decrement_resident_rooms_def rt_frame_def Let_def)
qed

lemma shard_apply_on:
  assumes "rt_fits w rt" "i < length (rt_shards rt)" "\<forall>b\<in>set batches. aid_kind (fst b) = RoomKind"
    "on_shard i (\<lambda>s. shard_apply_messages now w batches (0, s)) rt = (n, rt')"
  shows "rt_frame w rt rt' \<and> room_total rt' = room_total rt + n"
proof -
  let ?s = "\<lparr>sh_seq = rt_seq rt, sh_actors = rt_shards rt ! i\<rparr>"
  obtain s' where e: "shard_apply_messages now w batches (0, ?s) = (n, s')"
    using assms(4) by (auto simp: on_shard_def split: prod.splits)
  have fits: "map_fits w (sh_actors ?s)" using shard_fits [OF assms(1,2)] by simp
  note eff = shard_apply_effect [OF fits assms(3) e]
  from on_shard_frame [OF assms(1,2,4) e conjunct1 [OF eff]] eff show ?thesis by simp
qed

lemma apply_message_inv:
  assumes "rooms_inv rt"
  shows "rooms_inv (apply_message digest now m rt)"
proof -
  let ?w = "ac_hot_window (rt_config rt)" and ?a = "room_id_of (msg_room_id m)"
  have fits: "rt_fits ?w rt" using assms by (simp add: rooms_inv_def)
  obtain n rt1 where o: "shard_for_actor digest ?a (\<lambda>s. shard_apply_messages now ?w [(?a, [m])] (0, s)) rt = (n, rt1)"
    by fastforce
  have "shard_index_of digest ?a rt < length (rt_shards rt)"
    using fits by (intro shard_index_bound) (simp add: rt_fits_def)
  from shard_apply_on [OF fits this _ o [unfolded shard_for_actor_def]]
  have "rt_frame ?w rt rt1" "room_total rt1 = room_total rt + n" by (simp_all add: room_id_of_def)
  then show ?thesis
    using assms enforce_capacity_inv [of "rt1\<lparr>rt_resident := rt_resident rt1 + n\<rparr>"]
    by (simp add: apply_message_def Let_def o rt_frame_def rooms_inv_def fits)
qed

lemma room_batches_kinds: "\<forall>b\<in>set (room_batches ms). aid_kind (fst b) = RoomKind"
proof -
  have "aid_kind k = RoomKind" if "bt_get (fold (\<lambda>m. bt_push (room_id_of (msg_room_id m)) m) ms t) k \<noteq> None"
    "\<forall>k. bt_get t k \<noteq> None \<longrightarrow> aid_kind k = RoomKind" for t k
    using that
  proof (induction ms arbitrary: t)
    case (Cons m ms)
    have "\<forall>k. bt_get (bt_push (room_id_of (msg_room_id m)) m t) k \<noteq> None \<longrightarrow> aid_kind k = RoomKind"
      using Cons.prems(2) by (simp add: room_id_of_def)
    with Cons show ?case by simp
  qed simp
  then show ?thesis by (fastforce simp: room_batches_def in_entries)
qed

lemma apply_messages_inv:
  assumes "rooms_inv rt"
  shows "rooms_inv (apply_messages digest now ms rt)"
proof (cases "ms = []")
  case False
  let ?w = "ac_hot_window (rt_config rt)"
  define by_shard where "by_shard = fold (\<lambda>(k, v). bt_push k v)
      (map (\<lambda>(a, b). (shard_index_of digest a rt, (a, b))) (room_batches ms)) bt_empty"
  have fold_eq: "fold (\<lambda>(a, batch). bt_push (shard_index_of digest a rt) (a, batch)) bs t
      = fold (\<lambda>(k, v). bt_push k v) (map (\<lambda>(a, b). (shard_index_of digest a rt, (a, b))) bs) t"
    for bs :: "(actor_id \<times> message list) list" and t
    by (induction bs arbitrary: t) auto
  let ?f = "\<lambda>i _ rt'. let (n, rt2) = on_shard i (\<lambda>s.
        shard_apply_messages now ?w (bt_get_or by_shard i []) (0, s)) rt'
      in ((), rt2\<lparr>rt_resident := rt_resident rt2 + n\<rparr>)"
  have fits: "rt_fits ?w rt" using assms by (simp add: rooms_inv_def)
  have bound: "\<forall>i\<in>set (bt_keys by_shard). i < length (rt_shards rt)"
  proof -
    have "set (bt_keys by_shard) = fst ` set (map (\<lambda>(a, b). (shard_index_of digest a rt, (a, b))) (room_batches ms))"
      using fold_push_keys [of "map (\<lambda>(a, b). (shard_index_of digest a rt, (a, b))) (room_batches ms)" bt_empty]
      unfolding by_shard_def by (simp add: set_bt_keys)
    moreover have "rt_shards rt \<noteq> []" using fits by (simp add: rt_fits_def)
    ultimately show ?thesis using shard_index_bound by fastforce
  qed
  have kinds: "\<forall>b\<in>set (bt_get_or by_shard i []). aid_kind (fst b) = RoomKind" for i
    using room_batches_kinds [of ms] unfolding by_shard_def fold_push_get by (fastforce simp: bt_get_or_def)
  have step: "rt_fits ?w rt1 \<and> rt_resident rt1 = room_total rt1 \<and> rt_config rt1 = rt_config rt0"
    if "rt_fits ?w rt0" "rt_resident rt0 = room_total rt0" "\<forall>i\<in>set is. i < length (rt_shards rt0)"
      "each_shard ?f is () rt0 = (u, rt1)" for "is" rt0 rt1 u
    using that
  proof (induction "is" arbitrary: rt0)
    case (Cons i "is")
    obtain n rt2 where o: "on_shard i (\<lambda>s. shard_apply_messages now ?w (bt_get_or by_shard i []) (0, s)) rt0 = (n, rt2)"
      by fastforce
    have "rt_frame ?w rt0 rt2 \<and> room_total rt2 = room_total rt0 + n"
      using Cons.prems(3) by (intro shard_apply_on [OF Cons.prems(1) _ kinds o]) simp
    then show ?case
      using Cons.prems Cons.IH [of "rt2\<lparr>rt_resident := rt_resident rt2 + n\<rparr>"] o
      by (auto simp: rt_frame_def)
  qed simp
  define rt1 where "rt1 = snd (each_shard ?f (bt_keys by_shard) () rt)"
  have run: "each_shard ?f (bt_keys by_shard) () rt = ((), rt1)"
    by (simp add: rt1_def prod_eq_iff)
  from step [OF fits _ bound run] assms
  have "rt_fits ?w rt1" "rt_resident rt1 = room_total rt1" "rt_config rt1 = rt_config rt"
    by (simp_all add: rooms_inv_def)
  with enforce_capacity_inv [of rt1] False run show ?thesis
    by (simp add: apply_messages_def fold_eq Let_def flip: by_shard_def)
qed (use assms in \<open>simp add: apply_messages_def\<close>)

lemma run_actor_turn_inv:
  assumes "rooms_inv rt"
  shows "rooms_inv (snd (run_actor_turn digest now a msg rt))"
proof -
  let ?w = "ac_hot_window (rt_config rt)" and ?i = "shard_index_of digest a rt"
  let ?s = "\<lparr>sh_seq = rt_seq rt, sh_actors = rt_shards rt ! ?i\<rparr>"
  have fits: "rt_fits ?w rt" using assms by (simp add: rooms_inv_def)
  have bound: "?i < length (rt_shards rt)" using fits by (intro shard_index_bound) (simp add: rt_fits_def)
  obtain r s' where e: "shard_run_turn now ?i a msg ?s = (r, s')" by fastforce
  obtain rt1 where o: "on_shard ?i (shard_run_turn now ?i a msg) rt = (r, rt1)" using e by (simp add: on_shard_def)
  have eff: "map_fits w (sh_actors s')" "room_keys (sh_actors s') = with_room a (room_keys (rt_shards rt ! ?i))"
    if "map_fits w (rt_shards rt ! ?i)" for w
    using shard_effectD [OF run_turn_effect _ e] that by simp_all
  note fit = shard_fits [OF fits bound]
  note fr = on_shard_frame [OF fits bound o e eff(1) [OF fit]]
  have created: "atr_created r \<longleftrightarrow> \<not> bt_contains (rt_shards rt ! ?i) a"
    using e by (auto simp: shard_run_turn_def Let_def split: prod.splits)
  show ?thesis
  proof (cases "aid_kind a = RoomKind \<and> atr_created r")
    case True
    then have "room_total rt1 = room_total rt + 1"
      using fr(2) eff(2) [OF fit] card_with_room [of a "rt_shards rt ! ?i"] created by simp
    with fr(1) True assms enforce_capacity_inv [of "rt1\<lparr>rt_resident := rt_resident rt1 + 1\<rparr>"] show ?thesis
      by (simp add: run_actor_turn_def shard_for_actor_def o rt_frame_def rooms_inv_def)
  next
    case False
    then have "card (with_room a (room_keys (rt_shards rt ! ?i))) = card (room_keys (rt_shards rt ! ?i))"
      using card_with_room [of a "rt_shards rt ! ?i"] created by (cases "aid_kind a = RoomKind") auto
    then have "room_total rt1 = room_total rt" using fr(2) eff(2) [OF fit] by simp
    with fr(1) False assms show ?thesis
      by (auto simp: run_actor_turn_def shard_for_actor_def o rt_frame_def rooms_inv_def)
  qed
qed

lemma evict_room_inv:
  assumes "rooms_inv rt"
  shows "rooms_inv (snd (evict_room digest room_id rt))"
proof -
  let ?w = "ac_hot_window (rt_config rt)" and ?a = "room_id_of room_id"
  let ?i = "shard_index_of digest ?a rt"
  let ?s = "\<lparr>sh_seq = rt_seq rt, sh_actors = rt_shards rt ! ?i\<rparr>"
  have fits: "rt_fits ?w rt" using assms by (simp add: rooms_inv_def)
  have bound: "?i < length (rt_shards rt)" using fits by (intro shard_index_bound) (simp add: rt_fits_def)
  obtain found s' where e: "shard_evict_room ?a ?s = (found, s')" by fastforce
  obtain rt1 where o: "on_shard ?i (shard_evict_room ?a) rt = (found, rt1)" using e by (simp add: on_shard_def)
  have run: "shard_evict_rooms [?a] (0, ?s) = (if found then 1 else 0, s')" using e by simp
  have fit: "map_fits ?w (sh_actors ?s)" using shard_fits [OF fits bound] by simp
  note eff = shard_evict_rooms_effect [OF fit _ run]
  have kind: "\<forall>a\<in>set [?a]. aid_kind a = RoomKind" by (simp add: room_id_of_def)
  from on_shard_frame [OF fits bound o e eff(1) [OF kind]] eff(2) [OF kind] assms show ?thesis
    by (auto simp: evict_room_def shard_for_actor_def o Let_def rooms_inv_def rt_frame_def
        decrement_resident_rooms_def split: if_splits)
qed

lemma latest_messages_inv:
  assumes "rooms_inv rt"
  shows "rooms_inv (snd (latest_messages digest now room_id before_lsn limit rt))"
proof -
  obtain n rt1 where e: "evict_idle_rooms now rt = (n, rt1)" by fastforce
  have inv: "rooms_inv rt1" using evict_idle_rooms_inv(1) [OF assms, of now] e by simp
  have "rt_quiet w rt1 (snd (shard_for_actor digest (room_id_of room_id)
      (shard_latest_messages now (room_id_of room_id) before_lsn limit) rt1))" for w
    by (intro shard_for_actor_quiet latest_messages_quiet) (simp add: room_id_of_def)
  from rooms_inv_quiet [OF inv this] show ?thesis by (simp add: latest_messages_def e Let_def)
qed

lemma reconfigure_inv:
  assumes "rooms_inv rt"
  shows "rooms_inv (rt_reconfigure now split_rows split_bytes w max_hot ttl rt)"
proof -
  define config where "config = \<lparr>ac_hot_window = w, ac_max_hot_rooms = max_hot,
      ac_hot_room_idle_ttl_ms = ttl, ac_split_rows = split_rows, ac_split_bytes = split_bytes\<rparr>"
  let ?f = "\<lambda>i (_::unit). on_shard i (\<lambda>s. ((), shard_truncate_all w s))"
  define rt1 where "rt1 = rt\<lparr>rt_config := config\<rparr>"
  let ?old = "ac_hot_window (rt_config rt)"
  text \<open>Shards below \<open>k\<close> have been truncated, the others still have the old window.\<close>
  let ?mid = "\<lambda>k rt'. length (rt_shards rt') = length (rt_shards rt1) \<and> rt_config rt' = config
      \<and> rt_resident rt' = rt_resident rt1 \<and> room_total rt' = room_total rt1
      \<and> (\<forall>i<length (rt_shards rt1). map_fits (if i < k then w else ?old) (rt_shards rt' ! i))"
  have fits: "rt_fits ?old rt1" using assms by (simp add: rt1_def rooms_inv_def)
  have "?mid (length (rt_shards rt1)) (snd (each_shard ?f [k..<length (rt_shards rt1)] () rt'))"
    if "?mid k rt'" "k \<le> length (rt_shards rt1)" for k rt'
    using that
  proof (induction "length (rt_shards rt1) - k" arbitrary: k rt')
    case (Suc n)
    then have k: "k < length (rt_shards rt1)" by simp
    define s where "s = \<lparr>sh_seq = rt_seq rt', sh_actors = rt_shards rt' ! k\<rparr>"
    define rt2 where "rt2 = snd (on_shard k (\<lambda>s. ((), shard_truncate_all w s)) rt')"
    have "map_fits ?old (sh_actors s)" using Suc.prems(1) k by (force simp: s_def)
    note eff = truncate_all_effect [OF this, of w]
    have rt2: "rt2 = rt'\<lparr>rt_seq := sh_seq (shard_truncate_all w s),
        rt_shards := (rt_shards rt')[k := sh_actors (shard_truncate_all w s)]\<rparr>"
      by (simp add: rt2_def on_shard_def s_def)
    have "room_total rt2 = room_total rt'"
      using total_update [of k "rt_shards rt'" "\<lambda>m. card (room_keys m)" "sh_actors (shard_truncate_all w s)"]
        Suc.prems(1) k eff(2)
      by (simp add: rt2 room_total_def s_def)
    then have "?mid (Suc k) rt2"
      using Suc.prems(1) k eff(1) by (auto simp: rt2 nth_list_update less_Suc_eq)
    moreover have "n = length (rt_shards rt1) - Suc k" using Suc.hyps(2) by simp
    ultimately have "?mid (length (rt_shards rt1)) (snd (each_shard ?f [Suc k..<length (rt_shards rt1)] () rt2))"
      using k by (intro Suc.hyps(1)) auto
    then show ?case using k by (simp add: upt_conv_Cons rt2_def split_beta)
  qed simp
  moreover have "?mid 0 rt1"
    using fits by (auto simp: rt1_def rt_fits_def)
  ultimately have mid: "?mid (length (rt_shards rt1)) (snd (each_shard ?f (all_shards rt1) () rt1))"
    by blast
  define rt2 where "rt2 = snd (each_shard ?f (all_shards rt1) () rt1)"
  have fits2: "rt_fits w rt2"
    using mid fits by (auto simp: rt2_def [symmetric] rt_fits_def in_set_conv_nth)
  obtain n rt3 where lru: "evict_lru_sharded_rooms max_hot rt2 = (n, rt3)" by fastforce
  note eff3 = evict_lru_effect [OF fits2 lru]
  then have fits3: "rt_fits w rt3" using fits2 by (simp add: rt_frame_def)
  obtain m rt4 where idle: "evict_idle_sharded_rooms ttl now rt3 = (m, rt4)" by fastforce
  note eff4 = evict_idle_runtime_effect [OF fits3 idle]
  have "rt_resident rt2 = room_total rt2" using mid assms by (simp add: rt2_def rt1_def rooms_inv_def)
  with eff3 eff4 fits3 have "rooms_inv (decrement_resident_rooms (n + m) rt4)"
    using mid by (auto simp: rooms_inv_def rt_frame_def decrement_resident_rooms_def rt2_def [symmetric] config_def)
  moreover have "rooms_inv (rt\<lparr>rt_idle_status := st\<rparr>) = rooms_inv rt" for st and rt :: "'a runtime"
    by (simp add: rooms_inv_def)
  moreover have "ac_max_hot_rooms config = max_hot" "ac_hot_room_idle_ttl_ms config = ttl"
    by (simp_all add: config_def)
  ultimately show ?thesis
    unfolding rt_reconfigure_def Let_def config_def [symmetric] rt1_def [symmetric] rt2_def [symmetric]
    by (simp add: evict_with_config_def lru idle)
qed

section \<open>Every run keeps the invariant\<close>

text \<open>The requests of the runtime, with any clock and any arguments.\<close>

inductive actor_step ::
  "('n, 'z) index_ops_scheme \<Rightarrow> (bytes \<Rightarrow> bytes) \<Rightarrow> 'n runtime \<Rightarrow> 'n runtime \<Rightarrow> bool"
  for ops digest where
  step_message: "actor_step ops digest rt (apply_message digest now m rt)"
| step_messages: "actor_step ops digest rt (apply_messages digest now ms rt)"
| step_turn: "actor_step ops digest rt (snd (run_actor_turn digest now a msg rt))"
| step_latest: "actor_step ops digest rt (snd (latest_messages digest now room_id before_lsn limit rt))"
| step_evict: "actor_step ops digest rt (snd (evict_room digest room_id rt))"
| step_idle: "actor_step ops digest rt (snd (evict_idle_rooms now rt))"
| step_reconfigure: "actor_step ops digest rt (rt_reconfigure now split_rows split_bytes w max_hot ttl rt)"
| step_scope_rows: "upsert_scope_rows ops digest now table_key scope_key rows rt = Some (r, rt') \<Longrightarrow>
    actor_step ops digest rt rt'"
| step_retain: "actor_step ops digest rt (snd (retain_scope_subscription ops digest now table_key scope_key rt))"
| step_release: "actor_step ops digest rt (snd (release_scope_subscription ops digest now table_key scope_key linger rt))"
| step_tier_down: "actor_step ops digest rt (snd (tier_down_idle_scopes now limit rt))"
| step_splits: "split_pending_scopes ops digest now limit rt = Some (n, rt') \<Longrightarrow> actor_step ops digest rt rt'"
| step_snapshot: "actor_step ops digest rt (snd (snapshot_with_schema now lsn version rt))"
| step_schedule: "actor_step ops digest rt (schedule_reminder e rt)"
| step_cancel: "actor_step ops digest rt (snd (cancel_reminder a reminder_id rt))"
| step_due: "actor_step ops digest rt (snd (take_due_reminders now limit rt))"
| step_requeue: "actor_step ops digest rt (requeue_reminders es rt)"
| step_fired: "actor_step ops digest rt (record_reminder_sweep now fired rt)"

lemma wheel_keeps_rooms:
  "rooms_inv (rt\<lparr>rt_wheel := h\<rparr>) = rooms_inv rt" "rooms_inv (rt\<lparr>rt_reminder_status := st\<rparr>) = rooms_inv rt"
  by (simp_all add: rooms_inv_def)

lemma actor_step_inv:
  assumes "actor_step ops digest rt rt'" "rooms_inv rt"
  shows "rooms_inv rt'"
  using assms
proof cases
  case (step_scope_rows now table_key scope_key rows r)
  then show ?thesis
    using upsert_scope_rows_runtime_quiet [of ops digest now table_key scope_key rows rt "ac_hot_window (rt_config rt)"]
      rooms_inv_quiet [OF assms(2)] by auto
next
  case (step_retain now table_key scope_key)
  show ?thesis
    unfolding step_retain retain_scope_subscription_def Let_def
    by (intro rooms_inv_quiet [OF assms(2)] shard_for_actor_quiet scope_subscriptions_quiet) simp
next
  case (step_release now table_key scope_key linger)
  show ?thesis
    unfolding step_release release_scope_subscription_def Let_def
    by (intro rooms_inv_quiet [OF assms(2)] shard_for_actor_quiet scope_subscriptions_quiet) simp
next
  case (step_tier_down now limit)
  show ?thesis unfolding step_tier_down by (intro rooms_inv_quiet [OF assms(2)] tier_down_idle_scopes_quiet)
next
  case (step_splits now limit n)
  have "rt_fits (ac_hot_window (rt_config rt)) rt" using assms(2) by (simp add: rooms_inv_def)
  from split_pending_scopes_quiet [OF this, of ops digest now limit] step_splits show ?thesis
    using rooms_inv_quiet [OF assms(2)] by auto
next
  case (step_snapshot now lsn version)
  have "snd (snapshot_with_schema now lsn version rt) = snd (evict_idle_rooms now rt)"
    by (simp add: snapshot_with_schema_def Let_def split_beta)
  then show ?thesis using step_snapshot evict_idle_rooms_inv(1) [OF assms(2)] by simp
qed (simp_all add: assms(2) apply_message_inv apply_messages_inv run_actor_turn_inv latest_messages_inv
      evict_room_inv evict_idle_rooms_inv reconfigure_inv wheel_keeps_rooms schedule_reminder_def
      cancel_reminder_def take_due_reminders_def requeue_reminders_def record_reminder_sweep_def split_beta Let_def)

text \<open>The runtime of a start: rooms and actors of a snapshot, placed on the shards.\<close>

lemma place_actor_total:
  assumes "\<forall>m\<in>set shards. map_fits w m" "shards \<noteq> []" "actor_fits w (fst e) (snd e)"
  shows "\<forall>m\<in>set (place_actor digest e shards). map_fits w m" "length (place_actor digest e shards) = length shards"
    "sum_list (map (\<lambda>m. card (room_keys m)) (place_actor digest e shards))
       \<le> sum_list (map (\<lambda>m. card (room_keys m)) shards) + (if is_room (snd e) then 1 else 0)"
proof -
  let ?i = "actor_shard_index digest (fst e) (length shards)"
  let ?m = "bt_insert (fst e) (snd e) (shards ! ?i)"
  have i: "?i < length shards"
    using assms(2) unfolding actor_shard_index_def
    by (metis length_greater_0_conv max.absorb1 One_nat_def Suc_leI shard_index_less)
  have fits: "map_fits w ?m" using assms i by simp
  show "\<forall>m\<in>set (place_actor digest e shards). map_fits w m"
    using assms(1) fits set_update_subset_insert [of shards ?i ?m] by (auto simp: place_actor_def Let_def)
  show "length (place_actor digest e shards) = length shards" by (simp add: place_actor_def Let_def)
  have "card (room_keys ?m) \<le> card (room_keys (shards ! ?i)) + (if is_room (snd e) then 1 else 0)"
    using fits_room_iff [OF assms(3)] by (auto simp: with_room_def card_insert_if)
  with total_update [OF i, of "\<lambda>m. card (room_keys m)" ?m]
  show "sum_list (map (\<lambda>m. card (room_keys m)) (place_actor digest e shards))
      \<le> sum_list (map (\<lambda>m. card (room_keys m)) shards) + (if is_room (snd e) then 1 else 0)"
    by (auto simp: place_actor_def Let_def split: if_splits)
qed

lemma place_all_total:
  assumes "\<forall>m\<in>set shards. map_fits w m" "shards \<noteq> []" "\<forall>e\<in>set es. actor_fits w (fst e) (snd e)"
  shows "(\<forall>m\<in>set (fold (place_actor digest) es shards). map_fits w m)
    \<and> length (fold (place_actor digest) es shards) = length shards
    \<and> sum_list (map (\<lambda>m. card (room_keys m)) (fold (place_actor digest) es shards))
       \<le> sum_list (map (\<lambda>m. card (room_keys m)) shards) + length (filter (is_room \<circ> snd) es)"
  using assms
proof (induction es arbitrary: shards)
  case (Cons e es)
  have "actor_fits w (fst e) (snd e)" using Cons.prems(3) by simp
  note p = place_actor_total [OF Cons.prems(1,2) this, of digest]
  have "place_actor digest e shards \<noteq> []" using Cons.prems(2) p(2) by (metis length_0_conv)
  moreover have "\<forall>e\<in>set es. actor_fits w (fst e) (snd e)" using Cons.prems(3) by simp
  ultimately show ?case using Cons.IH [OF p(1)] p(2,3) by (auto split: if_splits)
qed simp

lemma from_snapshot_entry_fits:
  "from_snapshot_entry e = Some (a, actor) \<Longrightarrow> actor_fits w a actor \<and> \<not> is_room actor"
  unfolding from_snapshot_entry_def
  by (cases e; cases "aid_kind (fst e)"; cases "snd e") auto

lemma evict_lru_rooms_len: "bt_len (evict_lru_rooms n rooms) \<le> n"
proof -
  define cs where "cs = sort_key id (map (\<lambda>(room_id, r). (room_last_accessed_ms r, room_id)) (bt_entries rooms))"
  have gone: "bt_get (fold (\<lambda>c. bt_remove (snd c)) xs m) k = (if k \<in> snd ` set xs then None else bt_get m k)"
    for xs :: "(u64 \<times> string) list" and m :: "(string, room_live) btree" and k
    by (induction xs arbitrary: m) auto
  have keys: "mset (map snd cs) = mset (bt_keys rooms)"
  proof -
    have "mset (map snd cs) = image_mset snd (mset (map (\<lambda>(room_id, r). (room_last_accessed_ms r, room_id)) (bt_entries rooms)))"
      by (simp only: cs_def mset_map mset_sort)
    then show ?thesis by (simp add: bt_keys_def comp_def split_beta flip: mset_map)
  qed
  have dist: "distinct (map snd cs)" using keys mset_eq_imp_distinct_iff distinct_bt_keys by blast
  have all: "snd ` set cs = {k. bt_get rooms k \<noteq> None}"
    using arg_cong [OF keys, of set_mset] by (simp add: set_bt_keys)
  have len: "length cs = bt_len rooms" by (simp add: cs_def bt_len_def)
  let ?k = "bt_len rooms - n"
  have "bt_len (fold (\<lambda>c. bt_remove (snd c)) (take ?k cs) rooms) = card (snd ` set cs - snd ` set (take ?k cs))"
    unfolding bt_len_card gone using all by (intro arg_cong [of _ _ card]) auto
  also have "\<dots> = card (snd ` set cs) - card (snd ` set (take ?k cs))"
    by (intro card_Diff_subset) (auto dest: in_set_takeD)
  also have "card (snd ` set cs) = length cs" using dist by (metis distinct_card length_map list.set_map)
  also have "card (snd ` set (take ?k cs)) = length (take ?k cs)"
    using dist by (metis distinct_card distinct_take length_map list.set_map take_map)
  finally have "bt_len (fold (\<lambda>c. bt_remove (snd c)) (take ?k cs) rooms) = length cs - min (length cs) ?k" by simp
  then have "?k \<noteq> 0 \<Longrightarrow> bt_len (fold (\<lambda>c. bt_remove (snd c)) (take ?k cs) rooms) \<le> n" using len by simp
  then show ?thesis by (auto simp: evict_lru_rooms_def cs_def Let_def)
qed

lemma kept_rooms:
  assumes "\<forall>k r. bt_get rooms k = Some r \<longrightarrow> length (room_messages r) \<le> w"
  shows "\<forall>k r. bt_get (evict_idle_restored ttl now (evict_lru_rooms n rooms)) k = Some r
      \<longrightarrow> length (room_messages r) \<le> w"
    "bt_len (evict_idle_restored ttl now (evict_lru_rooms n rooms)) \<le> n"
proof -
  have gone: "bt_get (fold (\<lambda>c. bt_remove (snd c)) xs m) k = (if k \<in> snd ` set xs then None else bt_get m k)"
    for xs :: "(u64 \<times> string) list" and m :: "(string, room_live) btree" and k
    by (induction xs arbitrary: m) auto
  show "\<forall>k r. bt_get (evict_idle_restored ttl now (evict_lru_rooms n rooms)) k = Some r
      \<longrightarrow> length (room_messages r) \<le> w"
    using assms by (auto simp: evict_idle_restored_def evict_lru_rooms_def Let_def gone bt_get_retain split: if_splits option.splits)
  have "{k. bt_get (evict_idle_restored ttl now m) k \<noteq> None} \<subseteq> {k. bt_get m k \<noteq> None}" for m
    by (auto simp: evict_idle_restored_def bt_get_retain split: option.splits if_splits)
  then have "bt_len (evict_idle_restored ttl now m) \<le> bt_len m" for m
    unfolding bt_len_card by (intro card_mono finite_bt_dom)
  then show "bt_len (evict_idle_restored ttl now (evict_lru_rooms n rooms)) \<le> n"
    using evict_lru_rooms_len le_trans by blast
qed

lemma runtime_new_inv:
  assumes "\<forall>k r. bt_get rooms k = Some r \<longrightarrow> length (room_messages r) \<le> ac_hot_window config"
  shows "rooms_inv (runtime_new digest now seq config rooms states reminders n)"
proof -
  let ?w = "ac_hot_window config"
  define kept where "kept = evict_idle_restored (ac_hot_room_idle_ttl_ms config) now
      (evict_lru_rooms (ac_max_hot_rooms config) rooms)"
  define es where "es = map (\<lambda>(room_id, r). (room_id_of room_id, Room_Actor r)) (bt_entries kept)
      @ List.map_filter from_snapshot_entry states"
  define placed where "placed = fold (place_actor digest) es (replicate (max n 1) bt_empty)"
  note rt = runtime_new_def [of digest now seq config rooms states reminders n,
      folded kept_def, unfolded Let_def, folded es_def, folded placed_def]
  note kept = kept_rooms [OF assms, of "ac_hot_room_idle_ttl_ms config" now "ac_max_hot_rooms config", folded kept_def]
  have restored: "actor_fits ?w (fst e) (snd e) \<and> \<not> is_room (snd e)"
    if "e \<in> set (List.map_filter from_snapshot_entry states)" for e
    using that from_snapshot_entry_fits [of _ "fst e" "snd e"] by (auto simp: List.map_filter_def split: if_splits)
  have fits: "\<forall>e\<in>set es. actor_fits ?w (fst e) (snd e)"
    using restored kept(1) by (auto simp: es_def room_id_of_def in_entries)
  have "filter (is_room \<circ> snd) (List.map_filter from_snapshot_entry states) = []"
    using restored by (simp add: filter_empty_conv)
  then have count: "length (filter (is_room \<circ> snd) es) = bt_len kept"
    by (simp add: es_def filter_map comp_def split_beta bt_len_def)
  note total = place_all_total [of "replicate (max n 1) bt_empty" ?w es digest, folded placed_def]
  have t: "(\<forall>m\<in>set placed. map_fits ?w m) \<and> length placed = max n 1 \<and> sum_list (map (\<lambda>m. card (room_keys m)) placed) \<le> bt_len kept"
    using total fits count by (simp add: map_fits_def room_keys_def sum_list_replicate)
  have rooms_of: "length (filter is_room (bt_values m)) = card (room_keys m)" if "m \<in> set placed" for m
  proof -
    have "length (filter is_room (bt_values m)) = length (room_list m)"
      by (simp add: bt_values_def room_list_def filter_map comp_def split_def)
    then show ?thesis using room_list_rooms [of ?w m] that t by (metis distinct_card)
  qed
  then have "length (filter is_room (concat (map bt_values placed))) = sum_list (map (\<lambda>m. card (room_keys m)) placed)"
    using rooms_of by (simp add: filter_concat length_concat comp_def cong: map_cong)
  then show ?thesis using t kept(2) unfolding rt by (auto simp: rooms_inv_def rt_fits_def room_total_def)
qed

end
