(* ===== verification/Actor_Rows.thy ===== *)
theory Actor_Rows
  imports Actor_Residency Record_Index
begin

text \<open>
  What becomes of the rows of the scope actors when rows arrive and scopes are split: the keys
  that some scope holds are the same before and after a split, and an upsert adds exactly the
  keys of its rows. The statements are about all the shards of a runtime together, so a row may
  move from a shard to another but is never lost on the way and never made up.
\<close>

section \<open>The rows a shard holds\<close>

definition rows_keyed :: "(string, 'n db_record) btree \<Rightarrow> bool" where
  "rows_keyed rows \<longleftrightarrow> (\<forall>k r. bt_get rows k = Some r \<longrightarrow> rec_key r = k)"

definition map_keyed :: "nat \<Rightarrow> 'n actor_map \<Rightarrow> bool" where
  "map_keyed w m \<longleftrightarrow>
     map_fits w m \<and> (\<forall>a sc. bt_get m a = Some (Scope_Actor sc) \<longrightarrow> rows_keyed (sc_rows sc))"

definition map_held :: "'n actor_map \<Rightarrow> string set" where
  "map_held m = {k. \<exists>a sc. bt_get m a = Some (Scope_Actor sc) \<and> bt_get (sc_rows sc) k \<noteq> None}"

text \<open>A request keeps the shard keyed and adds the keys \<open>K\<close> to the held ones.\<close>

definition rows_effect :: "nat \<Rightarrow> string set \<Rightarrow> ('n shard \<Rightarrow> 'a \<times> 'n shard) \<Rightarrow> bool" where
  "rows_effect w K f \<longleftrightarrow>
     (\<forall>s. map_keyed w (sh_actors s) \<longrightarrow>
        map_keyed w (sh_actors (snd (f s))) \<and> map_held (sh_actors (snd (f s))) = map_held (sh_actors s) \<union> K)"

lemma scope_insert_rows_get:
  "scope_insert_rows rs i u rows = (i', u', rows') \<Longrightarrow>
     {k. bt_get rows' k \<noteq> None} = {k. bt_get rows k \<noteq> None} \<union> rec_key ` set rs
     \<and> (rows_keyed rows \<longrightarrow> rows_keyed rows')"
proof (induction rs arbitrary: i u rows)
  case (Cons r rs)
  have "{k. bt_get (bt_insert (rec_key r) r rows) k \<noteq> None} = insert (rec_key r) {k. bt_get rows k \<noteq> None}"
    by auto
  moreover have "rows_keyed rows \<Longrightarrow> rows_keyed (bt_insert (rec_key r) r rows)" by (auto simp: rows_keyed_def)
  moreover have "\<exists>i u. scope_insert_rows rs i u (bt_insert (rec_key r) r rows) = (i', u', rows')"
    using Cons.prems by (auto split: if_splits)
  ultimately show ?case using Cons.IH by force
qed simp

lemma map_keyed_simps:
  "map_keyed w m \<Longrightarrow> map_fits w m"
  "map_keyed w m \<Longrightarrow> bt_get m a = Some (Scope_Actor sc) \<Longrightarrow> rows_keyed (sc_rows sc)"
  "map_keyed w m \<Longrightarrow> actor_fits w a actor \<Longrightarrow> (\<And>sc. actor = Scope_Actor sc \<Longrightarrow> rows_keyed (sc_rows sc)) \<Longrightarrow>
     map_keyed w (bt_insert a actor m)"
  by (auto simp: map_keyed_def split: if_splits)

text \<open>What putting an actor back does to the held keys.\<close>

lemma held_other:
  assumes "map_fits w m" "aid_kind a \<noteq> ScopeKind" "actor_fits w a actor"
  shows "map_held (bt_insert a actor m) = map_held m"
proof -
  have "bt_get m a \<noteq> Some (Scope_Actor sc)" for sc using assms(1,2) by (metis actor_fits_simps(2) map_fitsD)
  moreover have "actor \<noteq> Scope_Actor sc" for sc using assms(2,3) by auto
  ultimately show ?thesis by (force simp: map_held_def)
qed

lemma held_scope:
  assumes "bt_get m a = Some (Scope_Actor sc) \<or> bt_get m a = None \<and> sc_rows sc = bt_empty"
  shows "map_held (bt_insert a (Scope_Actor sc') m) \<union> {k. bt_get (sc_rows sc) k \<noteq> None}
      = map_held m \<union> {k. bt_get (sc_rows sc') k \<noteq> None}"
proof -
  let ?others = "{k. \<exists>b s. b \<noteq> a \<and> bt_get m b = Some (Scope_Actor s) \<and> bt_get (sc_rows s) k \<noteq> None}"
  have "map_held (bt_insert a (Scope_Actor sc') m) = {k. bt_get (sc_rows sc') k \<noteq> None} \<union> ?others"
    by (auto simp: map_held_def split: if_splits)
  moreover have "map_held m = {k. bt_get (sc_rows sc) k \<noteq> None} \<union> ?others"
    using assms unfolding map_held_def by (auto split: if_splits) (metis actor_state.inject(2) option.inject option.simps(3))+
  ultimately show ?thesis by blast
qed

lemma ensure_actor_keyed:
  assumes "ensure_actor now a s = (actor, s1)" "map_keyed w (sh_actors s)"
  shows "map_keyed w (sh_actors s1)" "map_held (sh_actors s1) = map_held (sh_actors s)"
    "\<And>sc. actor = Scope_Actor sc \<Longrightarrow> rows_keyed (sc_rows sc)"
proof -
  have "map_keyed w (sh_actors s1) \<and> map_held (sh_actors s1) = map_held (sh_actors s)
      \<and> (\<forall>sc. actor = Scope_Actor sc \<longrightarrow> rows_keyed (sc_rows sc))"
  proof (cases "bt_get (sh_actors s) a")
    case None
    define actor0 :: "'a actor_state" where "actor0 = actor_new (next_access_stamp now (sh_seq s)) a"
    have actor0: "actor_fits w a actor0" by (simp add: actor0_def)
    have new: "sc_rows sc = bt_empty" if "actor0 = Scope_Actor sc" for sc
      using that by (cases a; cases "aid_kind a") (auto simp: actor0_def actor_new_def scope_new_def)
    have s1: "sh_actors s1 = bt_insert a actor0 (sh_actors s)" "actor = actor0"
      using assms(1) None by (auto simp: ensure_actor_def Let_def actor0_def)
    have "map_held (bt_insert a actor0 (sh_actors s)) = map_held (sh_actors s)"
    proof (cases "aid_kind a = ScopeKind")
      case True
      then obtain sc where sc: "actor0 = Scope_Actor sc" using fits_kind_elim(1) [OF actor0] by blast
      show ?thesis using held_scope [of "sh_actors s" a sc sc] None by (simp add: sc new)
    qed (use held_other [OF map_keyed_simps(1) [OF assms(2)] _ actor0] in blast)
    moreover have "map_keyed w (bt_insert a actor0 (sh_actors s))"
      using new by (intro map_keyed_simps(3) assms(2) actor0) (simp add: rows_keyed_def)
    ultimately show ?thesis using new unfolding s1 by (auto simp: rows_keyed_def)
  next
    case (Some x)
    then show ?thesis using assms map_keyed_simps(2) [OF assms(2)] by (auto simp: ensure_actor_def)
  qed
  then show "map_keyed w (sh_actors s1)" "map_held (sh_actors s1) = map_held (sh_actors s)"
    "\<And>sc. actor = Scope_Actor sc \<Longrightarrow> rows_keyed (sc_rows sc)" by blast+
qed

text \<open>The requests: rows put into a scope, rows drained from one, and the directory of a table.\<close>

lemma scope_put_effect:
  assumes "aid_kind a = ScopeKind"
  shows "rows_effect w (rec_key ` set rows) (shard_upsert_scope_rows ops now index t a rows)"
  unfolding rows_effect_def
proof (intro allI impI)
  fix s :: "'a shard"
  assume s: "map_keyed w (sh_actors s)"
  obtain actor s1 where e: "ensure_actor now a s = (actor, s1)" by fastforce
  note ok = ensure_actor_keyed [OF e s] ensure_actor_ok [OF e map_keyed_simps(1) [OF s]]
  obtain sc where sc: "actor = Scope_Actor sc" using fits_kind_elim(1) [OF ok(4) assms] by blast
  obtain i u rows' where r: "scope_insert_rows rows 0 0 (sc_rows sc) = (i, u, rows')" by (metis prod_cases3)
  obtain sc1 seq1 where t: "scope_touch now (sh_seq s1) (sc\<lparr>sc_rows := rows'\<rparr>) = (sc1, seq1)" by fastforce
  have rows': "sc_rows sc1 = rows'" using t by (auto simp: scope_touch_def Let_def)
  have result: "sh_actors (snd (shard_upsert_scope_rows ops now index t a rows s)) = bt_insert a (Scope_Actor sc1) (sh_actors s1)"
    by (simp add: shard_upsert_scope_rows_def e sc scope_upsert_rows_def r t)
  note got = scope_insert_rows_get [OF r]
  have "map_held (bt_insert a (Scope_Actor sc1) (sh_actors s1)) = map_held (sh_actors s1) \<union> rec_key ` set rows"
  proof -
    have "{k. bt_get (sc_rows sc) k \<noteq> None} \<subseteq> map_held (sh_actors s1)"
      using ok(6) unfolding map_held_def sc by blast
    moreover have "{k. bt_get rows' k \<noteq> None} \<subseteq> map_held (bt_insert a (Scope_Actor sc1) (sh_actors s1))"
      unfolding map_held_def using rows' by auto
    moreover have "A = B \<union> K" if "A \<union> S = B \<union> R" "R = S \<union> K" "S \<subseteq> B" "R \<subseteq> A" for A B K R S :: "string set"
      using that by blast
    ultimately show ?thesis
      using held_scope [of "sh_actors s1" a sc sc1] ok(6) got unfolding sc rows' by metis
  qed
  moreover have "map_keyed w (bt_insert a (Scope_Actor sc1) (sh_actors s1))"
    using got ok(1,3,4) by (intro map_keyed_simps(3)) (auto simp: sc rows')
  ultimately show "map_keyed w (sh_actors (snd (shard_upsert_scope_rows ops now index t a rows s)))
      \<and> map_held (sh_actors (snd (shard_upsert_scope_rows ops now index t a rows s)))
        = map_held (sh_actors s) \<union> rec_key ` set rows"
    using ok(2) by (simp add: result)
qed

lemma table_put:
  assumes "aid_kind t = TableKind" "ensure_actor now t s = (actor, s1)" "map_keyed w (sh_actors s)"
  shows "map_keyed w (bt_insert t (Table_Actor tab) (sh_actors s1)) \<and>
    map_held (bt_insert t (Table_Actor tab) (sh_actors s1)) = map_held (sh_actors s)"
  using ensure_actor_keyed [OF assms(2,3)] assms(1)
    held_other [OF map_keyed_simps(1), of w "sh_actors s1" t "Table_Actor tab"]
  by (auto intro!: map_keyed_simps(3))

lemma table_put_effect:
  assumes "aid_kind t = TableKind"
  shows "rows_effect w {} (shard_upsert_table_scope now t key rows bytes accessed policy :: 'n shard \<Rightarrow> _)"
    "rows_effect w {} (shard_split_table_scope now t key children accessed policy :: 'n shard \<Rightarrow> _)"
proof -
  show "rows_effect w {} (shard_upsert_table_scope now t key rows bytes accessed policy :: 'n shard \<Rightarrow> _)"
    unfolding rows_effect_def
  proof (intro allI impI)
    fix s :: "'n shard"
    assume s: "map_keyed w (sh_actors s)"
    obtain actor s1 where e: "ensure_actor now t s = (actor, s1)" by fastforce
    show "map_keyed w (sh_actors (snd (shard_upsert_table_scope now t key rows bytes accessed policy s))) \<and>
        map_held (sh_actors (snd (shard_upsert_table_scope now t key rows bytes accessed policy s)))
          = map_held (sh_actors s) \<union> {}"
      using ensure_actor_keyed [OF e s] table_put [OF assms e s]
      by (simp add: shard_upsert_table_scope_def e split_beta split: actor_state.splits)
  qed
  show "rows_effect w {} (shard_split_table_scope now t key children accessed policy :: 'n shard \<Rightarrow> _)"
    unfolding rows_effect_def
  proof (intro allI impI)
    fix s :: "'n shard"
    assume s: "map_keyed w (sh_actors s)"
    obtain actor s1 where e: "ensure_actor now t s = (actor, s1)" by fastforce
    show "map_keyed w (sh_actors (snd (shard_split_table_scope now t key children accessed policy s))) \<and>
        map_held (sh_actors (snd (shard_split_table_scope now t key children accessed policy s)))
          = map_held (sh_actors s) \<union> {}"
      using ensure_actor_keyed [OF e s] table_put [OF assms e s]
      by (simp add: shard_split_table_scope_def e split_beta split: actor_state.splits)
  qed
qed

lemma route_effect: "rows_effect w {} (shard_route_scope_rows digest t key rows)"
  by (simp add: rows_effect_def shard_route_scope_rows_def)

lemma drain_effect:
  assumes "map_keyed w (sh_actors s)" "shard_drain_scope_rows now a s = ((rows, accessed), s')"
  shows "map_keyed w (sh_actors s') \<and> map_held (sh_actors s) = map_held (sh_actors s') \<union> rec_key ` set rows"
proof (cases "\<exists>sc. bt_get (sh_actors s) a = Some (Scope_Actor sc)")
  case True
  then obtain sc where sc: "bt_get (sh_actors s) a = Some (Scope_Actor sc)" by blast
  define sc' where "sc' = fst (scope_touch now (sh_seq s) (sc\<lparr>sc_rows := bt_empty\<rparr>))"
  have empty: "sc_rows sc' = bt_empty" by (simp add: sc'_def scope_touch_def Let_def)
  have s': "sh_actors s' = bt_insert a (Scope_Actor sc') (sh_actors s)" "rows = bt_values (sc_rows sc)"
    using assms(2) sc by (auto simp: shard_drain_scope_rows_def sc'_def split_beta Let_def)
  have keyed: "rows_keyed (sc_rows sc)" using map_keyed_simps(2) [OF assms(1) sc] .
  then have rows: "rec_key ` set rows = {k. bt_get (sc_rows sc) k \<noteq> None}"
    unfolding s'(2) bt_values_def rows_keyed_def using in_entries [of _ _ "sc_rows sc"]
    by (auto simp: image_iff Bex_def) metis
  have "actor_fits w a (Scope_Actor sc')"
    using map_fitsD [OF map_keyed_simps(1) [OF assms(1)] sc] by simp
  then have "map_keyed w (bt_insert a (Scope_Actor sc') (sh_actors s))"
    using empty by (intro map_keyed_simps(3) assms(1)) (auto simp: rows_keyed_def)
  then show ?thesis using held_scope [of "sh_actors s" a sc sc'] sc empty by (simp add: s'(1) rows)
next
  case False
  then show ?thesis using assms
    by (auto simp: shard_drain_scope_rows_def split: option.splits actor_state.splits)
qed

section \<open>The rows the shards hold together\<close>

definition rt_keyed :: "nat \<Rightarrow> 'n runtime \<Rightarrow> bool" where
  "rt_keyed w rt \<longleftrightarrow> rt_shards rt \<noteq> [] \<and> (\<forall>m\<in>set (rt_shards rt). map_keyed w m)"

definition scope_keys_held :: "'n runtime \<Rightarrow> string set" where
  "scope_keys_held rt = (\<Union>m\<in>set (rt_shards rt). map_held m)"

text \<open>A part of a request on the runtime that adds the keys \<open>K\<close>.\<close>

definition rt_adds :: "nat \<Rightarrow> string set \<Rightarrow> 'n runtime \<Rightarrow> 'n runtime \<Rightarrow> bool" where
  "rt_adds w K rt rt' \<longleftrightarrow>
     (rt_keyed w rt \<longrightarrow> rt_keyed w rt' \<and> scope_keys_held rt' = scope_keys_held rt \<union> K)"

lemma rt_adds_refl [simp]: "rt_adds w {} rt rt"
  by (simp add: rt_adds_def)

lemma rt_adds_trans: "rt_adds w K rt rt1 \<Longrightarrow> rt_adds w L rt1 rt2 \<Longrightarrow> rt_adds w (K \<union> L) rt rt2"
  by (auto simp: rt_adds_def)

lemma on_shard_held:
  assumes "rt_keyed w rt" "i < length (rt_shards rt)" "map_keyed w (sh_actors s')"
    "snd (f \<lparr>sh_seq = rt_seq rt, sh_actors = rt_shards rt ! i\<rparr>) = s'"
  shows "rt_keyed w (snd (on_shard i f rt))"
    "scope_keys_held (snd (on_shard i f rt)) \<union> map_held (rt_shards rt ! i) = scope_keys_held rt \<union> map_held (sh_actors s')"
proof -
  have shards: "rt_shards (snd (on_shard i f rt)) = (rt_shards rt)[i := sh_actors s']"
    using assms(4) by (auto simp: on_shard_def split_beta)
  show "rt_keyed w (snd (on_shard i f rt))"
    using assms(1,3) set_update_subset_insert [of "rt_shards rt" i "sh_actors s'"]
    by (auto simp: rt_keyed_def shards)
  have "(\<Union>m\<in>set (ms[j := m']). h m) \<union> h (ms ! j) = (\<Union>m\<in>set ms. h m) \<union> h m'"
    if "j < length ms" for ms :: "'a actor_map list" and j m' and h :: "'a actor_map \<Rightarrow> string set"
    using that
  proof (induction ms arbitrary: j)
    case (Cons m ms)
    then show ?case by (cases j) auto
  qed simp
  from this [OF assms(2)] show "scope_keys_held (snd (on_shard i f rt)) \<union> map_held (rt_shards rt ! i)
      = scope_keys_held rt \<union> map_held (sh_actors s')"
    by (simp add: scope_keys_held_def shards)
qed

lemma shard_index_keyed: "rt_keyed w rt \<Longrightarrow> shard_index_of digest a rt < length (rt_shards rt)"
  by (simp add: rt_keyed_def shard_index_bound)

lemma shard_for_actor_adds:
  assumes "rows_effect w K f"
  shows "rt_adds w K rt (snd (shard_for_actor digest a f rt))"
  unfolding rt_adds_def
proof (intro impI)
  assume rt: "rt_keyed w rt"
  let ?i = "shard_index_of digest a rt"
  let ?s = "\<lparr>sh_seq = rt_seq rt, sh_actors = rt_shards rt ! ?i\<rparr>"
  note i = shard_index_keyed [OF rt, of digest a]
  have m: "map_keyed w (rt_shards rt ! ?i)" using rt i by (simp add: rt_keyed_def)
  then have s': "map_keyed w (sh_actors (snd (f ?s)))" "map_held (sh_actors (snd (f ?s))) = map_held (rt_shards rt ! ?i) \<union> K"
    using assms unfolding rows_effect_def by (metis shard.select_convs(2))+
  have "map_held (rt_shards rt ! ?i) \<subseteq> scope_keys_held rt" using nth_mem [OF i] by (auto simp: scope_keys_held_def)
  moreover have "map_held (sh_actors (snd (f ?s))) \<subseteq> scope_keys_held (snd (on_shard ?i f rt))"
    using i set_update_memI [OF i, of "sh_actors (snd (f ?s))"]
    by (auto simp: scope_keys_held_def on_shard_def split_beta)
  ultimately show "rt_keyed w (snd (shard_for_actor digest a f rt)) \<and>
      scope_keys_held (snd (shard_for_actor digest a f rt)) = scope_keys_held rt \<union> K"
    using on_shard_held [where f = f, OF rt i s'(1) refl] s'(2) unfolding shard_for_actor_def by blast
qed

lemma adds_result: "rt_adds w K rt (snd p) \<Longrightarrow> p = (x, rt') \<Longrightarrow> rt_adds w K rt rt'"
  by simp

lemma upsert_scope_on_adds:
  "rt_adds w (rec_key ` set rows) rt (snd (upsert_scope_on ops digest now t key rows rt))"
  by (simp add: upsert_scope_on_def Let_def shard_for_actor_adds scope_put_effect)

lemma upsert_table_scope_on_adds:
  "aid_kind t = TableKind \<Longrightarrow>
     rt_adds w {} rt (snd (upsert_table_scope_on digest now t key rows bytes accessed policy rt))"
  by (simp add: upsert_table_scope_on_def shard_for_actor_adds table_put_effect)

lemma drain_scope_on_held:
  assumes "rt_keyed w rt" "drain_scope_on digest now key rt = ((rows, accessed), rt1)"
  shows "rt_keyed w rt1" "scope_keys_held rt = scope_keys_held rt1 \<union> rec_key ` set rows"
proof -
  let ?a = "Actor_Id ScopeKind key"
  let ?i = "shard_index_of digest ?a rt"
  let ?s = "\<lparr>sh_seq = rt_seq rt, sh_actors = rt_shards rt ! ?i\<rparr>"
  note i = shard_index_keyed [OF assms(1), of digest ?a]
  have m: "map_keyed w (sh_actors ?s)" using assms(1) i by (simp add: rt_keyed_def)
  obtain s' where s': "shard_drain_scope_rows now ?a ?s = ((rows, accessed), s')"
    and rt1: "rt1 = snd (on_shard ?i (shard_drain_scope_rows now ?a) rt)"
    using assms(2) by (auto simp: drain_scope_on_def shard_for_actor_def on_shard_def Let_def split: prod.splits)
  note d = drain_effect [OF m s']
  have "snd (shard_drain_scope_rows now ?a ?s) = s'" by (simp add: s')
  note h = on_shard_held [where f = "shard_drain_scope_rows now ?a", OF assms(1) i conjunct1 [OF d] this]
  show "rt_keyed w rt1" using h(1) by (simp add: rt1)
  have "map_held (rt_shards rt ! ?i) \<subseteq> scope_keys_held rt" using nth_mem [OF i] by (auto simp: scope_keys_held_def)
  moreover have "map_held (sh_actors s') \<subseteq> scope_keys_held rt1"
    using i set_update_memI [OF i, of "sh_actors s'"]
    by (auto simp: scope_keys_held_def rt1 on_shard_def split_beta s')
  ultimately show "scope_keys_held rt = scope_keys_held rt1 \<union> rec_key ` set rows"
    using h(2) conjunct2 [OF d] unfolding rt1 by auto
qed

section \<open>Splits move rows\<close>

text \<open>The rows of a group of batches, and grouping rows keeps them all.\<close>

definition batch_keys :: "(string \<times> 'n db_record list) list \<Rightarrow> string set" where
  "batch_keys batches = (\<Union>b\<in>set batches. rec_key ` set (snd b))"

lemma batch_keys_simps [simp]:
  "batch_keys [] = {}" "batch_keys (b # bs) = rec_key ` set (snd b) \<union> batch_keys bs"
  by (simp_all add: batch_keys_def)

lemma pushed_rows:
  "(\<Union>b\<in>set (bt_entries (fold (\<lambda>r. bt_push (g r) r) rows m)). set (snd b))
     = (\<Union>b\<in>set (bt_entries m). set (snd b)) \<union> set rows"
proof (induction rows arbitrary: m)
  case (Cons r rows)
  have entries: "(\<Union>b\<in>set (bt_entries m). set (snd b)) = {x. \<exists>k xs. bt_get m k = Some xs \<and> x \<in> set xs}"
    for m :: "(_, _ list) btree"
    using in_entries [of _ _ m] by force
  have "(\<Union>b\<in>set (bt_entries (bt_push (g r) r m)). set (snd b)) = insert r (\<Union>b\<in>set (bt_entries m). set (snd b))"
    unfolding entries by (auto simp: bt_get_or_def split: if_splits option.splits) metis+
  then show ?case using Cons.IH [of "bt_push (g r) r m"] by auto
qed simp

lemma batch_keys_rows: "batch_keys bs = rec_key ` (\<Union>b\<in>set bs. set (snd b))"
  by (auto simp: batch_keys_def)

lemma route_rows_keys: "batch_keys (route_rows digest t key rows) = rec_key ` set rows"
  unfolding batch_keys_rows route_rows_def pushed_rows by simp

lemma child_rows_batches:
  fixes rows :: "'n db_record list"
  shows "batch_keys (child_rows digest parent rows) = rec_key ` set rows"
proof -
  have "(\<Union>b\<in>set (bt_entries (bt_collect (map (\<lambda>i. (child_scope_name parent i, [])) [0..<2]))). set (snd b))
      = ({} :: 'n db_record set)"
    by (simp only: UNION_empty_conv) (auto simp: in_entries bt_get_collect dest!: map_of_SomeD)
  then show ?thesis unfolding batch_keys_rows child_rows_def pushed_rows by (simp only: Un_empty_left)
qed

lemma fill_children_adds:
  "fill_children ops digest now t policy depth accessed cs found rt = (x, rt') \<Longrightarrow> rt_adds w (batch_keys cs) rt rt'"
proof (induction cs arbitrary: found rt)
  case (Cons c cs)
  obtain child rows where c: "c = (child, rows)" by (cases c)
  obtain updates pending where found: "found = (updates, pending)" by (cases found)
  show ?case
  proof (cases "rows = []")
    case True
    then show ?thesis using Cons by (simp add: c found Let_def)
  next
    case False
    obtain r rt1 where r: "upsert_scope_on ops digest now t child rows rt = (r, rt1)" by fastforce
    have "rt_adds w (rec_key ` set rows) rt rt1" by (rule adds_result [OF upsert_scope_on_adds r])
    moreover have "rt_adds w (batch_keys cs) rt1 rt'"
      using Cons.prems False r by (intro Cons.IH) (simp add: c found Let_def split_beta)
    ultimately show ?thesis using rt_adds_trans by (simp add: c) blast
  qed
qed simp

lemma split_round_adds:
  assumes "aid_kind t = TableKind"
  shows "rt_adds w {} rt (snd (split_round ops digest now t policy key depth rt))"
  unfolding rt_adds_def
proof (intro impI)
  assume rt: "rt_keyed w rt"
  obtain rows accessed rt1 where d: "drain_scope_on digest now key rt = ((rows, accessed), rt1)"
    by (metis surj_pair)
  note rt1 = drain_scope_on_held [OF rt d]
  have "rt_adds w (rec_key ` set rows) rt1 (snd (split_round ops digest now t policy key depth rt))"
  proof (cases "stop_split ops policy depth rows")
    case True
    obtain restored rt2 where u: "upsert_scope_on ops digest now t key rows rt1 = (restored, rt2)" by fastforce
    note q2 = adds_result [OF upsert_scope_on_adds u]
    show ?thesis
      using rt_adds_trans [OF q2 upsert_table_scope_on_adds [OF assms]] True
      by (simp add: split_round_def d u Let_def split_beta)
  next
    case False
    obtain found rt2 where f: "fill_children ops digest now t policy depth accessed
        (child_rows digest key rows) ([], []) rt1 = (found, rt2)" by fastforce
    note q2 = fill_children_adds [OF f]
    show ?thesis
      using rt_adds_trans [OF q2 shard_for_actor_adds [OF table_put_effect(2) [OF assms]]] False
      by (simp add: split_round_def d f Let_def split_beta child_rows_batches)
  qed
  then show "rt_keyed w (snd (split_round ops digest now t policy key depth rt)) \<and>
      scope_keys_held (snd (split_round ops digest now t policy key depth rt)) = scope_keys_held rt \<union> {}"
    using rt1 by (simp add: rt_adds_def)
qed

lemma split_scope_rows_adds:
  assumes "aid_kind t = TableKind"
  shows "\<exists>u rt'. split_scope_rows ops digest now t key policy rt = Some (u, rt') \<and> rt_adds w {} rt rt'"
  unfolding split_scope_rows_def
proof (rule split_loop_total)
  show "rt_adds w {} rt rt2" if "rt_adds w {} rt rt1" "rt_adds w {} rt1 rt2" for rt rt1 rt2 :: "'a runtime"
    using rt_adds_trans [OF that] by simp
qed (simp_all add: split_round_adds assms)

lemma upsert_routed_adds:
  assumes "aid_kind t = TableKind"
  shows "\<exists>r rt'. upsert_routed ops digest now t policy key rows rt = Some (r, rt')
      \<and> rt_adds w (rec_key ` set rows) rt rt'"
proof -
  obtain r rt1 where u: "upsert_scope_on ops digest now t key rows rt = (r, rt1)" by fastforce
  obtain v rt2 where v: "upsert_table_scope_on digest now t key (srr_rows r) (srr_bytes r)
      (srr_last_accessed_ms r) policy rt1 = (v, rt2)" by fastforce
  have a: "rt_adds w (rec_key ` set rows) rt rt2"
    using rt_adds_trans [OF adds_result [OF upsert_scope_on_adds u]
        adds_result [OF upsert_table_scope_on_adds [OF assms] v]] by simp
  moreover obtain x rt3 where "split_scope_rows ops digest now t key policy rt2 = Some (x, rt3)" "rt_adds w {} rt2 rt3"
    using split_scope_rows_adds [OF assms] by blast
  ultimately show ?thesis
    using rt_adds_trans [OF a, of "{}"] by (auto simp: upsert_routed_def u v Let_def)
qed

lemma upsert_routed_all_adds:
  assumes "aid_kind t = TableKind"
  shows "\<exists>r rt'. upsert_routed_all ops digest now t policy routed agg rt = Some (r, rt')
      \<and> rt_adds w (batch_keys routed) rt rt'"
proof (induction routed arbitrary: agg rt)
  case (Cons p routed)
  obtain key rows where p: "p = (key, rows)" by (cases p)
  obtain r rt1 where u: "upsert_routed ops digest now t policy key rows rt = Some (r, rt1)"
    "rt_adds w (rec_key ` set rows) rt rt1"
    using upsert_routed_adds [OF assms] by blast
  obtain r' rt2 where "upsert_routed_all ops digest now t policy routed (merge_scope_activation_result agg r) rt1
      = Some (r', rt2)" "rt_adds w (batch_keys routed) rt1 rt2"
    using Cons.IH by blast
  with u rt_adds_trans show ?case by (simp add: p) blast
qed simp

section \<open>Properties\<close>

text \<open>
  C7. a split returns, and no row goes missing on the way: after
  \<open>split_scope_rows\<close> the keys held by the scope actors, over all shards, are exactly those held
  before, whatever the depth of the split, the policy and the number of shards; each row is still
  stored under its own key.
\<close>

theorem split_keeps_every_row:
  assumes "rt_keyed w rt"
  shows "\<exists>u rt'. split_scope_rows ops digest now (Actor_Id TableKind table_key) key policy rt = Some (u, rt')
    \<and> rt_keyed w rt' \<and> scope_keys_held rt' = scope_keys_held rt"
proof -
  obtain u rt' where "split_scope_rows ops digest now (Actor_Id TableKind table_key) key policy rt = Some (u, rt')"
    "rt_adds w {} rt rt'"
    using split_scope_rows_adds [of "Actor_Id TableKind table_key"] by (metis actor_id.sel(1))
  then show ?thesis using assms by (auto simp: rt_adds_def)
qed

text \<open>A runtime of one shard with a scope of two rows, for the witnesses.\<close>

definition two_row :: "string \<Rightarrow> i64 db_record" where
  "two_row k = \<lparr>rec_table = ''docs'', rec_key = k, rec_value = JNull, rec_updated_at_ms = 1, rec_lsn = 1,
     rec_path = ''docs.'' @ k\<rparr>"

definition two_rows_runtime :: "i64 runtime" where
  "two_rows_runtime =
     \<lparr>rt_seq = 0,
      rt_shards = [bt_insert (Actor_Id ScopeKind ''s'')
        (Scope_Actor (scope_new 0\<lparr>sc_rows := bt_collect [(''a'', two_row ''a''), (''b'', two_row ''b'')]\<rparr>)) bt_empty],
      rt_resident = 0,
      rt_config = \<lparr>ac_hot_window = 2, ac_max_hot_rooms = 1, ac_hot_room_idle_ttl_ms = 0, ac_split_rows = 1,
        ac_split_bytes = 0\<rparr>,
      rt_idle_status = no_sweep, rt_tier_status = no_tier_sweep, rt_split_status = no_sweep,
      rt_wheel = bt_empty, rt_reminder_status = no_sweep\<rparr>"

lemma two_rows_keyed: "rt_keyed 2 two_rows_runtime"
  by (auto simp: rt_keyed_def two_rows_runtime_def map_keyed_def map_fits_def rows_keyed_def bt_get_collect
      two_row_def split: if_splits)

lemma two_rows_held: "scope_keys_held two_rows_runtime = {''a'', ''b''}"
  by (auto simp: scope_keys_held_def two_rows_runtime_def map_held_def bt_get_collect split: if_splits)

theorem split_keeps_every_row_witness:
  "\<exists>u rt'. split_scope_rows demo_index_ops (\<lambda>bs. bs) 1 (Actor_Id TableKind ''docs'') ''s''
      \<lparr>sp_rows = 1, sp_bytes = 0\<rparr> two_rows_runtime = Some (u, rt')
    \<and> rt_keyed 2 rt' \<and> scope_keys_held rt' = {''a'', ''b''}"
  using split_keeps_every_row [OF two_rows_keyed] two_rows_held by metis



end
