(* ===== verification/Reminder_Server.thy ===== *)
theory Reminder_Server
  imports Actor_Guarantees Record_Server
begin

text \<open>
  The reminder requests of the server (\<open>api/runtime.rs\<close>) and the HTTP requests of behaviors whose
  answers come back as reminders (\<open>api/behavior.rs\<close>): scheduling, cancelling and firing, over the
  log, the wheel of the actor runtime and the two indexes in memory, and how a start rebuilds
  these from the log. Running a behavior, decoding a continuation from its JSON value and building
  the reply of a behavior are parameters.
\<close>

section \<open>The state\<close>

datatype reminder_record_status = Reminder_Is_Scheduled | Reminder_Is_Cancelled | Reminder_Is_Fired

record 'n reminder_record =
  rr_reminder :: "'n actor_reminder_draft"
  rr_scheduled_lsn :: u64
  rr_scheduled_at_ms :: u64
  rr_status :: reminder_record_status

type_synonym reminder_index_key = "string \<times> string \<times> string"

type_synonym 'n reminder_index = "(reminder_index_key, 'n reminder_record) btree"

datatype host_http_status = Http_Requested | Http_Callback_Scheduled | Http_Completed

record 'n host_http_record =
  hr_request :: "'n host_http_request_draft"
  hr_requested_lsn :: u64
  hr_status :: host_http_status

type_synonym 'n host_http_index = "(string, 'n host_http_record) btree"

record ('n, 's, 'g) reminder_node =
  rn_server :: "('n, 's, 'g) server"
  rn_runtime :: "'n runtime"
  rn_index :: "'n reminder_index"
  rn_http :: "'n host_http_index"

definition actor_reminder_index_key_from_parts :: "string \<Rightarrow> string \<Rightarrow> string \<Rightarrow> reminder_index_key" where
  "actor_reminder_index_key_from_parts kind key reminder_id = (trim kind, trim key, trim reminder_id)"

definition actor_reminder_index_key_from_draft :: "'n actor_reminder_draft \<Rightarrow> reminder_index_key" where
  "actor_reminder_index_key_from_draft d =
     actor_reminder_index_key_from_parts (ar_actor_kind d) (ar_actor_key d) (ar_reminder_id d)"

definition actor_reminder_index_key_from_entry :: "'n reminder_entry \<Rightarrow> reminder_index_key" where
  "actor_reminder_index_key_from_entry e =
     actor_reminder_index_key_from_parts (kind_as_str (aid_kind (re_actor_id e))) (aid_key (re_actor_id e))
       (re_reminder_id e)"

definition set_reminder_status ::
  "reminder_record_status \<Rightarrow> reminder_index_key \<Rightarrow> 'n reminder_index \<Rightarrow> 'n reminder_index" where
  "set_reminder_status st k idx =
     (case bt_get idx k of None \<Rightarrow> idx | Some r \<Rightarrow> bt_insert k (r\<lparr>rr_status := st\<rparr>) idx)"

section \<open>What a start rebuilds from the log\<close>

definition replay_reminder_index ::
  "('n, 's, 'g) wal_record \<Rightarrow> 'n reminder_index \<Rightarrow> 'n reminder_index" where
  "replay_reminder_index w idx =
     (case wr_payload w of
        ActorReminderScheduled d \<Rightarrow>
          bt_insert (actor_reminder_index_key_from_draft d)
            \<lparr>rr_reminder = d, rr_scheduled_lsn = wr_lsn w, rr_scheduled_at_ms = wr_timestamp_ms w,
             rr_status = Reminder_Is_Scheduled\<rparr> idx
      | ActorReminderCancelled kind key reminder_id _ \<Rightarrow>
          set_reminder_status Reminder_Is_Cancelled (actor_reminder_index_key_from_parts kind key reminder_id) idx
      | ActorReminderFired kind key reminder_id _ _ \<Rightarrow>
          set_reminder_status Reminder_Is_Fired (actor_reminder_index_key_from_parts kind key reminder_id) idx
      | _ \<Rightarrow> idx)"

definition actor_reminder_index_from_wal_records :: "('n, 's, 'g) wal_record list \<Rightarrow> 'n reminder_index" where
  "actor_reminder_index_from_wal_records ws = fold replay_reminder_index (sort_key wr_lsn ws) bt_empty"

definition callback_of_request :: "'n actor_reminder_draft \<Rightarrow> 'n host_http_record \<Rightarrow> 'n host_http_record" where
  "callback_of_request d r =
     (if hh_actor_kind (hr_request r) = ar_actor_kind d \<and> hh_actor_key (hr_request r) = ar_actor_key d
         \<and> hh_reminder_id (hr_request r) = ar_reminder_id d \<and> hr_status r = Http_Requested
      then r\<lparr>hr_status := Http_Callback_Scheduled\<rparr> else r)"

definition replay_host_http :: "('n, 's, 'g) wal_record \<Rightarrow> 'n host_http_index \<Rightarrow> 'n host_http_index" where
  "replay_host_http w idx =
     (case wr_payload w of
        HostHttpRequested d \<Rightarrow>
          bt_insert (hh_request_id d)
            \<lparr>hr_request = d, hr_requested_lsn = wr_lsn w, hr_status = Http_Requested\<rparr> idx
      | HostHttpCompleted request_id _ \<Rightarrow>
          (case bt_get idx request_id of
             None \<Rightarrow> idx | Some r \<Rightarrow> bt_insert request_id (r\<lparr>hr_status := Http_Completed\<rparr>) idx)
      | ActorReminderScheduled d \<Rightarrow> bt_map (\<lambda>_. callback_of_request d) idx
      | _ \<Rightarrow> idx)"

definition host_http_request_index_from_wal_records ::
  "('n, 's, 'g) wal_record list \<Rightarrow> 'n host_http_index" where
  "host_http_request_index_from_wal_records ws = fold replay_host_http (sort_key wr_lsn ws) bt_empty"

definition pending_host_http_requests_from_wal_records ::
  "('n, 's, 'g) wal_record list \<Rightarrow> 'n host_http_request_draft list" where
  "pending_host_http_requests_from_wal_records ws =
     map hr_request (filter (\<lambda>r. hr_status r = Http_Requested)
       (bt_values (host_http_request_index_from_wal_records ws)))"

section \<open>Continuations\<close>

record 'n continuation =
  co_payload_type :: string
  co_behavior :: string
  co_mutation :: string
  co_call_depth :: "u32 option"
  co_max_depth :: "u32 option"
  co_deadline_ms :: "u64 option"
  co_path :: "string list option"
  co_value :: "'n json"

record 'n reminder_schedule_request =
  sq_kind :: actor_kind
  sq_key :: string
  sq_reminder_id :: "string option"
  sq_due_at_ms :: "u64 option"
  sq_delay_ms :: "u64 option"
  sq_payload :: "'n json option"
  sq_idempotent :: bool

text \<open>
  The environment of behaviors: decoding a continuation, running one (with its commands), the
  request its reply makes, and fresh reminder ids.
\<close>

record ('n, 's, 'g, 'b) behavior_env =
  be_decode :: "'n json \<Rightarrow> string + 'n continuation"
  be_invoke :: "'n continuation \<Rightarrow> ('n, 's, 'g) reminder_node \<Rightarrow> (api_error + 'b) \<times> ('n, 's, 'g) reminder_node"
  be_reply :: "'n continuation \<Rightarrow> 'b \<Rightarrow> u64 \<Rightarrow> api_error + 'n reminder_schedule_request option"
  be_uuid :: "u64 \<Rightarrow> string"

definition continuation_target :: "'n continuation \<Rightarrow> string" where
  "continuation_target c = co_behavior c @ ''.'' @ co_mutation c"

definition default_continuation_max_depth :: u32 where
  "default_continuation_max_depth = 32"

definition validate_limits :: "'n continuation \<Rightarrow> u64 \<Rightarrow> api_error + unit" where
  "validate_limits c now =
     (if (case co_deadline_ms c of None \<Rightarrow> False | Some deadline \<Rightarrow> now > deadline)
      then Inl (BadRequest ''behavior continuation deadlineMs has expired'')
      else
        let max_depth = max (case co_max_depth c of None \<Rightarrow> default_continuation_max_depth | Some d \<Rightarrow> d) 1;
            call_depth = (case co_call_depth c of None \<Rightarrow> 0 | Some d \<Rightarrow> d)
        in if call_depth \<ge> max_depth then Inl (BadRequest ''behavior continuation maxDepth exceeded'')
           else if (case co_path c of None \<Rightarrow> False | Some path \<Rightarrow> continuation_target c \<in> set path)
           then Inl (BadRequest ''behavior continuation cycle detected'')
           else Inr ())"

definition from_reminder_payload ::
  "('n, 's, 'g, 'b) behavior_env \<Rightarrow> 'n json option \<Rightarrow> u64 \<Rightarrow> api_error + 'n continuation option" where
  "from_reminder_payload be payload now =
     (case payload of
        None \<Rightarrow> Inr None
      | Some v \<Rightarrow>
          if json_field v ''type'' \<noteq> Some (JString ''behaviorContinuation'') then Inr None
          else case be_decode be v of
            Inl err \<Rightarrow> Inl (BadRequest (''invalid behavior continuation payload: '' @ err))
          | Inr c \<Rightarrow>
              if trim (co_behavior c) = [] then Inl (BadRequest ''behavior continuation behavior is required'')
              else if trim (co_mutation c) = [] then Inl (BadRequest ''behavior continuation mutation is required'')
              else if co_payload_type c \<noteq> ''behaviorContinuation'' then Inr None
              else case validate_limits c now of Inl e \<Rightarrow> Inl e | Inr _ \<Rightarrow> Inr (Some c))"

section \<open>The requests\<close>

type_synonym ('n, 's, 'g, 'a) node_handler =
  "('n, 's, 'g) reminder_node \<Rightarrow> (api_error + 'a) \<times> ('n, 's, 'g) reminder_node"

definition rn_bind ::
  "('n, 's, 'g, 'a) node_handler \<Rightarrow> ('a \<Rightarrow> ('n, 's, 'g, 'b) node_handler) \<Rightarrow> ('n, 's, 'g, 'b) node_handler" where
  "rn_bind m k nd = (case m nd of (Inl e, nd1) \<Rightarrow> (Inl e, nd1) | (Inr x, nd1) \<Rightarrow> k x nd1)"

definition on_server :: "('n, 's, 'g, 'a) handler \<Rightarrow> ('n, 's, 'g, 'a) node_handler" where
  "on_server h nd = (let (r, sv) = h (rn_server nd) in (r, nd\<lparr>rn_server := sv\<rparr>))"

definition runtime_actor_id :: "actor_kind \<Rightarrow> string \<Rightarrow> api_error + actor_id" where
  "runtime_actor_id kind key =
     (if trim key = [] then Inl (BadRequest ''key is required'') else Inr (Actor_Id kind (trim key)))"

definition actor_reminder_shard_key :: "actor_id \<Rightarrow> string \<Rightarrow> string" where
  "actor_reminder_shard_key a reminder_id =
     ''actor-reminder:'' @ kind_as_str (aid_kind a) @ '':'' @ aid_key a @ '':'' @ reminder_id"

definition append_reminder_record ::
  "'n request_env \<Rightarrow> string \<Rightarrow> ('n, 's, 'g) wal_payload \<Rightarrow> ('n, 's, 'g, ('n, 's, 'g) wal_record) node_handler" where
  "append_reminder_record env key payload =
     on_server (sv_bind (sv_lift (en_shard_of_key env key)) (\<lambda>shard.
       append_ordered_wal_record env shard Strict payload))"

definition existing_idempotent_actor_reminder ::
  "'n actor_reminder_draft \<Rightarrow> 'n reminder_index \<Rightarrow> api_error + 'n reminder_record option" where
  "existing_idempotent_actor_reminder d idx =
     (case bt_get idx (actor_reminder_index_key_from_draft d) of
        None \<Rightarrow> Inr None
      | Some r \<Rightarrow>
          if rr_reminder r = d then Inr (Some r)
          else Inl (BadRequest ''scheduleActorReminder reminderId was already used for a different reminder''))"

record 'n reminder_response =
  rp_reminder :: "'n reminder_entry"
  rp_lsn :: u64
  rp_accepted_at_ms :: u64
  rp_pending :: "'n reminder_status"

text \<open>A new reminder in the two indexes and on the wheel, once its record is in the log.\<close>

definition note_scheduled ::
  "'n actor_reminder_draft \<Rightarrow> ('n, 's, 'g) wal_record \<Rightarrow> ('n, 's, 'g) reminder_node \<Rightarrow> ('n, 's, 'g) reminder_node" where
  "note_scheduled d w nd =
     nd\<lparr>rn_index := bt_insert (actor_reminder_index_key_from_draft d)
           \<lparr>rr_reminder = d, rr_scheduled_lsn = wr_lsn w, rr_scheduled_at_ms = wr_timestamp_ms w,
            rr_status = Reminder_Is_Scheduled\<rparr> (rn_index nd),
        rn_http := bt_map (\<lambda>_. callback_of_request d) (rn_http nd)\<rparr>"

definition reminder_draft ::
  "('n, 's, 'g, 'b) behavior_env \<Rightarrow> 'n request_env \<Rightarrow> u64 \<Rightarrow> 'n reminder_schedule_request \<Rightarrow>
     api_error + 'n actor_reminder_draft" where
  "reminder_draft be env lsn request =
     (case runtime_actor_id (sq_kind request) (sq_key request) of
        Inl e \<Rightarrow> Inl e
      | Inr a \<Rightarrow>
          let given = (case sq_reminder_id request of None \<Rightarrow> [] | Some i \<Rightarrow> trim i);
              reminder_id = (if given = [] then be_uuid be lsn else given)
          in case (case sq_due_at_ms request of Some due \<Rightarrow> Some due
                   | None \<Rightarrow> map_option (sat_add (en_now env)) (sq_delay_ms request)) of
               None \<Rightarrow> Inl (BadRequest ''dueAtMs or delayMs is required'')
             | Some due \<Rightarrow>
                 if due = 0 then Inl (BadRequest ''dueAtMs must be greater than zero'')
                 else case from_reminder_payload be (sq_payload request) (en_now env) of
                   Inl e \<Rightarrow> Inl e
                 | Inr _ \<Rightarrow>
                     Inr \<lparr>ar_actor_kind = kind_as_str (aid_kind a), ar_actor_key = aid_key a,
                          ar_reminder_id = reminder_id, ar_due_at_ms = due, ar_payload = sq_payload request\<rparr>)"

definition draft_shard_key :: "'n actor_reminder_draft \<Rightarrow> string" where
  "draft_shard_key d = ''actor-reminder:'' @ ar_actor_kind d @ '':'' @ ar_actor_key d @ '':'' @ ar_reminder_id d"

definition log_scheduled ::
  "'n request_env \<Rightarrow> 'n actor_reminder_draft \<Rightarrow> ('n, 's, 'g, 'n reminder_response) node_handler" where
  "log_scheduled env d =
     rn_bind (append_reminder_record env (draft_shard_key d) (ActorReminderScheduled d)) (\<lambda>w nd.
       let nd1 = note_scheduled d w nd
       in case reminder_entry_from_draft d of
            None \<Rightarrow> (Inl (BadRequest ''invalid actor reminder target''), nd1)
          | Some e \<Rightarrow>
              let rt = schedule_reminder e (rn_runtime nd1)
              in (Inr \<lparr>rp_reminder = e, rp_lsn = wr_lsn w, rp_accepted_at_ms = en_now env,
                       rp_pending = wheel_status 64 (rt_wheel rt)\<rparr>, nd1\<lparr>rn_runtime := rt\<rparr>))"

definition schedule_after_runtime_write ::
  "('n, 's, 'g, 'b) behavior_env \<Rightarrow> 'n request_env \<Rightarrow> 'n reminder_schedule_request \<Rightarrow>
     ('n, 's, 'g, 'n reminder_response) node_handler" where
  "schedule_after_runtime_write be env request nd =
     (case reminder_draft be env (sv_next_lsn (rn_server nd)) request of
        Inl e \<Rightarrow> (Inl e, nd)
      | Inr d \<Rightarrow>
          (case (if sq_idempotent request then existing_idempotent_actor_reminder d (rn_index nd) else Inr None) of
             Inl e \<Rightarrow> (Inl e, nd)
           | Inr (Some existing) \<Rightarrow>
               (case reminder_entry_from_draft (rr_reminder existing) of
                  None \<Rightarrow> (Inl (BadRequest ''invalid actor reminder target''), nd)
                | Some e \<Rightarrow>
                    (Inr \<lparr>rp_reminder = e, rp_lsn = rr_scheduled_lsn existing,
                          rp_accepted_at_ms = rr_scheduled_at_ms existing,
                          rp_pending = wheel_status 64 (rt_wheel (rn_runtime nd))\<rparr>, nd))
           | Inr None \<Rightarrow> log_scheduled env d nd))"

definition schedule_actor_reminder_internal ::
  "('n, 's, 'g, 'b) behavior_env \<Rightarrow> 'n request_env \<Rightarrow> 'n reminder_schedule_request \<Rightarrow>
     ('n, 's, 'g, 'n reminder_response) node_handler" where
  "schedule_actor_reminder_internal be env request =
     rn_bind (on_server (sv_lift (en_accepting env))) (\<lambda>_. schedule_after_runtime_write be env request)"

record 'n reminder_cancel_response =
  rc_actor_id :: actor_id
  rc_reminder_id :: string
  rc_cancelled :: bool
  rc_lsn :: u64
  rc_accepted_at_ms :: u64
  rc_pending :: "'n reminder_status"

definition cancel_actor_reminder_internal ::
  "'n request_env \<Rightarrow> actor_kind \<Rightarrow> string \<Rightarrow> string \<Rightarrow> ('n, 's, 'g, 'n reminder_cancel_response) node_handler" where
  "cancel_actor_reminder_internal env kind key reminder_id =
     rn_bind (on_server (sv_lift (en_accepting env))) (\<lambda>_.
     rn_bind (on_server (sv_lift (runtime_actor_id kind key))) (\<lambda>a.
     rn_bind (on_server (sv_lift (if trim reminder_id = [] then Inl (BadRequest ''reminderId is required'') else Inr ()))) (\<lambda>_.
     rn_bind (append_reminder_record env (actor_reminder_shard_key a (trim reminder_id))
         (ActorReminderCancelled (kind_as_str (aid_kind a)) (aid_key a) (trim reminder_id) (en_now env))) (\<lambda>w nd.
       let (cancelled, rt) = cancel_reminder a (trim reminder_id) (rn_runtime nd);
           idx = set_reminder_status Reminder_Is_Cancelled
             (actor_reminder_index_key_from_parts (kind_as_str (aid_kind a)) (aid_key a) (trim reminder_id)) (rn_index nd)
       in (Inr \<lparr>rc_actor_id = a, rc_reminder_id = trim reminder_id, rc_cancelled = cancelled, rc_lsn = wr_lsn w,
                rc_accepted_at_ms = en_now env, rc_pending = wheel_status 64 (rt_wheel rt)\<rparr>,
           nd\<lparr>rn_runtime := rt, rn_index := idx\<rparr>)))))"

text \<open>
  Firing. A reminder that fails is put back alone: what was taken behind it stays off the wheel.
  An error of building the reply leaves even the reminder itself off.
\<close>

record ('n, 'b) reminder_fire_result =
  fr_reminder :: "'n reminder_entry"
  fr_turn :: actor_turn_result
  fr_behavior :: "'b option"
  fr_reply :: "'n reminder_response option"
  fr_fired_lsn :: u64
  fr_fired_at_ms :: u64

definition put_back :: "'n reminder_entry \<Rightarrow> ('n, 's, 'g, 'a) node_handler \<Rightarrow> ('n, 's, 'g, 'a) node_handler" where
  "put_back e m nd =
     (case m nd of
        (Inl err, nd1) \<Rightarrow> (Inl err, nd1\<lparr>rn_runtime := requeue_reminders [e] (rn_runtime nd1)\<rparr>)
      | (Inr x, nd1) \<Rightarrow> (Inr x, nd1))"

definition run_continuation ::
  "('n, 's, 'g, 'b) behavior_env \<Rightarrow> 'n request_env \<Rightarrow> u64 \<Rightarrow> 'n reminder_entry \<Rightarrow> 'n continuation option \<Rightarrow>
     ('n, 's, 'g, 'b option \<times> 'n reminder_response option) node_handler" where
  "run_continuation be env checked_at e continuation =
     (case continuation of
        None \<Rightarrow> (\<lambda>nd. (Inr (None, None), nd))
      | Some c \<Rightarrow>
          rn_bind (put_back e (be_invoke be c)) (\<lambda>response.
          rn_bind (on_server (sv_lift (be_reply be c response checked_at))) (\<lambda>reply_request.
            case reply_request of
              None \<Rightarrow> (\<lambda>nd. (Inr (Some response, None), nd))
            | Some request \<Rightarrow>
                rn_bind (put_back e (schedule_after_runtime_write be env (request\<lparr>sq_idempotent := False\<rparr>))) (\<lambda>reply nd.
                  (Inr (Some response, Some reply), nd)))))"

definition fire_reminder ::
  "('n, 's, 'g, 'b) behavior_env \<Rightarrow> 'n request_env \<Rightarrow> (bytes \<Rightarrow> bytes) \<Rightarrow> u64 \<Rightarrow> 'n reminder_entry \<Rightarrow>
     ('n, 's, 'g, ('n, 'b) reminder_fire_result) node_handler" where
  "fire_reminder be env digest checked_at e =
     rn_bind (put_back e (on_server (sv_lift (from_reminder_payload be (re_payload e) checked_at)))) (\<lambda>continuation nd.
       let (turn, rt) = run_actor_turn digest (en_now env) (re_actor_id e)
             (Reminder_Fired (re_reminder_id e) (re_payload e)) (rn_runtime nd)
       in rn_bind (run_continuation be env checked_at e continuation) (\<lambda>(response, reply).
          rn_bind (put_back e (append_reminder_record env
              (actor_reminder_shard_key (re_actor_id e) (re_reminder_id e))
              (ActorReminderFired (kind_as_str (aid_kind (re_actor_id e))) (aid_key (re_actor_id e))
                (re_reminder_id e) (re_due_at_ms e) (en_now env)))) (\<lambda>w nd.
            (Inr \<lparr>fr_reminder = e, fr_turn = turn, fr_behavior = response, fr_reply = reply,
                  fr_fired_lsn = wr_lsn w, fr_fired_at_ms = en_now env\<rparr>,
             nd\<lparr>rn_index := set_reminder_status Reminder_Is_Fired (actor_reminder_index_key_from_entry e)
                    (rn_index nd)\<rparr>))) (nd\<lparr>rn_runtime := rt\<rparr>))"

fun fire_all ::
  "('n, 's, 'g, 'b) behavior_env \<Rightarrow> 'n request_env \<Rightarrow> (bytes \<Rightarrow> bytes) \<Rightarrow> u64 \<Rightarrow> 'n reminder_entry list \<Rightarrow>
     ('n, 's, 'g, ('n, 'b) reminder_fire_result list) node_handler" where
  "fire_all be env digest checked_at [] nd = (Inr [], nd)"
| "fire_all be env digest checked_at (e # es) nd =
     rn_bind (fire_reminder be env digest checked_at e) (\<lambda>fired.
     rn_bind (fire_all be env digest checked_at es) (\<lambda>rest nd. (Inr (fired # rest), nd))) nd"

definition run_due_actor_reminders_once ::
  "('n, 's, 'g, 'b) behavior_env \<Rightarrow> 'n request_env \<Rightarrow> (bytes \<Rightarrow> bytes) \<Rightarrow> nat option \<Rightarrow> u64 option \<Rightarrow>
     ('n, 's, 'g, ('n, 'b) reminder_fire_result list) node_handler" where
  "run_due_actor_reminders_once be env digest limit now_override =
     rn_bind (on_server (sv_lift (en_accepting env))) (\<lambda>_ nd.
       let checked_at = (case now_override of None \<Rightarrow> en_now env | Some now \<Rightarrow> now);
           (due, rt) = take_due_reminders checked_at (max (case limit of None \<Rightarrow> 64 | Some n \<Rightarrow> n) 1) (rn_runtime nd)
       in rn_bind (fire_all be env digest checked_at due) (\<lambda>fired nd.
            (Inr fired, nd\<lparr>rn_runtime := record_reminder_sweep checked_at (length fired) (rn_runtime nd)\<rparr>))
          (nd\<lparr>rn_runtime := rt\<rparr>))"

section \<open>HTTP requests of behaviors\<close>

definition host_http_request_matches_draft ::
  "'n host_http_request_draft \<Rightarrow> 'n host_http_request_draft \<Rightarrow> bool" where
  "host_http_request_matches_draft request d \<longleftrightarrow>
     hh_method request = hh_method d \<and> hh_url request = hh_url d \<and> hh_headers request = hh_headers d
     \<and> hh_body_base64 request = hh_body_base64 d \<and> hh_body request = hh_body d
     \<and> hh_timeout_ms request = hh_timeout_ms d \<and> hh_actor_kind request = hh_actor_kind d
     \<and> hh_actor_key request = hh_actor_key d \<and> hh_reminder_id request = hh_reminder_id d
     \<and> hh_continuation request = hh_continuation d"

definition existing_host_http_request ::
  "'n host_http_request_draft \<Rightarrow> 'n host_http_index \<Rightarrow> api_error + 'n host_http_record option" where
  "existing_host_http_request request idx =
     (case bt_get idx (hh_request_id request) of
        None \<Rightarrow> Inr None
      | Some r \<Rightarrow>
          if host_http_request_matches_draft request (hr_request r) then Inr (Some r)
          else Inl (BadRequest ''requestHostHttp requestId was already used for a different request''))"

text \<open>The request is answered at once; the second component says whether it is sent now.\<close>

definition request_host_http ::
  "'n request_env \<Rightarrow> 'n host_http_request_draft \<Rightarrow> ('n, 's, 'g, u64 \<times> bool) node_handler" where
  "request_host_http env request nd =
     (case existing_host_http_request request (rn_http nd) of
        Inl e \<Rightarrow> (Inl e, nd)
      | Inr (Some r) \<Rightarrow> (Inr (hr_requested_lsn r, False), nd)
      | Inr None \<Rightarrow>
          let d = request\<lparr>hh_requested_at_ms := en_now env\<rparr>
          in rn_bind (append_reminder_record env (hh_request_id request) (HostHttpRequested d)) (\<lambda>w nd.
               (Inr (wr_lsn w, True),
                nd\<lparr>rn_http := bt_insert (hh_request_id d)
                     \<lparr>hr_request = d, hr_requested_lsn = wr_lsn w, hr_status = Http_Requested\<rparr> (rn_http nd)\<rparr>)) nd)"

definition append_host_http_completed ::
  "'n request_env \<Rightarrow> string \<Rightarrow> ('n, 's, 'g, unit) node_handler" where
  "append_host_http_completed env request_id =
     rn_bind (append_reminder_record env request_id (HostHttpCompleted request_id (en_now env))) (\<lambda>w nd.
       (Inr (), nd\<lparr>rn_http :=
          (case bt_get (rn_http nd) request_id of
             None \<Rightarrow> rn_http nd
           | Some r \<Rightarrow> bt_insert request_id (r\<lparr>hr_status := Http_Completed\<rparr>) (rn_http nd))\<rparr>))"

text \<open>The task of a request once the answer is there: the reminder first, then the completion.\<close>

definition host_http_answered ::
  "('n, 's, 'g, 'b) behavior_env \<Rightarrow> 'n request_env \<Rightarrow> actor_kind \<Rightarrow> 'n host_http_request_draft \<Rightarrow> 'n json \<Rightarrow>
     ('n, 's, 'g, unit) node_handler" where
  "host_http_answered be env kind request payload =
     rn_bind (schedule_actor_reminder_internal be env
       \<lparr>sq_kind = kind, sq_key = hh_actor_key request, sq_reminder_id = Some (hh_reminder_id request),
        sq_due_at_ms = Some (max (en_now env) 1), sq_delay_ms = None, sq_payload = Some payload,
        sq_idempotent = False\<rparr>) (\<lambda>_. append_host_http_completed env (hh_request_id request))"

end
