(* ===== verification/Reminder_Runs.thy ===== *)
theory Reminder_Runs
  imports Reminder_Recovery
begin

text \<open>Runs of the reminder requests on a small node: the witnesses of the reminder properties.\<close>

definition night_env :: "i64 request_env" where
  "night_env =
     \<lparr>en_now = 7, en_accepting = Inr (), en_shard_of_key = (\<lambda>_. Inr 0), en_not_frozen = (\<lambda>_. Inr ()),
      en_append = Inr (), en_shard_epoch = (\<lambda>_. 1), en_node_id = ''node'', en_shard_count = 1,
      en_max_value_bytes = 0, en_json_bytes = (\<lambda>_. 0), en_safe_object_id = (\<lambda>_. True),
      en_object_metadata = (\<lambda>_. None), en_sha256 = (\<lambda>_. [])\<rparr>"

definition night_server :: "(i64, unit, unit) server" where
  "night_server =
     \<lparr>sv_next_lsn = 0, sv_current_lsn = 0, sv_wal = [], sv_hot = initial_hot_state bt_empty 0,
      sv_disk = empty_projection, sv_jobs = [], sv_applied_lsn = 0, sv_refs = bt_empty,
      sv_mutations = bt_empty, sv_events = [], sv_schema = docs_schema 1 docs_fields\<rparr>"

definition night_node :: "(i64, unit, unit) reminder_node" where
  "night_node =
     \<lparr>rn_server = night_server,
      rn_runtime = runtime_new (\<lambda>bs. bs) 3 0 one_room_config bt_empty [] [] 1,
      rn_index = bt_empty, rn_http = bt_empty\<rparr>"

text \<open>Behaviors whose continuations expire at time 10; running one schedules the reminder again.\<close>

definition night_continuation :: "i64 continuation" where
  "night_continuation =
     \<lparr>co_payload_type = ''behaviorContinuation'', co_behavior = ''jobs'', co_mutation = ''tick'', co_call_depth = None,
      co_max_depth = None, co_deadline_ms = Some 10, co_path = None, co_value = JNull\<rparr>"

definition night_request :: "string \<Rightarrow> u64 \<Rightarrow> i64 json option \<Rightarrow> i64 reminder_schedule_request" where
  "night_request reminder_id due payload =
     \<lparr>sq_kind = ScopeKind, sq_key = ''s'', sq_reminder_id = Some reminder_id, sq_due_at_ms = Some due,
      sq_delay_ms = None, sq_payload = payload, sq_idempotent = False\<rparr>"

definition night_payload :: "i64 json option" where
  "night_payload = Some (JObject [(''type'', JString ''behaviorContinuation'')])"

definition silent_behaviors :: "(i64, unit, unit, unit) behavior_env" where
  "silent_behaviors =
     \<lparr>be_decode = (\<lambda>_. Inr night_continuation), be_invoke = (\<lambda>_ nd. (Inr (), nd)), be_reply = (\<lambda>_ _ _. Inr None),
      be_uuid = (\<lambda>_. ''r'')\<rparr>"

definition repeating_behaviors :: "(i64, unit, unit, unit) behavior_env" where
  "repeating_behaviors = silent_behaviors\<lparr>be_reply := (\<lambda>_ _ _. Inr (Some (night_request ''tick'' 9 None)))\<rparr>"

definition night_put ::
  "string \<Rightarrow> u64 \<Rightarrow> i64 json option \<Rightarrow> (i64, unit, unit) reminder_node \<Rightarrow> (i64, unit, unit) reminder_node" where
  "night_put i due payload nd =
     snd (schedule_actor_reminder_internal silent_behaviors night_env (night_request i due payload) nd)"

definition night_two :: "(i64, unit, unit) reminder_node" where
  "night_two = night_put ''late'' 6 None (night_put ''tick'' 5 night_payload night_node)"

lemma night_node_caches: "caches_of_log night_node" "sv_wal (rn_server night_node) = []"
proof -
  show "sv_wal (rn_server night_node) = []" by code_simp
  moreover have "rt_wheel (rn_runtime night_node) = bt_empty" by code_simp
  ultimately show "caches_of_log night_node"
    by (simp add: caches_of_log_def night_node_def actor_reminders_from_wal_records_def bt_values_def
        actor_reminder_index_from_wal_records_def host_http_request_index_from_wal_records_def)
qed

lemma silent_plain: "plain_behaviors silent_behaviors"
  by (simp add: plain_behaviors_def silent_behaviors_def)

lemma night_steps: "(reminder_step silent_behaviors)\<^sup>*\<^sup>* night_node night_two"
  unfolding night_two_def night_put_def by (meson reminder_scheduled r_into_rtranclp rtranclp.rtrancl_into_rtrancl)

definition night_fired :: "(i64, unit, unit) reminder_node" where
  "night_fired = snd (run_due_actor_reminders_once silent_behaviors night_env (\<lambda>bs. bs) (Some 1) (Some 8) night_two)"


text \<open>At time 20 the continuation of the first reminder has expired.\<close>

definition night_failed :: "(i64, unit, unit) reminder_node" where
  "night_failed = snd (run_due_actor_reminders_once silent_behaviors night_env (\<lambda>bs. bs) (Some 64) (Some 20) night_two)"


text \<open>A reminder whose behavior replies by scheduling it again.\<close>

definition night_entry :: "i64 reminder_entry" where
  "night_entry = \<lparr>re_actor_id = Actor_Id ScopeKind ''s'', re_reminder_id = ''tick'', re_due_at_ms = 5,
     re_payload = night_payload\<rparr>"

definition night_repeat :: "(api_error + (i64, unit) reminder_fire_result) \<times> (i64, unit, unit) reminder_node" where
  "night_repeat = fire_reminder repeating_behaviors night_env (\<lambda>bs. bs) 8 night_entry
     (night_put ''tick'' 5 night_payload night_node)"

theorem rescheduled_while_firing_is_lost_witness:
  "\<exists>again. re_due_at_ms again = 9 \<and> again \<in> set (bt_values (rt_wheel (rn_runtime (snd night_repeat))))
    \<and> (\<forall>x\<in>set (actor_reminders_from_wal_records (sv_wal (rn_server (snd night_repeat)))). \<not> same_reminder x night_entry)"
proof -
  have "(case fst night_repeat of Inr fired \<Rightarrow>
      (case fr_reply fired of Some reply \<Rightarrow>
         re_due_at_ms (rp_reminder reply) = 9 \<and> re_actor_id (rp_reminder reply) = Actor_Id ScopeKind ''s''
         \<and> re_reminder_id (rp_reminder reply) = ''tick'' | None \<Rightarrow> False) | Inl _ \<Rightarrow> False)"
    by code_simp
  then obtain fired reply where fired: "fst night_repeat = Inr fired" "fr_reply fired = Some reply"
    and again: "re_due_at_ms (rp_reminder reply) = 9" "same_reminder (rp_reminder reply) night_entry"
    by (auto simp: same_reminder_def night_entry_def split: sum.splits option.splits)
  have run: "fire_reminder repeating_behaviors night_env (\<lambda>bs. bs) 8 night_entry
      (night_put ''tick'' 5 night_payload night_node) = (Inr fired, snd night_repeat)"
    using fired(1) unfolding night_repeat_def by (intro prod_eqI) simp_all
  have "loggable_id (re_actor_id night_entry)"
    by (simp add: loggable_id_def night_entry_def trim_visible visible_def)
  moreover have "sorted (map wr_lsn (sv_wal (rn_server (snd night_repeat))))"
  proof -
    have "map wr_lsn (sv_wal (rn_server (snd night_repeat))) = [1, 2, 3]" by code_simp
    then show ?thesis by (simp only:) simp
  qed
  ultimately show ?thesis
    using rescheduled_while_firing_is_lost [OF run fired(2) again(2)] again(1) by blast
qed

end
