(* ===== verification/User_Store.thy ===== *)
theory User_Store
  imports Record_Server
begin

text \<open>
  The projection of users in memory (\<open>api/users.rs\<close>): profiles by id and the inbox of events of
  each user, both rebuilt from the log at a start.
\<close>

definition is_user_id_char :: "char \<Rightarrow> bool" where
  "is_user_id_char c \<longleftrightarrow>
     (let n = of_char c :: nat in
       n \<in> {0x30..0x39} \<or> n \<in> {0x41..0x5A} \<or> n \<in> {0x61..0x7A} \<or> c \<in> set ''-_:.'')"

definition ensure_safe_user_id :: "string \<Rightarrow> bool" where
  "ensure_safe_user_id user_id \<longleftrightarrow> user_id \<noteq> [] \<and> length user_id \<le> 160 \<and> list_all is_user_id_char user_id"

record 'n user_store =
  us_profiles :: "(string, 'n user_profile) btree"
  us_events :: "(string, 'n user_event list) btree"

definition empty_user_store :: "'n user_store" where
  "empty_user_store = \<lparr>us_profiles = bt_empty, us_events = bt_empty\<rparr>"

text \<open>The order of an inbox: LSN, then time, then id.\<close>

definition event_order :: "'n user_event \<Rightarrow> u64 \<times> u64 \<times> string" where
  "event_order e = (ue_lsn e, ue_created_at_ms e, ue_id e)"

definition note_user_event :: "'n user_event \<Rightarrow> 'n user_event list \<Rightarrow> 'n user_event list" where
  "note_user_event e es =
     (if \<exists>x\<in>set es. ue_lsn x = ue_lsn e then es else sort_key event_order (es @ [e]))"

definition users_apply_wal_record :: "('n, 's, 'g) wal_record \<Rightarrow> 'n user_store \<Rightarrow> 'n user_store" where
  "users_apply_wal_record w us =
     (case wr_payload w of
        UserUpserted d \<Rightarrow>
          let p = profile_of_draft d (wr_lsn w)
          in us\<lparr>us_profiles := bt_insert (up_user_id p) p (us_profiles us)\<rparr>
      | UserEventPublished d \<Rightarrow>
          let e = event_of_draft d (wr_lsn w)
          in us\<lparr>us_events := bt_insert (ue_user_id e)
                 (note_user_event e (bt_get_or (us_events us) (ue_user_id e) [])) (us_events us)\<rparr>
      | _ \<Rightarrow> us)"

definition users_from_wal_records :: "('n, 's, 'g) wal_record list \<Rightarrow> 'n user_store" where
  "users_from_wal_records ws = fold users_apply_wal_record ws empty_user_store"

definition get_user :: "string \<Rightarrow> 'n user_store \<Rightarrow> 'n user_profile option" where
  "get_user user_id us = bt_get (us_profiles us) user_id"

record 'n list_users_response =
  lur_users :: "'n user_profile list"
  lur_next_after_user_id :: "string option"
  lur_has_more :: bool

text \<open>The loop stops one user after the limit.\<close>

fun list_users_loop ::
  "('n user_profile \<Rightarrow> bool) \<Rightarrow> nat \<Rightarrow> 'n user_profile list \<Rightarrow> 'n user_profile list \<Rightarrow> 'n user_profile list" where
  "list_users_loop wanted limit found [] = found"
| "list_users_loop wanted limit found (u # us) =
     (if \<not> wanted u then list_users_loop wanted limit found us
      else let found1 = found @ [u]
           in if limit < length found1 then found1 else list_users_loop wanted limit found1 us)"

definition user_is_listed ::
  "(bytes \<Rightarrow> bytes) \<Rightarrow> string option \<Rightarrow> nat option \<Rightarrow> nat \<Rightarrow> 'n user_profile \<Rightarrow> bool" where
  "user_is_listed digest after shard shard_count u \<longleftrightarrow>
     (case after of None \<Rightarrow> True | Some a \<Rightarrow> a < up_user_id u)
     \<and> (case shard of None \<Rightarrow> True | Some i \<Rightarrow> shard_index digest (up_user_id u) shard_count = i)"

definition list_users ::
  "(bytes \<Rightarrow> bytes) \<Rightarrow> string option \<Rightarrow> nat option \<Rightarrow> nat \<Rightarrow> nat \<Rightarrow> 'n user_store \<Rightarrow> 'n list_users_response" where
  "list_users digest after shard shard_count limit us =
     (let found = list_users_loop (user_is_listed digest after shard shard_count) limit [] (bt_values (us_profiles us));
          page = take limit found
      in \<lparr>lur_users = page,
          lur_next_after_user_id = (if page = [] then None else Some (up_user_id (last page))),
          lur_has_more = limit < length found\<rparr>)"

definition list_user_events :: "string \<Rightarrow> u64 option \<Rightarrow> nat \<Rightarrow> 'n user_store \<Rightarrow> 'n user_event list" where
  "list_user_events user_id before_lsn limit us =
     (case bt_get (us_events us) user_id of
        None \<Rightarrow> []
      | Some es \<Rightarrow>
          take limit (filter (\<lambda>e. case before_lsn of None \<Rightarrow> True | Some b \<Rightarrow> ue_lsn e < b) (rev es)))"

section \<open>Paging through the users\<close>

text \<open>The key of a profile is its user id, so the values come in the order of the ids.\<close>

definition profiles_keyed :: "'n user_store \<Rightarrow> bool" where
  "profiles_keyed us \<longleftrightarrow> (\<forall>k u. bt_get (us_profiles us) k = Some u \<longrightarrow> up_user_id u = k)"

lemma apply_keyed: "profiles_keyed us \<Longrightarrow> profiles_keyed (users_apply_wal_record w us)"
  by (cases "wr_payload w") (simp_all add: users_apply_wal_record_def profiles_keyed_def Let_def)

lemma users_keyed: "profiles_keyed (users_from_wal_records ws)"
proof -
  have "profiles_keyed us \<Longrightarrow> profiles_keyed (fold users_apply_wal_record ws us)" for us
    by (induction ws arbitrary: us) (simp_all add: apply_keyed)
  moreover have "profiles_keyed empty_user_store" by (simp add: empty_user_store_def profiles_keyed_def)
  ultimately show ?thesis unfolding users_from_wal_records_def by blast
qed

lemma users_ascending: "sorted_wrt (<) (map up_user_id (bt_values (us_profiles (users_from_wal_records ws))))"
proof -
  let ?es = "bt_entries (us_profiles (users_from_wal_records ws))"
  have "map up_user_id (bt_values (us_profiles (users_from_wal_records ws))) = map fst ?es"
    using users_keyed [of ws] by (auto simp: bt_values_def profiles_keyed_def simp flip: in_entries)
  then show ?thesis using ascending_entries [of "us_profiles (users_from_wal_records ws)"]
    by (simp add: ascending_def)
qed

lemma list_users_loop_filter:
  "length found \<le> limit \<Longrightarrow> list_users_loop wanted limit found us = take (Suc limit) (found @ filter wanted us)"
proof (induction us arbitrary: found)
  case (Cons u us)
  consider "\<not> wanted u" | "wanted u" "length found = limit" | "wanted u" "length found < limit"
    using Cons.prems by fastforce
  then show ?case
    by cases (use Cons.IH [of found] Cons.IH [of "found @ [u]"] Cons.prems in \<open>simp_all add: Let_def\<close>)
qed simp

text \<open>
  C33. Paging through the users. Whatever the log, the cursor and the shard asked for, a page of users
  followed by the users after the cursor it returns (none, when it says there are no more) is the list
  of all wanted users after the first cursor, in the order of their ids: the pages leave nobody out
  and repeat nobody. A page has no more users than its limit, and one that announces more has a cursor.
\<close>

theorem user_pages_cover:
  assumes "0 < limit"
  shows "lur_users (list_users digest after shard n limit (users_from_wal_records ws))
      @ (if lur_has_more (list_users digest after shard n limit (users_from_wal_records ws))
         then filter (user_is_listed digest (lur_next_after_user_id (list_users digest after shard n limit (users_from_wal_records ws)))
                shard n) (bt_values (us_profiles (users_from_wal_records ws)))
         else [])
      = filter (user_is_listed digest after shard n) (bt_values (us_profiles (users_from_wal_records ws)))
    \<and> length (lur_users (list_users digest after shard n limit (users_from_wal_records ws))) \<le> limit
    \<and> (lur_has_more (list_users digest after shard n limit (users_from_wal_records ws))
         \<longrightarrow> lur_next_after_user_id (list_users digest after shard n limit (users_from_wal_records ws)) \<noteq> None)"
proof -
  let ?us = "bt_values (us_profiles (users_from_wal_records ws))"
  let ?all = "filter (user_is_listed digest after shard n) ?us"
  have page: "list_users digest after shard n limit (users_from_wal_records ws)
    = \<lparr>lur_users = take limit ?all,
       lur_next_after_user_id = (if ?all = [] then None else Some (up_user_id (last (take limit ?all)))),
       lur_has_more = limit < length ?all\<rparr>"
    using assms by (simp add: list_users_def list_users_loop_filter Let_def min_def)
  have rest: "filter (user_is_listed digest (Some (up_user_id (last (take limit ?all)))) shard n) ?us = drop limit ?all"
    if more: "limit < length ?all"
  proof -
    let ?u = "last (take limit ?all)"
    have split: "take limit ?all = butlast (take limit ?all) @ [?u]"
      using assms more by (metis append_butlast_last_id length_greater_0_conv less_nat_zero_code list.size(3) take_eq_Nil)
    have order: "sorted_wrt (\<lambda>x y. up_user_id x < up_user_id y) ?all"
      using users_ascending [of ws] by (simp add: sorted_wrt_map sorted_wrt_filter)
    have parts: "?all = butlast (take limit ?all) @ ?u # drop limit ?all"
      using split by (metis append.assoc append_Cons append_Nil append_take_drop_id)
    have u: "user_is_listed digest after shard n ?u"
    proof -
      have "?u \<in> set ?all" using parts by (metis in_set_conv_decomp)
      then show ?thesis by simp
    qed
    have "user_is_listed digest (Some (up_user_id ?u)) shard n x
        \<longleftrightarrow> user_is_listed digest after shard n x \<and> up_user_id ?u < up_user_id x" for x
      using u by (auto simp: user_is_listed_def split: option.splits)
    then have "filter (user_is_listed digest (Some (up_user_id ?u)) shard n) ?us = filter (\<lambda>x. up_user_id ?u < up_user_id x) ?all"
      unfolding filter_filter by (rule filter_cong [OF refl])
    also have "\<dots> = filter (\<lambda>x. up_user_id ?u < up_user_id x) (butlast (take limit ?all) @ ?u # drop limit ?all)"
      using parts by (rule arg_cong)
    also have "\<dots> = drop limit ?all"
    proof -
      have "sorted_wrt (\<lambda>x y. up_user_id x < up_user_id y) (butlast (take limit ?all) @ ?u # drop limit ?all)"
        using order parts by simp
      then have "\<forall>x\<in>set (butlast (take limit ?all)). up_user_id x < up_user_id ?u"
        "\<forall>x\<in>set (drop limit ?all). up_user_id ?u < up_user_id x" by (simp_all add: sorted_wrt_append)
      then show ?thesis by (force simp: filter_empty_conv filter_id_conv)
    qed
    finally show ?thesis .
  qed
  show ?thesis using rest by (auto simp: page)
qed

text \<open>Three users, two of them to a page.\<close>

definition joined :: "string \<Rightarrow> u64 \<Rightarrow> (i64, unit, unit) wal_record" where
  "joined user_id lsn =
     \<lparr>wr_lsn = lsn, wr_shard = 0, wr_shard_epoch = 1, wr_owner_node_id = ''node'', wr_timestamp_ms = 7,
      wr_schema_version = 1, wr_durability = Strict,
      wr_payload = UserUpserted \<lparr>upd_user_id = user_id, upd_client_mutation_id = None, upd_display_name = None,
        upd_metadata = JObject [], upd_created_at_ms = 7, upd_updated_at_ms = 7, upd_path = ''users/'' @ user_id\<rparr>,
      wr_checksum = None\<rparr>"

definition three_users :: "(i64, unit, unit) wal_record list" where
  "three_users = [joined ''cy'' 1, joined ''al'' 2, joined ''bo'' 3]"

theorem user_pages_cover_witness:
  "map up_user_id (lur_users (list_users (\<lambda>_. []) None None 1 2 (users_from_wal_records three_users))) = [''al'', ''bo'']
   \<and> lur_has_more (list_users (\<lambda>_. []) None None 1 2 (users_from_wal_records three_users))
   \<and> map up_user_id (filter (user_is_listed (\<lambda>_. []) (Some ''bo'') None 1)
        (bt_values (us_profiles (users_from_wal_records three_users)))) = [''cy'']
   \<and> map up_user_id (bt_values (us_profiles (users_from_wal_records three_users))) = [''al'', ''bo'', ''cy'']"
proof -
  let ?us = "users_from_wal_records three_users"
  let ?page = "list_users (\<lambda>_. []) None None 1 2 ?us"
  have page: "map up_user_id (lur_users ?page) = [''al'', ''bo'']" "lur_has_more ?page" "lur_next_after_user_id ?page = Some ''bo''"
    by code_simp+
  have all: "filter (user_is_listed (\<lambda>_. []) None None 1) (bt_values (us_profiles ?us)) = bt_values (us_profiles ?us)"
    by (simp add: user_is_listed_def)
  have "lur_users ?page @ filter (user_is_listed (\<lambda>_. []) (Some ''bo'') None 1) (bt_values (us_profiles ?us)) = bt_values (us_profiles ?us)"
    using user_pages_cover [of 2 "\<lambda>_. []" None None 1 three_users] page(2,3) by (simp only: all) simp
  moreover have "map up_user_id (filter (user_is_listed (\<lambda>_. []) (Some ''bo'') None 1) (bt_values (us_profiles ?us))) = [''cy'']"
    by code_simp
  ultimately show ?thesis using page(1,2) by (metis append_Cons append_Nil map_append)
qed

end
