(* ===== verification/Chat_Log.thy ===== *)
theory Chat_Log
  imports Record_Projection Actor
begin

text \<open>
  The history of messages on disk (\<open>chat_log.rs\<close>): bucket files by room and day with an index
  beside each, and the projection of all messages by room and recency that reads use first. The
  JSON of messages and of index lines is a parameter; files hold bytes, the keyspaces of the
  projection map to the message their value decodes to.
\<close>

section \<open>Lines and entries\<close>

record chat_index_entry =
  cie_lsn :: u64
  cie_created_at_ms :: u64
  cie_id :: string
  cie_offset :: u64
  cie_len :: u64

record chat_ops =
  message_to_vec :: "message \<Rightarrow> string"
  message_from_slice :: "string \<Rightarrow> message option"
  entry_to_vec :: "chat_index_entry \<Rightarrow> string"
  entry_from_slice :: "string \<Rightarrow> chat_index_entry option"
  message_to_postcard :: "message \<Rightarrow> string"
  message_from_postcard :: "string \<Rightarrow> message option"

definition newline :: char where
  "newline = CHR 0x0A"

text \<open>\<open>is_ascii_whitespace\<close>\<close>

definition ascii_whitespace :: "char \<Rightarrow> bool" where
  "ascii_whitespace c \<longleftrightarrow> c \<in> {CHR 0x20, CHR 0x09, CHR 0x0A, CHR 0x0C, CHR 0x0D}"

definition blank_line :: "string \<Rightarrow> bool" where
  "blank_line s \<longleftrightarrow> list_all ascii_whitespace s"

text \<open>\<open>split_inclusive\<close> and \<open>split\<close> on newlines.\<close>

fun split_inclusive :: "string \<Rightarrow> string list" where
  "split_inclusive [] = []"
| "split_inclusive (c # s) =
     (if c = newline then [c] # split_inclusive s
      else case split_inclusive s of [] \<Rightarrow> [[c]] | l # ls \<Rightarrow> (c # l) # ls)"

fun split_lines :: "string \<Rightarrow> string list" where
  "split_lines [] = [[]]"
| "split_lines (c # s) =
     (if c = newline then [] # split_lines s
      else case split_lines s of [] \<Rightarrow> [[c]] | l # ls \<Rightarrow> (c # l) # ls)"

definition trim_trailing_newline :: "string \<Rightarrow> string" where
  "trim_trailing_newline line = (if line \<noteq> [] \<and> last line = newline then butlast line else line)"

definition encode_message_line :: "('z) chat_ops_scheme \<Rightarrow> message \<Rightarrow> string" where
  "encode_message_line ops m = message_to_vec ops m @ [newline]"

definition index_entry_of :: "message \<Rightarrow> u64 \<Rightarrow> string \<Rightarrow> chat_index_entry" where
  "index_entry_of m offset encoded =
     \<lparr>cie_lsn = msg_lsn m, cie_created_at_ms = msg_created_at_ms m, cie_id = msg_id m,
      cie_offset = offset, cie_len = of_nat (length encoded)\<rparr>"

text \<open>A value of the projection: a magic number before the compact encoding, else JSON.\<close>

definition chat_log_message_magic :: string where
  "chat_log_message_magic = ''NDBMSG01''"

definition encode_projected_message :: "('z) chat_ops_scheme \<Rightarrow> message \<Rightarrow> string" where
  "encode_projected_message ops m = chat_log_message_magic @ message_to_postcard ops m"

definition decode_projected_message :: "('z) chat_ops_scheme \<Rightarrow> string \<Rightarrow> message option" where
  "decode_projected_message ops bytes =
     (case strip_prefix bytes chat_log_message_magic of
        None \<Rightarrow> message_from_slice ops bytes
      | Some rest \<Rightarrow> message_from_postcard ops rest)"

section \<open>Bucket files\<close>

text \<open>A bucket: its data file and, when it exists, its index file.\<close>

record chat_bucket =
  cb_data :: string
  cb_index :: "string option"

text \<open>The writer: what it appends to the data file and to the index, and its next offset.\<close>

fun encode_batch ::
  "('z) chat_ops_scheme \<Rightarrow> u64 \<Rightarrow> (message \<times> string) list \<Rightarrow> string \<times> string \<times> u64" where
  "encode_batch ops offset [] = ([], [], offset)"
| "encode_batch ops offset ((m, encoded) # ms) =
     (let (data, index, next) = encode_batch ops (sat_add offset (of_nat (length encoded))) ms
      in (encoded @ data, entry_to_vec ops (index_entry_of m offset encoded) @ newline # index, next))"

definition append_many_encoded ::
  "('z) chat_ops_scheme \<Rightarrow> (message \<times> string) list \<Rightarrow> u64 \<Rightarrow> chat_bucket \<Rightarrow> chat_bucket \<times> u64" where
  "append_many_encoded ops ms next_offset b =
     (let (data, index, next) = encode_batch ops next_offset ms
      in (b\<lparr>cb_data := cb_data b @ data,
            cb_index := Some ((case cb_index b of None \<Rightarrow> [] | Some i \<Rightarrow> i) @ index)\<rparr>, next))"

definition encode_index :: "('z) chat_ops_scheme \<Rightarrow> chat_index_entry list \<Rightarrow> string" where
  "encode_index ops es = concat (map (\<lambda>e. entry_to_vec ops e @ [newline]) es)"

fun decode_lines ::
  "('z) chat_ops_scheme \<Rightarrow> u64 \<Rightarrow> string list \<Rightarrow> (message \<times> chat_index_entry) list option" where
  "decode_lines ops offset [] = Some []"
| "decode_lines ops offset (raw # rest) =
     (let next = sat_add offset (of_nat (length raw)) in
      if blank_line raw then decode_lines ops next rest
      else case message_from_slice ops (trim_trailing_newline raw) of
             None \<Rightarrow> None
           | Some m \<Rightarrow> map_option (\<lambda>found. (m, index_entry_of m offset raw) # found) (decode_lines ops next rest))"

definition before_bound :: "u64 option \<Rightarrow> u64 \<Rightarrow> bool" where
  "before_bound before_lsn lsn \<longleftrightarrow> (case before_lsn of None \<Rightarrow> True | Some b \<Rightarrow> lsn < b)"

definition decode_bucket_data ::
  "('z) chat_ops_scheme \<Rightarrow> string \<Rightarrow> u64 option \<Rightarrow> (message list \<times> chat_index_entry list) option" where
  "decode_bucket_data ops contents before_lsn =
     map_option (\<lambda>found.
       (filter (\<lambda>m. before_bound before_lsn (msg_lsn m)) (map fst found), map snd found))
     (decode_lines ops 0 (split_inclusive contents))"

text \<open>The index is used only when its entries tile the data file.\<close>

fun tiles :: "u64 \<Rightarrow> u64 \<Rightarrow> chat_index_entry list \<Rightarrow> bool" where
  "tiles data_len expected [] \<longleftrightarrow> expected = data_len"
| "tiles data_len expected (e # es) \<longleftrightarrow>
     cie_offset e = expected \<and> unat (cie_offset e) + unat (cie_len e) < 2 ^ 64
     \<and> cie_offset e + cie_len e \<le> data_len \<and> tiles data_len (cie_offset e + cie_len e) es"

definition index_covers_data_file :: "chat_index_entry list \<Rightarrow> u64 \<Rightarrow> bool" where
  "index_covers_data_file es data_len \<longleftrightarrow>
     (if es = [] then data_len = 0 else tiles data_len 0 (sort_key cie_offset es))"

fun read_index_lines :: "('z) chat_ops_scheme \<Rightarrow> string list \<Rightarrow> chat_index_entry list option" where
  "read_index_lines ops [] = Some []"
| "read_index_lines ops (line # rest) =
     (if blank_line line then read_index_lines ops rest
      else case entry_from_slice ops line of
             None \<Rightarrow> None
           | Some e \<Rightarrow> map_option (Cons e) (read_index_lines ops rest))"

definition compare_index_order :: "chat_index_entry \<Rightarrow> chat_index_entry \<Rightarrow> ordering" where
  "compare_index_order a b =
     (if cie_lsn a > 0 \<and> cie_lsn b > 0
      then if cie_lsn a < cie_lsn b then Less_Than
           else if cie_lsn a = cie_lsn b then Equal_To else Greater_Than
      else if cie_created_at_ms a < cie_created_at_ms b then Less_Than
      else if cie_created_at_ms a > cie_created_at_ms b then Greater_Than
      else if cie_id a < cie_id b then Less_Than
      else if cie_id a = cie_id b then Equal_To else Greater_Than)"

text \<open>\<open>seek\<close>, \<open>read_exact\<close> and the decoding of one line.\<close>

definition read_entry :: "('z) chat_ops_scheme \<Rightarrow> string \<Rightarrow> chat_index_entry \<Rightarrow> message option" where
  "read_entry ops data e =
     (if unat (cie_offset e) + unat (cie_len e) \<le> length data
      then message_from_slice ops
             (trim_trailing_newline (take (unat (cie_len e)) (drop (unat (cie_offset e)) data)))
      else None)"

fun read_entries :: "('z) chat_ops_scheme \<Rightarrow> string \<Rightarrow> chat_index_entry list \<Rightarrow> message list option" where
  "read_entries ops data [] = Some []"
| "read_entries ops data (e # es) =
     (case read_entry ops data e of
        None \<Rightarrow> None
      | Some m \<Rightarrow> map_option (Cons m) (read_entries ops data es))"

definition read_bucket_latest_from_index ::
  "('z) chat_ops_scheme \<Rightarrow> chat_bucket \<Rightarrow> u64 option \<Rightarrow> nat \<Rightarrow> message list option" where
  "read_bucket_latest_from_index ops b before_lsn limit =
     (case cb_index b of
        None \<Rightarrow> None
      | Some index \<Rightarrow>
          (case read_index_lines ops (split_lines index) of
             None \<Rightarrow> None
           | Some all_entries \<Rightarrow>
               if \<not> index_covers_data_file all_entries (of_nat (length (cb_data b))) then None
               else
                 let es = filter (\<lambda>e. before_bound before_lsn (cie_lsn e)) all_entries
                 in if es = [] then Some []
                    else read_entries ops (cb_data b)
                           (take limit (sort_by (\<lambda>a b. compare_index_order b a) es))))"

definition read_bucket_latest ::
  "('z) chat_ops_scheme \<Rightarrow> chat_bucket \<Rightarrow> u64 option \<Rightarrow> nat \<Rightarrow> message list option \<times> chat_bucket" where
  "read_bucket_latest ops b before_lsn limit =
     (if limit = 0 then (Some [], b)
      else case read_bucket_latest_from_index ops b before_lsn limit of
             Some ms \<Rightarrow> (Some ms, b)
           | None \<Rightarrow>
               (case decode_bucket_data ops (cb_data b) before_lsn of
                  None \<Rightarrow> (None, b)
                | Some (ms, es) \<Rightarrow>
                    (Some (take limit (sort_by (\<lambda>a b. compare_message_order b a) ms)),
                     b\<lparr>cb_index := Some (encode_index ops es)\<rparr>)))"

section \<open>The projection\<close>

definition chat_log_room_prefix :: "string \<Rightarrow> string" where
  "chat_log_room_prefix room_id = room_id @ [nul]"

definition chat_log_ref_key :: "string \<Rightarrow> string \<Rightarrow> string" where
  "chat_log_ref_key room_id message_id = room_id @ nul # message_id"

definition chat_log_message_key :: "message \<Rightarrow> string" where
  "chat_log_message_key m =
     msg_room_id m @ nul # padded20 (sat_sub (- 1) (msg_lsn m)) @ nul #
     padded20 (sat_sub (- 1) (msg_created_at_ms m)) @ nul # msg_id m"

record chat_projection =
  cp_messages :: "(string, message) btree"
  cp_refs :: "(string, string) btree"

definition empty_chat_projection :: chat_projection where
  "empty_chat_projection = \<lparr>cp_messages = bt_empty, cp_refs = bt_empty\<rparr>"

text \<open>All earlier keys are looked up before the batch; the batch then applies in order.\<close>

definition put_one :: "message \<times> string option \<Rightarrow> chat_projection \<Rightarrow> chat_projection" where
  "put_one = (\<lambda>(m, previous_key) p.
     let ms = (case previous_key of None \<Rightarrow> cp_messages p | Some k \<Rightarrow> bt_remove k (cp_messages p))
     in \<lparr>cp_messages = bt_insert (chat_log_message_key m) m ms,
         cp_refs = bt_insert (chat_log_ref_key (msg_room_id m) (msg_id m)) (chat_log_message_key m) (cp_refs p)\<rparr>)"

definition put_messages :: "message list \<Rightarrow> chat_projection \<Rightarrow> chat_projection" where
  "put_messages ms p =
     fold put_one
       (map (\<lambda>m. (m, bt_get (cp_refs p) (chat_log_ref_key (msg_room_id m) (msg_id m)))) ms) p"

text \<open>The loop of a read: skip what is not before the bound, keep each id once, stop when full.\<close>

fun latest_loop :: "u64 option \<Rightarrow> nat \<Rightarrow> string list \<Rightarrow> message list \<Rightarrow> message list \<Rightarrow> message list" where
  "latest_loop before_lsn limit seen page [] = page"
| "latest_loop before_lsn limit seen page (m # ms) =
     (if \<not> before_bound before_lsn (msg_lsn m) then latest_loop before_lsn limit seen page ms
      else
        let page1 = (if msg_id m \<in> set seen then page else page @ [m]);
            seen1 = (if msg_id m \<in> set seen then seen else msg_id m # seen)
        in if limit \<le> length page1 then page1 else latest_loop before_lsn limit seen1 page1 ms)"

definition projected_latest :: "chat_projection \<Rightarrow> string \<Rightarrow> u64 option \<Rightarrow> nat \<Rightarrow> message list" where
  "projected_latest p room_id before_lsn limit =
     latest_loop before_lsn limit [] []
       (map snd (prefix_entries (cp_messages p) (chat_log_room_prefix room_id)))"

section \<open>The chat log\<close>

type_synonym bucket_path = "string \<times> u64"

record chat_log =
  cl_buckets :: "(bucket_path, chat_bucket) btree"
  cl_writers :: "(bucket_path, u64) btree"
  cl_projection :: chat_projection
  cl_marker :: bool

definition empty_chat_log :: chat_log where
  "empty_chat_log =
     \<lparr>cl_buckets = bt_empty, cl_writers = bt_empty, cl_projection = empty_chat_projection, cl_marker = False\<rparr>"

definition room_dir :: "string \<Rightarrow> string" where
  "room_dir room_id = hex_lower (map byte_of room_id)"

definition bucket_path :: "string \<Rightarrow> u64 \<Rightarrow> bucket_path" where
  "bucket_path room_id bucket = (room_dir room_id, bucket)"

definition path_of_message :: "message \<Rightarrow> bucket_path" where
  "path_of_message m = bucket_path (msg_room_id m) (time_bucket_day (msg_created_at_ms m))"

text \<open>Opening a writer creates both files and starts at the length of the data file.\<close>

definition writer_for_path :: "bucket_path \<Rightarrow> chat_log \<Rightarrow> u64 \<times> chat_log" where
  "writer_for_path path c =
     (case bt_get (cl_writers c) path of
        Some next \<Rightarrow> (next, c)
      | None \<Rightarrow>
          let b = bt_get_or (cl_buckets c) path \<lparr>cb_data = [], cb_index = None\<rparr>;
              b1 = b\<lparr>cb_index := Some (case cb_index b of None \<Rightarrow> [] | Some i \<Rightarrow> i)\<rparr>;
              next = of_nat (length (cb_data b))
          in (next, c\<lparr>cl_buckets := bt_insert path b1 (cl_buckets c),
                     cl_writers := bt_insert path next (cl_writers c)\<rparr>))"

definition append_bucket :: "('z) chat_ops_scheme \<Rightarrow> bucket_path \<times> message list \<Rightarrow> chat_log \<Rightarrow> chat_log" where
  "append_bucket ops = (\<lambda>(path, ms) c.
     let (next, c1) = writer_for_path path c;
         b = bt_get_or (cl_buckets c1) path \<lparr>cb_data = [], cb_index = None\<rparr>;
         (b1, next1) = append_many_encoded ops (map (\<lambda>m. (m, encode_message_line ops m)) ms) next b
     in c1\<lparr>cl_buckets := bt_insert path b1 (cl_buckets c1), cl_writers := bt_insert path next1 (cl_writers c1),
           cl_projection := put_messages ms (cl_projection c1)\<rparr>)"

definition chat_append :: "('z) chat_ops_scheme \<Rightarrow> message \<Rightarrow> chat_log \<Rightarrow> chat_log" where
  "chat_append ops m = append_bucket ops (path_of_message m, [m])"

text \<open>The batches of several buckets are a hash map in the code, a map by path here.\<close>

definition chat_append_many :: "('z) chat_ops_scheme \<Rightarrow> message list \<Rightarrow> chat_log \<Rightarrow> chat_log" where
  "chat_append_many ops ms c =
     (if ms = [] then c
      else fold (append_bucket ops) (bt_entries (fold (\<lambda>m. bt_push (path_of_message m) m) ms bt_empty)) c)"

definition chat_rebuild_from_messages :: "('z) chat_ops_scheme \<Rightarrow> message list \<Rightarrow> chat_log \<Rightarrow> chat_log" where
  "chat_rebuild_from_messages ops ms c =
     (if cl_marker c then c else (chat_append_many ops ms empty_chat_log)\<lparr>cl_marker := True\<rparr>)"

definition chat_force_rebuild :: "('z) chat_ops_scheme \<Rightarrow> message list \<Rightarrow> chat_log \<Rightarrow> nat \<times> chat_log" where
  "chat_force_rebuild ops ms c = (length ms, (chat_append_many ops ms empty_chat_log)\<lparr>cl_marker := True\<rparr>)"

text \<open>A process that starts on the same directory: no open writers, the rest is on disk.\<close>

definition chat_reopen :: "chat_log \<Rightarrow> chat_log" where
  "chat_reopen c = c\<lparr>cl_writers := bt_empty\<rparr>"

definition room_buckets :: "string \<Rightarrow> chat_log \<Rightarrow> u64 list" where
  "room_buckets room_id c = map snd (filter (\<lambda>path. fst path = room_dir room_id) (bt_keys (cl_buckets c)))"

text \<open>One bucket of a room read for a page: its messages, each id once, as long as there is room.\<close>

fun take_new :: "nat \<Rightarrow> string list \<Rightarrow> message list \<Rightarrow> message list \<Rightarrow> string list \<times> message list" where
  "take_new limit seen page [] = (seen, page)"
| "take_new limit seen page (m # ms) =
     (let page1 = (if msg_id m \<in> set seen then page else page @ [m]);
          seen1 = (if msg_id m \<in> set seen then seen else msg_id m # seen)
      in if limit \<le> length page1 then (seen1, page1) else take_new limit seen1 page1 ms)"

fun read_buckets ::
  "('z) chat_ops_scheme \<Rightarrow> string \<Rightarrow> u64 option \<Rightarrow> nat \<Rightarrow> string list \<Rightarrow> message list \<Rightarrow> u64 list \<Rightarrow>
     chat_log \<Rightarrow> message list option \<times> chat_log" where
  "read_buckets ops room_id before_lsn limit seen page [] c = (Some page, c)"
| "read_buckets ops room_id before_lsn limit seen page (bucket # rest) c =
     (let path = bucket_path room_id bucket;
          b0 = bt_get_or (cl_buckets c) path \<lparr>cb_data = [], cb_index = None\<rparr>;
          (found, b) = read_bucket_latest ops b0 before_lsn (limit - length page);
          c1 = (if limit - length page = 0
                    \<or> read_bucket_latest_from_index ops b0 before_lsn (limit - length page) \<noteq> None then c
                else
                  let (next, c0) = writer_for_path path c
                  in if found = None then c0
                     else c0\<lparr>cl_buckets := bt_insert path b (cl_buckets c0),
                             cl_writers := bt_insert path (of_nat (length (cb_data b))) (cl_writers c0)\<rparr>)
      in case found of
           None \<Rightarrow> (None, c1)
         | Some ms \<Rightarrow>
             let (seen1, page1) = take_new limit seen page ms
             in if limit \<le> length page1 then (Some page1, c1)
                else read_buckets ops room_id before_lsn limit seen1 page1 rest c1)"

definition chat_latest ::
  "('z) chat_ops_scheme \<Rightarrow> string \<Rightarrow> u64 option \<Rightarrow> nat \<Rightarrow> chat_log \<Rightarrow> message list option \<times> chat_log" where
  "chat_latest ops room_id before_lsn limit c =
     (if limit = 0 then (Some [], c)
      else
        let projected = projected_latest (cl_projection c) room_id before_lsn limit;
            buckets = room_buckets room_id c
        in if projected \<noteq> [] \<or> buckets = [] then (Some projected, c)
           else read_buckets ops room_id before_lsn limit [] [] (rev (sort buckets)) c)"

end
