(* ===== verification/Message_Server.thy ===== *)
theory Message_Server
  imports User_Store Actor_Runtime Chat_Log
begin

text \<open>
  The requests about messages, user events and users (\<open>api/mutation.rs\<close>, \<open>api/users.rs\<close>,
  \<open>api/runtime.rs\<close>): a message goes to the log, to the chat log and to the room's actor, a read
  takes the room in memory and what it lacks from the chat log.

  The state of a request is the server with the actor runtime, the chat log and the users. What it
  meets elsewhere (limits, fresh ids, subscribers, tokens) is in its environment.
\<close>

section \<open>The state of a request\<close>

record ('n, 's, 'g) message_node =
  mn_server :: "('n, 's, 'g) server"
  mn_runtime :: "'n runtime"
  mn_chat :: chat_log
  mn_users :: "'n user_store"

record 'n message_env =
  me_request :: "'n request_env"
  me_max_message_bytes :: nat
  me_max_user_event_bytes :: nat
  me_uuid :: "nat \<Rightarrow> string"
  me_room_subscribers :: "string \<Rightarrow> nat"
  me_user_connections :: "string \<Rightarrow> nat"
  me_user_authorized :: "string \<Rightarrow> api_error + unit"
  me_client_authorized :: "api_error + unit"

type_synonym ('n, 's, 'g, 'a) message_handler =
  "('n, 's, 'g) message_node \<Rightarrow> (api_error + 'a) \<times> ('n, 's, 'g) message_node"

definition mn_bind ::
  "('n, 's, 'g, 'a) message_handler \<Rightarrow> ('a \<Rightarrow> ('n, 's, 'g, 'b) message_handler) \<Rightarrow>
     ('n, 's, 'g, 'b) message_handler" where
  "mn_bind m k nd = (case m nd of (Inl e, nd1) \<Rightarrow> (Inl e, nd1) | (Inr x, nd1) \<Rightarrow> k x nd1)"

definition mn_lift :: "api_error + 'a \<Rightarrow> ('n, 's, 'g, 'a) message_handler" where
  "mn_lift r nd = (r, nd)"

definition mn_on_server :: "('n, 's, 'g, 'a) handler \<Rightarrow> ('n, 's, 'g, 'a) message_handler" where
  "mn_on_server h nd = (let (r, sv) = h (mn_server nd) in (r, nd\<lparr>mn_server := sv\<rparr>))"

definition mn_publish :: "'n delivery_event list \<Rightarrow> ('n, 's, 'g) message_node \<Rightarrow> ('n, 's, 'g) message_node" where
  "mn_publish es nd = nd\<lparr>mn_server := fold publish_delivery_event es (mn_server nd)\<rparr>"

section \<open>Several records in one append\<close>

definition wal_record_of ::
  "'n request_env \<Rightarrow> usize \<Rightarrow> durability \<Rightarrow> u32 \<Rightarrow> u64 \<Rightarrow> ('n, 's, 'g) wal_payload \<Rightarrow> ('n, 's, 'g) wal_record" where
  "wal_record_of env shard dur version lsn payload =
     \<lparr>wr_lsn = lsn, wr_shard = shard, wr_shard_epoch = en_shard_epoch env shard,
      wr_owner_node_id = en_node_id env, wr_timestamp_ms = en_now env,
      wr_schema_version = version, wr_durability = dur, wr_payload = payload, wr_checksum = None\<rparr>"

fun number_payloads ::
  "'n request_env \<Rightarrow> usize \<Rightarrow> durability \<Rightarrow> u32 \<Rightarrow> u64 \<Rightarrow> ('n, 's, 'g) wal_payload list \<Rightarrow>
     ('n, 's, 'g) wal_record list \<times> u64" where
  "number_payloads env shard dur version lsn [] = ([], lsn)"
| "number_payloads env shard dur version lsn (p # ps) =
     (let (ws, final) = number_payloads env shard dur version (lsn + 1) ps
      in (wal_record_of env shard dur version (lsn + 1) p # ws, final))"

definition append_ordered_wal_records ::
  "'n request_env \<Rightarrow> usize \<Rightarrow> durability \<Rightarrow> ('n, 's, 'g) wal_payload list \<Rightarrow>
     ('n, 's, 'g, ('n, 's, 'g) wal_record list) handler" where
  "append_ordered_wal_records env shard dur payloads sv =
     (if payloads = [] then (Inr [], sv)
      else
        let (ws, final) = number_payloads env shard dur (db_version (sv_schema sv)) (sv_next_lsn sv) payloads;
            sv1 = sv\<lparr>sv_next_lsn := final\<rparr>
        in case en_append env of
             Inl e \<Rightarrow> (Inl e, sv1)
           | Inr _ \<Rightarrow>
               (Inr ws, sv1\<lparr>sv_wal := sv_wal sv1 @ ws,
                 sv_current_lsn := fold (\<lambda>w lsn. max lsn (wr_lsn w)) ws (sv_current_lsn sv1),
                 sv_mutations := fold note_committed_mutation_record ws (sv_mutations sv1)\<rparr>))"

section \<open>Messages\<close>

fun resolve_object_refs :: "'n request_env \<Rightarrow> string list \<Rightarrow> string list \<Rightarrow> api_error + object_ref list" where
  "resolve_object_refs env seen [] = Inr []"
| "resolve_object_refs env seen (i # is) =
     (if \<not> en_safe_object_id env i then Inl (BadRequest ''invalid attachment object id'')
      else if i \<in> set seen then resolve_object_refs env seen is
      else case en_object_metadata env i of
             None \<Rightarrow> Inl (NotFound ''attachment object not found'')
           | Some m \<Rightarrow> res_bind (resolve_object_refs env (i # seen) is) (\<lambda>refs. Inr (object_ref_from m # refs)))"

definition message_from_wal_record :: "('n, 's, 'g) wal_record \<Rightarrow> api_error + message" where
  "message_from_wal_record w =
     (case wr_payload w of MessageCreated d \<Rightarrow> Inr (message_of_draft d (wr_lsn w)) | _ \<Rightarrow> Inl InternalError)"

definition recorded_message :: "'n committed_mutation \<Rightarrow> api_error + message" where
  "recorded_message m = (case m of CmMessageCreated msg \<Rightarrow> Inr msg | _ \<Rightarrow> Inl mutation_kind_conflict)"

definition message_path :: "durability \<Rightarrow> string \<Rightarrow> string \<Rightarrow> string" where
  "message_path dur room_id i =
     (if dur = Volatile then ''volatile/rooms/'' else ''rooms/'') @ room_id @ ''/messages/'' @ i"

text \<open>A volatile message reaches the room and the subscribers only.\<close>

definition send_volatile ::
  "'n message_env \<Rightarrow> message \<Rightarrow> ('n, 's, 'g, message) message_handler" where
  "send_volatile env m nd =
     (Inr m, mn_publish [EvMessageCreated (msg_room_id m) m]
       (nd\<lparr>mn_runtime := apply_message (en_sha256 (me_request env)) (en_now (me_request env)) m (mn_runtime nd)\<rparr>))"

text \<open>What follows the append: the chat log, the room, the object references, the subscribers.\<close>

definition publish_message ::
  "('z) chat_ops_scheme \<Rightarrow> 'n message_env \<Rightarrow> message \<Rightarrow> ('n, 's, 'g, message) message_handler" where
  "publish_message cops env m nd =
     (Inr m, mn_publish [EvMessageCreated (msg_room_id m) m]
       (nd\<lparr>mn_chat := chat_append cops m (mn_chat nd),
          mn_runtime := apply_message (en_sha256 (me_request env)) (en_now (me_request env)) m (mn_runtime nd),
          mn_server := (mn_server nd)\<lparr>sv_refs := retain_message m (sv_refs (mn_server nd))\<rparr>\<rparr>))"

definition append_message ::
  "'n request_env \<Rightarrow> durability \<Rightarrow> message_draft \<Rightarrow> ('n, 's, 'g, message) message_handler" where
  "append_message env dur d =
     mn_on_server
       (sv_bind (sv_lift (en_accepting env)) (\<lambda>_.
        sv_bind (sv_lift (en_shard_of_key env (md_room_id d))) (\<lambda>shard.
        sv_bind (sv_lift (en_not_frozen env shard)) (\<lambda>_.
        sv_bind (append_ordered_wal_record env shard dur (MessageCreated d)) (\<lambda>w.
          sv_lift (message_from_wal_record w))))))"

definition message_draft_of ::
  "'n message_env \<Rightarrow> nat \<Rightarrow> durability \<Rightarrow> string \<Rightarrow> string \<Rightarrow> string \<Rightarrow> string option \<Rightarrow> object_ref list \<Rightarrow>
     message_draft" where
  "message_draft_of env i dur room_id user_id body mutation_id refs =
     \<lparr>md_id = me_uuid env i, md_client_mutation_id = mutation_id, md_room_id = room_id, md_sender_id = user_id,
      md_body = body, md_attachments = refs, md_created_at_ms = en_now (me_request env),
      md_path = message_path dur room_id (me_uuid env i)\<rparr>"

definition send_message ::
  "('n, 'y) number_ops_scheme \<Rightarrow> ('z) chat_ops_scheme \<Rightarrow> 'n message_env \<Rightarrow> string \<Rightarrow> string \<Rightarrow> string \<Rightarrow>
     string list \<Rightarrow> durability \<Rightarrow> string option \<Rightarrow> ('n, 's, 'g, message) message_handler" where
  "send_message ops cops env room_id user_id body attachments dur given_mutation_id =
     (let env' = me_request env in
      mn_bind (mn_lift (en_accepting env')) (\<lambda>_.
      mn_bind (mn_lift (if trim body = [] then Inl (BadRequest ''message body cannot be empty'') else Inr ())) (\<lambda>_.
      mn_bind (mn_lift (normalize_client_mutation_id given_mutation_id)) (\<lambda>mutation_id nd.
        case (if dur = Volatile then None else find_committed_mutation (sv_mutations (mn_server nd)) mutation_id) of
          Some m \<Rightarrow> (recorded_message m, nd)
        | None \<Rightarrow>
            mn_bind (mn_lift (ensure_bytes_limit ''message body'' (length body) (me_max_message_bytes env))) (\<lambda>_.
              if dur = Volatile \<and> attachments = []
              then send_volatile env (message_of_draft (message_draft_of env 0 dur room_id user_id body mutation_id []) 0)
              else
                mn_bind (mn_lift (resolve_object_refs env' [] attachments)) (\<lambda>refs nd.
                  let d = message_draft_of env 0 dur room_id user_id body mutation_id refs in
                  mn_bind (mn_lift (map_err BadRequest (validate_message_draft ops (sv_schema (mn_server nd)) d))) (\<lambda>_.
                    if dur = Volatile then send_volatile env (message_of_draft d 0)
                    else mn_bind (append_message env' dur d) (publish_message cops env)) nd)) nd))))"

section \<open>Batches of messages\<close>

record send_messages_item =
  si_body :: string
  si_attachments :: "string list"
  si_client_mutation_id :: "string option"

datatype prepared_message = Existing_Message message | Volatile_Fast message | Prepared_Draft message_draft

definition max_batch_messages :: nat where
  "max_batch_messages = 10000"

text \<open>The checks of all items come first; an id may occur once in a batch.\<close>

fun normalize_items ::
  "'n message_env \<Rightarrow> string list \<Rightarrow> send_messages_item list \<Rightarrow> api_error + (send_messages_item \<times> string option) list" where
  "normalize_items env seen [] = Inr []"
| "normalize_items env seen (item # items) =
     (if trim (si_body item) = [] then Inl (BadRequest ''message body cannot be empty'')
      else
        res_bind (ensure_bytes_limit ''message body'' (length (si_body item)) (me_max_message_bytes env)) (\<lambda>_.
        res_bind (normalize_client_mutation_id (si_client_mutation_id item)) (\<lambda>mutation_id.
          case mutation_id of
            None \<Rightarrow> res_bind (normalize_items env seen items) (\<lambda>rest. Inr ((item, None) # rest))
          | Some i \<Rightarrow>
              if i \<in> set seen then Inl (BadRequest ''duplicate clientMutationId in sendMessages batch'')
              else res_bind (normalize_items env (i # seen) items) (\<lambda>rest. Inr ((item, Some i) # rest)))))"

fun prepare_messages ::
  "('n, 'y) number_ops_scheme \<Rightarrow> 'n message_env \<Rightarrow> database_schema \<Rightarrow> 'n mutation_index \<Rightarrow> string \<Rightarrow> string \<Rightarrow>
     durability \<Rightarrow> nat \<Rightarrow> (send_messages_item \<times> string option) list \<Rightarrow> api_error + prepared_message list" where
  "prepare_messages ops env s mutations room_id user_id dur i [] = Inr []"
| "prepare_messages ops env s mutations room_id user_id dur i ((item, mutation_id) # items) =
     res_bind
       (case (if dur = Volatile then None else find_committed_mutation mutations mutation_id) of
          Some m \<Rightarrow> res_bind (recorded_message m) (\<lambda>msg. Inr (Existing_Message msg))
        | None \<Rightarrow>
            if dur = Volatile \<and> si_attachments item = []
            then Inr (Volatile_Fast (message_of_draft
                   (message_draft_of env i dur room_id user_id (si_body item) mutation_id []) 0))
            else
              res_bind (resolve_object_refs (me_request env) [] (si_attachments item)) (\<lambda>refs.
                let d = message_draft_of env i dur room_id user_id (si_body item) mutation_id refs in
                res_bind (map_err BadRequest (validate_message_draft ops s d)) (\<lambda>_. Inr (Prepared_Draft d))))
       (\<lambda>p. res_bind (prepare_messages ops env s mutations room_id user_id dur (i + 1) items) (\<lambda>ps. Inr (p # ps)))"

fun volatile_message :: "prepared_message \<Rightarrow> message" where
  "volatile_message (Existing_Message m) = m"
| "volatile_message (Volatile_Fast m) = m"
| "volatile_message (Prepared_Draft d) = message_of_draft d 0"

fun drafts_of :: "prepared_message list \<Rightarrow> message_draft list" where
  "drafts_of [] = []"
| "drafts_of (Prepared_Draft d # ps) = d # drafts_of ps"
| "drafts_of (_ # ps) = drafts_of ps"

text \<open>The answer in the order of the items, the committed messages in the places of their drafts.\<close>

fun batch_output :: "prepared_message list \<Rightarrow> message list \<Rightarrow> message list" where
  "batch_output [] ms = []"
| "batch_output (Prepared_Draft _ # ps) (m # ms) = m # batch_output ps ms"
| "batch_output (Prepared_Draft _ # ps) [] = batch_output ps []"
| "batch_output (Existing_Message m # ps) ms = m # batch_output ps ms"
| "batch_output (Volatile_Fast m # ps) ms = m # batch_output ps ms"

fun messages_from_records :: "('n, 's, 'g) wal_record list \<Rightarrow> api_error + message list" where
  "messages_from_records [] = Inr []"
| "messages_from_records (w # ws) =
     res_bind (message_from_wal_record w) (\<lambda>m. res_bind (messages_from_records ws) (\<lambda>ms. Inr (m # ms)))"

definition append_messages ::
  "'n request_env \<Rightarrow> durability \<Rightarrow> string \<Rightarrow> message_draft list \<Rightarrow> ('n, 's, 'g, message list) message_handler" where
  "append_messages env dur room_id ds =
     mn_on_server
       (sv_bind (sv_lift (en_accepting env)) (\<lambda>_.
        sv_bind (sv_lift (en_shard_of_key env room_id)) (\<lambda>shard.
        sv_bind (sv_lift (en_not_frozen env shard)) (\<lambda>_.
        sv_bind (append_ordered_wal_records env shard dur (map MessageCreated ds)) (\<lambda>ws.
          sv_lift (messages_from_records ws))))))"

definition publish_messages ::
  "('z) chat_ops_scheme \<Rightarrow> 'n message_env \<Rightarrow> string \<Rightarrow> message list \<Rightarrow> ('n, 's, 'g) message_node \<Rightarrow>
     ('n, 's, 'g) message_node" where
  "publish_messages cops env room_id ms nd =
     mn_publish (map (EvMessageCreated room_id) ms)
       (nd\<lparr>mn_chat := chat_append_many cops ms (mn_chat nd),
          mn_runtime := apply_messages (en_sha256 (me_request env)) (en_now (me_request env)) ms (mn_runtime nd),
          mn_server := (mn_server nd)\<lparr>sv_refs := retain_messages ms (sv_refs (mn_server nd))\<rparr>\<rparr>)"

definition send_messages ::
  "('n, 'y) number_ops_scheme \<Rightarrow> ('z) chat_ops_scheme \<Rightarrow> 'n message_env \<Rightarrow> string \<Rightarrow> string \<Rightarrow>
     send_messages_item list \<Rightarrow> durability \<Rightarrow> ('n, 's, 'g, message list) message_handler" where
  "send_messages ops cops env room_id user_id items dur =
     (let env' = me_request env in
      mn_bind (mn_lift (en_accepting env')) (\<lambda>_.
      mn_bind (mn_lift (if items = [] then Inl (BadRequest ''messages cannot be empty'')
        else if max_batch_messages < length items
        then Inl (BadRequest (''messages exceeds batch limit: '' @ decimal (length items) @ '' > '' @
               decimal max_batch_messages))
        else Inr ())) (\<lambda>_.
      mn_bind (mn_lift (normalize_items env [] items)) (\<lambda>normalized nd.
      mn_bind (mn_lift (prepare_messages ops env (sv_schema (mn_server nd)) (sv_mutations (mn_server nd))
          room_id user_id dur 0 normalized)) (\<lambda>prepared nd.
        if dur = Volatile then
          let ms = map volatile_message prepared
          in (Inr ms, mn_publish (map (EvMessageCreated room_id) ms)
                (nd\<lparr>mn_runtime := apply_messages (en_sha256 env') (en_now env') ms (mn_runtime nd)\<rparr>))
        else if drafts_of prepared = [] then (Inr (batch_output prepared []), nd)
        else
          mn_bind (append_messages env' dur room_id (drafts_of prepared)) (\<lambda>committed nd.
            (Inr (batch_output prepared committed), publish_messages cops env room_id committed nd)) nd) nd))))"

section \<open>Reading messages\<close>

datatype message_source = Live_Source | Chat_Log_Source | Missing_Source

record messages_response =
  mr_room_id :: string
  mr_source :: message_source
  mr_messages :: "message list"

text \<open>The room first, then the chat log, each id once, until the page is full.\<close>

fun merge_page :: "nat \<Rightarrow> string list \<Rightarrow> message list \<Rightarrow> message list \<Rightarrow> message list" where
  "merge_page limit seen page [] = page"
| "merge_page limit seen page (m # ms) =
     (if msg_id m \<in> set seen then merge_page limit seen page ms
      else if limit \<le> length (page @ [m]) then page @ [m]
      else merge_page limit (msg_id m # seen) (page @ [m]) ms)"

definition read_latest_messages ::
  "('z) chat_ops_scheme \<Rightarrow> 'n message_env \<Rightarrow> string \<Rightarrow> nat option \<Rightarrow> u64 option \<Rightarrow>
     ('n, 's, 'g, messages_response) message_handler" where
  "read_latest_messages cops env room_id given_limit before_lsn nd =
     (let digest = en_sha256 (me_request env); now = en_now (me_request env); limit = normalize_limit given_limit;
          (hot, rt) = latest_messages digest now room_id before_lsn limit (mn_runtime nd); nd1 = nd\<lparr>mn_runtime := rt\<rparr>
      in if limit \<le> length hot
         then (Inr \<lparr>mr_room_id = room_id, mr_source = Live_Source, mr_messages = hot\<rparr>, nd1)
         else
           let (found, c) = chat_latest cops room_id before_lsn limit (mn_chat nd1); nd2 = nd1\<lparr>mn_chat := c\<rparr>
           in case found of
                None \<Rightarrow> (Inl InternalError, nd2)
              | Some ms \<Rightarrow>
                  let page = (if hot = [] then ms else merge_page limit [] [] (hot @ ms))
                  in (Inr \<lparr>mr_room_id = room_id, mr_source = (if hot = [] then Chat_Log_Source else Live_Source),
                           mr_messages = page\<rparr>,
                      nd2\<lparr>mn_runtime := apply_messages digest now page (mn_runtime nd2)\<rparr>))"

section \<open>Rooms on request\<close>

record room_activation_response =
  ra_room_id :: string
  ra_requested :: nat
  ra_found :: nat
  ra_activated :: bool
  ra_evicted :: bool
  ra_before_room_count :: nat
  ra_after_room_count :: nat
  ra_source :: message_source

definition activate_runtime_room ::
  "('z) chat_ops_scheme \<Rightarrow> 'n message_env \<Rightarrow> string \<Rightarrow> nat option \<Rightarrow>
     ('n, 's, 'g, room_activation_response) message_handler" where
  "activate_runtime_room cops env given_room_id given_limit nd =
     (let digest = en_sha256 (me_request env); now = en_now (me_request env); room_id = trim given_room_id in
      if room_id = [] then (Inl (BadRequest ''roomId is required''), nd)
      else
        let rt = mn_runtime nd;
            requested = normalize_limit
              (case given_limit of None \<Rightarrow> Some (ac_hot_window (rt_config rt)) | Some n \<Rightarrow> Some n);
            before = rt_resident rt; was_active = has_room digest room_id rt;
            (found, c) = chat_latest cops room_id None requested (mn_chat nd); nd1 = nd\<lparr>mn_chat := c\<rparr>
        in case found of
             None \<Rightarrow> (Inl InternalError, nd1)
           | Some ms \<Rightarrow>
               let rt1 = apply_messages digest now ms rt; after = rt_resident rt1;
                   activated = (\<not> was_active \<and> has_room digest room_id rt1)
               in (Inr \<lparr>ra_room_id = room_id, ra_requested = requested, ra_found = length ms,
                        ra_activated = activated, ra_evicted = (after < before + (if activated then 1 else 0)),
                        ra_before_room_count = before, ra_after_room_count = after,
                        ra_source = (if ms = [] then Missing_Source else Chat_Log_Source)\<rparr>,
                   nd1\<lparr>mn_runtime := rt1\<rparr>))"

definition evict_runtime_room ::
  "'n message_env \<Rightarrow> string \<Rightarrow> ('n, 's, 'g, room_activation_response) message_handler" where
  "evict_runtime_room env given_room_id nd =
     (let room_id = trim given_room_id in
      if room_id = [] then (Inl (BadRequest ''roomId is required''), nd)
      else
        let (evicted, rt1) = evict_room (en_sha256 (me_request env)) room_id (mn_runtime nd)
        in (Inr \<lparr>ra_room_id = room_id, ra_requested = 1, ra_found = (if evicted then 1 else 0),
                 ra_activated = False, ra_evicted = evicted, ra_before_room_count = rt_resident (mn_runtime nd),
                 ra_after_room_count = rt_resident rt1,
                 ra_source = (if evicted then Live_Source else Missing_Source)\<rparr>,
            nd\<lparr>mn_runtime := rt1\<rparr>))"

section \<open>Users and their events\<close>

definition append_user_record ::
  "'n request_env \<Rightarrow> string \<Rightarrow> durability \<Rightarrow> ('n, 's, 'g) wal_payload \<Rightarrow>
     ('n, 's, 'g, ('n, 's, 'g) wal_record) message_handler" where
  "append_user_record env user_id dur payload =
     mn_bind (mn_on_server
       (sv_bind (sv_lift (en_shard_of_key env user_id)) (\<lambda>shard.
        sv_bind (sv_lift (en_not_frozen env shard)) (\<lambda>_. append_ordered_wal_record env shard dur payload))))
       (\<lambda>w nd. (Inr w, nd\<lparr>mn_users := users_apply_wal_record w (mn_users nd)\<rparr>))"

record 'n upsert_user_request =
  uu_display_name :: "string option"
  uu_metadata :: "'n json"
  uu_client_mutation_id :: "string option"

definition recorded_user :: "'n committed_mutation \<Rightarrow> api_error + 'n user_profile" where
  "recorded_user m = (case m of CmUserUpserted u \<Rightarrow> Inr u | _ \<Rightarrow> Inl mutation_kind_conflict)"

definition user_draft ::
  "u64 \<Rightarrow> 'n user_store \<Rightarrow> string \<Rightarrow> string option \<Rightarrow> 'n upsert_user_request \<Rightarrow> 'n user_profile_draft" where
  "user_draft now us user_id mutation_id request =
     \<lparr>upd_user_id = user_id, upd_client_mutation_id = mutation_id,
      upd_display_name = Option.bind (map_option trim (uu_display_name request))
        (\<lambda>name. if name = [] then None else Some name),
      upd_metadata = (if uu_metadata request = JNull then JObject [] else uu_metadata request),
      upd_created_at_ms = (case get_user user_id us of None \<Rightarrow> now | Some u \<Rightarrow> up_created_at_ms u),
      upd_updated_at_ms = now, upd_path = ''users/'' @ user_id\<rparr>"

definition upsert_user ::
  "'n message_env \<Rightarrow> string \<Rightarrow> 'n upsert_user_request \<Rightarrow> ('n, 's, 'g, 'n user_profile) message_handler" where
  "upsert_user env user_id request =
     (let env' = me_request env in
      mn_bind (mn_lift (en_accepting env')) (\<lambda>_.
      mn_bind (mn_lift (if ensure_safe_user_id user_id then Inr () else Inl (BadRequest ''invalid userId''))) (\<lambda>_.
      mn_bind (mn_lift (me_user_authorized env user_id)) (\<lambda>_.
      mn_bind (mn_lift (normalize_client_mutation_id (uu_client_mutation_id request))) (\<lambda>mutation_id nd.
        case find_committed_mutation (sv_mutations (mn_server nd)) mutation_id of
          Some m \<Rightarrow> (recorded_user m, nd)
        | None \<Rightarrow>
            let d = user_draft (en_now env') (mn_users nd) user_id mutation_id request in
            mn_bind (mn_lift (en_accepting env')) (\<lambda>_.
            mn_bind (append_user_record env' user_id Strict (UserUpserted d)) (\<lambda>w nd.
              let u = profile_of_draft d (wr_lsn w)
              in (Inr u, mn_publish [EvUserUpserted user_id u] nd))) nd)))))"

definition recorded_event :: "'n committed_mutation \<Rightarrow> api_error + 'n user_event" where
  "recorded_event m = (case m of CmUserEventPublished e \<Rightarrow> Inr e | _ \<Rightarrow> Inl mutation_kind_conflict)"

definition validate_event_payload_object_refs ::
  "('n, 'y) number_ops_scheme \<Rightarrow> 'n request_env \<Rightarrow> database_schema \<Rightarrow> string \<Rightarrow> 'n json \<Rightarrow> api_error + unit" where
  "validate_event_payload_object_refs ops env s event_name v =
     (case bt_get (db_events s) event_name of
        None \<Rightarrow> Inr ()
      | Some payload \<Rightarrow>
          res_bind (collect_refs_from_type ops (''events.'' @ event_name @ ''.payload'') (fs_type payload) v)
            (validate_declared_object_refs_exist env))"

definition check_event ::
  "('n, 'y) number_ops_scheme \<Rightarrow> 'n message_env \<Rightarrow> string \<Rightarrow> string \<Rightarrow> 'n json \<Rightarrow> ('n, 's, 'g, unit) message_handler"
where
  "check_event ops env label name payload nd =
     (res_bind (ensure_bytes_limit label (en_json_bytes (me_request env) payload) (me_max_user_event_bytes env)) (\<lambda>_.
      res_bind (map_err BadRequest (validate_event_payload ops (sv_schema (mn_server nd)) name payload)) (\<lambda>_.
        validate_event_payload_object_refs ops (me_request env) (sv_schema (mn_server nd)) name payload)), nd)"

definition publish_user_event ::
  "('n, 'y) number_ops_scheme \<Rightarrow> 'n message_env \<Rightarrow> string \<Rightarrow> string \<Rightarrow> 'n json \<Rightarrow> durability \<Rightarrow> string option \<Rightarrow>
     ('n, 's, 'g, 'n user_event) message_handler" where
  "publish_user_event ops env user_id name payload dur given_mutation_id =
     (let env' = me_request env in
      mn_bind (mn_lift (en_accepting env')) (\<lambda>_.
      mn_bind (mn_lift (if trim user_id = [] then Inl (BadRequest ''userId is required'')
        else if trim name = [] then Inl (BadRequest ''name is required'')
        else if dur = Volatile
        then Inl (BadRequest ''publishUserEvent cannot be volatile; use publishUserVolatile for lossy events'')
        else Inr ())) (\<lambda>_.
      mn_bind (check_event ops env ''user event payload'' name payload) (\<lambda>_.
      mn_bind (mn_lift (normalize_client_mutation_id given_mutation_id)) (\<lambda>mutation_id nd.
        case find_committed_mutation (sv_mutations (mn_server nd)) mutation_id of
          Some m \<Rightarrow> (recorded_event m, nd)
        | None \<Rightarrow>
            let d = \<lparr>ued_id = me_uuid env 0, ued_client_mutation_id = mutation_id, ued_user_id = user_id,
                     ued_name = name, ued_payload = payload, ued_created_at_ms = en_now env',
                     ued_path = ''users/'' @ user_id @ ''/events/'' @ me_uuid env 0\<rparr> in
            mn_bind (mn_lift (en_accepting env')) (\<lambda>_.
            mn_bind (append_user_record env' user_id dur (UserEventPublished d)) (\<lambda>w nd.
              let e = event_of_draft d (wr_lsn w)
              in (Inr e, mn_publish [EvUserEvent user_id e] nd))) nd)))))"

section \<open>The mutation request\<close>

datatype 'n mutate_request =
    Send_Message string string string "string list" durability "string option"
  | Send_Messages string string "send_messages_item list" durability
  | Publish_Volatile string string "'n json"
  | Publish_User_Volatile string string "'n json"
  | Publish_User_Event string string "'n json" durability "string option"

datatype 'n mutate_response =
    Message_Created message
  | Messages_Created "message list"
  | User_Event_Published "'n user_event"
  | Volatile_Published nat

definition mn_map :: "('a \<Rightarrow> 'b) \<Rightarrow> ('n, 's, 'g, 'a) message_handler \<Rightarrow> ('n, 's, 'g, 'b) message_handler" where
  "mn_map f m = mn_bind m (\<lambda>x nd. (Inr (f x), nd))"

definition publish_volatile_user_event ::
  "('n, 'y) number_ops_scheme \<Rightarrow> 'n message_env \<Rightarrow> string \<Rightarrow> string \<Rightarrow> 'n json \<Rightarrow> ('n, 's, 'g, nat) message_handler"
where
  "publish_volatile_user_event ops env user_id name payload =
     mn_bind (check_event ops env ''volatile user event payload'' name payload) (\<lambda>_ nd.
       (Inr (me_user_connections env user_id), mn_publish [EvVolatileUserEvent user_id name payload None] nd))"

fun mutate_request_handler ::
  "('n, 'y) number_ops_scheme \<Rightarrow> ('z) chat_ops_scheme \<Rightarrow> 'n message_env \<Rightarrow> 'n mutate_request \<Rightarrow>
     ('n, 's, 'g, 'n mutate_response) message_handler" where
  "mutate_request_handler ops cops env (Send_Message room_id user_id body attachments dur mutation_id) =
     mn_bind (mn_lift (me_user_authorized env user_id)) (\<lambda>_.
       mn_map Message_Created (send_message ops cops env room_id user_id body attachments dur mutation_id))"
| "mutate_request_handler ops cops env (Send_Messages room_id user_id items dur) =
     mn_bind (mn_lift (me_user_authorized env user_id)) (\<lambda>_.
       mn_map Messages_Created (send_messages ops cops env room_id user_id items dur))"
| "mutate_request_handler ops cops env (Publish_Volatile room_id name payload) =
     mn_bind (mn_lift (me_client_authorized env)) (\<lambda>_.
     mn_bind (mn_lift (if trim room_id = [] then Inl (BadRequest ''roomId is required'') else Inr ())) (\<lambda>_.
     mn_bind (check_event ops env ''volatile room event payload'' name payload) (\<lambda>_ nd.
       (Inr (Volatile_Published (me_room_subscribers env room_id)),
        mn_publish [EvVolatileRoomEvent room_id name payload] nd))))"
| "mutate_request_handler ops cops env (Publish_User_Volatile user_id name payload) =
     mn_bind (mn_lift (me_user_authorized env user_id)) (\<lambda>_.
       mn_map Volatile_Published (publish_volatile_user_event ops env user_id name payload))"
| "mutate_request_handler ops cops env (Publish_User_Event user_id name payload dur mutation_id) =
     mn_bind (mn_lift (me_user_authorized env user_id)) (\<lambda>_.
       mn_map User_Event_Published (publish_user_event ops env user_id name payload dur mutation_id))"

definition mutate ::
  "('n, 'y) number_ops_scheme \<Rightarrow> ('z) chat_ops_scheme \<Rightarrow> 'n message_env \<Rightarrow> 'n mutate_request \<Rightarrow>
     ('n, 's, 'g, 'n mutate_response) message_handler" where
  "mutate ops cops env request =
     mn_bind (mn_lift (en_accepting (me_request env))) (\<lambda>_. mutate_request_handler ops cops env request)"

section \<open>A start\<close>

definition messages_started ::
  "('z) chat_ops_scheme \<Rightarrow> ('n, 's, 'g) server \<Rightarrow> 'n runtime \<Rightarrow> chat_log \<Rightarrow> ('n, 's, 'g) message_node" where
  "messages_started cops sv rt c =
     \<lparr>mn_server = sv, mn_runtime = rt,
      mn_chat = chat_rebuild_from_messages cops (messages_from_wal_records (sv_wal sv)) (chat_reopen c),
      mn_users = users_from_wal_records (sv_wal sv)\<rparr>"

end
