(* ===== verification/Message_Rooms.thy ===== *)
theory Message_Rooms
  imports Message_Server Actor_Residency
begin

text \<open>
  What the runtime holds of one room: evictions leave the messages of a room or drop the room, and
  an apply changes the room of its messages only.
\<close>

section \<open>The messages of a room in memory\<close>

definition room_held :: "actor_id \<Rightarrow> 'n actor_map \<Rightarrow> message list option" where
  "room_held a m = (case bt_get m a of Some (Room_Actor r) \<Rightarrow> Some (room_messages r) | _ \<Rightarrow> None)"

definition room_in_memory :: "(bytes \<Rightarrow> bytes) \<Rightarrow> string \<Rightarrow> 'n runtime \<Rightarrow> message list option" where
  "room_in_memory digest room rt =
     room_held (room_id_of room) (rt_shards rt ! shard_index_of digest (room_id_of room) rt)"

text \<open>Only evictions: every actor stays as it is or goes.\<close>

definition shrunk :: "'n runtime \<Rightarrow> 'n runtime \<Rightarrow> bool" where
  "shrunk rt rt' \<longleftrightarrow>
     length (rt_shards rt') = length (rt_shards rt) \<and> rt_config rt' = rt_config rt
     \<and> (\<forall>i a. i < length (rt_shards rt) \<longrightarrow>
          bt_get (rt_shards rt' ! i) a = bt_get (rt_shards rt ! i) a \<or> bt_get (rt_shards rt' ! i) a = None)"

lemma shrunk_get:
  "shrunk rt rt' \<Longrightarrow> i < length (rt_shards rt) \<Longrightarrow>
     bt_get (rt_shards rt' ! i) a = bt_get (rt_shards rt ! i) a \<or> bt_get (rt_shards rt' ! i) a = None"
  unfolding shrunk_def by simp

lemma shrunk_refl [simp, intro]: "shrunk rt rt"
  by (simp add: shrunk_def)

lemma shrunk_trans [trans]: "shrunk rt rt1 \<Longrightarrow> shrunk rt1 rt2 \<Longrightarrow> shrunk rt rt2"
  unfolding shrunk_def by metis

lemma shrunk_updates [simp]:
  "shrunk rt (rt'\<lparr>rt_resident := n\<rparr>) = shrunk rt rt'" "shrunk rt (rt'\<lparr>rt_idle_status := st\<rparr>) = shrunk rt rt'"
  "shrunk (rt\<lparr>rt_resident := n\<rparr>) rt' = shrunk rt rt'"
  by (simp_all add: shrunk_def)

lemma index_same: "length (rt_shards rt') = length (rt_shards rt) \<Longrightarrow> shard_index_of digest a rt' = shard_index_of digest a rt"
  by (simp add: shard_index_of_def)

lemma shrunk_room:
  assumes "shrunk rt rt'" "rt_shards rt \<noteq> []"
  shows "room_in_memory digest room rt' = room_in_memory digest room rt \<or> room_in_memory digest room rt' = None"
proof -
  let ?a = "room_id_of room"
  have i: "shard_index_of digest ?a rt' = shard_index_of digest ?a rt"
    using assms(1) by (intro index_same) (simp add: shrunk_def)
  have "bt_get (rt_shards rt' ! shard_index_of digest ?a rt) ?a = bt_get (rt_shards rt ! shard_index_of digest ?a rt) ?a
      \<or> bt_get (rt_shards rt' ! shard_index_of digest ?a rt) ?a = None"
    using shrunk_get [OF assms(1) shard_index_bound [OF assms(2)]] .
  then show ?thesis unfolding room_in_memory_def room_held_def i by (elim disjE) simp_all
qed

lemma on_shard_shrunk:
  assumes "\<And>s a. bt_get (sh_actors (snd (f s))) a = bt_get (sh_actors s) a \<or> bt_get (sh_actors (snd (f s))) a = None"
  shows "shrunk rt (snd (on_shard i f rt))"
proof -
  obtain x s' where f: "f \<lparr>sh_seq = rt_seq rt, sh_actors = rt_shards rt ! i\<rparr> = (x, s')" by fastforce
  have "bt_get (sh_actors s') a = bt_get (rt_shards rt ! i) a \<or> bt_get (sh_actors s') a = None" for a
    using assms [of "\<lparr>sh_seq = rt_seq rt, sh_actors = rt_shards rt ! i\<rparr>" a] f by simp
  then have "bt_get ((rt_shards rt)[i := sh_actors s'] ! j) a = bt_get (rt_shards rt ! j) a
      \<or> bt_get ((rt_shards rt)[i := sh_actors s'] ! j) a = None" if "j < length (rt_shards rt)" for j a
    using that by (cases "i = j") simp_all
  then show ?thesis by (simp add: shrunk_def on_shard_def f)
qed

lemma each_shard_shrunk:
  assumes "\<And>i x rt. shrunk rt (snd (f i x rt))"
  shows "shrunk rt (snd (each_shard f is x rt))"
proof (induction "is" arbitrary: x rt)
  case (Cons i "is")
  obtain x1 rt1 where f: "f i x rt = (x1, rt1)" by fastforce
  then have "shrunk rt rt1" using assms [of rt i x] by simp
  also have "shrunk rt1 (snd (each_shard f is x1 rt1))" by (rule Cons.IH)
  finally show ?case by (simp add: f)
qed simp

lemma shard_evict_rooms_get:
  "bt_get (sh_actors (snd (shard_evict_rooms ids (n, s)))) a
    = (if a \<in> set ids then None else bt_get (sh_actors s) a)"
  by (induction ids arbitrary: n s) (auto simp: shard_evict_room_def)

lemma evict_rooms_of_shrunk: "shrunk rt (snd (evict_rooms_of i ids n rt))"
proof -
  have "shrunk rt (snd (on_shard i (\<lambda>s. shard_evict_rooms ids (0, s)) rt))"
    by (rule on_shard_shrunk) (simp add: shard_evict_rooms_get)
  then show ?thesis by (simp add: evict_rooms_of_def case_prod_beta)
qed

lemma evict_lru_shrunk: "shrunk rt (snd (evict_lru_sharded_rooms n rt))"
  by (auto simp: evict_lru_sharded_rooms_def Let_def intro!: each_shard_shrunk evict_rooms_of_shrunk)

lemma enforce_capacity_shrunk: "shrunk rt (enforce_capacity n rt)"
  using evict_lru_shrunk [of rt n]
  by (simp add: enforce_capacity_def decrement_resident_rooms_def case_prod_beta)

lemma evict_idle_shrunk: "shrunk rt (snd (evict_idle_rooms now rt))"
proof -
  have step: "shrunk rt (snd (let (n, rt1) = on_shard i (shard_evict_idle ttl now) rt in (x + n, rt1)))"
    for i ttl x and rt :: "'n runtime"
  proof -
    have "shrunk rt (snd (on_shard i (shard_evict_idle ttl now) rt))"
      by (rule on_shard_shrunk) (auto simp: shard_evict_idle_def Let_def bt_get_retain split: option.split)
    then show ?thesis by (simp add: case_prod_beta)
  qed
  have "shrunk rt (snd (evict_idle_sharded_rooms ttl now rt))" for ttl
  proof (cases "ttl = 0")
    case False
    have "shrunk rt (snd (each_shard (\<lambda>i evicted rt.
        let (n, rt1) = on_shard i (shard_evict_idle ttl now) rt in (evicted + n, rt1)) (all_shards rt) 0 rt))"
      by (rule each_shard_shrunk) (rule step)
    then show ?thesis using False by (simp add: evict_idle_sharded_rooms_def)
  qed (simp add: evict_idle_sharded_rooms_def)
  then show ?thesis
    by (simp add: evict_idle_rooms_def decrement_resident_rooms_def Let_def case_prod_beta)
qed

lemma evict_room_shrunk: "shrunk rt (snd (evict_room digest room rt))"
proof -
  have "shrunk rt (snd (shard_for_actor digest a (shard_evict_room a) rt))" for a
    unfolding shard_for_actor_def by (rule on_shard_shrunk) (simp add: shard_evict_room_def)
  then show ?thesis
    by (simp add: evict_room_def decrement_resident_rooms_def Let_def case_prod_beta)
qed

lemma has_room_memory:
  assumes "rt_fits w rt"
  shows "has_room digest room rt \<longleftrightarrow> room_in_memory digest room rt \<noteq> None"
proof -
  let ?a = "room_id_of room"
  have "rt_shards rt \<noteq> []" using assms by (simp add: rt_fits_def)
  then have fits: "map_fits w (rt_shards rt ! shard_index_of digest ?a rt)"
    using assms shard_fits shard_index_bound by blast
  show ?thesis
  proof (cases "bt_get (rt_shards rt ! shard_index_of digest ?a rt) ?a")
    case (Some actor)
    then have "actor_fits w ?a actor" by (rule map_fitsD [OF fits])
    then have "\<exists>r. actor = Room_Actor r" by (cases actor) (auto simp: room_id_of_def)
    then show ?thesis using Some by (auto simp: has_room_def room_in_memory_def room_held_def bt_contains_def)
  qed (simp add: has_room_def room_in_memory_def room_held_def bt_contains_def)
qed

section \<open>An apply to one room\<close>

definition room_after :: "nat \<Rightarrow> message list \<Rightarrow> message list \<Rightarrow> message list" where
  "room_after w held ms =
     (let all = (if can_append_in_order held ms then held @ ms else sort_by compare_message_order (held @ ms))
      in drop (length all - w) all)"

lemma room_apply_after:
  "ms \<noteq> [] \<Longrightarrow> room_messages (fst (room_apply_messages now seq w ms r)) = room_after w (room_messages r) ms"
  by (simp add: room_apply_messages_def room_after_def truncate_to_def room_touch_def Let_def split: prod.split)

lemma shard_apply_one:
  assumes "map_fits w (sh_actors s)" "aid_kind a = RoomKind" "ms \<noteq> []"
    "shard_apply_messages now w [(a, ms)] (0, s) = (n, s')"
  shows "room_held a (sh_actors s') = Some (room_after w (case room_held a (sh_actors s) of None \<Rightarrow> [] | Some h \<Rightarrow> h) ms)"
    "b \<noteq> a \<Longrightarrow> bt_get (sh_actors s') b = bt_get (sh_actors s) b"
proof -
  obtain actor s1 where e: "ensure_actor now a s = (actor, s1)" by fastforce
  have actor: "\<exists>r. actor = Room_Actor r \<and> room_messages r = (case room_held a (sh_actors s) of None \<Rightarrow> [] | Some h \<Rightarrow> h)
      \<and> bt_get (sh_actors s1) a = Some actor"
  proof (cases "bt_get (sh_actors s) a")
    case None
    then show ?thesis
      using e assms(2) by (auto simp: ensure_actor_def actor_new_def room_held_def Let_def split: actor_id.splits)
  next
    case (Some x)
    then have "actor_fits w a x" by (rule map_fitsD [OF assms(1)])
    then have "\<exists>r. x = Room_Actor r" using assms(2) by (cases x) auto
    then show ?thesis using e Some by (auto simp: ensure_actor_def room_held_def)
  qed
  then obtain r where r: "actor = Room_Actor r"
    "room_messages r = (case room_held a (sh_actors s) of None \<Rightarrow> [] | Some h \<Rightarrow> h)" by blast
  obtain r1 seq1 where ap: "room_apply_messages now (sh_seq s1) w ms r = (r1, seq1)" by fastforce
  have s': "s' = put_actor a (Room_Actor r1, seq1) s1" using assms(4) by (simp add: e r(1) ap Let_def)
  show "room_held a (sh_actors s') = Some (room_after w (case room_held a (sh_actors s) of None \<Rightarrow> [] | Some h \<Rightarrow> h) ms)"
    using room_apply_after [OF assms(3), of now "sh_seq s1" w r] ap r(2) by (simp add: s' put_actor_def room_held_def)
  show "b \<noteq> a \<Longrightarrow> bt_get (sh_actors s') b = bt_get (sh_actors s) b"
    using e by (auto simp: s' put_actor_def ensure_actor_def Let_def split: option.splits)
qed

lemma push_one_room:
  assumes "\<forall>m\<in>set ms. msg_room_id m = room" "a = room_id_of room"
  shows "fold (\<lambda>m. bt_push (room_id_of (msg_room_id m)) m) ms (bt_insert a xs bt_empty) = bt_insert a (xs @ ms) bt_empty"
  using assms(1)
proof (induction ms arbitrary: xs)
  case (Cons m ms)
  have "bt_push a m (bt_insert a xs bt_empty) = bt_insert a (xs @ [m]) bt_empty"
    by (rule bt_eqI) (simp add: bt_push_def bt_get_or_def)
  then show ?case using Cons assms(2) by simp
qed simp

lemma apply_messages_one_room:
  assumes "ms \<noteq> []" "\<forall>m\<in>set ms. msg_room_id m = room"
  shows "apply_messages digest now ms rt =
    (let a = room_id_of room;
         (n, rt1) = shard_for_actor digest a (\<lambda>s. shard_apply_messages now (ac_hot_window (rt_config rt)) [(a, ms)] (0, s)) rt
     in enforce_capacity (ac_max_hot_rooms (rt_config rt)) (rt1\<lparr>rt_resident := rt_resident rt1 + n\<rparr>))"
proof -
  obtain m rest where ms: "ms = m # rest" using assms(1) by (cases ms) auto
  have "bt_push a m bt_empty = bt_insert a [m] bt_empty" for a :: actor_id
    by (rule bt_eqI) (simp add: bt_push_def bt_get_or_def)
  then have batches: "room_batches ms = [(room_id_of room, ms)]"
    using assms(2) push_one_room [of rest room "room_id_of room" "[m]"] by (simp add: room_batches_def ms)
  show ?thesis
    using assms(1) by (simp add: apply_messages_def batches Let_def shard_for_actor_def bt_push_def bt_get_or_def
        bt_keys_def split: prod.split)
qed

lemma apply_message_one_room: "apply_message digest now m rt = apply_messages digest now [m] rt"
  by (simp add: apply_message_def apply_messages_one_room [of "[m]" "msg_room_id m"] Let_def)

lemma apply_messages_room:
  assumes "rt_fits (ac_hot_window (rt_config rt)) rt" "ms \<noteq> []" "\<forall>m\<in>set ms. msg_room_id m = room"
  shows "room_in_memory digest room' (apply_messages digest now ms rt) = None
    \<or> room_in_memory digest room' (apply_messages digest now ms rt)
      = (if room' = room then Some (room_after (ac_hot_window (rt_config rt))
            (case room_in_memory digest room rt of None \<Rightarrow> [] | Some h \<Rightarrow> h) ms)
         else room_in_memory digest room' rt)"
    and "rt_config (apply_messages digest now ms rt) = rt_config rt"
proof -
  let ?w = "ac_hot_window (rt_config rt)" and ?a = "room_id_of room"
  let ?i = "shard_index_of digest ?a rt"
  let ?s = "\<lparr>sh_seq = rt_seq rt, sh_actors = rt_shards rt ! ?i\<rparr>"
  have shards: "rt_shards rt \<noteq> []" using assms(1) by (simp add: rt_fits_def)
  then have bound: "?i < length (rt_shards rt)" by (rule shard_index_bound)
  obtain n s' where e: "shard_apply_messages now ?w [(?a, ms)] (0, ?s) = (n, s')" by fastforce
  define rt1 where "rt1 = rt\<lparr>rt_seq := sh_seq s', rt_shards := (rt_shards rt)[?i := sh_actors s'], rt_resident := rt_resident rt + n\<rparr>"
  have rt': "apply_messages digest now ms rt = enforce_capacity (ac_max_hot_rooms (rt_config rt)) rt1"
    by (simp add: apply_messages_one_room [OF assms(2,3)] shard_for_actor_def on_shard_def e rt1_def Let_def
        del: shard_apply_messages.simps)
  have fits: "map_fits ?w (sh_actors ?s)" using shard_fits [OF assms(1) bound] by simp
  note one = shard_apply_one [OF fits _ assms(2) e]
  have rt1: "room_in_memory digest room' rt1 = (if room' = room then Some (room_after ?w
            (case room_in_memory digest room rt of None \<Rightarrow> [] | Some h \<Rightarrow> h) ms)
         else room_in_memory digest room' rt)"
  proof (cases "room' = room")
    case True
    then show ?thesis
      using one(1) bound by (simp add: room_in_memory_def rt1_def shard_index_of_def room_id_of_def)
  next
    case False
    then have "room_id_of room' \<noteq> ?a" by (simp add: room_id_of_def)
    then have "room_held (room_id_of room') (sh_actors s') = room_held (room_id_of room') (sh_actors ?s)"
      using one(2) by (simp add: room_held_def room_id_of_def)
    then show ?thesis
      using False bound by (simp add: room_in_memory_def rt1_def shard_index_of_def nth_list_update)
  qed
  have shr: "shrunk rt1 (apply_messages digest now ms rt)" unfolding rt' by (rule enforce_capacity_shrunk)
  have "rt_shards rt1 \<noteq> []" using shards by (simp add: rt1_def)
  from shrunk_room [OF shr this, of digest room'] rt1
  show "room_in_memory digest room' (apply_messages digest now ms rt) = None
    \<or> room_in_memory digest room' (apply_messages digest now ms rt)
      = (if room' = room then Some (room_after ?w (case room_in_memory digest room rt of None \<Rightarrow> [] | Some h \<Rightarrow> h) ms)
         else room_in_memory digest room' rt)" by metis
  show "rt_config (apply_messages digest now ms rt) = rt_config rt"
    using shr by (simp add: shrunk_def rt1_def)
qed

section \<open>A read of one room\<close>

definition page_of_room :: "u64 option \<Rightarrow> nat \<Rightarrow> message list \<Rightarrow> message list" where
  "page_of_room before_lsn limit held =
     take limit (case before_lsn of
       None \<Rightarrow> rev held | Some b \<Rightarrow> filter (\<lambda>m. msg_lsn m > 0 \<and> msg_lsn m < b) (rev held))"

lemma latest_messages_room:
  assumes "rooms_inv rt" "latest_messages digest now room before_lsn limit rt = (ms, rt')"
  shows "\<exists>held. (held = room_in_memory digest room rt \<or> held = None)
      \<and> (ac_hot_room_idle_ttl_ms (rt_config rt) = 0 \<longrightarrow> held = room_in_memory digest room rt)
      \<and> ms = (case held of None \<Rightarrow> [] | Some h \<Rightarrow> page_of_room before_lsn limit h)
      \<and> room_in_memory digest room rt' = held \<and> rt_config rt' = rt_config rt"
    and "room_in_memory digest room' rt' = room_in_memory digest room' rt \<or> room_in_memory digest room' rt' = None"
proof -
  let ?a = "room_id_of room"
  obtain n rt1 where e: "evict_idle_rooms now rt = (n, rt1)" by fastforce
  have inv: "rooms_inv rt1" and config: "rt_config rt1 = rt_config rt"
    using evict_idle_rooms_inv [OF assms(1), of now] e by simp_all
  then have fits: "rt_fits (ac_hot_window (rt_config rt1)) rt1" by (simp add: rooms_inv_def)
  have shards: "rt_shards rt \<noteq> []" "rt_shards rt1 \<noteq> []" using assms(1) fits by (simp_all add: rooms_inv_def rt_fits_def)
  let ?i = "shard_index_of digest ?a rt1"
  let ?s = "\<lparr>sh_seq = rt_seq rt1, sh_actors = rt_shards rt1 ! ?i\<rparr>"
  have bound: "?i < length (rt_shards rt1)" using shards(2) by (rule shard_index_bound)
  have gone: "room_in_memory digest r rt1 = room_in_memory digest r rt \<or> room_in_memory digest r rt1 = None" for r
    using shrunk_room [OF _ shards(1)] evict_idle_shrunk [of rt now] e by (metis snd_conv)
  have kept: "ac_hot_room_idle_ttl_ms (rt_config rt) = 0 \<Longrightarrow> rt1 = rt" using e by (simp add: evict_idle_rooms_def)
  obtain s' where read: "shard_latest_messages now ?a before_lsn limit ?s = (ms, s')"
    and rt': "rt' = rt1\<lparr>rt_seq := sh_seq s', rt_shards := (rt_shards rt1)[?i := sh_actors s']\<rparr>"
    using assms(2) by (auto simp: latest_messages_def e Let_def shard_for_actor_def on_shard_def split: prod.splits)
  have "ms = (case room_held ?a (sh_actors ?s) of None \<Rightarrow> [] | Some h \<Rightarrow> page_of_room before_lsn limit h)
      \<and> (\<forall>b. room_held b (sh_actors s') = room_held b (sh_actors ?s))"
  proof (cases "\<exists>r. bt_get (sh_actors ?s) ?a = Some (Room_Actor r)")
    case True
    then obtain r where r: "bt_get (sh_actors ?s) ?a = Some (Room_Actor r)" by blast
    define r1 where "r1 = r\<lparr>room_last_accessed_ms := next_access_stamp now (sh_seq ?s)\<rparr>"
    have "shard_latest_messages now ?a before_lsn limit ?s
        = (page_of_room before_lsn limit (room_messages r), put_actor ?a (Room_Actor r1, next_access_stamp now (sh_seq ?s)) ?s)"
      using r by (simp add: shard_latest_messages_def page_of_room_def room_before_def room_latest_def room_touch_def
          r1_def Let_def split: option.split)
    then show ?thesis using read r by (simp add: room_held_def put_actor_def r1_def)
  next
    case False
    then have "shard_latest_messages now ?a before_lsn limit ?s = ([], ?s)" "room_held ?a (sh_actors ?s) = None"
      by (auto simp: shard_latest_messages_def room_held_def split: option.split actor_state.split)
    then show ?thesis using read by simp
  qed
  then have page: "ms = (case room_held ?a (sh_actors ?s) of None \<Rightarrow> [] | Some h \<Rightarrow> page_of_room before_lsn limit h)"
    and same: "\<And>b. room_held b (sh_actors s') = room_held b (sh_actors ?s)" by blast+
  have memory: "room_in_memory digest r rt' = room_in_memory digest r rt1" for r
  proof (cases "shard_index_of digest (room_id_of r) rt1 = ?i")
    case True
    then show ?thesis using same bound by (simp add: room_in_memory_def rt' shard_index_of_def)
  next
    case False
    then show ?thesis using bound by (simp add: room_in_memory_def rt' shard_index_of_def nth_list_update)
  qed
  show "\<exists>held. (held = room_in_memory digest room rt \<or> held = None)
      \<and> (ac_hot_room_idle_ttl_ms (rt_config rt) = 0 \<longrightarrow> held = room_in_memory digest room rt)
      \<and> ms = (case held of None \<Rightarrow> [] | Some h \<Rightarrow> page_of_room before_lsn limit h)
      \<and> room_in_memory digest room rt' = held \<and> rt_config rt' = rt_config rt"
  proof (intro exI [of _ "room_in_memory digest room rt1"] conjI impI)
    show "ms = (case room_in_memory digest room rt1 of None \<Rightarrow> [] | Some h \<Rightarrow> page_of_room before_lsn limit h)"
      using page by (simp add: room_in_memory_def)
    show "rt_config rt' = rt_config rt" by (simp add: rt' config)
  qed (use gone kept memory in auto)
  show "room_in_memory digest room' rt' = room_in_memory digest room' rt \<or> room_in_memory digest room' rt' = None"
    using gone memory by metis
qed

end
