(* ===== verification/Chat_History.thy ===== *)
theory Chat_History
  imports Chat_Log Actor_Rooms
begin

text \<open>
  What the chat log answers. The projection implements a table of messages by room and id, and a
  page of it is the newest messages of the room; the index of a bucket file answers as decoding
  the whole file does.
\<close>

section \<open>The table of messages the projection implements\<close>

type_synonym message_table = "(string \<times> string) \<Rightarrow> message option"

definition chat_recency :: "message \<Rightarrow> u64 \<times> u64 \<times> string" where
  "chat_recency m = (sat_sub (- 1) (msg_lsn m), sat_sub (- 1) (msg_created_at_ms m), msg_id m)"

lemma chat_key_recency: "chat_log_message_key m = recency_key (msg_room_id m) (chat_recency m)"
  by (simp add: chat_log_message_key_def recency_key_def chat_recency_def)

definition message_slot :: "message \<Rightarrow> string \<times> string" where
  "message_slot m = (msg_room_id m, msg_id m)"

definition chat_implements :: "chat_projection \<Rightarrow> message_table \<Rightarrow> bool" where
  "chat_implements p T \<longleftrightarrow>
     (\<forall>slot m. T slot = Some m \<longrightarrow> slot = message_slot m \<and> plain (msg_room_id m))
     \<and> (\<forall>room i. plain room \<longrightarrow>
          bt_get (cp_refs p) (chat_log_ref_key room i) = map_option chat_log_message_key (T (room, i)))
     \<and> (\<forall>k m. bt_get (cp_messages p) k = Some m \<longleftrightarrow> T (message_slot m) = Some m \<and> k = chat_log_message_key m)"

lemma chat_implementsD:
  assumes "chat_implements p T"
  shows "T slot = Some m \<Longrightarrow> slot = message_slot m \<and> plain (msg_room_id m)"
    "plain room \<Longrightarrow> bt_get (cp_refs p) (chat_log_ref_key room i) = map_option chat_log_message_key (T (room, i))"
    "bt_get (cp_messages p) k = Some m \<longleftrightarrow> T (message_slot m) = Some m \<and> k = chat_log_message_key m"
  using assms unfolding chat_implements_def by blast+

lemma chat_implements_empty: "chat_implements empty_chat_projection (\<lambda>_. None)"
  by (simp add: chat_implements_def empty_chat_projection_def)

lemma plain_split:
  assumes "plain a" "plain b" "a @ nul # x = b @ nul # y"
  shows "a = b \<and> x = y"
proof -
  have "split_once nul (a @ nul # x) = Some (a, x)" "split_once nul (b @ nul # y) = Some (b, y)"
    using assms(1,2) by (simp_all add: split_once_Some plain_def)
  then have "(a, x) = (b, y)" using assms(3) by (metis option.inject)
  then show ?thesis by (metis prod.inject)
qed

lemma chat_ref_key_inject:
  "plain a \<Longrightarrow> plain b \<Longrightarrow> chat_log_ref_key a i = chat_log_ref_key b j \<longleftrightarrow> a = b \<and> i = j"
  unfolding chat_log_ref_key_def by (auto dest: plain_split)

lemma recency_key_inject: "recency_key room x = recency_key room y \<longleftrightarrow> x = y"
  by (metis not_less_iff_gr_or_eq recency_key_mono)

lemma chat_key_inject:
  assumes "plain (msg_room_id m)" "plain (msg_room_id n)" "chat_log_message_key m = chat_log_message_key n"
  shows "message_slot m = message_slot n"
proof -
  have "msg_room_id m = msg_room_id n"
    using plain_split [OF assms(1,2)] assms(3) unfolding chat_log_message_key_def by blast
  then show ?thesis
    using assms(3) by (simp add: chat_key_recency recency_key_inject chat_recency_def message_slot_def)
qed

text \<open>One message of a batch, with the key its slot had.\<close>

lemma put_one_implements:
  assumes "chat_implements p T" "plain (msg_room_id m)" "prev = map_option chat_log_message_key (T (message_slot m))"
  shows "chat_implements (put_one (m, prev) p) (T(message_slot m \<mapsto> m))"
proof -
  note I = chat_implementsD [OF assms(1)]
  let ?p = "put_one (m, prev) p"
  have messages: "bt_get (cp_messages ?p) k = (if k = chat_log_message_key m then Some m
      else if prev = Some k then None else bt_get (cp_messages p) k)" for k
    by (auto simp: put_one_def Let_def split: option.split)
  have refs: "bt_get (cp_refs ?p) k = (if k = chat_log_ref_key (msg_room_id m) (msg_id m)
      then Some (chat_log_message_key m) else bt_get (cp_refs p) k)" for k
    by (simp add: put_one_def Let_def)
  show ?thesis
    unfolding chat_implements_def
  proof (intro conjI allI impI iffI)
    fix slot n
    assume "(T(message_slot m \<mapsto> m)) slot = Some n"
    then show "slot = message_slot n" "plain (msg_room_id n)"
      using I(1) assms(2) by (auto split: if_splits)
  next
    fix room i
    assume "plain room"
    then show "bt_get (cp_refs ?p) (chat_log_ref_key room i)
        = map_option chat_log_message_key ((T(message_slot m \<mapsto> m)) (room, i))"
      using I(2) assms(2) by (simp add: refs chat_ref_key_inject message_slot_def)
  next
    fix k n
    assume n: "bt_get (cp_messages ?p) k = Some n"
    have "n = m \<and> k = chat_log_message_key m \<or> message_slot n \<noteq> message_slot m \<and> T (message_slot n) = Some n
        \<and> k = chat_log_message_key n"
    proof (cases "k = chat_log_message_key m")
      case False
      then have "prev \<noteq> Some k" "T (message_slot n) = Some n" "k = chat_log_message_key n"
        using n I(3) by (auto simp: messages split: if_splits)
      moreover from this have "message_slot n \<noteq> message_slot m" using assms(3) by auto
      ultimately show ?thesis by blast
    qed (use n in \<open>simp add: messages\<close>)
    then show "(T(message_slot m \<mapsto> m)) (message_slot n) = Some n" "k = chat_log_message_key n" by auto
  next
    fix k n
    assume n: "(T(message_slot m \<mapsto> m)) (message_slot n) = Some n \<and> k = chat_log_message_key n"
    show "bt_get (cp_messages ?p) k = Some n"
    proof (cases "message_slot n = message_slot m")
      case True
      then have "n = m" "k = chat_log_message_key m" using n by auto
      then show ?thesis by (simp add: messages)
    next
      case False
      then have old: "T (message_slot n) = Some n" "k = chat_log_message_key n" using n by auto
      have "k \<noteq> chat_log_message_key m"
        using chat_key_inject [of n m] I(1) [OF old(1)] assms(2) False old(2) by auto
      moreover have "prev \<noteq> Some k"
      proof
        assume "prev = Some k"
        then obtain o' where o': "T (message_slot m) = Some o'" "k = chat_log_message_key o'" using assms(3) by auto
        then have "message_slot o' = message_slot m" "plain (msg_room_id o')" using I(1) by auto
        then show False using chat_key_inject [of n o'] I(1) [OF old(1)] o'(2) old(2) False by auto
      qed
      ultimately show ?thesis using I(3) old by (simp add: messages)
    qed
  qed
qed

text \<open>A batch with each slot once.\<close>

definition note_messages :: "message list \<Rightarrow> message_table \<Rightarrow> message_table" where
  "note_messages ms T = fold (\<lambda>m T. T(message_slot m \<mapsto> m)) ms T"

lemma put_messages_implements:
  assumes "chat_implements p T" "\<forall>m\<in>set ms. plain (msg_room_id m)" "distinct (map message_slot ms)"
  shows "chat_implements (put_messages ms p) (note_messages ms T)"
proof -
  let ?with = "map (\<lambda>m. (m, bt_get (cp_refs p) (chat_log_ref_key (msg_room_id m) (msg_id m))))"
  have "chat_implements (fold put_one (?with ms) q) (note_messages ms S)"
    if "chat_implements q S" "\<forall>m\<in>set ms. S (message_slot m) = T (message_slot m)" for q S
    using that assms(2,3)
  proof (induction ms arbitrary: q S)
    case (Cons m ms)
    have "bt_get (cp_refs p) (chat_log_ref_key (msg_room_id m) (msg_id m))
        = map_option chat_log_message_key (S (message_slot m))"
      using chat_implementsD(2) [OF assms(1)] Cons.prems by (simp add: message_slot_def)
    with put_one_implements [OF Cons.prems(1), of m] Cons.prems(3)
    have step: "chat_implements (put_one (m, bt_get (cp_refs p) (chat_log_ref_key (msg_room_id m) (msg_id m))) q)
        (S(message_slot m \<mapsto> m))" by simp
    have rest: "\<forall>n\<in>set ms. (S(message_slot m \<mapsto> m)) (message_slot n) = T (message_slot n)"
      using Cons.prems(2,4) by (auto simp: image_iff)
    have "chat_implements (fold put_one (?with ms) (put_one (m, bt_get (cp_refs p)
        (chat_log_ref_key (msg_room_id m) (msg_id m))) q)) (note_messages ms (S(message_slot m \<mapsto> m)))"
      by (rule Cons.IH [OF step rest]) (use Cons.prems in simp_all)
    then show ?case by (simp only: note_messages_def list.map fold_simps)
  qed (simp add: note_messages_def)
  from this [OF assms(1)] show ?thesis by (simp add: put_messages_def)
qed

section \<open>A page is the newest messages\<close>

lemma latest_loop_take:
  assumes "distinct (map msg_id ms)" "msg_id ` set ms \<inter> set seen = {}" "length page < limit"
  shows "latest_loop before_lsn limit seen page ms
    = take limit (page @ filter (\<lambda>m. before_bound before_lsn (msg_lsn m)) ms)"
  using assms
proof (induction ms arbitrary: seen page)
  case (Cons m ms)
  show ?case
  proof (cases "before_bound before_lsn (msg_lsn m)")
    case False
    then show ?thesis using Cons by simp
  next
    case True
    show ?thesis
    proof (cases "limit \<le> length (page @ [m])")
      case True
      then have "limit = Suc (length page)" using Cons.prems(3) by simp
      then show ?thesis using Cons.prems \<open>before_bound before_lsn (msg_lsn m)\<close> by simp
    next
      case False
      have "latest_loop before_lsn limit (msg_id m # seen) (page @ [m]) ms
          = take limit ((page @ [m]) @ filter (\<lambda>m. before_bound before_lsn (msg_lsn m)) ms)"
        using Cons.prems False by (intro Cons.IH) auto
      then show ?thesis using Cons.prems False True by simp
    qed
  qed
qed simp

lemma noted_messages:
  assumes "distinct (map message_slot ms)"
  shows "note_messages ms T slot = (case find (\<lambda>m. message_slot m = slot) ms of Some m \<Rightarrow> Some m | None \<Rightarrow> T slot)"
  using assms
proof (induction ms arbitrary: T)
  case (Cons m ms)
  have IH: "note_messages ms T slot = (case find (\<lambda>m. message_slot m = slot) ms of Some m \<Rightarrow> Some m | None \<Rightarrow> T slot)" for T
    using Cons by simp
  have step: "note_messages (m # ms) T = note_messages ms (T(message_slot m \<mapsto> m))" by (simp add: note_messages_def)
  have "find (\<lambda>n. message_slot n = message_slot m) ms = None"
    using Cons.prems by (auto simp: find_None_iff image_iff)
  then show ?case unfolding step IH by (auto split: option.split)
qed (simp add: note_messages_def)

lemma noted_iff:
  assumes "distinct (map message_slot ms)"
  shows "note_messages ms (\<lambda>_. None) (message_slot m) = Some m \<longleftrightarrow> m \<in> set ms"
proof
  assume "m \<in> set ms"
  then obtain n where n: "find (\<lambda>n. message_slot n = message_slot m) ms = Some n"
    by (cases "find (\<lambda>n. message_slot n = message_slot m) ms") (auto simp: find_None_iff)
  then have "n \<in> set ms" "message_slot n = message_slot m" by (auto simp: find_Some_iff)
  then have "n = m" using assms \<open>m \<in> set ms\<close> by (auto simp: distinct_map inj_on_def)
  then show "note_messages ms (\<lambda>_. None) (message_slot m) = Some m" using noted_messages [OF assms] n by simp
next
  assume "note_messages ms (\<lambda>_. None) (message_slot m) = Some m"
  then show "m \<in> set ms"
    using noted_messages [OF assms, of "\<lambda>_. None" "message_slot m"] by (auto simp: find_Some_iff split: option.splits)
qed

text \<open>The specification of a page of the history.\<close>

definition newest_page :: "string \<Rightarrow> u64 option \<Rightarrow> nat \<Rightarrow> message list \<Rightarrow> message list" where
  "newest_page room before_lsn limit ms =
     take limit (filter (\<lambda>m. before_bound before_lsn (msg_lsn m))
       (sort_key chat_recency (filter (\<lambda>m. msg_room_id m = room) ms)))"

lemma projected_page:
  assumes "chat_implements p (note_messages ms (\<lambda>_. None))" "distinct (map message_slot ms)"
    "\<forall>m\<in>set ms. plain (msg_room_id m)" "plain room" "0 < limit"
  shows "projected_latest p room before_lsn limit = newest_page room before_lsn limit ms"
proof -
  let ?rows = "filter (\<lambda>m. msg_room_id m = room) ms"
  define es where "es = prefix_entries (cp_messages p) (chat_log_room_prefix room)"
  have entry: "(k, m) \<in> set es \<longleftrightarrow> m \<in> set ?rows \<and> k = recency_key room (chat_recency m)" (is "?l \<longleftrightarrow> ?r") for k m
  proof
    assume ?l
    then have m: "m \<in> set ms" "k = chat_log_message_key m" "starts_with k (chat_log_room_prefix room)"
      using chat_implementsD(3) [OF assms(1)] noted_iff [OF assms(2)] by (auto simp: es_def prefix_entries_iff)
    then obtain rest where "msg_room_id m @ nul # rest = k" unfolding chat_log_message_key_def by blast
    moreover obtain rest' where "k = room @ nul # rest'"
      using m(3) by (auto simp: starts_with_prefix chat_log_room_prefix_def elim!: prefixE)
    ultimately have "msg_room_id m = room" using plain_split m(1) assms(3,4) by metis
    then show ?r using m by (simp add: chat_key_recency)
  next
    assume ?r
    then show ?l
      using chat_implementsD(3) [OF assms(1)] noted_iff [OF assms(2)]
      by (auto simp: es_def prefix_entries_iff chat_key_recency starts_with_prefix chat_log_room_prefix_def
          recency_key_def chat_recency_def)
  qed
  have dist: "distinct ?rows" using assms(2) by (simp add: distinct_map)
  have "rows_by chat_recency (map snd es)"
    by (rule rows_by_entries [where f = "recency_key room"])
      (use entry in \<open>auto simp: es_def intro: recency_key_reflect\<close>)
  moreover have "set (map snd es) = set ?rows"
  proof -
    have "m \<in> snd ` set es \<longleftrightarrow> (\<exists>k. (k, m) \<in> set es)" for m by force
    then show ?thesis by (auto simp: entry)
  qed
  ultimately have page: "map snd es = sort_key chat_recency ?rows" using dist by (intro rows_by_sort_key)
  have "distinct (map msg_id ?rows)"
  proof -
    have "inj_on msg_id (set ?rows)"
      using assms(2) by (auto simp: distinct_map inj_on_def message_slot_def)
    then show ?thesis using dist by (simp add: distinct_map)
  qed
  moreover have "mset (map msg_id (sort_key chat_recency ?rows)) = mset (map msg_id ?rows)" by simp
  ultimately have "distinct (map msg_id (map snd es))" unfolding page by (metis mset_eq_imp_distinct_iff)
  then show ?thesis
    using latest_loop_take [of "map snd es" "[]" "[]" limit before_lsn] assms(5)
    by (simp add: projected_latest_def es_def [symmetric] newest_page_def page)
qed

section \<open>Bucket files and their index\<close>

text \<open>What the JSON of messages and of index lines promises.\<close>

definition one_line :: "string \<Rightarrow> bool" where
  "one_line s \<longleftrightarrow> newline \<notin> set s \<and> \<not> blank_line s"

definition message_law :: "('z) chat_ops_scheme \<Rightarrow> message \<Rightarrow> bool" where
  "message_law ops m \<longleftrightarrow>
     message_from_slice ops (message_to_vec ops m) = Some m \<and> one_line (message_to_vec ops m)"

definition entry_law :: "('z) chat_ops_scheme \<Rightarrow> bool" where
  "entry_law ops \<longleftrightarrow>
     (\<forall>e. entry_from_slice ops (entry_to_vec ops e) = Some e \<and> one_line (entry_to_vec ops e))"

definition chat_laws :: "('z) chat_ops_scheme \<Rightarrow> message list \<Rightarrow> bool" where
  "chat_laws ops ms \<longleftrightarrow> (\<forall>m\<in>set ms. message_law ops m) \<and> entry_law ops"

lemma chat_lawsD:
  "message_law ops m \<Longrightarrow> message_from_slice ops (message_to_vec ops m) = Some m"
  "message_law ops m \<Longrightarrow> one_line (message_to_vec ops m)"
  "entry_law ops \<Longrightarrow> entry_from_slice ops (entry_to_vec ops e) = Some e"
  "entry_law ops \<Longrightarrow> one_line (entry_to_vec ops e)"
  by (simp_all add: message_law_def entry_law_def)

fun entries_from :: "('z) chat_ops_scheme \<Rightarrow> nat \<Rightarrow> message list \<Rightarrow> chat_index_entry list" where
  "entries_from ops offset [] = []"
| "entries_from ops offset (m # ms) =
     index_entry_of m (of_nat offset) (encode_message_line ops m)
     # entries_from ops (offset + length (encode_message_line ops m)) ms"

definition bucket_data :: "('z) chat_ops_scheme \<Rightarrow> message list \<Rightarrow> string" where
  "bucket_data ops ms = concat (map (encode_message_line ops) ms)"

text \<open>A bucket that holds the messages \<open>ms\<close>, with the offset of its writer.\<close>

definition bucket_holds :: "('z) chat_ops_scheme \<Rightarrow> message list \<Rightarrow> chat_bucket \<Rightarrow> bool" where
  "bucket_holds ops ms b \<longleftrightarrow>
     cb_data b = bucket_data ops ms \<and> cb_index b = Some (encode_index ops (entries_from ops 0 ms))
     \<and> length (cb_data b) < 2 ^ 64"

lemma bucket_data_simps [simp]:
  "bucket_data ops [] = []" "bucket_data ops (m # ms) = encode_message_line ops m @ bucket_data ops ms"
  "bucket_data ops (ms @ ns) = bucket_data ops ms @ bucket_data ops ns"
  by (simp_all add: bucket_data_def)

lemma entries_append:
  "entries_from ops offset (ms @ ns) = entries_from ops offset ms @ entries_from ops (offset + length (bucket_data ops ms)) ns"
  by (induction ms arbitrary: offset) (simp_all add: add.assoc)

lemma encode_index_simps [simp]:
  "encode_index ops [] = []" "encode_index ops (e # es) = entry_to_vec ops e @ newline # encode_index ops es"
  "encode_index ops (es @ fs) = encode_index ops es @ encode_index ops fs"
  by (simp_all add: encode_index_def)

lemma of_nat_le_small: "a \<le> b \<Longrightarrow> b < 2 ^ 64 \<Longrightarrow> (of_nat a :: u64) \<le> of_nat b"
  by (simp add: word_le_nat_alt unat_of_nat take_bit_eq_mod)

lemma bucket_holdsD:
  assumes "bucket_holds ops ms b"
  shows "cb_data b = bucket_data ops ms" "cb_index b = Some (encode_index ops (entries_from ops 0 ms))"
    "length (bucket_data ops ms) < 2 ^ 64"
  using assms unfolding bucket_holds_def by auto

lemma sat_add_nat: "a + b < 2 ^ 64 \<Longrightarrow> sat_add (of_nat a) (of_nat b) = (of_nat (a + b) :: u64)"
  by (simp add: sat_add_def unat_of_nat take_bit_eq_mod)

lemma encode_batch_entries:
  assumes "offset + length (bucket_data ops ms) < 2 ^ 64"
  shows "encode_batch ops (of_nat offset) (map (\<lambda>m. (m, encode_message_line ops m)) ms)
    = (bucket_data ops ms, encode_index ops (entries_from ops offset ms), of_nat (offset + length (bucket_data ops ms)))"
  using assms
proof (induction ms arbitrary: offset)
  case (Cons m ms)
  have next_off: "sat_add (of_nat offset) (of_nat (length (encode_message_line ops m)))
      = (of_nat (offset + length (encode_message_line ops m)) :: u64)"
    using Cons.prems by (intro sat_add_nat) simp
  have "encode_batch ops (of_nat (offset + length (encode_message_line ops m))) (map (\<lambda>m. (m, encode_message_line ops m)) ms)
      = (bucket_data ops ms, encode_index ops (entries_from ops (offset + length (encode_message_line ops m)) ms),
         of_nat (offset + length (encode_message_line ops m) + length (bucket_data ops ms)))"
    using Cons.prems by (intro Cons.IH) simp
  then show ?case by (simp add: next_off add.assoc del: of_nat_add)
qed simp

lemma bucket_append:
  assumes "bucket_holds ops ms b" "length (bucket_data ops (ms @ ns)) < 2 ^ 64"
  shows "bucket_holds ops (ms @ ns)
      (fst (append_many_encoded ops (map (\<lambda>m. (m, encode_message_line ops m)) ns) (of_nat (length (cb_data b))) b))"
    "snd (append_many_encoded ops (map (\<lambda>m. (m, encode_message_line ops m)) ns) (of_nat (length (cb_data b))) b)
      = of_nat (length (bucket_data ops (ms @ ns)))"
  using assms encode_batch_entries [of "length (bucket_data ops ms)" ops ns]
  by (simp_all add: bucket_holds_def append_many_encoded_def entries_append)

lemma split_inclusive_lines:
  "\<forall>l\<in>set ls. newline \<notin> set l \<Longrightarrow> split_inclusive (concat (map (\<lambda>l. l @ [newline]) ls)) = map (\<lambda>l. l @ [newline]) ls"
proof (induction ls)
  case (Cons l ls)
  have "newline \<notin> set l \<Longrightarrow> split_inclusive (l @ newline # rest) = (l @ [newline]) # split_inclusive rest" for l rest
    by (induction l) auto
  then show ?case using Cons by simp
qed simp

lemma split_lines_lines:
  "\<forall>l\<in>set ls. newline \<notin> set l \<Longrightarrow> split_lines (concat (map (\<lambda>l. l @ [newline]) ls)) = ls @ [[]]"
proof (induction ls)
  case (Cons l ls)
  have "newline \<notin> set l \<Longrightarrow> split_lines (l @ newline # rest) = l # split_lines rest" for l rest
    by (induction l) auto
  then show ?case using Cons by simp
qed simp

lemma read_index_written:
  assumes "entry_law ops"
  shows "read_index_lines ops (split_lines (encode_index ops es)) = Some es"
proof -
  have "encode_index ops es = concat (map (\<lambda>l. l @ [newline]) (map (entry_to_vec ops) es))"
    by (simp add: encode_index_def comp_def)
  moreover have "\<forall>l\<in>set (map (entry_to_vec ops) es). newline \<notin> set l"
    using chat_lawsD(4) [OF assms] by (auto simp: one_line_def)
  ultimately have "split_lines (encode_index ops es) = map (entry_to_vec ops) es @ [[]]"
    using split_lines_lines by metis
  moreover have "read_index_lines ops (map (entry_to_vec ops) es @ [[]]) = Some es"
    using chat_lawsD(3,4) [OF assms] by (induction es) (simp_all add: blank_line_def one_line_def)
  ultimately show ?thesis by simp
qed

lemma line_parts:
  assumes "message_law ops m"
  shows "trim_trailing_newline (encode_message_line ops m) = message_to_vec ops m"
    "\<not> blank_line (encode_message_line ops m)" "0 < length (encode_message_line ops m)"
  using chat_lawsD(2) [OF assms]
  by (auto simp: encode_message_line_def trim_trailing_newline_def blank_line_def one_line_def)

lemma decode_lines_written:
  assumes "\<forall>m\<in>set ms. message_law ops m" "offset + length (bucket_data ops ms) < 2 ^ 64"
  shows "decode_lines ops (of_nat offset) (map (encode_message_line ops) ms) = Some (zip ms (entries_from ops offset ms))"
  using assms
proof (induction ms arbitrary: offset)
  case (Cons m ms)
  have next_off: "sat_add (of_nat offset) (of_nat (length (encode_message_line ops m)))
      = (of_nat (offset + length (encode_message_line ops m)) :: u64)"
    using Cons.prems(2) by (intro sat_add_nat) simp
  have "decode_lines ops (of_nat (offset + length (encode_message_line ops m))) (map (encode_message_line ops) ms)
      = Some (zip ms (entries_from ops (offset + length (encode_message_line ops m)) ms))"
    using Cons.prems by (intro Cons.IH) simp_all
  moreover have "message_law ops m" using Cons.prems(1) by simp
  ultimately show ?case by (simp add: next_off Let_def line_parts chat_lawsD(1) del: of_nat_add)
qed simp

lemma length_entries [simp]: "length (entries_from ops offset ms) = length ms"
  by (induction ms arbitrary: offset) simp_all

lemma decode_written:
  assumes "chat_laws ops ms" "bucket_holds ops ms b"
  shows "decode_bucket_data ops (cb_data b) before_lsn
    = Some (filter (\<lambda>m. before_bound before_lsn (msg_lsn m)) ms, entries_from ops 0 ms)"
proof -
  have "bucket_data ops ms = concat (map (\<lambda>l. l @ [newline]) (map (message_to_vec ops) ms))"
    by (simp add: bucket_data_def encode_message_line_def [abs_def] comp_def)
  moreover have "\<forall>l\<in>set (map (message_to_vec ops) ms). newline \<notin> set l"
    using chat_lawsD(2) assms(1) by (auto simp: one_line_def chat_laws_def)
  ultimately have "split_inclusive (bucket_data ops ms) = map (encode_message_line ops) ms"
    using split_inclusive_lines [of "map (message_to_vec ops) ms"] by (simp add: encode_message_line_def [abs_def] comp_def)
  then show ?thesis
    using decode_lines_written [of ms ops 0] assms(1) [unfolded chat_laws_def] bucket_holdsD [OF assms(2)]
    by (simp add: decode_bucket_data_def)
qed

lemma entry_fields:
  "cie_lsn (index_entry_of m offset encoded) = msg_lsn m"
  "cie_offset (index_entry_of m offset encoded) = offset"
  "cie_len (index_entry_of m offset encoded) = of_nat (length encoded)"
  by (simp_all add: index_entry_of_def)

lemma entries_tile:
  assumes "offset + length (bucket_data ops ms) < 2 ^ 64"
  shows "tiles (of_nat (offset + length (bucket_data ops ms))) (of_nat offset) (entries_from ops offset ms)"
  using assms
proof (induction ms arbitrary: offset)
  case (Cons m ms)
  let ?n = "length (encode_message_line ops m)"
  have small: "offset + ?n < 2 ^ 64" "offset + ?n + length (bucket_data ops ms) < 2 ^ 64" using Cons.prems by simp_all
  have "unat (of_nat offset :: u64) = offset" "unat (of_nat ?n :: u64) = ?n"
    using small by (simp_all add: unat_of_nat take_bit_eq_mod)
  moreover have "(of_nat offset + of_nat ?n :: u64) = of_nat (offset + ?n)" by simp
  moreover have "(of_nat (offset + ?n) :: u64) \<le> of_nat (offset + ?n + length (bucket_data ops ms))"
    using small by (intro of_nat_le_small) simp_all
  moreover have "tiles (of_nat (offset + ?n + length (bucket_data ops ms))) (of_nat (offset + ?n)) (entries_from ops (offset + ?n) ms)"
    using small(2) by (rule Cons.IH)
  ultimately show ?case using small by (simp add: entry_fields add.assoc del: of_nat_add)
qed simp

lemma entries_offsets:
  assumes "offset + length (bucket_data ops ms) < 2 ^ 64" "e \<in> set (entries_from ops offset ms)"
  shows "of_nat offset \<le> cie_offset e"
  using assms
proof (induction ms arbitrary: offset)
  case (Cons m ms)
  let ?n = "length (encode_message_line ops m)"
  have "(of_nat offset :: u64) \<le> of_nat (offset + ?n)"
    using Cons.prems by (intro of_nat_le_small) simp_all
  then show ?case
    using Cons.prems Cons.IH [of "offset + ?n"] by (auto simp: entry_fields add.assoc simp del: of_nat_add intro: order_trans)
qed simp

lemma entries_sorted:
  assumes "offset + length (bucket_data ops ms) < 2 ^ 64"
  shows "sorted (map cie_offset (entries_from ops offset ms))"
  using assms
proof (induction ms arbitrary: offset)
  case (Cons m ms)
  let ?n = "length (encode_message_line ops m)"
  have "(of_nat offset :: u64) \<le> of_nat (offset + ?n)"
    using Cons.prems by (intro of_nat_le_small) simp_all
  then have "of_nat offset \<le> cie_offset e" if "e \<in> set (entries_from ops (offset + ?n) ms)" for e
    using entries_offsets [OF _ that] Cons.prems by (auto simp: add.assoc simp del: of_nat_add intro: order_trans)
  moreover have "sorted (map cie_offset (entries_from ops (offset + ?n) ms))"
    using Cons.prems by (intro Cons.IH) simp
  ultimately show ?case by (simp add: entry_fields del: of_nat_add)
qed simp

lemma index_covers_written:
  assumes "bucket_holds ops ms b"
  shows "index_covers_data_file (entries_from ops 0 ms) (of_nat (length (cb_data b)))"
proof (cases ms)
  case Nil
  then show ?thesis using assms by (simp add: index_covers_data_file_def bucket_holds_def)
next
  case (Cons m rest)
  have bound: "0 + length (bucket_data ops ms) < 2 ^ 64" using bucket_holdsD(3) [OF assms] by simp
  have "sort_key cie_offset (entries_from ops 0 ms) = entries_from ops 0 ms"
    by (rule sorted_sort_key_id [OF entries_sorted [OF bound]])
  moreover have "entries_from ops 0 ms \<noteq> []" by (simp add: Cons)
  ultimately show ?thesis
    using entries_tile [OF bound] bucket_holdsD(1) [OF assms] by (simp add: index_covers_data_file_def Cons del: entries_from.simps bucket_data_simps)
qed

text \<open>Each entry reads its own message back.\<close>

lemma read_entry_written:
  assumes "\<forall>m\<in>set ms. message_law ops m" "(m, e) \<in> set (zip ms (entries_from ops offset ms))" "length pre = offset"
    "offset + length (bucket_data ops ms) < 2 ^ 64"
  shows "read_entry ops (pre @ bucket_data ops ms @ post) e = Some m"
  using assms
proof (induction ms arbitrary: offset pre)
  case (Cons n ms)
  let ?l = "encode_message_line ops n"
  show ?case
  proof (cases "(m, e) = (n, index_entry_of n (of_nat offset) ?l)")
    case True
    have "unat (of_nat offset :: u64) = offset" "unat (of_nat (length ?l) :: u64) = length ?l"
      using Cons.prems(4) by (simp_all add: unat_of_nat take_bit_eq_mod)
    then show ?thesis
      using True Cons.prems(3) line_parts(1) [of ops n] chat_lawsD(1) [of ops n] Cons.prems(1)
      by (simp add: read_entry_def entry_fields)
  next
    case False
    then have "read_entry ops ((pre @ ?l) @ bucket_data ops ms @ post) e = Some m"
      using Cons.prems by (intro Cons.IH [of "offset + length ?l"]) auto
    then show ?thesis by simp
  qed
qed simp

lemma compare_entries:
  "compare_index_order (index_entry_of a x s) (index_entry_of b y t) = compare_message_order a b"
  by (simp add: compare_index_order_def compare_message_order_def index_entry_of_def)

lemma insert_by_map:
  assumes "\<And>x. x \<in> set xs \<Longrightarrow> cmp (f a) (f x) = cmp' a x"
  shows "insert_by cmp (f a) (map f xs) = map f (insert_by cmp' a xs)"
  using assms by (induction xs) auto

lemma set_insert_by [simp]: "set (insert_by cmp a xs) = insert a (set xs)"
  by (induction xs) auto

lemma set_sort_by [simp]: "set (sort_by cmp xs) = set xs"
  unfolding sort_by_def by (induction xs) auto

lemma sort_by_map:
  assumes "\<And>x y. x \<in> set xs \<Longrightarrow> y \<in> set xs \<Longrightarrow> cmp (f x) (f y) = cmp' x y"
  shows "sort_by cmp (map f xs) = map f (sort_by cmp' xs)"
  using assms
proof (induction xs)
  case (Cons x xs)
  then have "sort_by cmp (map f xs) = map f (sort_by cmp' xs)" by simp
  moreover have "insert_by cmp (f x) (map f (sort_by cmp' xs)) = map f (insert_by cmp' x (sort_by cmp' xs))"
    using Cons.prems by (intro insert_by_map) simp
  ultimately show ?case by (simp add: sort_by_def)
qed (simp add: sort_by_def)

lemma entries_of_pairs:
  "(m, e) \<in> set (zip ms (entries_from ops offset ms)) \<Longrightarrow> \<exists>x s. e = index_entry_of m x s"
  by (induction ms arbitrary: offset) auto

lemma read_entries_pairs:
  "(\<And>m e. (m, e) \<in> set ps \<Longrightarrow> read_entry ops data e = Some m) \<Longrightarrow> read_entries ops data (map snd ps) = Some (map fst ps)"
proof (induction ps)
  case (Cons p ps)
  have "read_entry ops data (snd p) = Some (fst p)" using Cons.prems by (cases p) simp
  moreover have "read_entries ops data (map snd ps) = Some (map fst ps)" using Cons by simp
  ultimately show ?case by simp
qed simp

lemma index_read_written:
  assumes "chat_laws ops ms" "bucket_holds ops ms b"
  shows "read_bucket_latest_from_index ops b before_lsn limit
    = Some (take limit (sort_by (\<lambda>a b. compare_message_order b a) (filter (\<lambda>m. before_bound before_lsn (msg_lsn m)) ms)))"
proof -
  note laws = assms(1) [unfolded chat_laws_def]
  note b = bucket_holdsD [OF assms(2)]
  define ps where "ps = zip ms (entries_from ops 0 ms)"
  define qs where "qs = filter (\<lambda>p. before_bound before_lsn (msg_lsn (fst p))) ps"
  define rs where "rs = sort_by (\<lambda>p q. compare_message_order (fst q) (fst p)) qs"
  have pair: "\<exists>x s. snd p = index_entry_of (fst p) x s" if "p \<in> set ps" for p
    using entries_of_pairs [of "fst p" "snd p"] that by (simp add: ps_def)
  have lsn: "cie_lsn (snd p) = msg_lsn (fst p)" if "p \<in> set ps" for p
    using pair [OF that] by (auto simp: entry_fields)
  have fst_ps: "map fst ps = ms" and snd_ps: "map snd ps = entries_from ops 0 ms" by (simp_all add: ps_def)
  have es: "filter (\<lambda>e. before_bound before_lsn (cie_lsn e)) (entries_from ops 0 ms) = map snd qs"
    unfolding snd_ps [symmetric] qs_def by (simp add: filter_map comp_def lsn cong: filter_cong)
  have ms: "filter (\<lambda>m. before_bound before_lsn (msg_lsn m)) ms = map fst qs"
    unfolding qs_def by (subst fst_ps [symmetric]) (simp add: filter_map comp_def)
  have sorted_es: "sort_by (\<lambda>a b. compare_index_order b a) (map snd qs) = map snd rs"
    unfolding rs_def
  proof (rule sort_by_map)
    fix p q assume "p \<in> set qs" "q \<in> set qs"
    then obtain x s y t where "snd p = index_entry_of (fst p) x s" "snd q = index_entry_of (fst q) y t"
      using pair [of p] pair [of q] by (auto simp: qs_def)
    then show "compare_index_order (snd q) (snd p) = compare_message_order (fst q) (fst p)" by (simp add: compare_entries)
  qed
  have sorted_ms: "sort_by (\<lambda>a b. compare_message_order b a) (map fst qs) = map fst rs"
    unfolding rs_def by (rule sort_by_map) simp
  have read: "read_entries ops (cb_data b) (map snd (take limit rs)) = Some (map fst (take limit rs))"
  proof (rule read_entries_pairs)
    fix m e assume "(m, e) \<in> set (take limit rs)"
    then have "(m, e) \<in> set rs" by (rule in_set_takeD)
    then have "(m, e) \<in> set ps" by (simp add: rs_def qs_def)
    then show "read_entry ops (cb_data b) e = Some m"
      using read_entry_written [OF conjunct1 [OF laws], of m e 0 "[]" "[]"] b by (simp add: ps_def)
  qed
  have covers: "index_covers_data_file (entries_from ops 0 ms) (of_nat (length (cb_data b)))"
    by (rule index_covers_written [OF assms(2)])
  show ?thesis
  proof (cases "qs = []")
    case True
    then show ?thesis
      using covers unfolding read_bucket_latest_from_index_def b(2) option.case read_index_written [OF conjunct2 [OF laws]] Let_def es ms
      by (simp add: sort_by_def)
  next
    case False
    then show ?thesis
      using covers read unfolding read_bucket_latest_from_index_def b(2) option.case read_index_written [OF conjunct2 [OF laws]]
        Let_def es ms sorted_es sorted_ms by (simp add: take_map)
  qed
qed

section \<open>The chat log holds what was appended\<close>

definition in_bucket :: "message list \<Rightarrow> bucket_path \<Rightarrow> message list" where
  "in_bucket ms path = filter (\<lambda>m. path_of_message m = path) ms"

definition chat_holds :: "('z) chat_ops_scheme \<Rightarrow> message list \<Rightarrow> chat_log \<Rightarrow> bool" where
  "chat_holds ops ms c \<longleftrightarrow>
     chat_implements (cl_projection c) (note_messages ms (\<lambda>_. None))
     \<and> (\<forall>path. case bt_get (cl_buckets c) path of
           None \<Rightarrow> in_bucket ms path = [] | Some b \<Rightarrow> bucket_holds ops (in_bucket ms path) b)
     \<and> (\<forall>path next. bt_get (cl_writers c) path = Some next \<longrightarrow>
           (\<exists>b. bt_get (cl_buckets c) path = Some b \<and> next = of_nat (length (cb_data b))))"

lemma chat_holds_empty: "chat_holds ops [] empty_chat_log"
  by (simp add: chat_holds_def empty_chat_log_def in_bucket_def note_messages_def chat_implements_empty)

lemma in_bucket_append [simp]: "in_bucket (ms @ ns) path = in_bucket ms path @ in_bucket ns path"
  by (simp add: in_bucket_def)

lemma noted_append: "note_messages (ms @ ns) T = note_messages ns (note_messages ms T)"
  by (simp add: note_messages_def)

text \<open>One batch for one bucket.\<close>

lemma append_bucket_holds:
  assumes "chat_holds ops ms c" "\<forall>m\<in>set ns. path_of_message m = path \<and> plain (msg_room_id m)" "ns \<noteq> []"
    "distinct (map message_slot ns)" "length (bucket_data ops (in_bucket (ms @ ns) path)) < 2 ^ 64"
  shows "chat_holds ops (ms @ ns) (append_bucket ops (path, ns) c)"
proof -
  let ?new = "\<lparr>cb_data = [], cb_index = None\<rparr> :: chat_bucket"
  obtain nx c1 where w: "writer_for_path path c = (nx, c1)" by fastforce
  have b: "\<exists>b. bt_get (cl_buckets c1) path = Some b \<and> bucket_holds ops (in_bucket ms path) b
      \<and> nx = of_nat (length (cb_data b))"
    and other: "\<And>p. p \<noteq> path \<Longrightarrow> bt_get (cl_buckets c1) p = bt_get (cl_buckets c) p
      \<and> bt_get (cl_writers c1) p = bt_get (cl_writers c) p"
    and proj: "cl_projection c1 = cl_projection c"
  proof -
    have held: "case bt_get (cl_buckets c) path of None \<Rightarrow> in_bucket ms path = []
        | Some b \<Rightarrow> bucket_holds ops (in_bucket ms path) b"
      and writers: "\<And>nx. bt_get (cl_writers c) path = Some nx \<Longrightarrow>
        \<exists>b. bt_get (cl_buckets c) path = Some b \<and> nx = of_nat (length (cb_data b))"
      using assms(1) unfolding chat_holds_def by blast+
    have empty: "bucket_holds ops [] \<lparr>cb_data = [], cb_index = Some []\<rparr>" by (simp add: bucket_holds_def)
    show "\<exists>b. bt_get (cl_buckets c1) path = Some b \<and> bucket_holds ops (in_bucket ms path) b
        \<and> nx = of_nat (length (cb_data b))"
    proof (cases "bt_get (cl_writers c) path")
      case None
      show ?thesis
      proof (cases "bt_get (cl_buckets c) path")
        case None
        then have "in_bucket ms path = []" using held by simp
        then show ?thesis
          using w None \<open>bt_get (cl_writers c) path = None\<close> empty
          by (auto simp: writer_for_path_def Let_def bt_get_or_def)
      next
        case (Some b)
        then have "bucket_holds ops (in_bucket ms path) b" using held by simp
        moreover from this have "b\<lparr>cb_index := Some (case cb_index b of None \<Rightarrow> [] | Some i \<Rightarrow> i)\<rparr> = b"
          by (cases b) (simp add: bucket_holds_def)
        ultimately show ?thesis
          using w Some \<open>bt_get (cl_writers c) path = None\<close> by (auto simp: writer_for_path_def Let_def bt_get_or_def)
      qed
    next
      case (Some n)
      then show ?thesis using w held writers [OF Some] by (auto simp: writer_for_path_def)
    qed
    show "\<And>p. p \<noteq> path \<Longrightarrow> bt_get (cl_buckets c1) p = bt_get (cl_buckets c) p
        \<and> bt_get (cl_writers c1) p = bt_get (cl_writers c) p" "cl_projection c1 = cl_projection c"
      using w by (auto simp: writer_for_path_def Let_def split: option.splits)
  qed
  then obtain b where b: "bt_get (cl_buckets c1) path = Some b" "bucket_holds ops (in_bucket ms path) b"
    "nx = of_nat (length (cb_data b))" by blast
  have ns: "in_bucket ns path = ns" using assms(2) by (simp add: in_bucket_def)
  obtain b1 next1 where b1: "append_many_encoded ops (map (\<lambda>m. (m, encode_message_line ops m)) ns) nx b = (b1, next1)"
    by fastforce
  have size: "length (bucket_data ops (in_bucket ms path @ ns)) < 2 ^ 64" using assms(5) by (simp add: ns)
  have held: "bucket_holds ops (in_bucket ms path @ ns) b1"
    and next1: "next1 = of_nat (length (bucket_data ops (in_bucket ms path @ ns)))"
    using bucket_append [OF b(2) size] b1 b(3) by (simp_all del: bucket_data_simps)
  have held1: "bucket_holds ops (in_bucket ms path @ ns) b1" "next1 = of_nat (length (cb_data b1))"
    using held next1 bucket_holdsD(1) [OF held] by (simp_all del: bucket_data_simps)
  have c': "append_bucket ops (path, ns) c = c1\<lparr>cl_buckets := bt_insert path b1 (cl_buckets c1),
      cl_writers := bt_insert path next1 (cl_writers c1), cl_projection := put_messages ns (cl_projection c1)\<rparr>"
    by (simp add: append_bucket_def w b(1) bt_get_or_def b1)
  show ?thesis
    unfolding chat_holds_def
  proof (intro conjI allI impI)
    show "chat_implements (cl_projection (append_bucket ops (path, ns) c)) (note_messages (ms @ ns) (\<lambda>_. None))"
      using assms(1,2,4) unfolding c' chat_holds_def by (simp add: proj noted_append put_messages_implements)
  next
    fix p
    show "case bt_get (cl_buckets (append_bucket ops (path, ns) c)) p of None \<Rightarrow> in_bucket (ms @ ns) p = []
        | Some b \<Rightarrow> bucket_holds ops (in_bucket (ms @ ns) p) b"
    proof (cases "p = path")
      case True
      then show ?thesis using held1 by (simp add: c' ns)
    next
      case False
      then have "in_bucket ns p = []" using assms(2) by (auto simp: in_bucket_def filter_empty_conv)
      moreover have "case bt_get (cl_buckets c) p of None \<Rightarrow> in_bucket ms p = []
          | Some b \<Rightarrow> bucket_holds ops (in_bucket ms p) b" using assms(1) unfolding chat_holds_def by blast
      ultimately show ?thesis using False other by (simp add: c' split: option.split option.split_asm)
    qed
  next
    fix p n
    assume n: "bt_get (cl_writers (append_bucket ops (path, ns) c)) p = Some n"
    show "\<exists>b. bt_get (cl_buckets (append_bucket ops (path, ns) c)) p = Some b \<and> n = of_nat (length (cb_data b))"
    proof (cases "p = path")
      case True
      then show ?thesis using n held1(2) by (simp add: c')
    next
      case False
      then have "bt_get (cl_writers c) p = Some n" using n other [OF False] by (simp add: c')
      then obtain b2 where "bt_get (cl_buckets c) p = Some b2" "n = of_nat (length (cb_data b2))"
        using assms(1) unfolding chat_holds_def by blast
      then show ?thesis using False other [OF False] by (simp add: c')
    qed
  qed
qed

text \<open>Messages of several buckets at once.\<close>

lemma noted_same:
  assumes "distinct (map message_slot xs)" "distinct (map message_slot ys)" "set xs = set ys"
  shows "note_messages xs T = note_messages ys T"
proof
  fix slot
  show "note_messages xs T slot = note_messages ys T slot"
  proof (cases "\<exists>m\<in>set xs. message_slot m = slot")
    case False
    then have "find (\<lambda>m. message_slot m = slot) xs = None" "find (\<lambda>m. message_slot m = slot) ys = None"
      using assms(3) by (auto simp: find_None_iff)
    then show ?thesis using noted_messages assms(1,2) by simp
  next
    case True
    then obtain m where m: "m \<in> set xs" "message_slot m = slot" by blast
    have "find (\<lambda>m. message_slot m = slot) zs = Some m"
      if zs: "distinct (map message_slot zs)" "m \<in> set zs" for zs
    proof -
      obtain n where n: "find (\<lambda>m. message_slot m = slot) zs = Some n"
        using zs m(2) by (cases "find (\<lambda>m. message_slot m = slot) zs") (auto simp: find_None_iff)
      then have "n \<in> set zs" "message_slot n = slot" by (auto simp: find_Some_iff)
      then have "n = m" using zs m(2) by (auto simp: distinct_map inj_on_def)
      then show ?thesis using n by simp
    qed
    then show ?thesis using noted_messages assms m by simp
  qed
qed

lemma chat_holds_same:
  assumes "chat_holds ops xs c" "distinct (map message_slot xs)" "distinct (map message_slot ys)"
    "\<And>path. in_bucket xs path = in_bucket ys path"
  shows "chat_holds ops ys c"
proof -
  have "m \<in> set xs \<longleftrightarrow> m \<in> set ys" for m
  proof -
    have "m \<in> set zs \<longleftrightarrow> m \<in> set (in_bucket zs (path_of_message m))" for zs by (simp add: in_bucket_def)
    from this [of xs] this [of ys] show ?thesis using assms(4) [of "path_of_message m"] by simp
  qed
  then have "note_messages xs (\<lambda>_. None) = note_messages ys (\<lambda>_. None)" by (intro noted_same assms) blast
  moreover have "in_bucket xs = in_bucket ys" by (rule ext) (rule assms(4))
  ultimately show ?thesis using assms(1) unfolding chat_holds_def by metis
qed

lemma grouped_batches:
  fixes ms :: "message list"
  shows "bt_get_or (fold (\<lambda>m. bt_push (path_of_message m) m) ms t) path [] = bt_get_or t path [] @ in_bucket ms path"
    "{p. bt_get (fold (\<lambda>m. bt_push (path_of_message m) m) ms t) p \<noteq> None}
      = {p. bt_get t p \<noteq> None} \<union> path_of_message ` set ms"
proof -
  show "bt_get_or (fold (\<lambda>m. bt_push (path_of_message m) m) ms t) path [] = bt_get_or t path [] @ in_bucket ms path"
    by (induction ms arbitrary: t) (simp_all add: in_bucket_def bt_get_or_def bt_push_def)
  show "{p. bt_get (fold (\<lambda>m. bt_push (path_of_message m) m) ms t) p \<noteq> None}
      = {p. bt_get t p \<noteq> None} \<union> path_of_message ` set ms"
  proof (induction ms arbitrary: t)
    case (Cons m ms)
    have "{p. bt_get (bt_push (path_of_message m) m t) p \<noteq> None} = insert (path_of_message m) {p. bt_get t p \<noteq> None}"
      by (auto simp: bt_push_def)
    then show ?case using Cons.IH by simp
  qed simp
qed

definition chat_room_left :: "('z) chat_ops_scheme \<Rightarrow> message list \<Rightarrow> bool" where
  "chat_room_left ops ms \<longleftrightarrow> (\<forall>path. length (bucket_data ops (in_bucket ms path)) < 2 ^ 64)"

lemma append_groups_holds:
  assumes "chat_holds ops ms c" "distinct (map fst groups)"
    "\<forall>g\<in>set groups. snd g \<noteq> [] \<and> (\<forall>m\<in>set (snd g). path_of_message m = fst g \<and> plain (msg_room_id m))"
    "distinct (map message_slot (concat (map snd groups)))" "chat_room_left ops (ms @ concat (map snd groups))"
  shows "chat_holds ops (ms @ concat (map snd groups)) (fold (append_bucket ops) groups c)"
  using assms
proof (induction groups arbitrary: ms c)
  case (Cons g groups)
  obtain path ns where g: "g = (path, ns)" by (cases g)
  have "length (bucket_data ops (in_bucket (ms @ ns) path)) \<le> length (bucket_data ops (in_bucket (ms @ concat (map snd (g # groups))) path))"
    by (simp add: g)
  also have "\<dots> < 2 ^ 64" using Cons.prems(5) unfolding chat_room_left_def by blast
  finally have "chat_holds ops (ms @ ns) (append_bucket ops (path, ns) c)"
    using Cons.prems by (intro append_bucket_holds) (simp_all add: g)
  from Cons.IH [OF this] Cons.prems show ?case by (simp add: g)
qed simp

lemma append_many_holds:
  assumes "chat_holds ops ms c" "distinct (map message_slot (ms @ ns))" "\<forall>m\<in>set ns. plain (msg_room_id m)"
    "chat_room_left ops (ms @ ns)"
  shows "chat_holds ops (ms @ ns) (chat_append_many ops ns c)"
proof (cases "ns = []")
  case True
  then show ?thesis using assms(1) by (simp add: chat_append_many_def)
next
  case False
  define groups where "groups = bt_entries (fold (\<lambda>m. bt_push (path_of_message m) m) ns bt_empty)"
  have group: "g = (fst g, in_bucket ns (fst g)) \<and> fst g \<in> path_of_message ` set ns" if "g \<in> set groups" for g
  proof -
    obtain path xs where g: "g = (path, xs)" by (cases g)
    then have some: "bt_get (fold (\<lambda>m. bt_push (path_of_message m) m) ns bt_empty) path = Some xs"
      using that by (simp add: groups_def in_entries)
    then show ?thesis
      using grouped_batches(1) [of ns bt_empty path] grouped_batches(2) [of ns bt_empty] by (auto simp: g bt_get_or_def)
  qed
  have paths: "fst ` set groups = path_of_message ` set ns"
  proof -
    have "fst ` set groups = set (bt_keys (fold (\<lambda>m. bt_push (path_of_message m) m) ns bt_empty))"
      by (simp add: groups_def bt_keys_def)
    then show ?thesis using grouped_batches(2) [of ns bt_empty] by (simp add: set_bt_keys del: not_None_eq)
  qed
  have dist: "distinct (map fst groups)" unfolding groups_def by (simp flip: bt_keys_def)
  have in_groups: "in_bucket (concat (map snd groups)) path = in_bucket ns path" for path
  proof -
    have "in_bucket (concat (map snd gs)) path = (if path \<in> fst ` set gs then in_bucket ns path else [])"
      if "distinct (map fst gs)" "set gs \<subseteq> set groups" for gs
      using that
    proof (induction gs)
      case (Cons g gs)
      have g: "snd g = in_bucket ns (fst g)" using group [of g] Cons.prems(2) by (metis insert_subset list.simps(15) snd_conv)
      have "in_bucket (in_bucket ns (fst g)) path = (if path = fst g then in_bucket ns path else [])"
        by (auto simp: in_bucket_def filter_empty_conv)
      then show ?case using Cons g by auto
    qed (simp add: in_bucket_def)
    moreover have "path \<notin> path_of_message ` set ns \<Longrightarrow> in_bucket ns path = []"
      by (auto simp: in_bucket_def filter_empty_conv)
    ultimately show ?thesis using dist paths by simp
  qed
  have same: "in_bucket (ms @ concat (map snd groups)) path = in_bucket (ms @ ns) path" for path
    by (simp add: in_groups)
  have slots: "distinct (map message_slot (concat (map snd groups)))"
  proof -
    have "mset (concat (map snd groups)) = mset ns"
    proof (rule multiset_eqI)
      fix m
      have "count (mset xs) m = count (mset (in_bucket xs (path_of_message m))) m" for xs
        by (induction xs) (auto simp: in_bucket_def)
      then show "count (mset (concat (map snd groups))) m = count (mset ns) m" using in_groups by metis
    qed
    then have "mset (map message_slot (concat (map snd groups))) = mset (map message_slot ns)" by simp
    then show ?thesis using assms(2) mset_eq_imp_distinct_iff by (metis distinct_append map_append)
  qed
  have sets: "set (concat (map snd groups)) = set ns"
  proof -
    have mem: "m \<in> set xs \<longleftrightarrow> m \<in> set (in_bucket xs (path_of_message m))" for m xs by (simp add: in_bucket_def)
    show ?thesis
    proof (rule set_eqI)
      show "m \<in> set (concat (map snd groups)) \<longleftrightarrow> m \<in> set ns" for m
        unfolding mem [of m "concat (map snd groups)"] mem [of m ns] in_groups ..
    qed
  qed
  have "chat_holds ops (ms @ concat (map snd groups)) (fold (append_bucket ops) groups c)"
  proof (rule append_groups_holds [OF assms(1) dist _ slots])
    show "\<forall>g\<in>set groups. snd g \<noteq> [] \<and> (\<forall>m\<in>set (snd g). path_of_message m = fst g \<and> plain (msg_room_id m))"
    proof
      fix g assume "g \<in> set groups"
      then have g: "snd g = in_bucket ns (fst g)" "fst g \<in> path_of_message ` set ns" using group by (metis snd_conv)+
      then show "snd g \<noteq> [] \<and> (\<forall>m\<in>set (snd g). path_of_message m = fst g \<and> plain (msg_room_id m))"
        using assms(3) by (auto simp: in_bucket_def filter_empty_conv)
    qed
    show "chat_room_left ops (ms @ concat (map snd groups))"
      using assms(4) by (simp add: chat_room_left_def in_groups)
  qed
  then have "chat_holds ops (ms @ ns) (fold (append_bucket ops) groups c)"
    by (rule chat_holds_same) (use assms(2) slots sets same in auto)
  then show ?thesis using False by (simp add: chat_append_many_def groups_def)
qed

end
