(* ===== verification/Chat_Pages.thy ===== *)
theory Chat_Pages
  imports Chat_History
begin

text \<open>
  The properties of the chat log (\<open>chat_log.rs\<close>): the page a read answers with, the index against
  the decoding of the whole bucket, and what a start makes of messages that were logged last.
\<close>

section \<open>A room's directory\<close>

lemma room_dir_inject: "room_dir a = room_dir b \<longleftrightarrow> a = b"
proof
  assume "room_dir a = room_dir b"
  then have "map byte_of a = map byte_of b"
    unfolding room_dir_def by (metis decode_hex_lower sum.inject(2))
  then show "a = b" using inj_byte_of by (simp add: inj_map_eq_map)
qed simp

text \<open>The invariant from the empty log, batch by batch.\<close>

lemma chat_room_left_prefix: "chat_room_left ops (ms @ ns) \<Longrightarrow> chat_room_left ops ms"
  unfolding chat_room_left_def by (metis add_lessD1 bucket_data_simps(3) in_bucket_append length_append)

lemma appended_holds:
  assumes "chat_holds ops ms c" "distinct (map message_slot (ms @ concat batches))"
    "\<forall>m\<in>set (concat batches). plain (msg_room_id m)" "chat_room_left ops (ms @ concat batches)"
  shows "chat_holds ops (ms @ concat batches) (fold (chat_append_many ops) batches c)"
  using assms
proof (induction batches arbitrary: ms c)
  case (Cons ns batches)
  have "chat_room_left ops (ms @ ns)"
    by (rule chat_room_left_prefix [of _ _ "concat batches"]) (use Cons.prems(4) in simp)
  then have "chat_holds ops (ms @ ns) (chat_append_many ops ns c)"
    using Cons.prems by (intro append_many_holds) (auto simp: Int_Un_distrib)
  from Cons.IH [OF this] Cons.prems show ?case by simp
qed simp

section \<open>A page of the history\<close>

lemma newest_page_empty:
  assumes "newest_page room before_lsn limit ms = []" "0 < limit" "m \<in> set ms" "msg_room_id m = room"
  shows "\<not> before_bound before_lsn (msg_lsn m)"
proof
  assume "before_bound before_lsn (msg_lsn m)"
  then have "m \<in> set (filter (\<lambda>m. before_bound before_lsn (msg_lsn m))
      (sort_key chat_recency (filter (\<lambda>m. msg_room_id m = room) ms)))" using assms(3,4) by simp
  then show False using assms(1,2) unfolding newest_page_def by (metis empty_iff gr_implies_not0 list.set(1) take_eq_Nil)
qed

lemma in_bucket_room:
  "m \<in> set (in_bucket ms (bucket_path room day)) \<Longrightarrow> m \<in> set ms \<and> msg_room_id m = room"
  by (auto simp: in_bucket_def path_of_message_def bucket_path_def room_dir_inject)

text \<open>The buckets of a room with nothing before the bound: their indexes answer, and nothing changes.\<close>

lemma read_no_buckets:
  assumes "chat_laws ops ms" "chat_holds ops ms c" "\<And>m. m \<in> set ms \<Longrightarrow> msg_room_id m = room \<Longrightarrow>
      \<not> before_bound before_lsn (msg_lsn m)" "0 < limit"
    "\<forall>day\<in>set days. bt_get (cl_buckets c) (bucket_path room day) \<noteq> None"
  shows "read_buckets ops room before_lsn limit seen [] days c = (Some [], c)"
  using assms(5)
proof (induction days arbitrary: seen)
  case (Cons day days)
  obtain b where b: "bt_get (cl_buckets c) (bucket_path room day) = Some b" using Cons.prems by auto
  let ?ms = "in_bucket ms (bucket_path room day)"
  have "case bt_get (cl_buckets c) (bucket_path room day) of
      None \<Rightarrow> ?ms = [] | Some b \<Rightarrow> bucket_holds ops ?ms b" using assms(2) unfolding chat_holds_def by blast
  then have holds: "bucket_holds ops ?ms b" using b by simp
  have laws: "chat_laws ops ?ms" using assms(1) by (auto simp: chat_laws_def in_bucket_def)
  have "filter (\<lambda>m. before_bound before_lsn (msg_lsn m)) ?ms = []"
    using in_bucket_room assms(3) by (fastforce simp: filter_empty_conv)
  then have index: "read_bucket_latest_from_index ops b before_lsn limit = Some []"
    using index_read_written [OF laws holds] by (simp add: sort_by_def)
  then have "read_bucket_latest ops b before_lsn limit = (Some [], b)"
    using assms(4) by (simp add: read_bucket_latest_def)
  then show ?case using Cons index assms(4) by (simp add: b bt_get_or_def)
qed simp

lemma held_page:
  assumes "chat_laws ops ms" "chat_holds ops ms c" "distinct (map message_slot ms)"
    "\<forall>m\<in>set ms. plain (msg_room_id m)" "plain room" "0 < limit"
  shows "chat_latest ops room before_lsn limit c = (Some (newest_page room before_lsn limit ms), c)"
proof -
  have page: "projected_latest (cl_projection c) room before_lsn limit = newest_page room before_lsn limit ms"
    using assms(2) unfolding chat_holds_def by (intro projected_page assms(3-6)) simp
  show ?thesis
  proof (cases "newest_page room before_lsn limit ms = []")
    case True
    have "\<forall>day\<in>set (rev (sort (room_buckets room c))). bt_get (cl_buckets c) (bucket_path room day) \<noteq> None"
      by (auto simp: room_buckets_def set_bt_keys bucket_path_def)
    then have "read_buckets ops room before_lsn limit [] [] (rev (sort (room_buckets room c))) c = (Some [], c)"
      using newest_page_empty [OF True assms(6)] by (intro read_no_buckets [OF assms(1,2)] assms(6)) auto
    then show ?thesis using assms(6) by (simp add: chat_latest_def page True Let_def)
  qed (use assms(6) in \<open>simp add: chat_latest_def page\<close>)
qed


section \<open>The index of a bucket\<close>

text \<open>
  C23. The index of a bucket file is only an optimisation. For every bucket of a chat log, a page
  read through the index (the entries before the bound, sorted, the first \<open>limit\<close> of them read from
  the data file at their offsets) is the page that decoding the whole data file and sorting the
  messages gives; both succeed, on the messages of the log that belong to that bucket.
\<close>

theorem index_reads_as_decoding:
  assumes "chat_laws ops (concat batches)" "distinct (map message_slot (concat batches))"
    "\<forall>m\<in>set (concat batches). plain (msg_room_id m)" "chat_room_left ops (concat batches)"
    "bt_get (cl_buckets (fold (chat_append_many ops) batches empty_chat_log)) path = Some b"
  shows "decode_bucket_data ops (cb_data b) before_lsn
      = Some (filter (\<lambda>m. before_bound before_lsn (msg_lsn m)) (in_bucket (concat batches) path),
              entries_from ops 0 (in_bucket (concat batches) path))
    \<and> read_bucket_latest_from_index ops b before_lsn limit
      = map_option (\<lambda>(ms, es). take limit (sort_by (\<lambda>a b. compare_message_order b a) ms))
          (decode_bucket_data ops (cb_data b) before_lsn)"
proof -
  let ?ms = "concat batches"
  have "chat_holds ops ?ms (fold (chat_append_many ops) batches empty_chat_log)"
    using appended_holds [OF chat_holds_empty, where batches = batches and ops = ops] assms(2-4) by simp
  then have "case bt_get (cl_buckets (fold (chat_append_many ops) batches empty_chat_log)) path of
      None \<Rightarrow> in_bucket ?ms path = [] | Some b \<Rightarrow> bucket_holds ops (in_bucket ?ms path) b"
    unfolding chat_holds_def by blast
  then have holds: "bucket_holds ops (in_bucket ?ms path) b" using assms(5) by simp
  have laws: "chat_laws ops (in_bucket ?ms path)" using assms(1) by (auto simp: chat_laws_def in_bucket_def)
  show ?thesis
    using decode_written [OF laws holds, of before_lsn] index_read_written [OF laws holds, of before_lsn limit] by simp
qed

section \<open>What a start rebuilds\<close>

lemma projection_of_writers [simp]:
  "chat_implements (cl_projection (c\<lparr>cl_marker := k\<rparr>)) T = chat_implements (cl_projection c) T" by simp

lemma chat_holds_marker: "chat_holds ops ms (c\<lparr>cl_marker := k\<rparr>) = chat_holds ops ms c"
  by (simp add: chat_holds_def)

lemma chat_holds_reopen: "chat_holds ops ms c \<Longrightarrow> chat_holds ops ms (chat_reopen c)"
  by (simp add: chat_holds_def chat_reopen_def)

lemma append_bucket_marker [simp]: "cl_marker (append_bucket ops g c) = cl_marker c"
  by (simp add: append_bucket_def writer_for_path_def Let_def split: prod.split option.split)

lemma append_many_marker [simp]: "cl_marker (chat_append_many ops ms c) = cl_marker c"
proof -
  have "cl_marker (fold (append_bucket ops) gs c) = cl_marker c" for gs by (induction gs arbitrary: c) simp_all
  then show ?thesis by (simp add: chat_append_many_def)
qed

lemma appended_marker [simp]: "cl_marker (fold (chat_append_many ops) batches c) = cl_marker c"
  by (induction batches arbitrary: c) simp_all

text \<open>
  C31. The chat log is rebuilt from the write-ahead log only once. The first start writes the marker
  file; afterwards the log's messages are ignored by a start, so whatever they are, the page after
  the restart is the page of what was appended to the chat log before: a message that reached the
  write-ahead log but not yet the chat log when the process stopped is not in the history any more.
\<close>

theorem restart_keeps_the_gap:
  assumes "chat_laws ops (first @ concat batches)" "distinct (map message_slot (first @ concat batches))"
    "\<forall>m\<in>set (first @ concat batches). plain (msg_room_id m)" "chat_room_left ops (first @ concat batches)"
    "plain room" "0 < limit"
  shows "fst (chat_latest ops room before_lsn limit
      (chat_rebuild_from_messages ops logged (chat_reopen
        (fold (chat_append_many ops) batches (chat_rebuild_from_messages ops first empty_chat_log)))))
    = Some (newest_page room before_lsn limit (first @ concat batches))"
proof -
  let ?start = "chat_rebuild_from_messages ops first empty_chat_log"
  let ?c = "fold (chat_append_many ops) batches ?start"
  have c0: "?start = (chat_append_many ops first empty_chat_log)\<lparr>cl_marker := True\<rparr>"
    by (simp add: chat_rebuild_from_messages_def empty_chat_log_def)
  have "chat_holds ops ([] @ first) (chat_append_many ops first empty_chat_log)"
    by (rule append_many_holds [OF chat_holds_empty])
      (use assms(2-4) chat_room_left_prefix [of ops first "concat batches"] in auto)
  then have "chat_holds ops first ?start" by (simp add: c0 chat_holds_marker)
  then have "chat_holds ops (first @ concat batches) (chat_reopen ?c)"
    using assms(2-4) by (intro chat_holds_reopen appended_holds) auto
  moreover have "cl_marker (chat_reopen ?c)" by (simp add: chat_reopen_def c0)
  then have "chat_rebuild_from_messages ops logged (chat_reopen ?c) = chat_reopen ?c"
    by (simp add: chat_rebuild_from_messages_def [of ops logged])
  ultimately show ?thesis using held_page [OF assms(1) _ assms(2,3,5,6)] by simp
qed

section \<open>Concrete runs\<close>

text \<open>A codec for the runs: a message of a table by its position, an entry in unary.\<close>

definition table_message :: "message list \<Rightarrow> message \<Rightarrow> string" where
  "table_message table m = replicate (Suc (length (takeWhile (\<lambda>n. n \<noteq> m) table))) (CHR ''m'')"

definition message_of_table :: "message list \<Rightarrow> string \<Rightarrow> message option" where
  "message_of_table table s =
     (if s \<noteq> [] \<and> length s \<le> length table then Some (table ! (length s - 1)) else None)"

definition put_count :: "u64 \<Rightarrow> string \<Rightarrow> string" where
  "put_count n rest = replicate (unat n) (CHR ''1'') @ CHR '','' # rest"

definition get_count :: "string \<Rightarrow> u64 \<times> string" where
  "get_count s = (of_nat (length (takeWhile (\<lambda>c. c = CHR ''1'') s)), drop 1 (dropWhile (\<lambda>c. c = CHR ''1'') s))"

definition unary_entry :: "chat_index_entry \<Rightarrow> string" where
  "unary_entry e = put_count (cie_lsn e) (put_count (cie_created_at_ms e)
     (put_count (cie_offset e) (put_count (cie_len e) (hex_lower (map byte_of (cie_id e))))))"

definition entry_of_unary :: "string \<Rightarrow> chat_index_entry option" where
  "entry_of_unary s =
     (let (lsn, s1) = get_count s; (at, s2) = get_count s1; (offset, s3) = get_count s2; (len, s4) = get_count s3
      in case decode_hex s4 of
           Inl _ \<Rightarrow> None
         | Inr bytes \<Rightarrow> Some \<lparr>cie_lsn = lsn, cie_created_at_ms = at, cie_id = map (\<lambda>b. char_of (unat b)) bytes,
                          cie_offset = offset, cie_len = len\<rparr>)"

definition table_chat_ops :: "message list \<Rightarrow> chat_ops" where
  "table_chat_ops table =
     \<lparr>message_to_vec = table_message table, message_from_slice = message_of_table table,
      entry_to_vec = unary_entry, entry_from_slice = entry_of_unary,
      message_to_postcard = table_message table, message_from_postcard = message_of_table table\<rparr>"

lemma get_put_count [simp]: "get_count (put_count n rest) = (n, rest)"
proof -
  have "takeWhile (\<lambda>c. c = CHR ''1'') (replicate k (CHR ''1'') @ CHR '','' # rest) = replicate k (CHR ''1'')"
    "dropWhile (\<lambda>c. c = CHR ''1'') (replicate k (CHR ''1'') @ CHR '','' # rest) = CHR '','' # rest" for k
    by (induction k) simp_all
  then show ?thesis by (simp add: get_count_def put_count_def)
qed

lemma hex_lower_digits: "c \<in> set (hex_lower bs) \<Longrightarrow> is_hex_digit c"
  using decode_hex_lower [of bs] decode_hex_ok [of "hex_lower bs"] by blast

lemma table_chat_laws:
  assumes "distinct table"
  shows "chat_laws (table_chat_ops table) table"
proof -
  have message: "message_law (table_chat_ops table) m" if "m \<in> set table" for m
  proof -
    define i where "i = length (takeWhile (\<lambda>n. n \<noteq> m) table)"
    have "i < length table" "table ! i = m"
      using that unfolding i_def by (induction table) auto
    then show ?thesis
      by (auto simp: message_law_def table_chat_ops_def message_of_table_def table_message_def i_def [symmetric]
          one_line_def newline_def blank_line_def ascii_whitespace_def)
  qed
  have line: "one_line (unary_entry e)" for e
  proof -
    have count: "newline \<notin> set (put_count n s) \<longleftrightarrow> newline \<notin> set s" for n s
      by (auto simp: put_count_def newline_def)
    have "newline \<notin> set (hex_lower bs)" for bs
      using hex_lower_digits [of newline bs] by (auto simp: is_hex_digit_def newline_def)
    moreover have "\<not> blank_line (unary_entry e)"
      by (simp add: unary_entry_def put_count_def blank_line_def ascii_whitespace_def)
    ultimately show ?thesis by (simp add: one_line_def unary_entry_def count)
  qed
  have "map (\<lambda>b. char_of (unat b)) (map byte_of s) = s" for s :: string
    by (induction s) simp_all
  then have "entry_law (table_chat_ops table)"
    using line by (simp add: entry_law_def table_chat_ops_def entry_of_unary_def unary_entry_def decode_hex_lower)
  then show ?thesis using message by (simp add: chat_laws_def)
qed

text \<open>Three messages in two rooms and two days.\<close>

definition chat_line :: "string \<Rightarrow> string \<Rightarrow> u64 \<Rightarrow> u64 \<Rightarrow> message" where
  "chat_line room i lsn at =
     \<lparr>msg_id = i, msg_room_id = room, msg_sender_id = ''u1'', msg_body = ''hello'', msg_attachments = [],
      msg_created_at_ms = at, msg_lsn = lsn, msg_path = ''rooms''\<rparr>"

definition chat_batches :: "message list list" where
  "chat_batches =
     [[chat_line ''r1'' ''a'' 1 10, chat_line ''r2'' ''b'' 2 20], [chat_line ''r1'' ''c'' 3 90000000]]"

lemma chat_batches_lines:
  "chat_laws (table_chat_ops (concat chat_batches)) (concat chat_batches)"
  "distinct (map message_slot (concat chat_batches))"
  "\<forall>m\<in>set (concat chat_batches). plain (msg_room_id m)"
  "chat_room_left (table_chat_ops (concat chat_batches)) (concat chat_batches)"
proof -
  show slots: "distinct (map message_slot (concat chat_batches))" "\<forall>m\<in>set (concat chat_batches). plain (msg_room_id m)"
    by (simp_all add: chat_batches_def chat_line_def message_slot_def plain_def nul_def)
  show "chat_laws (table_chat_ops (concat chat_batches)) (concat chat_batches)"
    using slots(1) by (intro table_chat_laws) (simp add: distinct_map)
  show "chat_room_left (table_chat_ops (concat chat_batches)) (concat chat_batches)"
    by (simp add: chat_room_left_def in_bucket_def chat_batches_def chat_line_def encode_message_line_def
        table_chat_ops_def table_message_def)
qed


lemma chat_batches_bucket:
  "\<exists>b. bt_get (cl_buckets (fold (chat_append_many (table_chat_ops (concat chat_batches))) chat_batches empty_chat_log))
      (path_of_message (chat_line ''r1'' ''c'' 3 90000000)) = Some b"
proof -
  let ?c = "fold (chat_append_many (table_chat_ops (concat chat_batches))) chat_batches empty_chat_log"
  let ?m = "chat_line ''r1'' ''c'' 3 90000000"
  have "chat_holds (table_chat_ops (concat chat_batches)) (concat chat_batches) ?c"
    using appended_holds [OF chat_holds_empty, where batches = chat_batches] chat_batches_lines by simp
  then have "case bt_get (cl_buckets ?c) (path_of_message ?m) of None \<Rightarrow> in_bucket (concat chat_batches) (path_of_message ?m) = []
      | Some b \<Rightarrow> bucket_holds (table_chat_ops (concat chat_batches)) (in_bucket (concat chat_batches) (path_of_message ?m)) b"
    unfolding chat_holds_def by blast
  moreover have "?m \<in> set (in_bucket (concat chat_batches) (path_of_message ?m))"
    by (simp add: in_bucket_def chat_batches_def)
  ultimately show ?thesis by (cases "bt_get (cl_buckets ?c) (path_of_message ?m)") auto
qed

lemma index_reads_as_decoding_witness:
  "\<exists>b. bt_get (cl_buckets (fold (chat_append_many (table_chat_ops (concat chat_batches))) chat_batches empty_chat_log))
      (path_of_message (chat_line ''r1'' ''c'' 3 90000000)) = Some b
    \<and> read_bucket_latest_from_index (table_chat_ops (concat chat_batches)) b None 4
      = Some [chat_line ''r1'' ''c'' 3 90000000]"
proof -
  obtain b where b: "bt_get (cl_buckets (fold (chat_append_many (table_chat_ops (concat chat_batches))) chat_batches empty_chat_log))
      (path_of_message (chat_line ''r1'' ''c'' 3 90000000)) = Some b" using chat_batches_bucket by blast
  have "in_bucket (concat chat_batches) (path_of_message (chat_line ''r1'' ''c'' 3 90000000))
      = [chat_line ''r1'' ''c'' 3 90000000]" by code_simp
  then have "read_bucket_latest_from_index (table_chat_ops (concat chat_batches)) b None 4
      = Some [chat_line ''r1'' ''c'' 3 90000000]"
    using index_reads_as_decoding [OF chat_batches_lines b, of None 4]
    by (simp add: before_bound_def sort_by_def)
  then show ?thesis using b by blast
qed

lemma restart_keeps_the_gap_witness:
  "fst (chat_latest (table_chat_ops (concat chat_batches)) ''r1'' None 5
      (chat_rebuild_from_messages (table_chat_ops (concat chat_batches)) (concat chat_batches @ [chat_line ''r1'' ''d'' 4 90000001])
        (chat_reopen (fold (chat_append_many (table_chat_ops (concat chat_batches))) [[chat_line ''r1'' ''c'' 3 90000000]]
          (chat_rebuild_from_messages (table_chat_ops (concat chat_batches)) (hd chat_batches) empty_chat_log)))))
    = Some [chat_line ''r1'' ''c'' 3 90000000, chat_line ''r1'' ''a'' 1 10]"
proof -
  have parts: "hd chat_batches @ concat [[chat_line ''r1'' ''c'' 3 90000000]] = concat chat_batches"
    by (simp add: chat_batches_def)
  have room: "plain ''r1''" by (simp add: plain_def nul_def)
  have page: "newest_page ''r1'' None 5 (concat chat_batches)
      = [chat_line ''r1'' ''c'' 3 90000000, chat_line ''r1'' ''a'' 1 10]"
    by (simp add: newest_page_def chat_batches_def chat_line_def chat_recency_def before_bound_def sat_sub_def)
  show ?thesis
    using restart_keeps_the_gap [of "table_chat_ops (concat chat_batches)" "hd chat_batches"
        "[[chat_line ''r1'' ''c'' 3 90000000]]" "''r1''" 5 None "concat chat_batches @ [chat_line ''r1'' ''d'' 4 90000001]"]
      chat_batches_lines room page unfolding parts by simp
qed

end
