(* ===== verification/Message_Pages.thy ===== *)
theory Message_Pages
  imports Message_Rooms Chat_Pages
begin

text \<open>
  What a read of a room answers. While the room in memory is the end of the room's history, a read
  is the newest page of the log; sends, evictions and plain reads keep it so. A read that has to
  complete the page from the chat log writes the page back into the room, and breaks it.
\<close>

section \<open>Pages of a sorted history\<close>

definition in_order :: "message list \<Rightarrow> bool" where
  "in_order ms \<longleftrightarrow> sorted_wrt (<) (map msg_lsn ms) \<and> (\<forall>m\<in>set ms. 0 < msg_lsn m)"

lemma in_order_append:
  "in_order (xs @ ys) \<longleftrightarrow> in_order xs \<and> in_order ys \<and> (\<forall>x\<in>set xs. \<forall>y\<in>set ys. msg_lsn x < msg_lsn y)"
  by (auto simp: in_order_def sorted_wrt_append)

lemma in_order_filter: "in_order ms \<Longrightarrow> in_order (filter P ms)"
  by (induction ms) (auto simp: in_order_def)

lemma in_order_parts: "in_order ms \<Longrightarrow> in_order (drop k ms) \<and> in_order (take k ms)"
  using in_order_append [of "take k ms" "drop k ms"] by simp

lemma in_order_logged: "in_order ms \<Longrightarrow> logged_messages ms \<and> sorted (map msg_lsn ms)"
  by (auto simp: in_order_def logged_messages_def strict_sorted_iff)

lemma in_order_inj: "in_order ms \<Longrightarrow> inj_on msg_lsn (set ms) \<and> distinct ms"
  using in_order_logged [of ms] by (auto simp: logged_messages_def distinct_map)

text \<open>Newest first is the reverse order.\<close>

lemma newest_first:
  assumes "in_order ms"
  shows "sort_key chat_recency ms = rev ms"
proof (rule sort_key_inj_key_eq)
  have less: "chat_recency y < chat_recency x" if "msg_lsn x < msg_lsn y" for x y
  proof -
    have "sat_sub (- 1) a = - 1 - a" for a :: u64 by (simp add: sat_sub_def)
    moreover have "- 1 - msg_lsn y < - 1 - msg_lsn x"
      using that unat_bound [of "msg_lsn y"]
      by (simp add: word_less_nat_alt unat_sub unat_minus_one diff_less_mono2)
    ultimately show ?thesis by (simp add: chat_recency_def)
  qed
  show "sorted (map chat_recency (rev ms))"
    using assms
  proof (induction ms)
    case (Cons m ms)
    then have "\<forall>x\<in>set ms. chat_recency x < chat_recency m" by (auto simp: in_order_def intro: less)
    then show ?case using Cons by (auto simp: sorted_append in_order_def intro: less_imp_le)
  qed simp
  show "inj_on chat_recency (set ms)"
    using in_order_inj [OF assms] by (auto simp: inj_on_def chat_recency_def sat_sub_def)
qed simp

lemma newest_page_rev:
  assumes "in_order (filter (\<lambda>m. msg_room_id m = room) ms)"
  shows "newest_page room before_lsn limit ms
    = take limit (filter (\<lambda>m. before_bound before_lsn (msg_lsn m)) (rev (filter (\<lambda>m. msg_room_id m = room) ms)))"
  by (simp add: newest_page_def newest_first [OF assms])

lemma filter_take_prefix: "\<exists>j. filter P (take n xs) = take j (filter P xs)"
proof -
  have "filter P xs = filter P (take n xs) @ filter P (drop n xs)"
    by (metis append_take_drop_id filter_append)
  then have "filter P (take n xs) = take (length (filter P (take n xs))) (filter P xs)" by simp
  then show ?thesis by blast
qed

lemma page_of_suffix:
  assumes "in_order h"
  shows "\<exists>j. page_of_room before_lsn limit (drop k h)
    = take (min limit j) (filter (\<lambda>m. before_bound before_lsn (msg_lsn m)) (rev h))"
proof -
  have backward: "rev (drop k h) = take (length h - k) (rev h)" by (simp add: rev_drop)
  have pos: "filter (\<lambda>m. 0 < msg_lsn m \<and> msg_lsn m < b) (rev (drop k h)) = filter (\<lambda>m. msg_lsn m < b) (rev (drop k h))" for b
    using assms by (intro filter_cong) (auto simp: in_order_def dest: in_set_dropD)
  have "page_of_room before_lsn limit (drop k h)
      = take limit (filter (\<lambda>m. before_bound before_lsn (msg_lsn m)) (rev (drop k h)))"
    using pos by (cases before_lsn) (simp_all add: page_of_room_def before_bound_def)
  moreover obtain j where "filter (\<lambda>m. before_bound before_lsn (msg_lsn m)) (rev (drop k h))
      = take j (filter (\<lambda>m. before_bound before_lsn (msg_lsn m)) (rev h))"
    using filter_take_prefix [of _ "length h - k" "rev h"] unfolding backward by blast
  ultimately show ?thesis by (intro exI [of _ j]) simp
qed

text \<open>The merge of the two sources.\<close>

fun fresh_ids :: "string list \<Rightarrow> message list \<Rightarrow> message list" where
  "fresh_ids seen [] = []"
| "fresh_ids seen (m # ms) =
     (if msg_id m \<in> set seen then fresh_ids seen ms else m # fresh_ids (msg_id m # seen) ms)"

lemma merge_page_fresh:
  "length page < limit \<Longrightarrow> merge_page limit seen page ms = take limit (page @ fresh_ids seen ms)"
proof (induction ms arbitrary: seen page)
  case (Cons m ms)
  show ?case
  proof (cases "limit \<le> length (page @ [m])")
    case True
    then have "limit = Suc (length page)" using Cons.prems by simp
    then show ?thesis using Cons by simp
  next
    case False
    then have "limit - length page = Suc (limit - Suc (length page))" by simp
    then show ?thesis using Cons.IH [of "page @ [m]"] Cons False by simp
  qed
qed simp

lemma fresh_ids_seen: "msg_id ` set ms \<subseteq> set seen \<Longrightarrow> fresh_ids seen (ms @ ns) = fresh_ids seen ns"
  by (induction ms) auto

lemma fresh_ids_new:
  "distinct (map msg_id ms) \<Longrightarrow> msg_id ` set ms \<inter> set seen = {} \<Longrightarrow>
     fresh_ids seen (ms @ ns) = ms @ fresh_ids (rev (map msg_id ms) @ seen) ns"
  by (induction ms arbitrary: seen) auto

lemma merge_prefix:
  assumes "distinct (map msg_id f)" "0 < limit"
  shows "merge_page limit [] [] (take j f @ take limit f) = take limit f"
proof (cases "j \<le> limit")
  case True
  have parts: "take limit f = take j f @ drop j (take limit f)"
    using True by (metis append_take_drop_id min.absorb1 take_take)
  have "distinct (map msg_id (take j f @ drop j (take limit f)))"
    using assms(1) distinct_take [of "map msg_id f" limit] parts by (metis take_map)
  then have dist: "distinct (map msg_id (take j f))" "distinct (map msg_id (drop j (take limit f)))"
    "msg_id ` set (drop j (take limit f)) \<inter> msg_id ` set (take j f) = {}" by auto
  have "fresh_ids [] (take j f @ take limit f)
      = take j f @ fresh_ids (rev (map msg_id (take j f))) (take j f @ drop j (take limit f) @ [])"
    using fresh_ids_new [OF dist(1), of "[]" "take limit f"] parts by simp
  also have "\<dots> = take j f @ drop j (take limit f)"
    using fresh_ids_seen [of "take j f" "rev (map msg_id (take j f))" "drop j (take limit f) @ []"]
      fresh_ids_new [OF dist(2), of "rev (map msg_id (take j f))" "[]"] dist(3) by simp
  finally show ?thesis using assms(2) parts by (simp add: merge_page_fresh)
next
  case False
  have "fresh_ids [] (take j f @ take limit f) = take j f @ fresh_ids (rev (map msg_id (take j f))) (take limit f)"
    using fresh_ids_new [of "take j f" "[]" "take limit f"] assms(1) by (simp add: take_map distinct_take flip: take_map)
  moreover have "msg_id ` set (take limit f) \<subseteq> set (rev (map msg_id (take j f)))"
    using False set_take_subset_set_take [of limit j f] by auto
  then have "fresh_ids (rev (map msg_id (take j f))) (take limit f) = []"
    using fresh_ids_seen [of "take limit f" _ "[]"] by simp
  ultimately show ?thesis using False assms(2) by (simp add: merge_page_fresh)
qed

section \<open>What the room becomes\<close>

lemma room_after_order:
  assumes "in_order (held @ ms)"
  shows "room_after w held ms = drop (length (held @ ms) - w) (held @ ms)"
proof -
  have "logged_messages (held @ ms)" "sorted (map msg_lsn held)"
    using in_order_logged [OF assms] in_order_append assms in_order_logged by blast+
  note a = held_after_append [OF this]
  have "sort_key msg_lsn (held @ ms) = held @ ms"
    using in_order_logged [OF assms] by (intro sorted_sort_key_id) simp
  then show ?thesis using a by (simp add: room_after_def Let_def)
qed

text \<open>A room filled from nothing by a page that is newest first.\<close>

lemma room_after_page:
  assumes "in_order ms"
  shows "room_after w [] (rev ms) = drop (length ms - w) ms"
proof -
  have "logged_messages ([] @ rev ms)" using in_order_logged [OF assms] by (simp add: logged_messages_def flip: rev_map)
  note a = held_after_append [OF this]
  have "sort_key msg_lsn ([] @ rev ms) = ms"
    using in_order_logged [OF assms] in_order_inj [OF assms] by (intro sort_key_inj_key_eq) simp_all
  then show ?thesis using a by (simp add: room_after_def Let_def)
qed

section \<open>Messages of the log\<close>

definition message_history :: "('n, 's, 'g) message_node \<Rightarrow> message list" where
  "message_history nd = messages_from_wal_records (sv_wal (mn_server nd))"

definition history_of :: "string \<Rightarrow> ('n, 's, 'g) message_node \<Rightarrow> message list" where
  "history_of room nd = filter (\<lambda>m. msg_room_id m = room) (message_history nd)"

definition log_laws :: "('z) chat_ops_scheme \<Rightarrow> ('n, 's, 'g) message_node \<Rightarrow> bool" where
  "log_laws cops nd \<longleftrightarrow> chat_laws cops (message_history nd) \<and> chat_room_left cops (message_history nd)"

definition messages_inv :: "('z) chat_ops_scheme \<Rightarrow> ('n, 's, 'g) message_node \<Rightarrow> bool" where
  "messages_inv cops nd \<longleftrightarrow>
     rooms_inv (mn_runtime nd) \<and> chat_holds cops (message_history nd) (mn_chat nd)
     \<and> in_order (message_history nd) \<and> distinct (map msg_id (message_history nd))
     \<and> (\<forall>m\<in>set (message_history nd). msg_lsn m \<le> sv_next_lsn (mn_server nd) \<and> plain (msg_room_id m))"

text \<open>What memory has of a room is the end of its history.\<close>

definition room_is_end :: "(bytes \<Rightarrow> bytes) \<Rightarrow> string \<Rightarrow> ('n, 's, 'g) message_node \<Rightarrow> bool" where
  "room_is_end digest room nd \<longleftrightarrow>
     (case room_in_memory digest room (mn_runtime nd) of
        None \<Rightarrow> True | Some h \<Rightarrow> \<exists>k. h = drop k (history_of room nd))"

lemma messages_append:
  "messages_from_wal_records (ws @ vs) = messages_from_wal_records ws @ messages_from_wal_records vs"
  by (simp add: messages_from_wal_records_def map_filter_def)

lemma slots_of_ids: "distinct (map msg_id ms) \<Longrightarrow> distinct (map message_slot ms)"
  by (auto simp: distinct_map inj_on_def message_slot_def)

lemma chat_append_one: "chat_append cops m c = chat_append_many cops [m] c"
proof -
  have "bt_entries (bt_push (path_of_message m) m bt_empty) = [(path_of_message m, [m])]"
  proof -
    have "bt_push (path_of_message m) m bt_empty = bt_insert (path_of_message m) [m] bt_empty"
      by (rule bt_eqI) (simp add: bt_push_def bt_get_or_def)
    then show ?thesis by simp
  qed
  then show ?thesis by (simp add: chat_append_def chat_append_many_def)
qed

text \<open>What a send does: nothing to messages, or a batch \<open>ms\<close> everywhere.\<close>

definition messages_kept :: "('n, 's, 'g) message_node \<Rightarrow> ('n, 's, 'g) message_node \<Rightarrow> bool" where
  "messages_kept nd nd' \<longleftrightarrow>
     message_history nd' = message_history nd \<and> mn_chat nd' = mn_chat nd \<and> mn_runtime nd' = mn_runtime nd
     \<and> sv_next_lsn (mn_server nd) \<le> sv_next_lsn (mn_server nd')"

definition messages_sent ::
  "('z) chat_ops_scheme \<Rightarrow> 'n message_env \<Rightarrow> string \<Rightarrow> message list \<Rightarrow> ('n, 's, 'g) message_node \<Rightarrow>
     ('n, 's, 'g) message_node \<Rightarrow> bool" where
  "messages_sent cops env r ms nd nd' \<longleftrightarrow>
     ms \<noteq> [] \<and> message_history nd' = message_history nd @ ms
     \<and> mn_chat nd' = chat_append_many cops ms (mn_chat nd)
     \<and> mn_runtime nd' = apply_messages (en_sha256 (me_request env)) (en_now (me_request env)) ms (mn_runtime nd)
     \<and> sorted_wrt (<) (map msg_lsn ms) \<and> distinct (map msg_id ms)
     \<and> (\<forall>m\<in>set ms. sv_next_lsn (mn_server nd) < msg_lsn m \<and> msg_lsn m \<le> sv_next_lsn (mn_server nd')
          \<and> msg_room_id m = r \<and> msg_id m \<in> range (me_uuid env))"

lemma publish_keeps [simp]:
  "sv_wal (fold publish_delivery_event es sv) = sv_wal sv" "sv_next_lsn (fold publish_delivery_event es sv) = sv_next_lsn sv"
  by (induction es arbitrary: sv) (simp_all add: publish_delivery_event_def)

lemma mn_publish_keeps [simp]:
  "message_history (mn_publish es nd) = message_history nd" "mn_chat (mn_publish es nd) = mn_chat nd"
  "mn_runtime (mn_publish es nd) = mn_runtime nd" "mn_users (mn_publish es nd) = mn_users nd"
  "sv_next_lsn (mn_server (mn_publish es nd)) = sv_next_lsn (mn_server nd)"
  "sv_wal (mn_server (mn_publish es nd)) = sv_wal (mn_server nd)"
  by (simp_all add: mn_publish_def message_history_def)

lemma sat_next: "unat (lsn :: u64) + 1 < 2 ^ 64 \<Longrightarrow> lsn < lsn + 1"
  by (simp add: word_less_nat_alt unat_word_ariths)

lemma append_message_result:
  assumes "append_message env dur d nd = (r, nd')" "unat (sv_next_lsn (mn_server nd)) + 1 < 2 ^ 64"
  shows "nd' = nd\<lparr>mn_server := mn_server nd'\<rparr>"
    "case r of
       Inl e \<Rightarrow> sv_wal (mn_server nd') = sv_wal (mn_server nd)
         \<and> sv_next_lsn (mn_server nd) \<le> sv_next_lsn (mn_server nd')
     | Inr m \<Rightarrow> m = message_of_draft d (sv_next_lsn (mn_server nd) + 1)
         \<and> sv_next_lsn (mn_server nd') = sv_next_lsn (mn_server nd) + 1
         \<and> messages_from_wal_records (sv_wal (mn_server nd')) = messages_from_wal_records (sv_wal (mn_server nd)) @ [m]"
  using assms sat_next [OF assms(2)]
  by (auto simp: append_message_def mn_on_server_def sv_bind_def sv_lift_def append_ordered_wal_record_def Let_def
      message_from_wal_record_def messages_append messages_from_wal_records_def map_filter_def
      split: prod.splits sum.splits)

lemma mn_bind_split:
  assumes "mn_bind m k nd = (r, nd')"
  obtains (failed) e where "m nd = (Inl e, nd')" "r = Inl e"
  | (ran) x nd1 where "m nd = (Inr x, nd1)" "k x nd1 = (r, nd')"
  using assms by (auto simp: mn_bind_def split: prod.splits sum.splits)

lemma messages_kept_refl [simp, intro]: "messages_kept nd nd"
  by (simp add: messages_kept_def)

lemma publish_message_sent:
  assumes "append_message (me_request env) dur d nd = (Inr m, nd1)" "publish_message cops env m nd1 = (r, nd')"
    "unat (sv_next_lsn (mn_server nd)) + 1 < 2 ^ 64" "md_id d = me_uuid env i"
  shows "messages_sent cops env (md_room_id d) [m] nd nd'"
proof -
  note a = append_message_result [OF assms(1,3)]
  have m: "m = message_of_draft d (sv_next_lsn (mn_server nd) + 1)"
    "sv_next_lsn (mn_server nd1) = sv_next_lsn (mn_server nd) + 1"
    "message_history nd1 = message_history nd @ [m]"
    using a(2) by (simp_all add: message_history_def)
  have kept: "mn_chat nd1 = mn_chat nd" "mn_runtime nd1 = mn_runtime nd"
    by (subst a(1), simp)+
  have "msg_lsn m = sv_next_lsn (mn_server nd) + 1" "msg_room_id m = md_room_id d" "msg_id m = me_uuid env i"
    using assms(4) by (simp_all add: m(1) message_of_draft_def)
  then show ?thesis
    using assms(2) m(2,3) kept sat_next [OF assms(3)]
    by (auto simp: messages_sent_def publish_message_def chat_append_one apply_message_one_room message_history_def)
qed

lemma append_failed_kept:
  assumes "append_message env dur d nd = (Inl e, nd')" "unat (sv_next_lsn (mn_server nd)) + 1 < 2 ^ 64"
  shows "messages_kept nd nd'"
proof -
  note a = append_message_result [OF assms]
  have kept: "mn_chat nd' = mn_chat nd" "mn_runtime nd' = mn_runtime nd" by (subst a(1), simp)+
  then show ?thesis using a(2) by (simp add: messages_kept_def message_history_def)
qed

lemma send_message_result:
  assumes "send_message ops cops env room_id user_id body attachments dur mutation_id nd = (r, nd')"
    "dur \<noteq> Volatile" "unat (sv_next_lsn (mn_server nd)) + 1 < 2 ^ 64"
  shows "messages_kept nd nd' \<or> (\<exists>ms. messages_sent cops env room_id ms nd nd')"
proof -
  have "nd' = nd \<or> (\<exists>mid refs.
      mn_bind (append_message (me_request env) dur (message_draft_of env 0 dur room_id user_id body mid refs))
        (publish_message cops env) nd = (r, nd'))"
    using assms(1,2)
    by (auto simp: send_message_def mn_bind_def [of "mn_lift x" for x] mn_lift_def Let_def
        split: sum.splits option.splits if_splits)
  then show ?thesis
  proof
    assume "\<exists>mid refs. mn_bind (append_message (me_request env) dur (message_draft_of env 0 dur room_id user_id body mid refs))
        (publish_message cops env) nd = (r, nd')"
    then obtain d where d: "mn_bind (append_message (me_request env) dur d) (publish_message cops env) nd = (r, nd')"
      "md_room_id d = room_id" "md_id d = me_uuid env 0" by (auto simp: message_draft_of_def)
    from d(1) show ?thesis
    proof (cases rule: mn_bind_split)
      case (failed e)
      then show ?thesis using append_failed_kept assms(3) by blast
    next
      case (ran m nd1)
      then show ?thesis using publish_message_sent [OF ran assms(3) d(3)] d(2) by blast
    qed
  qed simp
qed

section \<open>Batches\<close>

lemma number_payloads_lsns:
  assumes "number_payloads env shard dur version lsn ps = (ws, final)" "unat lsn + length ps < 2 ^ 64"
  shows "sorted_wrt (<) (map wr_lsn ws) \<and> (\<forall>w\<in>set ws. lsn < wr_lsn w \<and> wr_lsn w \<le> final) \<and> lsn \<le> final
    \<and> map wr_payload ws = ps"
  using assms
proof (induction ps arbitrary: lsn ws)
  case (Cons p ps)
  obtain vs where v: "number_payloads env shard dur version (lsn + 1) ps = (vs, final)"
    "ws = wal_record_of env shard dur version (lsn + 1) p # vs"
    using Cons.prems(1) by (auto split: prod.splits)
  have step: "lsn < lsn + 1" "unat (lsn + 1) = unat lsn + 1"
    using Cons.prems(2) sat_next [of lsn] by (simp_all add: unat_word_ariths)
  have "sorted_wrt (<) (map wr_lsn vs) \<and> (\<forall>w\<in>set vs. lsn + 1 < wr_lsn w \<and> wr_lsn w \<le> final) \<and> lsn + 1 \<le> final
    \<and> map wr_payload vs = ps"
    using Cons.prems(2) step by (intro Cons.IH [OF v(1)]) simp
  then show ?case using step(1) by (auto simp: v(2) wal_record_of_def)
qed simp

lemma messages_of_drafts:
  assumes "map wr_payload ws = map MessageCreated ds"
  shows "messages_from_records ws = Inr (map2 (\<lambda>d w. message_of_draft d (wr_lsn w)) ds ws)"
    "messages_from_wal_records ws = map2 (\<lambda>d w. message_of_draft d (wr_lsn w)) ds ws"
  using assms
  by (induction ws arbitrary: ds)
    (auto simp: message_from_wal_record_def messages_from_wal_records_def map_filter_def Cons_eq_map_conv)

lemma drafts_of_prepared:
  assumes "prepare_messages ops env s mutations room_id user_id dur i items = Inr prepared" "inj (me_uuid env)"
  shows "distinct (map md_id (drafts_of prepared))
    \<and> (\<forall>d\<in>set (drafts_of prepared). md_room_id d = room_id \<and> md_id d \<in> me_uuid env ` {i..})
    \<and> length (drafts_of prepared) \<le> length items"
  using assms(1)
proof (induction items arbitrary: i prepared)
  case (Cons x items)
  obtain item mid where x: "x = (item, mid)" by (cases x)
  obtain p ps where p: "prepared = p # ps" "prepare_messages ops env s mutations room_id user_id dur (i + 1) items = Inr ps"
    and one: "drafts_of [p] = [] \<or> (\<exists>refs. p = Prepared_Draft (message_draft_of env i dur room_id user_id (si_body item) mid refs))"
    using Cons.prems
    by (auto simp: x res_bind_def Let_def split: sum.splits option.splits if_splits)
  note IH = Cons.IH [OF p(2)]
  show ?case
  proof (cases "drafts_of [p] = []")
    case True
    then have "drafts_of prepared = drafts_of ps" by (cases p) (simp_all add: p(1))
    then show ?thesis using IH by fastforce
  next
    case False
    then obtain refs where "p = Prepared_Draft (message_draft_of env i dur room_id user_id (si_body item) mid refs)"
      using one by blast
    moreover have "me_uuid env i \<notin> me_uuid env ` {i + 1..}" using assms(2) by (simp add: inj_image_mem_iff)
    then have "me_uuid env i \<notin> md_id ` set (drafts_of ps)" using IH by auto
    ultimately show ?thesis using IH by (auto simp: p(1) message_draft_of_def)
  qed
qed simp

lemma append_messages_result:
  fixes nd nd' :: "('n, 's, 'g) message_node"
  assumes "append_messages env dur room_id ds nd = (r, nd')" "unat (sv_next_lsn (mn_server nd)) + length ds < 2 ^ 64"
    "ds \<noteq> []"
  shows "nd' = nd\<lparr>mn_server := mn_server nd'\<rparr>"
    "case r of
       Inl e \<Rightarrow> sv_wal (mn_server nd') = sv_wal (mn_server nd) \<and> sv_next_lsn (mn_server nd) \<le> sv_next_lsn (mn_server nd')
     | Inr ms \<Rightarrow> message_history nd' = message_history nd @ ms \<and> map msg_id ms = map md_id ds
         \<and> map msg_room_id ms = map md_room_id ds \<and> sorted_wrt (<) (map msg_lsn ms)
         \<and> (\<forall>m\<in>set ms. sv_next_lsn (mn_server nd) < msg_lsn m \<and> msg_lsn m \<le> sv_next_lsn (mn_server nd'))"
proof -
  let ?sv = "mn_server nd"
  show nd': "nd' = nd\<lparr>mn_server := mn_server nd'\<rparr>"
    using assms(1) by (auto simp: append_messages_def mn_on_server_def Let_def split: prod.splits)
  have quiet: "sv_bind (sv_lift x) k sv = (case x of Inl e \<Rightarrow> (Inl e, sv) | Inr y \<Rightarrow> k y sv)"
    for x :: "api_error + 'z" and k :: "'z \<Rightarrow> ('n, 's, 'g, 'y) handler" and sv
    by (simp add: sv_bind_def split: sum.split)
  show "case r of
       Inl e \<Rightarrow> sv_wal (mn_server nd') = sv_wal ?sv \<and> sv_next_lsn ?sv \<le> sv_next_lsn (mn_server nd')
     | Inr ms \<Rightarrow> message_history nd' = message_history nd @ ms \<and> map msg_id ms = map md_id ds
         \<and> map msg_room_id ms = map md_room_id ds \<and> sorted_wrt (<) (map msg_lsn ms)
         \<and> (\<forall>m\<in>set ms. sv_next_lsn ?sv < msg_lsn m \<and> msg_lsn m \<le> sv_next_lsn (mn_server nd'))"
  proof (cases "mn_server nd' = ?sv \<and> (\<exists>e. r = Inl e)")
    case False
    then obtain shard where shard: "sv_bind (append_ordered_wal_records env shard dur (map MessageCreated ds))
        (\<lambda>ws. sv_lift (messages_from_records ws)) ?sv = (r, mn_server nd')"
      using assms(1)
      by (auto simp: append_messages_def mn_on_server_def Let_def quiet split: prod.splits sum.splits)
    obtain ws :: "('n, 's, 'g) wal_record list" and final where ws: "number_payloads env shard dur (db_version (sv_schema ?sv)) (sv_next_lsn ?sv)
        (map MessageCreated ds) = (ws, final)" by fastforce
    note n = number_payloads_lsns [OF ws] assms(2)
    have payloads: "map wr_payload ws = map MessageCreated ds" using n by simp
    have len: "length ws = length ds" using payloads by (metis length_map)
    define ms where "ms = map2 (\<lambda>d w. message_of_draft d (wr_lsn w)) ds ws"
    have fields: "map msg_id ms = map md_id ds" "map msg_room_id ms = map md_room_id ds" "map msg_lsn ms = map wr_lsn ws"
      using len unfolding ms_def by (induction ds ws rule: list_induct2') (simp_all add: message_of_draft_def)
    have lsns: "\<forall>m\<in>set ms. msg_lsn m \<in> wr_lsn ` set ws"
      using fields(3) by (metis image_eqI image_set)
    note ms = messages_of_drafts [OF payloads, folded ms_def]
    show ?thesis
    proof (cases "en_append env")
      case (Inl e)
      then have "r = Inl e" "mn_server nd' = ?sv\<lparr>sv_next_lsn := final\<rparr>"
        using shard assms(3) by (simp_all add: append_ordered_wal_records_def ws sv_bind_def)
      then show ?thesis using n by simp
    next
      case (Inr u)
      then have "r = Inr ms" "sv_wal (mn_server nd') = sv_wal ?sv @ ws" "sv_next_lsn (mn_server nd') = final"
        using shard [symmetric] assms(3) ms(1) by (auto simp: append_ordered_wal_records_def ws sv_bind_def sv_lift_def)
      then show ?thesis using n fields lsns ms(2) by (fastforce simp: message_history_def messages_append)
    qed
  qed auto
qed

lemma send_messages_result:
  assumes "send_messages ops cops env room_id user_id items dur nd = (r, nd')" "dur \<noteq> Volatile"
    "unat (sv_next_lsn (mn_server nd)) + length items < 2 ^ 64" "inj (me_uuid env)"
  shows "messages_kept nd nd' \<or> (\<exists>ms. messages_sent cops env room_id ms nd nd')"
proof -
  have same_length: "length normalized = length xs" if "normalize_items env seen xs = Inr normalized" for seen xs normalized
    using that
    by (induction xs arbitrary: seen normalized)
      (auto simp: res_bind_def split: sum.splits option.splits if_splits)
  have "nd' = nd \<or> (\<exists>prepared normalized.
      normalize_items env [] items = Inr normalized
      \<and> prepare_messages ops env (sv_schema (mn_server nd)) (sv_mutations (mn_server nd)) room_id user_id dur 0 normalized
          = Inr prepared \<and> drafts_of prepared \<noteq> []
      \<and> mn_bind (append_messages (me_request env) dur room_id (drafts_of prepared)) (\<lambda>committed nd.
            (Inr (batch_output prepared committed), publish_messages cops env room_id committed nd)) nd = (r, nd'))"
    using assms(1,2)
    by (auto simp: send_messages_def mn_bind_def [of "mn_lift x" for x] mn_lift_def Let_def split: sum.splits if_splits)
  then show ?thesis
  proof
    assume "\<exists>prepared normalized.
      normalize_items env [] items = Inr normalized
      \<and> prepare_messages ops env (sv_schema (mn_server nd)) (sv_mutations (mn_server nd)) room_id user_id dur 0 normalized
          = Inr prepared \<and> drafts_of prepared \<noteq> []
      \<and> mn_bind (append_messages (me_request env) dur room_id (drafts_of prepared)) (\<lambda>committed nd.
            (Inr (batch_output prepared committed), publish_messages cops env room_id committed nd)) nd = (r, nd')"
    then obtain prepared normalized where n: "normalize_items env [] items = Inr normalized"
      and p: "prepare_messages ops env (sv_schema (mn_server nd)) (sv_mutations (mn_server nd)) room_id user_id dur 0 normalized
          = Inr prepared" and some: "drafts_of prepared \<noteq> []"
      and run: "mn_bind (append_messages (me_request env) dur room_id (drafts_of prepared)) (\<lambda>committed nd.
            (Inr (batch_output prepared committed), publish_messages cops env room_id committed nd)) nd = (r, nd')" by blast
    note d = drafts_of_prepared [OF p assms(4)]
    have left: "unat (sv_next_lsn (mn_server nd)) + length (drafts_of prepared) < 2 ^ 64"
      using d assms(3) same_length [OF n] by linarith
    from run show ?thesis
    proof (cases rule: mn_bind_split)
      case (failed e)
      note a = append_messages_result [OF failed(1) left some]
      have "mn_chat nd' = mn_chat nd" "mn_runtime nd' = mn_runtime nd" by (subst a(1), simp)+
      then show ?thesis using a(2) by (simp add: messages_kept_def message_history_def)
    next
      case (ran ms nd1)
      note a = append_messages_result [OF ran(1) left some]
      have ms: "message_history nd1 = message_history nd @ ms" "map msg_id ms = map md_id (drafts_of prepared)"
        "map msg_room_id ms = map md_room_id (drafts_of prepared)" "sorted_wrt (<) (map msg_lsn ms)"
        "\<forall>m\<in>set ms. sv_next_lsn (mn_server nd) < msg_lsn m \<and> msg_lsn m \<le> sv_next_lsn (mn_server nd1)"
        using a(2) by simp_all
      have kept: "mn_chat nd1 = mn_chat nd" "mn_runtime nd1 = mn_runtime nd" by (subst a(1), simp)+
      have "ms \<noteq> []" using some ms(2) by auto
      have ids: "\<forall>m\<in>set ms. msg_id m \<in> range (me_uuid env)"
      proof
        fix m assume "m \<in> set ms"
        then have "msg_id m \<in> set (map md_id (drafts_of prepared))" unfolding ms(2) [symmetric] by simp
        then show "msg_id m \<in> range (me_uuid env)" using d by auto
      qed
      have rooms: "\<forall>m\<in>set ms. msg_room_id m = room_id"
      proof
        fix m assume "m \<in> set ms"
        then have "msg_room_id m \<in> set (map md_room_id (drafts_of prepared))" unfolding ms(3) [symmetric] by simp
        then show "msg_room_id m = room_id" using d by auto
      qed
      have nd': "nd' = publish_messages cops env room_id ms nd1" using ran(2) by simp
      have "messages_sent cops env room_id ms nd nd'"
        using ms kept ids rooms d \<open>ms \<noteq> []\<close>
        by (simp add: nd' messages_sent_def publish_messages_def message_history_def)
      then show ?thesis by blast
    qed
  qed simp
qed

section \<open>The invariant along a run\<close>

definition fresh_request :: "(bytes \<Rightarrow> bytes) \<Rightarrow> 'n message_env \<Rightarrow> ('n, 's, 'g) message_node \<Rightarrow> bool" where
  "fresh_request digest env nd \<longleftrightarrow>
     en_sha256 (me_request env) = digest \<and> inj (me_uuid env)
     \<and> range (me_uuid env) \<inter> msg_id ` set (message_history nd) = {}"

lemma history_split: "history_of room nd = filter (\<lambda>m. msg_room_id m = room) (message_history nd)"
  by (fact history_of_def)

lemma kept_inv:
  assumes "messages_kept nd nd'" "messages_inv cops nd" "room_is_end digest room nd"
  shows "messages_inv cops nd' \<and> room_is_end digest room nd'"
  using assms by (auto simp: messages_kept_def messages_inv_def room_is_end_def history_of_def split: option.splits intro: order_trans)

lemma sent_inv:
  assumes "messages_sent cops env r ms nd nd'" "messages_inv cops nd" "room_is_end digest room nd"
    "fresh_request digest env nd" "plain r" "log_laws cops nd'"
  shows "messages_inv cops nd' \<and> room_is_end digest room nd'"
proof -
  note sent = assms(1) [unfolded messages_sent_def] and inv = assms(2) [unfolded messages_inv_def]
  let ?lsn = "sv_next_lsn (mn_server nd)"
  have order: "in_order (message_history nd @ ms)"
  proof -
    have "0 < y" if "?lsn < y" for y using le_less_trans [OF word_zero_le that] .
    then have "in_order ms" using sent by (simp add: in_order_def)
    moreover have "msg_lsn x < msg_lsn y" if "x \<in> set (message_history nd)" "y \<in> set ms" for x y
    proof -
      have "msg_lsn x \<le> ?lsn" "?lsn < msg_lsn y" using that sent inv by simp_all
      then show ?thesis by (rule le_less_trans)
    qed
    ultimately show ?thesis using inv by (simp add: in_order_append)
  qed
  have ids: "distinct (map msg_id (message_history nd @ ms))"
  proof -
    have "msg_id ` set ms \<subseteq> range (me_uuid env)" using sent by blast
    then have "msg_id ` set (message_history nd) \<inter> msg_id ` set ms = {}"
      using assms(4) unfolding fresh_request_def by blast
    then show ?thesis using sent inv by simp
  qed
  have bounds: "\<forall>m\<in>set (message_history nd @ ms). msg_lsn m \<le> sv_next_lsn (mn_server nd') \<and> plain (msg_room_id m)"
  proof -
    obtain m where "m \<in> set ms" using sent by (cases ms) auto
    then have "?lsn < msg_lsn m" "msg_lsn m \<le> sv_next_lsn (mn_server nd')" using sent by simp_all
    then have "?lsn \<le> sv_next_lsn (mn_server nd')" by (meson less_imp_le order_trans)
    then show ?thesis using sent inv assms(5) by (auto intro: order_trans [of _ ?lsn])
  qed
  have chat: "chat_holds cops (message_history nd @ ms) (chat_append_many cops ms (mn_chat nd))"
    using inv sent assms(6) slots_of_ids [OF ids] bounds by (intro append_many_holds) (auto simp: log_laws_def)
  have "messages_inv cops nd'"
    using sent inv order ids bounds chat by (simp add: messages_inv_def apply_messages_inv)
  moreover have "room_is_end digest room nd'"
  proof -
    let ?rt = "mn_runtime nd"
    have fits: "rt_fits (ac_hot_window (rt_config ?rt)) ?rt" using inv by (simp add: rooms_inv_def)
    have runtime: "mn_runtime nd' = apply_messages digest (en_now (me_request env)) ms ?rt"
      using sent assms(4) by (simp add: fresh_request_def)
    have rooms: "\<forall>m\<in>set ms. msg_room_id m = r" using sent by simp
    have "room_in_memory digest room (mn_runtime nd') = None
      \<or> room_in_memory digest room (mn_runtime nd')
        = (if room = r then Some (room_after (ac_hot_window (rt_config ?rt))
              (case room_in_memory digest r ?rt of None \<Rightarrow> [] | Some h \<Rightarrow> h) ms)
           else room_in_memory digest room ?rt)"
      unfolding runtime by (rule apply_messages_room(1) [OF fits conjunct1 [OF sent] rooms])
    then show ?thesis
    proof
      assume memory: "room_in_memory digest room (mn_runtime nd')
        = (if room = r then Some (room_after (ac_hot_window (rt_config ?rt))
              (case room_in_memory digest r ?rt of None \<Rightarrow> [] | Some h \<Rightarrow> h) ms)
           else room_in_memory digest room ?rt)"
      show ?thesis
      proof (cases "room = r")
        case True
        let ?held = "case room_in_memory digest r ?rt of None \<Rightarrow> [] | Some h \<Rightarrow> h"
        have hist: "history_of room nd' = history_of room nd @ ms"
          using sent True rooms by (simp add: history_of_def)
        have "\<exists>k. ?held = drop k (history_of room nd)"
          using assms(3) True by (cases "room_in_memory digest r ?rt") (auto simp: room_is_end_def intro: exI [of _ "length (history_of room nd)"])
        then obtain k where "?held = drop k (history_of room nd)" by blast
        then have held: "?held @ ms = drop (min k (length (history_of room nd))) (history_of room nd @ ms)"
          by (cases "k \<le> length (history_of room nd)") (simp_all add: min_def)
        have "in_order (history_of room nd @ ms)"
          using in_order_filter [OF order, of "\<lambda>m. msg_room_id m = room"] rooms True by (simp add: history_of_def)
        then have "in_order (?held @ ms)" unfolding held using in_order_parts by blast
        from room_after_order [OF this] have
          "room_after (ac_hot_window (rt_config ?rt)) ?held ms = drop (length (?held @ ms) - ac_hot_window (rt_config ?rt))
             (drop (min k (length (history_of room nd))) (history_of room nd @ ms))" by (simp only: held)
        then have "room_in_memory digest room (mn_runtime nd')
            = Some (drop (length (?held @ ms) - ac_hot_window (rt_config ?rt) + min k (length (history_of room nd)))
                (history_of room nd'))"
          using memory True hist by (simp del: drop_append)
        then show ?thesis unfolding room_is_end_def by (simp add: exI)
      next
        case False
        then have "history_of room nd' = history_of room nd" using sent rooms by (simp add: history_of_def filter_empty_conv)
        then show ?thesis using memory False assms(3) by (auto simp: room_is_end_def split: option.splits)
      qed
    qed (simp add: room_is_end_def)
  qed
  ultimately show ?thesis ..
qed

section \<open>A read\<close>

text \<open>Every room in memory holds messages of that room only.\<close>

definition rooms_own :: "(bytes \<Rightarrow> bytes) \<Rightarrow> 'n runtime \<Rightarrow> bool" where
  "rooms_own digest rt \<longleftrightarrow>
     (\<forall>r h. room_in_memory digest r rt = Some h \<longrightarrow> (\<forall>m\<in>set h. msg_room_id m = r))"

definition memory_less :: "(bytes \<Rightarrow> bytes) \<Rightarrow> string \<Rightarrow> 'n runtime \<Rightarrow> 'n runtime \<Rightarrow> bool" where
  "memory_less digest r rt rt' \<longleftrightarrow>
     room_in_memory digest r rt' = room_in_memory digest r rt \<or> room_in_memory digest r rt' = None"

lemma memory_less_refl [simp, intro]: "memory_less digest r rt rt"
  by (simp add: memory_less_def)

lemma memory_less_trans: "memory_less digest r rt rt1 \<Longrightarrow> memory_less digest r rt1 rt2 \<Longrightarrow> memory_less digest r rt rt2"
  by (auto simp: memory_less_def)

lemma rooms_own_less: "(\<And>r. memory_less digest r rt rt') \<Longrightarrow> rooms_own digest rt \<Longrightarrow> rooms_own digest rt'"
  unfolding rooms_own_def memory_less_def by (metis option.distinct(1))

lemma room_is_end_less:
  assumes "memory_less digest room (mn_runtime nd) (mn_runtime nd')" "history_of room nd' = history_of room nd"
    "room_is_end digest room nd"
  shows "room_is_end digest room nd'"
  using assms by (auto simp: memory_less_def room_is_end_def split: option.splits)

lemma rooms_inv_shards: "rooms_inv rt \<Longrightarrow> rt_shards rt \<noteq> []"
  by (simp add: rooms_inv_def rt_fits_def)

lemma set_room_sort [simp]: "set (Actor.sort_by cmp xs) = set xs"
proof -
  have "set (Actor.insert_by cmp x ys) = insert x (set ys)" for x ys by (induction ys) auto
  then show ?thesis by (induction xs) (simp_all add: Actor.sort_by_def)
qed

lemma room_after_set: "set (room_after w held ms) \<subseteq> set held \<union> set ms"
  by (auto simp: room_after_def Let_def dest!: in_set_dropD)

lemma apply_own:
  assumes "rooms_inv rt" "rooms_own digest rt" "\<forall>m\<in>set ms. msg_room_id m = r"
  shows "rooms_own digest (apply_messages digest now ms rt)" "r' \<noteq> r \<Longrightarrow> memory_less digest r' rt (apply_messages digest now ms rt)"
proof -
  have fits: "rt_fits (ac_hot_window (rt_config rt)) rt" using assms(1) by (simp add: rooms_inv_def)
  have "rooms_own digest (apply_messages digest now ms rt)
    \<and> (r' \<noteq> r \<longrightarrow> memory_less digest r' rt (apply_messages digest now ms rt))"
  proof (cases "ms = []")
    case True
    then show ?thesis using assms(2) by (simp add: apply_messages_def)
  next
    case False
    note a = apply_messages_room(1) [OF fits False assms(3), of digest _ now]
    have "\<forall>m\<in>set h. msg_room_id m = q" if memory: "room_in_memory digest q (apply_messages digest now ms rt) = Some h" for q h
    proof (cases "q = r")
      case True
      let ?held = "case room_in_memory digest r rt of None \<Rightarrow> [] | Some h \<Rightarrow> h"
      have "\<forall>m\<in>set ?held. msg_room_id m = r"
        using assms(2) by (cases "room_in_memory digest r rt") (auto simp: rooms_own_def)
      moreover have "h = room_after (ac_hot_window (rt_config rt)) ?held ms"
        using a [of q] memory True by simp
      ultimately show ?thesis using room_after_set assms(3) True by fastforce
    next
      case other: False
      then have "room_in_memory digest q rt = Some h" using a [of q] memory by simp
      then show ?thesis using assms(2) unfolding rooms_own_def by blast
    qed
    moreover have "memory_less digest r' rt (apply_messages digest now ms rt)" if "r' \<noteq> r"
      using a [of r'] that by (auto simp: memory_less_def)
    ultimately show ?thesis unfolding rooms_own_def by blast
  qed
  then show "rooms_own digest (apply_messages digest now ms rt)"
    "r' \<noteq> r \<Longrightarrow> memory_less digest r' rt (apply_messages digest now ms rt)" by blast+
qed

lemma newest_page_set: "m \<in> set (newest_page room before_lsn limit ms) \<Longrightarrow> m \<in> set ms \<and> msg_room_id m = room"
  by (auto simp: newest_page_def dest!: in_set_takeD)

lemma page_of_room_set: "m \<in> set (page_of_room before_lsn limit held) \<Longrightarrow> m \<in> set held"
  by (auto simp: page_of_room_def split: option.splits dest!: in_set_takeD)

lemma chat_page:
  assumes "messages_inv cops nd" "log_laws cops nd" "plain r" "0 < limit"
  shows "chat_latest cops r before_lsn limit (mn_chat nd)
    = (Some (newest_page r before_lsn limit (message_history nd)), mn_chat nd)"
  using assms slots_of_ids by (intro held_page) (auto simp: messages_inv_def log_laws_def)

text \<open>What a read does, whatever the room holds.\<close>

lemma read_cases:
  assumes "messages_inv cops nd" "log_laws cops nd" "plain r" "en_sha256 (me_request env) = digest"
    "read_latest_messages cops env r given before_lsn nd = (res, nd')"
  obtains held rt1 page where
    "held = room_in_memory digest r (mn_runtime nd) \<or> held = None"
    "ac_hot_room_idle_ttl_ms (rt_config (mn_runtime nd)) = 0 \<longrightarrow> held = room_in_memory digest r (mn_runtime nd)"
    "latest_messages digest (en_now (me_request env)) r before_lsn (normalize_limit given) (mn_runtime nd)
       = (page, rt1)" "page = (case held of None \<Rightarrow> [] | Some h \<Rightarrow> page_of_room before_lsn (normalize_limit given) h)"
    "rooms_inv rt1" "rt_config rt1 = rt_config (mn_runtime nd)" "room_in_memory digest r rt1 = held"
    "\<And>r'. memory_less digest r' (mn_runtime nd) rt1"
    "(normalize_limit given \<le> length page \<and> nd' = nd\<lparr>mn_runtime := rt1\<rparr>
        \<and> res = Inr \<lparr>mr_room_id = r, mr_source = Live_Source, mr_messages = page\<rparr>)
     \<or> (length page < normalize_limit given \<and> page \<noteq> []
        \<and> (\<exists>merged. merged = merge_page (normalize_limit given) [] []
              (page @ newest_page r before_lsn (normalize_limit given) (message_history nd))
            \<and> nd' = nd\<lparr>mn_runtime := apply_messages digest (en_now (me_request env)) merged rt1\<rparr>
            \<and> res = Inr \<lparr>mr_room_id = r, mr_source = Live_Source, mr_messages = merged\<rparr>))
     \<or> (page = [] \<and> (\<exists>ms. ms = newest_page r before_lsn (normalize_limit given) (message_history nd)
            \<and> nd' = nd\<lparr>mn_runtime := apply_messages digest (en_now (me_request env)) ms rt1\<rparr>
            \<and> res = Inr \<lparr>mr_room_id = r, mr_source = Chat_Log_Source, mr_messages = ms\<rparr>))"
proof -
  let ?limit = "normalize_limit given" and ?now = "en_now (me_request env)"
  obtain page rt1 where l: "latest_messages digest ?now r before_lsn ?limit (mn_runtime nd) = (page, rt1)" by fastforce
  have inv: "rooms_inv (mn_runtime nd)" using assms(1) by (simp add: messages_inv_def)
  note room = latest_messages_room [OF inv l]
  have rt1: "rooms_inv rt1" using latest_messages_inv [OF inv, of digest ?now r before_lsn ?limit] l by simp
  obtain held where held: "held = room_in_memory digest r (mn_runtime nd) \<or> held = None"
    "ac_hot_room_idle_ttl_ms (rt_config (mn_runtime nd)) = 0 \<longrightarrow> held = room_in_memory digest r (mn_runtime nd)"
    "page = (case held of None \<Rightarrow> [] | Some h \<Rightarrow> page_of_room before_lsn ?limit h)"
    "room_in_memory digest r rt1 = held" "rt_config rt1 = rt_config (mn_runtime nd)" using room(1) by blast
  have less: "memory_less digest r' (mn_runtime nd) rt1" for r' unfolding memory_less_def by (rule room(2))
  have chat: "chat_latest cops r before_lsn ?limit (mn_chat nd)
    = (Some (newest_page r before_lsn ?limit (message_history nd)), mn_chat nd)"
    by (rule chat_page [OF assms(1,2,3) normalize_limit_pos])
  have run: "(?limit \<le> length page \<and> nd' = nd\<lparr>mn_runtime := rt1\<rparr>
        \<and> res = Inr \<lparr>mr_room_id = r, mr_source = Live_Source, mr_messages = page\<rparr>)
     \<or> (length page < ?limit \<and> page \<noteq> []
        \<and> (\<exists>merged. merged = merge_page ?limit [] []
              (page @ newest_page r before_lsn ?limit (message_history nd))
            \<and> nd' = nd\<lparr>mn_runtime := apply_messages digest ?now merged rt1\<rparr>
            \<and> res = Inr \<lparr>mr_room_id = r, mr_source = Live_Source, mr_messages = merged\<rparr>))
     \<or> (page = [] \<and> (\<exists>ms. ms = newest_page r before_lsn ?limit (message_history nd)
            \<and> nd' = nd\<lparr>mn_runtime := apply_messages digest ?now ms rt1\<rparr>
            \<and> res = Inr \<lparr>mr_room_id = r, mr_source = Chat_Log_Source, mr_messages = ms\<rparr>))"
    using assms(5) by (auto simp: read_latest_messages_def Let_def assms(4) l chat split: if_splits)
  show thesis by (rule that [OF held(1,2) l held(3) rt1 held(5,4) less run])
qed

text \<open>The page of a room that is the end of its history, completed from the chat log.\<close>

lemma bounded_history:
  "in_order (message_history nd) \<Longrightarrow>
     newest_page r before_lsn limit (message_history nd)
       = take limit (filter (\<lambda>m. before_bound before_lsn (msg_lsn m)) (rev (history_of r nd)))"
  unfolding history_of_def by (rule newest_page_rev) (rule in_order_filter)

lemma history_in_order: "messages_inv cops nd \<Longrightarrow> in_order (history_of r nd)"
  by (simp add: messages_inv_def history_of_def in_order_filter)

lemma read_page:
  assumes "messages_inv cops nd" "log_laws cops nd" "plain r" "en_sha256 (me_request env) = digest"
    "room_is_end digest r nd" "read_latest_messages cops env r given before_lsn nd = (res, nd')"
  shows "\<exists>source. res = Inr \<lparr>mr_room_id = r, mr_source = source,
      mr_messages = newest_page r before_lsn (normalize_limit given) (message_history nd)\<rparr>"
proof -
  let ?limit = "normalize_limit given" and ?h = "history_of r nd"
  let ?f = "filter (\<lambda>m. before_bound before_lsn (msg_lsn m)) (rev ?h)"
  have order: "in_order (message_history nd)" "distinct (map msg_id (message_history nd))"
    using assms(1) by (simp_all add: messages_inv_def)
  note newest = bounded_history [OF order(1), of r before_lsn ?limit]
  have ids: "distinct (map msg_id ?f)"
    using order(2) unfolding history_of_def by (intro distinct_map_filter) (simp add: rev_map [symmetric] distinct_map_filter)
  from assms(1-4,6) show ?thesis
  proof (cases rule: read_cases)
    case (1 held rt1 page)
    obtain j where page: "page = take (min ?limit j) ?f"
    proof (cases held)
      case None
      then show ?thesis using that [of 0] 1(4) by simp
    next
      case (Some h)
      then have "room_in_memory digest r (mn_runtime nd) = Some h" using 1(1) by auto
      then obtain k where h: "h = drop k ?h" using assms(5) by (auto simp: room_is_end_def)
      obtain j where "page_of_room before_lsn ?limit (drop k ?h) = take (min ?limit j) ?f"
        using page_of_suffix [OF history_in_order [OF assms(1)]] by blast
      then show ?thesis using that 1(4) Some h by simp
    qed
    have full: "page = take ?limit ?f" if "?limit \<le> length page"
      using that unfolding page by (auto simp: min_def split: if_splits)
    have merged: "merge_page ?limit [] [] (page @ take ?limit ?f) = take ?limit ?f"
      unfolding page by (rule merge_prefix [OF ids normalize_limit_pos])
    from 1(9) show ?thesis using full merged by (elim disjE exE conjE) (simp_all add: newest)
  qed
qed

text \<open>A read that leaves the room the end of its history: a full page, or a first page from the chat log.\<close>

definition plain_read :: "'n message_env \<Rightarrow> string \<Rightarrow> nat option \<Rightarrow> u64 option \<Rightarrow> ('n, 's, 'g) message_node \<Rightarrow> bool" where
  "plain_read env r given before_lsn nd \<longleftrightarrow>
     (let page = fst (latest_messages (en_sha256 (me_request env)) (en_now (me_request env)) r before_lsn
          (normalize_limit given) (mn_runtime nd))
      in normalize_limit given \<le> length page \<or> (page = [] \<and> before_lsn = None))"

text \<open>A page of the chat log in an empty room.\<close>

lemma fill_room:
  assumes "messages_inv cops nd" "rooms_inv rt" "rt_config rt = rt_config (mn_runtime nd)"
    "room_in_memory digest r rt = None \<or> room_in_memory digest r rt = Some []"
    "nd' = nd\<lparr>mn_runtime := apply_messages digest now (newest_page r None limit (message_history nd)) rt\<rparr>"
  shows "room_is_end digest r nd'"
proof -
  let ?ms = "newest_page r None limit (message_history nd)" and ?w = "ac_hot_window (rt_config rt)"
  have order: "in_order (message_history nd)" using assms(1) by (simp add: messages_inv_def)
  have ms: "?ms = rev (drop (length (history_of r nd) - limit) (history_of r nd))"
    using bounded_history [OF order, of r None limit] by (simp add: before_bound_def take_rev)
  have same: "history_of r nd' = history_of r nd" "mn_runtime nd' = apply_messages digest now ?ms rt"
    by (simp_all add: assms(5) history_of_def message_history_def)
  have empty: "room_is_end digest r nd'" if "mn_runtime nd' = rt"
  proof -
    have "\<exists>k. [] = drop k (history_of r nd')" by (rule exI [of _ "length (history_of r nd')"]) simp
    then show ?thesis using assms(4) that unfolding room_is_end_def by (elim disjE) simp_all
  qed
  show ?thesis
  proof (cases "?ms = []")
    case True
    then show ?thesis using empty same(2) by (simp add: apply_messages_def)
  next
    case False
    have "rt_fits ?w rt" using assms(2) by (simp add: rooms_inv_def)
    moreover have "\<forall>m\<in>set ?ms. msg_room_id m = r" using newest_page_set by blast
    ultimately have "room_in_memory digest r (mn_runtime nd') = None
      \<or> room_in_memory digest r (mn_runtime nd') = Some (room_after ?w [] ?ms)"
      using apply_messages_room(1) [of rt ?ms r digest r now] False assms(4) same(2) by auto
    moreover have "room_after ?w [] ?ms = drop (limit_of - ?w) (drop (length (history_of r nd) - limit) (history_of r nd))"
      if "limit_of = length (drop (length (history_of r nd) - limit) (history_of r nd))" for limit_of
      unfolding ms that using in_order_parts [OF history_in_order [OF assms(1)]] by (intro room_after_page) blast
    ultimately show ?thesis by (auto simp: room_is_end_def same)
  qed
qed

lemma read_state:
  assumes "messages_inv cops nd" "log_laws cops nd" "plain r" "en_sha256 (me_request env) = digest"
    "rooms_own digest (mn_runtime nd)" "read_latest_messages cops env r given before_lsn nd = (res, nd')"
  shows "messages_inv cops nd'" "nd' = nd\<lparr>mn_runtime := mn_runtime nd'\<rparr>" "rooms_own digest (mn_runtime nd')"
    "room \<noteq> r \<Longrightarrow> memory_less digest room (mn_runtime nd) (mn_runtime nd')"
    "plain_read env r given before_lsn nd \<Longrightarrow> room_is_end digest r nd \<Longrightarrow> room_is_end digest r nd'"
proof -
  let ?limit = "normalize_limit given" and ?now = "en_now (me_request env)"
  have "messages_inv cops nd' \<and> nd' = nd\<lparr>mn_runtime := mn_runtime nd'\<rparr> \<and> rooms_own digest (mn_runtime nd')
    \<and> (room \<noteq> r \<longrightarrow> memory_less digest room (mn_runtime nd) (mn_runtime nd'))
    \<and> (plain_read env r given before_lsn nd \<longrightarrow> room_is_end digest r nd \<longrightarrow> room_is_end digest r nd')"
    using assms(1-4,6)
  proof (cases rule: read_cases)
    case (1 held rt1 page)
    have own1: "rooms_own digest rt1" by (rule rooms_own_less [OF 1(8) assms(5)])
    have rooms: "\<forall>m\<in>set page. msg_room_id m = r"
      using own1 1(4,7) by (auto simp: rooms_own_def split: option.splits dest!: page_of_room_set)
    have keep: "messages_inv cops (nd\<lparr>mn_runtime := rt\<rparr>)" if "rooms_inv rt" for rt
      using assms(1) that by (simp add: messages_inv_def message_history_def)
    have history: "history_of room (nd\<lparr>mn_runtime := rt\<rparr>) = history_of room nd" for room rt
      by (simp add: history_of_def message_history_def)
    have plain: "plain_read env r given before_lsn nd \<longleftrightarrow> ?limit \<le> length page \<or> (page = [] \<and> before_lsn = None)"
      by (simp add: plain_read_def assms(4) 1(3))
    have stay: "room_is_end digest room nd \<Longrightarrow> room_is_end digest room (nd\<lparr>mn_runtime := rt1\<rparr>)" for room
      by (rule room_is_end_less [of digest _ nd]) (simp_all add: 1(8) history)
    have applied: "messages_inv cops (nd\<lparr>mn_runtime := apply_messages digest ?now ms rt1\<rparr>)
        \<and> rooms_own digest (apply_messages digest ?now ms rt1)
        \<and> (room \<noteq> r \<longrightarrow> memory_less digest room (mn_runtime nd) (apply_messages digest ?now ms rt1))"
      if "\<forall>m\<in>set ms. msg_room_id m = r" for ms
      using keep [OF apply_messages_inv [OF 1(5)]] apply_own [OF 1(5) own1 that]
        memory_less_trans [OF 1(8)] by blast
    from 1(9) show ?thesis
    proof (elim disjE exE conjE, goal_cases)
      case 1
      then show ?case using keep \<open>rooms_inv rt1\<close> own1 \<open>\<And>r'. memory_less digest r' (mn_runtime nd) rt1\<close> stay by simp
    next
      case (2 merged)
      have "set (merge_page n seen xs ys) \<subseteq> set xs \<union> set ys" for n seen xs ys
        by (induction n seen xs ys rule: merge_page.induct) auto
      then have "\<forall>m\<in>set merged. msg_room_id m = r" using 2(3) rooms newest_page_set by fastforce
      from applied [OF this] show ?case using 2 plain by simp
    next
      case (3 ms)
      have "\<forall>m\<in>set ms. msg_room_id m = r" using 3(2) newest_page_set by blast
      moreover have "room_is_end digest r (nd\<lparr>mn_runtime := apply_messages digest ?now ms rt1\<rparr>)" if "before_lsn = None"
      proof -
        have "held = None \<or> held = Some []"
          using 3(1) 1(4) that normalize_limit_pos [of given] by (cases held) (auto simp: page_of_room_def)
        then show ?thesis
          using 1(7) 3(2) that by (intro fill_room [OF assms(1) 1(5,6), where now = ?now and limit = ?limit]) auto
      qed
      moreover have "\<not> ?limit \<le> length page" using 3(1) normalize_limit_pos [of given] by simp
      ultimately show ?case using applied [of ms] 3 plain by simp
    qed
  qed
  then show "messages_inv cops nd'" "nd' = nd\<lparr>mn_runtime := mn_runtime nd'\<rparr>" "rooms_own digest (mn_runtime nd')"
    "room \<noteq> r \<Longrightarrow> memory_less digest room (mn_runtime nd) (mn_runtime nd')"
    "plain_read env r given before_lsn nd \<Longrightarrow> room_is_end digest r nd \<Longrightarrow> room_is_end digest r nd'" by simp_all
qed

end
