(* ===== verification/Message_Runs.thy ===== *)
theory Message_Runs
  imports Message_Pages Record_Guarantees
begin

text \<open>
  The runs of the message requests and their properties: a read answers the newest messages of the
  log while the room was not filled by hand, and the two ways in which a read fills it wrongly.
\<close>

section \<open>Requests\<close>

datatype 'n node_request =
    Mutate_Request "'n mutate_request"
  | Read_Request string "nat option" "u64 option"
  | Activate_Request string "nat option"
  | Evict_Request string
  | Upsert_Request string "'n upsert_user_request"

fun serve ::
  "('n, 'y) number_ops_scheme \<Rightarrow> ('z) chat_ops_scheme \<Rightarrow> 'n message_env \<Rightarrow> 'n node_request \<Rightarrow>
     ('n, 's, 'g) message_node \<Rightarrow> ('n, 's, 'g) message_node" where
  "serve ops cops env (Mutate_Request request) nd = snd (mutate ops cops env request nd)"
| "serve ops cops env (Read_Request r given before_lsn) nd = snd (read_latest_messages cops env r given before_lsn nd)"
| "serve ops cops env (Activate_Request r given) nd = snd (activate_runtime_room cops env r given nd)"
| "serve ops cops env (Evict_Request r) nd = snd (evict_runtime_room env r nd)"
| "serve ops cops env (Upsert_Request user_id profile) nd = snd (upsert_user env user_id profile nd)"

text \<open>LSNs are left for the records of a request, a room id holds no NUL, and a message is durable.\<close>

fun mutation_fits :: "'n mutate_request \<Rightarrow> ('n, 's, 'g) message_node \<Rightarrow> bool" where
  "mutation_fits (Send_Message r user_id body attachments dur mutation_id) nd \<longleftrightarrow>
     plain r \<and> dur \<noteq> Volatile \<and> unat (sv_next_lsn (mn_server nd)) + 1 < 2 ^ 64"
| "mutation_fits (Send_Messages r user_id items dur) nd \<longleftrightarrow>
     plain r \<and> dur \<noteq> Volatile \<and> unat (sv_next_lsn (mn_server nd)) + length items < 2 ^ 64"
| "mutation_fits _ nd \<longleftrightarrow> unat (sv_next_lsn (mn_server nd)) + 1 < 2 ^ 64"

text \<open>Only reads and activations of the room itself are restricted.\<close>

fun request_fits :: "string \<Rightarrow> 'n message_env \<Rightarrow> 'n node_request \<Rightarrow> ('n, 's, 'g) message_node \<Rightarrow> bool" where
  "request_fits room env (Mutate_Request request) nd \<longleftrightarrow> mutation_fits request nd"
| "request_fits room env (Read_Request r given before_lsn) nd \<longleftrightarrow>
     plain r \<and> (r = room \<longrightarrow> plain_read env r given before_lsn nd)"
| "request_fits room env (Activate_Request r given) nd \<longleftrightarrow>
     plain (trim r) \<and> (trim r = room \<longrightarrow> \<not> has_room (en_sha256 (me_request env)) room (mn_runtime nd))"
| "request_fits room env (Evict_Request r) nd \<longleftrightarrow> True"
| "request_fits room env (Upsert_Request user_id profile) nd \<longleftrightarrow> unat (sv_next_lsn (mn_server nd)) + 1 < 2 ^ 64"

inductive message_step ::
  "('n, 'y) number_ops_scheme \<Rightarrow> ('z) chat_ops_scheme \<Rightarrow> (bytes \<Rightarrow> bytes) \<Rightarrow> string \<Rightarrow>
     ('n, 's, 'g) message_node \<Rightarrow> ('n, 's, 'g) message_node \<Rightarrow> bool"
  for ops :: "('n, 'y) number_ops_scheme" and cops :: "('z) chat_ops_scheme" and digest and room where
  message_step_serve: "fresh_request digest env nd \<Longrightarrow> request_fits room env request nd \<Longrightarrow>
     message_step ops cops digest room nd (serve ops cops env request nd)"

inductive_cases message_step_elim: "message_step ops cops digest room nd nd'"

section \<open>What a request logs\<close>

text \<open>A request for a user record: refused, failed at the append, or logged and published.\<close>

lemma append_user_record_kept:
  assumes "append_user_record env user_id dur payload nd = (r, nd')" "unat (sv_next_lsn (mn_server nd)) + 1 < 2 ^ 64"
    "\<forall>d. payload \<noteq> MessageCreated d"
  shows "messages_kept nd nd'"
proof -
  have other: "messages_from_wal_records [w] = []" if "wr_payload w = payload" for w
    using that assms(3) by (auto simp: messages_from_wal_records_def map_filter_def split: wal_payload.split)
  have "sv_next_lsn (mn_server nd) \<le> sv_next_lsn (mn_server nd) + 1" using sat_next [OF assms(2)] by simp
  then show ?thesis
    using assms(1)
    by (auto simp: append_user_record_def mn_bind_def mn_on_server_def sv_bind_def sv_lift_def Let_def
        append_ordered_wal_record_def messages_kept_def message_history_def
        messages_append other split: prod.splits sum.splits)
qed

lemma messages_kept_publish [simp]: "messages_kept nd (mn_publish es nd') = messages_kept nd nd'"
  by (simp add: messages_kept_def)

lemma mn_bind_lift: "mn_bind (mn_lift x) k nd = (case x of Inl e \<Rightarrow> (Inl e, nd) | Inr y \<Rightarrow> k y nd)"
  by (simp add: mn_bind_def mn_lift_def split: sum.split)

lemma mn_publish_none [simp]: "mn_publish [] nd = nd"
  by (simp add: mn_publish_def)

lemma bind_published:
  assumes "mn_bind m k nd = (r, nd')" "\<And>w nd1. \<exists>es. snd (k w nd1) = mn_publish es nd1"
  shows "\<exists>x nd1 es. m nd = (x, nd1) \<and> nd' = mn_publish es nd1"
  using assms(1)
proof (cases rule: mn_bind_split)
  case (failed e)
  then show ?thesis using mn_publish_none by metis
next
  case (ran w nd1)
  then show ?thesis using assms(2) [of w nd1] by (metis snd_conv)
qed

lemma upsert_user_cases:
  assumes "upsert_user env user_id request nd = (r, nd')"
  obtains "nd' = nd"
  | d x es nd1 where "append_user_record (me_request env) user_id Strict (UserUpserted d) nd = (x, nd1)" "nd' = mn_publish es nd1"
proof -
  have "nd' = nd \<or> (\<exists>d. mn_bind (append_user_record (me_request env) user_id Strict (UserUpserted d)) (\<lambda>w nd.
      let u = profile_of_draft d (wr_lsn w) in (Inr u, mn_publish [EvUserUpserted user_id u] nd)) nd = (r, nd'))"
    using assms
    by (auto simp: upsert_user_def mn_bind_lift Let_def split: sum.splits option.splits if_splits)
  then show thesis
  proof (elim disjE exE)
    fix d assume "mn_bind (append_user_record (me_request env) user_id Strict (UserUpserted d)) (\<lambda>w nd.
      let u = profile_of_draft d (wr_lsn w) in (Inr u, mn_publish [EvUserUpserted user_id u] nd)) nd = (r, nd')"
    from bind_published [OF this] show thesis using that(2) by (auto simp: Let_def)
  qed (rule that(1))
qed

lemma publish_user_event_cases:
  assumes "publish_user_event ops env user_id name payload dur mutation_id nd = (r, nd')"
  obtains "nd' = nd"
  | d x es nd1 where "append_user_record (me_request env) user_id dur (UserEventPublished d) nd = (x, nd1)" "nd' = mn_publish es nd1"
proof -
  have "nd' = nd \<or> (\<exists>d. mn_bind (append_user_record (me_request env) user_id dur (UserEventPublished d)) (\<lambda>w nd.
      let e = event_of_draft d (wr_lsn w) in (Inr e, mn_publish [EvUserEvent user_id e] nd)) nd = (r, nd'))"
    using assms
    by (auto simp: publish_user_event_def mn_bind_lift Let_def check_event_def mn_bind_def [of "check_event _ _ _ _ _"]
        split: sum.splits option.splits if_splits)
  then show thesis
  proof (elim disjE exE)
    fix d assume "mn_bind (append_user_record (me_request env) user_id dur (UserEventPublished d)) (\<lambda>w nd.
      let e = event_of_draft d (wr_lsn w) in (Inr e, mn_publish [EvUserEvent user_id e] nd)) nd = (r, nd')"
    from bind_published [OF this] show thesis using that(2) by (auto simp: Let_def)
  qed (rule that(1))
qed

lemma upsert_user_kept:
  assumes "upsert_user env user_id request nd = (r, nd')" "unat (sv_next_lsn (mn_server nd)) + 1 < 2 ^ 64"
  shows "messages_kept nd nd'"
  using assms(1) by (rule upsert_user_cases) (use append_user_record_kept assms(2) in fastforce)+

lemma publish_user_event_kept:
  assumes "publish_user_event ops env user_id name payload dur mutation_id nd = (r, nd')"
    "unat (sv_next_lsn (mn_server nd)) + 1 < 2 ^ 64"
  shows "messages_kept nd nd'"
  using assms(1) by (rule publish_user_event_cases) (use append_user_record_kept assms(2) in fastforce)+

text \<open>The mutation request: a publication, or one of the handlers on the same state.\<close>

lemma mn_map_cases:
  assumes "mn_map f m nd = (r, nd')"
  obtains x where "m nd = (x, nd')"
  using assms by (auto simp: mn_map_def mn_bind_def split: prod.splits sum.splits)

lemma mutate_cases:
  assumes "mutate ops cops env request nd = (res, nd')"
  obtains (publish) es where "nd' = mn_publish es nd"
  | (one) r user_id body attachments dur mutation_id x where
    "request = Send_Message r user_id body attachments dur mutation_id"
    "send_message ops cops env r user_id body attachments dur mutation_id nd = (x, nd')"
  | (batch) r user_id items dur x where
    "request = Send_Messages r user_id items dur" "send_messages ops cops env r user_id items dur nd = (x, nd')"
  | (event) user_id name payload dur mutation_id x where
    "request = Publish_User_Event user_id name payload dur mutation_id"
    "publish_user_event ops env user_id name payload dur mutation_id nd = (x, nd')"
proof -
  have "mutate_request_handler ops cops env request nd = (res, nd') \<or> nd' = nd"
    using assms by (auto simp: mutate_def mn_bind_lift split: sum.splits)
  then show thesis
  proof
    assume run: "mutate_request_handler ops cops env request nd = (res, nd')"
    show thesis
    proof (cases request)
      case (Send_Message r user_id body attachments dur mutation_id)
      then have "nd' = nd \<or> mn_map Message_Created (send_message ops cops env r user_id body attachments dur mutation_id) nd = (res, nd')"
        using run by (auto simp: mn_bind_lift split: sum.splits)
      then show thesis using publish [of "[]"] one Send_Message by (auto elim!: mn_map_cases)
    next
      case (Send_Messages r user_id items dur)
      then have "nd' = nd \<or> mn_map Messages_Created (send_messages ops cops env r user_id items dur) nd = (res, nd')"
        using run by (auto simp: mn_bind_lift split: sum.splits)
      then show thesis using publish [of "[]"] batch Send_Messages by (auto elim!: mn_map_cases)
    next
      case (Publish_User_Event user_id name payload dur mutation_id)
      then have "nd' = nd \<or> mn_map User_Event_Published (publish_user_event ops env user_id name payload dur mutation_id) nd = (res, nd')"
        using run by (auto simp: mn_bind_lift split: sum.splits)
      then show thesis using publish [of "[]"] event Publish_User_Event by (auto elim!: mn_map_cases)
    next
      case (Publish_Volatile r name payload)
      then have "nd' = nd \<or> (\<exists>es. nd' = mn_publish es nd)"
        using run by (auto simp: mn_bind_lift check_event_def mn_bind_def [of "check_event _ _ _ _ _"] split: sum.splits if_splits)
      then show thesis using publish [of "[]"] publish by auto
    next
      case (Publish_User_Volatile user_id name payload)
      then have "nd' = nd \<or> (\<exists>es. nd' = mn_publish es nd)"
        using run
        by (auto simp: mn_bind_lift mn_map_def publish_volatile_user_event_def check_event_def
            mn_bind_def [of "check_event _ _ _ _ _"] mn_bind_def [of "mn_bind (check_event _ _ _ _ _) _"] split: sum.splits if_splits)
      then show thesis using publish [of "[]"] publish by auto
    qed
  next
    assume "nd' = nd"
    then show thesis using publish [of "[]"] by simp
  qed
qed

text \<open>One request: nothing to messages, or the batch of one room everywhere.\<close>

lemma mutate_result:
  assumes "mutate ops cops env request nd = (res, nd')" "mutation_fits request nd" "inj (me_uuid env)"
  shows "messages_kept nd nd' \<or> (\<exists>r ms. plain r \<and> messages_sent cops env r ms nd nd')"
  using assms(1)
proof (cases rule: mutate_cases)
  case (one r user_id body attachments dur mutation_id x)
  then show ?thesis using send_message_result [OF one(2)] assms(2) by auto
next
  case (batch r user_id items dur x)
  then show ?thesis using send_messages_result [OF batch(2)] assms(2,3) by auto
next
  case (event user_id name payload dur mutation_id x)
  then show ?thesis using publish_user_event_kept [OF event(2)] assms(2) by simp
qed simp

section \<open>The invariant of a run\<close>

lemma prefix_laws:
  assumes "log_laws cops nd'" "message_history nd' = message_history nd @ xs"
  shows "log_laws cops nd"
  using assms chat_room_left_prefix [of cops "message_history nd" xs] by (auto simp: log_laws_def chat_laws_def)

lemma read_server: "mn_server (snd (read_latest_messages cops env r given before_lsn nd)) = mn_server nd"
  by (simp add: read_latest_messages_def Let_def split: prod.split option.split)

lemma activate_server: "mn_server (snd (activate_runtime_room cops env r given nd)) = mn_server nd"
  by (simp add: activate_runtime_room_def Let_def split: prod.split option.split)

lemma evict_server: "mn_server (snd (evict_runtime_room env r nd)) = mn_server nd"
  by (simp add: evict_runtime_room_def Let_def split: prod.split)

lemma serve_history:
  assumes "request_fits room env request nd" "inj (me_uuid env)"
  shows "\<exists>xs. message_history (serve ops cops env request nd) = message_history nd @ xs"
proof (cases request)
  case (Mutate_Request req)
  obtain res nd' where m: "mutate ops cops env req nd = (res, nd')" by fastforce
  then show ?thesis
    using mutate_result [OF m] assms by (auto simp: Mutate_Request messages_kept_def messages_sent_def)
next
  case (Upsert_Request user_id profile)
  obtain res nd' where u: "upsert_user env user_id profile nd = (res, nd')" by fastforce
  then show ?thesis
    using upsert_user_kept [OF u] assms by (simp add: Upsert_Request messages_kept_def)
qed (simp_all add: message_history_def read_server activate_server evict_server)

definition room_follows :: "(bytes \<Rightarrow> bytes) \<Rightarrow> string \<Rightarrow> ('n, 's, 'g) message_node \<Rightarrow> bool" where
  "room_follows digest room nd \<longleftrightarrow> room_is_end digest room nd \<and> rooms_own digest (mn_runtime nd)"

lemma activate_state:
  assumes "messages_inv cops nd" "log_laws cops nd" "plain (trim r)" "room_follows digest room nd"
    "en_sha256 (me_request env) = digest" "trim r = room \<longrightarrow> \<not> has_room digest room (mn_runtime nd)"
    "activate_runtime_room cops env r given nd = (res, nd')"
  shows "messages_inv cops nd' \<and> room_follows digest room nd'"
proof -
  let ?limit = "normalize_limit (case given of None \<Rightarrow> Some (ac_hot_window (rt_config (mn_runtime nd))) | Some n \<Rightarrow> Some n)"
  let ?now = "en_now (me_request env)" and ?r = "trim r"
  have rt: "rooms_inv (mn_runtime nd)" using assms(1) by (simp add: messages_inv_def)
  note chat = chat_page [OF assms(1-3) normalize_limit_pos]
  have "nd' = nd \<or> nd' = nd\<lparr>mn_runtime := apply_messages digest ?now (newest_page ?r None ?limit (message_history nd)) (mn_runtime nd)\<rparr>"
    using assms(7) by (auto simp: activate_runtime_room_def Let_def assms(5) chat split: if_splits)
  then show ?thesis
  proof
    assume nd': "nd' = nd\<lparr>mn_runtime := apply_messages digest ?now (newest_page ?r None ?limit (message_history nd)) (mn_runtime nd)\<rparr>"
    have rooms: "\<forall>m\<in>set (newest_page ?r None ?limit (message_history nd)). msg_room_id m = ?r"
      using newest_page_set by blast
    have own: "rooms_own digest (mn_runtime nd)" using assms(4) by (simp add: room_follows_def)
    note applied = apply_own [OF rt own rooms]
    have "room_is_end digest room nd'"
    proof (cases "?r = room")
      case True
      have "room_in_memory digest room (mn_runtime nd) = None"
        using has_room_memory rt assms(6) True unfolding rooms_inv_def by blast
      then show ?thesis using True by (intro fill_room [OF assms(1) rt refl _ nd' [unfolded True]]) simp
    next
      case False
      then show ?thesis
        using applied(2) assms(4) nd'
        by (intro room_is_end_less [of digest room nd nd']) (auto simp: room_follows_def history_of_def message_history_def)
    qed
    moreover have "messages_inv cops nd'"
      using assms(1) apply_messages_inv [OF rt] by (simp add: nd' messages_inv_def message_history_def)
    ultimately show ?thesis using applied(1) by (simp add: room_follows_def nd')
  qed (use assms(1,4) in simp)
qed

lemma evict_state:
  assumes "messages_inv cops nd" "room_follows digest room nd" "en_sha256 (me_request env) = digest"
    "evict_runtime_room env r nd = (res, nd')"
  shows "messages_inv cops nd' \<and> room_follows digest room nd'"
proof -
  have rt: "rooms_inv (mn_runtime nd)" using assms(1) by (simp add: messages_inv_def)
  have "nd' = nd \<or> (nd' = nd\<lparr>mn_runtime := snd (evict_room digest (trim r) (mn_runtime nd))\<rparr>)"
    using assms(3,4) by (auto simp: evict_runtime_room_def Let_def split: prod.splits if_splits)
  then show ?thesis
  proof
    assume nd': "nd' = nd\<lparr>mn_runtime := snd (evict_room digest (trim r) (mn_runtime nd))\<rparr>"
    have less: "memory_less digest q (mn_runtime nd) (mn_runtime nd')" for q
      using shrunk_room [OF evict_room_shrunk rooms_inv_shards [OF rt]] by (simp add: memory_less_def nd')
    have "messages_inv cops nd'" using assms(1) evict_room_inv [OF rt] by (simp add: nd' messages_inv_def message_history_def)
    moreover have "room_is_end digest room nd'"
      using assms(2) nd' by (intro room_is_end_less [OF less]) (simp_all add: room_follows_def history_of_def message_history_def)
    moreover have "rooms_own digest (mn_runtime nd')"
      using rooms_own_less [OF less] assms(2) by (simp add: room_follows_def)
    ultimately show ?thesis by (simp add: room_follows_def)
  qed (use assms(1,2) in simp)
qed

lemma sent_own:
  assumes "messages_sent cops env r ms nd nd'" "messages_inv cops nd" "rooms_own digest (mn_runtime nd)"
    "en_sha256 (me_request env) = digest"
  shows "rooms_own digest (mn_runtime nd')"
  using assms apply_own(1) [of "mn_runtime nd" digest ms r] by (simp add: messages_sent_def messages_inv_def)

lemma serve_inv:
  assumes "fresh_request digest env nd" "request_fits room env request nd" "messages_inv cops nd"
    "room_follows digest room nd" "log_laws cops (serve ops cops env request nd)"
  shows "messages_inv cops (serve ops cops env request nd) \<and> room_follows digest room (serve ops cops env request nd)"
proof -
  have sha: "en_sha256 (me_request env) = digest" "inj (me_uuid env)" using assms(1) by (simp_all add: fresh_request_def)
  obtain xs where "message_history (serve ops cops env request nd) = message_history nd @ xs"
    using serve_history [OF assms(2) sha(2)] by blast
  then have laws: "log_laws cops nd" by (rule prefix_laws [OF assms(5)])
  note follows = assms(4) [unfolded room_follows_def]
  have kept: "messages_inv cops nd' \<and> room_follows digest room nd'" if "messages_kept nd nd'" for nd'
    using kept_inv [OF that assms(3)] follows that by (auto simp: room_follows_def messages_kept_def)
  show ?thesis
  proof (cases request)
    case (Mutate_Request req)
    obtain res nd' where m: "mutate ops cops env req nd = (res, nd')" by fastforce
    have "messages_kept nd nd' \<or> (\<exists>r ms. plain r \<and> messages_sent cops env r ms nd nd')"
      using assms(2) by (intro mutate_result [OF m _ sha(2)]) (simp add: Mutate_Request)
    then show ?thesis
    proof (elim disjE exE conjE)
      fix r ms assume sent: "plain r" "messages_sent cops env r ms nd nd'"
      have "log_laws cops nd'" using assms(5) by (simp add: Mutate_Request m)
      then show ?thesis
        using sent_inv [OF sent(2) assms(3) conjunct1 [OF follows] assms(1) sent(1)]
          sent_own [OF sent(2) assms(3) conjunct2 [OF follows] sha(1)]
        by (simp add: Mutate_Request m room_follows_def)
    qed (use kept m Mutate_Request in simp)
  next
    case (Read_Request r given before_lsn)
    obtain res nd' where m: "read_latest_messages cops env r given before_lsn nd = (res, nd')" by fastforce
    have fits: "plain r" "r = room \<longrightarrow> plain_read env r given before_lsn nd" using assms(2) by (simp_all add: Read_Request)
    note state = read_state [OF assms(3) laws fits(1) sha(1) conjunct2 [OF follows] m]
    have "room_is_end digest room nd'"
    proof (cases "room = r")
      case True
      then show ?thesis using state(5) fits(2) follows by simp
    next
      case False
      have "history_of room nd' = history_of room nd" by (subst state(2)) (simp add: history_of_def message_history_def)
      then show ?thesis using room_is_end_less [OF state(4) [OF False]] follows by blast
    qed
    then show ?thesis using state(1,3) by (simp add: Read_Request m room_follows_def)
  next
    case (Activate_Request r given)
    obtain res nd' where m: "activate_runtime_room cops env r given nd = (res, nd')" by fastforce
    then show ?thesis
      using activate_state [OF assms(3) laws _ assms(4) sha(1) _ m] assms(2) sha(1) by (simp add: Activate_Request)
  next
    case (Evict_Request r)
    obtain res nd' where m: "evict_runtime_room env r nd = (res, nd')" by fastforce
    then show ?thesis using evict_state [OF assms(3,4) sha(1) m] by (simp add: Evict_Request)
  next
    case (Upsert_Request user_id profile)
    obtain res nd' where u: "upsert_user env user_id profile nd = (res, nd')" by fastforce
    then show ?thesis
      using kept upsert_user_kept [OF u] assms(2) by (simp add: Upsert_Request)
  qed
qed

lemma run_inv:
  assumes "(message_step ops cops digest room)\<^sup>*\<^sup>* nd0 nd" "messages_inv cops nd0" "room_follows digest room nd0"
    "log_laws cops nd"
  shows "messages_inv cops nd \<and> room_follows digest room nd"
  using assms(1,4)
proof (induction rule: rtranclp_induct)
  case (step nd nd')
  from step.hyps(2) obtain env request where s: "fresh_request digest env nd" "request_fits room env request nd"
    "nd' = serve ops cops env request nd" by (auto elim: message_step_elim)
  have "inj (me_uuid env)" using s(1) by (simp add: fresh_request_def)
  then obtain xs where "message_history nd' = message_history nd @ xs"
    using serve_history [OF s(2)] unfolding s(3) by blast
  then have "log_laws cops nd" by (rule prefix_laws [OF step.prems])
  with step.IH show ?case using serve_inv [OF s(1,2)] step.prems s(3) by blast
qed (use assms(2,3) in simp)

section \<open>A first start\<close>

lemma runtime_without_rooms:
  fixes states :: "'n snapshot_entry list"
  shows "room_in_memory digest room (runtime_new digest now seq config bt_empty states reminders n) = None"
proof -
  let ?rt = "runtime_new digest now seq config bt_empty states reminders n"
  let ?none = "runtime_new digest now seq (config\<lparr>ac_max_hot_rooms := 0\<rparr>) bt_empty states reminders n"
  have none: "evict_lru_rooms k (bt_empty :: (string, room_live) btree) = bt_empty" for k
    by (simp add: evict_lru_rooms_def Let_def)
  have shards: "rt_shards ?rt = rt_shards ?none" by (simp add: runtime_new_def none Let_def)
  have inv: "rooms_inv ?none" by (rule runtime_new_inv) simp
  have "ac_max_hot_rooms (rt_config ?none) = 0" by (simp add: runtime_new_def Let_def)
  then have total: "room_total ?none = 0" using inv unfolding rooms_inv_def by simp
  have "rt_shards ?none \<noteq> []" by (rule rooms_inv_shards [OF inv])
  let ?i = "shard_index_of digest (room_id_of room) ?none"
  have bound: "?i < length (rt_shards ?none)" by (rule shard_index_bound) fact
  then have "card (room_keys (rt_shards ?none ! ?i)) = 0"
    using total by (simp add: room_total_def)
  then have "room_id_of room \<notin> room_keys (rt_shards ?none ! ?i)" by simp
  then have none: "room_in_memory digest room ?none = None"
    by (auto simp: room_keys_def room_id_of_def room_in_memory_def room_held_def split: option.split)
  have same: "rt_shards rt1 = rt_shards rt2 \<Longrightarrow> room_in_memory digest room rt1 = room_in_memory digest room rt2"
    for rt1 rt2 :: "'n runtime"
    by (simp add: room_in_memory_def shard_index_of_def)
  from same [OF shards] none show ?thesis by (rule trans)
qed

definition first_start ::
  "('z) chat_ops_scheme \<Rightarrow> (bytes \<Rightarrow> bytes) \<Rightarrow> u64 \<Rightarrow> u64 \<Rightarrow> actor_config \<Rightarrow> nat \<Rightarrow> ('n, 's, 'g) server \<Rightarrow>
     ('n, 's, 'g) message_node" where
  "first_start cops digest now seq config shards sv =
     messages_started cops sv (runtime_new digest now seq config bt_empty [] [] shards) empty_chat_log"

lemma first_start_inv:
  assumes "messages_from_wal_records (sv_wal sv) = []"
  shows "messages_inv cops (first_start cops digest now seq config shards sv)"
    "room_follows digest room (first_start cops digest now seq config shards sv)"
proof -
  have empty: "chat_append_many cops [] empty_chat_log = empty_chat_log" by (simp add: chat_append_many_def)
  have marker: "\<not> cl_marker (chat_reopen empty_chat_log)" by (simp add: chat_reopen_def empty_chat_log_def)
  have "mn_chat (first_start cops digest now seq config shards sv) = empty_chat_log\<lparr>cl_marker := True\<rparr>"
    by (simp add: first_start_def messages_started_def chat_rebuild_from_messages_def marker empty assms)
  then have "chat_holds cops [] (mn_chat (first_start cops digest now seq config shards sv))"
    using chat_holds_empty [of cops] by (simp add: chat_holds_marker)
  then show "messages_inv cops (first_start cops digest now seq config shards sv)"
    using assms runtime_new_inv [of bt_empty config digest now seq "[]" "[]" shards]
    by (simp add: messages_inv_def first_start_def messages_started_def message_history_def in_order_def)
  show "room_follows digest room (first_start cops digest now seq config shards sv)"
    by (simp add: room_follows_def room_is_end_def rooms_own_def first_start_def messages_started_def runtime_without_rooms)
qed

section \<open>Reads\<close>


section \<open>Reads that fill a room wrongly\<close>

lemma sorted_split:
  "sorted (map f xs) \<Longrightarrow> \<forall>x\<in>set xs. f x \<le> l \<Longrightarrow> xs = filter (\<lambda>x. f x \<noteq> l) xs @ filter (\<lambda>x. f x = l) xs"
  for f :: "'a \<Rightarrow> 'b::linorder"
proof (induction xs)
  case (Cons x xs)
  show ?case
  proof (cases "f x = l")
    case True
    then have "\<forall>y\<in>set xs. f y = l" using Cons.prems by (auto intro: antisym)
    then have "filter (\<lambda>x. f x \<noteq> l) xs = []" "filter (\<lambda>x. f x = l) xs = xs" by (simp_all add: filter_empty_conv)
    then show ?thesis using True by simp
  next
    case False
    then show ?thesis using Cons by simp
  qed
qed simp

text \<open>A page of the history written to a room that holds the end of it: the newest message is there twice.\<close>

lemma newest_twice:
  assumes "in_order h" "held = drop k h" "held \<noteq> []" "merged = take l (rev h)" "0 < l" "2 \<le> w"
  shows "\<exists>ys. room_after w held merged = ys @ [last h, last h]"
proof -
  let ?m = "last h" and ?all = "if can_append_in_order held merged then held @ merged
      else Actor.sort_by compare_message_order (held @ merged)"
  have order: "in_order held" using assms(2) in_order_parts [OF assms(1)] by simp
  have sets: "set held \<subseteq> set h" "set merged \<subseteq> set h" "h \<noteq> []"
    using assms(2-4) by (auto dest: in_set_dropD in_set_takeD)
  have last_held: "last held = ?m" using assms(2,3) by (metis last_drop drop_eq_Nil not_le)
  obtain rest where rest: "merged = ?m # rest"
    using assms(4,5) sets(3) by (cases h rule: rev_cases; cases l) auto
  have pos: "\<forall>m\<in>set (held @ merged). 0 < msg_lsn m" using assms(1) sets by (auto simp: in_order_def)
  have top: "msg_lsn m \<le> msg_lsn ?m \<and> (msg_lsn m = msg_lsn ?m \<longrightarrow> m = ?m)" if "m \<in> set h" for m
  proof -
    have "h = butlast h @ [?m]" using sets(3) by simp
    then have "in_order (butlast h @ [?m])" using assms(1) by simp
    then have "\<forall>x\<in>set (butlast h). msg_lsn x < msg_lsn ?m" by (simp add: in_order_append)
    moreover have "m \<in> set (butlast h) \<or> m = ?m" using that \<open>h = butlast h @ [?m]\<close> by (metis in_set_conv_decomp Un_iff set_append set_ConsD empty_iff list.set(1))
    ultimately show ?thesis by auto
  qed
  have descending: "sorted_wrt (\<lambda>x y. msg_lsn y < msg_lsn x) merged"
    using assms(1) sorted_wrt_take [of _ "rev h" l] by (simp add: assms(4) in_order_def sorted_wrt_rev sorted_wrt_map)
  have sorted: "sorted (map msg_lsn ?all)"
  proof (cases "can_append_in_order held merged")
    case True
    have "rest = []"
    proof (cases rest)
      case (Cons y ys)
      then have "msg_lsn y < msg_lsn ?m" using descending rest by simp
      moreover have "compare_message_order ?m y \<noteq> Greater_Than"
        using True by (simp add: can_append_in_order_def rest Cons)
      ultimately show ?thesis using compare_logged [of ?m y] pos by (simp add: rest Cons)
    qed
    moreover have "sorted (map msg_lsn held)" using in_order_logged [OF order] by simp
    ultimately show ?thesis using True rest top sets(1) by (auto simp: sorted_append)
  qed (simp add: sort_by_logged [OF pos])
  have same: "mset ?all = mset (held @ merged)" by (simp add: sort_by_logged [OF pos])
  have "set ?all \<subseteq> set h" using same sets by (metis Un_subset_iff mset_eq_setD set_append)
  then have "\<forall>m\<in>set ?all. msg_lsn m \<le> msg_lsn ?m" using top by blast
  note split = sorted_split [OF sorted this]
  have two: "xs = [x, x]" if "length xs = 2 \<and> set xs = {x}" for xs and x :: message
    using that replicate_eqI [of xs 2 x] by (simp add: numeral_2_eq_2)
  have "filter (\<lambda>m. msg_lsn m = msg_lsn ?m) ?all = [?m, ?m]"
  proof -
    have one: "filter (\<lambda>m. msg_lsn m = msg_lsn ?m) xs = [?m]"
      if "?m \<in> set xs" "set xs \<subseteq> set h" "distinct xs" for xs
    proof -
      have "ys = [x]" if "distinct ys" "set ys = {x}" for ys and x :: message
        using that by (cases ys rule: remdups_adj.cases) auto
      moreover have "set (filter (\<lambda>m. msg_lsn m = msg_lsn ?m) xs) = {?m}" using top that(1,2) by auto
      ultimately show ?thesis using that(3) by simp
    qed
    have "distinct held" "distinct merged"
      using in_order_inj [OF order] in_order_inj [OF assms(1)] by (simp_all add: assms(4))
    then have "filter (\<lambda>m. msg_lsn m = msg_lsn ?m) held = [?m]" "filter (\<lambda>m. msg_lsn m = msg_lsn ?m) merged = [?m]"
      using one sets(1,2) last_held last_in_set [OF assms(3)] rest by (metis list.set_intros(1))+
    then have "mset (filter (\<lambda>m. msg_lsn m = msg_lsn ?m) ?all) = mset [?m, ?m]"
      using same by (metis append_Cons append_Nil filter_append mset_filter)
    then have "length (filter (\<lambda>m. msg_lsn m = msg_lsn ?m) ?all) = 2
        \<and> set (filter (\<lambda>m. msg_lsn m = msg_lsn ?m) ?all) = {?m}"
      by (metis (no_types, lifting) insert_absorb2 list.set(1,2) mset_eq_length mset_eq_setD length_Cons list.size(3) numeral_2_eq_2)
    then show ?thesis by (rule two)
  qed
  then obtain ys where all: "?all = ys @ [?m, ?m]" using split by metis
  have "length ?all - w \<le> length ys" using assms(6) unfolding all by simp
  then have "drop (length ?all - w) ?all = drop (length ?all - w) ys @ [?m, ?m]" unfolding all by simp
  then show ?thesis by (auto simp: room_after_def Let_def)
qed

text \<open>A read that memory answers in full, no room being evicted for idleness.\<close>

lemma read_from_memory:
  assumes "rooms_inv (mn_runtime nd)" "room_in_memory digest r (mn_runtime nd) = Some h"
    "ac_hot_room_idle_ttl_ms (rt_config (mn_runtime nd)) = 0" "en_sha256 (me_request env) = digest"
    "normalize_limit given \<le> length (page_of_room before_lsn (normalize_limit given) h)"
  shows "fst (read_latest_messages cops env r given before_lsn nd)
    = Inr \<lparr>mr_room_id = r, mr_source = Live_Source, mr_messages = page_of_room before_lsn (normalize_limit given) h\<rparr>"
proof -
  obtain page rt1 where l: "latest_messages digest (en_now (me_request env)) r before_lsn (normalize_limit given)
      (mn_runtime nd) = (page, rt1)" by fastforce
  have "page = page_of_room before_lsn (normalize_limit given) h"
    using latest_messages_room(1) [OF assms(1) l] assms(2,3) by auto
  then show ?thesis using l assms(4,5) by (simp add: read_latest_messages_def Let_def)
qed

text \<open>What a page from the chat log leaves in the room, if the room stays in memory.\<close>

lemma applied_memory:
  assumes "rooms_inv rt" "ms \<noteq> []" "\<forall>m\<in>set ms. msg_room_id m = r" "has_room digest r (apply_messages digest now ms rt)"
  shows "room_in_memory digest r (apply_messages digest now ms rt)
    = Some (room_after (ac_hot_window (rt_config rt)) (case room_in_memory digest r rt of None \<Rightarrow> [] | Some h \<Rightarrow> h) ms)"
proof -
  have fits: "rt_fits (ac_hot_window (rt_config rt)) rt" using assms(1) by (simp add: rooms_inv_def)
  have inv: "rooms_inv (apply_messages digest now ms rt)" by (rule apply_messages_inv [OF assms(1)])
  then have "room_in_memory digest r (apply_messages digest now ms rt) \<noteq> None"
    using has_room_memory assms(4) unfolding rooms_inv_def by blast
  then show ?thesis using apply_messages_room(1) [OF fits assms(2,3), of digest r now] by auto
qed

lemma apply_config: "rooms_inv rt \<Longrightarrow> \<forall>m\<in>set ms. msg_room_id m = r \<Longrightarrow>
    rt_config (apply_messages digest now ms rt) = rt_config rt"
  using apply_messages_room(2) [of rt ms r digest now]
  by (cases "ms = []") (simp_all add: rooms_inv_def apply_messages_def)

text \<open>
  C21. Reading a room makes its newest message come twice. Let the room hold some messages in memory,
  fewer than a first read asks for. That read completes the page from the chat log and applies the
  whole page to the room again, without a look at what the room has; if the room stays in memory, a
  second read of two messages answers the newest message of the room twice, from memory.
\<close>

theorem read_twice_repeats_newest:
  assumes "(message_step ops cops digest room)\<^sup>*\<^sup>* (first_start cops digest now seq config shards sv) nd"
    "messages_from_wal_records (sv_wal sv) = []" "log_laws cops nd" "plain room"
    "en_sha256 (me_request env) = digest" "en_sha256 (me_request env') = digest"
    "room_in_memory digest room (mn_runtime nd) = Some held" "held \<noteq> []" "length held < normalize_limit given"
    "ac_hot_room_idle_ttl_ms (rt_config (mn_runtime nd)) = 0" "2 \<le> ac_hot_window (rt_config (mn_runtime nd))"
    "has_room digest room (mn_runtime (snd (read_latest_messages cops env room given None nd)))"
  shows "fst (read_latest_messages cops env' room (Some 2) None (snd (read_latest_messages cops env room given None nd)))
    = Inr \<lparr>mr_room_id = room, mr_source = Live_Source,
           mr_messages = (let newest = last (filter (\<lambda>m. msg_room_id m = room) (messages_from_wal_records (sv_wal (mn_server nd))))
                          in [newest, newest])\<rparr>"
proof -
  let ?h = "history_of room nd" and ?w = "ac_hot_window (rt_config (mn_runtime nd))"
  obtain res nd' where r: "read_latest_messages cops env room given None nd = (res, nd')" by fastforce
  have inv: "messages_inv cops nd" "room_follows digest room nd"
    using run_inv [OF assms(1) first_start_inv [OF assms(2)] assms(3)] by blast+
  then obtain k where k: "held = drop k ?h" using assms(7) by (auto simp: room_follows_def room_is_end_def)
  have order: "in_order (message_history nd)" using inv(1) by (simp add: messages_inv_def)
  have page: "newest_page room None (normalize_limit given) (message_history nd) = take (normalize_limit given) (rev ?h)"
    using bounded_history [OF order] by (simp add: before_bound_def)
  from inv(1) assms(3-5) r show ?thesis
  proof (cases rule: read_cases)
    case (1 h rt1 hot)
    have h: "h = Some held" using 1(2) assms(7,10) by simp
    have hot: "hot = rev held" using 1(4) assms(9) h by (simp add: page_of_room_def)
    define merged where "merged = merge_page (normalize_limit given) [] [] (hot @ take (normalize_limit given) (rev ?h))"
    have ids: "distinct (map msg_id (rev ?h))"
      using inv(1) by (simp add: messages_inv_def history_of_def rev_map [symmetric] distinct_map_filter)
    have "hot = take (length ?h - k) (rev ?h)" by (simp add: hot k rev_drop)
    then have merged: "merged = take (normalize_limit given) (rev ?h)"
      unfolding merged_def using merge_prefix [OF ids normalize_limit_pos] by simp
    have some: "merged \<noteq> []" "\<forall>m\<in>set merged. msg_room_id m = room"
      using assms(8) k normalize_limit_pos [of given] unfolding merged by (auto simp: history_of_def dest!: in_set_takeD)
    have nd': "nd' = nd\<lparr>mn_runtime := apply_messages digest (en_now (me_request env)) merged rt1\<rparr>"
      using 1(9) hot assms(8,9) by (auto simp: page merged_def)
    have "has_room digest room (apply_messages digest (en_now (me_request env)) merged rt1)"
      using assms(12) by (simp add: r nd')
    from applied_memory [OF 1(5) some this] have memory: "room_in_memory digest room (mn_runtime nd') = Some (room_after ?w held merged)"
      using 1(6,7) h by (simp add: nd')
    obtain ys where "room_after ?w held merged = ys @ [last ?h, last ?h]"
      using newest_twice [OF history_in_order [OF inv(1)] k assms(8) merged normalize_limit_pos assms(11)] by blast
    then have two: "page_of_room None (normalize_limit (Some 2)) (room_after ?w held merged) = [last ?h, last ?h]"
      by (simp add: page_of_room_def normalize_limit_def numeral_2_eq_2)
    have "rooms_inv (mn_runtime nd')" "rt_config (mn_runtime nd') = rt_config (mn_runtime nd)"
      using apply_messages_inv [OF 1(5)] apply_config [OF 1(5) some(2)] 1(6) by (simp_all add: nd')
    then show ?thesis
      using read_from_memory [OF _ memory _ assms(6), of "Some 2" None cops] two assms(10)
      by (simp add: r Let_def history_of_def message_history_def normalize_limit_def)
  qed
qed

text \<open>
  C22. A page of older messages hides the newer ones. When a room is not in memory, a read of the
  messages before an LSN answers the page from the chat log and makes it the room in memory. Until
  the room is evicted, a read of the newest messages, of no more than that page had, answers the
  newest messages before that LSN: those the log has after it are left out, from memory.
\<close>

theorem older_page_hides_newer:
  assumes "(message_step ops cops digest room)\<^sup>*\<^sup>* (first_start cops digest now seq config shards sv) nd"
    "messages_from_wal_records (sv_wal sv) = []" "log_laws cops nd" "plain room"
    "en_sha256 (me_request env) = digest" "en_sha256 (me_request env') = digest"
    "\<not> has_room digest room (mn_runtime nd)" "ac_hot_room_idle_ttl_ms (rt_config (mn_runtime nd)) = 0"
    "has_room digest room (mn_runtime (snd (read_latest_messages cops env room given (Some bound) nd)))"
    "normalize_limit given' \<le> length (newest_page room (Some bound) (normalize_limit given)
       (messages_from_wal_records (sv_wal (mn_server nd))))"
    "normalize_limit given' \<le> ac_hot_window (rt_config (mn_runtime nd))"
  shows "fst (read_latest_messages cops env' room given' None
      (snd (read_latest_messages cops env room given (Some bound) nd)))
    = Inr \<lparr>mr_room_id = room, mr_source = Live_Source,
           mr_messages = newest_page room (Some bound) (normalize_limit given')
             (messages_from_wal_records (sv_wal (mn_server nd)))\<rparr>"
proof -
  let ?h = "history_of room nd" and ?w = "ac_hot_window (rt_config (mn_runtime nd))" and ?limit = "normalize_limit given"
  obtain res nd' where r: "read_latest_messages cops env room given (Some bound) nd = (res, nd')" by fastforce
  have inv: "messages_inv cops nd"
    using run_inv [OF assms(1) first_start_inv [OF assms(2)] assms(3)] by blast
  then have order: "in_order (message_history nd)" and rt: "rooms_inv (mn_runtime nd)" by (simp_all add: messages_inv_def)
  let ?old = "filter (\<lambda>m. msg_lsn m < bound) ?h"
  have page: "newest_page room (Some bound) l (message_history nd) = take l (rev ?old)" for l
    using bounded_history [OF order, of room "Some bound" l] by (simp add: before_bound_def rev_filter)
  have old: "in_order ?old" by (rule in_order_filter [OF history_in_order [OF inv]])
  have none: "room_in_memory digest room (mn_runtime nd) = None"
    using has_room_memory rt assms(7) unfolding rooms_inv_def by blast
  from inv assms(3-5) r show ?thesis
  proof (cases rule: read_cases)
    case (1 held rt1 hot)
    define ms where "ms = take ?limit (rev ?old)"
    have empty: "held = None" "hot = []" using 1(1,4) none by auto
    have nd': "nd' = nd\<lparr>mn_runtime := apply_messages digest (en_now (me_request env)) ms rt1\<rparr>"
      using 1(9) empty normalize_limit_pos [of given] by (auto simp: page ms_def)
    have long: "normalize_limit given' \<le> length ms"
      using assms(10) page by (simp add: ms_def message_history_def)
    have some: "ms \<noteq> []" "\<forall>m\<in>set ms. msg_room_id m = room"
      using long normalize_limit_pos [of given'] by (auto simp: ms_def history_of_def dest!: in_set_takeD)
    have "has_room digest room (apply_messages digest (en_now (me_request env)) ms rt1)"
      using assms(9) by (simp add: r nd')
    from applied_memory [OF 1(5) some this]
    have memory: "room_in_memory digest room (mn_runtime nd') = Some (room_after ?w [] ms)"
      using 1(6,7) empty by (simp add: nd')
    define end_part where "end_part = drop (length ?old - ?limit) ?old"
    have ms: "ms = rev end_part" by (simp add: ms_def end_part_def take_rev)
    have "in_order end_part" unfolding end_part_def using in_order_parts [OF old] by blast
    then have "room_after ?w [] ms = drop (length end_part - ?w) end_part" unfolding ms by (rule room_after_page)
    then have "page_of_room None (normalize_limit given') (room_after ?w [] ms) = take (normalize_limit given') ms"
      using assms(11) long by (simp add: page_of_room_def ms rev_drop min_def)
    also have "\<dots> = take (normalize_limit given') (rev ?old)"
      using long by (simp add: ms_def)
    finally have two: "page_of_room None (normalize_limit given') (room_after ?w [] ms) = take (normalize_limit given') (rev ?old)" .
    have "length (take (normalize_limit given') (rev ?old)) = normalize_limit given'"
      using long by (simp add: ms_def)
    moreover have "rooms_inv (mn_runtime nd')" "rt_config (mn_runtime nd') = rt_config (mn_runtime nd)"
      using apply_messages_inv [OF 1(5)] apply_config [OF 1(5) some(2)] 1(6) by (simp_all add: nd')
    ultimately show ?thesis
      using read_from_memory [OF _ memory _ assms(6), of given' None cops] two assms(8) page
      by (simp add: r message_history_def)
  qed
qed

section \<open>The users in memory\<close>

definition users_follow :: "('n, 's, 'g) message_node \<Rightarrow> bool" where
  "users_follow nd \<longleftrightarrow> mn_users nd = users_from_wal_records (sv_wal (mn_server nd))"

definition logs_messages :: "('n, 's, 'g) message_node \<Rightarrow> ('n, 's, 'g) message_node \<Rightarrow> bool" where
  "logs_messages nd nd' \<longleftrightarrow>
     mn_users nd' = mn_users nd
     \<and> (\<exists>ws. sv_wal (mn_server nd') = sv_wal (mn_server nd) @ ws \<and> (\<forall>w\<in>set ws. \<exists>d. wr_payload w = MessageCreated d))"

lemma logs_messages_refl [simp, intro]: "logs_messages nd nd"
  by (auto simp: logs_messages_def)

lemma users_kept_by_messages:
  "\<forall>w\<in>set ws. \<exists>d. wr_payload w = MessageCreated d \<Longrightarrow> fold users_apply_wal_record ws us = us"
  by (induction ws arbitrary: us) (auto simp: users_apply_wal_record_def)

lemma logs_messages_users: "logs_messages nd nd' \<Longrightarrow> users_follow nd \<Longrightarrow> users_follow nd'"
  by (auto simp: logs_messages_def users_follow_def users_from_wal_records_def users_kept_by_messages)

lemma number_payloads_payload: "map wr_payload (fst (number_payloads env shard dur version lsn ps)) = ps"
  by (induction ps arbitrary: lsn) (simp_all add: wal_record_of_def case_prod_beta)

lemma logs_messages_updates [simp]:
  "logs_messages nd (mn_publish es nd') = logs_messages nd nd'"
  "logs_messages nd (nd'\<lparr>mn_chat := c\<rparr>) = logs_messages nd nd'"
  "logs_messages nd (nd'\<lparr>mn_runtime := rt\<rparr>) = logs_messages nd nd'"
  "logs_messages nd (nd'\<lparr>mn_server := (mn_server nd')\<lparr>sv_refs := refs\<rparr>\<rparr>) = logs_messages nd nd'"
  by (simp_all add: logs_messages_def)

lemma append_message_logs: "append_message env dur d nd = (r, nd') \<Longrightarrow> logs_messages nd nd'"
  by (auto simp: append_message_def mn_on_server_def sv_bind_def sv_lift_def append_ordered_wal_record_def Let_def
      logs_messages_def split: prod.splits sum.splits)

lemma append_messages_logs:
  fixes nd nd' :: "('n, 's, 'g) message_node"
  assumes "append_messages env dur room_id ds nd = (r, nd')"
  shows "logs_messages nd nd'"
proof -
  have "\<exists>d. wr_payload w = MessageCreated d"
    if "number_payloads env shard dur version lsn (map MessageCreated ds) = (ws, final)" "w \<in> set ws"
    for shard version lsn final and ws :: "('n, 's, 'g) wal_record list" and w
  proof -
    have "map wr_payload ws = map MessageCreated ds"
      using number_payloads_payload [of env shard dur version lsn "map MessageCreated ds :: ('n, 's, 'g) wal_payload list"] that(1)
      by simp
    then have "wr_payload w \<in> MessageCreated ` set ds" using that(2) by (metis image_eqI image_set)
    then show ?thesis by blast
  qed
  then show ?thesis
    using assms
    by (fastforce simp: append_messages_def mn_on_server_def sv_bind_def sv_lift_def append_ordered_wal_records_def Let_def
        logs_messages_def split: prod.splits sum.splits if_splits)
qed

lemma publish_message_logs: "publish_message cops env m nd = (r, nd') \<Longrightarrow> logs_messages nd0 nd' = logs_messages nd0 nd"
  by (auto simp: publish_message_def logs_messages_def)

lemma publish_messages_logs: "logs_messages nd0 (publish_messages cops env room_id ms nd) = logs_messages nd0 nd"
  by (simp add: publish_messages_def logs_messages_def)

lemma send_message_logs:
  assumes "send_message ops cops env room_id user_id body attachments dur mutation_id nd = (r, nd')"
  shows "logs_messages nd nd'"
proof -
  have "nd' = nd \<or> (\<exists>m. send_volatile env m nd = (r, nd'))
    \<or> (\<exists>d. mn_bind (append_message (me_request env) dur d) (publish_message cops env) nd = (r, nd'))"
    using assms
    by (auto simp: send_message_def mn_bind_lift Let_def split: sum.splits option.splits if_splits)
  then show ?thesis
  proof (elim disjE exE)
    fix m assume "send_volatile env m nd = (r, nd')"
    then show ?thesis by (auto simp: send_volatile_def logs_messages_def)
  next
    fix d assume "mn_bind (append_message (me_request env) dur d) (publish_message cops env) nd = (r, nd')"
    then show ?thesis
      by (rule mn_bind_split) (use append_message_logs publish_message_logs in blast)+
  qed simp
qed

lemma send_messages_logs:
  assumes "send_messages ops cops env room_id user_id items dur nd = (r, nd')"
  shows "logs_messages nd nd'"
proof -
  have "nd' = nd \<or> (\<exists>es rt. nd' = mn_publish es (nd\<lparr>mn_runtime := rt\<rparr>))
    \<or> (\<exists>prepared. mn_bind (append_messages (me_request env) dur room_id (drafts_of prepared)) (\<lambda>committed nd.
          (Inr (batch_output prepared committed), publish_messages cops env room_id committed nd)) nd = (r, nd'))"
    using assms
    by (auto simp: send_messages_def mn_bind_lift Let_def split: sum.splits option.splits if_splits)
  then show ?thesis
  proof (elim disjE exE)
    fix prepared assume "mn_bind (append_messages (me_request env) dur room_id (drafts_of prepared)) (\<lambda>committed nd.
          (Inr (batch_output prepared committed), publish_messages cops env room_id committed nd)) nd = (r, nd')"
    then show ?thesis
      by (rule mn_bind_split) (use append_messages_logs publish_messages_logs in \<open>fastforce+\<close>)
  qed simp_all
qed

lemma append_user_record_users:
  "append_user_record env user_id dur payload nd = (r, nd') \<Longrightarrow> users_follow nd \<Longrightarrow> users_follow nd'"
  by (auto simp: append_user_record_def mn_bind_def mn_on_server_def sv_bind_def sv_lift_def Let_def
      append_ordered_wal_record_def users_follow_def users_from_wal_records_def split: prod.splits sum.splits)

lemma users_follow_publish [simp]: "users_follow (mn_publish es nd) = users_follow nd"
  by (simp add: users_follow_def)

lemma mutate_users:
  assumes "mutate ops cops env request nd = (res, nd')" "users_follow nd"
  shows "users_follow nd'"
  using assms(1)
proof (cases rule: mutate_cases)
  case (one r user_id body attachments dur mutation_id x)
  then show ?thesis using send_message_logs logs_messages_users assms(2) by blast
next
  case (batch r user_id items dur x)
  then show ?thesis using send_messages_logs logs_messages_users assms(2) by blast
next
  case (event user_id name payload dur mutation_id x)
  from event(2) show ?thesis
    by (rule publish_user_event_cases) (use append_user_record_users assms(2) in auto)
qed (use assms(2) in simp)

lemma upsert_user_users: "upsert_user env user_id request nd = (r, nd') \<Longrightarrow> users_follow nd \<Longrightarrow> users_follow nd'"
  by (erule upsert_user_cases) (use append_user_record_users in auto)

lemma read_users: "mn_users (snd (read_latest_messages cops env r given before_lsn nd)) = mn_users nd"
  by (simp add: read_latest_messages_def Let_def split: prod.split option.split)

lemma activate_users: "mn_users (snd (activate_runtime_room cops env r given nd)) = mn_users nd"
  by (simp add: activate_runtime_room_def Let_def split: prod.split option.split)

lemma evict_users: "mn_users (snd (evict_runtime_room env r nd)) = mn_users nd"
  by (simp add: evict_runtime_room_def Let_def split: prod.split)

lemma serve_users: "users_follow nd \<Longrightarrow> users_follow (serve ops cops env request nd)"
proof (cases request)
  case (Mutate_Request req)
  then show "users_follow nd \<Longrightarrow> ?thesis" using mutate_users by (metis prod.collapse serve.simps(1))
next
  case (Upsert_Request user_id profile)
  then show "users_follow nd \<Longrightarrow> ?thesis" using upsert_user_users by (metis prod.collapse serve.simps(5))
qed (simp_all add: users_follow_def read_server read_users activate_server activate_users evict_server evict_users)


section \<open>Retries\<close>

lemma publish_mutations: "sv_mutations (mn_server (mn_publish es nd)) = sv_mutations (mn_server nd)"
proof -
  have "sv_mutations (fold publish_delivery_event es sv) = sv_mutations sv" for sv
    by (induction es arbitrary: sv) (simp_all add: publish_delivery_event_def)
  then show ?thesis by (simp add: mn_publish_def)
qed

lemma committed_message_found:
  assumes "append_message env dur d nd = (Inr m, nd1)" "md_client_mutation_id d = Some i"
    "publish_message cops env' m nd1 = (r, nd')"
  shows "find_committed_mutation (sv_mutations (mn_server nd')) (Some i) = Some (CmMessageCreated m)"
  using assms
  by (auto simp: append_message_def mn_on_server_def sv_bind_def sv_lift_def append_ordered_wal_record_def Let_def
        message_from_wal_record_def publish_message_def publish_mutations find_committed_mutation_def note_committed_mutation_record_def
        committed_mutation_entry_def split: prod.splits sum.splits)


section \<open>Concrete runs\<close>

text \<open>One room with two messages; a request draws its ids from its own tag.\<close>

definition talk_env :: "char \<Rightarrow> i64 message_env" where
  "talk_env tag =
     \<lparr>me_request = docs_env, me_max_message_bytes = 100, me_max_user_event_bytes = 100,
      me_uuid = (\<lambda>i. tag # replicate i (CHR ''x'')), me_room_subscribers = (\<lambda>_. 0), me_user_connections = (\<lambda>_. 0),
      me_user_authorized = (\<lambda>_. Inr ()), me_client_authorized = Inr ()\<rparr>"

definition talk_schema :: database_schema where
  "talk_schema = (docs_schema 1 docs_fields)
     \<lparr>db_tables := bt_insert ''rooms'' ((docs_table [])\<lparr>tsc_nested := bt_insert ''messages''
        \<lparr>nts_storage = DiskStorage, nts_fields = [], nts_read_visibility = [], nts_indexes = bt_empty\<rparr> bt_empty\<rparr>) bt_empty\<rparr>"

definition talk_config :: actor_config where
  "talk_config =
     \<lparr>ac_hot_window = 2, ac_max_hot_rooms = 2, ac_hot_room_idle_ttl_ms = 0, ac_split_rows = 0, ac_split_bytes = 0\<rparr>"

definition talk_line :: "string \<Rightarrow> u64 \<Rightarrow> message" where
  "talk_line i lsn =
     \<lparr>msg_id = i, msg_room_id = ''r1'', msg_sender_id = ''u1'', msg_body = ''hello'', msg_attachments = [],
      msg_created_at_ms = 7, msg_lsn = lsn, msg_path = ''rooms/r1/messages/'' @ i\<rparr>"

definition talk_ops :: chat_ops where
  "talk_ops = table_chat_ops [talk_line ''a'' 1, talk_line ''b'' 2]"

definition talk_start :: "(i64, unit, unit) message_node" where
  "talk_start = first_start talk_ops (\<lambda>_. []) 3 0 talk_config 1 (fresh_server talk_schema 0)"

definition talk_send :: "string option \<Rightarrow> char \<Rightarrow> (i64, unit, unit) message_node \<Rightarrow> (i64, unit, unit) message_node" where
  "talk_send mutation_id tag = serve docs_ops talk_ops (talk_env tag)
     (Mutate_Request (Send_Message ''r1'' ''u1'' ''hello'' [] Strict mutation_id))"

definition talk_two :: "(i64, unit, unit) message_node" where
  "talk_two = talk_send None (CHR ''b'') (talk_send (Some ''retry'') (CHR ''a'') talk_start)"

definition talk_evicted :: "(i64, unit, unit) message_node" where
  "talk_evicted = serve docs_ops talk_ops (talk_env (CHR ''c'')) (Evict_Request ''r1'') talk_two"

lemma talk_checks:
  "validate_message_draft docs_ops talk_schema d = Inr ()" "trim ''hello'' = ''hello''"
  "normalize_client_mutation_id None = Inr None" "normalize_client_mutation_id (Some ''retry'') = Inr (Some ''retry'')"
  by (simp add: validate_message_draft_def nested_schema_def talk_schema_def docs_schema_def docs_table_def
      validate_message_draft_fields_def check_all_def) code_simp+

lemma talk_sent:
  assumes "sv_schema (mn_server nd) = talk_schema" "mutation_id \<in> {None, Some ''retry''}"
    "find_committed_mutation (sv_mutations (mn_server nd)) mutation_id = None"
  shows "message_history (talk_send mutation_id tag nd) = message_history nd @ [talk_line [tag] (sv_next_lsn (mn_server nd) + 1)]"
    "sv_next_lsn (mn_server (talk_send mutation_id tag nd)) = sv_next_lsn (mn_server nd) + 1"
    "sv_schema (mn_server (talk_send mutation_id tag nd)) = talk_schema"
    "mn_runtime (talk_send mutation_id tag nd)
      = apply_message (\<lambda>_. []) 7 (talk_line [tag] (sv_next_lsn (mn_server nd) + 1)) (mn_runtime nd)"
    "fst (send_message docs_ops talk_ops (talk_env tag) ''r1'' ''u1'' ''hello'' [] Strict mutation_id nd)
      = Inr (talk_line [tag] (sv_next_lsn (mn_server nd) + 1))"
proof -
  have mid: "normalize_client_mutation_id mutation_id = Inr mutation_id" using assms(2) talk_checks by auto
  have env: "en_accepting docs_env = Inr ()" "en_append docs_env = Inr ()" "\<And>k. en_shard_of_key docs_env k = Inr 0"
    "\<And>i. en_not_frozen docs_env i = Inr ()" "en_now docs_env = 7" "en_sha256 docs_env = (\<lambda>_. [])"
    "me_request (talk_env tag) = docs_env" "me_max_message_bytes (talk_env tag) = 100" "me_uuid (talk_env tag) 0 = [tag]"
    "\<And>u. me_user_authorized (talk_env tag) u = Inr ()"
    by (simp_all add: docs_env_def talk_env_def)
  have append: "append_message docs_env Strict (message_draft_of (talk_env tag) 0 Strict ''r1'' ''u1'' ''hello'' mutation_id []) nd
    = (Inr (talk_line [tag] (sv_next_lsn (mn_server nd) + 1)), nd\<lparr>mn_server :=
        snd (append_ordered_wal_record docs_env 0 Strict
          (MessageCreated (message_draft_of (talk_env tag) 0 Strict ''r1'' ''u1'' ''hello'' mutation_id [])) (mn_server nd))\<rparr>)"
    by (simp add: append_message_def mn_on_server_def sv_bind_def sv_lift_def env append_ordered_wal_record_def Let_def
        message_from_wal_record_def message_of_draft_def message_draft_of_def talk_line_def message_path_def)
  have run: "send_message docs_ops talk_ops (talk_env tag) ''r1'' ''u1'' ''hello'' [] Strict mutation_id nd
    = publish_message talk_ops (talk_env tag) (talk_line [tag] (sv_next_lsn (mn_server nd) + 1)) (nd\<lparr>mn_server :=
        snd (append_ordered_wal_record docs_env 0 Strict
          (MessageCreated (message_draft_of (talk_env tag) 0 Strict ''r1'' ''u1'' ''hello'' mutation_id [])) (mn_server nd))\<rparr>)"
    using assms(1,3)
    by (simp add: send_message_def mn_bind_lift Let_def mid talk_checks ensure_bytes_limit_def resolve_object_refs.simps
        mn_bind_def [of "append_message _ _ _"] append map_err_def env)
  then show "fst (send_message docs_ops talk_ops (talk_env tag) ''r1'' ''u1'' ''hello'' [] Strict mutation_id nd)
      = Inr (talk_line [tag] (sv_next_lsn (mn_server nd) + 1))" by (simp add: publish_message_def)
  have served: "talk_send mutation_id tag nd = snd (send_message docs_ops talk_ops (talk_env tag) ''r1'' ''u1'' ''hello'' [] Strict mutation_id nd)"
    by (simp add: talk_send_def mutate_def mn_bind_lift mn_map_def mn_bind_def [of "send_message _ _ _ _ _ _ _ _ _"]
        env case_prod_beta split: sum.split)
  note node = served [unfolded run publish_message_def snd_conv]
  show "message_history (talk_send mutation_id tag nd) = message_history nd @ [talk_line [tag] (sv_next_lsn (mn_server nd) + 1)]"
    by (simp add: node message_history_def append_ordered_wal_record_def Let_def env messages_append messages_from_wal_records_def
        map_filter_def message_of_draft_def message_draft_of_def talk_line_def message_path_def)
  show "sv_next_lsn (mn_server (talk_send mutation_id tag nd)) = sv_next_lsn (mn_server nd) + 1"
    "sv_schema (mn_server (talk_send mutation_id tag nd)) = talk_schema"
    "mn_runtime (talk_send mutation_id tag nd)
      = apply_message (\<lambda>_. []) 7 (talk_line [tag] (sv_next_lsn (mn_server nd) + 1)) (mn_runtime nd)"
    using assms(1) by (simp_all add: node append_ordered_wal_record_def Let_def env mn_publish_def publish_delivery_event_def)
qed

lemma talk_start_fields:
  "message_history talk_start = []" "sv_next_lsn (mn_server talk_start) = 0" "sv_schema (mn_server talk_start) = talk_schema"
  "find_committed_mutation (sv_mutations (mn_server talk_start)) (Some ''retry'') = None"
  "mn_runtime talk_start = runtime_new (\<lambda>_. []) 3 0 talk_config bt_empty [] [] 1"
  "messages_from_wal_records (sv_wal (fresh_server talk_schema 0 :: (i64, unit, unit) server)) = []"
  by (simp_all add: talk_start_def first_start_def messages_started_def fresh_server_def message_history_def
      find_committed_mutation_def messages_from_wal_records_def)

definition talk_runtime :: "i64 runtime" where
  "talk_runtime = apply_message (\<lambda>_. []) 7 (talk_line ''b'' 2) (apply_message (\<lambda>_. []) 7 (talk_line ''a'' 1)
     (runtime_new (\<lambda>_. []) 3 0 talk_config bt_empty [] [] 1))"

lemma talk_fields:
  "message_history talk_two = [talk_line ''a'' 1, talk_line ''b'' 2]"
  "mn_runtime talk_two = talk_runtime"
  using talk_sent [of talk_start "Some ''retry''" "CHR ''a''"] talk_start_fields
    talk_sent [of "talk_send (Some ''retry'') (CHR ''a'') talk_start" None "CHR ''b''"]
  by (simp_all add: talk_two_def talk_runtime_def find_committed_mutation_def)

lemma talk_evicted_fields:
  "message_history talk_evicted = [talk_line ''a'' 1, talk_line ''b'' 2]"
  "mn_runtime talk_evicted = snd (evict_room (\<lambda>_. []) ''r1'' (mn_runtime talk_two))"
  "mn_server talk_evicted = mn_server talk_two" "mn_chat talk_evicted = mn_chat talk_two"
proof -
  have "trim ''r1'' = ''r1''" by code_simp
  then show "mn_runtime talk_evicted = snd (evict_room (\<lambda>_. []) ''r1'' (mn_runtime talk_two))"
    "mn_server talk_evicted = mn_server talk_two" "mn_chat talk_evicted = mn_chat talk_two"
    by (simp_all add: talk_evicted_def evict_runtime_room_def Let_def talk_env_def docs_env_def case_prod_beta)
  then show "message_history talk_evicted = [talk_line ''a'' 1, talk_line ''b'' 2]"
    using talk_fields(1) by (simp add: message_history_def)
qed

lemma talk_fresh:
  assumes "tag \<notin> (hd \<circ> msg_id) ` set (message_history nd)"
  shows "fresh_request (\<lambda>_. []) (talk_env tag) nd"
  using assms by (auto simp: fresh_request_def talk_env_def docs_env_def inj_def) (metis comp_apply image_eqI list.sel(1))+

lemma talk_step:
  assumes "tag \<notin> (hd \<circ> msg_id) ` set (message_history nd)" "sv_next_lsn (mn_server nd) < 9"
  shows "message_step docs_ops talk_ops (\<lambda>_. []) room nd (talk_send mutation_id tag nd)"
proof -
  have "unat (sv_next_lsn (mn_server nd)) < 9" using assms(2) by (simp add: word_less_nat_alt)
  then have "request_fits room (talk_env tag)
      (Mutate_Request (Send_Message ''r1'' ''u1'' ''hello'' [] Strict mutation_id)) nd"
    by (simp add: plain_def nul_def)
  then show ?thesis unfolding talk_send_def by (rule message_step_serve [OF talk_fresh [OF assms(1)]])
qed

lemma talk_run:
  "(message_step docs_ops talk_ops (\<lambda>_. []) room)\<^sup>*\<^sup>* talk_start talk_two"
  "(message_step docs_ops talk_ops (\<lambda>_. []) room)\<^sup>*\<^sup>* talk_start talk_evicted"
proof -
  note first = talk_sent [of talk_start "Some ''retry''" "CHR ''a''"]
  have "message_step docs_ops talk_ops (\<lambda>_. []) room talk_start (talk_send (Some ''retry'') (CHR ''a'') talk_start)"
    by (rule talk_step) (simp_all add: talk_start_fields)
  moreover have "message_step docs_ops talk_ops (\<lambda>_. []) room (talk_send (Some ''retry'') (CHR ''a'') talk_start) talk_two"
    unfolding talk_two_def using first by (intro talk_step) (simp_all add: talk_start_fields talk_line_def)
  ultimately show two: "(message_step docs_ops talk_ops (\<lambda>_. []) room)\<^sup>*\<^sup>* talk_start talk_two"
    by (meson r_into_rtranclp rtranclp.rtrancl_into_rtrancl)
  have "message_step docs_ops talk_ops (\<lambda>_. []) room talk_two talk_evicted"
    unfolding talk_evicted_def
    by (rule message_step_serve [OF talk_fresh]) (simp_all add: talk_fields talk_line_def)
  with two show "(message_step docs_ops talk_ops (\<lambda>_. []) room)\<^sup>*\<^sup>* talk_start talk_evicted"
    by (rule rtranclp.rtrancl_into_rtrancl)
qed

lemma talk_laws: "message_history nd = [talk_line ''a'' 1, talk_line ''b'' 2] \<Longrightarrow> log_laws talk_ops nd"
  using table_chat_laws [of "[talk_line ''a'' 1, talk_line ''b'' 2]"]
  by (simp add: log_laws_def talk_ops_def chat_room_left_def in_bucket_def talk_line_def encode_message_line_def
      table_chat_ops_def table_message_def)

lemma talk_chat:
  assumes "(message_step docs_ops talk_ops (\<lambda>_. []) ''r1'')\<^sup>*\<^sup>* talk_start nd"
    "message_history nd = [talk_line ''a'' 1, talk_line ''b'' 2]" "0 < limit"
  shows "chat_latest talk_ops ''r1'' before_lsn limit (mn_chat nd)
    = (Some (newest_page ''r1'' before_lsn limit [talk_line ''a'' 1, talk_line ''b'' 2]), mn_chat nd)"
proof -
  have "messages_inv talk_ops nd"
    using run_inv [OF assms(1) [unfolded talk_start_def] first_start_inv [OF talk_start_fields(6)] talk_laws [OF assms(2)]]
    by blast
  then show ?thesis
    using chat_page [OF _ talk_laws [OF assms(2)] _ assms(3), of "''r1''" before_lsn] assms(2) by (simp add: plain_def nul_def)
qed

lemma talk_id: "msg_id (talk_line i lsn) = i"
  by (simp add: talk_line_def)

lemma talk_env_digest: "en_sha256 (me_request (talk_env tag)) = (\<lambda>_. [])" "en_now (me_request (talk_env tag)) = 7"
  by (simp_all add: talk_env_def docs_env_def)

lemma talk_pages:
  "newest_page ''r1'' None 50 [talk_line ''a'' 1, talk_line ''b'' 2] = [talk_line ''b'' 2, talk_line ''a'' 1]"
  "newest_page ''r1'' (Some 2) 50 [talk_line ''a'' 1, talk_line ''b'' 2] = [talk_line ''a'' 1]"
  "newest_page ''r1'' (Some 2) 1 [talk_line ''a'' 1, talk_line ''b'' 2] = [talk_line ''a'' 1]"
  "normalize_limit None = 50" "normalize_limit (Some 1) = 1" "plain ''r1''"
  by (simp_all add: newest_page_def talk_line_def chat_recency_def before_bound_def sat_sub_def normalize_limit_def
      plain_def nul_def)


lemma talk_memory:
  "room_in_memory (\<lambda>_. []) ''r1'' talk_runtime = Some [talk_line ''a'' 1, talk_line ''b'' 2]"
  "rt_config talk_runtime = talk_config"
  "fst (latest_messages (\<lambda>_. []) 7 ''r1'' None 50 talk_runtime) = [talk_line ''b'' 2, talk_line ''a'' 1]"
  "has_room (\<lambda>_. []) ''r1'' (apply_messages (\<lambda>_. []) 7 [talk_line ''b'' 2, talk_line ''a'' 1]
     (snd (latest_messages (\<lambda>_. []) 7 ''r1'' None 50 talk_runtime)))"
  by code_simp+

lemma talk_gone:
  "\<not> has_room (\<lambda>_. []) ''r1'' (snd (evict_room (\<lambda>_. []) ''r1'' talk_runtime))"
  "rt_config (snd (evict_room (\<lambda>_. []) ''r1'' talk_runtime)) = talk_config"
  "fst (latest_messages (\<lambda>_. []) 7 ''r1'' (Some 2) 50 (snd (evict_room (\<lambda>_. []) ''r1'' talk_runtime))) = []"
  "has_room (\<lambda>_. []) ''r1'' (apply_messages (\<lambda>_. []) 7 [talk_line ''a'' 1]
     (snd (latest_messages (\<lambda>_. []) 7 ''r1'' (Some 2) 50 (snd (evict_room (\<lambda>_. []) ''r1'' talk_runtime)))))"
  by code_simp+

theorem read_twice_repeats_newest_witness:
  "fst (read_latest_messages talk_ops (talk_env (CHR ''e'')) ''r1'' (Some 2) None
      (snd (read_latest_messages talk_ops (talk_env (CHR ''d'')) ''r1'' None None talk_two)))
    = Inr \<lparr>mr_room_id = ''r1'', mr_source = Live_Source, mr_messages = [talk_line ''b'' 2, talk_line ''b'' 2]\<rparr>"
proof -
  obtain hot rt where l: "latest_messages (\<lambda>_. []) 7 ''r1'' None 50 talk_runtime = (hot, rt)" by fastforce
  have hot: "hot = [talk_line ''b'' 2, talk_line ''a'' 1]" using talk_memory(3) by (simp add: l)
  have "mn_runtime (snd (read_latest_messages talk_ops (talk_env (CHR ''d'')) ''r1'' None None talk_two))
    = apply_messages (\<lambda>_. []) 7 [talk_line ''b'' 2, talk_line ''a'' 1] rt"
    using talk_chat [OF talk_run(1) talk_fields(1), of 50 None]
    by (simp add: read_latest_messages_def Let_def talk_env_digest talk_pages talk_fields(2) l hot talk_id)
  then have "has_room (\<lambda>_. []) ''r1'' (mn_runtime (snd (read_latest_messages talk_ops (talk_env (CHR ''d'')) ''r1'' None None talk_two)))"
    using talk_memory(4) by (simp add: l)
  from read_twice_repeats_newest [OF talk_run(1) [unfolded talk_start_def] talk_start_fields(6) talk_laws [OF talk_fields(1)]
      talk_pages(6) talk_env_digest(1) talk_env_digest(1) talk_memory(1) [folded talk_fields(2)] _ _ _ _ this]
  show ?thesis
    using talk_fields(1) [unfolded message_history_def] talk_memory(2) talk_fields(2)
    by (simp add: talk_pages talk_config_def talk_line_def Let_def)
qed

theorem older_page_hides_newer_witness:
  "fst (read_latest_messages talk_ops (talk_env (CHR ''e'')) ''r1'' (Some 1) None
      (snd (read_latest_messages talk_ops (talk_env (CHR ''d'')) ''r1'' None (Some 2) talk_evicted)))
    = Inr \<lparr>mr_room_id = ''r1'', mr_source = Live_Source, mr_messages = [talk_line ''a'' 1]\<rparr>
   \<and> talk_line ''b'' 2 \<in> set (messages_from_wal_records (sv_wal (mn_server talk_evicted)))"
proof -
  let ?rt = "snd (evict_room (\<lambda>_. []) ''r1'' talk_runtime)"
  obtain hot rt where l: "latest_messages (\<lambda>_. []) 7 ''r1'' (Some 2) 50 ?rt = (hot, rt)" by fastforce
  have hot: "hot = []" using talk_gone(3) by (simp add: l)
  have runtime: "mn_runtime talk_evicted = ?rt" by (simp add: talk_evicted_fields(2) talk_fields(2))
  have history: "messages_from_wal_records (sv_wal (mn_server talk_evicted)) = [talk_line ''a'' 1, talk_line ''b'' 2]"
    using talk_evicted_fields(1) by (simp add: message_history_def)
  have "mn_runtime (snd (read_latest_messages talk_ops (talk_env (CHR ''d'')) ''r1'' None (Some 2) talk_evicted))
    = apply_messages (\<lambda>_. []) 7 [talk_line ''a'' 1] rt"
    using talk_chat [OF talk_run(2) talk_evicted_fields(1), of 50 "Some 2"]
    by (simp add: read_latest_messages_def Let_def talk_env_digest talk_pages runtime l hot)
  then have "has_room (\<lambda>_. []) ''r1''
      (mn_runtime (snd (read_latest_messages talk_ops (talk_env (CHR ''d'')) ''r1'' None (Some 2) talk_evicted)))"
    using talk_gone(4) by (simp add: l)
  from older_page_hides_newer [OF talk_run(2) [unfolded talk_start_def] talk_start_fields(6)
      talk_laws [OF talk_evicted_fields(1)] talk_pages(6) talk_env_digest(1) talk_env_digest(1) _ _ this, of "Some 1" "CHR ''e''"]
  show ?thesis
    using talk_gone(1,2) by (simp add: runtime history talk_pages talk_pages(3,5) [unfolded One_nat_def] talk_config_def)
qed


end
