(* ===== verification/Spec2Isabelle.thy ===== *)
theory Spec2Isabelle
  imports Wal_Writer Wal_Archive Subscription_Router Record_Hazards Record_List Reminder_Runs Message_Runs
begin

text \<open>
  Verification development of NextDB, the database server in
  \<open>crates/nextdb-server/src\<close>. File names below are relative to that directory.

  \<^bold>\<open>The program.\<close> A client writes rows of declared tables. A write is validated against the
  schema, appended to the write-ahead log of its shard (a task that writes batches, sends them
  to replicas and answers each append), and then published: the row goes into an in-memory cache,
  a job for the on-disk projection is queued, and an event is routed to the subscribers. A task
  of its own applies the queued jobs to the projection. Reads merge cache and projection. A
  restart rebuilds what memory held from the log. The log rotates into archives, is compacted,
  repaired from replicas and recovered after a crash.

  \<^bold>\<open>The theories, and what they model.\<close>

  \<^item> \<open>Prelude\<close>: words, results (\<open>'e + 'a\<close>), \<open>str\<close> operations. \<open>Ordered_Map\<close>: \<open>BTreeMap\<close> and
    \<open>BTreeSet\<close> as sorted association lists. \<open>Json\<close>: JSON and the binary form of it
    (\<open>model.rs\<close>). \<open>Util\<close>: \<open>util.rs\<close>. \<open>Model\<close>: entities, drafts, payloads, log records and their
    checksum (\<open>model.rs\<close>).
  \<^item> The log, \<open>wal.rs\<close>. \<open>Wal_Binary\<close>: the structures that postcard serialises. \<open>Wal_Frame\<close>: frames,
    the strict and the recovering decoder. \<open>Wal_Remote\<close>: acknowledgement policies, replication
    and repair of replicas. \<open>Wal_Writer\<close>: admission and the batch writer, over a file of bytes
    of which a prefix is known to be on disk. \<open>Wal_Archive\<close>: segments, archives, reads across
    them and compaction.
  \<^item> \<open>Schema\<close>: the schema registry and its migrations (\<open>schema.rs\<close>).
  \<^item> \<open>Record_Hot\<close>: the cache of rows (\<open>record_hot.rs\<close>). \<open>Record_Projection\<close> and \<open>Record_Index\<close>:
    the projection on disk (\<open>record_projection.rs\<close>, \<open>record_store.rs\<close>), keyspace by keyspace.
    \<open>Object_Refs\<close>: \<open>object_refs.rs\<close>.
  \<^item> \<open>Mutation_Index\<close>, \<open>Record_Server\<close>, \<open>Record_Transaction\<close>: the record requests
    (\<open>api/records.rs\<close>, \<open>api/mutation.rs\<close>, \<open>api/wal.rs\<close>, \<open>api/guards.rs\<close>), the applier and the
    restart (\<open>main.rs\<close>). A handler is a function of the state-and-error monad \<open>server\<close> of
    \<open>Record_Server\<close>; a step that fails keeps the state of the steps before it. \<open>Record_Scan\<close> and
    \<open>Record_List\<close>: list and index queries, in the monad \<open>search\<close> whose value may be missing,
    because a loop over pages need not end by itself.
  \<^item> \<open>Record_Flow\<close>, \<open>Record_Guarantees\<close>, \<open>Record_Hazards\<close>: what holds of runs of these requests,
    and what does not.
  \<^item> Actors (\<open>actor.rs\<close>). \<open>Actor\<close>: what a shard of actors holds and the requests its thread
    answers, rooms of messages, scopes of rows, the directory of a table. \<open>Actor_Runtime\<close>: the
    handle over all shards, eviction, the split of scopes, reminders, snapshots and the replay of
    the log tail. \<open>Actor_Rooms\<close>, \<open>Actor_Residency\<close>, \<open>Actor_Rows\<close>, \<open>Actor_Guarantees\<close>: their
    invariants and properties.
  \<^item> \<open>Reminder_Server\<close>: the reminder requests and the callbacks of HTTP requests
    (\<open>api/runtime.rs\<close>, \<open>api/behavior.rs\<close>) over the server, the actor runtime and the two indexes
    rebuilt from the log; \<open>Reminder_Recovery\<close> and \<open>Reminder_Runs\<close>: the log against memory.
  \<^item> \<open>Chat_Log\<close>: the history of messages (\<open>chat_log.rs\<close>), bucket files with their index and the
    projection of messages; \<open>Chat_History\<close> and \<open>Chat_Pages\<close>: what it answers.
  \<^item> \<open>User_Store\<close>: users and inboxes in memory (\<open>api/users.rs\<close>). \<open>Message_Server\<close>: the requests
    about messages, events, users and rooms (\<open>api/mutation.rs\<close>, \<open>api/users.rs\<close>, \<open>api/runtime.rs\<close>,
    \<open>api/wal.rs\<close>), over the server, the actor runtime, the chat log and the users.
    \<open>Message_Rooms\<close>: what an apply, an eviction and a read do to one room in memory.
    \<open>Message_Pages\<close> and \<open>Message_Runs\<close>: a room in memory against its history, along runs of requests.
  \<^item> \<open>Subscription_Router\<close>: which subscriptions of a connection an event reaches
    (\<open>live_query.rs\<close>, \<open>api/frames.rs\<close>).

  \<^bold>\<open>What the lemmas show.\<close>

  \<^item> Log: what a strict append acknowledged is recovered whole from every crash image, a torn
    file is recovered to its intact prefix, the two decoders agree, every append is answered once,
    compaction and archives lose nothing, and the acknowledgement policy is met exactly.
  \<^item> Rows: the projection refines a table of rows (a simulation of every write); its indexes,
    orders and cursors are queries of that table; unique indexes hold; the cache keeps its
    invariant through every operation.
  \<^item> Requests: every request logs at most one record and queues the job that carries it; so the
    projection reaches the table of the log when the applier runs on, a client mutation is logged
    at most once and its retries are answered alike, point reads and list queries return the rows
    that are live in cache and projection, and every loop over pages of a projection ends.
  \<^item> Actors: room actors are counted exactly and bounded in every run, a room holds the newest
    messages of those applied to it, a split and an upsert of a scope return and lose no row.
    Reminders: wheel and indexes are at all times what a start rebuilds from the log. History: a
    page is the newest messages of the room under the bound, by projection or by bucket index.
  \<^item> Messages: while the room in memory is the end of its history, a read answers the newest
    messages of the log; sends, evictions, activations of a room that is not in memory and reads
    that memory answers alone keep it so. Retries are sent once; users and inboxes in memory are
    those of the log; the pages of users leave nobody out.
  \<^item> Divergences: a read that completes a page from the history repeats the newest message in
    the room, a page of older messages hides the newer ones, a reminder that fails takes those behind it off the wheel, one scheduled again
    while it fires is lost by a restart, messages logged but not in the history at a crash stay
    out of it, rows queued at a restart stay out of the projection, two publications may cross,
    version checks and deletes read a projection that lags, and others at their theories.

  \<^bold>\<open>Modelling choices.\<close> \<open>String\<close> is a list of bytes (\<open>string\<close>); \<open>u64\<close> is \<open>64 word\<close>; lengths and
  counts in memory are \<open>nat\<close>. A \<open>HashMap\<close> whose order is not observable is an ordered map. The
  clock is an argument. JSON numbers, SHA-256, CRC-32C, the JSON and postcard codecs, replies of
  replicas and outcomes of file operations are parameters, collected in the records
  \<open>number_ops\<close>, \<open>digest_ops\<close>, \<open>schema_ops\<close>, \<open>frame_ops\<close>, \<open>envelope_ops\<close>, \<open>index_ops\<close>,
  \<open>chat_ops\<close> and \<open>behavior_env\<close>; what
  is needed of them is a named predicate with an instance in the witnesses. A keyspace of the
  storage engine is an ordered map from byte keys to decoded rows. A crash leaves any prefix of the
  file that contains the synced bytes. Handlers are atomic except where a theorem splits them.
  Message ids are drawn from the environment of a request; runs assume them fresh.

  \<^bold>\<open>Termination.\<close> Loops over data are structural or have a measure. The loops over pages are
  partial functions into \<open>option\<close>; on every projection that implements a table they are shown to
  return (\<open>Record_Scan\<close>). For range scans by index this is not shown. The loop that splits a scope
  is partial too; it returns because every round replaces a scope by two deeper ones and the depth
  is bounded, so the sum of \<open>3 ^ (33 - depth)\<close> over the queue decreases. No fuel is used.

  \<^bold>\<open>Not modelled.\<close> The running of behaviors (a parameter of the reminder requests), the thread
  and channels of a shard (its requests are functions), presence, objects, backups, cluster
  topology, the connection protocol and the HTTP layer; generation of
  TypeScript from a schema; the Rust and TypeScript client packages. Timeouts are not modelled: a
  wait is either met or refused. The manifest lists every part with its reason.
\<close>

end
